(* ===== verification/EggHex.thy ===== *)
theory EggHex
  imports Prelude
begin

text \<open>
  Hexadecimal encoding and decoding, \<^verbatim>\<open>egg/egg-hex.c\<close>. Characters are bytes. A decoder
  result is the pointer returned (\<open>None\<close> for \<^verbatim>\<open>NULL\<close>) and the value left in
  \<open>*n_decoded\<close>.
\<close>

subsection \<open>Definitions\<close>

definition HEXC_UPPER :: bytes where
  "HEXC_UPPER = [48, 49, 50, 51, 52, 53, 54, 55, 56, 57, 65, 66, 67, 68, 69, 70]"

definition HEXC_LOWER :: bytes where
  "HEXC_LOWER = [48, 49, 50, 51, 52, 53, 54, 55, 56, 57, 97, 98, 99, 100, 101, 102]"

text \<open>\<^verbatim>\<open>g_ascii_toupper\<close> and \<^verbatim>\<open>strchr\<close>, whose search includes the terminating NUL.\<close>

definition ascii_toupper :: "byte \<Rightarrow> byte" where
  "ascii_toupper c = (if 97 \<le> c \<and> c \<le> 122 then c - 32 else c)"

fun find_index :: "byte \<Rightarrow> bytes \<Rightarrow> nat \<Rightarrow> nat option" where
  "find_index c [] i = None"
| "find_index c (x # xs) i = (if x = c then Some i else find_index c xs (Suc i))"

definition strchr :: "bytes \<Rightarrow> byte \<Rightarrow> nat option" where
  "strchr s c = find_index c (s @ [0]) 0"

text \<open>
  The inner loop of the decoder, over the characters of one group: \<open>part\<close>, \<open>state\<close>, the
  byte under \<open>decoded\<close>, the bytes before it, and the remaining input.
\<close>

fun hex_inner :: "nat \<Rightarrow> nat \<Rightarrow> int \<Rightarrow> byte \<Rightarrow> bytes \<Rightarrow> bytes \<Rightarrow> int \<times> byte \<times> bytes \<times> bytes" where
  "hex_inner grp part state cur out [] = (state, cur, out, [])"
| "hex_inner grp part state cur out (d # ds) =
     (if part < grp then
        (case strchr HEXC_UPPER (ascii_toupper d) of
           None \<Rightarrow> (-1, cur, out, d # ds)
         | Some j \<Rightarrow>
             if state = 0
             then hex_inner grp part 1 (push_bit 4 (word_of_nat j AND 0xf)) out ds
             else hex_inner grp (Suc part) 0 0 (out @ [cur OR (word_of_nat j AND 0xf)]) ds)
      else (state, cur, out, d # ds))"

lemma hex_inner_shrinks:
  "hex_inner grp part state cur out data = (st, c, o', rest) \<Longrightarrow> length rest \<le> length data"
  by (induction grp part state cur out data rule: hex_inner.induct)
    (auto split: if_splits option.splits)

lemma hex_inner_progress:
  "hex_inner grp 0 0 cur out data = (0, c, o', rest) \<Longrightarrow> 0 < grp \<Longrightarrow> data \<noteq> [] \<Longrightarrow>
     length rest < length data"
  by (cases data) (auto split: option.splits dest!: hex_inner_shrinks)

lemma hex_inner_decrease:
  assumes "hex_inner (Suc g) 0 0 0 out (if P then tl data else data) = (0, c, o', rest)"
    and "data \<noteq> []"
  shows "length rest < length data"
  using assms hex_inner_shrinks [OF assms(1)] hex_inner_progress [of "Suc g" 0 out data c o' rest]
  by (cases P; cases data) auto

text \<open>
  The outer loop, entered with \<open>state = 0\<close> and \<open>part = 0\<close>; \<open>g\<close> is \<open>group - 1\<close>, the group
  having been checked to be at least one. A delimiter is expected before every group but
  the first.
\<close>

function hex_outer :: "byte \<Rightarrow> nat \<Rightarrow> bytes \<Rightarrow> bytes \<Rightarrow> int \<times> bytes" where
  "hex_outer delim g out data =
     (if data = [] then (0, out)
      else if out \<noteq> [] \<and> delim \<noteq> 0 \<and> hd data \<noteq> delim then (-1, out)
      else
        let data' = (if out \<noteq> [] \<and> delim \<noteq> 0 then tl data else data)
        in case hex_inner (Suc g) 0 0 0 out data' of
             (state, cur, out', rest) \<Rightarrow>
               if state = 0 then hex_outer delim g out' rest else (state, out'))"
  by pat_completeness auto
termination
  by (relation "measure (\<lambda>(delim, g, out, data). length data)")
    (auto dest!: hex_inner_decrease [OF sym])

declare hex_outer.simps [simp del]

text \<open>\<open>n_data\<close> is \<open>None\<close> for the argument \<open>-1\<close>, the length of the C string.\<close>

definition egg_hex_decode_full ::
    "bytes \<Rightarrow> nat option \<Rightarrow> byte \<Rightarrow> nat \<Rightarrow> bytes option \<times> nat" where
  "egg_hex_decode_full data n_data delim grp =
     (if grp < 1 then (None, 0)
      else
        let input = (case n_data of None \<Rightarrow> c_str data | Some n \<Rightarrow> take n data)
        in case hex_outer delim (grp - 1) [] input of
             (state, out) \<Rightarrow> (if state \<noteq> 0 then None else Some out, length out))"

definition egg_hex_decode :: "bytes \<Rightarrow> nat option \<Rightarrow> bytes option \<times> nat" where
  "egg_hex_decode data n_data = egg_hex_decode_full data n_data 0 1"

fun hex_encode_loop :: "bytes \<Rightarrow> byte \<Rightarrow> nat \<Rightarrow> nat \<Rightarrow> bytes \<Rightarrow> bytes" where
  "hex_encode_loop hexc delim grp n [] = []"
| "hex_encode_loop hexc delim grp n (x # xs) =
     (if grp \<noteq> 0 \<and> n \<noteq> 0 \<and> n mod grp = 0 then [delim] else [])
     @ [hexc ! unat (drop_bit 4 x AND 0xf), hexc ! unat (x AND 0xf)]
     @ hex_encode_loop hexc delim grp (Suc n) xs"

definition egg_hex_encode_full :: "bytes \<Rightarrow> bool \<Rightarrow> byte \<Rightarrow> nat \<Rightarrow> bytes" where
  "egg_hex_encode_full data upper_case delim grp =
     hex_encode_loop (if upper_case then HEXC_UPPER else HEXC_LOWER) delim grp 0 data"

definition egg_hex_encode :: "bytes \<Rightarrow> bytes" where
  "egg_hex_encode data = egg_hex_encode_full data True 0 0"

subsection \<open>Digits\<close>

definition hex_alphabet :: "bytes \<Rightarrow> bool" where
  "hex_alphabet hexc \<longleftrightarrow> hexc = HEXC_UPPER \<or> hexc = HEXC_LOWER"

lemma strchr_upper: "\<forall>j \<in> set [0..<16]. strchr HEXC_UPPER (ascii_toupper (HEXC_UPPER ! j)) = Some j"
  by code_simp

lemma strchr_lower: "\<forall>j \<in> set [0..<16]. strchr HEXC_UPPER (ascii_toupper (HEXC_LOWER ! j)) = Some j"
  by code_simp

lemma strchr_digit:
  "hex_alphabet hexc \<Longrightarrow> j < 16 \<Longrightarrow> strchr HEXC_UPPER (ascii_toupper (hexc ! j)) = Some j"
  using strchr_upper strchr_lower by (auto simp: hex_alphabet_def)

lemma nibble_bound: "unat ((x :: byte) AND 0xf) < 16"
proof -
  have "unat (x AND 0xf) \<le> unat (0xf :: byte)"
    by (rule word_and_le1 [THEN word_le_nat_alt [THEN iffD1]])
  then show ?thesis by simp
qed

lemma join_nibbles:
  "push_bit 4 ((drop_bit 4 x AND 0xf) AND 0xf) OR ((x AND 0xf) AND 0xf) = (x :: byte)"
proof -
  have m: "(0xf :: byte) = mask 4" by (simp add: mask_eq_exp_minus_1)
  show ?thesis unfolding m by (rule bit_word_eqI) (auto simp: bit_simps)
qed

lemmas join_nibbles_simp = join_nibbles [simplified]

lemma hex_inner_pair:
  assumes "hex_alphabet hexc" and "part < grp"
  shows "hex_inner grp part 0 cur out
      ([hexc ! unat (drop_bit 4 x AND 0xf), hexc ! unat (x AND 0xf)] @ rest)
    = hex_inner grp (Suc part) 0 0 (out @ [x]) rest"
  using assms by (simp add: strchr_digit [OF assms(1)] nibble_bound join_nibbles_simp)

subsection \<open>Decoding what was encoded\<close>

text \<open>
  What follows in the encoding once the delimiter of the next byte, if any, has been read.
\<close>

definition hex_rest :: "bytes \<Rightarrow> byte \<Rightarrow> nat \<Rightarrow> nat \<Rightarrow> bytes \<Rightarrow> bytes" where
  "hex_rest hexc delim grp n bs =
     (case bs of [] \<Rightarrow> []
      | x # xs \<Rightarrow> [hexc ! unat (drop_bit 4 x AND 0xf), hexc ! unat (x AND 0xf)]
          @ hex_encode_loop hexc delim grp (Suc n) xs)"

lemma hex_encode_loop_rest:
  "hex_encode_loop hexc delim grp n bs =
     (if bs \<noteq> [] \<and> grp \<noteq> 0 \<and> n \<noteq> 0 \<and> n mod grp = 0 then [delim] else [])
     @ hex_rest hexc delim grp n bs"
  by (cases bs) (simp_all add: hex_rest_def)

text \<open>The run of the decoder from the middle of a group.\<close>

definition hex_resume :: "byte \<Rightarrow> nat \<Rightarrow> int \<times> byte \<times> bytes \<times> bytes \<Rightarrow> int \<times> bytes" where
  "hex_resume delim g r =
     (case r of (state, cur, out, rest) \<Rightarrow>
        if state = 0 then hex_outer delim g out rest else (state, out))"

lemma hex_outer_nil: "hex_outer delim g out [] = (0, out)"
  by (simp add: hex_outer.simps)

lemma hex_outer_delim:
  "out \<noteq> [] \<Longrightarrow> delim \<noteq> 0 \<Longrightarrow>
     hex_outer delim g out (delim # data) = hex_resume delim g (hex_inner (Suc g) 0 0 0 out data)"
  by (subst hex_outer.simps) (simp add: hex_resume_def split: prod.splits)

lemma hex_outer_plain:
  "out = [] \<or> delim = 0 \<Longrightarrow> hex_outer delim g out data = hex_resume delim g (hex_inner (Suc g) 0 0 0 out data)"
  by (cases "data = []")
    (auto simp: hex_outer_nil hex_resume_def hex_outer.simps [of delim g out data] split: prod.splits)

lemma hex_resume_full: "part = Suc g \<Longrightarrow>
    hex_resume delim g (hex_inner (Suc g) part 0 cur out data) = hex_outer delim g out data"
  by (cases data) (simp_all add: hex_resume_def)

lemma hex_resume_encoded:
  assumes a: "hex_alphabet hexc"
    and sep: "(grp = Suc g \<and> d = delim \<and> delim \<noteq> 0) \<or> (grp = 0 \<and> delim = 0)"
  shows "part \<le> g \<Longrightarrow> (grp \<noteq> 0 \<longrightarrow> n mod grp = part) \<Longrightarrow>
    hex_resume delim g (hex_inner (Suc g) part 0 cur out (hex_rest hexc d grp n bs)) = (0, out @ bs)"
proof (induction bs arbitrary: n part cur out)
  case Nil
  then show ?case by (simp add: hex_rest_def hex_resume_def hex_outer_nil)
next
  case (Cons x bs)
  have step: "hex_inner (Suc g) part 0 cur out (hex_rest hexc d grp n (x # bs))
      = hex_inner (Suc g) (Suc part) 0 0 (out @ [x]) (hex_encode_loop hexc d grp (Suc n) bs)"
    using hex_inner_pair [OF a, of part "Suc g"] Cons.prems(1) by (simp add: hex_rest_def)
  show ?case
  proof (cases "part = g")
    case False
    then have "Suc part \<le> g" "grp \<noteq> 0 \<longrightarrow> Suc n mod grp = Suc part"
      using Cons.prems sep by (auto simp: mod_Suc)
    moreover from this have "hex_encode_loop hexc d grp (Suc n) bs = hex_rest hexc d grp (Suc n) bs"
      by (auto simp: hex_encode_loop_rest [of _ _ _ "Suc n"])
    ultimately show ?thesis
      using step Cons.IH [of "Suc part" "Suc n" 0 "out @ [x]"] by simp
  next
    case True
    then have mod0: "grp \<noteq> 0 \<longrightarrow> Suc n mod grp = 0"
      using Cons.prems sep by (auto simp: mod_Suc)
    have next_group: "hex_resume delim g (hex_inner (Suc g) 0 0 0 (out @ [x])
        (hex_rest hexc d grp (Suc n) bs)) = (0, out @ x # bs)"
      using Cons.IH [of 0 "Suc n" 0 "out @ [x]"] mod0 by simp
    have "hex_outer delim g (out @ [x]) (hex_encode_loop hexc d grp (Suc n) bs) = (0, out @ x # bs)"
      using sep
    proof
      assume s: "grp = Suc g \<and> d = delim \<and> delim \<noteq> 0"
      show ?thesis
      proof (cases "bs = []")
        case True
        then show ?thesis by (simp add: hex_outer_nil)
      next
        case False
        with s mod0 next_group show ?thesis
          by (simp add: hex_encode_loop_rest [of _ _ _ "Suc n"] hex_outer_delim)
      qed
    next
      assume "grp = 0 \<and> delim = 0"
      with next_group show ?thesis
        by (simp add: hex_encode_loop_rest [of _ _ _ "Suc n"] hex_outer_plain)
    qed
    with step True show ?thesis by (simp add: hex_resume_full)
  qed
qed

lemma hex_outer_encoded:
  assumes "hex_alphabet hexc"
    and "(grp = Suc g \<and> d = delim \<and> delim \<noteq> 0) \<or> (grp = 0 \<and> delim = 0)"
  shows "hex_outer delim g [] (hex_encode_loop hexc d grp 0 bs) = (0, bs)"
  using hex_resume_encoded [OF assms, of 0 0 0 "[]" bs]
  by (simp add: hex_encode_loop_rest [of _ _ _ 0] hex_outer_plain)

subsection \<open>Properties\<close>

text \<open>C33: Decoding is the inverse of encoding, in either letter case and with any grouping: bytes
  encoded with a delimiter between groups are decoded with that delimiter and group size,
  and bytes encoded without one are decoded by \<open>egg_hex_decode\<close>.\<close>

theorem egg_hex_roundtrip:
  assumes "0 < grp" and "delim \<noteq> 0"
  shows "egg_hex_decode_full (egg_hex_encode_full bs upper delim grp)
      (Some (length (egg_hex_encode_full bs upper delim grp))) delim grp = (Some bs, length bs)
    \<and> egg_hex_decode (egg_hex_encode_full bs upper d 0)
        (Some (length (egg_hex_encode_full bs upper d 0))) = (Some bs, length bs)"
proof -
  have a: "hex_alphabet (if upper then HEXC_UPPER else HEXC_LOWER)"
    by (simp add: hex_alphabet_def)
  from assms have "grp = Suc (grp - 1)" by simp
  then show ?thesis
    using hex_outer_encoded [OF a, of grp "grp - 1" delim delim bs] assms
      hex_outer_encoded [OF a, of 0 0 d 0 bs]
    by (simp add: egg_hex_decode_full_def egg_hex_decode_def egg_hex_encode_full_def)
qed

theorem egg_hex_roundtrip_witness:
  "egg_hex_decode_full (egg_hex_encode_full [0xDE, 0xAD, 0x01] False 58 1)
     (Some (length (egg_hex_encode_full [0xDE, 0xAD, 0x01] False 58 1))) 58 1
       = (Some [0xDE, 0xAD, 0x01], 3)
   \<and> length (egg_hex_encode_full [0xDE, 0xAD, 0x01] False 58 1) = 8"
  using egg_hex_roundtrip [of 1 58 "[0xDE, 0xAD, 0x01]" False]
  by (simp add: egg_hex_encode_full_def)

lemma hex_encode_chars:
  "length (egg_hex_encode_full bs upper delim 0) = 2 * length bs
   \<and> set (egg_hex_encode_full bs upper delim 0) \<subseteq> set (if upper then HEXC_UPPER else HEXC_LOWER)"
proof -
  let ?hexc = "if upper then HEXC_UPPER else HEXC_LOWER"
  have len: "length ?hexc = 16" by (simp add: HEXC_UPPER_def HEXC_LOWER_def)
  have digit: "?hexc ! unat (x AND 0xf) \<in> set ?hexc" for x :: byte
    using nibble_bound [of x] len by simp
  have "length (hex_encode_loop ?hexc delim 0 n bs) = 2 * length bs
      \<and> set (hex_encode_loop ?hexc delim 0 n bs) \<subseteq> set ?hexc" for n
  proof (induction bs arbitrary: n)
    case (Cons x xs)
    then show ?case using digit [of x] digit [of "drop_bit 4 x"] by simp
  qed simp
  then show ?thesis by (simp add: egg_hex_encode_full_def)
qed

text \<open>The encoding has two digits per byte, all of them from the alphabet asked for, and
  contains no NUL, so it is a C string.\<close>

lemma egg_hex_encode_shape:
  "length (egg_hex_encode_full bs upper delim 0) = 2 * length bs
   \<and> set (egg_hex_encode_full bs upper delim 0) \<subseteq> set (if upper then HEXC_UPPER else HEXC_LOWER)
   \<and> c_str (egg_hex_encode_full bs upper delim 0) = egg_hex_encode_full bs upper delim 0"
proof -
  have "0 \<notin> set (if upper then HEXC_UPPER else HEXC_LOWER)" by (simp add: HEXC_UPPER_def HEXC_LOWER_def)
  then show ?thesis using hex_encode_chars [of bs upper delim] by (metis c_str_id subsetD)
qed

text \<open>The decoder takes a NUL character for the digit zero, because \<^verbatim>\<open>strchr\<close> also finds the
  terminator of the digit table, and it accepts a delimiter with nothing behind it.\<close>

lemma egg_hex_decode_lenient:
  "egg_hex_decode [0, 0] (Some 2) = (Some [0], 1)
   \<and> egg_hex_decode_full [65, 66, 58] (Some 3) 58 1 = (Some [0xAB], 1)"
  by code_simp

end
