(* ===== verification/EggPadding.thy ===== *)
theory EggPadding
  imports Prelude
begin

text \<open>
  Block padding, \<^verbatim>\<open>egg/egg-padding.c\<close>: zero, PKCS\#1 (types 1 and 2) and PKCS\#7 padding,
  used when keys and secrets are wrapped.

  \<open>alloc n\<close> is the call \<^verbatim>\<open>(alloc) (NULL, n)\<close>: the block returned, \<open>None\<close> for
  \<^verbatim>\<open>NULL\<close>. \<open>want\<close> tells whether the caller passed a place for the result. A result is the
  boolean returned, the size stored and the block stored; the outer \<open>None\<close> is a fault.
\<close>

type_synonym alloc = "nat \<Rightarrow> bytes option"
type_synonym pad_result = "(bool \<times> nat \<times> bytes option) option"

subsection \<open>Random padding bytes\<close>

text \<open>
  libgcrypt's generator is a parameter: \<open>rnd i n\<close> is what the \<open>i\<close>-th request, for \<open>n\<close>
  bytes, returned. The counters are of 32 bits and the length is of 64, so that the loops over
  the data need not end; the outer loop asks again while zeros are left and need not end either.
  All three are partial functions.
\<close>

partial_function (option) count_zeros_loop :: "bytes \<Rightarrow> 32 word \<Rightarrow> 32 word \<Rightarrow> 32 word option" where
  "count_zeros_loop data n_zero i =
     (if unat i < length data
      then count_zeros_loop data (if data ! unat i = 0 then n_zero + 1 else n_zero) (i + 1)
      else Some n_zero)"

partial_function (option) replace_zeros_loop ::
    "bytes \<Rightarrow> bytes \<Rightarrow> 32 word \<Rightarrow> 32 word \<Rightarrow> 32 word \<Rightarrow> (32 word \<times> bytes) option" where
  "replace_zeros_loop rs data i j n_zero =
     (if unat i < length data
      then if data ! unat i \<noteq> 0 then replace_zeros_loop rs data (i + 1) j n_zero
           else if \<not> unat j < length rs then None
           else replace_zeros_loop rs (data[unat i := rs ! unat j]) (i + 1) (j + 1)
                  (if rs ! unat j = 0 then n_zero + 1 else n_zero)
      else Some (n_zero, data))"

partial_function (option) fill_nonzero_loop ::
    "(nat \<Rightarrow> nat \<Rightarrow> bytes) \<Rightarrow> nat \<Rightarrow> 32 word \<Rightarrow> bytes \<Rightarrow> bytes option" where
  "fill_nonzero_loop rnd i n_zero data =
     (if n_zero > 0
      then do {
        (n_zero1, data1) \<leftarrow> replace_zeros_loop (rnd i (unat n_zero)) data 0 0 0;
        fill_nonzero_loop rnd (Suc i) n_zero1 data1
      }
      else Some data)"

definition fill_random_nonzero :: "(nat \<Rightarrow> nat \<Rightarrow> bytes) \<Rightarrow> nat \<Rightarrow> bytes option" where
  "fill_random_nonzero rnd n = do {
     let data = rnd 0 n;
     n_zero \<leftarrow> count_zeros_loop data 0 0;
     fill_nonzero_loop rnd 1 n_zero data
   }"

subsection \<open>Padding\<close>

text \<open>Storing the result in a fresh block, the tail all padding functions share.\<close>

definition store_padded :: "alloc \<Rightarrow> bool \<Rightarrow> nat \<Rightarrow> bytes \<Rightarrow> pad_result" where
  "store_padded alloc want n_padded content =
     (if \<not> want then Some (True, n_padded, None)
      else case alloc (max n_padded 1) of
             None \<Rightarrow> Some (False, n_padded, None)
           | Some m \<Rightarrow> do {
               m' \<leftarrow> mem_write m 0 content;
               Some (True, n_padded, Some m')
             })"

definition egg_padding_zero_pad :: "alloc \<Rightarrow> bool \<Rightarrow> nat \<Rightarrow> bytes \<Rightarrow> pad_result" where
  "egg_padding_zero_pad alloc want block raw =
     (if block = 0 then Some (False, 0, None)
      else
        let n_raw = length raw;
            n_padded = size_mul (size_add n_raw (block - 1) div block) block
        in if \<not> n_raw \<le> n_padded then None
           else if \<not> n_padded - n_raw < block then None
           else store_padded alloc want n_padded (replicate (n_padded - n_raw) 0 @ raw))"

definition egg_padding_pkcs1_pad_01 :: "alloc \<Rightarrow> bool \<Rightarrow> nat \<Rightarrow> bytes \<Rightarrow> pad_result" where
  "egg_padding_pkcs1_pad_01 alloc want block raw =
     (if block = 0 then Some (False, 0, None)
      else if \<not> block > 3 then Some (False, 0, None)
      else
        let n_raw = length raw;
            n_padded = size_mul (size_add (size_add n_raw 3) (block - 1) div block) block
        in if \<not> n_raw \<le> n_padded then None
           else let n_pad = n_padded - n_raw
                in if \<not> n_pad \<le> block then None
                   else if \<not> n_pad \<ge> 3 then None
                   else store_padded alloc want n_padded
                          ([0, 1] @ replicate (n_pad - 3) 0xff @ [0] @ raw))"

definition egg_padding_pkcs1_pad_02 ::
    "(nat \<Rightarrow> nat \<Rightarrow> bytes) \<Rightarrow> alloc \<Rightarrow> bool \<Rightarrow> nat \<Rightarrow> bytes \<Rightarrow> pad_result" where
  "egg_padding_pkcs1_pad_02 rnd alloc want block raw =
     (if block = 0 then Some (False, 0, None)
      else if \<not> block > 3 then Some (False, 0, None)
      else
        let n_raw = length raw;
            n_padded = size_mul (size_add (size_add n_raw 3) (block - 1) div block) block
        in if \<not> n_raw \<le> n_padded then None
           else let n_pad = n_padded - n_raw
                in if \<not> n_pad \<le> block then None
                   else if \<not> n_pad \<ge> 3 then None
                   else if \<not> want then Some (True, n_padded, None)
                   else case alloc (max n_padded 1) of
                          None \<Rightarrow> Some (False, n_padded, None)
                        | Some m \<Rightarrow> do {
                            fill \<leftarrow> fill_random_nonzero rnd (n_pad - 3);
                            m' \<leftarrow> mem_write m 0 ([0, 2] @ fill @ [0] @ raw);
                            Some (True, n_padded, Some m')
                          })"

definition egg_padding_pkcs7_pad :: "alloc \<Rightarrow> bool \<Rightarrow> nat \<Rightarrow> bytes \<Rightarrow> pad_result" where
  "egg_padding_pkcs7_pad alloc want block raw =
     (if block = 0 then Some (False, 0, None)
      else if \<not> block < 256 then Some (False, 0, None)
      else
        let n_raw = length raw;
            n_padded = size_mul (size_add n_raw block div block) block
        in if \<not> n_raw < n_padded then None
           else let n_pad = n_padded - n_raw
                in if \<not> (n_pad > 0 \<and> n_pad \<le> block) then None
                   else store_padded alloc want n_padded
                          (raw @ replicate n_pad (word_of_nat n_pad)))"

subsection \<open>Removing padding\<close>

text \<open>The raw data goes to a block one byte longer, closed by a NUL.\<close>

definition store_raw :: "alloc \<Rightarrow> bool \<Rightarrow> bytes \<Rightarrow> pad_result" where
  "store_raw alloc want raw =
     (if \<not> want then Some (True, length raw, None)
      else case alloc (length raw + 1) of
             None \<Rightarrow> Some (False, length raw, None)
           | Some m \<Rightarrow> do {
               m1 \<leftarrow> mem_write m 0 raw;
               m2 \<leftarrow> mem_write m1 (length raw) [0];
               Some (True, length raw, Some m2)
             })"

text \<open>The part of the block behind the first zero byte, \<^verbatim>\<open>memchr\<close> and \<open>++at\<close>.\<close>

fun after_zero :: "bytes \<Rightarrow> bytes option" where
  "after_zero [] = None"
| "after_zero (x # xs) = (if x = 0 then Some xs else after_zero xs)"

definition unpad_pkcs1 :: "byte \<Rightarrow> alloc \<Rightarrow> bool \<Rightarrow> nat \<Rightarrow> bytes \<Rightarrow> pad_result" where
  "unpad_pkcs1 bt alloc want block padded =
     (if block \<noteq> 0 \<and> length padded mod block \<noteq> 0 then Some (False, 0, None)
      else case padded of
             [] \<Rightarrow> None
           | p0 # rest \<Rightarrow>
               if p0 \<noteq> 0 then Some (False, 0, None)
               else (case rest of
                       [] \<Rightarrow> None
                     | p1 # body \<Rightarrow>
                         if p1 \<noteq> bt then Some (False, 0, None)
                         else (case after_zero body of
                                 None \<Rightarrow> Some (False, 0, None)
                               | Some raw \<Rightarrow> store_raw alloc want raw)))"

definition egg_padding_pkcs1_unpad_01 :: "alloc \<Rightarrow> bool \<Rightarrow> nat \<Rightarrow> bytes \<Rightarrow> pad_result" where
  "egg_padding_pkcs1_unpad_01 = unpad_pkcs1 1"

definition egg_padding_pkcs1_unpad_02 :: "alloc \<Rightarrow> bool \<Rightarrow> nat \<Rightarrow> bytes \<Rightarrow> pad_result" where
  "egg_padding_pkcs1_unpad_02 = unpad_pkcs1 2"

definition egg_padding_pkcs7_unpad :: "alloc \<Rightarrow> bool \<Rightarrow> nat \<Rightarrow> bytes \<Rightarrow> pad_result" where
  "egg_padding_pkcs7_unpad alloc want block padded =
     (if padded = [] then Some (False, 0, None)
      else
        let n_padded = length padded; n_pad = unat (padded ! (n_padded - 1))
        in if n_pad = 0 \<or> n_pad > 256 then Some (False, 0, None)
           else if n_pad > n_padded then Some (False, 0, None)
           else if block \<noteq> 0 \<and> n_pad > block then Some (False, 0, None)
           else if \<exists>i \<in> set [n_padded - n_pad ..< n_padded]. unat (padded ! i) \<noteq> n_pad
           then Some (False, 0, None)
           else store_raw alloc want (take (n_padded - n_pad) padded))"

subsection \<open>Rounding up to a block\<close>

text \<open>An allocator with memory: every block below the address space limit is granted.\<close>

definition roomy :: "alloc \<Rightarrow> bool" where
  "roomy alloc \<longleftrightarrow> (\<forall>n < 2 ^ 47. \<exists>m. alloc n = Some m \<and> length m = n)"

lemma round_up:
  fixes b n :: nat
  assumes "0 < b"
  shows "n \<le> (n + (b - 1)) div b * b" and "(n + (b - 1)) div b * b < n + b"
proof -
  have "(n + (b - 1)) div b * b + (n + (b - 1)) mod b = n + (b - 1)" by (rule div_mult_mod_eq)
  moreover have "(n + (b - 1)) mod b < b" using assms by simp
  ultimately show "n \<le> (n + (b - 1)) div b * b" "(n + (b - 1)) div b * b < n + b"
    using assms by linarith+
qed

lemma round_up_strict:
  fixes b n :: nat
  assumes "0 < b"
  shows "n < (n + b) div b * b" and "(n + b) div b * b \<le> n + b"
proof -
  have "(n + b) div b * b + (n + b) mod b = n + b" by (rule div_mult_mod_eq)
  moreover have "(n + b) mod b < b" using assms by simp
  ultimately show "n < (n + b) div b * b" "(n + b) div b * b \<le> n + b"
    using assms by linarith+
qed

lemma small_sum: "x \<le> n + b \<Longrightarrow> n < 2 ^ 40 \<Longrightarrow> b < 2 ^ 40 \<Longrightarrow> x < 2 ^ 46" for x n b :: nat
  by simp

lemma round_up_size:
  assumes "0 < b" and "n < 2 ^ 40" and "b < 2 ^ 40"
  shows "size_mul (size_add n (b - 1) div b) b = (n + (b - 1)) div b * b"
    and "size_mul (size_add n b div b) b = (n + b) div b * b"
proof -
  have lt: "(n + (b - 1)) div b * b < 2 ^ 46" "(n + b) div b * b < 2 ^ 46"
    using round_up(2) [OF assms(1), of n] round_up_strict(2) [OF assms(1), of n]
    by (intro small_sum [OF _ assms(2,3)]; linarith)+
  have sum: "size_add n (b - 1) = n + (b - 1)" "size_add n b = n + b"
    using assms by (simp_all add: size_add_def)
  have "x < 2 ^ 46 \<Longrightarrow> x mod 2 ^ 64 = x" for x :: nat by simp
  with lt show "size_mul (size_add n (b - 1) div b) b = (n + (b - 1)) div b * b"
    "size_mul (size_add n b div b) b = (n + b) div b * b"
    unfolding size_mul_def sum by blast+
qed

lemma store_padded_ok:
  assumes "roomy alloc" and "length content = n" and "0 < n" and "n < 2 ^ 46"
  shows "store_padded alloc True n content = Some (True, n, Some content)"
proof -
  from assms(3,4) have "max n 1 = n" "n < 2 ^ 47" by simp_all
  with assms(1) obtain m where "alloc (max n 1) = Some m" "length m = n"
    unfolding roomy_def by metis
  with assms(2) show ?thesis by (simp add: store_padded_def mem_write_def)
qed

lemma store_raw_ok:
  assumes "roomy alloc" and "length raw < 2 ^ 46"
  shows "store_raw alloc True raw = Some (True, length raw, Some (raw @ [0]))"
proof -
  from assms have "length raw + 1 < 2 ^ 47" by simp
  with assms(1) obtain m where m: "alloc (length raw + 1) = Some m" "length m = length raw + 1"
    unfolding roomy_def by metis
  then show ?thesis by (simp add: store_raw_def mem_write_def)
qed

subsection \<open>PKCS\#7\<close>

lemma pkcs7_pad_result:
  assumes "roomy alloc" and "0 < block" and "block < 256" and "length raw < 2 ^ 40"
  obtains k where "0 < k" and "k \<le> block" and "(length raw + k) mod block = 0"
    and "egg_padding_pkcs7_pad alloc True block raw
      = Some (True, length raw + k, Some (raw @ replicate k (word_of_nat k)))"
proof -
  have b40: "block < 2 ^ 40" using assms(3) by simp
  define n where "n = (length raw + block) div block * block"
  define k where "k = n - length raw"
  have n: "length raw < n" "n \<le> length raw + block" "n mod block = 0"
    using round_up_strict [OF assms(2), of "length raw"] by (auto simp: n_def)
  have sz: "size_mul (size_add (length raw) block div block) block = n"
    using round_up_size(2) [OF assms(2,4) b40] by (simp add: n_def)
  have nk: "n = length raw + k" "0 < k" "k \<le> block" using n by (auto simp: k_def)
  have "store_padded alloc True n (raw @ replicate k (word_of_nat k))
      = Some (True, n, Some (raw @ replicate k (word_of_nat k)))"
    using nk small_sum [OF n(2) assms(4) b40] by (intro store_padded_ok [OF assms(1)]) auto
  then have "egg_padding_pkcs7_pad alloc True block raw
      = Some (True, length raw + k, Some (raw @ replicate k (word_of_nat k)))"
    using nk assms(2,3) by (simp add: egg_padding_pkcs7_pad_def sz Let_def)
  with nk n(3) show thesis by (intro that [of k]) auto
qed

lemma pkcs7_unpad_padded:
  assumes "roomy alloc" and "0 < k" and "k < 256" and "block = 0 \<or> k \<le> block"
    and "length raw < 2 ^ 46"
  shows "egg_padding_pkcs7_unpad alloc True block (raw @ replicate k (word_of_nat k))
    = Some (True, length raw, Some (raw @ [0]))"
proof -
  let ?p = "raw @ replicate k (word_of_nat k :: byte)"
  have u: "unat (word_of_nat k :: byte) = k" using assms(3) by (simp add: unat_of_nat_small)
  have at: "?p ! i = word_of_nat k" if "length raw \<le> i" "i < length raw + k" for i
    using that by (simp add: nth_append)
  have "?p ! (length ?p - 1) = word_of_nat k" using at [of "length raw + k - 1"] assms(2) by simp
  moreover have "\<not> (\<exists>i \<in> set [length raw ..< length raw + k]. unat (?p ! i) \<noteq> k)"
    using at u by auto
  ultimately show ?thesis
    using assms u store_raw_ok [OF assms(1,5)]
    by (auto simp: egg_padding_pkcs7_unpad_def Let_def)
qed

text \<open>C34: Data padded with PKCS\#7 to a block size below 256 is a whole number of blocks, at least one
  byte longer than the data, and unpadding it gives the data back, NUL terminated.\<close>

theorem egg_padding_pkcs7_roundtrip:
  assumes "roomy alloc" and "0 < block" and "block < 256" and "length raw < 2 ^ 40"
  shows "\<exists>n padded. egg_padding_pkcs7_pad alloc True block raw = Some (True, n, Some padded)
    \<and> length padded = n \<and> n mod block = 0 \<and> length raw < n \<and> n \<le> length raw + block
    \<and> egg_padding_pkcs7_unpad alloc True block padded = Some (True, length raw, Some (raw @ [0]))"
proof -
  obtain k where k: "0 < k" "k \<le> block" "(length raw + k) mod block = 0"
    "egg_padding_pkcs7_pad alloc True block raw
      = Some (True, length raw + k, Some (raw @ replicate k (word_of_nat k)))"
    using pkcs7_pad_result [OF assms] by blast
  from k assms have "egg_padding_pkcs7_unpad alloc True block (raw @ replicate k (word_of_nat k))
      = Some (True, length raw, Some (raw @ [0]))"
    by (intro pkcs7_unpad_padded) auto
  with k show ?thesis by auto
qed

theorem egg_padding_pkcs7_roundtrip_witness:
  "\<exists>n padded. egg_padding_pkcs7_pad (\<lambda>n. Some (replicate n 0)) True 8 [1, 2, 3] = Some (True, n, Some padded)
     \<and> egg_padding_pkcs7_unpad (\<lambda>n. Some (replicate n 0)) True 8 padded = Some (True, 3, Some [1, 2, 3, 0])"
proof -
  have "roomy (\<lambda>n. Some (replicate n 0))" by (simp add: roomy_def)
  from egg_padding_pkcs7_roundtrip [OF this, of 8 "[1, 2, 3]"] show ?thesis by auto
qed

text \<open>PKCS\#7 unpadding accepts nothing but padding: if it succeeds, the input was the returned
  data followed by \<open>k\<close> bytes of value \<open>k\<close>, with \<open>k\<close> at least one and at most the block size.\<close>

lemma egg_padding_pkcs7_unpad_sound:
  assumes "egg_padding_pkcs7_unpad alloc want block padded = Some (True, n, r)"
  shows "\<exists>k. 0 < k \<and> (block \<noteq> 0 \<longrightarrow> k \<le> block) \<and> n + k = length padded
    \<and> padded = take n padded @ replicate k (word_of_nat k)"
proof -
  define k where "k = unat (padded ! (length padded - 1))"
  from assms have k: "k \<noteq> 0" "k \<le> length padded" "block = 0 \<or> k \<le> block"
    and all: "\<forall>i \<in> set [length padded - k ..< length padded]. unat (padded ! i) = k"
    and st: "store_raw alloc want (take (length padded - k) padded) = Some (True, n, r)"
    unfolding egg_padding_pkcs7_unpad_def Let_def k_def [symmetric]
    by (simp_all add: not_less del: set_upt split: if_split_asm)
  from st k have n: "n = length padded - k"
    by (auto simp: store_raw_def split: if_splits option.splits Option.bind_splits)
  have "drop n padded = replicate k (word_of_nat k)"
  proof (rule nth_equalityI)
    show "length (drop n padded) = length (replicate k (word_of_nat k))" using n k by simp
    fix i assume "i < length (drop n padded)"
    then have "unat (padded ! (n + i)) = k" using all n by auto
    then have "padded ! (n + i) = word_of_nat k" by auto
    then show "drop n padded ! i = replicate k (word_of_nat k) ! i"
      using \<open>i < length (drop n padded)\<close> n k by simp
  qed
  then have "padded = take n padded @ replicate k (word_of_nat k)"
    by (metis append_take_drop_id)
  with n k show ?thesis by (intro exI [of _ k]) auto
qed

lemma pkcs7_eval_range: "\<forall>i \<in> {Suc 0 ..< 3}. unat ([9, 2, 2 :: byte] ! i) = 2"
proof -
  have "{Suc 0 ..< 3} = {1, 2}" by auto
  then show ?thesis by simp
qed

subsection \<open>PKCS\#1\<close>

lemma after_zero_split: "0 \<notin> set xs \<Longrightarrow> after_zero (xs @ 0 # ys) = Some ys"
  by (induction xs) auto

lemma unpad_pkcs1_padded:
  assumes "roomy alloc" and "0 \<notin> set fill" and "length raw < 2 ^ 46"
    and "block = 0 \<or> (length fill + 3 + length raw) mod block = 0"
  shows "unpad_pkcs1 bt alloc True block ([0, bt] @ fill @ [0] @ raw)
    = Some (True, length raw, Some (raw @ [0]))"
proof -
  have "length ([0, bt] @ fill @ [0] @ raw) = length fill + 3 + length raw" by simp
  with assms(4) have "\<not> (block \<noteq> 0 \<and> length ([0, bt] @ fill @ [0] @ raw) mod block \<noteq> 0)"
    by metis
  with store_raw_ok [OF assms(1,3)] after_zero_split [OF assms(2), of raw] show ?thesis
    unfolding unpad_pkcs1_def by simp
qed

text \<open>
  The size computed for PKCS\#1 padding, and the two assertions on it: at least three bytes of
  padding always, at most a block of padding unless the data ends one or two bytes before
  a block boundary.
\<close>

lemma pkcs1_size:
  fixes b n :: nat
  assumes "3 < b" and "n < 2 ^ 39" and "b < 2 ^ 39"
  defines "p \<equiv> size_mul (size_add (size_add n 3) (b - 1) div b) b"
  shows "n + 3 \<le> p" and "p mod b = 0" and "p < 2 ^ 46"
    and "p - n \<le> b \<longleftrightarrow> n mod b < b - 2"
proof -
  have "size_add n 3 = n + 3" using assms by (simp add: size_add_def)
  then have p: "p = (n + 3 + (b - 1)) div b * b"
    using assms round_up_size(1) [of b "n + 3"] by simp
  have b: "0 < b" using assms by simp
  have r: "n + 3 \<le> p" "p < n + 3 + b" using round_up [OF b, of "n + 3"] by (simp_all only: p)
  then show "n + 3 \<le> p" "p < 2 ^ 46" using assms by simp_all
  show m: "p mod b = 0" by (simp add: p)
  define q r where "q = n div b" and "r = n mod b"
  have n: "n = q * b + r" "r < b" using b by (simp_all add: q_def r_def)
  from m obtain c where c: "p = c * b" by (metis mod_0_imp_dvd dvd_def mult.commute)
  have "c = q + 1 \<or> c = q + 2"
  proof -
    have "q * b < c * b" using r(1) n(1) unfolding c by linarith
    then have "q < c" by (metis mult_less_cancel2)
    moreover have "c * b < (q + 3) * b" using r(2) n assms(1) by (simp add: c algebra_simps)
    then have "c < q + 3" by (metis mult_less_cancel2)
    ultimately show ?thesis by linarith
  qed
  then show "p - n \<le> b \<longleftrightarrow> n mod b < b - 2"
  proof
    assume "c = q + 1"
    then have "p = q * b + b" by (simp add: c)
    with r(1) n show ?thesis by (auto simp flip: r_def)
  next
    assume "c = q + 2"
    then have "p = q * b + 2 * b" by (simp add: c)
    with r(2) n assms(1) show ?thesis by (auto simp flip: r_def)
  qed
qed

lemma pkcs1_size_fill:
  fixes b n :: nat
  assumes "3 < b" and "n < 2 ^ 39" and "b < 2 ^ 39" and "n mod b < b - 2"
  shows "size_mul (size_add (size_add n 3) (b - 1) div b) b - n - 3 = b - n mod b - 3"
proof -
  define p where "p = size_mul (size_add (size_add n 3) (b - 1) div b) b"
  note sz = pkcs1_size [OF assms(1-3), folded p_def]
  have "p - n \<le> b" "0 < p - n" using sz(1,4) assms(4) by simp_all
  define x where "x = n mod b + (p - n)"
  have "x mod b = (n + (p - n)) mod b" unfolding x_def by (rule mod_add_left_eq)
  then have "x mod b = 0" using sz(1,2) by simp
  moreover have "0 < x" "x < 2 * b" using \<open>p - n \<le> b\<close> \<open>0 < p - n\<close> assms(1) mod_less_divisor [of b n] unfolding x_def by linarith+
  ultimately have "x = b" by (cases "x < b") (simp_all add: mod_if [of x] mod_if [of "x - b"] split: if_split_asm)
  then have "n mod b + (p - n) = b" by (simp only: x_def)
  then show ?thesis unfolding p_def by simp
qed

subsubsection \<open>Random bytes without zeros\<close>

text \<open>What a pass over the data does: the zeros in it are counted, and replaced in order by new bytes.\<close>

fun replace_zeros :: "bytes \<Rightarrow> bytes \<Rightarrow> bytes" where
  "replace_zeros [] rs = []"
| "replace_zeros (x # xs) rs =
     (if x \<noteq> 0 then x # replace_zeros xs rs else hd rs # replace_zeros xs (tl rs))"

definition count_zeros :: "bytes \<Rightarrow> nat" where
  "count_zeros data = length (filter (\<lambda>x. x = 0) data)"

text \<open>The data after \<open>k\<close> rounds: the first request gives it all, each later one as many bytes as zeros are left.\<close>

fun refilled :: "(nat \<Rightarrow> nat \<Rightarrow> bytes) \<Rightarrow> nat \<Rightarrow> nat \<Rightarrow> bytes" where
  "refilled rnd n 0 = rnd 0 n"
| "refilled rnd n (Suc k) = replace_zeros (refilled rnd n k) (rnd (Suc k) (count_zeros (refilled rnd n k)))"

lemma replace_zeros_length [simp]: "length (replace_zeros data rs) = length data"
  by (induction data rs rule: replace_zeros.induct) auto

lemma count_zeros_simps [simp]:
  "count_zeros [] = 0" "count_zeros (x # xs) = (if x = 0 then Suc (count_zeros xs) else count_zeros xs)"
  by (simp_all add: count_zeros_def)

lemma count_zeros_iff: "count_zeros data = 0 \<longleftrightarrow> 0 \<notin> set data"
  by (auto simp: count_zeros_def filter_empty_conv)

lemma count_zeros_le: "count_zeros data \<le> length data"
  by (simp add: count_zeros_def)

lemma replace_zeros_id: "0 \<notin> set data \<Longrightarrow> replace_zeros data rs = data"
  by (induction data rs rule: replace_zeros.induct) auto

lemma unat_index: "i < 2 ^ 32 \<Longrightarrow> unat (word_of_nat i :: 32 word) = i"
  by (simp add: unat_of_nat_small)

lemma drop_nth: "i < length xs \<Longrightarrow> drop i xs = xs ! i # drop (Suc i) xs"
  by (rule Cons_nth_drop_Suc [symmetric])

lemma count_zeros_loop_counts:
  assumes "length data < 2 ^ 32" and "i \<le> length data"
  shows "count_zeros_loop data z (word_of_nat i) = Some (z + word_of_nat (count_zeros (drop i data)))"
  using assms(2)
proof (induction "length data - i" arbitrary: i z)
  case 0
  then show ?case using assms(1) by (simp add: count_zeros_loop.simps unat_index)
next
  case (Suc d)
  then have i: "i < length data" "i < 2 ^ 32" "d = length data - Suc i" using assms(1) by simp_all
  have next_index: "word_of_nat i + 1 = (word_of_nat (Suc i) :: 32 word)" by (simp add: add.commute)
  show ?case using Suc.hyps(1) [OF i(3)] i
    by (subst count_zeros_loop.simps) (simp add: unat_index next_index drop_nth del: of_nat_Suc, simp add: ac_simps)
qed

lemma count_zeros_loop_endless:
  assumes "2 ^ 32 \<le> length data"
  shows "count_zeros_loop data z i = None"
proof -
  have "False" if "count_zeros_loop data z i = Some r" "2 ^ 32 \<le> length data" for r
    using that
  proof (induction rule: count_zeros_loop.raw_induct [rotated, consumes 1, case_names round])
    case (round f data z i r)
    moreover have "unat i < 2 ^ LENGTH(32)" by (rule unsigned_less)
    then have "unat i < length data" using round(3) by simp
    ultimately show ?case by simp
  qed
  with assms show ?thesis by (cases "count_zeros_loop data z i") auto
qed

lemma replace_zeros_loop_replaces:
  assumes "length data < 2 ^ 32" and "i \<le> length data" and "j + count_zeros (drop i data) \<le> length rs" and "length rs < 2 ^ 32"
  shows "replace_zeros_loop rs data (word_of_nat i) (word_of_nat j) z
    = Some (z + word_of_nat (count_zeros (replace_zeros (drop i data) (drop j rs))), take i data @ replace_zeros (drop i data) (drop j rs))"
  using assms(1,2,3)
proof (induction "length data - i" arbitrary: data i j z)
  case 0
  then show ?case by (simp add: replace_zeros_loop.simps unat_index)
next
  case (Suc d)
  then have i: "i < length data" "i < 2 ^ 32" "d = length data - Suc i" by simp_all
  have next_index: "word_of_nat k + 1 = (word_of_nat (Suc k) :: 32 word)" for k by (simp add: add.commute)
  note step = replace_zeros_loop.simps [of rs data "word_of_nat i"]
  show ?case
  proof (cases "data ! i = 0")
    case False
    have "j + count_zeros (drop (Suc i) data) \<le> length rs" using Suc.prems(3) i(1) False by (simp add: drop_nth)
    from Suc.hyps(1) [OF i(3) Suc.prems(1) Suc_leI [OF i(1)] this, of z] False i show ?thesis
      unfolding step by (simp add: unat_index next_index drop_nth take_Suc_conv_app_nth del: of_nat_Suc)
  next
    case True
    define data' where "data' = data[i := rs ! j]"
    have j: "j < length rs" "j < 2 ^ 32" "Suc j + count_zeros (drop (Suc i) data) \<le> length rs"
      using Suc.prems(3) i(1) True assms(4) by (simp_all add: drop_nth)
    have d': "length data' = length data" "drop (Suc i) data' = drop (Suc i) data" "take (Suc i) data' = take i data @ [rs ! j]"
      using i(1) by (simp_all add: data'_def take_Suc_conv_app_nth)
    have "replace_zeros_loop rs data' (word_of_nat (Suc i)) (word_of_nat (Suc j)) z'
      = Some (z' + word_of_nat (count_zeros (replace_zeros (drop (Suc i) data) (drop (Suc j) rs))),
          take i data @ rs ! j # replace_zeros (drop (Suc i) data) (drop (Suc j) rs))" for z'
      using Suc.hyps(1) [of data' "Suc i" "Suc j" z'] i j Suc.prems(1) by (simp add: d' del: of_nat_Suc)
    with True i j show ?thesis
      unfolding step by (simp add: unat_index next_index drop_nth data'_def [symmetric] del: of_nat_Suc, simp add: ac_simps)
  qed
qed

lemma replace_zeros_pass:
  assumes "length data < 2 ^ 32" and "length rs = count_zeros data"
  shows "replace_zeros_loop rs data 0 0 0 = Some (word_of_nat (count_zeros (replace_zeros data rs)), replace_zeros data rs)"
  using replace_zeros_loop_replaces [of data 0 0 rs 0] assms count_zeros_le [of data] by simp

text \<open>The round that leaves no zero is the last one: with blocks of the size asked for the outer loop ends exactly when there is one.\<close>

lemma refilled_length: "(\<And>i n. length (rnd i n) = n) \<Longrightarrow> length (refilled rnd n k) = n"
  by (induction k) simp_all

lemma refilled_stays: "k \<le> m \<Longrightarrow> 0 \<notin> set (refilled rnd n k) \<Longrightarrow> refilled rnd n m = refilled rnd n k"
  by (induction m rule: dec_induct) (simp_all add: replace_zeros_id)

lemma fill_loop_step:
  assumes "\<And>i n. length (rnd i n) = n" and "n < 2 ^ 32"
  defines "zeros \<equiv> \<lambda>k. word_of_nat (count_zeros (refilled rnd n k)) :: 32 word"
  shows "fill_nonzero_loop rnd (Suc k) (zeros k) (refilled rnd n k)
    = (if 0 \<in> set (refilled rnd n k) then fill_nonzero_loop rnd (Suc (Suc k)) (zeros (Suc k)) (refilled rnd n (Suc k)) else Some (refilled rnd n k))"
proof -
  let ?d = "refilled rnd n k"
  have d: "length ?d = n" by (rule refilled_length [OF assms(1)])
  then have c: "count_zeros ?d < 2 ^ 32" using count_zeros_le [of ?d] assms(2) by simp
  then have u: "unat (zeros k) = count_zeros ?d" unfolding zeros_def by (rule unat_index)
  then have z: "zeros k > 0 \<longleftrightarrow> 0 \<in> set ?d" using count_zeros_iff [of ?d] by (simp add: word_greater_zero_iff unat_eq_0 [symmetric])
  have "replace_zeros_loop (rnd (Suc k) (unat (zeros k))) ?d 0 0 0 = Some (zeros (Suc k), refilled rnd n (Suc k))"
    using replace_zeros_pass [of ?d "rnd (Suc k) (count_zeros ?d)"] assms(1,2) d by (simp only: u) (simp add: zeros_def)
  with z show ?thesis by (subst fill_nonzero_loop.simps) simp
qed

lemma fill_loop_returns:
  assumes "\<And>i n. length (rnd i n) = n" and "n < 2 ^ 32" and "0 \<notin> set (refilled rnd n m)" and "k \<le> m"
  shows "fill_nonzero_loop rnd (Suc k) (word_of_nat (count_zeros (refilled rnd n k))) (refilled rnd n k) = Some (refilled rnd n m)"
  using assms(4)
proof (induction rule: inc_induct)
  case base
  show ?case using fill_loop_step [OF assms(1,2), where k = m] assms(3) by simp
next
  case (step k)
  show ?case
  proof (cases "0 \<in> set (refilled rnd n k)")
    case True
    then show ?thesis using fill_loop_step [OF assms(1,2), where k = k] step.IH by simp
  next
    case False
    from refilled_stays [OF less_imp_le this] step.hyps fill_loop_step [OF assms(1,2), where k = k] False show ?thesis by simp
  qed
qed

lemma fill_loop_endless:
  assumes len: "\<And>i n. length (rnd i n) = n" and n: "n < 2 ^ 32" and z: "\<And>m. 0 \<in> set (refilled rnd n m)"
  shows "fill_nonzero_loop rnd (Suc k) (word_of_nat (count_zeros (refilled rnd n k))) (refilled rnd n k) = None"
proof -
  define at_round where "at_round rnd' i c data \<longleftrightarrow> (\<exists>k. rnd' = rnd \<and> i = Suc k \<and> c = word_of_nat (count_zeros (refilled rnd n k))
    \<and> data = refilled rnd n k)" for rnd' i and c :: "32 word" and data
  have "False" if "fill_nonzero_loop rnd' i c data = Some r" "at_round rnd' i c data" for rnd' i c data r
    using that
  proof (induction rule: fill_nonzero_loop.raw_induct [rotated, consumes 1, case_names round])
    case (round f rnd' i c data r)
    from round(3) obtain k where k: "rnd' = rnd" "i = Suc k" "c = word_of_nat (count_zeros (refilled rnd n k))" "data = refilled rnd n k"
      unfolding at_round_def by blast
    let ?d = "refilled rnd n k" and ?e = "refilled rnd n (Suc k)"
    have d: "length ?d = n" by (rule refilled_length [OF len])
    then have "count_zeros ?d < 2 ^ 32" using count_zeros_le [of ?d] n by simp
    then have u: "unat c = count_zeros ?d" unfolding k(3) by (rule unat_index)
    have "c > 0" using u count_zeros_iff [of ?d] z [of k] by (simp add: word_greater_zero_iff unat_eq_0 [symmetric])
    moreover have "replace_zeros_loop (rnd' i (unat c)) data 0 0 0 = Some (word_of_nat (count_zeros ?e), ?e)"
      using replace_zeros_pass [of ?d "rnd (Suc k) (count_zeros ?d)"] len n d by (simp add: u k(1,2,4))
    ultimately have "f rnd' (Suc i) (word_of_nat (count_zeros ?e)) ?e = Some r" using round(2) by simp
    moreover have "at_round rnd' (Suc i) (word_of_nat (count_zeros ?e)) ?e" using k(1,2) unfolding at_round_def by blast
    ultimately show ?case by (rule round(1))
  qed
  moreover have "at_round rnd (Suc k) (word_of_nat (count_zeros (refilled rnd n k))) (refilled rnd n k)" unfolding at_round_def by blast
  ultimately show ?thesis by (meson not_Some_eq)
qed

lemma fill_random_nonzero_cases:
  assumes len: "\<And>i n. length (rnd i n) = n"
  shows "2 ^ 32 \<le> n \<or> (\<forall>k. 0 \<in> set (refilled rnd n k)) \<Longrightarrow> fill_random_nonzero rnd n = None"
    and "n < 2 ^ 32 \<Longrightarrow> 0 \<notin> set (refilled rnd n k) \<Longrightarrow> fill_random_nonzero rnd n = Some (refilled rnd n k)"
proof -
  have c: "count_zeros_loop (rnd 0 n) 0 0 = Some (word_of_nat (count_zeros (refilled rnd n 0)))" if "n < 2 ^ 32"
    using count_zeros_loop_counts [of "rnd 0 n" 0 0] that by (simp add: len)
  show "fill_random_nonzero rnd n = None" if "2 ^ 32 \<le> n \<or> (\<forall>k. 0 \<in> set (refilled rnd n k))"
  proof (cases "n < 2 ^ 32")
    case True
    with that have "\<And>k. 0 \<in> set (refilled rnd n k)" by auto
    from fill_loop_endless [OF len True this, of 0] c [OF True] show ?thesis by (simp add: fill_random_nonzero_def)
  next
    case False
    then show ?thesis using count_zeros_loop_endless [of "rnd 0 n"] by (simp add: fill_random_nonzero_def len)
  qed
  show "fill_random_nonzero rnd n = Some (refilled rnd n k)" if "n < 2 ^ 32" "0 \<notin> set (refilled rnd n k)"
    using fill_loop_returns [OF len that le0] c [OF that(1)] by (simp add: fill_random_nonzero_def)
qed

text \<open>PKCS\#1 type 1 padding: data that ends at least three bytes before a block boundary is
  padded to whole blocks and unpadding gives it back. Data that ends one or two bytes
  before a boundary makes the assertion \<^verbatim>\<open>n_pad <= block\<close> fail: the program aborts although the
  padding it computed was valid.\<close>

lemma egg_padding_pkcs1_01_roundtrip:
  assumes "roomy alloc" and "3 < block" and "block < 2 ^ 39" and "length raw < 2 ^ 39"
  shows "if length raw mod block < block - 2
    then \<exists>n padded. egg_padding_pkcs1_pad_01 alloc True block raw = Some (True, n, Some padded)
      \<and> length padded = n \<and> n mod block = 0 \<and> take 2 padded = [0, 1]
      \<and> egg_padding_pkcs1_unpad_01 alloc True block padded
          = Some (True, length raw, Some (raw @ [0]))
    else egg_padding_pkcs1_pad_01 alloc True block raw = None"
proof -
  define p where "p = size_mul (size_add (size_add (length raw) 3) (block - 1) div block) block"
  note sz = pkcs1_size [OF assms(2,4,3), folded p_def]
  let ?fill = "replicate (p - length raw - 3) (0xff :: byte)"
  let ?c = "[0, 1] @ ?fill @ [0] @ raw"
  have len: "length ?c = p" using sz(1) by simp
  have pad: "egg_padding_pkcs1_pad_01 alloc True block raw
    = (if length raw mod block < block - 2 then store_padded alloc True p ?c else None)"
    unfolding egg_padding_pkcs1_pad_01_def Let_def p_def [symmetric]
    using sz(1,4) assms(2) by simp
  have st: "store_padded alloc True p ?c = Some (True, p, Some ?c)"
    using sz(1,3) len by (intro store_padded_ok [OF assms(1)]) auto
  have "0 \<notin> set ?fill" by simp
  moreover have "(length ?fill + 3 + length raw) mod block = 0" using sz(1,2) by simp
  ultimately have "unpad_pkcs1 1 alloc True block ?c = Some (True, length raw, Some (raw @ [0]))"
    using assms(4) by (intro unpad_pkcs1_padded [OF assms(1)]) auto
  with pad st len sz(2) show ?thesis by (auto simp: egg_padding_pkcs1_unpad_01_def)
qed

text \<open>C35: PKCS\#1 type 2 padding with random bytes that the code asks for again until none is zero, for any generator that gives as many
  bytes as it is asked for. Data that ends one or two bytes before a block boundary makes the assertion fail and the program abort. Otherwise the
  call does not return exactly when \<open>2 ^ 32\<close> or more bytes are to be filled (the counter of 32 bits never reaches the end) or when a
  zero is left after every round of requests; if it returns, the result is whole blocks, its filling the bytes of the round that left no zero,
  and unpadding gives the data back.\<close>

theorem egg_padding_pkcs1_02_roundtrip:
  assumes "\<And>i n. length (rnd i n) = n" and "roomy alloc" and "3 < block" and "block < 2 ^ 39" and "length raw < 2 ^ 39"
  defines "fill \<equiv> block - length raw mod block - 3"
  shows "if \<not> length raw mod block < block - 2 \<or> 2 ^ 32 \<le> fill \<or> (\<forall>k. 0 \<in> set (refilled rnd fill k))
    then egg_padding_pkcs1_pad_02 rnd alloc True block raw = None
    else \<exists>k n padded. egg_padding_pkcs1_pad_02 rnd alloc True block raw = Some (True, n, Some padded)
      \<and> length padded = n \<and> n mod block = 0 \<and> padded = [0, 2] @ refilled rnd fill k @ [0] @ raw
      \<and> 0 \<notin> set (refilled rnd fill k) \<and> length (refilled rnd fill k) = fill
      \<and> egg_padding_pkcs1_unpad_02 alloc True block padded = Some (True, length raw, Some (raw @ [0]))"
proof -
  define p where "p = size_mul (size_add (size_add (length raw) 3) (block - 1) div block) block"
  note sz = pkcs1_size [OF assms(3,5,4), folded p_def]
  have pad: "egg_padding_pkcs1_pad_02 rnd alloc True block raw = (if length raw mod block < block - 2 then do {
      f \<leftarrow> fill_random_nonzero rnd fill; store_padded alloc True p ([0, 2] @ f @ [0] @ raw) } else None)"
  proof (cases "length raw mod block < block - 2")
    case True
    have "max p 1 < 2 ^ 47" using sz(3) by simp
    then obtain m where m: "alloc (max p 1) = Some m" using assms(2) unfolding roomy_def by blast
    from pkcs1_size_fill [OF assms(3,5,4) True, folded p_def] have "p - length raw - 3 = fill" by (simp add: fill_def)
    moreover have "3 \<le> p - length raw" using sz(1) by simp
    ultimately show ?thesis using sz(1,4) assms(3) True m
      unfolding egg_padding_pkcs1_pad_02_def store_padded_def Let_def p_def [symmetric] by simp
  next
    case False
    then show ?thesis using sz(1,4) assms(3) unfolding egg_padding_pkcs1_pad_02_def Let_def p_def [symmetric] by simp
  qed
  show ?thesis
  proof (cases "\<not> length raw mod block < block - 2 \<or> 2 ^ 32 \<le> fill \<or> (\<forall>k. 0 \<in> set (refilled rnd fill k))")
    case True
    then show ?thesis using pad fill_random_nonzero_cases(1) [OF assms(1)] by auto
  next
    case False
    then obtain k where k: "length raw mod block < block - 2" "fill < 2 ^ 32" "0 \<notin> set (refilled rnd fill k)" by auto
    let ?c = "[0, 2] @ refilled rnd fill k @ [0] @ raw"
    have l: "length (refilled rnd fill k) = fill" by (rule refilled_length [OF assms(1)])
    have f: "fill + 3 + length raw = p"
      using pkcs1_size_fill [OF assms(3,5,4) k(1), folded p_def] sz(1) by (simp add: fill_def)
    then have len: "length ?c = p" using l by simp
    have "store_padded alloc True p ?c = Some (True, p, Some ?c)"
      using sz(1,3) len by (intro store_padded_ok [OF assms(2)]) auto
    then have res: "egg_padding_pkcs1_pad_02 rnd alloc True block raw = Some (True, p, Some ?c)"
      using pad k(1) fill_random_nonzero_cases(2) [OF assms(1) k(2,3)] by simp
    have "(length (refilled rnd fill k) + 3 + length raw) mod block = 0" using sz(2) unfolding l f .
    with k(3) have "unpad_pkcs1 2 alloc True block ?c = Some (True, length raw, Some (raw @ [0]))"
      using assms(5) by (intro unpad_pkcs1_padded [OF assms(2)]) auto
    with res len sz(2) k(3) l show ?thesis using False by (auto simp: egg_padding_pkcs1_unpad_02_def)
  qed
qed

theorem egg_padding_pkcs1_02_roundtrip_witness:
  "\<exists>n padded. egg_padding_pkcs1_pad_02 (\<lambda>i n. replicate n (if i = 0 then 0 else 5))
       (\<lambda>n. Some (replicate n 0)) True 8 [7] = Some (True, n, Some padded)
     \<and> egg_padding_pkcs1_unpad_02 (\<lambda>n. Some (replicate n 0)) True 8 padded = Some (True, 1, Some [7, 0])"
proof -
  let ?rnd = "\<lambda>i n. replicate n (if i = (0 :: nat) then 0 else 5 :: byte)"
  have r: "roomy (\<lambda>n. Some (replicate n 0))" by (simp add: roomy_def)
  have "refilled ?rnd 4 1 = [5, 5, 5, 5]" by (simp add: numeral_eq_Suc count_zeros_def)
  then have "\<exists>k. 0 \<notin> set (refilled ?rnd 4 k)" by (intro exI [of _ 1]) simp
  then have "\<not> (\<not> length [7 :: byte] mod 8 < 8 - 2 \<or> 2 ^ 32 \<le> 8 - length [7 :: byte] mod 8 - 3
      \<or> (\<forall>k. 0 \<in> set (refilled ?rnd (8 - length [7 :: byte] mod 8 - 3) k)))" by simp
  with egg_padding_pkcs1_02_roundtrip [where rnd = ?rnd and block = 8 and raw = "[7]", OF _ r]
  have "\<exists>k n padded. egg_padding_pkcs1_pad_02 ?rnd (\<lambda>n. Some (replicate n 0)) True 8 [7] = Some (True, n, Some padded)
     \<and> length padded = n \<and> n mod 8 = 0 \<and> padded = [0, 2] @ refilled ?rnd (8 - length [7 :: byte] mod 8 - 3) k @ [0] @ [7]
     \<and> 0 \<notin> set (refilled ?rnd (8 - length [7 :: byte] mod 8 - 3) k)
     \<and> length (refilled ?rnd (8 - length [7 :: byte] mod 8 - 3) k) = 8 - length [7 :: byte] mod 8 - 3
     \<and> egg_padding_pkcs1_unpad_02 (\<lambda>n. Some (replicate n 0)) True 8 padded = Some (True, length [7 :: byte], Some ([7] @ [0]))"
    by (simp only: if_False length_replicate) simp
  then show ?thesis by auto
qed

text \<open>Removing PKCS\#1 padding is memory safe exactly on blocks that are refused for their size or
  hold the bytes the header check looks at: with no block size given (0), or on empty
  input, the check reads \<^verbatim>\<open>padded[0]\<close> and \<^verbatim>\<open>padded[1]\<close> of a shorter input.\<close>

lemma unpad_pkcs1_header_overread:
  "unpad_pkcs1 bt alloc False block padded = None \<longleftrightarrow>
     (block = 0 \<or> length padded mod block = 0) \<and> (padded = [] \<or> padded = [0])"
proof (cases padded)
  case (Cons p0 rest)
  then show ?thesis
    by (cases rest) (auto simp: unpad_pkcs1_def store_raw_def split: option.splits)
qed (simp add: unpad_pkcs1_def)

subsection \<open>Zero padding\<close>

text \<open>Zero padding puts fewer than a block of zeros before the data and gives whole blocks; its
  assertions hold for every block size and data.\<close>

lemma egg_padding_zero_pad_correct:
  assumes "roomy alloc" and "0 < block" and "block < 2 ^ 40" and "length raw < 2 ^ 40" and "raw \<noteq> []"
  shows "\<exists>k. k < block \<and> (k + length raw) mod block = 0
    \<and> egg_padding_zero_pad alloc True block raw
        = Some (True, k + length raw, Some (replicate k 0 @ raw))"
proof -
  define p where "p = (length raw + (block - 1)) div block * block"
  have sz: "size_mul (size_add (length raw) (block - 1) div block) block = p"
    using round_up_size(1) [OF assms(2,4,3)] by (simp add: p_def)
  have p: "length raw \<le> p" "p < length raw + block" "p mod block = 0"
    using round_up [OF assms(2), of "length raw"] unfolding p_def by (simp_all only: mod_mult_self2_is_0)
  have "p < 2 ^ 46" using small_sum [OF less_imp_le [OF p(2)] assms(4,3)] .
  then have "store_padded alloc True p (replicate (p - length raw) 0 @ raw)
      = Some (True, p, Some (replicate (p - length raw) 0 @ raw))"
    using p assms(5) by (intro store_padded_ok [OF assms(1)]) (auto intro: gr0I)
  then have "egg_padding_zero_pad alloc True block raw
      = Some (True, p, Some (replicate (p - length raw) 0 @ raw))"
    using p assms(2) unfolding egg_padding_zero_pad_def Let_def sz by simp
  with p show ?thesis by (intro exI [of _ "p - length raw"]) auto
qed

end
