(* ===== verification/EggSecure.thy ===== *)
theory EggSecure
  imports Prelude
begin

text \<open>
  The secure memory of \<^verbatim>\<open>egg/egg-secure-memory.c\<close>: an allocator over locked pages.

  Addresses are naturals and \<^verbatim>\<open>NULL\<close> is 0. The locked pages are \<open>sm_mem\<close>, a map from addresses to bytes; an
  access outside of the pages is a fault, the result \<open>None\<close>, and so is a failed \<^verbatim>\<open>ASSERT\<close>. The meta data
  does not live in these pages: the cells of the pools are the store \<open>sm_cells\<close>, on which the rings of unused
  cells are doubly linked by address as in the code. The list of blocks and the list of pools, which the code only walks
  from the front, are lists. A stack of unused items is a list of addresses; a dangling item is not in the store.
\<close>

section \<open>The model\<close>

definition ASSERT :: "bool \<Rightarrow> unit option" where
  "ASSERT b = (if b then Some () else None)"

lemma ASSERT_simps [simp]: "ASSERT True = Some ()" "ASSERT False = None"
  by (simp_all add: ASSERT_def)

lemma bind_ASSERT [simp]: "P \<Longrightarrow> Option.bind (ASSERT P) f = f ()"
  by (simp add: ASSERT_def)

subsection \<open>Memory\<close>

definition get_bytes :: "(nat \<rightharpoonup> byte) \<Rightarrow> nat \<Rightarrow> nat \<Rightarrow> bytes option" where
  "get_bytes m a n = those (map m [a..<a + n])"

definition put_bytes :: "nat \<Rightarrow> bytes \<Rightarrow> (nat \<rightharpoonup> byte) \<Rightarrow> (nat \<rightharpoonup> byte) option" where
  "put_bytes a bs m =
     (if list_all (\<lambda>x. m x \<noteq> None) [a..<a + length bs]
      then Some (\<lambda>x. if a \<le> x \<and> x < a + length bs then Some (bs ! (x - a)) else m x) else None)"

text \<open>A machine word in memory, least significant byte first.\<close>

fun le_bytes :: "nat \<Rightarrow> nat \<Rightarrow> bytes" where
  "le_bytes 0 v = []"
| "le_bytes (Suc n) v = word_of_nat (v mod 256) # le_bytes n (v div 256)"

fun le_value :: "bytes \<Rightarrow> nat" where
  "le_value [] = 0"
| "le_value (b # bs) = unat b + 256 * le_value bs"

definition load_word :: "(nat \<rightharpoonup> byte) \<Rightarrow> nat \<Rightarrow> nat option" where
  "load_word m a = map_option le_value (get_bytes m a 8)"

definition store_word :: "nat \<Rightarrow> nat \<Rightarrow> (nat \<rightharpoonup> byte) \<Rightarrow> (nat \<rightharpoonup> byte) option" where
  "store_word a v m = put_bytes a (le_bytes 8 v) m"

subsection \<open>Cells, blocks, pools\<close>

definition WASTE :: nat where
  "WASTE = 4"

definition DEFAULT_BLOCK_SIZE :: nat where
  "DEFAULT_BLOCK_SIZE = 16384"

record Cell =
  cell_words :: nat
  cell_n_words :: nat
  cell_allocated :: nat
  cell_next :: nat
  cell_prev :: nat

text \<open>\<open>block_self\<close> is the address of the pool item that the block is stored in.\<close>

record Block =
  block_self :: nat
  block_words :: nat
  block_n_words :: nat
  block_used :: nat
  block_unused :: nat

record Pool =
  pool_base :: nat
  pool_length :: nat
  pool_used :: nat
  pool_unused :: "nat list"
  pool_n_items :: nat

text \<open>Cells and blocks have five fields of eight bytes, and a pool five more in front of its items.\<close>

definition sizeof_Item :: nat where
  "sizeof_Item = 40"

definition offset_items :: nat where
  "offset_items = 40"

definition sizeof_Pool :: nat where
  "sizeof_Pool = offset_items + sizeof_Item"

text \<open>
  What the code calls: \<^verbatim>\<open>mmap\<close> of private pages, \<^verbatim>\<open>mlock\<close>, \<^verbatim>\<open>munmap\<close> (with \<^verbatim>\<open>munlock\<close> before), \<^verbatim>\<open>egg_memory_fallback\<close>
  of the program that uses the library, and memory outside of the locked pages, which the fallback hands out.
\<close>

record 'w OS =
  os_pagesize :: nat
  os_mmap :: "nat \<Rightarrow> 'w \<Rightarrow> nat option \<times> 'w"
  os_mlock :: "nat \<Rightarrow> nat \<Rightarrow> 'w \<Rightarrow> bool \<times> 'w"
  os_munmap :: "nat \<Rightarrow> nat \<Rightarrow> 'w \<Rightarrow> 'w"
  egg_memory_fallback :: "nat \<Rightarrow> nat \<Rightarrow> 'w \<Rightarrow> nat \<times> 'w"
  os_read :: "nat \<Rightarrow> 'w \<Rightarrow> byte option"
  os_write :: "nat \<Rightarrow> bytes \<Rightarrow> 'w \<Rightarrow> 'w"

record 'w Secure =
  sm_pools :: "Pool list"
  sm_cells :: "nat \<rightharpoonup> Cell"
  sm_mem :: "nat \<rightharpoonup> byte"
  sm_blocks :: "Block list"
  sm_world :: 'w

definition empty_cell :: Cell where
  "empty_cell = \<lparr>cell_words = 0, cell_n_words = 0, cell_allocated = 0, cell_next = 0, cell_prev = 0\<rparr>"

definition upd_cell :: "nat \<Rightarrow> (Cell \<Rightarrow> Cell) \<Rightarrow> (nat \<rightharpoonup> Cell) \<Rightarrow> (nat \<rightharpoonup> Cell) option" where
  "upd_cell c f C = do { x \<leftarrow> C c; Some (C(c \<mapsto> f x)) }"

definition set_cell :: "nat \<Rightarrow> (Cell \<Rightarrow> Cell) \<Rightarrow> 'w Secure \<Rightarrow> 'w Secure option" where
  "set_cell c f st = do { C \<leftarrow> upd_cell c f (sm_cells st); Some (st\<lparr>sm_cells := C\<rparr>) }"

subsection \<open>The unused stack\<close>

definition unused_push :: "nat list \<Rightarrow> nat \<Rightarrow> nat list option" where
  "unused_push stack ptr = do { ASSERT (ptr \<noteq> 0); Some (ptr # stack) }"

definition unused_pop :: "nat list \<Rightarrow> (nat \<times> nat list) option" where
  "unused_pop stack = (case stack of [] \<Rightarrow> None | ptr # rest \<Rightarrow> Some (ptr, rest))"

definition unused_peek :: "nat list \<Rightarrow> nat" where
  "unused_peek stack = (case stack of [] \<Rightarrow> 0 | ptr # rest \<Rightarrow> ptr)"

subsection \<open>Pools of meta data\<close>

definition pool_items :: "Pool \<Rightarrow> nat" where
  "pool_items pool = pool_base pool + offset_items"

text \<open>The loop that fills a new pool: the items \<open>i\<close>, \<open>i + 1\<close> and so on, \<open>k\<close> of them.\<close>

fun pool_fill :: "nat \<Rightarrow> nat \<Rightarrow> nat \<Rightarrow> nat list \<Rightarrow> nat list option" where
  "pool_fill items i 0 stack = Some stack"
| "pool_fill items i (Suc k) stack = do {
     stack1 \<leftarrow> unused_push stack (items + sizeof_Item * i);
     pool_fill items (Suc i) k stack1
   }"

fun pool_take :: "Pool list \<Rightarrow> (nat \<times> Pool list) option option" where
  "pool_take [] = Some None"
| "pool_take (pool # pools) =
     (if unused_peek (pool_unused pool) \<noteq> 0 then do {
        (item, rest) \<leftarrow> unused_pop (pool_unused pool);
        Some (Some (item, pool\<lparr>pool_used := pool_used pool + 1, pool_unused := rest\<rparr> # pools))
      }
      else do {
        r \<leftarrow> pool_take pools;
        Some (map_option (\<lambda>(item, pools'). (item, pool # pools')) r)
      })"

definition pool_create :: "'w OS \<Rightarrow> 'w Secure \<Rightarrow> (bool \<times> 'w Secure) option" where
  "pool_create os st =
     (let len = os_pagesize os * 2 in
      case os_mmap os len (sm_world st) of
        (None, w) \<Rightarrow> Some (False, st\<lparr>sm_world := w\<rparr>)
      | (Some pages, w) \<Rightarrow> do {
          stack \<leftarrow> pool_fill (pages + offset_items) 0 ((len - sizeof_Pool) div sizeof_Item) [];
          Some (True, st\<lparr>sm_world := w, sm_pools :=
            \<lparr>pool_base = pages, pool_length = len, pool_used = 0, pool_unused = stack,
             pool_n_items = (len - sizeof_Pool) div sizeof_Item\<rparr> # sm_pools st\<rparr>)
        })"

definition pool_pick :: "'w Secure \<Rightarrow> (nat \<times> 'w Secure) option" where
  "pool_pick st = do {
     r \<leftarrow> pool_take (sm_pools st);
     case r of
       None \<Rightarrow> None
     | Some (item, pools) \<Rightarrow> Some (item, st\<lparr>sm_pools := pools, sm_cells := (sm_cells st)(item \<mapsto> empty_cell)\<rparr>)
   }"

definition pool_alloc :: "'w OS \<Rightarrow> 'w Secure \<Rightarrow> (nat \<times> 'w Secure) option" where
  "pool_alloc os st = do {
     r \<leftarrow> pool_take (sm_pools st);
     if r \<noteq> None then pool_pick st
     else do {
       (ok, st1) \<leftarrow> pool_create os st;
       if ok then pool_pick st1 else Some (0, st1)
     }
   }"

definition in_pool :: "Pool \<Rightarrow> nat \<Rightarrow> bool" where
  "in_pool pool ptr \<longleftrightarrow> pool_items pool \<le> ptr \<and> ptr \<le> pool_base pool + pool_length pool - sizeof_Item"

fun pool_release :: "'w OS \<Rightarrow> nat \<Rightarrow> Pool list \<Rightarrow> 'w \<Rightarrow> (Pool list \<times> 'w) option" where
  "pool_release os item [] w = None"
| "pool_release os item (pool # pools) w =
     (if in_pool pool item then do {
        ASSERT ((item - pool_items pool) mod sizeof_Item = 0);
        ASSERT (0 < pool_used pool);
        if pool_used pool = 1 then Some (pools, os_munmap os (pool_base pool) (pool_length pool) w)
        else do {
          stack \<leftarrow> unused_push (pool_unused pool) item;
          Some (pool\<lparr>pool_used := pool_used pool - 1, pool_unused := stack\<rparr> # pools, w)
        }
      }
      else do {
        (pools', w') \<leftarrow> pool_release os item pools w;
        Some (pool # pools', w')
      })"

definition pool_free :: "'w OS \<Rightarrow> nat \<Rightarrow> 'w Secure \<Rightarrow> 'w Secure option" where
  "pool_free os item st = do {
     (pools, w) \<leftarrow> pool_release os item (sm_pools st) (sm_world st);
     Some (st\<lparr>sm_pools := pools, sm_world := w, sm_cells := (sm_cells st)(item := None)\<rparr>)
   }"

fun pool_valid :: "Pool list \<Rightarrow> nat \<Rightarrow> bool" where
  "pool_valid [] item = False"
| "pool_valid (pool # pools) item =
     (if in_pool pool item then 0 < pool_used pool \<and> (item - pool_items pool) mod sizeof_Item = 0
      else pool_valid pools item)"

subsection \<open>Guards\<close>

definition sec_size_to_words :: "nat \<Rightarrow> nat" where
  "sec_size_to_words nbytes = (if nbytes mod 8 \<noteq> 0 then 1 else 0) + nbytes div 8"

definition sec_write_guards :: "nat \<Rightarrow> 'w Secure \<Rightarrow> 'w Secure option" where
  "sec_write_guards c st = do {
     x \<leftarrow> sm_cells st c;
     ASSERT (0 < cell_n_words x);
     m1 \<leftarrow> store_word (cell_words x) c (sm_mem st);
     m2 \<leftarrow> store_word (cell_words x + 8 * (cell_n_words x - 1)) c m1;
     Some (st\<lparr>sm_mem := m2\<rparr>)
   }"

definition sec_check_guards :: "nat \<Rightarrow> 'w Secure \<Rightarrow> unit option" where
  "sec_check_guards c st = do {
     x \<leftarrow> sm_cells st c;
     ASSERT (0 < cell_n_words x);
     g1 \<leftarrow> load_word (sm_mem st) (cell_words x);
     ASSERT (g1 = c);
     g2 \<leftarrow> load_word (sm_mem st) (cell_words x + 8 * (cell_n_words x - 1));
     ASSERT (g2 = c)
   }"

subsection \<open>The ring of unused cells\<close>

definition sec_insert_cell_ring :: "nat \<Rightarrow> nat \<Rightarrow> (nat \<rightharpoonup> Cell) \<Rightarrow> (nat \<times> (nat \<rightharpoonup> Cell)) option" where
  "sec_insert_cell_ring ring c C = do {
     ASSERT (c \<noteq> 0);
     ASSERT (c \<noteq> ring);
     x \<leftarrow> C c;
     ASSERT (cell_next x = 0);
     ASSERT (cell_prev x = 0);
     C1 \<leftarrow> (if ring \<noteq> 0 then do {
              r \<leftarrow> C ring;
              C1 \<leftarrow> upd_cell c (\<lambda>x. x\<lparr>cell_next := cell_next r, cell_prev := ring\<rparr>) C;
              C2 \<leftarrow> upd_cell (cell_next r) (\<lambda>x. x\<lparr>cell_prev := c\<rparr>) C1;
              upd_cell ring (\<lambda>x. x\<lparr>cell_next := c\<rparr>) C2
            }
            else upd_cell c (\<lambda>x. x\<lparr>cell_next := c, cell_prev := c\<rparr>) C);
     y \<leftarrow> C1 c;
     n \<leftarrow> C1 (cell_next y);
     ASSERT (cell_prev n = c);
     p \<leftarrow> C1 (cell_prev y);
     ASSERT (cell_next p = c);
     Some (c, C1)
   }"

definition sec_remove_cell_ring :: "nat \<Rightarrow> nat \<Rightarrow> (nat \<rightharpoonup> Cell) \<Rightarrow> (nat \<times> (nat \<rightharpoonup> Cell)) option" where
  "sec_remove_cell_ring ring c C = do {
     ASSERT (ring \<noteq> 0);
     x \<leftarrow> C c;
     ASSERT (cell_next x \<noteq> 0);
     ASSERT (cell_prev x \<noteq> 0);
     n \<leftarrow> C (cell_next x);
     ASSERT (cell_prev n = c);
     p \<leftarrow> C (cell_prev x);
     ASSERT (cell_next p = c);
     ring1 \<leftarrow> (if c = ring then
                 if cell_next x = c then do { ASSERT (cell_prev x = c); Some 0 }
                 else do { ASSERT (cell_prev x \<noteq> c); Some (cell_next x) }
               else Some ring);
     C1 \<leftarrow> upd_cell (cell_next x) (\<lambda>y. y\<lparr>cell_prev := cell_prev x\<rparr>) C;
     x1 \<leftarrow> C1 c;
     C2 \<leftarrow> upd_cell (cell_prev x1) (\<lambda>y. y\<lparr>cell_next := cell_next x1\<rparr>) C1;
     C3 \<leftarrow> upd_cell c (\<lambda>y. y\<lparr>cell_next := 0, cell_prev := 0\<rparr>) C2;
     ASSERT (ring1 \<noteq> c);
     Some (ring1, C3)
   }"

definition sec_cell_to_memory :: "Cell \<Rightarrow> nat" where
  "sec_cell_to_memory x = cell_words x + 8"

definition sec_is_valid_word :: "Block \<Rightarrow> nat \<Rightarrow> bool" where
  "sec_is_valid_word block word \<longleftrightarrow> block_words block \<le> word \<and> word < block_words block + 8 * block_n_words block"

definition sec_clear_memory :: "nat \<Rightarrow> nat \<Rightarrow> nat \<Rightarrow> (nat \<rightharpoonup> byte) \<Rightarrow> (nat \<rightharpoonup> byte) option" where
  "sec_clear_memory memory from to m = do {
     ASSERT (from \<le> to);
     put_bytes (memory + from) (replicate (to - from) 0) m
   }"

definition sec_neighbor_before :: "Block \<Rightarrow> nat \<Rightarrow> 'w Secure \<Rightarrow> nat option" where
  "sec_neighbor_before block c st = do {
     ASSERT (c \<noteq> 0);
     x \<leftarrow> sm_cells st c;
     if \<not> (8 \<le> cell_words x \<and> sec_is_valid_word block (cell_words x - 8)) then Some 0
     else do {
       other \<leftarrow> load_word (sm_mem st) (cell_words x - 8);
       sec_check_guards other st;
       Some other
     }
   }"

definition sec_neighbor_after :: "Block \<Rightarrow> nat \<Rightarrow> 'w Secure \<Rightarrow> nat option" where
  "sec_neighbor_after block c st = do {
     ASSERT (c \<noteq> 0);
     x \<leftarrow> sm_cells st c;
     if \<not> sec_is_valid_word block (cell_words x + 8 * cell_n_words x) then Some 0
     else do {
       other \<leftarrow> load_word (sm_mem st) (cell_words x + 8 * cell_n_words x);
       sec_check_guards other st;
       Some other
     }
   }"

subsection \<open>Allocation in a block\<close>

text \<open>The loop that looks for a cell; on a broken ring it may not end.\<close>

partial_function (option) find_cell :: "(nat \<rightharpoonup> Cell) \<Rightarrow> nat \<Rightarrow> nat \<Rightarrow> nat \<Rightarrow> nat option" where
  "find_cell C unused n c = do {
     x \<leftarrow> C c;
     if cell_n_words x < n
     then if cell_next x = unused then Some 0 else find_cell C unused n (cell_next x)
     else Some c
   }"

definition sec_split :: "'w OS \<Rightarrow> nat \<Rightarrow> nat \<Rightarrow> 'w Secure \<Rightarrow> (nat \<times> 'w Secure) option" where
  "sec_split os c n st = do {
     (other, st1) \<leftarrow> pool_alloc os st;
     if other = 0 then Some (0, st1)
     else do {
       x \<leftarrow> sm_cells st1 c;
       st2 \<leftarrow> set_cell other (\<lambda>y. y\<lparr>cell_n_words := n, cell_words := cell_words x\<rparr>) st1;
       st3 \<leftarrow> set_cell c (\<lambda>x. x\<lparr>cell_n_words := cell_n_words x - n, cell_words := cell_words x + 8 * n\<rparr>) st2;
       st4 \<leftarrow> sec_write_guards other st3;
       st5 \<leftarrow> sec_write_guards c st4;
       Some (other, st5)
     }
   }"

definition sec_unlink :: "Block \<Rightarrow> nat \<Rightarrow> 'w Secure \<Rightarrow> (Block \<times> 'w Secure) option" where
  "sec_unlink block c st = do {
     (ring, C) \<leftarrow> sec_remove_cell_ring (block_unused block) c (sm_cells st);
     Some (block\<lparr>block_unused := ring\<rparr>, st\<lparr>sm_cells := C\<rparr>)
   }"

text \<open>The end of \<^verbatim>\<open>sec_alloc\<close>: the cell leaves the ring, if it is in it, and its memory is cleared.\<close>

definition sec_use :: "Block \<Rightarrow> nat \<Rightarrow> nat \<Rightarrow> 'w Secure \<Rightarrow> (nat \<times> Block \<times> 'w Secure) option" where
  "sec_use block c nbytes st = do {
     x \<leftarrow> sm_cells st c;
     (block2, st2) \<leftarrow> (if cell_next x \<noteq> 0 then sec_unlink block c st else Some (block, st));
     st3 \<leftarrow> set_cell c (\<lambda>x. x\<lparr>cell_allocated := nbytes\<rparr>) st2;
     m \<leftarrow> put_bytes (sec_cell_to_memory x) (replicate nbytes 0) (sm_mem st3);
     Some (sec_cell_to_memory x, block2\<lparr>block_used := block_used block2 + 1\<rparr>, st3\<lparr>sm_mem := m\<rparr>)
   }"

definition sec_alloc :: "'w OS \<Rightarrow> Block \<Rightarrow> nat \<Rightarrow> 'w Secure \<Rightarrow> (nat \<times> Block \<times> 'w Secure) option" where
  "sec_alloc os block nbytes st = do {
     ASSERT (nbytes \<noteq> 0);
     if block_unused block = 0 then Some (0, block, st)
     else do {
       let n_words = sec_size_to_words nbytes + 2;
       c \<leftarrow> find_cell (sm_cells st) (block_unused block) n_words (block_unused block);
       if c = 0 then Some (0, block, st)
       else do {
         x \<leftarrow> sm_cells st c;
         ASSERT (cell_allocated x = 0);
         ASSERT (cell_prev x \<noteq> 0);
         ASSERT (cell_words x \<noteq> 0);
         sec_check_guards c st;
         (c1, st1) \<leftarrow> (if n_words + WASTE < cell_n_words x then sec_split os c n_words st else Some (c, st));
         if c1 = 0 then Some (0, block, st1) else sec_use block c1 nbytes st1
       }
     }
   }"

subsection \<open>Release in a block\<close>

text \<open>The cell of a piece of memory, from the word in front of it.\<close>

definition sec_lookup :: "Block \<Rightarrow> nat \<Rightarrow> 'w Secure \<Rightarrow> nat option" where
  "sec_lookup block memory st = do {
     ASSERT (8 \<le> memory \<and> sec_is_valid_word block (memory - 8));
     c \<leftarrow> load_word (sm_mem st) (memory - 8);
     ASSERT (pool_valid (sm_pools st) c);
     Some c
   }"

definition sec_merge_before :: "'w OS \<Rightarrow> Block \<Rightarrow> nat \<Rightarrow> 'w Secure \<Rightarrow> (nat \<times> 'w Secure) option" where
  "sec_merge_before os block c st = do {
     other \<leftarrow> sec_neighbor_before block c st;
     if other = 0 then Some (c, st)
     else do {
       y \<leftarrow> sm_cells st other;
       if cell_allocated y \<noteq> 0 then Some (c, st)
       else do {
         ASSERT (cell_next y \<noteq> 0 \<and> cell_prev y \<noteq> 0);
         x \<leftarrow> sm_cells st c;
         st1 \<leftarrow> set_cell other (\<lambda>y. y\<lparr>cell_n_words := cell_n_words y + cell_n_words x\<rparr>) st;
         st2 \<leftarrow> sec_write_guards other st1;
         st3 \<leftarrow> pool_free os c st2;
         Some (other, st3)
       }
     }
   }"

definition sec_merge_after :: "'w OS \<Rightarrow> Block \<Rightarrow> nat \<Rightarrow> 'w Secure \<Rightarrow> (nat \<times> Block \<times> 'w Secure) option" where
  "sec_merge_after os block c st = do {
     other \<leftarrow> sec_neighbor_after block c st;
     if other = 0 then Some (c, block, st)
     else do {
       y \<leftarrow> sm_cells st other;
       if cell_allocated y \<noteq> 0 then Some (c, block, st)
       else do {
         ASSERT (cell_next y \<noteq> 0 \<and> cell_prev y \<noteq> 0);
         x \<leftarrow> sm_cells st c;
         st1 \<leftarrow> set_cell other (\<lambda>y. y\<lparr>cell_n_words := cell_n_words y + cell_n_words x, cell_words := cell_words x\<rparr>) st;
         (block2, st2) \<leftarrow> (if cell_next x \<noteq> 0 then sec_unlink block c st1 else Some (block, st1));
         st3 \<leftarrow> sec_write_guards other st2;
         st4 \<leftarrow> pool_free os c st3;
         Some (other, block2, st4)
       }
     }
   }"

definition sec_free :: "'w OS \<Rightarrow> Block \<Rightarrow> nat \<Rightarrow> 'w Secure \<Rightarrow> (Block \<times> 'w Secure) option" where
  "sec_free os block memory st = do {
     ASSERT (memory \<noteq> 0);
     c \<leftarrow> sec_lookup block memory st;
     sec_check_guards c st;
     x \<leftarrow> sm_cells st c;
     m \<leftarrow> sec_clear_memory memory 0 (cell_allocated x) (sm_mem st);
     let st1 = st\<lparr>sm_mem := m\<rparr>;
     sec_check_guards c st1;
     ASSERT (cell_next x = 0);
     ASSERT (cell_prev x = 0);
     ASSERT (0 < cell_allocated x);
     (c2, st2) \<leftarrow> sec_merge_before os block c st1;
     (c3, block3, st3) \<leftarrow> sec_merge_after os block c2 st2;
     z \<leftarrow> sm_cells st3 c3;
     (block4, st4) \<leftarrow> (if cell_next z = 0 then do {
                        (ring, C) \<leftarrow> sec_insert_cell_ring (block_unused block3) c3 (sm_cells st3);
                        Some (block3\<lparr>block_unused := ring\<rparr>, st3\<lparr>sm_cells := C\<rparr>)
                      }
                      else Some (block3, st3));
     st5 \<leftarrow> set_cell c3 (\<lambda>z. z\<lparr>cell_allocated := 0\<rparr>) st4;
     Some (block4\<lparr>block_used := block_used block4 - 1\<rparr>, st5)
   }"

subsection \<open>Reallocation in a block\<close>

text \<open>The loop that takes memory from the neighbour behind a cell.\<close>

partial_function (option) sec_grow :: "'w OS \<Rightarrow> nat \<Rightarrow> nat \<Rightarrow> Block \<Rightarrow> 'w Secure \<Rightarrow> (Block \<times> 'w Secure) option" where
  "sec_grow os c n_words block st = do {
     x \<leftarrow> sm_cells st c;
     if \<not> cell_n_words x < n_words then Some (block, st)
     else do {
       other \<leftarrow> sec_neighbor_after block c st;
       if other = 0 then Some (block, st)
       else do {
         y \<leftarrow> sm_cells st other;
         if cell_allocated y \<noteq> 0 then Some (block, st)
         else if cell_n_words y \<le> n_words - cell_n_words x + WASTE then do {
           st1 \<leftarrow> set_cell c (\<lambda>x. x\<lparr>cell_n_words := cell_n_words x + cell_n_words y\<rparr>) st;
           st2 \<leftarrow> sec_write_guards c st1;
           (block3, st3) \<leftarrow> sec_unlink block other st2;
           st4 \<leftarrow> pool_free os other st3;
           sec_grow os c n_words block3 st4
         }
         else do {
           st1 \<leftarrow> set_cell other (\<lambda>y. y\<lparr>cell_words := cell_words y + 8 * (n_words - cell_n_words x),
                                        cell_n_words := cell_n_words y - (n_words - cell_n_words x)\<rparr>) st;
           st2 \<leftarrow> sec_write_guards other st1;
           st3 \<leftarrow> set_cell c (\<lambda>x. x\<lparr>cell_n_words := n_words\<rparr>) st2;
           st4 \<leftarrow> sec_write_guards c st3;
           sec_grow os c n_words block st4
         }
       }
     }
   }"

definition sec_realloc :: "'w OS \<Rightarrow> Block \<Rightarrow> nat \<Rightarrow> nat \<Rightarrow> 'w Secure \<Rightarrow> (nat \<times> Block \<times> 'w Secure) option" where
  "sec_realloc os block memory nbytes st = do {
     ASSERT (memory \<noteq> 0);
     ASSERT (0 < nbytes);
     c \<leftarrow> sec_lookup block memory st;
     sec_check_guards c st;
     x \<leftarrow> sm_cells st c;
     ASSERT (0 < cell_allocated x);
     ASSERT (cell_next x = 0);
     ASSERT (cell_prev x = 0);
     let valid = cell_allocated x;
     let n_words = sec_size_to_words nbytes + 2;
     if n_words \<le> cell_n_words x then do {
       st1 \<leftarrow> set_cell c (\<lambda>x. x\<lparr>cell_allocated := nbytes\<rparr>) st;
       if nbytes < valid then do {
         m \<leftarrow> sec_clear_memory (sec_cell_to_memory x) nbytes valid (sm_mem st1);
         Some (sec_cell_to_memory x, block, st1\<lparr>sm_mem := m\<rparr>)
       }
       else Some (sec_cell_to_memory x, block, st1)
     }
     else do {
       (block2, st2) \<leftarrow> sec_grow os c n_words block st;
       y \<leftarrow> sm_cells st2 c;
       if n_words \<le> cell_n_words y then do {
         st3 \<leftarrow> set_cell c (\<lambda>x. x\<lparr>cell_allocated := nbytes\<rparr>) st2;
         m \<leftarrow> sec_clear_memory (sec_cell_to_memory y) valid nbytes (sm_mem st3);
         Some (sec_cell_to_memory y, block2, st3\<lparr>sm_mem := m\<rparr>)
       }
       else do {
         (alloc, block3, st3) \<leftarrow> sec_alloc os block2 nbytes st2;
         if alloc = 0 then Some (0, block3, st3)
         else do {
           bs \<leftarrow> get_bytes (sm_mem st3) memory valid;
           m \<leftarrow> put_bytes alloc bs (sm_mem st3);
           (block4, st4) \<leftarrow> sec_free os block3 memory (st3\<lparr>sm_mem := m\<rparr>);
           Some (alloc, block4, st4)
         }
       }
     }
   }"

definition sec_allocated :: "Block \<Rightarrow> nat \<Rightarrow> 'w Secure \<Rightarrow> nat option" where
  "sec_allocated block memory st = do {
     ASSERT (memory \<noteq> 0);
     c \<leftarrow> sec_lookup block memory st;
     sec_check_guards c st;
     x \<leftarrow> sm_cells st c;
     ASSERT (cell_next x = 0);
     ASSERT (cell_prev x = 0);
     ASSERT (0 < cell_allocated x);
     Some (cell_allocated x)
   }"

text \<open>The loop of \<^verbatim>\<open>sec_validate\<close>, at \<open>word\<close>.\<close>

partial_function (option) sec_validate_from :: "Block \<Rightarrow> 'w Secure \<Rightarrow> nat \<Rightarrow> unit option" where
  "sec_validate_from block st word = do {
     ASSERT (word < block_words block + 8 * block_n_words block);
     ASSERT (sec_is_valid_word block word);
     c \<leftarrow> load_word (sm_mem st) word;
     ASSERT (pool_valid (sm_pools st) c);
     sec_check_guards c st;
     x \<leftarrow> sm_cells st c;
     (if 0 < cell_allocated x then do {
        ASSERT (cell_next x = 0);
        ASSERT (cell_prev x = 0);
        ASSERT (cell_allocated x \<le> (cell_n_words x - 2) * 8)
      }
      else do {
        ASSERT (cell_next x \<noteq> 0);
        ASSERT (cell_prev x \<noteq> 0);
        n \<leftarrow> sm_cells st (cell_next x);
        ASSERT (cell_prev n = c);
        p \<leftarrow> sm_cells st (cell_prev x);
        ASSERT (cell_next p = c)
      });
     if word + 8 * cell_n_words x = block_words block + 8 * block_n_words block then Some ()
     else sec_validate_from block st (word + 8 * cell_n_words x)
   }"

definition sec_validate :: "Block \<Rightarrow> 'w Secure \<Rightarrow> unit option" where
  "sec_validate block st = sec_validate_from block st (block_words block)"

subsection \<open>Locked pages\<close>

definition sec_page_round :: "'w OS \<Rightarrow> nat \<Rightarrow> nat" where
  "sec_page_round os sz =
     (let pgsize = word_of_nat (os_pagesize os) :: 64 word
      in unat ((word_of_nat sz + pgsize - 1) AND NOT (pgsize - 1)))"

definition sec_acquire_pages :: "'w OS \<Rightarrow> nat \<Rightarrow> 'w Secure \<Rightarrow> (nat \<times> nat \<times> 'w Secure) option" where
  "sec_acquire_pages os sz0 st = do {
     ASSERT (sz0 \<noteq> 0);
     let sz = sec_page_round os sz0;
     Some (case os_mmap os sz (sm_world st) of
             (None, w) \<Rightarrow> (0, sz, st\<lparr>sm_world := w\<rparr>)
           | (Some pages, w) \<Rightarrow>
               (case os_mlock os pages sz w of
                  (False, w1) \<Rightarrow> (0, sz, st\<lparr>sm_world := os_munmap os pages sz w1\<rparr>)
                | (True, w1) \<Rightarrow> (pages, sz, st\<lparr>sm_world := w1,
                    sm_mem := (\<lambda>a. if pages \<le> a \<and> a < pages + sz then Some 0 else sm_mem st a)\<rparr>)))
   }"

definition sec_release_pages :: "'w OS \<Rightarrow> nat \<Rightarrow> nat \<Rightarrow> 'w Secure \<Rightarrow> 'w Secure option" where
  "sec_release_pages os pages sz st = do {
     ASSERT (pages \<noteq> 0);
     ASSERT (sz mod os_pagesize os = 0);
     Some (st\<lparr>sm_world := os_munmap os pages sz (sm_world st),
              sm_mem := (\<lambda>a. if pages \<le> a \<and> a < pages + sz then None else sm_mem st a)\<rparr>)
   }"

subsection \<open>Blocks\<close>

text \<open>An item that becomes a block is no cell any more.\<close>

definition sec_block_create :: "'w OS \<Rightarrow> nat \<Rightarrow> 'w Secure \<Rightarrow> (Block option \<times> 'w Secure) option" where
  "sec_block_create os size0 st = do {
     (block, st0) \<leftarrow> pool_alloc os st;
     if block = 0 then Some (None, st0)
     else do {
       let st1 = st0\<lparr>sm_cells := (sm_cells st0)(block := None)\<rparr>;
       (c, st2) \<leftarrow> pool_alloc os st1;
       if c = 0 then do {
         st3 \<leftarrow> pool_free os block st2;
         Some (None, st3)
       }
       else do {
         let size1 = (if size0 < DEFAULT_BLOCK_SIZE then DEFAULT_BLOCK_SIZE else size0);
         (pages, size2, st3) \<leftarrow> sec_acquire_pages os size1 st2;
         if pages = 0 then do {
           st4 \<leftarrow> pool_free os block st3;
           st5 \<leftarrow> pool_free os c st4;
           Some (None, st5)
         }
         else do {
           st4 \<leftarrow> set_cell c (\<lambda>x. x\<lparr>cell_words := pages, cell_n_words := size2 div 8, cell_allocated := 0\<rparr>) st3;
           st5 \<leftarrow> sec_write_guards c st4;
           (ring, C) \<leftarrow> sec_insert_cell_ring 0 c (sm_cells st5);
           let b = \<lparr>block_self = block, block_words = pages, block_n_words = size2 div 8, block_used = 0, block_unused = ring\<rparr>;
           Some (Some b, st5\<lparr>sm_cells := C, sm_blocks := b # sm_blocks st5\<rparr>)
         }
       }
     }
   }"

text \<open>The loop of \<^verbatim>\<open>sec_block_destroy\<close> that releases the cells.\<close>

partial_function (option) sec_release_cells :: "'w OS \<Rightarrow> nat \<Rightarrow> 'w Secure \<Rightarrow> 'w Secure option" where
  "sec_release_cells os ring st =
     (if ring = 0 then Some st
      else do {
        (ring1, C) \<leftarrow> sec_remove_cell_ring ring ring (sm_cells st);
        st2 \<leftarrow> pool_free os ring (st\<lparr>sm_cells := C\<rparr>);
        sec_release_cells os ring1 st2
      })"

fun remove_block :: "nat \<Rightarrow> Block list \<Rightarrow> Block list option" where
  "remove_block self [] = None"
| "remove_block self (bl # bls) =
     (if block_self bl = self then Some bls else map_option (\<lambda>r. bl # r) (remove_block self bls))"

definition sec_block_destroy :: "'w OS \<Rightarrow> Block \<Rightarrow> 'w Secure \<Rightarrow> 'w Secure option" where
  "sec_block_destroy os block st = do {
     ASSERT (block_words block \<noteq> 0);
     ASSERT (block_used block = 0);
     bls \<leftarrow> remove_block (block_self block) (sm_blocks st);
     st1 \<leftarrow> sec_release_cells os (block_unused block) (st\<lparr>sm_blocks := bls\<rparr>);
     st2 \<leftarrow> sec_release_pages os (block_words block) (block_n_words block * 8) st1;
     pool_free os (block_self block) st2
   }"

subsection \<open>The functions of the library\<close>

definition GKR_SECURE_USE_FALLBACK :: "32 word" where
  "GKR_SECURE_USE_FALLBACK = 1"

text \<open>Memory that may be in a block or outside of the locked pages.\<close>

definition poke :: "'w OS \<Rightarrow> nat \<Rightarrow> bytes \<Rightarrow> 'w Secure \<Rightarrow> 'w Secure option" where
  "poke os a bs st =
     (if a = 0 then None
      else if sm_mem st a \<noteq> None then do { m \<leftarrow> put_bytes a bs (sm_mem st); Some (st\<lparr>sm_mem := m\<rparr>) }
      else Some (st\<lparr>sm_world := os_write os a bs (sm_world st)\<rparr>))"

definition peek :: "'w OS \<Rightarrow> nat \<Rightarrow> 'w Secure \<Rightarrow> byte option" where
  "peek os a st = (case sm_mem st a of Some b \<Rightarrow> Some b | None \<Rightarrow> os_read os a (sm_world st))"

text \<open>The loop over the blocks in \<^verbatim>\<open>egg_secure_alloc_full\<close>; a block is written back where it came from.\<close>

fun alloc_in_blocks :: "'w OS \<Rightarrow> nat \<Rightarrow> Block list \<Rightarrow> 'w Secure \<Rightarrow> (nat \<times> Block list \<times> 'w Secure) option" where
  "alloc_in_blocks os nbytes [] st = Some (0, [], st)"
| "alloc_in_blocks os nbytes (b # bs) st = do {
     (p, b1, st1) \<leftarrow> sec_alloc os b nbytes st;
     if p \<noteq> 0 then Some (p, b1 # bs, st1)
     else do {
       (q, bs2, st2) \<leftarrow> alloc_in_blocks os nbytes bs st1;
       Some (q, b1 # bs2, st2)
     }
   }"

definition secure_alloc_locked :: "'w OS \<Rightarrow> nat \<Rightarrow> 'w Secure \<Rightarrow> (nat \<times> 'w Secure) option" where
  "secure_alloc_locked os nbytes st = do {
     (p, bs, st1) \<leftarrow> alloc_in_blocks os nbytes (sm_blocks st) st;
     let st1 = st1\<lparr>sm_blocks := bs\<rparr>;
     if p \<noteq> 0 then Some (p, st1)
     else do {
       (r, st2) \<leftarrow> sec_block_create os nbytes st1;
       case r of
         None \<Rightarrow> Some (0, st2)
       | Some b \<Rightarrow> do {
           (q, b2, st3) \<leftarrow> sec_alloc os b nbytes st2;
           Some (q, st3\<lparr>sm_blocks := b2 # tl (sm_blocks st3)\<rparr>)
         }
     }
   }"

definition egg_secure_alloc_full :: "'w OS \<Rightarrow> nat \<Rightarrow> 32 word \<Rightarrow> 'w Secure \<Rightarrow> (nat \<times> 'w Secure) option" where
  "egg_secure_alloc_full os nbytes flags st =
     (if 0xFFFFFFFF div 2 < nbytes then Some (0, st)
      else if nbytes = 0 then Some (0, st)
      else do {
        (p, st1) \<leftarrow> secure_alloc_locked os nbytes st;
        if p = 0 \<and> flags AND GKR_SECURE_USE_FALLBACK \<noteq> 0
        then case egg_memory_fallback os 0 nbytes (sm_world st1) of
               (q, w) \<Rightarrow>
                 if q = 0 then Some (0, st1\<lparr>sm_world := w\<rparr>)
                 else do {
                   st2 \<leftarrow> poke os q (replicate nbytes 0) (st1\<lparr>sm_world := w\<rparr>);
                   Some (q, st2)
                 }
        else Some (p, st1)
      })"

definition egg_secure_alloc :: "'w OS \<Rightarrow> nat \<Rightarrow> 'w Secure \<Rightarrow> (nat \<times> 'w Secure) option" where
  "egg_secure_alloc os nbytes = egg_secure_alloc_full os nbytes GKR_SECURE_USE_FALLBACK"

fun block_of :: "Block list \<Rightarrow> nat \<Rightarrow> nat option" where
  "block_of [] memory = None"
| "block_of (b # bs) memory = (if sec_is_valid_word b memory then Some 0 else map_option Suc (block_of bs memory))"

text \<open>A block that has no allocation any more is destroyed.\<close>

definition write_back :: "'w OS \<Rightarrow> nat \<Rightarrow> Block \<Rightarrow> 'w Secure \<Rightarrow> 'w Secure option" where
  "write_back os i b st =
     (let st1 = st\<lparr>sm_blocks := (sm_blocks st)[i := b]\<rparr>
      in if block_used b = 0 then sec_block_destroy os b st1 else Some st1)"

definition egg_secure_free_full :: "'w OS \<Rightarrow> nat \<Rightarrow> 32 word \<Rightarrow> 'w Secure \<Rightarrow> 'w Secure option" where
  "egg_secure_free_full os memory flags st =
     (if memory = 0 then Some st
      else case block_of (sm_blocks st) memory of
        Some i \<Rightarrow> do {
          (b, st1) \<leftarrow> sec_free os (sm_blocks st ! i) memory st;
          write_back os i b st1
        }
      | None \<Rightarrow>
          if flags AND GKR_SECURE_USE_FALLBACK \<noteq> 0
          then Some (st\<lparr>sm_world := snd (egg_memory_fallback os memory 0 (sm_world st))\<rparr>)
          else None)"

definition egg_secure_free :: "'w OS \<Rightarrow> nat \<Rightarrow> 'w Secure \<Rightarrow> 'w Secure option" where
  "egg_secure_free os memory = egg_secure_free_full os memory GKR_SECURE_USE_FALLBACK"

definition egg_secure_realloc_full ::
    "'w OS \<Rightarrow> nat \<Rightarrow> nat \<Rightarrow> 32 word \<Rightarrow> 'w Secure \<Rightarrow> (nat \<times> 'w Secure) option" where
  "egg_secure_realloc_full os memory nbytes flags st =
     (if 0xFFFFFFFF div 2 < nbytes then Some (0, st)
      else if memory = 0 then egg_secure_alloc_full os nbytes flags st
      else if nbytes = 0 then do { st1 \<leftarrow> egg_secure_free_full os memory flags st; Some (0, st1) }
      else case block_of (sm_blocks st) memory of
        None \<Rightarrow>
          if flags AND GKR_SECURE_USE_FALLBACK \<noteq> 0
          then (case egg_memory_fallback os memory nbytes (sm_world st) of (q, w) \<Rightarrow> Some (q, st\<lparr>sm_world := w\<rparr>))
          else None
      | Some i \<Rightarrow> do {
          previous \<leftarrow> sec_allocated (sm_blocks st ! i) memory st;
          (alloc, b, st1) \<leftarrow> sec_realloc os (sm_blocks st ! i) memory nbytes st;
          st2 \<leftarrow> write_back os i b st1;
          if alloc \<noteq> 0 then Some (alloc, st2)
          else do {
            (q, st3) \<leftarrow> egg_secure_alloc_full os nbytes flags st2;
            if q = 0 then Some (0, st3)
            else do {
              bs \<leftarrow> those (map (\<lambda>a. peek os a st3) [memory..<memory + previous]);
              st4 \<leftarrow> poke os q bs st3;
              st5 \<leftarrow> egg_secure_free_full os memory flags st4;
              Some (q, st5)
            }
          }
        })"

definition egg_secure_realloc :: "'w OS \<Rightarrow> nat \<Rightarrow> nat \<Rightarrow> 'w Secure \<Rightarrow> (nat \<times> 'w Secure) option" where
  "egg_secure_realloc os memory nbytes = egg_secure_realloc_full os memory nbytes GKR_SECURE_USE_FALLBACK"

definition egg_secure_check :: "nat \<Rightarrow> 'w Secure \<Rightarrow> int" where
  "egg_secure_check memory st = (if block_of (sm_blocks st) memory = None then 0 else 1)"

fun validate_blocks :: "Block list \<Rightarrow> 'w Secure \<Rightarrow> unit option" where
  "validate_blocks [] st = Some ()"
| "validate_blocks (b # bs) st = do { sec_validate b st; validate_blocks bs st }"

definition egg_secure_validate :: "'w Secure \<Rightarrow> unit option" where
  "egg_secure_validate st = validate_blocks (sm_blocks st) st"

definition egg_secure_strdup :: "'w OS \<Rightarrow> bytes option \<Rightarrow> 'w Secure \<Rightarrow> (nat \<times> 'w Secure) option" where
  "egg_secure_strdup os str st =
     (case str of
        None \<Rightarrow> Some (0, st)
      | Some s \<Rightarrow> do {
          (res, st1) \<leftarrow> egg_secure_alloc os (length (c_str s) + 1) st;
          st2 \<leftarrow> poke os res (c_str s @ [0]) st1;
          Some (res, st2)
        })"

definition egg_secure_clear :: "'w OS \<Rightarrow> nat \<Rightarrow> nat \<Rightarrow> 'w Secure \<Rightarrow> 'w Secure option" where
  "egg_secure_clear os p nbytes st =
     (if p = 0 \<or> nbytes = 0 then Some st else poke os p (replicate nbytes 0xAA) st)"

partial_function (option) secure_strlen :: "'w OS \<Rightarrow> nat \<Rightarrow> 'w Secure \<Rightarrow> nat option" where
  "secure_strlen os p st = do {
     b \<leftarrow> peek os p st;
     if b = 0 then Some 0 else do { n \<leftarrow> secure_strlen os (Suc p) st; Some (Suc n) }
   }"

definition egg_secure_strclear :: "'w OS \<Rightarrow> nat \<Rightarrow> 'w Secure \<Rightarrow> 'w Secure option" where
  "egg_secure_strclear os str st =
     (if str = 0 then Some st
      else do {
        n \<leftarrow> secure_strlen os str st;
        egg_secure_clear os str n st
      })"

definition egg_secure_strfree :: "'w OS \<Rightarrow> nat \<Rightarrow> 'w Secure \<Rightarrow> 'w Secure option" where
  "egg_secure_strfree os str st = do {
     st1 \<leftarrow> egg_secure_strclear os str st;
     egg_secure_free_full os str GKR_SECURE_USE_FALLBACK st1
   }"

declare find_cell.simps [code] sec_grow.simps [code] sec_validate_from.simps [code] sec_release_cells.simps [code] secure_strlen.simps [code]

end
