(* ===== verification/EggSecureRing.thy ===== *)
theory EggSecureRing
  imports EggSecure
begin

text \<open>
  The data structures of the secure memory: words in memory, the ring of unused cells, the pools of meta data.
\<close>

section \<open>Bytes and words in memory\<close>

text \<open>The addresses of \<open>n\<close> bytes at \<open>a\<close>.\<close>

abbreviation span :: "nat \<Rightarrow> nat \<Rightarrow> nat set" where
  "span a n \<equiv> {a..<a + n}"

lemma those_map_Some: "those (map f xs) = Some ys \<longleftrightarrow> map f xs = map Some ys"
proof (induction xs arbitrary: ys)
  case (Cons x xs)
  then show ?case by (cases ys) (auto split: option.splits)
qed auto

lemma get_bytes_Some:
  "get_bytes m a n = Some bs \<longleftrightarrow> length bs = n \<and> (\<forall>i < n. m (a + i) = Some (bs ! i))"
  unfolding get_bytes_def those_map_Some by (auto simp: list_eq_iff_nth_eq)

lemma get_bytes_dom: "span a n \<subseteq> dom m \<Longrightarrow> \<exists>bs. get_bytes m a n = Some bs"
  unfolding get_bytes_Some by (intro exI [of _ "map (\<lambda>i. the (m (a + i))) [0..<n]"]) (auto simp: subset_iff domIff)

lemma get_bytes_cong: "(\<And>x. x \<in> span a n \<Longrightarrow> m' x = m x) \<Longrightarrow> get_bytes m' a n = get_bytes m a n"
  unfolding get_bytes_def by (intro arg_cong [of _ _ those] map_cong) auto

lemma load_word_cong: "(\<And>x. x \<in> span a 8 \<Longrightarrow> m' x = m x) \<Longrightarrow> load_word m' a = load_word m a"
  unfolding load_word_def using get_bytes_cong [of a 8 m' m] by simp

definition put :: "nat \<Rightarrow> bytes \<Rightarrow> (nat \<rightharpoonup> byte) \<Rightarrow> (nat \<rightharpoonup> byte)" where
  "put a bs m x = (if x \<in> span a (length bs) then Some (bs ! (x - a)) else m x)"

lemma put_bytes_ok: "span a (length bs) \<subseteq> dom m \<Longrightarrow> put_bytes a bs m = Some (put a bs m)"
  by (auto simp: put_bytes_def put_def list_all_iff fun_eq_iff subset_iff)

lemma put_other: "x \<notin> span a (length bs) \<Longrightarrow> put a bs m x = m x"
  by (auto simp: put_def)

lemma dom_put: "span a (length bs) \<subseteq> dom m \<Longrightarrow> dom (put a bs m) = dom m"
  by (auto simp: put_def dom_def)

lemma get_put: "get_bytes (put a bs m) a (length bs) = Some bs"
  by (simp add: get_bytes_Some put_def)

lemma length_le_bytes [simp]: "length (le_bytes n v) = n"
  by (induction n arbitrary: v) simp_all

lemma le_value_bytes: "v < 256 ^ n \<Longrightarrow> le_value (le_bytes n v) = v"
proof (induction n arbitrary: v)
  case (Suc n)
  have "unat (word_of_nat (v mod 256) :: byte) = v mod 256" by (intro unat_of_nat_small) simp
  moreover have "v div 256 < 256 ^ n" using Suc.prems by (simp add: div_less_iff_less_mult mult.commute)
  ultimately show ?case using Suc.IH by simp
qed simp

lemma load_put_word: "v < 2 ^ 64 \<Longrightarrow> load_word (put a (le_bytes 8 v) m) a = Some v"
  using get_put [of a "le_bytes 8 v" m] le_value_bytes [of v 8] by (simp add: load_word_def)

lemma load_put_other: "span a (length bs) \<inter> span b 8 = {} \<Longrightarrow> load_word (put a bs m) b = load_word m b"
  by (intro load_word_cong put_other) auto

lemma store_word_ok: "span a 8 \<subseteq> dom m \<Longrightarrow> store_word a v m = Some (put a (le_bytes 8 v) m)"
  by (simp add: store_word_def put_bytes_ok)

section \<open>Rings\<close>

text \<open>\<open>chain C xs\<close>: each cell of \<open>xs\<close> but the last has the following one as its next, which has it as its previous.\<close>

fun chain :: "(nat \<rightharpoonup> Cell) \<Rightarrow> nat list \<Rightarrow> bool" where
  "chain C (c # d # cs) \<longleftrightarrow> (\<exists>x. C c = Some x \<and> cell_next x = d) \<and> (\<exists>y. C d = Some y \<and> cell_prev y = c) \<and> chain C (d # cs)"
| "chain C _ \<longleftrightarrow> True"

definition ring :: "(nat \<rightharpoonup> Cell) \<Rightarrow> nat list \<Rightarrow> bool" where
  "ring C rs \<longleftrightarrow> distinct rs \<and> 0 \<notin> set rs \<and> (rs \<noteq> [] \<longrightarrow> chain C (rs @ [hd rs]))"

definition ring_head :: "nat list \<Rightarrow> nat" where
  "ring_head rs = (case rs of [] \<Rightarrow> 0 | r # _ \<Rightarrow> r)"

lemma ring_head_simps [simp]: "ring_head [] = 0" "ring_head (r # rs) = r"
  by (simp_all add: ring_head_def)

lemma chain_append: "chain C (xs @ c # ys) \<longleftrightarrow> chain C (xs @ [c]) \<and> chain C (c # ys)"
proof (induction xs)
  case (Cons x xs)
  then show ?case by (cases xs) auto
qed simp

lemma chain_ConsD: "chain C (c # ds) \<Longrightarrow> chain C ds"
  by (cases ds) auto

lemma chain_appendD: "chain C (ds @ es) \<Longrightarrow> chain C ds"
  by (induction C ds rule: chain.induct) auto

lemma chain_snoc: "chain C (xs @ [c, d]) \<longleftrightarrow> chain C (xs @ [c]) \<and> (\<exists>x. C c = Some x \<and> cell_next x = d) \<and> (\<exists>y. C d = Some y \<and> cell_prev y = c)"
  using chain_append [of C xs c "[d]"] by simp

lemma ring_rotate: "ring C (xs @ ys) \<longleftrightarrow> ring C (ys @ xs)"
proof (cases "xs = [] \<or> ys = []")
  case False
  then obtain x xs' y ys' where "xs = x # xs'" "ys = y # ys'" by (auto simp: neq_Nil_conv)
  then show ?thesis
    using chain_append [of C "x # xs'" y "ys' @ [x]"] chain_append [of C "y # ys'" x "xs' @ [y]"] unfolding ring_def by auto
qed auto

text \<open>A chain only depends on the links of its cells.\<close>

definition same_links :: "nat set \<Rightarrow> (nat \<rightharpoonup> Cell) \<Rightarrow> (nat \<rightharpoonup> Cell) \<Rightarrow> bool" where
  "same_links S C C' \<longleftrightarrow> (\<forall>c \<in> S. map_option (\<lambda>x. (cell_next x, cell_prev x)) (C' c) = map_option (\<lambda>x. (cell_next x, cell_prev x)) (C c))"

lemma chain_cong:
  assumes "\<And>c. c \<in> set (butlast cs) \<Longrightarrow> map_option cell_next (C' c) = map_option cell_next (C c)"
    and "\<And>c. c \<in> set (tl cs) \<Longrightarrow> map_option cell_prev (C' c) = map_option cell_prev (C c)"
  shows "chain C' cs \<longleftrightarrow> chain C cs"
  using assms
proof (induction C cs rule: chain.induct)
  case (1 C c d cs)
  have "map_option cell_next (C' c) = map_option cell_next (C c)" "map_option cell_prev (C' d) = map_option cell_prev (C d)"
    using "1.prems" by simp_all
  moreover have "chain C' (d # cs) \<longleftrightarrow> chain C (d # cs)"
    using "1.prems" by (intro "1.IH") (auto split: if_splits)
  ultimately show ?case by (auto simp: map_option_case split: option.splits)
qed simp_all

lemma same_links_next: "same_links S C C' \<Longrightarrow> c \<in> S \<Longrightarrow> map_option cell_next (C' c) = map_option cell_next (C c)"
  and same_links_prev: "same_links S C C' \<Longrightarrow> c \<in> S \<Longrightarrow> map_option cell_prev (C' c) = map_option cell_prev (C c)"
  by (auto simp: same_links_def map_option_case split: option.splits)

lemma ring_cong: "same_links (set rs) C C' \<Longrightarrow> ring C' rs \<longleftrightarrow> ring C rs"
proof (cases rs)
  case (Cons r rs')
  assume s: "same_links (set rs) C C'"
  have "set (butlast (rs @ [r])) \<subseteq> set rs" "set (tl (rs @ [r])) \<subseteq> set rs" using Cons by auto
  with s have "chain C' (rs @ [r]) \<longleftrightarrow> chain C (rs @ [r])"
    by (intro chain_cong) (meson same_links_next same_links_prev subsetD)+
  then show ?thesis using Cons by (simp add: ring_def)
qed (simp add: ring_def)

text \<open>What the ring functions change: links only, and only of the cells in \<open>S\<close>.\<close>

definition payload :: "Cell \<Rightarrow> nat \<times> nat \<times> nat" where
  "payload x = (cell_words x, cell_n_words x, cell_allocated x)"

definition relinked :: "nat set \<Rightarrow> (nat \<rightharpoonup> Cell) \<Rightarrow> (nat \<rightharpoonup> Cell) \<Rightarrow> bool" where
  "relinked S C C' \<longleftrightarrow> (\<forall>c. c \<notin> S \<longrightarrow> C' c = C c) \<and> (\<forall>c. map_option payload (C' c) = map_option payload (C c))"

lemma relinked_refl [simp]: "relinked S C C"
  by (simp add: relinked_def)

lemma relinked_upd:
  assumes "relinked S C C1" and "c \<in> S" and "C1 c = Some x" and "payload y = payload x"
  shows "relinked S C (C1(c \<mapsto> y))"
  using assms unfolding relinked_def by (auto simp: fun_upd_apply) (metis option.simps(9))

lemma payload_links [simp]: "payload (x\<lparr>cell_next := n\<rparr>) = payload x" "payload (x\<lparr>cell_prev := n\<rparr>) = payload x"
  by (simp_all add: payload_def)

lemma chain_dom: "chain C cs \<Longrightarrow> 2 \<le> length cs \<Longrightarrow> set cs \<subseteq> dom C"
proof (induction C cs rule: chain.induct)
  case (1 C c d cs)
  then show ?case by (cases cs) auto
qed simp_all

lemma ring_dom: "ring C rs \<Longrightarrow> set rs \<subseteq> dom C"
  using chain_dom [of C "rs @ [hd rs]"] by (cases rs) (auto simp: ring_def)

lemma ring_ConsE:
  assumes "ring C (c # ds)"
  obtains x where "C c = Some x" and "cell_next x = hd (ds @ [c])" and "cell_prev x = last (c # ds)"
    and "\<exists>y. C (hd (ds @ [c])) = Some y \<and> cell_prev y = c" and "\<exists>y. C (last (c # ds)) = Some y \<and> cell_next y = c"
proof -
  have ch: "chain C (c # ds @ [c])" using assms by (simp add: ring_def)
  obtain d es where d: "ds @ [c] = d # es" by (cases "ds @ [c]") auto
  with ch have 1: "(\<exists>x. C c = Some x \<and> cell_next x = hd (ds @ [c])) \<and> (\<exists>y. C (hd (ds @ [c])) = Some y \<and> cell_prev y = c)"
    by simp
  have "c # ds @ [c] = butlast (c # ds) @ [last (c # ds), c]" using append_butlast_last_id [of "c # ds"] by simp
  with ch have 2: "(\<exists>x. C (last (c # ds)) = Some x \<and> cell_next x = c) \<and> (\<exists>y. C c = Some y \<and> cell_prev y = last (c # ds))"
    using chain_snoc by metis
  from 1 2 that show thesis by auto
qed

lemma sec_insert_cell_ring_ok:
  assumes r: "ring C rs" and c: "c \<notin> set rs" "c \<noteq> 0" "C c = Some x" "cell_next x = 0" "cell_prev x = 0"
  shows "\<exists>C'. sec_insert_cell_ring (ring_head rs) c C = Some (c, C') \<and> ring C' (c # rotate1 rs)
    \<and> relinked (insert c (set rs)) C C'"
proof (cases rs)
  case Nil
  let ?C = "C(c \<mapsto> x\<lparr>cell_next := c, cell_prev := c\<rparr>)"
  have "sec_insert_cell_ring 0 c C = Some (c, ?C)" using c by (simp add: sec_insert_cell_ring_def upd_cell_def)
  moreover have "ring ?C [c]" using c by (simp add: ring_def)
  moreover have "relinked {c} C ?C" using c by (intro relinked_upd) auto
  ultimately show ?thesis using Nil by auto
next
  case (Cons h rest)
  obtain y where y: "C h = Some y" "cell_next y = hd (rest @ [h])" using r Cons by (auto elim: ring_ConsE)
  define m where "m = hd (rest @ [h])"
  have m: "m \<in> set rs" "m \<noteq> c" using c(1) Cons by (auto simp: m_def hd_append)
  obtain z where z: "C m = Some z" using ring_dom [OF r] m(1) by auto
  define C1 where "C1 = C(c \<mapsto> x\<lparr>cell_next := m, cell_prev := h\<rparr>, m \<mapsto> z\<lparr>cell_prev := c\<rparr>)"
  define C2 where "C2 = C1(h \<mapsto> (the (C1 h))\<lparr>cell_next := c\<rparr>)"
  have h: "h \<noteq> 0" "h \<noteq> c" "C1 h \<noteq> None" using r Cons c(1) y(1) by (auto simp: ring_def C1_def)
  have links: "map_option cell_next (C2 c) = Some m" "map_option cell_prev (C2 c) = Some h" "map_option cell_prev (C2 m) = Some c"
    "map_option cell_next (C2 h) = Some c"
    "\<And>d. d \<notin> {c, h} \<Longrightarrow> map_option cell_next (C2 d) = map_option cell_next (C d)"
    "\<And>d. d \<notin> {c, m} \<Longrightarrow> map_option cell_prev (C2 d) = map_option cell_prev (C d)"
    using h m z y by (auto simp: C2_def C1_def)
  have "chain C2 (rest @ [h]) \<longleftrightarrow> chain C (rest @ [h])"
  proof (rule chain_cong)
    fix d
    show "d \<in> set (butlast (rest @ [h])) \<Longrightarrow> map_option cell_next (C2 d) = map_option cell_next (C d)"
      using r Cons c(1) by (intro links(5)) (auto simp: ring_def)
    have "d \<notin> {c, m}" if "d \<in> set (tl (rest @ [h]))"
    proof -
      have "distinct (rest @ [h])" using r Cons by (simp add: ring_def)
      then show ?thesis using that c(1) Cons by (cases rest) (auto simp: m_def)
    qed
    then show "d \<in> set (tl (rest @ [h])) \<Longrightarrow> map_option cell_prev (C2 d) = map_option cell_prev (C d)"
      using links(6) by blast
  qed
  moreover have "chain C (rest @ [h])" using r Cons chain_append [of C "[h]"] by (cases rest) (auto simp: ring_def)
  ultimately have mid: "chain C2 (rest @ [h])" by simp
  have "chain C2 (c # rest @ [h])" using mid links(1,3) by (cases rest) (auto simp: m_def)
  then have "chain C2 ((c # rest) @ [h, c])" using links(2,4) unfolding chain_snoc by auto
  then have ring2: "ring C2 (c # rotate1 rs)" using r Cons c by (auto simp: ring_def)
  moreover have "relinked (insert c (set rs)) C C2"
    unfolding C2_def C1_def using c(3) z h m Cons
    by (intro relinked_upd [where x = "the (C1 h)"] relinked_upd [where x = z] relinked_upd [where x = x])
       (auto simp: C1_def)
  moreover have "sec_insert_cell_ring (ring_head rs) c C = Some (c, C2)"
    using c h y z m Cons links by (auto simp: sec_insert_cell_ring_def upd_cell_def C2_def C1_def m_def [symmetric])
  ultimately show ?thesis by blast
qed

lemma ring_unlink:
  assumes r: "ring C (c # ds)" and ne: "ds \<noteq> []"
    and next_ok: "\<And>d. d \<notin> {c, last ds} \<Longrightarrow> map_option cell_next (C' d) = map_option cell_next (C d)"
    and prev_ok: "\<And>d. d \<notin> {c, hd ds} \<Longrightarrow> map_option cell_prev (C' d) = map_option cell_prev (C d)"
    and close: "map_option cell_next (C' (last ds)) = Some (hd ds)" "map_option cell_prev (C' (hd ds)) = Some (last ds)"
  shows "ring C' ds"
proof -
  have dist: "distinct ds" "c \<notin> set ds" "0 \<notin> set ds" using r by (auto simp: ring_def)
  have last: "butlast ds @ [last ds] = ds" using ne by simp
  have "chain C' ds \<longleftrightarrow> chain C ds"
  proof (rule chain_cong)
    fix d
    have "d \<in> set (butlast ds) \<Longrightarrow> d \<noteq> last ds" using dist(1) last by (metis distinct_butlast not_distinct_conv_prefix)
    then show "d \<in> set (butlast ds) \<Longrightarrow> map_option cell_next (C' d) = map_option cell_next (C d)"
      using dist(2) in_set_butlastD by (intro next_ok) fastforce
    have "d \<in> set (tl ds) \<Longrightarrow> d \<noteq> hd ds" using dist(1) ne by (cases ds) auto
    then show "d \<in> set (tl ds) \<Longrightarrow> map_option cell_prev (C' d) = map_option cell_prev (C d)"
      using dist(2) ne list.set_sel(2) by (intro prev_ok) fastforce
  qed
  moreover have "chain C (c # ds @ [c])" using r by (simp add: ring_def)
  then have "chain C ds" by (metis chain_ConsD chain_appendD)
  ultimately have "chain C' (butlast ds @ [last ds, hd ds])" using close last unfolding chain_snoc by auto
  then have "chain C' (ds @ [hd ds])" using last by (metis append.assoc append_Cons append_Nil)
  then show ?thesis using dist by (simp add: ring_def)
qed

lemma sec_remove_cell_ring_ok:
  assumes r: "ring C (us @ c # vs)"
  shows "\<exists>C' x. sec_remove_cell_ring (ring_head (us @ c # vs)) c C = Some (ring_head (us @ vs), C') \<and> ring C' (us @ vs)
    \<and> relinked (set (us @ c # vs)) C C' \<and> C c = Some x \<and> C' c = Some (x\<lparr>cell_next := 0, cell_prev := 0\<rparr>)"
proof -
  define ds where "ds = vs @ us"
  have r1: "ring C (c # ds)" using r ring_rotate [of C us "c # vs"] by (simp add: ds_def)
  obtain x where x: "C c = Some x" "cell_next x = hd (ds @ [c])" "cell_prev x = last (c # ds)"
    and nx: "\<exists>y. C (hd (ds @ [c])) = Some y \<and> cell_prev y = c" and pv: "\<exists>y. C (last (c # ds)) = Some y \<and> cell_next y = c"
    using r1 by (rule ring_ConsE)
  have nz: "0 \<notin> set (c # ds)" "distinct (c # ds)" using r1 by (auto simp: ring_def)
  have head: "ring_head (us @ c # vs) \<noteq> 0" using r by (cases us) (auto simp: ring_def)
  show ?thesis
  proof (cases "ds = []")
    case True
    let ?C = "C(c \<mapsto> x\<lparr>cell_next := 0, cell_prev := 0\<rparr>)"
    have "us = []" "vs = []" using True by (simp_all add: ds_def)
    moreover have "sec_remove_cell_ring c c C = Some (0, ?C)" using x True nz
      by (simp add: sec_remove_cell_ring_def upd_cell_def)
    moreover have "relinked {c} C ?C" using x by (intro relinked_upd) auto
    moreover have "ring ?C []" by (simp add: ring_def)
    ultimately show ?thesis using x by auto
  next
    case False
    define n p where "n = hd ds" and "p = last ds"
    have np: "cell_next x = n" "cell_prev x = p" "n \<in> set ds" "p \<in> set ds" "n \<noteq> c" "p \<noteq> c"
      using x False nz hd_in_set [OF False] last_in_set [OF False] by (auto simp: n_def p_def)
    then have np0: "n \<noteq> 0" "p \<noteq> 0" using nz(1) by (metis list.set_intros(2))+
    obtain y where y: "C n = Some y" "cell_prev y = c" using nx False by (auto simp: n_def)
    obtain z where z: "C p = Some z" "cell_next z = c" using pv False by (auto simp: p_def)
    define C1 where "C1 = C(n \<mapsto> y\<lparr>cell_prev := p\<rparr>)"
    define C2 where "C2 = C1(p \<mapsto> (the (C1 p))\<lparr>cell_next := n\<rparr>)"
    define C3 where "C3 = C2(c \<mapsto> x\<lparr>cell_next := 0, cell_prev := 0\<rparr>)"
    have links: "map_option cell_next (C3 p) = Some n" "map_option cell_prev (C3 n) = Some p"
      "\<And>d. d \<notin> {c, p} \<Longrightarrow> map_option cell_next (C3 d) = map_option cell_next (C d)"
      "\<And>d. d \<notin> {c, n} \<Longrightarrow> map_option cell_prev (C3 d) = map_option cell_prev (C d)"
      using np y z by (auto simp: C3_def C2_def C1_def)
    have ring3: "ring C3 ds" using ring_unlink [OF r1 False] links by (simp add: n_def p_def)
    have c2: "C2 c = Some x" "C1 c = Some x" "C1 p \<noteq> None" using np x z by (auto simp: C2_def C1_def)
    have "relinked (set (c # ds)) C C3"
      unfolding C3_def C2_def C1_def
      using c2 np x y
      by (intro relinked_upd [where x = x] relinked_upd [where x = "the (C1 p)"] relinked_upd [where x = y])
         (auto simp: C1_def C2_def)
    moreover have "set (c # ds) = set (us @ c # vs)" by (auto simp: ds_def)
    moreover have "sec_remove_cell_ring (ring_head (us @ c # vs)) c C = Some (ring_head (us @ vs), C3)"
    proof -
      have "(if c = ring_head (us @ c # vs) then n else ring_head (us @ c # vs)) = ring_head (us @ vs)"
        using r False by (cases us; cases vs) (auto simp: ring_def n_def ds_def)
      moreover have "ring_head (us @ vs) \<noteq> c" using r False by (cases us; cases vs) (auto simp: ring_def ds_def)
      moreover have "upd_cell n (\<lambda>y. y\<lparr>cell_prev := p\<rparr>) C = Some C1" "upd_cell p (\<lambda>y. y\<lparr>cell_next := n\<rparr>) C1 = Some C2"
        "upd_cell c (\<lambda>y. y\<lparr>cell_next := 0, cell_prev := 0\<rparr>) C2 = Some C3"
        using c2 y by (auto simp: upd_cell_def C1_def C2_def C3_def)
      ultimately show ?thesis
        using head np np0 x(1) y z c2 by (auto simp: sec_remove_cell_ring_def)
    qed
    moreover have "ring C3 (us @ vs)" using ring3 ring_rotate [of C3 us vs] by (simp add: ds_def)
    ultimately show ?thesis using x by (auto simp: C3_def)
  qed
qed

text \<open>The search for a cell gives the first one in the ring that is large enough.\<close>

lemma find_cell_chain:
  assumes "chain C (cs @ [unused])" and "cs \<noteq> []" and "unused \<notin> set (tl cs)"
  shows "find_cell C unused n (hd cs) = Some (case filter (\<lambda>c. \<exists>x. C c = Some x \<and> n \<le> cell_n_words x) cs of [] \<Rightarrow> 0 | c # _ \<Rightarrow> c)"
  using assms
proof (induction cs)
  case (Cons c cs)
  obtain x where x: "C c = Some x" "cell_next x = hd (cs @ [unused])" using Cons.prems(1) by (cases cs) auto
  show ?case
  proof (cases "n \<le> cell_n_words x")
    case False
    have "find_cell C unused n (hd cs) = Some (case filter (\<lambda>c. \<exists>x. C c = Some x \<and> n \<le> cell_n_words x) cs of [] \<Rightarrow> 0 | c # _ \<Rightarrow> c)"
      if "cs \<noteq> []" using Cons.prems that by (intro Cons.IH) (auto simp: neq_Nil_conv)
    moreover have "hd cs \<noteq> unused" if "cs \<noteq> []" using that Cons.prems(3) by auto
    ultimately show ?thesis using x False by (cases cs) (auto simp: find_cell.simps [of C unused n c])
  qed (use x in \<open>simp add: find_cell.simps [of C unused n c]\<close>)
qed simp

lemma find_cell_ring:
  assumes "ring C rs" and "rs \<noteq> []"
  shows "find_cell C (ring_head rs) n (ring_head rs) = Some 0 \<or>
    (\<exists>c x. find_cell C (ring_head rs) n (ring_head rs) = Some c \<and> c \<in> set rs \<and> C c = Some x \<and> n \<le> cell_n_words x)"
proof -
  let ?fs = "filter (\<lambda>c. \<exists>x. C c = Some x \<and> n \<le> cell_n_words x) rs"
  have head: "ring_head rs = hd rs" using assms(2) by (cases rs) auto
  have "chain C (rs @ [hd rs])" "hd rs \<notin> set (tl rs)" using assms by (auto simp: ring_def) (metis distinct.simps(2) list.collapse)
  from find_cell_chain [OF this(1) assms(2) this(2)]
  have f: "find_cell C (ring_head rs) n (ring_head rs) = Some (case ?fs of [] \<Rightarrow> 0 | c # _ \<Rightarrow> c)" unfolding head .
  show ?thesis
  proof (cases ?fs)
    case (Cons c cs)
    then have "c \<in> set ?fs" unfolding Cons by simp
    then have "c \<in> set rs \<and> (\<exists>x. C c = Some x \<and> n \<le> cell_n_words x)" by simp
    then show ?thesis using f Cons by auto
  qed (use f in simp)
qed

lemma find_cell_complete:
  assumes "ring C rs" and "c \<in> set rs" and "C c = Some x" and "n \<le> cell_n_words x"
  shows "find_cell C (ring_head rs) n (ring_head rs) \<noteq> Some 0"
proof -
  let ?fs = "filter (\<lambda>c. \<exists>x. C c = Some x \<and> n \<le> cell_n_words x) rs"
  have ne: "rs \<noteq> []" using assms(2) by auto
  then have head: "ring_head rs = hd rs" by (cases rs) auto
  have "chain C (rs @ [hd rs])" "hd rs \<notin> set (tl rs)" using assms(1) ne by (auto simp: ring_def) (metis distinct.simps(2) list.collapse)
  from find_cell_chain [OF this(1) ne this(2)]
  have f: "find_cell C (ring_head rs) n (ring_head rs) = Some (case ?fs of [] \<Rightarrow> 0 | c # _ \<Rightarrow> c)" unfolding head .
  have "c \<in> set ?fs" using assms by auto
  then obtain d ds where d: "?fs = d # ds" by (cases ?fs) auto
  then have "d \<in> set ?fs" unfolding d by simp
  then have "d \<in> set rs" by simp
  then have "d \<noteq> 0" using assms(1) unfolding ring_def by metis
  with f d show ?thesis by simp
qed

section \<open>Pools\<close>

definition pool_area :: "Pool \<Rightarrow> nat set" where
  "pool_area pool = span (pool_base pool) (pool_length pool)"

definition item_set :: "Pool \<Rightarrow> nat set" where
  "item_set pool = (\<lambda>i. pool_items pool + sizeof_Item * i) ` {..<pool_n_items pool}"

definition in_use :: "Pool \<Rightarrow> nat set" where
  "in_use pool = item_set pool - set (pool_unused pool)"

definition pool_ok :: "Pool \<Rightarrow> bool" where
  "pool_ok pool \<longleftrightarrow> 0 < pool_base pool \<and> pool_base pool + pool_length pool \<le> 2 ^ 64 \<and> sizeof_Pool \<le> pool_length pool
     \<and> pool_n_items pool = (pool_length pool - sizeof_Pool) div sizeof_Item
     \<and> distinct (pool_unused pool) \<and> set (pool_unused pool) \<subseteq> item_set pool
     \<and> 0 < pool_used pool \<and> pool_used pool + length (pool_unused pool) = pool_n_items pool"

definition pools_ok :: "nat set \<Rightarrow> Pool list \<Rightarrow> nat set \<Rightarrow> bool" where
  "pools_ok T pools U \<longleftrightarrow> (\<forall>pool \<in> set pools. pool_ok pool \<and> pool_area pool \<subseteq> T)
     \<and> sorted_wrt (\<lambda>p q. pool_area p \<inter> pool_area q = {}) pools \<and> U = (\<Union>pool \<in> set pools. in_use pool)"

lemma item_bounds:
  assumes "pool_ok pool" and "item \<in> item_set pool"
  shows "in_pool pool item" and "(item - pool_items pool) mod sizeof_Item = 0" and "item \<in> pool_area pool" and "item < 2 ^ 64" and "0 < item"
proof -
  from assms(2) obtain i where i: "i < pool_n_items pool" "item = pool_items pool + sizeof_Item * i" by (auto simp: item_set_def)
  have "sizeof_Item * pool_n_items pool \<le> pool_length pool - sizeof_Pool"
    using assms(1) unfolding pool_ok_def by (metis times_div_less_eq_dividend)
  moreover have "sizeof_Item * Suc i \<le> sizeof_Item * pool_n_items pool" using i(1) by (intro mult_le_mono2) simp
  ultimately have le: "sizeof_Item * Suc i \<le> pool_length pool - sizeof_Pool" by simp
  with assms(1) i(2) show "in_pool pool item" "item \<in> pool_area pool" "item < 2 ^ 64" "0 < item"
    by (auto simp: pool_ok_def in_pool_def pool_area_def pool_items_def sizeof_Pool_def offset_items_def sizeof_Item_def)
  from i(2) show "(item - pool_items pool) mod sizeof_Item = 0" by simp
qed

lemma in_pool_area: "pool_ok pool \<Longrightarrow> in_pool pool item \<Longrightarrow> item \<in> pool_area pool"
  by (auto simp: pool_ok_def in_pool_def pool_area_def pool_items_def sizeof_Pool_def offset_items_def sizeof_Item_def)

lemma card_item_set: "card (item_set pool) = pool_n_items pool" and finite_item_set: "finite (item_set pool)"
proof -
  have "inj_on (\<lambda>i. pool_items pool + sizeof_Item * i) {..<pool_n_items pool}" by (rule inj_onI) (simp add: sizeof_Item_def)
  then show "card (item_set pool) = pool_n_items pool" by (simp add: item_set_def card_image)
qed (simp add: item_set_def)

lemma card_in_use: "pool_ok pool \<Longrightarrow> card (in_use pool) = pool_used pool"
  unfolding in_use_def pool_ok_def
  by (subst card_Diff_subset) (auto simp: card_item_set distinct_card)

lemma pools_ok_Nil: "pools_ok T [] U \<longleftrightarrow> U = {}"
  by (simp add: pools_ok_def)

lemma pools_ok_Cons:
  "pools_ok T (pool # pools) U \<longleftrightarrow> pool_ok pool \<and> pool_area pool \<subseteq> T \<and> (\<forall>q \<in> set pools. pool_area pool \<inter> pool_area q = {})
     \<and> (\<exists>V. pools_ok T pools V \<and> U = in_use pool \<union> V)"
  by (auto simp: pools_ok_def)

lemma pools_ok_area: "pools_ok T pools U \<Longrightarrow> U \<subseteq> (\<Union>pool \<in> set pools. pool_area pool)"
  using item_bounds(3) by (fastforce simp: pools_ok_def in_use_def)

lemma pools_ok_bounds: "pools_ok T pools U \<Longrightarrow> item \<in> U \<Longrightarrow> 0 < item \<and> item < 2 ^ 64"
  using item_bounds(4,5) by (fastforce simp: pools_ok_def in_use_def)

lemma pools_ok_mono: "pools_ok T pools U \<Longrightarrow> T \<subseteq> T' \<Longrightarrow> pools_ok T' pools U"
  by (auto simp: pools_ok_def)

lemma pool_take_ok:
  assumes "pools_ok T pools U"
  shows "pool_take pools = Some None \<or> (\<exists>item pools'. pool_take pools = Some (Some (item, pools')) \<and> item \<notin> U
    \<and> pools_ok T pools' (insert item U) \<and> map pool_area pools' = map pool_area pools)"
  using assms
proof (induction pools arbitrary: U)
  case (Cons pool pools)
  from Cons.prems obtain V where p: "pool_ok pool" "pool_area pool \<subseteq> T" "\<forall>q \<in> set pools. pool_area pool \<inter> pool_area q = {}"
    "pools_ok T pools V" "U = in_use pool \<union> V" by (auto simp: pools_ok_Cons)
  show ?case
  proof (cases "pool_unused pool")
    case Nil
    from Cons.IH [OF p(4)] show ?thesis
    proof
      assume "pool_take pools = Some None"
      with Nil show ?thesis by (simp add: unused_peek_def)
    next
      assume "\<exists>item pools'. pool_take pools = Some (Some (item, pools')) \<and> item \<notin> V
        \<and> pools_ok T pools' (insert item V) \<and> map pool_area pools' = map pool_area pools"
      then obtain item pools' where t: "pool_take pools = Some (Some (item, pools'))" "item \<notin> V"
        "pools_ok T pools' (insert item V)" "map pool_area pools' = map pool_area pools" by auto
      have areas: "pool_area ` set pools' = pool_area ` set pools" using t(4) by (metis image_set)
      have "item \<in> (\<Union>q \<in> set pools. pool_area q)" using pools_ok_area [OF t(3)] areas by auto
      then have "item \<notin> in_use pool" using p(1,3) item_bounds(3) by (fastforce simp: in_use_def)
      moreover have "\<forall>q \<in> set pools'. pool_area pool \<inter> pool_area q = {}" using p(3) areas by (metis (no_types, lifting) image_iff)
      ultimately show ?thesis
        using t p Nil by (auto simp: unused_peek_def pools_ok_Cons)
    qed
  next
    case (Cons item rest)
    have item: "item \<in> item_set pool" "item \<noteq> 0" "item \<notin> in_use pool" "item \<in> pool_area pool"
      using p(1) Cons item_bounds [OF p(1)] by (auto simp: pool_ok_def in_use_def)
    let ?pool = "pool\<lparr>pool_used := pool_used pool + 1, pool_unused := rest\<rparr>"
    have same: "pool_area ?pool = pool_area pool" "item_set ?pool = item_set pool"
      by (simp_all add: pool_area_def item_set_def pool_items_def)
    have "pool_ok ?pool" using p(1) Cons same by (auto simp: pool_ok_def)
    moreover have "in_use ?pool = insert item (in_use pool)" using p(1) Cons same item by (auto simp: in_use_def pool_ok_def)
    moreover have "item \<notin> V" using pools_ok_area [OF p(4)] p(3) item(4) by auto
    ultimately have "pools_ok T (?pool # pools) (insert item U)" "item \<notin> U" using p item same by (auto simp: pools_ok_Cons)
    with Cons item(2) same show ?thesis by (auto simp: unused_peek_def unused_pop_def)
  qed
qed simp

lemma pool_valid_ok: "pools_ok T pools U \<Longrightarrow> item \<in> U \<Longrightarrow> pool_valid pools item"
proof (induction pools arbitrary: U)
  case (Cons pool pools)
  from Cons.prems obtain V where p: "pool_ok pool" "\<forall>q \<in> set pools. pool_area pool \<inter> pool_area q = {}"
    "pools_ok T pools V" "U = in_use pool \<union> V" by (auto simp: pools_ok_Cons)
  show ?case
  proof (cases "item \<in> in_use pool")
    case True
    then have "item \<in> item_set pool" by (simp add: in_use_def)
    with item_bounds [OF p(1)] p(1) show ?thesis by (simp add: pool_ok_def)
  next
    case False
    then have V: "item \<in> V" using Cons.prems(2) p(4) by simp
    with pools_ok_area [OF p(3)] p(1,2) in_pool_area have "\<not> in_pool pool item" by fastforce
    with Cons.IH [OF p(3) V] show ?thesis by simp
  qed
qed (simp add: pools_ok_Nil)

lemma pool_fill_ok:
  assumes "0 < items"
  shows "pool_fill items i k stack = Some (rev (map (\<lambda>j. items + sizeof_Item * j) [i..<i + k]) @ stack)"
proof (induction k arbitrary: i stack)
  case (Suc k)
  have "[i..<i + Suc k] = i # [Suc i..<Suc i + k]" by (simp add: upt_conv_Cons)
  with Suc assms show ?case by (simp add: unused_push_def del: upt_Suc)
qed simp

section \<open>The operating system\<close>

text \<open>
  The meta data and the locked pages: the pools hand out the items \<open>U\<close>, and pools and pages are mapped, apart from each other.
\<close>

definition meta_ok :: "('w \<Rightarrow> nat set) \<Rightarrow> 'w Secure \<Rightarrow> nat set \<Rightarrow> bool" where
  "meta_ok taken st U \<longleftrightarrow> pools_ok (taken (sm_world st)) (sm_pools st) U \<and> dom (sm_mem st) \<subseteq> taken (sm_world st)
     \<and> dom (sm_mem st) \<inter> (\<Union>pool \<in> set (sm_pools st). pool_area pool) = {}"

lemma meta_ok_cells [simp]: "meta_ok taken (st\<lparr>sm_cells := C\<rparr>) U \<longleftrightarrow> meta_ok taken st U"
  "meta_ok taken (st\<lparr>sm_blocks := B\<rparr>) U \<longleftrightarrow> meta_ok taken st U"
  by (simp_all add: meta_ok_def)

lemma meta_ok_mem: "dom m = dom (sm_mem st) \<Longrightarrow> meta_ok taken (st\<lparr>sm_mem := m\<rparr>) U \<longleftrightarrow> meta_ok taken st U"
  by (simp add: meta_ok_def)

text \<open>
  The contract of the system calls and of the fallback. \<open>taken\<close> are the addresses that were mapped for the library and not
  unmapped again; a new mapping is not in it, and the fallback gives memory outside of it.
\<close>

locale secure_os =
  fixes os :: "'w OS" and taken :: "'w \<Rightarrow> nat set" and pgbits :: nat
  assumes pagesize: "os_pagesize os = 2 ^ pgbits" "6 \<le> pgbits" "pgbits \<le> 24"
    and mmap_ok: "os_mmap os n w = (Some p, w') \<Longrightarrow> 0 < p \<and> p mod os_pagesize os = 0 \<and> p + n \<le> 2 ^ 64
      \<and> span p n \<inter> taken w = {} \<and> taken w' = taken w \<union> span p n"
    and mmap_fails: "os_mmap os n w = (None, w') \<Longrightarrow> taken w' = taken w"
    and mlock_ok: "taken (snd (os_mlock os p n w)) = taken w"
    and munmap_ok: "taken (os_munmap os p n w) = taken w - span p n"
    and fallback_ok: "egg_memory_fallback os p n w = (q, w') \<Longrightarrow> taken w' = taken w \<and> q \<notin> taken w"
    and write_ok: "taken (os_write os p bs w) = taken w"
begin

lemma pagesize_64: "64 \<le> os_pagesize os" "os_pagesize os \<le> 2 ^ 24"
  using pagesize power_increasing [of 6 pgbits "2 :: nat"] power_increasing [of pgbits 24 "2 :: nat"] by simp_all

lemma pool_pick_ok:
  assumes "meta_ok taken st U"
  shows "pool_take (sm_pools st) = Some None \<or> (\<exists>item pools. pool_pick st = Some (item,
      st\<lparr>sm_pools := pools, sm_cells := (sm_cells st)(item \<mapsto> empty_cell)\<rparr>) \<and> item \<notin> U
    \<and> meta_ok taken (st\<lparr>sm_pools := pools, sm_cells := (sm_cells st)(item \<mapsto> empty_cell)\<rparr>) (insert item U)
    \<and> pool_take (sm_pools st) \<noteq> Some None \<and> pool_take (sm_pools st) \<noteq> None)"
proof -
  have p: "pools_ok (taken (sm_world st)) (sm_pools st) U" using assms by (simp add: meta_ok_def)
  from pool_take_ok [OF p] show ?thesis
  proof
    assume "\<exists>item pools'. pool_take (sm_pools st) = Some (Some (item, pools')) \<and> item \<notin> U
      \<and> pools_ok (taken (sm_world st)) pools' (insert item U) \<and> map pool_area pools' = map pool_area (sm_pools st)"
    then obtain item pools' where t: "pool_take (sm_pools st) = Some (Some (item, pools'))" "item \<notin> U"
      "pools_ok (taken (sm_world st)) pools' (insert item U)" "map pool_area pools' = map pool_area (sm_pools st)" by auto
    have "pool_area ` set pools' = pool_area ` set (sm_pools st)" using t(4) by (metis image_set)
    then have "(\<Union>pool \<in> set pools'. pool_area pool) = (\<Union>pool \<in> set (sm_pools st). pool_area pool)" by simp
    with t assms have "meta_ok taken (st\<lparr>sm_pools := pools', sm_cells := (sm_cells st)(item \<mapsto> empty_cell)\<rparr>) (insert item U)"
      by (simp add: meta_ok_def)
    with t show ?thesis by (auto simp: pool_pick_def)
  qed simp
qed

lemma new_pool:
  assumes "0 < p" and "p + os_pagesize os * 2 \<le> 2 ^ 64"
    and "n = (os_pagesize os * 2 - sizeof_Pool) div sizeof_Item"
    and "pool = \<lparr>pool_base = p, pool_length = os_pagesize os * 2, pool_used = 0,
      pool_unused = rev (map (\<lambda>j. p + offset_items + sizeof_Item * j) [0..<n]), pool_n_items = n\<rparr>"
  shows "\<exists>item rest. pool_unused pool = item # rest \<and> item \<noteq> 0 \<and> item \<in> pool_area pool
    \<and> pool_ok (pool\<lparr>pool_used := 1, pool_unused := rest\<rparr>) \<and> in_use (pool\<lparr>pool_used := 1, pool_unused := rest\<rparr>) = {item}"
proof -
  have "128 \<le> os_pagesize os * 2" using pagesize_64 by simp
  then have "(128 - sizeof_Pool) div sizeof_Item \<le> n" unfolding assms(3) by (intro div_le_mono diff_le_mono)
  then have "0 < n" by (simp add: sizeof_Pool_def offset_items_def sizeof_Item_def)
  then obtain n1 where n: "n = Suc n1" by (cases n) auto
  define item rest where "item = p + offset_items + sizeof_Item * n1"
    and "rest = rev (map (\<lambda>j. p + offset_items + sizeof_Item * j) [0..<n1])"
  have unused: "pool_unused pool = item # rest" unfolding assms(4) n item_def rest_def by simp
  let ?pool = "pool\<lparr>pool_used := 1, pool_unused := rest\<rparr>"
  have items: "item_set ?pool = insert item (set rest)"
    unfolding assms(4) n item_def rest_def
    by (auto simp: item_set_def pool_items_def lessThan_Suc atLeast0LessThan)
  have fresh: "item \<notin> set rest" by (auto simp: item_def rest_def sizeof_Item_def)
  have inj: "distinct rest" by (simp add: rest_def distinct_map inj_on_def sizeof_Item_def)
  have ok: "pool_ok ?pool"
    using assms \<open>128 \<le> os_pagesize os * 2\<close> items inj n
    by (auto simp: pool_ok_def rest_def sizeof_Pool_def offset_items_def sizeof_Item_def)
  moreover have "in_use ?pool = {item}" using items fresh by (auto simp: in_use_def)
  moreover have "item \<in> pool_area pool" using item_bounds(3) [OF ok, of item] items by (simp add: pool_area_def)
  moreover have "item \<noteq> 0" by (simp add: item_def offset_items_def)
  ultimately show ?thesis using unused by blast
qed

lemma pool_create_ok:
  assumes st: "meta_ok taken st U"
  shows "\<exists>ok st1. pool_create os st = Some (ok, st1) \<and> (if ok
    then \<exists>item pools w. pool_pick st1 = Some (item, st\<lparr>sm_pools := pools, sm_world := w, sm_cells := (sm_cells st)(item \<mapsto> empty_cell)\<rparr>)
      \<and> item \<notin> U \<and> meta_ok taken (st\<lparr>sm_pools := pools, sm_world := w\<rparr>) (insert item U)
    else \<exists>w. st1 = st\<lparr>sm_world := w\<rparr> \<and> meta_ok taken st1 U)"
proof -
  let ?len = "os_pagesize os * 2" and ?n = "(os_pagesize os * 2 - sizeof_Pool) div sizeof_Item"
  obtain r w where m: "os_mmap os ?len (sm_world st) = (r, w)" by force
  show ?thesis
  proof (cases r)
    case None
    with mmap_fails [of ?len "sm_world st" w] m st show ?thesis by (auto simp: pool_create_def meta_ok_def)
  next
    case (Some p)
    from mmap_ok [of ?len "sm_world st" p w] m Some
    have p: "0 < p" "p + ?len \<le> 2 ^ 64" "span p ?len \<inter> taken (sm_world st) = {}" "taken w = taken (sm_world st) \<union> span p ?len" by auto
    define pool where "pool = \<lparr>pool_base = p, pool_length = ?len, pool_used = 0,
      pool_unused = rev (map (\<lambda>j. p + offset_items + sizeof_Item * j) [0..<?n]), pool_n_items = ?n\<rparr>"
    from new_pool [OF p(1,2) refl pool_def] obtain item rest where i: "pool_unused pool = item # rest" "item \<noteq> 0" "item \<in> pool_area pool"
      "pool_ok (pool\<lparr>pool_used := 1, pool_unused := rest\<rparr>)" "in_use (pool\<lparr>pool_used := 1, pool_unused := rest\<rparr>) = {item}" by auto
    let ?pool = "pool\<lparr>pool_used := 1, pool_unused := rest\<rparr>"
    have area: "pool_area ?pool = span p ?len" "pool_area pool = span p ?len" by (simp_all add: pool_area_def pool_def)
    have pk: "pools_ok (taken (sm_world st)) (sm_pools st) U" using st by (simp add: meta_ok_def)
    have apart: "\<forall>q \<in> set (sm_pools st). span p ?len \<inter> pool_area q = {}" using pk p(3) by (fastforce simp: pools_ok_def)
    have "pools_ok (taken w) (?pool # sm_pools st) (insert item U)"
      using i(4,5) area(1) apart p(4) pools_ok_mono [OF pk, of "taken w"] by (fastforce simp: pools_ok_Cons)
    moreover have "item \<notin> U" using pools_ok_area [OF pk] apart i(3) unfolding area(2) by blast
    moreover have "dom (sm_mem st) \<inter> span p ?len = {}" using st p(3) by (auto simp: meta_ok_def)
    ultimately have fresh: "item \<notin> U" "meta_ok taken (st\<lparr>sm_pools := ?pool # sm_pools st, sm_world := w\<rparr>) (insert item U)"
      using st area p(4) by (auto simp: meta_ok_def)
    have "pool_fill (p + offset_items) 0 ?n [] = Some (pool_unused pool)"
      using pool_fill_ok [of "p + offset_items" 0 ?n "[]"] by (simp add: offset_items_def pool_def)
    then have "pool_create os st = Some (True, st\<lparr>sm_world := w, sm_pools := pool # sm_pools st\<rparr>)"
      using m Some by (simp add: pool_create_def Let_def pool_def)
    moreover have "pool_used pool = 0" by (simp add: pool_def)
    then have "pool_pick (st\<lparr>sm_world := w, sm_pools := pool # sm_pools st\<rparr>) = Some (item,
        st\<lparr>sm_pools := ?pool # sm_pools st, sm_world := w, sm_cells := (sm_cells st)(item \<mapsto> empty_cell)\<rparr>)"
      using i(1,2) by (simp add: pool_pick_def unused_peek_def unused_pop_def)
    ultimately show ?thesis using fresh
      by (intro exI [of _ True] exI [of _ "st\<lparr>sm_world := w, sm_pools := pool # sm_pools st\<rparr>"]) auto
  qed
qed

lemma pool_alloc_ok:
  assumes st: "meta_ok taken st U"
  shows "\<exists>item pools w. pool_alloc os st = Some (item, st\<lparr>sm_pools := pools, sm_world := w,
      sm_cells := (if item = 0 then sm_cells st else (sm_cells st)(item \<mapsto> empty_cell))\<rparr>)
    \<and> (if item = 0 then meta_ok taken (st\<lparr>sm_pools := pools, sm_world := w\<rparr>) U
       else item \<notin> U \<and> item < 2 ^ 64 \<and> meta_ok taken (st\<lparr>sm_pools := pools, sm_world := w\<rparr>) (insert item U))"
proof (cases "pool_take (sm_pools st) = Some None")
  case True
  then show ?thesis
  proof -
    from pool_create_ok [OF st] obtain ok st1 where c: "pool_create os st = Some (ok, st1)"
      "if ok then \<exists>item pools w. pool_pick st1 = Some (item, st\<lparr>sm_pools := pools, sm_world := w, sm_cells := (sm_cells st)(item \<mapsto> empty_cell)\<rparr>)
        \<and> item \<notin> U \<and> meta_ok taken (st\<lparr>sm_pools := pools, sm_world := w\<rparr>) (insert item U)
      else \<exists>w. st1 = st\<lparr>sm_world := w\<rparr> \<and> meta_ok taken st1 U" by blast
    show ?thesis
    proof (cases ok)
      case T: True
      with c obtain item pools w where i: "pool_pick st1 = Some (item, st\<lparr>sm_pools := pools, sm_world := w, sm_cells := (sm_cells st)(item \<mapsto> empty_cell)\<rparr>)"
        "item \<notin> U" "meta_ok taken (st\<lparr>sm_pools := pools, sm_world := w\<rparr>) (insert item U)" by auto
      then have "0 < item" "item < 2 ^ 64" using pools_ok_bounds [of _ pools "insert item U" item] by (auto simp: meta_ok_def)
      with i c(1) True T show ?thesis by (auto simp: pool_alloc_def)
    next
      case False
      with c obtain w where "st1 = st\<lparr>sm_world := w\<rparr>" "meta_ok taken st1 U" by auto
      with c(1) True False show ?thesis
        by (intro exI [of _ 0] exI [of _ "sm_pools st"] exI [of _ w]) (simp add: pool_alloc_def)
    qed
  qed
next
  case False
  with pool_pick_ok [OF st] obtain item pools where i: "pool_pick st = Some (item, st\<lparr>sm_pools := pools, sm_cells := (sm_cells st)(item \<mapsto> empty_cell)\<rparr>)"
    "item \<notin> U" "meta_ok taken (st\<lparr>sm_pools := pools, sm_cells := (sm_cells st)(item \<mapsto> empty_cell)\<rparr>) (insert item U)"
    "pool_take (sm_pools st) \<noteq> Some None" "pool_take (sm_pools st) \<noteq> None" by blast
  have bounds: "0 < item" "item < 2 ^ 64" using pools_ok_bounds [of _ pools "insert item U" item] i(3) by (auto simp: meta_ok_def)
  have "meta_ok taken (st\<lparr>sm_pools := pools, sm_world := sm_world st\<rparr>) (insert item U)" using i(3) by (simp add: meta_ok_def)
  with i bounds show ?thesis
    by (intro exI [of _ item] exI [of _ pools] exI [of _ "sm_world st"]) (auto simp: pool_alloc_def)
qed

lemma pool_release_ok:
  assumes "pools_ok (taken w) pools U" and "item \<in> U"
  shows "\<exists>pools' w'. pool_release os item pools w = Some (pools', w') \<and> pools_ok (taken w') pools' (U - {item})
    \<and> (\<Union>pool \<in> set pools'. pool_area pool) \<subseteq> (\<Union>pool \<in> set pools. pool_area pool)
    \<and> taken w - (\<Union>pool \<in> set pools. pool_area pool) \<subseteq> taken w'
    \<and> (\<exists>S \<subseteq> (\<Union>pool \<in> set pools. pool_area pool). taken w' = taken w - S)"
  using assms
proof (induction pools arbitrary: U)
  case (Cons pool pools)
  from Cons.prems obtain V where p: "pool_ok pool" "pool_area pool \<subseteq> taken w" "\<forall>q \<in> set pools. pool_area pool \<inter> pool_area q = {}"
    "pools_ok (taken w) pools V" "U = in_use pool \<union> V" by (auto simp: pools_ok_Cons)
  have apart: "in_use pool \<inter> V = {}" using pools_ok_area [OF p(4)] p(1,3) item_bounds(3) by (fastforce simp: in_use_def)
  show ?case
  proof (cases "item \<in> in_use pool")
    case True
    then have item: "item \<in> item_set pool" "item \<notin> set (pool_unused pool)" by (simp_all add: in_use_def)
    note b = item_bounds [OF p(1) item(1)]
    show ?thesis
    proof (cases "pool_used pool = 1")
      case one: True
      have "in_use pool = {item}" using card_in_use [OF p(1)] one True by (auto simp: card_1_singleton_iff)
      then have "U - {item} = V" using apart p(5) by auto
      moreover have "pools_ok (taken w - pool_area pool) pools V" using p(3,4) by (fastforce simp: pools_ok_def)
      moreover have "taken (os_munmap os (pool_base pool) (pool_length pool) w) = taken w - pool_area pool"
        by (simp add: munmap_ok pool_area_def)
      ultimately show ?thesis using b one by auto
    next
      case False
      let ?pool = "pool\<lparr>pool_used := pool_used pool - 1, pool_unused := item # pool_unused pool\<rparr>"
      have same: "pool_area ?pool = pool_area pool" "item_set ?pool = item_set pool"
        by (simp_all add: pool_area_def item_set_def pool_items_def)
      have "pool_ok ?pool" using p(1) item False same by (auto simp: pool_ok_def)
      moreover have "in_use ?pool = in_use pool - {item}" using same by (auto simp: in_use_def)
      ultimately have "pools_ok (taken w) (?pool # pools) (U - {item})"
        using p same apart True by (auto simp: pools_ok_Cons)
      moreover have "0 < pool_used pool" using p(1) by (simp add: pool_ok_def)
      ultimately show ?thesis using b False same by (auto simp: unused_push_def)
    qed
  next
    case False
    then have V: "item \<in> V" using Cons.prems(2) p(5) by simp
    with pools_ok_area [OF p(4)] p(1,3) in_pool_area have out: "\<not> in_pool pool item" by fastforce
    from Cons.IH [OF p(4) V] obtain pools' w' S where r: "pool_release os item pools w = Some (pools', w')" "pools_ok (taken w') pools' (V - {item})"
      "(\<Union>pool \<in> set pools'. pool_area pool) \<subseteq> (\<Union>pool \<in> set pools. pool_area pool)"
      "S \<subseteq> (\<Union>pool \<in> set pools. pool_area pool)" "taken w' = taken w - S" by auto
    have "pool_area pool \<subseteq> taken w'" using p(2,3) r(4,5) by blast
    moreover have "\<forall>q \<in> set pools'. pool_area pool \<inter> pool_area q = {}" using p(3) r(3) by blast
    ultimately have "pools_ok (taken w') (pool # pools') (U - {item})"
      using r(2) p(1,5) False by (auto simp: pools_ok_Cons)
    moreover have "(\<Union>pool \<in> set (pool # pools'). pool_area pool) \<subseteq> (\<Union>pool \<in> set (pool # pools). pool_area pool)" using r(3) by auto
    moreover have "S \<subseteq> (\<Union>pool \<in> set (pool # pools). pool_area pool)" using r(4) by auto
    ultimately show ?thesis using out r(1,5) by (intro exI [of _ "pool # pools'"] exI [of _ w']) auto
  qed
qed (simp add: pools_ok_Nil)

lemma pool_free_ok:
  assumes "meta_ok taken st U" and "item \<in> U"
  shows "\<exists>pools w. pool_free os item st = Some (st\<lparr>sm_pools := pools, sm_world := w, sm_cells := (sm_cells st)(item := None)\<rparr>)
    \<and> meta_ok taken (st\<lparr>sm_pools := pools, sm_world := w\<rparr>) (U - {item})"
proof -
  have p: "pools_ok (taken (sm_world st)) (sm_pools st) U" using assms by (simp add: meta_ok_def)
  from pool_release_ok [OF p assms(2)] obtain pools' w' where r: "pool_release os item (sm_pools st) (sm_world st) = Some (pools', w')"
    "pools_ok (taken w') pools' (U - {item})" "(\<Union>pool \<in> set pools'. pool_area pool) \<subseteq> (\<Union>pool \<in> set (sm_pools st). pool_area pool)"
    "taken (sm_world st) - (\<Union>pool \<in> set (sm_pools st). pool_area pool) \<subseteq> taken w'" by blast
  have "meta_ok taken (st\<lparr>sm_pools := pools', sm_world := w'\<rparr>) (U - {item})"
    using assms(1) r(2-4) unfolding meta_ok_def by fastforce
  with r(1) show ?thesis by (auto simp: pool_free_def)
qed

end

end
