(* ===== verification/EggSecureBlock.thy ===== *)
theory EggSecureBlock
  imports EggSecureRing
begin

text \<open>
  A block of secure memory and the operations on it. The cells of a block tile its pages; the cells that are not allocated form the
  ring of unused cells. A tile \<open>(c, w, n, a)\<close> is the cell at \<open>c\<close> with its words, number of words and number of allocated bytes.
\<close>

section \<open>The invariant of a block\<close>

type_synonym tile = "nat \<times> nat \<times> nat \<times> nat"

fun tiled :: "nat \<Rightarrow> tile list \<Rightarrow> nat \<Rightarrow> bool" where
  "tiled a [] e \<longleftrightarrow> a = e"
| "tiled a ((c, w, n, k) # xs) e \<longleftrightarrow> w = a \<and> 2 \<le> n \<and> tiled (a + 8 * n) xs e"

definition cell_ok :: "(nat \<rightharpoonup> Cell) \<Rightarrow> nat \<Rightarrow> nat \<Rightarrow> nat \<Rightarrow> nat \<Rightarrow> bool" where
  "cell_ok C c w n a \<longleftrightarrow> (\<exists>x. C c = Some x \<and> payload x = (w, n, a) \<and> (0 < a \<longrightarrow> cell_next x = 0 \<and> cell_prev x = 0))"

fun tile_ok :: "(nat \<rightharpoonup> Cell) \<Rightarrow> (nat \<rightharpoonup> byte) \<Rightarrow> tile \<Rightarrow> bool" where
  "tile_ok C M (c, w, n, a) \<longleftrightarrow> cell_ok C c w n a \<and> load_word M w = Some c \<and> load_word M (w + 8 * (n - 1)) = Some c
     \<and> a \<le> 8 * (n - 2) \<and> 2 \<le> n"

definition tile_cells :: "tile list \<Rightarrow> nat set" where
  "tile_cells xs = fst ` set xs"

definition unused_cells :: "tile list \<Rightarrow> nat set" where
  "unused_cells xs = fst ` {t \<in> set xs. snd (snd (snd t)) = 0}"

definition used_count :: "tile list \<Rightarrow> nat" where
  "used_count xs = length (filter (\<lambda>t. 0 < snd (snd (snd t))) xs)"

definition block_end :: "Block \<Rightarrow> nat" where
  "block_end b = block_words b + 8 * block_n_words b"

definition block_ok :: "(nat \<rightharpoonup> Cell) \<Rightarrow> (nat \<rightharpoonup> byte) \<Rightarrow> Block \<Rightarrow> tile list \<Rightarrow> nat list \<Rightarrow> bool" where
  "block_ok C M b xs rs \<longleftrightarrow> tiled (block_words b) xs (block_end b) \<and> 8 \<le> block_words b
     \<and> {block_words b..<block_end b} \<subseteq> dom M \<and> distinct (map fst xs) \<and> (\<forall>t \<in> set xs. tile_ok C M t)
     \<and> ring C rs \<and> block_unused b = ring_head rs \<and> set rs = unused_cells xs"

text \<open>
  \<open>arena\<close>: the invariant of a block together with the meta data, where \<open>V\<close> are the items in use that do not belong to the
  cells of the block. \<open>outside\<close>: an operation on the block leaves alone what does not belong to it.
\<close>

definition arena :: "('w \<Rightarrow> nat set) \<Rightarrow> nat set \<Rightarrow> 'w Secure \<Rightarrow> Block \<Rightarrow> tile list \<Rightarrow> nat list \<Rightarrow> bool" where
  "arena taken V st b xs rs \<longleftrightarrow> block_ok (sm_cells st) (sm_mem st) b xs rs
     \<and> meta_ok taken st (V \<union> tile_cells xs) \<and> V \<inter> tile_cells xs = {}"

definition outside :: "nat set \<Rightarrow> 'w Secure \<Rightarrow> Block \<Rightarrow> 'w Secure \<Rightarrow> Block \<Rightarrow> bool" where
  "outside V st b st' b' \<longleftrightarrow> sm_blocks st' = sm_blocks st \<and> block_self b' = block_self b \<and> block_words b' = block_words b
     \<and> block_n_words b' = block_n_words b \<and> (\<forall>d \<in> V. sm_cells st' d = sm_cells st d)
     \<and> (\<forall>a. a \<notin> {block_words b..<block_end b} \<longrightarrow> sm_mem st' a = sm_mem st a)"

text \<open>The allocations in a block: the address that the program has and the bytes there.\<close>

fun tile_held :: "(nat \<rightharpoonup> byte) \<Rightarrow> tile \<Rightarrow> (nat \<times> bytes) set" where
  "tile_held M (c, w, n, a) = (if 0 < a then {w + 8} \<times> set_option (get_bytes M (w + 8) a) else {})"

definition held :: "(nat \<rightharpoonup> byte) \<Rightarrow> tile list \<Rightarrow> (nat \<times> bytes) set" where
  "held M xs = (\<Union>t \<in> set xs. tile_held M t)"

subsection \<open>Tilings\<close>

lemma tiled_append: "tiled a (xs @ ys) e \<longleftrightarrow> (\<exists>m. tiled a xs m \<and> tiled m ys e)"
  by (induction a xs e rule: tiled.induct) auto

lemma tiled_le: "tiled a xs e \<Longrightarrow> a \<le> e"
  by (induction a xs e rule: tiled.induct) auto

lemma tiled_area: "tiled a xs e \<Longrightarrow> (c, w, n, k) \<in> set xs \<Longrightarrow> a \<le> w \<and> w + 8 * n \<le> e"
proof (induction a xs e rule: tiled.induct)
  case (2 a c' w' n' k' xs e)
  then show ?case using tiled_le [of "a + 8 * n'" xs e] by fastforce
qed simp

lemma tiled_middle: "tiled a (pre @ (c, w, n, k) # post) e \<longleftrightarrow> tiled a pre w \<and> 2 \<le> n \<and> tiled (w + 8 * n) post e"
  by (auto simp: tiled_append)

lemma tile_cells_simps [simp]:
  "tile_cells [] = {}" "tile_cells ((c, w, n, a) # xs) = insert c (tile_cells xs)" "tile_cells (xs @ ys) = tile_cells xs \<union> tile_cells ys"
  by (auto simp: tile_cells_def)

lemma unused_cells_simps [simp]:
  "unused_cells [] = {}" "unused_cells ((c, w, n, a) # xs) = (if a = 0 then {c} else {}) \<union> unused_cells xs"
  "unused_cells (xs @ ys) = unused_cells xs \<union> unused_cells ys"
  by (auto simp: unused_cells_def image_iff) blast

lemma used_count_simps [simp]:
  "used_count [] = 0" "used_count ((c, w, n, a) # xs) = (if 0 < a then Suc (used_count xs) else used_count xs)"
  "used_count (xs @ ys) = used_count xs + used_count ys"
  by (simp_all add: used_count_def)

lemma unused_cells_sub: "unused_cells xs \<subseteq> tile_cells xs"
  by (auto simp: unused_cells_def tile_cells_def)

lemma held_tile_simps:
  "held M [] = {}" "held M (t # xs) = tile_held M t \<union> held M xs" "held M (xs @ ys) = held M xs \<union> held M ys"
  by (simp_all add: held_def)

lemma distinct_fst_append: "distinct (map fst (xs @ ys)) \<longleftrightarrow> distinct (map fst xs) \<and> distinct (map fst ys) \<and> tile_cells xs \<inter> tile_cells ys = {}"
  by (simp add: tile_cells_def)

lemma distinct_fst_Cons: "distinct (map fst ((c, w, n, a) # ys)) \<longleftrightarrow> c \<notin> tile_cells ys \<and> distinct (map fst ys)"
  by (simp add: tile_cells_def)

text \<open>Tiles and what they hold depend on their own cells and memory only.\<close>

lemma tile_ok_cong:
  assumes "tile_ok C M (c, w, n, a)" and "C' c = C c \<or> a = 0 \<and> map_option payload (C' c) = map_option payload (C c)"
    and "\<And>x. x \<in> span w (8 * n) \<Longrightarrow> M' x = M x"
  shows "tile_ok C' M' (c, w, n, a)"
proof -
  have n: "2 \<le> n" using assms(1) by simp
  have "load_word M' w = load_word M w" "load_word M' (w + 8 * (n - 1)) = load_word M (w + 8 * (n - 1))"
    using n by (intro load_word_cong assms(3); auto)+
  moreover have "cell_ok C' c w n a" using assms(1,2) by (auto simp: cell_ok_def)
  ultimately show ?thesis using assms(1) by simp
qed

text \<open>\<open>kept\<close>: the used cells of some tiles are as they were, and the unused ones but for their links.\<close>

definition kept :: "tile list \<Rightarrow> (nat \<rightharpoonup> Cell) \<Rightarrow> (nat \<rightharpoonup> Cell) \<Rightarrow> bool" where
  "kept xs C C' \<longleftrightarrow> (\<forall>c \<in> tile_cells xs. C' c = C c \<or> c \<in> unused_cells xs \<and> map_option payload (C' c) = map_option payload (C c))"

lemma keptI: "(\<And>c. c \<in> tile_cells xs \<Longrightarrow> C' c = C c) \<Longrightarrow> kept xs C C'"
  by (simp add: kept_def)

lemma kept_relinked: "relinked S C C' \<Longrightarrow> S \<inter> tile_cells xs \<subseteq> unused_cells xs \<Longrightarrow> kept xs C C'"
  by (auto simp: kept_def relinked_def)

lemma kept_upd: "kept xs C C' \<Longrightarrow> c \<notin> tile_cells xs \<Longrightarrow> kept xs C (C'(c := y))"
  by (auto simp: kept_def)

lemma unused_distinct_tile:
  assumes "distinct (map fst xs)" and "(c, w, n, a) \<in> set xs" and "c \<in> unused_cells xs"
  shows "a = 0"
proof -
  from assms(3) obtain t where "t \<in> set xs" "fst t = c" "snd (snd (snd t)) = 0" by (auto simp: unused_cells_def)
  with assms(1,2) show ?thesis by (metis eq_key_imp_eq_value prod.collapse snd_conv)
qed

lemma tiles_cong:
  assumes "tiled lo xs hi" and "\<forall>t \<in> set xs. tile_ok C M t" and "kept xs C C'" and "distinct (map fst xs)"
    and "\<And>x. lo \<le> x \<Longrightarrow> x < hi \<Longrightarrow> M' x = M x"
  shows "\<forall>t \<in> set xs. tile_ok C' M' t" and "held M' xs = held M xs"
proof -
  show "\<forall>t \<in> set xs. tile_ok C' M' t"
  proof
    fix t assume t: "t \<in> set xs"
    obtain c w n a where ct: "t = (c, w, n, a)" by (cases t) auto
    with t have "c \<in> tile_cells xs" by (force simp: tile_cells_def)
    with assms(3) unused_distinct_tile [OF assms(4)] t ct
    have "C' c = C c \<or> a = 0 \<and> map_option payload (C' c) = map_option payload (C c)" unfolding kept_def by blast
    moreover have "lo \<le> w" "w + 8 * n \<le> hi" using tiled_area [OF assms(1)] t ct by auto
    moreover have "tile_ok C M (c, w, n, a)" using assms(2) t ct by blast
    ultimately show "tile_ok C' M' t"
      unfolding ct by - (erule tile_ok_cong; simp add: assms(5))
  qed
  have "tile_held M' t = tile_held M t" if t: "t \<in> set xs" for t
  proof -
    obtain c w n a where ct: "t = (c, w, n, a)" by (cases t) auto
    have "tile_ok C M (c, w, n, a)" using t ct assms(2) by blast
    then have "a \<le> 8 * (n - 2)" "2 \<le> n" by simp_all
    moreover have "lo \<le> w" "w + 8 * n \<le> hi" using tiled_area [OF assms(1)] t ct by auto
    ultimately have "get_bytes M' (w + 8) a = get_bytes M (w + 8) a" by (intro get_bytes_cong assms(5)) auto
    then show ?thesis by (simp add: ct)
  qed
  then show "held M' xs = held M xs" by (simp add: held_def)
qed

subsection \<open>Guards and neighbours\<close>

definition guard_put :: "nat \<Rightarrow> nat \<Rightarrow> nat \<Rightarrow> (nat \<rightharpoonup> byte) \<Rightarrow> (nat \<rightharpoonup> byte)" where
  "guard_put c w n M = put (w + 8 * (n - 1)) (le_bytes 8 c) (put w (le_bytes 8 c) M)"

lemma guard_area: "2 \<le> n \<Longrightarrow> span w 8 \<subseteq> span w (8 * n)" "2 \<le> n \<Longrightarrow> span (w + 8 * (n - 1)) 8 \<subseteq> span w (8 * n)"
  by auto

lemma dom_guard_put: "span w (8 * n) \<subseteq> dom M \<Longrightarrow> 2 \<le> n \<Longrightarrow> dom (guard_put c w n M) = dom M"
proof -
  assume d: "span w (8 * n) \<subseteq> dom M" "2 \<le> n"
  then have 1: "dom (put w (le_bytes 8 c) M) = dom M" using guard_area(1) [OF d(2)] by (intro dom_put) (unfold length_le_bytes, blast)
  have "dom (guard_put c w n M) = dom (put w (le_bytes 8 c) M)"
    unfolding guard_put_def using d guard_area(2) [OF d(2)] by (intro dom_put) (unfold 1 length_le_bytes, blast)
  with 1 show ?thesis by simp
qed

lemma guard_put_other: "x \<notin> span w 8 \<Longrightarrow> x \<notin> span (w + 8 * (n - 1)) 8 \<Longrightarrow> guard_put c w n M x = M x"
  unfolding guard_put_def by (metis put_other length_le_bytes)

lemma guard_put_load:
  assumes "c < 2 ^ 64" and "2 \<le> n"
  shows "load_word (guard_put c w n M) w = Some c" and "load_word (guard_put c w n M) (w + 8 * (n - 1)) = Some c"
proof -
  have "span (w + 8 * (n - 1)) (length (le_bytes 8 c)) \<inter> span w 8 = {}" using assms(2) by auto
  then show "load_word (guard_put c w n M) w = Some c"
    unfolding guard_put_def by (simp add: load_put_other load_put_word [OF assms(1)])
qed (simp add: guard_put_def load_put_word [OF assms(1)])

lemma sec_write_guards_ok:
  assumes "sm_cells st c = Some x" and "payload x = (w, n, a)" and "2 \<le> n" and "span w (8 * n) \<subseteq> dom (sm_mem st)"
  shows "sec_write_guards c st = Some (st\<lparr>sm_mem := guard_put c w n (sm_mem st)\<rparr>)"
proof -
  have 1: "span w 8 \<subseteq> dom (sm_mem st)" using guard_area(1) [OF assms(3)] assms(4) by blast
  have "dom (put w (le_bytes 8 c) (sm_mem st)) = dom (sm_mem st)" using 1 by (intro dom_put) simp
  then have 2: "span (w + 8 * (n - 1)) 8 \<subseteq> dom (put w (le_bytes 8 c) (sm_mem st))"
    using guard_area(2) [OF assms(3)] assms(4) by blast
  show ?thesis
    using assms(1-3) store_word_ok [OF 1] store_word_ok [OF 2] by (simp add: sec_write_guards_def guard_put_def payload_def)
qed

lemma sec_check_guards_ok:
  assumes "tile_ok (sm_cells st) (sm_mem st) (c, w, n, a)"
  shows "sec_check_guards c st = Some ()"
  using assms by (auto simp: sec_check_guards_def cell_ok_def payload_def)

lemma tile_okE:
  assumes "tile_ok C M (c, w, n, a)"
  obtains x where "C c = Some x" and "cell_words x = w" and "cell_n_words x = n" and "cell_allocated x = a"
    and "0 < a \<Longrightarrow> cell_next x = 0 \<and> cell_prev x = 0"
  using assms by (auto simp: cell_ok_def payload_def)

lemma block_okD:
  assumes "block_ok C M b xs rs"
  shows "tiled (block_words b) xs (block_end b)" "8 \<le> block_words b" "{block_words b..<block_end b} \<subseteq> dom M"
    "distinct (map fst xs)" "\<forall>t \<in> set xs. tile_ok C M t" "ring C rs" "block_unused b = ring_head rs" "set rs = unused_cells xs"
  using assms by (simp_all add: block_ok_def)

lemma tile_dom: "block_ok C M b xs rs \<Longrightarrow> (c, w, n, a) \<in> set xs \<Longrightarrow> span w (8 * n) \<subseteq> dom M"
proof -
  assume b: "block_ok C M b xs rs" and t: "(c, w, n, a) \<in> set xs"
  have "span w (8 * n) \<subseteq> {block_words b..<block_end b}" using tiled_area [OF block_okD(1) [OF b] t] by auto
  also have "\<dots> \<subseteq> dom M" by (rule block_okD(3) [OF b])
  finally show ?thesis .
qed

lemma arenaD:
  assumes "arena taken V st b xs rs"
  shows "block_ok (sm_cells st) (sm_mem st) b xs rs" "meta_ok taken st (V \<union> tile_cells xs)" "V \<inter> tile_cells xs = {}"
  using assms by (simp_all add: arena_def)

lemma arena_cell_bounds: "arena taken V st b xs rs \<Longrightarrow> c \<in> tile_cells xs \<Longrightarrow> 0 < c \<and> c < 2 ^ 64"
  using pools_ok_bounds [of _ "sm_pools st" "V \<union> tile_cells xs" c] by (auto simp: arena_def meta_ok_def)

lemma neighbor_after:
  assumes "arena taken V st b (pre @ (c, w, n, a) # post) rs"
  shows "sec_neighbor_after b c st = Some (case post of [] \<Rightarrow> 0 | (d, _) # _ \<Rightarrow> d)"
proof -
  note B = block_okD [OF arenaD(1) [OF assms]]
  have c: "c \<noteq> 0" using arena_cell_bounds [OF assms, of c] by simp
  have t: "tile_ok (sm_cells st) (sm_mem st) (c, w, n, a)" "tiled (w + 8 * n) post (block_end b)" "block_words b \<le> w"
    using B(1,5) tiled_le by (auto simp: tiled_middle)
  obtain x where x: "sm_cells st c = Some x" "cell_words x = w" "cell_n_words x = n" using t(1) by (rule tile_okE) blast
  show ?thesis
  proof (cases post)
    case Nil
    then have "w + 8 * n = block_end b" using t(2) by simp
    with c x Nil show ?thesis by (simp add: sec_neighbor_after_def sec_is_valid_word_def block_end_def)
  next
    case (Cons q post')
    obtain d w' n' a' where q: "q = (d, w', n', a')" by (cases q) auto
    have d: "tile_ok (sm_cells st) (sm_mem st) (d, w', n', a')" using B(5) Cons q by auto
    have "w' = w + 8 * n" "w + 8 * n < block_end b" using t(2) Cons q tiled_le by fastforce+
    with c x d t(3) sec_check_guards_ok [OF d] show ?thesis
      by (simp add: Cons q sec_neighbor_after_def sec_is_valid_word_def block_end_def)
  qed
qed

lemma neighbor_before:
  assumes "arena taken V st b (pre @ (c, w, n, a) # post) rs"
  shows "sec_neighbor_before b c st = Some (if pre = [] then 0 else fst (last pre))"
proof -
  note B = block_okD [OF arenaD(1) [OF assms]]
  have c: "c \<noteq> 0" using arena_cell_bounds [OF assms, of c] by simp
  have t: "tile_ok (sm_cells st) (sm_mem st) (c, w, n, a)" "tiled (block_words b) pre w" "w + 8 * n \<le> block_end b"
    using B(1,5) tiled_le by (auto simp: tiled_middle)
  have n: "2 \<le> n" using t(1) by simp
  obtain x where x: "sm_cells st c = Some x" "cell_words x = w" using t(1) by (rule tile_okE) blast
  show ?thesis
  proof (cases pre rule: rev_cases)
    case Nil
    then have "w = block_words b" using t(2) by simp
    with B(2) have "\<not> block_words b \<le> w - 8" by simp
    with c x Nil show ?thesis by (simp add: sec_neighbor_before_def sec_is_valid_word_def)
  next
    case (snoc pre' q)
    obtain d w' n' a' where q: "q = (d, w', n', a')" by (cases q) auto
    have d: "tile_ok (sm_cells st) (sm_mem st) (d, w', n', a')" using B(5) snoc q by auto
    have e: "tiled (block_words b) pre' w'" "w = w' + 8 * n'" "2 \<le> n'" using t(2) snoc q by (auto simp: tiled_append)
    then have "block_words b \<le> w'" by (simp add: tiled_le)
    moreover have "w' + 8 * n' - 8 = w' + 8 * (n' - 1)" "w' + 8 * (n' - 1) < block_end b" using e(2,3) t(3) by simp_all
    ultimately show ?thesis
      using c x d e t(3) n sec_check_guards_ok [OF d] B(2)
      by (simp add: snoc q sec_neighbor_before_def sec_is_valid_word_def block_end_def)
  qed
qed

text \<open>An unused cell is linked, a used one is not.\<close>

lemma ring_linked:
  assumes "ring C rs" and "c \<in> set rs"
  shows "\<exists>x. C c = Some x \<and> cell_next x \<in> set rs \<and> cell_prev x \<in> set rs \<and> cell_next x \<noteq> 0 \<and> cell_prev x \<noteq> 0
    \<and> (\<exists>y. C (cell_next x) = Some y \<and> cell_prev y = c) \<and> (\<exists>y. C (cell_prev x) = Some y \<and> cell_next y = c)"
proof -
  from assms(2) obtain us vs where rs: "rs = us @ c # vs" by (meson split_list)
  then have "ring C (c # vs @ us)" using assms(1) ring_rotate [of C us "c # vs"] by simp
  then obtain x where x: "C c = Some x" "cell_next x = hd ((vs @ us) @ [c])" "cell_prev x = last (c # vs @ us)"
    "\<exists>y. C (hd ((vs @ us) @ [c])) = Some y \<and> cell_prev y = c" "\<exists>y. C (last (c # vs @ us)) = Some y \<and> cell_next y = c" by (rule ring_ConsE)
  have "hd ((vs @ us) @ [c]) \<in> set rs" "last (c # vs @ us) \<in> set rs"
    using hd_in_set [of "(vs @ us) @ [c]"] last_in_set [of "c # vs @ us"] unfolding rs by auto
  moreover have "0 \<notin> set rs" using assms(1) by (simp add: ring_def)
  ultimately show ?thesis using x by metis
qed

subsection \<open>Replacing tiles\<close>

text \<open>The invariant without the ring.\<close>

definition tiles_ok :: "(nat \<rightharpoonup> Cell) \<Rightarrow> (nat \<rightharpoonup> byte) \<Rightarrow> Block \<Rightarrow> tile list \<Rightarrow> bool" where
  "tiles_ok C M b xs \<longleftrightarrow> tiled (block_words b) xs (block_end b) \<and> 8 \<le> block_words b
     \<and> {block_words b..<block_end b} \<subseteq> dom M \<and> distinct (map fst xs) \<and> (\<forall>t \<in> set xs. tile_ok C M t)"

lemma block_ok_tiles:
  "block_ok C M b xs rs \<longleftrightarrow> tiles_ok C M b xs \<and> ring C rs \<and> block_unused b = ring_head rs \<and> set rs = unused_cells xs"
  by (auto simp: block_ok_def tiles_ok_def)

lemma tiles_ok_block [simp]: "tiles_ok C M (b\<lparr>block_unused := r\<rparr>) xs = tiles_ok C M b xs"
  "tiles_ok C M (b\<lparr>block_used := u\<rparr>) xs = tiles_ok C M b xs"
  by (simp_all add: tiles_ok_def block_end_def)

lemma arenaI:
  assumes "tiles_ok (sm_cells st) (sm_mem st) b xs" and "ring (sm_cells st) rs" and "block_unused b = ring_head rs"
    and "set rs = unused_cells xs" and "meta_ok taken st (V \<union> tile_cells xs)" and "V \<inter> tile_cells xs = {}"
  shows "arena taken V st b xs rs"
  using assms by (simp add: arena_def block_ok_tiles)

lemma tiles_replace:
  assumes ok: "tiles_ok C M b (pre @ mid @ post)" and mid: "tiled lo mid hi" "tiled lo mid' hi" "mid \<noteq> []"
    and C: "kept pre C C'" "kept post C C'"
    and M: "\<And>x. x \<notin> {lo..<hi} \<Longrightarrow> M' x = M x" "dom M' = dom M"
    and new: "\<forall>t \<in> set mid'. tile_ok C' M' t" "distinct (map fst mid')" "tile_cells mid' \<inter> (tile_cells pre \<union> tile_cells post) = {}"
  shows "tiles_ok C' M' b (pre @ mid' @ post) \<and> held M' pre = held M pre \<and> held M' post = held M post
    \<and> (\<forall>x. x \<notin> {block_words b..<block_end b} \<longrightarrow> M' x = M x)"
proof -
  from ok have T: "tiled (block_words b) (pre @ mid @ post) (block_end b)" "distinct (map fst (pre @ mid @ post))"
    "\<forall>t \<in> set (pre @ mid @ post). tile_ok C M t" by (simp_all add: tiles_ok_def)
  from T(1) obtain l h where lh: "tiled (block_words b) pre l" "tiled l mid h" "tiled h post (block_end b)"
    by (auto simp: tiled_append)
  obtain t mid1 where "mid = t # mid1" using mid(3) by (cases mid) auto
  with mid(1) lh(2) have l: "l = lo" by (cases t) auto
  have "h = hi" if "tiled a mid h" "tiled a mid hi" for a using that by (induction a mid h rule: tiled.induct) auto
  with lh(2) mid(1) l have h: "h = hi" by simp
  note le = tiled_le [OF lh(1)] tiled_le [OF lh(3)] tiled_le [OF mid(1)]
  have pre: "\<forall>t \<in> set pre. tile_ok C' M' t" "held M' pre = held M pre"
    using tiles_cong [OF lh(1) _ C(1), of M M'] T(2,3) M(1) l by auto
  have post: "\<forall>t \<in> set post. tile_ok C' M' t" "held M' post = held M post"
    using tiles_cong [OF lh(3) _ C(2), of M M'] T(2,3) M(1) h by auto
  have out: "\<forall>x. x \<notin> {block_words b..<block_end b} \<longrightarrow> M' x = M x" using M(1) le l h by auto
  have "tiled (block_words b) (pre @ mid' @ post) (block_end b)" using lh l h mid(2) by (auto simp: tiled_append)
  moreover have "distinct (map fst (pre @ mid' @ post))"
    using T(2) new(2,3) by (auto simp: distinct_fst_append simp del: map_append)
  ultimately have "tiles_ok C' M' b (pre @ mid' @ post)"
    using ok pre(1) post(1) new(1) M(2) by (auto simp: tiles_ok_def)
  with pre(2) post(2) out show ?thesis by blast
qed

lemma unused_distinct:
  assumes "distinct (map fst (pre @ (c, w, n, a) # post))"
  shows "c \<notin> unused_cells pre" "c \<notin> unused_cells post" "c \<notin> tile_cells pre" "c \<notin> tile_cells post"
  using assms unused_cells_sub [of pre] unused_cells_sub [of post] by (auto simp: tile_cells_def)

lemma unused_elsewhere:
  assumes "distinct (map fst (pre @ mid @ post))"
  shows "unused_cells (pre @ mid @ post) \<inter> tile_cells pre \<subseteq> unused_cells pre"
    and "unused_cells (pre @ mid @ post) \<inter> tile_cells post \<subseteq> unused_cells post"
  using assms unused_cells_sub [of pre] unused_cells_sub [of mid] unused_cells_sub [of post]
  unfolding distinct_fst_append unused_cells_simps tile_cells_simps by blast+

lemma relinked_frame: "relinked S C C' \<Longrightarrow> S = unused_cells xs \<Longrightarrow> V \<inter> tile_cells xs = {} \<Longrightarrow> d \<in> V \<Longrightarrow> C' d = C d"
  using unused_cells_sub [of xs] unfolding relinked_def by blast

lemma zeros_read: "get_bytes (put a (replicate n 0) m) a n = Some (replicate n 0)"
  using get_put [of a "replicate n 0" m] by simp

section \<open>Allocation\<close>

lemma held_fst: "p \<in> fst ` held M xs \<Longrightarrow> \<exists>c w n a. (c, w, n, a) \<in> set xs \<and> p = w + 8"
  by (fastforce simp: held_def split: if_splits)

lemma held_fresh:
  assumes "tiled lo (pre @ (c, w, n, a) # post) hi"
  shows "w + 8 \<notin> fst ` (held M pre \<union> held M post)"
proof
  assume "w + 8 \<in> fst ` (held M pre \<union> held M post)"
  then consider "w + 8 \<in> fst ` held M pre" | "w + 8 \<in> fst ` held M post" by auto
  then show False
  proof cases
    case 1
    then obtain c' n' a' where t: "(c', w, n', a') \<in> set pre" using held_fst by fastforce
    then obtain l r where "pre = l @ (c', w, n', a') # r" by (meson split_list)
    with assms tiled_le show False by (fastforce simp: tiled_append)
  next
    case 2
    then obtain c' n' a' where "(c', w, n', a') \<in> set post" using held_fst by fastforce
    with assms show False using tiled_area [of "w + 8 * n" post hi c' w n' a'] by (simp add: tiled_middle)
  qed
qed

definition after_alloc :: "('w \<Rightarrow> nat set) \<Rightarrow> nat set \<Rightarrow> nat \<Rightarrow> 'w Secure \<Rightarrow> Block \<Rightarrow> tile list \<Rightarrow> nat \<Rightarrow> 'w Secure \<Rightarrow> Block \<Rightarrow> bool" where
  "after_alloc taken V nbytes st b xs p st' b' \<longleftrightarrow> outside V st b st' b' \<and> (\<exists>xs' rs'. arena taken V st' b' xs' rs'
     \<and> (if p = 0 then block_used b' = block_used b \<and> used_count xs' = used_count xs \<and> held (sm_mem st') xs' = held (sm_mem st) xs
        else block_used b' = block_used b + 1 \<and> used_count xs' = used_count xs + 1
          \<and> held (sm_mem st') xs' = insert (p, replicate nbytes 0) (held (sm_mem st) xs) \<and> p \<notin> fst ` held (sm_mem st) xs))"

context secure_os
begin

lemma sec_split_ok:
  assumes ar: "arena taken V st b (pre @ (c, w, N, 0) # post) rs" and n: "2 \<le> n" "n + 2 \<le> N"
  shows "\<exists>d st'. sec_split os c n st = Some (d, st') \<and> sm_blocks st' = sm_blocks st
    \<and> (if d = 0 then sm_cells st' = sm_cells st \<and> sm_mem st' = sm_mem st \<and> arena taken V st' b (pre @ (c, w, N, 0) # post) rs
       else d \<notin> V \<union> tile_cells (pre @ (c, w, N, 0) # post) \<and> d < 2 ^ 64
         \<and> meta_ok taken st' (insert d (V \<union> tile_cells (pre @ (c, w, N, 0) # post)))
         \<and> (\<exists>x. sm_cells st c = Some x \<and> payload x = (w, N, 0)
            \<and> sm_cells st' = (sm_cells st)(d \<mapsto> empty_cell\<lparr>cell_n_words := n, cell_words := w\<rparr>,
                c \<mapsto> x\<lparr>cell_n_words := N - n, cell_words := w + 8 * n\<rparr>))
         \<and> sm_mem st' = guard_put c (w + 8 * n) (N - n) (guard_put d w n (sm_mem st)))"
proof -
  let ?xs = "pre @ (c, w, N, 0) # post"
  note A = arenaD [OF ar] and B = block_okD [OF arenaD(1) [OF ar]]
  from pool_alloc_ok [OF A(2)] obtain d pools wd where p: "pool_alloc os st = Some (d, st\<lparr>sm_pools := pools, sm_world := wd,
      sm_cells := (if d = 0 then sm_cells st else (sm_cells st)(d \<mapsto> empty_cell))\<rparr>)"
    and m: "if d = 0 then meta_ok taken (st\<lparr>sm_pools := pools, sm_world := wd\<rparr>) (V \<union> tile_cells ?xs)
      else d \<notin> V \<union> tile_cells ?xs \<and> d < 2 ^ 64 \<and> meta_ok taken (st\<lparr>sm_pools := pools, sm_world := wd\<rparr>) (insert d (V \<union> tile_cells ?xs))"
    by blast
  show ?thesis
  proof (cases "d = 0")
    case True
    with p m A(1,3) show ?thesis by (auto simp: sec_split_def arena_def)
  next
    case False
    with m have d: "d \<notin> V \<union> tile_cells ?xs" "d < 2 ^ 64" "d \<noteq> c" by auto
    have "tile_ok (sm_cells st) (sm_mem st) (c, w, N, 0)" using B(5) by auto
    then obtain x where x: "sm_cells st c = Some x" "payload x = (w, N, 0)" by (auto simp: cell_ok_def)
    let ?C = "(sm_cells st)(d \<mapsto> empty_cell\<lparr>cell_n_words := n, cell_words := w\<rparr>, c \<mapsto> x\<lparr>cell_n_words := N - n, cell_words := w + 8 * n\<rparr>)"
    let ?st = "st\<lparr>sm_pools := pools, sm_world := wd, sm_cells := ?C\<rparr>"
    have dom: "span w (8 * N) \<subseteq> dom (sm_mem st)" using tile_dom [OF A(1), of c w N 0] by simp
    have s: "span w (8 * n) \<subseteq> span w (8 * N)" "span (w + 8 * n) (8 * (N - n)) \<subseteq> span w (8 * N)" using n by auto
    have g1: "sec_write_guards d ?st = Some (?st\<lparr>sm_mem := guard_put d w n (sm_mem st)\<rparr>)"
      using d(3) n subset_trans [OF s(1) dom] sec_write_guards_ok [of ?st d "empty_cell\<lparr>cell_n_words := n, cell_words := w\<rparr>" w n 0]
      by (simp add: payload_def empty_cell_def)
    have dom2: "dom (guard_put d w n (sm_mem st)) = dom (sm_mem st)" using subset_trans [OF s(1) dom] n(1) by (rule dom_guard_put)
    have g2: "sec_write_guards c (?st\<lparr>sm_mem := guard_put d w n (sm_mem st)\<rparr>)
        = Some (?st\<lparr>sm_mem := guard_put c (w + 8 * n) (N - n) (guard_put d w n (sm_mem st))\<rparr>)"
      using n subset_trans [OF s(2) dom] dom2 x sec_write_guards_ok [of "?st\<lparr>sm_mem := guard_put d w n (sm_mem st)\<rparr>" c
          "x\<lparr>cell_n_words := N - n, cell_words := w + 8 * n\<rparr>" "w + 8 * n" "N - n" 0] by (simp add: payload_def)
    have "dom (guard_put c (w + 8 * n) (N - n) (guard_put d w n (sm_mem st))) = dom (sm_mem st)"
      using dom2 subset_trans [OF s(2) dom] n(2) dom_guard_put [of "w + 8 * n" "N - n" "guard_put d w n (sm_mem st)" c] by auto
    then have "meta_ok taken (?st\<lparr>sm_mem := guard_put c (w + 8 * n) (N - n) (guard_put d w n (sm_mem st))\<rparr>) (insert d (V \<union> tile_cells ?xs))"
      using m False by (simp add: meta_ok_def)
    moreover have "sec_split os c n st = Some (d, ?st\<lparr>sm_mem := guard_put c (w + 8 * n) (N - n) (guard_put d w n (sm_mem st))\<rparr>)"
      using p False d(3) x g1 g2 by (simp add: sec_split_def set_cell_def upd_cell_def payload_def)
    ultimately show ?thesis using False d x by auto
  qed
qed

lemma sec_use_linked:
  assumes ar: "arena taken V st b (pre @ (c, w, N, 0) # post) rs" and n: "0 < nbytes" "nbytes \<le> 8 * (N - 2)"
  shows "\<exists>b' st'. sec_use b c nbytes st = Some (w + 8, b', st') \<and> after_alloc taken V nbytes st b (pre @ (c, w, N, 0) # post) (w + 8) st' b'"
proof -
  let ?xs = "pre @ (c, w, N, 0) # post" and ?xs' = "pre @ (c, w, N, nbytes) # post"
  note A = arenaD [OF ar] and B = block_okD [OF arenaD(1) [OF ar]]
  have tok: "tile_ok (sm_cells st) (sm_mem st) (c, w, N, 0)" using B(5) by auto
  have N: "2 \<le> N" "nbytes + 16 \<le> 8 * N" using tok n by auto
  have "c \<in> set rs" using B(8) by simp
  then obtain us vs where rs: "rs = us @ c # vs" by (meson split_list)
  from sec_remove_cell_ring_ok [of "sm_cells st" us c vs] B(6)
  obtain C' x where r: "sec_remove_cell_ring (ring_head rs) c (sm_cells st) = Some (ring_head (us @ vs), C')" "ring C' (us @ vs)"
    "relinked (set rs) (sm_cells st) C'" "sm_cells st c = Some x" "C' c = Some (x\<lparr>cell_next := 0, cell_prev := 0\<rparr>)"
    unfolding rs by blast
  have x: "payload x = (w, N, 0)" "cell_next x \<noteq> 0" using tok r(4) ring_linked [OF B(6) \<open>c \<in> set rs\<close>] by (auto simp: cell_ok_def)
  let ?M = "put (w + 8) (replicate nbytes 0) (sm_mem st)"
  let ?C = "C'(c \<mapsto> x\<lparr>cell_next := 0, cell_prev := 0, cell_allocated := nbytes\<rparr>)"
  let ?b = "b\<lparr>block_unused := ring_head (us @ vs), block_used := block_used b + 1\<rparr>"
  let ?st = "st\<lparr>sm_cells := ?C, sm_mem := ?M\<rparr>"
  have dom: "span w (8 * N) \<subseteq> dom (sm_mem st)" using tile_dom [OF A(1), of c w N 0] by simp
  have sub: "span (w + 8) (length (replicate nbytes (0 :: byte))) \<subseteq> span w (8 * N)" using N by auto
  note sub' = subset_trans [OF sub dom]
  have domM: "dom ?M = dom (sm_mem st)" using sub' by (rule dom_put)
  have run: "sec_use b c nbytes st = Some (w + 8, ?b, ?st)"
    using r(1,4,5) x B(7) put_bytes_ok [OF sub']
    by (simp add: sec_use_def sec_unlink_def set_cell_def upd_cell_def sec_cell_to_memory_def payload_def)
  have M': "\<And>a. a \<notin> span w (8 * N) \<Longrightarrow> ?M a = sm_mem st a" "span (w + 8) nbytes \<inter> span w 8 = {}"
    "span (w + 8) nbytes \<inter> span (w + 8 * (N - 1)) 8 = {}"
    using sub N by (auto intro!: put_other)
  then have new: "tile_ok ?C ?M (c, w, N, nbytes)"
    using tok x n by (simp add: cell_ok_def payload_def load_put_other)
  note un = unused_distinct [OF B(4)]
  have kept: "kept pre (sm_cells st) ?C" "kept post (sm_cells st) ?C"
    using un unused_elsewhere [of pre "[(c, w, N, 0)]" post] B(4) unfolding append_Cons append_Nil B(8) [symmetric]
    by (intro kept_upd kept_relinked [OF r(3)]; simp)+
  have "tiles_ok ?C ?M b (pre @ [(c, w, N, nbytes)] @ post) \<and> held ?M pre = held (sm_mem st) pre \<and> held ?M post = held (sm_mem st) post
    \<and> (\<forall>x. x \<notin> {block_words b..<block_end b} \<longrightarrow> ?M x = sm_mem st x)"
    by (rule tiles_replace [where C = "sm_cells st" and mid = "[(c, w, N, 0)]" and lo = w and hi = "w + 8 * N"])
       (use A(1) N(1) un M'(1) domM new kept in \<open>auto simp: block_ok_tiles\<close>)
  then have rep_ok: "tiles_ok ?C ?M b ?xs'" "held ?M pre = held (sm_mem st) pre" "held ?M post = held (sm_mem st) post"
    "\<And>x. x \<notin> {block_words b..<block_end b} \<Longrightarrow> ?M x = sm_mem st x" by auto
  have dist: "distinct (us @ vs)" "c \<notin> set (us @ vs)" using B(6) rs by (auto simp: ring_def)
  have "ring ?C (us @ vs)" using r(2) dist(2) ring_cong [of "us @ vs" C' ?C] by (auto simp: same_links_def)
  moreover have "set (us @ vs) = unused_cells ?xs'" using B(8) rs un dist(2) n(1) by auto
  ultimately have "arena taken V ?st ?b ?xs' (us @ vs)"
    using rep_ok(1) A(2,3) domM by (auto simp: arena_def block_ok_tiles tiles_ok_def block_end_def meta_ok_def)
  moreover have "outside V st b ?st ?b"
    using rep_ok(4) relinked_frame [OF r(3) B(8) A(3)] A(3) by (auto simp: outside_def)
  moreover have "held ?M ?xs' = insert (w + 8, replicate nbytes 0) (held (sm_mem st) ?xs)" "w + 8 \<notin> fst ` held (sm_mem st) ?xs"
    using rep_ok(2,3) n(1) zeros_read [of "w + 8" nbytes "sm_mem st"] held_fresh [OF B(1)] by (auto simp: held_tile_simps)
  ultimately have "after_alloc taken V nbytes st b ?xs (w + 8) ?st ?b"
    using n(1) unfolding after_alloc_def by (intro conjI exI [of _ ?xs'] exI [of _ "us @ vs"]) simp_all
  with run show ?thesis by blast
qed

lemma load_guard_other: "span w (8 * n) \<inter> span a 8 = {} \<Longrightarrow> 2 \<le> n \<Longrightarrow> load_word (guard_put c w n M) a = load_word M a"
  using guard_area [of n w] by (intro load_word_cong guard_put_other) auto

lemma sec_use_split:
  assumes ar: "arena taken V st b (pre @ (c, w, N, 0) # post) rs" and n: "2 \<le> n" "n + 2 \<le> N" "0 < nbytes" "nbytes \<le> 8 * (n - 2)"
    and d: "d \<notin> V \<union> tile_cells (pre @ (c, w, N, 0) # post)" "d < 2 ^ 64"
    and meta: "meta_ok taken st1 (insert d (V \<union> tile_cells (pre @ (c, w, N, 0) # post)))"
    and x: "sm_cells st c = Some x" "payload x = (w, N, 0)"
    and st1: "sm_cells st1 = (sm_cells st)(d \<mapsto> empty_cell\<lparr>cell_n_words := n, cell_words := w\<rparr>,
                c \<mapsto> x\<lparr>cell_n_words := N - n, cell_words := w + 8 * n\<rparr>)"
      "sm_mem st1 = guard_put c (w + 8 * n) (N - n) (guard_put d w n (sm_mem st))" "sm_blocks st1 = sm_blocks st"
  shows "\<exists>b' st'. sec_use b d nbytes st1 = Some (w + 8, b', st') \<and> after_alloc taken V nbytes st b (pre @ (c, w, N, 0) # post) (w + 8) st' b'"
proof -
  let ?xs = "pre @ (c, w, N, 0) # post" and ?mid = "[(d, w, n, nbytes), (c, w + 8 * n, N - n, 0)]"
  note A = arenaD [OF ar] and B = block_okD [OF arenaD(1) [OF ar]]
  let ?M1 = "guard_put d w n (sm_mem st)"
  let ?M2 = "guard_put c (w + 8 * n) (N - n) ?M1"
  let ?M = "put (w + 8) (replicate nbytes 0) ?M2"
  let ?C = "(sm_cells st)(d \<mapsto> empty_cell\<lparr>cell_n_words := n, cell_words := w, cell_allocated := nbytes\<rparr>,
      c \<mapsto> x\<lparr>cell_n_words := N - n, cell_words := w + 8 * n\<rparr>)"
  let ?b = "b\<lparr>block_used := block_used b + 1\<rparr>"
  let ?st = "st1\<lparr>sm_cells := ?C, sm_mem := ?M\<rparr>"
  have dom: "span w (8 * N) \<subseteq> dom (sm_mem st)" using tile_dom [OF A(1), of c w N 0] by simp
  have s: "span w (8 * n) \<subseteq> span w (8 * N)" "span (w + 8 * n) (8 * (N - n)) \<subseteq> span w (8 * N)"
    "span (w + 8) (length (replicate nbytes (0 :: byte))) \<subseteq> span w (8 * N)" using n by auto
  have dom1: "dom ?M1 = dom (sm_mem st)" using subset_trans [OF s(1) dom] n(1) by (rule dom_guard_put)
  have dom2: "dom ?M2 = dom (sm_mem st)" using dom1 subset_trans [OF s(2) dom] n(2) dom_guard_put [of "w + 8 * n" "N - n" ?M1 c] by simp
  have sub: "span (w + 8) (length (replicate nbytes (0 :: byte))) \<subseteq> dom ?M2" using dom2 subset_trans [OF s(3) dom] by simp
  have domM: "dom ?M = dom (sm_mem st)" using dom_put [OF sub] dom2 by simp
  have dc: "d \<noteq> c" using d(1) by auto
  have run: "sec_use b d nbytes st1 = Some (w + 8, ?b, ?st)"
    using put_bytes_ok [OF sub] dc st1(1,2)
    by (simp add: sec_use_def set_cell_def upd_cell_def sec_cell_to_memory_def empty_cell_def fun_upd_twist)
  have apart: "span (w + 8) (length (replicate nbytes (0 :: byte))) \<inter> span w 8 = {}"
    "span (w + 8) (length (replicate nbytes (0 :: byte))) \<inter> span (w + 8 * (n - 1)) 8 = {}"
    "span (w + 8) (length (replicate nbytes (0 :: byte))) \<inter> span (w + 8 * n) 8 = {}"
    "span (w + 8) (length (replicate nbytes (0 :: byte))) \<inter> span (w + 8 * n + 8 * (N - n - 1)) 8 = {}"
    "span (w + 8 * n) (8 * (N - n)) \<inter> span w 8 = {}" "span (w + 8 * n) (8 * (N - n)) \<inter> span (w + 8 * (n - 1)) 8 = {}" using n by auto
  have Nn: "2 \<le> N - n" "c < 2 ^ 64" using n arena_cell_bounds [OF ar, of c] by auto
  have t1: "tile_ok ?C ?M (d, w, n, nbytes)"
    using dc n guard_put_load [OF d(2) n(1)] load_guard_other [OF apart(5) Nn(1)] load_guard_other [OF apart(6) Nn(1)]
      load_put_other [OF apart(1)] load_put_other [OF apart(2)]
    by (simp add: cell_ok_def payload_def empty_cell_def)
  have t2: "tile_ok ?C ?M (c, w + 8 * n, N - n, 0)"
    using x(2) Nn guard_put_load [OF Nn(2,1)] load_put_other [OF apart(3)] load_put_other [OF apart(4)]
    by (simp add: cell_ok_def payload_def)
  have M': "?M a = sm_mem st a" if a: "a \<notin> {w..<w + 8 * N}" for a
  proof -
    have "?M a = ?M2 a" using a s(3) by (intro put_other) blast
    also have "\<dots> = ?M1 a" using a s(2) guard_area [OF Nn(1), of "w + 8 * n"] by (intro guard_put_other) blast+
    also have "\<dots> = sm_mem st a" using a s(1) guard_area [OF n(1), of w] by (intro guard_put_other) blast+
    finally show ?thesis .
  qed
  note un = unused_distinct [OF B(4)]
  have rep: "tiles_ok ?C ?M b (pre @ ?mid @ post) \<and> held ?M pre = held (sm_mem st) pre \<and> held ?M post = held (sm_mem st) post
    \<and> (\<forall>x. x \<notin> {block_words b..<block_end b} \<longrightarrow> ?M x = sm_mem st x)"
  proof (rule tiles_replace [where C = "sm_cells st" and mid = "[(c, w, N, 0)]" and lo = w and hi = "w + 8 * N"])
    show "tiles_ok (sm_cells st) (sm_mem st) b (pre @ [(c, w, N, 0)] @ post)" using A(1) by (simp add: block_ok_tiles)
    show "tiled w [(c, w, N, 0)] (w + 8 * N)" "tiled w ?mid (w + 8 * N)" using n Nn by auto
    show "?M a = sm_mem st a" if "a \<notin> {w..<w + 8 * N}" for a using M' [OF that] .
    show "\<forall>t \<in> set ?mid. tile_ok ?C ?M t" using t1 t2 by simp
  qed (use d un dc domM in \<open>auto intro: keptI\<close>)
  have "d \<notin> set rs" using B(8) d(1) unused_cells_sub [of ?xs] by blast
  then have "same_links (set rs) (sm_cells st) ?C" using x(1) by (auto simp: same_links_def)
  then have "ring ?C rs" using ring_cong B(6) by blast
  moreover have "set rs = unused_cells (pre @ ?mid @ post)" using B(8) n(3) by simp
  moreover have "meta_ok taken ?st (V \<union> tile_cells (pre @ ?mid @ post))"
    using meta domM dom2 st1(2) by (simp add: meta_ok_def insert_commute)
  ultimately have "arena taken V ?st ?b (pre @ ?mid @ post) rs"
    using rep A(3) B(7) d(1) by (auto simp: arena_def block_ok_tiles tiles_ok_def block_end_def)
  moreover have "outside V st b ?st ?b" using rep A(3) d(1) st1(3) by (auto simp: outside_def)
  moreover have "held ?M (pre @ ?mid @ post) = insert (w + 8, replicate nbytes 0) (held (sm_mem st) ?xs)" "w + 8 \<notin> fst ` held (sm_mem st) ?xs"
    using rep n(3) zeros_read [of "w + 8" nbytes ?M2] held_fresh [OF B(1)] by (auto simp: held_tile_simps)
  ultimately have "after_alloc taken V nbytes st b ?xs (w + 8) ?st ?b"
    using n(3) unfolding after_alloc_def by (intro conjI exI [of _ "pre @ ?mid @ post"] exI [of _ rs]) simp_all
  with run show ?thesis by blast
qed

lemma words_fit: "nbytes \<le> 8 * (sec_size_to_words nbytes + 2 - 2)" "0 < nbytes \<Longrightarrow> 3 \<le> sec_size_to_words nbytes + 2"
proof -
  show "nbytes \<le> 8 * (sec_size_to_words nbytes + 2 - 2)"
    by (simp add: sec_size_to_words_def) presburger
  show "0 < nbytes \<Longrightarrow> 3 \<le> sec_size_to_words nbytes + 2" by (auto simp: sec_size_to_words_def)
qed

lemma words_le: "nbytes \<le> 8 * j \<Longrightarrow> sec_size_to_words nbytes \<le> j"
proof -
  assume "nbytes \<le> 8 * j"
  then have "(nbytes + 7) div 8 \<le> j" by linarith
  moreover have "sec_size_to_words nbytes = (nbytes + 7) div 8" unfolding sec_size_to_words_def by presburger
  ultimately show ?thesis by simp
qed

lemma outside_refl: "outside V st b st b"
  by (simp add: outside_def)

lemma sec_alloc_ok:
  assumes ar: "arena taken V st b xs rs" and n: "0 < nbytes"
  shows "\<exists>p b' st'. sec_alloc os b nbytes st = Some (p, b', st') \<and> after_alloc taken V nbytes st b xs p st' b'"
proof -
  note A = arenaD [OF ar] and B = block_okD [OF arenaD(1) [OF ar]]
  let ?n = "sec_size_to_words nbytes + 2"
  have same: "after_alloc taken V nbytes st b xs 0 st b" using ar outside_refl by (auto simp: after_alloc_def)
  have unused: "block_unused b = 0 \<longleftrightarrow> rs = []" using B(6,7) by (cases rs) (auto simp: ring_def)
  show ?thesis
  proof (cases "rs = [] \<or> find_cell (sm_cells st) (ring_head rs) ?n (ring_head rs) = Some 0")
    case True
    then show ?thesis using same n unused B(7) by (auto simp: sec_alloc_def)
  next
    case False
    with find_cell_ring [OF B(6), of ?n] obtain c x where c: "find_cell (sm_cells st) (ring_head rs) ?n (ring_head rs) = Some c" "c \<in> set rs"
      "sm_cells st c = Some x" "?n \<le> cell_n_words x" by auto
    from c(2) B(8) obtain w N where t: "(c, w, N, 0) \<in> set xs" by (auto simp: unused_cells_def)
    then obtain pre post where xs: "xs = pre @ (c, w, N, 0) # post" by (meson split_list)
    have tok: "tile_ok (sm_cells st) (sm_mem st) (c, w, N, 0)" using B(5) t by blast
    then have x: "payload x = (w, N, 0)" "2 \<le> N" using c(3) by (auto simp: cell_ok_def)
    have "0 < w" using tiled_area [OF B(1) t] B(2) by simp
    have c0: "c \<noteq> 0" "cell_prev x \<noteq> 0" using arena_cell_bounds [OF ar, of c] ring_linked [OF B(6) c(2)] c(3) xs by auto
    have start: "sec_alloc os b nbytes st = do {
        (c1, st1) \<leftarrow> (if ?n + WASTE < N then sec_split os c ?n st else Some (c, st));
        if c1 = 0 then Some (0, b, st1) else sec_use b c1 nbytes st1 }"
      using n unused False B(7) c x(1) c0 \<open>0 < w\<close> sec_check_guards_ok [OF tok] by (auto simp: sec_alloc_def payload_def)
    show ?thesis
    proof (cases "?n + WASTE < N")
      case True
      have n2: "2 \<le> ?n" "?n + 2 \<le> N" using True by (simp_all add: WASTE_def)
      from sec_split_ok [OF ar [unfolded xs] n2] obtain d st1 where s: "sec_split os c ?n st = Some (d, st1)" "sm_blocks st1 = sm_blocks st"
        and cases: "if d = 0 then sm_cells st1 = sm_cells st \<and> sm_mem st1 = sm_mem st \<and> arena taken V st1 b (pre @ (c, w, N, 0) # post) rs
         else d \<notin> V \<union> tile_cells (pre @ (c, w, N, 0) # post) \<and> d < 2 ^ 64
         \<and> meta_ok taken st1 (insert d (V \<union> tile_cells (pre @ (c, w, N, 0) # post)))
         \<and> (\<exists>x. sm_cells st c = Some x \<and> payload x = (w, N, 0)
            \<and> sm_cells st1 = (sm_cells st)(d \<mapsto> empty_cell\<lparr>cell_n_words := ?n, cell_words := w\<rparr>,
                c \<mapsto> x\<lparr>cell_n_words := N - ?n, cell_words := w + 8 * ?n\<rparr>))
         \<and> sm_mem st1 = guard_put c (w + 8 * ?n) (N - ?n) (guard_put d w ?n (sm_mem st))" by blast
      show ?thesis
      proof (cases "d = 0")
        case d: True
        with cases s xs have "after_alloc taken V nbytes st b xs 0 st1 b" by (auto simp: after_alloc_def outside_def)
        with start True s d show ?thesis by auto
      next
        case d: False
        with cases obtain x' where "sm_cells st c = Some x'" "payload x' = (w, N, 0)"
          "sm_cells st1 = (sm_cells st)(d \<mapsto> empty_cell\<lparr>cell_n_words := ?n, cell_words := w\<rparr>,
                c \<mapsto> x'\<lparr>cell_n_words := N - ?n, cell_words := w + 8 * ?n\<rparr>)" by auto
        with sec_use_split [OF ar [unfolded xs] n2 n words_fit(1) _ _ _ _ _ _ _ s(2), of d x'] cases d
        show ?thesis using start True s(1) xs by auto
      qed
    next
      case False
      have "nbytes \<le> 8 * (N - 2)" using words_fit(1) [of nbytes] c(4) x(1) by (simp add: payload_def)
      with sec_use_linked [OF ar [unfolded xs] n] start False c0(1) xs show ?thesis by auto
    qed
  qed
qed

end

section \<open>Release\<close>

text \<open>Two neighbours become one cell.\<close>

lemma join_tiles:
  assumes ok: "block_ok C M b (pre @ [(c1, w1, n1, a1), (c2, w2, n2, a2)] @ post) rs"
    and C': "kept pre C C'" "kept post C C'" "cell_ok C' k w1 (n1 + n2) a" and k: "k \<in> {c1, c2}" "k < 2 ^ 64"
    and a: "a \<le> 8 * (n1 + n2 - 2)" and M': "M' = guard_put k w1 (n1 + n2) M"
  shows "span w1 (8 * (n1 + n2)) \<subseteq> dom M \<and> dom M' = dom M \<and> tiles_ok C' M' b (pre @ (k, w1, n1 + n2, a) # post)
    \<and> held M' pre = held M pre \<and> held M' post = held M post \<and> (\<forall>x. x \<notin> {block_words b..<block_end b} \<longrightarrow> M' x = M x)
    \<and> (\<forall>x \<in> span (w1 + 8) (8 * (n1 - 2)) \<union> span (w2 + 8) (8 * (n2 - 2)). M' x = M x)"
proof -
  note B = block_okD [OF ok]
  have n: "2 \<le> n1" "2 \<le> n2" "w2 = w1 + 8 * n1" using B(1) by (auto simp: tiled_append)
  have "span w1 (8 * n1) \<subseteq> dom M" "span w2 (8 * n2) \<subseteq> dom M"
    using tile_dom [OF ok, of c1 w1 n1 a1] tile_dom [OF ok, of c2 w2 n2 a2] by simp_all
  moreover have "span w1 (8 * (n1 + n2)) = span w1 (8 * n1) \<union> span w2 (8 * n2)" using n by auto
  ultimately have dom: "span w1 (8 * (n1 + n2)) \<subseteq> dom M" by simp
  have domM: "dom M' = dom M" unfolding M' using dom n by (intro dom_guard_put) simp_all
  have un: "c1 \<noteq> c2" "c1 \<notin> tile_cells pre" "c1 \<notin> tile_cells post" "c2 \<notin> tile_cells pre" "c2 \<notin> tile_cells post"
    using B(4) by (auto simp: tile_cells_def)
  have "tiles_ok C' M' b (pre @ [(k, w1, n1 + n2, a)] @ post) \<and> held M' pre = held M pre
    \<and> held M' post = held M post \<and> (\<forall>x. x \<notin> {block_words b..<block_end b} \<longrightarrow> M' x = M x)"
  proof (rule tiles_replace [where C = C and mid = "[(c1, w1, n1, a1), (c2, w2, n2, a2)]" and lo = w1 and hi = "w1 + 8 * (n1 + n2)"])
    show "M' u = M u" if "u \<notin> {w1..<w1 + 8 * (n1 + n2)}" for u
      unfolding M' using that guard_area [of "n1 + n2" w1] n by (intro guard_put_other) auto
    show "\<forall>t \<in> set [(k, w1, n1 + n2, a)]. tile_ok C' M' t"
      unfolding M' using guard_put_load [OF k(2), of "n1 + n2" w1 M] n C'(3) a by simp
  qed (use ok n un k(1) domM C' in \<open>auto simp: block_ok_tiles\<close>)
  moreover have "\<forall>x \<in> span (w1 + 8) (8 * (n1 - 2)) \<union> span (w2 + 8) (8 * (n2 - 2)). M' x = M x"
    unfolding M' using n by (intro ballI guard_put_other) auto
  ultimately show ?thesis using dom domM by simp
qed

text \<open>\<open>merged\<close>: what merging leaves of the tiles around a cell; the inside of the cell is untouched.\<close>

definition merged :: "('w \<Rightarrow> nat set) \<Rightarrow> nat set \<Rightarrow> 'w Secure \<Rightarrow> Block \<Rightarrow> tile list \<Rightarrow> tile \<Rightarrow> tile list \<Rightarrow> nat \<Rightarrow> 'w Secure \<Rightarrow> Block
    \<Rightarrow> tile list \<Rightarrow> tile \<Rightarrow> tile list \<Rightarrow> nat list \<Rightarrow> bool" where
  "merged taken V st b pre t post c' st' b' pre' t' post' rs' \<longleftrightarrow> arena taken V st' b' (pre' @ t' # post') rs' \<and> outside V st b st' b'
     \<and> block_used b' = block_used b \<and> fst t' = c'
     \<and> held (sm_mem st') pre' = held (sm_mem st) pre \<and> held (sm_mem st') post' = held (sm_mem st) post
     \<and> used_count pre' = used_count pre \<and> used_count post' = used_count post
     \<and> (case t of (c, w, n, a) \<Rightarrow> case t' of (d, w', n', a') \<Rightarrow> (a' = a \<or> a' = 0)
          \<and> w' \<le> w \<and> w + 8 * n \<le> w' + 8 * n' \<and> (\<forall>x \<in> span (w + 8) (8 * (n - 2)). sm_mem st' x = sm_mem st x))"

lemma merged_refl: "arena taken V st b (pre @ (c, w, n, a) # post) rs \<Longrightarrow> merged taken V st b pre (c, w, n, a) post c st b pre (c, w, n, a) post rs"
  by (simp add: merged_def outside_def)

lemma meta_ok_subset: "meta_ok taken st U \<Longrightarrow> U = U' \<Longrightarrow> meta_ok taken st U'"
  by simp

context secure_os
begin

lemma sec_merge_before_ok:
  assumes ar: "arena taken V st b (pre @ (c, w, n, a) # post) rs" and a: "0 < a"
  shows "\<exists>c' st' pre' t'. sec_merge_before os b c st = Some (c', st') \<and> merged taken V st b pre (c, w, n, a) post c' st' b pre' t' post rs"
proof -
  note A = arenaD [OF ar] and B = block_okD [OF arenaD(1) [OF ar]]
  note nb = neighbor_before [OF ar]
  show ?thesis
  proof (cases pre rule: rev_cases)
    case Nil
    then have "sec_merge_before os b c st = Some (c, st)" using nb by (simp add: sec_merge_before_def)
    with merged_refl [OF ar] show ?thesis by blast
  next
    case (snoc pre0 q)
    obtain d w0 n0 a0 where q: "q = (d, w0, n0, a0)" by (cases q) auto
    have d: "tile_ok (sm_cells st) (sm_mem st) (d, w0, n0, a0)" "sec_neighbor_before b c st = Some d" "d \<noteq> 0"
      using B(5) nb snoc q arena_cell_bounds [OF ar, of d] by auto
    then obtain y where y: "sm_cells st d = Some y" "payload y = (w0, n0, a0)" by (auto simp: cell_ok_def)
    have cok: "tile_ok (sm_cells st) (sm_mem st) (c, w, n, a)" using B(5) by auto
    then obtain x where x: "sm_cells st c = Some x" "payload x = (w, n, a)" by (auto simp: cell_ok_def)
    have n: "2 \<le> n" "2 \<le> n0" "w = w0 + 8 * n0" using cok d(1) B(1) snoc q by (auto simp: tiled_append)
    show ?thesis
    proof (cases "a0 = 0")
      case False
      then have "sec_merge_before os b c st = Some (c, st)" using d y by (simp add: sec_merge_before_def payload_def)
      with merged_refl [OF ar] show ?thesis by blast
    next
      case True
      let ?C = "(sm_cells st)(d \<mapsto> y\<lparr>cell_n_words := n0 + n\<rparr>)" and ?M = "guard_put d w0 (n0 + n) (sm_mem st)"
      let ?st = "st\<lparr>sm_cells := ?C, sm_mem := ?M\<rparr>"
      have xs: "pre @ (c, w, n, a) # post = pre0 @ [(d, w0, n0, 0), (c, w, n, a)] @ post" using snoc q True by simp
      note D = B(4) [unfolded xs]
      have un: "c \<noteq> d" "d \<notin> tile_cells pre0" "d \<notin> tile_cells post" "c \<notin> tile_cells pre0" "c \<notin> tile_cells post"
        using D by (auto simp: tile_cells_def)
      have "d \<in> set rs" using B(8) xs by simp
      then have link: "cell_next y \<noteq> 0" "cell_prev y \<noteq> 0" using ring_linked [OF B(6), of d] y(1) by auto
      have b64: "d < 2 ^ 64" using arena_cell_bounds [OF ar, of d] xs by simp
      have "kept pre0 (sm_cells st) (?C(c := None))" "kept post (sm_cells st) (?C(c := None))" using un by (auto intro!: keptI)
      moreover have "cell_ok (?C(c := None)) d w0 (n0 + n) 0" using y un(1) True by (simp add: cell_ok_def payload_def)
      ultimately have rep: "span w0 (8 * (n0 + n)) \<subseteq> dom (sm_mem st) \<and> dom ?M = dom (sm_mem st)
        \<and> tiles_ok (?C(c := None)) ?M b (pre0 @ (d, w0, n0 + n, 0) # post) \<and> held ?M pre0 = held (sm_mem st) pre0
        \<and> held ?M post = held (sm_mem st) post \<and> (\<forall>x. x \<notin> {block_words b..<block_end b} \<longrightarrow> ?M x = sm_mem st x)
        \<and> (\<forall>x \<in> span (w0 + 8) (8 * (n0 - 2)) \<union> span (w + 8) (8 * (n - 2)). ?M x = sm_mem st x)"
        using b64 by (intro join_tiles [OF A(1) [unfolded xs]]) simp_all
      have g: "sec_write_guards d (st\<lparr>sm_cells := ?C\<rparr>) = Some ?st"
        using sec_write_guards_ok [of "st\<lparr>sm_cells := ?C\<rparr>" d "y\<lparr>cell_n_words := n0 + n\<rparr>" w0 "n0 + n" 0] y rep n True
        by (simp add: payload_def)
      have meta: "meta_ok taken ?st (V \<union> tile_cells (pre @ (c, w, n, a) # post))" using A(2) rep by (simp add: meta_ok_def)
      from pool_free_ok [OF meta, of c] obtain pools wd where f: "pool_free os c ?st
          = Some (?st\<lparr>sm_pools := pools, sm_world := wd, sm_cells := ?C(c := None)\<rparr>)"
        "meta_ok taken (?st\<lparr>sm_pools := pools, sm_world := wd\<rparr>) (V \<union> tile_cells (pre @ (c, w, n, a) # post) - {c})"
        by auto
      let ?st' = "?st\<lparr>sm_pools := pools, sm_world := wd, sm_cells := ?C(c := None)\<rparr>"
      have run: "sec_merge_before os b c st = Some (d, ?st')"
        using d y x link True g f(1) by (simp add: sec_merge_before_def set_cell_def upd_cell_def payload_def)
      have "c \<notin> set rs" using B(8) xs un a D unused_cells_sub [of pre0] unused_cells_sub [of post] by auto
      then have "same_links (set rs) (sm_cells st) (?C(c := None))" using y by (auto simp: same_links_def)
      then have ring: "ring (?C(c := None)) rs" using ring_cong B(6) by blast
      have "set rs = unused_cells (pre0 @ (d, w0, n0 + n, 0) # post)" using B(8) xs a by simp
      moreover have "V \<union> tile_cells (pre @ (c, w, n, a) # post) - {c} = V \<union> tile_cells (pre0 @ (d, w0, n0 + n, 0) # post)"
        using xs un A(3) by auto
      ultimately have "arena taken V ?st' b (pre0 @ (d, w0, n0 + n, 0) # post) rs"
        using rep ring B(7) f(2) A(3) un xs by (auto simp: arena_def block_ok_tiles meta_ok_def)
      moreover have "outside V st b ?st' b" using rep A(3) xs un by (auto simp: outside_def)
      ultimately have "merged taken V st b pre (c, w, n, a) post d ?st' b pre0 (d, w0, n0 + n, 0) post rs"
        using rep snoc q True n by (auto simp: merged_def held_tile_simps)
      with run show ?thesis by blast
    qed
  qed
qed

end

lemma unlink_if:
  assumes "ring C rs" and "block_unused b = ring_head rs" and "C c = Some x" and "c \<in> set rs \<longleftrightarrow> cell_next x \<noteq> 0"
  shows "\<exists>C' rs'. (if cell_next x \<noteq> 0 then sec_unlink b c (st\<lparr>sm_cells := C\<rparr>) else Some (b, st\<lparr>sm_cells := C\<rparr>))
      = Some (b\<lparr>block_unused := ring_head rs'\<rparr>, st\<lparr>sm_cells := C'\<rparr>)
    \<and> relinked (set rs) C C' \<and> ring C' rs' \<and> set rs' = set rs - {c}"
proof (cases "c \<in> set rs")
  case True
  then obtain us vs where rs: "rs = us @ c # vs" by (meson split_list)
  from sec_remove_cell_ring_ok [of C us c vs] assms(1) obtain C' where r: "sec_remove_cell_ring (ring_head rs) c C = Some (ring_head (us @ vs), C')"
    "ring C' (us @ vs)" "relinked (set rs) C C'" unfolding rs by blast
  have "set (us @ vs) = set rs - {c}" using assms(1) rs by (auto simp: ring_def)
  with r True assms(2,4) show ?thesis by (auto simp: sec_unlink_def intro!: exI [of _ "us @ vs"])
next
  case False
  with assms show ?thesis by (intro exI [of _ C] exI [of _ rs]) (simp flip: assms(2))
qed

lemma kept_trans: "kept xs C1 C2 \<Longrightarrow> (\<And>c. c \<in> tile_cells xs \<Longrightarrow> C1 c = C c) \<Longrightarrow> kept xs C C2"
  by (simp add: kept_def)

context secure_os
begin

lemma sec_merge_after_ok:
  assumes ar: "arena taken V st b (pre @ (c, w, n, a) # post) rs"
  shows "\<exists>c' b' st' t' post' rs'. sec_merge_after os b c st = Some (c', b', st')
    \<and> merged taken V st b pre (c, w, n, a) post c' st' b' pre t' post' rs'"
proof (cases "\<exists>e w1 n1 post1. post = (e, w1, n1, 0) # post1")
  case False
  note nb = neighbor_after [OF ar]
  have "sec_merge_after os b c st = Some (c, b, st)"
  proof (cases post)
    case (Cons q post1)
    with False obtain e w1 n1 a1 where q: "q = (e, w1, n1, a1)" "a1 \<noteq> 0" by (cases q) auto
    have "tile_ok (sm_cells st) (sm_mem st) (e, w1, n1, a1)" "e \<noteq> 0"
      using block_okD(5) [OF arenaD(1) [OF ar]] arena_cell_bounds [OF ar, of e] Cons q by auto
    with nb Cons q show ?thesis by (auto simp: sec_merge_after_def cell_ok_def payload_def)
  qed (use nb in \<open>simp add: sec_merge_after_def\<close>)
  with merged_refl [OF ar] show ?thesis by blast
next
  case True
  then obtain e w1 n1 post1 where post: "post = (e, w1, n1, 0) # post1" by blast
  note A = arenaD [OF ar] and B = block_okD [OF arenaD(1) [OF ar]]
  have xs: "pre @ (c, w, n, a) # post = pre @ [(c, w, n, a), (e, w1, n1, 0)] @ post1" using post by simp
  have e: "tile_ok (sm_cells st) (sm_mem st) (e, w1, n1, 0)" "sec_neighbor_after b c st = Some e" "0 < e" "e < 2 ^ 64"
    using B(5) neighbor_after [OF ar] post arena_cell_bounds [OF ar, of e] by auto
  then obtain y where y: "sm_cells st e = Some y" "payload y = (w1, n1, 0)" by (auto simp: cell_ok_def)
  have cok: "tile_ok (sm_cells st) (sm_mem st) (c, w, n, a)" using B(5) by auto
  then obtain x where x: "sm_cells st c = Some x" "payload x = (w, n, a)" "0 < a \<longrightarrow> cell_next x = 0" by (auto simp: cell_ok_def)
  have un: "c \<noteq> e" "e \<notin> tile_cells pre" "e \<notin> tile_cells post1" "c \<notin> tile_cells pre" "c \<notin> tile_cells post1"
    using B(4) post by (auto simp: tile_cells_def)
  have rs: "e \<in> set rs" "c \<in> set rs \<longleftrightarrow> a = 0"
    using B(8) post un unused_cells_sub [of pre] unused_cells_sub [of post1] by auto
  then have link: "cell_next y \<noteq> 0" "cell_prev y \<noteq> 0" "c \<in> set rs \<longleftrightarrow> cell_next x \<noteq> 0"
    using ring_linked [OF B(6), of e] ring_linked [OF B(6), of c] y(1) x by auto
  let ?C1 = "(sm_cells st)(e \<mapsto> y\<lparr>cell_n_words := n1 + n, cell_words := w\<rparr>)" and ?M = "guard_put e w (n + n1) (sm_mem st)"
  have "ring ?C1 rs" using ring_cong [of rs "sm_cells st" ?C1] B(6) y(1) by (auto simp: same_links_def)
  from unlink_if [OF this B(7), of c x st] link(3) x(1) un(1)
  obtain C2 rs' where u: "(if cell_next x \<noteq> 0 then sec_unlink b c (st\<lparr>sm_cells := ?C1\<rparr>) else Some (b, st\<lparr>sm_cells := ?C1\<rparr>))
      = Some (b\<lparr>block_unused := ring_head rs'\<rparr>, st\<lparr>sm_cells := C2\<rparr>)" "relinked (set rs) ?C1 C2" "ring C2 rs'" "set rs' = set rs - {c}"
    by auto
  let ?C = "C2(c := None)" and ?b = "b\<lparr>block_unused := ring_head rs'\<rparr>"
  let ?st = "st\<lparr>sm_cells := C2, sm_mem := ?M\<rparr>"
  have el: "set rs \<inter> tile_cells pre \<subseteq> unused_cells pre" "set rs \<inter> tile_cells post1 \<subseteq> unused_cells post1"
    using unused_elsewhere [OF B(4) [unfolded xs]] unfolding B(8) xs by simp_all
  have "kept pre (sm_cells st) ?C" "kept post1 (sm_cells st) ?C"
    using el un by (intro kept_upd kept_trans [OF kept_relinked [OF u(2)]]; auto)+
  moreover have "map_option payload (C2 e) = Some (w, n + n1, 0)" using u(2) y by (simp add: relinked_def payload_def)
  then obtain z where z: "C2 e = Some z" "payload z = (w, n + n1, 0)" by auto
  then have "cell_ok ?C e w (n + n1) 0" using un(1) by (simp add: cell_ok_def)
  ultimately have rep: "span w (8 * (n + n1)) \<subseteq> dom (sm_mem st) \<and> dom ?M = dom (sm_mem st)
    \<and> tiles_ok ?C ?M b (pre @ (e, w, n + n1, 0) # post1) \<and> held ?M pre = held (sm_mem st) pre
    \<and> held ?M post1 = held (sm_mem st) post1 \<and> (\<forall>x. x \<notin> {block_words b..<block_end b} \<longrightarrow> ?M x = sm_mem st x)
    \<and> (\<forall>x \<in> span (w + 8) (8 * (n - 2)) \<union> span (w1 + 8) (8 * (n1 - 2)). ?M x = sm_mem st x)"
    using e(4) by (intro join_tiles [OF A(1) [unfolded xs]]) simp_all
  have g: "sec_write_guards e (st\<lparr>sm_cells := C2\<rparr>) = Some ?st"
    using sec_write_guards_ok [of "st\<lparr>sm_cells := C2\<rparr>" e z w "n + n1" 0] z rep e(1) by simp
  have meta: "meta_ok taken ?st (V \<union> tile_cells (pre @ (c, w, n, a) # post))" using A(2) rep by (simp add: meta_ok_def)
  from pool_free_ok [OF meta, of c] obtain pools wd where f: "pool_free os c ?st
      = Some (?st\<lparr>sm_pools := pools, sm_world := wd, sm_cells := ?C\<rparr>)"
    "meta_ok taken (?st\<lparr>sm_pools := pools, sm_world := wd\<rparr>) (V \<union> tile_cells (pre @ (c, w, n, a) # post) - {c})"
    by auto
  let ?st' = "?st\<lparr>sm_pools := pools, sm_world := wd, sm_cells := ?C\<rparr>"
  have "set_cell e (\<lambda>y. y\<lparr>cell_n_words := cell_n_words y + cell_n_words x, cell_words := cell_words x\<rparr>) st = Some (st\<lparr>sm_cells := ?C1\<rparr>)"
    using x y by (simp add: set_cell_def upd_cell_def payload_def)
  then have run: "sec_merge_after os b c st = Some (e, ?b, ?st')"
    using e y x(1) link u(1) g f(1) by (simp add: sec_merge_after_def payload_def split del: if_split)
  have "c \<notin> set rs'" using u(4) by simp
  then have "same_links (set rs') C2 ?C" by (auto simp: same_links_def)
  then have ring: "ring ?C rs'" using ring_cong u(3) by blast
  have "set rs' = unused_cells (pre @ (e, w, n + n1, 0) # post1)"
    using u(4) B(8) post un unused_cells_sub [of pre] unused_cells_sub [of post1] by auto
  moreover have "V \<union> tile_cells (pre @ (c, w, n, a) # post) - {c} = V \<union> tile_cells (pre @ (e, w, n + n1, 0) # post1)"
    using post un A(3) by auto
  then have "meta_ok taken ?st' (V \<union> tile_cells (pre @ (e, w, n + n1, 0) # post1))" using f(2) by (simp add: meta_ok_def)
  ultimately have "arena taken V ?st' ?b (pre @ (e, w, n + n1, 0) # post1) rs'"
    using rep ring A(3) post by (intro arenaI) simp_all
  moreover have "outside V st b ?st' ?b"
    using rep relinked_frame [OF u(2) B(8) A(3)] A(3) post un by (auto simp: outside_def)
  ultimately have "merged taken V st b pre (c, w, n, a) post e ?st' ?b pre (e, w, n + n1, 0) post1 rs'"
    using rep post by (auto simp: merged_def held_tile_simps)
  with run show ?thesis by blast
qed

end

text \<open>Writing inside of a cell.\<close>

lemma arena_write:
  assumes ar: "arena taken V st b (pre @ (c, w, n, a) # post) rs" and o: "i + length bs \<le> 8 * (n - 2)"
  defines "M' \<equiv> put (w + 8 + i) bs (sm_mem st)"
  shows "put_bytes (w + 8 + i) bs (sm_mem st) = Some M' \<and> dom M' = dom (sm_mem st)
    \<and> arena taken V (st\<lparr>sm_mem := M'\<rparr>) b (pre @ (c, w, n, a) # post) rs \<and> outside V st b (st\<lparr>sm_mem := M'\<rparr>) b
    \<and> held M' pre = held (sm_mem st) pre \<and> held M' post = held (sm_mem st) post"
proof -
  note A = arenaD [OF ar] and B = block_okD [OF arenaD(1) [OF ar]]
  have t: "tile_ok (sm_cells st) (sm_mem st) (c, w, n, a)" using B(5) by auto
  then have n: "2 \<le> n" by simp
  have s: "span (w + 8 + i) (length bs) \<subseteq> span w (8 * n)" using o n by auto
  note s' = subset_trans [OF s tile_dom [OF A(1), of c w n a]]
  have put: "put_bytes (w + 8 + i) bs (sm_mem st) = Some M'" "dom M' = dom (sm_mem st)"
    unfolding M'_def using s' put_bytes_ok dom_put by (simp_all add: s')
  have "span (w + 8 + i) (length bs) \<inter> span w 8 = {}" "span (w + 8 + i) (length bs) \<inter> span (w + 8 * (n - 1)) 8 = {}" using o n by auto
  then have "tile_ok (sm_cells st) M' (c, w, n, a)" using t unfolding M'_def by (simp add: load_put_other)
  moreover have "M' x = sm_mem st x" if "x \<notin> {w..<w + 8 * n}" for x unfolding M'_def using s that by (intro put_other) blast
  ultimately have "tiles_ok (sm_cells st) M' b (pre @ [(c, w, n, a)] @ post) \<and> held M' pre = held (sm_mem st) pre
    \<and> held M' post = held (sm_mem st) post \<and> (\<forall>x. x \<notin> {block_words b..<block_end b} \<longrightarrow> M' x = sm_mem st x)"
    using A(1) n put(2) unused_distinct [OF B(4)] B(4)
    by (intro tiles_replace [where C = "sm_cells st" and mid = "[(c, w, n, a)]" and lo = w and hi = "w + 8 * n"])
       (auto simp: block_ok_tiles intro: keptI)
  then show ?thesis using put A B by (auto simp: arena_def block_ok_tiles meta_ok_def outside_def)
qed

lemma outside_trans: "outside V st b st1 b1 \<Longrightarrow> outside V st1 b1 st2 b2 \<Longrightarrow> outside V st b st2 b2"
  by (auto simp: outside_def block_end_def)

lemma sec_lookup_ok:
  assumes ar: "arena taken V st b (pre @ (c, w, n, a) # post) rs"
  shows "sec_lookup b (w + 8) st = Some c" and "sec_check_guards c st = Some ()"
proof -
  note A = arenaD [OF ar] and B = block_okD [OF arenaD(1) [OF ar]]
  have t: "tile_ok (sm_cells st) (sm_mem st) (c, w, n, a)" using B(5) by auto
  then show "sec_check_guards c st = Some ()" by (rule sec_check_guards_ok)
  have "block_words b \<le> w" "w + 8 * n \<le> block_end b" using tiled_area [OF B(1), of c w n a] by auto
  moreover have "pool_valid (sm_pools st) c" using A(2) pool_valid_ok [of _ "sm_pools st" _ c] by (fastforce simp: meta_ok_def)
  ultimately show "sec_lookup b (w + 8) st = Some c"
    using t by (simp add: sec_lookup_def sec_is_valid_word_def block_end_def)
qed

text \<open>The end of \<^verbatim>\<open>sec_free\<close>: the cell joins the ring.\<close>

lemma insert_if:
  assumes ar: "arena taken V st b (pre @ (c, w, n, a) # post) rs" and x: "sm_cells st c = Some x"
  shows "\<exists>C' rs'. (if cell_next x = 0 then do {
        (ring, C) \<leftarrow> sec_insert_cell_ring (block_unused b) c (sm_cells st);
        Some (b\<lparr>block_unused := ring\<rparr>, st\<lparr>sm_cells := C\<rparr>) }
      else Some (b, st)) = Some (b\<lparr>block_unused := ring_head rs'\<rparr>, st\<lparr>sm_cells := C'\<rparr>)
    \<and> relinked (insert c (set rs)) (sm_cells st) C' \<and> ring C' rs' \<and> set rs' = insert c (set rs)"
proof -
  note B = block_okD [OF arenaD(1) [OF ar]]
  have t: "tile_ok (sm_cells st) (sm_mem st) (c, w, n, a)" using B(5) by auto
  have c: "c \<in> set rs \<longleftrightarrow> a = 0" using B(8) unused_distinct [OF B(4)] by auto
  show ?thesis
  proof (cases "a = 0")
    case True
    then have "cell_next x \<noteq> 0" using ring_linked [OF B(6), of c] c x by auto
    with c True B(6) show ?thesis
      by (intro exI [of _ "sm_cells st"] exI [of _ rs]) (auto simp flip: B(7))
  next
    case False
    then have "cell_next x = 0" "cell_prev x = 0" using t x by (auto simp: cell_ok_def)
    moreover have "c \<noteq> 0" using arena_cell_bounds [OF ar, of c] by simp
    ultimately obtain C' where "sec_insert_cell_ring (ring_head rs) c (sm_cells st) = Some (c, C')" "ring C' (c # rotate1 rs)"
      "relinked (insert c (set rs)) (sm_cells st) C'" using sec_insert_cell_ring_ok [OF B(6), of c x] c False x by auto
    with B(7) \<open>cell_next x = 0\<close> show ?thesis by (intro exI [of _ C'] exI [of _ "c # rotate1 rs"]) auto
  qed
qed

context secure_os
begin

lemma sec_free_end:
  assumes ar: "arena taken V st b (pre @ (c, w, n, a) # post) rs" and x: "sm_cells st c = Some x"
    and i: "relinked (insert c (set rs)) (sm_cells st) C'" "ring C' rs'" "set rs' = insert c (set rs)"
  shows "\<exists>z. C' c = Some z \<and> arena taken V (st\<lparr>sm_cells := C'(c \<mapsto> z\<lparr>cell_allocated := 0\<rparr>)\<rparr>)
      (b\<lparr>block_unused := ring_head rs', block_used := u\<rparr>) (pre @ (c, w, n, 0) # post) rs'
    \<and> outside V st b (st\<lparr>sm_cells := C'(c \<mapsto> z\<lparr>cell_allocated := 0\<rparr>)\<rparr>) (b\<lparr>block_unused := ring_head rs', block_used := u\<rparr>)"
proof -
  note A = arenaD [OF ar] and B = block_okD [OF arenaD(1) [OF ar]]
  have t: "tile_ok (sm_cells st) (sm_mem st) (c, w, n, a)" using B(5) by auto
  then have "map_option payload (C' c) = Some (w, n, a)" using i(1) x by (auto simp: relinked_def cell_ok_def)
  then obtain z where z: "C' c = Some z" "payload z = (w, n, a)" by auto
  let ?C = "C'(c \<mapsto> z\<lparr>cell_allocated := 0\<rparr>)"
  note un = unused_distinct [OF B(4)]
  have el: "insert c (set rs) \<inter> tile_cells pre \<subseteq> unused_cells pre" "insert c (set rs) \<inter> tile_cells post \<subseteq> unused_cells post"
    using unused_elsewhere [of pre "[(c, w, n, a)]" post] B(4,8) un by auto
  have kept: "kept pre (sm_cells st) ?C" "kept post (sm_cells st) ?C"
    using un el by (intro kept_upd kept_relinked [OF i(1)]; simp)+
  have "tile_ok ?C (sm_mem st) (c, w, n, 0)" using t z by (simp add: cell_ok_def payload_def)
  then have rep: "tiles_ok ?C (sm_mem st) b (pre @ [(c, w, n, 0)] @ post) \<and> held (sm_mem st) pre = held (sm_mem st) pre
    \<and> held (sm_mem st) post = held (sm_mem st) post \<and> (\<forall>x. x \<notin> {block_words b..<block_end b} \<longrightarrow> sm_mem st x = sm_mem st x)"
    using A(1) t un kept
    by (intro tiles_replace [where C = "sm_cells st" and mid = "[(c, w, n, a)]" and lo = w and hi = "w + 8 * n"])
       (auto simp: block_ok_tiles)
  have "same_links (set rs') C' ?C" using z by (auto simp: same_links_def)
  then have "ring ?C rs'" using ring_cong i(2) by blast
  moreover have "set rs' = unused_cells (pre @ (c, w, n, 0) # post)" using i(3) B(8) by auto
  ultimately have "arena taken V (st\<lparr>sm_cells := ?C\<rparr>) (b\<lparr>block_unused := ring_head rs', block_used := u\<rparr>) (pre @ (c, w, n, 0) # post) rs'"
    using rep A(2,3) by (auto simp: arena_def block_ok_tiles tiles_ok_def block_end_def)
  moreover have "\<forall>d \<in> V. ?C d = sm_cells st d"
  proof
    fix d assume "d \<in> V"
    then have "d \<notin> insert c (set rs)" using A(3) B(8) unused_cells_sub [of "pre @ (c, w, n, a) # post"] by auto
    then show "?C d = sm_cells st d" using i(1) by (auto simp: relinked_def)
  qed
  ultimately show ?thesis using z(1) by (auto simp: outside_def)
qed

lemma sec_free_ok:
  assumes ar: "arena taken V st b (pre @ (c, w, n, a) # post) rs" and a: "0 < a"
  shows "\<exists>b' st' xs' rs'. sec_free os b (w + 8) st = Some (b', st') \<and> arena taken V st' b' xs' rs' \<and> outside V st b st' b'
    \<and> block_used b' = block_used b - 1 \<and> used_count xs' = used_count pre + used_count post
    \<and> held (sm_mem st') xs' = held (sm_mem st) pre \<union> held (sm_mem st) post \<and> (\<forall>x \<in> span (w + 8) a. sm_mem st' x = Some 0)"
proof -
  note B = block_okD [OF arenaD(1) [OF ar]]
  have t: "tile_ok (sm_cells st) (sm_mem st) (c, w, n, a)" using B(5) by auto
  then obtain x where x: "sm_cells st c = Some x" "payload x = (w, n, a)" "cell_next x = 0" "cell_prev x = 0" using a by (auto simp: cell_ok_def)
  let ?M = "put (w + 8) (replicate a 0) (sm_mem st)" let ?st1 = "st\<lparr>sm_mem := ?M\<rparr>"
  have 1: "put_bytes (w + 8) (replicate a 0) (sm_mem st) = Some ?M" "arena taken V ?st1 b (pre @ (c, w, n, a) # post) rs"
    "outside V st b ?st1 b" "held ?M pre = held (sm_mem st) pre" "held ?M post = held (sm_mem st) post"
    using arena_write [OF ar, of 0 "replicate a 0"] t by auto
  obtain c2 st2 pre2 t2 where 2: "sec_merge_before os b c ?st1 = Some (c2, st2)" "merged taken V ?st1 b pre (c, w, n, a) post c2 st2 b pre2 t2 post rs"
    using sec_merge_before_ok [OF 1(2) a] by blast
  obtain w2 n2 a2 where t2: "t2 = (c2, w2, n2, a2)" using 2(2) by (cases t2) (auto simp: merged_def)
  have ar2: "arena taken V st2 b (pre2 @ (c2, w2, n2, a2) # post) rs" using 2(2) t2 by (simp add: merged_def)
  obtain c3 b3 st3 t3 post3 rs3 where 3: "sec_merge_after os b c2 st2 = Some (c3, b3, st3)"
    "merged taken V st2 b pre2 (c2, w2, n2, a2) post c3 st3 b3 pre2 t3 post3 rs3"
    using sec_merge_after_ok [OF ar2] by blast
  obtain w3 n3 a3 where t3: "t3 = (c3, w3, n3, a3)" using 3(2) by (cases t3) (auto simp: merged_def)
  have ar3: "arena taken V st3 b3 (pre2 @ (c3, w3, n3, a3) # post3) rs3" using 3(2) t3 by (simp add: merged_def)
  have "tile_ok (sm_cells st3) (sm_mem st3) (c3, w3, n3, a3)" using block_okD(5) [OF arenaD(1) [OF ar3]] by auto
  then obtain z where z: "sm_cells st3 c3 = Some z" by (auto simp: cell_ok_def)
  from insert_if [OF ar3 z] obtain C4 rs4 where 4: "(if cell_next z = 0 then do {
        (ring, C) \<leftarrow> sec_insert_cell_ring (block_unused b3) c3 (sm_cells st3);
        Some (b3\<lparr>block_unused := ring\<rparr>, st3\<lparr>sm_cells := C\<rparr>) }
      else Some (b3, st3)) = Some (b3\<lparr>block_unused := ring_head rs4\<rparr>, st3\<lparr>sm_cells := C4\<rparr>)"
    and i: "relinked (insert c3 (set rs3)) (sm_cells st3) C4" "ring C4 rs4" "set rs4 = insert c3 (set rs3)" by blast
  from sec_free_end [OF ar3 z i, of "block_used b3 - 1"] obtain z4 where 5: "C4 c3 = Some z4"
    "arena taken V (st3\<lparr>sm_cells := C4(c3 \<mapsto> z4\<lparr>cell_allocated := 0\<rparr>)\<rparr>) (b3\<lparr>block_unused := ring_head rs4, block_used := block_used b3 - 1\<rparr>)
      (pre2 @ (c3, w3, n3, 0) # post3) rs4"
    "outside V st3 b3 (st3\<lparr>sm_cells := C4(c3 \<mapsto> z4\<lparr>cell_allocated := 0\<rparr>)\<rparr>) (b3\<lparr>block_unused := ring_head rs4, block_used := block_used b3 - 1\<rparr>)"
    by blast
  let ?b = "b3\<lparr>block_unused := ring_head rs4, block_used := block_used b3 - 1\<rparr>"
  let ?st = "st3\<lparr>sm_cells := C4(c3 \<mapsto> z4\<lparr>cell_allocated := 0\<rparr>)\<rparr>"
  have run: "sec_free os b (w + 8) st = Some (?b, ?st)"
    using sec_lookup_ok [OF ar] sec_lookup_ok(2) [OF 1(2)] x a 1(1) 2(1) 3(1) z 4 5(1)
    by (simp add: sec_free_def sec_clear_memory_def set_cell_def upd_cell_def payload_def split del: if_split)
  have n2: "w2 \<le> w" "w + 8 * n \<le> w2 + 8 * n2" "\<forall>x \<in> span (w + 8) (8 * (n - 2)). sm_mem st2 x = ?M x"
    "\<forall>x \<in> span (w2 + 8) (8 * (n2 - 2)). sm_mem st3 x = sm_mem st2 x"
    using 2(2) 3(2) t2 t3 by (simp_all add: merged_def)
  have "sm_mem st3 x = Some 0" if x: "x \<in> span (w + 8) a" for x
  proof -
    have "x \<in> span (w + 8) (8 * (n - 2))" "x \<in> span (w2 + 8) (8 * (n2 - 2))" using x t n2(1,2) by auto
    then have "sm_mem st3 x = ?M x" using n2(3,4) by auto
    moreover have "x - (w + 8) < a" using x by auto
    ultimately show ?thesis using x by (simp add: put_def)
  qed
  moreover have "held (sm_mem st3) (pre2 @ (c3, w3, n3, 0) # post3) = held (sm_mem st) pre \<union> held (sm_mem st) post"
    "used_count (pre2 @ (c3, w3, n3, 0) # post3) = used_count pre + used_count post" "block_used b3 = block_used b"
    using 1(4,5) 2(2) 3(2) by (simp_all add: merged_def held_tile_simps)
  moreover have "outside V st b ?st ?b"
    using outside_trans [OF 1(3)] outside_trans [of V ?st1 b st2 b] outside_trans [of V ?st1 b st3 b3] 2(2) 3(2) 5(3)
    unfolding merged_def by blast
  ultimately show ?thesis using run 5(2) by (intro exI [of _ ?b] exI [of _ ?st] exI [of _ "pre2 @ (c3, w3, n3, 0) # post3"] exI [of _ rs4]) simp
qed

end

section \<open>Reallocation\<close>

definition grown :: "('w \<Rightarrow> nat set) \<Rightarrow> nat set \<Rightarrow> 'w Secure \<Rightarrow> Block \<Rightarrow> tile list \<Rightarrow> tile \<Rightarrow> tile list \<Rightarrow> 'w Secure \<Rightarrow> Block \<Rightarrow> nat \<Rightarrow> tile list
    \<Rightarrow> nat list \<Rightarrow> bool" where
  "grown taken V st b pre t post st' b' n' post' rs' \<longleftrightarrow> (case t of (c, w, n, a) \<Rightarrow> arena taken V st' b' (pre @ (c, w, n', a) # post') rs'
     \<and> outside V st b st' b' \<and> block_used b' = block_used b
     \<and> held (sm_mem st') pre = held (sm_mem st) pre \<and> held (sm_mem st') post' = held (sm_mem st) post
     \<and> used_count post' = used_count post \<and> n \<le> n' \<and> (\<forall>x \<in> span (w + 8) (8 * (n - 2)). sm_mem st' x = sm_mem st x))"

lemma grown_refl: "arena taken V st b (pre @ (c, w, n, a) # post) rs \<Longrightarrow> grown taken V st b pre (c, w, n, a) post st b n post rs"
  by (simp add: grown_def outside_def)

lemma grown_trans:
  assumes "grown taken V st b pre (c, w, n, a) post st1 b1 n1 post1 rs1" and "grown taken V st1 b1 pre (c, w, n1, a) post1 st2 b2 n2 post2 rs2"
  shows "grown taken V st b pre (c, w, n, a) post st2 b2 n2 post2 rs2"
proof -
  have 1: "outside V st b st1 b1" "n \<le> n1" "\<forall>x \<in> span (w + 8) (8 * (n - 2)). sm_mem st1 x = sm_mem st x"
    and 2: "outside V st1 b1 st2 b2" "\<forall>x \<in> span (w + 8) (8 * (n1 - 2)). sm_mem st2 x = sm_mem st1 x"
    using assms by (simp_all add: grown_def)
  have "\<forall>x \<in> span (w + 8) (8 * (n - 2)). sm_mem st2 x = sm_mem st x"
  proof
    fix x assume x: "x \<in> span (w + 8) (8 * (n - 2))"
    moreover have "x \<in> span (w + 8) (8 * (n1 - 2))" using x 1(2) by auto
    ultimately show "sm_mem st2 x = sm_mem st x" using bspec [OF 1(3)] bspec [OF 2(2)] by simp
  qed
  with assms outside_trans [OF 1(1) 2(1)] show ?thesis by (simp add: grown_def)
qed

context secure_os
begin

lemma sec_eat_ok:
  assumes ar: "arena taken V st b (pre @ (c, w, n, a) # (e, w1, n1, 0) # post) rs" and a: "0 < a"
  shows "\<exists>b' st' rs' st1 st2 st3. set_cell c (\<lambda>x. x\<lparr>cell_n_words := cell_n_words x + n1\<rparr>) st = Some st1 \<and> sec_write_guards c st1 = Some st2
    \<and> sec_unlink b e st2 = Some (b', st3) \<and> pool_free os e st3 = Some st'
    \<and> grown taken V st b pre (c, w, n, a) ((e, w1, n1, 0) # post) st' b' (n + n1) post rs'"
proof -
  note A = arenaD [OF ar] and B = block_okD [OF arenaD(1) [OF ar]]
  have xs: "pre @ (c, w, n, a) # (e, w1, n1, 0) # post = pre @ [(c, w, n, a), (e, w1, n1, 0)] @ post" by simp
  have cok: "tile_ok (sm_cells st) (sm_mem st) (c, w, n, a)" using B(5) by auto
  then obtain x where x: "sm_cells st c = Some x" "payload x = (w, n, a)" "cell_next x = 0" "cell_prev x = 0" "2 \<le> n" "a \<le> 8 * (n - 2)"
    using a by (auto simp: cell_ok_def)
  have un: "c \<noteq> e" "e \<notin> tile_cells pre" "e \<notin> tile_cells post" "c \<notin> tile_cells pre" "c \<notin> tile_cells post"
    using B(4) by (auto simp: tile_cells_def)
  have rs: "e \<in> set rs" "c \<notin> set rs" using B(8) a un unused_cells_sub [of pre] unused_cells_sub [of post] by auto
  have c64: "c < 2 ^ 64" using arena_cell_bounds [OF ar, of c] by simp
  let ?C1 = "(sm_cells st)(c \<mapsto> x\<lparr>cell_n_words := n + n1\<rparr>)" and ?M = "guard_put c w (n + n1) (sm_mem st)"
  have "same_links (set rs) (sm_cells st) ?C1" using rs x(1) by (auto simp: same_links_def)
  then have ring1: "ring ?C1 rs" using ring_cong B(6) by blast
  obtain us vs where us: "rs = us @ e # vs" using rs(1) by (meson split_list)
  from sec_remove_cell_ring_ok [of ?C1 us e vs] ring1 obtain C2 where u: "sec_remove_cell_ring (ring_head rs) e ?C1 = Some (ring_head (us @ vs), C2)"
    "ring C2 (us @ vs)" "relinked (set rs) ?C1 C2" unfolding us by blast
  let ?C = "C2(e := None)" and ?b = "b\<lparr>block_unused := ring_head (us @ vs)\<rparr>"
  let ?st = "st\<lparr>sm_cells := C2, sm_mem := ?M\<rparr>"
  have el: "set rs \<inter> tile_cells pre \<subseteq> unused_cells pre" "set rs \<inter> tile_cells post \<subseteq> unused_cells post"
    using unused_elsewhere [OF B(4) [unfolded xs]] unfolding B(8) xs by simp_all
  have "kept pre (sm_cells st) ?C" "kept post (sm_cells st) ?C"
    using el un by (intro kept_upd kept_trans [OF kept_relinked [OF u(3)]]; auto)+
  moreover have "C2 c = ?C1 c" using u(3) rs(2) by (auto simp: relinked_def)
  then have "cell_ok ?C c w (n + n1) a" using un(1) x by (simp add: cell_ok_def payload_def)
  ultimately have rep: "span w (8 * (n + n1)) \<subseteq> dom (sm_mem st) \<and> dom ?M = dom (sm_mem st)
    \<and> tiles_ok ?C ?M b (pre @ (c, w, n + n1, a) # post) \<and> held ?M pre = held (sm_mem st) pre
    \<and> held ?M post = held (sm_mem st) post \<and> (\<forall>x. x \<notin> {block_words b..<block_end b} \<longrightarrow> ?M x = sm_mem st x)
    \<and> (\<forall>x \<in> span (w + 8) (8 * (n - 2)) \<union> span (w1 + 8) (8 * (n1 - 2)). ?M x = sm_mem st x)"
    using c64 x(5,6) by (intro join_tiles [OF A(1) [unfolded xs]]) simp_all
  have g: "sec_write_guards c (st\<lparr>sm_cells := ?C1\<rparr>) = Some (st\<lparr>sm_cells := ?C1, sm_mem := ?M\<rparr>)"
    using sec_write_guards_ok [of "st\<lparr>sm_cells := ?C1\<rparr>" c "x\<lparr>cell_n_words := n + n1\<rparr>" w "n + n1" a] x rep by (simp add: payload_def)
  have "meta_ok taken ?st (V \<union> tile_cells (pre @ (c, w, n, a) # (e, w1, n1, 0) # post))" using A(2) rep by (simp add: meta_ok_def)
  from pool_free_ok [OF this, of e] obtain pools wd where f: "pool_free os e ?st = Some (?st\<lparr>sm_pools := pools, sm_world := wd, sm_cells := ?C\<rparr>)"
    "meta_ok taken (?st\<lparr>sm_pools := pools, sm_world := wd\<rparr>) (V \<union> tile_cells (pre @ (c, w, n, a) # (e, w1, n1, 0) # post) - {e})"
    by auto
  let ?st' = "?st\<lparr>sm_pools := pools, sm_world := wd, sm_cells := ?C\<rparr>"
  have dist: "e \<notin> set (us @ vs)" "set (us @ vs) = set rs - {e}" using B(6) us by (auto simp: ring_def)
  then have "same_links (set (us @ vs)) C2 ?C" by (auto simp: same_links_def)
  then have ring: "ring ?C (us @ vs)" using ring_cong u(2) by blast
  have "set (us @ vs) = unused_cells (pre @ (c, w, n + n1, a) # post)"
    using dist(2) B(8) un a unused_cells_sub [of pre] unused_cells_sub [of post] by auto
  moreover have "V \<union> tile_cells (pre @ (c, w, n, a) # (e, w1, n1, 0) # post) - {e} = V \<union> tile_cells (pre @ (c, w, n + n1, a) # post)"
    using un A(3) by auto
  then have "meta_ok taken ?st' (V \<union> tile_cells (pre @ (c, w, n + n1, a) # post))" using f(2) by (simp add: meta_ok_def)
  ultimately have "arena taken V ?st' ?b (pre @ (c, w, n + n1, a) # post) (us @ vs)"
    using rep ring A(3) by (intro arenaI) simp_all
  moreover have "outside V st b ?st' ?b"
    using rep relinked_frame [OF u(3) B(8) A(3)] A(3) un by (auto simp: outside_def)
  ultimately have "grown taken V st b pre (c, w, n, a) ((e, w1, n1, 0) # post) ?st' ?b (n + n1) post (us @ vs)"
    using rep by (auto simp: grown_def held_tile_simps)
  moreover have "set_cell c (\<lambda>x. x\<lparr>cell_n_words := cell_n_words x + n1\<rparr>) st = Some (st\<lparr>sm_cells := ?C1\<rparr>)"
    using x by (simp add: set_cell_def upd_cell_def payload_def)
  moreover have "sec_unlink b e (st\<lparr>sm_cells := ?C1, sm_mem := ?M\<rparr>) = Some (?b, ?st)"
    using u(1) B(7) by (simp add: sec_unlink_def)
  ultimately show ?thesis using g f(1) by blast
qed

lemma sec_steal_ok:
  assumes ar: "arena taken V st b (pre @ (c, w, n, a) # (e, w1, n1, 0) # post) rs" and a: "0 < a" and m: "n < m" "m - n + 2 \<le> n1"
  shows "\<exists>st1 st2 st3 st'. set_cell e (\<lambda>y. y\<lparr>cell_words := cell_words y + 8 * (m - n), cell_n_words := cell_n_words y - (m - n)\<rparr>) st = Some st1
    \<and> sec_write_guards e st1 = Some st2 \<and> set_cell c (\<lambda>x. x\<lparr>cell_n_words := m\<rparr>) st2 = Some st3 \<and> sec_write_guards c st3 = Some st'
    \<and> grown taken V st b pre (c, w, n, a) ((e, w1, n1, 0) # post) st' b m ((e, w1 + 8 * (m - n), n1 - (m - n), 0) # post) rs"
proof -
  note A = arenaD [OF ar] and B = block_okD [OF arenaD(1) [OF ar]]
  let ?k = "m - n"
  let ?mid = "[(c, w, n, a), (e, w1, n1, 0)]" and ?mid' = "[(c, w, m, a), (e, w1 + 8 * ?k, n1 - ?k, 0)]"
  have cok: "tile_ok (sm_cells st) (sm_mem st) (c, w, n, a)" "tile_ok (sm_cells st) (sm_mem st) (e, w1, n1, 0)" using B(5) by auto
  then obtain x y where x: "sm_cells st c = Some x" "payload x = (w, n, a)" "cell_next x = 0" "cell_prev x = 0" "2 \<le> n" "a \<le> 8 * (n - 2)"
    and y: "sm_cells st e = Some y" "payload y = (w1, n1, 0)"
    using a by (auto simp: cell_ok_def)
  have w1: "w1 = w + 8 * n" using B(1) by (simp add: tiled_append)
  have un: "c \<noteq> e" "e \<notin> tile_cells pre" "e \<notin> tile_cells post" "c \<notin> tile_cells pre" "c \<notin> tile_cells post"
    using B(4) by (auto simp: tile_cells_def)
  have c64: "c < 2 ^ 64" "e < 2 ^ 64" using arena_cell_bounds [OF ar, of c] arena_cell_bounds [OF ar, of e] by simp_all
  let ?C1 = "(sm_cells st)(e \<mapsto> y\<lparr>cell_words := w1 + 8 * ?k, cell_n_words := n1 - ?k\<rparr>)"
  let ?C = "?C1(c \<mapsto> x\<lparr>cell_n_words := m\<rparr>)"
  let ?M1 = "guard_put e (w1 + 8 * ?k) (n1 - ?k) (sm_mem st)"
  let ?M = "guard_put c w m ?M1"
  have "span w (8 * n) \<subseteq> dom (sm_mem st)" "span w1 (8 * n1) \<subseteq> dom (sm_mem st)"
    using tile_dom [OF A(1), of c w n a] tile_dom [OF A(1), of e w1 n1 0] by simp_all
  moreover have "span w (8 * (n + n1)) = span w (8 * n) \<union> span w1 (8 * n1)" using w1 by auto
  ultimately have dom: "span w (8 * (n + n1)) \<subseteq> dom (sm_mem st)" by simp
  have s: "span (w1 + 8 * ?k) (8 * (n1 - ?k)) \<subseteq> span w (8 * (n + n1))" "span w (8 * m) \<subseteq> span w (8 * (n + n1))" using m w1 by auto
  have n2: "2 \<le> n1 - ?k" "2 \<le> m" using m x(5) by auto
  have dom1: "dom ?M1 = dom (sm_mem st)" using subset_trans [OF s(1) dom] n2(1) by (rule dom_guard_put)
  have domM: "dom ?M = dom (sm_mem st)" using dom_guard_put [of w m ?M1 c] subset_trans [OF s(2) dom] n2(2) dom1 by simp
  have g1: "sec_write_guards e (st\<lparr>sm_cells := ?C1\<rparr>) = Some (st\<lparr>sm_cells := ?C1, sm_mem := ?M1\<rparr>)"
    using sec_write_guards_ok [of "st\<lparr>sm_cells := ?C1\<rparr>" e "y\<lparr>cell_words := w1 + 8 * ?k, cell_n_words := n1 - ?k\<rparr>" "w1 + 8 * ?k" "n1 - ?k" 0]
      y n2 subset_trans [OF s(1) dom] by (simp add: payload_def)
  have g2: "sec_write_guards c (st\<lparr>sm_cells := ?C, sm_mem := ?M1\<rparr>) = Some (st\<lparr>sm_cells := ?C, sm_mem := ?M\<rparr>)"
    using sec_write_guards_ok [of "st\<lparr>sm_cells := ?C, sm_mem := ?M1\<rparr>" c "x\<lparr>cell_n_words := m\<rparr>" w m a]
      x n2 subset_trans [OF s(2) dom] dom1 by (simp add: payload_def)
  have apart: "span w (8 * m) \<inter> span (w1 + 8 * ?k) 8 = {}" "span w (8 * m) \<inter> span (w1 + 8 * ?k + 8 * (n1 - ?k - 1)) 8 = {}"
    using m w1 by auto
  have t1: "tile_ok ?C ?M (c, w, m, a)"
    using guard_put_load [OF c64(1) n2(2)] x m n2 by (simp add: cell_ok_def payload_def)
  have t2: "tile_ok ?C ?M (e, w1 + 8 * ?k, n1 - ?k, 0)"
    using guard_put_load [OF c64(2) n2(1)] load_guard_other [OF apart(1) n2(2)] load_guard_other [OF apart(2) n2(2)] y un(1) n2(1)
    by (simp add: cell_ok_def payload_def)
  have M': "?M u = sm_mem st u" if u: "u \<notin> span w 8" "u \<notin> span (w + 8 * (m - 1)) 8" "u \<notin> span (w1 + 8 * ?k) (8 * (n1 - ?k))" for u
  proof -
    have "?M u = ?M1 u" using u(1,2) by (rule guard_put_other)
    also have "\<dots> = sm_mem st u" using u(3) guard_area [OF n2(1), of "w1 + 8 * ?k"] by (intro guard_put_other) blast+
    finally show ?thesis .
  qed
  have rep: "tiles_ok ?C ?M b (pre @ ?mid' @ post) \<and> held ?M pre = held (sm_mem st) pre
    \<and> held ?M post = held (sm_mem st) post \<and> (\<forall>x. x \<notin> {block_words b..<block_end b} \<longrightarrow> ?M x = sm_mem st x)"
  proof (rule tiles_replace [where C = "sm_cells st" and mid = ?mid and lo = w and hi = "w + 8 * (n + n1)"])
    show "tiles_ok (sm_cells st) (sm_mem st) b (pre @ ?mid @ post)" using A(1) by (simp add: block_ok_tiles)
    show "tiled w ?mid (w + 8 * (n + n1))" "tiled w ?mid' (w + 8 * (n + n1))" using w1 x(5) cok(2) m n2 by auto
    show "?M u = sm_mem st u" if "u \<notin> {w..<w + 8 * (n + n1)}" for u
      using that s guard_area [OF n2(2), of w] by (intro M') blast+
    show "\<forall>t \<in> set ?mid'. tile_ok ?C ?M t" using t1 t2 by simp
  qed (use un domM in \<open>auto intro: keptI\<close>)
  have "c \<notin> set rs" using B(8) a un unused_cells_sub [of pre] unused_cells_sub [of post] by auto
  then have "same_links (set rs) (sm_cells st) ?C" using y by (auto simp: same_links_def)
  then have "ring ?C rs" using ring_cong B(6) by blast
  then have "arena taken V (st\<lparr>sm_cells := ?C, sm_mem := ?M\<rparr>) b (pre @ ?mid' @ post) rs"
    using rep A B(7,8) a domM by (auto simp: arena_def block_ok_tiles meta_ok_def)
  moreover have "outside V st b (st\<lparr>sm_cells := ?C, sm_mem := ?M\<rparr>) b" using rep A(3) un by (auto simp: outside_def)
  moreover have "\<forall>u \<in> span (w + 8) (8 * (n - 2)). ?M u = sm_mem st u" using m w1 x(5) by (intro ballI M') auto
  ultimately have "grown taken V st b pre (c, w, n, a) ((e, w1, n1, 0) # post) (st\<lparr>sm_cells := ?C, sm_mem := ?M\<rparr>) b m
      ((e, w1 + 8 * ?k, n1 - ?k, 0) # post) rs"
    using rep m by (auto simp: grown_def held_tile_simps)
  moreover have "set_cell e (\<lambda>y. y\<lparr>cell_words := cell_words y + 8 * ?k, cell_n_words := cell_n_words y - ?k\<rparr>) st = Some (st\<lparr>sm_cells := ?C1\<rparr>)"
    "set_cell c (\<lambda>x. x\<lparr>cell_n_words := m\<rparr>) (st\<lparr>sm_cells := ?C1, sm_mem := ?M1\<rparr>) = Some (st\<lparr>sm_cells := ?C, sm_mem := ?M1\<rparr>)"
    using x y un(1) by (simp_all add: set_cell_def upd_cell_def payload_def)
  ultimately show ?thesis using g1 g2 by blast
qed

end

context secure_os
begin

lemma sec_grow_ok:
  assumes "arena taken V st b (pre @ (c, w, n, a) # post) rs" and "0 < a"
  shows "\<exists>b' st' n' post' rs'. sec_grow os c m b st = Some (b', st') \<and> grown taken V st b pre (c, w, n, a) post st' b' n' post' rs'"
  using assms
proof (induction "length post" arbitrary: st b n post rs rule: less_induct)
  case less
  note ar = less.prems(1)
  note B = block_okD [OF arenaD(1) [OF ar]]
  have "tile_ok (sm_cells st) (sm_mem st) (c, w, n, a)" using B(5) by auto
  then obtain x where x: "sm_cells st c = Some x" "cell_n_words x = n" by (rule tile_okE) blast
  note G = sec_grow.simps [of os c m b st]
  show ?case
  proof (cases "n < m \<and> (\<exists>e w1 n1 post1. post = (e, w1, n1, 0) # post1)")
    case False
    have "sec_grow os c m b st = Some (b, st)"
    proof (cases "n < m \<and> post \<noteq> []")
      case True
      with False obtain e w1 n1 a1 post1 where post: "post = (e, w1, n1, a1) # post1" "a1 \<noteq> 0" by (cases post) auto
      have "tile_ok (sm_cells st) (sm_mem st) (e, w1, n1, a1)" "e \<noteq> 0" using B(5) post arena_cell_bounds [OF ar, of e] by auto
      then show ?thesis using True x neighbor_after [OF ar] post by (auto simp: G cell_ok_def payload_def)
    qed (use x neighbor_after [OF ar] in \<open>auto simp: G\<close>)
    with grown_refl [OF ar] show ?thesis by blast
  next
    case True
    then obtain e w1 n1 post1 where post: "post = (e, w1, n1, 0) # post1" and lt: "n < m" by blast
    have "tile_ok (sm_cells st) (sm_mem st) (e, w1, n1, 0)" using B(5) post by auto
    then obtain y where y: "sm_cells st e = Some y" "cell_allocated y = 0" "cell_n_words y = n1" by (rule tile_okE) blast
    have e: "e \<noteq> 0" "sec_neighbor_after b c st = Some e" using arena_cell_bounds [OF ar, of e] neighbor_after [OF ar] post by auto
    show ?thesis
    proof (cases "n1 \<le> m - n + WASTE")
      case True
      from sec_eat_ok [OF ar [unfolded post] less.prems(2)] obtain b1 st1 rs1 s1 s2 s3
        where s: "set_cell c (\<lambda>x. x\<lparr>cell_n_words := cell_n_words x + n1\<rparr>) st = Some s1" "sec_write_guards c s1 = Some s2"
          "sec_unlink b e s2 = Some (b1, s3)" "pool_free os e s3 = Some st1"
        and g: "grown taken V st b pre (c, w, n, a) post st1 b1 (n + n1) post1 rs1" unfolding post by blast
      have "sec_grow os c m b st = sec_grow os c m b1 st1" using x lt e y True s by (simp add: G)
      moreover have "arena taken V st1 b1 (pre @ (c, w, n + n1, a) # post1) rs1" using g by (simp add: grown_def)
      from less.hyps [OF _ this less.prems(2)] obtain b' st' n' post' rs' where "sec_grow os c m b1 st1 = Some (b', st')"
        "grown taken V st1 b1 pre (c, w, n + n1, a) post1 st' b' n' post' rs'" using post by auto
      ultimately show ?thesis using grown_trans [OF g] by metis
    next
      case False
      then have k: "m - n + 2 \<le> n1" by (simp add: WASTE_def)
      from sec_steal_ok [OF ar [unfolded post] less.prems(2) lt k] obtain s1 s2 s3 st'
        where s: "set_cell e (\<lambda>y. y\<lparr>cell_words := cell_words y + 8 * (m - n), cell_n_words := cell_n_words y - (m - n)\<rparr>) st = Some s1"
          "sec_write_guards e s1 = Some s2" "set_cell c (\<lambda>x. x\<lparr>cell_n_words := m\<rparr>) s2 = Some s3" "sec_write_guards c s3 = Some st'"
        and g: "grown taken V st b pre (c, w, n, a) post st' b m ((e, w1 + 8 * (m - n), n1 - (m - n), 0) # post1) rs" unfolding post by blast
      have "tile_ok (sm_cells st') (sm_mem st') (c, w, m, a)" using g by (auto simp: grown_def arena_def block_ok_def)
      then obtain x' where "sm_cells st' c = Some x'" "cell_n_words x' = m" by (rule tile_okE) blast
      then have "sec_grow os c m b st' = Some (b, st')" by (simp add: sec_grow.simps [of os c m b st'])
      moreover have "sec_grow os c m b st = sec_grow os c m b st'" using x lt e y False s by (simp add: G)
      ultimately show ?thesis using g by auto
    qed
  qed
qed

end

text \<open>The operations in terms of what the block holds.\<close>

lemma held_split:
  assumes t: "tiled lo xs hi" and p: "(p, bs) \<in> held M xs"
  obtains pre c w n post where "xs = pre @ (c, w, n, length bs) # post" and "p = w + 8" and "0 < length bs" and "get_bytes M p (length bs) = Some bs"
    and "held M pre \<union> held M post = held M xs - {(p, bs)}" and "p \<notin> fst ` (held M pre \<union> held M post)" and "held M xs = insert (p, bs) (held M pre \<union> held M post)"
proof -
  from p obtain c w n a where x: "(c, w, n, a) \<in> set xs" "p = w + 8" "0 < a" "get_bytes M (w + 8) a = Some bs"
    by (auto simp: held_def split: if_splits)
  from x(1) obtain pre post where xs: "xs = pre @ (c, w, n, a) # post" by (meson split_list)
  have a: "a = length bs" using x(4) by (simp add: get_bytes_Some)
  have fresh: "p \<notin> fst ` (held M pre \<union> held M post)" using held_fresh [OF t [unfolded xs]] x(2) by simp
  have all: "held M xs = insert (p, bs) (held M pre \<union> held M post)" using xs x by (auto simp: held_tile_simps)
  moreover have "(p, bs) \<notin> held M pre \<union> held M post" using fresh by force
  ultimately have "held M pre \<union> held M post = held M xs - {(p, bs)}" by auto
  with that xs x a fresh all show thesis by simp
qed

lemma held_unique: "tiled lo xs hi \<Longrightarrow> (p, bs) \<in> held M xs \<Longrightarrow> (p, bs') \<in> held M xs \<Longrightarrow> bs' = bs"
proof (rule ccontr)
  assume t: "tiled lo xs hi" and p: "(p, bs) \<in> held M xs" "(p, bs') \<in> held M xs" "bs' \<noteq> bs"
  from held_split [OF t p(1)] obtain H where "p \<notin> fst ` H" "held M xs = insert (p, bs) H" by metis
  with p(2,3) show False by force
qed

lemma used_count_split [simp]: "0 < a \<Longrightarrow> used_count (pre @ (c, w, n, a) # post) = used_count pre + used_count post + 1"
  by simp

lemma write_held:
  assumes ar: "arena taken V st b xs rs" and p: "(p, bs) \<in> held (sm_mem st) xs" and i: "i + length ds \<le> length bs"
  shows "\<exists>M'. put_bytes (p + i) ds (sm_mem st) = Some M' \<and> arena taken V (st\<lparr>sm_mem := M'\<rparr>) b xs rs \<and> outside V st b (st\<lparr>sm_mem := M'\<rparr>) b
    \<and> held M' xs = insert (p, take i bs @ ds @ drop (i + length ds) bs) (held (sm_mem st) xs - {(p, bs)})"
proof -
  note B = block_okD [OF arenaD(1) [OF ar]]
  from held_split [OF B(1) p] obtain pre c w n post where x: "xs = pre @ (c, w, n, length bs) # post" "p = w + 8" "0 < length bs"
    "get_bytes (sm_mem st) p (length bs) = Some bs" "held (sm_mem st) pre \<union> held (sm_mem st) post = held (sm_mem st) xs - {(p, bs)}" by metis
  let ?M = "put (w + 8 + i) ds (sm_mem st)" and ?bs = "take i bs @ ds @ drop (i + length ds) bs"
  have "tile_ok (sm_cells st) (sm_mem st) (c, w, n, length bs)" using B(5) x(1) by auto
  then have "i + length ds \<le> 8 * (n - 2)" using i by simp
  note wr = arena_write [OF ar [unfolded x(1)] this]
  have "get_bytes ?M (w + 8) (length bs) = Some ?bs"
    using x(2,4) i by (auto simp: get_bytes_Some put_def nth_append)
  then have "held ?M xs = insert (p, ?bs) (held (sm_mem st) pre \<union> held (sm_mem st) post)"
    using x(1,2,3) wr by (auto simp: held_tile_simps)
  with wr x show ?thesis by (auto simp: add.assoc)
qed

context secure_os
begin

lemma sec_free_held:
  assumes ar: "arena taken V st b xs rs" and p: "(p, bs) \<in> held (sm_mem st) xs"
  shows "\<exists>b' st' xs' rs'. sec_free os b p st = Some (b', st') \<and> arena taken V st' b' xs' rs' \<and> outside V st b st' b'
    \<and> block_used b' = block_used b - 1 \<and> used_count xs = used_count xs' + 1
    \<and> held (sm_mem st') xs' = held (sm_mem st) xs - {(p, bs)} \<and> (\<forall>x \<in> span p (length bs). sm_mem st' x = Some 0)"
proof -
  note B = block_okD [OF arenaD(1) [OF ar]]
  from held_split [OF B(1) p] obtain pre c w n post where x: "xs = pre @ (c, w, n, length bs) # post" "p = w + 8" "0 < length bs"
    "held (sm_mem st) pre \<union> held (sm_mem st) post = held (sm_mem st) xs - {(p, bs)}" by metis
  from sec_free_ok [OF ar [unfolded x(1)] x(3)] obtain b' st' xs' rs' where f: "sec_free os b p st = Some (b', st')" "arena taken V st' b' xs' rs'"
    "outside V st b st' b'" "block_used b' = block_used b - 1" "used_count xs' = used_count pre + used_count post"
    "held (sm_mem st') xs' = held (sm_mem st) pre \<union> held (sm_mem st) post" "\<forall>x \<in> span p (length bs). sm_mem st' x = Some 0"
    unfolding x(2) by blast
  with x show ?thesis by (intro exI [of _ b'] exI [of _ st'] exI [of _ xs'] exI [of _ rs']) simp
qed

end

lemma arena_resize:
  assumes ar: "arena taken V st b (pre @ (c, w, n, a) # post) rs" and a: "0 < a" "0 < k" "k \<le> 8 * (n - 2)"
  shows "\<exists>C'. set_cell c (\<lambda>x. x\<lparr>cell_allocated := k\<rparr>) st = Some (st\<lparr>sm_cells := C'\<rparr>)
    \<and> arena taken V (st\<lparr>sm_cells := C'\<rparr>) b (pre @ (c, w, n, k) # post) rs \<and> outside V st b (st\<lparr>sm_cells := C'\<rparr>) b"
proof -
  note A = arenaD [OF ar] and B = block_okD [OF arenaD(1) [OF ar]]
  have t: "tile_ok (sm_cells st) (sm_mem st) (c, w, n, a)" using B(5) by auto
  then obtain x where x: "sm_cells st c = Some x" "payload x = (w, n, a)" "cell_next x = 0" "cell_prev x = 0" using a(1) by (auto simp: cell_ok_def)
  let ?C = "(sm_cells st)(c \<mapsto> x\<lparr>cell_allocated := k\<rparr>)"
  note un = unused_distinct [OF B(4)]
  have "tile_ok ?C (sm_mem st) (c, w, n, k)" using t x a(3) by (simp add: cell_ok_def payload_def)
  then have rep: "tiles_ok ?C (sm_mem st) b (pre @ [(c, w, n, k)] @ post) \<and> held (sm_mem st) pre = held (sm_mem st) pre
    \<and> held (sm_mem st) post = held (sm_mem st) post \<and> (\<forall>x. x \<notin> {block_words b..<block_end b} \<longrightarrow> sm_mem st x = sm_mem st x)"
    using A(1) t un
    by (intro tiles_replace [where C = "sm_cells st" and mid = "[(c, w, n, a)]" and lo = w and hi = "w + 8 * n"])
       (auto simp: block_ok_tiles intro: keptI)
  have "c \<notin> set rs" using B(8) un a(1) by auto
  then have "same_links (set rs) (sm_cells st) ?C" by (auto simp: same_links_def)
  then have "ring ?C rs" using ring_cong B(6) by blast
  then have "arena taken V (st\<lparr>sm_cells := ?C\<rparr>) b (pre @ (c, w, n, k) # post) rs"
    using rep A(2,3) B(7,8) a by (intro arenaI) simp_all
  moreover have "outside V st b (st\<lparr>sm_cells := ?C\<rparr>) b" using A(3) by (auto simp: outside_def)
  ultimately show ?thesis using x(1) by (auto simp: set_cell_def upd_cell_def)
qed

text \<open>
  \<open>resized\<close>: after a reallocation the first bytes are the old ones, at a new place or at the old one; without it nothing has
  changed.
\<close>

definition resized :: "('w \<Rightarrow> nat set) \<Rightarrow> nat set \<Rightarrow> nat \<Rightarrow> bytes \<Rightarrow> nat \<Rightarrow> 'w Secure \<Rightarrow> Block \<Rightarrow> tile list \<Rightarrow> nat \<Rightarrow> 'w Secure \<Rightarrow> Block \<Rightarrow> bool" where
  "resized taken V p old nbytes st b xs q st' b' \<longleftrightarrow> outside V st b st' b' \<and> block_used b' = block_used b
     \<and> (\<exists>xs' rs'. arena taken V st' b' xs' rs' \<and> used_count xs' = used_count xs
       \<and> (if q = 0 then held (sm_mem st') xs' = held (sm_mem st) xs \<and> length old < nbytes
          else \<exists>new. length new = nbytes \<and> take (length old) new = take nbytes old
            \<and> q \<notin> fst ` (held (sm_mem st) xs - {(p, old)}) \<and> held (sm_mem st') xs' = insert (q, new) (held (sm_mem st) xs - {(p, old)})))"

lemma get_bytes_append: "get_bytes m a n = Some bs \<Longrightarrow> get_bytes m (a + n) k = Some cs \<Longrightarrow> get_bytes m a (n + k) = Some (bs @ cs)"
  by (auto simp: get_bytes_Some nth_append) (metis add.assoc add_diff_inverse_nat nat_add_left_cancel_less)

lemma get_bytes_take: "get_bytes m a n = Some bs \<Longrightarrow> k \<le> n \<Longrightarrow> get_bytes m a k = Some (take k bs)"
  by (auto simp: get_bytes_Some)

context secure_os
begin

text \<open>Reallocation within the cell.\<close>

lemma realloc_inside:
  assumes ar: "arena taken V st b (pre @ (c, w, n, a) # post) rs" and old: "get_bytes (sm_mem st) (w + 8) a = Some old" "0 < a"
    and k: "0 < k" "k \<le> 8 * (n - 2)" and hl: "held Mo (preo @ (co, w, no, a) # posto) - {(w + 8, old)} = held (sm_mem st) pre \<union> held (sm_mem st) post"
    and out: "outside V sto bo st b" "sm_mem sto = Mo" "block_used b = block_used bo" "used_count (pre @ (c, w, n, a) # post) = used_count (preo @ (co, w, no, a) # posto)"
    and M': "arena taken V (st\<lparr>sm_mem := M'\<rparr>) b (pre @ (c, w, n, a) # post) rs" "outside V st b (st\<lparr>sm_mem := M'\<rparr>) b"
      "held M' pre = held (sm_mem st) pre" "held M' post = held (sm_mem st) post"
      "get_bytes M' (w + 8) (min a k) = Some (take k old)"
  shows "\<exists>C'. set_cell c (\<lambda>x. x\<lparr>cell_allocated := k\<rparr>) st = Some (st\<lparr>sm_cells := C'\<rparr>)
    \<and> resized taken V (w + 8) old k sto bo (preo @ (co, w, no, a) # posto) (w + 8) (st\<lparr>sm_cells := C', sm_mem := M'\<rparr>) b"
proof -
  from arena_resize [OF M'(1) old(2) k] obtain C' where C: "set_cell c (\<lambda>x. x\<lparr>cell_allocated := k\<rparr>) (st\<lparr>sm_mem := M'\<rparr>) = Some (st\<lparr>sm_mem := M', sm_cells := C'\<rparr>)"
    "arena taken V (st\<lparr>sm_mem := M', sm_cells := C'\<rparr>) b (pre @ (c, w, n, k) # post) rs" "outside V (st\<lparr>sm_mem := M'\<rparr>) b (st\<lparr>sm_mem := M', sm_cells := C'\<rparr>) b"
    by auto
  have eq: "st\<lparr>sm_mem := M', sm_cells := C'\<rparr> = st\<lparr>sm_cells := C', sm_mem := M'\<rparr>" by simp
  have run: "set_cell c (\<lambda>x. x\<lparr>cell_allocated := k\<rparr>) st = Some (st\<lparr>sm_cells := C'\<rparr>)"
  proof -
    obtain D where "upd_cell c (\<lambda>x. x\<lparr>cell_allocated := k\<rparr>) (sm_cells st) = Some D" "D = C'"
      using C(1) by (cases "upd_cell c (\<lambda>x. x\<lparr>cell_allocated := k\<rparr>) (sm_cells st)") (auto simp: set_cell_def dest: arg_cong [of _ _ sm_cells])
    then show ?thesis by (simp add: set_cell_def)
  qed
  note B = block_okD [OF arenaD(1) [OF C(2)]]
  have "2 \<le> n" using B(5) by auto
  then have "span (w + 8) k \<subseteq> span w (8 * n)" using k by auto
  also have "span w (8 * n) \<subseteq> dom M'" using tile_dom [OF arenaD(1) [OF C(2)], of c w n k] by simp
  finally obtain new where new: "get_bytes M' (w + 8) k = Some new" using get_bytes_dom by blast
  have len: "length new = k" "length old = a" using new old(1) by (simp_all add: get_bytes_Some)
  have "take (min a k) new = take k old" using get_bytes_take [OF new, of "min a k"] M'(5) by simp
  then have tk: "take (length old) new = take k old" using len by (simp add: min_def split: if_splits)
  have "held M' (pre @ (c, w, n, k) # post) = insert (w + 8, new) (held (sm_mem st) pre \<union> held (sm_mem st) post)"
    using M'(3,4) new k(1) by (auto simp: held_tile_simps)
  moreover have "w + 8 \<notin> fst ` (held (sm_mem st) pre \<union> held (sm_mem st) post)" using held_fresh [OF B(1)] .
  moreover have "outside V sto bo (st\<lparr>sm_cells := C', sm_mem := M'\<rparr>) b" using outside_trans [OF out(1) outside_trans [OF M'(2) C(3)]] unfolding eq .
  ultimately have "resized taken V (w + 8) old k sto bo (preo @ (co, w, no, a) # posto) (w + 8) (st\<lparr>sm_cells := C', sm_mem := M'\<rparr>) b"
    unfolding resized_def using C(2) out(2-4) hl len tk k(1) old(2)
    by (intro conjI exI [of _ "pre @ (c, w, n, k) # post"] exI [of _ rs]) (auto simp: eq)
  with run show ?thesis by blast
qed

end

lemma held_kept:
  assumes "grown taken V st b pre (c, w, n, a) post st' b' n' post' rs'" and "0 < a" and "a \<le> 8 * (n - 2)"
  shows "held (sm_mem st') (pre @ (c, w, n', a) # post') = held (sm_mem st) (pre @ (c, w, n, a) # post)"
    and "get_bytes (sm_mem st') (w + 8) a = get_bytes (sm_mem st) (w + 8) a"
proof -
  show g: "get_bytes (sm_mem st') (w + 8) a = get_bytes (sm_mem st) (w + 8) a"
    using assms by (intro get_bytes_cong) (auto simp: grown_def)
  then show "held (sm_mem st') (pre @ (c, w, n', a) # post') = held (sm_mem st) (pre @ (c, w, n, a) # post)"
    using assms by (simp add: grown_def held_tile_simps)
qed

context secure_os
begin

text \<open>Reallocation by a new cell.\<close>

lemma realloc_move:
  assumes ar: "arena taken V st b xs rs" and p: "(p, old) \<in> held (sm_mem st) xs" and k: "length old < k" and u: "0 < block_used b"
  shows "\<exists>q b' st'. (do {
        (alloc, block3, st3) \<leftarrow> sec_alloc os b k st;
        if alloc = 0 then Some (0, block3, st3)
        else do {
          bs \<leftarrow> get_bytes (sm_mem st3) p (length old);
          m \<leftarrow> put_bytes alloc bs (sm_mem st3);
          (block4, st4) \<leftarrow> sec_free os block3 p (st3\<lparr>sm_mem := m\<rparr>);
          Some (alloc, block4, st4)
        } }) = Some (q, b', st') \<and> resized taken V p old k st b xs q st' b'"
proof -
  from sec_alloc_ok [OF ar, of k] k obtain q b3 st3 xs3 rs3 where al: "sec_alloc os b k st = Some (q, b3, st3)" "outside V st b st3 b3"
    "arena taken V st3 b3 xs3 rs3" and
    cases: "if q = 0 then block_used b3 = block_used b \<and> used_count xs3 = used_count xs \<and> held (sm_mem st3) xs3 = held (sm_mem st) xs
        else block_used b3 = block_used b + 1 \<and> used_count xs3 = used_count xs + 1
          \<and> held (sm_mem st3) xs3 = insert (q, replicate k 0) (held (sm_mem st) xs) \<and> q \<notin> fst ` held (sm_mem st) xs"
    unfolding after_alloc_def by auto
  show ?thesis
  proof (cases "q = 0")
    case True
    with al cases k show ?thesis by (auto simp: resized_def)
  next
    case False
    let ?H = "held (sm_mem st) xs"
    have H: "held (sm_mem st3) xs3 = insert (q, replicate k 0) ?H" "q \<notin> fst ` ?H" using cases False by auto
    have qp: "q \<noteq> p" using H(2) p by force
    have q: "(q, replicate k 0) \<in> held (sm_mem st3) xs3" "(p, old) \<in> held (sm_mem st3) xs3" using H p by auto
    note t3 = block_okD(1) [OF arenaD(1) [OF al(3)]]
    from held_split [OF t3 q(2)] have g: "get_bytes (sm_mem st3) p (length old) = Some old" by metis
    let ?new = "old @ replicate (k - length old) 0"
    from write_held [OF al(3) q(1), of 0 old] k obtain M4 where 4: "put_bytes q old (sm_mem st3) = Some M4"
      "arena taken V (st3\<lparr>sm_mem := M4\<rparr>) b3 xs3 rs3" "outside V st3 b3 (st3\<lparr>sm_mem := M4\<rparr>) b3"
      "held M4 xs3 = insert (q, ?new) (held (sm_mem st3) xs3 - {(q, replicate k 0)})" by auto
    have H4: "held M4 xs3 = insert (q, ?new) ?H" using 4(4) H by (auto simp: image_iff)
    have "(p, old) \<in> held (sm_mem (st3\<lparr>sm_mem := M4\<rparr>)) xs3" using H4 p by simp
    from sec_free_held [OF 4(2) this] obtain b5 st5 xs5 rs5 where 5: "sec_free os b3 p (st3\<lparr>sm_mem := M4\<rparr>) = Some (b5, st5)"
      "arena taken V st5 b5 xs5 rs5" "outside V (st3\<lparr>sm_mem := M4\<rparr>) b3 st5 b5" "block_used b5 = block_used b3 - 1" "used_count xs3 = used_count xs5 + 1"
      "held (sm_mem st5) xs5 = held M4 xs3 - {(p, old)}" by auto
    have "held (sm_mem st5) xs5 = insert (q, ?new) (?H - {(p, old)})" using 5(6) H4 qp by auto
    moreover have "outside V st b st5 b5" using outside_trans [OF al(2) outside_trans [OF 4(3) 5(3)]] .
    moreover have "q \<notin> fst ` (?H - {(p, old)})" using H(2) by auto
    ultimately have "resized taken V p old k st b xs q st5 b5"
      unfolding resized_def using False 5(2,4,5) cases k u
      by (intro conjI exI [of _ xs5] exI [of _ rs5]) (auto intro!: exI [of _ ?new])
    with al(1) False g 4(1) 5(1) show ?thesis by auto
  qed
qed

lemma resized_trans:
  assumes "resized taken V p old k st1 b1 xs1 q st2 b2" and "outside V st b st1 b1" and "block_used b1 = block_used b"
    and "held (sm_mem st1) xs1 = held (sm_mem st) xs" and "used_count xs1 = used_count xs"
  shows "resized taken V p old k st b xs q st2 b2"
  using assms outside_trans [OF assms(2)] unfolding resized_def by auto

lemma sec_realloc_held:
  assumes ar: "arena taken V st b xs rs" and p: "(p, old) \<in> held (sm_mem st) xs" and k: "0 < k" and u: "0 < block_used b"
  shows "\<exists>q b' st'. sec_realloc os b p k st = Some (q, b', st') \<and> resized taken V p old k st b xs q st' b'"
proof -
  let ?n = "sec_size_to_words k + 2" and ?a = "length old"
  note B = block_okD [OF arenaD(1) [OF ar]]
  from held_split [OF B(1) p] obtain pre c w n post where x: "xs = pre @ (c, w, n, ?a) # post" "p = w + 8" "0 < ?a"
    "get_bytes (sm_mem st) p ?a = Some old" "held (sm_mem st) pre \<union> held (sm_mem st) post = held (sm_mem st) xs - {(p, old)}" by metis
  note ar' = ar [unfolded x(1)]
  have t: "tile_ok (sm_cells st) (sm_mem st) (c, w, n, ?a)" using B(5) x(1) by auto
  then have a: "?a \<le> 8 * (n - 2)" by simp
  obtain y where y: "sm_cells st c = Some y" "cell_words y = w" "cell_n_words y = n" "cell_allocated y = ?a" "cell_next y = 0" "cell_prev y = 0"
    using t x(3) by (auto simp: cell_ok_def payload_def)
  note start = sec_lookup_ok [OF ar'] y x(3) k
  show ?thesis
  proof (cases "?n \<le> n")
    case True
    define M' where "M' = (if k < ?a then put (w + 8 + k) (replicate (?a - k) 0) (sm_mem st) else sm_mem st)"
    have kn: "k \<le> 8 * (n - 2)" using words_fit(1) [of k] True by linarith
    have wr: "k < ?a \<Longrightarrow> put_bytes (w + 8 + k) (replicate (?a - k) 0) (sm_mem st) = Some M'" "\<not> k < ?a \<Longrightarrow> M' = sm_mem st"
        "arena taken V (st\<lparr>sm_mem := M'\<rparr>) b (pre @ (c, w, n, ?a) # post) rs" "outside V st b (st\<lparr>sm_mem := M'\<rparr>) b"
        "held M' pre = held (sm_mem st) pre" "held M' post = held (sm_mem st) post"
      using arena_write [OF ar', of k "replicate (?a - k) 0"] ar' a outside_refl by (auto simp: M'_def)
    have "get_bytes M' (w + 8) (min ?a k) = get_bytes (sm_mem st) (w + 8) (min ?a k)"
      by (intro get_bytes_cong) (auto simp: put_def M'_def)
    then have gb: "get_bytes M' (w + 8) (min ?a k) = Some (take k old)"
      using get_bytes_take [OF x(4), of "min ?a k"] x(2) by (simp add: min_def split: if_splits)
    have hl: "held (sm_mem st) (pre @ (c, w, n, ?a) # post) - {(w + 8, old)} = held (sm_mem st) pre \<union> held (sm_mem st) post"
      using x(1,2,5) by simp
    from realloc_inside [OF ar' x(4) [unfolded x(2)] x(3) k kn hl outside_refl refl refl refl wr(3-6) gb]
    obtain C' where C: "set_cell c (\<lambda>x. x\<lparr>cell_allocated := k\<rparr>) st = Some (st\<lparr>sm_cells := C'\<rparr>)"
      "resized taken V p old k st b xs p (st\<lparr>sm_cells := C', sm_mem := M'\<rparr>) b" unfolding x(1,2) by blast
    have "sec_realloc os b p k st = Some (p, b, st\<lparr>sm_cells := C', sm_mem := M'\<rparr>)"
      using start True C(1) wr(1,2) x(2) by (auto simp: sec_realloc_def sec_clear_memory_def sec_cell_to_memory_def Let_def)
    with C(2) show ?thesis by blast
  next
    case False
    have lt: "?a < k"
    proof (rule ccontr)
      assume "\<not> ?a < k"
      then have "k \<le> 8 * (n - 2)" using a by simp
      then have "sec_size_to_words k \<le> n - 2" by (rule words_le)
      with False t show False by auto
    qed
    from sec_grow_ok [OF ar' x(3), of ?n] obtain b2 st2 n2 post2 rs2 where g: "sec_grow os c ?n b st = Some (b2, st2)"
      "grown taken V st b pre (c, w, n, ?a) post st2 b2 n2 post2 rs2" by blast
    let ?xs2 = "pre @ (c, w, n2, ?a) # post2"
    have g2: "arena taken V st2 b2 ?xs2 rs2" "outside V st b st2 b2" "block_used b2 = block_used b" "used_count ?xs2 = used_count xs"
      "held (sm_mem st2) pre \<union> held (sm_mem st2) post2 = held (sm_mem st) xs - {(p, old)}"
      using g(2) x(1,3,5) by (simp_all add: grown_def)
    note hk = held_kept [OF g(2) x(3) a]
    have "tile_ok (sm_cells st2) (sm_mem st2) (c, w, n2, ?a)" using block_okD(5) [OF arenaD(1) [OF g2(1)]] by auto
    then obtain z where z: "sm_cells st2 c = Some z" "cell_words z = w" "cell_n_words z = n2" by (rule tile_okE) blast
    show ?thesis
    proof (cases "?n \<le> n2")
      case True
      define M' where "M' = put (w + 8 + ?a) (replicate (k - ?a) 0) (sm_mem st2)"
      have kn: "k \<le> 8 * (n2 - 2)" using words_fit(1) [of k] True by linarith
      have wr: "put_bytes (w + 8 + ?a) (replicate (k - ?a) 0) (sm_mem st2) = Some M'"
        "arena taken V (st2\<lparr>sm_mem := M'\<rparr>) b2 ?xs2 rs2" "outside V st2 b2 (st2\<lparr>sm_mem := M'\<rparr>) b2"
        "held M' pre = held (sm_mem st2) pre" "held M' post2 = held (sm_mem st2) post2"
        using arena_write [OF g2(1), of ?a "replicate (k - ?a) 0"] kn lt by (auto simp: M'_def)
      have "get_bytes M' (w + 8) (min ?a k) = get_bytes (sm_mem st2) (w + 8) (min ?a k)"
        by (intro get_bytes_cong) (auto simp: put_def M'_def)
      then have gb: "get_bytes M' (w + 8) (min ?a k) = Some (take k old)" using hk(2) x(2,4) lt by simp
      have hl: "held (sm_mem st) (pre @ (c, w, n, ?a) # post) - {(w + 8, old)} = held (sm_mem st2) pre \<union> held (sm_mem st2) post2"
        using g2(5) x(1,2) by simp
      have old2: "get_bytes (sm_mem st2) (w + 8) ?a = Some old" using hk(2) x(2,4) by simp
      from realloc_inside [OF g2(1) old2 x(3) k kn hl g2(2) refl g2(3) g2(4) [unfolded x(1)] wr(2-5) gb]
      obtain C' where C: "set_cell c (\<lambda>x. x\<lparr>cell_allocated := k\<rparr>) st2 = Some (st2\<lparr>sm_cells := C'\<rparr>)"
        "resized taken V p old k st b xs p (st2\<lparr>sm_cells := C', sm_mem := M'\<rparr>) b2" unfolding x(1,2) by blast
      have "sec_realloc os b p k st = Some (p, b2, st2\<lparr>sm_cells := C', sm_mem := M'\<rparr>)"
        using start False True C(1) wr(1) lt g(1) z x(2) by (auto simp: sec_realloc_def sec_clear_memory_def sec_cell_to_memory_def Let_def)
      with C(2) show ?thesis by blast
    next
      case F2: False
      have "(p, old) \<in> held (sm_mem st2) ?xs2" using hk(1) p x(1) by simp
      from realloc_move [OF g2(1) this lt] u g2(3) obtain q b' st' where m: "(do {
          (alloc, block3, st3) \<leftarrow> sec_alloc os b2 k st2;
          if alloc = 0 then Some (0, block3, st3)
          else do {
            bs \<leftarrow> get_bytes (sm_mem st3) p ?a;
            m \<leftarrow> put_bytes alloc bs (sm_mem st3);
            (block4, st4) \<leftarrow> sec_free os block3 p (st3\<lparr>sm_mem := m\<rparr>);
            Some (alloc, block4, st4)
          } }) = Some (q, b', st')" "resized taken V p old k st2 b2 ?xs2 q st' b'" by auto
      have "sec_realloc os b p k st = Some (q, b', st')"
        using start False F2 g(1) z m(1) [unfolded x(2)] x(2) by (simp add: sec_realloc_def)
      with resized_trans [OF m(2) g2(2,3) _ g2(4)] hk(1) x(1) show ?thesis by auto
    qed
  qed
qed

end

end
