(* ===== verification/EggSecureSpec.thy ===== *)
theory EggSecureSpec
  imports EggSecureBlock
begin

text \<open>
  The secure memory as a whole. The abstract state is the set of allocations, each the address that the program has with the
  bytes it put there; \<open>secure_inv\<close> relates it to the state of the library, and every function refines its obvious
  meaning on the set.
\<close>

section \<open>The invariant\<close>

type_synonym ghost = "Block \<times> tile list \<times> nat list"

definition ghost_items :: "ghost \<Rightarrow> nat list" where
  "ghost_items = (\<lambda>(b, xs, rs). block_self b # map fst xs)"

definition block_area :: "Block \<Rightarrow> nat set" where
  "block_area b = {block_words b..<block_end b}"

definition items :: "ghost list \<Rightarrow> nat set" where
  "items gs = set (concat (map ghost_items gs))"

lemma items_simps [simp]:
  "items [] = {}" "items ((b, xs, rs) # gs) = insert (block_self b) (tile_cells xs) \<union> items gs" "items (gs @ hs) = items gs \<union> items hs"
  by (auto simp: items_def ghost_items_def tile_cells_def)

definition apart :: "ghost list \<Rightarrow> bool" where
  "apart gs \<longleftrightarrow> distinct (concat (map ghost_items gs)) \<and> sorted_wrt (\<lambda>g h. block_area (fst g) \<inter> block_area (fst h) = {}) gs"

lemma apart_middle:
  "apart (g1 @ (b, xs, rs) # g2) \<longleftrightarrow> apart (g1 @ g2) \<and> distinct (map fst xs) \<and> block_self b \<notin> tile_cells xs
     \<and> block_self b \<notin> items (g1 @ g2) \<and> tile_cells xs \<inter> items (g1 @ g2) = {} \<and> (\<forall>g \<in> set (g1 @ g2). block_area b \<inter> block_area (fst g) = {})"
proof -
  have 1: "distinct (concat (map ghost_items (g1 @ (b, xs, rs) # g2))) \<longleftrightarrow> distinct (concat (map ghost_items (g1 @ g2))) \<and> distinct (map fst xs)
     \<and> block_self b \<notin> tile_cells xs \<and> block_self b \<notin> items (g1 @ g2) \<and> tile_cells xs \<inter> items (g1 @ g2) = {}"
    unfolding map_append list.map concat_append concat.simps distinct_append items_simps items_def
    by (auto simp: ghost_items_def tile_cells_def simp del: set_concat)
  have "sorted_wrt (\<lambda>g h. block_area (fst g) \<inter> block_area (fst h) = {}) (g1 @ (b, xs, rs) # g2)
    \<longleftrightarrow> sorted_wrt (\<lambda>g h. block_area (fst g) \<inter> block_area (fst h) = {}) (g1 @ g2) \<and> (\<forall>g \<in> set (g1 @ g2). block_area b \<inter> block_area (fst g) = {})"
    unfolding sorted_wrt_append sorted_wrt.simps list.set set_append fst_conv
    by (simp add: ball_Un ball_conj_distrib Int_commute [of "block_area b"] conj_ac)
  with 1 show ?thesis unfolding apart_def by blast
qed

definition ghost_ok :: "'w OS \<Rightarrow> 'w Secure \<Rightarrow> ghost \<Rightarrow> bool" where
  "ghost_ok os st = (\<lambda>(b, xs, rs). block_ok (sm_cells st) (sm_mem st) b xs rs \<and> block_used b = used_count xs
     \<and> block_n_words b * 8 mod os_pagesize os = 0 \<and> 0 < block_n_words b)"

definition secure_ok :: "'w OS \<Rightarrow> ('w \<Rightarrow> nat set) \<Rightarrow> 'w Secure \<Rightarrow> ghost list \<Rightarrow> bool" where
  "secure_ok os taken st gs \<longleftrightarrow> sm_blocks st = map fst gs \<and> (\<forall>g \<in> set gs. ghost_ok os st g)
     \<and> apart gs \<and> meta_ok taken st (items gs)"

definition allocations :: "'w Secure \<Rightarrow> ghost list \<Rightarrow> (nat \<times> bytes) set" where
  "allocations st gs = (\<Union>(b, xs, rs) \<in> set gs. held (sm_mem st) xs)"

definition secure_inv :: "'w OS \<Rightarrow> ('w \<Rightarrow> nat set) \<Rightarrow> 'w Secure \<Rightarrow> (nat \<times> bytes) set \<Rightarrow> bool" where
  "secure_inv os taken st H \<longleftrightarrow> (\<exists>gs. secure_ok os taken st gs \<and> H = allocations st gs)"

lemma allocations_simps [simp]:
  "allocations st [] = {}" "allocations st ((b, xs, rs) # gs) = held (sm_mem st) xs \<union> allocations st gs"
  "allocations st (gs @ hs) = allocations st gs \<union> allocations st hs"
  by (auto simp: allocations_def)

text \<open>The items of the meta data that do not belong to the cells of one block.\<close>

definition other_items :: "ghost list \<Rightarrow> Block \<Rightarrow> ghost list \<Rightarrow> nat set" where
  "other_items g1 b g2 = insert (block_self b) (items (g1 @ g2))"

lemma secure_arena:
  assumes "secure_ok os taken st (g1 @ (b, xs, rs) # g2)"
  shows "arena taken (other_items g1 b g2) st b xs rs"
  using assms by (auto simp: arena_def secure_ok_def ghost_ok_def other_items_def apart_middle insert_commute Un_ac)

text \<open>Blocks do not notice what happens in another block.\<close>

lemma block_ok_frame:
  assumes "block_ok C M b xs rs" and "\<And>c. c \<in> tile_cells xs \<Longrightarrow> C' c = C c" and "\<And>x. x \<in> block_area b \<Longrightarrow> M' x = M x"
  shows "block_ok C' M' b xs rs" and "held M' xs = held M xs"
proof -
  note B = block_okD [OF assms(1)]
  have c: "\<forall>t \<in> set xs. tile_ok C' M' t" "held M' xs = held M xs"
    using tiles_cong [OF B(1,5) _ B(4), of C' M'] assms(2,3) by (auto simp: block_area_def intro: keptI)
  have "same_links (set rs) C C'" using assms(2) B(8) unused_cells_sub [of xs] by (auto simp: same_links_def)
  then have "ring C' rs" using ring_cong B(6) by blast
  moreover have "{block_words b..<block_end b} \<subseteq> dom M'" using B(3) assms(3) by (fastforce simp: block_area_def dom_def)
  ultimately show "block_ok C' M' b xs rs" using c(1) B by (simp add: block_ok_def)
  show "held M' xs = held M xs" by (fact c(2))
qed

lemma ghosts_frame:
  assumes "\<forall>g \<in> set gs. ghost_ok os st g" and "\<And>c. c \<in> items gs \<Longrightarrow> sm_cells st' c = sm_cells st c"
    and "\<And>g x. g \<in> set gs \<Longrightarrow> x \<in> block_area (fst g) \<Longrightarrow> sm_mem st' x = sm_mem st x"
  shows "(\<forall>g \<in> set gs. ghost_ok os st' g) \<and> allocations st' gs = allocations st gs"
proof -
  have "ghost_ok os st' (b, xs, rs) \<and> held (sm_mem st') xs = held (sm_mem st) xs" if g: "(b, xs, rs) \<in> set gs" for b xs rs
  proof -
    have "tile_cells xs \<subseteq> items gs" using g by (force simp: items_def ghost_items_def tile_cells_def)
    with block_ok_frame [of "sm_cells st" "sm_mem st" b xs rs "sm_cells st'" "sm_mem st'"] g assms show ?thesis
      by (fastforce simp: ghost_ok_def)
  qed
  then show ?thesis by (fastforce simp: allocations_def)
qed

lemma secure_step:
  assumes ok: "secure_ok os taken st (g1 @ (b, xs, rs) # g2)" and out: "outside (other_items g1 b g2) st b st' b'"
    and ar: "arena taken (other_items g1 b g2) st' b' xs' rs'" and u: "block_used b' = used_count xs'"
  shows "secure_ok os taken (st'\<lparr>sm_blocks := map fst g1 @ b' # map fst g2\<rparr>) (g1 @ (b', xs', rs') # g2)"
    and "allocations (st'\<lparr>sm_blocks := map fst g1 @ b' # map fst g2\<rparr>) (g1 @ (b', xs', rs') # g2)
      = allocations st g1 \<union> held (sm_mem st') xs' \<union> allocations st g2"
proof -
  let ?st = "st'\<lparr>sm_blocks := map fst g1 @ b' # map fst g2\<rparr>"
  have area: "block_area b' = block_area b" "block_self b' = block_self b" using out by (simp_all add: outside_def block_area_def block_end_def)
  have cells: "sm_cells ?st c = sm_cells st c" if "c \<in> items g1 \<union> items g2" for c
    using that out by (auto simp: outside_def other_items_def)
  have mem: "sm_mem ?st x = sm_mem st x" if "g \<in> set g1 \<union> set g2" "x \<in> block_area (fst g)" for g x
  proof -
    have "block_area b \<inter> block_area (fst g) = {}" using that(1) ok by (auto simp: secure_ok_def apart_middle)
    with that(2) out show ?thesis by (auto simp: outside_def block_area_def)
  qed
  have f1: "(\<forall>g \<in> set g1. ghost_ok os ?st g) \<and> allocations ?st g1 = allocations st g1"
    by (rule ghosts_frame) (use ok in \<open>simp add: secure_ok_def\<close>, rule cells, simp, rule mem, simp_all)
  have f2: "(\<forall>g \<in> set g2. ghost_ok os ?st g) \<and> allocations ?st g2 = allocations st g2"
    by (rule ghosts_frame) (use ok in \<open>simp add: secure_ok_def\<close>, rule cells, simp, rule mem, simp_all)
  have "ghost_ok os ?st (b', xs', rs')" using ar u ok out by (simp add: ghost_ok_def arena_def secure_ok_def outside_def)
  moreover have "apart (g1 @ (b', xs', rs') # g2)"
    using ok arenaD(1,3) [OF ar] area by (auto simp: secure_ok_def apart_middle other_items_def block_ok_def)
  moreover have "items (g1 @ (b', xs', rs') # g2) = other_items g1 b g2 \<union> tile_cells xs'" using area(2) by (auto simp: other_items_def)
  ultimately show "secure_ok os taken ?st (g1 @ (b', xs', rs') # g2)"
    using f1 f2 arenaD(2) [OF ar] by (auto simp: secure_ok_def)
  show "allocations ?st (g1 @ (b', xs', rs') # g2) = allocations st g1 \<union> held (sm_mem st') xs' \<union> allocations st g2" using f1 f2 by auto
qed

lemma held_area:
  assumes "block_ok C M b xs rs" and "(p, bs) \<in> held M xs"
  shows "span p (length bs) \<subseteq> block_area b" and "p \<in> block_area b" and "0 < length bs" and "8 < p"
proof -
  note B = block_okD [OF assms(1)]
  from held_split [OF B(1) assms(2)] obtain pre c w n post where x: "xs = pre @ (c, w, n, length bs) # post" "p = w + 8" "0 < length bs" by metis
  have t: "(c, w, n, length bs) \<in> set xs" using x(1) by simp
  then have "tile_ok C M (c, w, n, length bs)" using B(5) by blast
  moreover have "block_words b \<le> w" "w + 8 * n \<le> block_end b" using tiled_area [OF B(1) t] by simp_all
  ultimately show "span p (length bs) \<subseteq> block_area b" "p \<in> block_area b" "8 < p" using x(2,3) B(2) by (auto simp: block_area_def)
  show "0 < length bs" by (fact x(3))
qed

lemma secure_ok_ghost: "secure_ok os taken st gs \<Longrightarrow> g \<in> set gs \<Longrightarrow> ghost_ok os st g"
  by (simp add: secure_ok_def)

lemma ghost_ok_block: "ghost_ok os st (b, xs, rs) \<Longrightarrow> block_ok (sm_cells st) (sm_mem st) b xs rs"
  by (simp add: ghost_ok_def)

lemma allocations_elsewhere:
  assumes ok: "secure_ok os taken st (g1 @ (b, xs, rs) # g2)" and p: "p \<in> block_area b"
  shows "p \<notin> fst ` allocations st (g1 @ g2)"
proof
  assume "p \<in> fst ` allocations st (g1 @ g2)"
  then obtain b' xs' rs' bs where g: "(b', xs', rs') \<in> set (g1 @ g2)" "(p, bs) \<in> held (sm_mem st) xs'"
    unfolding allocations_def by fastforce
  have "ghost_ok os st (b', xs', rs')" using ok g(1) by (auto simp: secure_ok_def)
  then have "p \<in> block_area b'" using held_area(2) [OF ghost_ok_block g(2)] by simp
  moreover have "\<forall>g \<in> set (g1 @ g2). block_area b \<inter> block_area (fst g) = {}" using ok by (simp add: secure_ok_def apart_middle)
  then have "block_area b \<inter> block_area b' = {}" using g(1) by (metis fst_conv)
  ultimately show False using p by blast
qed

lemma secure_ok_blocks [simp]: "ghost_ok os (st\<lparr>sm_blocks := bl\<rparr>) = ghost_ok os st" "allocations (st\<lparr>sm_blocks := bl\<rparr>) gs = allocations st gs"
  by (simp_all add: ghost_ok_def allocations_def fun_eq_iff)

lemma secure_ok_same: "secure_ok os taken st gs \<Longrightarrow> secure_ok os taken (st\<lparr>sm_blocks := map fst gs\<rparr>) gs"
  by (simp add: secure_ok_def)

section \<open>Allocation\<close>

definition allocated_at :: "nat \<Rightarrow> nat \<Rightarrow> (nat \<times> bytes) set \<Rightarrow> (nat \<times> bytes) set \<Rightarrow> bool" where
  "allocated_at nbytes p H H' \<longleftrightarrow> (if p = 0 then H' = H else p \<notin> fst ` H \<and> H' = insert (p, replicate nbytes 0) H)"

context secure_os
begin

lemma sec_alloc_secure:
  assumes ok: "secure_ok os taken (st\<lparr>sm_blocks := map fst (g1 @ (b, xs, rs) # g2)\<rparr>) (g1 @ (b, xs, rs) # g2)" and n: "0 < nbytes"
  shows "\<exists>p b' st' xs' rs'. sec_alloc os b nbytes st = Some (p, b', st') \<and> sm_blocks st' = sm_blocks st
    \<and> secure_ok os taken (st'\<lparr>sm_blocks := map fst (g1 @ (b', xs', rs') # g2)\<rparr>) (g1 @ (b', xs', rs') # g2)
    \<and> allocated_at nbytes p (allocations st (g1 @ (b, xs, rs) # g2)) (allocations st' (g1 @ (b', xs', rs') # g2))"
proof -
  let ?V = "other_items g1 b g2"
  have ar: "arena taken ?V st b xs rs" using secure_arena [OF ok] by (simp add: arena_def)
  from sec_alloc_ok [OF this n] obtain p b' st' xs' rs' where s: "sec_alloc os b nbytes st = Some (p, b', st')" "outside ?V st b st' b'"
    "arena taken ?V st' b' xs' rs'" and c: "if p = 0 then block_used b' = block_used b \<and> used_count xs' = used_count xs \<and> held (sm_mem st') xs' = held (sm_mem st) xs
        else block_used b' = block_used b + 1 \<and> used_count xs' = used_count xs + 1
          \<and> held (sm_mem st') xs' = insert (p, replicate nbytes 0) (held (sm_mem st) xs) \<and> p \<notin> fst ` held (sm_mem st) xs"
    unfolding after_alloc_def by blast
  let ?st = "st\<lparr>sm_blocks := map fst (g1 @ (b, xs, rs) # g2)\<rparr>"
  have out: "outside ?V ?st b (st'\<lparr>sm_blocks := map fst (g1 @ (b, xs, rs) # g2)\<rparr>) b'" using s(2) by (simp add: outside_def)
  have ar': "arena taken ?V (st'\<lparr>sm_blocks := map fst (g1 @ (b, xs, rs) # g2)\<rparr>) b' xs' rs'" using s(3) by (simp add: arena_def)
  have "ghost_ok os st (b, xs, rs)" using ok by (simp add: secure_ok_def)
  then have u: "block_used b' = used_count xs'" using c by (simp add: ghost_ok_def split: if_splits)
  from secure_step [OF ok out ar' u]
  have new: "secure_ok os taken (st'\<lparr>sm_blocks := map fst (g1 @ (b', xs', rs') # g2)\<rparr>) (g1 @ (b', xs', rs') # g2)"
    "allocations st' (g1 @ (b', xs', rs') # g2) = allocations st g1 \<union> held (sm_mem st') xs' \<union> allocations st g2" by simp_all
  have "allocated_at nbytes p (allocations st (g1 @ (b, xs, rs) # g2)) (allocations st' (g1 @ (b', xs', rs') # g2))"
  proof (cases "p = 0")
    case True
    with c new(2) show ?thesis by (simp add: allocated_at_def Un_ac)
  next
    case False
    with c have h: "(p, replicate nbytes 0) \<in> held (sm_mem st') xs'" "p \<notin> fst ` held (sm_mem st) xs"
      "held (sm_mem st') xs' = insert (p, replicate nbytes 0) (held (sm_mem st) xs)" by simp_all
    have "p \<in> block_area b'" using held_area(2) [OF arenaD(1) [OF s(3)] h(1)] .
    then have "p \<in> block_area b" using s(2) by (simp add: outside_def block_area_def block_end_def)
    then have "p \<notin> fst ` allocations ?st (g1 @ g2)" using allocations_elsewhere [OF ok] by blast
    with False h new(2) show ?thesis by (auto simp: allocated_at_def)
  qed
  with s(1,2) new(1) show ?thesis by (intro exI [of _ p] exI [of _ b'] exI [of _ st'] exI [of _ xs'] exI [of _ rs']) (simp add: outside_def)
qed

lemma alloc_in_blocks_ok:
  assumes "secure_ok os taken (st\<lparr>sm_blocks := map fst (g1 @ g2)\<rparr>) (g1 @ g2)" and "0 < nbytes"
  shows "\<exists>p st' h2. alloc_in_blocks os nbytes (map fst g2) st = Some (p, map fst h2, st') \<and> sm_blocks st' = sm_blocks st
    \<and> secure_ok os taken (st'\<lparr>sm_blocks := map fst (g1 @ h2)\<rparr>) (g1 @ h2) \<and> allocated_at nbytes p (allocations st (g1 @ g2)) (allocations st' (g1 @ h2))"
  using assms
proof (induction g2 arbitrary: st g1)
  case Nil
  then show ?case by (intro exI [of _ 0] exI [of _ st] exI [of _ "[]"]) (simp add: allocated_at_def)
next
  case (Cons g g2)
  obtain b xs rs where g: "g = (b, xs, rs)" by (cases g) auto
  from sec_alloc_secure [OF Cons.prems [unfolded g]] obtain p b' st1 xs' rs' where s: "sec_alloc os b nbytes st = Some (p, b', st1)" "sm_blocks st1 = sm_blocks st"
    "secure_ok os taken (st1\<lparr>sm_blocks := map fst (g1 @ (b', xs', rs') # g2)\<rparr>) (g1 @ (b', xs', rs') # g2)"
    "allocated_at nbytes p (allocations st (g1 @ (b, xs, rs) # g2)) (allocations st1 (g1 @ (b', xs', rs') # g2))" by blast
  show ?case
  proof (cases "p = 0")
    case False
    with s g show ?thesis by (intro exI [of _ p] exI [of _ st1] exI [of _ "(b', xs', rs') # g2"]) simp
  next
    case True
    have "secure_ok os taken (st1\<lparr>sm_blocks := map fst ((g1 @ [(b', xs', rs')]) @ g2)\<rparr>) ((g1 @ [(b', xs', rs')]) @ g2)" using s(3) by simp
    from Cons.IH [OF this Cons.prems(2)] obtain q st2 h2 where r: "alloc_in_blocks os nbytes (map fst g2) st1 = Some (q, map fst h2, st2)" "sm_blocks st2 = sm_blocks st1"
      "secure_ok os taken (st2\<lparr>sm_blocks := map fst (g1 @ (b', xs', rs') # h2)\<rparr>) (g1 @ (b', xs', rs') # h2)"
      "allocated_at nbytes q (allocations st1 (g1 @ (b', xs', rs') # g2)) (allocations st2 (g1 @ (b', xs', rs') # h2))" by auto
    have "allocations st1 (g1 @ (b', xs', rs') # g2) = allocations st (g1 @ (b, xs, rs) # g2)" using s(4) True by (simp add: allocated_at_def)
    with r s True g show ?thesis by (intro exI [of _ q] exI [of _ st2] exI [of _ "(b', xs', rs') # h2"]) simp
  qed
qed

end

subsection \<open>New blocks\<close>

lemma ghost_area_dom:
  assumes "secure_ok os taken st gs" and "g \<in> set gs"
  shows "block_area (fst g) \<subseteq> dom (sm_mem st)"
proof -
  have "ghost_ok os st g" using assms by (simp add: secure_ok_def)
  then show ?thesis by (cases g) (auto simp: ghost_ok_def block_ok_def block_area_def)
qed

lemma secure_ghosts_frame:
  assumes ok: "secure_ok os taken st gs" and c: "\<And>c. c \<in> items gs \<Longrightarrow> sm_cells st' c = sm_cells st c"
    and m: "\<And>x. x \<in> dom (sm_mem st) \<Longrightarrow> sm_mem st' x = sm_mem st x"
  shows "(\<forall>g \<in> set gs. ghost_ok os st' g) \<and> allocations st' gs = allocations st gs"
proof (rule ghosts_frame)
  show "\<forall>g \<in> set gs. ghost_ok os st g" using ok by (simp add: secure_ok_def)
  show "sm_mem st' x = sm_mem st x" if "g \<in> set gs" "x \<in> block_area (fst g)" for g x
    using subsetD [OF ghost_area_dom [OF ok that(1)] that(2)] by (rule m)
qed (fact c)

lemma secure_frame:
  assumes "secure_ok os taken st gs" and "sm_blocks st' = sm_blocks st" and "meta_ok taken st' (items gs)"
    and "\<And>c. c \<in> items gs \<Longrightarrow> sm_cells st' c = sm_cells st c" and "\<And>x. x \<in> dom (sm_mem st) \<Longrightarrow> sm_mem st' x = sm_mem st x"
  shows "secure_ok os taken st' gs \<and> allocations st' gs = allocations st gs"
  using secure_ghosts_frame [OF assms(1,4,5)] assms(1-3) by (simp add: secure_ok_def)

lemma and_not_mask: "w AND NOT (mask n) = w - take_bit n (w :: 'a :: len word)"
proof -
  have "w AND NOT (mask n) = push_bit n (drop_bit n w)" by (rule bit_word_eqI) (auto simp: bit_simps)
  then show ?thesis using bits_ident [of n w] by (simp add: eq_diff_eq)
qed

context secure_os
begin

lemma page_round:
  assumes "sz < 2 ^ 60"
  shows "sec_page_round os sz = (sz + (os_pagesize os - 1)) div os_pagesize os * os_pagesize os"
proof -
  let ?P = "os_pagesize os" and ?w = "word_of_nat (sz + (os_pagesize os - 1)) :: 64 word"
  have P: "0 < ?P" "?P < 2 ^ 60" using pagesize_64 by simp_all
  have "sz + (?P - 1) < 2 ^ LENGTH(64)" using assms P by simp
  then have u: "unat ?w = sz + (?P - 1)" by (rule unat_of_nat_small)
  have "(word_of_nat ?P :: 64 word) - 1 = mask pgbits" using pagesize(1) by (simp add: mask_eq_exp_minus_1)
  moreover have "word_of_nat sz + word_of_nat ?P - 1 = ?w" using P(1) by (simp add: of_nat_diff)
  ultimately have "sec_page_round os sz = unat (?w - take_bit pgbits ?w)"
    unfolding sec_page_round_def Let_def by (simp only: and_not_mask)
  also have "\<dots> = unat ?w - unat (take_bit pgbits ?w)"
  proof (rule unat_sub)
    show "take_bit pgbits ?w \<le> ?w" unfolding word_le_nat_alt unsigned_take_bit_eq by (rule take_bit_nat_less_eq_self)
  qed
  also have "unat (take_bit pgbits ?w) = unat ?w mod ?P" unfolding unsigned_take_bit_eq pagesize(1) by (simp add: take_bit_eq_mod)
  also have "unat ?w - unat ?w mod ?P = unat ?w div ?P * ?P" by (simp add: minus_mod_eq_div_mult)
  finally show ?thesis unfolding u .
qed

lemma page_round_bounds:
  assumes "sz < 2 ^ 60"
  shows "sz \<le> sec_page_round os sz" and "sec_page_round os sz mod os_pagesize os = 0" and "sec_page_round os sz mod 8 = 0"
proof -
  let ?P = "os_pagesize os"
  have P: "0 < ?P" using pagesize_64 by simp
  have "(sz + (?P - 1)) div ?P * ?P = sz + (?P - 1) - (sz + (?P - 1)) mod ?P" by (simp add: minus_mod_eq_div_mult)
  moreover have "(sz + (?P - 1)) mod ?P < ?P" using P by (rule mod_less_divisor)
  ultimately show "sz \<le> sec_page_round os sz" unfolding page_round [OF assms] by linarith
  show "sec_page_round os sz mod ?P = 0" unfolding page_round [OF assms] by simp
  have "(2 :: nat) ^ 3 dvd 2 ^ pgbits" using pagesize(2) by (intro le_imp_power_dvd) simp
  then have "8 dvd ?P" using pagesize(1) by simp
  then show "sec_page_round os sz mod 8 = 0" unfolding page_round [OF assms] by simp
qed

lemma sec_acquire_pages_ok:
  assumes meta: "meta_ok taken st U" and sz: "0 < sz"
  shows "\<exists>pages st'. sec_acquire_pages os sz st = Some (pages, sec_page_round os sz, st') \<and> sm_blocks st' = sm_blocks st \<and> sm_cells st' = sm_cells st
    \<and> meta_ok taken st' U \<and> (if pages = 0 then sm_mem st' = sm_mem st
       else 8 \<le> pages \<and> dom (sm_mem st) \<inter> span pages (sec_page_round os sz) = {}
         \<and> sm_mem st' = (\<lambda>a. if a \<in> span pages (sec_page_round os sz) then Some 0 else sm_mem st a))"
proof -
  let ?sz = "sec_page_round os sz"
  obtain r w where m: "os_mmap os ?sz (sm_world st) = (r, w)" by force
  show ?thesis
  proof (cases r)
    case None
    with mmap_fails [of ?sz "sm_world st" w] m meta sz show ?thesis
      by (intro exI [of _ 0] exI [of _ "st\<lparr>sm_world := w\<rparr>"]) (simp add: sec_acquire_pages_def meta_ok_def Let_def)
  next
    case (Some p)
    from mmap_ok [of ?sz "sm_world st" p w] m Some have p: "0 < p" "p mod os_pagesize os = 0" "span p ?sz \<inter> taken (sm_world st) = {}"
      "taken w = taken (sm_world st) \<union> span p ?sz" by auto
    have "os_pagesize os \<le> p" using p(1,2) by (simp add: dvd_imp_le mod_eq_0_iff_dvd)
    then have p8: "8 \<le> p" using pagesize_64 by simp
    obtain ok w1 where l: "os_mlock os p ?sz w = (ok, w1)" by force
    then have w1: "taken w1 = taken w" using mlock_ok [of p ?sz w] by simp
    have dom: "dom (sm_mem st) \<inter> span p ?sz = {}" "(\<Union>pool \<in> set (sm_pools st). pool_area pool) \<inter> span p ?sz = {}"
      using meta p(3) by (fastforce simp: meta_ok_def pools_ok_def)+
    show ?thesis
    proof (cases ok)
      case True
      let ?st = "st\<lparr>sm_world := w1, sm_mem := (\<lambda>a. if p \<le> a \<and> a < p + ?sz then Some 0 else sm_mem st a)\<rparr>"
      have "dom (sm_mem ?st) = dom (sm_mem st) \<union> span p ?sz" by (auto simp: dom_def)
      then have "meta_ok taken ?st U"
        using meta dom w1 p(4) pools_ok_mono [of "taken (sm_world st)" "sm_pools st" U "taken w1"] by (auto simp: meta_ok_def)
      with m Some l True p8 dom(1) sz show ?thesis
        by (intro exI [of _ p] exI [of _ ?st]) (simp add: sec_acquire_pages_def Let_def)
    next
      case False
      have "taken (os_munmap os p ?sz w1) = taken (sm_world st)" using munmap_ok w1 p(3,4) by auto
      with m Some l False meta sz show ?thesis
        by (intro exI [of _ 0] exI [of _ "st\<lparr>sm_world := os_munmap os p ?sz w1\<rparr>"]) (simp add: sec_acquire_pages_def meta_ok_def Let_def)
    qed
  qed
qed

end

context secure_os
begin

lemma new_block_ok:
  assumes ok: "secure_ok os taken st gs" and st3: "sm_cells st3 = (sm_cells st)(bk := None, c \<mapsto> empty_cell)" "sm_blocks st3 = sm_blocks st"
      "sm_mem st3 = (\<lambda>a. if a \<in> span pages sz then Some 0 else sm_mem st a)" "meta_ok taken st3 (insert bk (insert c (items gs)))"
    and fresh: "bk \<notin> items gs" "c \<notin> items gs" "c \<noteq> bk" "c < 2 ^ 64" "c \<noteq> 0" "dom (sm_mem st) \<inter> span pages sz = {}"
    and sz: "8 \<le> pages" "sz mod 8 = 0" "16 \<le> sz" "sz mod os_pagesize os = 0"
    and b: "b = \<lparr>block_self = bk, block_words = pages, block_n_words = sz div 8, block_used = 0, block_unused = c\<rparr>"
  shows "\<exists>st4 st5 C. set_cell c (\<lambda>x. x\<lparr>cell_words := pages, cell_n_words := sz div 8, cell_allocated := 0\<rparr>) st3 = Some st4
    \<and> sec_write_guards c st4 = Some st5 \<and> sec_insert_cell_ring 0 c (sm_cells st5) = Some (c, C) \<and> sm_blocks st5 = sm_blocks st
    \<and> secure_ok os taken (st5\<lparr>sm_cells := C, sm_blocks := b # sm_blocks st5\<rparr>) ((b, [(c, pages, sz div 8, 0)], [c]) # gs)
    \<and> allocations (st5\<lparr>sm_cells := C, sm_blocks := b # sm_blocks st5\<rparr>) ((b, [(c, pages, sz div 8, 0)], [c]) # gs) = allocations st gs"
proof -
  let ?n = "sz div 8"
  have n: "8 * ?n = sz" "2 \<le> ?n" using sz(2,3) by auto
  let ?x = "empty_cell\<lparr>cell_words := pages, cell_n_words := ?n\<rparr>" and ?M = "guard_put c pages ?n (sm_mem st3)"
  let ?C4 = "(sm_cells st)(bk := None, c \<mapsto> ?x)"
  have 4: "set_cell c (\<lambda>x. x\<lparr>cell_words := pages, cell_n_words := ?n, cell_allocated := 0\<rparr>) st3 = Some (st3\<lparr>sm_cells := ?C4\<rparr>)"
    using st3(1) by (simp add: set_cell_def upd_cell_def empty_cell_def)
  have dom: "span pages (8 * ?n) \<subseteq> dom (sm_mem st3)" unfolding n(1) st3(3) by (auto simp: dom_def)
  have domM: "dom ?M = dom (sm_mem st3)" using dom n(2) by (rule dom_guard_put)
  let ?st5 = "st3\<lparr>sm_cells := ?C4, sm_mem := ?M\<rparr>"
  have 5: "sec_write_guards c (st3\<lparr>sm_cells := ?C4\<rparr>) = Some ?st5"
    using sec_write_guards_ok [of "st3\<lparr>sm_cells := ?C4\<rparr>" c ?x pages ?n 0] dom n(2) by (simp add: payload_def empty_cell_def)
  obtain C where C: "sec_insert_cell_ring 0 c ?C4 = Some (c, C)" "ring C [c]" "relinked {c} ?C4 C"
    using sec_insert_cell_ring_ok [of ?C4 "[]" c ?x] fresh(5) by (auto simp: ring_def empty_cell_def)
  let ?st = "?st5\<lparr>sm_cells := C\<rparr>"
  have "map_option payload (C c) = Some (pages, ?n, 0)" using C(3) by (simp add: relinked_def payload_def empty_cell_def)
  then have "tile_ok C ?M (c, pages, ?n, 0)" using guard_put_load [OF fresh(4) n(2)] n(2) by (auto simp: cell_ok_def)
  then have g: "ghost_ok os ?st (b, [(c, pages, ?n, 0)], [c])"
    using C(2) sz dom domM n by (auto simp: ghost_ok_def block_ok_def block_end_def b mult.commute)
  have mem: "?M a = sm_mem st a" if a: "a \<in> dom (sm_mem st)" for a
  proof -
    have out: "a \<notin> span pages sz" using a fresh(6) by blast
    then have "?M a = sm_mem st3 a" using guard_area [OF n(2), of pages] n(1) by (intro guard_put_other) auto
    with out show ?thesis using st3(3) by auto
  qed
  have cells: "C d = sm_cells st d" if "d \<in> items gs" for d
    using that C(3) fresh by (auto simp: relinked_def)
  have meta: "meta_ok taken ?st (insert bk (insert c (items gs)))" using st3(4) domM by (simp add: meta_ok_def)
  have gs: "\<forall>g \<in> set gs. ghost_ok os ?st g" "allocations ?st gs = allocations st gs" "sm_blocks ?st = map fst gs" "apart gs"
    using secure_ghosts_frame [OF ok, of ?st] cells mem ok st3(2) by (simp_all add: secure_ok_def)
  have "block_area b = span pages sz" using n by (simp add: block_area_def block_end_def b)
  then have "\<forall>h \<in> set gs. block_area b \<inter> block_area (fst h) = {}" using ghost_area_dom [OF ok] fresh(6) by blast
  then have "apart ((b, [(c, pages, ?n, 0)], [c]) # gs)" using gs(4) fresh apart_middle [of "[]" b "[(c, pages, ?n, 0)]" "[c]" gs] b by auto
  then have "secure_ok os taken (?st\<lparr>sm_blocks := b # sm_blocks ?st\<rparr>) ((b, [(c, pages, ?n, 0)], [c]) # gs)"
    using gs g meta b by (simp add: secure_ok_def insert_commute)
  moreover have "allocations ?st ((b, [(c, pages, ?n, 0)], [c]) # gs) = allocations st gs" using gs(2) by (simp add: held_tile_simps)
  ultimately show ?thesis using 4 5 C(1) st3(2)
    by (intro exI [of _ "st3\<lparr>sm_cells := ?C4\<rparr>"] exI [of _ ?st5] exI [of _ C]) simp
qed

end

context secure_os
begin

lemma pool_alloc_state:
  assumes "meta_ok taken st U"
  obtains item st' where "pool_alloc os st = Some (item, st')" "sm_blocks st' = sm_blocks st" "sm_mem st' = sm_mem st"
    "sm_cells st' = (if item = 0 then sm_cells st else (sm_cells st)(item \<mapsto> empty_cell))"
    "meta_ok taken st' (if item = 0 then U else insert item U)" "item \<noteq> 0 \<Longrightarrow> item \<notin> U \<and> item < 2 ^ 64"
  using pool_alloc_ok [OF assms] by (elim exE conjE) (auto split: if_splits)

lemma pool_free_state:
  assumes "meta_ok taken st U" and "item \<in> U"
  obtains st' where "pool_free os item st = Some st'" "sm_blocks st' = sm_blocks st" "sm_mem st' = sm_mem st"
    "sm_cells st' = (sm_cells st)(item := None)" "meta_ok taken st' (U - {item})"
  using pool_free_ok [OF assms] by (elim exE conjE) auto

lemma sec_block_create_ok:
  assumes ok: "secure_ok os taken st gs" and n: "0 < nbytes" "nbytes < 2 ^ 60"
  shows "\<exists>r st' gs'. sec_block_create os nbytes st = Some (r, st') \<and> secure_ok os taken st' (gs' @ gs) \<and> allocations st' (gs' @ gs) = allocations st gs
    \<and> (case r of None \<Rightarrow> gs' = [] | Some b \<Rightarrow> \<exists>c. gs' = [(b, [(c, block_words b, block_n_words b, 0)], [c])])"
proof -
  let ?req = "if nbytes < DEFAULT_BLOCK_SIZE then DEFAULT_BLOCK_SIZE else nbytes"
  let ?sz = "sec_page_round os ?req"
  have m0: "meta_ok taken st (items gs)" using ok by (simp add: secure_ok_def)
  have fail: ?thesis if "sec_block_create os nbytes st = Some (None, st2)" "sm_blocks st2 = sm_blocks st" "meta_ok taken st2 (items gs)"
      "\<And>c. c \<in> items gs \<Longrightarrow> sm_cells st2 c = sm_cells st c" "sm_mem st2 = sm_mem st" for st2
    using secure_frame [OF ok that(2,3)] that(1,4,5) by (intro exI [of _ None] exI [of _ st2] exI [of _ "[]"]) simp
  obtain bk st0 where a1: "pool_alloc os st = Some (bk, st0)" "sm_blocks st0 = sm_blocks st" "sm_mem st0 = sm_mem st"
    "sm_cells st0 = (if bk = 0 then sm_cells st else (sm_cells st)(bk \<mapsto> empty_cell))"
    "meta_ok taken st0 (if bk = 0 then items gs else insert bk (items gs))" "bk \<noteq> 0 \<Longrightarrow> bk \<notin> items gs \<and> bk < 2 ^ 64"
    using pool_alloc_state [OF m0] by blast
  show ?thesis
  proof (cases "bk = 0")
    case True
    show ?thesis by (rule fail [of st0]) (use a1 True in \<open>simp_all add: sec_block_create_def\<close>)
  next
    case bk: False
    define st1 where "st1 = st0\<lparr>sm_cells := (sm_cells st0)(bk := None)\<rparr>"
    have m1: "bk \<notin> items gs" "meta_ok taken st1 (insert bk (items gs))" "sm_blocks st1 = sm_blocks st" "sm_mem st1 = sm_mem st"
      "sm_cells st1 = (sm_cells st)(bk := None)" using a1 bk by (simp_all add: st1_def)
    obtain c st2 where a2: "pool_alloc os st1 = Some (c, st2)" "sm_blocks st2 = sm_blocks st1" "sm_mem st2 = sm_mem st1"
      "sm_cells st2 = (if c = 0 then sm_cells st1 else (sm_cells st1)(c \<mapsto> empty_cell))"
      "meta_ok taken st2 (if c = 0 then insert bk (items gs) else insert c (insert bk (items gs)))" "c \<noteq> 0 \<Longrightarrow> c \<notin> insert bk (items gs) \<and> c < 2 ^ 64"
      using pool_alloc_state [OF m1(2)] by blast
    show ?thesis
    proof (cases "c = 0")
      case True
      have "meta_ok taken st2 (insert bk (items gs))" using a2(5) True by simp
      then obtain st3 where f: "pool_free os bk st2 = Some st3" "sm_blocks st3 = sm_blocks st2" "sm_mem st3 = sm_mem st2"
        "sm_cells st3 = (sm_cells st2)(bk := None)" "meta_ok taken st3 (insert bk (items gs) - {bk})" using pool_free_state [of st2 _ bk] by blast
      show ?thesis
      proof (rule fail [of st3])
        show "sec_block_create os nbytes st = Some (None, st3)" using a1(1) a2(1) f(1) bk True by (simp add: sec_block_create_def Let_def st1_def)
      qed (use m1 a2 f True in auto)
    next
      case c: False
      have m2: "c \<noteq> bk" "c \<notin> items gs" "c < 2 ^ 64" "meta_ok taken st2 (insert bk (insert c (items gs)))" using a2(5,6) c by (simp_all add: insert_commute)
      have req: "0 < ?req" "?req < 2 ^ 60" using n by (simp_all add: DEFAULT_BLOCK_SIZE_def)
      from sec_acquire_pages_ok [OF m2(4) req(1)] obtain pages st3 where a3: "sec_acquire_pages os ?req st2 = Some (pages, ?sz, st3)"
        "sm_blocks st3 = sm_blocks st2" "sm_cells st3 = sm_cells st2" "meta_ok taken st3 (insert bk (insert c (items gs)))"
        "if pages = 0 then sm_mem st3 = sm_mem st2 else 8 \<le> pages \<and> dom (sm_mem st2) \<inter> span pages ?sz = {}
           \<and> sm_mem st3 = (\<lambda>a. if a \<in> span pages ?sz then Some 0 else sm_mem st2 a)" by blast
      show ?thesis
      proof (cases "pages = 0")
        case True
        obtain st4 where f4: "pool_free os bk st3 = Some st4" "sm_blocks st4 = sm_blocks st3" "sm_mem st4 = sm_mem st3"
          "sm_cells st4 = (sm_cells st3)(bk := None)" "meta_ok taken st4 (insert bk (insert c (items gs)) - {bk})" using pool_free_state [OF a3(4), of bk] by blast
        have "meta_ok taken st4 (insert c (items gs))" using f4(5) m1(1) m2(1) by (simp add: insert_Diff_if)
        then obtain st5 where f5: "pool_free os c st4 = Some st5" "sm_blocks st5 = sm_blocks st4" "sm_mem st5 = sm_mem st4"
          "sm_cells st5 = (sm_cells st4)(c := None)" "meta_ok taken st5 (insert c (items gs) - {c})" using pool_free_state [of st4 _ c] by blast
        show ?thesis
        proof (rule fail [of st5])
          show "sec_block_create os nbytes st = Some (None, st5)"
            using a1(1) a2(1) a3(1) f4(1) f5(1) bk c True by (simp add: sec_block_create_def Let_def st1_def split del: if_split)
        qed (use m1 m2 a2 a3 f4 f5 True c in auto)
      next
        case pages: False
        have mem3: "8 \<le> pages" "dom (sm_mem st) \<inter> span pages ?sz = {}" "sm_mem st3 = (\<lambda>a. if a \<in> span pages ?sz then Some 0 else sm_mem st a)"
          using a3(5) [unfolded a2(3) m1(4) if_not_P [OF pages]] by blast+
        have R: "?req \<le> ?sz" "?sz mod 8 = 0" "?sz mod os_pagesize os = 0" using page_round_bounds [OF req(2)] by simp_all
        moreover have "16 \<le> ?req" by (simp add: DEFAULT_BLOCK_SIZE_def)
        ultimately have sz: "16 \<le> ?sz" by linarith
        let ?b = "\<lparr>block_self = bk, block_words = pages, block_n_words = ?sz div 8, block_used = 0, block_unused = c\<rparr>"
        have new: "\<exists>st4 st5 C. set_cell c (\<lambda>x. x\<lparr>cell_words := pages, cell_n_words := ?sz div 8, cell_allocated := 0\<rparr>) st3 = Some st4
          \<and> sec_write_guards c st4 = Some st5 \<and> sec_insert_cell_ring 0 c (sm_cells st5) = Some (c, C) \<and> sm_blocks st5 = sm_blocks st
          \<and> secure_ok os taken (st5\<lparr>sm_cells := C, sm_blocks := ?b # sm_blocks st5\<rparr>) ((?b, [(c, pages, ?sz div 8, 0)], [c]) # gs)
          \<and> allocations (st5\<lparr>sm_cells := C, sm_blocks := ?b # sm_blocks st5\<rparr>) ((?b, [(c, pages, ?sz div 8, 0)], [c]) # gs) = allocations st gs"
          by (rule new_block_ok [where bk = bk]) (use ok a2(1,2,4-6) mem3 a3(1-4) pages m1 m2 c R(2,3) sz in simp_all)
        then obtain st4 st5 C where s: "set_cell c (\<lambda>x. x\<lparr>cell_words := pages, cell_n_words := ?sz div 8, cell_allocated := 0\<rparr>) st3 = Some st4"
          "sec_write_guards c st4 = Some st5" "sec_insert_cell_ring 0 c (sm_cells st5) = Some (c, C)"
          "secure_ok os taken (st5\<lparr>sm_cells := C, sm_blocks := ?b # sm_blocks st5\<rparr>) ((?b, [(c, pages, ?sz div 8, 0)], [c]) # gs)"
          "allocations (st5\<lparr>sm_cells := C, sm_blocks := ?b # sm_blocks st5\<rparr>) ((?b, [(c, pages, ?sz div 8, 0)], [c]) # gs) = allocations st gs" by blast
        have "sec_block_create os nbytes st = Some (Some ?b, st5\<lparr>sm_cells := C, sm_blocks := ?b # sm_blocks st5\<rparr>)"
          using a1(1) a2(1) a3(1) s(1-3) bk c pages by (simp add: sec_block_create_def Let_def st1_def split del: if_split)
        with s(4,5) show ?thesis
          by (intro exI [of _ "Some ?b"] exI [of _ "st5\<lparr>sm_cells := C, sm_blocks := ?b # sm_blocks st5\<rparr>"] exI [of _ "[(?b, [(c, pages, ?sz div 8, 0)], [c])]"]) simp
      qed
    qed
  qed
qed

end

subsection \<open>Allocation by the library\<close>

context secure_os
begin

lemma secure_alloc_locked_ok:
  assumes ok: "secure_ok os taken st gs" and n: "0 < nbytes" "nbytes < 2 ^ 60"
  shows "\<exists>p st' gs'. secure_alloc_locked os nbytes st = Some (p, st') \<and> secure_ok os taken st' gs'
    \<and> allocated_at nbytes p (allocations st gs) (allocations st' gs')"
proof -
  have bl: "sm_blocks st = map fst gs" using ok by (simp add: secure_ok_def)
  have "secure_ok os taken (st\<lparr>sm_blocks := map fst ([] @ gs)\<rparr>) ([] @ gs)" using secure_ok_same [OF ok] by simp
  from alloc_in_blocks_ok [OF this n(1)] obtain p st1 h where a: "alloc_in_blocks os nbytes (map fst gs) st = Some (p, map fst h, st1)"
    "secure_ok os taken (st1\<lparr>sm_blocks := map fst h\<rparr>) h" "allocated_at nbytes p (allocations st gs) (allocations st1 h)" by auto
  let ?st1 = "st1\<lparr>sm_blocks := map fst h\<rparr>"
  show ?thesis
  proof (cases "p = 0")
    case False
    with a bl show ?thesis by (intro exI [of _ p] exI [of _ ?st1] exI [of _ h]) (simp add: secure_alloc_locked_def)
  next
    case True
    then have same: "allocations st1 h = allocations st gs" using a(3) by (simp add: allocated_at_def)
    from sec_block_create_ok [OF a(2) n] obtain r st2 hs where c: "sec_block_create os nbytes ?st1 = Some (r, st2)" "secure_ok os taken st2 (hs @ h)"
      "allocations st2 (hs @ h) = allocations ?st1 h" "case r of None \<Rightarrow> hs = [] | Some b \<Rightarrow> \<exists>c. hs = [(b, [(c, block_words b, block_n_words b, 0)], [c])]" by blast
    show ?thesis
    proof (cases r)
      case None
      with a(1) bl c True same show ?thesis
        by (intro exI [of _ 0] exI [of _ st2] exI [of _ h]) (simp add: secure_alloc_locked_def Let_def allocated_at_def)
    next
      case (Some b)
      with c(4) obtain xs rs where hs: "hs = [(b, xs, rs)]" by auto
      have bl2: "sm_blocks st2 = b # map fst h" using c(2) hs by (simp add: secure_ok_def)
      have "secure_ok os taken (st2\<lparr>sm_blocks := map fst ([] @ (b, xs, rs) # h)\<rparr>) ([] @ (b, xs, rs) # h)" using secure_ok_same [OF c(2)] hs by simp
      from sec_alloc_secure [OF this n(1)] obtain q b' st3 xs' rs' where s: "sec_alloc os b nbytes st2 = Some (q, b', st3)" "sm_blocks st3 = sm_blocks st2"
        "secure_ok os taken (st3\<lparr>sm_blocks := map fst ((b', xs', rs') # h)\<rparr>) ((b', xs', rs') # h)"
        "allocated_at nbytes q (allocations st2 ((b, xs, rs) # h)) (allocations st3 ((b', xs', rs') # h))" by auto
      have "allocations st2 ((b, xs, rs) # h) = allocations st gs" using c(3) hs same by simp
      with a(1) bl bl2 c(1) s Some True show ?thesis
        by (intro exI [of _ q] exI [of _ "st3\<lparr>sm_blocks := map fst ((b', xs', rs') # h)\<rparr>"] exI [of _ "(b', xs', rs') # h"])
          (simp add: secure_alloc_locked_def Let_def)
    qed
  qed
qed

lemma secure_world_frame:
  "secure_ok os taken st gs \<Longrightarrow> taken w = taken (sm_world st) \<Longrightarrow> secure_ok os taken (st\<lparr>sm_world := w\<rparr>) gs \<and> allocations (st\<lparr>sm_world := w\<rparr>) gs = allocations st gs"
  by (rule secure_frame) (auto simp: secure_ok_def meta_ok_def)

text \<open>Memory outside of the locked pages is no concern of the library.\<close>

lemma poke_outside:
  assumes "secure_ok os taken st gs" and "q \<noteq> 0" and "q \<notin> taken (sm_world st)"
  shows "poke os q bs st = Some (st\<lparr>sm_world := os_write os q bs (sm_world st)\<rparr>)"
    and "secure_ok os taken (st\<lparr>sm_world := os_write os q bs (sm_world st)\<rparr>) gs"
    and "allocations (st\<lparr>sm_world := os_write os q bs (sm_world st)\<rparr>) gs = allocations st gs"
proof -
  have "dom (sm_mem st) \<subseteq> taken (sm_world st)" using assms(1) by (simp add: secure_ok_def meta_ok_def)
  then have "sm_mem st q = None" using assms(3) by blast
  then show "poke os q bs st = Some (st\<lparr>sm_world := os_write os q bs (sm_world st)\<rparr>)" using assms(2) by (simp add: poke_def)
  show "secure_ok os taken (st\<lparr>sm_world := os_write os q bs (sm_world st)\<rparr>) gs"
    and "allocations (st\<lparr>sm_world := os_write os q bs (sm_world st)\<rparr>) gs = allocations st gs"
    using secure_world_frame [OF assms(1) write_ok] by blast+
qed

text \<open>
  What an allocation may do: fail, give memory that it did not take from the pages of the library when the caller allows that,
  or give a new piece of secure memory that is cleared.
\<close>

lemma egg_secure_alloc_full_ok:
  assumes ok: "secure_ok os taken st gs"
  shows "\<exists>p st' gs'. egg_secure_alloc_full os nbytes flags st = Some (p, st') \<and> secure_ok os taken st' gs'
    \<and> (allocated_at nbytes p (allocations st gs) (allocations st' gs')
       \<or> flags AND GKR_SECURE_USE_FALLBACK \<noteq> 0 \<and> p \<notin> taken (sm_world st') \<and> allocations st' gs' = allocations st gs)"
proof (cases "0xFFFFFFFF div 2 < nbytes \<or> nbytes = 0")
  case True
  with ok show ?thesis by (intro exI [of _ 0] exI [of _ st] exI [of _ gs]) (auto simp: egg_secure_alloc_full_def allocated_at_def)
next
  case False
  then have n: "0 < nbytes" "nbytes < 2 ^ 60" "\<not> 0xFFFFFFFF div 2 < nbytes" by auto
  from secure_alloc_locked_ok [OF ok n(1,2)] obtain p st1 gs1 where a: "secure_alloc_locked os nbytes st = Some (p, st1)" "secure_ok os taken st1 gs1"
    "allocated_at nbytes p (allocations st gs) (allocations st1 gs1)" by blast
  show ?thesis
  proof (cases "p = 0 \<and> flags AND GKR_SECURE_USE_FALLBACK \<noteq> 0")
    case False
    with a n show ?thesis by (intro exI [of _ p] exI [of _ st1] exI [of _ gs1]) (auto simp: egg_secure_alloc_full_def)
  next
    case True
    then have same: "allocations st1 gs1 = allocations st gs" using a(3) by (simp add: allocated_at_def)
    obtain q w where f: "egg_memory_fallback os 0 nbytes (sm_world st1) = (q, w)" by force
    then have w: "taken w = taken (sm_world st1)" "q \<notin> taken w" using fallback_ok by auto
    have ok2: "secure_ok os taken (st1\<lparr>sm_world := w\<rparr>) gs1" "allocations (st1\<lparr>sm_world := w\<rparr>) gs1 = allocations st gs"
      using secure_world_frame [OF a(2) w(1)] same by simp_all
    show ?thesis
    proof (cases "q = 0")
      case q: True
      with a(1) n f ok2 True show ?thesis
        by (intro exI [of _ 0] exI [of _ "st1\<lparr>sm_world := w\<rparr>"] exI [of _ gs1]) (simp add: egg_secure_alloc_full_def allocated_at_def)
    next
      case q: False
      note P = poke_outside [OF ok2(1) q, of "replicate nbytes 0"]
      with a(1) n f ok2 True q w write_ok show ?thesis
        by (intro exI [of _ q] exI [of _ "st1\<lparr>sm_world := os_write os q (replicate nbytes 0) w\<rparr>"] exI [of _ gs1]) (simp add: egg_secure_alloc_full_def)
    qed
  qed
qed

end

section \<open>Release\<close>

lemma block_of_held:
  assumes ok: "secure_ok os taken st (g1 @ (b, xs, rs) # g2)" and p: "p \<in> block_area b"
  shows "block_of (sm_blocks st) p = Some (length g1)" and "sm_blocks st ! length g1 = b"
proof -
  have bl: "sm_blocks st = map fst (g1 @ (b, xs, rs) # g2)" using ok by (simp add: secure_ok_def)
  have valid: "sec_is_valid_word c p \<longleftrightarrow> p \<in> block_area c" for c by (simp add: sec_is_valid_word_def block_area_def block_end_def)
  have "\<forall>g \<in> set g1. block_area b \<inter> block_area (fst g) = {}" using ok by (simp add: secure_ok_def apart_middle)
  then have "\<forall>g \<in> set g1. p \<notin> block_area (fst g)" using p by blast
  then have "block_of (map fst (g1 @ (b, xs, rs) # g2)) p = Some (length g1)" by (induction g1) (use p in \<open>simp_all add: valid\<close>)
  with bl show "block_of (sm_blocks st) p = Some (length g1)" by simp
  show "sm_blocks st ! length g1 = b" using bl nth_append_length [of "map fst g1" b "map fst g2"] by simp
qed

lemma ghost_self: "g \<in> set gs \<Longrightarrow> block_self (fst g) \<in> items gs"
  by (cases g) (force simp: items_def ghost_items_def)

lemma remove_block_middle:
  "\<forall>g \<in> set g1. block_self (fst g) \<noteq> block_self b \<Longrightarrow> remove_block (block_self b) (map fst (g1 @ (b, xs, rs) # g2)) = Some (map fst (g1 @ g2))"
  by (induction g1) simp_all

lemma unused_cells_all: "used_count xs = 0 \<Longrightarrow> unused_cells xs = tile_cells xs"
  by (induction xs) (auto simp: used_count_def unused_cells_def tile_cells_def split: if_splits)

lemma held_none: "used_count xs = 0 \<Longrightarrow> held M xs = {}"
proof (induction xs)
  case (Cons t xs)
  then show ?case by (cases t) (auto simp: held_tile_simps split: if_splits)
qed (simp add: held_tile_simps)

context secure_os
begin

lemma sec_release_cells_ok:
  assumes "ring (sm_cells st) rs" and "meta_ok taken st (U \<union> set rs)" and "U \<inter> set rs = {}"
  shows "\<exists>st'. sec_release_cells os (ring_head rs) st = Some st' \<and> sm_blocks st' = sm_blocks st \<and> sm_mem st' = sm_mem st
    \<and> (\<forall>c \<in> U. sm_cells st' c = sm_cells st c) \<and> meta_ok taken st' U"
  using assms
proof (induction rs arbitrary: st)
  case Nil
  then show ?case by (simp add: sec_release_cells.simps)
next
  case (Cons c vs)
  have c: "c \<noteq> 0" "c \<notin> set vs" "c \<notin> U" using Cons.prems(1,3) by (auto simp: ring_def)
  from sec_remove_cell_ring_ok [of "sm_cells st" "[]" c vs] Cons.prems(1) obtain C where r:
    "sec_remove_cell_ring c c (sm_cells st) = Some (ring_head vs, C)" "ring C vs" "relinked (set (c # vs)) (sm_cells st) C" by auto
  have "meta_ok taken (st\<lparr>sm_cells := C\<rparr>) (insert c (U \<union> set vs))" using Cons.prems(2) by simp
  from pool_free_state [OF this, of c] obtain st1 where f: "pool_free os c (st\<lparr>sm_cells := C\<rparr>) = Some st1" "sm_blocks st1 = sm_blocks st"
    "sm_mem st1 = sm_mem st" "sm_cells st1 = C(c := None)" "meta_ok taken st1 (insert c (U \<union> set vs) - {c})" by auto
  have "same_links (set vs) C (sm_cells st1)" using f(4) c(2) by (auto simp: same_links_def)
  then have "ring (sm_cells st1) vs" using r(2) ring_cong by blast
  moreover have "insert c (U \<union> set vs) - {c} = U \<union> set vs" using c(2,3) by auto
  then have "meta_ok taken st1 (U \<union> set vs)" using f(5) by simp
  moreover have "U \<inter> set vs = {}" using Cons.prems(3) by auto
  ultimately obtain st2 where s: "sec_release_cells os (ring_head vs) st1 = Some st2" "sm_blocks st2 = sm_blocks st1" "sm_mem st2 = sm_mem st1"
    "\<forall>d \<in> U. sm_cells st2 d = sm_cells st1 d" "meta_ok taken st2 U" using Cons.IH by blast
  have "sec_release_cells os (ring_head (c # vs)) st = Some st2" using c(1) r(1) f(1) s(1) by (simp add: sec_release_cells.simps [of _ c])
  moreover have "\<forall>d \<in> U. sm_cells st2 d = sm_cells st d"
    using s(4) f(4) r(3) Cons.prems(3) by (auto simp: relinked_def)
  ultimately show ?case using s f by auto
qed

lemma sec_release_pages_ok:
  assumes "meta_ok taken st U" and "span pages sz \<subseteq> dom (sm_mem st)" and "pages \<noteq> 0" and "sz mod os_pagesize os = 0"
  shows "\<exists>st'. sec_release_pages os pages sz st = Some st' \<and> sm_blocks st' = sm_blocks st \<and> sm_cells st' = sm_cells st
    \<and> sm_mem st' = (\<lambda>a. if a \<in> span pages sz then None else sm_mem st a) \<and> meta_ok taken st' U"
proof -
  let ?m = "\<lambda>a. if pages \<le> a \<and> a < pages + sz then None else sm_mem st a"
  let ?st = "st\<lparr>sm_world := os_munmap os pages sz (sm_world st), sm_mem := ?m\<rparr>"
  have dom: "dom ?m = dom (sm_mem st) - span pages sz" by (auto simp: dom_def)
  have T: "taken (os_munmap os pages sz (sm_world st)) = taken (sm_world st) - span pages sz" by (rule munmap_ok)
  have apart: "(\<Union>pool \<in> set (sm_pools st). pool_area pool) \<inter> span pages sz = {}" using assms(1,2) unfolding meta_ok_def by blast
  then have pools: "pools_ok (taken (sm_world st) - span pages sz) (sm_pools st) U"
    using assms(1) unfolding meta_ok_def pools_ok_def by blast
  have "meta_ok taken ?st U" unfolding meta_ok_def using pools dom T assms(1) by (auto simp: meta_ok_def)
  with assms(3,4) show ?thesis by (intro exI [of _ ?st]) (simp add: sec_release_pages_def)
qed

lemma sec_block_destroy_ok:
  assumes ok: "secure_ok os taken st (g1 @ (b, xs, rs) # g2)" and u: "block_used b = 0"
  shows "\<exists>st'. sec_block_destroy os b st = Some st' \<and> secure_ok os taken st' (g1 @ g2)
    \<and> allocations st' (g1 @ g2) = allocations st (g1 @ (b, xs, rs) # g2)
    \<and> sm_mem st' = (\<lambda>a. if a \<in> block_area b then None else sm_mem st a)"
proof -
  have g: "ghost_ok os st (b, xs, rs)" using ok by (simp add: secure_ok_def)
  then have bok: "block_ok (sm_cells st) (sm_mem st) b xs rs" "used_count xs = 0" "block_n_words b * 8 mod os_pagesize os = 0"
    using u by (simp_all add: ghost_ok_def)
  note B = block_okD [OF bok(1)]
  have ap: "block_self b \<notin> tile_cells xs" "block_self b \<notin> items (g1 @ g2)" "tile_cells xs \<inter> items (g1 @ g2) = {}" "apart (g1 @ g2)"
    "\<forall>g \<in> set (g1 @ g2). block_area b \<inter> block_area (fst g) = {}" using ok by (simp_all add: secure_ok_def apart_middle)
  have area: "block_area b = span (block_words b) (block_n_words b * 8)" by (simp add: block_area_def block_end_def mult.commute)
  have bl: "sm_blocks st = map fst (g1 @ (b, xs, rs) # g2)" using ok by (simp add: secure_ok_def)
  have "\<forall>g \<in> set g1. block_self (fst g) \<noteq> block_self b" using ap(2) ghost_self by (metis Un_iff items_simps(3))
  then have rm: "remove_block (block_self b) (sm_blocks st) = Some (map fst (g1 @ g2))" unfolding bl by (rule remove_block_middle)
  let ?U = "insert (block_self b) (items (g1 @ g2))" and ?st = "st\<lparr>sm_blocks := map fst (g1 @ g2)\<rparr>"
  have rs: "set rs = tile_cells xs" "ring (sm_cells ?st) rs" "block_unused b = ring_head rs" using bok unused_cells_all by (simp_all add: block_ok_def)
  have "items (g1 @ (b, xs, rs) # g2) = ?U \<union> set rs" using rs(1) by auto
  then have "meta_ok taken ?st (?U \<union> set rs)" using ok by (simp add: secure_ok_def)
  moreover have "?U \<inter> set rs = {}" using ap(1,3) rs(1) by auto
  ultimately obtain st1 where "sec_release_cells os (ring_head rs) ?st = Some st1" "sm_blocks st1 = sm_blocks ?st" "sm_mem st1 = sm_mem ?st"
    "\<forall>c \<in> ?U. sm_cells st1 c = sm_cells ?st c" "meta_ok taken st1 ?U" using sec_release_cells_ok [OF rs(2)] by blast
  then have s1: "sec_release_cells os (block_unused b) ?st = Some st1" "sm_blocks st1 = map fst (g1 @ g2)" "sm_mem st1 = sm_mem st"
    "\<forall>c \<in> ?U. sm_cells st1 c = sm_cells st c" "meta_ok taken st1 ?U" using rs(3) by simp_all
  have "span (block_words b) (block_n_words b * 8) \<subseteq> dom (sm_mem st1)" "block_words b \<noteq> 0" using bok(1) area s1(3) by (auto simp: block_ok_def block_area_def)
  from sec_release_pages_ok [OF s1(5) this bok(3)] obtain st2 where s2: "sec_release_pages os (block_words b) (block_n_words b * 8) st1 = Some st2"
    "sm_blocks st2 = sm_blocks st1" "sm_cells st2 = sm_cells st1" "sm_mem st2 = (\<lambda>a. if a \<in> block_area b then None else sm_mem st a)" "meta_ok taken st2 ?U"
    unfolding area s1(3) by blast
  obtain st3 where s3: "pool_free os (block_self b) st2 = Some st3" "sm_blocks st3 = sm_blocks st2" "sm_mem st3 = sm_mem st2"
    "sm_cells st3 = (sm_cells st2)(block_self b := None)" "meta_ok taken st3 (?U - {block_self b})" using pool_free_state [OF s2(5), of "block_self b"] by blast
  have run: "sec_block_destroy os b st = Some st3" using u rm s1(1) s2(1) s3(1) B(2) by (simp add: sec_block_destroy_def)
  have cells: "sm_cells st3 c = sm_cells st c" if "c \<in> items (g1 @ g2)" for c
  proof -
    have "c \<noteq> block_self b" using that ap(2) by blast
    with that show ?thesis using s1(4) s2(3) s3(4) by auto
  qed
  have mem: "sm_mem st3 x = sm_mem st x" if "g \<in> set (g1 @ g2)" "x \<in> block_area (fst g)" for g x
  proof -
    have "x \<notin> block_area b" using that ap(5) by blast
    then show ?thesis using s2(4) s3(3) by simp
  qed
  have f: "(\<forall>g \<in> set (g1 @ g2). ghost_ok os st3 g) \<and> allocations st3 (g1 @ g2) = allocations st (g1 @ g2)"
    by (rule ghosts_frame) (use ok in \<open>simp add: secure_ok_def\<close>, rule cells, simp, rule mem, simp_all)
  moreover have "?U - {block_self b} = items (g1 @ g2)" using ap(2) by auto
  ultimately have "secure_ok os taken st3 (g1 @ g2)" using s1(2) s2(2) s3 ap(4) by (simp add: secure_ok_def)
  with run f s2(4) s3(3) held_none [OF bok(2)] show ?thesis by (intro exI [of _ st3]) auto
qed

end

lemma allocation_block:
  assumes "(p, bs) \<in> allocations st gs"
  obtains g1 b xs rs g2 where "gs = g1 @ (b, xs, rs) # g2" "(p, bs) \<in> held (sm_mem st) xs"
proof -
  from assms obtain b xs rs where "(b, xs, rs) \<in> set gs" "(p, bs) \<in> held (sm_mem st) xs" by (auto simp: allocations_def)
  with split_list [of "(b, xs, rs)" gs] that show thesis by metis
qed

lemma allocations_without:
  assumes ok: "secure_ok os taken st (g1 @ (b, xs, rs) # g2)" and p: "(p, bs) \<in> held (sm_mem st) xs"
  shows "allocations st g1 \<union> (held (sm_mem st) xs - {(p, bs)}) \<union> allocations st g2 = allocations st (g1 @ (b, xs, rs) # g2) - {(p, bs)}"
proof -
  have "ghost_ok os st (b, xs, rs)" using ok by (simp add: secure_ok_def)
  then have "p \<in> block_area b" using held_area(2) [OF ghost_ok_block p] by simp
  then have "(p, bs) \<notin> allocations st (g1 @ g2)" using allocations_elsewhere [OF ok] by force
  then show ?thesis by auto
qed

context secure_os
begin

lemma write_back_ok:
  assumes "sm_blocks st = map fst (g1 @ (b, xs, rs) # g2)"
    and ok: "secure_ok os taken (st\<lparr>sm_blocks := map fst g1 @ b' # map fst g2\<rparr>) (g1 @ (b', xs', rs') # g2)"
  shows "\<exists>st' gs'. write_back os (length g1) b' st = Some st' \<and> secure_ok os taken st' gs' \<and> allocations st' gs' = allocations st (g1 @ (b', xs', rs') # g2)
    \<and> (\<forall>a. sm_mem st' a = None \<or> sm_mem st' a = sm_mem st a)
    \<and> (0 < block_used b' \<longrightarrow> st' = st\<lparr>sm_blocks := map fst g1 @ b' # map fst g2\<rparr> \<and> gs' = g1 @ (b', xs', rs') # g2)"
proof -
  have bl: "(sm_blocks st)[length g1 := b'] = map fst g1 @ b' # map fst g2" unfolding assms(1) by (simp add: list_update_append)
  show ?thesis
  proof (cases "block_used b' = 0")
    case True
    let ?st = "st\<lparr>sm_blocks := map fst g1 @ b' # map fst g2\<rparr>"
    from sec_block_destroy_ok [OF ok True] obtain st' where d: "sec_block_destroy os b' ?st = Some st'" "secure_ok os taken st' (g1 @ g2)"
      "allocations st' (g1 @ g2) = allocations ?st (g1 @ (b', xs', rs') # g2)" "sm_mem st' = (\<lambda>a. if a \<in> block_area b' then None else sm_mem ?st a)" by blast
    then show ?thesis using bl True by (intro exI [of _ st'] exI [of _ "g1 @ g2"]) (simp add: write_back_def)
  next
    case False
    with ok bl show ?thesis by (auto simp: write_back_def)
  qed
qed

lemma egg_secure_free_full_ok:
  assumes ok: "secure_ok os taken st gs" and p: "(p, bs) \<in> allocations st gs"
  shows "\<exists>st' gs'. egg_secure_free_full os p flags st = Some st' \<and> secure_ok os taken st' gs' \<and> allocations st' gs' = allocations st gs - {(p, bs)}
    \<and> (\<forall>x \<in> span p (length bs). sm_mem st' x = None \<or> sm_mem st' x = Some 0) \<and> dom (sm_mem st') \<subseteq> dom (sm_mem st)"
proof -
  from allocation_block [OF p] obtain g1 b xs rs g2 where gs: "gs = g1 @ (b, xs, rs) # g2" and h: "(p, bs) \<in> held (sm_mem st) xs" by blast
  note ok' = ok [unfolded gs]
  let ?V = "other_items g1 b g2"
  have g: "ghost_ok os st (b, xs, rs)" using ok' by (simp add: secure_ok_def)
  have pa: "p \<in> block_area b" "8 < p" using held_area [OF ghost_ok_block [OF g] h] by simp_all
  from sec_free_held [OF secure_arena [OF ok'] h] obtain b' st1 xs' rs' where f: "sec_free os b p st = Some (b', st1)"
    "arena taken ?V st1 b' xs' rs'" "outside ?V st b st1 b'" "block_used b' = block_used b - 1" "used_count xs = used_count xs' + 1"
    "held (sm_mem st1) xs' = held (sm_mem st) xs - {(p, bs)}" "\<forall>x \<in> span p (length bs). sm_mem st1 x = Some 0" by blast
  have u: "block_used b' = used_count xs'" using f(4,5) g by (simp add: ghost_ok_def)
  note S = secure_step [OF ok' f(3,2) u]
  have bl: "sm_blocks st1 = map fst (g1 @ (b, xs, rs) # g2)" using f(3) ok' by (simp add: outside_def secure_ok_def)
  from write_back_ok [OF bl S(1)] obtain st' gs' where w: "write_back os (length g1) b' st1 = Some st'" "secure_ok os taken st' gs'"
    "allocations st' gs' = allocations st1 (g1 @ (b', xs', rs') # g2)" "\<forall>a. sm_mem st' a = None \<or> sm_mem st' a = sm_mem st1 a" by blast
  have "egg_secure_free_full os p flags st = Some st'" using pa(2) block_of_held [OF ok' pa(1)] f(1) w(1) by (simp add: egg_secure_free_full_def)
  moreover have "allocations st' gs' = allocations st gs - {(p, bs)}"
    using w(3) S(2) f(6) allocations_without [OF ok' h] gs by simp
  moreover have "\<forall>x \<in> span p (length bs). sm_mem st' x = None \<or> sm_mem st' x = Some 0" using w(4) f(7) by metis
  moreover have "dom (sm_mem st') \<subseteq> dom (sm_mem st)"
  proof
    fix a assume "a \<in> dom (sm_mem st')"
    then have "sm_mem st1 a \<noteq> None" using w(4) by (metis domIff)
    moreover have "a \<in> block_area b \<Longrightarrow> a \<in> dom (sm_mem st)" using ghost_area_dom [OF ok', of "(b, xs, rs)"] by auto
    moreover have "a \<notin> block_area b \<Longrightarrow> sm_mem st1 a = sm_mem st a" using f(3) by (simp add: outside_def block_area_def)
    ultimately show "a \<in> dom (sm_mem st)" by (cases "a \<in> block_area b") auto
  qed
  ultimately show ?thesis using w(2) by blast
qed

end

section \<open>The bytes of the program\<close>

lemma allocation_bytes:
  assumes ok: "secure_ok os taken st gs" and p: "(p, bs) \<in> allocations st gs"
  shows "get_bytes (sm_mem st) p (length bs) = Some bs" and "0 < length bs" and "8 < p"
proof -
  from allocation_block [OF p] obtain g1 b xs rs g2 where gs: "gs = g1 @ (b, xs, rs) # g2" and h: "(p, bs) \<in> held (sm_mem st) xs" by blast
  have "ghost_ok os st (b, xs, rs)" using ok gs by (simp add: secure_ok_def)
  then have b: "block_ok (sm_cells st) (sm_mem st) b xs rs" by (rule ghost_ok_block)
  show "0 < length bs" and "8 < p" using held_area [OF b h] by simp_all
  show "get_bytes (sm_mem st) p (length bs) = Some bs" using held_split [OF block_okD(1) [OF b] h] by metis
qed

text \<open>The program writes into its memory.\<close>

lemma secure_write:
  assumes ok: "secure_ok os taken st gs" and p: "(p, bs) \<in> allocations st gs" and i: "i + length ds \<le> length bs"
  shows "\<exists>M' gs'. put_bytes (p + i) ds (sm_mem st) = Some M' \<and> secure_ok os taken (st\<lparr>sm_mem := M'\<rparr>) gs'
    \<and> allocations (st\<lparr>sm_mem := M'\<rparr>) gs' = insert (p, take i bs @ ds @ drop (i + length ds) bs) (allocations st gs - {(p, bs)})"
proof -
  from allocation_block [OF p] obtain g1 b xs rs g2 where gs: "gs = g1 @ (b, xs, rs) # g2" and h: "(p, bs) \<in> held (sm_mem st) xs" by blast
  note ok' = ok [unfolded gs]
  from write_held [OF secure_arena [OF ok'] h i] obtain M' where w: "put_bytes (p + i) ds (sm_mem st) = Some M'"
    "arena taken (other_items g1 b g2) (st\<lparr>sm_mem := M'\<rparr>) b xs rs" "outside (other_items g1 b g2) st b (st\<lparr>sm_mem := M'\<rparr>) b"
    "held M' xs = insert (p, take i bs @ ds @ drop (i + length ds) bs) (held (sm_mem st) xs - {(p, bs)})" by blast
  have u: "block_used b = used_count xs" using ok' by (simp add: secure_ok_def ghost_ok_def)
  note S = secure_step [OF ok' w(3,2) u]
  let ?st = "st\<lparr>sm_mem := M'\<rparr>"
  have bl: "?st\<lparr>sm_blocks := map fst g1 @ b # map fst g2\<rparr> = ?st" using ok' by (simp add: secure_ok_def)
  have "allocations ?st (g1 @ (b, xs, rs) # g2) = insert (p, take i bs @ ds @ drop (i + length ds) bs) (allocations st gs - {(p, bs)})"
    using S(2) w(4) allocations_without [OF ok' h] gs unfolding bl by auto
  with w(1) S(1) [unfolded bl] show ?thesis by blast
qed

text \<open>No two allocations share an address.\<close>

lemma held_apart:
  assumes t: "tiled lo xs hi" and ok: "\<forall>t \<in> set xs. tile_ok C M t" and p: "(p, bs) \<in> held M xs" and q: "(q, ds) \<in> held M xs" and ne: "(p, bs) \<noteq> (q, ds)"
  shows "span p (length bs) \<inter> span q (length ds) = {}"
proof -
  from held_split [OF t p] obtain pre c w n post where x: "xs = pre @ (c, w, n, length bs) # post" "p = w + 8" "(q, ds) \<in> held M pre \<union> held M post" using ne q by (metis insert_iff prod.inject)
  have a: "length bs \<le> 8 * (n - 2)" "2 \<le> n" using ok x(1) by auto
  from t x(1) have pp: "tiled lo pre w" "tiled (w + 8 * n) post hi" by (auto simp: tiled_append)
  from x(3) show ?thesis
  proof
    assume h: "(q, ds) \<in> held M pre"
    from held_split [OF pp(1) h] obtain pre2 c2 w2 n2 post2 where y: "pre = pre2 @ (c2, w2, n2, length ds) # post2" "q = w2 + 8" by metis
    have "length ds \<le> 8 * (n2 - 2)" "2 \<le> n2" using ok x(1) y(1) by auto
    moreover have "w2 + 8 * n2 \<le> w" using tiled_area [OF pp(1), of c2 w2 n2 "length ds"] y(1) by simp
    ultimately show ?thesis using x(2) y(2) by auto
  next
    assume h: "(q, ds) \<in> held M post"
    from held_split [OF pp(2) h] obtain pre2 c2 w2 n2 post2 where y: "post = pre2 @ (c2, w2, n2, length ds) # post2" "q = w2 + 8" by metis
    have "w + 8 * n \<le> w2" using tiled_area [OF pp(2), of c2 w2 n2 "length ds"] y(1) by simp
    then show ?thesis using x(2) y(2) a by auto
  qed
qed

lemma allocations_apart:
  assumes ok: "secure_ok os taken st gs" and p: "(p, bs) \<in> allocations st gs" and q: "(q, ds) \<in> allocations st gs" and ne: "(p, bs) \<noteq> (q, ds)"
  shows "span p (length bs) \<inter> span q (length ds) = {}"
proof -
  from allocation_block [OF p] obtain g1 b xs rs g2 where gs: "gs = g1 @ (b, xs, rs) # g2" and h: "(p, bs) \<in> held (sm_mem st) xs" by blast
  have b: "block_ok (sm_cells st) (sm_mem st) b xs rs" using ok gs by (simp add: secure_ok_def ghost_ok_def)
  show ?thesis
  proof (cases "(q, ds) \<in> held (sm_mem st) xs")
    case True
    show ?thesis by (rule held_apart [OF block_okD(1) [OF b] block_okD(5) [OF b] h True ne])
  next
    case False
    then obtain b' xs' rs' where g: "(b', xs', rs') \<in> set (g1 @ g2)" "(q, ds) \<in> held (sm_mem st) xs'" using q gs by (auto simp: allocations_def)
    have "(b', xs', rs') \<in> set gs" using g(1) gs by auto
    then have b': "block_ok (sm_cells st) (sm_mem st) b' xs' rs'" using ghost_ok_block [OF secure_ok_ghost [OF ok]] by blast
    have "\<forall>g \<in> set (g1 @ g2). block_area b \<inter> block_area (fst g) = {}" using ok gs by (simp add: secure_ok_def apart_middle)
    then have "block_area b \<inter> block_area b' = {}" using g(1) by (metis fst_conv)
    then show ?thesis using held_area(1) [OF b h] held_area(1) [OF b' g(2)] by blast
  qed
qed

section \<open>Reallocation\<close>

text \<open>
  What releasing memory does to the outside world: it unmaps pages. \<open>copied_out os q bs w\<close>: the bytes \<open>bs\<close> were written to
  memory outside of the pages at \<open>q\<close>, and after that nothing but unmapping was done.
\<close>

definition unmapped :: "'w OS \<Rightarrow> 'w \<Rightarrow> 'w \<Rightarrow> bool" where
  "unmapped os w w' \<longleftrightarrow> (\<exists>us. w' = fold (\<lambda>(a, n). os_munmap os a n) us w)"

definition copied_out :: "'w OS \<Rightarrow> nat \<Rightarrow> bytes \<Rightarrow> 'w \<Rightarrow> bool" where
  "copied_out os q bs w' \<longleftrightarrow> (\<exists>w. unmapped os (os_write os q bs w) w')"

lemma unmapped_refl [simp]: "unmapped os w w"
  unfolding unmapped_def by (intro exI [of _ "[]"]) simp

lemma unmapped_one: "unmapped os w (os_munmap os a n w)"
  unfolding unmapped_def by (intro exI [of _ "[(a, n)]"]) simp

lemma unmapped_trans: "unmapped os w w1 \<Longrightarrow> unmapped os w1 w2 \<Longrightarrow> unmapped os w w2"
  unfolding unmapped_def by (metis fold_append comp_apply)

lemma pool_release_unmapped: "pool_release os item pools w = Some (pools', w') \<Longrightarrow> unmapped os w w'"
  by (induction os item pools w arbitrary: pools' rule: pool_release.induct)
    (auto simp: bind_eq_Some_conv unmapped_one split: if_split_asm prod.split_asm)

lemma pool_free_unmapped: "pool_free os item st = Some st' \<Longrightarrow> unmapped os (sm_world st) (sm_world st')"
  by (auto simp: pool_free_def bind_eq_Some_conv dest: pool_release_unmapped)

lemma same_world:
  "set_cell c f st = Some st' \<Longrightarrow> sm_world st' = sm_world st"
  "sec_write_guards c st = Some st' \<Longrightarrow> sm_world st' = sm_world st"
  "sec_unlink b c st = Some (b', st') \<Longrightarrow> sm_world st' = sm_world st"
  by (auto simp: set_cell_def sec_write_guards_def sec_unlink_def bind_eq_Some_conv split: prod.split_asm)

lemma merge_unmapped:
  "sec_merge_before os b c st = Some (c', st') \<Longrightarrow> unmapped os (sm_world st) (sm_world st')"
  "sec_merge_after os b c st = Some (c', b', st') \<Longrightarrow> unmapped os (sm_world st) (sm_world st')"
proof -
  assume "sec_merge_before os b c st = Some (c', st')"
  then show "unmapped os (sm_world st) (sm_world st')"
    by (auto simp: sec_merge_before_def bind_eq_Some_conv dest!: same_world(1,2) pool_free_unmapped split: if_split_asm)
next
  assume "sec_merge_after os b c st = Some (c', b', st')"
  then show "unmapped os (sm_world st) (sm_world st')"
    by (auto simp: sec_merge_after_def bind_eq_Some_conv dest!: same_world pool_free_unmapped split: if_split_asm prod.split_asm)
qed

lemma sec_free_unmapped:
  assumes "sec_free os b p st = Some (b', st')"
  shows "unmapped os (sm_world st) (sm_world st')"
proof -
  from assms obtain m c c2 st2 c3 b3 st3 where
    1: "sec_merge_before os b c (st\<lparr>sm_mem := m\<rparr>) = Some (c2, st2)" "sec_merge_after os b c2 st2 = Some (c3, b3, st3)"
    and w: "sm_world st' = sm_world st3"
    by (auto simp: sec_free_def bind_eq_Some_conv Let_def dest!: same_world(1) split: if_split_asm prod.split_asm)
  from merge_unmapped(1) [OF 1(1)] merge_unmapped(2) [OF 1(2)] w show ?thesis by (auto intro: unmapped_trans)
qed

lemma release_cells_unmapped:
  assumes "sec_release_cells os r st = Some st'"
  shows "unmapped os (sm_world st) (sm_world st')"
proof (rule sec_release_cells.raw_induct [OF _ assms], goal_cases)
  case (1 f os r st st')
  from 1(2) show ?case
    by (auto simp: bind_eq_Some_conv split: if_split_asm prod.split_asm dest!: pool_free_unmapped 1(1) intro: unmapped_trans)
qed

lemma block_destroy_unmapped:
  assumes "sec_block_destroy os b st = Some st'"
  shows "unmapped os (sm_world st) (sm_world st')"
proof -
  from assms obtain bls st1 st2 where 1: "sec_release_cells os (block_unused b) (st\<lparr>sm_blocks := bls\<rparr>) = Some st1"
    "sec_release_pages os (block_words b) (block_n_words b * 8) st1 = Some st2" "pool_free os (block_self b) st2 = Some st'"
    by (auto simp: sec_block_destroy_def bind_eq_Some_conv)
  have "unmapped os (sm_world st1) (sm_world st2)" using 1(2) unmapped_one by (auto simp: sec_release_pages_def bind_eq_Some_conv)
  with release_cells_unmapped [OF 1(1)] pool_free_unmapped [OF 1(3)] show ?thesis by (auto intro: unmapped_trans)
qed

lemma secure_free_unmapped:
  assumes "egg_secure_free_full os p flags st = Some st'" and "block_of (sm_blocks st) p \<noteq> None"
  shows "unmapped os (sm_world st) (sm_world st')"
proof (cases "p = 0")
  case False
  with assms obtain i b st1 where "sec_free os (sm_blocks st ! i) p st = Some (b, st1)" "write_back os i b st1 = Some st'"
    by (auto simp: egg_secure_free_full_def bind_eq_Some_conv)
  then show ?thesis
    by (auto simp: write_back_def Let_def dest!: sec_free_unmapped block_destroy_unmapped split: if_split_asm intro: unmapped_trans)
qed (use assms(1) in \<open>simp add: egg_secure_free_full_def\<close>)

text \<open>The bytes that both the old and the new allocation have are kept.\<close>

definition moved_to :: "nat \<Rightarrow> bytes \<Rightarrow> nat \<Rightarrow> nat \<Rightarrow> (nat \<times> bytes) set \<Rightarrow> (nat \<times> bytes) set \<Rightarrow> bool" where
  "moved_to p old nbytes q H H' \<longleftrightarrow> (\<exists>new. length new = nbytes \<and> take (length old) new = take nbytes old
     \<and> q \<notin> fst ` (H - {(p, old)}) \<and> H' = insert (q, new) (H - {(p, old)}))"

context secure_os
begin

lemma sec_allocated_held:
  assumes ar: "arena taken V st b xs rs" and p: "(p, bs) \<in> held (sm_mem st) xs"
  shows "sec_allocated b p st = Some (length bs)"
proof -
  note B = block_okD [OF arenaD(1) [OF ar]]
  from held_split [OF B(1) p] obtain pre c w n post where x: "xs = pre @ (c, w, n, length bs) # post" "p = w + 8" "0 < length bs" by metis
  have "tile_ok (sm_cells st) (sm_mem st) (c, w, n, length bs)" using B(5) x(1) by auto
  then obtain y where y: "sm_cells st c = Some y" "cell_allocated y = length bs" "cell_next y = 0" "cell_prev y = 0"
    using x(3) by (auto simp: cell_ok_def payload_def)
  with sec_lookup_ok [OF ar [unfolded x(1)]] x(2,3) show ?thesis by (simp add: sec_allocated_def)
qed

text \<open>The end of a reallocation that has to move: the bytes are copied and the old memory is released.\<close>

lemma realloc_copy:
  assumes ok: "secure_ok os taken st gs" and p: "(p, old) \<in> allocations st gs" and q: "q \<noteq> 0" and k: "length old < nbytes"
    and new: "q \<notin> fst ` (allocations st gs - {(q, replicate nbytes 0)}) \<and> p \<noteq> q \<and> (q, replicate nbytes 0) \<in> allocations st gs \<or> q \<notin> taken (sm_world st)"
  shows "\<exists>st4 st5 gs'. those (map (\<lambda>a. peek os a st) [p..<p + length old]) = Some old \<and> poke os q old st = Some st4
    \<and> egg_secure_free_full os p flags st4 = Some st5 \<and> secure_ok os taken st5 gs'
    \<and> (if q \<in> fst ` allocations st gs then allocations st5 gs' = insert (q, old @ replicate (nbytes - length old) 0) (allocations st gs - {(q, replicate nbytes 0)} - {(p, old)})
       else allocations st5 gs' = allocations st gs - {(p, old)} \<and> q \<notin> dom (sm_mem st5) \<and> copied_out os q old (sm_world st5))"
proof -
  note A = allocation_bytes [OF ok p]
  have "map (\<lambda>a. peek os a st) [p..<p + length old] = map (sm_mem st) [p..<p + length old]"
    using A(1) by (intro map_cong refl) (auto simp: get_bytes_Some peek_def dest!: le_Suc_ex split: option.splits)
  then have rd: "those (map (\<lambda>a. peek os a st) [p..<p + length old]) = Some old" using A(1) unfolding get_bytes_def by (rule ssubst)
  show ?thesis
  proof (cases "q \<in> fst ` allocations st gs")
    case True
    then have dq: "q \<in> dom (sm_mem st)" using allocation_bytes [OF ok] by (force simp: get_bytes_Some)
    moreover have "dom (sm_mem st) \<subseteq> taken (sm_world st)" using ok by (simp add: secure_ok_def meta_ok_def)
    ultimately have n: "q \<notin> fst ` (allocations st gs - {(q, replicate nbytes 0)})" "p \<noteq> q" "(q, replicate nbytes 0) \<in> allocations st gs" using new by blast+
    have "0 + length old \<le> length (replicate nbytes (0 :: byte))" using k by simp
    from secure_write [OF ok n(3) this] k obtain M' gs4 where w: "put_bytes q old (sm_mem st) = Some M'" "secure_ok os taken (st\<lparr>sm_mem := M'\<rparr>) gs4"
      "allocations (st\<lparr>sm_mem := M'\<rparr>) gs4 = insert (q, old @ replicate (nbytes - length old) 0) (allocations st gs - {(q, replicate nbytes 0)})" by auto
    have pk: "poke os q old st = Some (st\<lparr>sm_mem := M'\<rparr>)" using q dq w(1) by (auto simp: poke_def)
    have "(p, old) \<in> allocations (st\<lparr>sm_mem := M'\<rparr>) gs4" using w(3) p n(2) by auto
    from egg_secure_free_full_ok [OF w(2) this, of flags] obtain st5 gs' where f: "egg_secure_free_full os p flags (st\<lparr>sm_mem := M'\<rparr>) = Some st5"
      "secure_ok os taken st5 gs'" "allocations st5 gs' = allocations (st\<lparr>sm_mem := M'\<rparr>) gs4 - {(p, old)}" by blast
    have "allocations st5 gs' = insert (q, old @ replicate (nbytes - length old) 0) (allocations st gs - {(q, replicate nbytes 0)} - {(p, old)})"
      using f(3) w(3) n(2) by auto
    with rd pk f(1,2) True show ?thesis by auto
  next
    case False
    then have qt: "q \<notin> taken (sm_world st)" using new by force
    note P = poke_outside [OF ok q qt, of old]
    let ?st = "st\<lparr>sm_world := os_write os q old (sm_world st)\<rparr>"
    have "(p, old) \<in> allocations ?st gs" using P(3) p by simp
    from egg_secure_free_full_ok [OF P(2) this, of flags] obtain st5 gs' where f: "egg_secure_free_full os p flags ?st = Some st5"
      "secure_ok os taken st5 gs'" "allocations st5 gs' = allocations st gs - {(p, old)}" "dom (sm_mem st5) \<subseteq> dom (sm_mem st)" using P(3) by auto
    moreover have "dom (sm_mem st) \<subseteq> taken (sm_world st)" using ok by (simp add: secure_ok_def meta_ok_def)
    ultimately have "q \<notin> dom (sm_mem st5)" using qt by blast
    moreover have "block_of (sm_blocks ?st) p \<noteq> None"
    proof -
      from allocation_block [OF p] obtain g1 b xs rs g2 where gs: "gs = g1 @ (b, xs, rs) # g2" and h: "(p, old) \<in> held (sm_mem st) xs" by blast
      have "ghost_ok os st (b, xs, rs)" using ok gs by (simp add: secure_ok_def)
      from held_area(2) [OF ghost_ok_block [OF this] h] block_of_held [OF ok [unfolded gs]] show ?thesis by simp
    qed
    from secure_free_unmapped [OF f(1) this] have "copied_out os q old (sm_world st5)" unfolding copied_out_def by auto
    ultimately show ?thesis using f rd P(1) False by auto
  qed
qed

end

text \<open>\<open>st'\<close> is the state afterwards.\<close>

definition reallocated :: "'w OS \<Rightarrow> 32 word \<Rightarrow> nat \<Rightarrow> bytes \<Rightarrow> nat \<Rightarrow> nat \<Rightarrow> 'w Secure \<Rightarrow> (nat \<times> bytes) set \<Rightarrow> (nat \<times> bytes) set \<Rightarrow> bool" where
  "reallocated os flags p old nbytes q st' H H' \<longleftrightarrow>
     (if nbytes = 0 then q = 0 \<and> H' = H - {(p, old)}
      else if q = 0 then H' = H
      else moved_to p old nbytes q H H' \<or> flags AND GKR_SECURE_USE_FALLBACK \<noteq> 0 \<and> length old < nbytes \<and> q \<notin> dom (sm_mem st')
        \<and> copied_out os q old (sm_world st') \<and> H' = H - {(p, old)})"

context secure_os
begin

lemma taken_not_allocated: "secure_ok os taken st gs \<Longrightarrow> q \<notin> taken (sm_world st) \<Longrightarrow> q \<notin> fst ` allocations st gs"
proof
  assume ok: "secure_ok os taken st gs" and q: "q \<notin> taken (sm_world st)" "q \<in> fst ` allocations st gs"
  from q(2) obtain bs where "(q, bs) \<in> allocations st gs" by auto
  then have "q \<in> dom (sm_mem st)" using allocation_bytes [OF ok] by (force simp: get_bytes_Some)
  with ok q(1) show False by (auto simp: secure_ok_def meta_ok_def)
qed

lemma take_grown: "length old < n \<Longrightarrow> length (old @ replicate (n - length old) 0) = n \<and> take (length old) (old @ replicate (n - length old) 0) = take n old"
  by simp

text \<open>What \<^verbatim>\<open>sec_realloc\<close> could not do in its block is done by a new allocation.\<close>

lemma realloc_elsewhere:
  assumes ok: "secure_ok os taken st gs" and p: "(p, old) \<in> allocations st gs" and k: "length old < nbytes"
  shows "\<exists>q st3. egg_secure_alloc_full os nbytes flags st = Some (q, st3) \<and> (if q = 0 then \<exists>gs'. secure_ok os taken st3 gs' \<and> allocations st3 gs' = allocations st gs
    else \<exists>st4 st5 gs'. those (map (\<lambda>a. peek os a st3) [p..<p + length old]) = Some old \<and> poke os q old st3 = Some st4
      \<and> egg_secure_free_full os p flags st4 = Some st5 \<and> secure_ok os taken st5 gs' \<and> reallocated os flags p old nbytes q st5 (allocations st gs) (allocations st5 gs'))"
proof -
  let ?H = "allocations st gs"
  from egg_secure_alloc_full_ok [OF ok, of nbytes flags] obtain q st3 gs3 where a: "egg_secure_alloc_full os nbytes flags st = Some (q, st3)" "secure_ok os taken st3 gs3"
    and c: "allocated_at nbytes q ?H (allocations st3 gs3)
       \<or> flags AND GKR_SECURE_USE_FALLBACK \<noteq> 0 \<and> q \<notin> taken (sm_world st3) \<and> allocations st3 gs3 = ?H" by blast
  show ?thesis
  proof (cases "q = 0")
    case True
    with a c show ?thesis by (intro exI [of _ q] exI [of _ st3]) (auto simp: allocated_at_def)
  next
    case q: False
    from c show ?thesis
    proof
      assume "allocated_at nbytes q ?H (allocations st3 gs3)"
      then have n: "q \<notin> fst ` ?H" "allocations st3 gs3 = insert (q, replicate nbytes 0) ?H" using q by (simp_all add: allocated_at_def)
      have pq: "p \<noteq> q" using n(1) p by force
      have out: "?H - {(q, replicate nbytes 0)} = ?H" using n(1) by force
      have "\<exists>st4 st5 gs'. those (map (\<lambda>a. peek os a st3) [p..<p + length old]) = Some old \<and> poke os q old st3 = Some st4
        \<and> egg_secure_free_full os p flags st4 = Some st5 \<and> secure_ok os taken st5 gs'
        \<and> allocations st5 gs' = insert (q, old @ replicate (nbytes - length old) 0) (?H - {(p, old)})"
        using realloc_copy [OF a(2) _ q k, of p flags] p n pq out by simp
      moreover have "moved_to p old nbytes q ?H (insert (q, old @ replicate (nbytes - length old) 0) (?H - {(p, old)}))"
        unfolding moved_to_def using take_grown [OF k] n(1) by blast
      ultimately show ?thesis using a(1) q k by (fastforce simp: reallocated_def)
    next
      assume n: "flags AND GKR_SECURE_USE_FALLBACK \<noteq> 0 \<and> q \<notin> taken (sm_world st3) \<and> allocations st3 gs3 = ?H"
      then have "q \<notin> fst ` ?H" using taken_not_allocated [OF a(2)] by simp
      with realloc_copy [OF a(2) _ q k, of p flags] p n a(1) q k show ?thesis by (fastforce simp: reallocated_def)
    qed
  qed
qed

lemma egg_secure_realloc_full_ok:
  assumes ok: "secure_ok os taken st gs" and p: "(p, old) \<in> allocations st gs"
  shows "\<exists>q st' gs'. egg_secure_realloc_full os p nbytes flags st = Some (q, st') \<and> secure_ok os taken st' gs'
    \<and> reallocated os flags p old nbytes q st' (allocations st gs) (allocations st' gs')"
proof -
  let ?H = "allocations st gs"
  have p0: "p \<noteq> 0" using allocation_bytes(3) [OF ok p] by simp
  consider "0xFFFFFFFF div 2 < nbytes" | "nbytes = 0" | "\<not> 0xFFFFFFFF div 2 < nbytes" "0 < nbytes" by linarith
  then show ?thesis
  proof cases
    case 1
    with ok show ?thesis by (intro exI [of _ 0] exI [of _ st] exI [of _ gs]) (auto simp: egg_secure_realloc_full_def reallocated_def)
  next
    case 2
    from egg_secure_free_full_ok [OF ok p, of flags] p0 2 show ?thesis by (fastforce simp: egg_secure_realloc_full_def reallocated_def)
  next
    case 3
    from allocation_block [OF p] obtain g1 b xs rs g2 where gs: "gs = g1 @ (b, xs, rs) # g2" and h: "(p, old) \<in> held (sm_mem st) xs" by blast
    note ok' = ok [unfolded gs]
    let ?V = "other_items g1 b g2"
    have g: "ghost_ok os st (b, xs, rs)" using ok' by (simp add: secure_ok_def)
    note ar = secure_arena [OF ok']
    have pa: "p \<in> block_area b" using held_area(2) [OF ghost_ok_block [OF g] h] .
    have u: "0 < block_used b" using g h held_none [of xs] by (auto simp: ghost_ok_def)
    from sec_realloc_held [OF ar h 3(2) u] obtain q b' st1 xs' rs' where r: "sec_realloc os b p nbytes st = Some (q, b', st1)"
      "outside ?V st b st1 b'" "block_used b' = block_used b" "arena taken ?V st1 b' xs' rs'" "used_count xs' = used_count xs"
      and c: "if q = 0 then held (sm_mem st1) xs' = held (sm_mem st) xs \<and> length old < nbytes
        else \<exists>new. length new = nbytes \<and> take (length old) new = take nbytes old
          \<and> q \<notin> fst ` (held (sm_mem st) xs - {(p, old)}) \<and> held (sm_mem st1) xs' = insert (q, new) (held (sm_mem st) xs - {(p, old)})"
      unfolding resized_def by blast
    have u': "block_used b' = used_count xs'" using r(3,5) g by (simp add: ghost_ok_def)
    note S = secure_step [OF ok' r(2,4) u']
    have bl: "sm_blocks st1 = map fst (g1 @ (b, xs, rs) # g2)" using r(2) ok' by (simp add: outside_def secure_ok_def)
    let ?st = "st1\<lparr>sm_blocks := map fst g1 @ b' # map fst g2\<rparr>" and ?gs = "g1 @ (b', xs', rs') # g2"
    from write_back_ok [OF bl S(1)] have wb: "write_back os (length g1) b' st1 = Some ?st" using u r(3) by auto
    have start: "egg_secure_realloc_full os p nbytes flags st = (if q \<noteq> 0 then Some (q, ?st)
        else do { (q, st3) \<leftarrow> egg_secure_alloc_full os nbytes flags ?st;
          if q = 0 then Some (0, st3) else do { bs \<leftarrow> those (map (\<lambda>a. peek os a st3) [p..<p + length old]); st4 \<leftarrow> poke os q bs st3;
            st5 \<leftarrow> egg_secure_free_full os p flags st4; Some (q, st5) } })"
      unfolding egg_secure_realloc_full_def using 3 p0 block_of_held [OF ok' pa] sec_allocated_held [OF ar h] r(1) wb by simp
    show ?thesis
    proof (cases "q = 0")
      case False
      then obtain new where new: "length new = nbytes" "take (length old) new = take nbytes old"
          "q \<notin> fst ` (held (sm_mem st) xs - {(p, old)})" "held (sm_mem st1) xs' = insert (q, new) (held (sm_mem st) xs - {(p, old)})" using c by auto
      have "(q, new) \<in> held (sm_mem st1) xs'" using new(4) by simp
      then have "q \<in> block_area b'" using held_area(2) arenaD(1) [OF r(4)] by blast
      then have "q \<in> block_area b" using r(2) by (simp add: outside_def block_area_def block_end_def)
      then have "q \<notin> fst ` allocations st (g1 @ g2)" using allocations_elsewhere [OF ok'] by blast
      moreover have H: "?H - {(p, old)} = allocations st g1 \<union> (held (sm_mem st) xs - {(p, old)}) \<union> allocations st g2"
        using allocations_without [OF ok' h] gs by simp
      ultimately have "q \<notin> fst ` (?H - {(p, old)})" using new(3) by (simp add: image_Un)
      moreover have "allocations ?st ?gs = insert (q, new) (?H - {(p, old)})" unfolding S(2) H new(4) by blast
      ultimately have "moved_to p old nbytes q ?H (allocations ?st ?gs)" unfolding moved_to_def using new(1,2) by blast
      with start False 3 S(1) show ?thesis by (intro exI [of _ q] exI [of _ ?st] exI [of _ ?gs]) (simp add: reallocated_def)
    next
      case True
      then have k: "length old < nbytes" and same: "allocations ?st ?gs = ?H" using c S(2) gs by auto
      have p': "(p, old) \<in> allocations ?st ?gs" using same p by simp
      from realloc_elsewhere [OF S(1) p' k, of flags] obtain q' st3 where e: "egg_secure_alloc_full os nbytes flags ?st = Some (q', st3)"
        "if q' = 0 then \<exists>gs'. secure_ok os taken st3 gs' \<and> allocations st3 gs' = ?H
          else \<exists>st4 st5 gs'. those (map (\<lambda>a. peek os a st3) [p..<p + length old]) = Some old \<and> poke os q' old st3 = Some st4
            \<and> egg_secure_free_full os p flags st4 = Some st5 \<and> secure_ok os taken st5 gs' \<and> reallocated os flags p old nbytes q' st5 ?H (allocations st5 gs')"
        unfolding same by blast
      show ?thesis
      proof (cases "q' = 0")
        case q': True
        with e start True 3 show ?thesis by (auto simp: reallocated_def)
      next
        case q': False
        with e start True show ?thesis by auto
      qed
    qed
  qed
qed

end

section \<open>Validation\<close>

lemma ring_neighbours:
  assumes r: "ring C rs" and c: "c \<in> set rs"
  shows "\<exists>x y z. C c = Some x \<and> cell_next x \<noteq> 0 \<and> cell_prev x \<noteq> 0 \<and> C (cell_next x) = Some y \<and> cell_prev y = c \<and> C (cell_prev x) = Some z \<and> cell_next z = c"
proof -
  from c obtain us vs where rs: "rs = us @ c # vs" by (meson split_list)
  have r1: "ring C (c # vs @ us)" using r rs ring_rotate [of C us "c # vs"] by simp
  obtain x where x: "C c = Some x" "cell_next x = hd ((vs @ us) @ [c])" "cell_prev x = last (c # vs @ us)"
    "\<exists>y. C (hd ((vs @ us) @ [c])) = Some y \<and> cell_prev y = c" "\<exists>y. C (last (c # vs @ us)) = Some y \<and> cell_next y = c"
    using r1 by (rule ring_ConsE)
  have "hd ((vs @ us) @ [c]) \<in> set (c # vs @ us)" "last (c # vs @ us) \<in> set (c # vs @ us)" "0 \<notin> set (c # vs @ us)"
    using r1 hd_in_set [of "(vs @ us) @ [c]"] last_in_set [of "c # vs @ us"] by (auto simp: ring_def simp del: hd_append2)
  then have "hd ((vs @ us) @ [c]) \<noteq> 0" "last (c # vs @ us) \<noteq> 0" by metis+
  with x show ?thesis by metis
qed

lemma sec_validate_from_ok:
  assumes ar: "arena taken V st b xs rs" and xs: "xs = pre @ suf" and t: "tiled w suf (block_end b)" and ne: "suf \<noteq> []"
  shows "sec_validate_from b st w = Some ()"
  using xs t ne
proof (induction suf arbitrary: pre w)
  case (Cons u suf)
  obtain c n a where u: "u = (c, w, n, a)" using Cons.prems(2) by (cases u) auto
  note A = arenaD [OF ar] and B = block_okD [OF arenaD(1) [OF ar]]
  have cx: "(c, w, n, a) \<in> set xs" "c \<in> tile_cells xs" using Cons.prems(1) u by (force simp: tile_cells_def)+
  have ok: "tile_ok (sm_cells st) (sm_mem st) (c, w, n, a)" using B(5) cx(1) by blast
  have area: "block_words b \<le> w" "w + 8 * n \<le> block_end b" "2 \<le> n" using tiled_area [OF B(1) cx(1)] ok by simp_all
  have valid: "pool_valid (sm_pools st) c" using A(2) pool_valid_ok [of _ "sm_pools st" _ c] cx(2) by (fastforce simp: meta_ok_def)
  from ok obtain x where x: "sm_cells st c = Some x" "cell_n_words x = n" "cell_allocated x = a" "0 < a \<longrightarrow> cell_next x = 0 \<and> cell_prev x = 0"
    by (auto simp: cell_ok_def payload_def)
  have links: "\<exists>y z. cell_next x \<noteq> 0 \<and> cell_prev x \<noteq> 0 \<and> sm_cells st (cell_next x) = Some y \<and> cell_prev y = c \<and> sm_cells st (cell_prev x) = Some z \<and> cell_next z = c" if "a = 0"
  proof -
    have "c \<in> set rs" using cx(1) that B(8) by (force simp: unused_cells_def)
    with ring_neighbours [OF B(6)] x(1) show ?thesis by fastforce
  qed
  have checks: "(if 0 < cell_allocated x then do {
        ASSERT (cell_next x = 0);
        ASSERT (cell_prev x = 0);
        ASSERT (cell_allocated x \<le> (cell_n_words x - 2) * 8)
      }
      else do {
        ASSERT (cell_next x \<noteq> 0);
        ASSERT (cell_prev x \<noteq> 0);
        n \<leftarrow> sm_cells st (cell_next x);
        ASSERT (cell_prev n = c);
        p \<leftarrow> sm_cells st (cell_prev x);
        ASSERT (cell_next p = c)
      }) = Some ()"
  proof (cases "a = 0")
    case True
    with links x(3) show ?thesis by auto
  next
    case False
    with x ok show ?thesis by (simp add: mult.commute)
  qed
  have step: "sec_validate_from b st w = (if w + 8 * n = block_end b then Some () else sec_validate_from b st (w + 8 * n))"
    using area valid ok sec_check_guards_ok [OF ok] x(1,2) checks
    by (subst sec_validate_from.simps) (simp add: block_end_def sec_is_valid_word_def cong: if_cong split del: if_split)
  show ?case
  proof (cases suf)
    case Nil
    then have "w + 8 * n = block_end b" using Cons.prems(2) u by simp
    then show ?thesis using step by simp
  next
    case (Cons v rest)
    then have "tiled (w + 8 * n) suf (block_end b)" "suf \<noteq> []" "xs = (pre @ [u]) @ suf" using Cons.prems u by simp_all
    then have "sec_validate_from b st (w + 8 * n) = Some ()" using Cons.IH by blast
    then show ?thesis using step by simp
  qed
qed simp

lemma validate_blocks_ok:
  assumes "secure_ok os taken st (g1 @ g2)"
  shows "validate_blocks (map fst g2) st = Some ()"
  using assms
proof (induction g2 arbitrary: g1)
  case (Cons g g2)
  obtain b xs rs where g: "g = (b, xs, rs)" by (cases g) auto
  note ok = Cons.prems [unfolded g]
  have "0 < block_n_words b" "tiled (block_words b) xs (block_end b)" using ok by (simp_all add: secure_ok_def ghost_ok_def block_ok_def)
  then have "xs \<noteq> []" "tiled (block_words b) xs (block_end b)" by (auto simp: block_end_def)
  then have "sec_validate b st = Some ()" unfolding sec_validate_def using sec_validate_from_ok [OF secure_arena [OF ok], of "[]"] by simp
  moreover have "validate_blocks (map fst g2) st = Some ()" using Cons.IH [of "g1 @ [(b, xs, rs)]"] ok by simp
  ultimately show ?case using g by simp
qed simp

lemma egg_secure_validate_ok: "secure_ok os taken st gs \<Longrightarrow> egg_secure_validate st = Some ()"
  using validate_blocks_ok [of os taken st "[]" gs] by (simp add: egg_secure_validate_def secure_ok_def)

section \<open>When an allocation succeeds\<close>

text \<open>\<open>ready n w\<close>: in the world \<open>w\<close> the system grants the next \<open>n\<close> requests for pages and for locking them.\<close>

locale ready_os = secure_os os taken pgbits for os :: "'w OS" and taken :: "'w \<Rightarrow> nat set" and pgbits :: nat +
  fixes ready :: "nat \<Rightarrow> 'w \<Rightarrow> bool"
  assumes ready_less: "ready (Suc m) w \<Longrightarrow> ready m w"
    and ready_mmap: "ready (Suc m) w \<Longrightarrow> n \<le> 2 ^ 32 \<Longrightarrow> \<exists>p w'. os_mmap os n w = (Some p, w') \<and> ready m w'"
    and ready_mlock: "os_mmap os n w = (Some p, w') \<Longrightarrow> ready m w' \<Longrightarrow> \<exists>w1. os_mlock os p n w' = (True, w1) \<and> ready m w1"
begin

lemma pool_pick_world: "pool_pick st = Some (item, st') \<Longrightarrow> sm_world st' = sm_world st"
  by (auto simp: pool_pick_def bind_eq_Some_conv split: option.splits)

lemma pool_create_ready:
  assumes "ready (Suc m) (sm_world st)" and "pool_create os st = Some (ok, st1)"
  shows "ok \<and> ready m (sm_world st1)"
proof -
  have "os_pagesize os * 2 \<le> 2 ^ 32" using pagesize_64(2) by simp
  from ready_mmap [OF assms(1) this] obtain p w where "os_mmap os (os_pagesize os * 2) (sm_world st) = (Some p, w)" "ready m w" by blast
  with assms(2) show ?thesis by (auto simp: pool_create_def Let_def bind_eq_Some_conv)
qed

lemma pool_alloc_ready:
  assumes st: "meta_ok taken st U" and r: "ready (Suc m) (sm_world st)" and a: "pool_alloc os st = Some (item, st')"
  shows "item \<noteq> 0 \<and> ready m (sm_world st')"
proof (cases "pool_take (sm_pools st) = Some None")
  case True
  from pool_create_ok [OF st] obtain ok st1 where c: "pool_create os st = Some (ok, st1)"
    "if ok then \<exists>item pools w. pool_pick st1 = Some (item, st\<lparr>sm_pools := pools, sm_world := w, sm_cells := (sm_cells st)(item \<mapsto> empty_cell)\<rparr>)
      \<and> item \<notin> U \<and> meta_ok taken (st\<lparr>sm_pools := pools, sm_world := w\<rparr>) (insert item U)
     else \<exists>w. st1 = st\<lparr>sm_world := w\<rparr> \<and> meta_ok taken st1 U" by blast
  have ok: "ok" "ready m (sm_world st1)" using pool_create_ready [OF r c(1)] by simp_all
  with c(2) obtain i pools w where i: "pool_pick st1 = Some (i, st\<lparr>sm_pools := pools, sm_world := w, sm_cells := (sm_cells st)(i \<mapsto> empty_cell)\<rparr>)"
    "meta_ok taken (st\<lparr>sm_pools := pools, sm_world := w\<rparr>) (insert i U)" by auto
  have "0 < i" using pools_ok_bounds [of _ pools "insert i U" i] i(2) by (auto simp: meta_ok_def)
  moreover have "pool_pick st1 = Some (item, st')" using a True c(1) ok(1) by (simp add: pool_alloc_def)
  ultimately show ?thesis using i(1) pool_pick_world ok(2) by fastforce
next
  case False
  with pool_pick_ok [OF st] obtain i pools where i: "pool_pick st = Some (i, st\<lparr>sm_pools := pools, sm_cells := (sm_cells st)(i \<mapsto> empty_cell)\<rparr>)"
    "meta_ok taken (st\<lparr>sm_pools := pools, sm_cells := (sm_cells st)(i \<mapsto> empty_cell)\<rparr>) (insert i U)" "pool_take (sm_pools st) \<noteq> None" by blast
  have "0 < i" using pools_ok_bounds [of _ pools "insert i U" i] i(2) by (auto simp: meta_ok_def)
  moreover have "pool_pick st = Some (item, st')" using a False i(3) by (auto simp: pool_alloc_def)
  ultimately show ?thesis using i(1) pool_pick_world ready_less [OF r] by fastforce
qed

lemma sec_split_ready:
  assumes "arena taken V st b xs rs" and "ready (Suc m) (sm_world st)" and "sec_split os c n st = Some (d, st')"
  shows "d \<noteq> 0"
proof -
  from assms(3) obtain other st1 where "pool_alloc os st = Some (other, st1)" "other = d \<or> other \<noteq> 0 \<and> d \<noteq> 0"
    by (auto simp: sec_split_def bind_eq_Some_conv split: if_splits)
  with pool_alloc_ready [OF arenaD(2) [OF assms(1)] assms(2)] show ?thesis by blast
qed

lemma sec_use_nonzero: "sec_use b c n st = Some (p, b', st') \<Longrightarrow> p \<noteq> 0"
  by (auto simp: sec_use_def bind_eq_Some_conv sec_cell_to_memory_def)

lemma sec_alloc_ready:
  assumes ar: "arena taken V st b xs rs" and r: "ready (Suc m) (sm_world st)" and a: "sec_alloc os b nbytes st = Some (p, b', st')"
  shows "p \<noteq> 0 \<or> b' = b \<and> st' = st \<and> (\<forall>(c, w, n, k) \<in> set xs. k = 0 \<longrightarrow> n < sec_size_to_words nbytes + 2)"
proof (cases "block_unused b = 0 \<or> find_cell (sm_cells st) (block_unused b) (sec_size_to_words nbytes + 2) (block_unused b) = Some 0")
  case True
  note B = block_okD [OF arenaD(1) [OF ar]]
  have "n < sec_size_to_words nbytes + 2" if t: "(c, w, n, 0) \<in> set xs" for c w n
  proof (rule ccontr)
    assume big: "\<not> n < sec_size_to_words nbytes + 2"
    have c: "c \<in> set rs" using t B(8) by (force simp: unused_cells_def)
    have "tile_ok (sm_cells st) (sm_mem st) (c, w, n, 0)" using B(5) t by blast
    then obtain x where x: "sm_cells st c = Some x" "cell_n_words x = n" by (auto simp: cell_ok_def payload_def)
    have "ring_head rs \<noteq> 0" using c B(6) by (cases rs) (auto simp: ring_def)
    with find_cell_complete [OF B(6) c x(1)] x(2) big True B(7) show False by simp
  qed
  moreover have "p = 0 \<Longrightarrow> b' = b \<and> st' = st" using a True by (auto simp: sec_alloc_def bind_eq_Some_conv ASSERT_def split: if_splits)
  ultimately show ?thesis by blast
next
  case False
  then have "p \<noteq> 0" using a
    by (auto simp: sec_alloc_def bind_eq_Some_conv ASSERT_def Let_def split: if_splits dest: sec_split_ready [OF ar r] sec_use_nonzero)
  then show ?thesis by simp
qed

lemma alloc_in_blocks_ready:
  assumes "secure_ok os taken (st\<lparr>sm_blocks := map fst (g1 @ g2)\<rparr>) (g1 @ g2)" and "ready (Suc m) (sm_world st)"
    and "alloc_in_blocks os nbytes (map fst g2) st = Some (0, bs, st')"
  shows "st' = st \<and> bs = map fst g2"
  using assms
proof (induction g2 arbitrary: g1 bs)
  case (Cons g g2)
  obtain b xs rs where g: "g = (b, xs, rs)" by (cases g) auto
  note ok = Cons.prems(1) [unfolded g]
  have ar: "arena taken (other_items g1 b g2) st b xs rs" using secure_arena [OF ok] by (simp add: arena_def)
  from Cons.prems(3) g obtain p b1 st1 where s: "sec_alloc os b nbytes st = Some (p, b1, st1)" by (auto simp: bind_eq_Some_conv)
  with Cons.prems(3) g have p: "p = 0" by (auto split: if_splits)
  with sec_alloc_ready [OF ar Cons.prems(2) s] have same: "b1 = b" "st1 = st" by simp_all
  from Cons.prems(3) g s p same obtain bs2 where r: "alloc_in_blocks os nbytes (map fst g2) st = Some (0, bs2, st')" "bs = b # bs2"
    by (auto simp: bind_eq_Some_conv)
  from Cons.IH [of "g1 @ [g]" bs2] Cons.prems(1,2) r g show ?case by simp
qed simp

end

context ready_os
begin

lemma page_round_max:
  assumes "n \<le> 2 ^ 31"
  shows "sec_page_round os n \<le> 2 ^ 32"
proof -
  have "n < 2 ^ 60" using assms by simp
  then have "sec_page_round os n \<le> n + (os_pagesize os - 1)" by (simp add: page_round)
  then show ?thesis using assms pagesize_64(2) by simp
qed

lemma sec_acquire_pages_ready:
  assumes r: "ready (Suc m) (sm_world st)" and n: "n \<le> 2 ^ 31" and a: "sec_acquire_pages os n st = Some (pages, sz, st')" and meta: "meta_ok taken st U"
  shows "pages \<noteq> 0 \<and> sz = sec_page_round os n \<and> ready m (sm_world st')"
proof -
  from ready_mmap [OF r page_round_max [OF n]] obtain p w where m: "os_mmap os (sec_page_round os n) (sm_world st) = (Some p, w)" "ready m w" by blast
  moreover from ready_mlock [OF this] obtain w1 where "os_mlock os p (sec_page_round os n) w = (True, w1)" "ready m w1" by blast
  moreover have "0 < p" using mmap_ok m(1) by blast
  ultimately show ?thesis using a by (auto simp: sec_acquire_pages_def Let_def bind_eq_Some_conv ASSERT_def split: if_splits)
qed

lemma set_cell_world: "set_cell c f st = Some st' \<Longrightarrow> sm_world st' = sm_world st"
  by (auto simp: set_cell_def bind_eq_Some_conv)

lemma sec_write_guards_world: "sec_write_guards c st = Some st' \<Longrightarrow> sm_world st' = sm_world st"
  by (auto simp: sec_write_guards_def bind_eq_Some_conv)

lemma sec_block_create_ready:
  assumes ok: "secure_ok os taken st gs" and r: "ready (Suc (Suc (Suc m))) (sm_world st)" and n: "n \<le> 2 ^ 31"
    and c: "sec_block_create os n st = Some (res, st')"
  shows "\<exists>b. res = Some b \<and> block_n_words b = sec_page_round os (if n < DEFAULT_BLOCK_SIZE then DEFAULT_BLOCK_SIZE else n) div 8 \<and> ready m (sm_world st')"
proof -
  let ?n = "if n < DEFAULT_BLOCK_SIZE then DEFAULT_BLOCK_SIZE else n"
  have n': "?n \<le> 2 ^ 31" using n by (simp add: DEFAULT_BLOCK_SIZE_def)
  have m0: "meta_ok taken st (items gs)" using ok by (simp add: secure_ok_def)
  obtain bk st0 where a1: "pool_alloc os st = Some (bk, st0)" "meta_ok taken st0 (if bk = 0 then items gs else insert bk (items gs))"
    using pool_alloc_state [OF m0] by metis
  have r1: "bk \<noteq> 0" "ready (Suc (Suc m)) (sm_world st0)" using pool_alloc_ready [OF m0 r a1(1)] by simp_all
  define st1 where "st1 = st0\<lparr>sm_cells := (sm_cells st0)(bk := None)\<rparr>"
  have m1: "meta_ok taken st1 (insert bk (items gs))" "ready (Suc (Suc m)) (sm_world st1)" using a1(2) r1 by (simp_all add: st1_def)
  obtain cl st2 where a2: "pool_alloc os st1 = Some (cl, st2)" "meta_ok taken st2 (if cl = 0 then insert bk (items gs) else insert cl (insert bk (items gs)))"
    using pool_alloc_state [OF m1(1)] by metis
  have r2: "cl \<noteq> 0" "ready (Suc m) (sm_world st2)" using pool_alloc_ready [OF m1 a2(1)] by simp_all
  then have m2: "meta_ok taken st2 (insert cl (insert bk (items gs)))" using a2(2) by simp
  have "0 < ?n" by (simp add: DEFAULT_BLOCK_SIZE_def)
  from sec_acquire_pages_ok [OF m2 this] obtain pages st3 where a3: "sec_acquire_pages os ?n st2 = Some (pages, sec_page_round os ?n, st3)" by blast
  have r3: "pages \<noteq> 0" "ready m (sm_world st3)" using sec_acquire_pages_ready [OF r2(2) n' a3 m2] by simp_all
  from c a1(1) a2(1) a3 r1(1) r2(1) r3(1) obtain st4 st5 ring C where s: "set_cell cl (\<lambda>x. x\<lparr>cell_words := pages, cell_n_words := sec_page_round os ?n div 8, cell_allocated := 0\<rparr>) st3 = Some st4"
    "sec_write_guards cl st4 = Some st5"
    "res = Some \<lparr>block_self = bk, block_words = pages, block_n_words = sec_page_round os ?n div 8, block_used = 0, block_unused = ring\<rparr>"
    "st' = st5\<lparr>sm_cells := C, sm_blocks := \<lparr>block_self = bk, block_words = pages, block_n_words = sec_page_round os ?n div 8, block_used = 0, block_unused = ring\<rparr> # sm_blocks st5\<rparr>"
    by (auto simp: sec_block_create_def Let_def st1_def bind_eq_Some_conv split del: if_split)
  have "sm_world st' = sm_world st3" using s(4) set_cell_world [OF s(1)] sec_write_guards_world [OF s(2)] by simp
  with s(3) r3(2) show ?thesis by simp
qed

lemma secure_alloc_locked_ready:
  assumes ok: "secure_ok os taken st gs" and r: "ready 4 (sm_world st)" and n: "0 < n" "n \<le> 2 ^ 31"
    and a: "secure_alloc_locked os n st = Some (p, st')"
  shows "p \<noteq> 0 \<or> sec_page_round os (if n < DEFAULT_BLOCK_SIZE then DEFAULT_BLOCK_SIZE else n) div 8 < sec_size_to_words n + 2
    \<and> length (sm_blocks st') = Suc (length (sm_blocks st))"
proof (cases "p = 0")
  case True
  have r4: "ready (Suc (Suc (Suc (Suc 0)))) (sm_world st)" using r by (simp add: numeral_eq_Suc)
  have bl: "sm_blocks st = map fst gs" using ok by (simp add: secure_ok_def)
  have ok0: "secure_ok os taken (st\<lparr>sm_blocks := map fst ([] @ gs)\<rparr>) ([] @ gs)" using secure_ok_same [OF ok] by simp
  from a bl obtain q bs st1 where q: "alloc_in_blocks os n (map fst gs) st = Some (q, bs, st1)" by (auto simp: secure_alloc_locked_def bind_eq_Some_conv)
  with a bl True have q0: "q = 0" by (auto simp: secure_alloc_locked_def Let_def split: if_splits)
  have same: "st1 = st" "bs = map fst gs" using alloc_in_blocks_ready [OF ok0 r4] q q0 by auto
  have n60: "n < 2 ^ 60" using n(2) by simp
  from sec_block_create_ok [OF ok n(1) n60] obtain res st2 hs where c: "sec_block_create os n st = Some (res, st2)" "secure_ok os taken st2 (hs @ gs)"
    "case res of None \<Rightarrow> hs = [] | Some b \<Rightarrow> \<exists>c. hs = [(b, [(c, block_words b, block_n_words b, 0)], [c])]" by blast
  from sec_block_create_ready [OF ok r4 n(2) c(1)] obtain b where b: "res = Some b"
    "block_n_words b = sec_page_round os (if n < DEFAULT_BLOCK_SIZE then DEFAULT_BLOCK_SIZE else n) div 8" "ready (Suc 0) (sm_world st2)" by auto
  with c(3) obtain d where hs: "hs = [(b, [(d, block_words b, block_n_words b, 0)], [d])]" by auto
  have ar: "arena taken (other_items [] b gs) st2 b [(d, block_words b, block_n_words b, 0)] [d]" using secure_arena [of os taken st2 "[]"] c(2) hs by simp
  have st': "st\<lparr>sm_blocks := bs\<rparr> = st" using same bl by simp
  have c': "sec_block_create os n (st\<lparr>sm_blocks := map fst gs\<rparr>) = Some (Some b, st2)" using c(1) b(1) st' same(2) by simp
  from a q q0 same bl c' obtain b2 st3 where s: "sec_alloc os b n st2 = Some (p, b2, st3)" "st' = st3\<lparr>sm_blocks := b2 # tl (sm_blocks st3)\<rparr>"
    by (auto simp: secure_alloc_locked_def Let_def bind_eq_Some_conv)
  with sec_alloc_ready [OF ar b(3) s(1)] True have f: "st3 = st2" "block_n_words b < sec_size_to_words n + 2" by auto
  have "sm_blocks st2 = b # map fst gs" using c(2) hs by (simp add: secure_ok_def)
  with s(2) f b(2) bl show ?thesis by simp
qed simp

end

end
