(* ===== verification/EggSecureUse.thy ===== *)
theory EggSecureUse
  imports EggSecureSpec
begin

text \<open>
  Programs that use the secure memory: a system with locked pages for the witnesses, the runs of a program over the
  functions of the library, and the properties of the library as a whole.
\<close>

section \<open>A system\<close>

text \<open>
  A system of which the laws of \<open>secure_os\<close> hold: pages of 4096 bytes below \<open>pages_end\<close>, handed out in
  ascending order, and a heap above it. A world is the mappings so far, the end of the heap and what was written there.
\<close>

datatype mapping_event = Mapped nat nat | Unmapped nat nat

record World =
  w_events :: "mapping_event list"
  w_heap :: nat
  w_bytes :: "(nat \<times> bytes) list"

definition pages_end :: nat where
  "pages_end = 2 ^ 40"

fun mapped :: "mapping_event list \<Rightarrow> nat set" where
  "mapped [] = {}"
| "mapped (Mapped p n # es) = mapped es \<union> span p n"
| "mapped (Unmapped p n # es) = mapped es - span p n"

definition world_taken :: "World \<Rightarrow> nat set" where
  "world_taken w = mapped (w_events w) \<inter> {4096..<pages_end}"

definition next_page :: "nat \<Rightarrow> nat" where
  "next_page a = (a + 4095) div 4096 * 4096"

fun top_page :: "mapping_event list \<Rightarrow> nat" where
  "top_page [] = 4096"
| "top_page (Mapped p n # es) = max (top_page es) (next_page (p + n))"
| "top_page (Unmapped p n # es) = top_page es"

fun read_bytes :: "(nat \<times> bytes) list \<Rightarrow> nat \<Rightarrow> byte option" where
  "read_bytes [] a = None"
| "read_bytes ((p, bs) # ws) a = (if p \<le> a \<and> a < p + length bs then Some (bs ! (a - p)) else read_bytes ws a)"

definition page_os :: "World OS" where
  "page_os = \<lparr>os_pagesize = 4096,
     os_mmap = (\<lambda>n w. let p = top_page (w_events w) in
       if p + n \<le> pages_end then (Some p, w\<lparr>w_events := Mapped p n # w_events w\<rparr>) else (None, w)),
     os_mlock = (\<lambda>p n w. (True, w)),
     os_munmap = (\<lambda>p n w. w\<lparr>w_events := Unmapped p n # w_events w\<rparr>),
     egg_memory_fallback = (\<lambda>p n w. if n = 0 then (0, w) else (pages_end + w_heap w, w\<lparr>w_heap := w_heap w + n\<rparr>)),
     os_read = (\<lambda>a w. read_bytes (w_bytes w) a),
     os_write = (\<lambda>a bs w. w\<lparr>w_bytes := (a, bs) # w_bytes w\<rparr>)\<rparr>"

definition world0 :: World where
  "world0 = \<lparr>w_events = [], w_heap = 0, w_bytes = []\<rparr>"

definition world_ready :: "nat \<Rightarrow> World \<Rightarrow> bool" where
  "world_ready n w \<longleftrightarrow> top_page (w_events w) + n * (2 ^ 32 + 4096) \<le> pages_end"

lemma next_page_bounds: "a \<le> next_page a" "next_page a \<le> a + 4095" "next_page a mod 4096 = 0"
  by (simp_all add: next_page_def)

lemma top_page_bounds: "4096 \<le> top_page es" "top_page es mod 4096 = 0"
  by (induction es rule: top_page.induct) (auto simp: max_def next_page_bounds)

lemma mapped_top: "mapped es \<subseteq> {..<top_page es}"
proof (induction es rule: top_page.induct)
  case (2 p n es)
  then show ?case using next_page_bounds(1) [of "p + n"] by fastforce
qed auto

interpretation pages: secure_os page_os world_taken 12
proof
  fix n w p w' assume m: "os_mmap page_os n w = (Some p, w')"
  let ?p = "top_page (w_events w)"
  from m have p: "p = ?p" "p + n \<le> pages_end" "w' = w\<lparr>w_events := Mapped p n # w_events w\<rparr>"
    by (auto simp: page_os_def Let_def split: if_splits)
  have "span p n \<inter> world_taken w = {}" using mapped_top [of "w_events w"] p(1) by (fastforce simp: world_taken_def)
  moreover have "world_taken w' = world_taken w \<union> span p n" using p top_page_bounds(1) [of "w_events w"] by (auto simp: world_taken_def)
  ultimately show "0 < p \<and> p mod os_pagesize page_os = 0 \<and> p + n \<le> 2 ^ 64 \<and> span p n \<inter> world_taken w = {} \<and> world_taken w' = world_taken w \<union> span p n"
    using p top_page_bounds [of "w_events w"] by (simp add: page_os_def pages_end_def)
next
  fix n w w' assume "os_mmap page_os n w = (None, w')"
  then show "world_taken w' = world_taken w" by (auto simp: page_os_def Let_def split: if_splits)
next
  fix p n w q w' assume "egg_memory_fallback page_os p n w = (q, w')"
  then show "world_taken w' = world_taken w \<and> q \<notin> world_taken w" by (auto simp: page_os_def world_taken_def split: if_splits)
qed (auto simp: page_os_def world_taken_def)

interpretation pages_ready: ready_os page_os world_taken 12 world_ready
proof
  fix m w n assume r: "world_ready (Suc m) w" "n \<le> (2 :: nat) ^ 32"
  let ?p = "top_page (w_events w)"
  have fit: "?p + n \<le> pages_end" using r by (simp add: world_ready_def)
  have "next_page (?p + n) \<le> ?p + n + 4095" by (rule next_page_bounds)
  then have "world_ready m (w\<lparr>w_events := Mapped ?p n # w_events w\<rparr>)" using r by (simp add: world_ready_def max_def)
  with fit show "\<exists>p w'. os_mmap page_os n w = (Some p, w') \<and> world_ready m w'" by (simp add: page_os_def Let_def)
qed (auto simp: world_ready_def page_os_def)

section \<open>Runs\<close>

definition secure_start :: "'w \<Rightarrow> 'w Secure" where
  "secure_start w = \<lparr>sm_pools = [], sm_cells = Map.empty, sm_mem = Map.empty, sm_blocks = [], sm_world = w\<rparr>"

lemma secure_start_ok: "secure_ok os taken (secure_start w) []"
  by (simp add: secure_ok_def secure_start_def apart_def meta_ok_def pools_ok_def)

lemma secure_start_inv: "secure_inv os taken (secure_start w) {}"
  using secure_start_ok [of os taken w] by (auto simp: secure_inv_def intro: exI [of _ "[]"])

text \<open>
  A run of a program that keeps to the rules: it releases and resizes only what it has, and it writes only there. \<open>H\<close> is
  what the program has in secure memory; memory from the fallback is not in it.
\<close>

inductive secure_run :: "'w OS \<Rightarrow> 'w Secure \<Rightarrow> (nat \<times> bytes) set \<Rightarrow> bool" for os where
  start: "secure_run os (secure_start w) {}"
| alloc: "secure_run os st H \<Longrightarrow> egg_secure_alloc_full os n fl st = Some (p, st')
    \<Longrightarrow> secure_run os st' (if egg_secure_check p st' = 1 then insert (p, replicate n 0) H else H)"
| realloc: "secure_run os st H \<Longrightarrow> (p, bs) \<in> H \<Longrightarrow> egg_secure_realloc_full os p n fl st = Some (q, st')
    \<Longrightarrow> secure_run os st' (if egg_secure_check q st' = 1 then insert (q, the (get_bytes (sm_mem st') q n)) (H - {(p, bs)})
          else if q = 0 \<and> n \<noteq> 0 then H else H - {(p, bs)})"
| free: "secure_run os st H \<Longrightarrow> (p, bs) \<in> H \<Longrightarrow> egg_secure_free_full os p fl st = Some st' \<Longrightarrow> secure_run os st' (H - {(p, bs)})"
| program: "secure_run os st H \<Longrightarrow> (p, bs) \<in> H \<Longrightarrow> ds \<noteq> [] \<Longrightarrow> i + length ds \<le> length bs \<Longrightarrow> poke os (p + i) ds st = Some st'
    \<Longrightarrow> secure_run os st' (insert (p, take i bs @ ds @ drop (i + length ds) bs) (H - {(p, bs)}))"

lemma block_of_None: "block_of bs p = None \<longleftrightarrow> (\<forall>b \<in> set bs. p \<notin> block_area b)"
  by (induction bs) (auto simp: sec_is_valid_word_def block_area_def block_end_def)

lemma check_iff:
  assumes "secure_ok os taken st gs"
  shows "egg_secure_check p st = 1 \<longleftrightarrow> (\<exists>g \<in> set gs. p \<in> block_area (fst g))"
proof -
  have "sm_blocks st = map fst gs" using assms by (simp add: secure_ok_def)
  then show ?thesis using block_of_None [of "sm_blocks st" p] by (auto simp: egg_secure_check_def)
qed

lemma check_allocation:
  assumes "secure_ok os taken st gs" and "(p, bs) \<in> allocations st gs"
  shows "egg_secure_check p st = 1"
proof -
  from allocation_block [OF assms(2)] obtain g1 b xs rs g2 where g: "gs = g1 @ (b, xs, rs) # g2" "(p, bs) \<in> held (sm_mem st) xs" by blast
  have "ghost_ok os st (b, xs, rs)" using assms(1) g(1) by (simp add: secure_ok_def)
  then have "p \<in> block_area b" using held_area(2) [OF ghost_ok_block g(2)] by simp
  then show ?thesis using check_iff [OF assms(1)] g(1) by auto
qed

lemma check_outside: "secure_ok os taken st gs \<Longrightarrow> p \<notin> dom (sm_mem st) \<Longrightarrow> egg_secure_check p st \<noteq> 1"
  using check_iff [of os taken st gs p] ghost_area_dom [of os taken st gs] by blast

lemma check_NULL: "secure_ok os taken st gs \<Longrightarrow> egg_secure_check 0 st \<noteq> 1"
proof -
  assume ok: "secure_ok os taken st gs"
  have "8 \<le> block_words (fst g)" if "g \<in> set gs" for g
    using ghost_ok_block [of os st "fst g" "fst (snd g)" "snd (snd g)"] secure_ok_ghost [OF ok that] by (simp add: block_ok_def)
  then have "0 \<notin> block_area (fst g)" if "g \<in> set gs" for g using that by (fastforce simp: block_area_def)
  then show ?thesis using check_iff [OF ok] by blast
qed

context secure_os
begin

lemma alloc_step:
  assumes ok: "secure_ok os taken st gs" and a: "egg_secure_alloc_full os n fl st = Some (p, st')"
  shows "secure_inv os taken st' (if egg_secure_check p st' = 1 then insert (p, replicate n 0) (allocations st gs) else allocations st gs)"
proof -
  from egg_secure_alloc_full_ok [OF ok, of n fl] a obtain gs' where s: "secure_ok os taken st' gs'"
    "allocated_at n p (allocations st gs) (allocations st' gs') \<or> p \<notin> taken (sm_world st') \<and> allocations st' gs' = allocations st gs" by auto
  have "allocations st' gs' = (if egg_secure_check p st' = 1 then insert (p, replicate n 0) (allocations st gs) else allocations st gs)"
  proof (cases "p = 0 \<or> p \<notin> taken (sm_world st')")
    case True
    have "dom (sm_mem st') \<subseteq> taken (sm_world st')" using s(1) by (simp add: secure_ok_def meta_ok_def)
    then have out: "egg_secure_check p st' \<noteq> 1" using True check_NULL [OF s(1)] check_outside [OF s(1)] by blast
    then have "(p, replicate n 0) \<notin> allocations st' gs'" using check_allocation [OF s(1)] by blast
    then have "allocations st' gs' = allocations st gs" using s(2) by (auto simp: allocated_at_def split: if_splits)
    then show ?thesis using out by simp
  next
    case False
    then have "allocations st' gs' = insert (p, replicate n 0) (allocations st gs)" using s(2) by (simp add: allocated_at_def)
    then show ?thesis using check_allocation [OF s(1), of p "replicate n 0"] by simp
  qed
  then show ?thesis using s(1) by (auto simp: secure_inv_def)
qed

lemma realloc_step:
  assumes ok: "secure_ok os taken st gs" and p: "(p, bs) \<in> allocations st gs" and r: "egg_secure_realloc_full os p n fl st = Some (q, st')"
  shows "secure_inv os taken st' (if egg_secure_check q st' = 1 then insert (q, the (get_bytes (sm_mem st') q n)) (allocations st gs - {(p, bs)})
    else if q = 0 \<and> n \<noteq> 0 then allocations st gs else allocations st gs - {(p, bs)})"
    (is "secure_inv os taken st' ?H'")
proof -
  let ?H = "allocations st gs"
  from egg_secure_realloc_full_ok [OF ok p, of n fl] r obtain gs' where s: "secure_ok os taken st' gs'"
    "reallocated os fl p bs n q st' ?H (allocations st' gs')" by auto
  consider (null) "q = 0" | (moved) "q \<noteq> 0" "moved_to p bs n q ?H (allocations st' gs')"
    | (outside) "q \<noteq> 0" "q \<notin> dom (sm_mem st')" "allocations st' gs' = ?H - {(p, bs)}" using s(2) by (auto simp: reallocated_def split: if_splits)
  then have "allocations st' gs' = ?H'"
  proof cases
    case null
    then show ?thesis using s(2) check_NULL [OF s(1)] by (auto simp: reallocated_def split: if_splits)
  next
    case moved
    then obtain new where n: "length new = n" "allocations st' gs' = insert (q, new) (?H - {(p, bs)})" by (auto simp: moved_to_def)
    then have "(q, new) \<in> allocations st' gs'" by simp
    from allocation_bytes(1) [OF s(1) this] check_allocation [OF s(1) this] n show ?thesis by simp
  next
    case outside
    then show ?thesis using check_outside [OF s(1)] by simp
  qed
  then show ?thesis using s(1) by (auto simp: secure_inv_def)
qed

lemma program_step:
  assumes ok: "secure_ok os taken st gs" and p: "(p, bs) \<in> allocations st gs" and i: "ds \<noteq> []" "i + length ds \<le> length bs"
  shows "\<exists>st'. poke os (p + i) ds st = Some st' \<and> secure_inv os taken st' (insert (p, take i bs @ ds @ drop (i + length ds) bs) (allocations st gs - {(p, bs)}))"
proof -
  from secure_write [OF ok p i(2)] obtain M' gs' where w: "put_bytes (p + i) ds (sm_mem st) = Some M'" "secure_ok os taken (st\<lparr>sm_mem := M'\<rparr>) gs'"
    "allocations (st\<lparr>sm_mem := M'\<rparr>) gs' = insert (p, take i bs @ ds @ drop (i + length ds) bs) (allocations st gs - {(p, bs)})" by blast
  have "i < length bs" using i by (cases ds) auto
  then have "sm_mem st (p + i) \<noteq> None" using allocation_bytes(1) [OF ok p] by (simp add: get_bytes_Some)
  moreover have "p + i \<noteq> 0" using allocation_bytes(3) [OF ok p] by simp
  ultimately have "poke os (p + i) ds st = Some (st\<lparr>sm_mem := M'\<rparr>)" using w(1) by (simp add: poke_def)
  with w(2,3) show ?thesis by (auto simp: secure_inv_def)
qed

lemma run_inv:
  assumes "secure_run os st H"
  shows "secure_inv os taken st H"
  using assms
proof (induction rule: secure_run.induct)
  case (start w)
  show ?case by (rule secure_start_inv)
next
  case (alloc st H n fl p st')
  then obtain gs where g: "secure_ok os taken st gs" "H = allocations st gs" by (auto simp: secure_inv_def)
  show ?case unfolding g(2) by (rule alloc_step [OF g(1) alloc.hyps(2)])
next
  case (realloc st H p bs n fl q st')
  then obtain gs where g: "secure_ok os taken st gs" "H = allocations st gs" by (auto simp: secure_inv_def)
  show ?case unfolding g(2) by (rule realloc_step [OF g(1) realloc.hyps(2) [unfolded g(2)] realloc.hyps(3)])
next
  case (free st H p bs fl st')
  then obtain gs where "secure_ok os taken st gs" "H = allocations st gs" by (auto simp: secure_inv_def)
  with egg_secure_free_full_ok [of st gs p bs fl] free.hyps show ?case by (auto simp: secure_inv_def)
next
  case (program st H p bs ds i st')
  then obtain gs where "secure_ok os taken st gs" "H = allocations st gs" by (auto simp: secure_inv_def)
  with program_step [of st gs p bs ds i] program.hyps show ?case by auto
qed

end

section \<open>Properties\<close>

lemma page_os_round: "sec_page_round page_os 16384 = 16384"
  using pages.page_round [of 16384] by (simp add: page_os_def)

lemma world0_ready: "world_ready 4 (sm_world (secure_start world0))"
  by (simp add: world_ready_def world0_def secure_start_def pages_end_def)

lemma sec_alloc_too_big:
  assumes ar: "arena taken V st b [(d, w, N, 0)] [d]" and n: "0 < n" and big: "N < sec_size_to_words n + 2"
  shows "sec_alloc os b n st = Some (0, b, st)"
proof -
  note B = block_okD [OF arenaD(1) [OF ar]]
  have "\<not> sec_size_to_words n + 2 \<le> cell_n_words x" if "sm_cells st d = Some x" for x
    using B(5) that big by (auto simp: cell_ok_def payload_def)
  then have "find_cell (sm_cells st) d (sec_size_to_words n + 2) d = Some 0" using find_cell_ring [OF B(6), of "sec_size_to_words n + 2"] by auto
  with n B(7) show ?thesis by (simp add: sec_alloc_def)
qed

context ready_os
begin

lemma alloc_succeeds:
  assumes ok: "secure_ok os taken st gs" and r: "ready 4 (sm_world st)" and n: "0 < n" "n < 2 ^ 31"
    and fit: "8 * (sec_size_to_words n + 2) \<le> sec_page_round os (if n < DEFAULT_BLOCK_SIZE then DEFAULT_BLOCK_SIZE else n)"
  shows "\<exists>p st' gs'. egg_secure_alloc_full os n fl st = Some (p, st') \<and> p \<noteq> 0 \<and> secure_ok os taken st' gs'
    \<and> p \<notin> fst ` allocations st gs \<and> allocations st' gs' = insert (p, replicate n 0) (allocations st gs)"
proof -
  have n60: "n < 2 ^ 60" "n \<le> 2 ^ 31" "\<not> 0xFFFFFFFF div 2 < n" using n by simp_all
  from secure_alloc_locked_ok [OF ok n(1) n60(1)] obtain p st' gs' where a: "secure_alloc_locked os n st = Some (p, st')" "secure_ok os taken st' gs'"
    "allocated_at n p (allocations st gs) (allocations st' gs')" by blast
  have "p \<noteq> 0" using secure_alloc_locked_ready [OF ok r n(1) n60(2) a(1)] fit by auto
  with a n n60(3) show ?thesis
    by (intro exI [of _ p] exI [of _ st'] exI [of _ gs']) (simp add: egg_secure_alloc_full_def allocated_at_def)
qed

lemma alloc_too_big:
  assumes r: "ready 4 w" and n: "0 < n" "n < 2 ^ 31"
    and big: "sec_page_round os (if n < DEFAULT_BLOCK_SIZE then DEFAULT_BLOCK_SIZE else n) < 8 * (sec_size_to_words n + 2)"
  shows "\<exists>st'. egg_secure_alloc_full os n 0 (secure_start w) = Some (0, st') \<and> length (sm_blocks st') = 1"
proof -
  let ?st = "secure_start w"
  have r3: "ready (Suc (Suc (Suc (Suc 0)))) (sm_world ?st)" using r by (simp add: numeral_eq_Suc secure_start_def)
  have n60: "n < 2 ^ 60" "n \<le> 2 ^ 31" "\<not> 0xFFFFFFFF div 2 < n" using n by simp_all
  from sec_block_create_ok [OF secure_start_ok n(1) n60(1), of w] obtain res st2 hs where c: "sec_block_create os n ?st = Some (res, st2)" "secure_ok os taken st2 hs"
    "case res of None \<Rightarrow> hs = [] | Some b \<Rightarrow> \<exists>c. hs = [(b, [(c, block_words b, block_n_words b, 0)], [c])]" by auto
  from sec_block_create_ready [OF secure_start_ok r3 n60(2) c(1)] obtain b where b: "res = Some b"
    "block_n_words b = sec_page_round os (if n < DEFAULT_BLOCK_SIZE then DEFAULT_BLOCK_SIZE else n) div 8" by auto
  with c(3) obtain d where hs: "hs = [(b, [(d, block_words b, block_n_words b, 0)], [d])]" by auto
  have ar: "arena taken (other_items [] b []) st2 b [(d, block_words b, block_n_words b, 0)] [d]" using secure_arena [of os taken st2 "[]"] c(2) hs by simp
  have "block_n_words b < sec_size_to_words n + 2" using b(2) big by simp
  then have s: "sec_alloc os b n st2 = Some (0, b, st2)" using sec_alloc_too_big [OF ar n(1)] by simp
  have "sm_blocks st2 = [b]" using c(2) hs by (simp add: secure_ok_def)
  moreover have same: "sm_blocks ?st = []" "?st\<lparr>sm_blocks := []\<rparr> = ?st" by (simp_all add: secure_start_def)
  moreover have "sec_block_create os n (?st\<lparr>sm_blocks := []\<rparr>) = Some (Some b, st2)" unfolding same(2) using c(1) b(1) by simp
  ultimately have "secure_alloc_locked os n ?st = Some (0, st2\<lparr>sm_blocks := [b]\<rparr>)" using s by (simp add: secure_alloc_locked_def)
  then show ?thesis using n(1) n60(3) by (auto simp: egg_secure_alloc_full_def)
qed

end

lemma allocations_ordered:
  assumes ok: "secure_ok os taken st gs" and p: "(p, bs) \<in> allocations st gs" and q: "(q, ds) \<in> allocations st gs" and ne: "(p, bs) \<noteq> (q, ds)"
  shows "p + length bs \<le> q \<or> q + length ds \<le> p"
proof (rule ccontr)
  assume "\<not> ?thesis"
  then have "max p q \<in> span p (length bs) \<inter> span q (length ds)" using allocation_bytes(2) [OF ok p] allocation_bytes(2) [OF ok q] by auto
  then show False using allocations_apart [OF ok p q ne] by blast
qed

text \<open>A first allocation on the pages of \<open>page_os\<close>, for the witnesses.\<close>

lemma first_allocation:
  "\<exists>p st. egg_secure_alloc_full page_os 5 0 (secure_start world0) = Some (p, st) \<and> p \<noteq> 0 \<and> secure_inv page_os world_taken st {(p, replicate 5 0)}
    \<and> secure_run page_os st {(p, replicate 5 0)}"
proof -
  have fit: "8 * (sec_size_to_words 5 + 2) \<le> sec_page_round page_os (if (5 :: nat) < DEFAULT_BLOCK_SIZE then DEFAULT_BLOCK_SIZE else 5)"
    using page_os_round by (simp add: DEFAULT_BLOCK_SIZE_def sec_size_to_words_def)
  have n: "(0 :: nat) < 5" "(5 :: nat) < 2 ^ 31" by simp_all
  from pages_ready.alloc_succeeds [OF secure_start_ok world0_ready n fit, of 0] obtain p st gs where
    a: "egg_secure_alloc_full page_os 5 0 (secure_start world0) = Some (p, st)" "p \<noteq> 0" "secure_ok page_os world_taken st gs"
    "allocations st gs = {(p, replicate 5 0)}" by auto
  have "egg_secure_check p st = 1" using check_allocation [OF a(3), of p "replicate 5 0"] a(4) by simp
  then have "secure_run page_os st {(p, replicate 5 0)}" using secure_run.alloc [OF secure_run.start a(1)] by simp
  moreover have "secure_inv page_os world_taken st {(p, replicate 5 0)}" unfolding secure_inv_def using a(3,4) by blast
  ultimately show ?thesis using a(1,2) by blast
qed

text \<open>C14: Allocation always comes back, whatever the system answers, and keeps the blocks and pools in order. It gives \<^verbatim>\<open>NULL\<close>
  with the allocations unchanged, or a new secure allocation of the wanted length that is all zero and none of the others, or, only
  when the caller allows the fallback, memory that is not in the pages of the library.\<close>

theorem egg_secure_alloc_refines:
  assumes "secure_os os taken pgbits" and "secure_inv os taken st H"
  shows "\<exists>p st' H'. egg_secure_alloc_full os n flags st = Some (p, st') \<and> secure_inv os taken st' H'
    \<and> (p = 0 \<and> H' = H \<or> p \<notin> fst ` H \<and> H' = insert (p, replicate n 0) H
       \<or> flags AND GKR_SECURE_USE_FALLBACK \<noteq> 0 \<and> p \<notin> taken (sm_world st') \<and> H' = H)"
proof -
  from assms(2) obtain gs where g: "secure_ok os taken st gs" "H = allocations st gs" by (auto simp: secure_inv_def)
  from secure_os.egg_secure_alloc_full_ok [OF assms(1) g(1), of n flags] obtain p st' gs' where
    a: "egg_secure_alloc_full os n flags st = Some (p, st')" "secure_ok os taken st' gs'"
    "allocated_at n p H (allocations st' gs') \<or> flags AND GKR_SECURE_USE_FALLBACK \<noteq> 0 \<and> p \<notin> taken (sm_world st') \<and> allocations st' gs' = H"
    unfolding g(2) by blast
  show ?thesis
    by (rule exI [of _ p], rule exI [of _ st'], rule exI [of _ "allocations st' gs'"]) (use a in \<open>auto simp: secure_inv_def allocated_at_def split: if_splits\<close>)
qed

theorem egg_secure_alloc_refines_witness:
  "\<exists>p st' H'. egg_secure_alloc_full page_os 5 0 (secure_start world0) = Some (p, st') \<and> secure_inv page_os world_taken st' H'
    \<and> (p = 0 \<and> H' = {} \<or> H' = {(p, replicate 5 0)})"
  using egg_secure_alloc_refines [OF pages.secure_os_axioms secure_start_inv, of 5 0 world0] by auto

text \<open>C16: Release of an allocation never faults, takes exactly this allocation away, and leaves no byte of it behind: each
  address has been cleared or is no longer mapped.\<close>

theorem egg_secure_free_clears:
  assumes "secure_os os taken pgbits" and "secure_inv os taken st H" and "(p, bs) \<in> H"
  shows "\<exists>st'. egg_secure_free_full os p flags st = Some st' \<and> secure_inv os taken st' (H - {(p, bs)})
    \<and> (\<forall>x. p \<le> x \<and> x < p + length bs \<longrightarrow> sm_mem st' x = None \<or> sm_mem st' x = Some 0)"
proof -
  from assms(2) obtain gs where g: "secure_ok os taken st gs" "H = allocations st gs" by (auto simp: secure_inv_def)
  from secure_os.egg_secure_free_full_ok [OF assms(1) g(1), of p bs flags] assms(3) g(2) show ?thesis
    by (fastforce simp: secure_inv_def)
qed

theorem egg_secure_free_clears_witness:
  "\<exists>p st st'. (p, replicate 5 0) \<in> {(p, replicate 5 (0 :: byte))} \<and> egg_secure_alloc_full page_os 5 0 (secure_start world0) = Some (p, st)
    \<and> egg_secure_free_full page_os p 0 st = Some st' \<and> secure_inv page_os world_taken st' {}"
proof -
  from first_allocation obtain p st where f: "egg_secure_alloc_full page_os 5 0 (secure_start world0) = Some (p, st)"
    "secure_inv page_os world_taken st {(p, replicate 5 0)}" by blast
  from egg_secure_free_clears [OF pages.secure_os_axioms f(2), of p "replicate 5 0" 0] f(1) show ?thesis by auto
qed

text \<open>C18: Reallocation of an allocation never faults. It releases it when the wanted length is 0; otherwise it gives \<^verbatim>\<open>NULL\<close> and
  nothing has changed, or the allocation is replaced by one of the wanted length that begins with the bytes of the old one, as far as
  both have them; or, only when the fallback is allowed and the wanted length is larger, the allocation is no longer in the pages of
  the library, and all its bytes have been written to the front of the memory that the fallback gave, after which the library only
  unmapped pages.\<close>

theorem egg_secure_realloc_refines:
  assumes "secure_os os taken pgbits" and "secure_inv os taken st H" and "(p, old) \<in> H"
  shows "\<exists>q st' H'. egg_secure_realloc_full os p n flags st = Some (q, st') \<and> secure_inv os taken st' H'
    \<and> (if n = 0 then q = 0 \<and> H' = H - {(p, old)}
       else q = 0 \<and> H' = H
         \<or> (\<exists>new. length new = n \<and> take (length old) new = take n old \<and> q \<notin> fst ` (H - {(p, old)}) \<and> H' = insert (q, new) (H - {(p, old)}))
         \<or> flags AND GKR_SECURE_USE_FALLBACK \<noteq> 0 \<and> length old < n \<and> sm_mem st' q = None
             \<and> copied_out os q old (sm_world st') \<and> H' = H - {(p, old)})"
proof -
  from assms(2) obtain gs where g: "secure_ok os taken st gs" "H = allocations st gs" by (auto simp: secure_inv_def)
  from secure_os.egg_secure_realloc_full_ok [OF assms(1) g(1), of p old n flags] assms(3) obtain q st' gs' where
    r: "egg_secure_realloc_full os p n flags st = Some (q, st')" "secure_ok os taken st' gs'"
    "reallocated os flags p old n q st' H (allocations st' gs')" unfolding g(2) by blast
  have "secure_inv os taken st' (allocations st' gs')" unfolding secure_inv_def using r(2) by blast
  with r(1,3) show ?thesis
    by (intro exI [of _ q] exI [of _ st'] exI [of _ "allocations st' gs'"]) (auto simp: reallocated_def moved_to_def split: if_splits)
qed

theorem egg_secure_realloc_refines_witness:
  "\<exists>p st q st' H'. egg_secure_alloc_full page_os 5 0 (secure_start world0) = Some (p, st)
    \<and> egg_secure_realloc_full page_os p 30 0 st = Some (q, st') \<and> secure_inv page_os world_taken st' H'
    \<and> (q = 0 \<and> H' = {(p, replicate 5 0)} \<or> (\<exists>new. length new = 30 \<and> take 5 new = replicate 5 0 \<and> H' = {(q, new)}))"
proof -
  from first_allocation obtain p st where f: "egg_secure_alloc_full page_os 5 0 (secure_start world0) = Some (p, st)"
    "secure_inv page_os world_taken st {(p, replicate 5 0)}" by blast
  from egg_secure_realloc_refines [OF pages.secure_os_axioms f(2), of p "replicate 5 0" 30 0] f(1) show ?thesis by auto
qed

text \<open>C12: In every run of a program that keeps to the rules, whatever the system does, the check of all guards, cells and rings
  passes, no two allocations share a byte, the memory holds what the program wrote, and none of the functions of the library faults
  or runs forever on the next call.\<close>

theorem secure_run_safe:
  assumes "secure_run os st H" and "secure_os os taken pgbits"
  shows "egg_secure_validate st = Some () \<and> (\<forall>n flags. egg_secure_alloc_full os n flags st \<noteq> None)
    \<and> (\<forall>(p, bs) \<in> H. get_bytes (sm_mem st) p (length bs) = Some bs \<and> egg_secure_check p st = 1
         \<and> (\<forall>n flags. egg_secure_realloc_full os p n flags st \<noteq> None \<and> egg_secure_free_full os p flags st \<noteq> None))
    \<and> (\<forall>(p, bs) \<in> H. \<forall>(q, ds) \<in> H. (p, bs) \<noteq> (q, ds) \<longrightarrow> p + length bs \<le> q \<or> q + length ds \<le> p)"
proof -
  from secure_os.run_inv [OF assms(2,1)] obtain gs where g: "secure_ok os taken st gs" "H = allocations st gs" by (auto simp: secure_inv_def)
  have 1: "egg_secure_validate st = Some ()" by (rule egg_secure_validate_ok [OF g(1)])
  have 2: "egg_secure_alloc_full os n flags st \<noteq> None" for n flags using secure_os.egg_secure_alloc_full_ok [OF assms(2) g(1), of n flags] by auto
  have 3: "get_bytes (sm_mem st) p (length bs) = Some bs \<and> egg_secure_check p st = 1" if "(p, bs) \<in> H" for p bs
    using allocation_bytes(1) [OF g(1)] check_allocation [OF g(1)] that g(2) by simp
  have 4: "egg_secure_realloc_full os p n flags st \<noteq> None \<and> egg_secure_free_full os p flags st \<noteq> None" if "(p, bs) \<in> H" for p bs n flags
    using secure_os.egg_secure_realloc_full_ok [OF assms(2) g(1), of p bs n flags] secure_os.egg_secure_free_full_ok [OF assms(2) g(1), of p bs flags] that g(2) by auto
  have "p + length bs \<le> q \<or> q + length ds \<le> p" if "(p, bs) \<in> H" "(q, ds) \<in> H" "(p, bs) \<noteq> (q, ds)" for p bs q ds
    using allocations_ordered [OF g(1)] that g(2) by blast
  with 1 2 3 4 show ?thesis by blast
qed

theorem secure_run_safe_witness:
  "\<exists>p st. secure_run page_os st {(p, replicate 5 0)} \<and> egg_secure_validate st = Some () \<and> get_bytes (sm_mem st) p 5 = Some (replicate 5 0)
    \<and> egg_secure_alloc_full page_os 100 0 st \<noteq> None \<and> egg_secure_free_full page_os p 0 st \<noteq> None"
proof -
  from first_allocation obtain p st where f: "secure_run page_os st {(p, replicate 5 0)}" by blast
  note S = secure_run_safe [OF f pages.secure_os_axioms]
  have "get_bytes (sm_mem st) p 5 = Some (replicate 5 0) \<and> (\<forall>n flags. egg_secure_realloc_full page_os p n flags st \<noteq> None \<and> egg_secure_free_full page_os p flags st \<noteq> None)"
    using S by simp
  then have "get_bytes (sm_mem st) p 5 = Some (replicate 5 0)" "egg_secure_free_full page_os p 0 st \<noteq> None" by simp_all
  moreover have "egg_secure_alloc_full page_os 100 0 st \<noteq> None" using S by (elim conjE) (erule allE)+
  moreover have "egg_secure_validate st = Some ()" using S by (rule conjunct1)
  ultimately show ?thesis using f by (intro exI [of _ p] exI [of _ st] conjI)
qed

text \<open>C19: When the system grants four more requests for pages, an allocation that fits, with its two guard words, into the pages that
  are asked for its length succeeds in secure memory, also without the fallback.\<close>

theorem egg_secure_alloc_succeeds:
  assumes "ready_os os taken pgbits ready" and "secure_inv os taken st H" and "ready 4 (sm_world st)" and "0 < n" and "n < 2 ^ 31"
    and "8 * (sec_size_to_words n + 2) \<le> sec_page_round os (max DEFAULT_BLOCK_SIZE n)"
  shows "\<exists>p st'. egg_secure_alloc_full os n flags st = Some (p, st') \<and> p \<noteq> 0 \<and> p \<notin> fst ` H \<and> secure_inv os taken st' (insert (p, replicate n 0) H)"
proof -
  from assms(2) obtain gs where g: "secure_ok os taken st gs" "H = allocations st gs" by (auto simp: secure_inv_def)
  have "8 * (sec_size_to_words n + 2) \<le> sec_page_round os (if n < DEFAULT_BLOCK_SIZE then DEFAULT_BLOCK_SIZE else n)"
    using assms(6) by (simp add: max_def split: if_splits)
  from ready_os.alloc_succeeds [OF assms(1) g(1) assms(3-5) this, of flags] show ?thesis unfolding secure_inv_def g(2) by blast
qed

theorem egg_secure_alloc_succeeds_witness:
  "\<exists>p st'. egg_secure_alloc_full page_os 16368 0 (secure_start world0) = Some (p, st') \<and> p \<noteq> 0 \<and> secure_inv page_os world_taken st' {(p, replicate 16368 0)}"
proof -
  have "8 * (sec_size_to_words 16368 + 2) \<le> sec_page_round page_os (max DEFAULT_BLOCK_SIZE 16368)"
    using page_os_round by (simp add: DEFAULT_BLOCK_SIZE_def sec_size_to_words_def)
  from egg_secure_alloc_succeeds [OF pages_ready.ready_os_axioms secure_start_inv world0_ready _ _ this, of 0] show ?thesis by simp
qed

text \<open>The pages for a new block are asked for the length alone, without the two guard words. When length and guards do not fit,
  the allocation from an empty secure memory fails although the system grants all pages, and the new block, of which nothing is in use,
  stays.\<close>

lemma egg_secure_alloc_guards_not_counted:
  assumes "ready_os os taken pgbits ready" and "ready 4 w" and "0 < n" and "n < 2 ^ 31"
    and "sec_page_round os (max DEFAULT_BLOCK_SIZE n) < 8 * (sec_size_to_words n + 2)"
  shows "\<exists>st'. egg_secure_alloc_full os n 0 (secure_start w) = Some (0, st') \<and> length (sm_blocks st') = 1"
proof -
  have "sec_page_round os (if n < DEFAULT_BLOCK_SIZE then DEFAULT_BLOCK_SIZE else n) < 8 * (sec_size_to_words n + 2)"
    using assms(5) by (simp add: max_def split: if_splits)
  from ready_os.alloc_too_big [OF assms(1-4) this] show ?thesis .
qed

subsection \<open>Strings\<close>

lemma secure_strlen_ok:
  assumes "\<And>i. i < length bs \<Longrightarrow> sm_mem st (p + i) = Some (bs ! i)" and "0 \<in> set bs"
  shows "secure_strlen os p st = Some (length (takeWhile (\<lambda>b. b \<noteq> 0) bs))"
  using assms
proof (induction bs arbitrary: p)
  case (Cons b bs)
  have b: "peek os p st = Some b" using Cons.prems(1) [of 0] by (simp add: peek_def)
  show ?case
  proof (cases "b = 0")
    case True
    with b show ?thesis by (simp add: secure_strlen.simps)
  next
    case False
    have "sm_mem st (Suc p + i) = Some (bs ! i)" if "i < length bs" for i using Cons.prems(1) [of "Suc i"] that by simp
    then have "secure_strlen os (Suc p) st = Some (length (takeWhile (\<lambda>b. b \<noteq> 0) bs))" using Cons.IH Cons.prems(2) False by auto
    with b False show ?thesis by (simp add: secure_strlen.simps [of _ p])
  qed
qed simp

context secure_os
begin

lemma strdup_ok:
  assumes ok: "secure_ok os taken st gs" and a: "egg_secure_alloc os (length (c_str s) + 1) st = Some (p, st1)"
  shows "if p = 0 then egg_secure_strdup os (Some s) st = None
    else \<exists>st'. egg_secure_strdup os (Some s) st = Some (p, st')
      \<and> secure_inv os taken st' (if egg_secure_check p st1 = 1 then insert (p, c_str s @ [0]) (allocations st gs) else allocations st gs)"
proof (cases "p = 0")
  case True
  with a show ?thesis by (simp add: egg_secure_strdup_def poke_def)
next
  case False
  let ?n = "length (c_str s) + 1" and ?H = "allocations st gs"
  from egg_secure_alloc_full_ok [OF ok, of ?n GKR_SECURE_USE_FALLBACK] a False obtain gs1 where s: "secure_ok os taken st1 gs1"
    "p \<notin> fst ` ?H \<and> allocations st1 gs1 = insert (p, replicate ?n 0) ?H \<or> p \<notin> taken (sm_world st1) \<and> allocations st1 gs1 = ?H"
    by (auto simp: egg_secure_alloc_def allocated_at_def)
  have dom: "dom (sm_mem st1) \<subseteq> taken (sm_world st1)" using s(1) by (simp add: secure_ok_def meta_ok_def)
  from s(2) show ?thesis
  proof
    assume h: "p \<notin> fst ` ?H \<and> allocations st1 gs1 = insert (p, replicate ?n 0) ?H"
    then have m: "(p, replicate ?n 0) \<in> allocations st1 gs1" by simp
    from program_step [OF s(1) m, of "c_str s @ [0]" 0] obtain st' where w: "poke os p (c_str s @ [0]) st1 = Some st'"
      "secure_inv os taken st' (insert (p, c_str s @ [0]) (allocations st1 gs1 - {(p, replicate ?n 0)}))" by auto
    have "allocations st1 gs1 - {(p, replicate ?n 0)} = ?H" using h by force
    with w a False check_allocation [OF s(1) m] show ?thesis by (simp add: egg_secure_strdup_def)
  next
    assume h: "p \<notin> taken (sm_world st1) \<and> allocations st1 gs1 = ?H"
    then have c: "egg_secure_check p st1 \<noteq> 1" using check_outside [OF s(1), of p] dom by blast
    note P = poke_outside [OF s(1) False, of "c_str s @ [0]"]
    with h have "secure_inv os taken (st1\<lparr>sm_world := os_write os p (c_str s @ [0]) (sm_world st1)\<rparr>) ?H" unfolding secure_inv_def by auto
    with P(1) h a False c show ?thesis by (simp add: egg_secure_strdup_def)
  qed
qed

lemma strfree_ok:
  assumes ok: "secure_ok os taken st gs" and p: "(p, bs) \<in> allocations st gs" and z: "0 \<in> set bs"
  shows "\<exists>st'. egg_secure_strfree os p st = Some st' \<and> secure_inv os taken st' (allocations st gs - {(p, bs)})
    \<and> (\<forall>x \<in> span p (length bs). sm_mem st' x = None \<or> sm_mem st' x = Some 0)"
proof -
  let ?k = "length (takeWhile (\<lambda>b. b \<noteq> 0) bs)"
  note A = allocation_bytes [OF ok p]
  have len: "secure_strlen os p st = Some ?k" using secure_strlen_ok [of bs st p] A(1) z by (simp add: get_bytes_Some)
  have k: "?k \<le> length bs" by (rule length_takeWhile_le)
  obtain st1 gs1 cs where c: "egg_secure_strclear os p st = Some st1" "secure_ok os taken st1 gs1" "length cs = length bs"
    "(p, cs) \<in> allocations st1 gs1" "allocations st1 gs1 - {(p, cs)} = allocations st gs - {(p, bs)}"
  proof (cases "?k = 0")
    case True
    then show thesis using that [of st gs bs] len ok p A(3) by (simp add: egg_secure_strclear_def egg_secure_clear_def)
  next
    case False
    let ?cs = "replicate ?k 0xAA @ drop ?k bs"
    from program_step [OF ok p, of "replicate ?k 0xAA" 0] False k obtain st1 where w: "poke os p (replicate ?k 0xAA) st = Some st1"
      "secure_inv os taken st1 (insert (p, ?cs) (allocations st gs - {(p, bs)}))" by auto
    then obtain gs1 where g: "secure_ok os taken st1 gs1" "allocations st1 gs1 = insert (p, ?cs) (allocations st gs - {(p, bs)})" by (auto simp: secure_inv_def)
    have "(p, ?cs) \<notin> allocations st gs - {(p, bs)}"
    proof
      assume n: "(p, ?cs) \<in> allocations st gs - {(p, bs)}"
      then have "span p (length ?cs) \<inter> span p (length bs) = {}" by (intro allocations_apart [OF ok _ p]) auto
      moreover have "0 < length ?cs" "0 < length bs" using A(2) k by auto
      ultimately show False by auto
    qed
    then show thesis using that [of st1 gs1 ?cs] w(1) g len False A(3) k by (auto simp: egg_secure_strclear_def egg_secure_clear_def)
  qed
  from egg_secure_free_full_ok [OF c(2,4), of GKR_SECURE_USE_FALLBACK] c show ?thesis
    by (fastforce simp: egg_secure_strfree_def secure_inv_def)
qed

end

text \<open>The copy of a string is a secure allocation that holds the string and its \<^verbatim>\<open>NUL\<close>, unless it came from the fallback. There is
  no check of the allocation: without memory the copy writes to \<^verbatim>\<open>NULL\<close>, a fault.\<close>

lemma egg_secure_strdup_copies:
  assumes "secure_os os taken pgbits" and "secure_inv os taken st H" and "egg_secure_alloc os (length (c_str s) + 1) st = Some (p, st1)"
  shows "if p = 0 then egg_secure_strdup os (Some s) st = None
    else \<exists>st'. egg_secure_strdup os (Some s) st = Some (p, st')
      \<and> secure_inv os taken st' (if egg_secure_check p st1 = 1 then insert (p, c_str s @ [0]) H else H)"
proof -
  from assms(2) obtain gs where g: "secure_ok os taken st gs" "H = allocations st gs" by (auto simp: secure_inv_def)
  show ?thesis unfolding g(2) by (rule secure_os.strdup_ok [OF assms(1) g(1) assms(3)])
qed

text \<open>Releasing a string of secure memory overwrites it first and never faults; nothing of it is left.\<close>

lemma egg_secure_strfree_clears:
  assumes "secure_os os taken pgbits" and "secure_inv os taken st H" and "(p, bs) \<in> H" and "0 \<in> set bs"
  shows "\<exists>st'. egg_secure_strfree os p st = Some st' \<and> secure_inv os taken st' (H - {(p, bs)})
    \<and> (\<forall>x. p \<le> x \<and> x < p + length bs \<longrightarrow> sm_mem st' x = None \<or> sm_mem st' x = Some 0)"
proof -
  from assms(2) obtain gs where g: "secure_ok os taken st gs" "H = allocations st gs" by (auto simp: secure_inv_def)
  from secure_os.strfree_ok [OF assms(1) g(1) _ assms(4), of p] assms(3) g(2) show ?thesis by fastforce
qed

end
