(* ===== verification/EggBuffer.thy ===== *)
theory EggBuffer
  imports Prelude
begin

text \<open>
  The growable byte buffer of \<^verbatim>\<open>egg/egg-buffer.c\<close>, the serialisation layer under the
  PKCS\#11 RPC protocol, the control socket and the keyring files.

  A buffer is a C struct with a block of \<open>allocated_len\<close> bytes of which the first
  \<open>len\<close> are the contents. The allocator stored in it is a function pointer: here a name
  (\<open>allocator\<close>), whose meaning is the heap parameter \<open>h\<close> of the operations that
  allocate. What the code relies on is the locale \<open>egg_allocator\<close> below, the
  \<^verbatim>\<open>realloc()\<close> contract that \<^verbatim>\<open>egg-buffer.h\<close> documents.
\<close>

subsection \<open>Data\<close>

datatype allocator = Default_allocator | Allocator nat

type_synonym heap = "allocator \<Rightarrow> bytes option \<Rightarrow> nat \<Rightarrow> bytes option"

record EggBuffer =
  eb_buf :: "bytes option"
  eb_len :: nat
  eb_allocated_len :: nat
  eb_failures :: nat
  eb_allocator :: "allocator option"

definition egg_buffer_zero :: EggBuffer where
  "egg_buffer_zero =
     \<lparr>eb_buf = None, eb_len = 0, eb_allocated_len = 0, eb_failures = 0, eb_allocator = None\<rparr>"

definition default_allocator :: "allocator option \<Rightarrow> allocator" where
  "default_allocator a = (case a of None \<Rightarrow> Default_allocator | Some a' \<Rightarrow> a')"

definition eb_fail :: "EggBuffer \<Rightarrow> EggBuffer" where
  "eb_fail b = b\<lparr>eb_failures := Suc (eb_failures b)\<rparr>"

definition egg_buffer_has_error :: "EggBuffer \<Rightarrow> bool" where
  "egg_buffer_has_error b \<longleftrightarrow> eb_failures b > 0"

text \<open>Stores and loads through \<open>buffer->buf\<close>, faulting outside the block.\<close>

definition eb_store :: "nat \<Rightarrow> bytes \<Rightarrow> EggBuffer \<Rightarrow> EggBuffer option" where
  "eb_store off bs b =
     (case eb_buf b of None \<Rightarrow> (if bs = [] then Some b else None)
      | Some m \<Rightarrow> map_option (\<lambda>m'. b\<lparr>eb_buf := Some m'\<rparr>) (mem_write m off bs))"

definition eb_load :: "nat \<Rightarrow> nat \<Rightarrow> EggBuffer \<Rightarrow> bytes option" where
  "eb_load off n b =
     (case eb_buf b of None \<Rightarrow> (if n = 0 then Some [] else None)
      | Some m \<Rightarrow> mem_read m off n)"

subsection \<open>Setting up and tearing down\<close>

definition egg_buffer_init_full :: "heap \<Rightarrow> nat \<Rightarrow> allocator option \<Rightarrow> bool \<times> EggBuffer" where
  "egg_buffer_init_full h reserve a =
     (let a' = default_allocator a;
          reserve' = (if reserve = 0 then 64 else reserve)
      in case h a' None reserve' of
           None \<Rightarrow> (False, eb_fail egg_buffer_zero)
         | Some m \<Rightarrow> (True, \<lparr>eb_buf = Some m, eb_len = 0, eb_allocated_len = reserve',
                              eb_failures = 0, eb_allocator = Some a'\<rparr>))"

definition egg_buffer_init :: "heap \<Rightarrow> nat \<Rightarrow> bool \<times> EggBuffer" where
  "egg_buffer_init h reserve = egg_buffer_init_full h reserve None"

definition egg_buffer_init_static :: "bytes \<Rightarrow> EggBuffer" where
  "egg_buffer_init_static bs =
     \<lparr>eb_buf = Some bs, eb_len = length bs, eb_allocated_len = length bs,
      eb_failures = 0, eb_allocator = None\<rparr>"

definition egg_buffer_init_allocated :: "bytes \<Rightarrow> allocator option \<Rightarrow> EggBuffer" where
  "egg_buffer_init_allocated bs a =
     \<lparr>eb_buf = Some bs, eb_len = length bs, eb_allocated_len = length bs,
      eb_failures = 0, eb_allocator = Some (default_allocator a)\<rparr>"

definition egg_buffer_reset :: "EggBuffer \<Rightarrow> EggBuffer option" where
  "egg_buffer_reset b =
     map_option (\<lambda>b'. b'\<lparr>eb_len := 0, eb_failures := 0\<rparr>)
       (eb_store 0 (replicate (eb_allocated_len b) 0) b)"

text \<open>
  The block freed by \<open>uninit\<close> is the first component (\<open>None\<close> when the memory is owned
  elsewhere), so that ownership can be stated.
\<close>

definition egg_buffer_uninit :: "EggBuffer \<Rightarrow> bytes option \<times> EggBuffer" where
  "egg_buffer_uninit b =
     ((if eb_buf b \<noteq> None \<and> eb_allocator b \<noteq> None then eb_buf b else None),
      egg_buffer_zero)"

definition egg_buffer_uninit_steal :: "EggBuffer \<Rightarrow> (bytes option \<times> nat) \<times> EggBuffer" where
  "egg_buffer_uninit_steal b = ((eb_buf b, eb_len b), egg_buffer_zero)"

definition egg_buffer_set_allocator ::
    "heap \<Rightarrow> allocator option \<Rightarrow> EggBuffer \<Rightarrow> (bool \<times> EggBuffer) option" where
  "egg_buffer_set_allocator h a b =
     (let a' = default_allocator a
      in if eb_allocator b = Some a' then Some (True, b)
         else if eb_allocated_len b \<noteq> 0 then
           (case h a' None (eb_allocated_len b) of
              None \<Rightarrow> Some (False, b)
            | Some m \<Rightarrow> do {
                old \<leftarrow> eb_load 0 (eb_allocated_len b) b;
                m' \<leftarrow> mem_write m 0 old;
                Some (True, b\<lparr>eb_buf := Some m', eb_allocator := Some a'\<rparr>)
              })
         else Some (True, b\<lparr>eb_buf := None, eb_allocator := Some a'\<rparr>))"

definition egg_buffer_equal :: "EggBuffer \<Rightarrow> EggBuffer \<Rightarrow> bool option" where
  "egg_buffer_equal b1 b2 =
     (if eb_len b1 \<noteq> eb_len b2 then Some False
      else do {
        x \<leftarrow> eb_load 0 (eb_len b1) b1;
        y \<leftarrow> eb_load 0 (eb_len b1) b2;
        Some (x = y)
      })"

subsection \<open>Growing\<close>

definition egg_buffer_reserve :: "heap \<Rightarrow> nat \<Rightarrow> EggBuffer \<Rightarrow> bool \<times> EggBuffer" where
  "egg_buffer_reserve h n b =
     (if n < eb_allocated_len b then (True, b)
      else
        let newlen = size_mul (eb_allocated_len b) 2;
            newlen = (if n > newlen then size_add newlen n else newlen)
        in case eb_allocator b of
             None \<Rightarrow> (False, eb_fail b)
           | Some a \<Rightarrow>
               (case h a (eb_buf b) newlen of
                  None \<Rightarrow> (False, eb_fail b)
                | Some m \<Rightarrow> (True, b\<lparr>eb_buf := Some m, eb_allocated_len := newlen\<rparr>)))"

definition egg_buffer_resize :: "heap \<Rightarrow> nat \<Rightarrow> EggBuffer \<Rightarrow> bool \<times> EggBuffer" where
  "egg_buffer_resize h n b =
     (case egg_buffer_reserve h n b of
        (False, b') \<Rightarrow> (False, b')
      | (True, b') \<Rightarrow> (True, b'\<lparr>eb_len := n\<rparr>))"

text \<open>The pointer returned is the offset of the new room, \<open>None\<close> for \<^verbatim>\<open>NULL\<close>.\<close>

definition egg_buffer_add_empty :: "heap \<Rightarrow> nat \<Rightarrow> EggBuffer \<Rightarrow> nat option \<times> EggBuffer" where
  "egg_buffer_add_empty h n b =
     (case egg_buffer_reserve h (size_add (eb_len b) n) b of
        (False, b') \<Rightarrow> (None, b')
      | (True, b') \<Rightarrow> (Some (eb_len b), b'\<lparr>eb_len := size_add (eb_len b) n\<rparr>))"

definition egg_buffer_append :: "heap \<Rightarrow> bytes \<Rightarrow> EggBuffer \<Rightarrow> (bool \<times> EggBuffer) option" where
  "egg_buffer_append h val b =
     (case egg_buffer_reserve h (size_add (eb_len b) (length val)) b of
        (False, b') \<Rightarrow> Some (False, b')
      | (True, b') \<Rightarrow> do {
          b'' \<leftarrow> eb_store (eb_len b') val b';
          Some (True, b''\<lparr>eb_len := size_add (eb_len b'') (length val)\<rparr>)
        })"

definition egg_buffer_add_byte :: "heap \<Rightarrow> byte \<Rightarrow> EggBuffer \<Rightarrow> (bool \<times> EggBuffer) option" where
  "egg_buffer_add_byte h val b =
     (case egg_buffer_reserve h (size_add (eb_len b) 1) b of
        (False, b') \<Rightarrow> Some (False, b')
      | (True, b') \<Rightarrow> do {
          b'' \<leftarrow> eb_store (eb_len b') [val] b';
          Some (True, b''\<lparr>eb_len := size_add (eb_len b'') 1\<rparr>)
        })"

text \<open>
  The getters return the value read and the next offset, or \<open>None\<close> for a zero return.
\<close>

type_synonym 'a getter = "EggBuffer \<Rightarrow> nat \<Rightarrow> (('a \<times> nat) option \<times> EggBuffer) option"

definition egg_buffer_get_byte :: "byte getter" where
  "egg_buffer_get_byte b off =
     (if eb_len b < 1 \<or> off > eb_len b - 1 then Some (None, eb_fail b)
      else do {
        bs \<leftarrow> eb_load off 1 b;
        Some (Some (hd bs, off + 1), b)
      })"

subsection \<open>Fixed width integers, big endian\<close>

definition egg_buffer_encode_uint16 :: "16 word \<Rightarrow> bytes" where
  "egg_buffer_encode_uint16 val =
     [ucast (drop_bit 8 val AND 0xff), ucast (drop_bit 0 val AND 0xff)]"

definition egg_buffer_decode_uint16 :: "bytes \<Rightarrow> 16 word" where
  "egg_buffer_decode_uint16 p = push_bit 8 (ucast (p ! 0)) OR ucast (p ! 1)"

definition egg_buffer_encode_uint32 :: "32 word \<Rightarrow> bytes" where
  "egg_buffer_encode_uint32 val =
     [ucast (drop_bit 24 val AND 0xff), ucast (drop_bit 16 val AND 0xff),
      ucast (drop_bit 8 val AND 0xff), ucast (drop_bit 0 val AND 0xff)]"

definition egg_buffer_decode_uint32 :: "bytes \<Rightarrow> 32 word" where
  "egg_buffer_decode_uint32 p =
     push_bit 24 (ucast (p ! 0)) OR push_bit 16 (ucast (p ! 1))
     OR push_bit 8 (ucast (p ! 2)) OR ucast (p ! 3)"

definition egg_buffer_set_uint16 ::
    "nat \<Rightarrow> 16 word \<Rightarrow> EggBuffer \<Rightarrow> (bool \<times> EggBuffer) option" where
  "egg_buffer_set_uint16 off val b =
     (if eb_len b < 2 \<or> off > eb_len b - 2 then Some (False, eb_fail b)
      else do {
        b' \<leftarrow> eb_store off (egg_buffer_encode_uint16 val) b;
        Some (True, b')
      })"

definition egg_buffer_add_uint16 ::
    "heap \<Rightarrow> 16 word \<Rightarrow> EggBuffer \<Rightarrow> (bool \<times> EggBuffer) option" where
  "egg_buffer_add_uint16 h val b =
     (case egg_buffer_reserve h (size_add (eb_len b) 2) b of
        (False, b') \<Rightarrow> Some (False, b')
      | (True, b') \<Rightarrow> do {
          let b1 = b'\<lparr>eb_len := size_add (eb_len b') 2\<rparr>;
          (ok, b2) \<leftarrow> egg_buffer_set_uint16 (size_sub (eb_len b1) 2) val b1;
          Some (True, b2)
        })"

definition egg_buffer_get_uint16 :: "16 word getter" where
  "egg_buffer_get_uint16 b off =
     (if eb_len b < 2 \<or> off > eb_len b - 2 then Some (None, eb_fail b)
      else do {
        p \<leftarrow> eb_load off 2 b;
        Some (Some (egg_buffer_decode_uint16 p, off + 2), b)
      })"

definition egg_buffer_set_uint32 ::
    "nat \<Rightarrow> 32 word \<Rightarrow> EggBuffer \<Rightarrow> (bool \<times> EggBuffer) option" where
  "egg_buffer_set_uint32 off val b =
     (if eb_len b < 4 \<or> off > eb_len b - 4 then Some (False, eb_fail b)
      else do {
        b' \<leftarrow> eb_store off (egg_buffer_encode_uint32 val) b;
        Some (True, b')
      })"

definition egg_buffer_add_uint32 ::
    "heap \<Rightarrow> 32 word \<Rightarrow> EggBuffer \<Rightarrow> (bool \<times> EggBuffer) option" where
  "egg_buffer_add_uint32 h val b =
     (case egg_buffer_reserve h (size_add (eb_len b) 4) b of
        (False, b') \<Rightarrow> Some (False, b')
      | (True, b') \<Rightarrow> do {
          let b1 = b'\<lparr>eb_len := size_add (eb_len b') 4\<rparr>;
          (ok, b2) \<leftarrow> egg_buffer_set_uint32 (size_sub (eb_len b1) 4) val b1;
          Some (True, b2)
        })"

definition egg_buffer_get_uint32 :: "32 word getter" where
  "egg_buffer_get_uint32 b off =
     (if eb_len b < 4 \<or> off > eb_len b - 4 then Some (None, eb_fail b)
      else do {
        p \<leftarrow> eb_load off 4 b;
        Some (Some (egg_buffer_decode_uint32 p, off + 4), b)
      })"

definition egg_buffer_add_uint64 ::
    "heap \<Rightarrow> 64 word \<Rightarrow> EggBuffer \<Rightarrow> (bool \<times> EggBuffer) option" where
  "egg_buffer_add_uint64 h val b = do {
     (ok, b1) \<leftarrow> egg_buffer_add_uint32 h (ucast (drop_bit 32 val AND 0xffffffff)) b;
     if \<not> ok then Some (False, b1)
     else egg_buffer_add_uint32 h (ucast (val AND 0xffffffff)) b1
   }"

definition egg_buffer_get_uint64 :: "64 word getter" where
  "egg_buffer_get_uint64 b off = do {
     (ra, b1) \<leftarrow> egg_buffer_get_uint32 b off;
     case ra of None \<Rightarrow> Some (None, b1)
     | Some (x, off1) \<Rightarrow> do {
         (rb, b2) \<leftarrow> egg_buffer_get_uint32 b1 off1;
         case rb of None \<Rightarrow> Some (None, b2)
         | Some (y, off2) \<Rightarrow> Some (Some (push_bit 32 (ucast x) OR ucast y, off2), b2)
       }
   }"

subsection \<open>Byte arrays\<close>

text \<open>A \<^verbatim>\<open>NULL\<close> array is \<open>None\<close> and is encoded as the length \<open>0xffffffff\<close>.\<close>

definition egg_buffer_add_byte_array ::
    "heap \<Rightarrow> bytes option \<Rightarrow> EggBuffer \<Rightarrow> (bool \<times> EggBuffer) option" where
  "egg_buffer_add_byte_array h val b =
     (case val of
        None \<Rightarrow> egg_buffer_add_uint32 h 0xffffffff b
      | Some v \<Rightarrow>
          if length v \<ge> 0x7fffffff then Some (False, eb_fail b)
          else do {
            (ok, b1) \<leftarrow> egg_buffer_add_uint32 h (word_of_nat (length v)) b;
            if \<not> ok then Some (False, b1) else egg_buffer_append h v b1
          })"

definition egg_buffer_add_byte_array_empty ::
    "heap \<Rightarrow> nat \<Rightarrow> EggBuffer \<Rightarrow> (nat option \<times> EggBuffer) option" where
  "egg_buffer_add_byte_array_empty h vlen b =
     (if vlen \<ge> 0x7fffffff then Some (None, eb_fail b)
      else do {
        (ok, b1) \<leftarrow> egg_buffer_add_uint32 h (word_of_nat vlen) b;
        if \<not> ok then Some (None, b1) else Some (egg_buffer_add_empty h vlen b1)
      })"

text \<open>
  \<open>*val\<close> is a pointer into the buffer: the model returns the bytes it points at.
\<close>

definition egg_buffer_get_byte_array :: "bytes option getter" where
  "egg_buffer_get_byte_array b off = do {
     (r, b1) \<leftarrow> egg_buffer_get_uint32 b off;
     case r of None \<Rightarrow> Some (None, b1)
     | Some (len, off1) \<Rightarrow>
         if len = 0xffffffff then Some (Some (None, off1), b1)
         else if len \<ge> 0x7fffffff then Some (None, eb_fail b1)
         else if eb_len b1 < unat len \<or> off1 > eb_len b1 - unat len
         then Some (None, eb_fail b1)
         else do {
           v \<leftarrow> eb_load off1 (unat len) b1;
           Some (Some (Some v, off1 + unat len), b1)
         }
   }"

subsection \<open>Strings\<close>

definition egg_buffer_add_string ::
    "heap \<Rightarrow> bytes option \<Rightarrow> EggBuffer \<Rightarrow> (bool \<times> EggBuffer) option" where
  "egg_buffer_add_string h str b =
     (case str of
        None \<Rightarrow> egg_buffer_add_uint32 h 0xffffffff b
      | Some s \<Rightarrow>
          let v = c_str s in
          if length v \<ge> 0x7fffffff then Some (False, b)
          else do {
            (ok, b1) \<leftarrow> egg_buffer_add_uint32 h (word_of_nat (length v)) b;
            if \<not> ok then Some (False, b1) else egg_buffer_append h v b1
          })"

text \<open>
  The outcome of \<open>egg_buffer_get_string\<close>: a zero return that left \<open>*str_ret\<close> alone, a
  zero return after \<open>*str_ret\<close> was set to \<^verbatim>\<open>NULL\<close> (the allocation failed), or success
  with the block \<open>*str_ret\<close> points at (NUL terminated) and the next offset.
\<close>

datatype str_result = Str_fail | Str_nomem | Str_ok "bytes option" nat

definition string_allocator :: "allocator option \<Rightarrow> EggBuffer \<Rightarrow> allocator" where
  "string_allocator a b =
     (case a of Some a' \<Rightarrow> a' | None \<Rightarrow> default_allocator (eb_allocator b))"

definition egg_buffer_get_string ::
    "heap \<Rightarrow> allocator option \<Rightarrow> EggBuffer \<Rightarrow> nat \<Rightarrow> (str_result \<times> EggBuffer) option" where
  "egg_buffer_get_string h a b off = do {
     (r, b1) \<leftarrow> egg_buffer_get_uint32 b off;
     case r of None \<Rightarrow> Some (Str_fail, b1)
     | Some (len, off1) \<Rightarrow>
         if len = 0xffffffff then Some (Str_ok None off1, b1)
         else if len \<ge> 0x7fffffff then Some (Str_fail, b1)
         else if eb_len b1 < unat len \<or> off1 > eb_len b1 - unat len then Some (Str_fail, b1)
         else do {
           v \<leftarrow> eb_load off1 (unat len) b1;
           if 0 \<in> set v then Some (Str_fail, b1)
           else case h (string_allocator a b) None (unat len + 1) of
                  None \<Rightarrow> Some (Str_nomem, b1)
                | Some m \<Rightarrow> do {
                    m1 \<leftarrow> mem_write m 0 v;
                    m2 \<leftarrow> mem_write m1 (unat len) [0];
                    Some (Str_ok (Some m2) (off1 + unat len), b1)
                  }
         }
   }"

subsection \<open>String vectors\<close>

fun add_strings :: "heap \<Rightarrow> bytes list \<Rightarrow> EggBuffer \<Rightarrow> (bool \<times> EggBuffer) option" where
  "add_strings h [] b = Some (True, b)"
| "add_strings h (s # ss) b = do {
     (ok, b1) \<leftarrow> egg_buffer_add_string h (Some s) b;
     if \<not> ok then Some (False, b1) else add_strings h ss b1
   }"

definition egg_buffer_add_stringv ::
    "heap \<Rightarrow> bytes list option \<Rightarrow> EggBuffer \<Rightarrow> (bool \<times> EggBuffer) option" where
  "egg_buffer_add_stringv h strv b =
     (case strv of
        None \<Rightarrow> Some (False, b)
      | Some ss \<Rightarrow> do {
          (ok, b1) \<leftarrow> egg_buffer_add_uint32 h (word_of_nat (length ss)) b;
          if \<not> ok then Some (False, b1) else add_strings h ss b1
        })"

text \<open>
  The loop of \<open>egg_buffer_get_stringv\<close>. \<open>slots\<close> is the pointer array \<open>*strv_ret\<close>, as
  long as the block allocated for it; storing through a pointer past its end faults.
\<close>

fun get_strings :: "heap \<Rightarrow> allocator \<Rightarrow> nat \<Rightarrow> nat \<Rightarrow> bytes option list \<Rightarrow> EggBuffer \<Rightarrow> nat
    \<Rightarrow> ((bytes option list \<times> nat) option \<times> EggBuffer) option" where
  "get_strings h a 0 i slots b off = Some (Some (slots, off), b)"
| "get_strings h a (Suc n) i slots b off = do {
     (r, b1) \<leftarrow> egg_buffer_get_string h (Some a) b off;
     case r of
       Str_fail \<Rightarrow> Some (None, b1)
     | Str_nomem \<Rightarrow> if i < length slots then Some (None, b1) else None
     | Str_ok v off1 \<Rightarrow>
         if i < length slots then get_strings h a n (Suc i) (slots[i := v]) b1 off1 else None
   }"

definition egg_buffer_get_stringv ::
    "heap \<Rightarrow> allocator option \<Rightarrow> EggBuffer \<Rightarrow> nat
      \<Rightarrow> ((bytes option list \<times> nat) option \<times> EggBuffer) option" where
  "egg_buffer_get_stringv h a b off = do {
     let al = string_allocator a b;
     (r, b1) \<leftarrow> egg_buffer_get_uint32 b off;
     case r of None \<Rightarrow> Some (None, b1)
     | Some (n, off1) \<Rightarrow>
         let len = size_mul (unat (n + 1)) 8
         in case h al None len of
              None \<Rightarrow> Some (None, b1)
            | Some m \<Rightarrow> get_strings h al (unat n) 0 (replicate (length m div 8) None) b1 off1
   }"


subsection \<open>Encoding and decoding integers\<close>

lemma mask8: "(0xff :: 'a::len word) = mask 8"
  by (simp add: mask_eq_exp_minus_1)

lemma byte_bit_out: "8 \<le> n \<Longrightarrow> \<not> bit (w::byte) n"
  by (auto dest: bit_imp_le_length)

lemma decode_encode_uint16: "egg_buffer_decode_uint16 (egg_buffer_encode_uint16 v @ r) = v"
  unfolding egg_buffer_decode_uint16_def egg_buffer_encode_uint16_def mask8
  by (rule bit_word_eqI) (auto simp: bit_simps less_Suc_eq_le)

lemma decode_encode_uint32: "egg_buffer_decode_uint32 (egg_buffer_encode_uint32 v @ r) = v"
proof (rule bit_word_eqI)
  fix n assume "n < LENGTH(32)"
  then consider "n < 8" | "8 \<le> n" "n < 16" | "16 \<le> n" "n < 24" | "24 \<le> n" "n < 32"
    by fastforce
  then show "bit (egg_buffer_decode_uint32 (egg_buffer_encode_uint32 v @ r)) n = bit v n"
    by cases (auto simp: egg_buffer_decode_uint32_def egg_buffer_encode_uint32_def mask8
        bit_simps nth_append)
qed

lemma encode_decode_uint16:
  "egg_buffer_encode_uint16 (egg_buffer_decode_uint16 [a, b]) = [a, b]"
  unfolding egg_buffer_decode_uint16_def egg_buffer_encode_uint16_def mask8
  by (auto simp: bit_simps byte_bit_out intro!: bit_word_eqI)

lemma encode_decode_uint32:
  "egg_buffer_encode_uint32 (egg_buffer_decode_uint32 [a, b, c, d]) = [a, b, c, d]"
  unfolding egg_buffer_decode_uint32_def egg_buffer_encode_uint32_def mask8
  by (auto simp: bit_simps byte_bit_out intro!: bit_word_eqI)

lemma join_halves:
  "push_bit 32 (ucast (ucast (drop_bit 32 v AND 0xffffffff) :: 32 word))
     OR ucast (ucast (v AND 0xffffffff) :: 32 word) = (v :: 64 word)"
proof -
  have m: "(0xffffffff :: 64 word) = mask 32"
    by (simp add: mask_eq_exp_minus_1)
  show ?thesis
    unfolding m by (rule bit_word_eqI) (auto simp: bit_simps)
qed

lemma length_encode [simp]:
  "length (egg_buffer_encode_uint16 x) = 2" "length (egg_buffer_encode_uint32 v) = 4"
  by (simp_all add: egg_buffer_encode_uint16_def egg_buffer_encode_uint32_def)

lemmas decode_encode_exact [simp] =
  decode_encode_uint16 [where r = "[]", simplified]
  decode_encode_uint32 [where r = "[]", simplified]

subsection \<open>Well-formed buffers and what they hold\<close>

definition eb_wf :: "EggBuffer \<Rightarrow> bool" where
  "eb_wf b \<longleftrightarrow> eb_len b \<le> eb_allocated_len b \<and> eb_allocated_len b < 2 ^ 62
     \<and> (case eb_buf b of None \<Rightarrow> eb_allocated_len b = 0
         | Some m \<Rightarrow> length m = eb_allocated_len b)"

definition eb_contents :: "EggBuffer \<Rightarrow> bytes" where
  "eb_contents b = (case eb_buf b of None \<Rightarrow> [] | Some m \<Rightarrow> take (eb_len b) m)"

lemma length_eb_contents [simp]: "eb_wf b \<Longrightarrow> length (eb_contents b) = eb_len b"
  by (auto simp: eb_wf_def eb_contents_def split: option.splits)

lemma eb_fail_simps [simp]:
  "eb_wf (eb_fail b) = eb_wf b" "eb_contents (eb_fail b) = eb_contents b"
  "eb_len (eb_fail b) = eb_len b" "eb_failures (eb_fail b) = Suc (eb_failures b)"
  "eb_allocator (eb_fail b) = eb_allocator b" "eb_buf (eb_fail b) = eb_buf b"
  by (simp_all add: eb_fail_def eb_wf_def eb_contents_def split: option.split)

lemma eb_wf_zero [simp]: "eb_wf egg_buffer_zero" "eb_contents egg_buffer_zero = []"
  by (simp_all add: eb_wf_def eb_contents_def egg_buffer_zero_def)

text \<open>A load inside the contents returns that part of the contents.\<close>

lemma eb_load_contents:
  assumes "eb_wf b" and "eb_contents b = pre @ bs @ post"
  shows "eb_load (length pre) (length bs) b = Some bs"
proof (cases "eb_buf b")
  case None
  with assms show ?thesis by (simp add: eb_load_def eb_contents_def)
next
  case (Some m)
  from Some assms(2) have tk: "take (eb_len b) m = pre @ bs @ post"
    by (simp add: eb_contents_def)
  then have "m = pre @ bs @ (post @ drop (eb_len b) m)"
    by (metis append.assoc append_take_drop_id)
  then have "mem_read m (length pre) (length bs) = Some bs"
    by (metis mem_read_prefix)
  with Some show ?thesis by (simp add: eb_load_def)
qed

lemma eb_load_some: "eb_wf b \<Longrightarrow> off + n \<le> eb_len b \<Longrightarrow> \<exists>bs. eb_load off n b = Some bs"
  by (auto simp: eb_wf_def eb_load_def mem_read_def split: option.splits)

text \<open>A store at the end of the contents, in room that has been reserved.\<close>

lemma eb_store_end:
  assumes "eb_wf b" and "eb_len b + length bs \<le> eb_allocated_len b" and "eb_buf b \<noteq> None"
  shows "\<exists>b'. eb_store (eb_len b) bs b = Some b' \<and> eb_wf (b'\<lparr>eb_len := eb_len b + length bs\<rparr>)
    \<and> eb_contents (b'\<lparr>eb_len := eb_len b + length bs\<rparr>) = eb_contents b @ bs
    \<and> eb_len b' = eb_len b \<and> eb_failures b' = eb_failures b \<and> eb_allocator b' = eb_allocator b"
proof -
  from assms(3) obtain m where m: "eb_buf b = Some m" by blast
  with assms have "length m = eb_allocated_len b" by (simp add: eb_wf_def)
  with m assms show ?thesis
    by (auto simp: eb_store_def mem_write_def eb_wf_def eb_contents_def)
qed

lemma eb_store_len:
  "eb_store off bs (b\<lparr>eb_len := n\<rparr>) = map_option (\<lambda>b'. b'\<lparr>eb_len := n\<rparr>) (eb_store off bs b)"
  by (auto simp: eb_store_def mem_write_def split: option.split)

lemma eb_store_keeps_len: "eb_store off bs b = Some b' \<Longrightarrow> eb_len b' = eb_len b"
  by (auto simp: eb_store_def mem_write_def split: option.splits if_splits)

text \<open>The wire format of the composite values.\<close>

definition encode_uint64 :: "64 word \<Rightarrow> bytes" where
  "encode_uint64 v = egg_buffer_encode_uint32 (ucast (drop_bit 32 v AND 0xffffffff))
     @ egg_buffer_encode_uint32 (ucast (v AND 0xffffffff))"

definition encode_byte_array :: "bytes option \<Rightarrow> bytes" where
  "encode_byte_array v = (case v of None \<Rightarrow> egg_buffer_encode_uint32 0xffffffff
     | Some x \<Rightarrow> egg_buffer_encode_uint32 (word_of_nat (length x)) @ x)"

definition length_ok :: "bytes option \<Rightarrow> bool" where
  "length_ok v \<longleftrightarrow> (case v of None \<Rightarrow> True | Some x \<Rightarrow> length x < 0x7fffffff)"

subsection \<open>The allocator contract\<close>

text \<open>
  What \<^verbatim>\<open>egg-buffer.h\<close> asks of an allocator, "the realloc() syntax and logic": a block
  it returns has the size asked for and keeps the old contents. Blocks live in the user
  address space of a 64 bit machine, so none reaches \<open>2 ^ 62\<close> bytes.
\<close>

locale egg_allocator =
  fixes h :: heap
  assumes alloc_length: "h a old n = Some m \<Longrightarrow> length m = n"
    and alloc_bound: "h a old n = Some m \<Longrightarrow> n < 2 ^ 62"
    and alloc_keep: "h a (Some p) n = Some m \<Longrightarrow> k \<le> length p \<Longrightarrow> k \<le> n \<Longrightarrow> take k m = take k p"
begin

lemma reserve_keeps:
  assumes wf: "eb_wf b" and n: "n < 2 ^ 63" and r: "egg_buffer_reserve h n b = (ok, b')"
  shows "eb_wf b' \<and> eb_contents b' = eb_contents b \<and> eb_len b' = eb_len b
    \<and> eb_allocator b' = eb_allocator b
    \<and> (ok \<longrightarrow> n \<le> eb_allocated_len b' \<and> eb_failures b' = eb_failures b \<and> eb_buf b' \<noteq> None)
    \<and> (\<not> ok \<longrightarrow> b' = eb_fail b)"
proof (cases "n < eb_allocated_len b")
  case True
  with r have "ok" "b' = b" by (auto simp: egg_buffer_reserve_def)
  with wf True show ?thesis by (auto simp: eb_wf_def split: option.splits)
next
  case False
  let ?l = "eb_allocated_len b"
  let ?nl = "if n > 2 * ?l then 2 * ?l + n else 2 * ?l"
  from wf have l: "?l < 2 ^ 62" "eb_len b \<le> ?l" by (auto simp: eb_wf_def)
  with n have newlen: "(let newlen = size_mul ?l 2 in
      if n > newlen then size_add newlen n else newlen) = ?nl"
    by (simp add: Let_def size_add_def size_mul_def)
  have ge: "n \<le> ?nl" "eb_len b \<le> ?nl" using l by auto
  consider (none) "ok = False" "b' = eb_fail b"
    | (some) a m where "ok" "h a (eb_buf b) ?nl = Some m"
        "b' = b\<lparr>eb_buf := Some m, eb_allocated_len := ?nl\<rparr>"
    using False r newlen
    by (auto simp: egg_buffer_reserve_def Let_def split: option.splits)
  then show ?thesis
  proof cases
    case none
    with wf show ?thesis by simp
  next
    case some
    have "take (eb_len b) m = eb_contents b"
    proof (cases "eb_buf b")
      case None
      with wf show ?thesis by (simp add: eb_contents_def eb_wf_def)
    next
      case (Some p)
      with wf have "eb_len b \<le> length p" by (simp add: eb_wf_def)
      with Some alloc_keep [OF some(2) [unfolded Some]] ge show ?thesis
        by (simp add: eb_contents_def)
    qed
    with some ge l alloc_length [OF some(2)] alloc_bound [OF some(2)] show ?thesis
      by (auto simp: eb_wf_def eb_contents_def)
  qed
qed

text \<open>Reserving room for \<open>bs\<close> and storing it there.\<close>

lemma reserve_store:
  assumes wf: "eb_wf b" and len: "length bs < 2 ^ 62"
    and r: "egg_buffer_reserve h (size_add (eb_len b) (length bs)) b = (True, b')"
  shows "size_add (eb_len b) (length bs) = eb_len b + length bs \<and> eb_len b' = eb_len b
    \<and> eb_failures b' = eb_failures b
    \<and> (\<exists>b''. eb_store (eb_len b) bs b' = Some b''
        \<and> eb_wf (b''\<lparr>eb_len := eb_len b + length bs\<rparr>)
        \<and> eb_contents (b''\<lparr>eb_len := eb_len b + length bs\<rparr>) = eb_contents b @ bs
        \<and> eb_len b'' = eb_len b \<and> eb_failures b'' = eb_failures b \<and> eb_allocator b'' = eb_allocator b)"
proof -
  from wf have "eb_len b < 2 ^ 62" by (simp add: eb_wf_def)
  with len have sum: "size_add (eb_len b) (length bs) = eb_len b + length bs"
    and lt: "eb_len b + length bs < 2 ^ 63"
    by (simp_all add: size_add_def)
  from reserve_keeps [OF wf lt r [unfolded sum]] sum eb_store_end [of b' bs] show ?thesis
    by auto
qed

end

text \<open>
  Writers and readers. \<open>emits w bs\<close>: on a well-formed buffer \<open>w\<close> never faults, leaves a
  well-formed buffer that extends the old contents, reports success exactly when it
  counted no failure, and then has appended \<open>bs\<close>. \<open>parses g v bs\<close>: reading where
  \<open>bs\<close> stands gives \<open>v\<close> and the offset behind it, and changes nothing.
\<close>

definition emits_at :: "(EggBuffer \<Rightarrow> (bool \<times> EggBuffer) option) \<Rightarrow> bytes \<Rightarrow> EggBuffer \<Rightarrow> bool" where
  "emits_at w bs b \<longleftrightarrow> (\<exists>ok b'. w b = Some (ok, b') \<and> eb_wf b'
     \<and> (\<exists>junk. eb_contents b' = eb_contents b @ junk)
     \<and> eb_allocator b' = eb_allocator b
     \<and> eb_failures b \<le> eb_failures b' \<and> (ok \<longleftrightarrow> eb_failures b' = eb_failures b)
     \<and> (ok \<longrightarrow> eb_contents b' = eb_contents b @ bs))"

definition emits :: "(EggBuffer \<Rightarrow> (bool \<times> EggBuffer) option) \<Rightarrow> bytes \<Rightarrow> bool" where
  "emits w bs \<longleftrightarrow> (\<forall>b. eb_wf b \<longrightarrow> emits_at w bs b)"

definition parses :: "'a getter \<Rightarrow> 'a \<Rightarrow> bytes \<Rightarrow> bool" where
  "parses g v bs \<longleftrightarrow> (\<forall>b pre post. eb_wf b \<longrightarrow> eb_contents b = pre @ bs @ post \<longrightarrow>
     g b (length pre) = Some (Some (v, length pre + length bs), b))"

lemma emitsI: "(\<And>b. eb_wf b \<Longrightarrow> emits_at w bs b) \<Longrightarrow> emits w bs"
  by (simp add: emits_def)

lemma emits_at_ok:
  "w b = Some (True, b') \<Longrightarrow> eb_wf b' \<Longrightarrow> eb_contents b' = eb_contents b @ bs \<Longrightarrow>
     eb_failures b' = eb_failures b \<Longrightarrow> eb_allocator b' = eb_allocator b \<Longrightarrow> emits_at w bs b"
  by (auto simp: emits_at_def)

lemma emits_at_fail:
  "w b = Some (False, b') \<Longrightarrow> eb_wf b' \<Longrightarrow> eb_contents b' = eb_contents b @ junk \<Longrightarrow>
     eb_failures b < eb_failures b' \<Longrightarrow> eb_allocator b' = eb_allocator b \<Longrightarrow> emits_at w bs b"
  by (auto simp: emits_at_def)

lemma emits_cases [consumes 2, case_names ok fail]:
  assumes "emits w bs" and "eb_wf b"
  obtains (ok) b' where "w b = Some (True, b')" "eb_wf b'"
      "eb_contents b' = eb_contents b @ bs" "eb_failures b' = eb_failures b" "eb_allocator b' = eb_allocator b"
    | (fail) b' junk where "w b = Some (False, b')" "eb_wf b'"
      "eb_contents b' = eb_contents b @ junk" "eb_failures b < eb_failures b'" "eb_allocator b' = eb_allocator b"
proof -
  from assms obtain ok b' junk where *: "w b = Some (ok, b')" "eb_wf b'"
    "eb_contents b' = eb_contents b @ junk" "eb_failures b \<le> eb_failures b'" "eb_allocator b' = eb_allocator b"
    "ok \<longleftrightarrow> eb_failures b' = eb_failures b" "ok \<longrightarrow> eb_contents b' = eb_contents b @ bs"
    unfolding emits_def emits_at_def by blast
  show thesis
  proof (cases ok)
    case True
    with * show thesis by (intro that(1) [of b']) auto
  next
    case False
    with * show thesis by (intro that(2) [of b' junk]) auto
  qed
qed

lemma emits_fail: "emits (\<lambda>b. Some (False, eb_fail b)) bs"
  by (rule emitsI, rule emits_at_fail [where b' = "eb_fail b" for b]) auto

lemma emits_cong: "(\<And>b. eb_wf b \<Longrightarrow> w b = w' b) \<Longrightarrow> bs = bs' \<Longrightarrow> emits w bs = emits w' bs'"
  by (auto simp: emits_def emits_at_def)

text \<open>Two writers in sequence, the second run only if the first succeeded.\<close>

lemma emits_seq:
  assumes 1: "emits w1 bs1" and 2: "emits w2 bs2"
  shows "emits (\<lambda>b. do { (ok, b1) \<leftarrow> w1 b; if \<not> ok then Some (False, b1) else w2 b1 }) (bs1 @ bs2)"
proof (rule emitsI)
  fix b assume "eb_wf b"
  with 1 show "emits_at (\<lambda>b. do { (ok, b1) \<leftarrow> w1 b;
      if \<not> ok then Some (False, b1) else w2 b1 }) (bs1 @ bs2) b"
  proof (cases rule: emits_cases)
    case (fail b1 junk)
    then show ?thesis by (intro emits_at_fail [where b' = b1 and junk = junk]) auto
  next
    case first: (ok b1)
    from 2 \<open>eb_wf b1\<close> show ?thesis
    proof (cases rule: emits_cases)
      case (ok b2)
      with first show ?thesis by (intro emits_at_ok [where b' = b2]) auto
    next
      case (fail b2 junk)
      with first show ?thesis
        by (intro emits_at_fail [where b' = b2 and junk = "bs1 @ junk"]) auto
    qed
  qed
qed

text \<open>
  Two writers in sequence whose results are ignored, as the message writers do: the
  failure count tells whether both succeeded.
\<close>

lemma emits_then:
  assumes 1: "emits w1 bs1" and 2: "emits w2 bs2"
  shows "emits (\<lambda>b. do { (ok1, b1) \<leftarrow> w1 b; (ok2, b2) \<leftarrow> w2 b1;
      Some (eb_failures b2 = eb_failures b, b2) }) (bs1 @ bs2)"
proof (rule emitsI)
  fix b assume "eb_wf b"
  with 1 obtain ok1 b1 m1 where w1: "w1 b = Some (ok1, b1)" "eb_wf b1"
    "eb_contents b1 = eb_contents b @ m1" "eb_failures b \<le> eb_failures b1" "eb_allocator b1 = eb_allocator b"
    "eb_failures b1 = eb_failures b \<Longrightarrow> m1 = bs1"
    by (cases rule: emits_cases) auto
  from 2 \<open>eb_wf b1\<close> obtain ok2 b2 m2 where w2: "w2 b1 = Some (ok2, b2)" "eb_wf b2"
    "eb_contents b2 = eb_contents b1 @ m2" "eb_failures b1 \<le> eb_failures b2" "eb_allocator b2 = eb_allocator b1"
    "eb_failures b2 = eb_failures b1 \<Longrightarrow> m2 = bs2"
    by (cases rule: emits_cases) auto
  from w1 w2 show "emits_at (\<lambda>b. do { (ok1, b1) \<leftarrow> w1 b; (ok2, b2) \<leftarrow> w2 b1;
      Some (eb_failures b2 = eb_failures b, b2) }) (bs1 @ bs2) b"
    by (auto simp: emits_at_def)
qed

context egg_allocator
begin

lemma append_emits: "length bs < 2 ^ 62 \<Longrightarrow> emits (egg_buffer_append h bs) bs"
proof (rule emitsI)
  fix b assume len: "length bs < 2 ^ 62" and wf: "eb_wf b"
  obtain ok b' where r: "egg_buffer_reserve h (size_add (eb_len b) (length bs)) b = (ok, b')"
    by fastforce
  from wf len have lt: "size_add (eb_len b) (length bs) < 2 ^ 63"
    by (simp add: size_add_def eb_wf_def)
  show "emits_at (egg_buffer_append h bs) bs b"
  proof (cases ok)
    case False
    with reserve_keeps [OF wf lt r] have "b' = eb_fail b" by simp
    with False r wf show ?thesis
      by (intro emits_at_fail [where b' = "eb_fail b"]) (auto simp: egg_buffer_append_def)
  next
    case True
    with reserve_store [OF wf len] r obtain b'' where
      "size_add (eb_len b) (length bs) = eb_len b + length bs" "eb_len b' = eb_len b"
      "eb_store (eb_len b) bs b' = Some b''" "eb_wf (b''\<lparr>eb_len := eb_len b + length bs\<rparr>)"
      "eb_contents (b''\<lparr>eb_len := eb_len b + length bs\<rparr>) = eb_contents b @ bs"
      "eb_len b'' = eb_len b" "eb_failures b'' = eb_failures b" "eb_allocator b'' = eb_allocator b"
      by auto
    with r True show ?thesis
      by (intro emits_at_ok [where b' = "b''\<lparr>eb_len := eb_len b + length bs\<rparr>"])
        (auto simp: egg_buffer_append_def)
  qed
qed

lemma add_byte_emits: "emits (egg_buffer_add_byte h x) [x]"
proof -
  have "egg_buffer_add_byte h x = egg_buffer_append h [x]"
    by (rule ext) (simp add: egg_buffer_add_byte_def egg_buffer_append_def
        split: prod.split bool.split)
  with append_emits [of "[x]"] show ?thesis by simp
qed

text \<open>
  Adding an integer is appending its encoding: the detour of \<open>add_uint32\<close> through
  \<open>set_uint32\<close>, with its own bounds check, always succeeds.
\<close>

lemma add_uint16_append:
  assumes wf: "eb_wf b"
  shows "egg_buffer_add_uint16 h v b = egg_buffer_append h (egg_buffer_encode_uint16 v) b"
proof -
  obtain ok b' where r: "egg_buffer_reserve h (size_add (eb_len b) 2) b = (ok, b')"
    by fastforce
  from wf have lt: "size_add (eb_len b) 2 < 2 ^ 63" and sum: "size_add (eb_len b) 2 = eb_len b + 2"
    by (simp_all add: size_add_def eb_wf_def)
  from reserve_keeps [OF wf lt r] wf
  have "eb_len b' = eb_len b" "size_sub (eb_len b + 2) 2 = eb_len b"
    by (simp_all add: size_sub_def eb_wf_def)
  with r sum show ?thesis
    by (cases ok; cases "eb_store (eb_len b) (egg_buffer_encode_uint16 v) b'")
      (auto simp: egg_buffer_add_uint16_def egg_buffer_append_def
        egg_buffer_set_uint16_def eb_store_len dest: eb_store_keeps_len)
qed

lemma add_uint32_append:
  assumes wf: "eb_wf b"
  shows "egg_buffer_add_uint32 h v b = egg_buffer_append h (egg_buffer_encode_uint32 v) b"
proof -
  obtain ok b' where r: "egg_buffer_reserve h (size_add (eb_len b) 4) b = (ok, b')"
    by fastforce
  from wf have lt: "size_add (eb_len b) 4 < 2 ^ 63" and sum: "size_add (eb_len b) 4 = eb_len b + 4"
    by (simp_all add: size_add_def eb_wf_def)
  from reserve_keeps [OF wf lt r] wf
  have "eb_len b' = eb_len b" "size_sub (eb_len b + 4) 4 = eb_len b"
    by (simp_all add: size_sub_def eb_wf_def)
  with r sum show ?thesis
    by (cases ok; cases "eb_store (eb_len b) (egg_buffer_encode_uint32 v) b'")
      (auto simp: egg_buffer_add_uint32_def egg_buffer_append_def
        egg_buffer_set_uint32_def eb_store_len dest: eb_store_keeps_len)
qed

lemma add_uint16_emits: "emits (egg_buffer_add_uint16 h v) (egg_buffer_encode_uint16 v)"
  using append_emits [of "egg_buffer_encode_uint16 v"] by (simp add: add_uint16_append cong: emits_cong)

lemma add_uint32_emits: "emits (egg_buffer_add_uint32 h v) (egg_buffer_encode_uint32 v)"
  using append_emits [of "egg_buffer_encode_uint32 v"] by (simp add: add_uint32_append cong: emits_cong)

lemma add_uint64_emits:
  "emits (egg_buffer_add_uint64 h v) (encode_uint64 v)"
  unfolding egg_buffer_add_uint64_def encode_uint64_def
  by (intro emits_seq add_uint32_emits)

lemma add_byte_array_emits:
  assumes "length_ok v"
  shows "emits (egg_buffer_add_byte_array h v) (encode_byte_array v)"
proof (cases v)
  case None
  then show ?thesis
    using add_uint32_emits [of "0xffffffff"]
    by (simp add: egg_buffer_add_byte_array_def encode_byte_array_def cong: emits_cong)
next
  case (Some x)
  with assms have x: "\<not> length x \<ge> 0x7fffffff" "length x < 2 ^ 62"
    by (simp_all add: length_ok_def)
  from emits_seq [OF add_uint32_emits append_emits [OF x(2)]] Some x show ?thesis
    by (simp add: egg_buffer_add_byte_array_def encode_byte_array_def cong: emits_cong)
qed

lemma add_string_emits:
  assumes "length_ok (map_option c_str s)"
  shows "emits (egg_buffer_add_string h s) (encode_byte_array (map_option c_str s))"
  using add_byte_array_emits [OF assms] assms
  by (cases s) (simp_all add: egg_buffer_add_string_def egg_buffer_add_byte_array_def
      length_ok_def Let_def cong: emits_cong)

text \<open>Growing without data, as \<open>egg_buffer_resize\<close> does: the old contents stay in front.\<close>

lemma resize_keeps:
  assumes wf: "eb_wf b" and n: "n < 2 ^ 63" and r: "egg_buffer_resize h n b = (True, b')"
  shows "eb_wf b' \<and> eb_len b' = n
    \<and> take (min n (eb_len b)) (eb_contents b') = take (min n (eb_len b)) (eb_contents b)"
proof -
  from r obtain b1 where r1: "egg_buffer_reserve h n b = (True, b1)" "b' = b1\<lparr>eb_len := n\<rparr>"
    by (auto simp: egg_buffer_resize_def split: prod.splits bool.splits)
  from reserve_keeps [OF wf n r1(1)] have k: "eb_wf b1" "eb_contents b1 = eb_contents b"
    "eb_len b1 = eb_len b" "n \<le> eb_allocated_len b1" "eb_buf b1 \<noteq> None"
    by auto
  then obtain m where m: "eb_buf b1 = Some m" by blast
  have "eb_contents b = take (eb_len b) m"
    using k(2,3) m by (simp add: eb_contents_def [of b1])
  moreover have "eb_contents b' = take n m" using m r1(2) by (simp add: eb_contents_def)
  moreover have "eb_wf b'" "eb_len b' = n" using k m r1(2) by (simp_all add: eb_wf_def)
  ultimately show ?thesis by (simp add: min_def)
qed

end

subsection \<open>Reading back\<close>

lemma get_byte_parses: "parses egg_buffer_get_byte x [x]"
  unfolding parses_def
proof (intro allI impI)
  fix b pre post assume wf: "eb_wf b" and c: "eb_contents b = pre @ [x] @ post"
  have "eb_len b = length pre + 1 + length post"
    using length_eb_contents [OF wf] c by simp
  with eb_load_contents [OF wf c] show
    "egg_buffer_get_byte b (length pre) = Some (Some (x, length pre + length [x]), b)"
    by (simp add: egg_buffer_get_byte_def)
qed

lemma get_uint16_parses: "parses egg_buffer_get_uint16 v (egg_buffer_encode_uint16 v)"
  unfolding parses_def
proof (intro allI impI)
  fix b pre post
  assume wf: "eb_wf b" and c: "eb_contents b = pre @ egg_buffer_encode_uint16 v @ post"
  have "eb_len b = length pre + 2 + length post"
    using length_eb_contents [OF wf] c by simp
  with eb_load_contents [OF wf c] show "egg_buffer_get_uint16 b (length pre)
      = Some (Some (v, length pre + length (egg_buffer_encode_uint16 v)), b)"
    by (simp add: egg_buffer_get_uint16_def)
qed

lemma get_uint32_parses: "parses egg_buffer_get_uint32 v (egg_buffer_encode_uint32 v)"
  unfolding parses_def
proof (intro allI impI)
  fix b pre post
  assume wf: "eb_wf b" and c: "eb_contents b = pre @ egg_buffer_encode_uint32 v @ post"
  have "eb_len b = length pre + 4 + length post"
    using length_eb_contents [OF wf] c by simp
  with eb_load_contents [OF wf c] show "egg_buffer_get_uint32 b (length pre)
      = Some (Some (v, length pre + length (egg_buffer_encode_uint32 v)), b)"
    by (simp add: egg_buffer_get_uint32_def)
qed

text \<open>How a reader is used: where the contents split around its encoding.\<close>

lemma parsesD:
  "parses g v bs \<Longrightarrow> eb_wf b \<Longrightarrow> eb_contents b = pre @ bs @ post \<Longrightarrow>
     g b (length pre) = Some (Some (v, length pre + length bs), b)"
  by (simp add: parses_def)

lemma parses_at:
  "parses g v bs \<Longrightarrow> eb_wf b \<Longrightarrow> eb_contents b = pre @ bs @ post \<Longrightarrow> off = length pre \<Longrightarrow>
     n = off + length bs \<Longrightarrow> g b off = Some (Some (v, n), b)"
  by (simp add: parses_def)

lemma get_uint64_parses: "parses egg_buffer_get_uint64 v (encode_uint64 v)"
  unfolding parses_def
proof (intro allI impI)
  fix b pre post
  let ?hi = "ucast (drop_bit 32 v AND 0xffffffff) :: 32 word"
  let ?lo = "ucast (v AND 0xffffffff) :: 32 word"
  assume wf: "eb_wf b" and c: "eb_contents b = pre @ encode_uint64 v @ post"
  then have "egg_buffer_get_uint32 b (length pre) = Some (Some (?hi, length pre + 4), b)"
    by (intro parses_at [OF get_uint32_parses wf]) (auto simp: encode_uint64_def)
  moreover from wf c have "egg_buffer_get_uint32 b (length pre + 4)
      = Some (Some (?lo, length pre + 8), b)"
    by (intro parses_at [OF get_uint32_parses wf, where pre = "pre @ egg_buffer_encode_uint32 ?hi"])
      (auto simp: encode_uint64_def)
  ultimately show "egg_buffer_get_uint64 b (length pre)
      = Some (Some (v, length pre + length (encode_uint64 v)), b)"
    using join_halves [of v] by (simp add: egg_buffer_get_uint64_def encode_uint64_def)
qed

lemma get_byte_array_parses:
  assumes "length_ok v"
  shows "parses egg_buffer_get_byte_array v (encode_byte_array v)"
  unfolding parses_def
proof (intro allI impI)
  fix b pre post
  assume wf: "eb_wf b" and c: "eb_contents b = pre @ encode_byte_array v @ post"
  show "egg_buffer_get_byte_array b (length pre)
      = Some (Some (v, length pre + length (encode_byte_array v)), b)"
  proof (cases v)
    case None
    with c have "eb_contents b = pre @ egg_buffer_encode_uint32 0xffffffff @ post"
      by (simp add: encode_byte_array_def)
    from parsesD [OF get_uint32_parses wf this] None show ?thesis
      by (simp add: egg_buffer_get_byte_array_def encode_byte_array_def)
  next
    case (Some x)
    let ?w = "word_of_nat (length x) :: 32 word"
    from Some assms have lx: "length x < 0x7fffffff" by (simp add: length_ok_def)
    then have w: "unat ?w = length x" by (simp add: unat_of_nat_small)
    with lx have "?w \<noteq> 0xffffffff" "\<not> ?w \<ge> 0x7fffffff"
      by (auto simp: word_le_nat_alt)
    note w = w this
    from Some c have c': "eb_contents b = pre @ egg_buffer_encode_uint32 ?w @ x @ post"
      by (simp add: encode_byte_array_def)
    have len: "eb_len b = length pre + 4 + length x + length post"
      using length_eb_contents [OF wf] c' by simp
    have "eb_load (length pre + 4) (length x) b = Some x"
      using eb_load_contents [OF wf, of "pre @ egg_buffer_encode_uint32 ?w" x post] c' by simp
    with parsesD [OF get_uint32_parses wf c'] w len Some show ?thesis
      by (simp add: egg_buffer_get_byte_array_def encode_byte_array_def)
  qed
qed

subsection \<open>Readers on any input\<close>

text \<open>
  \<open>safe_getter g\<close>: whatever the buffer holds and whatever the offset, \<open>g\<close> does not
  fault; a zero return is counted in \<open>failures\<close> and a success moves the offset forward,
  within the contents.
\<close>

definition safe_getter :: "'a getter \<Rightarrow> bool" where
  "safe_getter g \<longleftrightarrow> (\<forall>b off. eb_wf b \<longrightarrow>
     g b off = Some (None, eb_fail b)
     \<or> (\<exists>v n. g b off = Some (Some (v, n), b) \<and> off < n \<and> n \<le> eb_len b))"

lemma safe_getter_cases [consumes 2, case_names fail ok]:
  assumes "safe_getter g" and "eb_wf b"
  obtains (fail) "g b off = Some (None, eb_fail b)"
    | (ok) v n where "g b off = Some (Some (v, n), b)" "off < n" "n \<le> eb_len b"
  using assms unfolding safe_getter_def by blast

text \<open>The shape of every fixed size getter.\<close>

lemma guarded_load_safe:
  assumes "0 < k"
  shows "safe_getter (\<lambda>b off. if eb_len b < k \<or> off > eb_len b - k then Some (None, eb_fail b)
    else do { p \<leftarrow> eb_load off k b; Some (Some (f p, off + k), b) })"
  unfolding safe_getter_def
proof (intro allI impI)
  fix b off assume wf: "eb_wf b"
  show "(if eb_len b < k \<or> off > eb_len b - k then Some (None, eb_fail b)
        else do { p \<leftarrow> eb_load off k b; Some (Some (f p, off + k), b) }) = Some (None, eb_fail b)
    \<or> (\<exists>v n. (if eb_len b < k \<or> off > eb_len b - k then Some (None, eb_fail b)
        else do { p \<leftarrow> eb_load off k b; Some (Some (f p, off + k), b) }) = Some (Some (v, n), b)
        \<and> off < n \<and> n \<le> eb_len b)"
  proof (cases "eb_len b < k \<or> off > eb_len b - k")
    case False
    then have "off + k \<le> eb_len b" by linarith
    with eb_load_some [OF wf] obtain p where "eb_load off k b = Some p" by blast
    with False \<open>0 < k\<close> show ?thesis by auto
  qed simp
qed

lemma get_byte_safe: "safe_getter egg_buffer_get_byte"
  using guarded_load_safe [of 1 hd] by (simp add: egg_buffer_get_byte_def [abs_def])

lemma get_uint16_safe: "safe_getter egg_buffer_get_uint16"
  using guarded_load_safe [of 2 egg_buffer_decode_uint16]
  by (simp add: egg_buffer_get_uint16_def [abs_def])

lemma get_uint32_safe: "safe_getter egg_buffer_get_uint32"
  using guarded_load_safe [of 4 egg_buffer_decode_uint32]
  by (simp add: egg_buffer_get_uint32_def [abs_def])

lemma get_uint64_safe: "safe_getter egg_buffer_get_uint64"
  unfolding safe_getter_def
proof (intro allI impI)
  fix b off assume wf: "eb_wf b"
  from get_uint32_safe wf show "egg_buffer_get_uint64 b off = Some (None, eb_fail b)
    \<or> (\<exists>v n. egg_buffer_get_uint64 b off = Some (Some (v, n), b) \<and> off < n \<and> n \<le> eb_len b)"
  proof (cases rule: safe_getter_cases [where off = off])
    case fail
    then show ?thesis by (simp add: egg_buffer_get_uint64_def)
  next
    case one: (ok x n)
    from get_uint32_safe wf show ?thesis
    proof (cases rule: safe_getter_cases [where off = n])
      case fail
      with one show ?thesis by (simp add: egg_buffer_get_uint64_def)
    next
      case (ok y m)
      with one show ?thesis by (simp add: egg_buffer_get_uint64_def)
    qed
  qed
qed

lemma get_byte_array_safe: "safe_getter egg_buffer_get_byte_array"
  unfolding safe_getter_def
proof (intro allI impI)
  fix b off assume wf: "eb_wf b"
  from get_uint32_safe wf show "egg_buffer_get_byte_array b off = Some (None, eb_fail b)
    \<or> (\<exists>v n. egg_buffer_get_byte_array b off = Some (Some (v, n), b) \<and> off < n \<and> n \<le> eb_len b)"
  proof (cases rule: safe_getter_cases [where off = off])
    case fail
    then show ?thesis by (simp add: egg_buffer_get_byte_array_def)
  next
    case (ok len n)
    show ?thesis
    proof (cases "n + unat len \<le> eb_len b")
      case True
      with eb_load_some [OF wf] obtain v where "eb_load n (unat len) b = Some v" by blast
      with ok True show ?thesis by (simp add: egg_buffer_get_byte_array_def)
    next
      case False
      then have "eb_len b < unat len \<or> n > eb_len b - unat len" by linarith
      with ok show ?thesis by (auto simp: egg_buffer_get_byte_array_def)
    qed
  qed
qed

subsection \<open>The interface of a serialised field\<close>

text \<open>
  What the protocol layers rely on for every kind of value a buffer carries: how it is
  added, how it is read back, and its wire format.
\<close>

locale buffer_field =
  fixes add :: "'a \<Rightarrow> EggBuffer \<Rightarrow> (bool \<times> EggBuffer) option"
    and get :: "'a getter"
    and enc :: "'a \<Rightarrow> bytes"
    and valid :: "'a \<Rightarrow> bool"
  assumes add_emits: "valid x \<Longrightarrow> emits (add x) (enc x)"
    and get_parses: "valid x \<Longrightarrow> parses get x (enc x)"
    and get_safe: "safe_getter get"
begin

lemma roundtrip:
  assumes "eb_wf b" and "valid x" and "add x b = Some (True, b')"
  shows "get b' (eb_len b) = Some (Some (x, eb_len b'), b')"
proof -
  from add_emits [OF \<open>valid x\<close>] \<open>eb_wf b\<close>
  have "eb_wf b'" "eb_contents b' = eb_contents b @ enc x"
    by (cases rule: emits_cases; simp add: assms)+
  then show ?thesis
    using parses_at [OF get_parses [OF \<open>valid x\<close>], of b' "eb_contents b" "[]" "eb_len b" "eb_len b'"]
      length_eb_contents [of b'] assms(1) by simp
qed

text \<open>What is in the buffer is not disturbed by what is added behind it.\<close>

lemma roundtrip_frame:
  assumes "eb_wf b" and "valid x" and "add x b = Some (True, b')"
    and "emits w bs" and "w b' = Some (ok, b'')"
  shows "get b'' (eb_len b) = Some (Some (x, eb_len b'), b'')"
proof -
  from add_emits [OF \<open>valid x\<close>] \<open>eb_wf b\<close>
  have b': "eb_wf b'" "eb_contents b' = eb_contents b @ enc x"
    by (cases rule: emits_cases; simp add: assms)+
  with \<open>emits w bs\<close> obtain junk where "eb_wf b''" "eb_contents b'' = eb_contents b @ enc x @ junk"
    by (cases rule: emits_cases) (auto simp: assms(5))
  then show ?thesis
    using parses_at [OF get_parses [OF \<open>valid x\<close>], of b'' "eb_contents b" junk "eb_len b" "eb_len b'"]
      length_eb_contents [of b'] b' assms(1) by simp
qed

end

text \<open>A loop that adds each value of a list and leaves the checking to \<open>failures\<close>.\<close>

fun add_each :: "('a \<Rightarrow> EggBuffer \<Rightarrow> (bool \<times> EggBuffer) option) \<Rightarrow> 'a list \<Rightarrow> EggBuffer
    \<Rightarrow> (bool \<times> EggBuffer) option" where
  "add_each add [] b = Some (True, b)"
| "add_each add (x # xs) b = do {
     (ok1, b1) \<leftarrow> add x b;
     (ok2, b2) \<leftarrow> add_each add xs b1;
     Some (eb_failures b2 = eb_failures b, b2)
   }"

lemma emits_nop: "emits (\<lambda>b. Some (True, b)) []"
  by (rule emitsI, rule emits_at_ok [where b' = b for b]) auto

lemma add_each_emits:
  "(\<And>x. x \<in> set xs \<Longrightarrow> emits (add x) (enc x)) \<Longrightarrow>
     emits (add_each add xs) (concat (map enc xs))"
proof (induction xs)
  case Nil
  with emits_nop show ?case by (simp cong: emits_cong)
next
  case (Cons x xs)
  then have "emits (add x) (enc x)" "emits (add_each add xs) (concat (map enc xs))" by auto
  from emits_then [OF this] show ?case by (simp cong: emits_cong)
qed

context egg_allocator
begin

sublocale byte: buffer_field "egg_buffer_add_byte h" egg_buffer_get_byte "\<lambda>x. [x]" "\<lambda>_. True"
  by unfold_locales (simp_all add: add_byte_emits get_byte_parses get_byte_safe)

sublocale uint16: buffer_field "egg_buffer_add_uint16 h" egg_buffer_get_uint16
    egg_buffer_encode_uint16 "\<lambda>_. True"
  by unfold_locales (simp_all add: add_uint16_emits get_uint16_parses get_uint16_safe)

sublocale uint32: buffer_field "egg_buffer_add_uint32 h" egg_buffer_get_uint32
    egg_buffer_encode_uint32 "\<lambda>_. True"
  by unfold_locales (simp_all add: add_uint32_emits get_uint32_parses get_uint32_safe)

sublocale uint64: buffer_field "egg_buffer_add_uint64 h" egg_buffer_get_uint64
    encode_uint64 "\<lambda>_. True"
  by unfold_locales (simp_all add: add_uint64_emits get_uint64_parses get_uint64_safe)

sublocale byte_array: buffer_field "egg_buffer_add_byte_array h" egg_buffer_get_byte_array
    encode_byte_array length_ok
  by unfold_locales (simp_all add: add_byte_array_emits get_byte_array_parses get_byte_array_safe)

lemmas byte_array_frame = byte_array.roundtrip_frame [OF _ _ _ byte_array.add_emits]
lemmas uint64_roundtrip = uint64.roundtrip

subsection \<open>Strings\<close>

lemma get_string_enc:
  assumes wf: "eb_wf b" and c: "eb_contents b = pre @ encode_byte_array (Some s) @ post"
    and s: "0 \<notin> set s" "length s < 0x7fffffff"
    and m: "h (string_allocator a b) None (length s + 1) = Some m"
  shows "egg_buffer_get_string h a b (length pre)
    = Some (Str_ok (Some (s @ [0])) (length pre + 4 + length s), b)"
proof -
  let ?w = "word_of_nat (length s) :: 32 word"
  from s(2) have w: "unat ?w = length s" by (simp add: unat_of_nat_small)
  with s(2) have w': "?w \<noteq> 0xffffffff" "\<not> ?w \<ge> 0x7fffffff"
    by (auto simp: word_le_nat_alt)
  from c have c': "eb_contents b = pre @ egg_buffer_encode_uint32 ?w @ s @ post"
    by (simp add: encode_byte_array_def)
  have len: "eb_len b = length pre + 4 + length s + length post"
    using length_eb_contents [OF wf] c' by simp
  have "eb_load (length pre + 4) (length s) b = Some s"
    using eb_load_contents [OF wf, of "pre @ egg_buffer_encode_uint32 ?w" s post] c' by simp
  moreover from alloc_length [OF m] have "length m = length s + 1" .
  ultimately show ?thesis
    using parsesD [OF get_uint32_parses wf c'] w w' len s m
    by (simp add: egg_buffer_get_string_def mem_write_def)
qed

text \<open>On any input \<open>egg_buffer_get_string\<close> stays inside the buffer and the block it allocates.\<close>

lemma get_string_safe:
  assumes wf: "eb_wf b"
  shows "\<exists>r b'. egg_buffer_get_string h a b off = Some (r, b') \<and> (b' = b \<or> b' = eb_fail b)
    \<and> (\<forall>v n. r = Str_ok v n \<longrightarrow> b' = b \<and> off < n \<and> n \<le> eb_len b)"
  using get_uint32_safe wf
proof (cases rule: safe_getter_cases [where off = off])
  case fail
  then show ?thesis by (simp add: egg_buffer_get_string_def)
next
  case (ok len n)
  show ?thesis
  proof (cases "n + unat len \<le> eb_len b")
    case False
    then have "eb_len b < unat len \<or> n > eb_len b - unat len" by linarith
    with ok show ?thesis by (auto simp: egg_buffer_get_string_def)
  next
    case True
    with eb_load_some [OF wf] obtain v where v: "eb_load n (unat len) b = Some v" by blast
    then have lv: "length v = unat len"
      by (auto simp: eb_load_def dest: mem_read_length split: option.splits if_splits)
    show ?thesis
    proof (cases "h (string_allocator a b) None (unat len + 1)")
      case None
      with ok True v show ?thesis by (auto simp: egg_buffer_get_string_def)
    next
      case (Some m)
      from alloc_length [OF Some] have "length m = Suc (unat len)" by simp
      with ok True v lv Some show ?thesis
        by (auto simp: egg_buffer_get_string_def mem_write_def)
    qed
  qed
qed

lemma add_strings_emits:
  "\<forall>s \<in> set ss. length (c_str s) < 0x7fffffff \<Longrightarrow>
     emits (add_strings h ss) (concat (map (\<lambda>s. encode_byte_array (Some (c_str s))) ss))"
proof (induction ss)
  case Nil
  with emits_nop show ?case by (simp cong: emits_cong)
next
  case (Cons s ss)
  then have "emits (egg_buffer_add_string h (Some s)) (encode_byte_array (Some (c_str s)))"
    using add_string_emits [of "Some s"] by (simp add: length_ok_def)
  from emits_seq [OF this] Cons show ?case by (simp cong: emits_cong)
qed

lemma add_stringv_emits:
  assumes "\<forall>s \<in> set ss. length (c_str s) < 0x7fffffff"
  shows "emits (egg_buffer_add_stringv h (Some ss))
    (egg_buffer_encode_uint32 (word_of_nat (length ss))
      @ concat (map (\<lambda>s. encode_byte_array (Some (c_str s))) ss))"
  using emits_seq [OF add_uint32_emits add_strings_emits [OF assms]]
  by (simp add: egg_buffer_add_stringv_def cong: emits_cong)

lemma get_strings_enc:
  assumes wf: "eb_wf b" and mem: "\<forall>n < 2 ^ 31. h a None n \<noteq> None"
  shows "\<forall>s \<in> set ss. 0 \<notin> set s \<and> length s < 0x7fffffff \<Longrightarrow>
    eb_contents b = pre @ concat (map (\<lambda>s. encode_byte_array (Some s)) ss) @ post \<Longrightarrow>
    i + length ss \<le> length slots \<Longrightarrow>
    get_strings h a (length ss) i slots b (length pre)
      = Some (Some (take i slots @ map (\<lambda>s. Some (s @ [0])) ss @ drop (i + length ss) slots,
               length pre + length (concat (map (\<lambda>s. encode_byte_array (Some s)) ss))), b)"
proof (induction ss arbitrary: i slots pre)
  case Nil
  then show ?case by simp
next
  case (Cons s ss)
  let ?pre = "pre @ encode_byte_array (Some s)"
  from Cons.prems have s: "0 \<notin> set s" "length s < 0x7fffffff" by auto
  with mem have "h a None (length s + 1) \<noteq> None" by simp
  then obtain m where m: "h (string_allocator (Some a) b) None (length s + 1) = Some m"
    by (auto simp: string_allocator_def)
  have one: "egg_buffer_get_string h (Some a) b (length pre)
      = Some (Str_ok (Some (s @ [0])) (length ?pre), b)"
    using get_string_enc [OF wf _ s m, of pre "concat (map (\<lambda>s. encode_byte_array (Some s)) ss) @ post"]
      Cons.prems(2) by (simp add: encode_byte_array_def)
  have i: "i < length slots" using Cons.prems(3) by simp
  have "get_strings h a (length ss) (Suc i) (slots[i := Some (s @ [0])]) b (length ?pre)
      = Some (Some (take (Suc i) (slots[i := Some (s @ [0])]) @ map (\<lambda>s. Some (s @ [0])) ss
               @ drop (Suc i + length ss) (slots[i := Some (s @ [0])]),
               length ?pre + length (concat (map (\<lambda>s. encode_byte_array (Some s)) ss))), b)"
    using Cons.prems by (intro Cons.IH) auto
  with one i show ?case
    by (simp add: take_Suc_conv_app_nth upd_conv_take_nth_drop add.commute [of i])
qed

lemma get_strings_safe:
  assumes "eb_wf b" and "i + n \<le> length slots"
  shows "\<exists>r b'. get_strings h a n i slots b off = Some (r, b') \<and> (b' = b \<or> b' = eb_fail b)"
  using assms
proof (induction n arbitrary: i slots off)
  case 0
  then show ?case by simp
next
  case (Suc n)
  from get_string_safe [OF Suc.prems(1), of "Some a" off] obtain r b' where
    r: "egg_buffer_get_string h (Some a) b off = Some (r, b')" "b' = b \<or> b' = eb_fail b"
      "\<forall>v n. r = Str_ok v n \<longrightarrow> b' = b"
    by blast
  show ?case
  proof (cases r)
    case (Str_ok v n')
    with r Suc.prems Suc.IH [of "Suc i" "slots[i := v]" n'] show ?thesis by simp
  qed (use r Suc.prems in auto)
qed

end

subsection \<open>The C library's realloc\<close>

text \<open>
  \<^verbatim>\<open>DEFAULT_ALLOCATOR\<close>: \<^verbatim>\<open>realloc\<close> on a machine with a 47 bit user address space.
  It keeps the old bytes; the bytes behind them are unspecified by the C standard and
  zero here. A zero size request on \<^verbatim>\<open>NULL\<close> returns an empty block, as glibc does.
\<close>

definition libc_realloc :: heap where
  "libc_realloc a old n =
     (if n < 2 ^ 47
      then (let p = (case old of None \<Rightarrow> [] | Some q \<Rightarrow> q)
            in Some (take n p @ replicate (n - length p) 0))
      else None)"

interpretation libc: egg_allocator libc_realloc
  by unfold_locales (auto simp: libc_realloc_def Let_def min_def split: if_splits option.splits)

lemma egg_allocator_libc: "egg_allocator libc_realloc"
  by (rule libc.egg_allocator_axioms)

text \<open>The definitions a closed instance unfolds to.\<close>

lemmas eb_eval = egg_buffer_init_def egg_buffer_init_full_def default_allocator_def
  egg_buffer_append_def egg_buffer_reserve_def size_add_def size_mul_def size_sub_def
  libc_realloc_def eb_store_def eb_load_def mem_write_def mem_read_def eb_fail_def eb_wf_def
  eb_contents_def egg_buffer_add_uint32_def egg_buffer_set_uint32_def
  egg_buffer_add_byte_array_def egg_buffer_encode_uint32_def Let_def

subsection \<open>Properties\<close>

text \<open>C31: Appending to a well-formed buffer, whatever block the allocator moves it to, never
  writes outside its memory. It either succeeds, and then the contents are the old contents
  followed by exactly the new bytes, or returns zero, counts one failure and leaves the
  buffer as it was.\<close>

theorem egg_buffer_append_correct:
  assumes "egg_allocator h" and "eb_wf b" and "length bs < 2 ^ 62"
  shows "egg_buffer_append h bs b = Some (False, eb_fail b)
    \<or> (\<exists>b'. egg_buffer_append h bs b = Some (True, b') \<and> eb_wf b'
         \<and> eb_contents b' = eb_contents b @ bs \<and> eb_failures b' = eb_failures b)"
  using egg_allocator.append_emits [OF assms(1,3)] assms(2)
proof (cases rule: emits_cases)
  case (ok b')
  then show ?thesis by blast
next
  case (fail b' junk)
  obtain ok b1 where r: "egg_buffer_reserve h (size_add (eb_len b) (length bs)) b = (ok, b1)"
    by fastforce
  with fail(1) have "\<not> ok"
    by (cases ok) (auto simp: egg_buffer_append_def split: Option.bind_splits)
  moreover have "size_add (eb_len b) (length bs) < 2 ^ 63"
    using assms(2,3) by (simp add: size_add_def eb_wf_def)
  ultimately have "b1 = eb_fail b"
    using egg_allocator.reserve_keeps [OF assms(1,2) _ r] by simp
  with r \<open>\<not> ok\<close> show ?thesis by (simp add: egg_buffer_append_def)
qed

theorem egg_buffer_append_correct_witness:
  "\<exists>b'. egg_buffer_append libc_realloc [7, 8, 9] (snd (egg_buffer_init libc_realloc 2)) = Some (True, b')
     \<and> eb_contents b' = [7, 8, 9]"
proof -
  let ?b = "snd (egg_buffer_init libc_realloc 2)"
  have "eb_wf ?b" "eb_contents ?b = []"
    "egg_buffer_append libc_realloc [7, 8, 9] ?b \<noteq> Some (False, eb_fail ?b)"
    by (simp_all add: eb_eval)
  then show ?thesis
    using egg_buffer_append_correct [OF egg_allocator_libc, of ?b "[7, 8, 9]"] by auto
qed

text \<open>C32: A byte array, \<^verbatim>\<open>NULL\<close> included, that was added to a buffer is read back exactly,
  also after another one has been added behind it.\<close>

theorem egg_buffer_byte_array_roundtrip:
  assumes "egg_allocator h" and "eb_wf b" and "length_ok v" and "length_ok w"
    and "egg_buffer_add_byte_array h v b = Some (True, b')"
    and "egg_buffer_add_byte_array h w b' = Some (ok, b'')"
  shows "egg_buffer_get_byte_array b'' (eb_len b) = Some (Some (v, eb_len b'), b'')"
  by (rule egg_allocator.byte_array_frame [OF assms(1,2,3,5,4,6)])

theorem egg_buffer_byte_array_roundtrip_witness:
  "\<exists>b' b''. egg_buffer_add_byte_array libc_realloc (Some [5, 6]) (snd (egg_buffer_init libc_realloc 8))
       = Some (True, b')
     \<and> egg_buffer_add_byte_array libc_realloc None b' = Some (True, b'')
     \<and> egg_buffer_get_byte_array b'' 0 = Some (Some (Some [5, 6], 6), b'')"
proof -
  let ?b = "snd (egg_buffer_init libc_realloc 8)"
  obtain b' where b': "egg_buffer_add_byte_array libc_realloc (Some [5, 6]) ?b = Some (True, b')"
    "eb_len b' = 6" "\<exists>b''. egg_buffer_add_byte_array libc_realloc None b' = Some (True, b'')"
    by (simp add: eb_eval)
  then obtain b'' where b'': "egg_buffer_add_byte_array libc_realloc None b' = Some (True, b'')"
    by blast
  have "eb_wf ?b" "eb_len ?b = 0" "length_ok (Some [5, 6])" "length_ok None"
    by (simp_all add: eb_eval length_ok_def)
  with egg_buffer_byte_array_roundtrip [OF egg_allocator_libc _ _ _ b'(1) b''] b' b''
  show ?thesis by auto
qed

text \<open>Reading is memory safe on any input: whatever bytes arrived and at whatever offset,
  reading a byte array does not leave the buffer; a malformed length is a counted failure
  that changes nothing else, and a success moves the offset forward within the contents.\<close>

lemma egg_buffer_get_byte_array_memory_safe:
  assumes "eb_wf b"
  shows "egg_buffer_get_byte_array b off = Some (None, eb_fail b)
    \<or> (\<exists>v n. egg_buffer_get_byte_array b off = Some (Some (v, n), b) \<and> off < n \<and> n \<le> eb_len b)"
  using get_byte_array_safe assms by (auto simp: safe_getter_def)

text \<open>A vector of strings that was added is read back string by string, each NUL terminated
  and the vector closed by a \<^verbatim>\<open>NULL\<close> pointer, when the allocator has memory for them.\<close>

lemma egg_buffer_stringv_roundtrip:
  assumes h: "egg_allocator h" and wf: "eb_wf b"
    and ss: "\<forall>s \<in> set ss. 0 \<notin> set s \<and> length s < 0x7fffffff" and n: "length ss < 0xffffffff"
    and mem: "\<forall>n < 2 ^ 36. h a None n \<noteq> None"
    and add: "egg_buffer_add_stringv h (Some ss) b = Some (True, b')"
  shows "egg_buffer_get_stringv h (Some a) b' (eb_len b)
    = Some (Some (map (\<lambda>s. Some (s @ [0])) ss @ [None], eb_len b'), b')"
proof -
  let ?encs = "concat (map (\<lambda>s. encode_byte_array (Some s)) ss)"
  let ?n = "word_of_nat (length ss) :: 32 word"
  have cs: "map (\<lambda>s. encode_byte_array (Some (c_str s))) ss = map (\<lambda>s. encode_byte_array (Some s)) ss"
    using ss by (simp add: c_str_id)
  have "emits (egg_buffer_add_stringv h (Some ss)) (egg_buffer_encode_uint32 ?n @ ?encs)"
    using egg_allocator.add_stringv_emits [OF h, of ss] ss by (simp add: c_str_id cs)
  from this wf have wf': "eb_wf b'"
    and c: "eb_contents b' = eb_contents b @ egg_buffer_encode_uint32 ?n @ ?encs"
    by (cases rule: emits_cases; simp add: add)+
  from n have un: "unat ?n = length ss" by (simp add: unat_of_nat_small)
  have "unat (?n + 1) = length ss + 1"
    using n un by (simp add: unat_word_ariths)
  then have sz: "size_mul (unat (?n + 1)) 8 = 8 * length ss + 8"
    using n by (simp add: size_mul_def)
  with mem n obtain m where m: "h a None (8 * length ss + 8) = Some m" by fastforce
  with egg_allocator.alloc_length [OF h] have lm: "length m div 8 = Suc (length ss)" by fastforce
  have mem': "\<forall>n < 2 ^ 31. h a None n \<noteq> None" using mem by simp
  have first: "egg_buffer_get_uint32 b' (eb_len b) = Some (Some (?n, eb_len b + 4), b')"
    using wf c by (intro parses_at [OF get_uint32_parses wf', of "eb_contents b"]) auto
  have "get_strings h a (length ss) 0 (replicate (Suc (length ss)) None) b'
      (length (eb_contents b @ egg_buffer_encode_uint32 ?n))
      = Some (Some (map (\<lambda>s. Some (s @ [0])) ss @ [None], length (eb_contents b') ), b')"
    using egg_allocator.get_strings_enc [OF h wf' mem' ss, of "eb_contents b @ egg_buffer_encode_uint32 ?n" "[]" 0]
      c by (simp add: replicate_append_same [symmetric])
  then show ?thesis
    using first wf wf' un sz m lm by (simp add: egg_buffer_get_stringv_def string_allocator_def)
qed

text \<open>A string vector whose announced count is \<open>0xffffffff\<close> breaks the reader: the size of
  the pointer array is computed in 32 bits, wraps to zero, and the first string, here a
  \<^verbatim>\<open>NULL\<close> one, is stored outside the empty block.\<close>

lemma egg_buffer_get_stringv_count_overflow:
  assumes "eb_wf b"
    and "eb_contents b = pre @ [0xff, 0xff, 0xff, 0xff, 0xff, 0xff, 0xff, 0xff] @ post"
    and "h a None 0 = Some []"
  shows "egg_buffer_get_stringv h (Some a) b (length pre) = None"
proof -
  have e: "egg_buffer_encode_uint32 0xffffffff = [0xff, 0xff, 0xff, 0xff]"
    by (simp add: egg_buffer_encode_uint32_def)
  have 1: "egg_buffer_get_uint32 b (length pre) = Some (Some (0xffffffff, length pre + 4), b)"
    using assms(2) by (intro parses_at [OF get_uint32_parses assms(1)]) (auto simp: e)
  have 2: "egg_buffer_get_uint32 b (length pre + 4) = Some (Some (0xffffffff, length pre + 8), b)"
    using assms(2)
    by (intro parses_at [OF get_uint32_parses assms(1), where pre = "pre @ egg_buffer_encode_uint32 0xffffffff"])
      (auto simp: e)
  have "get_strings h a n 0 [] b (length pre + 4) = None" if "n \<noteq> 0" for n
    using that 2 by (cases n) (simp_all add: egg_buffer_get_string_def)
  with 1 assms(3) show ?thesis
    by (simp add: egg_buffer_get_stringv_def string_allocator_def size_mul_def)
qed

text \<open>For every other announced count, and on any input, reading a string vector stays
  inside the buffer and inside the blocks it allocates.\<close>

lemma egg_buffer_get_stringv_memory_safe:
  assumes "egg_allocator h" and "eb_wf b"
    and "\<forall>n off1. egg_buffer_get_uint32 b off = Some (Some (n, off1), b) \<longrightarrow> n \<noteq> 0xffffffff"
  shows "\<exists>r b'. egg_buffer_get_stringv h a b off = Some (r, b') \<and> (b' = b \<or> b' = eb_fail b)"
  using get_uint32_safe assms(2)
proof (cases rule: safe_getter_cases [where off = off])
  case fail
  then show ?thesis by (simp add: egg_buffer_get_stringv_def)
next
  case (ok n off1)
  with assms(3) have "n \<noteq> 0xffffffff" by simp
  then have "unat n \<noteq> unat (0xffffffff :: 32 word)" by (simp add: word_unat_eq_iff)
  moreover have "unat n < 2 ^ 32" using unat_bound [of n] by simp
  ultimately have "unat n + 1 < 2 ^ 32" by simp
  then have "unat (n + 1) = unat n + 1" by (simp add: unat_word_ariths)
  then have sz: "size_mul (unat (n + 1)) 8 = 8 * unat n + 8"
    using \<open>unat n < 2 ^ 32\<close> by (simp add: size_mul_def)
  show ?thesis
  proof (cases "h (string_allocator a b) None (8 * unat n + 8)")
    case None
    with ok sz show ?thesis by (simp add: egg_buffer_get_stringv_def)
  next
    case (Some m)
    with egg_allocator.alloc_length [OF assms(1)] have "length m div 8 = Suc (unat n)" by fastforce
    then have "0 + unat n \<le> length (replicate (length m div 8) (None :: bytes option))" by simp
    from egg_allocator.get_strings_safe [OF assms(1,2) this] ok sz Some show ?thesis
      by (simp add: egg_buffer_get_stringv_def)
  qed
qed

end
