(* ===== verification/RpcUtil.thy ===== *)
theory RpcUtil
  imports Prelude
begin

text \<open>
  Which mechanisms the PKCS\#11 RPC layer passes on, \<^verbatim>\<open>pkcs11/rpc-layer/gkm-rpc-util.c\<close>. Only
  mechanisms whose parameters can be serialised are let through; the list of mechanisms a
  token offers is purged of all others. The logging functions of the file only print.
\<close>

type_synonym CK_ULONG = "64 word"

text \<open>The \<^verbatim>\<open>CKM_\<close> constants of the two \<^verbatim>\<open>switch\<close> statements, by their values in \<^verbatim>\<open>pkcs11.h\<close>.\<close>

definition no_parameter_mechanisms :: "CK_ULONG list" where
  "no_parameter_mechanisms = [
    0, 0xa, 1, 2, 3, 0xb, 4, 5, 6, 0x40, 0x41, 0x42, 7, 8, 0xc, 0x10, 0x2000, 0x11, 0x12,
    0x1020, 0x1040, 0x1041, 0x1042, 0x20, 0x2001, 0x30, 0x2002, 0x1010, 0x350, 0x100, 0x110,
    0x111, 0x330, 0x1080, 0x1081, 0x1083, 0x120, 0x130, 0x131, 0x140, 0x300, 0x310, 0x320,
    0x340, 0x370, 0x374, 0x1000, 0x1030, 0x1060, 0x101, 0x121, 0x132, 0x141, 0x301, 0x311,
    0x321, 0x331, 0x341, 0x103, 0x123, 0x134, 0x143, 0x303, 0x313, 0x333, 0x343, 0x380, 0x381,
    0x1008, 0x1036, 0x1065, 0x200, 0x201, 0x210, 0x211, 0x220, 0x221, 0x250, 0x251, 0x260,
    0x261, 0x270, 0x271, 0x1070, 0x230, 0x231, 0x240, 0x241, 0x400]"

definition gkm_rpc_mechanism_has_no_parameters :: "CK_ULONG \<Rightarrow> bool" where
  "gkm_rpc_mechanism_has_no_parameters mech \<longleftrightarrow> List.member no_parameter_mechanisms mech"

definition gkm_rpc_mechanism_has_sane_parameters :: "CK_ULONG \<Rightarrow> bool" where
  "gkm_rpc_mechanism_has_sane_parameters type \<longleftrightarrow> type = 9 \<or> type = 13"

definition gkm_rpc_mechanism_is_supported :: "CK_ULONG \<Rightarrow> bool" where
  "gkm_rpc_mechanism_is_supported mech \<longleftrightarrow>
     gkm_rpc_mechanism_has_no_parameters mech \<or> gkm_rpc_mechanism_has_sane_parameters mech"

text \<open>The value of \<^verbatim>\<open>(int)\<close> applied to a \<^verbatim>\<open>CK_ULONG\<close>.\<close>

definition c_int :: "nat \<Rightarrow> int" where
  "c_int n = (let k = n mod 2 ^ 32 in if k < 2 ^ 31 then int k else int k - 2 ^ 32)"

lemma c_int_le: "c_int n \<le> int n"
proof -
  have "int (n mod 2 ^ 32) \<le> int n" by (simp add: mod_less_eq_dividend)
  then show ?thesis by (auto simp: c_int_def Let_def)
qed

lemma c_int_small: "n < 2 ^ 31 \<Longrightarrow> c_int n = int n"
  by (simp add: c_int_def)

text \<open>
  The loop of \<open>gkm_rpc_mechanism_list_purge\<close>. \<open>mem\<close> is the memory the array lies in, from
  its first element on. An unsupported element is removed with \<^verbatim>\<open>memmove\<close> of \<open>n - i\<close>
  elements from \<open>i + 1\<close>; reading past \<open>mem\<close> faults.
\<close>

function purge_loop :: "CK_ULONG list \<Rightarrow> nat \<Rightarrow> nat \<Rightarrow> (CK_ULONG list \<times> nat) option" where
  "purge_loop mem n i =
     (if int i < c_int n then
        if i < length mem then
          if \<not> gkm_rpc_mechanism_has_no_parameters (mem ! i)
             \<and> \<not> gkm_rpc_mechanism_has_sane_parameters (mem ! i)
          then (if i + 1 + (n - i) \<le> length mem
                then purge_loop (take i mem @ take (n - i) (drop (i + 1) mem) @ drop n mem) (n - 1) i
                else None)
          else purge_loop mem n (i + 1)
        else None
      else Some (mem, n))"
  by pat_completeness auto
termination
proof (relation "measure (\<lambda>(mem, n, i). n - i)", simp_all)
  fix n i :: nat
  assume "int i < c_int n"
  with c_int_le [of n] show "n - Suc i < n - i" by linarith
  from \<open>int i < c_int n\<close> c_int_le [of n] show "n - Suc i < n - i" by linarith
qed

definition gkm_rpc_mechanism_list_purge :: "CK_ULONG list \<Rightarrow> nat \<Rightarrow> (CK_ULONG list \<times> nat) option" where
  "gkm_rpc_mechanism_list_purge mechs n_mechs = purge_loop mechs n_mechs 0"

declare purge_loop.simps [simp del]

lemma not_supported:
  "\<not> gkm_rpc_mechanism_has_no_parameters m \<and> \<not> gkm_rpc_mechanism_has_sane_parameters m
     \<longleftrightarrow> \<not> gkm_rpc_mechanism_is_supported m"
  by (simp add: gkm_rpc_mechanism_is_supported_def)

lemmas purge_loop_unfold = purge_loop.simps [unfolded not_supported]

text \<open>
  One step: with room behind the array the loop shortens it to its supported elements; an
  unsupported element in an array that fills its memory faults.
\<close>

lemma purge_loop_filter:
  assumes "n < 2 ^ 31" and "i \<le> n" and "n < length mem"
  shows "\<exists>mem'. purge_loop mem n i
      = Some (mem', i + length (filter gkm_rpc_mechanism_is_supported (drop i (take n mem))))
    \<and> length mem' = length mem
    \<and> take (i + length (filter gkm_rpc_mechanism_is_supported (drop i (take n mem)))) mem'
        = take i mem @ filter gkm_rpc_mechanism_is_supported (drop i (take n mem))"
  using assms
proof (induction mem n i rule: purge_loop.induct)
  case (1 mem n i)
  note IH = 1(1,2) [unfolded not_supported]
  show ?case
  proof (cases "i < n")
    case False
    with 1 show ?thesis by (subst purge_loop_unfold) (simp add: c_int_small)
  next
    case True
    let ?s = gkm_rpc_mechanism_is_supported
    from True 1 have il: "int i < c_int n" "i < length mem" by (simp_all add: c_int_small)
    have dt: "drop i (take n mem) = mem ! i # drop (Suc i) (take n mem)"
      using True 1 by (subst Cons_nth_drop_Suc [symmetric]) auto
    show ?thesis
    proof (cases "?s (mem ! i)")
      case sup: True
      with il IH(2) True 1(3-) obtain mem' where
        "purge_loop mem n (i + 1) = Some (mem', i + 1 + length (filter ?s (drop (i + 1) (take n mem))))"
        "length mem' = length mem"
        "take (i + 1 + length (filter ?s (drop (i + 1) (take n mem)))) mem'
          = take (i + 1) mem @ filter ?s (drop (i + 1) (take n mem))"
        by auto
      with sup il dt show ?thesis
        by (subst purge_loop_unfold) (auto simp: take_Suc_conv_app_nth)
    next
      case False
      let ?m = "take i mem @ take (n - i) (drop (i + 1) mem) @ drop n mem"
      have m: "length ?m = length mem" "take i ?m = take i mem"
        "drop i (take (n - 1) ?m) = drop (Suc i) (take n mem)"
        using True 1(5) by (auto simp: drop_take)
      have "purge_loop mem n i = purge_loop ?m (n - 1) i"
        using False il True 1(5)
        by (subst purge_loop_unfold) simp
      moreover have "filter ?s (drop i (take n mem)) = filter ?s (drop i (take (n - 1) ?m))"
        using False dt m(3) by simp
      ultimately show ?thesis
        using IH(1) [OF il False] True 1(3-) m by auto
    qed
  qed
qed

text \<open>Purging a mechanism list leaves exactly the supported mechanisms, in order, when the array is
  followed by at least one more readable element.\<close>

lemma gkm_rpc_mechanism_list_purge_correct:
  assumes "n < 2 ^ 31" and "n < length mechs"
  shows "\<exists>mem n'. gkm_rpc_mechanism_list_purge mechs n = Some (mem, n')
    \<and> take n' mem = filter gkm_rpc_mechanism_is_supported (take n mechs)
    \<and> n' = length (filter gkm_rpc_mechanism_is_supported (take n mechs))"
  using purge_loop_filter [OF assms(1) _ assms(2), of 0]
  by (auto simp: gkm_rpc_mechanism_list_purge_def)

text \<open>When the list fills its memory and holds a mechanism that has to be removed, the purge reads
  one element past the end: \<^verbatim>\<open>memmove\<close> is asked to copy \<open>n - i\<close> elements where \<open>n - i - 1\<close> follow.\<close>

lemma gkm_rpc_mechanism_list_purge_overread:
  assumes "length mechs < 2 ^ 31" and "\<exists>m \<in> set mechs. \<not> gkm_rpc_mechanism_is_supported m"
  shows "gkm_rpc_mechanism_list_purge mechs (length mechs) = None"
proof -
  have "\<exists>m \<in> set (drop i mechs). \<not> gkm_rpc_mechanism_is_supported m \<Longrightarrow>
      purge_loop mechs (length mechs) i = None" for i
  proof (induction "length mechs - i" arbitrary: i)
    case (Suc k)
    then have i: "i < length mechs" by simp
    show ?case
    proof (cases "gkm_rpc_mechanism_is_supported (mechs ! i)")
      case False
      with i assms(1) show ?thesis
        by (subst purge_loop_unfold) (simp add: c_int_small)
    next
      case True
      then have "\<exists>m \<in> set (drop (i + 1) mechs). \<not> gkm_rpc_mechanism_is_supported m"
        using Suc.prems i by (simp add: Cons_nth_drop_Suc [symmetric])
      moreover have "k = length mechs - (i + 1)" using Suc.hyps(2) by simp
      ultimately show ?thesis using Suc.hyps(1) True i assms(1)
        by (subst purge_loop_unfold) (simp add: c_int_small)
    qed
  qed simp
  from this [of 0] assms(2) show ?thesis by (simp add: gkm_rpc_mechanism_list_purge_def)
qed

end
