(* ===== verification/RpcMessage.thy ===== *)
theory RpcMessage
  imports EggBuffer RpcUtil
begin

text \<open>
  Messages of the PKCS\#11 RPC protocol, \<^verbatim>\<open>pkcs11/rpc-layer/gkm-rpc-message.c\<close> and the call table of
  \<^verbatim>\<open>gkm-rpc-private.h\<close>. A message is a buffer with a cursor (\<open>parsed\<close>) and the signature of
  its call, a string of type letters. Every reader and writer first checks, in an
  \<^verbatim>\<open>assert\<close>, that its type is the next part of the signature (\<open>sigverify\<close>); a failed
  check is a fault of the model, \<open>None\<close>. Strings are the bytes before their NUL.
\<close>

subsection \<open>The call table\<close>

definition ascii :: "string \<Rightarrow> bytes" where
  "ascii s = map of_char s"

definition sig :: "string \<Rightarrow> bytes option" where
  "sig s = Some (ascii s)"

record GkmRpcCall =
  rpc_call_id :: nat
  rpc_name :: string
  rpc_request :: "bytes option"
  rpc_response :: "bytes option"

definition rpc_call :: "nat \<Rightarrow> string \<Rightarrow> bytes option \<Rightarrow> bytes option \<Rightarrow> GkmRpcCall" where
  "rpc_call i name req resp =
     \<lparr>rpc_call_id = i, rpc_name = name, rpc_request = req, rpc_response = resp\<rparr>"

definition GKM_RPC_CALL_ERROR :: nat where "GKM_RPC_CALL_ERROR = 0"
definition GKM_RPC_CALL_MAX :: nat where "GKM_RPC_CALL_MAX = 68"

definition gkm_rpc_calls :: "GkmRpcCall list" where
  "gkm_rpc_calls = [
    rpc_call 0 ''ERROR'' (None) (None),
    rpc_call 1 ''C_Initialize'' (sig ''ay'') (sig ''''),
    rpc_call 2 ''C_Finalize'' (sig '''') (sig ''''),
    rpc_call 3 ''C_GetInfo'' (sig '''') (sig ''vsusv''),
    rpc_call 4 ''C_GetSlotList'' (sig ''yfu'') (sig ''au''),
    rpc_call 5 ''C_GetSlotInfo'' (sig ''u'') (sig ''ssuvv''),
    rpc_call 6 ''C_GetTokenInfo'' (sig ''u'') (sig ''ssssuuuuuuuuuuuvvs''),
    rpc_call 7 ''C_GetMechanismList'' (sig ''ufu'') (sig ''au''),
    rpc_call 8 ''C_GetMechanismInfo'' (sig ''uu'') (sig ''uuu''),
    rpc_call 9 ''C_InitToken'' (sig ''uayz'') (sig ''''),
    rpc_call 10 ''C_WaitForSlotEvent'' (sig ''u'') (sig ''u''),
    rpc_call 11 ''C_OpenSession'' (sig ''uu'') (sig ''u''),
    rpc_call 12 ''C_CloseSession'' (sig ''u'') (sig ''''),
    rpc_call 13 ''C_CloseAllSessions'' (sig ''u'') (sig ''''),
    rpc_call 14 ''C_GetFunctionStatus'' (sig ''u'') (sig ''''),
    rpc_call 15 ''C_CancelFunction'' (sig ''u'') (sig ''''),
    rpc_call 16 ''C_GetSessionInfo'' (sig ''u'') (sig ''uuuu''),
    rpc_call 17 ''C_InitPIN'' (sig ''uay'') (sig ''''),
    rpc_call 18 ''C_SetPIN'' (sig ''uayay'') (sig ''''),
    rpc_call 19 ''C_GetOperationState'' (sig ''ufy'') (sig ''ay''),
    rpc_call 20 ''C_SetOperationState'' (sig ''uayuu'') (sig ''''),
    rpc_call 21 ''C_Login'' (sig ''uuay'') (sig ''''),
    rpc_call 22 ''C_Logout'' (sig ''u'') (sig ''''),
    rpc_call 23 ''C_CreateObject'' (sig ''uaA'') (sig ''u''),
    rpc_call 24 ''C_CopyObject'' (sig ''uuaA'') (sig ''u''),
    rpc_call 25 ''C_DestroyObject'' (sig ''uu'') (sig ''''),
    rpc_call 26 ''C_GetObjectSize'' (sig ''uu'') (sig ''u''),
    rpc_call 27 ''C_GetAttributeValue'' (sig ''uufA'') (sig ''aAu''),
    rpc_call 28 ''C_SetAttributeValue'' (sig ''uuaA'') (sig ''''),
    rpc_call 29 ''C_FindObjectsInit'' (sig ''uaA'') (sig ''''),
    rpc_call 30 ''C_FindObjects'' (sig ''ufu'') (sig ''au''),
    rpc_call 31 ''C_FindObjectsFinal'' (sig ''u'') (sig ''''),
    rpc_call 32 ''C_EncryptInit'' (sig ''uMu'') (sig ''''),
    rpc_call 33 ''C_Encrypt'' (sig ''uayfy'') (sig ''ay''),
    rpc_call 34 ''C_EncryptUpdate'' (sig ''uayfy'') (sig ''ay''),
    rpc_call 35 ''C_EncryptFinal'' (sig ''ufy'') (sig ''ay''),
    rpc_call 36 ''C_DecryptInit'' (sig ''uMu'') (sig ''''),
    rpc_call 37 ''C_Decrypt'' (sig ''uayfy'') (sig ''ay''),
    rpc_call 38 ''C_DecryptUpdate'' (sig ''uayfy'') (sig ''ay''),
    rpc_call 39 ''C_DecryptFinal'' (sig ''ufy'') (sig ''ay''),
    rpc_call 40 ''C_DigestInit'' (sig ''uM'') (sig ''''),
    rpc_call 41 ''C_Digest'' (sig ''uayfy'') (sig ''ay''),
    rpc_call 42 ''C_DigestUpdate'' (sig ''uay'') (sig ''''),
    rpc_call 43 ''C_DigestKey'' (sig ''uu'') (sig ''''),
    rpc_call 44 ''C_DigestFinal'' (sig ''ufy'') (sig ''ay''),
    rpc_call 45 ''C_SignInit'' (sig ''uMu'') (sig ''''),
    rpc_call 46 ''C_Sign'' (sig ''uayfy'') (sig ''ay''),
    rpc_call 47 ''C_SignUpdate'' (sig ''uay'') (sig ''''),
    rpc_call 48 ''C_SignFinal'' (sig ''ufy'') (sig ''ay''),
    rpc_call 49 ''C_SignRecoverInit'' (sig ''uMu'') (sig ''''),
    rpc_call 50 ''C_SignRecover'' (sig ''uayfy'') (sig ''ay''),
    rpc_call 51 ''C_VerifyInit'' (sig ''uMu'') (sig ''''),
    rpc_call 52 ''C_Verify'' (sig ''uayay'') (sig ''''),
    rpc_call 53 ''C_VerifyUpdate'' (sig ''uay'') (sig ''''),
    rpc_call 54 ''C_VerifyFinal'' (sig ''uay'') (sig ''''),
    rpc_call 55 ''C_VerifyRecoverInit'' (sig ''uMu'') (sig ''''),
    rpc_call 56 ''C_VerifyRecover'' (sig ''uayfy'') (sig ''ay''),
    rpc_call 57 ''C_DigestEncryptUpdate'' (sig ''uayfy'') (sig ''ay''),
    rpc_call 58 ''C_DecryptDigestUpdate'' (sig ''uayfy'') (sig ''ay''),
    rpc_call 59 ''C_SignEncryptUpdate'' (sig ''uayfy'') (sig ''ay''),
    rpc_call 60 ''C_DecryptVerifyUpdate'' (sig ''uayfy'') (sig ''ay''),
    rpc_call 61 ''C_GenerateKey'' (sig ''uMaA'') (sig ''u''),
    rpc_call 62 ''C_GenerateKeyPair'' (sig ''uMaAaA'') (sig ''uu''),
    rpc_call 63 ''C_WrapKey'' (sig ''uMuufy'') (sig ''ay''),
    rpc_call 64 ''C_UnwrapKey'' (sig ''uMuayaA'') (sig ''u''),
    rpc_call 65 ''C_DeriveKey'' (sig ''uMuaA'') (sig ''u''),
    rpc_call 66 ''C_SeedRandom'' (sig ''uay'') (sig ''''),
    rpc_call 67 ''C_GenerateRandom'' (sig ''ufy'') (sig ''ay'')]"

subsection \<open>Messages\<close>

text \<open>\<open>GKM_RPC_NONE\<close> is the zero that a reset message has as its type.\<close>

datatype GkmRpcMessageType = GKM_RPC_NONE | GKM_RPC_REQUEST | GKM_RPC_RESPONSE

record GkmRpcMessage =
  call_id :: int
  call_type :: GkmRpcMessageType
  signature :: "bytes option"
  buffer :: EggBuffer
  parsed :: nat
  sigverify :: "bytes option"

definition gkm_rpc_message_reset :: "GkmRpcMessage \<Rightarrow> GkmRpcMessage option" where
  "gkm_rpc_message_reset msg = do {
     b \<leftarrow> egg_buffer_reset (buffer msg);
     Some (msg\<lparr>call_id := 0, call_type := GKM_RPC_NONE, signature := None, sigverify := None,
               parsed := 0, buffer := b\<rparr>)
   }"

text \<open>
  \<open>gkm_rpc_message_new\<close> gives the message, or \<open>None\<close> inside for a \<^verbatim>\<open>NULL\<close> return; the struct
  has 72 bytes. \<open>gkm_rpc_message_free\<close> gives the block of the buffer that is released.
\<close>

definition gkm_rpc_message_new :: "heap \<Rightarrow> allocator \<Rightarrow> GkmRpcMessage option option" where
  "gkm_rpc_message_new h a =
     (case h a None 72 of
        None \<Rightarrow> Some None
      | Some m \<Rightarrow>
          (case egg_buffer_init_full h 64 (Some a) of
             (False, b) \<Rightarrow> Some None
           | (True, b) \<Rightarrow>
               map_option Some (gkm_rpc_message_reset
                 \<lparr>call_id = 0, call_type = GKM_RPC_NONE, signature = None, buffer = b,
                  parsed = 0, sigverify = None\<rparr>)))"

definition gkm_rpc_message_free :: "GkmRpcMessage option \<Rightarrow> bytes option option" where
  "gkm_rpc_message_free msg =
     (case msg of
        None \<Rightarrow> Some None
      | Some m \<Rightarrow> if eb_allocator (buffer m) = None then None
                  else Some (fst (egg_buffer_uninit (buffer m))))"

definition gkm_rpc_message_is_verified :: "GkmRpcMessage \<Rightarrow> bool" where
  "gkm_rpc_message_is_verified msg \<longleftrightarrow> sigverify msg = None \<or> sigverify msg = Some []"

definition gkm_rpc_message_buffer_error :: "GkmRpcMessage \<Rightarrow> bool" where
  "gkm_rpc_message_buffer_error msg = egg_buffer_has_error (buffer msg)"

text \<open>The signature the table holds for a call.\<close>

definition call_signature :: "nat \<Rightarrow> GkmRpcMessageType \<Rightarrow> bytes option option" where
  "call_signature i type =
     (case type of
        GKM_RPC_REQUEST \<Rightarrow> Some (rpc_request (gkm_rpc_calls ! i))
      | GKM_RPC_RESPONSE \<Rightarrow> Some (rpc_response (gkm_rpc_calls ! i))
      | GKM_RPC_NONE \<Rightarrow> None)"

definition gkm_rpc_message_prep ::
    "heap \<Rightarrow> int \<Rightarrow> GkmRpcMessageType \<Rightarrow> GkmRpcMessage \<Rightarrow> (bool \<times> GkmRpcMessage) option" where
  "gkm_rpc_message_prep h cid type msg =
     (if type = GKM_RPC_NONE then None
      else if \<not> cid \<ge> int GKM_RPC_CALL_ERROR then None
      else if \<not> cid < int GKM_RPC_CALL_MAX then None
      else do {
        m \<leftarrow> gkm_rpc_message_reset msg;
        m1 \<leftarrow> (if cid \<noteq> int GKM_RPC_CALL_ERROR
               then do {
                 sg \<leftarrow> call_signature (nat cid) type;
                 if sg = None then None else Some (m\<lparr>signature := sg, sigverify := sg\<rparr>)
               }
               else Some m);
        let m2 = m1\<lparr>call_id := cid, call_type := type\<rparr>;
        (ok1, b1) \<leftarrow> egg_buffer_add_uint32 h (word_of_int cid) (buffer m2);
        (ok2, b2) \<leftarrow> (case signature m2 of
                        None \<Rightarrow> Some (True, b1)
                      | Some sg \<Rightarrow> egg_buffer_add_byte_array h (Some sg) b1);
        Some (\<not> egg_buffer_has_error b2, m2\<lparr>buffer := b2, parsed := 0\<rparr>)
      })"

text \<open>Adding to and reading from the buffer of a message.\<close>

definition msg_add :: "(EggBuffer \<Rightarrow> (bool \<times> EggBuffer) option) \<Rightarrow> GkmRpcMessage
    \<Rightarrow> (bool \<times> GkmRpcMessage) option" where
  "msg_add w msg = do { (ok, b) \<leftarrow> w (buffer msg); Some (ok, msg\<lparr>buffer := b\<rparr>) }"

definition msg_get :: "'a getter \<Rightarrow> GkmRpcMessage \<Rightarrow> ('a option \<times> GkmRpcMessage) option" where
  "msg_get g msg = do {
     (r, b) \<leftarrow> g (buffer msg) (parsed msg);
     case r of
       None \<Rightarrow> Some (None, msg\<lparr>buffer := b\<rparr>)
     | Some (v, next) \<Rightarrow> Some (Some v, msg\<lparr>buffer := b, parsed := next\<rparr>)
   }"

definition gkm_rpc_message_parse ::
    "GkmRpcMessageType \<Rightarrow> GkmRpcMessage \<Rightarrow> (bool \<times> GkmRpcMessage) option" where
  "gkm_rpc_message_parse type msg = do {
     (r, m) \<leftarrow> msg_get egg_buffer_get_uint32 (msg\<lparr>parsed := 0\<rparr>);
     case r of
       None \<Rightarrow> Some (False, m)
     | Some cid \<Rightarrow>
         let m1 = m\<lparr>signature := None, sigverify := None\<rparr>
         in if unat cid = GKM_RPC_CALL_ERROR
            then Some (type \<noteq> GKM_RPC_REQUEST, m1)
            else if cid \<le> 0 \<or> unat cid \<ge> GKM_RPC_CALL_MAX then Some (False, m1)
            else do {
              sg \<leftarrow> call_signature (unat cid) type;
              let m2 = m1\<lparr>signature := sg, call_id := int (unat cid), call_type := type,
                          sigverify := sg\<rparr>;
              (r2, m3) \<leftarrow> msg_get egg_buffer_get_byte_array m2;
              case r2 of
                None \<Rightarrow> Some (False, m3)
              | Some val \<Rightarrow> do {
                  s \<leftarrow> sg;
                  let v = (case val of None \<Rightarrow> [] | Some v \<Rightarrow> v);
                  Some (length s = length v \<and> v = s, m3)
                }
            }
   }"

definition gkm_rpc_message_equals :: "GkmRpcMessage \<Rightarrow> GkmRpcMessage \<Rightarrow> bool option" where
  "gkm_rpc_message_equals m1 m2 =
     (if egg_buffer_has_error (buffer m1) \<or> egg_buffer_has_error (buffer m2) then Some False
      else if call_id m1 \<noteq> call_id m2 then Some False
      else if call_type m1 \<noteq> call_type m2 then Some False
      else if signature m1 \<noteq> signature m2 then Some False
      else egg_buffer_equal (buffer m1) (buffer m2))"

text \<open>\<^verbatim>\<open>strncmp\<close> of the rest of the signature with the part, over the part's length.\<close>

definition gkm_rpc_message_verify_part :: "bytes \<Rightarrow> GkmRpcMessage \<Rightarrow> bool \<times> GkmRpcMessage" where
  "gkm_rpc_message_verify_part part msg =
     (case sigverify msg of
        None \<Rightarrow> (True, msg)
      | Some sv \<Rightarrow>
          if take (length part) sv = part
          then (True, msg\<lparr>sigverify := Some (drop (length part) sv)\<rparr>)
          else (False, msg))"

text \<open>\<^verbatim>\<open>assert (!msg->signature || gkm_rpc_message_verify_part (msg, part))\<close>\<close>

definition assert_part :: "string \<Rightarrow> GkmRpcMessage \<Rightarrow> GkmRpcMessage option" where
  "assert_part part msg =
     (if signature msg = None then Some msg
      else case gkm_rpc_message_verify_part (ascii part) msg of
             (True, m) \<Rightarrow> Some m
           | (False, m) \<Rightarrow> None)"

text \<open>A run of \<open>egg_buffer_add_\<close> calls whose results are ignored.\<close>

fun add_seq :: "(EggBuffer \<Rightarrow> (bool \<times> EggBuffer) option) list \<Rightarrow> EggBuffer \<Rightarrow> EggBuffer option" where
  "add_seq [] b = Some b"
| "add_seq (w # ws) b = do { (ok, b1) \<leftarrow> w b; add_seq ws b1 }"

definition msg_add_seq :: "(EggBuffer \<Rightarrow> (bool \<times> EggBuffer) option) list \<Rightarrow> GkmRpcMessage
    \<Rightarrow> (bool \<times> GkmRpcMessage) option" where
  "msg_add_seq ws msg = do {
     b \<leftarrow> add_seq ws (buffer msg);
     Some (\<not> egg_buffer_has_error b, msg\<lparr>buffer := b\<rparr>)
   }"

text \<open>
  \<^verbatim>\<open>egg_buffer_add_byte_array (buffer, ptr, len)\<close> where the block at \<open>ptr\<close> and the length are
  separate: the bytes are read from the block, after the length check.
\<close>

definition egg_buffer_add_mem :: "heap \<Rightarrow> bytes option \<Rightarrow> nat \<Rightarrow> EggBuffer \<Rightarrow> (bool \<times> EggBuffer) option" where
  "egg_buffer_add_mem h ptr n b =
     (case ptr of
        None \<Rightarrow> egg_buffer_add_byte_array h None b
      | Some p \<Rightarrow>
          if n \<ge> 0x7fffffff then Some (False, eb_fail b)
          else do { v \<leftarrow> mem_read p 0 n; egg_buffer_add_byte_array h (Some v) b })"

subsection \<open>Writing and reading arguments\<close>

record CK_ATTRIBUTE =
  attr_type :: CK_ULONG
  pValue :: "bytes option"
  ulValueLen :: CK_ULONG

record CK_VERSION =
  major :: byte
  minor :: byte

text \<open>The attribute array \<open>arr\<close> with its \<open>num\<close> elements is a list.\<close>

definition gkm_rpc_message_write_attribute_buffer ::
    "heap \<Rightarrow> CK_ATTRIBUTE list \<Rightarrow> GkmRpcMessage \<Rightarrow> (bool \<times> GkmRpcMessage) option" where
  "gkm_rpc_message_write_attribute_buffer h arr msg = do {
     m \<leftarrow> assert_part ''fA'' msg;
     msg_add_seq (egg_buffer_add_uint32 h (word_of_nat (length arr)) #
       concat (map (\<lambda>attr. [egg_buffer_add_uint32 h (ucast (attr_type attr)),
                   egg_buffer_add_uint32 h
                     (if pValue attr \<noteq> None then ucast (ulValueLen attr) else 0)]) arr)) m
   }"

definition gkm_rpc_message_write_attribute_array ::
    "heap \<Rightarrow> CK_ATTRIBUTE list \<Rightarrow> GkmRpcMessage \<Rightarrow> (bool \<times> GkmRpcMessage) option" where
  "gkm_rpc_message_write_attribute_array h arr msg = do {
     m \<leftarrow> assert_part ''aA'' msg;
     msg_add_seq (egg_buffer_add_uint32 h (word_of_nat (length arr)) #
       concat (map (\<lambda>attr.
         let validity = (if ulValueLen attr = - 1 then 0 else 1)
         in [egg_buffer_add_uint32 h (ucast (attr_type attr)), egg_buffer_add_byte h validity] @
            (if validity \<noteq> 0
             then [egg_buffer_add_uint32 h (ucast (ulValueLen attr)),
                   egg_buffer_add_mem h (pValue attr) (unat (ulValueLen attr))]
             else [])) arr)) m
   }"

definition gkm_rpc_message_read_byte :: "GkmRpcMessage \<Rightarrow> (byte option \<times> GkmRpcMessage) option" where
  "gkm_rpc_message_read_byte msg = do {
     m \<leftarrow> assert_part ''y'' msg;
     msg_get egg_buffer_get_byte m
   }"

definition gkm_rpc_message_write_byte ::
    "heap \<Rightarrow> byte \<Rightarrow> GkmRpcMessage \<Rightarrow> (bool \<times> GkmRpcMessage) option" where
  "gkm_rpc_message_write_byte h val msg = do {
     m \<leftarrow> assert_part ''y'' msg;
     msg_add (egg_buffer_add_byte h val) m
   }"

definition gkm_rpc_message_read_ulong :: "GkmRpcMessage \<Rightarrow> (CK_ULONG option \<times> GkmRpcMessage) option" where
  "gkm_rpc_message_read_ulong msg = do {
     m \<leftarrow> assert_part ''u'' msg;
     msg_get egg_buffer_get_uint64 m
   }"

definition gkm_rpc_message_write_ulong ::
    "heap \<Rightarrow> CK_ULONG \<Rightarrow> GkmRpcMessage \<Rightarrow> (bool \<times> GkmRpcMessage) option" where
  "gkm_rpc_message_write_ulong h val msg = do {
     m \<leftarrow> assert_part ''u'' msg;
     msg_add (egg_buffer_add_uint64 h val) m
   }"

definition gkm_rpc_message_write_byte_buffer ::
    "heap \<Rightarrow> CK_ULONG \<Rightarrow> GkmRpcMessage \<Rightarrow> (bool \<times> GkmRpcMessage) option" where
  "gkm_rpc_message_write_byte_buffer h count msg = do {
     m \<leftarrow> assert_part ''fy'' msg;
     msg_add (egg_buffer_add_uint32 h (ucast count)) m
   }"

definition gkm_rpc_message_write_byte_array ::
    "heap \<Rightarrow> bytes option \<Rightarrow> CK_ULONG \<Rightarrow> GkmRpcMessage \<Rightarrow> (bool \<times> GkmRpcMessage) option" where
  "gkm_rpc_message_write_byte_array h arr num msg = do {
     m \<leftarrow> assert_part ''ay'' msg;
     msg_add_seq
       (if arr = None
        then [egg_buffer_add_byte h 0, egg_buffer_add_uint32 h (ucast num)]
        else [egg_buffer_add_byte h 1, egg_buffer_add_mem h arr (unat num)]) m
   }"

definition gkm_rpc_message_write_ulong_buffer ::
    "heap \<Rightarrow> CK_ULONG \<Rightarrow> GkmRpcMessage \<Rightarrow> (bool \<times> GkmRpcMessage) option" where
  "gkm_rpc_message_write_ulong_buffer h count msg = do {
     m \<leftarrow> assert_part ''fu'' msg;
     msg_add (egg_buffer_add_uint32 h (ucast count)) m
   }"

text \<open>The loop reads \<open>n_array\<close> elements of the block at \<open>array\<close>.\<close>

definition gkm_rpc_message_write_ulong_array ::
    "heap \<Rightarrow> CK_ULONG list option \<Rightarrow> CK_ULONG \<Rightarrow> GkmRpcMessage \<Rightarrow> (bool \<times> GkmRpcMessage) option" where
  "gkm_rpc_message_write_ulong_array h array n_array msg = do {
     m \<leftarrow> assert_part ''au'' msg;
     vals \<leftarrow> (case array of
               None \<Rightarrow> Some []
             | Some a \<Rightarrow> if unat n_array \<le> length a then Some (take (unat n_array) a) else None);
     msg_add_seq ([egg_buffer_add_byte h (if array \<noteq> None then 1 else 0),
                   egg_buffer_add_uint32 h (ucast n_array)]
                  @ map (egg_buffer_add_uint64 h) vals) m
   }"

definition gkm_rpc_message_read_version :: "GkmRpcMessage \<Rightarrow> (CK_VERSION option \<times> GkmRpcMessage) option" where
  "gkm_rpc_message_read_version msg = do {
     m \<leftarrow> assert_part ''v'' msg;
     (r, m1) \<leftarrow> msg_get egg_buffer_get_byte m;
     case r of
       None \<Rightarrow> Some (None, m1)
     | Some ma \<Rightarrow> do {
         (r2, m2) \<leftarrow> msg_get egg_buffer_get_byte m1;
         case r2 of
           None \<Rightarrow> Some (None, m2)
         | Some mi \<Rightarrow> Some (Some \<lparr>major = ma, minor = mi\<rparr>, m2)
       }
   }"

definition gkm_rpc_message_write_version ::
    "heap \<Rightarrow> CK_VERSION \<Rightarrow> GkmRpcMessage \<Rightarrow> (bool \<times> GkmRpcMessage) option" where
  "gkm_rpc_message_write_version h version msg = do {
     m \<leftarrow> assert_part ''v'' msg;
     msg_add_seq [egg_buffer_add_byte h (major version), egg_buffer_add_byte h (minor version)] m
   }"

text \<open>\<open>buffer\<close> is the memory of the string field: the result is that memory after the call.\<close>

definition gkm_rpc_message_read_space_string ::
    "nat \<Rightarrow> bytes \<Rightarrow> GkmRpcMessage \<Rightarrow> (bytes option \<times> GkmRpcMessage) option" where
  "gkm_rpc_message_read_space_string len field msg =
     (if len = 0 then None
      else do {
        m \<leftarrow> assert_part ''s'' msg;
        (r, m1) \<leftarrow> msg_get egg_buffer_get_byte_array m;
        case r of
          None \<Rightarrow> Some (None, m1)
        | Some val \<Rightarrow>
            let data = (case val of None \<Rightarrow> [] | Some v \<Rightarrow> v)
            in if length data \<noteq> len then Some (None, m1)
               else do { field' \<leftarrow> mem_write field 0 data; Some (Some field', m1) }
      })"

definition gkm_rpc_message_write_space_string ::
    "heap \<Rightarrow> nat \<Rightarrow> bytes \<Rightarrow> GkmRpcMessage \<Rightarrow> (bool \<times> GkmRpcMessage) option" where
  "gkm_rpc_message_write_space_string h len field msg =
     (if len = 0 then None
      else do {
        m \<leftarrow> assert_part ''s'' msg;
        msg_add (egg_buffer_add_mem h (Some field) len) m
      })"

definition gkm_rpc_message_write_zero_string ::
    "heap \<Rightarrow> bytes \<Rightarrow> GkmRpcMessage \<Rightarrow> (bool \<times> GkmRpcMessage) option" where
  "gkm_rpc_message_write_zero_string h str msg = do {
     m \<leftarrow> assert_part ''z'' msg;
     msg_add (egg_buffer_add_string h (Some str)) m
   }"

subsection \<open>The signature protocol\<close>

text \<open>
  \<open>expects part msg\<close>: the check for \<open>part\<close> passes; \<open>advance part msg\<close> is the message behind it.
\<close>

definition expects :: "bytes \<Rightarrow> GkmRpcMessage \<Rightarrow> bool" where
  "expects part msg \<longleftrightarrow> signature msg = None \<or> sigverify msg = None
     \<or> take (length part) (the (sigverify msg)) = part"

definition advance :: "bytes \<Rightarrow> GkmRpcMessage \<Rightarrow> GkmRpcMessage" where
  "advance part msg = (if signature msg = None then msg
     else msg\<lparr>sigverify := map_option (drop (length part)) (sigverify msg)\<rparr>)"

lemma assert_part_expects:
  "expects (ascii part) msg \<Longrightarrow> assert_part part msg = Some (advance (ascii part) msg)"
  by (auto simp: assert_part_def gkm_rpc_message_verify_part_def expects_def advance_def
      split: option.splits)

lemma assert_part_None: "\<not> expects (ascii part) msg \<Longrightarrow> assert_part part msg = None"
  by (auto simp: assert_part_def gkm_rpc_message_verify_part_def expects_def)

lemma expects_append:
  "expects (p @ q) msg \<Longrightarrow> expects p msg" "expects (p @ q) msg \<Longrightarrow> expects q (advance p msg)"
proof -
  assume e: "expects (p @ q) msg"
  have "take (length p) l = p" if "take (length p + length q) l = p @ q" for l :: bytes
    using that by (metis append_eq_conv_conj length_append append_take_drop_id append.assoc)
  moreover have "take (length q) (drop (length p) l) = q"
    if "take (length p + length q) l = p @ q" for l :: bytes
    using that by (metis append_eq_conv_conj drop_take add_diff_cancel_left')
  ultimately show "expects p msg" "expects q (advance p msg)"
    using e by (cases "sigverify msg"; auto simp: expects_def advance_def)+
qed

lemma expects_nil [simp]: "expects [] msg"
  by (simp add: expects_def)

lemma advance_nil [simp]: "advance [] msg = msg"
  by (simp add: advance_def option.map_id0 [unfolded id_def])

lemma advance_append: "advance q (advance p msg) = advance (p @ q) msg"
  by (cases "sigverify msg") (auto simp: advance_def add.commute)

lemma advance_simps [simp]:
  "buffer (advance p msg) = buffer msg" "parsed (advance p msg) = parsed msg"
  "signature (advance p msg) = signature msg" "call_id (advance p msg) = call_id msg"
  "call_type (advance p msg) = call_type msg"
  by (simp_all add: advance_def)

lemma expects_buffer [simp]:
  "expects p (msg\<lparr>buffer := b\<rparr>) = expects p msg" "expects p (msg\<lparr>parsed := n\<rparr>) = expects p msg"
  by (simp_all add: expects_def)

lemma advance_buffer [simp]:
  "advance p (msg\<lparr>buffer := b\<rparr>) = (advance p msg)\<lparr>buffer := b\<rparr>"
  "advance p (msg\<lparr>parsed := n\<rparr>) = (advance p msg)\<lparr>parsed := n\<rparr>"
  by (simp_all add: advance_def)

subsection \<open>Writers and readers of messages\<close>

text \<open>
  \<open>msg_emits w part bs\<close>: where \<open>part\<close> comes next in the signature, \<open>w\<close> does not fault,
  consumes the part and extends the buffer; if it reports success it has appended exactly
  \<open>bs\<close>, otherwise the failure is counted in the buffer.
  \<open>msg_parses r part v bs\<close>: reading where \<open>bs\<close> stands gives \<open>v\<close>.
\<close>

definition added :: "EggBuffer \<Rightarrow> bool \<Rightarrow> EggBuffer \<Rightarrow> bytes \<Rightarrow> bool" where
  "added b ok b' bs \<longleftrightarrow> eb_wf b' \<and> eb_allocator b' = eb_allocator b \<and> (\<exists>junk. eb_contents b' = eb_contents b @ junk)
     \<and> eb_failures b \<le> eb_failures b'
     \<and> (ok \<longrightarrow> eb_failures b' = eb_failures b \<and> eb_contents b' = eb_contents b @ bs)
     \<and> (\<not> ok \<longrightarrow> 0 < eb_failures b')"

type_synonym msg_writer = "GkmRpcMessage \<Rightarrow> (bool \<times> GkmRpcMessage) option"
type_synonym 'a msg_reader = "GkmRpcMessage \<Rightarrow> ('a option \<times> GkmRpcMessage) option"

definition msg_emits :: "msg_writer \<Rightarrow> bytes \<Rightarrow> bytes \<Rightarrow> bool" where
  "msg_emits w part bs \<longleftrightarrow> (\<forall>msg. eb_wf (buffer msg) \<longrightarrow> expects part msg \<longrightarrow>
     (\<exists>ok msg'. w msg = Some (ok, msg') \<and> added (buffer msg) ok (buffer msg') bs
       \<and> (ok \<longrightarrow> msg' = (advance part msg)\<lparr>buffer := buffer msg'\<rparr>)))"

definition msg_parses :: "'a msg_reader \<Rightarrow> bytes \<Rightarrow> 'a \<Rightarrow> bytes \<Rightarrow> bool" where
  "msg_parses r part v bs \<longleftrightarrow> (\<forall>msg pre post. eb_wf (buffer msg) \<longrightarrow> expects part msg \<longrightarrow>
     eb_contents (buffer msg) = pre @ bs @ post \<longrightarrow> parsed msg = length pre \<longrightarrow>
     r msg = Some (Some v, (advance part msg)\<lparr>parsed := length pre + length bs\<rparr>))"

text \<open>
  \<open>msg_safe r part\<close>: on any contents and any cursor the reader does not fault, leaves the
  contents alone and moves the cursor forward only.
\<close>

definition same_input :: "GkmRpcMessage \<Rightarrow> GkmRpcMessage \<Rightarrow> bool" where
  "same_input msg msg' \<longleftrightarrow> eb_wf (buffer msg') \<and> eb_contents (buffer msg') = eb_contents (buffer msg)
     \<and> parsed msg \<le> parsed msg' \<and> signature msg' = signature msg \<and> call_id msg' = call_id msg"

definition msg_safe :: "'a msg_reader \<Rightarrow> bytes \<Rightarrow> bool" where
  "msg_safe r part \<longleftrightarrow> (\<forall>msg. eb_wf (buffer msg) \<longrightarrow> expects part msg \<longrightarrow>
     (\<exists>v msg'. r msg = Some (v, msg') \<and> same_input msg msg'
       \<and> (v \<noteq> None \<longrightarrow> sigverify msg' = sigverify (advance part msg))))"

lemma msg_parsesD:
  "msg_parses r part v bs \<Longrightarrow> eb_wf (buffer msg) \<Longrightarrow> expects part msg \<Longrightarrow>
     eb_contents (buffer msg) = pre @ bs @ post \<Longrightarrow> parsed msg = length pre \<Longrightarrow>
     r msg = Some (Some v, (advance part msg)\<lparr>parsed := length pre + length bs\<rparr>)"
  unfolding msg_parses_def by blast

lemma msg_emitsI:
  "(\<And>msg. eb_wf (buffer msg) \<Longrightarrow> expects part msg \<Longrightarrow>
     \<exists>ok b'. w msg = Some (ok, (advance part msg)\<lparr>buffer := b'\<rparr>) \<and> added (buffer msg) ok b' bs)
   \<Longrightarrow> msg_emits w part bs"
  unfolding msg_emits_def by fastforce

lemma msg_emits_cases [consumes 3, case_names ok fail]:
  assumes "msg_emits w part bs" and "eb_wf (buffer msg)" and "expects part msg"
  obtains (ok) b' where "w msg = Some (True, (advance part msg)\<lparr>buffer := b'\<rparr>)"
      and "added (buffer msg) True b' bs"
    | (fail) msg' where "w msg = Some (False, msg')" and "added (buffer msg) False (buffer msg') bs"
  using assms unfolding msg_emits_def by metis

lemma emits_added:
  assumes "emits w bs" and "eb_wf b"
  obtains ok b' where "w b = Some (ok, b')" and "added b ok b' bs"
    and "ok \<longleftrightarrow> eb_failures b' = eb_failures b"
  using assms by (cases rule: emits_cases) (auto simp: added_def)

lemma msg_add_emits:
  assumes "emits w bs"
  shows "msg_emits (\<lambda>msg. do { m \<leftarrow> assert_part part msg; msg_add w m }) (ascii part) bs"
proof (rule msg_emitsI)
  fix msg assume "eb_wf (buffer msg)" and e: "expects (ascii part) msg"
  then obtain ok b' where "w (buffer msg) = Some (ok, b')" "added (buffer msg) ok b' bs"
    using emits_added [OF assms] by metis
  then show "\<exists>ok b'. do { m \<leftarrow> assert_part part msg; msg_add w m }
      = Some (ok, (advance (ascii part) msg)\<lparr>buffer := b'\<rparr>) \<and> added (buffer msg) ok b' bs"
    by (auto simp: assert_part_expects [OF e] msg_add_def)
qed

lemma add_seq_added:
  assumes "list_all2 emits ws bss" and "eb_wf b"
  shows "\<exists>b'. add_seq ws b = Some b' \<and> eb_wf b' \<and> eb_allocator b' = eb_allocator b \<and> (\<exists>junk. eb_contents b' = eb_contents b @ junk)
    \<and> eb_failures b \<le> eb_failures b'
    \<and> (eb_failures b' = eb_failures b \<longrightarrow> eb_contents b' = eb_contents b @ concat bss)"
  using assms
proof (induction ws bss arbitrary: b rule: list_all2_induct)
  case (Cons w ws bs bss)
  from emits_added [OF Cons.hyps(1) Cons.prems] obtain ok b1
    where 1: "w b = Some (ok, b1)" "added b ok b1 bs" "ok \<longleftrightarrow> eb_failures b1 = eb_failures b" .
  then have "eb_wf b1" by (simp add: added_def)
  with Cons.IH obtain b2 junk where 2: "add_seq ws b1 = Some b2" "eb_wf b2" "eb_allocator b2 = eb_allocator b1"
    "eb_contents b2 = eb_contents b1 @ junk" "eb_failures b1 \<le> eb_failures b2"
    "eb_failures b2 = eb_failures b1 \<longrightarrow> eb_contents b2 = eb_contents b1 @ concat bss" by blast
  from 1 2 show ?case by (auto simp: added_def)
qed auto

lemma msg_add_seq_emits:
  assumes "list_all2 emits ws bss"
  shows "msg_emits (\<lambda>msg. do { m \<leftarrow> assert_part part msg; msg_add_seq ws m }) (ascii part) (concat bss)"
proof (rule msg_emitsI)
  fix msg assume wf: "eb_wf (buffer msg)" and e: "expects (ascii part) msg"
  from add_seq_added [OF assms wf] obtain b' where b': "add_seq ws (buffer msg) = Some b'"
    "eb_wf b' \<and> eb_allocator b' = eb_allocator (buffer msg) \<and> (\<exists>junk. eb_contents b' = eb_contents (buffer msg) @ junk)
    \<and> eb_failures (buffer msg) \<le> eb_failures b'
    \<and> (eb_failures b' = eb_failures (buffer msg) \<longrightarrow>
         eb_contents b' = eb_contents (buffer msg) @ concat bss)" by blast
  then have "added (buffer msg) (\<not> egg_buffer_has_error b') b' (concat bss)"
    by (auto simp: added_def egg_buffer_has_error_def)
  with b'(1) show "\<exists>ok b'. do { m \<leftarrow> assert_part part msg; msg_add_seq ws m }
      = Some (ok, (advance (ascii part) msg)\<lparr>buffer := b'\<rparr>)
      \<and> added (buffer msg) ok b' (concat bss)"
    by (auto simp: assert_part_expects [OF e] msg_add_seq_def)
qed

lemma parses_msg_get:
  assumes "parses g v bs" and "eb_wf (buffer msg)"
    and "eb_contents (buffer msg) = pre @ bs @ post" and "parsed msg = length pre"
  shows "msg_get g msg = Some (Some v, msg\<lparr>parsed := length pre + length bs\<rparr>)"
  using parsesD [OF assms(1-3)] assms(4) by (simp add: msg_get_def)

lemma msg_get_parses:
  assumes "parses g v bs"
  shows "msg_parses (\<lambda>msg. do { m \<leftarrow> assert_part part msg; msg_get g m }) (ascii part) v bs"
  unfolding msg_parses_def
  by (auto simp: assert_part_expects parses_msg_get [OF assms])

lemma safe_msg_get:
  assumes "safe_getter g" and "eb_wf (buffer msg)"
  obtains v msg' where "msg_get g msg = Some (v, msg')" and "same_input msg msg'"
    and "sigverify msg' = sigverify msg"
  using assms
proof (cases rule: safe_getter_cases [where off = "parsed msg"])
  case fail
  with assms(2) show thesis
    by (intro that [of None "msg\<lparr>buffer := eb_fail (buffer msg)\<rparr>"])
      (auto simp: msg_get_def same_input_def)
next
  case (ok v n)
  with assms(2) show thesis
    by (intro that [of "Some v" "msg\<lparr>parsed := n\<rparr>"]) (auto simp: msg_get_def same_input_def)
qed

lemma same_input_advance [simp]: "same_input (advance p msg) msg' = same_input msg msg'"
  by (simp add: same_input_def)

lemma same_input_trans: "same_input m1 m2 \<Longrightarrow> same_input m2 m3 \<Longrightarrow> same_input m1 m3"
  by (auto simp: same_input_def)

lemma same_input_wf: "same_input m m' \<Longrightarrow> eb_wf (buffer m')"
  by (simp add: same_input_def)

lemma msg_get_safe:
  assumes "safe_getter g"
  shows "msg_safe (\<lambda>msg. do { m \<leftarrow> assert_part part msg; msg_get g m }) (ascii part)"
  unfolding msg_safe_def
proof (intro allI impI)
  fix msg assume wf: "eb_wf (buffer msg)" and e: "expects (ascii part) msg"
  from wf have "eb_wf (buffer (advance (ascii part) msg))" by simp
  from safe_msg_get [OF assms this] obtain v msg' where
    "msg_get g (advance (ascii part) msg) = Some (v, msg')" "same_input msg msg'"
    "sigverify msg' = sigverify (advance (ascii part) msg)"
    unfolding same_input_advance by blast
  then show "\<exists>v msg'. do { m \<leftarrow> assert_part part msg; msg_get g m } = Some (v, msg')
      \<and> same_input msg msg'
      \<and> (v \<noteq> None \<longrightarrow> sigverify msg' = sigverify (advance (ascii part) msg))"
    by (auto simp: assert_part_expects [OF e])
qed

text \<open>A chain \<^verbatim>\<open>!a (...) || !b (...)\<close> of calls, stopped at the first that returns zero.\<close>

fun all_ok :: "('s \<Rightarrow> (bool \<times> 's) option) list \<Rightarrow> 's \<Rightarrow> (bool \<times> 's) option" where
  "all_ok [] s = Some (True, s)"
| "all_ok (f # fs) s = do { (ok, s1) \<leftarrow> f s; if ok then all_ok fs s1 else Some (False, s1) }"

lemma all_ok_emits_nil: "msg_emits (all_ok []) [] []"
  unfolding msg_emits_def by (auto simp: added_def)

lemma all_ok_emits_cons:
  assumes "msg_emits w p bs" and "msg_emits (all_ok ws) ps bss"
  shows "msg_emits (all_ok (w # ws)) (p @ ps) (bs @ bss)"
  unfolding msg_emits_def
proof (intro allI impI)
  fix msg :: GkmRpcMessage
  assume wf: "eb_wf (buffer msg)" and e: "expects (p @ ps) msg"
  note e = expects_append [OF e]
  from assms(1) wf e(1) show "\<exists>ok msg'. all_ok (w # ws) msg = Some (ok, msg')
      \<and> added (buffer msg) ok (buffer msg') (bs @ bss)
      \<and> (ok \<longrightarrow> msg' = (advance (p @ ps) msg)\<lparr>buffer := buffer msg'\<rparr>)"
  proof (cases rule: msg_emits_cases)
    case (fail msg')
    then show ?thesis by (auto simp: added_def)
  next
    case first: (ok b1)
    let ?m = "(advance p msg)\<lparr>buffer := b1\<rparr>"
    have "eb_wf (buffer ?m)" "expects ps ?m" using first(2) e(2) by (auto simp: added_def)
    with assms(2) show ?thesis
    proof (cases rule: msg_emits_cases)
      case (ok b2)
      with first show ?thesis by (auto simp: added_def advance_append)
    next
      case (fail msg')
      with first show ?thesis by (auto simp: added_def)
    qed
  qed
qed

subsection \<open>The arguments\<close>

text \<open>
  What a pair of argument writer and reader promises: the written value is read back at the
  same place, both consume the same part of the signature, and the reader is safe on
  anything a peer may send.
\<close>

locale msg_field =
  fixes put :: "'a \<Rightarrow> msg_writer" and take_arg :: "'a msg_reader" and part :: bytes
    and enc :: "'a \<Rightarrow> bytes" and valid :: "'a \<Rightarrow> bool"
  assumes write_emits: "valid x \<Longrightarrow> msg_emits (put x) part (enc x)"
    and read_parses: "valid x \<Longrightarrow> msg_parses take_arg part x (enc x)"
    and read_safe: "msg_safe take_arg part"
begin

text \<open>
  The value travels: \<open>s\<close> is the sender's message, \<open>r\<close> the receiver's, which holds what the
  sender's holds after the write (and perhaps more), with the cursor where the sender wrote.
\<close>

lemma travels:
  assumes "valid x" and "eb_wf (buffer s)" and "expects part s" and "put x s = Some (True, s')"
    and "eb_wf (buffer r)" and "expects part r" and "parsed r = eb_len (buffer s)"
    and "eb_contents (buffer r) = eb_contents (buffer s') @ post"
  shows "take_arg r = Some (Some x, (advance part r)\<lparr>parsed := eb_len (buffer s')\<rparr>)"
  using write_emits [OF assms(1)] assms(2,3)
proof (cases rule: msg_emits_cases)
  case (ok b')
  with assms(4) have c: "eb_contents (buffer s') = eb_contents (buffer s) @ enc x" "eb_wf (buffer s')"
    by (auto simp: added_def)
  then have "eb_len (buffer s') = eb_len (buffer s) + length (enc x)"
    using assms(2) by (metis length_eb_contents length_append)
  with msg_parsesD [OF read_parses [OF assms(1)], of r "eb_contents (buffer s)" post] c assms(2,5-8)
  show ?thesis by simp
next
  case (fail msg')
  with assms(4) show ?thesis by simp
qed

end

context egg_allocator
begin

lemma add_mem_emits:
  assumes "ptr = None \<or> n \<le> length (the ptr)"
  shows "emits (egg_buffer_add_mem h ptr n) (encode_byte_array (map_option (take n) ptr))"
proof (cases ptr)
  case None
  with add_byte_array_emits [of None] show ?thesis
    by (simp add: egg_buffer_add_mem_def length_ok_def cong: emits_cong)
next
  case (Some p)
  show ?thesis
  proof (cases "n \<ge> 0x7fffffff")
    case True
    with Some emits_fail show ?thesis by (simp add: egg_buffer_add_mem_def cong: emits_cong)
  next
    case False
    with Some assms add_byte_array_emits [of "Some (take n p)"] show ?thesis
      by (simp add: egg_buffer_add_mem_def length_ok_def mem_read_def cong: emits_cong)
  qed
qed

sublocale msg_byte: msg_field "gkm_rpc_message_write_byte h" gkm_rpc_message_read_byte "ascii ''y''"
    "\<lambda>x. [x]" "\<lambda>_. True"
  unfolding gkm_rpc_message_write_byte_def gkm_rpc_message_read_byte_def
  by unfold_locales (simp_all only: msg_add_emits [OF add_byte_emits] msg_get_parses [OF get_byte_parses]
      msg_get_safe [OF get_byte_safe])

sublocale msg_ulong: msg_field "gkm_rpc_message_write_ulong h" gkm_rpc_message_read_ulong "ascii ''u''"
    encode_uint64 "\<lambda>_. True"
  unfolding gkm_rpc_message_write_ulong_def gkm_rpc_message_read_ulong_def
  by unfold_locales (simp_all only: msg_add_emits [OF add_uint64_emits]
      msg_get_parses [OF get_uint64_parses] msg_get_safe [OF get_uint64_safe])

lemma write_version_emits:
  "msg_emits (gkm_rpc_message_write_version h v) (ascii ''v'') [major v, minor v]"
  using msg_add_seq_emits [of "[egg_buffer_add_byte h (major v), egg_buffer_add_byte h (minor v)]"
      "[[major v], [minor v]]" "''v''"]
  by (simp add: gkm_rpc_message_write_version_def [abs_def] add_byte_emits)

lemma write_space_string_emits:
  assumes "0 < n" and "n \<le> length field"
  shows "msg_emits (gkm_rpc_message_write_space_string h n field) (ascii ''s'')
    (encode_byte_array (Some (take n field)))"
  using msg_add_emits [OF add_mem_emits [of "Some field" n]] assms
  by (simp add: gkm_rpc_message_write_space_string_def [abs_def])

lemma write_zero_string_emits:
  assumes "length (c_str str) < 0x7fffffff"
  shows "msg_emits (gkm_rpc_message_write_zero_string h str) (ascii ''z'')
    (encode_byte_array (Some (c_str str)))"
  using msg_add_emits [OF add_string_emits [of "Some str"]] assms
  by (simp add: gkm_rpc_message_write_zero_string_def [abs_def] length_ok_def)

end

lemma read_version_parses:
  "msg_parses gkm_rpc_message_read_version (ascii ''v'') v [major v, minor v]"
  unfolding msg_parses_def
proof (intro allI impI)
  fix msg pre post
  assume wf: "eb_wf (buffer msg)" and e: "expects (ascii ''v'') msg"
    and c: "eb_contents (buffer msg) = pre @ [major v, minor v] @ post" and at: "parsed msg = length pre"
  let ?m = "advance (ascii ''v'') msg"
  let ?m1 = "?m\<lparr>parsed := length pre + 1\<rparr>"
  have 1: "msg_get egg_buffer_get_byte ?m = Some (Some (major v), ?m1)"
    using parses_msg_get [OF get_byte_parses, of ?m pre "major v" "minor v # post"] wf c at by simp
  have 2: "msg_get egg_buffer_get_byte ?m1 = Some (Some (minor v), ?m1\<lparr>parsed := length pre + 2\<rparr>)"
    using parses_msg_get [OF get_byte_parses, of ?m1 "pre @ [major v]" "minor v" post] wf c by simp
  from 1 2 show "gkm_rpc_message_read_version msg
      = Some (Some v, ?m\<lparr>parsed := length pre + length [major v, minor v]\<rparr>)"
    by (simp add: gkm_rpc_message_read_version_def assert_part_expects [OF e])
qed

lemma read_version_safe: "msg_safe gkm_rpc_message_read_version (ascii ''v'')"
  unfolding msg_safe_def
proof (intro allI impI)
  fix msg assume wf: "eb_wf (buffer msg)" and e: "expects (ascii ''v'') msg"
  let ?m = "advance (ascii ''v'') msg"
  have "eb_wf (buffer ?m)" using wf by simp
  from safe_msg_get [OF get_byte_safe this] obtain r m1 where 1:
    "msg_get egg_buffer_get_byte ?m = Some (r, m1)" "same_input ?m m1" "sigverify m1 = sigverify ?m" .
  from safe_msg_get [OF get_byte_safe same_input_wf [OF 1(2)]] obtain r2 m2 where 2:
    "msg_get egg_buffer_get_byte m1 = Some (r2, m2)" "same_input m1 m2" "sigverify m2 = sigverify m1" .
  from 1 2 same_input_trans [OF 1(2) 2(2)]
  show "\<exists>v msg'. gkm_rpc_message_read_version msg = Some (v, msg') \<and> same_input msg msg'
      \<and> (v \<noteq> None \<longrightarrow> sigverify msg' = sigverify ?m)"
    by (cases r; cases r2)
      (auto simp: gkm_rpc_message_read_version_def assert_part_expects [OF e])
qed

lemma read_space_string_parses:
  assumes "0 < n" and "length v = n" and "length field = n" and "n < 0x7fffffff"
  shows "msg_parses (gkm_rpc_message_read_space_string n field) (ascii ''s'') v
    (encode_byte_array (Some v))"
  unfolding msg_parses_def
proof (intro allI impI)
  fix msg pre post
  assume wf: "eb_wf (buffer msg)" and e: "expects (ascii ''s'') msg"
    and c: "eb_contents (buffer msg) = pre @ encode_byte_array (Some v) @ post"
    and at: "parsed msg = length pre"
  have "length_ok (Some v)" using assms by (simp add: length_ok_def)
  from parses_msg_get [OF get_byte_array_parses [OF this], of "advance (ascii ''s'') msg"] wf c at assms
  show "gkm_rpc_message_read_space_string n field msg = Some (Some v, (advance (ascii ''s'') msg)
      \<lparr>parsed := length pre + length (encode_byte_array (Some v))\<rparr>)"
    by (simp add: gkm_rpc_message_read_space_string_def assert_part_expects [OF e] mem_write_def)
qed

lemma read_space_string_safe:
  assumes "0 < n" and "n \<le> length field"
  shows "msg_safe (gkm_rpc_message_read_space_string n field) (ascii ''s'')"
  unfolding msg_safe_def
proof (intro allI impI)
  fix msg assume wf: "eb_wf (buffer msg)" and e: "expects (ascii ''s'') msg"
  let ?m = "advance (ascii ''s'') msg"
  have "eb_wf (buffer ?m)" using wf by simp
  from safe_msg_get [OF get_byte_array_safe this] obtain r m1 where
    "msg_get egg_buffer_get_byte_array ?m = Some (r, m1)" "same_input ?m m1"
    "sigverify m1 = sigverify ?m" .
  with assms show "\<exists>v msg'. gkm_rpc_message_read_space_string n field msg = Some (v, msg')
      \<and> same_input msg msg' \<and> (v \<noteq> None \<longrightarrow> sigverify msg' = sigverify ?m)"
    by (cases r) (auto simp: gkm_rpc_message_read_space_string_def assert_part_expects [OF e]
        mem_write_def Let_def split: option.splits)
qed

context egg_allocator
begin

sublocale msg_version: msg_field "gkm_rpc_message_write_version h" gkm_rpc_message_read_version
    "ascii ''v''" "\<lambda>v. [major v, minor v]" "\<lambda>_. True"
  by unfold_locales (rule write_version_emits read_version_parses read_version_safe)+

lemma space_string_field:
  assumes "0 < n" and "n < 0x7fffffff" and "length field = n"
  shows "msg_field (gkm_rpc_message_write_space_string h n) (gkm_rpc_message_read_space_string n field)
    (ascii ''s'') (\<lambda>v. encode_byte_array (Some v)) (\<lambda>v. length v = n)"
proof unfold_locales
  fix v :: bytes assume "length v = n"
  with assms write_space_string_emits [of n v] show "msg_emits (gkm_rpc_message_write_space_string h n v)
      (ascii ''s'') (encode_byte_array (Some v))" by simp
qed (use assms read_space_string_parses read_space_string_safe in auto)

end

subsection \<open>Preparing and parsing\<close>

lemma reset_buffer:
  assumes "eb_wf b"
  obtains b' where "egg_buffer_reset b = Some b'" and "eb_wf b'" and "eb_contents b' = []"
    and "eb_failures b' = 0" and "eb_allocator b' = eb_allocator b"
  using assms by (cases "eb_buf b")
    (auto simp: egg_buffer_reset_def eb_store_def mem_write_def eb_wf_def eb_contents_def)

text \<open>The type letters of the table's comment, with their array and buffer prefixes.\<close>

fun sig_parts :: "bytes \<Rightarrow> bool" where
  "sig_parts [] \<longleftrightarrow> True"
| "sig_parts (c # cs) \<longleftrightarrow>
     (if c = of_char (CHR ''a'') \<or> c = of_char (CHR ''f'')
      then (case cs of [] \<Rightarrow> False | d # ds \<Rightarrow> d \<in> set (ascii ''Auy'') \<and> sig_parts ds)
      else c \<in> set (ascii ''Musvyz'') \<and> sig_parts cs)"

definition call_ok :: "nat \<Rightarrow> GkmRpcCall \<Rightarrow> bool" where
  "call_ok i c \<longleftrightarrow> rpc_call_id c = i
     \<and> (case rpc_request c of None \<Rightarrow> i = GKM_RPC_CALL_ERROR
         | Some s \<Rightarrow> i \<noteq> GKM_RPC_CALL_ERROR \<and> sig_parts s \<and> length s < 32)
     \<and> (case rpc_response c of None \<Rightarrow> i = GKM_RPC_CALL_ERROR
         | Some s \<Rightarrow> i \<noteq> GKM_RPC_CALL_ERROR \<and> sig_parts s \<and> length s < 32)"

fun calls_ok :: "nat \<Rightarrow> GkmRpcCall list \<Rightarrow> bool" where
  "calls_ok i [] \<longleftrightarrow> i = GKM_RPC_CALL_MAX"
| "calls_ok i (c # cs) \<longleftrightarrow> call_ok i c \<and> calls_ok (Suc i) cs"

lemma calls_ok_table: "calls_ok 0 gkm_rpc_calls"
  by code_simp

lemma calls_ok_nth: "calls_ok i cs \<Longrightarrow> i + length cs = GKM_RPC_CALL_MAX \<and> (\<forall>j < length cs. call_ok (i + j) (cs ! j))"
proof (induction i cs rule: calls_ok.induct)
  case (2 i c cs)
  then show ?case by (auto simp: nth_Cons split: nat.splits)
qed simp

lemma table_call: "i < GKM_RPC_CALL_MAX \<Longrightarrow> call_ok i (gkm_rpc_calls ! i)"
  using calls_ok_nth [OF calls_ok_table] by auto

lemma call_signature_some:
  assumes "0 < i" and "i < GKM_RPC_CALL_MAX" and "type \<noteq> GKM_RPC_NONE"
  obtains sg where "call_signature i type = Some (Some sg)" and "length sg < 32" and "sig_parts sg"
  using table_call [OF assms(2)] assms
  by (cases type) (auto simp: call_ok_def call_signature_def GKM_RPC_CALL_ERROR_def split: option.splits)

lemma small_call_word: "i < GKM_RPC_CALL_MAX \<Longrightarrow> unat (word_of_nat i :: 32 word) = i"
  by (rule unat_of_nat_small) (simp add: GKM_RPC_CALL_MAX_def)

text \<open>The buffer of a message without what is in it.\<close>

definition emptied :: "EggBuffer \<Rightarrow> EggBuffer" where
  "emptied b = egg_buffer_zero\<lparr>eb_allocator := eb_allocator b\<rparr>"

lemma emptied_simps [simp]:
  "eb_contents (emptied b) = []" "eb_failures (emptied b) = 0" "eb_allocator (emptied b) = eb_allocator b"
  by (simp_all add: emptied_def egg_buffer_zero_def eb_contents_def)

context egg_allocator
begin

text \<open>What preparing a message for a call leaves in its buffer.\<close>

lemma prep_contents:
  assumes "eb_wf (buffer m)" and "0 < i" and "i < GKM_RPC_CALL_MAX"
    and "call_signature i type = Some (Some sg)" and "length sg < 32"
  obtains ok m' where "gkm_rpc_message_prep h (int i) type m = Some (ok, m')"
    and "added (emptied (buffer m)) ok (buffer m') (egg_buffer_encode_uint32 (word_of_nat i) @ encode_byte_array (Some sg))"
    and "call_id m' = int i" "call_type m' = type" "signature m' = Some sg" "sigverify m' = Some sg"
    and "parsed m' = 0"
proof -
  obtain b0 where b0: "egg_buffer_reset (buffer m) = Some b0" "eb_wf b0" "eb_contents b0 = []"
    "eb_failures b0 = 0" "eb_allocator b0 = eb_allocator (buffer m)" using reset_buffer [OF assms(1)] .
  have "list_all2 emits [egg_buffer_add_uint32 h (word_of_nat i), egg_buffer_add_byte_array h (Some sg)]
      [egg_buffer_encode_uint32 (word_of_nat i), encode_byte_array (Some sg)]"
    using assms(5) by (simp add: add_uint32_emits add_byte_array_emits length_ok_def)
  from add_seq_added [OF this b0(2)] obtain b' where b': "add_seq
      [egg_buffer_add_uint32 h (word_of_nat i), egg_buffer_add_byte_array h (Some sg)] b0 = Some b'"
    "eb_wf b'" "eb_failures b' = 0 \<longrightarrow> eb_contents b' = egg_buffer_encode_uint32 (word_of_nat i) @ encode_byte_array (Some sg)"
    "eb_allocator b' = eb_allocator (buffer m)"
    using b0(3,4,5) by auto
  obtain o1 b1 where 1: "egg_buffer_add_uint32 h (word_of_nat i) b0 = Some (o1, b1)"
    using b'(1) by (cases "egg_buffer_add_uint32 h (word_of_nat i) b0") auto
  have "(egg_buffer_add_byte_array h (Some sg) b1 \<bind> (\<lambda>(ok, b). add_seq [] b)) = Some b'"
    using b'(1) [unfolded add_seq.simps] 1 by simp
  then obtain o2 where 2: "egg_buffer_add_byte_array h (Some sg) b1 = Some (o2, b')"
    by (cases "egg_buffer_add_byte_array h (Some sg) b1") (simp, force)
  have t: "type \<noteq> GKM_RPC_NONE" using assms(4) by (auto simp: call_signature_def)
  have w: "word_of_int (int i) = (word_of_nat i :: 32 word)" by simp
  let ?m' = "m\<lparr>call_id := int i, call_type := type, signature := Some sg, sigverify := Some sg,
        parsed := 0, buffer := b'\<rparr>"
  have "gkm_rpc_message_prep h (int i) type m = Some (\<not> egg_buffer_has_error b', ?m')"
    using t assms(2-4) b0(1) 1 2
    by (simp add: gkm_rpc_message_prep_def gkm_rpc_message_reset_def GKM_RPC_CALL_ERROR_def w)
  moreover have "added (emptied (buffer m)) (\<not> egg_buffer_has_error b') b'
      (egg_buffer_encode_uint32 (word_of_nat i) @ encode_byte_array (Some sg))"
    using b' by (auto simp: added_def egg_buffer_has_error_def)
  ultimately show thesis by (intro that [of "\<not> egg_buffer_has_error b'" ?m']) simp_all
qed

end

lemma parse_prepared:
  assumes "eb_wf (buffer r)" and "0 < i" and "i < GKM_RPC_CALL_MAX" and "length sg < 32"
    and "call_signature i type = Some (Some sg)"
    and "eb_contents (buffer r)
      = egg_buffer_encode_uint32 (word_of_nat i) @ encode_byte_array (Some sg) @ args"
  shows "gkm_rpc_message_parse type r = Some (True, r\<lparr>call_id := int i, call_type := type,
    signature := Some sg, sigverify := Some sg, parsed := 8 + length sg\<rparr>)"
proof -
  let ?r0 = "r\<lparr>parsed := 0\<rparr>"
  have 1: "msg_get egg_buffer_get_uint32 ?r0 = Some (Some (word_of_nat i), r\<lparr>parsed := 4\<rparr>)"
    using parses_msg_get [OF get_uint32_parses, of ?r0 "[]"] assms(1,6) by simp
  let ?r1 = "r\<lparr>parsed := 4, signature := Some sg, call_id := int i, call_type := type, sigverify := Some sg\<rparr>"
  have "length_ok (Some sg)" using assms(4) by (simp add: length_ok_def)
  from parses_msg_get [OF get_byte_array_parses [OF this], of ?r1 "egg_buffer_encode_uint32 (word_of_nat i)" args]
  have 2: "msg_get egg_buffer_get_byte_array ?r1 = Some (Some (Some sg), ?r1\<lparr>parsed := 8 + length sg\<rparr>)"
    using assms(1,6) by (simp add: encode_byte_array_def)
  have i: "unat (word_of_nat i :: 32 word) = i" using small_call_word [OF assms(3)] .
  then have "\<not> (word_of_nat i :: 32 word) \<le> 0" using assms(2) by (auto simp: word_le_nat_alt)
  with 1 2 i assms(2,3,5) show ?thesis
    by (simp add: gkm_rpc_message_parse_def GKM_RPC_CALL_ERROR_def Let_def)
qed

text \<open>C36: Preparing a message for any call of the table never fails an assertion, and what it writes is
  accepted by the other side: parsing a message that starts with those bytes succeeds,
  names the same call, sets the signature of the table to be verified in full, and leaves the
  cursor at the first argument.\<close>

theorem gkm_rpc_message_prep_parse:
  assumes "egg_allocator h" and "eb_wf (buffer m)" and "0 < i" and "i < GKM_RPC_CALL_MAX"
    and "type \<noteq> GKM_RPC_NONE"
  shows "\<exists>ok m' sg. gkm_rpc_message_prep h (int i) type m = Some (ok, m')
    \<and> call_signature i type = Some (Some sg) \<and> signature m' = Some sg \<and> sigverify m' = Some sg
    \<and> (ok \<longrightarrow> (\<forall>r args. eb_wf (buffer r) \<longrightarrow> eb_contents (buffer r) = eb_contents (buffer m') @ args \<longrightarrow>
         gkm_rpc_message_parse type r = Some (True, r\<lparr>call_id := int i, call_type := type,
           signature := Some sg, sigverify := Some sg, parsed := eb_len (buffer m')\<rparr>)))"
proof -
  obtain sg where sg: "call_signature i type = Some (Some sg)" "length sg < 32"
    using call_signature_some [OF assms(3-5)] .
  obtain ok m' where m': "gkm_rpc_message_prep h (int i) type m = Some (ok, m')"
    "added (emptied (buffer m)) ok (buffer m') (egg_buffer_encode_uint32 (word_of_nat i) @ encode_byte_array (Some sg))"
    "signature m' = Some sg" "sigverify m' = Some sg"
    using egg_allocator.prep_contents [OF assms(1-4) sg] by metis
  have "gkm_rpc_message_parse type r = Some (True, r\<lparr>call_id := int i, call_type := type,
      signature := Some sg, sigverify := Some sg, parsed := eb_len (buffer m')\<rparr>)"
    if ok "eb_wf (buffer r)" "eb_contents (buffer r) = eb_contents (buffer m') @ args" for r args
  proof -
    have c: "eb_contents (buffer m') = egg_buffer_encode_uint32 (word_of_nat i) @ encode_byte_array (Some sg)"
      "eb_wf (buffer m')" using m'(2) \<open>ok\<close> by (auto simp: added_def)
    then have "eb_len (buffer m') = 8 + length sg"
      using length_eb_contents [OF c(2)] by (simp add: encode_byte_array_def)
    with parse_prepared [OF that(2) assms(3,4) sg(2,1), of args] that(3) c show ?thesis by simp
  qed
  with sg m' show ?thesis by blast
qed

definition sample_msg :: GkmRpcMessage where
  "sample_msg = \<lparr>call_id = 0, call_type = GKM_RPC_NONE, signature = None,
     buffer = snd (egg_buffer_init libc_realloc 64), parsed = 0, sigverify = None\<rparr>"

lemma sample_msg_wf: "eb_wf (buffer sample_msg)"
  by (simp add: sample_msg_def eb_eval)

lemma sample_prep: "\<exists>m'. gkm_rpc_message_prep libc_realloc 2 GKM_RPC_REQUEST sample_msg = Some (True, m')"
proof -
  have "call_signature 2 GKM_RPC_REQUEST = Some (Some [])" by code_simp
  then show ?thesis
    by (simp add: gkm_rpc_message_prep_def gkm_rpc_message_reset_def egg_buffer_reset_def sample_msg_def
        eb_eval GKM_RPC_CALL_ERROR_def GKM_RPC_CALL_MAX_def egg_buffer_has_error_def)
qed

theorem gkm_rpc_message_prep_parse_witness:
  "\<exists>m' r'. gkm_rpc_message_prep libc_realloc 2 GKM_RPC_REQUEST sample_msg = Some (True, m')
     \<and> gkm_rpc_message_parse GKM_RPC_REQUEST m' = Some (True, r') \<and> call_id r' = 2"
proof -
  obtain m' where m': "gkm_rpc_message_prep libc_realloc (int 2) GKM_RPC_REQUEST sample_msg = Some (True, m')"
    using sample_prep by auto
  have "2 < GKM_RPC_CALL_MAX" by (simp add: GKM_RPC_CALL_MAX_def)
  from egg_allocator.prep_contents [OF egg_allocator_libc sample_msg_wf _ this, of GKM_RPC_REQUEST "[]"] m'
  have "eb_wf (buffer m')" by (auto simp: added_def call_signature_def gkm_rpc_calls_def rpc_call_def sig_def ascii_def)
  with gkm_rpc_message_prep_parse [OF egg_allocator_libc sample_msg_wf _ \<open>2 < GKM_RPC_CALL_MAX\<close>,
      of GKM_RPC_REQUEST] m' show ?thesis by fastforce
qed

text \<open>What a reader found is what is in the buffer.\<close>

lemma load_contents:
  assumes "eb_wf b" and "off + n \<le> eb_len b" and "eb_load off n b = Some p"
  shows "length p = n" and "drop off (eb_contents b) = p @ drop (off + n) (eb_contents b)"
proof -
  have p: "p = take n (drop off (eb_contents b))"
    using assms by (auto simp: eb_load_def eb_wf_def eb_contents_def mem_read_def take_drop split: option.splits if_splits)
  with assms(1,2) show "length p = n" by simp
  show "drop off (eb_contents b) = p @ drop (off + n) (eb_contents b)"
    unfolding p by (metis add.commute append_take_drop_id drop_drop)
qed

lemma get_uint32_reads:
  assumes "eb_wf b" and "egg_buffer_get_uint32 b off = Some (Some (v, after), b')"
  shows "b' = b" and "after = off + 4" and "drop off (eb_contents b) = egg_buffer_encode_uint32 v @ drop after (eb_contents b)"
proof -
  from assms(2) obtain p where p: "eb_load off 4 b = Some p" "v = egg_buffer_decode_uint32 p" and r: "b' = b" "after = off + 4"
    and n: "off + 4 \<le> eb_len b"
    by (auto simp: egg_buffer_get_uint32_def split: if_splits Option.bind_splits)
  note l = load_contents [OF assms(1) n p(1)]
  from l(1) obtain w x y z where "p = [w, x, y, z]" by (auto simp: numeral_eq_Suc length_Suc_conv)
  then have "egg_buffer_encode_uint32 v = p" using p(2) encode_decode_uint32 [of w x y z] by simp
  with l(2) r show "b' = b" "after = off + 4" "drop off (eb_contents b) = egg_buffer_encode_uint32 v @ drop after (eb_contents b)" by simp_all
qed

lemma get_byte_array_reads:
  assumes "eb_wf b" and "egg_buffer_get_byte_array b off = Some (Some (val, after), b')"
  shows "drop off (eb_contents b) = encode_byte_array val @ drop after (eb_contents b)"
proof -
  from assms(2) obtain n off1 b1 where n: "egg_buffer_get_uint32 b off = Some (Some (n, off1), b1)"
    by (auto simp: egg_buffer_get_byte_array_def split: Option.bind_splits option.splits)
  note g = get_uint32_reads [OF assms(1) n]
  show ?thesis
  proof (cases "n = 0xffffffff")
    case True
    with assms(2) n g show ?thesis by (simp add: egg_buffer_get_byte_array_def encode_byte_array_def)
  next
    case False
    with assms(2) n g obtain v where v: "eb_load off1 (unat n) b = Some v" "val = Some v" "after = off1 + unat n" "off1 + unat n \<le> eb_len b"
      by (auto simp: egg_buffer_get_byte_array_def split: if_splits Option.bind_splits)
    note l = load_contents [OF assms(1) v(4,1)]
    have "word_of_nat (length v) = n" using l(1) by simp
    with g(3) l(2) v(2,3) show ?thesis by (simp add: encode_byte_array_def)
  qed
qed

text \<open>C37: parsing a message is safe on whatever a peer sends: no assertion fails and nothing outside the
  buffer is read. A request is accepted only if its bytes are the number of a call of the table and
  then exactly the table's signature for that call (for a call with an empty signature the absent byte array is taken for
  it, too); that signature is then to be verified in full.\<close>

theorem gkm_rpc_message_parse_safe:
  assumes "eb_wf (buffer r)" and "type \<noteq> GKM_RPC_NONE"
  shows "\<exists>ok r'. gkm_rpc_message_parse type r = Some (ok, r')
    \<and> eb_contents (buffer r') = eb_contents (buffer r) \<and> eb_wf (buffer r')
    \<and> (ok \<and> type = GKM_RPC_REQUEST \<longrightarrow>
        (\<exists>i sg sent rest. 0 < i \<and> i < GKM_RPC_CALL_MAX \<and> call_id r' = int i \<and> call_type r' = type
          \<and> call_signature i type = Some (Some sg) \<and> signature r' = Some sg \<and> sigverify r' = Some sg
          \<and> eb_contents (buffer r) = egg_buffer_encode_uint32 (word_of_nat i) @ encode_byte_array sent @ rest
          \<and> (sent = Some sg \<or> sent = None \<and> sg = [])))"
proof -
  have "eb_wf (buffer (r\<lparr>parsed := 0\<rparr>))" using assms(1) by simp
  from safe_msg_get [OF get_uint32_safe this] obtain v m where v:
    "msg_get egg_buffer_get_uint32 (r\<lparr>parsed := 0\<rparr>) = Some (v, m)" "same_input (r\<lparr>parsed := 0\<rparr>) m" .
  then have m: "eb_wf (buffer m)" "eb_contents (buffer m) = eb_contents (buffer r)"
    by (auto simp: same_input_def)
  show ?thesis
  proof (cases "\<exists>cid. v = Some cid \<and> 0 < unat cid \<and> unat cid < GKM_RPC_CALL_MAX")
    case False
    with v m show ?thesis
      by (cases v) (auto simp: gkm_rpc_message_parse_def Let_def GKM_RPC_CALL_ERROR_def
          word_le_nat_alt unat_eq_zero)
  next
    case True
    then obtain cid where cid: "v = Some cid" "0 < unat cid" "unat cid < GKM_RPC_CALL_MAX" by blast
    then have nz: "\<not> cid \<le> 0" by (auto simp: word_le_nat_alt)
    have start: "drop 0 (eb_contents (buffer r)) = egg_buffer_encode_uint32 cid @ drop (parsed m) (eb_contents (buffer r))"
      using v(1) cid(1) get_uint32_reads(3) [OF assms(1), of 0 cid "parsed m"]
      by (auto simp: msg_get_def split: Option.bind_splits option.splits)
    obtain sg where sg: "call_signature (unat cid) type = Some (Some sg)"
      using call_signature_some [OF cid(2,3) assms(2)] by metis
    let ?m2 = "m\<lparr>signature := Some sg, call_id := int (unat cid), call_type := type, sigverify := Some sg\<rparr>"
    have "eb_wf (buffer ?m2)" using m by simp
    from safe_msg_get [OF get_byte_array_safe this] obtain r2 m3 where r2:
      "msg_get egg_buffer_get_byte_array ?m2 = Some (r2, m3)" "same_input ?m2 m3"
      "sigverify m3 = sigverify ?m2" .
    have t: "call_type m3 = type"
      using r2(1) by (auto simp: msg_get_def split: Option.bind_splits option.splits)
    have parse: "gkm_rpc_message_parse type r = Some (case r2 of None \<Rightarrow> False
        | Some sent \<Rightarrow> (case sent of None \<Rightarrow> [] | Some x \<Rightarrow> x) = sg, m3)"
      using v cid nz sg r2(1)
      by (cases r2) (auto simp: gkm_rpc_message_parse_def Let_def GKM_RPC_CALL_ERROR_def split: option.splits)
    have "drop (parsed m) (eb_contents (buffer m)) = encode_byte_array sent @ drop (parsed m3) (eb_contents (buffer m))"
      if "r2 = Some sent" for sent
      using r2(1) that get_byte_array_reads [OF m(1), of "parsed m" sent "parsed m3"]
      by (auto simp: msg_get_def split: Option.bind_splits option.splits)
    then have sent: "eb_contents (buffer r) = egg_buffer_encode_uint32 (word_of_nat (unat cid)) @ encode_byte_array sent
        @ drop (parsed m3) (eb_contents (buffer r))" if "r2 = Some sent" for sent
      using start m(2) that by simp
    have acc: "\<exists>sent rest. eb_contents (buffer r) = egg_buffer_encode_uint32 (word_of_nat (unat cid)) @ encode_byte_array sent @ rest
        \<and> (sent = Some sg \<or> sent = None \<and> sg = [])"
      if ok: "case r2 of None \<Rightarrow> False | Some sent \<Rightarrow> (case sent of None \<Rightarrow> [] | Some x \<Rightarrow> x) = sg"
    proof -
      from ok obtain x where x: "r2 = Some x" "x = Some sg \<or> x = None \<and> sg = []" by (auto split: option.splits)
      from sent [OF x(1)] x(2) show ?thesis by blast
    qed
    show ?thesis
      by (intro exI conjI, rule parse) (use m cid sg r2(2,3) t acc in \<open>auto simp: same_input_def\<close>)
  qed
qed

theorem gkm_rpc_message_parse_safe_witness:
  "\<exists>ok r'. gkm_rpc_message_parse GKM_RPC_REQUEST
       (sample_msg\<lparr>buffer := egg_buffer_init_static [0, 0, 0, 99, 1]\<rparr>) = Some (ok, r')"
proof -
  have "eb_wf (buffer (sample_msg\<lparr>buffer := egg_buffer_init_static [0, 0, 0, 99, 1]\<rparr>))"
    by (simp add: eb_wf_def egg_buffer_init_static_def)
  from gkm_rpc_message_parse_safe [OF this, of GKM_RPC_REQUEST] show ?thesis by auto
qed

end
