(* ===== verification/RpcProto.thy ===== *)
theory RpcProto
  imports RpcMessage
begin

text \<open>
  The argument codecs of the two ends of the PKCS\#11 RPC protocol: the daemon
  (\<^verbatim>\<open>pkcs11/rpc-layer/gkm-rpc-dispatch.c\<close>, names \<open>dispatch_\<close>) and the client module
  (\<^verbatim>\<open>gkm-rpc-module.c\<close>, names \<open>module_\<close>), with the daemon's per-call memory.

  A codec returns the \<^verbatim>\<open>CK_RV\<close>, the values stored through the out parameters (\<open>None\<close> where the
  call returns before storing them) and the new state; the outer \<open>None\<close> is a fault. The
  heap \<open>h\<close> also stands for \<^verbatim>\<open>malloc\<close>.
\<close>

subsection \<open>Return values\<close>

type_synonym CK_RV = "64 word"

definition CKR_OK :: CK_RV where "CKR_OK = 0"
definition CKR_HOST_MEMORY :: CK_RV where "CKR_HOST_MEMORY = 2"
definition CKR_GENERAL_ERROR :: CK_RV where "CKR_GENERAL_ERROR = 5"
definition CKR_ARGUMENTS_BAD :: CK_RV where "CKR_ARGUMENTS_BAD = 7"
definition CKR_CANT_LOCK :: CK_RV where "CKR_CANT_LOCK = 0xa"
definition CKR_ATTRIBUTE_SENSITIVE :: CK_RV where "CKR_ATTRIBUTE_SENSITIVE = 0x11"
definition CKR_ATTRIBUTE_TYPE_INVALID :: CK_RV where "CKR_ATTRIBUTE_TYPE_INVALID = 0x12"
definition CKR_DEVICE_ERROR :: CK_RV where "CKR_DEVICE_ERROR = 0x30"
definition CKR_DEVICE_MEMORY :: CK_RV where "CKR_DEVICE_MEMORY = 0x31"
definition CKR_DEVICE_REMOVED :: CK_RV where "CKR_DEVICE_REMOVED = 0x32"
definition CKR_MECHANISM_INVALID :: CK_RV where "CKR_MECHANISM_INVALID = 0x70"
definition CKR_BUFFER_TOO_SMALL :: CK_RV where "CKR_BUFFER_TOO_SMALL = 0x150"
definition CKR_CRYPTOKI_NOT_INITIALIZED :: CK_RV where "CKR_CRYPTOKI_NOT_INITIALIZED = 0x190"
definition CKR_CRYPTOKI_ALREADY_INITIALIZED :: CK_RV where "CKR_CRYPTOKI_ALREADY_INITIALIZED = 0x191"

abbreviation "PARSE_ERROR \<equiv> CKR_DEVICE_ERROR"
abbreviation "PREP_ERROR \<equiv> CKR_DEVICE_MEMORY"

lemmas ckr_defs = CKR_OK_def CKR_HOST_MEMORY_def CKR_ATTRIBUTE_SENSITIVE_def
  CKR_ATTRIBUTE_TYPE_INVALID_def CKR_DEVICE_ERROR_def CKR_DEVICE_MEMORY_def
  CKR_MECHANISM_INVALID_def CKR_BUFFER_TOO_SMALL_def CKR_GENERAL_ERROR_def CKR_ARGUMENTS_BAD_def
  CKR_CANT_LOCK_def CKR_DEVICE_REMOVED_def CKR_CRYPTOKI_NOT_INITIALIZED_def
  CKR_CRYPTOKI_ALREADY_INITIALIZED_def

subsection \<open>The daemon's call state\<close>

text \<open>
  \<open>allocated\<close> is the chain of memory blocks of the call, by their sizes, newest first;
  \<open>application\<close> is the identifier in the \<^verbatim>\<open>CK_G_APPLICATION\<close> of the connection, whose data pointer
  is the call state itself.
\<close>

record CallState =
  req :: GkmRpcMessage
  resp :: GkmRpcMessage
  allocated :: "nat list"
  application :: CK_ULONG

definition call_init :: "heap \<Rightarrow> CallState option option" where
  "call_init h = do {
     rq \<leftarrow> gkm_rpc_message_new h Default_allocator;
     rs \<leftarrow> gkm_rpc_message_new h Default_allocator;
     case (rq, rs) of
       (Some a, Some b) \<Rightarrow> Some (Some \<lparr>req = a, resp = b, allocated = [], application = 0\<rparr>)
     | _ \<Rightarrow> do {
         f1 \<leftarrow> gkm_rpc_message_free rq;
         f2 \<leftarrow> gkm_rpc_message_free rs;
         Some None
       }
   }"

text \<open>The block returned is filled with \<open>0xff\<close>; a pointer to the next block lies in front of it.\<close>

definition call_alloc :: "heap \<Rightarrow> nat \<Rightarrow> CallState \<Rightarrow> bytes option \<times> CallState" where
  "call_alloc h len cs =
     (if len > 0x7fffffff then (None, cs)
      else case h Default_allocator None (8 + len) of
             None \<Rightarrow> (None, cs)
           | Some m \<Rightarrow> (Some (replicate len 0xff), cs\<lparr>allocated := (8 + len) # allocated cs\<rparr>))"

definition call_reset :: "CallState \<Rightarrow> CallState option" where
  "call_reset cs = do {
     rq \<leftarrow> gkm_rpc_message_reset (req cs);
     rs \<leftarrow> gkm_rpc_message_reset (resp cs);
     Some (cs\<lparr>allocated := [], req := rq, resp := rs\<rparr>)
   }"

definition call_uninit :: "CallState \<Rightarrow> (bytes option \<times> bytes option) option" where
  "call_uninit cs = do {
     cs1 \<leftarrow> call_reset cs;
     f1 \<leftarrow> gkm_rpc_message_free (Some (req cs1));
     f2 \<leftarrow> gkm_rpc_message_free (Some (resp cs1));
     Some (f1, f2)
   }"

subsection \<open>The daemon's codecs\<close>

definition dispatch_proto_read_byte_buffer ::
    "heap \<Rightarrow> CallState \<Rightarrow> (CK_RV \<times> (bytes option \<times> CK_ULONG) option \<times> CallState) option" where
  "dispatch_proto_read_byte_buffer h cs = do {
     m \<leftarrow> assert_part ''fy'' (req cs);
     (r, m1) \<leftarrow> msg_get egg_buffer_get_uint32 m;
     let cs1 = cs\<lparr>req := m1\<rparr>;
     case r of
       None \<Rightarrow> Some (PARSE_ERROR, None, cs1)
     | Some len \<Rightarrow>
         if len = 0 then Some (CKR_OK, Some (None, 0), cs1)
         else (case call_alloc h (unat len) cs1 of
                 (None, cs2) \<Rightarrow> Some (CKR_DEVICE_MEMORY, Some (None, ucast len), cs2)
               | (Some p, cs2) \<Rightarrow> Some (CKR_OK, Some (Some p, ucast len), cs2))
   }"

definition dispatch_proto_read_byte_array ::
    "CallState \<Rightarrow> (CK_RV \<times> (bytes option \<times> CK_ULONG) option \<times> CallState) option" where
  "dispatch_proto_read_byte_array cs = do {
     m \<leftarrow> assert_part ''ay'' (req cs);
     (r, m1) \<leftarrow> msg_get egg_buffer_get_byte m;
     case r of
       None \<Rightarrow> Some (PARSE_ERROR, None, cs\<lparr>req := m1\<rparr>)
     | Some valid \<Rightarrow>
         if valid = 0 then Some (CKR_OK, Some (None, 0), cs\<lparr>req := m1\<rparr>)
         else do {
           (r2, m2) \<leftarrow> msg_get egg_buffer_get_byte_array m1;
           case r2 of
             None \<Rightarrow> Some (PARSE_ERROR, None, cs\<lparr>req := m2\<rparr>)
           | Some data \<Rightarrow>
               Some (CKR_OK, Some (data, word_of_nat (case data of None \<Rightarrow> 0 | Some d \<Rightarrow> length d)),
                     cs\<lparr>req := m2\<rparr>)
         }
   }"

definition dispatch_proto_write_byte_array ::
    "heap \<Rightarrow> bytes option \<Rightarrow> CK_ULONG \<Rightarrow> CK_RV \<Rightarrow> CallState \<Rightarrow> (CK_RV \<times> CallState) option" where
  "dispatch_proto_write_byte_array h array len ret cs =
     (if ret = CKR_BUFFER_TOO_SMALL \<or> ret = CKR_OK then do {
        let array' = (if ret = CKR_BUFFER_TOO_SMALL then None else array);
        (ok, m) \<leftarrow> gkm_rpc_message_write_byte_array h array' len (resp cs);
        Some (if ok then CKR_OK else PREP_ERROR, cs\<lparr>resp := m\<rparr>)
      }
      else Some (ret, cs))"

text \<open>The buffer of \<open>length\<close> longs, eight bytes each.\<close>

definition dispatch_proto_read_ulong_buffer ::
    "heap \<Rightarrow> CallState \<Rightarrow> (CK_RV \<times> (CK_ULONG list option \<times> CK_ULONG) option \<times> CallState) option" where
  "dispatch_proto_read_ulong_buffer h cs = do {
     m \<leftarrow> assert_part ''fu'' (req cs);
     (r, m1) \<leftarrow> msg_get egg_buffer_get_uint32 m;
     let cs1 = cs\<lparr>req := m1\<rparr>;
     case r of
       None \<Rightarrow> Some (PARSE_ERROR, None, cs1)
     | Some len \<Rightarrow>
         if len = 0 then Some (CKR_OK, Some (None, 0), cs1)
         else (case call_alloc h (size_mul (unat len) 8) cs1 of
                 (None, cs2) \<Rightarrow> Some (CKR_DEVICE_MEMORY, Some (None, ucast len), cs2)
               | (Some p, cs2) \<Rightarrow>
                   Some (CKR_OK, Some (Some (replicate (length p div 8) (- 1)), ucast len), cs2))
   }"

definition dispatch_proto_write_ulong_array ::
    "heap \<Rightarrow> CK_ULONG list option \<Rightarrow> CK_ULONG \<Rightarrow> CK_RV \<Rightarrow> CallState \<Rightarrow> (CK_RV \<times> CallState) option" where
  "dispatch_proto_write_ulong_array h array len ret cs =
     (if ret = CKR_BUFFER_TOO_SMALL \<or> ret = CKR_OK then do {
        let array' = (if ret = CKR_BUFFER_TOO_SMALL then None else array);
        (ok, m) \<leftarrow> gkm_rpc_message_write_ulong_array h array' len (resp cs);
        Some (if ok then CKR_OK else PREP_ERROR, cs\<lparr>resp := m\<rparr>)
      }
      else Some (ret, cs))"

text \<open>
  The loops over attributes. \<open>attrs\<close> is the array in the allocated block (24 bytes each),
  \<open>i\<close> the index, the first argument the number of rounds left; storing past the array
  faults.
\<close>

definition empty_attr :: CK_ATTRIBUTE where
  "empty_attr = \<lparr>attr_type = - 1, pValue = None, ulValueLen = - 1\<rparr>"

fun read_attribute_buffers :: "heap \<Rightarrow> nat \<Rightarrow> nat \<Rightarrow> CK_ATTRIBUTE list \<Rightarrow> CallState
    \<Rightarrow> (CK_RV \<times> CK_ATTRIBUTE list \<times> CallState) option" where
  "read_attribute_buffers h 0 i attrs cs = Some (CKR_OK, attrs, cs)"
| "read_attribute_buffers h (Suc n) i attrs cs = do {
     (r, m1) \<leftarrow> msg_get egg_buffer_get_uint32 (req cs);
     case r of
       None \<Rightarrow> Some (PARSE_ERROR, attrs, cs\<lparr>req := m1\<rparr>)
     | Some type \<Rightarrow> do {
         (r2, m2) \<leftarrow> msg_get egg_buffer_get_uint32 m1;
         let cs2 = cs\<lparr>req := m2\<rparr>;
         if i < length attrs then
           (case r2 of
              None \<Rightarrow> Some (PARSE_ERROR, attrs, cs2)
            | Some value \<Rightarrow>
                if value = 0
                then read_attribute_buffers h n (Suc i)
                       (attrs[i := \<lparr>attr_type = ucast type, pValue = None, ulValueLen = 0\<rparr>]) cs2
                else (case call_alloc h (unat value) cs2 of
                        (None, cs3) \<Rightarrow> Some (CKR_DEVICE_MEMORY, attrs, cs3)
                      | (Some p, cs3) \<Rightarrow>
                          read_attribute_buffers h n (Suc i)
                            (attrs[i := \<lparr>attr_type = ucast type, pValue = Some p,
                                         ulValueLen = ucast value\<rparr>]) cs3))
         else None
       }
   }"

definition dispatch_proto_read_attribute_buffer ::
    "heap \<Rightarrow> CallState \<Rightarrow> (CK_RV \<times> (CK_ATTRIBUTE list \<times> CK_ULONG) option \<times> CallState) option" where
  "dispatch_proto_read_attribute_buffer h cs = do {
     m \<leftarrow> assert_part ''fA'' (req cs);
     (r, m1) \<leftarrow> msg_get egg_buffer_get_uint32 m;
     let cs1 = cs\<lparr>req := m1\<rparr>;
     case r of
       None \<Rightarrow> Some (PARSE_ERROR, None, cs1)
     | Some n_attrs \<Rightarrow>
         (case call_alloc h (size_mul (unat n_attrs) 24) cs1 of
            (None, cs2) \<Rightarrow> Some (CKR_DEVICE_MEMORY, None, cs2)
          | (Some p, cs2) \<Rightarrow> do {
              (rv, attrs, cs3) \<leftarrow> read_attribute_buffers h (unat n_attrs) 0
                                    (replicate (length p div 24) empty_attr) cs2;
              Some (rv, if rv = CKR_OK then Some (attrs, ucast n_attrs) else None, cs3)
            })
   }"

fun read_attributes :: "nat \<Rightarrow> nat \<Rightarrow> CK_ATTRIBUTE list \<Rightarrow> GkmRpcMessage
    \<Rightarrow> (CK_RV \<times> CK_ATTRIBUTE list \<times> GkmRpcMessage) option" where
  "read_attributes 0 i attrs m = Some (CKR_OK, attrs, m)"
| "read_attributes (Suc n) i attrs m = do {
     (r, m1) \<leftarrow> msg_get egg_buffer_get_uint32 m;
     case r of
       None \<Rightarrow> Some (PARSE_ERROR, attrs, m1)
     | Some type \<Rightarrow>
         if \<not> i < length attrs then None
         else do {
           (r2, m2) \<leftarrow> msg_get egg_buffer_get_byte m1;
           case r2 of
             None \<Rightarrow> Some (PARSE_ERROR, attrs, m2)
           | Some valid \<Rightarrow>
               if valid \<noteq> 0 then do {
                 (r3, m3) \<leftarrow> msg_get egg_buffer_get_uint32 m2;
                 case r3 of
                   None \<Rightarrow> Some (PARSE_ERROR, attrs, m3)
                 | Some value \<Rightarrow> do {
                     (r4, m4) \<leftarrow> msg_get egg_buffer_get_byte_array m3;
                     case r4 of
                       None \<Rightarrow> Some (PARSE_ERROR, attrs, m4)
                     | Some data \<Rightarrow>
                         if data \<noteq> None \<and> length (the data) \<noteq> unat value
                         then Some (PARSE_ERROR, attrs, m4)
                         else read_attributes n (Suc i)
                                (attrs[i := \<lparr>attr_type = ucast type, pValue = data,
                                             ulValueLen = ucast value\<rparr>]) m4
                   }
               }
               else read_attributes n (Suc i)
                      (attrs[i := \<lparr>attr_type = ucast type, pValue = None, ulValueLen = - 1\<rparr>]) m2
         }
   }"

definition dispatch_proto_read_attribute_array ::
    "heap \<Rightarrow> CallState \<Rightarrow> (CK_RV \<times> (CK_ATTRIBUTE list \<times> CK_ULONG) option \<times> CallState) option" where
  "dispatch_proto_read_attribute_array h cs = do {
     m \<leftarrow> assert_part ''aA'' (req cs);
     (r, m1) \<leftarrow> msg_get egg_buffer_get_uint32 m;
     let cs1 = cs\<lparr>req := m1\<rparr>;
     case r of
       None \<Rightarrow> Some (PARSE_ERROR, None, cs1)
     | Some n_attrs \<Rightarrow>
         (case call_alloc h (size_mul (unat n_attrs) 24) cs1 of
            (None, cs2) \<Rightarrow> Some (CKR_DEVICE_MEMORY, None, cs2)
          | (Some p, cs2) \<Rightarrow> do {
              (rv, attrs, m2) \<leftarrow> read_attributes (unat n_attrs) 0
                                   (replicate (length p div 24) empty_attr) (req cs2);
              Some (rv, if rv = CKR_OK then Some (attrs, ucast n_attrs) else None, cs2\<lparr>req := m2\<rparr>)
            })
   }"

definition dispatch_proto_write_attribute_array ::
    "heap \<Rightarrow> CK_ATTRIBUTE list \<Rightarrow> CK_RV \<Rightarrow> CallState \<Rightarrow> (CK_RV \<times> CallState) option" where
  "dispatch_proto_write_attribute_array h array ret cs =
     (if ret = CKR_ATTRIBUTE_SENSITIVE \<or> ret = CKR_ATTRIBUTE_TYPE_INVALID
         \<or> ret = CKR_BUFFER_TOO_SMALL \<or> ret = CKR_OK
      then do {
        (ok, m) \<leftarrow> all_ok [gkm_rpc_message_write_attribute_array h array,
                          gkm_rpc_message_write_ulong h ret] (resp cs);
        Some (if ok then CKR_OK else PREP_ERROR, cs\<lparr>resp := m\<rparr>)
      }
      else Some (ret, cs))"

text \<open>\<^verbatim>\<open>call_alloc (cs, n_data)\<close> gives \<open>n_data\<close> bytes; the NUL is stored at index \<open>n_data\<close>.\<close>

definition dispatch_proto_read_null_string ::
    "heap \<Rightarrow> CallState \<Rightarrow> (CK_RV \<times> bytes option option \<times> CallState) option" where
  "dispatch_proto_read_null_string h cs = do {
     m \<leftarrow> assert_part ''z'' (req cs);
     (r, m1) \<leftarrow> msg_get egg_buffer_get_byte_array m;
     let cs1 = cs\<lparr>req := m1\<rparr>;
     case r of
       None \<Rightarrow> Some (PARSE_ERROR, None, cs1)
     | Some val \<Rightarrow>
         let data = (case val of None \<Rightarrow> [] | Some v \<Rightarrow> v)
         in (case call_alloc h (length data) cs1 of
               (None, cs2) \<Rightarrow> Some (CKR_DEVICE_MEMORY, Some None, cs2)
             | (Some p, cs2) \<Rightarrow> do {
                 p1 \<leftarrow> mem_write p 0 data;
                 p2 \<leftarrow> mem_write p1 (length data) [0];
                 Some (CKR_OK, Some (Some p2), cs2)
               })
   }"

record CK_MECHANISM =
  mechanism :: CK_ULONG
  pParameter :: "bytes option"
  ulParameterLen :: CK_ULONG

definition dispatch_proto_read_mechanism ::
    "CallState \<Rightarrow> (CK_RV \<times> CK_MECHANISM option \<times> CallState) option" where
  "dispatch_proto_read_mechanism cs = do {
     m \<leftarrow> assert_part ''M'' (req cs);
     (r, m1) \<leftarrow> msg_get egg_buffer_get_uint32 m;
     case r of
       None \<Rightarrow> Some (PARSE_ERROR, None, cs\<lparr>req := m1\<rparr>)
     | Some value \<Rightarrow> do {
         (r2, m2) \<leftarrow> msg_get egg_buffer_get_byte_array m1;
         case r2 of
           None \<Rightarrow> Some (PARSE_ERROR, None, cs\<lparr>req := m2\<rparr>)
         | Some data \<Rightarrow>
             Some (CKR_OK,
               Some \<lparr>mechanism = ucast value, pParameter = data,
                     ulParameterLen = word_of_nat (case data of None \<Rightarrow> 0 | Some d \<Rightarrow> length d)\<rparr>,
               cs\<lparr>req := m2\<rparr>)
       }
   }"

subsection \<open>Information structures\<close>

record CK_INFO =
  info_cryptokiVersion :: CK_VERSION
  info_manufacturerID :: bytes
  info_flags :: CK_ULONG
  info_libraryDescription :: bytes
  info_libraryVersion :: CK_VERSION

record CK_SLOT_INFO =
  slot_slotDescription :: bytes
  slot_manufacturerID :: bytes
  slot_flags :: CK_ULONG
  slot_hardwareVersion :: CK_VERSION
  slot_firmwareVersion :: CK_VERSION

record CK_TOKEN_INFO =
  token_label :: bytes
  token_manufacturerID :: bytes
  token_model :: bytes
  token_serialNumber :: bytes
  token_flags :: CK_ULONG
  token_ulMaxSessionCount :: CK_ULONG
  token_ulSessionCount :: CK_ULONG
  token_ulMaxRwSessionCount :: CK_ULONG
  token_ulRwSessionCount :: CK_ULONG
  token_ulMaxPinLen :: CK_ULONG
  token_ulMinPinLen :: CK_ULONG
  token_ulTotalPublicMemory :: CK_ULONG
  token_ulFreePublicMemory :: CK_ULONG
  token_ulTotalPrivateMemory :: CK_ULONG
  token_ulFreePrivateMemory :: CK_ULONG
  token_hardwareVersion :: CK_VERSION
  token_firmwareVersion :: CK_VERSION
  token_utcTime :: bytes

record CK_MECHANISM_INFO =
  mech_ulMinKeySize :: CK_ULONG
  mech_ulMaxKeySize :: CK_ULONG
  mech_flags :: CK_ULONG

record CK_SESSION_INFO =
  sess_slotID :: CK_ULONG
  sess_state :: CK_ULONG
  sess_flags :: CK_ULONG
  sess_ulDeviceError :: CK_ULONG

definition info_writes :: "heap \<Rightarrow> CK_INFO \<Rightarrow> msg_writer list" where
  "info_writes h info = [
       gkm_rpc_message_write_version h (info_cryptokiVersion info),
       gkm_rpc_message_write_space_string h 32 (info_manufacturerID info),
       gkm_rpc_message_write_ulong h (info_flags info),
       gkm_rpc_message_write_space_string h 32 (info_libraryDescription info),
       gkm_rpc_message_write_version h (info_libraryVersion info)]"

definition dispatch_proto_write_info ::
    "heap \<Rightarrow> CK_INFO \<Rightarrow> CallState \<Rightarrow> (CK_RV \<times> CallState) option" where
  "dispatch_proto_write_info h info cs = do {
     (ok, m) \<leftarrow> all_ok (info_writes h info) (resp cs);
     Some (if ok then CKR_OK else PREP_ERROR, cs\<lparr>resp := m\<rparr>)
   }"

definition slot_info_writes :: "heap \<Rightarrow> CK_SLOT_INFO \<Rightarrow> msg_writer list" where
  "slot_info_writes h info = [
       gkm_rpc_message_write_space_string h 64 (slot_slotDescription info),
       gkm_rpc_message_write_space_string h 32 (slot_manufacturerID info),
       gkm_rpc_message_write_ulong h (slot_flags info),
       gkm_rpc_message_write_version h (slot_hardwareVersion info),
       gkm_rpc_message_write_version h (slot_firmwareVersion info)]"

definition dispatch_proto_write_slot_info ::
    "heap \<Rightarrow> CK_SLOT_INFO \<Rightarrow> CallState \<Rightarrow> (CK_RV \<times> CallState) option" where
  "dispatch_proto_write_slot_info h info cs = do {
     (ok, m) \<leftarrow> all_ok (slot_info_writes h info) (resp cs);
     Some (if ok then CKR_OK else PREP_ERROR, cs\<lparr>resp := m\<rparr>)
   }"

definition token_info_writes :: "heap \<Rightarrow> CK_TOKEN_INFO \<Rightarrow> msg_writer list" where
  "token_info_writes h info = [
       gkm_rpc_message_write_space_string h 32 (token_label info),
       gkm_rpc_message_write_space_string h 32 (token_manufacturerID info),
       gkm_rpc_message_write_space_string h 16 (token_model info),
       gkm_rpc_message_write_space_string h 16 (token_serialNumber info),
       gkm_rpc_message_write_ulong h (token_flags info),
       gkm_rpc_message_write_ulong h (token_ulMaxSessionCount info),
       gkm_rpc_message_write_ulong h (token_ulSessionCount info),
       gkm_rpc_message_write_ulong h (token_ulMaxRwSessionCount info),
       gkm_rpc_message_write_ulong h (token_ulRwSessionCount info),
       gkm_rpc_message_write_ulong h (token_ulMaxPinLen info),
       gkm_rpc_message_write_ulong h (token_ulMinPinLen info),
       gkm_rpc_message_write_ulong h (token_ulTotalPublicMemory info),
       gkm_rpc_message_write_ulong h (token_ulFreePublicMemory info),
       gkm_rpc_message_write_ulong h (token_ulTotalPrivateMemory info),
       gkm_rpc_message_write_ulong h (token_ulFreePrivateMemory info),
       gkm_rpc_message_write_version h (token_hardwareVersion info),
       gkm_rpc_message_write_version h (token_firmwareVersion info),
       gkm_rpc_message_write_space_string h 16 (token_utcTime info)]"

definition dispatch_proto_write_token_info ::
    "heap \<Rightarrow> CK_TOKEN_INFO \<Rightarrow> CallState \<Rightarrow> (CK_RV \<times> CallState) option" where
  "dispatch_proto_write_token_info h info cs = do {
     (ok, m) \<leftarrow> all_ok (token_info_writes h info) (resp cs);
     Some (if ok then CKR_OK else PREP_ERROR, cs\<lparr>resp := m\<rparr>)
   }"

definition mechanism_info_writes :: "heap \<Rightarrow> CK_MECHANISM_INFO \<Rightarrow> msg_writer list" where
  "mechanism_info_writes h info = [
       gkm_rpc_message_write_ulong h (mech_ulMinKeySize info),
       gkm_rpc_message_write_ulong h (mech_ulMaxKeySize info),
       gkm_rpc_message_write_ulong h (mech_flags info)]"

definition dispatch_proto_write_mechanism_info ::
    "heap \<Rightarrow> CK_MECHANISM_INFO \<Rightarrow> CallState \<Rightarrow> (CK_RV \<times> CallState) option" where
  "dispatch_proto_write_mechanism_info h info cs = do {
     (ok, m) \<leftarrow> all_ok (mechanism_info_writes h info) (resp cs);
     Some (if ok then CKR_OK else PREP_ERROR, cs\<lparr>resp := m\<rparr>)
   }"

definition session_info_writes :: "heap \<Rightarrow> CK_SESSION_INFO \<Rightarrow> msg_writer list" where
  "session_info_writes h info = [
       gkm_rpc_message_write_ulong h (sess_slotID info),
       gkm_rpc_message_write_ulong h (sess_state info),
       gkm_rpc_message_write_ulong h (sess_flags info),
       gkm_rpc_message_write_ulong h (sess_ulDeviceError info)]"

definition dispatch_proto_write_session_info ::
    "heap \<Rightarrow> CK_SESSION_INFO \<Rightarrow> CallState \<Rightarrow> (CK_RV \<times> CallState) option" where
  "dispatch_proto_write_session_info h info cs = do {
     (ok, m) \<leftarrow> all_ok (session_info_writes h info) (resp cs);
     Some (if ok then CKR_OK else PREP_ERROR, cs\<lparr>resp := m\<rparr>)
   }"

text \<open>
  On the reading side each call stores what it read into the structure \<open>info\<close> that the
  caller passed; a string is copied over the field's memory. (When only the major number of a
  version could be read, the model leaves the version as it was; the call fails.)
\<close>

type_synonym 'i struct_reader = "'i \<times> GkmRpcMessage \<Rightarrow> (bool \<times> 'i \<times> GkmRpcMessage) option"

definition read_into :: "'a msg_reader \<Rightarrow> ('a \<Rightarrow> 'i \<Rightarrow> 'i) \<Rightarrow> 'i struct_reader" where
  "read_into r upd = (\<lambda>(info, msg). do {
     (v, m) \<leftarrow> r msg;
     Some (case v of None \<Rightarrow> (False, info, m) | Some x \<Rightarrow> (True, upd x info, m))
   })"

definition read_string_into :: "nat \<Rightarrow> ('i \<Rightarrow> bytes) \<Rightarrow> (bytes \<Rightarrow> 'i \<Rightarrow> 'i) \<Rightarrow> 'i struct_reader" where
  "read_string_into n field upd = (\<lambda>(info, msg).
     read_into (gkm_rpc_message_read_space_string n (field info)) upd (info, msg))"

definition info_reads :: "CK_INFO struct_reader list" where
  "info_reads = [
       read_into gkm_rpc_message_read_version (\<lambda>x i. i\<lparr>info_cryptokiVersion := x\<rparr>),
       read_string_into 32 info_manufacturerID (\<lambda>x i. i\<lparr>info_manufacturerID := x\<rparr>),
       read_into gkm_rpc_message_read_ulong (\<lambda>x i. i\<lparr>info_flags := x\<rparr>),
       read_string_into 32 info_libraryDescription (\<lambda>x i. i\<lparr>info_libraryDescription := x\<rparr>),
       read_into gkm_rpc_message_read_version (\<lambda>x i. i\<lparr>info_libraryVersion := x\<rparr>)]"

definition module_proto_read_info ::
    "CK_INFO \<Rightarrow> GkmRpcMessage \<Rightarrow> (CK_RV \<times> CK_INFO \<times> GkmRpcMessage) option" where
  "module_proto_read_info info msg = do {
     (ok, info', m) \<leftarrow> all_ok info_reads (info, msg);
     Some (if ok then CKR_OK else PARSE_ERROR, info', m)
   }"

definition slot_info_reads :: "CK_SLOT_INFO struct_reader list" where
  "slot_info_reads = [
       read_string_into 64 slot_slotDescription (\<lambda>x i. i\<lparr>slot_slotDescription := x\<rparr>),
       read_string_into 32 slot_manufacturerID (\<lambda>x i. i\<lparr>slot_manufacturerID := x\<rparr>),
       read_into gkm_rpc_message_read_ulong (\<lambda>x i. i\<lparr>slot_flags := x\<rparr>),
       read_into gkm_rpc_message_read_version (\<lambda>x i. i\<lparr>slot_hardwareVersion := x\<rparr>),
       read_into gkm_rpc_message_read_version (\<lambda>x i. i\<lparr>slot_firmwareVersion := x\<rparr>)]"

definition module_proto_read_slot_info ::
    "CK_SLOT_INFO \<Rightarrow> GkmRpcMessage \<Rightarrow> (CK_RV \<times> CK_SLOT_INFO \<times> GkmRpcMessage) option" where
  "module_proto_read_slot_info info msg = do {
     (ok, info', m) \<leftarrow> all_ok slot_info_reads (info, msg);
     Some (if ok then CKR_OK else PARSE_ERROR, info', m)
   }"

definition token_info_reads :: "CK_TOKEN_INFO struct_reader list" where
  "token_info_reads = [
       read_string_into 32 token_label (\<lambda>x i. i\<lparr>token_label := x\<rparr>),
       read_string_into 32 token_manufacturerID (\<lambda>x i. i\<lparr>token_manufacturerID := x\<rparr>),
       read_string_into 16 token_model (\<lambda>x i. i\<lparr>token_model := x\<rparr>),
       read_string_into 16 token_serialNumber (\<lambda>x i. i\<lparr>token_serialNumber := x\<rparr>),
       read_into gkm_rpc_message_read_ulong (\<lambda>x i. i\<lparr>token_flags := x\<rparr>),
       read_into gkm_rpc_message_read_ulong (\<lambda>x i. i\<lparr>token_ulMaxSessionCount := x\<rparr>),
       read_into gkm_rpc_message_read_ulong (\<lambda>x i. i\<lparr>token_ulSessionCount := x\<rparr>),
       read_into gkm_rpc_message_read_ulong (\<lambda>x i. i\<lparr>token_ulMaxRwSessionCount := x\<rparr>),
       read_into gkm_rpc_message_read_ulong (\<lambda>x i. i\<lparr>token_ulRwSessionCount := x\<rparr>),
       read_into gkm_rpc_message_read_ulong (\<lambda>x i. i\<lparr>token_ulMaxPinLen := x\<rparr>),
       read_into gkm_rpc_message_read_ulong (\<lambda>x i. i\<lparr>token_ulMinPinLen := x\<rparr>),
       read_into gkm_rpc_message_read_ulong (\<lambda>x i. i\<lparr>token_ulTotalPublicMemory := x\<rparr>),
       read_into gkm_rpc_message_read_ulong (\<lambda>x i. i\<lparr>token_ulFreePublicMemory := x\<rparr>),
       read_into gkm_rpc_message_read_ulong (\<lambda>x i. i\<lparr>token_ulTotalPrivateMemory := x\<rparr>),
       read_into gkm_rpc_message_read_ulong (\<lambda>x i. i\<lparr>token_ulFreePrivateMemory := x\<rparr>),
       read_into gkm_rpc_message_read_version (\<lambda>x i. i\<lparr>token_hardwareVersion := x\<rparr>),
       read_into gkm_rpc_message_read_version (\<lambda>x i. i\<lparr>token_firmwareVersion := x\<rparr>),
       read_string_into 16 token_utcTime (\<lambda>x i. i\<lparr>token_utcTime := x\<rparr>)]"

definition module_proto_read_token_info ::
    "CK_TOKEN_INFO \<Rightarrow> GkmRpcMessage \<Rightarrow> (CK_RV \<times> CK_TOKEN_INFO \<times> GkmRpcMessage) option" where
  "module_proto_read_token_info info msg = do {
     (ok, info', m) \<leftarrow> all_ok token_info_reads (info, msg);
     Some (if ok then CKR_OK else PARSE_ERROR, info', m)
   }"

definition mechanism_info_reads :: "CK_MECHANISM_INFO struct_reader list" where
  "mechanism_info_reads = [
       read_into gkm_rpc_message_read_ulong (\<lambda>x i. i\<lparr>mech_ulMinKeySize := x\<rparr>),
       read_into gkm_rpc_message_read_ulong (\<lambda>x i. i\<lparr>mech_ulMaxKeySize := x\<rparr>),
       read_into gkm_rpc_message_read_ulong (\<lambda>x i. i\<lparr>mech_flags := x\<rparr>)]"

definition module_proto_read_mechanism_info ::
    "CK_MECHANISM_INFO \<Rightarrow> GkmRpcMessage \<Rightarrow> (CK_RV \<times> CK_MECHANISM_INFO \<times> GkmRpcMessage) option" where
  "module_proto_read_mechanism_info info msg = do {
     (ok, info', m) \<leftarrow> all_ok mechanism_info_reads (info, msg);
     Some (if ok then CKR_OK else PARSE_ERROR, info', m)
   }"

definition session_info_reads :: "CK_SESSION_INFO struct_reader list" where
  "session_info_reads = [
       read_into gkm_rpc_message_read_ulong (\<lambda>x i. i\<lparr>sess_slotID := x\<rparr>),
       read_into gkm_rpc_message_read_ulong (\<lambda>x i. i\<lparr>sess_state := x\<rparr>),
       read_into gkm_rpc_message_read_ulong (\<lambda>x i. i\<lparr>sess_flags := x\<rparr>),
       read_into gkm_rpc_message_read_ulong (\<lambda>x i. i\<lparr>sess_ulDeviceError := x\<rparr>)]"

definition module_proto_read_sesssion_info ::
    "CK_SESSION_INFO \<Rightarrow> GkmRpcMessage \<Rightarrow> (CK_RV \<times> CK_SESSION_INFO \<times> GkmRpcMessage) option" where
  "module_proto_read_sesssion_info info msg = do {
     (ok, info', m) \<leftarrow> all_ok session_info_reads (info, msg);
     Some (if ok then CKR_OK else PARSE_ERROR, info', m)
   }"


subsection \<open>The client's codecs\<close>

text \<open>
  The client's attribute loop. \<open>arr\<close> is the caller's array (\<open>None\<close> for \<^verbatim>\<open>NULL\<close>); a value is
  copied into the caller's memory only if it fits the length the caller gave. \<open>ret\<close> is the
  code collected so far. Out parameters that a failed read leaves unset are not used: the
  failure is in the buffer and ends the loop.
\<close>

definition module_store_attribute ::
    "32 word \<Rightarrow> byte \<Rightarrow> bytes option \<Rightarrow> nat \<Rightarrow> CK_ATTRIBUTE \<Rightarrow> CK_RV \<Rightarrow> (CK_ATTRIBUTE \<times> CK_RV) option option" where
  "module_store_attribute type validity attrval attrlen attr ret =
     (if attr_type attr \<noteq> ucast type then Some None
      else if validity \<noteq> 0 then
        (case pValue attr of
           None \<Rightarrow> Some (Some (attr\<lparr>ulValueLen := word_of_nat attrlen\<rparr>, ret))
         | Some mem \<Rightarrow>
             if unat (ulValueLen attr) < attrlen
             then Some (Some (attr\<lparr>ulValueLen := word_of_nat attrlen\<rparr>, CKR_BUFFER_TOO_SMALL))
             else (case attrval of
                     None \<Rightarrow> Some (Some (attr\<lparr>ulValueLen := 0\<rparr>, ret))
                   | Some v \<Rightarrow> do {
                       mem' \<leftarrow> mem_write mem 0 (take attrlen v);
                       Some (Some (attr\<lparr>ulValueLen := word_of_nat attrlen, pValue := Some mem'\<rparr>, ret))
                     }))
      else Some (Some (attr\<lparr>ulValueLen := - 1\<rparr>, ret)))"

fun module_read_attributes ::
    "nat \<Rightarrow> nat \<Rightarrow> CK_ATTRIBUTE list option \<Rightarrow> CK_RV \<Rightarrow> GkmRpcMessage
      \<Rightarrow> (bool \<times> CK_ATTRIBUTE list option \<times> CK_RV \<times> GkmRpcMessage) option" where
  "module_read_attributes 0 i arr ret m = Some (True, arr, ret, m)"
| "module_read_attributes (Suc n) i arr ret m = do {
     (r1, m1) \<leftarrow> msg_get egg_buffer_get_uint32 m;
     (r2, m2) \<leftarrow> msg_get egg_buffer_get_byte m1;
     if r1 = None \<or> r2 = None then Some (True, arr, ret, m2)
     else
       let type = the r1; validity = the r2
       in do {
         (bad, attrval, attrlen, m3) \<leftarrow>
           (if validity \<noteq> 0 then do {
              (r3, m3) \<leftarrow> msg_get egg_buffer_get_uint32 m2;
              case r3 of
                None \<Rightarrow> Some (False, None, 0, m3)
              | Some value \<Rightarrow> do {
                  (r4, m4) \<leftarrow> msg_get egg_buffer_get_byte_array m3;
                  case r4 of
                    None \<Rightarrow> Some (False, None, 0, m4)
                  | Some data \<Rightarrow>
                      Some (data \<noteq> None \<and> unat value \<noteq> length (the data), data, unat value, m4)
                }
            }
            else Some (False, None, 0, m2));
         if bad then Some (False, arr, ret, m3)
         else if egg_buffer_has_error (buffer m3) then Some (True, arr, ret, m3)
         else case arr of
           None \<Rightarrow> module_read_attributes n (Suc i) None ret m3
         | Some as \<Rightarrow>
             if \<not> i < length as then None
             else do {
               st \<leftarrow> module_store_attribute type validity attrval attrlen (as ! i) ret;
               case st of
                 None \<Rightarrow> Some (False, arr, ret, m3)
               | Some (attr, ret') \<Rightarrow> module_read_attributes n (Suc i) (Some (as[i := attr])) ret' m3
             }
       }
   }"

definition module_proto_read_attribute_array ::
    "CK_ATTRIBUTE list option \<Rightarrow> CK_ULONG \<Rightarrow> GkmRpcMessage
      \<Rightarrow> (CK_RV \<times> CK_ATTRIBUTE list option \<times> GkmRpcMessage) option" where
  "module_proto_read_attribute_array arr len msg =
     (if len = 0 then None
      else do {
        m \<leftarrow> assert_part ''aA'' msg;
        (r, m1) \<leftarrow> msg_get egg_buffer_get_uint32 m;
        case r of
          None \<Rightarrow> Some (PARSE_ERROR, arr, m1)
        | Some num \<Rightarrow>
            if len \<noteq> ucast num then Some (PARSE_ERROR, arr, m1)
            else do {
              (fine, arr', ret, m2) \<leftarrow> module_read_attributes (unat num) 0 arr CKR_OK m1;
              if \<not> fine then Some (PARSE_ERROR, arr', m2)
              else if egg_buffer_has_error (buffer m2) then Some (PARSE_ERROR, arr', m2)
              else do {
                (v, m3) \<leftarrow> gkm_rpc_message_read_ulong m2;
                Some (case v of None \<Rightarrow> PARSE_ERROR | Some code \<Rightarrow> code, arr', m3)
              }
            }
      })"

text \<open>
  The length of an absent array is read through a \<^verbatim>\<open>(uint32_t *)&vlen\<close> into the low half of an
  uninitialised \<^verbatim>\<open>size_t\<close>: \<open>junk\<close> is what its upper half held. \<open>cap\<close> (\<^verbatim>\<open>max\<close>) is the caller's
  capacity, \<open>arr\<close> the caller's memory.
\<close>

definition module_proto_read_byte_array ::
    "32 word \<Rightarrow> bytes option \<Rightarrow> CK_ULONG \<Rightarrow> GkmRpcMessage
      \<Rightarrow> (CK_RV \<times> bytes option \<times> CK_ULONG option \<times> GkmRpcMessage) option" where
  "module_proto_read_byte_array junk arr cap msg = do {
     m \<leftarrow> assert_part ''ay'' msg;
     (r, m1) \<leftarrow> msg_get egg_buffer_get_byte m;
     case r of
       None \<Rightarrow> Some (PARSE_ERROR, arr, None, m1)
     | Some valid \<Rightarrow>
         if valid = 0 then do {
           (r2, m2) \<leftarrow> msg_get egg_buffer_get_uint32 m1;
           case r2 of
             None \<Rightarrow> Some (PARSE_ERROR, arr, None, m2)
           | Some v \<Rightarrow>
               Some (if arr \<noteq> None then CKR_BUFFER_TOO_SMALL else CKR_OK, arr,
                     Some (push_bit 32 (ucast junk) OR ucast v), m2)
         }
         else do {
           (r2, m2) \<leftarrow> msg_get egg_buffer_get_byte_array m1;
           case r2 of
             None \<Rightarrow> Some (PARSE_ERROR, arr, None, m2)
           | Some val \<Rightarrow>
               let v = (case val of None \<Rightarrow> [] | Some v \<Rightarrow> v); vlen = word_of_nat (length v)
               in (case arr of
                     None \<Rightarrow> Some (CKR_OK, arr, Some vlen, m2)
                   | Some mem \<Rightarrow>
                       if cap < vlen then Some (CKR_BUFFER_TOO_SMALL, arr, Some vlen, m2)
                       else do {
                         mem' \<leftarrow> mem_write mem 0 v;
                         Some (CKR_OK, Some mem', Some vlen, m2)
                       })
         }
   }"

text \<open>
  The loop over the longs goes through all of them whether or not a read fails; \<open>prev\<close> is the
  variable \<open>val\<close>, which a failed read leaves as it was.
\<close>

fun read_ulongs :: "nat \<Rightarrow> nat \<Rightarrow> CK_ULONG list option \<Rightarrow> CK_ULONG \<Rightarrow> GkmRpcMessage
    \<Rightarrow> (CK_ULONG list option \<times> GkmRpcMessage) option" where
  "read_ulongs 0 i arr prev m = Some (arr, m)"
| "read_ulongs (Suc n) i arr prev m = do {
     (r, m1) \<leftarrow> msg_get egg_buffer_get_uint64 m;
     let val = (case r of None \<Rightarrow> prev | Some v \<Rightarrow> v);
     case arr of
       None \<Rightarrow> read_ulongs n (Suc i) None val m1
     | Some a \<Rightarrow> if i < length a then read_ulongs n (Suc i) (Some (a[i := val])) val m1 else None
   }"

definition module_proto_read_ulong_array ::
    "CK_ULONG \<Rightarrow> CK_ULONG list option \<Rightarrow> CK_ULONG \<Rightarrow> GkmRpcMessage
      \<Rightarrow> (CK_RV \<times> CK_ULONG list option \<times> CK_ULONG option \<times> GkmRpcMessage) option" where
  "module_proto_read_ulong_array junk arr cap msg = do {
     m \<leftarrow> assert_part ''au'' msg;
     (r, m1) \<leftarrow> msg_get egg_buffer_get_byte m;
     case r of
       None \<Rightarrow> Some (PARSE_ERROR, arr, None, m1)
     | Some valid \<Rightarrow> do {
         (r2, m2) \<leftarrow> msg_get egg_buffer_get_uint32 m1;
         case r2 of
           None \<Rightarrow> Some (PARSE_ERROR, arr, None, m2)
         | Some num \<Rightarrow>
             if valid = 0
             then Some (if arr \<noteq> None then CKR_BUFFER_TOO_SMALL else CKR_OK, arr, Some (ucast num), m2)
             else if cap < ucast num then Some (CKR_BUFFER_TOO_SMALL, arr, Some (ucast num), m2)
             else do {
               (arr', m3) \<leftarrow> read_ulongs (unat num) 0 arr junk m2;
               Some (if egg_buffer_has_error (buffer m3) then PARSE_ERROR else CKR_OK, arr',
                     Some (ucast num), m3)
             }
       }
   }"

definition module_proto_write_mechanism ::
    "heap \<Rightarrow> CK_MECHANISM \<Rightarrow> GkmRpcMessage \<Rightarrow> (CK_RV \<times> GkmRpcMessage) option" where
  "module_proto_write_mechanism h mech msg = do {
     m \<leftarrow> assert_part ''M'' msg;
     (ok1, m1) \<leftarrow> msg_add (egg_buffer_add_uint32 h (ucast (mechanism mech))) m;
     if gkm_rpc_mechanism_has_no_parameters (mechanism mech) then do {
       (ok2, m2) \<leftarrow> msg_add (egg_buffer_add_byte_array h None) m1;
       Some (if egg_buffer_has_error (buffer m2) then CKR_HOST_MEMORY else CKR_OK, m2)
     }
     else if gkm_rpc_mechanism_has_sane_parameters (mechanism mech) then do {
       (ok2, m2) \<leftarrow> msg_add (egg_buffer_add_mem h (pParameter mech) (unat (ulParameterLen mech))) m1;
       Some (if egg_buffer_has_error (buffer m2) then CKR_HOST_MEMORY else CKR_OK, m2)
     }
     else Some (CKR_MECHANISM_INVALID, m1)
   }"

subsection \<open>Chains of readers\<close>

text \<open>
  \<open>fills W r part bs f\<close>: reading \<open>bs\<close> changes the structure by \<open>f\<close>; \<open>W\<close> is an invariant of
  the structure's memory (the sizes of its string fields). \<open>fill_safe\<close> is memory safety on
  any input.
\<close>

definition fills :: "('i \<Rightarrow> bool) \<Rightarrow> 'i struct_reader \<Rightarrow> bytes \<Rightarrow> bytes \<Rightarrow> ('i \<Rightarrow> 'i) \<Rightarrow> bool" where
  "fills W r part bs f \<longleftrightarrow> (\<forall>info msg pre post. W info \<longrightarrow> eb_wf (buffer msg) \<longrightarrow> expects part msg \<longrightarrow>
     eb_contents (buffer msg) = pre @ bs @ post \<longrightarrow> parsed msg = length pre \<longrightarrow>
     r (info, msg) = Some (True, f info, (advance part msg)\<lparr>parsed := length pre + length bs\<rparr>)
     \<and> W (f info))"

definition fill_safe :: "('i \<Rightarrow> bool) \<Rightarrow> 'i struct_reader \<Rightarrow> bytes \<Rightarrow> bool" where
  "fill_safe W r part \<longleftrightarrow> (\<forall>info msg. W info \<longrightarrow> eb_wf (buffer msg) \<longrightarrow> expects part msg \<longrightarrow>
     (\<exists>ok info' msg'. r (info, msg) = Some (ok, info', msg') \<and> W info' \<and> same_input msg msg'
       \<and> (ok \<longrightarrow> sigverify msg' = sigverify (advance part msg))))"

lemma fills_nil: "fills W (all_ok []) [] [] (\<lambda>i. i)"
  by (auto simp: fills_def)

lemma fills_cons:
  assumes "fills W r p bs f" and "fills W (all_ok rs) ps bss g"
  shows "fills W (all_ok (r # rs)) (p @ ps) (bs @ bss) (\<lambda>i. g (f i))"
  unfolding fills_def
proof (intro allI impI)
  fix info msg pre post
  assume W: "W info" and wf: "eb_wf (buffer msg)" and e: "expects (p @ ps) msg"
    and c: "eb_contents (buffer msg) = pre @ (bs @ bss) @ post" and at: "parsed msg = length pre"
  let ?m = "(advance p msg)\<lparr>parsed := length pre + length bs\<rparr>"
  have 1: "r (info, msg) = Some (True, f info, ?m) \<and> W (f info)"
    using assms(1) [unfolded fills_def, rule_format, OF W wf expects_append(1) [OF e], of pre "bss @ post"] c at
    by simp
  have "all_ok rs (f info, ?m) = Some (True, g (f info),
      (advance ps ?m)\<lparr>parsed := length (pre @ bs) + length bss\<rparr>) \<and> W (g (f info))"
    using assms(2) [unfolded fills_def, rule_format, of "f info" ?m "pre @ bs" post] 1 wf
      expects_append(2) [OF e] c by simp
  with 1 show "all_ok (r # rs) (info, msg) = Some (True, g (f info),
      (advance (p @ ps) msg)\<lparr>parsed := length pre + length (bs @ bss)\<rparr>) \<and> W (g (f info))"
    by (simp add: advance_append add.assoc)
qed

lemma fill_safe_nil: "fill_safe W (all_ok []) []"
  by (auto simp: fill_safe_def same_input_def)

lemma fill_safe_cons:
  assumes "fill_safe W r p" and "fill_safe W (all_ok rs) ps"
  shows "fill_safe W (all_ok (r # rs)) (p @ ps)"
  unfolding fill_safe_def
proof (intro allI impI)
  fix info msg assume W: "W info" and wf: "eb_wf (buffer msg)" and e: "expects (p @ ps) msg"
  note e = expects_append [OF e]
  from assms(1) W wf e(1) obtain ok info1 m1 where 1: "r (info, msg) = Some (ok, info1, m1)"
    "W info1" "same_input msg m1" "ok \<longrightarrow> sigverify m1 = sigverify (advance p msg)"
    unfolding fill_safe_def by metis
  show "\<exists>ok info' msg'. all_ok (r # rs) (info, msg) = Some (ok, info', msg') \<and> W info'
      \<and> same_input msg msg' \<and> (ok \<longrightarrow> sigverify msg' = sigverify (advance (p @ ps) msg))"
  proof (cases ok)
    case False
    with 1 show ?thesis by auto
  next
    case True
    with 1 have sv: "sigverify m1 = sigverify (advance p msg)" "signature m1 = signature msg"
      by (auto simp: same_input_def)
    then have "expects ps m1" using e(2) by (simp add: expects_def)
    with assms(2) 1 same_input_wf [OF 1(3)] obtain ok2 info2 m2 where
      "all_ok rs (info1, m1) = Some (ok2, info2, m2)" "W info2" "same_input m1 m2"
      "ok2 \<longrightarrow> sigverify m2 = sigverify (advance ps m1)"
      unfolding fill_safe_def by metis
    moreover have "sigverify (advance ps m1) = sigverify (advance (p @ ps) msg)"
      using sv by (auto simp: advance_append [symmetric] advance_def [of ps])
    ultimately show ?thesis using 1 True same_input_trans [OF 1(3)] by auto
  qed
qed

lemma read_into_fills:
  assumes "msg_parses r part v bs" and "\<And>info. W info \<Longrightarrow> W (upd v info)"
  shows "fills W (read_into r upd) part bs (upd v)"
  unfolding fills_def
proof (intro allI impI)
  fix info msg pre post
  assume "W info" "eb_wf (buffer msg)" "expects part msg" "eb_contents (buffer msg) = pre @ bs @ post"
    "parsed msg = length pre"
  with msg_parsesD [OF assms(1)] assms(2) show "read_into r upd (info, msg)
      = Some (True, upd v info, (advance part msg)\<lparr>parsed := length pre + length bs\<rparr>)
    \<and> W (upd v info)" by (simp add: read_into_def)
qed

lemma read_string_into_fills:
  assumes "length v = n" and "0 < n" and "n < 0x7fffffff"
    and "\<And>info. W info \<Longrightarrow> length (field info) = n" and "\<And>info. W info \<Longrightarrow> W (upd v info)"
  shows "fills W (read_string_into n field upd) (ascii ''s'') (encode_byte_array (Some v)) (upd v)"
  unfolding fills_def
proof (intro allI impI)
  fix info msg pre post
  assume *: "W info" "eb_wf (buffer msg)" "expects (ascii ''s'') msg"
    "eb_contents (buffer msg) = pre @ encode_byte_array (Some v) @ post" "parsed msg = length pre"
  from * assms have "msg_parses (gkm_rpc_message_read_space_string n (field info)) (ascii ''s'') v
      (encode_byte_array (Some v))" by (intro read_space_string_parses) auto
  from msg_parsesD [OF this] * assms(5)
  show "read_string_into n field upd (info, msg) = Some (True, upd v info,
      (advance (ascii ''s'') msg)\<lparr>parsed := length pre + length (encode_byte_array (Some v))\<rparr>)
    \<and> W (upd v info)" by (simp add: read_string_into_def read_into_def)
qed

lemma read_into_safe:
  assumes "msg_safe r part" and "\<And>v info. W info \<Longrightarrow> W (upd v info)"
  shows "fill_safe W (read_into r upd) part"
  unfolding fill_safe_def
proof (intro allI impI)
  fix info msg assume "W info" "eb_wf (buffer msg)" "expects part msg"
  with assms(1) obtain v m where "r msg = Some (v, m)" "same_input msg m"
    "v \<noteq> None \<longrightarrow> sigverify m = sigverify (advance part msg)"
    unfolding msg_safe_def by blast
  with assms(2) \<open>W info\<close> show "\<exists>ok info' msg'. read_into r upd (info, msg) = Some (ok, info', msg')
      \<and> W info' \<and> same_input msg msg' \<and> (ok \<longrightarrow> sigverify msg' = sigverify (advance part msg))"
    by (cases v) (auto simp: read_into_def)
qed

lemma read_string_length:
  "gkm_rpc_message_read_space_string n field msg = Some (Some v, m) \<Longrightarrow> length v = length field"
  by (auto simp: gkm_rpc_message_read_space_string_def Let_def dest: mem_write_length
      split: Option.bind_splits option.splits if_splits prod.splits)

lemma read_string_into_safe:
  assumes "0 < n" and "\<And>info. W info \<Longrightarrow> length (field info) = n"
    and "\<And>v info. W info \<Longrightarrow> length v = n \<Longrightarrow> W (upd v info)"
  shows "fill_safe W (read_string_into n field upd) (ascii ''s'')"
  unfolding fill_safe_def
proof (intro allI impI)
  fix info msg assume *: "W info" "eb_wf (buffer msg)" "expects (ascii ''s'') msg"
  have "msg_safe (gkm_rpc_message_read_space_string n (field info)) (ascii ''s'')"
    using assms * by (intro read_space_string_safe) auto
  with * obtain v m where "gkm_rpc_message_read_space_string n (field info) msg = Some (v, m)"
    "same_input msg m" "v \<noteq> None \<longrightarrow> sigverify m = sigverify (advance (ascii ''s'') msg)"
    unfolding msg_safe_def by blast
  with assms(2,3) * read_string_length show "\<exists>ok info' msg'.
      read_string_into n field upd (info, msg) = Some (ok, info', msg') \<and> W info'
      \<and> same_input msg msg' \<and> (ok \<longrightarrow> sigverify msg' = sigverify (advance (ascii ''s'') msg))"
    by (cases v) (auto simp: read_string_into_def read_into_def)
qed

lemmas read_ulong_fills = read_into_fills [OF msg_get_parses [OF get_uint64_parses,
    where part = "''u''", folded gkm_rpc_message_read_ulong_def [abs_def]]]
lemmas read_version_fills = read_into_fills [OF read_version_parses]
lemmas read_ulong_safe = read_into_safe [OF msg_get_safe [OF get_uint64_safe,
    where part = "''u''", folded gkm_rpc_message_read_ulong_def [abs_def]]]
lemmas read_version_into_safe = read_into_safe [OF read_version_safe]

lemmas chain_fills = fills_cons fills_nil read_ulong_fills read_version_fills read_string_into_fills
lemmas chain_safe = fill_safe_cons fill_safe_nil read_ulong_safe read_version_into_safe
  read_string_into_safe

subsection \<open>Information structures travel\<close>

text \<open>The sizes of the string fields, which the C types fix.\<close>

definition info_wf :: "CK_INFO \<Rightarrow> bool" where
  "info_wf i \<longleftrightarrow> length (info_manufacturerID i) = 32 \<and> length (info_libraryDescription i) = 32"

definition slot_wf :: "CK_SLOT_INFO \<Rightarrow> bool" where
  "slot_wf i \<longleftrightarrow> length (slot_slotDescription i) = 64 \<and> length (slot_manufacturerID i) = 32"

definition token_wf :: "CK_TOKEN_INFO \<Rightarrow> bool" where
  "token_wf i \<longleftrightarrow> length (token_label i) = 32 \<and> length (token_manufacturerID i) = 32
     \<and> length (token_model i) = 16 \<and> length (token_serialNumber i) = 16 \<and> length (token_utcTime i) = 16"

lemma ascii_append: "ascii (x # xs) = ascii [x] @ ascii xs"
  by (simp add: ascii_def)

lemma ascii_nil: "ascii [] = []"
  by (simp add: ascii_def)

text \<open>
  The interface of a structure codec: the chain of writes of the daemon and the chain of reads
  of the client agree on the encoding, and the reads are safe on any input.
\<close>

locale info_codec =
  fixes writes :: "'i \<Rightarrow> msg_writer list" and reads :: "'i struct_reader list"
    and part :: bytes and enc :: "'i \<Rightarrow> bytes" and W :: "'i \<Rightarrow> bool"
  assumes writes_emit: "W x \<Longrightarrow> msg_emits (all_ok (writes x)) part (enc x)"
    and reads_fill: "W x \<Longrightarrow> fills W (all_ok reads) part (enc x) (\<lambda>_. x)"
    and reads_safe: "fill_safe W (all_ok reads) part"
begin

lemma travels:
  assumes "W x" and "W x0" and "eb_wf (buffer s)" and "expects part s"
    and "all_ok (writes x) s = Some (True, s')"
    and "eb_wf (buffer r)" and "expects part r" and "parsed r = eb_len (buffer s)"
    and "eb_contents (buffer r) = eb_contents (buffer s') @ post"
  shows "all_ok reads (x0, r) = Some (True, x, (advance part r)\<lparr>parsed := eb_len (buffer s')\<rparr>)"
  using writes_emit [OF assms(1)] assms(3,4)
proof (cases rule: msg_emits_cases)
  case (ok b')
  with assms(5) have c: "eb_contents (buffer s') = eb_contents (buffer s) @ enc x" "eb_wf (buffer s')"
    by (auto simp: added_def)
  then have "eb_len (buffer s') = eb_len (buffer s) + length (enc x)"
    using assms(3) by (metis length_eb_contents length_append)
  with reads_fill [OF assms(1), unfolded fills_def, rule_format, of x0 r "eb_contents (buffer s)" post]
    c assms(2,3,6-)
  show ?thesis by simp
next
  case (fail msg')
  with assms(5) show ?thesis by simp
qed

end

lemma chain_fills_eq: "fills W r p bs f \<Longrightarrow> (\<And>i. f i = g i) \<Longrightarrow> fills W r p bs g"
  by (simp add: fills_def)

definition encode_info :: "CK_INFO \<Rightarrow> bytes" where
  "encode_info i =
     [major (info_cryptokiVersion i), minor (info_cryptokiVersion i)] @
     encode_byte_array (Some (info_manufacturerID i)) @
     encode_uint64 (info_flags i) @
     encode_byte_array (Some (info_libraryDescription i)) @
     [major (info_libraryVersion i), minor (info_libraryVersion i)] @ []"

definition encode_slot_info :: "CK_SLOT_INFO \<Rightarrow> bytes" where
  "encode_slot_info i =
     encode_byte_array (Some (slot_slotDescription i)) @
     encode_byte_array (Some (slot_manufacturerID i)) @
     encode_uint64 (slot_flags i) @
     [major (slot_hardwareVersion i), minor (slot_hardwareVersion i)] @
     [major (slot_firmwareVersion i), minor (slot_firmwareVersion i)] @ []"

definition encode_token_info :: "CK_TOKEN_INFO \<Rightarrow> bytes" where
  "encode_token_info i =
     encode_byte_array (Some (token_label i)) @
     encode_byte_array (Some (token_manufacturerID i)) @
     encode_byte_array (Some (token_model i)) @
     encode_byte_array (Some (token_serialNumber i)) @
     encode_uint64 (token_flags i) @
     encode_uint64 (token_ulMaxSessionCount i) @
     encode_uint64 (token_ulSessionCount i) @
     encode_uint64 (token_ulMaxRwSessionCount i) @
     encode_uint64 (token_ulRwSessionCount i) @
     encode_uint64 (token_ulMaxPinLen i) @
     encode_uint64 (token_ulMinPinLen i) @
     encode_uint64 (token_ulTotalPublicMemory i) @
     encode_uint64 (token_ulFreePublicMemory i) @
     encode_uint64 (token_ulTotalPrivateMemory i) @
     encode_uint64 (token_ulFreePrivateMemory i) @
     [major (token_hardwareVersion i), minor (token_hardwareVersion i)] @
     [major (token_firmwareVersion i), minor (token_firmwareVersion i)] @
     encode_byte_array (Some (token_utcTime i)) @ []"

definition encode_mechanism_info :: "CK_MECHANISM_INFO \<Rightarrow> bytes" where
  "encode_mechanism_info i =
     encode_uint64 (mech_ulMinKeySize i) @
     encode_uint64 (mech_ulMaxKeySize i) @
     encode_uint64 (mech_flags i) @ []"

definition encode_session_info :: "CK_SESSION_INFO \<Rightarrow> bytes" where
  "encode_session_info i =
     encode_uint64 (sess_slotID i) @
     encode_uint64 (sess_state i) @
     encode_uint64 (sess_flags i) @
     encode_uint64 (sess_ulDeviceError i) @ []"

lemma ascii_sigs:
  "ascii ''vsusv'' = ascii ''v'' @ ascii ''s'' @ ascii ''u'' @ ascii ''s'' @ ascii ''v'' @ []"
  "ascii ''ssuvv'' = ascii ''s'' @ ascii ''s'' @ ascii ''u'' @ ascii ''v'' @ ascii ''v'' @ []"
  "ascii ''ssssuuuuuuuuuuuvvs'' = ascii ''s'' @ ascii ''s'' @ ascii ''s'' @ ascii ''s'' @ ascii ''u'' @ ascii ''u'' @ ascii ''u'' @ ascii ''u'' @ ascii ''u'' @ ascii ''u'' @ ascii ''u'' @ ascii ''u'' @ ascii ''u'' @ ascii ''u'' @ ascii ''u'' @ ascii ''v'' @ ascii ''v'' @ ascii ''s'' @ []"
  "ascii ''uuu'' = ascii ''u'' @ ascii ''u'' @ ascii ''u'' @ []"
  "ascii ''uuuu'' = ascii ''u'' @ ascii ''u'' @ ascii ''u'' @ ascii ''u'' @ []"
  by (simp_all add: ascii_def)

context egg_allocator
begin

lemma write_space_string_exact:
  "length field = n \<Longrightarrow> 0 < n \<Longrightarrow> msg_emits (gkm_rpc_message_write_space_string h n field) (ascii ''s'')
     (encode_byte_array (Some field))"
  using write_space_string_emits [of n field] by simp

lemmas write_chain = all_ok_emits_cons all_ok_emits_nil write_space_string_exact write_version_emits
  msg_ulong.write_emits [OF TrueI]

sublocale info: info_codec "info_writes h" info_reads "ascii ''vsusv''" encode_info info_wf
proof unfold_locales
  fix i :: CK_INFO assume wf: "info_wf i"
  show "msg_emits (all_ok (info_writes h i)) (ascii ''vsusv'') (encode_info i)"
    unfolding ascii_sigs encode_info_def info_writes_def
    by (intro write_chain) (use wf in \<open>simp_all add: info_wf_def\<close>)
  show "fills info_wf (all_ok info_reads) (ascii ''vsusv'') (encode_info i) (\<lambda>_. i)"
    unfolding ascii_sigs encode_info_def info_reads_def
    by (insert wf, rule chain_fills_eq,
        (rule chain_fills | simp add: info_wf_def | (rule CK_INFO.equality; simp))+)
next
  show "fill_safe info_wf (all_ok info_reads) (ascii ''vsusv'')"
    unfolding ascii_sigs info_reads_def by (intro chain_safe) (simp_all add: info_wf_def)
qed

sublocale slot: info_codec "slot_info_writes h" slot_info_reads "ascii ''ssuvv''" encode_slot_info slot_wf
proof unfold_locales
  fix i :: CK_SLOT_INFO assume wf: "slot_wf i"
  show "msg_emits (all_ok (slot_info_writes h i)) (ascii ''ssuvv'') (encode_slot_info i)"
    unfolding ascii_sigs encode_slot_info_def slot_info_writes_def
    by (intro write_chain) (use wf in \<open>simp_all add: slot_wf_def\<close>)
  show "fills slot_wf (all_ok slot_info_reads) (ascii ''ssuvv'') (encode_slot_info i) (\<lambda>_. i)"
    unfolding ascii_sigs encode_slot_info_def slot_info_reads_def
    by (insert wf, rule chain_fills_eq,
        (rule chain_fills | simp add: slot_wf_def | (rule CK_SLOT_INFO.equality; simp))+)
next
  show "fill_safe slot_wf (all_ok slot_info_reads) (ascii ''ssuvv'')"
    unfolding ascii_sigs slot_info_reads_def by (intro chain_safe) (simp_all add: slot_wf_def)
qed

sublocale token: info_codec "token_info_writes h" token_info_reads "ascii ''ssssuuuuuuuuuuuvvs''" encode_token_info token_wf
proof unfold_locales
  fix i :: CK_TOKEN_INFO assume wf: "token_wf i"
  show "msg_emits (all_ok (token_info_writes h i)) (ascii ''ssssuuuuuuuuuuuvvs'') (encode_token_info i)"
    unfolding ascii_sigs encode_token_info_def token_info_writes_def
    by (intro write_chain) (use wf in \<open>simp_all add: token_wf_def\<close>)
  show "fills token_wf (all_ok token_info_reads) (ascii ''ssssuuuuuuuuuuuvvs'') (encode_token_info i) (\<lambda>_. i)"
    unfolding ascii_sigs encode_token_info_def token_info_reads_def
    by (insert wf, rule chain_fills_eq,
        (rule chain_fills | simp add: token_wf_def | (rule CK_TOKEN_INFO.equality; simp))+)
next
  show "fill_safe token_wf (all_ok token_info_reads) (ascii ''ssssuuuuuuuuuuuvvs'')"
    unfolding ascii_sigs token_info_reads_def by (intro chain_safe) (simp_all add: token_wf_def)
qed

sublocale mech: info_codec "mechanism_info_writes h" mechanism_info_reads "ascii ''uuu''" encode_mechanism_info "\<lambda>_. True"
proof unfold_locales
  fix i :: CK_MECHANISM_INFO assume wf: "(\<lambda>_. True) i"
  show "msg_emits (all_ok (mechanism_info_writes h i)) (ascii ''uuu'') (encode_mechanism_info i)"
    unfolding ascii_sigs encode_mechanism_info_def mechanism_info_writes_def
    by (intro write_chain)
  show "fills (\<lambda>_. True) (all_ok mechanism_info_reads) (ascii ''uuu'') (encode_mechanism_info i) (\<lambda>_. i)"
    unfolding ascii_sigs encode_mechanism_info_def mechanism_info_reads_def
    by (insert wf, rule chain_fills_eq,
        (rule chain_fills | simp | (rule CK_MECHANISM_INFO.equality; simp))+)
next
  show "fill_safe (\<lambda>_. True) (all_ok mechanism_info_reads) (ascii ''uuu'')"
    unfolding ascii_sigs mechanism_info_reads_def by (intro chain_safe) (simp_all)
qed

sublocale sess: info_codec "session_info_writes h" session_info_reads "ascii ''uuuu''" encode_session_info "\<lambda>_. True"
proof unfold_locales
  fix i :: CK_SESSION_INFO assume wf: "(\<lambda>_. True) i"
  show "msg_emits (all_ok (session_info_writes h i)) (ascii ''uuuu'') (encode_session_info i)"
    unfolding ascii_sigs encode_session_info_def session_info_writes_def
    by (intro write_chain)
  show "fills (\<lambda>_. True) (all_ok session_info_reads) (ascii ''uuuu'') (encode_session_info i) (\<lambda>_. i)"
    unfolding ascii_sigs encode_session_info_def session_info_reads_def
    by (insert wf, rule chain_fills_eq,
        (rule chain_fills | simp | (rule CK_SESSION_INFO.equality; simp))+)
next
  show "fill_safe (\<lambda>_. True) (all_ok session_info_reads) (ascii ''uuuu'')"
    unfolding ascii_sigs session_info_reads_def by (intro chain_safe) (simp_all)
qed

end

end
