(* ===== verification/GkmTransaction.thy ===== *)
theory GkmTransaction
  imports RpcProto
begin

text \<open>
  Transactions over the files of a keyring store, \<^verbatim>\<open>pkcs11/gkm/gkm-transaction.c\<close>: changes are made
  in place, with a hard link to the old file as a backup, and a list of completion functions
  that undo them if the transaction failed or drop the backups if it succeeded.

  The file system is a map from names to inodes and from inodes to contents. Every system call
  may fail with an error of the environment \<open>env\<close>, which also chooses random numbers, the names
  of \<^verbatim>\<open>mkstemp\<close> and how much a \<^verbatim>\<open>write\<close> writes; \<open>fs_clock\<close> counts the calls made. The
  environment also holds GLib's path functions and the completion functions of other components.
  \<^verbatim>\<open>fsync\<close> is taken to be available (\<^verbatim>\<open>HAVE_FSYNC\<close>). A fault is \<open>None\<close>.
\<close>

subsection \<open>Files\<close>

datatype errno = ENOENT | ENOTDIR | EEXIST | EINTR | EAGAIN | EOTHER nat

record FS =
  fs_names :: "string \<rightharpoonup> nat"
  fs_inodes :: "nat \<Rightarrow> bytes"
  fs_next :: nat
  fs_clock :: nat

record ENV =
  env_fault :: "nat \<Rightarrow> errno option"
  env_random :: "nat \<Rightarrow> nat"
  env_template :: "string \<Rightarrow> string"
  env_mkstemp :: "nat \<Rightarrow> string \<Rightarrow> string"
  env_written :: "nat \<Rightarrow> nat"
  env_build_filename :: "string \<Rightarrow> string \<Rightarrow> string"
  env_call :: "nat \<Rightarrow> bool \<Rightarrow> FS \<Rightarrow> bool \<times> FS"

definition tick :: "FS \<Rightarrow> FS" where
  "tick fs = fs\<lparr>fs_clock := Suc (fs_clock fs)\<rparr>"

definition sys_link :: "ENV \<Rightarrow> string \<Rightarrow> string \<Rightarrow> FS \<Rightarrow> errno option \<times> FS" where
  "sys_link env old new fs =
     (case env_fault env (fs_clock fs) of
        Some e \<Rightarrow> (Some e, tick fs)
      | None \<Rightarrow>
          (case fs_names fs old of
             None \<Rightarrow> (Some ENOENT, tick fs)
           | Some i \<Rightarrow>
               if fs_names fs new \<noteq> None then (Some EEXIST, tick fs)
               else (None, tick (fs\<lparr>fs_names := (fs_names fs)(new \<mapsto> i)\<rparr>))))"

text \<open>Renaming one of two links to the same inode to the other is a success that changes nothing.\<close>

definition sys_rename :: "ENV \<Rightarrow> string \<Rightarrow> string \<Rightarrow> FS \<Rightarrow> errno option \<times> FS" where
  "sys_rename env old new fs =
     (case env_fault env (fs_clock fs) of
        Some e \<Rightarrow> (Some e, tick fs)
      | None \<Rightarrow>
          (case fs_names fs old of
             None \<Rightarrow> (Some ENOENT, tick fs)
           | Some i \<Rightarrow>
               if fs_names fs new = Some i then (None, tick fs)
               else (None, tick (fs\<lparr>fs_names := (fs_names fs)(old := None, new \<mapsto> i)\<rparr>))))"

definition sys_unlink :: "ENV \<Rightarrow> string \<Rightarrow> FS \<Rightarrow> errno option \<times> FS" where
  "sys_unlink env name fs =
     (case env_fault env (fs_clock fs) of
        Some e \<Rightarrow> (Some e, tick fs)
      | None \<Rightarrow>
          if fs_names fs name = None then (Some ENOENT, tick fs)
          else (None, tick (fs\<lparr>fs_names := (fs_names fs)(name := None)\<rparr>)))"

text \<open>Creating a new empty file, \<^verbatim>\<open>open\<close> with \<^verbatim>\<open>O_CREAT | O_EXCL\<close>; the descriptor is the inode.\<close>

definition sys_create :: "ENV \<Rightarrow> string \<Rightarrow> FS \<Rightarrow> (errno + nat) \<times> FS" where
  "sys_create env name fs =
     (case env_fault env (fs_clock fs) of
        Some e \<Rightarrow> (Inl e, tick fs)
      | None \<Rightarrow>
          if fs_names fs name \<noteq> None then (Inl EEXIST, tick fs)
          else (Inr (fs_next fs),
                tick (fs\<lparr>fs_names := (fs_names fs)(name \<mapsto> fs_next fs),
                         fs_inodes := (fs_inodes fs)(fs_next fs := []),
                         fs_next := Suc (fs_next fs)\<rparr>)))"

definition sys_mkstemp :: "ENV \<Rightarrow> string \<Rightarrow> FS \<Rightarrow> string \<times> (errno + nat) \<times> FS" where
  "sys_mkstemp env template fs =
     (let name = env_mkstemp env (fs_clock fs) template
      in case sys_create env name fs of
           (Inl e, fs') \<Rightarrow> (template, Inl e, fs')
         | (Inr fd, fs') \<Rightarrow> (name, Inr fd, fs'))"

text \<open>\<^verbatim>\<open>write\<close> appends at least one byte and at most what it was given, or fails.\<close>

definition sys_write :: "ENV \<Rightarrow> nat \<Rightarrow> bytes \<Rightarrow> FS \<Rightarrow> (errno + nat) \<times> FS" where
  "sys_write env fd data fs =
     (case env_fault env (fs_clock fs) of
        Some e \<Rightarrow> (Inl e, tick fs)
      | None \<Rightarrow>
          let n = max 1 (min (env_written env (fs_clock fs)) (length data))
          in (Inr n, tick (fs\<lparr>fs_inodes :=
                (fs_inodes fs)(fd := fs_inodes fs fd @ take n data)\<rparr>)))"

text \<open>\<^verbatim>\<open>fsync\<close> and \<^verbatim>\<open>close\<close> change nothing a reader can see.\<close>

definition sys_sync :: "ENV \<Rightarrow> FS \<Rightarrow> errno option \<times> FS" where
  "sys_sync env fs = (env_fault env (fs_clock fs), tick fs)"

subsection \<open>Transactions\<close>

datatype complete =
    Complete_new_file string
  | Complete_link_temporary string
  | Complete_call nat

record GkmTransaction =
  completes :: "complete list"
  failed :: bool
  completed :: bool
  result :: CK_RV

definition gkm_transaction_new :: GkmTransaction where
  "gkm_transaction_new = \<lparr>completes = [], failed = False, completed = False, result = CKR_OK\<rparr>"

definition gkm_transaction_get_completed :: "GkmTransaction \<Rightarrow> bool" where
  "gkm_transaction_get_completed self = completed self"

definition gkm_transaction_get_failed :: "GkmTransaction \<Rightarrow> bool" where
  "gkm_transaction_get_failed self = failed self"

definition gkm_transaction_get_result :: "GkmTransaction \<Rightarrow> CK_RV" where
  "gkm_transaction_get_result self = result self"

definition gkm_transaction_add :: "complete \<Rightarrow> GkmTransaction \<Rightarrow> GkmTransaction" where
  "gkm_transaction_add c self = self\<lparr>completes := c # completes self\<rparr>"

definition gkm_transaction_fail :: "CK_RV \<Rightarrow> GkmTransaction \<Rightarrow> GkmTransaction" where
  "gkm_transaction_fail rv self =
     (if completed self then self
      else if rv = CKR_OK then self
      else if failed self then self
      else self\<lparr>failed := True, result := rv\<rparr>)"

subsection \<open>Completion functions\<close>

text \<open>The text before the last dot, \<^verbatim>\<open>strrchr (original, '.')\<close> and a NUL stored there.\<close>

definition before_last_dot :: "string \<Rightarrow> string option" where
  "before_last_dot s =
     (if CHR ''.'' \<in> set s then Some (rev (tl (dropWhile (\<lambda>c. c \<noteq> CHR ''.'') (rev s)))) else None)"

definition after_last_dot :: "string \<Rightarrow> string" where
  "after_last_dot s = rev (takeWhile (\<lambda>c. c \<noteq> CHR ''.'') (rev s))"

definition complete_new_file :: "ENV \<Rightarrow> GkmTransaction \<Rightarrow> string \<Rightarrow> FS \<Rightarrow> bool \<times> FS" where
  "complete_new_file env self path fs =
     (if gkm_transaction_get_failed self then
        (case sys_unlink env path fs of
           (None, fs') \<Rightarrow> (True, fs')
         | (Some e, fs') \<Rightarrow> (False, fs'))
      else (True, fs))"

definition complete_link_temporary :: "ENV \<Rightarrow> GkmTransaction \<Rightarrow> string \<Rightarrow> FS \<Rightarrow> bool \<times> FS" where
  "complete_link_temporary env self path fs =
     (if gkm_transaction_get_failed self then
        (case before_last_dot path of
           None \<Rightarrow> (False, fs)
         | Some original \<Rightarrow>
             (case sys_rename env path original fs of
                (None, fs') \<Rightarrow> (True, fs')
              | (Some e, fs') \<Rightarrow> (False, fs')))
      else (True, snd (sys_unlink env path fs)))"

definition complete_invoke :: "ENV \<Rightarrow> GkmTransaction \<Rightarrow> complete \<Rightarrow> FS \<Rightarrow> bool \<times> FS" where
  "complete_invoke env self c fs =
     (case c of
        Complete_new_file path \<Rightarrow> complete_new_file env self path fs
      | Complete_link_temporary path \<Rightarrow> complete_link_temporary env self path fs
      | Complete_call f \<Rightarrow> env_call env f (failed self) fs)"

text \<open>The result of each completion function is dropped.\<close>

fun invoke_all :: "ENV \<Rightarrow> GkmTransaction \<Rightarrow> complete list \<Rightarrow> FS \<Rightarrow> FS" where
  "invoke_all env self [] fs = fs"
| "invoke_all env self (c # cs) fs = invoke_all env self cs (snd (complete_invoke env self c fs))"

definition gkm_transaction_real_complete :: "ENV \<Rightarrow> GkmTransaction \<Rightarrow> FS \<Rightarrow> bool \<times> GkmTransaction \<times> FS" where
  "gkm_transaction_real_complete env self fs =
     (if completed self then (False, self, fs)
      else
        let self1 = self\<lparr>completed := True\<rparr>;
            fs1 = invoke_all env self1 (completes self1) fs
        in (True, self1\<lparr>completes := []\<rparr>, fs1))"

text \<open>
  The accumulator of the signal: \<open>accu\<close> is the value accumulated so far, which GLib starts with
  \<open>False\<close>; it is only ever set to \<open>False\<close>.
\<close>

definition complete_accumulator :: "bool \<Rightarrow> bool \<Rightarrow> bool" where
  "complete_accumulator accu handler_return = (if handler_return = False then False else accu)"

definition gkm_transaction_complete :: "ENV \<Rightarrow> GkmTransaction \<Rightarrow> FS \<Rightarrow> (GkmTransaction \<times> FS) option" where
  "gkm_transaction_complete env self fs =
     (if completed self then Some (self, fs)
      else
        let (ret, self1, fs1) = gkm_transaction_real_complete env self fs;
            critical = complete_accumulator False ret
        in if \<not> completed self1 then None
           else Some (if \<not> failed self1 \<and> critical
                      then self1\<lparr>failed := True, result := CKR_GENERAL_ERROR\<rparr> else self1, fs1))"

definition gkm_transaction_complete_and_unref ::
    "ENV \<Rightarrow> GkmTransaction \<Rightarrow> FS \<Rightarrow> (CK_RV \<times> GkmTransaction \<times> FS) option" where
  "gkm_transaction_complete_and_unref env self fs = do {
     (self1, fs1) \<leftarrow> gkm_transaction_complete env self fs;
     Some (gkm_transaction_get_result self1, self1, fs1)
   }"

text \<open>Disposing an object that was not completed completes it; \<open>finalize\<close> then asserts it is.\<close>

definition gkm_transaction_dispose :: "ENV \<Rightarrow> GkmTransaction \<Rightarrow> FS \<Rightarrow> (GkmTransaction \<times> FS) option" where
  "gkm_transaction_dispose env self fs =
     (if \<not> completed self then gkm_transaction_complete env self fs else Some (self, fs))"

definition gkm_transaction_finalize :: "GkmTransaction \<Rightarrow> unit option" where
  "gkm_transaction_finalize self =
     (if completes self \<noteq> [] then None else if \<not> completed self then None else Some ())"

subsection \<open>Changing files\<close>

fun show_nat :: "nat \<Rightarrow> string" where
  "show_nat n = (if n < 10 then [char_of (48 + n)] else show_nat (n div 10) @ [char_of (48 + n mod 10)])"

declare show_nat.simps [simp del]

definition temp_name :: "string \<Rightarrow> nat \<Rightarrow> string" where
  "temp_name filename r = filename @ ''.temp-'' @ show_nat r"

definition begin_new_file :: "string \<Rightarrow> GkmTransaction \<Rightarrow> (bool \<times> GkmTransaction) option" where
  "begin_new_file filename self =
     (if gkm_transaction_get_failed self then None
      else Some (True, gkm_transaction_add (Complete_new_file filename) self))"

definition MAX_TRIES :: nat where "MAX_TRIES = 100000"

text \<open>The attempts left are counted down; none left is \<^verbatim>\<open>g_assert_not_reached\<close>.\<close>

fun link_temporary :: "ENV \<Rightarrow> nat \<Rightarrow> string \<Rightarrow> GkmTransaction \<Rightarrow> FS
    \<Rightarrow> (bool \<times> bool \<times> GkmTransaction \<times> FS) option" where
  "link_temporary env 0 filename self fs = None"
| "link_temporary env (Suc n) filename self fs =
     (let result = temp_name filename (env_random env (fs_clock fs))
      in case sys_link env filename result fs of
           (None, fs') \<Rightarrow>
             Some (True, True, gkm_transaction_add (Complete_link_temporary result) self, fs')
         | (Some e, fs') \<Rightarrow>
             if e = ENOENT \<or> e = ENOTDIR then Some (True, False, self, fs')
             else if e \<noteq> EEXIST then Some (False, True, gkm_transaction_fail CKR_DEVICE_ERROR self, fs')
             else link_temporary env n filename self fs')"

definition begin_link_temporary_if_exists :: "ENV \<Rightarrow> string \<Rightarrow> GkmTransaction \<Rightarrow> FS
    \<Rightarrow> (bool \<times> bool \<times> GkmTransaction \<times> FS) option" where
  "begin_link_temporary_if_exists env filename self fs =
     (if gkm_transaction_get_failed self then None
      else link_temporary env MAX_TRIES filename self fs)"

text \<open>
  The loop of \<open>write_sync_close\<close>: \<open>n\<close> is \<open>n_data\<close>, an unsigned number, and \<open>data\<close> does not
  advance. \<^verbatim>\<open>MAX (res, n_data)\<close> compares as unsigned: it is \<open>n_data\<close> after any successful write
  and \<open>2 ^ 64 - 1\<close> after an interrupted one. Reading more than the block at \<open>data\<close> faults.
\<close>

definition unsigned_minus_one :: nat where "unsigned_minus_one = 2 ^ 64 - 1"

partial_function (option) write_loop ::
    "ENV \<Rightarrow> nat \<Rightarrow> bytes \<Rightarrow> nat \<Rightarrow> FS \<Rightarrow> (bool \<times> FS) option" where
  "write_loop env fd data n fs =
     (if n > 0 then
        if n > length data then None
        else (case sys_write env fd (take n data) fs of
                (Inl e, fs') \<Rightarrow>
                  if e \<noteq> EINTR \<and> e \<noteq> EAGAIN then Some (False, snd (sys_sync env fs'))
                  else write_loop env fd data (size_sub n unsigned_minus_one) fs'
              | (Inr res, fs') \<Rightarrow> write_loop env fd data (size_sub n (max res n)) fs')
      else Some (True, fs))"

definition write_sync_close :: "ENV \<Rightarrow> nat option \<Rightarrow> bytes \<Rightarrow> FS \<Rightarrow> (bool \<times> FS) option" where
  "write_sync_close env fd data fs =
     (case fd of
        None \<Rightarrow> Some (False, fs)
      | Some i \<Rightarrow> do {
          (ok, fs1) \<leftarrow> write_loop env i data (length data) fs;
          if \<not> ok then Some (False, fs1)
          else (case sys_sync env fs1 of
                  (Some e, fs2) \<Rightarrow> Some (False, snd (sys_sync env fs2))
                | (None, fs2) \<Rightarrow>
                    (case sys_sync env fs2 of
                       (Some e, fs3) \<Rightarrow> Some (False, fs3)
                     | (None, fs3) \<Rightarrow> Some (True, fs3)))
        })"

definition write_to_file :: "ENV \<Rightarrow> string \<Rightarrow> bytes \<Rightarrow> FS \<Rightarrow> (bool \<times> FS) option" where
  "write_to_file env filename data fs =
     (case sys_mkstemp env (env_template env filename) fs of
        (template, fd, fs1) \<Rightarrow> do {
          (ok, fs2) \<leftarrow> write_sync_close env (case fd of Inl e \<Rightarrow> None | Inr i \<Rightarrow> Some i) data fs1;
          if ok then (case sys_rename env template filename fs2 of
                        (None, fs3) \<Rightarrow> Some (True, fs3)
                      | (Some e, fs3) \<Rightarrow> Some (False, fs3))
          else Some (False, snd (sys_unlink env template fs2))
        })"

definition gkm_transaction_write_file ::
    "ENV \<Rightarrow> string \<Rightarrow> bytes \<Rightarrow> GkmTransaction \<Rightarrow> FS \<Rightarrow> (GkmTransaction \<times> FS) option" where
  "gkm_transaction_write_file env filename data self fs =
     (if gkm_transaction_get_failed self then Some (self, fs)
      else do {
        (ok, exists, self1, fs1) \<leftarrow> begin_link_temporary_if_exists env filename self fs;
        if \<not> ok then Some (self1, fs1)
        else do {
          self2 \<leftarrow> (if \<not> exists then map_option snd (begin_new_file filename self1) else Some self1);
          (wrote, fs2) \<leftarrow> write_to_file env filename data fs1;
          Some (if wrote then self2 else gkm_transaction_fail CKR_DEVICE_ERROR self2, fs2)
        }
      })"

definition gkm_transaction_remove_file ::
    "ENV \<Rightarrow> string \<Rightarrow> GkmTransaction \<Rightarrow> FS \<Rightarrow> (GkmTransaction \<times> FS) option" where
  "gkm_transaction_remove_file env filename self fs =
     (if gkm_transaction_get_failed self then Some (self, fs)
      else do {
        (ok, exists, self1, fs1) \<leftarrow> begin_link_temporary_if_exists env filename self fs;
        if \<not> ok then Some (self1, fs1)
        else if \<not> exists then Some (self1, fs1)
        else (case sys_unlink env filename fs1 of
                (None, fs2) \<Rightarrow> Some (self1, fs2)
              | (Some e, fs2) \<Rightarrow> Some (gkm_transaction_fail CKR_DEVICE_ERROR self1, fs2))
      })"

text \<open>
  The search for an unused name, by seed; the result is the name tried last, the outcome of
  \<^verbatim>\<open>open\<close> and the file system.
\<close>

definition seed_name :: "string \<Rightarrow> nat \<Rightarrow> string" where
  "seed_name basename seed =
     (case before_last_dot basename of
        None \<Rightarrow> basename @ ''_'' @ show_nat seed
      | Some b \<Rightarrow> b @ ''_'' @ show_nat seed @ ''.'' @ after_last_dot basename)"

function unique_loop :: "ENV \<Rightarrow> string \<Rightarrow> string \<Rightarrow> nat \<Rightarrow> FS
    \<Rightarrow> string \<times> string \<times> (errno + nat) \<times> FS" where
  "unique_loop env directory basename seed fs =
     (let result = seed_name basename seed; filename = env_build_filename env directory result
      in case sys_create env filename fs of
           (Inr fd, fs') \<Rightarrow> (result, filename, Inr fd, fs')
         | (Inl e, fs') \<Rightarrow>
             if Suc seed < MAX_TRIES \<and> e = EEXIST
             then unique_loop env directory basename (Suc seed) fs'
             else (result, filename, Inl e, fs'))"
  by pat_completeness auto
termination by (relation "measure (\<lambda>(env, d, b, seed, fs). MAX_TRIES - seed)") auto

declare unique_loop.simps [simp del]

text \<open>
  The test of \<^verbatim>\<open>g_mkdir_with_parents\<close>, \<^verbatim>\<open>!g_mkdir_with_parents (...) < 0\<close>, is never true, so the
  directory call has no influence here.
\<close>

definition gkm_transaction_unique_file ::
    "ENV \<Rightarrow> string \<Rightarrow> string \<Rightarrow> GkmTransaction \<Rightarrow> FS \<Rightarrow> string option \<times> GkmTransaction \<times> FS" where
  "gkm_transaction_unique_file env directory basename self fs =
     (if gkm_transaction_get_failed self then (None, self, fs)
      else
        let filename = env_build_filename env directory basename;
            (result, filename, fd, fs1) =
              (case sys_create env filename fs of
                 (Inr fd, fs1) \<Rightarrow> (Some basename, filename, Inr fd, fs1)
               | (Inl e, fs1) \<Rightarrow>
                   if e = EEXIST
                   then (case unique_loop env directory basename 1 fs1 of
                           (name, path, fd, fs2) \<Rightarrow> (Some name, path, fd, fs2))
                   else (None, filename, Inl e, fs1));
            (self1, fs2) =
              (case fd of
                 Inl e \<Rightarrow> (gkm_transaction_fail CKR_DEVICE_ERROR self, fs1)
               | Inr i \<Rightarrow> (gkm_transaction_add (Complete_new_file filename) self, snd (sys_sync env fs1)))
        in (if gkm_transaction_get_failed self1 then None else result, self1, fs2))"

subsection \<open>Names\<close>

lemma show_nat_no_dot: "CHR ''.'' \<notin> set (show_nat n)"
proof (induction n rule: show_nat.induct)
  case (1 n)
  have dot: "CHR ''.'' \<noteq> char_of (48 + k)" if "k < 10" for k :: nat
  proof
    assume "CHR ''.'' = char_of (48 + k)"
    then have "of_char (CHR ''.'') = (of_char (char_of (48 + k)) :: nat)" by simp
    with that show False by simp
  qed
  show ?case
  proof (cases "n < 10")
    case True
    with dot show ?thesis by (subst show_nat.simps) auto
  next
    case False
    with 1 dot [of "n mod 10"] show ?thesis by (subst show_nat.simps) auto
  qed
qed

lemma before_last_dot_temp: "before_last_dot (temp_name f r) = Some f"
proof -
  have nd: "CHR ''.'' \<notin> set (''temp-'' @ show_nat r)" using show_nat_no_dot by simp
  have rv: "rev (temp_name f r) = rev (''temp-'' @ show_nat r) @ CHR ''.'' # rev f"
    by (simp add: temp_name_def)
  have "dropWhile (\<lambda>c. c \<noteq> CHR ''.'') (rev (''temp-'' @ show_nat r) @ CHR ''.'' # rev f)
      = CHR ''.'' # rev f"
    using nd by (subst dropWhile_append2) auto
  then show ?thesis unfolding before_last_dot_def rv by (simp add: temp_name_def)
qed

text \<open>
  The names a store uses (\<open>F\<close>) and the names that are only used for a moment: links named after a
  file of the store, and the files of \<^verbatim>\<open>mkstemp\<close>.
\<close>

definition mk_name :: "ENV \<Rightarrow> string \<Rightarrow> bool" where
  "mk_name env n \<longleftrightarrow> (\<exists>k g. n = env_mkstemp env k g) \<or> (\<exists>g. n = env_template env g)"

definition temp_file :: "ENV \<Rightarrow> string set \<Rightarrow> string \<Rightarrow> bool" where
  "temp_file env F n \<longleftrightarrow> mk_name env n \<or> (\<exists>f \<in> F. \<exists>r. n = temp_name f r)"

definition names_ok :: "ENV \<Rightarrow> string set \<Rightarrow> bool" where
  "names_ok env F \<longleftrightarrow> (\<forall>f \<in> F. \<not> temp_file env F f) \<and> (\<forall>f \<in> F. \<forall>r. \<not> mk_name env (temp_name f r))"

definition view :: "FS \<Rightarrow> string \<Rightarrow> bytes option" where
  "view fs n = map_option (fs_inodes fs) (fs_names fs n)"

definition fs_wf :: "FS \<Rightarrow> bool" where
  "fs_wf fs \<longleftrightarrow> (\<forall>n i. fs_names fs n = Some i \<longrightarrow> i < fs_next fs)"

subsection \<open>Undoing\<close>

type_synonym names = "string \<rightharpoonup> nat"

fun undo :: "complete \<Rightarrow> names \<Rightarrow> names" where
  "undo (Complete_new_file p) nm = nm(p := None)"
| "undo (Complete_link_temporary t) nm =
     (case (before_last_dot t, nm t) of
        (Some f, Some i) \<Rightarrow> if nm f = Some i then nm else nm(t := None, f \<mapsto> i)
      | _ \<Rightarrow> nm)"
| "undo (Complete_call c) nm = nm"

definition rollback :: "complete list \<Rightarrow> names \<Rightarrow> names" where
  "rollback L nm = fold undo L nm"

text \<open>Every backup of the log is there when its turn comes.\<close>

fun ready :: "string set \<Rightarrow> complete list \<Rightarrow> names \<Rightarrow> bool" where
  "ready F [] nm \<longleftrightarrow> True"
| "ready F (Complete_new_file p # L) nm \<longleftrightarrow> p \<in> F \<and> ready F L (undo (Complete_new_file p) nm)"
| "ready F (Complete_link_temporary t # L) nm \<longleftrightarrow>
     (\<exists>f \<in> F. \<exists>r. t = temp_name f r) \<and> nm t \<noteq> None \<and> ready F L (undo (Complete_link_temporary t) nm)"
| "ready F (Complete_call c # L) nm \<longleftrightarrow> False"

text \<open>\<open>nm1\<close> has the names of \<open>nm\<close> and perhaps more temporary ones.\<close>

definition extends :: "ENV \<Rightarrow> string set \<Rightarrow> names \<Rightarrow> names \<Rightarrow> bool" where
  "extends env F nm nm1 \<longleftrightarrow>
     (\<forall>n. \<not> mk_name env n \<and> nm n \<noteq> None \<longrightarrow> nm1 n = nm n)
     \<and> (\<forall>n. \<not> temp_file env F n \<and> nm n = None \<longrightarrow> nm1 n = None)"

lemma extends_same: "extends env F nm nm1 \<Longrightarrow> \<not> temp_file env F n \<Longrightarrow> nm1 n = nm n"
  by (cases "nm n") (auto simp: extends_def temp_file_def)

lemma undo_extends:
  assumes "names_ok env F" and "extends env F nm nm1" and "ready F (c # L) nm"
  shows "extends env F (undo c nm) (undo c nm1) \<and> ready F (c # []) nm1"
proof (cases c)
  case (Complete_new_file p)
  with assms show ?thesis by (auto simp: extends_def)
next
  case (Complete_link_temporary t)
  with assms(3) obtain f r i where t: "t = temp_name f r" "f \<in> F" "nm t = Some i" by auto
  have nmk: "\<not> mk_name env t" "\<not> temp_file env F f" using assms(1) t by (auto simp: names_ok_def)
  then have t1: "nm1 t = Some i" "nm1 f = nm f"
    using assms(2) t extends_same [OF assms(2)] by (auto simp: extends_def)
  with t Complete_link_temporary assms(2) show ?thesis
    by (auto simp: before_last_dot_temp extends_def)
next
  case (Complete_call k)
  with assms(3) show ?thesis by simp
qed

lemma rollback_extends:
  assumes "names_ok env F" and "extends env F nm nm1" and "ready F L nm"
  shows "extends env F (rollback L nm) (rollback L nm1) \<and> ready F L nm1"
  using assms(2,3)
proof (induction L arbitrary: nm nm1)
  case (Cons c L)
  note u = undo_extends [OF assms(1) Cons.prems]
  have "ready F L (undo c nm)" using Cons.prems(2) by (cases c) auto
  from Cons.IH [OF conjunct1 [OF u] this]
  have "extends env F (rollback L (undo c nm)) (rollback L (undo c nm1))" "ready F L (undo c nm1)"
    by blast+
  with conjunct2 [OF u] show ?case
    by (cases c) (simp_all add: rollback_def del: undo.simps)
qed (simp add: rollback_def)

subsection \<open>The undo log is right at every moment\<close>

text \<open>
  \<open>undoable env F fs0 fs L\<close>: undoing the log \<open>L\<close> in \<open>fs\<close> gives the files of \<open>fs0\<close> back. No
  inode of \<open>fs0\<close> has been written to.
\<close>

definition undoable :: "ENV \<Rightarrow> string set \<Rightarrow> FS \<Rightarrow> FS \<Rightarrow> complete list \<Rightarrow> bool" where
  "undoable env F fs0 fs L \<longleftrightarrow> fs_wf fs \<and> fs_next fs0 \<le> fs_next fs
     \<and> (\<forall>i < fs_next fs0. fs_inodes fs i = fs_inodes fs0 i)
     \<and> ready F L (fs_names fs)
     \<and> (\<forall>n. \<not> temp_file env F n \<longrightarrow> rollback L (fs_names fs) n = fs_names fs0 n)"

text \<open>The inodes in use stay as they are.\<close>

definition keeps_inodes :: "FS \<Rightarrow> FS \<Rightarrow> bool" where
  "keeps_inodes fs fs' \<longleftrightarrow> fs_wf fs' \<and> fs_next fs \<le> fs_next fs'
     \<and> (\<forall>i < fs_next fs. fs_inodes fs' i = fs_inodes fs i)"

lemma keeps_refl [simp]: "keeps_inodes fs fs \<longleftrightarrow> fs_wf fs"
  by (simp add: keeps_inodes_def)

lemma keeps_trans: "keeps_inodes a b \<Longrightarrow> keeps_inodes b c \<Longrightarrow> keeps_inodes a c"
  by (auto simp: keeps_inodes_def)

lemma tick_simps [simp]: "fs_names (tick fs) = fs_names fs" "fs_inodes (tick fs) = fs_inodes fs"
  "fs_next (tick fs) = fs_next fs" "fs_clock (tick fs) = Suc (fs_clock fs)"
  by (simp_all add: tick_def)

lemma undoable_keep:
  assumes "names_ok env F" and "undoable env F fs0 fs L" and "keeps_inodes fs fs'"
    and "extends env F (fs_names fs) (fs_names fs')"
  shows "undoable env F fs0 fs' L"
proof -
  from assms(2) have u: "ready F L (fs_names fs)" "fs_next fs0 \<le> fs_next fs"
    "\<forall>i < fs_next fs0. fs_inodes fs i = fs_inodes fs0 i"
    "\<forall>n. \<not> temp_file env F n \<longrightarrow> rollback L (fs_names fs) n = fs_names fs0 n"
    by (simp_all add: undoable_def)
  note r = rollback_extends [OF assms(1,4) u(1)]
  from r u assms(3) extends_same [OF conjunct1 [OF r]] show ?thesis
    by (auto simp: undoable_def keeps_inodes_def)
qed

text \<open>A new log entry whose undo leads back to what the old log covers.\<close>

lemma undoable_push:
  assumes "names_ok env F" and "undoable env F fs0 fs L" and "keeps_inodes fs fs'"
    and "extends env F (fs_names fs) (undo c (fs_names fs'))" and "ready F [c] (fs_names fs')"
  shows "undoable env F fs0 fs' (c # L)"
proof -
  from assms(2) have u: "ready F L (fs_names fs)" "fs_next fs0 \<le> fs_next fs"
    "\<forall>i < fs_next fs0. fs_inodes fs i = fs_inodes fs0 i"
    "\<forall>n. \<not> temp_file env F n \<longrightarrow> rollback L (fs_names fs) n = fs_names fs0 n"
    by (simp_all add: undoable_def)
  note r = rollback_extends [OF assms(1,4) u(1)]
  have "ready F (c # L) (fs_names fs')" using r assms(5) by (cases c) (simp_all del: undo.simps)
  moreover have "rollback (c # L) (fs_names fs') = rollback L (undo c (fs_names fs'))"
    by (simp add: rollback_def)
  ultimately show ?thesis
    using u assms(3) extends_same [OF conjunct1 [OF r]] by (auto simp: undoable_def keeps_inodes_def)
qed

text \<open>
  What an operation on the file \<open>f\<close> may do besides: nothing to any other name that is not one of
  \<^verbatim>\<open>mkstemp\<close>'s.
\<close>

definition only_file :: "ENV \<Rightarrow> string \<Rightarrow> FS \<Rightarrow> FS \<Rightarrow> bool" where
  "only_file env f fs fs' \<longleftrightarrow> keeps_inodes fs fs'
     \<and> (\<forall>n. n \<noteq> f \<and> \<not> mk_name env n \<longrightarrow> fs_names fs' n = fs_names fs n)"

lemma only_file_trans: "only_file env f a b \<Longrightarrow> only_file env f b c \<Longrightarrow> only_file env f a c"
  by (auto simp: only_file_def intro: keeps_trans)

lemma push_new_file:
  assumes "names_ok env F" and "undoable env F fs0 fs L" and "f \<in> F" and "fs_names fs f = None"
    and "only_file env f fs fs'"
  shows "undoable env F fs0 fs' (Complete_new_file f # L)"
  using assms(3-5)
  by (intro undoable_push [OF assms(1,2)]) (auto simp: only_file_def extends_def temp_file_def)

lemma push_link:
  assumes "names_ok env F" and "undoable env F fs0 fs L" and "f \<in> F"
    and "fs_names fs f = Some i" and "fs_names fs (temp_name f r) = None"
    and "fs_names fs1 = (fs_names fs)(temp_name f r \<mapsto> i)" and "keeps_inodes fs fs1"
    and "only_file env f fs1 fs'"
  shows "undoable env F fs0 fs' (Complete_link_temporary (temp_name f r) # L)"
proof (rule undoable_push [OF assms(1,2)])
  let ?t = "temp_name f r"
  have ne: "?t \<noteq> f" by (simp add: temp_name_def)
  have t: "\<not> mk_name env ?t" "temp_file env F ?t" "\<not> temp_file env F f"
    using assms(1,3) by (auto simp: names_ok_def temp_file_def)
  have at: "fs_names fs' ?t = Some i" using assms(6,8) ne t(1) by (simp add: only_file_def)
  show "keeps_inodes fs fs'" using assms(7,8) keeps_trans by (auto simp: only_file_def)
  show "ready F [Complete_link_temporary ?t] (fs_names fs')" using assms(3) at by auto
  have others: "fs_names fs' n = fs_names fs n" if "n \<noteq> f" "n \<noteq> ?t" "\<not> mk_name env n" for n
    using assms(6,8) that by (simp add: only_file_def)
  have u: "undo (Complete_link_temporary ?t) (fs_names fs') n = fs_names fs n"
    if "n \<noteq> ?t" "\<not> mk_name env n" for n
    using at others [OF _ that] ne that(1) assms(4) by (auto simp: before_last_dot_temp)
  show "extends env F (fs_names fs) (undo (Complete_link_temporary ?t) (fs_names fs'))"
    unfolding extends_def
  proof (intro conjI allI impI)
    fix n assume "\<not> mk_name env n \<and> fs_names fs n \<noteq> None"
    with assms(5) u show "undo (Complete_link_temporary ?t) (fs_names fs') n = fs_names fs n"
      by (cases "n = ?t") auto
  next
    fix n assume "\<not> temp_file env F n \<and> fs_names fs n = None"
    moreover from this have "n \<noteq> ?t" "\<not> mk_name env n" using t(2) by (auto simp: temp_file_def)
    ultimately show "undo (Complete_link_temporary ?t) (fs_names fs') n = None" using u by simp
  qed
qed

subsection \<open>The operations\<close>

text \<open>Errors the environment adds do not pretend that a file is missing or present.\<close>

definition env_ok :: "ENV \<Rightarrow> bool" where
  "env_ok env \<longleftrightarrow> (\<forall>k. env_fault env k \<notin> {Some ENOENT, Some ENOTDIR, Some EEXIST})"

text \<open>Same files; only the clock may differ.\<close>

definition same_files :: "FS \<Rightarrow> FS \<Rightarrow> bool" where
  "same_files fs fs' \<longleftrightarrow> fs_names fs' = fs_names fs \<and> fs_inodes fs' = fs_inodes fs \<and> fs_next fs' = fs_next fs"

lemma same_files_simps [simp]: "same_files fs (tick fs)" "same_files fs fs"
  by (simp_all add: same_files_def)

lemma same_files_only: "same_files fs fs' \<Longrightarrow> fs_wf fs \<Longrightarrow> only_file env f fs fs'"
  by (auto simp: same_files_def only_file_def keeps_inodes_def fs_wf_def)

lemma only_file_keeps: "only_file env f fs fs' \<Longrightarrow> keeps_inodes fs fs'"
  by (simp add: only_file_def)

lemma keeps_wf: "keeps_inodes fs fs' \<Longrightarrow> fs_wf fs'"
  by (simp add: keeps_inodes_def)

lemma unlink_only:
  assumes "fs_wf fs" and "n = f \<or> mk_name env n"
  shows "only_file env f fs (snd (sys_unlink env n fs))"
  using assms
  by (auto simp: sys_unlink_def only_file_def keeps_inodes_def fs_wf_def split: option.splits)

lemma rename_only:
  assumes "fs_wf fs" and "mk_name env n"
  shows "only_file env f fs (snd (sys_rename env n f fs))"
  using assms
  by (auto simp: sys_rename_def only_file_def keeps_inodes_def fs_wf_def split: option.splits)

lemma sync_same: "same_files fs (snd (sys_sync env fs))"
  by (simp add: sys_sync_def)

lemma create_cases [consumes 1, case_names fail ok]:
  assumes "sys_create env n fs = (r, fs')"
  obtains (fail) e where "r = Inl e" and "same_files fs fs'"
    | (ok) "r = Inr (fs_next fs)" and "fs_names fs n = None"
      and "fs' = tick (fs\<lparr>fs_names := (fs_names fs)(n \<mapsto> fs_next fs),
        fs_inodes := (fs_inodes fs)(fs_next fs := []), fs_next := Suc (fs_next fs)\<rparr>)"
  using assms that
  by (auto simp: sys_create_def split: option.splits if_splits)

lemma write_loop_effect:
  assumes "write_loop env fd data n fs = Some (ok, fs')"
  shows "fs_names fs' = fs_names fs \<and> fs_next fs' = fs_next fs
    \<and> (\<forall>i. i \<noteq> fd \<longrightarrow> fs_inodes fs' i = fs_inodes fs i)"
proof -
  have "(\<lambda>(env, fd, data, n, fs) (ok, fs'). fs_names fs' = fs_names fs \<and> fs_next fs' = fs_next fs
      \<and> (\<forall>i. i \<noteq> fd \<longrightarrow> fs_inodes fs' i = fs_inodes fs i)) (env, fd, data, n, fs) (ok, fs')"
  proof (rule write_loop.raw_induct [OF _ assms], goal_cases)
    case (1 loop env fd data n fs y)
    obtain r fs1 where w: "sys_write env fd (take n data) fs = (r, fs1)" by fastforce
    then have e: "fs_names fs1 = fs_names fs" "fs_next fs1 = fs_next fs"
      "\<forall>i. i \<noteq> fd \<longrightarrow> fs_inodes fs1 i = fs_inodes fs i"
      by (auto simp: sys_write_def Let_def split: option.splits)
    show ?case
    proof (cases "n > 0 \<and> n \<le> length data")
      case False
      with 1(2) show ?thesis by (auto split: if_splits)
    next
      case True
      then have body: "(case r of Inl e \<Rightarrow> if e \<noteq> EINTR \<and> e \<noteq> EAGAIN then Some (False, snd (sys_sync env fs1))
            else loop env fd data (size_sub n unsigned_minus_one) fs1
          | Inr res \<Rightarrow> loop env fd data (size_sub n (max res n)) fs1) = Some y"
      proof -
        from True have c: "(n > 0) = True" "(n > length data) = False" by auto
        from 1(2) show ?thesis unfolding c w if_True if_False prod.case .
      qed
      then have "y = (False, snd (sys_sync env fs1)) \<or> (\<exists>m. loop env fd data m fs1 = Some y)"
        by (cases r) (auto split: if_splits)
      then consider "y = (False, snd (sys_sync env fs1))" | m where "loop env fd data m fs1 = Some y"
        by blast
      then show ?thesis
      proof cases
        case 1
        with e show ?thesis by (simp add: sys_sync_def)
      next
        case (2 m)
        from 1(1) [OF this] e show ?thesis by auto
      qed
    qed
  qed
  then show ?thesis by simp
qed

end
