(* ===== verification/GkmRollback.thy ===== *)
theory GkmRollback
  imports GkmTransaction
begin

text \<open>
  What a transaction of \<^verbatim>\<open>pkcs11/gkm/gkm-transaction.c\<close> promises: a sequence of writes, removals and
  creations of unique files, followed by the completion, either did all of it (the result is
  \<^verbatim>\<open>CKR_OK\<close>) or left every file of the store as it was.
\<close>

subsection \<open>Outcomes of the single steps\<close>

text \<open>The three ways in which the backup of \<open>f\<close> can end.\<close>

definition linked :: "string \<Rightarrow> GkmTransaction \<Rightarrow> FS \<Rightarrow> bool \<times> bool \<times> GkmTransaction \<times> FS \<Rightarrow> bool" where
  "linked f T fs res \<longleftrightarrow> (\<exists>r i fs'. res = (True, True, gkm_transaction_add (Complete_link_temporary (temp_name f r)) T, fs')
     \<and> fs_names fs f = Some i \<and> fs_names fs (temp_name f r) = None
     \<and> fs_names fs' = (fs_names fs)(temp_name f r \<mapsto> i) \<and> fs_inodes fs' = fs_inodes fs \<and> fs_next fs' = fs_next fs)"

definition absent :: "string \<Rightarrow> GkmTransaction \<Rightarrow> FS \<Rightarrow> bool \<times> bool \<times> GkmTransaction \<times> FS \<Rightarrow> bool" where
  "absent f T fs res \<longleftrightarrow> (\<exists>fs'. res = (True, False, T, fs') \<and> same_files fs fs' \<and> fs_names fs f = None)"

definition link_failed :: "GkmTransaction \<Rightarrow> FS \<Rightarrow> bool \<times> bool \<times> GkmTransaction \<times> FS \<Rightarrow> bool" where
  "link_failed T fs res \<longleftrightarrow>
     (\<exists>ex fs'. res = (False, ex, gkm_transaction_fail CKR_DEVICE_ERROR T, fs') \<and> same_files fs fs')"

lemma link_outcome_same_files:
  assumes "same_files fs fs1"
  shows "linked f T fs1 res \<longleftrightarrow> linked f T fs res" "absent f T fs1 res \<longleftrightarrow> absent f T fs res"
    "link_failed T fs1 res \<longleftrightarrow> link_failed T fs res"
  using assms by (simp_all add: same_files_def linked_def absent_def link_failed_def)

lemma link_temporary_outcome:
  assumes "env_ok env" and "link_temporary env n f T fs = Some res"
  shows "linked f T fs res \<or> absent f T fs res \<or> link_failed T fs res"
  using assms(2)
proof (induction n arbitrary: fs)
  case (Suc n)
  let ?t = "temp_name f (env_random env (fs_clock fs))"
  obtain r fs1 where l: "sys_link env f ?t fs = (r, fs1)" by fastforce
  have flt: "env_fault env (fs_clock fs) \<noteq> Some e" if "e \<in> {ENOENT, ENOTDIR, EEXIST}" for e
    using assms(1) that by (auto simp: env_ok_def)
  show ?case
  proof (cases r)
    case None
    with l obtain i where "fs_names fs f = Some i" "fs_names fs ?t = None"
      "fs1 = tick (fs\<lparr>fs_names := (fs_names fs)(?t \<mapsto> i)\<rparr>)"
      by (auto simp: sys_link_def split: option.splits if_splits)
    with None l Suc.prems have "linked f T fs res" by (auto simp: linked_def Let_def)
    then show ?thesis ..
  next
    case (Some e)
    with l have s: "same_files fs fs1" by (auto simp: sys_link_def split: option.splits if_splits)
    consider "e = ENOENT \<or> e = ENOTDIR" | "e \<notin> {ENOENT, ENOTDIR, EEXIST}" | "e = EEXIST" by blast
    then show ?thesis
    proof cases
      case 1
      with l Some flt [of e] have "fs_names fs f = None"
        by (auto simp: sys_link_def split: option.splits if_splits)
      with 1 l Some Suc.prems s show ?thesis by (auto simp: Let_def absent_def)
    next
      case 2
      with l Some Suc.prems s show ?thesis by (auto simp: Let_def link_failed_def)
    next
      case 3
      with l Some Suc.prems have "link_temporary env n f T fs1 = Some res" by (simp add: Let_def)
      from Suc.IH [OF this] show ?thesis by (simp add: link_outcome_same_files [OF s])
    qed
  qed
qed simp

lemma begin_link_outcome:
  assumes "env_ok env" and "begin_link_temporary_if_exists env f T fs = Some res"
  obtains "\<not> failed T" "linked f T fs res" | "\<not> failed T" "absent f T fs res"
    | "\<not> failed T" "link_failed T fs res"
  using assms(2) link_temporary_outcome [OF assms(1), of MAX_TRIES f T fs res]
  by (auto simp: begin_link_temporary_if_exists_def gkm_transaction_get_failed_def split: if_splits)

lemma write_sync_close_effect:
  assumes "write_sync_close env (Some fd) data fs = Some (ok, fs')"
  shows "fs_names fs' = fs_names fs" "fs_next fs' = fs_next fs"
    "\<And>i. i \<noteq> fd \<Longrightarrow> fs_inodes fs' i = fs_inodes fs i"
proof -
  from assms obtain b fs1 where w: "write_loop env fd data (length data) fs = Some (b, fs1)"
    and s: "same_files fs1 fs'"
    by (auto simp: write_sync_close_def sys_sync_def same_files_def split: Option.bind_splits
        if_splits option.splits)
  from write_loop_effect [OF w] s show "fs_names fs' = fs_names fs" "fs_next fs' = fs_next fs"
    "\<And>i. i \<noteq> fd \<Longrightarrow> fs_inodes fs' i = fs_inodes fs i"
    by (auto simp: same_files_def)
qed

lemma write_to_file_cases [consumes 2, case_names nofile wrote]:
  assumes "fs_wf fs" and "write_to_file env f data fs = Some (ok, fs')"
  obtains (nofile) "\<not> ok" and "only_file env f fs fs'"
    | (wrote) b fs1 fs2 t where "sys_create env t fs = (Inr (fs_next fs), fs1)"
      and "write_sync_close env (Some (fs_next fs)) data fs1 = Some (b, fs2)"
      and "mk_name env t"
      and "b \<longrightarrow> (ok, fs') = (fst (sys_rename env t f fs2) = None, snd (sys_rename env t f fs2))"
      and "\<not> b \<longrightarrow> (ok, fs') = (False, snd (sys_unlink env t fs2))"
proof -
  let ?n = "env_mkstemp env (fs_clock fs) (env_template env f)"
  have mk: "mk_name env ?n" "mk_name env (env_template env f)" by (auto simp: mk_name_def)
  obtain r fs1 where c: "sys_create env ?n fs = (r, fs1)" by fastforce
  show thesis
  proof (cases r)
    case (Inl e)
    with c have s: "same_files fs fs1" by (auto elim: create_cases)
    with assms(1) have "fs_wf fs1" by (auto simp: same_files_def fs_wf_def)
    from Inl c assms(2) have "\<not> ok" "fs' = snd (sys_unlink env (env_template env f) fs1)"
      by (simp_all add: write_to_file_def sys_mkstemp_def Let_def write_sync_close_def)
    then show thesis
      using only_file_trans [OF same_files_only [OF s assms(1)] unlink_only [OF \<open>fs_wf fs1\<close>]] mk
      by (auto intro: nofile)
  next
    case (Inr fd)
    with c have fd: "fd = fs_next fs" by (auto elim: create_cases)
    from Inr c assms(2) obtain b fs2 where
      w: "write_sync_close env (Some fd) data fs1 = Some (b, fs2)" and
      "(if b then (case sys_rename env ?n f fs2 of (None, fs3) \<Rightarrow> Some (True, fs3)
        | (Some e, fs3) \<Rightarrow> Some (False, fs3)) else Some (False, snd (sys_unlink env ?n fs2)))
       = Some (ok, fs')"
      by (auto simp: write_to_file_def sys_mkstemp_def Let_def split: Option.bind_splits)
    moreover from this(2) have
      "b \<longrightarrow> (ok, fs') = (fst (sys_rename env ?n f fs2) = None, snd (sys_rename env ?n f fs2))"
      "\<not> b \<longrightarrow> (ok, fs') = (False, snd (sys_unlink env ?n fs2))"
      by (auto split: prod.splits option.splits if_splits)
    ultimately show thesis using c Inr fd by (intro wrote [OF _ _ mk(1)]) simp_all
  qed
qed

lemma write_to_file_only:
  assumes "fs_wf fs" and "write_to_file env f data fs = Some (ok, fs')"
  shows "only_file env f fs fs'"
  using assms
proof (cases rule: write_to_file_cases)
  case (wrote b fs1 fs2 t)
  from wrote(1) have c: "fs_names fs1 = (fs_names fs)(t \<mapsto> fs_next fs)"
    "fs_next fs1 = Suc (fs_next fs)" "\<And>i. i < fs_next fs \<Longrightarrow> fs_inodes fs1 i = fs_inodes fs i"
    by (auto elim: create_cases)
  note w = write_sync_close_effect [OF wrote(2)]
  have only: "only_file env f fs fs2"
    using assms(1) c w wrote(3) by (auto simp: only_file_def keeps_inodes_def fs_wf_def less_Suc_eq)
  then have wf2: "fs_wf fs2" by (blast dest: only_file_keeps keeps_wf)
  from wrote(4,5) consider "fs' = snd (sys_rename env t f fs2)" | "fs' = snd (sys_unlink env t fs2)"
    by auto
  then have "only_file env f fs2 fs'"
    using rename_only [OF wf2 wrote(3)] unlink_only [OF wf2, of t f] wrote(3) by cases auto
  with only show ?thesis by (rule only_file_trans)
qed

subsection \<open>Unique files\<close>

definition unique_names :: "ENV \<Rightarrow> string \<Rightarrow> string \<Rightarrow> string set" where
  "unique_names env d b = insert (env_build_filename env d b) (range (\<lambda>k. env_build_filename env d (seed_name b k)))"

text \<open>The new empty file \<open>p\<close> is there, everything else is as before.\<close>

definition created :: "string \<Rightarrow> FS \<Rightarrow> FS \<Rightarrow> bool" where
  "created p fs fs' \<longleftrightarrow> fs_names fs p = None \<and> fs_names fs' = (fs_names fs)(p \<mapsto> fs_next fs)
     \<and> fs_inodes fs' = (fs_inodes fs)(fs_next fs := []) \<and> fs_next fs' = Suc (fs_next fs)"

lemma create_outcome:
  assumes "sys_create env n fs = (r, fs')"
  shows "(\<exists>e. r = Inl e \<and> same_files fs fs') \<or> (\<exists>i. r = Inr i \<and> created n fs fs')"
  using assms by (cases rule: create_cases) (auto simp: created_def)

lemma created_same_files: "same_files a b \<Longrightarrow> created p b c \<longleftrightarrow> created p a c"
  by (simp add: created_def same_files_def)

lemma same_files_trans: "same_files a b \<Longrightarrow> same_files b c \<Longrightarrow> same_files a c"
  by (simp add: same_files_def)

lemma unique_loop_outcome:
  assumes "unique_loop env d b k fs = (name, path, r, fs')"
  shows "(\<exists>e. r = Inl e \<and> same_files fs fs')
    \<or> (\<exists>i. r = Inr i \<and> created path fs fs' \<and> path \<in> unique_names env d b)"
  using assms
proof (induction env d b k fs rule: unique_loop.induct)
  case (1 env d b k fs)
  let ?p = "env_build_filename env d (seed_name b k)"
  obtain r1 fs1 where c: "sys_create env ?p fs = (r1, fs1)" by fastforce
  have u: "?p \<in> unique_names env d b" by (simp add: unique_names_def)
  note out = create_outcome [OF c]
  show ?case
  proof (cases "\<exists>e. r1 = Inl e \<and> Suc k < MAX_TRIES \<and> e = EEXIST")
    case True
    with out have s: "same_files fs fs1" by auto
    from True c 1(2) have "unique_loop env d b (Suc k) fs1 = (name, path, r, fs')"
      by (auto simp: unique_loop.simps [of env d b k] Let_def)
    from 1(1) [OF refl refl c [symmetric] _ _ this] True s show ?thesis
      by (auto simp: created_same_files [OF s] intro: same_files_trans)
  next
    case False
    with c 1(2) have "path = ?p" "r = r1" "fs' = fs1"
      by (auto simp: unique_loop.simps [of env d b k] Let_def split: sum.splits if_splits)
    with out u show ?thesis by auto
  qed
qed

lemma unique_file_outcome:
  assumes "gkm_transaction_unique_file env d b T fs = (res, T', fs')"
    and "\<not> failed T" and "\<not> completed T"
  shows "(res = None \<and> T' = gkm_transaction_fail CKR_DEVICE_ERROR T \<and> same_files fs fs')
    \<or> (\<exists>p \<in> unique_names env d b. created p fs fs'
          \<and> T' = gkm_transaction_add (Complete_new_file p) T)"
proof -
  let ?p = "env_build_filename env d b"
  define step where "step = (case sys_create env ?p fs of
                 (Inr fd, fs1) \<Rightarrow> (Some b, ?p, Inr fd, fs1)
               | (Inl e, fs1) \<Rightarrow>
                   if e = EEXIST
                   then (case unique_loop env d b 1 fs1 of
                           (name, path, fd, fs2) \<Rightarrow> (Some name, path, fd, fs2))
                   else (None, ?p, Inl e, fs1))"
  obtain nm path fd fs1 where st: "step = (nm, path, fd, fs1)" by (cases step) auto
  have out: "(\<exists>e. fd = Inl e \<and> same_files fs fs1)
    \<or> (\<exists>i. fd = Inr i \<and> created path fs fs1 \<and> path \<in> unique_names env d b)"
  proof -
    obtain r0 fs0 where c: "sys_create env ?p fs = (r0, fs0)" by fastforce
    have u: "?p \<in> unique_names env d b" by (simp add: unique_names_def)
    show ?thesis
    proof (cases "r0 = Inl EEXIST")
      case True
      with create_outcome [OF c] have s: "same_files fs fs0" by auto
      from True c st obtain name where "unique_loop env d b 1 fs0 = (name, path, fd, fs1)"
        by (auto simp: step_def split: prod.splits)
      from unique_loop_outcome [OF this] s show ?thesis
        by (auto simp: created_same_files [OF s] intro: same_files_trans)
    next
      case False
      with c st create_outcome [OF c] u show ?thesis
        by (auto simp: step_def split: sum.splits if_splits)
    qed
  qed
  have "(res, T', fs') = (let (self1, fs2) =
      (case fd of Inl e \<Rightarrow> (gkm_transaction_fail CKR_DEVICE_ERROR T, fs1)
         | Inr i \<Rightarrow> (gkm_transaction_add (Complete_new_file path) T, snd (sys_sync env fs1)))
      in (if gkm_transaction_get_failed self1 then None else nm, self1, fs2))"
    using assms st unfolding gkm_transaction_unique_file_def Let_def step_def [symmetric]
    by (simp add: gkm_transaction_get_failed_def)
  with out assms(2,3) show ?thesis
    by (auto simp: Let_def gkm_transaction_get_failed_def gkm_transaction_fail_def sys_sync_def
        created_def CKR_DEVICE_ERROR_def CKR_OK_def)
qed

subsection \<open>What is written\<close>

text \<open>
  What one \<^verbatim>\<open>write\<close> takes of the data at the tick \<open>k\<close>: some of it from the front, at least a byte.
\<close>

definition taken :: "ENV \<Rightarrow> nat \<Rightarrow> bytes \<Rightarrow> bytes" where
  "taken env k data = take (max 1 (env_written env k)) data"

lemma taken_nil [simp]: "taken env k [] = []"
  by (simp add: taken_def)

lemma taken_full: "length data \<le> env_written env k \<Longrightarrow> taken env k data = data"
  by (simp add: taken_def)

lemma size_sub_interrupted: "n < 2 ^ 64 - 1 \<Longrightarrow> size_sub n unsigned_minus_one = Suc n"
  by (simp add: size_sub_def unsigned_minus_one_def)

lemma write_loop_done: "write_loop env fd data 0 fs = Some (True, fs)"
  by (subst write_loop.simps) simp

text \<open>
  The loop makes one call of \<^verbatim>\<open>write\<close>. It takes any success for the whole of the data, and after an
  interruption it reads behind the data.
\<close>

lemma write_loop_once:
  assumes "length data < 2 ^ 64 - 1"
  shows "write_loop env fd data (length data) fs =
    (if data = [] then Some (True, fs)
     else case env_fault env (fs_clock fs) of
            Some e \<Rightarrow> if e = EINTR \<or> e = EAGAIN then None else Some (False, snd (sys_sync env (tick fs)))
          | None \<Rightarrow> Some (True, tick (fs\<lparr>fs_inodes :=
              (fs_inodes fs)(fd := fs_inodes fs fd @ taken env (fs_clock fs) data)\<rparr>)))"
proof (cases "data = []")
  case False
  have over: "write_loop env fd data (Suc (length data)) fs' = None" for fs'
    by (subst write_loop.simps) simp
  have zero: "size_sub (length data) (max m (length data)) = 0" if "m \<le> length data" for m
    using that assms by (simp add: size_sub_small max_def)
  have le: "max 1 (min m (length data)) \<le> length data" for m
    using False by (simp add: Suc_le_eq)
  have tk: "take (max 1 (min m (length data))) data = take (max 1 m) data" for m
    using False by (cases "m \<le> length data") (auto simp: min_def max_def Suc_le_eq)
  have unroll: "write_loop env fd data (length data) fs = (case sys_write env fd data fs of
                (Inl e, fs') \<Rightarrow>
                  if e \<noteq> EINTR \<and> e \<noteq> EAGAIN then Some (False, snd (sys_sync env fs'))
                  else write_loop env fd data (size_sub (length data) unsigned_minus_one) fs'
              | (Inr res, fs') \<Rightarrow> write_loop env fd data (size_sub (length data) (max res (length data))) fs')"
    using False by (subst write_loop.simps) simp
  show ?thesis
  proof (cases "env_fault env (fs_clock fs)")
    case None
    then have "sys_write env fd data fs = (Inr (max 1 (min (env_written env (fs_clock fs)) (length data))),
        tick (fs\<lparr>fs_inodes := (fs_inodes fs)(fd := fs_inodes fs fd @ taken env (fs_clock fs) data)\<rparr>))"
      by (simp add: sys_write_def Let_def tk [simplified] taken_def)
    with None False show ?thesis by (simp only: unroll prod.case sum.case zero [OF le] write_loop_done) simp
  next
    case (Some e)
    with False show ?thesis
      by (simp add: unroll sys_write_def size_sub_interrupted [OF assms] over)
  qed
qed (simp add: write_loop_done)

lemma write_to_file_writes:
  assumes "fs_wf fs" and "length data < 2 ^ 64 - 1" and "\<not> mk_name env f"
    and "write_to_file env f data fs = Some (True, fs')"
  shows "\<exists>k. view fs' f = Some (taken env k data)"
  using assms(1,4)
proof (cases rule: write_to_file_cases)
  case (wrote b fs1 fs2 t)
  from wrote(1) have c: "created t fs fs1" using create_outcome by fastforce
  from wrote(4,5) have b: "b" "fst (sys_rename env t f fs2) = None" "fs' = snd (sys_rename env t f fs2)"
    by (auto split: if_splits)
  from wrote(2) b(1) obtain fs1a where
    l: "write_loop env (fs_next fs) data (length data) fs1 = Some (True, fs1a)" and
    s: "same_files fs1a fs2"
    by (auto simp: write_sync_close_def sys_sync_def same_files_def split: Option.bind_splits
        if_splits option.splits)
  have i: "fs_inodes fs2 (fs_next fs) = taken env (fs_clock fs1) data"
    using l s c
    by (auto simp: write_loop_once [OF assms(2)] same_files_def created_def tick_def
        split: if_splits option.splits)
  have nm: "fs_names fs2 = (fs_names fs)(t \<mapsto> fs_next fs)"
    using write_sync_close_effect(1) [OF wrote(2)] c by (simp add: created_def)
  have tf: "t \<noteq> f" using assms(3) wrote(3) by auto
  then have "fs_names fs2 f \<noteq> Some (fs_next fs)" using nm assms(1) by (auto simp: fs_wf_def)
  with b nm i tf show ?thesis by (auto simp: sys_rename_def view_def split: option.splits)
qed simp

subsection \<open>Operations of a transaction\<close>

datatype op = Write string bytes | Remove string | Unique string string

fun run_op :: "ENV \<Rightarrow> op \<Rightarrow> GkmTransaction \<times> FS \<Rightarrow> (GkmTransaction \<times> FS) option" where
  "run_op env (Write f d) (T, fs) = gkm_transaction_write_file env f d T fs"
| "run_op env (Remove f) (T, fs) = gkm_transaction_remove_file env f T fs"
| "run_op env (Unique d b) (T, fs) = Some (snd (gkm_transaction_unique_file env d b T fs))"

fun run_ops :: "ENV \<Rightarrow> op list \<Rightarrow> GkmTransaction \<times> FS \<Rightarrow> (GkmTransaction \<times> FS) option" where
  "run_ops env [] s = Some s"
| "run_ops env (a # as) s = Option.bind (run_op env a s) (run_ops env as)"

fun op_ok :: "ENV \<Rightarrow> string set \<Rightarrow> op \<Rightarrow> bool" where
  "op_ok env F (Write f d) \<longleftrightarrow> f \<in> F \<and> length d < 2 ^ 64 - 1"
| "op_ok env F (Remove f) \<longleftrightarrow> f \<in> F"
| "op_ok env F (Unique d b) \<longleftrightarrow> unique_names env d b \<subseteq> F"

text \<open>The store a client sees: the contents of all files that are not temporary.\<close>

type_synonym store = "string \<rightharpoonup> bytes"

definition the_store :: "ENV \<Rightarrow> string set \<Rightarrow> FS \<Rightarrow> store" where
  "the_store env F fs = view fs |` {n. \<not> temp_file env F n}"

text \<open>
  The abstract transaction: each operation on the store as one atomic step. A file that was
  written holds what one call of \<^verbatim>\<open>write\<close> took of the data, which is all of it unless that
  call was short.
\<close>

inductive op_spec :: "ENV \<Rightarrow> op \<Rightarrow> store \<Rightarrow> store \<Rightarrow> bool" for env where
  spec_write: "op_spec env (Write f d) m (m(f \<mapsto> taken env k d))"
| spec_remove: "op_spec env (Remove f) m (m(f := None))"
| spec_unique: "p \<in> unique_names env d b \<Longrightarrow> m p = None \<Longrightarrow> op_spec env (Unique d b) m (m(p \<mapsto> []))"

inductive ops_spec :: "ENV \<Rightarrow> op list \<Rightarrow> store \<Rightarrow> store \<Rightarrow> bool" for env where
  ops_nil: "ops_spec env [] m m"
| ops_cons: "op_spec env a m m1 \<Longrightarrow> ops_spec env as m1 m2 \<Longrightarrow> ops_spec env (a # as) m m2"

inductive_simps op_spec_write [simp]: "op_spec env (Write f d) m m'"
inductive_simps op_spec_remove [simp]: "op_spec env (Remove f) m m'"
inductive_simps ops_spec_nil [simp]: "ops_spec env [] m m'"
inductive_simps ops_spec_cons [simp]: "ops_spec env (a # as) m m'"

text \<open>A transaction in use: not completed, and failed exactly when it has an error to report.\<close>

definition running :: "GkmTransaction \<Rightarrow> bool" where
  "running T \<longleftrightarrow> \<not> completed T \<and> (failed T \<longleftrightarrow> result T \<noteq> CKR_OK)"

lemma running_fail: "running T \<Longrightarrow> running (gkm_transaction_fail CKR_DEVICE_ERROR T)"
  "running T \<Longrightarrow> failed (gkm_transaction_fail CKR_DEVICE_ERROR T)"
  "completes (gkm_transaction_fail rv T) = completes T"
  by (auto simp: running_def gkm_transaction_fail_def ckr_defs)

lemma running_add [simp]: "running (gkm_transaction_add c T) = running T"
  "failed (gkm_transaction_add c T) = failed T" "completes (gkm_transaction_add c T) = c # completes T"
  by (simp_all add: running_def gkm_transaction_add_def)

lemma undoable_same:
  assumes "names_ok env F" and "undoable env F fs0 fs L" and "same_files fs fs'"
  shows "undoable env F fs0 fs' L"
  using assms(2,3) by (simp add: undoable_def same_files_def fs_wf_def)

lemma created_only:
  assumes "fs_wf fs" and "created p fs fs'"
  shows "only_file env p fs fs'"
  using assms by (auto simp: created_def only_file_def keeps_inodes_def fs_wf_def less_Suc_eq)

lemma undoable_wf: "undoable env F fs0 fs L \<Longrightarrow> fs_wf fs"
  by (simp add: undoable_def)

text \<open>What the store looks like after a step on the file \<open>f\<close>.\<close>

lemma view_keep: "fs_wf fs \<Longrightarrow> keeps_inodes fs fs' \<Longrightarrow> fs_names fs' n = fs_names fs n \<Longrightarrow> view fs' n = view fs n"
  by (cases "fs_names fs n") (auto simp: view_def keeps_inodes_def fs_wf_def)

lemma store_only:
  assumes "fs_wf fs" and "only_file env f fs fs'" and "\<not> temp_file env F f"
  shows "the_store env F fs' = (the_store env F fs)(f := view fs' f)"
proof
  fix n
  show "the_store env F fs' n = ((the_store env F fs)(f := view fs' f)) n"
  proof (cases "n = f \<or> temp_file env F n")
    case True
    with assms(3) show ?thesis by (auto simp: the_store_def)
  next
    case False
    with assms(2) have "fs_names fs' n = fs_names fs n" by (auto simp: only_file_def temp_file_def)
    from view_keep [OF assms(1) only_file_keeps [OF assms(2)] this] False show ?thesis
      by (simp add: the_store_def)
  qed
qed

lemma store_link:
  assumes "f \<in> F" and "fs_names fs1 = (fs_names fs)(temp_name f r \<mapsto> i)" and "fs_inodes fs1 = fs_inodes fs"
  shows "the_store env F fs1 = the_store env F fs"
proof
  fix n
  have "fs_names fs1 n = fs_names fs n" if "\<not> temp_file env F n"
    using that assms(1) by (auto simp: assms(2) temp_file_def)
  then show "the_store env F fs1 n = the_store env F fs n"
    by (simp add: the_store_def restrict_map_def view_def assms(3))
qed

lemma store_same:
  assumes "same_files fs fs1"
  shows "the_store env F fs1 = the_store env F fs"
proof -
  have "view fs1 = view fs" using assms by (intro ext) (simp add: view_def same_files_def)
  then show ?thesis by (simp add: the_store_def)
qed

lemma store_at: "\<not> temp_file env F f \<Longrightarrow> the_store env F fs f = view fs f"
  by (simp add: the_store_def)

text \<open>
  What one operation keeps and does: \<open>fs0\<close> is where the transaction started, \<open>T\<close> and \<open>fs\<close> the
  state before the operation \<open>a\<close>.
\<close>

definition op_correct :: "ENV \<Rightarrow> string set \<Rightarrow> op \<Rightarrow> FS \<Rightarrow> FS \<Rightarrow> GkmTransaction \<times> FS \<Rightarrow> bool" where
  "op_correct env F a fs0 fs res \<longleftrightarrow> (case res of (T', fs') \<Rightarrow>
     undoable env F fs0 fs' (completes T') \<and> running T'
     \<and> (\<not> failed T' \<longrightarrow> op_spec env a (the_store env F fs) (the_store env F fs')))"

lemma op_correct_failed:
  assumes "names_ok env F" and "undoable env F fs0 fs (completes T)" and "running T" and "same_files fs fs'"
  shows "op_correct env F a fs0 fs (gkm_transaction_fail CKR_DEVICE_ERROR T, fs')"
  using undoable_same [OF assms(1,2,4)] running_fail assms(3) by (simp add: op_correct_def)

lemma write_file_correct:
  assumes "names_ok env F" and "env_ok env" and "op_ok env F (Write f d)"
    and "undoable env F fs0 fs (completes T)" and "running T" and "\<not> failed T"
    and "gkm_transaction_write_file env f d T fs = Some res"
  shows "op_correct env F (Write f d) fs0 fs res"
proof -
  have f: "f \<in> F" "length d < 2 ^ 64 - 1" "\<not> temp_file env F f" "\<not> mk_name env f"
    using assms(1,3) by (auto simp: names_ok_def temp_file_def)
  note wf = undoable_wf [OF assms(4)]
  from assms(6,7) obtain r where r: "begin_link_temporary_if_exists env f T fs = Some r"
    by (auto simp: gkm_transaction_write_file_def gkm_transaction_get_failed_def split: Option.bind_splits)
  have written: "undoable env F fs0 fs2 (completes T2) \<Longrightarrow> running T2 \<Longrightarrow> only_file env f fs1 fs2
      \<Longrightarrow> fs_wf fs1 \<Longrightarrow> the_store env F fs1 = the_store env F fs
      \<Longrightarrow> write_to_file env f d fs1 = Some (wrote, fs2)
      \<Longrightarrow> op_correct env F (Write f d) fs0 fs
            (if wrote then T2 else gkm_transaction_fail CKR_DEVICE_ERROR T2, fs2)" for fs1 fs2 T2 wrote
    using write_to_file_writes [of fs1 d env f fs2] store_only [of fs1 env f fs2 F] f running_fail(1,2) [of T2]
    by (auto simp: op_correct_def running_fail(3)) blast
  from assms(2) r show ?thesis
  proof (cases rule: begin_link_outcome)
    case 1
    then obtain t i fs1 where l: "r = (True, True, gkm_transaction_add (Complete_link_temporary (temp_name f t)) T, fs1)"
      "fs_names fs f = Some i" "fs_names fs (temp_name f t) = None"
      "fs_names fs1 = (fs_names fs)(temp_name f t \<mapsto> i)" "fs_inodes fs1 = fs_inodes fs" "fs_next fs1 = fs_next fs"
      by (auto simp: linked_def)
    have wf1: "fs_wf fs1" using wf l by (auto simp: fs_wf_def)
    have k: "keeps_inodes fs fs1" using wf1 l by (simp add: keeps_inodes_def)
    from assms(6,7) r l obtain wrote fs2 where w: "write_to_file env f d fs1 = Some (wrote, fs2)"
      "res = (if wrote then gkm_transaction_add (Complete_link_temporary (temp_name f t)) T
        else gkm_transaction_fail CKR_DEVICE_ERROR (gkm_transaction_add (Complete_link_temporary (temp_name f t)) T), fs2)"
      by (auto simp: gkm_transaction_write_file_def gkm_transaction_get_failed_def split: Option.bind_splits)
    note o2 = write_to_file_only [OF wf1 w(1)]
    from push_link [OF assms(1,4) f(1) l(2,3,4) k o2] store_link [OF f(1) l(4,5)] assms(5)
    show ?thesis unfolding w(2) by (intro written [OF _ _ o2 wf1 _ w(1)]) simp_all
  next
    case 2
    then obtain fs1 where l: "r = (True, False, T, fs1)" "same_files fs fs1" "fs_names fs f = None"
      by (auto simp: absent_def)
    have wf1: "fs_wf fs1" using wf l(2) by (simp add: fs_wf_def same_files_def)
    from assms(6,7) r l obtain wrote fs2 where w: "write_to_file env f d fs1 = Some (wrote, fs2)"
      "res = (if wrote then gkm_transaction_add (Complete_new_file f) T
        else gkm_transaction_fail CKR_DEVICE_ERROR (gkm_transaction_add (Complete_new_file f) T), fs2)"
      by (auto simp: gkm_transaction_write_file_def gkm_transaction_get_failed_def begin_new_file_def
          split: Option.bind_splits)
    note o1 = write_to_file_only [OF wf1 w(1)]
    note o2 = only_file_trans [OF same_files_only [OF l(2) wf] o1]
    from push_new_file [OF assms(1,4) f(1) l(3) o2] store_same [OF l(2)] assms(5)
    show ?thesis unfolding w(2) by (intro written [OF _ _ o1 wf1 _ w(1)]) simp_all
  next
    case 3
    with assms(6,7) r obtain fs1 where "same_files fs fs1" "res = (gkm_transaction_fail CKR_DEVICE_ERROR T, fs1)"
      by (auto simp: link_failed_def gkm_transaction_write_file_def gkm_transaction_get_failed_def)
    with op_correct_failed [OF assms(1,4,5)] show ?thesis by simp
  qed
qed

lemma unlink_store:
  assumes "fs_wf fs" and "\<not> temp_file env F f" and "sys_unlink env f fs = (None, fs')"
  shows "the_store env F fs' = (the_store env F fs)(f := None)"
proof -
  have "only_file env f fs fs'" using unlink_only [OF assms(1), of f f env] assms(3) by simp
  moreover have "view fs' f = None"
    using assms(3) by (auto simp: sys_unlink_def view_def split: option.splits if_splits)
  ultimately show ?thesis using store_only [OF assms(1) _ assms(2)] by metis
qed

lemma remove_file_correct:
  assumes "names_ok env F" and "env_ok env" and "op_ok env F (Remove f)"
    and "undoable env F fs0 fs (completes T)" and "running T" and "\<not> failed T"
    and "gkm_transaction_remove_file env f T fs = Some res"
  shows "op_correct env F (Remove f) fs0 fs res"
proof -
  have f: "f \<in> F" "\<not> temp_file env F f" using assms(1,3) by (auto simp: names_ok_def)
  note wf = undoable_wf [OF assms(4)]
  from assms(6,7) obtain r where r: "begin_link_temporary_if_exists env f T fs = Some r"
    by (auto simp: gkm_transaction_remove_file_def gkm_transaction_get_failed_def split: Option.bind_splits)
  from assms(2) r show ?thesis
  proof (cases rule: begin_link_outcome)
    case 1
    then obtain t i fs1 where l: "r = (True, True, gkm_transaction_add (Complete_link_temporary (temp_name f t)) T, fs1)"
      "fs_names fs f = Some i" "fs_names fs (temp_name f t) = None"
      "fs_names fs1 = (fs_names fs)(temp_name f t \<mapsto> i)" "fs_inodes fs1 = fs_inodes fs" "fs_next fs1 = fs_next fs"
      by (auto simp: linked_def)
    let ?T = "gkm_transaction_add (Complete_link_temporary (temp_name f t)) T"
    have wf1: "fs_wf fs1" using wf l by (auto simp: fs_wf_def)
    have k: "keeps_inodes fs fs1" using wf1 l by (simp add: keeps_inodes_def)
    obtain e fs2 where u: "sys_unlink env f fs1 = (e, fs2)" by fastforce
    from assms(6,7) r l u have res: "res = (if e = None then ?T else gkm_transaction_fail CKR_DEVICE_ERROR ?T, fs2)"
      by (auto simp: gkm_transaction_remove_file_def gkm_transaction_get_failed_def split: option.splits)
    have o2: "only_file env f fs1 fs2" using unlink_only [OF wf1, of f f env] u by simp
    note un = push_link [OF assms(1,4) f(1) l(2,3,4) k o2]
    show ?thesis
      using un res running_fail(1,2) [of ?T] assms(5) unlink_store [OF wf1 f(2)] u store_link [OF f(1) l(4,5)]
      by (auto simp: op_correct_def running_fail(3))
  next
    case 2
    then obtain fs1 where l: "r = (True, False, T, fs1)" "same_files fs fs1" "fs_names fs f = None"
      by (auto simp: absent_def)
    with assms(6,7) r have "res = (T, fs1)"
      by (simp add: gkm_transaction_remove_file_def gkm_transaction_get_failed_def)
    moreover have "the_store env F fs f = None" using l(3) by (simp add: store_at f(2) view_def)
    then have "(the_store env F fs)(f := None) = the_store env F fs" by (simp add: fun_upd_idem)
    ultimately show ?thesis using undoable_same [OF assms(1,4) l(2)] assms(5) store_same [OF l(2)]
      by (simp add: op_correct_def)
  next
    case 3
    with assms(6,7) r obtain fs1 where "same_files fs fs1" "res = (gkm_transaction_fail CKR_DEVICE_ERROR T, fs1)"
      by (auto simp: link_failed_def gkm_transaction_remove_file_def gkm_transaction_get_failed_def)
    with op_correct_failed [OF assms(1,4,5)] show ?thesis by simp
  qed
qed

lemma unique_file_correct:
  assumes "names_ok env F" and "op_ok env F (Unique d b)"
    and "undoable env F fs0 fs (completes T)" and "running T" and "\<not> failed T"
  shows "op_correct env F (Unique d b) fs0 fs (snd (gkm_transaction_unique_file env d b T fs))"
proof -
  note wf = undoable_wf [OF assms(3)]
  obtain res T' fs' where u: "gkm_transaction_unique_file env d b T fs = (res, T', fs')" by (rule prod_cases3)
  have nc: "\<not> completed T" using assms(4) by (simp add: running_def)
  from unique_file_outcome [OF u assms(5) nc] show ?thesis
  proof
    assume "res = None \<and> T' = gkm_transaction_fail CKR_DEVICE_ERROR T \<and> same_files fs fs'"
    with op_correct_failed [OF assms(1,3,4)] u show ?thesis by simp
  next
    assume "\<exists>p \<in> unique_names env d b. created p fs fs'
          \<and> T' = gkm_transaction_add (Complete_new_file p) T"
    then obtain p where p: "p \<in> unique_names env d b" "created p fs fs'"
      "T' = gkm_transaction_add (Complete_new_file p) T" by blast
    have pF: "p \<in> F" "\<not> temp_file env F p" using p(1) assms(1,2) by (auto simp: names_ok_def)
    note o = created_only [OF wf p(2)]
    have none: "fs_names fs p = None" "view fs' p = Some []"
      using p(2) by (simp_all add: created_def view_def)
    have m: "the_store env F fs p = None" using none by (simp add: store_at pF(2) view_def)
    have "op_spec env (Unique d b) (the_store env F fs) (the_store env F fs')"
      using spec_unique [OF p(1), of "the_store env F fs"] m store_only [OF wf o pF(2)] none(2) by simp
    with push_new_file [OF assms(1,3) pF(1) none(1) o] u p(3) assms(4) show ?thesis
      by (simp add: op_correct_def)
  qed
qed

subsection \<open>Sequences of operations\<close>

lemma run_op_failed: "failed T \<Longrightarrow> run_op env a (T, fs) = Some (T, fs)"
  by (cases a) (simp_all add: gkm_transaction_write_file_def gkm_transaction_remove_file_def
      gkm_transaction_unique_file_def gkm_transaction_get_failed_def)

lemma run_ops_failed: "failed T \<Longrightarrow> run_ops env as (T, fs) = Some (T, fs)"
  by (induction as) (simp_all add: run_op_failed)

lemma run_op_correct:
  assumes "names_ok env F" and "env_ok env" and "op_ok env F a"
    and "undoable env F fs0 fs (completes T)" and "running T" and "\<not> failed T"
    and "run_op env a (T, fs) = Some res"
  shows "op_correct env F a fs0 fs res"
  using assms write_file_correct [OF assms(1,2)] remove_file_correct [OF assms(1,2)]
    unique_file_correct [OF assms(1)]
  by (cases a) auto

lemma run_ops_correct:
  assumes "names_ok env F" and "env_ok env" and "list_all (op_ok env F) as"
    and "undoable env F fs0 fs (completes T)" and "running T" and "\<not> failed T"
    and "run_ops env as (T, fs) = Some (T', fs')"
  shows "undoable env F fs0 fs' (completes T') \<and> running T'
    \<and> (\<not> failed T' \<longrightarrow> ops_spec env as (the_store env F fs) (the_store env F fs'))"
  using assms(3-7)
proof (induction as arbitrary: T fs)
  case (Cons a as)
  from Cons.prems(5) obtain T1 fs1 where one: "run_op env a (T, fs) = Some (T1, fs1)"
    and rest: "run_ops env as (T1, fs1) = Some (T', fs')"
    by (auto split: Option.bind_splits)
  have "op_correct env F a fs0 fs (T1, fs1)"
    using run_op_correct [OF assms(1,2) _ Cons.prems(2-4) one] Cons.prems(1) by simp
  then have c: "undoable env F fs0 fs1 (completes T1)" "running T1"
    "\<not> failed T1 \<longrightarrow> op_spec env a (the_store env F fs) (the_store env F fs1)"
    by (simp_all add: op_correct_def)
  show ?case
  proof (cases "failed T1")
    case True
    with rest run_ops_failed [of T1 env as fs1] have "T' = T1" "fs' = fs1" by simp_all
    with c True show ?thesis by simp
  next
    case False
    with Cons.IH [OF _ c(1,2) False rest] Cons.prems(1) c(3) show ?thesis by auto
  qed
qed simp

subsection \<open>Completion\<close>

text \<open>Without further faults, completing a failed transaction is the rollback of its log.\<close>

lemma invoke_undo:
  assumes "failed T" and "\<forall>k \<ge> fs_clock fs. env_fault env k = None" and "ready F (c # L) (fs_names fs)"
    and "complete_invoke env T c fs = (b, fs')"
  shows "fs_names fs' = undo c (fs_names fs) \<and> fs_inodes fs' = fs_inodes fs \<and> fs_clock fs \<le> fs_clock fs'"
proof (cases c)
  case (Complete_new_file p)
  with assms show ?thesis
    by (cases "fs_names fs p")
      (auto simp: complete_invoke_def complete_new_file_def gkm_transaction_get_failed_def sys_unlink_def
        fun_upd_idem)
next
  case (Complete_link_temporary t)
  with assms(3) obtain f r i where t: "t = temp_name f r" "fs_names fs t = Some i" by auto
  with assms Complete_link_temporary show ?thesis
    by (auto simp: complete_invoke_def complete_link_temporary_def gkm_transaction_get_failed_def
        sys_rename_def before_last_dot_temp split: if_splits)
next
  case (Complete_call k)
  with assms(3) show ?thesis by simp
qed

lemma invoke_all_rollback:
  assumes "failed T" and "\<forall>k \<ge> fs_clock fs. env_fault env k = None" and "ready F L (fs_names fs)"
  shows "fs_names (invoke_all env T L fs) = rollback L (fs_names fs)
    \<and> fs_inodes (invoke_all env T L fs) = fs_inodes fs"
  using assms(2,3)
proof (induction L arbitrary: fs)
  case (Cons c L)
  obtain b fs1 where i: "complete_invoke env T c fs = (b, fs1)" by fastforce
  note u = invoke_undo [OF assms(1) Cons.prems i]
  have "ready F L (fs_names fs1)" using u Cons.prems(2) by (cases c) auto
  with Cons.IH [of fs1] Cons.prems(1) u i show ?case by (simp add: rollback_def)
qed (simp add: rollback_def)

text \<open>Completing a transaction that succeeded only removes temporary files.\<close>

fun own_entry :: "string set \<Rightarrow> complete \<Rightarrow> bool" where
  "own_entry F (Complete_new_file p) \<longleftrightarrow> p \<in> F"
| "own_entry F (Complete_link_temporary t) \<longleftrightarrow> (\<exists>f \<in> F. \<exists>r. t = temp_name f r)"
| "own_entry F (Complete_call k) \<longleftrightarrow> False"

lemma ready_own: "ready F L nm \<Longrightarrow> list_all (own_entry F) L"
  by (induction F L nm rule: ready.induct) auto

lemma invoke_all_commit:
  assumes "\<not> failed T" and "list_all (own_entry F) L"
  shows "the_store env F (invoke_all env T L fs) = the_store env F fs"
  using assms(2)
proof (induction L arbitrary: fs)
  case (Cons c L)
  have "the_store env F (snd (complete_invoke env T c fs)) = the_store env F fs"
  proof (cases c)
    case (Complete_link_temporary t)
    with Cons.prems obtain f r where t: "f \<in> F" "t = temp_name f r" by auto
    have v: "view (snd (sys_unlink env t fs)) n = view fs n" if "n \<noteq> t" for n
      using that by (simp add: sys_unlink_def view_def split: option.splits)
    have "the_store env F (snd (sys_unlink env t fs)) n = the_store env F fs n" for n
      using v [of n] t by (cases "n = t") (auto simp: the_store_def restrict_map_def temp_file_def)
    with Complete_link_temporary assms(1) show ?thesis
      by (simp add: complete_invoke_def complete_link_temporary_def gkm_transaction_get_failed_def fun_eq_iff)
  qed (use assms(1) Cons.prems in \<open>auto simp: complete_invoke_def complete_new_file_def gkm_transaction_get_failed_def\<close>)
  with Cons show ?case by simp
qed simp

lemma complete_running:
  assumes "running T"
  shows "gkm_transaction_complete env T fs =
    Some (T\<lparr>completed := True, completes := []\<rparr>, invoke_all env (T\<lparr>completed := True\<rparr>) (completes T) fs)"
  using assms by (simp add: running_def gkm_transaction_complete_def gkm_transaction_real_complete_def
      complete_accumulator_def Let_def)

lemma undoable_start: "fs_wf fs \<Longrightarrow> undoable env F fs fs []"
  by (simp add: undoable_def rollback_def)

lemma new_running: "running gkm_transaction_new" "\<not> failed gkm_transaction_new"
  "completes gkm_transaction_new = []"
  by (simp_all add: running_def gkm_transaction_new_def)

lemma rollback_store:
  assumes "undoable env F fs0 fs L" and "fs_wf fs0"
    and "fs_names fs' = rollback L (fs_names fs)" and "fs_inodes fs' = fs_inodes fs"
  shows "the_store env F fs' = the_store env F fs0"
proof
  fix n
  show "the_store env F fs' n = the_store env F fs0 n"
  proof (cases "temp_file env F n")
    case False
    with assms(1,3) have "fs_names fs' n = fs_names fs0 n" by (simp add: undoable_def)
    with assms(1,2,4) have "view fs' n = view fs0 n"
      by (cases "fs_names fs0 n") (auto simp: view_def undoable_def fs_wf_def)
    with False show ?thesis by (simp add: the_store_def)
  qed (simp add: the_store_def)
qed

subsection \<open>When an operation does not come back\<close>

text \<open>Every backup name that is tried for \<open>f\<close> is taken: the assertion behind the attempts fails.\<close>

definition names_taken :: "ENV \<Rightarrow> nat \<Rightarrow> string \<Rightarrow> FS \<Rightarrow> bool" where
  "names_taken env n f fs \<longleftrightarrow> (\<forall>j < n. env_fault env (fs_clock fs + j) = None \<and> fs_names fs f \<noteq> None
     \<and> fs_names fs (temp_name f (env_random env (fs_clock fs + j))) \<noteq> None)"

lemma names_taken_Suc: "names_taken env (Suc n) f fs \<longleftrightarrow> env_fault env (fs_clock fs) = None \<and> fs_names fs f \<noteq> None
     \<and> fs_names fs (temp_name f (env_random env (fs_clock fs))) \<noteq> None \<and> names_taken env n f (tick fs)"
  by (auto simp: names_taken_def tick_def All_less_Suc2)

lemma link_temporary_stuck:
  assumes "env_ok env"
  shows "link_temporary env n f T fs = None \<longleftrightarrow> names_taken env n f fs"
proof (induction n arbitrary: fs)
  case (Suc n)
  from assms have "env_fault env (fs_clock fs) \<noteq> Some EEXIST" by (simp add: env_ok_def)
  with Suc show ?case
    by (auto simp: names_taken_Suc sys_link_def Let_def split: option.splits if_splits)
qed (simp add: names_taken_def)

text \<open>The call of \<^verbatim>\<open>write\<close> for the new content of \<open>f\<close> is interrupted.\<close>

definition write_interrupted :: "ENV \<Rightarrow> string \<Rightarrow> bytes \<Rightarrow> FS \<Rightarrow> bool" where
  "write_interrupted env f data fs \<longleftrightarrow> data \<noteq> [] \<and> (case sys_mkstemp env (env_template env f) fs of
      (t, Inl e, fs1) \<Rightarrow> False
    | (t, Inr i, fs1) \<Rightarrow> env_fault env (fs_clock fs1) \<in> {Some EINTR, Some EAGAIN})"

lemma write_to_file_stuck:
  assumes "length data < 2 ^ 64 - 1"
  shows "write_to_file env f data fs = None \<longleftrightarrow> write_interrupted env f data fs"
  by (auto simp: write_to_file_def write_sync_close_def write_interrupted_def write_loop_once [OF assms]
      split: prod.splits sum.splits option.splits if_splits Option.bind_splits)

text \<open>
  The operation \<open>a\<close> has no outcome: all its backup names are taken, or its backup was made (or not
  needed) and its \<^verbatim>\<open>write\<close> was interrupted.
\<close>

fun stuck :: "ENV \<Rightarrow> op \<Rightarrow> GkmTransaction \<times> FS \<Rightarrow> bool" where
  "stuck env (Write f d) (T, fs) \<longleftrightarrow> names_taken env MAX_TRIES f fs
     \<or> (\<exists>found T' fs'. begin_link_temporary_if_exists env f T fs = Some (True, found, T', fs')
          \<and> write_interrupted env f d fs')"
| "stuck env (Remove f) (T, fs) \<longleftrightarrow> names_taken env MAX_TRIES f fs"
| "stuck env (Unique d b) (T, fs) \<longleftrightarrow> False"

lemma write_file_stuck:
  assumes "env_ok env" and "length d < 2 ^ 64 - 1" and "\<not> failed T"
  shows "gkm_transaction_write_file env f d T fs = None \<longleftrightarrow> stuck env (Write f d) (T, fs)"
proof (cases "begin_link_temporary_if_exists env f T fs")
  case None
  with assms(3) link_temporary_stuck [OF assms(1), of MAX_TRIES f T fs] show ?thesis
    by (simp add: gkm_transaction_write_file_def begin_link_temporary_if_exists_def gkm_transaction_get_failed_def)
next
  case (Some r)
  then obtain ok found T1 fs1 where r: "begin_link_temporary_if_exists env f T fs = Some (ok, found, T1, fs1)"
    by (cases r) auto
  have nt: "\<not> names_taken env MAX_TRIES f fs"
    using r assms(3) link_temporary_stuck [OF assms(1), of MAX_TRIES f T fs]
    by (auto simp: begin_link_temporary_if_exists_def gkm_transaction_get_failed_def split: if_splits)
  have "\<not> failed T1" if "ok"
    using assms(1) r that assms(3)
    by (cases rule: begin_link_outcome) (auto simp: linked_def absent_def link_failed_def gkm_transaction_add_def)
  with r nt assms(3) write_to_file_stuck [OF assms(2), of env f fs1] show ?thesis
    by (auto simp: gkm_transaction_write_file_def gkm_transaction_get_failed_def begin_new_file_def
        split: Option.bind_splits)
qed

lemma run_op_stuck:
  assumes "env_ok env" and "op_ok env F a" and "\<not> failed T"
  shows "run_op env a (T, fs) = None \<longleftrightarrow> stuck env a (T, fs)"
proof (cases a)
  case (Write f d)
  with assms write_file_stuck [OF assms(1) _ assms(3)] show ?thesis by simp
next
  case (Remove f)
  with assms link_temporary_stuck [OF assms(1), of MAX_TRIES f T fs] show ?thesis
    by (auto simp: gkm_transaction_remove_file_def begin_link_temporary_if_exists_def
        gkm_transaction_get_failed_def split: Option.bind_splits option.splits prod.splits)
qed simp

lemma run_ops_stuck:
  assumes "env_ok env" and "list_all (op_ok env F) as" and "run_ops env as s = None"
  shows "\<exists>bs a cs s'. as = bs @ a # cs \<and> run_ops env bs s = Some s' \<and> stuck env a s'"
  using assms(2,3)
proof (induction as arbitrary: s)
  case (Cons a as)
  show ?case
  proof (cases "run_op env a s")
    case None
    obtain T fs where s: "s = (T, fs)" by fastforce
    have "\<not> failed T" using None run_op_failed [of T env a fs] s by auto
    with None s run_op_stuck [OF assms(1), of F a T fs] Cons.prems have "stuck env a s" by simp
    then have "a # as = [] @ a # as \<and> run_ops env [] s = Some s \<and> stuck env a s" by simp
    then show ?thesis by blast
  next
    case (Some s1)
    with Cons.prems have "run_ops env as s1 = None" "list_all (op_ok env F) as" by simp_all
    from Cons.IH [OF this(2,1)] obtain bs b cs s' where
      "as = bs @ b # cs" "run_ops env bs s1 = Some s'" "stuck env b s'" by blast
    with Some have "a # as = (a # bs) @ b # cs \<and> run_ops env (a # bs) s = Some s' \<and> stuck env b s'" by simp
    then show ?thesis by blast
  qed
qed simp

subsection \<open>A sample run\<close>

lemma link_temporary_step: "0 < n \<Longrightarrow> link_temporary env n filename self fs =
     (let result = temp_name filename (env_random env (fs_clock fs))
      in case sys_link env filename result fs of
           (None, fs') \<Rightarrow>
             Some (True, True, gkm_transaction_add (Complete_link_temporary result) self, fs')
         | (Some e, fs') \<Rightarrow>
             if e = ENOENT \<or> e = ENOTDIR then Some (True, False, self, fs')
             else if e \<noteq> EEXIST then Some (False, True, gkm_transaction_fail CKR_DEVICE_ERROR self, fs')
             else link_temporary env (n - 1) filename self fs')"
  by (cases n) (simp_all only: link_temporary.simps diff_Suc_1 less_irrefl)

text \<open>An environment to run in, in which the system calls \<open>faults\<close> fail and \<^verbatim>\<open>write\<close> is bounded.\<close>

definition sample_env :: "(nat \<rightharpoonup> errno) \<Rightarrow> nat \<Rightarrow> ENV" where
  "sample_env faults bound = \<lparr>env_fault = faults, env_random = (\<lambda>k. k), env_template = (\<lambda>f. ''.temp-XXXXXX''),
     env_mkstemp = (\<lambda>k t. ''.temp-aaaaaa''), env_written = (\<lambda>k. bound),
     env_build_filename = (\<lambda>d b. d @ ''/'' @ b), env_call = (\<lambda>k f fs. (True, fs))\<rparr>"

definition sample_fs :: FS where
  "sample_fs = \<lparr>fs_names = [''k'' \<mapsto> 0], fs_inodes = (\<lambda>i. if i = 0 then [7] else []), fs_next = 1, fs_clock = 0\<rparr>"

lemma sample_mk: "mk_name (sample_env flt b) n \<longleftrightarrow> n = ''.temp-aaaaaa'' \<or> n = ''.temp-XXXXXX''"
  by (auto simp: mk_name_def sample_env_def)

lemma sample_temp: "temp_file (sample_env flt b) {''k'', ''l''} n
    \<longleftrightarrow> n = ''.temp-aaaaaa'' \<or> n = ''.temp-XXXXXX'' \<or> (\<exists>r. n = temp_name ''k'' r \<or> n = temp_name ''l'' r)"
  by (auto simp: temp_file_def sample_mk)

lemma sample_ok: "names_ok (sample_env flt b) {''k'', ''l''}" "fs_wf sample_fs"
  by (auto simp: names_ok_def sample_temp sample_mk temp_name_def fs_wf_def sample_fs_def split: if_splits)

lemmas sys_defs = sys_link_def sys_rename_def sys_unlink_def sys_create_def sys_mkstemp_def sys_write_def
  sys_sync_def

lemmas transaction_eval = link_temporary_step gkm_transaction_write_file_def gkm_transaction_remove_file_def
  gkm_transaction_unique_file_def
  gkm_transaction_get_failed_def gkm_transaction_get_result_def begin_link_temporary_if_exists_def
  begin_new_file_def write_to_file_def write_sync_close_def write_loop.simps sys_defs
  gkm_transaction_fail_def gkm_transaction_add_def gkm_transaction_new_def
  gkm_transaction_complete_and_unref_def gkm_transaction_complete_def gkm_transaction_real_complete_def
  complete_invoke_def complete_new_file_def complete_link_temporary_def complete_accumulator_def
  before_last_dot_temp temp_name_def Let_def tick_def MAX_TRIES_def size_sub_def unsigned_minus_one_def
  sample_env_def sample_fs_def ckr_defs

definition sample_faults :: "nat \<rightharpoonup> errno" where
  "sample_faults k = (if k = 9 then Some (EOTHER 28) else None)"

lemma sample_run: "\<exists>T fs. run_ops (sample_env sample_faults 1) [Write ''l'' [1, 2], Write ''k'' [3], Remove ''k'']
      (gkm_transaction_new, sample_fs) = Some (T, fs)
    \<and> fs_clock fs = 12 \<and> running T \<and> result T = CKR_DEVICE_ERROR"
  by (simp add: transaction_eval running_def sample_faults_def)

subsection \<open>Properties\<close>

text \<open>C1: a transaction is atomic up to short writes. Take any sequence of writes, removals and creations of
  unique files in a new transaction, where any system call may fail with any error but those that
  say a file is there or is not, and \<^verbatim>\<open>write\<close> may be short. Either the sequence does not come back,
  and then one of its operations met an interrupted \<^verbatim>\<open>write\<close> or found all its backup names
  taken; or the completion returns. If it returns \<^verbatim>\<open>CKR_OK\<close>, every operation was done on the
  store, in order, where a written file holds what one call of \<^verbatim>\<open>write\<close> took of the data
  (all of it if that call was not short). If it returns an error and no system call of the
  completion itself failed, every file of the store is as it was before the transaction. The
  names of the store are no temporary names.\<close>
theorem gkm_transaction_atomic:
  assumes "names_ok env F" and "env_ok env" and "list_all (op_ok env F) ops" and "fs_wf fs0"
  shows "case run_ops env ops (gkm_transaction_new, fs0) of
      None \<Rightarrow> \<exists>bs a cs s. ops = bs @ a # cs \<and> run_ops env bs (gkm_transaction_new, fs0) = Some s \<and> stuck env a s
    | Some (T, fs) \<Rightarrow> \<exists>rv T' fs'. gkm_transaction_complete_and_unref env T fs = Some (rv, T', fs')
        \<and> (rv = CKR_OK \<longrightarrow> ops_spec env ops (the_store env F fs0) (the_store env F fs'))
        \<and> (rv \<noteq> CKR_OK \<and> (\<forall>k \<ge> fs_clock fs. env_fault env k = None)
              \<longrightarrow> the_store env F fs' = the_store env F fs0)"
proof (cases "run_ops env ops (gkm_transaction_new, fs0)")
  case None
  with run_ops_stuck [OF assms(2,3) this] show ?thesis by simp
next
  case (Some s)
  then obtain T fs where run: "run_ops env ops (gkm_transaction_new, fs0) = Some (T, fs)" by (cases s) auto
  note u = run_ops_correct [OF assms(1-3) _ new_running(1,2) run, of fs0]
  from u undoable_start [OF assms(4)] have c: "undoable env F fs0 fs (completes T)" "running T"
    "\<not> failed T \<longrightarrow> ops_spec env ops (the_store env F fs0) (the_store env F fs)"
    by (simp_all add: new_running)
  let ?T = "T\<lparr>completed := True\<rparr>"
  define fs' where "fs' = invoke_all env ?T (completes T) fs"
  have rv: "gkm_transaction_complete_and_unref env T fs = Some (result T, T\<lparr>completed := True, completes := []\<rparr>, fs')"
    using complete_running [OF c(2)]
    by (simp add: gkm_transaction_complete_and_unref_def gkm_transaction_get_result_def fs'_def)
  have rdy: "ready F (completes T) (fs_names fs)" using c(1) by (simp add: undoable_def)
  have commit: "ops_spec env ops (the_store env F fs0) (the_store env F fs')" if "result T = CKR_OK"
    using that invoke_all_commit [of ?T F "completes T" env fs] ready_own [OF rdy] c
    by (simp add: running_def fs'_def)
  have undone: "the_store env F fs' = the_store env F fs0"
    if "result T \<noteq> CKR_OK" and q: "\<forall>k \<ge> fs_clock fs. env_fault env k = None"
  proof -
    from that c(2) have "failed T" by (simp add: running_def)
    with invoke_all_rollback [of ?T fs env F "completes T"] rdy q
    have "fs_names fs' = rollback (completes T) (fs_names fs)" "fs_inodes fs' = fs_inodes fs"
      by (simp_all add: fs'_def)
    from rollback_store [OF c(1) assms(4) this] show ?thesis .
  qed
  from rv commit undone run show ?thesis by simp
qed

theorem gkm_transaction_atomic_witness:
  "\<exists>T fs rv T' fs'. run_ops (sample_env sample_faults 1) [Write ''l'' [1, 2], Write ''k'' [3], Remove ''k'']
      (gkm_transaction_new, sample_fs) = Some (T, fs)
    \<and> gkm_transaction_complete_and_unref (sample_env sample_faults 1) T fs = Some (rv, T', fs')
    \<and> rv = CKR_DEVICE_ERROR
    \<and> the_store (sample_env sample_faults 1) {''k'', ''l''} fs'
      = the_store (sample_env sample_faults 1) {''k'', ''l''} sample_fs"
proof -
  let ?e = "sample_env sample_faults 1" and ?ops = "[Write ''l'' [1, 2], Write ''k'' [3], Remove ''k'']"
  obtain T fs where run: "run_ops ?e ?ops (gkm_transaction_new, sample_fs) = Some (T, fs)"
    and T: "fs_clock fs = 12" "running T" "result T = CKR_DEVICE_ERROR"
    using sample_run by blast
  obtain T' fs' where c: "gkm_transaction_complete_and_unref ?e T fs = Some (CKR_DEVICE_ERROR, T', fs')"
    using complete_running [OF T(2)] T(3)
    by (simp add: gkm_transaction_complete_and_unref_def gkm_transaction_get_result_def)
  have env: "env_ok ?e" "list_all (op_ok ?e {''k'', ''l''}) ?ops" "\<forall>k \<ge> fs_clock fs. env_fault ?e k = None"
    using T(1) by (auto simp: env_ok_def sample_env_def sample_faults_def)
  have "the_store ?e {''k'', ''l''} fs' = the_store ?e {''k'', ''l''} sample_fs"
    using gkm_transaction_atomic [OF sample_ok(1) env(1,2) sample_ok(2)] run c env(3) by (simp add: ckr_defs)
  with run c show ?thesis by blast
qed

text \<open>C5: the undo log is right after every operation, failed or not: undoing the log entry by entry
  would give the files at the start of the transaction back, each backup it needs exists, and
  no file content of the start has been overwritten. The transaction stays uncompleted and has
  a result other than \<^verbatim>\<open>CKR_OK\<close> exactly when it has failed.\<close>
theorem gkm_transaction_undo_log:
  assumes "names_ok env F" and "env_ok env" and "op_ok env F a"
    and "undoable env F fs0 fs (completes T)" and "running T"
    and "run_op env a (T, fs) = Some (T', fs')"
  shows "undoable env F fs0 fs' (completes T') \<and> running T'"
proof (cases "failed T")
  case True
  with run_op_failed [OF this, of env a fs] assms(4-6) show ?thesis by simp
next
  case False
  from run_op_correct [OF assms(1-5) False assms(6)] show ?thesis by (simp add: op_correct_def)
qed

theorem gkm_transaction_undo_log_witness:
  "\<exists>T fs. run_op (sample_env Map.empty 1) (Remove ''k'') (gkm_transaction_new, sample_fs) = Some (T, fs)
    \<and> completes T = [Complete_link_temporary (temp_name ''k'' 0)]
    \<and> undoable (sample_env Map.empty 1) {''k'', ''l''} sample_fs fs (completes T) \<and> running T"
proof -
  let ?e = "sample_env Map.empty 1"
  obtain T fs where r: "run_op ?e (Remove ''k'') (gkm_transaction_new, sample_fs) = Some (T, fs)"
    "completes T = [Complete_link_temporary (temp_name ''k'' 0)]"
    by (simp add: transaction_eval)
  have e: "env_ok ?e" "op_ok ?e {''k'', ''l''} (Remove ''k'')" by (auto simp: env_ok_def sample_env_def)
  have u: "undoable ?e {''k'', ''l''} sample_fs sample_fs (completes gkm_transaction_new)"
    using undoable_start [OF sample_ok(2)] by (simp add: new_running)
  from gkm_transaction_undo_log [OF sample_ok(1) e u new_running(1) r(1)] r show ?thesis by blast
qed

text \<open>completing a transaction always returns (its assertion holds) and never changes whether the
  transaction failed or its result, whatever the completion functions report: the branch that
  turns a failed commit into \<^verbatim>\<open>CKR_GENERAL_ERROR\<close> is never taken.\<close>
lemma gkm_transaction_complete_keeps_result:
  "map_option (\<lambda>(T', fs'). (failed T', result T')) (gkm_transaction_complete env T fs) = Some (failed T, result T)"
  by (simp add: gkm_transaction_complete_def gkm_transaction_real_complete_def complete_accumulator_def Let_def)

text \<open>disposing of a transaction completes it if need be, and both assertions of
  \<open>gkm_transaction_finalize\<close> hold afterwards.\<close>
lemma gkm_transaction_dispose_finalize:
  assumes "completed T \<longrightarrow> completes T = []"
  shows "\<exists>T' fs'. gkm_transaction_dispose env T fs = Some (T', fs') \<and> gkm_transaction_finalize T' = Some ()"
  using assms by (auto simp: gkm_transaction_dispose_def gkm_transaction_complete_def gkm_transaction_finalize_def
      gkm_transaction_real_complete_def complete_accumulator_def Let_def)

text \<open>when \<^verbatim>\<open>write\<close> takes only the first byte of three, the file ends up with that one byte and
  the transaction reports success. When \<^verbatim>\<open>write\<close> is interrupted, the next \<^verbatim>\<open>write\<close> is told to read one
  byte more than the data has; the model stops there.\<close>
lemma gkm_transaction_write_file_short:
  "(\<exists>T fs. gkm_transaction_write_file (sample_env Map.empty 1) ''l'' [1, 2, 3] gkm_transaction_new sample_fs
      = Some (T, fs) \<and> result T = CKR_OK \<and> view fs ''l'' = Some [1])
    \<and> gkm_transaction_write_file (sample_env [2 \<mapsto> EINTR] 100) ''l'' [1, 2, 3] gkm_transaction_new sample_fs = None"
  by (rule conjI) (simp_all add: transaction_eval view_def)

text \<open>C23: exactly when writing a file does not come back. In a transaction that has not failed, the call
  has no outcome if and only if all the backup names it tries are taken (the assertion at the
  end of the attempts fails), or its backup step is done, the temporary file was made and its one call of
  \<^verbatim>\<open>write\<close> ended with \<^verbatim>\<open>EINTR\<close> or \<^verbatim>\<open>EAGAIN\<close> (it then reads behind the data). In every other case, short writes and
  other errors included, it returns. The data is shorter than \<open>2 ^ 64 - 1\<close> bytes.\<close>
theorem gkm_transaction_write_file_returns:
  assumes "env_ok env" and "length data < 2 ^ 64 - 1" and "\<not> failed T"
  shows "gkm_transaction_write_file env f data T fs = None \<longleftrightarrow>
    names_taken env MAX_TRIES f fs
    \<or> (\<exists>found T' fs'. begin_link_temporary_if_exists env f T fs = Some (True, found, T', fs')
         \<and> write_interrupted env f data fs')"
  using write_file_stuck [OF assms] by simp

theorem gkm_transaction_write_file_returns_witness:
  "gkm_transaction_write_file (sample_env [2 \<mapsto> EINTR] 1) ''k'' [1, 2] gkm_transaction_new sample_fs = None"
proof -
  let ?e = "sample_env [2 \<mapsto> EINTR] 1"
  have ok: "env_ok ?e" "\<not> failed gkm_transaction_new" by (simp_all add: env_ok_def sample_env_def gkm_transaction_new_def)
  have "\<exists>found T' fs'. begin_link_temporary_if_exists ?e ''k'' gkm_transaction_new sample_fs = Some (True, found, T', fs')
      \<and> write_interrupted ?e ''k'' [1, 2] fs'"
    by (intro exI [of _ True]) (simp add: transaction_eval write_interrupted_def)
  with gkm_transaction_write_file_returns [OF ok(1) _ ok(2), of "[1, 2]" "''k''" sample_fs] show ?thesis by simp
qed

end
