(* ===== verification/RpcHandlers.thy ===== *)
theory RpcHandlers
  imports RpcProto
begin

text \<open>
  The call handlers of the daemon end of the PKCS\#11 RPC protocol,
  \<^verbatim>\<open>pkcs11/rpc-layer/gkm-rpc-dispatch.c\<close>: one function \<open>dispatch_C_...\<close> per \<^verbatim>\<open>rpc_C_...\<close>. A handler
  reads the arguments of its call from the request, calls the function of the PKCS\#11 module and
  writes the results to the response.

  The module behind the daemon (\<^verbatim>\<open>pkcs11_module\<close>) is a parameter: a list of functions, each of which
  may be missing, over a state \<open>'s\<close> of the module. A function with an output buffer is given the
  buffer (\<open>None\<close> for \<^verbatim>\<open>NULL\<close>) with its length and gives back the buffer and the length. The macros
  of the C code (\<^verbatim>\<open>BEGIN_CALL\<close>, \<^verbatim>\<open>IN_ULONG\<close> and so on) are functions that take the rest of the handler
  as an argument; \<^verbatim>\<open>goto _cleanup\<close> is not to call it.
\<close>

type_synonym ('o, 's) pkcs11_call = "'s \<Rightarrow> CK_RV \<times> 'o \<times> 's"

text \<open>
  The list is declared over type variables for the C types (\<open>'u\<close> for \<^verbatim>\<open>CK_ULONG\<close>, \<open>'b\<close> for a byte
  pointer, \<open>'l\<close> for a pointer to longs, \<open>'a\<close> for an attribute array, \<open>'m\<close> for a mechanism, \<open>'r\<close> for
  \<^verbatim>\<open>CK_RV\<close>, \<open>'y\<close> for \<^verbatim>\<open>CK_BBOOL\<close>, \<open>'i 'j 'k 'p 't\<close> for the information structures), which
  \<open>CK_FUNCTION_LIST\<close> fills in.
\<close>

record ('a, 'b, 'i, 'j, 'k, 'l, 'm, 'p, 'r, 's, 't, 'u, 'y) function_list =
  C_GetInfo :: "('s \<Rightarrow> 'r \<times> 'i \<times> 's) option"
  C_GetSlotList :: "('y \<Rightarrow> 'l \<Rightarrow> 'u \<Rightarrow> 's \<Rightarrow> 'r \<times> ('l \<times> 'u) \<times> 's) option"
  C_GetSlotInfo :: "('u \<Rightarrow> 's \<Rightarrow> 'r \<times> 'p \<times> 's) option"
  C_GetTokenInfo :: "('u \<Rightarrow> 's \<Rightarrow> 'r \<times> 't \<times> 's) option"
  C_GetMechanismList :: "('u \<Rightarrow> 'l \<Rightarrow> 'u \<Rightarrow> 's \<Rightarrow> 'r \<times> ('l \<times> 'u) \<times> 's) option"
  C_GetMechanismInfo :: "('u \<Rightarrow> 'u \<Rightarrow> 's \<Rightarrow> 'r \<times> 'j \<times> 's) option"
  C_InitToken :: "('u \<Rightarrow> 'b \<Rightarrow> 'u \<Rightarrow> 'b \<Rightarrow> 's \<Rightarrow> 'r \<times> unit \<times> 's) option"
  C_WaitForSlotEvent :: "('u \<Rightarrow> 's \<Rightarrow> 'r \<times> 'u \<times> 's) option"
  C_OpenSession :: "('u \<Rightarrow> 'u \<Rightarrow> 'u \<Rightarrow> 's \<Rightarrow> 'r \<times> ('u \<times> 'u) \<times> 's) option"
  C_CloseSession :: "('u \<Rightarrow> 's \<Rightarrow> 'r \<times> unit \<times> 's) option"
  C_CloseAllSessions :: "('u \<Rightarrow> 's \<Rightarrow> 'r \<times> unit \<times> 's) option"
  C_GetFunctionStatus :: "('u \<Rightarrow> 's \<Rightarrow> 'r \<times> unit \<times> 's) option"
  C_CancelFunction :: "('u \<Rightarrow> 's \<Rightarrow> 'r \<times> unit \<times> 's) option"
  C_GetSessionInfo :: "('u \<Rightarrow> 's \<Rightarrow> 'r \<times> 'k \<times> 's) option"
  C_InitPIN :: "('u \<Rightarrow> 'b \<Rightarrow> 'u \<Rightarrow> 's \<Rightarrow> 'r \<times> unit \<times> 's) option"
  C_SetPIN :: "('u \<Rightarrow> 'b \<Rightarrow> 'u \<Rightarrow> 'b \<Rightarrow> 'u \<Rightarrow> 's \<Rightarrow> 'r \<times> unit \<times> 's) option"
  C_GetOperationState :: "('u \<Rightarrow> 'b \<Rightarrow> 'u \<Rightarrow> 's \<Rightarrow> 'r \<times> ('b \<times> 'u) \<times> 's) option"
  C_SetOperationState :: "('u \<Rightarrow> 'b \<Rightarrow> 'u \<Rightarrow> 'u \<Rightarrow> 'u \<Rightarrow> 's \<Rightarrow> 'r \<times> unit \<times> 's) option"
  C_Login :: "('u \<Rightarrow> 'u \<Rightarrow> 'b \<Rightarrow> 'u \<Rightarrow> 's \<Rightarrow> 'r \<times> unit \<times> 's) option"
  C_Logout :: "('u \<Rightarrow> 's \<Rightarrow> 'r \<times> unit \<times> 's) option"
  C_CreateObject :: "('u \<Rightarrow> 'a \<Rightarrow> 'u \<Rightarrow> 's \<Rightarrow> 'r \<times> 'u \<times> 's) option"
  C_CopyObject :: "('u \<Rightarrow> 'u \<Rightarrow> 'a \<Rightarrow> 'u \<Rightarrow> 's \<Rightarrow> 'r \<times> 'u \<times> 's) option"
  C_DestroyObject :: "('u \<Rightarrow> 'u \<Rightarrow> 's \<Rightarrow> 'r \<times> unit \<times> 's) option"
  C_GetObjectSize :: "('u \<Rightarrow> 'u \<Rightarrow> 's \<Rightarrow> 'r \<times> 'u \<times> 's) option"
  C_GetAttributeValue :: "('u \<Rightarrow> 'u \<Rightarrow> 'a \<Rightarrow> 'u \<Rightarrow> 's \<Rightarrow> 'r \<times> 'a \<times> 's) option"
  C_SetAttributeValue :: "('u \<Rightarrow> 'u \<Rightarrow> 'a \<Rightarrow> 'u \<Rightarrow> 's \<Rightarrow> 'r \<times> unit \<times> 's) option"
  C_FindObjectsInit :: "('u \<Rightarrow> 'a \<Rightarrow> 'u \<Rightarrow> 's \<Rightarrow> 'r \<times> unit \<times> 's) option"
  C_FindObjects :: "('u \<Rightarrow> 'l \<Rightarrow> 'u \<Rightarrow> 's \<Rightarrow> 'r \<times> ('l \<times> 'u) \<times> 's) option"
  C_FindObjectsFinal :: "('u \<Rightarrow> 's \<Rightarrow> 'r \<times> unit \<times> 's) option"
  C_EncryptInit :: "('u \<Rightarrow> 'm \<Rightarrow> 'u \<Rightarrow> 's \<Rightarrow> 'r \<times> unit \<times> 's) option"
  C_Encrypt :: "('u \<Rightarrow> 'b \<Rightarrow> 'u \<Rightarrow> 'b \<Rightarrow> 'u \<Rightarrow> 's \<Rightarrow> 'r \<times> ('b \<times> 'u) \<times> 's) option"
  C_EncryptUpdate :: "('u \<Rightarrow> 'b \<Rightarrow> 'u \<Rightarrow> 'b \<Rightarrow> 'u \<Rightarrow> 's \<Rightarrow> 'r \<times> ('b \<times> 'u) \<times> 's) option"
  C_EncryptFinal :: "('u \<Rightarrow> 'b \<Rightarrow> 'u \<Rightarrow> 's \<Rightarrow> 'r \<times> ('b \<times> 'u) \<times> 's) option"
  C_DecryptInit :: "('u \<Rightarrow> 'm \<Rightarrow> 'u \<Rightarrow> 's \<Rightarrow> 'r \<times> unit \<times> 's) option"
  C_Decrypt :: "('u \<Rightarrow> 'b \<Rightarrow> 'u \<Rightarrow> 'b \<Rightarrow> 'u \<Rightarrow> 's \<Rightarrow> 'r \<times> ('b \<times> 'u) \<times> 's) option"
  C_DecryptUpdate :: "('u \<Rightarrow> 'b \<Rightarrow> 'u \<Rightarrow> 'b \<Rightarrow> 'u \<Rightarrow> 's \<Rightarrow> 'r \<times> ('b \<times> 'u) \<times> 's) option"
  C_DecryptFinal :: "('u \<Rightarrow> 'b \<Rightarrow> 'u \<Rightarrow> 's \<Rightarrow> 'r \<times> ('b \<times> 'u) \<times> 's) option"
  C_DigestInit :: "('u \<Rightarrow> 'm \<Rightarrow> 's \<Rightarrow> 'r \<times> unit \<times> 's) option"
  C_Digest :: "('u \<Rightarrow> 'b \<Rightarrow> 'u \<Rightarrow> 'b \<Rightarrow> 'u \<Rightarrow> 's \<Rightarrow> 'r \<times> ('b \<times> 'u) \<times> 's) option"
  C_DigestUpdate :: "('u \<Rightarrow> 'b \<Rightarrow> 'u \<Rightarrow> 's \<Rightarrow> 'r \<times> unit \<times> 's) option"
  C_DigestKey :: "('u \<Rightarrow> 'u \<Rightarrow> 's \<Rightarrow> 'r \<times> unit \<times> 's) option"
  C_DigestFinal :: "('u \<Rightarrow> 'b \<Rightarrow> 'u \<Rightarrow> 's \<Rightarrow> 'r \<times> ('b \<times> 'u) \<times> 's) option"
  C_SignInit :: "('u \<Rightarrow> 'm \<Rightarrow> 'u \<Rightarrow> 's \<Rightarrow> 'r \<times> unit \<times> 's) option"
  C_Sign :: "('u \<Rightarrow> 'b \<Rightarrow> 'u \<Rightarrow> 'b \<Rightarrow> 'u \<Rightarrow> 's \<Rightarrow> 'r \<times> ('b \<times> 'u) \<times> 's) option"
  C_SignUpdate :: "('u \<Rightarrow> 'b \<Rightarrow> 'u \<Rightarrow> 's \<Rightarrow> 'r \<times> unit \<times> 's) option"
  C_SignFinal :: "('u \<Rightarrow> 'b \<Rightarrow> 'u \<Rightarrow> 's \<Rightarrow> 'r \<times> ('b \<times> 'u) \<times> 's) option"
  C_SignRecoverInit :: "('u \<Rightarrow> 'm \<Rightarrow> 'u \<Rightarrow> 's \<Rightarrow> 'r \<times> unit \<times> 's) option"
  C_SignRecover :: "('u \<Rightarrow> 'b \<Rightarrow> 'u \<Rightarrow> 'b \<Rightarrow> 'u \<Rightarrow> 's \<Rightarrow> 'r \<times> ('b \<times> 'u) \<times> 's) option"
  C_VerifyInit :: "('u \<Rightarrow> 'm \<Rightarrow> 'u \<Rightarrow> 's \<Rightarrow> 'r \<times> unit \<times> 's) option"
  C_Verify :: "('u \<Rightarrow> 'b \<Rightarrow> 'u \<Rightarrow> 'b \<Rightarrow> 'u \<Rightarrow> 's \<Rightarrow> 'r \<times> unit \<times> 's) option"
  C_VerifyUpdate :: "('u \<Rightarrow> 'b \<Rightarrow> 'u \<Rightarrow> 's \<Rightarrow> 'r \<times> unit \<times> 's) option"
  C_VerifyFinal :: "('u \<Rightarrow> 'b \<Rightarrow> 'u \<Rightarrow> 's \<Rightarrow> 'r \<times> unit \<times> 's) option"
  C_VerifyRecoverInit :: "('u \<Rightarrow> 'm \<Rightarrow> 'u \<Rightarrow> 's \<Rightarrow> 'r \<times> unit \<times> 's) option"
  C_VerifyRecover :: "('u \<Rightarrow> 'b \<Rightarrow> 'u \<Rightarrow> 'b \<Rightarrow> 'u \<Rightarrow> 's \<Rightarrow> 'r \<times> ('b \<times> 'u) \<times> 's) option"
  C_DigestEncryptUpdate :: "('u \<Rightarrow> 'b \<Rightarrow> 'u \<Rightarrow> 'b \<Rightarrow> 'u \<Rightarrow> 's \<Rightarrow> 'r \<times> ('b \<times> 'u) \<times> 's) option"
  C_DecryptDigestUpdate :: "('u \<Rightarrow> 'b \<Rightarrow> 'u \<Rightarrow> 'b \<Rightarrow> 'u \<Rightarrow> 's \<Rightarrow> 'r \<times> ('b \<times> 'u) \<times> 's) option"
  C_SignEncryptUpdate :: "('u \<Rightarrow> 'b \<Rightarrow> 'u \<Rightarrow> 'b \<Rightarrow> 'u \<Rightarrow> 's \<Rightarrow> 'r \<times> ('b \<times> 'u) \<times> 's) option"
  C_DecryptVerifyUpdate :: "('u \<Rightarrow> 'b \<Rightarrow> 'u \<Rightarrow> 'b \<Rightarrow> 'u \<Rightarrow> 's \<Rightarrow> 'r \<times> ('b \<times> 'u) \<times> 's) option"
  C_GenerateKey :: "('u \<Rightarrow> 'm \<Rightarrow> 'a \<Rightarrow> 'u \<Rightarrow> 's \<Rightarrow> 'r \<times> 'u \<times> 's) option"
  C_GenerateKeyPair :: "('u \<Rightarrow> 'm \<Rightarrow> 'a \<Rightarrow> 'u \<Rightarrow> 'a \<Rightarrow> 'u \<Rightarrow> 's \<Rightarrow> 'r \<times> ('u \<times> 'u) \<times> 's) option"
  C_WrapKey :: "('u \<Rightarrow> 'm \<Rightarrow> 'u \<Rightarrow> 'u \<Rightarrow> 'b \<Rightarrow> 'u \<Rightarrow> 's \<Rightarrow> 'r \<times> ('b \<times> 'u) \<times> 's) option"
  C_UnwrapKey :: "('u \<Rightarrow> 'm \<Rightarrow> 'u \<Rightarrow> 'b \<Rightarrow> 'u \<Rightarrow> 'a \<Rightarrow> 'u \<Rightarrow> 's \<Rightarrow> 'r \<times> 'u \<times> 's) option"
  C_DeriveKey :: "('u \<Rightarrow> 'm \<Rightarrow> 'u \<Rightarrow> 'a \<Rightarrow> 'u \<Rightarrow> 's \<Rightarrow> 'r \<times> 'u \<times> 's) option"
  C_SeedRandom :: "('u \<Rightarrow> 'b \<Rightarrow> 'u \<Rightarrow> 's \<Rightarrow> 'r \<times> unit \<times> 's) option"
  C_GenerateRandom :: "('u \<Rightarrow> 'b \<Rightarrow> 'u \<Rightarrow> 's \<Rightarrow> 'r \<times> 'b \<times> 's) option"

type_synonym 's CK_FUNCTION_LIST =
  "(CK_ATTRIBUTE list, bytes option, CK_INFO, CK_MECHANISM_INFO, CK_SESSION_INFO, CK_ULONG list option,
    CK_MECHANISM, CK_SLOT_INFO, CK_RV, 's, CK_TOKEN_INFO, CK_ULONG, byte) function_list"

subsection \<open>The macros\<close>

type_synonym 's handler = "CallState \<times> 's \<Rightarrow> (CK_RV \<times> CallState \<times> 's) option"

definition dispatch_BEGIN_CALL :: "'f option \<Rightarrow> ('f \<Rightarrow> 's handler) \<Rightarrow> 's handler" where
  "dispatch_BEGIN_CALL func body = (\<lambda>(cs, s).
     case func of None \<Rightarrow> Some (CKR_GENERAL_ERROR, cs, s) | Some f \<Rightarrow> body f (cs, s))"

text \<open>A message reader, whose failure is \<^verbatim>\<open>PARSE_ERROR\<close>, and a codec with its own return value.\<close>

definition dispatch_read :: "'a msg_reader \<Rightarrow> ('a \<Rightarrow> 's handler) \<Rightarrow> 's handler" where
  "dispatch_read r body = (\<lambda>(cs, s). do {
     (v, m) \<leftarrow> r (req cs);
     case v of
       None \<Rightarrow> Some (PARSE_ERROR, cs\<lparr>req := m\<rparr>, s)
     | Some val \<Rightarrow> body val (cs\<lparr>req := m\<rparr>, s)
   })"

definition dispatch_proto :: "(CallState \<Rightarrow> (CK_RV \<times> 'a option \<times> CallState) option)
    \<Rightarrow> ('a \<Rightarrow> 's handler) \<Rightarrow> 's handler" where
  "dispatch_proto p body = (\<lambda>(cs, s). do {
     (ret, v, cs1) \<leftarrow> p cs;
     if ret \<noteq> CKR_OK then Some (ret, cs1, s)
     else case v of None \<Rightarrow> None | Some val \<Rightarrow> body val (cs1, s)
   })"

definition dispatch_IN_BYTE :: "(byte \<Rightarrow> 's handler) \<Rightarrow> 's handler" where
  "dispatch_IN_BYTE body = dispatch_read gkm_rpc_message_read_byte body"

definition dispatch_IN_ULONG :: "(CK_ULONG \<Rightarrow> 's handler) \<Rightarrow> 's handler" where
  "dispatch_IN_ULONG body = dispatch_read gkm_rpc_message_read_ulong body"

definition dispatch_IN_STRING :: "heap \<Rightarrow> (bytes option \<Rightarrow> 's handler) \<Rightarrow> 's handler" where
  "dispatch_IN_STRING h body = dispatch_proto (dispatch_proto_read_null_string h) body"

definition dispatch_IN_BYTE_BUFFER :: "heap \<Rightarrow> (bytes option \<Rightarrow> CK_ULONG \<Rightarrow> 's handler) \<Rightarrow> 's handler" where
  "dispatch_IN_BYTE_BUFFER h body = dispatch_proto (dispatch_proto_read_byte_buffer h) (case_prod body)"

definition dispatch_IN_BYTE_ARRAY :: "(bytes option \<Rightarrow> CK_ULONG \<Rightarrow> 's handler) \<Rightarrow> 's handler" where
  "dispatch_IN_BYTE_ARRAY body = dispatch_proto dispatch_proto_read_byte_array (case_prod body)"

definition dispatch_IN_ULONG_BUFFER ::
    "heap \<Rightarrow> (CK_ULONG list option \<Rightarrow> CK_ULONG \<Rightarrow> 's handler) \<Rightarrow> 's handler" where
  "dispatch_IN_ULONG_BUFFER h body = dispatch_proto (dispatch_proto_read_ulong_buffer h) (case_prod body)"

definition dispatch_IN_ATTRIBUTE_BUFFER ::
    "heap \<Rightarrow> (CK_ATTRIBUTE list \<Rightarrow> CK_ULONG \<Rightarrow> 's handler) \<Rightarrow> 's handler" where
  "dispatch_IN_ATTRIBUTE_BUFFER h body =
     dispatch_proto (dispatch_proto_read_attribute_buffer h) (case_prod body)"

definition dispatch_IN_ATTRIBUTE_ARRAY ::
    "heap \<Rightarrow> (CK_ATTRIBUTE list \<Rightarrow> CK_ULONG \<Rightarrow> 's handler) \<Rightarrow> 's handler" where
  "dispatch_IN_ATTRIBUTE_ARRAY h body =
     dispatch_proto (dispatch_proto_read_attribute_array h) (case_prod body)"

definition dispatch_IN_MECHANISM :: "(CK_MECHANISM \<Rightarrow> 's handler) \<Rightarrow> 's handler" where
  "dispatch_IN_MECHANISM body = dispatch_proto dispatch_proto_read_mechanism body"

definition dispatch_PROCESS_CALL ::
    "('o, 's) pkcs11_call \<Rightarrow> (CK_RV \<Rightarrow> 'o \<Rightarrow> 's handler) \<Rightarrow> 's handler" where
  "dispatch_PROCESS_CALL call outs = (\<lambda>(cs, s).
     if \<not> gkm_rpc_message_is_verified (req cs) then None
     else case call s of (ret, out, s1) \<Rightarrow> outs ret out (cs, s1))"

text \<open>The output macros take \<open>_ret\<close> and leave it changed for what follows.\<close>

type_synonym 's out_handler = "CK_RV \<Rightarrow> 's handler"

definition dispatch_END_CALL :: "'s out_handler" where
  "dispatch_END_CALL ret = (\<lambda>(cs, s). Some (ret, cs, s))"

definition dispatch_out :: "(CK_RV \<Rightarrow> CallState \<Rightarrow> (CK_RV \<times> CallState) option) \<Rightarrow> 's out_handler \<Rightarrow> 's out_handler" where
  "dispatch_out w rest ret = (\<lambda>(cs, s). do { (ret1, cs1) \<leftarrow> w ret cs; rest ret1 (cs1, s) })"

definition dispatch_OUT_ULONG :: "heap \<Rightarrow> CK_ULONG \<Rightarrow> 's out_handler \<Rightarrow> 's out_handler" where
  "dispatch_OUT_ULONG h val = dispatch_out (\<lambda>ret cs.
     if ret = CKR_OK then do {
       (ok, m) \<leftarrow> gkm_rpc_message_write_ulong h val (resp cs);
       Some (if ok then CKR_OK else PREP_ERROR, cs\<lparr>resp := m\<rparr>)
     }
     else Some (ret, cs))"

definition dispatch_OUT_BYTE_ARRAY :: "heap \<Rightarrow> bytes option \<Rightarrow> CK_ULONG \<Rightarrow> 's out_handler \<Rightarrow> 's out_handler" where
  "dispatch_OUT_BYTE_ARRAY h array len = dispatch_out (dispatch_proto_write_byte_array h array len)"

definition dispatch_OUT_ULONG_ARRAY ::
    "heap \<Rightarrow> CK_ULONG list option \<Rightarrow> CK_ULONG \<Rightarrow> 's out_handler \<Rightarrow> 's out_handler" where
  "dispatch_OUT_ULONG_ARRAY h array len = dispatch_out (dispatch_proto_write_ulong_array h array len)"

definition dispatch_OUT_ATTRIBUTE_ARRAY :: "heap \<Rightarrow> CK_ATTRIBUTE list \<Rightarrow> 's out_handler \<Rightarrow> 's out_handler" where
  "dispatch_OUT_ATTRIBUTE_ARRAY h array = dispatch_out (dispatch_proto_write_attribute_array h array)"

definition dispatch_if_ok ::
    "(CallState \<Rightarrow> (CK_RV \<times> CallState) option) \<Rightarrow> CK_RV \<Rightarrow> CallState \<Rightarrow> (CK_RV \<times> CallState) option" where
  "dispatch_if_ok w ret cs = (if ret = CKR_OK then w cs else Some (ret, cs))"

definition dispatch_OUT_INFO :: "heap \<Rightarrow> CK_INFO \<Rightarrow> 's out_handler \<Rightarrow> 's out_handler" where
  "dispatch_OUT_INFO h val = dispatch_out (dispatch_if_ok (dispatch_proto_write_info h val))"

definition dispatch_OUT_SLOT_INFO :: "heap \<Rightarrow> CK_SLOT_INFO \<Rightarrow> 's out_handler \<Rightarrow> 's out_handler" where
  "dispatch_OUT_SLOT_INFO h val = dispatch_out (dispatch_if_ok (dispatch_proto_write_slot_info h val))"

definition dispatch_OUT_TOKEN_INFO :: "heap \<Rightarrow> CK_TOKEN_INFO \<Rightarrow> 's out_handler \<Rightarrow> 's out_handler" where
  "dispatch_OUT_TOKEN_INFO h val = dispatch_out (dispatch_if_ok (dispatch_proto_write_token_info h val))"

definition dispatch_OUT_MECHANISM_INFO :: "heap \<Rightarrow> CK_MECHANISM_INFO \<Rightarrow> 's out_handler \<Rightarrow> 's out_handler" where
  "dispatch_OUT_MECHANISM_INFO h val =
     dispatch_out (dispatch_if_ok (dispatch_proto_write_mechanism_info h val))"

definition dispatch_OUT_SESSION_INFO :: "heap \<Rightarrow> CK_SESSION_INFO \<Rightarrow> 's out_handler \<Rightarrow> 's out_handler" where
  "dispatch_OUT_SESSION_INFO h val =
     dispatch_out (dispatch_if_ok (dispatch_proto_write_session_info h val))"

text \<open>Access to \<^verbatim>\<open>cs->application\<close>, which \<^verbatim>\<open>C_OpenSession\<close> of the module may set.\<close>

definition dispatch_APPLICATION :: "(CK_ULONG \<Rightarrow> 's handler) \<Rightarrow> 's handler" where
  "dispatch_APPLICATION body = (\<lambda>(cs, s). body (application cs) (cs, s))"

definition dispatch_set_application :: "CK_ULONG \<Rightarrow> 's out_handler \<Rightarrow> 's out_handler" where
  "dispatch_set_application app rest ret = (\<lambda>(cs, s). rest ret (cs\<lparr>application := app\<rparr>, s))"

definition CKF_G_APPLICATION_SESSION :: CK_ULONG where "CKF_G_APPLICATION_SESSION = 0x40000000"

subsection \<open>Initialize and Finalize\<close>

text \<open>
  \<^verbatim>\<open>GKM_RPC_HANDSHAKE_LEN\<close> is \<^verbatim>\<open>sizeof\<close> of a pointer less one, not the length of the string. The
  string block has its NUL.
\<close>

definition GKM_RPC_HANDSHAKE :: bytes where
  "GKM_RPC_HANDSHAKE = ascii ''PRIVATE-MATE-KEYRING-PKCS11-PROTOCOL-V-1'' @ [0]"

definition GKM_RPC_HANDSHAKE_LEN :: nat where "GKM_RPC_HANDSHAKE_LEN = 8 - 1"

definition dispatch_C_Initialize :: "'s handler" where
  "dispatch_C_Initialize = (\<lambda>(cs, s). do {
     (ret, v, cs1) \<leftarrow> dispatch_proto_read_byte_array cs;
     if ret \<noteq> CKR_OK then Some (ret, cs1, s)
     else do {
       (handshake, n_handshake) \<leftarrow> v;
       ret1 \<leftarrow> (if unat n_handshake \<noteq> GKM_RPC_HANDSHAKE_LEN then Some CKR_GENERAL_ERROR
               else do {
                 block \<leftarrow> handshake;
                 a \<leftarrow> mem_read block 0 (unat n_handshake);
                 b \<leftarrow> mem_read GKM_RPC_HANDSHAKE 0 (unat n_handshake);
                 Some (if a \<noteq> b then CKR_GENERAL_ERROR else CKR_OK)
               });
       if \<not> gkm_rpc_message_is_verified (req cs1) then None else Some (ret1, cs1, s)
     }
   })"

text \<open>
  \<open>junk\<close> is what the variable \<^verbatim>\<open>ret\<close> of \<open>rpc_C_Finalize\<close> holds before it is assigned. Calling a
  missing function is a fault.
\<close>

fun close_slots :: "(CK_ULONG \<Rightarrow> (unit, 's) pkcs11_call) option \<Rightarrow> CK_ULONG \<Rightarrow> CK_ULONG list \<Rightarrow> nat
    \<Rightarrow> CK_RV \<Rightarrow> 's \<Rightarrow> (CK_RV \<times> 's) option" where
  "close_slots func app slots 0 ret s = Some (ret, s)"
| "close_slots func app slots (Suc n) ret s =
     (if ret \<noteq> CKR_OK then Some (ret, s)
      else case (func, slots) of
             (Some close, slot # rest) \<Rightarrow>
               (case close (slot OR app) s of (ret1, _, s1) \<Rightarrow> close_slots func app rest n ret1 s1)
           | _ \<Rightarrow> None)"

definition dispatch_C_Finalize :: "CK_RV \<Rightarrow> heap \<Rightarrow> 's CK_FUNCTION_LIST \<Rightarrow> 's handler" where
  "dispatch_C_Finalize junk h f = (\<lambda>(cs, s).
     if application cs = 0 then Some (junk, cs, s)
     else do {
       get_slots \<leftarrow> C_GetSlotList f;
       let (ret, (_, n_slots), s1) = get_slots 1 None 0 s;
       if ret \<noteq> CKR_OK then Some (ret, cs, s1)
       else (case h Default_allocator None (8 * unat n_slots) of
               None \<Rightarrow> Some (CKR_DEVICE_MEMORY, cs, s1)
             | Some _ \<Rightarrow> do {
                 let (ret1, (slots, n_slots1), s2) =
                       get_slots 1 (Some (replicate (unat n_slots) 0)) n_slots s1;
                 list \<leftarrow> slots;
                 (ret2, s3) \<leftarrow> close_slots (C_CloseAllSessions f) (application cs) list (unat n_slots1) ret1 s2;
                 Some (ret2, cs, s3)
               })
     })"

subsection \<open>The other handlers\<close>

definition dispatch_C_GetInfo :: "heap \<Rightarrow> 's CK_FUNCTION_LIST \<Rightarrow> 's handler" where
  "dispatch_C_GetInfo h f = dispatch_BEGIN_CALL (C_GetInfo f) (\<lambda>func.
     dispatch_PROCESS_CALL func (\<lambda>ret info.
       dispatch_OUT_INFO h info dispatch_END_CALL ret))"

definition dispatch_C_GetSlotList :: "heap \<Rightarrow> 's CK_FUNCTION_LIST \<Rightarrow> 's handler" where
  "dispatch_C_GetSlotList h f = dispatch_BEGIN_CALL (C_GetSlotList f) (\<lambda>func.
     dispatch_IN_BYTE (\<lambda>token_present.
     dispatch_IN_ULONG_BUFFER h (\<lambda>slot_list count.
     dispatch_PROCESS_CALL (func token_present slot_list count) (\<lambda>ret (slot_list', count').
       dispatch_OUT_ULONG_ARRAY h slot_list' count' dispatch_END_CALL ret))))"

definition dispatch_C_GetSlotInfo :: "heap \<Rightarrow> 's CK_FUNCTION_LIST \<Rightarrow> 's handler" where
  "dispatch_C_GetSlotInfo h f = dispatch_BEGIN_CALL (C_GetSlotInfo f) (\<lambda>func.
     dispatch_IN_ULONG (\<lambda>slot_id.
     dispatch_PROCESS_CALL (func slot_id) (\<lambda>ret info.
       dispatch_OUT_SLOT_INFO h info dispatch_END_CALL ret)))"

definition dispatch_C_GetTokenInfo :: "heap \<Rightarrow> 's CK_FUNCTION_LIST \<Rightarrow> 's handler" where
  "dispatch_C_GetTokenInfo h f = dispatch_BEGIN_CALL (C_GetTokenInfo f) (\<lambda>func.
     dispatch_IN_ULONG (\<lambda>slot_id.
     dispatch_PROCESS_CALL (func slot_id) (\<lambda>ret info.
       dispatch_OUT_TOKEN_INFO h info dispatch_END_CALL ret)))"

definition dispatch_C_GetMechanismList :: "heap \<Rightarrow> 's CK_FUNCTION_LIST \<Rightarrow> 's handler" where
  "dispatch_C_GetMechanismList h f = dispatch_BEGIN_CALL (C_GetMechanismList f) (\<lambda>func.
     dispatch_IN_ULONG (\<lambda>slot_id.
     dispatch_IN_ULONG_BUFFER h (\<lambda>mechanism_list count.
     dispatch_PROCESS_CALL (func slot_id mechanism_list count) (\<lambda>ret (mechanism_list', count').
       dispatch_OUT_ULONG_ARRAY h mechanism_list' count' dispatch_END_CALL ret))))"

definition dispatch_C_GetMechanismInfo :: "heap \<Rightarrow> 's CK_FUNCTION_LIST \<Rightarrow> 's handler" where
  "dispatch_C_GetMechanismInfo h f = dispatch_BEGIN_CALL (C_GetMechanismInfo f) (\<lambda>func.
     dispatch_IN_ULONG (\<lambda>slot_id.
     dispatch_IN_ULONG (\<lambda>typ.
     dispatch_PROCESS_CALL (func slot_id typ) (\<lambda>ret info.
       dispatch_OUT_MECHANISM_INFO h info dispatch_END_CALL ret))))"

definition dispatch_C_InitToken :: "heap \<Rightarrow> 's CK_FUNCTION_LIST \<Rightarrow> 's handler" where
  "dispatch_C_InitToken h f = dispatch_BEGIN_CALL (C_InitToken f) (\<lambda>func.
     dispatch_IN_ULONG (\<lambda>slot_id.
     dispatch_IN_BYTE_ARRAY (\<lambda>pin pin_len.
     dispatch_IN_STRING h (\<lambda>lab.
     dispatch_PROCESS_CALL (func slot_id pin pin_len lab) (\<lambda>ret _.
       dispatch_END_CALL ret)))))"

definition dispatch_C_WaitForSlotEvent :: "heap \<Rightarrow> 's CK_FUNCTION_LIST \<Rightarrow> 's handler" where
  "dispatch_C_WaitForSlotEvent h f = dispatch_BEGIN_CALL (C_WaitForSlotEvent f) (\<lambda>func.
     dispatch_IN_ULONG (\<lambda>flg.
     dispatch_PROCESS_CALL (func flg) (\<lambda>ret slot_id.
       dispatch_OUT_ULONG h slot_id dispatch_END_CALL ret)))"

definition dispatch_C_OpenSession :: "heap \<Rightarrow> 's CK_FUNCTION_LIST \<Rightarrow> 's handler" where
  "dispatch_C_OpenSession h f = dispatch_BEGIN_CALL (C_OpenSession f) (\<lambda>func.
     dispatch_IN_ULONG (\<lambda>slot_id.
     dispatch_IN_ULONG (\<lambda>flg.
     dispatch_APPLICATION (\<lambda>app.
     dispatch_PROCESS_CALL (func slot_id (flg OR CKF_G_APPLICATION_SESSION) app)
       (\<lambda>ret (app', session).
       dispatch_set_application app' (dispatch_OUT_ULONG h session dispatch_END_CALL) ret)))))"

definition dispatch_C_CloseSession :: "heap \<Rightarrow> 's CK_FUNCTION_LIST \<Rightarrow> 's handler" where
  "dispatch_C_CloseSession h f = dispatch_BEGIN_CALL (C_CloseSession f) (\<lambda>func.
     dispatch_IN_ULONG (\<lambda>session.
     dispatch_PROCESS_CALL (func session) (\<lambda>ret _.
       dispatch_END_CALL ret)))"

definition dispatch_C_CloseAllSessions :: "heap \<Rightarrow> 's CK_FUNCTION_LIST \<Rightarrow> 's handler" where
  "dispatch_C_CloseAllSessions h f = dispatch_BEGIN_CALL (C_CloseAllSessions f) (\<lambda>func.
     dispatch_IN_ULONG (\<lambda>slot_id.
     dispatch_APPLICATION (\<lambda>app.
     dispatch_PROCESS_CALL (func (slot_id OR app)) (\<lambda>ret _.
       dispatch_END_CALL ret))))"

definition dispatch_C_GetFunctionStatus :: "heap \<Rightarrow> 's CK_FUNCTION_LIST \<Rightarrow> 's handler" where
  "dispatch_C_GetFunctionStatus h f = dispatch_BEGIN_CALL (C_GetFunctionStatus f) (\<lambda>func.
     dispatch_IN_ULONG (\<lambda>session.
     dispatch_PROCESS_CALL (func session) (\<lambda>ret _.
       dispatch_END_CALL ret)))"

definition dispatch_C_CancelFunction :: "heap \<Rightarrow> 's CK_FUNCTION_LIST \<Rightarrow> 's handler" where
  "dispatch_C_CancelFunction h f = dispatch_BEGIN_CALL (C_CancelFunction f) (\<lambda>func.
     dispatch_IN_ULONG (\<lambda>session.
     dispatch_PROCESS_CALL (func session) (\<lambda>ret _.
       dispatch_END_CALL ret)))"

definition dispatch_C_GetSessionInfo :: "heap \<Rightarrow> 's CK_FUNCTION_LIST \<Rightarrow> 's handler" where
  "dispatch_C_GetSessionInfo h f = dispatch_BEGIN_CALL (C_GetSessionInfo f) (\<lambda>func.
     dispatch_IN_ULONG (\<lambda>session.
     dispatch_PROCESS_CALL (func session) (\<lambda>ret info.
       dispatch_OUT_SESSION_INFO h info dispatch_END_CALL ret)))"

definition dispatch_C_InitPIN :: "heap \<Rightarrow> 's CK_FUNCTION_LIST \<Rightarrow> 's handler" where
  "dispatch_C_InitPIN h f = dispatch_BEGIN_CALL (C_InitPIN f) (\<lambda>func.
     dispatch_IN_ULONG (\<lambda>session.
     dispatch_IN_BYTE_ARRAY (\<lambda>pin pin_len.
     dispatch_PROCESS_CALL (func session pin pin_len) (\<lambda>ret _.
       dispatch_END_CALL ret))))"

definition dispatch_C_SetPIN :: "heap \<Rightarrow> 's CK_FUNCTION_LIST \<Rightarrow> 's handler" where
  "dispatch_C_SetPIN h f = dispatch_BEGIN_CALL (C_SetPIN f) (\<lambda>func.
     dispatch_IN_ULONG (\<lambda>session.
     dispatch_IN_BYTE_ARRAY (\<lambda>old_pin old_len.
     dispatch_IN_BYTE_ARRAY (\<lambda>new_pin new_len.
     dispatch_PROCESS_CALL (func session old_pin old_len new_pin new_len) (\<lambda>ret _.
       dispatch_END_CALL ret)))))"

definition dispatch_C_GetOperationState :: "heap \<Rightarrow> 's CK_FUNCTION_LIST \<Rightarrow> 's handler" where
  "dispatch_C_GetOperationState h f = dispatch_BEGIN_CALL (C_GetOperationState f) (\<lambda>func.
     dispatch_IN_ULONG (\<lambda>session.
     dispatch_IN_BYTE_BUFFER h (\<lambda>operation_state operation_state_len.
     dispatch_PROCESS_CALL (func session operation_state operation_state_len)
       (\<lambda>ret (operation_state', operation_state_len').
       dispatch_OUT_BYTE_ARRAY h operation_state' operation_state_len' dispatch_END_CALL ret))))"

definition dispatch_C_SetOperationState :: "heap \<Rightarrow> 's CK_FUNCTION_LIST \<Rightarrow> 's handler" where
  "dispatch_C_SetOperationState h f = dispatch_BEGIN_CALL (C_SetOperationState f) (\<lambda>func.
     dispatch_IN_ULONG (\<lambda>session.
     dispatch_IN_BYTE_ARRAY (\<lambda>operation_state operation_state_len.
     dispatch_IN_ULONG (\<lambda>encryption_key.
     dispatch_IN_ULONG (\<lambda>authentication_key.
     dispatch_PROCESS_CALL (func session operation_state operation_state_len encryption_key authentication_key)
       (\<lambda>ret _.
       dispatch_END_CALL ret))))))"

definition dispatch_C_Login :: "heap \<Rightarrow> 's CK_FUNCTION_LIST \<Rightarrow> 's handler" where
  "dispatch_C_Login h f = dispatch_BEGIN_CALL (C_Login f) (\<lambda>func.
     dispatch_IN_ULONG (\<lambda>session.
     dispatch_IN_ULONG (\<lambda>user_type.
     dispatch_IN_BYTE_ARRAY (\<lambda>pin pin_len.
     dispatch_PROCESS_CALL (func session user_type pin pin_len) (\<lambda>ret _.
       dispatch_END_CALL ret)))))"

definition dispatch_C_Logout :: "heap \<Rightarrow> 's CK_FUNCTION_LIST \<Rightarrow> 's handler" where
  "dispatch_C_Logout h f = dispatch_BEGIN_CALL (C_Logout f) (\<lambda>func.
     dispatch_IN_ULONG (\<lambda>session.
     dispatch_PROCESS_CALL (func session) (\<lambda>ret _.
       dispatch_END_CALL ret)))"

definition dispatch_C_CreateObject :: "heap \<Rightarrow> 's CK_FUNCTION_LIST \<Rightarrow> 's handler" where
  "dispatch_C_CreateObject h f = dispatch_BEGIN_CALL (C_CreateObject f) (\<lambda>func.
     dispatch_IN_ULONG (\<lambda>session.
     dispatch_IN_ATTRIBUTE_ARRAY h (\<lambda>templ count.
     dispatch_PROCESS_CALL (func session templ count) (\<lambda>ret new_object.
       dispatch_OUT_ULONG h new_object dispatch_END_CALL ret))))"

definition dispatch_C_CopyObject :: "heap \<Rightarrow> 's CK_FUNCTION_LIST \<Rightarrow> 's handler" where
  "dispatch_C_CopyObject h f = dispatch_BEGIN_CALL (C_CopyObject f) (\<lambda>func.
     dispatch_IN_ULONG (\<lambda>session.
     dispatch_IN_ULONG (\<lambda>obj.
     dispatch_IN_ATTRIBUTE_ARRAY h (\<lambda>templ count.
     dispatch_PROCESS_CALL (func session obj templ count) (\<lambda>ret new_object.
       dispatch_OUT_ULONG h new_object dispatch_END_CALL ret)))))"

definition dispatch_C_DestroyObject :: "heap \<Rightarrow> 's CK_FUNCTION_LIST \<Rightarrow> 's handler" where
  "dispatch_C_DestroyObject h f = dispatch_BEGIN_CALL (C_DestroyObject f) (\<lambda>func.
     dispatch_IN_ULONG (\<lambda>session.
     dispatch_IN_ULONG (\<lambda>obj.
     dispatch_PROCESS_CALL (func session obj) (\<lambda>ret _.
       dispatch_END_CALL ret))))"

definition dispatch_C_GetObjectSize :: "heap \<Rightarrow> 's CK_FUNCTION_LIST \<Rightarrow> 's handler" where
  "dispatch_C_GetObjectSize h f = dispatch_BEGIN_CALL (C_GetObjectSize f) (\<lambda>func.
     dispatch_IN_ULONG (\<lambda>session.
     dispatch_IN_ULONG (\<lambda>obj.
     dispatch_PROCESS_CALL (func session obj) (\<lambda>ret sz.
       dispatch_OUT_ULONG h sz dispatch_END_CALL ret))))"

definition dispatch_C_GetAttributeValue :: "heap \<Rightarrow> 's CK_FUNCTION_LIST \<Rightarrow> 's handler" where
  "dispatch_C_GetAttributeValue h f = dispatch_BEGIN_CALL (C_GetAttributeValue f) (\<lambda>func.
     dispatch_IN_ULONG (\<lambda>session.
     dispatch_IN_ULONG (\<lambda>obj.
     dispatch_IN_ATTRIBUTE_BUFFER h (\<lambda>templ count.
     dispatch_PROCESS_CALL (func session obj templ count) (\<lambda>ret templ'.
       dispatch_OUT_ATTRIBUTE_ARRAY h templ' dispatch_END_CALL ret)))))"

definition dispatch_C_SetAttributeValue :: "heap \<Rightarrow> 's CK_FUNCTION_LIST \<Rightarrow> 's handler" where
  "dispatch_C_SetAttributeValue h f = dispatch_BEGIN_CALL (C_SetAttributeValue f) (\<lambda>func.
     dispatch_IN_ULONG (\<lambda>session.
     dispatch_IN_ULONG (\<lambda>obj.
     dispatch_IN_ATTRIBUTE_ARRAY h (\<lambda>templ count.
     dispatch_PROCESS_CALL (func session obj templ count) (\<lambda>ret _.
       dispatch_END_CALL ret)))))"

definition dispatch_C_FindObjectsInit :: "heap \<Rightarrow> 's CK_FUNCTION_LIST \<Rightarrow> 's handler" where
  "dispatch_C_FindObjectsInit h f = dispatch_BEGIN_CALL (C_FindObjectsInit f) (\<lambda>func.
     dispatch_IN_ULONG (\<lambda>session.
     dispatch_IN_ATTRIBUTE_ARRAY h (\<lambda>templ count.
     dispatch_PROCESS_CALL (func session templ count) (\<lambda>ret _.
       dispatch_END_CALL ret))))"

definition dispatch_C_FindObjects :: "heap \<Rightarrow> 's CK_FUNCTION_LIST \<Rightarrow> 's handler" where
  "dispatch_C_FindObjects h f = dispatch_BEGIN_CALL (C_FindObjects f) (\<lambda>func.
     dispatch_IN_ULONG (\<lambda>session.
     dispatch_IN_ULONG_BUFFER h (\<lambda>objects max_object_count.
     dispatch_PROCESS_CALL (func session objects max_object_count) (\<lambda>ret (objects', object_count).
       dispatch_OUT_ULONG_ARRAY h objects' object_count dispatch_END_CALL ret))))"

definition dispatch_C_FindObjectsFinal :: "heap \<Rightarrow> 's CK_FUNCTION_LIST \<Rightarrow> 's handler" where
  "dispatch_C_FindObjectsFinal h f = dispatch_BEGIN_CALL (C_FindObjectsFinal f) (\<lambda>func.
     dispatch_IN_ULONG (\<lambda>session.
     dispatch_PROCESS_CALL (func session) (\<lambda>ret _.
       dispatch_END_CALL ret)))"

definition dispatch_C_EncryptInit :: "heap \<Rightarrow> 's CK_FUNCTION_LIST \<Rightarrow> 's handler" where
  "dispatch_C_EncryptInit h f = dispatch_BEGIN_CALL (C_EncryptInit f) (\<lambda>func.
     dispatch_IN_ULONG (\<lambda>session.
     dispatch_IN_MECHANISM (\<lambda>mech.
     dispatch_IN_ULONG (\<lambda>key.
     dispatch_PROCESS_CALL (func session mech key) (\<lambda>ret _.
       dispatch_END_CALL ret)))))"

definition dispatch_C_Encrypt :: "heap \<Rightarrow> 's CK_FUNCTION_LIST \<Rightarrow> 's handler" where
  "dispatch_C_Encrypt h f = dispatch_BEGIN_CALL (C_Encrypt f) (\<lambda>func.
     dispatch_IN_ULONG (\<lambda>session.
     dispatch_IN_BYTE_ARRAY (\<lambda>data data_len.
     dispatch_IN_BYTE_BUFFER h (\<lambda>encrypted_data encrypted_data_len.
     dispatch_PROCESS_CALL (func session data data_len encrypted_data encrypted_data_len)
       (\<lambda>ret (encrypted_data', encrypted_data_len').
       dispatch_OUT_BYTE_ARRAY h encrypted_data' encrypted_data_len' dispatch_END_CALL ret)))))"

definition dispatch_C_EncryptUpdate :: "heap \<Rightarrow> 's CK_FUNCTION_LIST \<Rightarrow> 's handler" where
  "dispatch_C_EncryptUpdate h f = dispatch_BEGIN_CALL (C_EncryptUpdate f) (\<lambda>func.
     dispatch_IN_ULONG (\<lambda>session.
     dispatch_IN_BYTE_ARRAY (\<lambda>prt part_len.
     dispatch_IN_BYTE_BUFFER h (\<lambda>encrypted_part encrypted_part_len.
     dispatch_PROCESS_CALL (func session prt part_len encrypted_part encrypted_part_len)
       (\<lambda>ret (encrypted_part', encrypted_part_len').
       dispatch_OUT_BYTE_ARRAY h encrypted_part' encrypted_part_len' dispatch_END_CALL ret)))))"

definition dispatch_C_EncryptFinal :: "heap \<Rightarrow> 's CK_FUNCTION_LIST \<Rightarrow> 's handler" where
  "dispatch_C_EncryptFinal h f = dispatch_BEGIN_CALL (C_EncryptFinal f) (\<lambda>func.
     dispatch_IN_ULONG (\<lambda>session.
     dispatch_IN_BYTE_BUFFER h (\<lambda>last_encrypted_part last_encrypted_part_len.
     dispatch_PROCESS_CALL (func session last_encrypted_part last_encrypted_part_len)
       (\<lambda>ret (last_encrypted_part', last_encrypted_part_len').
       dispatch_OUT_BYTE_ARRAY h last_encrypted_part' last_encrypted_part_len' dispatch_END_CALL ret))))"

definition dispatch_C_DecryptInit :: "heap \<Rightarrow> 's CK_FUNCTION_LIST \<Rightarrow> 's handler" where
  "dispatch_C_DecryptInit h f = dispatch_BEGIN_CALL (C_DecryptInit f) (\<lambda>func.
     dispatch_IN_ULONG (\<lambda>session.
     dispatch_IN_MECHANISM (\<lambda>mech.
     dispatch_IN_ULONG (\<lambda>key.
     dispatch_PROCESS_CALL (func session mech key) (\<lambda>ret _.
       dispatch_END_CALL ret)))))"

definition dispatch_C_Decrypt :: "heap \<Rightarrow> 's CK_FUNCTION_LIST \<Rightarrow> 's handler" where
  "dispatch_C_Decrypt h f = dispatch_BEGIN_CALL (C_Decrypt f) (\<lambda>func.
     dispatch_IN_ULONG (\<lambda>session.
     dispatch_IN_BYTE_ARRAY (\<lambda>encrypted_data encrypted_data_len.
     dispatch_IN_BYTE_BUFFER h (\<lambda>data data_len.
     dispatch_PROCESS_CALL (func session encrypted_data encrypted_data_len data data_len)
       (\<lambda>ret (data', data_len').
       dispatch_OUT_BYTE_ARRAY h data' data_len' dispatch_END_CALL ret)))))"

definition dispatch_C_DecryptUpdate :: "heap \<Rightarrow> 's CK_FUNCTION_LIST \<Rightarrow> 's handler" where
  "dispatch_C_DecryptUpdate h f = dispatch_BEGIN_CALL (C_DecryptUpdate f) (\<lambda>func.
     dispatch_IN_ULONG (\<lambda>session.
     dispatch_IN_BYTE_ARRAY (\<lambda>encrypted_part encrypted_part_len.
     dispatch_IN_BYTE_BUFFER h (\<lambda>prt part_len.
     dispatch_PROCESS_CALL (func session encrypted_part encrypted_part_len prt part_len)
       (\<lambda>ret (prt', part_len').
       dispatch_OUT_BYTE_ARRAY h prt' part_len' dispatch_END_CALL ret)))))"

definition dispatch_C_DecryptFinal :: "heap \<Rightarrow> 's CK_FUNCTION_LIST \<Rightarrow> 's handler" where
  "dispatch_C_DecryptFinal h f = dispatch_BEGIN_CALL (C_DecryptFinal f) (\<lambda>func.
     dispatch_IN_ULONG (\<lambda>session.
     dispatch_IN_BYTE_BUFFER h (\<lambda>last_part last_part_len.
     dispatch_PROCESS_CALL (func session last_part last_part_len) (\<lambda>ret (last_part', last_part_len').
       dispatch_OUT_BYTE_ARRAY h last_part' last_part_len' dispatch_END_CALL ret))))"

definition dispatch_C_DigestInit :: "heap \<Rightarrow> 's CK_FUNCTION_LIST \<Rightarrow> 's handler" where
  "dispatch_C_DigestInit h f = dispatch_BEGIN_CALL (C_DigestInit f) (\<lambda>func.
     dispatch_IN_ULONG (\<lambda>session.
     dispatch_IN_MECHANISM (\<lambda>mech.
     dispatch_PROCESS_CALL (func session mech) (\<lambda>ret _.
       dispatch_END_CALL ret))))"

definition dispatch_C_Digest :: "heap \<Rightarrow> 's CK_FUNCTION_LIST \<Rightarrow> 's handler" where
  "dispatch_C_Digest h f = dispatch_BEGIN_CALL (C_Digest f) (\<lambda>func.
     dispatch_IN_ULONG (\<lambda>session.
     dispatch_IN_BYTE_ARRAY (\<lambda>data data_len.
     dispatch_IN_BYTE_BUFFER h (\<lambda>digest digest_len.
     dispatch_PROCESS_CALL (func session data data_len digest digest_len)
       (\<lambda>ret (digest', digest_len').
       dispatch_OUT_BYTE_ARRAY h digest' digest_len' dispatch_END_CALL ret)))))"

definition dispatch_C_DigestUpdate :: "heap \<Rightarrow> 's CK_FUNCTION_LIST \<Rightarrow> 's handler" where
  "dispatch_C_DigestUpdate h f = dispatch_BEGIN_CALL (C_DigestUpdate f) (\<lambda>func.
     dispatch_IN_ULONG (\<lambda>session.
     dispatch_IN_BYTE_ARRAY (\<lambda>prt part_len.
     dispatch_PROCESS_CALL (func session prt part_len) (\<lambda>ret _.
       dispatch_END_CALL ret))))"

definition dispatch_C_DigestKey :: "heap \<Rightarrow> 's CK_FUNCTION_LIST \<Rightarrow> 's handler" where
  "dispatch_C_DigestKey h f = dispatch_BEGIN_CALL (C_DigestKey f) (\<lambda>func.
     dispatch_IN_ULONG (\<lambda>session.
     dispatch_IN_ULONG (\<lambda>key.
     dispatch_PROCESS_CALL (func session key) (\<lambda>ret _.
       dispatch_END_CALL ret))))"

definition dispatch_C_DigestFinal :: "heap \<Rightarrow> 's CK_FUNCTION_LIST \<Rightarrow> 's handler" where
  "dispatch_C_DigestFinal h f = dispatch_BEGIN_CALL (C_DigestFinal f) (\<lambda>func.
     dispatch_IN_ULONG (\<lambda>session.
     dispatch_IN_BYTE_BUFFER h (\<lambda>digest digest_len.
     dispatch_PROCESS_CALL (func session digest digest_len) (\<lambda>ret (digest', digest_len').
       dispatch_OUT_BYTE_ARRAY h digest' digest_len' dispatch_END_CALL ret))))"

definition dispatch_C_SignInit :: "heap \<Rightarrow> 's CK_FUNCTION_LIST \<Rightarrow> 's handler" where
  "dispatch_C_SignInit h f = dispatch_BEGIN_CALL (C_SignInit f) (\<lambda>func.
     dispatch_IN_ULONG (\<lambda>session.
     dispatch_IN_MECHANISM (\<lambda>mech.
     dispatch_IN_ULONG (\<lambda>key.
     dispatch_PROCESS_CALL (func session mech key) (\<lambda>ret _.
       dispatch_END_CALL ret)))))"

definition dispatch_C_Sign :: "heap \<Rightarrow> 's CK_FUNCTION_LIST \<Rightarrow> 's handler" where
  "dispatch_C_Sign h f = dispatch_BEGIN_CALL (C_Sign f) (\<lambda>func.
     dispatch_IN_ULONG (\<lambda>session.
     dispatch_IN_BYTE_ARRAY (\<lambda>prt part_len.
     dispatch_IN_BYTE_BUFFER h (\<lambda>sgn signature_len.
     dispatch_PROCESS_CALL (func session prt part_len sgn signature_len) (\<lambda>ret (sgn', signature_len').
       dispatch_OUT_BYTE_ARRAY h sgn' signature_len' dispatch_END_CALL ret)))))"

definition dispatch_C_SignUpdate :: "heap \<Rightarrow> 's CK_FUNCTION_LIST \<Rightarrow> 's handler" where
  "dispatch_C_SignUpdate h f = dispatch_BEGIN_CALL (C_SignUpdate f) (\<lambda>func.
     dispatch_IN_ULONG (\<lambda>session.
     dispatch_IN_BYTE_ARRAY (\<lambda>prt part_len.
     dispatch_PROCESS_CALL (func session prt part_len) (\<lambda>ret _.
       dispatch_END_CALL ret))))"

definition dispatch_C_SignFinal :: "heap \<Rightarrow> 's CK_FUNCTION_LIST \<Rightarrow> 's handler" where
  "dispatch_C_SignFinal h f = dispatch_BEGIN_CALL (C_SignFinal f) (\<lambda>func.
     dispatch_IN_ULONG (\<lambda>session.
     dispatch_IN_BYTE_BUFFER h (\<lambda>sgn signature_len.
     dispatch_PROCESS_CALL (func session sgn signature_len) (\<lambda>ret (sgn', signature_len').
       dispatch_OUT_BYTE_ARRAY h sgn' signature_len' dispatch_END_CALL ret))))"

definition dispatch_C_SignRecoverInit :: "heap \<Rightarrow> 's CK_FUNCTION_LIST \<Rightarrow> 's handler" where
  "dispatch_C_SignRecoverInit h f = dispatch_BEGIN_CALL (C_SignRecoverInit f) (\<lambda>func.
     dispatch_IN_ULONG (\<lambda>session.
     dispatch_IN_MECHANISM (\<lambda>mech.
     dispatch_IN_ULONG (\<lambda>key.
     dispatch_PROCESS_CALL (func session mech key) (\<lambda>ret _.
       dispatch_END_CALL ret)))))"

definition dispatch_C_SignRecover :: "heap \<Rightarrow> 's CK_FUNCTION_LIST \<Rightarrow> 's handler" where
  "dispatch_C_SignRecover h f = dispatch_BEGIN_CALL (C_SignRecover f) (\<lambda>func.
     dispatch_IN_ULONG (\<lambda>session.
     dispatch_IN_BYTE_ARRAY (\<lambda>data data_len.
     dispatch_IN_BYTE_BUFFER h (\<lambda>sgn signature_len.
     dispatch_PROCESS_CALL (func session data data_len sgn signature_len)
       (\<lambda>ret (sgn', signature_len').
       dispatch_OUT_BYTE_ARRAY h sgn' signature_len' dispatch_END_CALL ret)))))"

definition dispatch_C_VerifyInit :: "heap \<Rightarrow> 's CK_FUNCTION_LIST \<Rightarrow> 's handler" where
  "dispatch_C_VerifyInit h f = dispatch_BEGIN_CALL (C_VerifyInit f) (\<lambda>func.
     dispatch_IN_ULONG (\<lambda>session.
     dispatch_IN_MECHANISM (\<lambda>mech.
     dispatch_IN_ULONG (\<lambda>key.
     dispatch_PROCESS_CALL (func session mech key) (\<lambda>ret _.
       dispatch_END_CALL ret)))))"

definition dispatch_C_Verify :: "heap \<Rightarrow> 's CK_FUNCTION_LIST \<Rightarrow> 's handler" where
  "dispatch_C_Verify h f = dispatch_BEGIN_CALL (C_Verify f) (\<lambda>func.
     dispatch_IN_ULONG (\<lambda>session.
     dispatch_IN_BYTE_ARRAY (\<lambda>data data_len.
     dispatch_IN_BYTE_ARRAY (\<lambda>sgn signature_len.
     dispatch_PROCESS_CALL (func session data data_len sgn signature_len) (\<lambda>ret _.
       dispatch_END_CALL ret)))))"

definition dispatch_C_VerifyUpdate :: "heap \<Rightarrow> 's CK_FUNCTION_LIST \<Rightarrow> 's handler" where
  "dispatch_C_VerifyUpdate h f = dispatch_BEGIN_CALL (C_VerifyUpdate f) (\<lambda>func.
     dispatch_IN_ULONG (\<lambda>session.
     dispatch_IN_BYTE_ARRAY (\<lambda>prt part_len.
     dispatch_PROCESS_CALL (func session prt part_len) (\<lambda>ret _.
       dispatch_END_CALL ret))))"

definition dispatch_C_VerifyFinal :: "heap \<Rightarrow> 's CK_FUNCTION_LIST \<Rightarrow> 's handler" where
  "dispatch_C_VerifyFinal h f = dispatch_BEGIN_CALL (C_VerifyFinal f) (\<lambda>func.
     dispatch_IN_ULONG (\<lambda>session.
     dispatch_IN_BYTE_ARRAY (\<lambda>sgn signature_len.
     dispatch_PROCESS_CALL (func session sgn signature_len) (\<lambda>ret _.
       dispatch_END_CALL ret))))"

definition dispatch_C_VerifyRecoverInit :: "heap \<Rightarrow> 's CK_FUNCTION_LIST \<Rightarrow> 's handler" where
  "dispatch_C_VerifyRecoverInit h f = dispatch_BEGIN_CALL (C_VerifyRecoverInit f) (\<lambda>func.
     dispatch_IN_ULONG (\<lambda>session.
     dispatch_IN_MECHANISM (\<lambda>mech.
     dispatch_IN_ULONG (\<lambda>key.
     dispatch_PROCESS_CALL (func session mech key) (\<lambda>ret _.
       dispatch_END_CALL ret)))))"

definition dispatch_C_VerifyRecover :: "heap \<Rightarrow> 's CK_FUNCTION_LIST \<Rightarrow> 's handler" where
  "dispatch_C_VerifyRecover h f = dispatch_BEGIN_CALL (C_VerifyRecover f) (\<lambda>func.
     dispatch_IN_ULONG (\<lambda>session.
     dispatch_IN_BYTE_ARRAY (\<lambda>sgn signature_len.
     dispatch_IN_BYTE_BUFFER h (\<lambda>data data_len.
     dispatch_PROCESS_CALL (func session sgn signature_len data data_len) (\<lambda>ret (data', data_len').
       dispatch_OUT_BYTE_ARRAY h data' data_len' dispatch_END_CALL ret)))))"

definition dispatch_C_DigestEncryptUpdate :: "heap \<Rightarrow> 's CK_FUNCTION_LIST \<Rightarrow> 's handler" where
  "dispatch_C_DigestEncryptUpdate h f = dispatch_BEGIN_CALL (C_DigestEncryptUpdate f) (\<lambda>func.
     dispatch_IN_ULONG (\<lambda>session.
     dispatch_IN_BYTE_ARRAY (\<lambda>prt part_len.
     dispatch_IN_BYTE_BUFFER h (\<lambda>encrypted_part encrypted_part_len.
     dispatch_PROCESS_CALL (func session prt part_len encrypted_part encrypted_part_len)
       (\<lambda>ret (encrypted_part', encrypted_part_len').
       dispatch_OUT_BYTE_ARRAY h encrypted_part' encrypted_part_len' dispatch_END_CALL ret)))))"

definition dispatch_C_DecryptDigestUpdate :: "heap \<Rightarrow> 's CK_FUNCTION_LIST \<Rightarrow> 's handler" where
  "dispatch_C_DecryptDigestUpdate h f = dispatch_BEGIN_CALL (C_DecryptDigestUpdate f) (\<lambda>func.
     dispatch_IN_ULONG (\<lambda>session.
     dispatch_IN_BYTE_ARRAY (\<lambda>encrypted_part encrypted_part_len.
     dispatch_IN_BYTE_BUFFER h (\<lambda>prt part_len.
     dispatch_PROCESS_CALL (func session encrypted_part encrypted_part_len prt part_len)
       (\<lambda>ret (prt', part_len').
       dispatch_OUT_BYTE_ARRAY h prt' part_len' dispatch_END_CALL ret)))))"

definition dispatch_C_SignEncryptUpdate :: "heap \<Rightarrow> 's CK_FUNCTION_LIST \<Rightarrow> 's handler" where
  "dispatch_C_SignEncryptUpdate h f = dispatch_BEGIN_CALL (C_SignEncryptUpdate f) (\<lambda>func.
     dispatch_IN_ULONG (\<lambda>session.
     dispatch_IN_BYTE_ARRAY (\<lambda>prt part_len.
     dispatch_IN_BYTE_BUFFER h (\<lambda>encrypted_part encrypted_part_len.
     dispatch_PROCESS_CALL (func session prt part_len encrypted_part encrypted_part_len)
       (\<lambda>ret (encrypted_part', encrypted_part_len').
       dispatch_OUT_BYTE_ARRAY h encrypted_part' encrypted_part_len' dispatch_END_CALL ret)))))"

definition dispatch_C_DecryptVerifyUpdate :: "heap \<Rightarrow> 's CK_FUNCTION_LIST \<Rightarrow> 's handler" where
  "dispatch_C_DecryptVerifyUpdate h f = dispatch_BEGIN_CALL (C_DecryptVerifyUpdate f) (\<lambda>func.
     dispatch_IN_ULONG (\<lambda>session.
     dispatch_IN_BYTE_ARRAY (\<lambda>encrypted_part encrypted_part_len.
     dispatch_IN_BYTE_BUFFER h (\<lambda>prt part_len.
     dispatch_PROCESS_CALL (func session encrypted_part encrypted_part_len prt part_len)
       (\<lambda>ret (prt', part_len').
       dispatch_OUT_BYTE_ARRAY h prt' part_len' dispatch_END_CALL ret)))))"

definition dispatch_C_GenerateKey :: "heap \<Rightarrow> 's CK_FUNCTION_LIST \<Rightarrow> 's handler" where
  "dispatch_C_GenerateKey h f = dispatch_BEGIN_CALL (C_GenerateKey f) (\<lambda>func.
     dispatch_IN_ULONG (\<lambda>session.
     dispatch_IN_MECHANISM (\<lambda>mech.
     dispatch_IN_ATTRIBUTE_ARRAY h (\<lambda>templ count.
     dispatch_PROCESS_CALL (func session mech templ count) (\<lambda>ret key.
       dispatch_OUT_ULONG h key dispatch_END_CALL ret)))))"

definition dispatch_C_GenerateKeyPair :: "heap \<Rightarrow> 's CK_FUNCTION_LIST \<Rightarrow> 's handler" where
  "dispatch_C_GenerateKeyPair h f = dispatch_BEGIN_CALL (C_GenerateKeyPair f) (\<lambda>func.
     dispatch_IN_ULONG (\<lambda>session.
     dispatch_IN_MECHANISM (\<lambda>mech.
     dispatch_IN_ATTRIBUTE_ARRAY h (\<lambda>public_key_template public_key_attribute_count.
     dispatch_IN_ATTRIBUTE_ARRAY h (\<lambda>private_key_template private_key_attribute_count.
     dispatch_PROCESS_CALL (func session mech public_key_template public_key_attribute_count private_key_template private_key_attribute_count)
       (\<lambda>ret (public_key, private_key).
       dispatch_OUT_ULONG h public_key (dispatch_OUT_ULONG h private_key dispatch_END_CALL) ret))))))"

definition dispatch_C_WrapKey :: "heap \<Rightarrow> 's CK_FUNCTION_LIST \<Rightarrow> 's handler" where
  "dispatch_C_WrapKey h f = dispatch_BEGIN_CALL (C_WrapKey f) (\<lambda>func.
     dispatch_IN_ULONG (\<lambda>session.
     dispatch_IN_MECHANISM (\<lambda>mech.
     dispatch_IN_ULONG (\<lambda>wrapping_key.
     dispatch_IN_ULONG (\<lambda>key.
     dispatch_IN_BYTE_BUFFER h (\<lambda>wrapped_key wrapped_key_len.
     dispatch_PROCESS_CALL (func session mech wrapping_key key wrapped_key wrapped_key_len)
       (\<lambda>ret (wrapped_key', wrapped_key_len').
       dispatch_OUT_BYTE_ARRAY h wrapped_key' wrapped_key_len' dispatch_END_CALL ret)))))))"

definition dispatch_C_UnwrapKey :: "heap \<Rightarrow> 's CK_FUNCTION_LIST \<Rightarrow> 's handler" where
  "dispatch_C_UnwrapKey h f = dispatch_BEGIN_CALL (C_UnwrapKey f) (\<lambda>func.
     dispatch_IN_ULONG (\<lambda>session.
     dispatch_IN_MECHANISM (\<lambda>mech.
     dispatch_IN_ULONG (\<lambda>unwrapping_key.
     dispatch_IN_BYTE_ARRAY (\<lambda>wrapped_key wrapped_key_len.
     dispatch_IN_ATTRIBUTE_ARRAY h (\<lambda>templ attribute_count.
     dispatch_PROCESS_CALL (func session mech unwrapping_key wrapped_key wrapped_key_len templ attribute_count)
       (\<lambda>ret key.
       dispatch_OUT_ULONG h key dispatch_END_CALL ret)))))))"

definition dispatch_C_DeriveKey :: "heap \<Rightarrow> 's CK_FUNCTION_LIST \<Rightarrow> 's handler" where
  "dispatch_C_DeriveKey h f = dispatch_BEGIN_CALL (C_DeriveKey f) (\<lambda>func.
     dispatch_IN_ULONG (\<lambda>session.
     dispatch_IN_MECHANISM (\<lambda>mech.
     dispatch_IN_ULONG (\<lambda>base_key.
     dispatch_IN_ATTRIBUTE_ARRAY h (\<lambda>templ attribute_count.
     dispatch_PROCESS_CALL (func session mech base_key templ attribute_count) (\<lambda>ret key.
       dispatch_OUT_ULONG h key dispatch_END_CALL ret))))))"

definition dispatch_C_SeedRandom :: "heap \<Rightarrow> 's CK_FUNCTION_LIST \<Rightarrow> 's handler" where
  "dispatch_C_SeedRandom h f = dispatch_BEGIN_CALL (C_SeedRandom f) (\<lambda>func.
     dispatch_IN_ULONG (\<lambda>session.
     dispatch_IN_BYTE_ARRAY (\<lambda>seed seed_len.
     dispatch_PROCESS_CALL (func session seed seed_len) (\<lambda>ret _.
       dispatch_END_CALL ret))))"

definition dispatch_C_GenerateRandom :: "heap \<Rightarrow> 's CK_FUNCTION_LIST \<Rightarrow> 's handler" where
  "dispatch_C_GenerateRandom h f = dispatch_BEGIN_CALL (C_GenerateRandom f) (\<lambda>func.
     dispatch_IN_ULONG (\<lambda>session.
     dispatch_IN_BYTE_BUFFER h (\<lambda>random_data random_len.
     dispatch_PROCESS_CALL (func session random_data random_len) (\<lambda>ret random_data'.
       dispatch_OUT_BYTE_ARRAY h random_data' random_len dispatch_END_CALL ret))))"

end
