(* ===== verification/RpcDispatch.thy ===== *)
theory RpcDispatch
  imports RpcHandlers
begin

text \<open>
  The daemon's dispatcher, \<^verbatim>\<open>pkcs11/rpc-layer/gkm-rpc-dispatch.c\<close>: \<open>dispatch_call\<close> runs the handler of a
  parsed request and prepares the response, \<open>run_dispatch_loop\<close> serves one connection.

  The socket is a parameter: what \<^verbatim>\<open>read\<close> and \<^verbatim>\<open>write\<close> return, over a state \<open>'w\<close> of the outside world.
  A loop that does not return is \<open>None\<close>, like a fault.
\<close>

subsection \<open>Dispatching a call\<close>

text \<open>The \<^verbatim>\<open>switch\<close>, by the values of the enumeration of calls in \<^verbatim>\<open>gkm-rpc-private.h\<close>.\<close>

definition dispatch_table :: "CK_RV \<Rightarrow> heap \<Rightarrow> 's CK_FUNCTION_LIST \<Rightarrow> (nat \<times> 's handler) list" where
  "dispatch_table junk h f = [
     (1, dispatch_C_Initialize),
     (2, dispatch_C_Finalize junk h f),
     (3, dispatch_C_GetInfo h f),
     (4, dispatch_C_GetSlotList h f),
     (5, dispatch_C_GetSlotInfo h f),
     (6, dispatch_C_GetTokenInfo h f),
     (7, dispatch_C_GetMechanismList h f),
     (8, dispatch_C_GetMechanismInfo h f),
     (9, dispatch_C_InitToken h f),
     (10, dispatch_C_WaitForSlotEvent h f),
     (11, dispatch_C_OpenSession h f),
     (12, dispatch_C_CloseSession h f),
     (13, dispatch_C_CloseAllSessions h f),
     (14, dispatch_C_GetFunctionStatus h f),
     (15, dispatch_C_CancelFunction h f),
     (16, dispatch_C_GetSessionInfo h f),
     (17, dispatch_C_InitPIN h f),
     (18, dispatch_C_SetPIN h f),
     (19, dispatch_C_GetOperationState h f),
     (20, dispatch_C_SetOperationState h f),
     (21, dispatch_C_Login h f),
     (22, dispatch_C_Logout h f),
     (23, dispatch_C_CreateObject h f),
     (24, dispatch_C_CopyObject h f),
     (25, dispatch_C_DestroyObject h f),
     (26, dispatch_C_GetObjectSize h f),
     (27, dispatch_C_GetAttributeValue h f),
     (28, dispatch_C_SetAttributeValue h f),
     (29, dispatch_C_FindObjectsInit h f),
     (30, dispatch_C_FindObjects h f),
     (31, dispatch_C_FindObjectsFinal h f),
     (32, dispatch_C_EncryptInit h f),
     (33, dispatch_C_Encrypt h f),
     (34, dispatch_C_EncryptUpdate h f),
     (35, dispatch_C_EncryptFinal h f),
     (36, dispatch_C_DecryptInit h f),
     (37, dispatch_C_Decrypt h f),
     (38, dispatch_C_DecryptUpdate h f),
     (39, dispatch_C_DecryptFinal h f),
     (40, dispatch_C_DigestInit h f),
     (41, dispatch_C_Digest h f),
     (42, dispatch_C_DigestUpdate h f),
     (43, dispatch_C_DigestKey h f),
     (44, dispatch_C_DigestFinal h f),
     (45, dispatch_C_SignInit h f),
     (46, dispatch_C_Sign h f),
     (47, dispatch_C_SignUpdate h f),
     (48, dispatch_C_SignFinal h f),
     (49, dispatch_C_SignRecoverInit h f),
     (50, dispatch_C_SignRecover h f),
     (51, dispatch_C_VerifyInit h f),
     (52, dispatch_C_Verify h f),
     (53, dispatch_C_VerifyUpdate h f),
     (54, dispatch_C_VerifyFinal h f),
     (55, dispatch_C_VerifyRecoverInit h f),
     (56, dispatch_C_VerifyRecover h f),
     (57, dispatch_C_DigestEncryptUpdate h f),
     (58, dispatch_C_DecryptDigestUpdate h f),
     (59, dispatch_C_SignEncryptUpdate h f),
     (60, dispatch_C_DecryptVerifyUpdate h f),
     (61, dispatch_C_GenerateKey h f),
     (62, dispatch_C_GenerateKeyPair h f),
     (63, dispatch_C_WrapKey h f),
     (64, dispatch_C_UnwrapKey h f),
     (65, dispatch_C_DeriveKey h f),
     (66, dispatch_C_SeedRandom h f),
     (67, dispatch_C_GenerateRandom h f)]"

definition dispatch_error :: "heap \<Rightarrow> CK_RV \<Rightarrow> CallState \<Rightarrow> (bool \<times> CallState) option" where
  "dispatch_error h ret cs = do {
     (ok1, m1) \<leftarrow> gkm_rpc_message_prep h (int GKM_RPC_CALL_ERROR) GKM_RPC_RESPONSE (resp cs);
     if \<not> ok1 then Some (False, cs\<lparr>resp := m1\<rparr>)
     else do {
       (ok2, m2) \<leftarrow> gkm_rpc_message_write_ulong h (ucast (ucast ret :: 32 word)) m1;
       Some (ok2 \<and> \<not> gkm_rpc_message_buffer_error m2, cs\<lparr>resp := m2\<rparr>)
     }
   }"

definition dispatch_call ::
    "CK_RV \<Rightarrow> heap \<Rightarrow> 's CK_FUNCTION_LIST \<Rightarrow> CallState \<times> 's \<Rightarrow> (bool \<times> CallState \<times> 's) option" where
  "dispatch_call junk h f = (\<lambda>(cs, s).
     if \<not> call_id (req cs) > int GKM_RPC_CALL_ERROR \<or> \<not> call_id (req cs) < int GKM_RPC_CALL_MAX then None
     else do {
       (ok, m) \<leftarrow> gkm_rpc_message_prep h (call_id (req cs)) GKM_RPC_RESPONSE (resp cs);
       let cs1 = cs\<lparr>resp := m\<rparr>;
       if \<not> ok then Some (False, cs1, s)
       else do {
         handler \<leftarrow> map_of (dispatch_table junk h f) (nat (call_id (req cs)));
         (ret, cs2, s1) \<leftarrow> handler (cs1, s);
         let ret1 = (if ret = CKR_OK \<and> gkm_rpc_message_buffer_error (req cs2) then PARSE_ERROR else ret);
         let ret2 = (if ret = CKR_OK \<and> gkm_rpc_message_buffer_error (resp cs2) then PREP_ERROR else ret1);
         if ret2 = CKR_OK then
           if gkm_rpc_message_is_verified (resp cs2)
              \<and> call_type (resp cs2) = GKM_RPC_RESPONSE
              \<and> call_id (resp cs2) = call_id (req cs2)
              \<and> rpc_response (gkm_rpc_calls ! nat (call_id (resp cs2))) \<noteq> None
              \<and> rpc_response (gkm_rpc_calls ! nat (call_id (resp cs2))) = signature (resp cs2)
           then Some (True, cs2, s1) else None
         else do {
           (ok1, cs3) \<leftarrow> dispatch_error h ret2 cs2;
           Some (ok1, cs3, s1)
         }
       }
     })"

subsection \<open>Serving a connection\<close>

datatype sock_errno = SOCK_EAGAIN | SOCK_EINTR | SOCK_EPIPE | SOCK_ERROR

record 'w SOCKET =
  sock_read :: "nat \<Rightarrow> 'w \<Rightarrow> (sock_errno + bytes) \<times> 'w"
  sock_write :: "bytes \<Rightarrow> 'w \<Rightarrow> (sock_errno + nat) \<times> 'w"
  sock_credentials :: "'w \<Rightarrow> 'w"

text \<open>\<open>got\<close> is what was read before; a \<^verbatim>\<open>read\<close> of more than was asked for does not happen.\<close>

partial_function (option) read_loop ::
    "'w SOCKET \<Rightarrow> nat \<Rightarrow> bytes \<Rightarrow> 'w \<Rightarrow> (bool \<times> bytes \<times> 'w) option" where
  "read_loop io n got w =
     (if n > 0 then
        (case sock_read io n w of
           (Inl e, w1) \<Rightarrow>
             if e \<noteq> SOCK_EAGAIN \<and> e \<noteq> SOCK_EINTR then Some (False, got, w1) else read_loop io n got w1
         | (Inr bs, w1) \<Rightarrow>
             if bs = [] then Some (False, got, w1)
             else if length bs > n then None
             else read_loop io (n - length bs) (got @ bs) w1)
      else Some (True, got, w))"

definition read_all :: "'w SOCKET \<Rightarrow> nat \<Rightarrow> 'w \<Rightarrow> (bool \<times> bytes \<times> 'w) option" where
  "read_all io n w = (if n > 0 then read_loop io n [] w else None)"

partial_function (option) write_out ::
    "'w SOCKET \<Rightarrow> bytes \<Rightarrow> 'w \<Rightarrow> (bool \<times> 'w) option" where
  "write_out io data w =
     (if data \<noteq> [] then
        (case sock_write io data w of
           (Inl e, w1) \<Rightarrow>
             if e = SOCK_EPIPE then Some (False, w1)
             else if e \<noteq> SOCK_EAGAIN \<and> e \<noteq> SOCK_EINTR then Some (False, w1)
             else write_out io data w1
         | (Inr r, w1) \<Rightarrow> if r > length data then None else write_out io (drop r data) w1)
      else Some (True, w))"

definition write_all :: "'w SOCKET \<Rightarrow> bytes \<Rightarrow> 'w \<Rightarrow> (bool \<times> 'w) option" where
  "write_all io data w = (if data \<noteq> [] then write_out io data w else None)"

text \<open>
  One round of the loop: the first component is whether the loop goes on. The request is read
  to the start of the buffer that was reserved for it.
\<close>

type_synonym ('s, 'w) serving = "CallState \<times> 's \<times> 'w"

definition receive_request :: "heap \<Rightarrow> 'w SOCKET \<Rightarrow> CallState \<Rightarrow> 'w \<Rightarrow> (bool \<times> CallState \<times> 'w) option" where
  "receive_request h io cs w = do {
     (ok, buf, w1) \<leftarrow> read_all io 4 w;
     if \<not> ok then Some (False, cs, w1)
     else do {
       let n = unat (egg_buffer_decode_uint32 buf);
       if n \<ge> 0x0FFFFFFF then Some (False, cs, w1)
       else do {
         let (_, b) = egg_buffer_reserve h (size_add (eb_len (buffer (req cs))) n) (buffer (req cs));
         let cs1 = cs\<lparr>req := (req cs)\<lparr>buffer := b\<rparr>\<rparr>;
         if egg_buffer_has_error b then Some (False, cs1, w1)
         else do {
           (ok2, data, w2) \<leftarrow> read_all io n w1;
           b1 \<leftarrow> eb_store 0 data b;
           if \<not> ok2 then Some (False, cs1\<lparr>req := (req cs1)\<lparr>buffer := b1\<rparr>\<rparr>, w2)
           else do {
             let (_, b2) = egg_buffer_add_empty h n b1;
             (ok3, m) \<leftarrow> gkm_rpc_message_parse GKM_RPC_REQUEST ((req cs1)\<lparr>buffer := b2\<rparr>);
             Some (ok3, cs1\<lparr>req := m\<rparr>, w2)
           }
         }
       }
     }
   }"

definition send_response :: "'w SOCKET \<Rightarrow> CallState \<Rightarrow> 'w \<Rightarrow> (bool \<times> 'w) option" where
  "send_response io cs w = do {
     (ok, w1) \<leftarrow> write_all io (egg_buffer_encode_uint32 (word_of_nat (eb_len (buffer (resp cs))))) w;
     if \<not> ok then Some (False, w1)
     else do {
       data \<leftarrow> eb_load 0 (eb_len (buffer (resp cs))) (buffer (resp cs));
       write_all io data w1
     }
   }"

definition dispatch_round :: "CK_RV \<Rightarrow> heap \<Rightarrow> 's CK_FUNCTION_LIST \<Rightarrow> 'w SOCKET
    \<Rightarrow> ('s, 'w) serving \<Rightarrow> (bool \<times> ('s, 'w) serving) option" where
  "dispatch_round junk h f io = (\<lambda>(cs, s, w). do {
     cs1 \<leftarrow> call_reset cs;
     (ok, cs2, w1) \<leftarrow> receive_request h io cs1 w;
     if \<not> ok then Some (False, cs2, s, w1)
     else do {
       (ok1, cs3, s1) \<leftarrow> dispatch_call junk h f (cs2, s);
       if \<not> ok1 then Some (False, cs3, s1, w1)
       else do {
         (ok2, w2) \<leftarrow> send_response io cs3 w1;
         Some (ok2, cs3, s1, w2)
       }
     }
   })"

partial_function (option) dispatch_rounds :: "CK_RV \<Rightarrow> heap \<Rightarrow> 's CK_FUNCTION_LIST \<Rightarrow> 'w SOCKET
    \<Rightarrow> ('s, 'w) serving \<Rightarrow> ('s, 'w) serving option" where
  "dispatch_rounds junk h f io st = do {
     (go, st1) \<leftarrow> dispatch_round junk h f io st;
     if go then dispatch_rounds junk h f io st1 else Some st1
   }"

text \<open>
  The test of the credentials, \<^verbatim>\<open>!egg_unix_credentials_read (...) < 0\<close>, is never true; only the
  effect on the socket is left.
\<close>

definition run_dispatch_loop :: "CK_RV \<Rightarrow> heap \<Rightarrow> 's CK_FUNCTION_LIST \<Rightarrow> 'w SOCKET \<Rightarrow> 's \<Rightarrow> 'w
    \<Rightarrow> ('s \<times> 'w) option" where
  "run_dispatch_loop junk h f io s w = do {
     let w1 = sock_credentials io w;
     ready \<leftarrow> call_init h;
     case ready of
       None \<Rightarrow> Some (s, w1)
     | Some cs \<Rightarrow> do {
         (cs1, s1, w2) \<leftarrow> dispatch_rounds junk h f io (cs, s, w1);
         s2 \<leftarrow> (if application cs1 \<noteq> 0 then do {
                  close \<leftarrow> C_CloseAllSessions f;
                  Some (snd (snd (close (application cs1) s1)))
                }
                else Some s1);
         freed \<leftarrow> call_uninit cs1;
         Some (s2, w2)
       }
   }"

end
