(* ===== verification/RpcCodec.thy ===== *)
theory RpcCodec
  imports RpcProto
begin

text \<open>
  What the two ends of the PKCS\#11 RPC protocol promise each other: the values that one end writes
  (theory \<open>RpcProto\<close>) are the values the other end reads.
\<close>

subsection \<open>Sender and receiver\<close>

text \<open>
  \<open>receives part s s' r\<close>: the sender's message went from \<open>s\<close> to \<open>s'\<close>; \<open>r\<close> is the receiver's
  message, which holds at least the same bytes, with the cursor at what was written last.
\<close>

definition receives :: "bytes \<Rightarrow> GkmRpcMessage \<Rightarrow> GkmRpcMessage \<Rightarrow> GkmRpcMessage \<Rightarrow> bool" where
  "receives part s s' r \<longleftrightarrow> eb_wf (buffer r) \<and> expects part r \<and> parsed r = eb_len (buffer s)
     \<and> (\<exists>post. eb_contents (buffer r) = eb_contents (buffer s') @ post)"

text \<open>The cursor at bytes that follow \<open>pre\<close>.\<close>

definition at_bytes :: "bytes \<Rightarrow> GkmRpcMessage \<Rightarrow> bool" where
  "at_bytes bs m \<longleftrightarrow> eb_wf (buffer m)
     \<and> (\<exists>pre post. eb_contents (buffer m) = pre @ bs @ post \<and> parsed m = length pre)"

lemma at_bytesI:
  assumes "msg_emits w part bs" and "eb_wf (buffer s)" and "expects part s" and "w s = Some (True, s')"
    and "receives part s s' r"
  shows "at_bytes bs r" and "eb_len (buffer s') = parsed r + length bs" and "expects part r"
proof -
  have c: "eb_contents (buffer s') = eb_contents (buffer s) @ bs" "eb_wf (buffer s')"
    using assms(1-3) by (cases rule: msg_emits_cases; use assms(4) in \<open>auto simp: added_def\<close>)+
  from assms(5) show "expects part r" by (simp add: receives_def)
  from assms(5) obtain post where r: "eb_wf (buffer r)" "parsed r = eb_len (buffer s)"
    "eb_contents (buffer r) = eb_contents (buffer s') @ post" by (auto simp: receives_def)
  with c show "at_bytes bs r" unfolding at_bytes_def using assms(2)
    by (intro conjI exI [of _ "eb_contents (buffer s)"] exI [of _ post]) auto
  show "eb_len (buffer s') = parsed r + length bs"
    using c r assms(2) by (metis length_eb_contents length_append)
qed

lemma at_bytes_get:
  assumes "parses g v bs" and "at_bytes (bs @ rest) m"
  shows "msg_get g m = Some (Some v, m\<lparr>parsed := parsed m + length bs\<rparr>)"
    and "at_bytes rest (m\<lparr>parsed := parsed m + length bs\<rparr>)"
proof -
  from assms(2) obtain pre post where m: "eb_wf (buffer m)"
    "eb_contents (buffer m) = pre @ (bs @ rest) @ post" "parsed m = length pre"
    unfolding at_bytes_def by blast
  with parses_msg_get [OF assms(1), of m pre "rest @ post"]
  show "msg_get g m = Some (Some v, m\<lparr>parsed := parsed m + length bs\<rparr>)" by simp
  from m show "at_bytes rest (m\<lparr>parsed := parsed m + length bs\<rparr>)"
    unfolding at_bytes_def by (intro conjI exI [of _ "pre @ bs"] exI [of _ post]) auto
qed

lemma at_bytes_advance [simp]: "at_bytes bs (advance p m) = at_bytes bs m"
  by (simp add: at_bytes_def)

lemma at_bytes_prefix: "at_bytes (bs @ rest) m \<Longrightarrow> at_bytes bs m"
  unfolding at_bytes_def by (metis append.assoc)

lemma at_bytes_sig [simp]: "at_bytes bs (m\<lparr>sigverify := x\<rparr>) = at_bytes bs m"
  by (simp add: at_bytes_def)

lemmas at_byte = at_bytes_get [OF get_byte_parses, where rest = "rest" for rest, simplified]
lemmas at_uint32 = at_bytes_get [OF get_uint32_parses, simplified]
lemmas at_uint64 = at_bytes_get [OF get_uint64_parses]
lemmas at_byte_array = at_bytes_get [OF get_byte_array_parses]

lemma length_encode_uint64 [simp]: "length (encode_uint64 v) = 8"
  by (simp add: encode_uint64_def)

lemma loopback:
  assumes "msg_emits w part bs" and "eb_wf (buffer s)" and "expects part s" and "w s = Some (True, s')"
  shows "receives part s s' (s\<lparr>buffer := buffer s', parsed := eb_len (buffer s)\<rparr>)"
  using assms(1-3)
proof (cases rule: msg_emits_cases)
  case (ok b')
  with assms(3,4) show ?thesis by (auto simp: receives_def added_def)
next
  case (fail msg')
  with assms(4) show ?thesis by simp
qed

text \<open>A message without signature and a call state, for concrete instances.\<close>

definition sample_cs :: CallState where
  "sample_cs = \<lparr>req = sample_msg, resp = sample_msg, allocated = [], application = 0\<rparr>"

lemma sample_expects: "expects p sample_msg" "sample_msg = resp sample_cs"
  by (simp_all add: expects_def sample_msg_def sample_cs_def)

definition sent :: "GkmRpcMessage \<Rightarrow> GkmRpcMessage" where
  "sent s' = sample_msg\<lparr>buffer := buffer s', parsed := eb_len (buffer sample_msg)\<rparr>"

lemmas sample_loopback = loopback [OF _ sample_msg_wf sample_expects(1), folded sent_def]

lemmas rpc_eval = sample_cs_def sample_msg_def assert_part_def eb_eval egg_buffer_add_mem_def
  msg_add_def msg_add_seq_def egg_buffer_add_uint64_def egg_buffer_add_byte_def
  egg_buffer_has_error_def ckr_defs

subsection \<open>Byte arrays\<close>

definition encode_arg_array :: "bytes option \<Rightarrow> CK_ULONG \<Rightarrow> bytes" where
  "encode_arg_array arr num = (case arr of
     None \<Rightarrow> 0 # egg_buffer_encode_uint32 (ucast num)
   | Some a \<Rightarrow> 1 # encode_byte_array (Some (take (unat num) a)))"

definition array_ok :: "'a list option \<Rightarrow> CK_ULONG \<Rightarrow> bool" where
  "array_ok arr num \<longleftrightarrow> (case arr of None \<Rightarrow> True | Some a \<Rightarrow> unat num \<le> length a)"

context egg_allocator
begin

lemmas write_ulong_emits = msg_ulong.write_emits [OF TrueI]
lemmas token_travels = token.travels
lemmas token_writes = token.writes_emit
lemmas session_travels = sess.travels

lemma write_byte_array_emits:
  assumes "array_ok arr num"
  shows "msg_emits (gkm_rpc_message_write_byte_array h arr num) (ascii ''ay'') (encode_arg_array arr num)"
proof (cases arr)
  case None
  have "list_all2 emits [egg_buffer_add_byte h 0, egg_buffer_add_uint32 h (ucast num)]
      [[0], egg_buffer_encode_uint32 (ucast num)]" by (simp add: add_byte_emits add_uint32_emits)
  from msg_add_seq_emits [OF this, of "''ay''"] None show ?thesis
    by (simp add: gkm_rpc_message_write_byte_array_def [abs_def] encode_arg_array_def)
next
  case (Some a)
  with assms have "emits (egg_buffer_add_mem h arr (unat num)) (encode_byte_array (Some (take (unat num) a)))"
    using add_mem_emits [of arr "unat num"] by (simp add: array_ok_def)
  then have "list_all2 emits [egg_buffer_add_byte h 1, egg_buffer_add_mem h arr (unat num)]
      [[1], encode_byte_array (Some (take (unat num) a))]" by (simp add: add_byte_emits)
  from msg_add_seq_emits [OF this, of "''ay''"] Some show ?thesis
    by (simp add: gkm_rpc_message_write_byte_array_def [abs_def] encode_arg_array_def)
qed

end

lemma dispatch_read_byte_array:
  assumes "expects (ascii ''ay'') (req cs)" and "length v < 0x7fffffff"
    and "at_bytes (encode_arg_array (Some v) (word_of_nat (length v)) @ rest) (req cs)"
  shows "dispatch_proto_read_byte_array cs = Some (CKR_OK, Some (Some v, word_of_nat (length v)),
    cs\<lparr>req := (advance (ascii ''ay'') (req cs))\<lparr>parsed := parsed (req cs) + 5 + length v\<rparr>\<rparr>)"
proof -
  let ?m = "advance (ascii ''ay'') (req cs)"
  have n: "unat (word_of_nat (length v) :: CK_ULONG) = length v"
    using assms(2) by (intro unat_of_nat_small) simp
  have at: "at_bytes (1 # encode_byte_array (Some v) @ rest) ?m"
    using assms(3) n by (simp add: encode_arg_array_def)
  note 1 = at_byte [OF at]
  have "length_ok (Some v)" using assms(2) by (simp add: length_ok_def)
  note 2 = at_byte_array(1) [OF this 1(2)]
  from 1(1) 2 show ?thesis
    by (simp add: dispatch_proto_read_byte_array_def assert_part_expects [OF assms(1)]
        encode_byte_array_def add.assoc)
qed

lemma dispatch_read_null_array:
  assumes "expects (ascii ''ay'') (req cs)" and "at_bytes (0 # rest) (req cs)"
  shows "dispatch_proto_read_byte_array cs = Some (CKR_OK, Some (None, 0),
      cs\<lparr>req := (advance (ascii ''ay'') (req cs))\<lparr>parsed := parsed (req cs) + 1\<rparr>\<rparr>)"
    and "at_bytes rest ((advance (ascii ''ay'') (req cs))\<lparr>parsed := parsed (req cs) + 1\<rparr>)"
proof -
  have at: "at_bytes (0 # rest) (advance (ascii ''ay'') (req cs))" using assms(2) by simp
  from at_byte(1) [OF at] show "dispatch_proto_read_byte_array cs = Some (CKR_OK, Some (None, 0),
      cs\<lparr>req := (advance (ascii ''ay'') (req cs))\<lparr>parsed := parsed (req cs) + 1\<rparr>\<rparr>)"
    by (simp add: dispatch_proto_read_byte_array_def assert_part_expects [OF assms(1)])
  from at_byte(2) [OF at] show "at_bytes rest ((advance (ascii ''ay'') (req cs))\<lparr>parsed := parsed (req cs) + 1\<rparr>)"
    by simp
qed

text \<open>A byte array argument (a PIN, data to encrypt, a signature) that the client wrote is the byte
  array the daemon reads, with its length, and the daemon's cursor is then behind it.\<close>

lemma rpc_byte_array_request:
  assumes "egg_allocator h" and "eb_wf (buffer s)" and "expects (ascii ''ay'') s"
    and "length v < 0x7fffffff"
    and "gkm_rpc_message_write_byte_array h (Some v) (word_of_nat (length v)) s = Some (True, s')"
    and "receives (ascii ''ay'') s s' (req cs)"
  shows "dispatch_proto_read_byte_array cs = Some (CKR_OK, Some (Some v, word_of_nat (length v)),
    cs\<lparr>req := (advance (ascii ''ay'') (req cs))\<lparr>parsed := eb_len (buffer s')\<rparr>\<rparr>)"
proof -
  have n: "unat (word_of_nat (length v) :: CK_ULONG) = length v"
    using assms(4) by (intro unat_of_nat_small) simp
  then have "array_ok (Some v) (word_of_nat (length v))" by (simp add: array_ok_def)
  from at_bytesI [OF egg_allocator.write_byte_array_emits [OF assms(1) this] assms(2,3,5,6)]
  have at: "at_bytes (encode_arg_array (Some v) (word_of_nat (length v)) @ []) (req cs)"
    and len: "eb_len (buffer s') = parsed (req cs) + 5 + length v" and e: "expects (ascii ''ay'') (req cs)"
    using n by (simp_all add: encode_arg_array_def encode_byte_array_def)
  from dispatch_read_byte_array [OF e assms(4) at] len show ?thesis by simp
qed

text \<open>A \<^verbatim>\<open>NULL\<close> array puts the two ends out of step: the client writes a zero byte and a four byte
  length, the daemon reads only the zero byte. Whatever array the client sends next, the
  daemon reads as \<^verbatim>\<open>NULL\<close> too: \<^verbatim>\<open>C_SetPIN\<close> with no old PIN (signature \<open>uayay\<close>) loses the new
  PIN.\<close>

lemma rpc_null_byte_array_desync:
  assumes "egg_allocator h" and "eb_wf (buffer s)" and "expects (ascii ''ayay'') s"
    and "array_ok arr num"
    and "all_ok [gkm_rpc_message_write_byte_array h None 0, gkm_rpc_message_write_byte_array h arr num] s
      = Some (True, s')"
    and "receives (ascii ''ayay'') s s' (req cs)"
  shows "\<exists>cs1 cs2. dispatch_proto_read_byte_array cs = Some (CKR_OK, Some (None, 0), cs1)
    \<and> dispatch_proto_read_byte_array cs1 = Some (CKR_OK, Some (None, 0), cs2)"
proof -
  note wr = egg_allocator.write_byte_array_emits [OF assms(1)]
  have sig: "ascii ''ayay'' = ascii ''ay'' @ ascii ''ay'' @ []" by (simp add: ascii_def)
  have "msg_emits (all_ok [gkm_rpc_message_write_byte_array h None 0,
      gkm_rpc_message_write_byte_array h arr num]) (ascii ''ayay'')
      (encode_arg_array None 0 @ encode_arg_array arr num @ [])"
    unfolding sig using assms(4)
    by (intro all_ok_emits_cons all_ok_emits_nil wr) (simp_all add: array_ok_def)
  from at_bytesI [OF this assms(2,3,5,6)]
  have at: "at_bytes (encode_arg_array None 0 @ encode_arg_array arr num @ []) (req cs)"
    and e: "expects (ascii ''ayay'') (req cs)" by simp_all
  have "encode_arg_array None 0 @ encode_arg_array arr num @ []
      = 0 # 0 # [0, 0, 0] @ encode_arg_array arr num"
    by (simp add: encode_arg_array_def egg_buffer_encode_uint32_def)
  with at have at: "at_bytes (0 # 0 # [0, 0, 0] @ encode_arg_array arr num) (req cs)" by (simp only:)
  note e = expects_append [OF e [unfolded sig]]
  note first = dispatch_read_null_array [OF e(1) at]
  let ?cs1 = "cs\<lparr>req := (advance (ascii ''ay'') (req cs))\<lparr>parsed := parsed (req cs) + 1\<rparr>\<rparr>"
  have "expects (ascii ''ay'') (req ?cs1)" "at_bytes (0 # [0, 0, 0] @ encode_arg_array arr num) (req ?cs1)"
    using e(2) first(2) by simp_all
  from dispatch_read_null_array(1) [OF this] first(1) show ?thesis by blast
qed

text \<open>Reading a zero terminated string writes its NUL outside the block: the daemon allocates exactly
  the bytes of the string. Whenever the argument is well formed and the memory is there, the
  store at index \<open>n_data\<close> is out of bounds.\<close>

lemma dispatch_read_null_string_overflow:
  assumes "egg_allocator h" and "eb_wf (buffer s)" and "expects (ascii ''z'') s"
    and "length (c_str str) < 0x7fffffff" and "h Default_allocator None (8 + length (c_str str)) \<noteq> None"
    and "gkm_rpc_message_write_zero_string h str s = Some (True, s')"
    and "receives (ascii ''z'') s s' (req cs)"
  shows "dispatch_proto_read_null_string h cs = None"
proof -
  from at_bytesI [OF egg_allocator.write_zero_string_emits [OF assms(1,4)] assms(2,3,6,7)]
  have at: "at_bytes (encode_byte_array (Some (c_str str)) @ []) (advance (ascii ''z'') (req cs))"
    and e: "expects (ascii ''z'') (req cs)" by simp_all
  have "length_ok (Some (c_str str))" using assms(4) by (simp add: length_ok_def)
  from at_byte_array(1) [OF this at] assms(4,5) show ?thesis
    by (auto simp: dispatch_proto_read_null_string_def assert_part_expects [OF e] call_alloc_def
        mem_write_def)
qed

subsection \<open>Arrays in responses\<close>

lemma ucast_ucast_small: "unat (x :: CK_ULONG) < 2 ^ 32 \<Longrightarrow> ucast (ucast x :: 32 word) = x"
  by (simp add: word_unat_eq_iff unsigned_ucast_eq unsigned_take_bit_eq take_bit_eq_mod unat_mod)

lemma module_read_byte_array_present:
  assumes "expects (ascii ''ay'') r" and "length v < 0x7fffffff" and "unat cap = length mem"
    and "at_bytes (encode_arg_array (Some v) (word_of_nat (length v)) @ rest) r"
  shows "module_proto_read_byte_array junk (Some mem) cap r =
    Some (if length mem < length v then CKR_BUFFER_TOO_SMALL else CKR_OK,
          Some (if length mem < length v then mem else v @ drop (length v) mem),
          Some (word_of_nat (length v)),
          (advance (ascii ''ay'') r)\<lparr>parsed := parsed r + 5 + length v\<rparr>)"
proof -
  let ?m = "advance (ascii ''ay'') r"
  have n: "unat (word_of_nat (length v) :: CK_ULONG) = length v"
    using assms(2) by (intro unat_of_nat_small) simp
  then have lt: "cap < word_of_nat (length v) \<longleftrightarrow> length mem < length v"
    using assms(3) by (simp add: word_less_nat_alt)
  have at: "at_bytes (1 # encode_byte_array (Some v) @ rest) ?m"
    using assms(4) n by (simp add: encode_arg_array_def)
  note 1 = at_byte [OF at]
  have "length_ok (Some v)" using assms(2) by (simp add: length_ok_def)
  note 2 = at_byte_array(1) [OF this 1(2)]
  from 1(1) 2 lt show ?thesis
    by (simp add: module_proto_read_byte_array_def assert_part_expects [OF assms(1)] Let_def
        encode_byte_array_def add.assoc mem_write_def)
qed

lemma dispatch_write_ok:
  assumes "dispatch_proto_write_byte_array h arr len ret cs = Some (CKR_OK, cs')"
    and "ret = CKR_OK \<or> ret = CKR_BUFFER_TOO_SMALL"
  shows "gkm_rpc_message_write_byte_array h (if ret = CKR_BUFFER_TOO_SMALL then None else arr) len (resp cs)
    = Some (True, resp cs')"
  using assms by (auto simp: dispatch_proto_write_byte_array_def Let_def ckr_defs
      split: Option.bind_splits if_splits)

text \<open>A byte array the daemon returns (a signature, decrypted data, random bytes) arrives in the client's
  memory exactly when it fits the caller's capacity; if not the caller's memory is left
  alone, the call is \<^verbatim>\<open>CKR_BUFFER_TOO_SMALL\<close>, and in both cases the length reported is the length
  of the array.\<close>

lemma rpc_byte_array_response:
  assumes "egg_allocator h" and "eb_wf (buffer (resp cs))" and "expects (ascii ''ay'') (resp cs)"
    and "length v < 0x7fffffff" and "unat cap = length mem"
    and "dispatch_proto_write_byte_array h (Some v) (word_of_nat (length v)) CKR_OK cs = Some (CKR_OK, cs')"
    and "receives (ascii ''ay'') (resp cs) (resp cs') r"
  shows "module_proto_read_byte_array junk (Some mem) cap r =
    Some (if length mem < length v then CKR_BUFFER_TOO_SMALL else CKR_OK,
          Some (if length mem < length v then mem else v @ drop (length v) mem),
          Some (word_of_nat (length v)),
          (advance (ascii ''ay'') r)\<lparr>parsed := eb_len (buffer (resp cs'))\<rparr>)"
proof -
  have n: "unat (word_of_nat (length v) :: CK_ULONG) = length v"
    using assms(4) by (intro unat_of_nat_small) simp
  then have ok: "array_ok (Some v) (word_of_nat (length v))" by (simp add: array_ok_def)
  have w: "gkm_rpc_message_write_byte_array h (Some v) (word_of_nat (length v)) (resp cs) = Some (True, resp cs')"
    using dispatch_write_ok [OF assms(6)] by (simp add: ckr_defs)
  from at_bytesI [OF egg_allocator.write_byte_array_emits [OF assms(1) ok] assms(2,3) w assms(7)]
  have at: "at_bytes (encode_arg_array (Some v) (word_of_nat (length v)) @ []) r"
    and len: "eb_len (buffer (resp cs')) = parsed r + 5 + length v" and e: "expects (ascii ''ay'') r"
    using n by (simp_all add: encode_arg_array_def encode_byte_array_def)
  from module_read_byte_array_present [OF e assms(4,5) at] len show ?thesis by simp
qed

text \<open>When the daemon reports only a length (the caller asked for the size, or its buffer was too
  small), the client hands out a number whose upper 32 bits are whatever the uninitialised
  variable held: the length is right only if they happened to be zero.\<close>

lemma rpc_absent_array_length:
  assumes "egg_allocator h" and "eb_wf (buffer (resp cs))" and "expects (ascii ''ay'') (resp cs)"
    and "dispatch_proto_write_byte_array h arr len CKR_BUFFER_TOO_SMALL cs = Some (CKR_OK, cs')"
    and "receives (ascii ''ay'') (resp cs) (resp cs') r" and "unat len < 2 ^ 32"
  shows "\<exists>n r'. module_proto_read_byte_array junk mem cap r
      = Some (if mem \<noteq> None then CKR_BUFFER_TOO_SMALL else CKR_OK, mem, Some n, r')
    \<and> n = push_bit 32 (ucast junk) OR len \<and> (n = len \<longleftrightarrow> junk = 0)"
proof -
  have w: "gkm_rpc_message_write_byte_array h None len (resp cs) = Some (True, resp cs')"
    using dispatch_write_ok [OF assms(4)] by (simp add: ckr_defs)
  have "array_ok None len" by (simp add: array_ok_def)
  from at_bytesI [OF egg_allocator.write_byte_array_emits [OF assms(1) this] assms(2,3) w assms(5)]
  have at: "at_bytes (0 # egg_buffer_encode_uint32 (ucast len) @ []) (advance (ascii ''ay'') r)"
    and e: "expects (ascii ''ay'') r" by (simp_all add: encode_arg_array_def)
  note 1 = at_byte [OF at]
  note 2 = at_uint32(1) [OF 1(2)]
  have len: "ucast (ucast len :: 32 word) = len"
    using ucast_ucast_small [OF assms(6)] .
  have "(push_bit 32 (ucast junk) OR len = len) = (junk = 0)"
  proof
    assume eq: "push_bit 32 (ucast junk) OR len = len"
    show "junk = 0"
    proof (rule bit_word_eqI)
      fix k assume "k < LENGTH(32)"
      have "bit (push_bit 32 (ucast junk) OR len) (k + 32) = bit len (k + 32)" using eq by simp
      moreover have "\<not> bit len (k + 32)"
      proof -
        have "bit (ucast (ucast len :: 32 word) :: 64 word) (k + 32) = False"
          by (simp add: bit_simps)
        then show ?thesis by (simp add: len)
      qed
      ultimately show "bit junk k = bit 0 k" using \<open>k < LENGTH(32)\<close> by (simp add: bit_simps)
    qed
  qed simp
  with 1(1) 2 len show ?thesis
    by (simp add: module_proto_read_byte_array_def assert_part_expects [OF e])
qed

subsection \<open>Attribute arrays\<close>

definition attr_value :: "CK_ATTRIBUTE \<Rightarrow> bytes option" where
  "attr_value a = map_option (take (unat (ulValueLen a))) (pValue a)"

definition encode_attr :: "CK_ATTRIBUTE \<Rightarrow> bytes" where
  "encode_attr a = egg_buffer_encode_uint32 (ucast (attr_type a)) @
     (if ulValueLen a = - 1 then [0]
      else 1 # egg_buffer_encode_uint32 (ucast (ulValueLen a)) @ encode_byte_array (attr_value a))"

text \<open>
  An attribute the protocol can carry: a 32 bit type, and either no valid length (\<open>- 1\<close>) or a
  value of at least the length given. \<open>carried a\<close> is what arrives.
\<close>

definition attr_ok :: "CK_ATTRIBUTE \<Rightarrow> bool" where
  "attr_ok a \<longleftrightarrow> unat (attr_type a) < 2 ^ 32 \<and> (ulValueLen a = - 1 \<or>
     (case pValue a of None \<Rightarrow> unat (ulValueLen a) < 2 ^ 32
      | Some p \<Rightarrow> unat (ulValueLen a) \<le> length p \<and> unat (ulValueLen a) < 0x7fffffff))"

definition carried :: "CK_ATTRIBUTE \<Rightarrow> CK_ATTRIBUTE" where
  "carried a = a\<lparr>pValue := if ulValueLen a = - 1 then None else attr_value a\<rparr>"

definition encode_attrs :: "CK_ATTRIBUTE list \<Rightarrow> bytes" where
  "encode_attrs arr = egg_buffer_encode_uint32 (word_of_nat (length arr)) @ concat (map encode_attr arr)"

lemma list_all2_concat_map:
  "(\<And>x. x \<in> set xs \<Longrightarrow> list_all2 P (f x) (g x)) \<Longrightarrow> list_all2 P (concat (map f xs)) (concat (map g xs))"
  by (induction xs) (auto intro: list_all2_appendI)

text \<open>Writing an attribute needs no more than that its length lies in its memory.\<close>

definition attr_fits :: "CK_ATTRIBUTE \<Rightarrow> bool" where
  "attr_fits a \<longleftrightarrow> ulValueLen a = - 1 \<or> array_ok (pValue a) (ulValueLen a)"

lemma attr_ok_fits: "attr_ok a \<Longrightarrow> attr_fits a"
  by (auto simp: attr_ok_def attr_fits_def array_ok_def split: option.splits)

context egg_allocator
begin

lemma write_attributes_emits:
  assumes "\<forall>a \<in> set arr. attr_fits a"
  shows "msg_emits (gkm_rpc_message_write_attribute_array h arr) (ascii ''aA'') (encode_attrs arr)"
proof -
  let ?ws = "\<lambda>attr. let validity = if ulValueLen attr = - 1 then 0 else 1
    in [egg_buffer_add_uint32 h (ucast (attr_type attr)), egg_buffer_add_byte h validity] @
       (if validity \<noteq> 0 then [egg_buffer_add_uint32 h (ucast (ulValueLen attr)),
          egg_buffer_add_mem h (pValue attr) (unat (ulValueLen attr))] else [])"
  let ?bs = "\<lambda>a. [egg_buffer_encode_uint32 (ucast (attr_type a)), [if ulValueLen a = - 1 then 0 else 1]] @
     (if ulValueLen a = - 1 then []
      else [egg_buffer_encode_uint32 (ucast (ulValueLen a)), encode_byte_array (attr_value a)])"
  have "list_all2 emits (?ws a) (?bs a)" if "a \<in> set arr" for a
  proof -
    have "ulValueLen a \<noteq> - 1 \<Longrightarrow> emits (egg_buffer_add_mem h (pValue a) (unat (ulValueLen a)))
        (encode_byte_array (attr_value a))"
      using add_mem_emits [of "pValue a" "unat (ulValueLen a)"] bspec [OF assms that]
      by (cases "pValue a") (simp_all add: attr_value_def attr_fits_def array_ok_def)
    then show ?thesis by (auto simp: Let_def add_uint32_emits add_byte_emits)
  qed
  then have "list_all2 emits (egg_buffer_add_uint32 h (word_of_nat (length arr)) # concat (map ?ws arr))
      (egg_buffer_encode_uint32 (word_of_nat (length arr)) # concat (map ?bs arr))"
    by (simp add: add_uint32_emits list_all2_concat_map del: map_map)
  from msg_add_seq_emits [OF this, of "''aA''"]
  have "msg_emits (gkm_rpc_message_write_attribute_array h arr) (ascii ''aA'')
      (egg_buffer_encode_uint32 (word_of_nat (length arr)) @ concat (concat (map ?bs arr)))"
    by (simp add: gkm_rpc_message_write_attribute_array_def [abs_def])
  moreover have "concat (concat (map ?bs as)) = concat (map encode_attr as)" for as
    by (induction as) (auto simp: encode_attr_def)
  ultimately show ?thesis by (simp add: encode_attrs_def)
qed

lemma write_attribute_array_emits:
  "\<forall>a \<in> set arr. attr_ok a \<Longrightarrow>
     msg_emits (gkm_rpc_message_write_attribute_array h arr) (ascii ''aA'') (encode_attrs arr)"
  using write_attributes_emits attr_ok_fits by blast

end

lemma attr_value_length:
  "attr_ok a \<Longrightarrow> ulValueLen a \<noteq> - 1 \<Longrightarrow>
     length_ok (attr_value a) \<and> (attr_value a = Some v \<longrightarrow> length v = unat (ulValueLen a))
     \<and> unat (ulValueLen a) < 2 ^ 32"
  by (auto simp: attr_ok_def attr_value_def length_ok_def split: option.splits)

lemma unat_ucast_small: "unat (x :: CK_ULONG) < 2 ^ 32 \<Longrightarrow> unat (ucast x :: 32 word) = unat x"
  by (simp add: unsigned_ucast_eq unsigned_take_bit_eq take_bit_eq_mod unat_mod)

text \<open>The daemon's loop over attributes the client wrote.\<close>

lemma read_attributes_ok:
  assumes "at_bytes (concat (map encode_attr as) @ rest) m" and "\<forall>a \<in> set as. attr_ok a"
    and "i + length as \<le> length slots"
  shows "read_attributes (length as) i slots m
    = Some (CKR_OK, take i slots @ map carried as @ drop (i + length as) slots,
        m\<lparr>parsed := parsed m + length (concat (map encode_attr as))\<rparr>)"
  using assms
proof (induction as arbitrary: i slots m)
  case (Cons a as)
  let ?t = "egg_buffer_encode_uint32 (ucast (attr_type a))"
  have i: "i < length slots" using Cons.prems(3) by simp
  have a: "attr_ok a" using Cons.prems(2) by simp
  then have ty: "ucast (ucast (attr_type a) :: 32 word) = attr_type a"
    by (intro ucast_ucast_small) (simp add: attr_ok_def)
  show ?case
  proof (cases "ulValueLen a = - 1")
    case True
    then have at: "at_bytes (?t @ 0 # concat (map encode_attr as) @ rest) m"
      using Cons.prems(1) by (simp add: encode_attr_def [of a])
    note 1 = at_uint32 [OF at]
    note 2 = at_byte [OF 1(2)]
    let ?slots = "slots[i := \<lparr>attr_type = attr_type a, pValue = None, ulValueLen = - 1\<rparr>]"
    have rec: "\<lparr>attr_type = attr_type a, pValue = None, ulValueLen = - 1\<rparr> = carried a"
      using True by (simp add: carried_def)
    from Cons.IH [OF 2(2), of "Suc i" ?slots] Cons.prems(2,3) 1(1) 2(1) i True
    show ?thesis
      by (simp add: ty rec encode_attr_def [of a] take_Suc_conv_app_nth ac_simps)
  next
    case False
    let ?v = "attr_value a"
    have at: "at_bytes (?t @ 1 # egg_buffer_encode_uint32 (ucast (ulValueLen a))
        @ encode_byte_array ?v @ concat (map encode_attr as) @ rest) m"
      using Cons.prems(1) False by (simp add: encode_attr_def [of a])
    note 1 = at_uint32 [OF at]
    note 2 = at_byte [OF 1(2)]
    note 3 = at_uint32 [OF 2(2)]
    note v = attr_value_length [OF a False]
    note 4 = at_byte_array [OF conjunct1 [OF v] 3(2)]
    have len: "ucast (ucast (ulValueLen a) :: 32 word) = ulValueLen a"
      "unat (ucast (ulValueLen a) :: 32 word) = unat (ulValueLen a)"
      using v ucast_ucast_small unat_ucast_small by blast+
    have fit: "?v = None \<or> length (the ?v) = unat (ulValueLen a)"
      using attr_value_length [OF a False] by (cases ?v) auto
    have rec: "\<lparr>attr_type = attr_type a, pValue = ?v, ulValueLen = ulValueLen a\<rparr> = carried a"
      using False by (simp add: carried_def)
    let ?slots = "slots[i := carried a]"
    from Cons.IH [OF 4(2), of "Suc i" ?slots] Cons.prems(2,3) 1(1) 2(1) 3(1) 4(1) i False fit rec
    show ?thesis
      by (cases ?v) (simp_all add: ty len encode_attr_def [of a] take_Suc_conv_app_nth ac_simps)
  qed
qed simp

text \<open>C39: Attributes in a request: a template the client wrote (types, validity, lengths and values) is the
  template the daemon works with, as long as the array fits the daemon's limit on a call's
  memory; each value is the part of the client's buffer that the length covers.\<close>

theorem rpc_attribute_array_request:
  assumes "egg_allocator h" and "eb_wf (buffer s)" and "expects (ascii ''aA'') s"
    and "\<forall>a \<in> set arr. attr_ok a" and "length arr * 24 \<le> 0x7fffffff"
    and "h Default_allocator None (8 + length arr * 24) \<noteq> None"
    and "gkm_rpc_message_write_attribute_array h arr s = Some (True, s')"
    and "receives (ascii ''aA'') s s' (req cs)"
  shows "\<exists>cs'. dispatch_proto_read_attribute_array h cs
      = Some (CKR_OK, Some (map carried arr, word_of_nat (length arr)), cs')
    \<and> req cs' = (advance (ascii ''aA'') (req cs))\<lparr>parsed := eb_len (buffer s')\<rparr>
    \<and> allocated cs' = (8 + length arr * 24) # allocated cs"
proof -
  let ?m = "advance (ascii ''aA'') (req cs)"
  have n: "unat (word_of_nat (length arr) :: 32 word) = length arr"
    using assms(5) by (intro unat_of_nat_small) simp
  then have n64: "ucast (word_of_nat (length arr) :: 32 word) = (word_of_nat (length arr) :: CK_ULONG)"
    by (metis of_nat_unat)
  from at_bytesI [OF egg_allocator.write_attribute_array_emits [OF assms(1,4)] assms(2,3,7,8)]
  have at: "at_bytes (encode_attrs arr) (req cs)"
    and len: "eb_len (buffer s') = parsed (req cs) + length (encode_attrs arr)"
    and e: "expects (ascii ''aA'') (req cs)" by simp_all
  from at have "at_bytes (egg_buffer_encode_uint32 (word_of_nat (length arr))
      @ concat (map encode_attr arr) @ []) ?m" by (simp add: encode_attrs_def)
  note 1 = at_uint32 [OF this]
  have al: "call_alloc h (size_mul (length arr) 24) (cs\<lparr>req := ?m\<lparr>parsed := parsed (req cs) + 4\<rparr>\<rparr>)
      = (Some (replicate (length arr * 24) 0xff),
         cs\<lparr>req := ?m\<lparr>parsed := parsed (req cs) + 4\<rparr>, allocated := (8 + length arr * 24) # allocated cs\<rparr>)"
    using assms(5,6) by (auto simp: call_alloc_def size_mul_def split: option.splits)
  have slots: "0 + length arr \<le> length (replicate (length arr * 24 div 24) empty_attr)" by simp
  from read_attributes_ok [OF 1(2) assms(4) slots]
  have "read_attributes (length arr) 0 (replicate (length arr) empty_attr) (?m\<lparr>parsed := parsed (req cs) + 4\<rparr>)
      = Some (CKR_OK, map carried arr, ?m\<lparr>parsed := eb_len (buffer s')\<rparr>)"
    using len by (simp add: encode_attrs_def)
  with 1(1) al n n64 show ?thesis
    by (auto simp: dispatch_proto_read_attribute_array_def assert_part_expects [OF e])
qed

definition sample_attrs :: "CK_ATTRIBUTE list" where
  "sample_attrs = [\<lparr>attr_type = 3, pValue = Some [65, 66, 67], ulValueLen = 2\<rparr>,
     \<lparr>attr_type = 4, pValue = None, ulValueLen = - 1\<rparr>]"

lemma sample_attrs_ok: "\<forall>a \<in> set sample_attrs. attr_ok a"
  by (simp add: sample_attrs_def attr_ok_def)

theorem rpc_attribute_array_request_witness:
  "\<exists>s' cs'. gkm_rpc_message_write_attribute_array libc_realloc sample_attrs sample_msg = Some (True, s')
     \<and> dispatch_proto_read_attribute_array libc_realloc (sample_cs\<lparr>req := sent s'\<rparr>)
         = Some (CKR_OK, Some (map carried sample_attrs, word_of_nat (length sample_attrs)), cs')"
proof -
  obtain s' where s': "gkm_rpc_message_write_attribute_array libc_realloc sample_attrs sample_msg = Some (True, s')"
    by (simp add: gkm_rpc_message_write_attribute_array_def sample_attrs_def rpc_eval)
  have len: "length sample_attrs * 24 \<le> 0x7fffffff" by (simp add: sample_attrs_def)
  have mem: "libc_realloc Default_allocator None (8 + length sample_attrs * 24) \<noteq> None"
    by (simp add: libc_realloc_def sample_attrs_def Let_def)
  from sample_loopback [OF egg_allocator.write_attribute_array_emits [OF egg_allocator_libc sample_attrs_ok] s']
  have "receives (ascii ''aA'') sample_msg s' (req (sample_cs\<lparr>req := sent s'\<rparr>))" by simp
  from rpc_attribute_array_request [OF egg_allocator_libc sample_msg_wf sample_expects(1) sample_attrs_ok
      len mem s' this] s' show ?thesis by blast
qed

subsection \<open>Hostile requests\<close>

text \<open>Reading leaves the buffer's contents alone; so do all loops over attributes.\<close>

lemma get_safe_at:
  assumes "safe_getter g" and "eb_wf (buffer m)"
  obtains v m' where "msg_get g m = Some (v, m')" and "same_input m m'" and "eb_wf (buffer m')"
    and "sigverify m' = sigverify m"
  using safe_msg_get [OF assms] same_input_wf by metis

lemma same_input_refl [simp]: "same_input m m = eb_wf (buffer m)"
  by (simp add: same_input_def)

subsection \<open>Attributes in responses\<close>

text \<open>
  What \<^verbatim>\<open>C_GetAttributeValue\<close> leaves in the caller's attribute \<open>c\<close> when the daemon's attribute is
  \<open>a\<close>: the length \<open>- 1\<close> for an attribute that may not be revealed, otherwise its length, and
  its value too where the caller gave enough room.
\<close>

definition stored :: "CK_ATTRIBUTE \<Rightarrow> CK_ATTRIBUTE \<Rightarrow> CK_ATTRIBUTE" where
  "stored a c =
     (if ulValueLen a = - 1 then c\<lparr>ulValueLen := - 1\<rparr>
      else case pValue c of
             None \<Rightarrow> c\<lparr>ulValueLen := ulValueLen a\<rparr>
           | Some mem \<Rightarrow>
               if ulValueLen c < ulValueLen a then c\<lparr>ulValueLen := ulValueLen a\<rparr>
               else case attr_value a of
                      None \<Rightarrow> c\<lparr>ulValueLen := 0\<rparr>
                    | Some v \<Rightarrow> c\<lparr>ulValueLen := ulValueLen a, pValue := Some (v @ drop (length v) mem)\<rparr>)"

definition matches :: "CK_ATTRIBUTE \<Rightarrow> CK_ATTRIBUTE \<Rightarrow> bool" where
  "matches a c \<longleftrightarrow> attr_ok a \<and> attr_type c = attr_type a
     \<and> (case pValue c of None \<Rightarrow> True | Some mem \<Rightarrow> unat (ulValueLen c) \<le> length mem)"

lemma module_store_ok:
  assumes "matches a c"
  shows "ulValueLen a \<noteq> - 1 \<Longrightarrow> \<exists>ret'. module_store_attribute (ucast (attr_type a)) 1 (attr_value a)
      (unat (ulValueLen a)) c ret = Some (Some (stored a c, ret'))"
    and "ulValueLen a = - 1 \<Longrightarrow> module_store_attribute (ucast (attr_type a)) 0 v n c ret
      = Some (Some (stored a c, ret))"
proof -
  from assms have ty: "attr_type c = ucast (ucast (attr_type a) :: 32 word)"
    by (simp add: matches_def attr_ok_def ucast_ucast_small)
  show "ulValueLen a = - 1 \<Longrightarrow> module_store_attribute (ucast (attr_type a)) 0 v n c ret
      = Some (Some (stored a c, ret))"
    using ty by (simp add: module_store_attribute_def stored_def)
  assume len: "ulValueLen a \<noteq> - 1"
  have v: "length v = unat (ulValueLen a)" if "attr_value a = Some v" for v
    using attr_value_length [of a v] assms len that by (simp add: matches_def)
  show "\<exists>ret'. module_store_attribute (ucast (attr_type a)) 1 (attr_value a)
      (unat (ulValueLen a)) c ret = Some (Some (stored a c, ret'))"
    using ty len v assms
    by (auto simp: module_store_attribute_def stored_def word_less_nat_alt matches_def mem_write_def
        split: option.splits)
qed

lemma at_bytes_buffer: "at_bytes bs m \<Longrightarrow> eb_wf (buffer m)"
  by (simp add: at_bytes_def)

lemma module_read_attributes_ok:
  assumes "at_bytes (concat (map encode_attr as) @ rest) m" and "list_all2 matches as (drop i cs)"
    and "\<not> egg_buffer_has_error (buffer m)"
  shows "\<exists>ret'. module_read_attributes (length as) i (Some cs) ret m
    = Some (True, Some (take i cs @ map2 stored as (drop i cs)), ret',
        m\<lparr>parsed := parsed m + length (concat (map encode_attr as))\<rparr>)"
  using assms
proof (induction as arbitrary: i cs m ret)
  case (Cons a as)
  let ?t = "egg_buffer_encode_uint32 (ucast (attr_type a))"
  from Cons.prems(2) obtain c rest_cs where c: "drop i cs = c # rest_cs" "matches a c"
    "list_all2 matches as rest_cs" by (auto simp: list_all2_Cons1)
  have i: "i < length cs" "cs ! i = c" "drop (Suc i) cs = rest_cs"
  proof -
    show "i < length cs" using c(1) by (metis drop_all leI list.discI)
    then show "cs ! i = c" using c(1) by (metis hd_drop_conv_nth list.sel(1))
    show "drop (Suc i) cs = rest_cs" using c(1) by (metis drop_Suc list.sel(3) tl_drop)
  qed
  have a: "attr_ok a" using c(2) by (simp add: matches_def)
  have next_cs: "list_all2 matches as (drop (Suc i) (cs[i := x]))" for x using c(3) i by simp
  have res: "take (Suc i) (cs[i := stored a c]) @ map2 stored as (drop (Suc i) (cs[i := stored a c]))
      = take i cs @ map2 stored (a # as) (drop i cs)"
    using c(1) i by (simp add: take_Suc_conv_app_nth)
  show ?case
  proof (cases "ulValueLen a = - 1")
    case True
    then have at: "at_bytes (?t @ 0 # concat (map encode_attr as) @ rest) m"
      using Cons.prems(1) by (simp add: encode_attr_def [of a])
    note 1 = at_uint32 [OF at]
    note 2 = at_byte [OF 1(2)]
    from Cons.IH [OF 2(2) next_cs [of "stored a c"], of ret] res 1(1) 2(1) i True
      module_store_ok(2) [OF c(2) True] Cons.prems(3)
    show ?thesis by (simp add: encode_attr_def [of a] ac_simps)
  next
    case False
    let ?v = "attr_value a"
    have at: "at_bytes (?t @ 1 # egg_buffer_encode_uint32 (ucast (ulValueLen a))
        @ encode_byte_array ?v @ concat (map encode_attr as) @ rest) m"
      using Cons.prems(1) False by (simp add: encode_attr_def [of a])
    note 1 = at_uint32 [OF at]
    note 2 = at_byte [OF 1(2)]
    note 3 = at_uint32 [OF 2(2)]
    note v = attr_value_length [OF a False]
    note 4 = at_byte_array [OF conjunct1 [OF v] 3(2)]
    have len: "unat (ucast (ulValueLen a) :: 32 word) = unat (ulValueLen a)"
      using v unat_ucast_small by blast
    have fit: "?v = None \<or> length (the ?v) = unat (ulValueLen a)"
      using attr_value_length [OF a False] by (cases ?v) auto
    obtain ret1 where st: "module_store_attribute (ucast (attr_type a)) 1 ?v (unat (ulValueLen a)) c ret
        = Some (Some (stored a c, ret1))" using module_store_ok(1) [OF c(2) False] by blast
    from Cons.IH [OF 4(2) next_cs [of "stored a c"], of ret1] res 1(1) 2(1) 3(1) 4(1) i False fit st Cons.prems(3)
    show ?thesis by (cases ?v) (auto simp: len encode_attr_def [of a] ac_simps)
  qed
qed auto

text \<open>C40: Attributes in a response: when the daemon answers \<^verbatim>\<open>C_GetAttributeValue\<close>, also with one of the
  codes that come with attributes, each of the caller's attributes receives its length and,
  where it fits, its value, nothing outside the caller's memory is written, and the call
  returns the daemon's code.\<close>

theorem rpc_attribute_array_response:
  assumes "egg_allocator h" and "eb_wf (buffer (resp cs))" and "expects (ascii ''aAu'') (resp cs)"
    and "list_all2 matches arr carr" and "0 < length arr" and "length arr < 2 ^ 32"
    and "ret \<in> {CKR_OK, CKR_ATTRIBUTE_SENSITIVE, CKR_ATTRIBUTE_TYPE_INVALID, CKR_BUFFER_TOO_SMALL}"
    and "dispatch_proto_write_attribute_array h arr ret cs = Some (CKR_OK, cs')"
    and "receives (ascii ''aAu'') (resp cs) (resp cs') r" and "\<not> egg_buffer_has_error (buffer r)"
  shows "module_proto_read_attribute_array (Some carr) (word_of_nat (length carr)) r
    = Some (ret, Some (map2 stored arr carr),
        (advance (ascii ''aAu'') r)\<lparr>parsed := eb_len (buffer (resp cs'))\<rparr>)"
proof -
  have ok: "\<forall>a \<in> set arr. attr_ok a"
    using assms(4) by (auto simp: list_all2_conv_all_nth in_set_conv_nth matches_def)
  have eq: "length carr = length arr" using assms(4) by (simp add: list_all2_lengthD)
  have sig: "ascii ''aAu'' = ascii ''aA'' @ ascii ''u'' @ []" by (simp add: ascii_def)
  have em: "msg_emits (all_ok [gkm_rpc_message_write_attribute_array h arr, gkm_rpc_message_write_ulong h ret])
      (ascii ''aAu'') (encode_attrs arr @ encode_uint64 ret @ [])"
    unfolding sig
    by (intro all_ok_emits_cons all_ok_emits_nil egg_allocator.write_attribute_array_emits [OF assms(1) ok]
        egg_allocator.write_ulong_emits [OF assms(1)])
  have w: "all_ok [gkm_rpc_message_write_attribute_array h arr, gkm_rpc_message_write_ulong h ret] (resp cs)
      = Some (True, resp cs')"
    using assms(7,8) by (auto simp: dispatch_proto_write_attribute_array_def ckr_defs
        simp del: all_ok.simps split: Option.bind_splits if_splits)
  from at_bytesI [OF em assms(2,3) w assms(9)]
  have at: "at_bytes (encode_attrs arr @ encode_uint64 ret) r"
    and len: "eb_len (buffer (resp cs')) = parsed r + length (encode_attrs arr) + 8"
    and e: "expects (ascii ''aAu'') r" by simp_all
  note e = expects_append [OF e [unfolded sig]]
  let ?m = "advance (ascii ''aA'') r"
  have n: "unat (word_of_nat (length arr) :: 32 word) = length arr"
    using assms(6) by (intro unat_of_nat_small) simp
  then have n64: "(word_of_nat (length arr) :: CK_ULONG) = ucast (word_of_nat (length arr) :: 32 word)"
    by (metis of_nat_unat)
  have nz: "(word_of_nat (length arr) :: CK_ULONG) \<noteq> 0"
  proof
    assume "(word_of_nat (length arr) :: CK_ULONG) = 0"
    then have "unat (word_of_nat (length arr) :: CK_ULONG) = 0" by simp
    moreover have "unat (word_of_nat (length arr) :: CK_ULONG) = length arr"
      using assms(6) by (intro unat_of_nat_small) simp
    ultimately show False using assms(5) by simp
  qed
  from at have "at_bytes (egg_buffer_encode_uint32 (word_of_nat (length arr))
      @ concat (map encode_attr arr) @ encode_uint64 ret) ?m" by (simp add: encode_attrs_def)
  note 1 = at_uint32 [OF this]
  obtain ret' where 2: "module_read_attributes (length arr) 0 (Some carr) CKR_OK (?m\<lparr>parsed := parsed r + 4\<rparr>)
      = Some (True, Some (map2 stored arr carr), ret',
          ?m\<lparr>parsed := parsed r + length (encode_attrs arr)\<rparr>)"
    using module_read_attributes_ok [OF 1(2), of 0 carr CKR_OK] assms(4,10)
    by (auto simp: encode_attrs_def)
  let ?m2 = "?m\<lparr>parsed := parsed r + length (encode_attrs arr)\<rparr>"
  have "at_bytes (encode_uint64 ret @ []) (advance (ascii ''u'') ?m2)"
    using at unfolding at_bytes_def by (auto simp: ac_simps) (metis append.assoc length_append)
  from at_uint64(1) [OF this] have 3: "gkm_rpc_message_read_ulong ?m2
      = Some (Some ret, (advance (ascii ''aAu'') r)\<lparr>parsed := eb_len (buffer (resp cs'))\<rparr>)"
    using e(2) len
    by (simp add: gkm_rpc_message_read_ulong_def assert_part_expects advance_append sig)
  from 1(1) 2 3 n nz n64 eq assms(10) show ?thesis
    by (simp add: module_proto_read_attribute_array_def assert_part_expects [OF e(1)])
qed

definition sample_client_attrs :: "CK_ATTRIBUTE list" where
  "sample_client_attrs = [\<lparr>attr_type = 3, pValue = Some [0, 0, 0, 0], ulValueLen = 4\<rparr>,
     \<lparr>attr_type = 4, pValue = None, ulValueLen = 0\<rparr>]"

lemma sample_attrs_match: "list_all2 matches sample_attrs sample_client_attrs"
  by (simp add: sample_attrs_def sample_client_attrs_def matches_def attr_ok_def)

theorem rpc_attribute_array_response_witness:
  "\<exists>cs' r'. dispatch_proto_write_attribute_array libc_realloc sample_attrs CKR_ATTRIBUTE_SENSITIVE sample_cs
       = Some (CKR_OK, cs')
     \<and> module_proto_read_attribute_array (Some sample_client_attrs) 2 (sent (resp cs'))
       = Some (CKR_ATTRIBUTE_SENSITIVE, Some [\<lparr>attr_type = 3, pValue = Some [65, 66, 0, 0], ulValueLen = 2\<rparr>,
           \<lparr>attr_type = 4, pValue = None, ulValueLen = - 1\<rparr>], r')"
proof -
  let ?ws = "[gkm_rpc_message_write_attribute_array libc_realloc sample_attrs,
    gkm_rpc_message_write_ulong libc_realloc CKR_ATTRIBUTE_SENSITIVE]"
  obtain m where m: "all_ok ?ws sample_msg = Some (True, m)"
    "\<not> egg_buffer_has_error (buffer m)"
    by (simp add: gkm_rpc_message_write_attribute_array_def gkm_rpc_message_write_ulong_def
        sample_attrs_def rpc_eval)
  let ?cs = "sample_cs\<lparr>resp := m\<rparr>"
  have w: "dispatch_proto_write_attribute_array libc_realloc sample_attrs CKR_ATTRIBUTE_SENSITIVE sample_cs
      = Some (CKR_OK, ?cs)"
    using m(1) by (simp add: dispatch_proto_write_attribute_array_def sample_expects(2) del: all_ok.simps)
  have sig: "ascii ''aAu'' = ascii ''aA'' @ ascii ''u'' @ []" by (simp add: ascii_def)
  have "msg_emits (all_ok ?ws) (ascii ''aAu'') (encode_attrs sample_attrs @ encode_uint64 CKR_ATTRIBUTE_SENSITIVE @ [])"
    unfolding sig by (intro all_ok_emits_cons all_ok_emits_nil sample_attrs_ok
        egg_allocator.write_attribute_array_emits [OF egg_allocator_libc]
        egg_allocator.write_ulong_emits [OF egg_allocator_libc])
  from sample_loopback [OF this m(1)] have r: "receives (ascii ''aAu'') (resp sample_cs) (resp ?cs) (sent m)"
    by (simp add: sample_expects(2) [symmetric])
  have len: "0 < length sample_attrs" "length sample_attrs < 2 ^ 32"
    and n: "word_of_nat (length sample_client_attrs) = (2 :: CK_ULONG)"
    and res: "map2 stored sample_attrs sample_client_attrs
      = [\<lparr>attr_type = 3, pValue = Some [65, 66, 0, 0], ulValueLen = 2\<rparr>,
         \<lparr>attr_type = 4, pValue = None, ulValueLen = - 1\<rparr>]"
    by (simp_all add: sample_attrs_def sample_client_attrs_def stored_def attr_value_def)
  have err: "\<not> egg_buffer_has_error (buffer (sent m))" using m(2) by (simp add: sent_def)
  have code: "CKR_ATTRIBUTE_SENSITIVE \<in> {CKR_OK, CKR_ATTRIBUTE_SENSITIVE, CKR_ATTRIBUTE_TYPE_INVALID,
    CKR_BUFFER_TOO_SMALL}" by simp
  from rpc_attribute_array_response [OF egg_allocator_libc sample_msg_wf [unfolded sample_expects(2)]
      sample_expects(1) [unfolded sample_expects(2)] sample_attrs_match len code w r err] w
  show ?thesis by (auto simp: res n)
qed

subsection \<open>Arrays of longs, mechanisms and information structures\<close>

definition encode_ulong_array :: "CK_ULONG list \<Rightarrow> bytes" where
  "encode_ulong_array vals = 1 # egg_buffer_encode_uint32 (word_of_nat (length vals))
     @ concat (map encode_uint64 vals)"

context egg_allocator
begin

lemma write_ulong_array_emits:
  assumes "length vals < 2 ^ 32"
  shows "msg_emits (gkm_rpc_message_write_ulong_array h (Some vals) (word_of_nat (length vals)))
    (ascii ''au'') (encode_ulong_array vals)"
proof -
  have n: "unat (word_of_nat (length vals) :: CK_ULONG) = length vals"
    using assms by (intro unat_of_nat_small) simp
  have c: "ucast (word_of_nat (length vals) :: CK_ULONG) = (word_of_nat (length vals) :: 32 word)"
    using assms n by (simp add: word_unat_eq_iff unat_ucast_small unat_of_nat_small)
  have "list_all2 emits (map (egg_buffer_add_uint64 h) vals) (map encode_uint64 vals)"
    by (simp add: list_all2_map1 list_all2_map2 list_all2_same add_uint64_emits)
  then have "list_all2 emits ([egg_buffer_add_byte h 1, egg_buffer_add_uint32 h (word_of_nat (length vals))]
        @ map (egg_buffer_add_uint64 h) vals)
      ([[1], egg_buffer_encode_uint32 (word_of_nat (length vals))] @ map encode_uint64 vals)"
    by (simp add: add_byte_emits add_uint32_emits)
  from msg_add_seq_emits [OF this, of "''au''"] n c show ?thesis
    by (simp add: gkm_rpc_message_write_ulong_array_def [abs_def] encode_ulong_array_def)
qed

lemma write_longs_emits:
  assumes "array_ok arr num"
  shows "\<exists>bs. msg_emits (gkm_rpc_message_write_ulong_array h arr num) (ascii ''au'') bs"
proof -
  let ?vals = "case arr of None \<Rightarrow> [] | Some a \<Rightarrow> take (unat num) a"
  have "list_all2 emits (map (egg_buffer_add_uint64 h) ?vals) (map encode_uint64 ?vals)"
    by (simp add: list_all2_map1 list_all2_map2 list_all2_same add_uint64_emits)
  then have "list_all2 emits ([egg_buffer_add_byte h (if arr \<noteq> None then 1 else 0),
        egg_buffer_add_uint32 h (ucast num)] @ map (egg_buffer_add_uint64 h) ?vals)
      ([[if arr \<noteq> None then 1 else 0], egg_buffer_encode_uint32 (ucast num)] @ map encode_uint64 ?vals)"
    by (simp add: add_byte_emits add_uint32_emits)
  from msg_add_seq_emits [OF this, of "''au''"] assms show ?thesis
    by (cases arr) (auto simp: gkm_rpc_message_write_ulong_array_def [abs_def] array_ok_def)
qed

lemma write_mechanism_emits:
  assumes "gkm_rpc_mechanism_is_supported (mechanism mech)"
    and "array_ok (pParameter mech) (ulParameterLen mech)"
  defines "param \<equiv> if gkm_rpc_mechanism_has_no_parameters (mechanism mech) then None
    else map_option (take (unat (ulParameterLen mech))) (pParameter mech)"
  shows "msg_emits (\<lambda>m. map_option (\<lambda>(rv, m'). (rv = CKR_OK, m')) (module_proto_write_mechanism h mech m))
    (ascii ''M'') (egg_buffer_encode_uint32 (ucast (mechanism mech)) @ encode_byte_array param)"
proof -
  let ?w = "if gkm_rpc_mechanism_has_no_parameters (mechanism mech) then egg_buffer_add_byte_array h None
    else egg_buffer_add_mem h (pParameter mech) (unat (ulParameterLen mech))"
  have "emits ?w (encode_byte_array param)"
    using add_mem_emits [of "pParameter mech" "unat (ulParameterLen mech)"] add_byte_array_emits [of None]
      assms(2) by (auto simp: param_def array_ok_def length_ok_def split: option.splits)
  then have "list_all2 emits [egg_buffer_add_uint32 h (ucast (mechanism mech)), ?w]
      [egg_buffer_encode_uint32 (ucast (mechanism mech)), encode_byte_array param]"
    by (simp add: add_uint32_emits)
  from msg_add_seq_emits [OF this, of "''M''"]
  have "msg_emits (\<lambda>msg. do { m \<leftarrow> assert_part ''M'' msg;
      msg_add_seq [egg_buffer_add_uint32 h (ucast (mechanism mech)), ?w] m }) (ascii ''M'')
      (egg_buffer_encode_uint32 (ucast (mechanism mech)) @ encode_byte_array param)" by simp
  moreover have "do { m \<leftarrow> assert_part ''M'' msg;
      msg_add_seq [egg_buffer_add_uint32 h (ucast (mechanism mech)), ?w] m }
    = map_option (\<lambda>(rv, m'). (rv = CKR_OK, m')) (module_proto_write_mechanism h mech msg)" for msg
    using assms(1)
    by (auto simp: module_proto_write_mechanism_def msg_add_seq_def msg_add_def ckr_defs
        gkm_rpc_mechanism_is_supported_def split: Option.bind_splits)
  ultimately show ?thesis by (simp only:)
qed

end

text \<open>A list of longs the daemon returns (slots, mechanisms, object handles) arrives complete and in
  order in the client's array when that has room for it.\<close>

lemma rpc_ulong_array_response:
  assumes "egg_allocator h" and "eb_wf (buffer (resp cs))" and "expects (ascii ''au'') (resp cs)"
    and "length vals < 2 ^ 32" and "length vals \<le> unat cap" and "unat cap = length mem"
    and "dispatch_proto_write_ulong_array h (Some vals) (word_of_nat (length vals)) CKR_OK cs = Some (CKR_OK, cs')"
    and "receives (ascii ''au'') (resp cs) (resp cs') r" and "\<not> egg_buffer_has_error (buffer r)"
  shows "module_proto_read_ulong_array junk (Some mem) cap r
    = Some (CKR_OK, Some (vals @ drop (length vals) mem), Some (word_of_nat (length vals)),
        (advance (ascii ''au'') r)\<lparr>parsed := eb_len (buffer (resp cs'))\<rparr>)"
proof -
  have w: "gkm_rpc_message_write_ulong_array h (Some vals) (word_of_nat (length vals)) (resp cs)
      = Some (True, resp cs')"
    using assms(7) by (auto simp: dispatch_proto_write_ulong_array_def Let_def ckr_defs
        split: Option.bind_splits if_splits)
  from at_bytesI [OF egg_allocator.write_ulong_array_emits [OF assms(1,4)] assms(2,3) w assms(8)]
  have at: "at_bytes (1 # egg_buffer_encode_uint32 (word_of_nat (length vals))
        @ concat (map encode_uint64 vals) @ []) (advance (ascii ''au'') r)"
    and len: "eb_len (buffer (resp cs')) = parsed r + 5 + length (concat (map encode_uint64 vals))"
    and e: "expects (ascii ''au'') r" by (simp_all add: encode_ulong_array_def)
  note 1 = at_byte [OF at]
  note 2 = at_uint32 [OF 1(2)]
  have loop: "read_ulongs (length vs) i (Some a) x0 m
      = Some (Some (take i a @ vs @ drop (i + length vs) a), m\<lparr>parsed := parsed m + length (concat (map encode_uint64 vs))\<rparr>)"
    if "at_bytes (concat (map encode_uint64 vs) @ []) m" "i + length vs \<le> length a" for vs i a x0 m
    using that
  proof (induction vs arbitrary: i a x0 m)
    case (Cons v vs)
    then have "at_bytes (encode_uint64 v @ concat (map encode_uint64 vs) @ []) m" by simp
    note g = at_uint64 [OF this]
    from Cons.IH [OF g(2), of "Suc i" "a[i := v]" v] g(1) Cons.prems(2) show ?case
      by (simp add: take_Suc_conv_app_nth ac_simps)
  qed simp
  have n: "unat (word_of_nat (length vals) :: 32 word) = length vals"
    using assms(4) by (intro unat_of_nat_small) simp
  then have n64: "ucast (word_of_nat (length vals) :: 32 word) = (word_of_nat (length vals) :: CK_ULONG)"
    by (metis of_nat_unat)
  have "\<not> cap < word_of_nat (length vals)"
    using assms(4,5) by (simp add: word_less_nat_alt unat_of_nat_small)
  with 1(1) 2(1) n n64 loop [OF 2(2), of 0 mem junk] assms(5,6,9) len show ?thesis
    by (auto simp: module_proto_read_ulong_array_def assert_part_expects [OF e] ac_simps)
qed

text \<open>A mechanism the layer supports arrives with its type and, for those with parameters that can be
  serialised, its parameter block; for the others the parameter, which callers leave
  uninitialised, is dropped. A mechanism that is not supported is refused by the client.\<close>

lemma rpc_mechanism_request:
  assumes "egg_allocator h" and "eb_wf (buffer s)" and "expects (ascii ''M'') s"
    and "unat (mechanism mech) < 2 ^ 32" and "array_ok (pParameter mech) (ulParameterLen mech)"
    and "unat (ulParameterLen mech) < 0x7fffffff"
    and "module_proto_write_mechanism h mech s = Some (rv, s')"
    and "receives (ascii ''M'') s s' (req cs)"
  shows "if gkm_rpc_mechanism_is_supported (mechanism mech)
    then rv = CKR_OK \<longrightarrow> (\<exists>param cs'. dispatch_proto_read_mechanism cs = Some (CKR_OK,
        Some \<lparr>mechanism = mechanism mech, pParameter = param,
              ulParameterLen = if param = None then 0 else ulParameterLen mech\<rparr>, cs')
      \<and> param = (if gkm_rpc_mechanism_has_no_parameters (mechanism mech) then None
          else map_option (take (unat (ulParameterLen mech))) (pParameter mech)))
    else rv = CKR_MECHANISM_INVALID"
proof (cases "gkm_rpc_mechanism_is_supported (mechanism mech)")
  case False
  with assms(7) show ?thesis
    by (auto simp: module_proto_write_mechanism_def gkm_rpc_mechanism_is_supported_def
        split: Option.bind_splits)
next
  case True
  let ?p = "if gkm_rpc_mechanism_has_no_parameters (mechanism mech) then None
    else map_option (take (unat (ulParameterLen mech))) (pParameter mech)"
  have "\<exists>cs'. dispatch_proto_read_mechanism cs = Some (CKR_OK,
      Some \<lparr>mechanism = mechanism mech, pParameter = ?p,
        ulParameterLen = if ?p = None then 0 else ulParameterLen mech\<rparr>, cs')" if "rv = CKR_OK"
  proof -
    have w: "map_option (\<lambda>(rv, m'). (rv = CKR_OK, m')) (module_proto_write_mechanism h mech s) = Some (True, s')"
      using assms(7) that by simp
    from at_bytesI [OF egg_allocator.write_mechanism_emits [OF assms(1) True assms(5)] assms(2,3) w assms(8)]
    have at: "at_bytes (egg_buffer_encode_uint32 (ucast (mechanism mech)) @ encode_byte_array ?p @ [])
        (advance (ascii ''M'') (req cs))" and e: "expects (ascii ''M'') (req cs)" by simp_all
    note 1 = at_uint32 [OF at]
    have "length_ok ?p" using assms(6) by (auto simp: length_ok_def split: option.splits)
    note 2 = at_byte_array(1) [OF this 1(2)]
    have "ucast (ucast (mechanism mech) :: 32 word) = mechanism mech"
      using ucast_ucast_small [OF assms(4)] .
    moreover have "word_of_nat (case ?p of None \<Rightarrow> 0 | Some d \<Rightarrow> length d)
        = (if ?p = None then 0 else ulParameterLen mech)"
      using assms(5) by (auto simp: array_ok_def min_def split: option.splits)
    ultimately show ?thesis using 1(1) 2
      by (simp add: dispatch_proto_read_mechanism_def assert_part_expects [OF e])
  qed
  with True show ?thesis by auto
qed

text \<open>C38: The token information the daemon sends is the token information the client stores in the
  caller's structure: four padded strings, eleven numbers, two versions and the time, with the
  signature \<open>ssssuuuuuuuuuuuvvs\<close> of the table consumed completely at both ends.\<close>

theorem rpc_token_info_response:
  assumes "egg_allocator h" and "token_wf info" and "token_wf info0"
    and "eb_wf (buffer (resp cs))" and "expects (ascii ''ssssuuuuuuuuuuuvvs'') (resp cs)"
    and "dispatch_proto_write_token_info h info cs = Some (CKR_OK, cs')"
    and "receives (ascii ''ssssuuuuuuuuuuuvvs'') (resp cs) (resp cs') r"
  shows "module_proto_read_token_info info0 r = Some (CKR_OK, info,
    (advance (ascii ''ssssuuuuuuuuuuuvvs'') r)\<lparr>parsed := eb_len (buffer (resp cs'))\<rparr>)"
proof -
  have w: "all_ok (token_info_writes h info) (resp cs) = Some (True, resp cs')"
    using assms(6) by (auto simp: dispatch_proto_write_token_info_def ckr_defs
        split: Option.bind_splits if_splits)
  from assms(7) obtain post where "eb_wf (buffer r)" "expects (ascii ''ssssuuuuuuuuuuuvvs'') r"
    "parsed r = eb_len (buffer (resp cs))" "eb_contents (buffer r) = eb_contents (buffer (resp cs')) @ post"
    unfolding receives_def by blast
  from egg_allocator.token_travels [OF assms(1-5) w this] show ?thesis
    by (simp add: module_proto_read_token_info_def)
qed

definition sample_token :: CK_TOKEN_INFO where
  "sample_token = \<lparr>token_label = replicate 32 0x41, token_manufacturerID = replicate 32 0x20,
     token_model = replicate 16 0x20, token_serialNumber = replicate 16 0x31, token_flags = 1,
     token_ulMaxSessionCount = 2, token_ulSessionCount = 3, token_ulMaxRwSessionCount = 4,
     token_ulRwSessionCount = 5, token_ulMaxPinLen = 6, token_ulMinPinLen = 7,
     token_ulTotalPublicMemory = 8, token_ulFreePublicMemory = 9, token_ulTotalPrivateMemory = 10,
     token_ulFreePrivateMemory = 11, token_hardwareVersion = \<lparr>major = 1, minor = 2\<rparr>,
     token_firmwareVersion = \<lparr>major = 3, minor = 4\<rparr>, token_utcTime = replicate 16 0x30\<rparr>"

lemma sample_token_wf: "token_wf sample_token"
  by (simp add: sample_token_def token_wf_def)

lemma sample_token_written:
  "\<exists>cs'. dispatch_proto_write_token_info libc_realloc sample_token sample_cs = Some (CKR_OK, cs')"
  by (simp add: dispatch_proto_write_token_info_def token_info_writes_def sample_token_def
      gkm_rpc_message_write_space_string_def gkm_rpc_message_write_ulong_def
      gkm_rpc_message_write_version_def rpc_eval)

theorem rpc_token_info_response_witness:
  "\<exists>cs' r'. dispatch_proto_write_token_info libc_realloc sample_token sample_cs = Some (CKR_OK, cs')
     \<and> module_proto_read_token_info (sample_token\<lparr>token_flags := 99\<rparr>) (sent (resp cs'))
         = Some (CKR_OK, sample_token, r')"
proof -
  obtain cs' where cs': "dispatch_proto_write_token_info libc_realloc sample_token sample_cs = Some (CKR_OK, cs')"
    using sample_token_written by blast
  have w: "all_ok (token_info_writes libc_realloc sample_token) sample_msg = Some (True, resp cs')"
    using cs' by (auto simp: dispatch_proto_write_token_info_def ckr_defs sample_cs_def
        split: Option.bind_splits if_splits)
  have wf: "token_wf (sample_token\<lparr>token_flags := 99\<rparr>)" using sample_token_wf by (simp add: token_wf_def)
  note r = sample_loopback [OF egg_allocator.token_writes [OF egg_allocator_libc sample_token_wf] w]
  from rpc_token_info_response [OF egg_allocator_libc sample_token_wf wf
      sample_msg_wf [unfolded sample_expects(2)] sample_expects(1) [unfolded sample_expects(2)] cs'
      r [unfolded sample_expects(2)]] cs' show ?thesis by blast
qed

end
