(* ===== verification/RpcServe.thy ===== *)
theory RpcServe
  imports RpcDispatch RpcCodec
begin

text \<open>
  The daemon answers whatever a client sends. Each handler of theory \<open>RpcHandlers\<close> consumes exactly
  the request signature of its call in the table \<open>gkm_rpc_calls\<close> and, when it succeeds, writes exactly
  the response signature; so none of the assertions in the message functions, in \<^verbatim>\<open>PROCESS_CALL\<close> and at
  the end of \<open>dispatch_call\<close> fails, and no memory is read or written out of bounds.
\<close>

subsection \<open>Signatures still to be read or written\<close>

definition at_sig :: "string \<Rightarrow> GkmRpcMessage \<Rightarrow> bool" where
  "at_sig p m \<longleftrightarrow> eb_wf (buffer m) \<and> signature m \<noteq> None \<and> sigverify m = Some (ascii p)"

lemma at_sig_wf: "at_sig p m \<Longrightarrow> eb_wf (buffer m)"
  by (simp add: at_sig_def)

lemma at_sig_expects: "at_sig (p @ q) m \<Longrightarrow> expects (ascii p) m"
  by (simp add: at_sig_def expects_def ascii_def)

lemma at_sig_sigverify: "at_sig (p @ q) m \<Longrightarrow> sigverify (advance (ascii p) m) = Some (ascii q)"
  by (auto simp: at_sig_def advance_def ascii_def)

lemma at_sig_advance: "at_sig (p @ q) m \<Longrightarrow> eb_wf b \<Longrightarrow> at_sig q ((advance (ascii p) m)\<lparr>buffer := b\<rparr>)"
  by (auto simp: at_sig_def advance_def ascii_def)

lemma at_sig_verified: "at_sig [] m \<Longrightarrow> gkm_rpc_message_is_verified m"
  by (simp add: at_sig_def gkm_rpc_message_is_verified_def ascii_def)

text \<open>
  What a handler leaves behind: usable buffers, the same call in the request, and if it returns
  \<^verbatim>\<open>CKR_OK\<close> a complete response to the call.
\<close>

definition handler_done :: "CallState \<Rightarrow> CK_RV \<Rightarrow> CallState \<Rightarrow> bool" where
  "handler_done cs ret cs' \<longleftrightarrow> eb_wf (buffer (req cs')) \<and> eb_wf (buffer (resp cs'))
     \<and> call_id (req cs') = call_id (req cs)
     \<and> (ret = CKR_OK \<longrightarrow> at_sig [] (resp cs') \<and> call_id (resp cs') = call_id (resp cs)
          \<and> call_type (resp cs') = call_type (resp cs) \<and> signature (resp cs') = signature (resp cs)
          \<and> (\<exists>out. eb_contents (buffer (resp cs')) = eb_contents (buffer (resp cs)) @ out))"

text \<open>
  \<open>handles p q H\<close>: \<open>H\<close> runs to its end where \<open>p\<close> is left of the request and \<open>q\<close> of the response;
  \<open>finishes q H\<close> the same for what follows the call of the module, and \<open>plain q out\<close> for outputs that
  are written only if the return value so far is \<^verbatim>\<open>CKR_OK\<close>.
\<close>

definition handles :: "string \<Rightarrow> string \<Rightarrow> 's handler \<Rightarrow> bool" where
  "handles p q H \<longleftrightarrow> (\<forall>cs s. at_sig p (req cs) \<longrightarrow> at_sig q (resp cs) \<longrightarrow>
     (\<exists>ret cs' s'. H (cs, s) = Some (ret, cs', s') \<and> handler_done cs ret cs'))"

definition finishes :: "string \<Rightarrow> 's handler \<Rightarrow> bool" where
  "finishes q H \<longleftrightarrow> (\<forall>cs s. eb_wf (buffer (req cs)) \<longrightarrow> at_sig q (resp cs) \<longrightarrow>
     (\<exists>ret cs' s'. H (cs, s) = Some (ret, cs', s') \<and> handler_done cs ret cs'))"

definition plain :: "string \<Rightarrow> 's out_handler \<Rightarrow> bool" where
  "plain q out \<longleftrightarrow> (\<forall>ret cs s. eb_wf (buffer (req cs)) \<longrightarrow> eb_wf (buffer (resp cs)) \<longrightarrow>
     (ret = CKR_OK \<longrightarrow> at_sig q (resp cs)) \<longrightarrow>
     (\<exists>ret' cs' s'. out ret (cs, s) = Some (ret', cs', s') \<and> handler_done cs ret' cs'
       \<and> (ret \<noteq> CKR_OK \<longrightarrow> ret' \<noteq> CKR_OK)))"

lemma ckr_distinct [simp]:
  "CKR_DEVICE_ERROR \<noteq> CKR_OK" "CKR_DEVICE_MEMORY \<noteq> CKR_OK" "CKR_GENERAL_ERROR \<noteq> CKR_OK"
  "CKR_BUFFER_TOO_SMALL \<noteq> CKR_OK" "CKR_ATTRIBUTE_SENSITIVE \<noteq> CKR_OK"
  "CKR_ATTRIBUTE_TYPE_INVALID \<noteq> CKR_OK"
  by (simp_all add: ckr_defs)

lemma handler_done_error:
  "ret \<noteq> CKR_OK \<Longrightarrow> eb_wf (buffer (req cs')) \<Longrightarrow> eb_wf (buffer (resp cs')) \<Longrightarrow>
     call_id (req cs') = call_id (req cs) \<Longrightarrow> handler_done cs ret cs'"
  by (simp add: handler_done_def)

lemma handler_done_trans:
  "handler_done cs1 ret cs' \<Longrightarrow> call_id (req cs1) = call_id (req cs) \<Longrightarrow> call_id (resp cs1) = call_id (resp cs) \<Longrightarrow>
     call_type (resp cs1) = call_type (resp cs) \<Longrightarrow> signature (resp cs1) = signature (resp cs) \<Longrightarrow>
     eb_contents (buffer (resp cs1)) = eb_contents (buffer (resp cs)) \<Longrightarrow> handler_done cs ret cs'"
  by (simp add: handler_done_def)

lemma plain_finishes: "plain q out \<Longrightarrow> finishes q (out ret)"
  unfolding plain_def finishes_def by (blast dest: at_sig_wf)

lemma plainD:
  assumes "plain q out" and "eb_wf (buffer (req cs))" and "eb_wf (buffer (resp cs))"
    and "ret = CKR_OK \<Longrightarrow> at_sig q (resp cs)"
  obtains ret' cs' s' where "out ret (cs, s) = Some (ret', cs', s')" and "handler_done cs ret' cs'"
    and "ret \<noteq> CKR_OK \<Longrightarrow> ret' \<noteq> CKR_OK"
  using assms unfolding plain_def by metis

subsection \<open>Outputs\<close>

text \<open>A step that writes \<open>part\<close> of the response: it either succeeds and goes on, or fails for good.\<close>

definition out_step :: "string \<Rightarrow> (CallState \<Rightarrow> (CK_RV \<times> CallState) option) \<Rightarrow> bool" where
  "out_step part w \<longleftrightarrow> (\<forall>cs. eb_wf (buffer (resp cs)) \<longrightarrow> expects (ascii part) (resp cs) \<longrightarrow>
     (\<exists>ret b' cs'. w cs = Some (ret, cs') \<and> req cs' = req cs \<and> eb_wf (buffer (resp cs'))
       \<and> (ret = CKR_OK \<longrightarrow> eb_wf b' \<and> resp cs' = (advance (ascii part) (resp cs))\<lparr>buffer := b'\<rparr>
            \<and> (\<exists>out. eb_contents b' = eb_contents (buffer (resp cs)) @ out))))"

lemma emits_out_step:
  assumes "msg_emits w (ascii part) bs"
  shows "out_step part (\<lambda>cs. do { (ok, m) \<leftarrow> w (resp cs);
           Some (if ok then CKR_OK else PREP_ERROR, cs\<lparr>resp := m\<rparr>) })"
  unfolding out_step_def
proof (intro allI impI)
  fix cs :: CallState
  assume "eb_wf (buffer (resp cs))" and "expects (ascii part) (resp cs)"
  with assms show "\<exists>ret b' cs'. do { (ok, m) \<leftarrow> w (resp cs);
           Some (if ok then CKR_OK else PREP_ERROR, cs\<lparr>resp := m\<rparr>) } = Some (ret, cs')
      \<and> req cs' = req cs \<and> eb_wf (buffer (resp cs'))
      \<and> (ret = CKR_OK \<longrightarrow> eb_wf b' \<and> resp cs' = (advance (ascii part) (resp cs))\<lparr>buffer := b'\<rparr>
           \<and> (\<exists>out. eb_contents b' = eb_contents (buffer (resp cs)) @ out))"
    by (cases rule: msg_emits_cases) (auto simp: added_def)
qed

lemma out_step_done:
  assumes "out_step part w" and "plain q rest" and "eb_wf (buffer (req cs))" and "at_sig (part @ q) (resp cs)"
  shows "\<exists>ret' cs' s'. do { (ret1, cs1) \<leftarrow> w cs; rest ret1 (cs1, s) } = Some (ret', cs', s')
    \<and> handler_done cs ret' cs'"
proof -
  from assms(1,4) obtain ret b' cs1 where 1: "w cs = Some (ret, cs1)" "req cs1 = req cs"
    "eb_wf (buffer (resp cs1))"
    "ret = CKR_OK \<longrightarrow> eb_wf b' \<and> resp cs1 = (advance (ascii part) (resp cs))\<lparr>buffer := b'\<rparr>
       \<and> (\<exists>out. eb_contents b' = eb_contents (buffer (resp cs)) @ out)"
    unfolding out_step_def using at_sig_wf at_sig_expects by metis
  have "ret = CKR_OK \<longrightarrow> at_sig q (resp cs1)"
    using 1(4) at_sig_advance [OF assms(4)] by auto
  with assms(2,3) 1 obtain ret' cs' s' where "rest ret (cs1, s) = Some (ret', cs', s')"
    "handler_done cs1 ret' cs'" "ret \<noteq> CKR_OK \<longrightarrow> ret' \<noteq> CKR_OK" unfolding plain_def by metis
  with 1 show ?thesis
    by (cases "ret = CKR_OK") (auto simp: handler_done_def)
qed


lemma out_plain:
  assumes "out_step part (w CKR_OK)" and "\<And>ret cs. ret \<noteq> CKR_OK \<Longrightarrow> w ret cs = Some (ret, cs)"
    and "plain q rest"
  shows "plain (part @ q) (dispatch_out w rest)"
  unfolding plain_def
proof (intro allI impI)
  fix ret and cs :: CallState and s
  assume wf: "eb_wf (buffer (req cs))" "eb_wf (buffer (resp cs))" "ret = CKR_OK \<longrightarrow> at_sig (part @ q) (resp cs)"
  show "\<exists>ret' cs' s'. dispatch_out w rest ret (cs, s) = Some (ret', cs', s') \<and> handler_done cs ret' cs'
      \<and> (ret \<noteq> CKR_OK \<longrightarrow> ret' \<noteq> CKR_OK)"
  proof (cases "ret = CKR_OK")
    case True
    with out_step_done [OF assms(1,3) wf(1)] wf(3) show ?thesis by (simp add: dispatch_out_def)
  next
    case False
    obtain ret' cs' s' where "rest ret (cs, s) = Some (ret', cs', s')" "handler_done cs ret' cs'" "ret' \<noteq> CKR_OK"
      using plainD [OF assms(3) wf(1,2), of ret s] False by metis
    with False show ?thesis by (simp add: dispatch_out_def assms(2))
  qed
qed

lemma out_finishes:
  assumes "out_step part (w ret) \<or> ret \<noteq> CKR_OK \<and> (\<forall>cs. w ret cs = Some (ret, cs))" and "plain q rest"
  shows "finishes (part @ q) (dispatch_out w rest ret)"
  using assms(1)
proof
  assume "out_step part (w ret)"
  from out_step_done [OF this assms(2)] show ?thesis by (simp add: finishes_def dispatch_out_def)
next
  assume n: "ret \<noteq> CKR_OK \<and> (\<forall>cs. w ret cs = Some (ret, cs))"
  show ?thesis unfolding finishes_def
  proof (intro allI impI)
    fix cs :: CallState and s
    assume "eb_wf (buffer (req cs))" and "at_sig (part @ q) (resp cs)"
    with n obtain ret' cs' s' where "rest ret (cs, s) = Some (ret', cs', s')" "handler_done cs ret' cs'"
      using plainD [OF assms(2), of cs ret s] at_sig_wf by metis
    with n show "\<exists>ret' cs' s'. dispatch_out w rest ret (cs, s) = Some (ret', cs', s')
        \<and> handler_done cs ret' cs'"
      by (simp add: dispatch_out_def)
  qed
qed

lemma plain_END_CALL: "plain [] dispatch_END_CALL"
  by (simp add: plain_def dispatch_END_CALL_def handler_done_def)

lemma plain_set_application: "plain q rest \<Longrightarrow> plain q (dispatch_set_application app rest)"
  unfolding plain_def
proof (intro allI impI)
  fix ret and cs :: CallState and s
  assume rest: "\<forall>ret cs s. eb_wf (buffer (req cs)) \<longrightarrow> eb_wf (buffer (resp cs)) \<longrightarrow>
     (ret = CKR_OK \<longrightarrow> at_sig q (resp cs)) \<longrightarrow>
     (\<exists>ret' cs' s'. rest ret (cs, s) = Some (ret', cs', s') \<and> handler_done cs ret' cs'
       \<and> (ret \<noteq> CKR_OK \<longrightarrow> ret' \<noteq> CKR_OK))"
    and wf: "eb_wf (buffer (req cs))" "eb_wf (buffer (resp cs))" "ret = CKR_OK \<longrightarrow> at_sig q (resp cs)"
  let ?cs = "cs\<lparr>application := app\<rparr>"
  from rest [rule_format, of ?cs ret s] wf obtain ret' cs' s' where r: "rest ret (?cs, s) = Some (ret', cs', s')"
    "handler_done ?cs ret' cs'" "ret \<noteq> CKR_OK \<longrightarrow> ret' \<noteq> CKR_OK" by auto
  have "handler_done cs ret' cs'" by (rule handler_done_trans [OF r(2)]) simp_all
  with r show "\<exists>ret' cs' s'. dispatch_set_application app rest ret (cs, s) = Some (ret', cs', s')
      \<and> handler_done cs ret' cs' \<and> (ret \<noteq> CKR_OK \<longrightarrow> ret' \<noteq> CKR_OK)"
    by (simp add: dispatch_set_application_def)
qed

context egg_allocator
begin

lemmas info_writes_emit = info.writes_emit
lemmas slot_writes_emit = slot.writes_emit
lemmas mech_writes_emit = mech.writes_emit
lemmas sess_writes_emit = sess.writes_emit

lemma plain_OUT_ULONG:
  assumes "plain q rest"
  shows "plain (CHR ''u'' # q) (dispatch_OUT_ULONG h v rest)"
proof -
  have "out_step ''u'' (\<lambda>cs. do { (ok, m) \<leftarrow> gkm_rpc_message_write_ulong h v (resp cs);
      Some (if ok then CKR_OK else PREP_ERROR, cs\<lparr>resp := m\<rparr>) })"
    by (rule emits_out_step [OF write_ulong_emits])
  then have "plain (''u'' @ q) (dispatch_OUT_ULONG h v rest)"
    unfolding dispatch_OUT_ULONG_def using assms by (intro out_plain) simp_all
  then show ?thesis by simp
qed

lemma finishes_OUT_BYTE_ARRAY:
  assumes "ret = CKR_OK \<Longrightarrow> array_ok arr n" and "plain q rest"
  shows "finishes (CHR ''a'' # CHR ''y'' # q) (dispatch_OUT_BYTE_ARRAY h arr n rest ret)"
proof -
  have "array_ok (if ret = CKR_BUFFER_TOO_SMALL then None else arr) n" if "ret = CKR_OK \<or> ret = CKR_BUFFER_TOO_SMALL"
    using assms(1) that by (auto simp: array_ok_def)
  then have "out_step ''ay'' (dispatch_proto_write_byte_array h arr n ret)
      \<or> ret \<noteq> CKR_OK \<and> (\<forall>cs. dispatch_proto_write_byte_array h arr n ret cs = Some (ret, cs))"
    using emits_out_step [OF write_byte_array_emits]
    by (cases "ret = CKR_OK \<or> ret = CKR_BUFFER_TOO_SMALL")
      (auto simp: dispatch_proto_write_byte_array_def [abs_def] Let_def)
  from out_finishes [where w = "dispatch_proto_write_byte_array h arr n", OF this assms(2)]
  show ?thesis by (simp add: dispatch_OUT_BYTE_ARRAY_def)
qed

lemma finishes_OUT_ULONG_ARRAY:
  assumes "ret = CKR_OK \<Longrightarrow> array_ok arr n" and "plain q rest"
  shows "finishes (CHR ''a'' # CHR ''u'' # q) (dispatch_OUT_ULONG_ARRAY h arr n rest ret)"
proof -
  have "array_ok (if ret = CKR_BUFFER_TOO_SMALL then None else arr) n" if "ret = CKR_OK \<or> ret = CKR_BUFFER_TOO_SMALL"
    using assms(1) that by (auto simp: array_ok_def)
  then have "\<exists>bs. msg_emits (gkm_rpc_message_write_ulong_array h (if ret = CKR_BUFFER_TOO_SMALL then None else arr) n)
      (ascii ''au'') bs" if "ret = CKR_OK \<or> ret = CKR_BUFFER_TOO_SMALL"
    using that write_longs_emits by blast
  then have "out_step ''au'' (dispatch_proto_write_ulong_array h arr n ret)
      \<or> ret \<noteq> CKR_OK \<and> (\<forall>cs. dispatch_proto_write_ulong_array h arr n ret cs = Some (ret, cs))"
    using emits_out_step
    by (cases "ret = CKR_OK \<or> ret = CKR_BUFFER_TOO_SMALL")
      (auto simp: dispatch_proto_write_ulong_array_def [abs_def] Let_def)
  from out_finishes [where w = "dispatch_proto_write_ulong_array h arr n", OF this assms(2)]
  show ?thesis by (simp add: dispatch_OUT_ULONG_ARRAY_def)
qed

lemma finishes_OUT_ATTRIBUTE_ARRAY:
  assumes "ret \<in> {CKR_OK, CKR_ATTRIBUTE_SENSITIVE, CKR_ATTRIBUTE_TYPE_INVALID, CKR_BUFFER_TOO_SMALL}
      \<Longrightarrow> \<forall>a \<in> set attrs. attr_fits a" and "plain q rest"
  shows "finishes (CHR ''a'' # CHR ''A'' # CHR ''u'' # q) (dispatch_OUT_ATTRIBUTE_ARRAY h attrs rest ret)"
proof -
  have sg: "ascii ''aAu'' = ascii ''aA'' @ ascii ''u'' @ []" by (simp add: ascii_def)
  have "msg_emits (all_ok [gkm_rpc_message_write_attribute_array h attrs, gkm_rpc_message_write_ulong h ret])
      (ascii ''aAu'') (encode_attrs attrs @ encode_uint64 ret @ [])" if "\<forall>a \<in> set attrs. attr_fits a"
    unfolding sg by (intro all_ok_emits_cons all_ok_emits_nil write_attributes_emits write_ulong_emits that)
  note * = emits_out_step [OF this]
  have "out_step ''aAu'' (dispatch_proto_write_attribute_array h attrs ret)
      \<or> ret \<noteq> CKR_OK \<and> (\<forall>cs. dispatch_proto_write_attribute_array h attrs ret cs = Some (ret, cs))"
  proof (cases "ret \<in> {CKR_OK, CKR_ATTRIBUTE_SENSITIVE, CKR_ATTRIBUTE_TYPE_INVALID, CKR_BUFFER_TOO_SMALL}")
    case True
    with * [OF assms(1) [OF True]] have "out_step ''aAu'' (dispatch_proto_write_attribute_array h attrs ret)"
      by (auto simp only: dispatch_proto_write_attribute_array_def [abs_def] if_True if_False simp_thms
          insert_iff empty_iff)
    then show ?thesis ..
  next
    case False
    then show ?thesis by (simp add: dispatch_proto_write_attribute_array_def)
  qed
  from out_finishes [where w = "dispatch_proto_write_attribute_array h attrs", OF this assms(2)]
  show ?thesis by (simp add: dispatch_OUT_ATTRIBUTE_ARRAY_def)
qed

lemma finishes_struct:
  assumes "ret = CKR_OK \<Longrightarrow> msg_emits (all_ok ws) (ascii part) bs"
  shows "finishes part (dispatch_out (dispatch_if_ok (\<lambda>cs. do { (ok, m) \<leftarrow> all_ok ws (resp cs);
     Some (if ok then CKR_OK else PREP_ERROR, cs\<lparr>resp := m\<rparr>) })) dispatch_END_CALL ret)"
proof -
  let ?w = "dispatch_if_ok (\<lambda>cs. do { (ok, m) \<leftarrow> all_ok ws (resp cs);
     Some (if ok then CKR_OK else PREP_ERROR, cs\<lparr>resp := m\<rparr>) })"
  have "out_step part (?w ret) \<or> ret \<noteq> CKR_OK \<and> (\<forall>cs. ?w ret cs = Some (ret, cs))"
    using emits_out_step [OF assms] by (cases "ret = CKR_OK") (simp_all add: dispatch_if_ok_def [abs_def])
  from out_finishes [where w = ?w, OF this plain_END_CALL] show ?thesis by simp
qed

lemma finishes_OUT_INFO:
  "(ret = CKR_OK \<Longrightarrow> info_wf i) \<Longrightarrow> finishes ''vsusv'' (dispatch_OUT_INFO h i dispatch_END_CALL ret)"
  unfolding dispatch_OUT_INFO_def dispatch_proto_write_info_def [abs_def]
  by (rule finishes_struct, rule info_writes_emit, simp)

lemma finishes_OUT_SLOT_INFO:
  "(ret = CKR_OK \<Longrightarrow> slot_wf i) \<Longrightarrow> finishes ''ssuvv'' (dispatch_OUT_SLOT_INFO h i dispatch_END_CALL ret)"
  unfolding dispatch_OUT_SLOT_INFO_def dispatch_proto_write_slot_info_def [abs_def]
  by (rule finishes_struct, rule slot_writes_emit, simp)

lemma finishes_OUT_TOKEN_INFO:
  "(ret = CKR_OK \<Longrightarrow> token_wf i) \<Longrightarrow>
     finishes ''ssssuuuuuuuuuuuvvs'' (dispatch_OUT_TOKEN_INFO h i dispatch_END_CALL ret)"
  unfolding dispatch_OUT_TOKEN_INFO_def dispatch_proto_write_token_info_def [abs_def]
  by (rule finishes_struct, rule token_writes, simp)

lemma finishes_OUT_MECHANISM_INFO: "finishes ''uuu'' (dispatch_OUT_MECHANISM_INFO h i dispatch_END_CALL ret)"
  unfolding dispatch_OUT_MECHANISM_INFO_def dispatch_proto_write_mechanism_info_def [abs_def]
  by (rule finishes_struct, rule mech_writes_emit, rule TrueI)

lemma finishes_OUT_SESSION_INFO: "finishes ''uuuu'' (dispatch_OUT_SESSION_INFO h i dispatch_END_CALL ret)"
  unfolding dispatch_OUT_SESSION_INFO_def dispatch_proto_write_session_info_def [abs_def]
  by (rule finishes_struct, rule sess_writes_emit, rule TrueI)

end

subsection \<open>Inputs\<close>

text \<open>
  \<open>in_step part P p\<close>: on any request the reader \<open>p\<close> of an argument does not fault and leaves the
  request's contents alone; if it returns \<^verbatim>\<open>CKR_OK\<close> it gives a value with \<open>P\<close> and has taken \<open>part\<close> off the
  signature.
\<close>

definition in_step :: "string \<Rightarrow> ('a \<Rightarrow> bool)
    \<Rightarrow> (CallState \<Rightarrow> (CK_RV \<times> 'a option \<times> CallState) option) \<Rightarrow> bool" where
  "in_step part P p \<longleftrightarrow> (\<forall>cs. eb_wf (buffer (req cs)) \<longrightarrow> expects (ascii part) (req cs) \<longrightarrow>
     (\<exists>ret v cs'. p cs = Some (ret, v, cs') \<and> same_input (req cs) (req cs') \<and> resp cs' = resp cs
       \<and> (ret = CKR_OK \<longrightarrow> (\<exists>x. v = Some x \<and> P x)
            \<and> sigverify (req cs') = sigverify (advance (ascii part) (req cs)))))"

lemma same_input_at_sig:
  assumes "same_input m m'" and "at_sig (part @ p) m" and "sigverify m' = sigverify (advance (ascii part) m)"
  shows "at_sig p m'"
  using assms at_sig_sigverify [OF assms(2)] by (simp add: at_sig_def same_input_def)

lemma handles_input:
  assumes "handles p q body" and "same_input (req cs) (req cs1)" and "resp cs1 = resp cs"
    and "at_sig (part @ p) (req cs)" and "at_sig q (resp cs)"
    and "sigverify (req cs1) = sigverify (advance (ascii part) (req cs))"
  shows "\<exists>ret cs' s'. body (cs1, s) = Some (ret, cs', s') \<and> handler_done cs ret cs'"
proof -
  have "at_sig p (req cs1)" "at_sig q (resp cs1)" using same_input_at_sig [OF assms(2,4,6)] assms(3,5) by simp_all
  with assms(1) obtain ret cs' s' where r: "body (cs1, s) = Some (ret, cs', s')" "handler_done cs1 ret cs'"
    unfolding handles_def by blast
  have "handler_done cs ret cs'"
    by (rule handler_done_trans [OF r(2)]) (use assms(2,3) in \<open>simp_all add: same_input_def\<close>)
  with r(1) show ?thesis by blast
qed

lemma handles_proto:
  assumes "in_step part P p" and "\<And>x. P x \<Longrightarrow> handles sg q (body x)"
  shows "handles (part @ sg) q (dispatch_proto p body)"
  unfolding handles_def
proof (intro allI impI)
  fix cs :: CallState and s
  assume at: "at_sig (part @ sg) (req cs)" "at_sig q (resp cs)"
  from assms(1) at obtain ret v cs1 where 1: "p cs = Some (ret, v, cs1)"
    "same_input (req cs) (req cs1)" "resp cs1 = resp cs"
    "ret = CKR_OK \<longrightarrow> (\<exists>x. v = Some x \<and> P x) \<and> sigverify (req cs1) = sigverify (advance (ascii part) (req cs))"
    unfolding in_step_def using at_sig_wf at_sig_expects by meson
  show "\<exists>ret cs' s'. dispatch_proto p body (cs, s) = Some (ret, cs', s') \<and> handler_done cs ret cs'"
  proof (cases "ret = CKR_OK")
    case True
    with 1(4) obtain x where x: "v = Some x" "P x"
      "sigverify (req cs1) = sigverify (advance (ascii part) (req cs))" by blast
    from handles_input [OF assms(2) [OF x(2)] 1(2,3) at x(3)] show ?thesis
      using 1(1) x(1) True by (simp add: dispatch_proto_def)
  next
    case False
    with 1 at_sig_wf [OF at(2)] show ?thesis
      by (auto simp: dispatch_proto_def same_input_def intro!: handler_done_error)
  qed
qed

lemma handles_read:
  assumes "msg_safe r (ascii part)" and "\<And>x. handles sg q (body x)"
  shows "handles (part @ sg) q (dispatch_read r body)"
  unfolding handles_def
proof (intro allI impI)
  fix cs :: CallState and s
  assume at: "at_sig (part @ sg) (req cs)" "at_sig q (resp cs)"
  from assms(1) at obtain v m where 1: "r (req cs) = Some (v, m)" "same_input (req cs) m"
    "v \<noteq> None \<longrightarrow> sigverify m = sigverify (advance (ascii part) (req cs))"
    unfolding msg_safe_def using at_sig_wf at_sig_expects by meson
  let ?cs1 = "cs\<lparr>req := m\<rparr>"
  show "\<exists>ret cs' s'. dispatch_read r body (cs, s) = Some (ret, cs', s') \<and> handler_done cs ret cs'"
  proof (cases v)
    case (Some x)
    with 1 handles_input [OF assms(2), of cs ?cs1 part x s] at show ?thesis by (simp add: dispatch_read_def)
  next
    case None
    with 1 at_sig_wf [OF at(2)] show ?thesis
      by (auto simp: dispatch_read_def same_input_def intro!: handler_done_error)
  qed
qed

text \<open>What the arguments the daemon reads look like: the memory behind a pointer has the announced length.\<close>

definition block_ok :: "'a list option \<Rightarrow> CK_ULONG \<Rightarrow> bool" where
  "block_ok b n \<longleftrightarrow> (case b of None \<Rightarrow> n = 0 | Some a \<Rightarrow> length a = unat n)"

lemma call_alloc_block:
  "call_alloc h n cs = (p, cs') \<Longrightarrow> req cs' = req cs" "call_alloc h n cs = (p, cs') \<Longrightarrow> resp cs' = resp cs"
  "call_alloc h n cs = (Some q, cs') \<Longrightarrow> length q = n \<and> n \<le> 0x7fffffff"
  by (auto simp: call_alloc_def split: if_splits option.splits)

lemma unat_ucast_up [simp]: "unat (ucast (n :: 32 word) :: CK_ULONG) = unat n"
  using unat_bound [of n] by (simp add: unsigned_ucast_eq take_bit_nat_eq_self)

lemma get_byte_array_length:
  "egg_buffer_get_byte_array b off = Some (Some (Some d, n), b') \<Longrightarrow> length d < 0x100000000"
  by (auto simp: egg_buffer_get_byte_array_def eb_load_def mem_read_def word_le_nat_alt
      split: Option.bind_splits option.splits if_splits)

lemma msg_get_byte_array_length:
  "msg_get egg_buffer_get_byte_array m = Some (Some (Some d), m') \<Longrightarrow> length d < 0x100000000"
  by (auto simp: msg_get_def split: Option.bind_splits option.splits dest: get_byte_array_length)

lemma first_get:
  assumes "safe_getter g" and "eb_wf (buffer (req cs))"
  obtains r m where "msg_get g (advance p (req cs)) = Some (r, m)" and "same_input (req cs) m"
    and "eb_wf (buffer m)" and "sigverify m = sigverify (advance p (req cs))"
  using get_safe_at [OF assms(1), of "advance p (req cs)"] assms(2) by (metis same_input_advance advance_simps(1))

lemma in_byte_array: "in_step ''ay'' (case_prod block_ok) dispatch_proto_read_byte_array"
  unfolding in_step_def
proof (intro allI impI)
  fix cs :: CallState assume wf: "eb_wf (buffer (req cs))" and e: "expects (ascii ''ay'') (req cs)"
  let ?m = "advance (ascii ''ay'') (req cs)"
  obtain r1 m1 where 1: "msg_get egg_buffer_get_byte ?m = Some (r1, m1)" "same_input (req cs) m1"
    "eb_wf (buffer m1)" "sigverify m1 = sigverify ?m" using first_get [OF get_byte_safe wf] by metis
  obtain r2 m2 where 2: "msg_get egg_buffer_get_byte_array m1 = Some (r2, m2)" "same_input m1 m2"
    "sigverify m2 = sigverify m1" using get_safe_at [OF get_byte_array_safe 1(3)] by metis
  have in2: "same_input (req cs) m2" using same_input_trans [OF 1(2) 2(2)] .
  have len: "unat (word_of_nat (length d) :: CK_ULONG) = length d" if "r2 = Some (Some d)" for d
    using msg_get_byte_array_length [of m1 d m2] 2(1) that by (intro unat_of_nat_small) simp
  show "\<exists>ret v cs'. dispatch_proto_read_byte_array cs = Some (ret, v, cs') \<and> same_input (req cs) (req cs')
      \<and> resp cs' = resp cs \<and> (ret = CKR_OK \<longrightarrow> (\<exists>x. v = Some x \<and> case_prod block_ok x)
      \<and> sigverify (req cs') = sigverify ?m)"
    using 1 2 in2 len
    by (cases r1; cases r2)
      (auto simp: dispatch_proto_read_byte_array_def assert_part_expects [OF e] block_ok_def split: option.splits)
qed

lemma in_byte_buffer: "in_step ''fy'' (case_prod block_ok) (dispatch_proto_read_byte_buffer h)"
  unfolding in_step_def
proof (intro allI impI)
  fix cs :: CallState assume wf: "eb_wf (buffer (req cs))" and e: "expects (ascii ''fy'') (req cs)"
  let ?m = "advance (ascii ''fy'') (req cs)"
  obtain r1 m1 where 1: "msg_get egg_buffer_get_uint32 ?m = Some (r1, m1)" "same_input (req cs) m1"
    "sigverify m1 = sigverify ?m" using first_get [OF get_uint32_safe wf] by metis
  obtain p cs2 where 2: "call_alloc h (unat (the r1)) (cs\<lparr>req := m1\<rparr>) = (p, cs2)" by fastforce
  note 3 = call_alloc_block(1,2) [OF 2]
  show "\<exists>ret v cs'. dispatch_proto_read_byte_buffer h cs = Some (ret, v, cs') \<and> same_input (req cs) (req cs')
      \<and> resp cs' = resp cs \<and> (ret = CKR_OK \<longrightarrow> (\<exists>x. v = Some x \<and> case_prod block_ok x)
      \<and> sigverify (req cs') = sigverify ?m)"
    using 1 2 3 by (cases r1; cases p)
      (auto simp: Let_def call_alloc_block(3) dispatch_proto_read_byte_buffer_def assert_part_expects [OF e] block_ok_def)
qed

lemma in_ulong_buffer: "in_step ''fu'' (case_prod block_ok) (dispatch_proto_read_ulong_buffer h)"
  unfolding in_step_def
proof (intro allI impI)
  fix cs :: CallState assume wf: "eb_wf (buffer (req cs))" and e: "expects (ascii ''fu'') (req cs)"
  let ?m = "advance (ascii ''fu'') (req cs)"
  obtain r1 m1 where 1: "msg_get egg_buffer_get_uint32 ?m = Some (r1, m1)" "same_input (req cs) m1"
    "sigverify m1 = sigverify ?m" using first_get [OF get_uint32_safe wf] by metis
  have sz: "size_mul (unat n) 8 = unat n * 8" for n :: "32 word"
    using unat_bound [of n] by (simp add: size_mul_def)
  obtain p cs2 where 2: "call_alloc h (unat (the r1) * 8) (cs\<lparr>req := m1\<rparr>) = (p, cs2)" by fastforce
  note 3 = call_alloc_block(1,2) [OF 2]
  show "\<exists>ret v cs'. dispatch_proto_read_ulong_buffer h cs = Some (ret, v, cs') \<and> same_input (req cs) (req cs')
      \<and> resp cs' = resp cs \<and> (ret = CKR_OK \<longrightarrow> (\<exists>x. v = Some x \<and> case_prod block_ok x)
      \<and> sigverify (req cs') = sigverify ?m)"
    using 1 2 3 by (cases r1; cases p)
      (auto simp: Let_def call_alloc_block(3) dispatch_proto_read_ulong_buffer_def assert_part_expects [OF e] block_ok_def sz)
qed

lemma in_mechanism: "in_step ''M'' (\<lambda>_. True) dispatch_proto_read_mechanism"
  unfolding in_step_def
proof (intro allI impI)
  fix cs :: CallState assume wf: "eb_wf (buffer (req cs))" and e: "expects (ascii ''M'') (req cs)"
  let ?m = "advance (ascii ''M'') (req cs)"
  obtain r1 m1 where 1: "msg_get egg_buffer_get_uint32 ?m = Some (r1, m1)" "same_input (req cs) m1"
    "eb_wf (buffer m1)" "sigverify m1 = sigverify ?m" using first_get [OF get_uint32_safe wf] by metis
  obtain r2 m2 where 2: "msg_get egg_buffer_get_byte_array m1 = Some (r2, m2)" "same_input m1 m2"
    "sigverify m2 = sigverify m1" using get_safe_at [OF get_byte_array_safe 1(3)] by metis
  have in2: "same_input (req cs) m2" using same_input_trans [OF 1(2) 2(2)] .
  show "\<exists>ret v cs'. dispatch_proto_read_mechanism cs = Some (ret, v, cs') \<and> same_input (req cs) (req cs')
      \<and> resp cs' = resp cs \<and> (ret = CKR_OK \<longrightarrow> (\<exists>x. v = Some x \<and> True)
      \<and> sigverify (req cs') = sigverify ?m)"
    using 1 2 in2 by (cases r1; cases r2)
      (auto simp: dispatch_proto_read_mechanism_def assert_part_expects [OF e])
qed

text \<open>The loops over attributes.\<close>

definition same_place :: "GkmRpcMessage \<Rightarrow> GkmRpcMessage \<Rightarrow> bool" where
  "same_place m m' \<longleftrightarrow> same_input m m' \<and> sigverify m' = sigverify m"

lemma same_place_trans: "same_place m1 m2 \<Longrightarrow> same_place m2 m3 \<Longrightarrow> same_place m1 m3"
  by (auto simp: same_place_def intro: same_input_trans)

lemma get_safe_place:
  assumes "safe_getter g" and "eb_wf (buffer m)"
  obtains v m' where "msg_get g m = Some (v, m')" and "same_place m m'" and "eb_wf (buffer m')"
  using get_safe_at [OF assms] unfolding same_place_def by metis

lemma attributes_loop_safe:
  assumes "eb_wf (buffer m)" and "i + n \<le> length slots"
  shows "\<exists>rv slots' m'. read_attributes n i slots m = Some (rv, slots', m') \<and> same_place m m'
    \<and> length slots' = length slots"
  using assms
proof (induction n arbitrary: i slots m)
  case (Suc n)
  obtain r1 m1 where 1: "msg_get egg_buffer_get_uint32 m = Some (r1, m1)" "same_place m m1"
    "eb_wf (buffer m1)" using get_safe_place [OF get_uint32_safe Suc.prems(1)] by metis
  obtain r2 m2 where 2: "msg_get egg_buffer_get_byte m1 = Some (r2, m2)" "same_place m1 m2"
    "eb_wf (buffer m2)" using get_safe_place [OF get_byte_safe 1(3)] by metis
  obtain r3 m3 where 3: "msg_get egg_buffer_get_uint32 m2 = Some (r3, m3)" "same_place m2 m3"
    "eb_wf (buffer m3)" using get_safe_place [OF get_uint32_safe 2(3)] by metis
  obtain r4 m4 where 4: "msg_get egg_buffer_get_byte_array m3 = Some (r4, m4)" "same_place m3 m4"
    "eb_wf (buffer m4)" using get_safe_place [OF get_byte_array_safe 3(3)] by metis
  have in2: "same_place m m2" using same_place_trans [OF 1(2) 2(2)] .
  have in3: "same_place m m3" using same_place_trans [OF in2 3(2)] .
  have in4: "same_place m m4" using same_place_trans [OF in3 4(2)] .
  have IH2: "\<exists>rv slots' m'. read_attributes n (Suc i) (slots[i := a]) m2 = Some (rv, slots', m')
      \<and> same_place m m' \<and> length slots' = length slots" for a
    using Suc.IH [OF 2(3), of "Suc i" "slots[i := a]"] Suc.prems(2) same_place_trans [OF in2] by fastforce
  have IH4: "\<exists>rv slots' m'. read_attributes n (Suc i) (slots[i := a]) m4 = Some (rv, slots', m')
      \<and> same_place m m' \<and> length slots' = length slots" for a
    using Suc.IH [OF 4(3), of "Suc i" "slots[i := a]"] Suc.prems(2) same_place_trans [OF in4] by fastforce
  show ?case
    using 1 2(1) 3(1) 4(1) in2 in3 in4 IH2 IH4 Suc.prems(2)
    by (cases r1; cases r2; cases r3; cases r4) (auto simp del: not_None_eq)
qed (auto simp: same_place_def)

definition template_ok :: "CK_ATTRIBUTE list \<Rightarrow> CK_ULONG \<Rightarrow> bool" where
  "template_ok attrs n \<longleftrightarrow> length attrs = unat n \<and> (\<forall>a \<in> set attrs. attr_fits a)"

lemma attribute_buffers_loop_safe:
  assumes "eb_wf (buffer (req cs))" and "i + n \<le> length slots" and "\<forall>a \<in> set slots. attr_fits a"
  shows "\<exists>rv slots' cs'. read_attribute_buffers h n i slots cs = Some (rv, slots', cs')
    \<and> same_place (req cs) (req cs') \<and> resp cs' = resp cs
    \<and> length slots' = length slots \<and> (\<forall>a \<in> set slots'. attr_fits a)"
  using assms
proof (induction n arbitrary: i slots cs)
  case (Suc n)
  obtain r1 m1 where 1: "msg_get egg_buffer_get_uint32 (req cs) = Some (r1, m1)" "same_place (req cs) m1"
    "eb_wf (buffer m1)" using get_safe_place [OF get_uint32_safe Suc.prems(1)] by metis
  obtain r2 m2 where 2: "msg_get egg_buffer_get_uint32 m1 = Some (r2, m2)" "same_place m1 m2"
    "eb_wf (buffer m2)" using get_safe_place [OF get_uint32_safe 1(3)] by metis
  have in2: "same_place (req cs) m2" using same_place_trans [OF 1(2) 2(2)] .
  have set: "\<forall>b \<in> set (slots[i := a]). attr_fits b" if "attr_fits a" for a
    using Suc.prems(3) that set_update_subset_insert [of slots i a] by blast
  have IH: "\<exists>rv slots' cs'. read_attribute_buffers h n (Suc i) (slots[i := a]) cs2 = Some (rv, slots', cs')
      \<and> same_place (req cs) (req cs') \<and> resp cs' = resp cs \<and> length slots' = length slots
      \<and> (\<forall>a \<in> set slots'. attr_fits a)"
    if "req cs2 = m2" "resp cs2 = resp cs" "attr_fits a" for a cs2
    using Suc.IH [of cs2 "Suc i" "slots[i := a]"] Suc.prems(2) 2(3) that set [OF that(3)] same_place_trans [OF in2]
    by fastforce
  have fits: "attr_fits \<lparr>attr_type = t, pValue = Some p, ulValueLen = ucast (v :: 32 word)\<rparr>"
    if "length p = unat v" for t p v using that by (simp add: attr_fits_def array_ok_def)
  have fits0: "attr_fits \<lparr>attr_type = t, pValue = None, ulValueLen = 0\<rparr>" for t
    by (simp add: attr_fits_def array_ok_def)
  show ?case
  proof (cases r1)
    case None
    with 1 Suc.prems show ?thesis by simp
  next
    case r1: (Some t)
    show ?thesis
    proof (cases r2)
      case None
      with 1 2 r1 in2 Suc.prems show ?thesis by (simp add: Let_def)
    next
      case r2: (Some v)
      obtain p cs3 where al: "call_alloc h (unat v) (cs\<lparr>req := m2\<rparr>) = (p, cs3)" by fastforce
      note al' = call_alloc_block(1,2) [OF al]
      show ?thesis
        using 1 2 r1 r2 in2 Suc.prems al al' IH [OF _ _ fits0, of "cs\<lparr>req := m2\<rparr>"]
          IH [of cs3, OF _ _ fits] call_alloc_block(3) [of h "unat v" "cs\<lparr>req := m2\<rparr>"]
        by (cases p) (simp_all add: Let_def)
    qed
  qed
qed (auto simp: same_place_def)

lemma template_size: "size_mul (unat (n :: 32 word)) 24 = unat n * 24"
  using unat_bound [of n] by (simp add: size_mul_def)

lemma in_attribute_array: "in_step ''aA'' (\<lambda>(attrs, n). length attrs = unat n) (dispatch_proto_read_attribute_array h)"
  unfolding in_step_def
proof (intro allI impI)
  fix cs :: CallState assume wf: "eb_wf (buffer (req cs))" and e: "expects (ascii ''aA'') (req cs)"
  let ?m = "advance (ascii ''aA'') (req cs)"
  obtain r1 m1 where 1: "msg_get egg_buffer_get_uint32 ?m = Some (r1, m1)" "same_input (req cs) m1"
    "eb_wf (buffer m1)" "sigverify m1 = sigverify ?m" using first_get [OF get_uint32_safe wf] by metis
  obtain p cs2 where 2: "call_alloc h (unat (the r1) * 24) (cs\<lparr>req := m1\<rparr>) = (p, cs2)" by fastforce
  note 3 = call_alloc_block(1,2) [OF 2]
  have "\<exists>rv slots m2. read_attributes (unat (the r1)) 0 (replicate (length q div 24) empty_attr) m1 = Some (rv, slots, m2)
      \<and> same_input (req cs) m2 \<and> sigverify m2 = sigverify ?m \<and> length slots = unat (the r1)" if "p = Some q" for q
    using attributes_loop_safe [OF 1(3), of 0 "unat (the r1)" "replicate (length q div 24) empty_attr"]
      call_alloc_block(3) [of h "unat (the r1) * 24" "cs\<lparr>req := m1\<rparr>" q cs2] 2 that same_input_trans [OF 1(2)] 1(4)
    by (auto simp: same_place_def)
  then show "\<exists>ret v cs'. dispatch_proto_read_attribute_array h cs = Some (ret, v, cs') \<and> same_input (req cs) (req cs')
      \<and> resp cs' = resp cs \<and> (ret = CKR_OK \<longrightarrow> (\<exists>x. v = Some x \<and> (case x of (attrs, n) \<Rightarrow> length attrs = unat n))
      \<and> sigverify (req cs') = sigverify ?m)"
    using 1 2 3 by (cases r1; cases p)
      (auto simp: Let_def dispatch_proto_read_attribute_array_def assert_part_expects [OF e] template_size)
qed

lemma in_attribute_buffer: "in_step ''fA'' (case_prod template_ok) (dispatch_proto_read_attribute_buffer h)"
  unfolding in_step_def
proof (intro allI impI)
  fix cs :: CallState assume wf: "eb_wf (buffer (req cs))" and e: "expects (ascii ''fA'') (req cs)"
  let ?m = "advance (ascii ''fA'') (req cs)"
  obtain r1 m1 where 1: "msg_get egg_buffer_get_uint32 ?m = Some (r1, m1)" "same_input (req cs) m1"
    "eb_wf (buffer m1)" "sigverify m1 = sigverify ?m" using first_get [OF get_uint32_safe wf] by metis
  obtain p cs2 where 2: "call_alloc h (unat (the r1) * 24) (cs\<lparr>req := m1\<rparr>) = (p, cs2)" by fastforce
  note 3 = call_alloc_block(1,2) [OF 2]
  have "\<exists>rv slots cs3. read_attribute_buffers h (unat (the r1)) 0 (replicate (length q div 24) empty_attr) cs2
        = Some (rv, slots, cs3) \<and> same_input (req cs) (req cs3) \<and> sigverify (req cs3) = sigverify ?m
        \<and> resp cs3 = resp cs \<and> length slots = unat (the r1) \<and> (\<forall>a \<in> set slots. attr_fits a)" if "p = Some q" for q
    using attribute_buffers_loop_safe [of cs2 0 "unat (the r1)" "replicate (length q div 24) empty_attr" h]
      call_alloc_block(3) [of h "unat (the r1) * 24" "cs\<lparr>req := m1\<rparr>" q cs2] 2 3 that same_input_trans [OF 1(2)] 1(3,4)
    by (auto simp: same_place_def attr_fits_def empty_attr_def)
  then show "\<exists>ret v cs'. dispatch_proto_read_attribute_buffer h cs = Some (ret, v, cs') \<and> same_input (req cs) (req cs')
      \<and> resp cs' = resp cs \<and> (ret = CKR_OK \<longrightarrow> (\<exists>x. v = Some x \<and> case_prod template_ok x)
      \<and> sigverify (req cs') = sigverify ?m)"
    using 1 2 3 by (cases r1; cases p)
      (auto simp: Let_def dispatch_proto_read_attribute_buffer_def assert_part_expects [OF e] template_size
        template_ok_def)
qed

subsection \<open>The rules\<close>

lemma handles_BEGIN_CALL:
  assumes "\<And>g. func = Some g \<Longrightarrow> handles p q (body g)"
  shows "handles p q (dispatch_BEGIN_CALL func body)"
  using assms unfolding handles_def dispatch_BEGIN_CALL_def
  by (cases func) (auto intro!: handler_done_error at_sig_wf)

lemma handles_APPLICATION: "(\<And>app. handles p q (body app)) \<Longrightarrow> handles p q (dispatch_APPLICATION body)"
  by (simp add: handles_def dispatch_APPLICATION_def)

lemma handles_PROCESS_CALL:
  assumes "\<And>s ret out s1. call s = (ret, out, s1) \<Longrightarrow> finishes q (outs ret out)"
  shows "handles [] q (dispatch_PROCESS_CALL call outs)"
  unfolding handles_def
proof (intro allI impI)
  fix cs :: CallState and s
  assume at: "at_sig [] (req cs)" "at_sig q (resp cs)"
  obtain ret out s1 where c: "call s = (ret, out, s1)" by (metis prod_cases3)
  from assms [OF c] at at_sig_wf [OF at(1)] obtain ret' cs' s' where
    "outs ret out (cs, s1) = Some (ret', cs', s')" "handler_done cs ret' cs'" unfolding finishes_def by blast
  with c at_sig_verified [OF at(1)] show "\<exists>ret cs' s'. dispatch_PROCESS_CALL call outs (cs, s) = Some (ret, cs', s')
      \<and> handler_done cs ret cs'" by (simp add: dispatch_PROCESS_CALL_def)
qed

lemma handles_PROCESS_CALL_pair:
  assumes "\<And>s ret a b s1. call s = (ret, (a, b), s1) \<Longrightarrow> finishes q (outs ret a b)"
  shows "handles [] q (dispatch_PROCESS_CALL call (\<lambda>ret (a, b). outs ret a b))"
  using assms by (intro handles_PROCESS_CALL) (auto split: prod.split)

lemma handles_IN_BYTE:
  assumes "\<And>x. handles p q (body x)"
  shows "handles (CHR ''y'' # p) q (dispatch_IN_BYTE body)"
  using handles_read [where part = "''y''", OF libc.msg_byte.read_safe assms] by (simp add: dispatch_IN_BYTE_def)

lemma handles_IN_ULONG:
  assumes "\<And>x. handles p q (body x)"
  shows "handles (CHR ''u'' # p) q (dispatch_IN_ULONG body)"
  using handles_read [where part = "''u''", OF libc.msg_ulong.read_safe assms] by (simp add: dispatch_IN_ULONG_def)

lemma handles_IN_BYTE_ARRAY:
  assumes "\<And>b n. block_ok b n \<Longrightarrow> handles p q (body b n)"
  shows "handles (CHR ''a'' # CHR ''y'' # p) q (dispatch_IN_BYTE_ARRAY body)"
  using handles_proto [OF in_byte_array, of p q "case_prod body"] assms by (auto simp: dispatch_IN_BYTE_ARRAY_def)

lemma handles_IN_BYTE_BUFFER:
  assumes "\<And>b n. block_ok b n \<Longrightarrow> handles p q (body b n)"
  shows "handles (CHR ''f'' # CHR ''y'' # p) q (dispatch_IN_BYTE_BUFFER h body)"
  using handles_proto [OF in_byte_buffer, of p q "case_prod body"] assms by (auto simp: dispatch_IN_BYTE_BUFFER_def)

lemma handles_IN_ULONG_BUFFER:
  assumes "\<And>b n. block_ok b n \<Longrightarrow> handles p q (body b n)"
  shows "handles (CHR ''f'' # CHR ''u'' # p) q (dispatch_IN_ULONG_BUFFER h body)"
  using handles_proto [OF in_ulong_buffer, of p q "case_prod body"] assms by (auto simp: dispatch_IN_ULONG_BUFFER_def)

lemma handles_IN_ATTRIBUTE_ARRAY:
  assumes "\<And>attrs n. handles p q (body attrs n)"
  shows "handles (CHR ''a'' # CHR ''A'' # p) q (dispatch_IN_ATTRIBUTE_ARRAY h body)"
  using handles_proto [OF in_attribute_array, of p q "case_prod body"] assms
  by (auto simp: dispatch_IN_ATTRIBUTE_ARRAY_def)

lemma handles_IN_ATTRIBUTE_BUFFER:
  assumes "\<And>attrs n. template_ok attrs n \<Longrightarrow> handles p q (body attrs n)"
  shows "handles (CHR ''f'' # CHR ''A'' # p) q (dispatch_IN_ATTRIBUTE_BUFFER h body)"
  using handles_proto [OF in_attribute_buffer, of p q "case_prod body"] assms
  by (auto simp: dispatch_IN_ATTRIBUTE_BUFFER_def)

lemma handles_IN_MECHANISM:
  assumes "\<And>m. handles p q (body m)"
  shows "handles (CHR ''M'' # p) q (dispatch_IN_MECHANISM body)"
  using handles_proto [OF in_mechanism, of p q body] assms by (simp add: dispatch_IN_MECHANISM_def)

lemmas handler_rules = handles_BEGIN_CALL handles_APPLICATION handles_IN_BYTE handles_IN_ULONG handles_IN_BYTE_ARRAY
  handles_IN_BYTE_BUFFER handles_IN_ULONG_BUFFER handles_IN_ATTRIBUTE_ARRAY handles_IN_ATTRIBUTE_BUFFER
  handles_IN_MECHANISM handles_PROCESS_CALL_pair handles_PROCESS_CALL plain_finishes plain_END_CALL
  plain_set_application

subsection \<open>The module behind the daemon\<close>

text \<open>
  What the daemon relies on, as PKCS\#11 documents it: a function that is given memory for a result
  reports, when it returns \<^verbatim>\<open>CKR_OK\<close>, a length that lies within the memory it gives back; the strings
  of the information structures have the sizes of their C arrays; and the two functions the daemon
  calls without testing for them exist.
\<close>

definition gives_array :: "('a list option \<Rightarrow> CK_ULONG \<Rightarrow> ('a list option \<times> CK_ULONG, 's) pkcs11_call) \<Rightarrow> bool" where
  "gives_array g \<longleftrightarrow> (\<forall>b n s ret b' n' s'. block_ok b n \<longrightarrow> g b n s = (ret, (b', n'), s') \<longrightarrow>
     (b \<noteq> None \<longrightarrow> b' \<noteq> None) \<and> (ret = CKR_OK \<longrightarrow> array_ok b' n'))"

definition gives_block :: "('a list option \<Rightarrow> CK_ULONG \<Rightarrow> ('a list option, 's) pkcs11_call) \<Rightarrow> bool" where
  "gives_block g \<longleftrightarrow> (\<forall>b n s ret b' s'. block_ok b n \<longrightarrow> g b n s = (ret, b', s') \<longrightarrow>
     ret = CKR_OK \<longrightarrow> array_ok b' n)"

definition gives :: "('o \<Rightarrow> bool) \<Rightarrow> ('o, 's) pkcs11_call \<Rightarrow> bool" where
  "gives P g \<longleftrightarrow> (\<forall>s out s'. g s = (CKR_OK, out, s') \<longrightarrow> P out)"

definition gives_template ::
    "(CK_ATTRIBUTE list \<Rightarrow> CK_ULONG \<Rightarrow> (CK_ATTRIBUTE list, 's) pkcs11_call) \<Rightarrow> bool" where
  "gives_template g \<longleftrightarrow> (\<forall>attrs n s ret attrs' s'. template_ok attrs n \<longrightarrow> g attrs n s = (ret, attrs', s') \<longrightarrow>
     ret \<in> {CKR_OK, CKR_ATTRIBUTE_SENSITIVE, CKR_ATTRIBUTE_TYPE_INVALID, CKR_BUFFER_TOO_SMALL} \<longrightarrow>
     (\<forall>a \<in> set attrs'. attr_fits a))"

definition module_ok :: "'s CK_FUNCTION_LIST \<Rightarrow> bool" where
  "module_ok f \<longleftrightarrow>
     C_GetSlotList f \<noteq> None \<and> C_CloseAllSessions f \<noteq> None
   \<and> pred_option (\<lambda>g. \<forall>present. gives_array (g present)) (C_GetSlotList f)
   \<and> pred_option (\<lambda>g. \<forall>slot. gives_array (g slot)) (C_GetMechanismList f)
   \<and> pred_option (\<lambda>g. \<forall>session. gives_array (g session)) (C_FindObjects f)
   \<and> pred_option (gives info_wf) (C_GetInfo f)
   \<and> pred_option (\<lambda>g. \<forall>slot. gives slot_wf (g slot)) (C_GetSlotInfo f)
   \<and> pred_option (\<lambda>g. \<forall>slot. gives token_wf (g slot)) (C_GetTokenInfo f)
   \<and> pred_option (\<lambda>g. \<forall>session obj. gives_template (g session obj)) (C_GetAttributeValue f)
   \<and> pred_option (\<lambda>g. \<forall>session. gives_block (g session)) (C_GenerateRandom f)
   \<and> pred_option (\<lambda>g. \<forall>session mech wrapping key. gives_array (g session mech wrapping key)) (C_WrapKey f)
   \<and> (\<forall>c \<in> {C_GetOperationState f, C_EncryptFinal f, C_DecryptFinal f, C_DigestFinal f,
         C_SignFinal f}.
        pred_option (\<lambda>g. \<forall>session. gives_array (g session)) c)
   \<and> (\<forall>c \<in> {C_Encrypt f, C_EncryptUpdate f, C_Decrypt f, C_DecryptUpdate f, C_Digest f,
         C_Sign f, C_SignRecover f, C_VerifyRecover f, C_DigestEncryptUpdate f,
         C_DecryptDigestUpdate f, C_SignEncryptUpdate f, C_DecryptVerifyUpdate f}.
        pred_option (\<lambda>g. \<forall>session data n. gives_array (g session data n)) c)"

lemma gives_arrayD:
  "gives_array g \<Longrightarrow> block_ok b n \<Longrightarrow> g b n s = (ret, (b', n'), s') \<Longrightarrow> ret = CKR_OK \<Longrightarrow> array_ok b' n'"
  unfolding gives_array_def by blast

lemma gives_blockD: "gives_block g \<Longrightarrow> block_ok b n \<Longrightarrow> g b n s = (ret, b', s') \<Longrightarrow> ret = CKR_OK \<Longrightarrow> array_ok b' n"
  unfolding gives_block_def by blast

lemma givesD: "gives P g \<Longrightarrow> g s = (ret, out, s') \<Longrightarrow> ret = CKR_OK \<Longrightarrow> P out"
  unfolding gives_def by blast

lemma gives_templateD:
  "gives_template g \<Longrightarrow> template_ok attrs n \<Longrightarrow> g attrs n s = (ret, attrs', s') \<Longrightarrow>
     ret \<in> {CKR_OK, CKR_ATTRIBUTE_SENSITIVE, CKR_ATTRIBUTE_TYPE_INVALID, CKR_BUFFER_TOO_SMALL} \<Longrightarrow>
     \<forall>a \<in> set attrs'. attr_fits a"
  unfolding gives_template_def by blast

lemma module_okD:
  assumes "module_ok f"
  shows "C_GetSlotList f \<noteq> None"
    "C_CloseAllSessions f \<noteq> None"
    "pred_option (\<lambda>g. \<forall>present. gives_array (g present)) (C_GetSlotList f)"
    "pred_option (\<lambda>g. \<forall>slot. gives_array (g slot)) (C_GetMechanismList f)"
    "pred_option (\<lambda>g. \<forall>session. gives_array (g session)) (C_FindObjects f)"
    "pred_option (gives info_wf) (C_GetInfo f)"
    "pred_option (\<lambda>g. \<forall>slot. gives slot_wf (g slot)) (C_GetSlotInfo f)"
    "pred_option (\<lambda>g. \<forall>slot. gives token_wf (g slot)) (C_GetTokenInfo f)"
    "pred_option (\<lambda>g. \<forall>session obj. gives_template (g session obj)) (C_GetAttributeValue f)"
    "pred_option (\<lambda>g. \<forall>session. gives_block (g session)) (C_GenerateRandom f)"
    "pred_option (\<lambda>g. \<forall>session mech wrapping key. gives_array (g session mech wrapping key)) (C_WrapKey f)"
    "(\<forall>c \<in> {C_GetOperationState f, C_EncryptFinal f, C_DecryptFinal f, C_DigestFinal f,
         C_SignFinal f}.
        pred_option (\<lambda>g. \<forall>session. gives_array (g session)) c)"
    "(\<forall>c \<in> {C_Encrypt f, C_EncryptUpdate f, C_Decrypt f, C_DecryptUpdate f, C_Digest f,
         C_Sign f, C_SignRecover f, C_VerifyRecover f, C_DigestEncryptUpdate f,
         C_DecryptDigestUpdate f, C_SignEncryptUpdate f, C_DecryptVerifyUpdate f}.
        pred_option (\<lambda>g. \<forall>session data n. gives_array (g session data n)) c)"
  using assms unfolding module_ok_def by - (elim conjE, assumption)+

lemma slot_list_array:
  assumes "module_ok f" and "C_GetSlotList f = Some g" and "g present b n s = (ret, (b', n'), s')" and "block_ok b n"
    and "ret = CKR_OK"
  shows "array_ok b' n'"
  using gives_arrayD [where g = "g present", OF _ assms(4,3,5)] module_okD(3) [OF assms(1)] assms(2) by simp

lemma mechanism_list_array:
  assumes "module_ok f" and "C_GetMechanismList f = Some g" and "g slot b n s = (ret, (b', n'), s')" and "block_ok b n"
    and "ret = CKR_OK"
  shows "array_ok b' n'"
  using gives_arrayD [where g = "g slot", OF _ assms(4,3,5)] module_okD(4) [OF assms(1)] assms(2) by simp

lemma find_objects_array:
  assumes "module_ok f" and "C_FindObjects f = Some g" and "g session b n s = (ret, (b', n'), s')" and "block_ok b n"
    and "ret = CKR_OK"
  shows "array_ok b' n'"
  using gives_arrayD [where g = "g session", OF _ assms(4,3,5)] module_okD(5) [OF assms(1)] assms(2) by simp

lemma wrap_key_array:
  assumes "module_ok f" and "C_WrapKey f = Some g" and "g session mech wrapping key b n s = (ret, (b', n'), s')" and "block_ok b n"
    and "ret = CKR_OK"
  shows "array_ok b' n'"
  using gives_arrayD [where g = "g session mech wrapping key", OF _ assms(4,3,5)] module_okD(11) [OF assms(1)] assms(2) by simp

lemma final_array:
  assumes "module_ok f" and "c = Some g" and "g session b n s = (ret, (b', n'), s')" and "block_ok b n"
    and "ret = CKR_OK"
    and "c \<in> {C_GetOperationState f, C_EncryptFinal f, C_DecryptFinal f, C_DigestFinal f,
         C_SignFinal f}"
  shows "array_ok b' n'"
  using gives_arrayD [where g = "g session", OF _ assms(4,3,5)] bspec [OF module_okD(12) [OF assms(1)] assms(6)] assms(2) by simp

lemma crypt_array:
  assumes "module_ok f" and "c = Some g" and "g session data k b n s = (ret, (b', n'), s')" and "block_ok b n"
    and "ret = CKR_OK"
    and "c \<in> {C_Encrypt f, C_EncryptUpdate f, C_Decrypt f, C_DecryptUpdate f, C_Digest f,
         C_Sign f, C_SignRecover f, C_VerifyRecover f, C_DigestEncryptUpdate f,
         C_DecryptDigestUpdate f, C_SignEncryptUpdate f, C_DecryptVerifyUpdate f}"
  shows "array_ok b' n'"
  using gives_arrayD [where g = "g session data k", OF _ assms(4,3,5)] bspec [OF module_okD(13) [OF assms(1)] assms(6)] assms(2) by simp

lemma random_block:
  assumes "module_ok f" and "C_GenerateRandom f = Some g" and "g session b n s = (ret, b', s')" and "block_ok b n"
    and "ret = CKR_OK"
  shows "array_ok b' n"
  using gives_blockD [where g = "g session", OF _ assms(4,3,5)] module_okD(10) [OF assms(1)] assms(2) by simp

lemma attribute_template:
  assumes "module_ok f" and "C_GetAttributeValue f = Some g" and "g session obj attrs n s = (ret, attrs', s')"
    and "template_ok attrs n"
    and "ret \<in> {CKR_OK, CKR_ATTRIBUTE_SENSITIVE, CKR_ATTRIBUTE_TYPE_INVALID, CKR_BUFFER_TOO_SMALL}"
  shows "\<forall>a \<in> set attrs'. attr_fits a"
  using gives_templateD [where g = "g session obj", OF _ assms(4,3,5)] module_okD(9) [OF assms(1)] assms(2) by simp

lemma info_struct:
  assumes "module_ok f" and "C_GetInfo f = Some g" and "g s = (ret, i, s')" and "ret = CKR_OK"
  shows "info_wf i"
  using givesD [where g = "g", OF _ assms(3,4)] module_okD(6) [OF assms(1)] assms(2) by simp

lemma slot_struct:
  assumes "module_ok f" and "C_GetSlotInfo f = Some g" and "g slot s = (ret, i, s')" and "ret = CKR_OK"
  shows "slot_wf i"
  using givesD [where g = "g slot" and P = slot_wf, OF _ assms(3,4)] module_okD(7) [OF assms(1)] assms(2) by simp

lemma token_struct:
  assumes "module_ok f" and "C_GetTokenInfo f = Some g" and "g slot s = (ret, i, s')" and "ret = CKR_OK"
  shows "token_wf i"
  using givesD [where g = "g slot" and P = token_wf, OF _ assms(3,4)] module_okD(8) [OF assms(1)] assms(2) by simp

subsection \<open>The handlers\<close>

context egg_allocator
begin

lemmas out_rules = plain_OUT_ULONG finishes_OUT_BYTE_ARRAY finishes_OUT_ULONG_ARRAY finishes_OUT_ATTRIBUTE_ARRAY
  finishes_OUT_INFO finishes_OUT_SLOT_INFO finishes_OUT_TOKEN_INFO finishes_OUT_MECHANISM_INFO
  finishes_OUT_SESSION_INFO

text \<open>Handlers whose results need nothing of the module.\<close>

lemma plain_handlers:
  "handles ''uu'' ''uuu'' (dispatch_C_GetMechanismInfo h f)"
  "handles ''u'' ''u'' (dispatch_C_WaitForSlotEvent h f)"
  "handles ''uu'' ''u'' (dispatch_C_OpenSession h f)"
  "handles ''u'' '''' (dispatch_C_CloseSession h f)"
  "handles ''u'' '''' (dispatch_C_CloseAllSessions h f)"
  "handles ''u'' '''' (dispatch_C_GetFunctionStatus h f)"
  "handles ''u'' '''' (dispatch_C_CancelFunction h f)"
  "handles ''u'' ''uuuu'' (dispatch_C_GetSessionInfo h f)"
  "handles ''uay'' '''' (dispatch_C_InitPIN h f)"
  "handles ''uayay'' '''' (dispatch_C_SetPIN h f)"
  "handles ''uayuu'' '''' (dispatch_C_SetOperationState h f)"
  "handles ''uuay'' '''' (dispatch_C_Login h f)"
  "handles ''u'' '''' (dispatch_C_Logout h f)"
  "handles ''uaA'' ''u'' (dispatch_C_CreateObject h f)"
  "handles ''uuaA'' ''u'' (dispatch_C_CopyObject h f)"
  "handles ''uu'' '''' (dispatch_C_DestroyObject h f)"
  "handles ''uu'' ''u'' (dispatch_C_GetObjectSize h f)"
  "handles ''uuaA'' '''' (dispatch_C_SetAttributeValue h f)"
  "handles ''uaA'' '''' (dispatch_C_FindObjectsInit h f)"
  "handles ''u'' '''' (dispatch_C_FindObjectsFinal h f)"
  "handles ''uMu'' '''' (dispatch_C_EncryptInit h f)"
  "handles ''uMu'' '''' (dispatch_C_DecryptInit h f)"
  "handles ''uM'' '''' (dispatch_C_DigestInit h f)"
  "handles ''uay'' '''' (dispatch_C_DigestUpdate h f)"
  "handles ''uu'' '''' (dispatch_C_DigestKey h f)"
  "handles ''uMu'' '''' (dispatch_C_SignInit h f)"
  "handles ''uay'' '''' (dispatch_C_SignUpdate h f)"
  "handles ''uMu'' '''' (dispatch_C_SignRecoverInit h f)"
  "handles ''uMu'' '''' (dispatch_C_VerifyInit h f)"
  "handles ''uayay'' '''' (dispatch_C_Verify h f)"
  "handles ''uay'' '''' (dispatch_C_VerifyUpdate h f)"
  "handles ''uay'' '''' (dispatch_C_VerifyFinal h f)"
  "handles ''uMu'' '''' (dispatch_C_VerifyRecoverInit h f)"
  "handles ''uMaA'' ''u'' (dispatch_C_GenerateKey h f)"
  "handles ''uMaAaA'' ''uu'' (dispatch_C_GenerateKeyPair h f)"
  "handles ''uMuayaA'' ''u'' (dispatch_C_UnwrapKey h f)"
  "handles ''uMuaA'' ''u'' (dispatch_C_DeriveKey h f)"
  "handles ''uay'' '''' (dispatch_C_SeedRandom h f)"
  unfolding dispatch_C_GetMechanismInfo_def dispatch_C_WaitForSlotEvent_def dispatch_C_OpenSession_def
    dispatch_C_CloseSession_def dispatch_C_CloseAllSessions_def dispatch_C_GetFunctionStatus_def
    dispatch_C_CancelFunction_def dispatch_C_GetSessionInfo_def dispatch_C_InitPIN_def
    dispatch_C_SetPIN_def dispatch_C_SetOperationState_def dispatch_C_Login_def
    dispatch_C_Logout_def dispatch_C_CreateObject_def dispatch_C_CopyObject_def
    dispatch_C_DestroyObject_def dispatch_C_GetObjectSize_def dispatch_C_SetAttributeValue_def
    dispatch_C_FindObjectsInit_def dispatch_C_FindObjectsFinal_def dispatch_C_EncryptInit_def
    dispatch_C_DecryptInit_def dispatch_C_DigestInit_def dispatch_C_DigestUpdate_def
    dispatch_C_DigestKey_def dispatch_C_SignInit_def dispatch_C_SignUpdate_def
    dispatch_C_SignRecoverInit_def dispatch_C_VerifyInit_def dispatch_C_Verify_def
    dispatch_C_VerifyUpdate_def dispatch_C_VerifyFinal_def dispatch_C_VerifyRecoverInit_def
    dispatch_C_GenerateKey_def dispatch_C_GenerateKeyPair_def dispatch_C_UnwrapKey_def
    dispatch_C_DeriveKey_def dispatch_C_SeedRandom_def
  by ((rule out_rules handler_rules)+)

lemma crypt_handlers:
  assumes "module_ok f"
  shows "handles ''uayfy'' ''ay'' (dispatch_C_Encrypt h f)"
  "handles ''uayfy'' ''ay'' (dispatch_C_EncryptUpdate h f)"
  "handles ''uayfy'' ''ay'' (dispatch_C_Decrypt h f)"
  "handles ''uayfy'' ''ay'' (dispatch_C_DecryptUpdate h f)"
  "handles ''uayfy'' ''ay'' (dispatch_C_Digest h f)"
  "handles ''uayfy'' ''ay'' (dispatch_C_Sign h f)"
  "handles ''uayfy'' ''ay'' (dispatch_C_SignRecover h f)"
  "handles ''uayfy'' ''ay'' (dispatch_C_VerifyRecover h f)"
  "handles ''uayfy'' ''ay'' (dispatch_C_DigestEncryptUpdate h f)"
  "handles ''uayfy'' ''ay'' (dispatch_C_DecryptDigestUpdate h f)"
  "handles ''uayfy'' ''ay'' (dispatch_C_SignEncryptUpdate h f)"
  "handles ''uayfy'' ''ay'' (dispatch_C_DecryptVerifyUpdate h f)"
  unfolding dispatch_C_Encrypt_def dispatch_C_EncryptUpdate_def dispatch_C_Decrypt_def
    dispatch_C_DecryptUpdate_def dispatch_C_Digest_def dispatch_C_Sign_def
    dispatch_C_SignRecover_def dispatch_C_VerifyRecover_def dispatch_C_DigestEncryptUpdate_def
    dispatch_C_DecryptDigestUpdate_def dispatch_C_SignEncryptUpdate_def
    dispatch_C_DecryptVerifyUpdate_def
  by ((rule out_rules handler_rules | (erule crypt_array [OF assms], assumption+, simp))+)

lemma final_handlers:
  assumes "module_ok f"
  shows "handles ''ufy'' ''ay'' (dispatch_C_GetOperationState h f)"
  "handles ''ufy'' ''ay'' (dispatch_C_EncryptFinal h f)"
  "handles ''ufy'' ''ay'' (dispatch_C_DecryptFinal h f)"
  "handles ''ufy'' ''ay'' (dispatch_C_DigestFinal h f)"
  "handles ''ufy'' ''ay'' (dispatch_C_SignFinal h f)"
  unfolding dispatch_C_GetOperationState_def dispatch_C_EncryptFinal_def dispatch_C_DecryptFinal_def dispatch_C_DigestFinal_def dispatch_C_SignFinal_def
  by ((rule out_rules handler_rules | (erule final_array [OF assms], assumption+, simp))+)

lemma other_handlers:
  assumes "module_ok f"
  shows "handles ''yfu'' ''au'' (dispatch_C_GetSlotList h f)"
  "handles ''ufu'' ''au'' (dispatch_C_GetMechanismList h f)"
  "handles ''ufu'' ''au'' (dispatch_C_FindObjects h f)"
  "handles ''ufy'' ''ay'' (dispatch_C_GenerateRandom h f)"
  "handles '''' ''vsusv'' (dispatch_C_GetInfo h f)"
  "handles ''u'' ''ssuvv'' (dispatch_C_GetSlotInfo h f)"
  "handles ''u'' ''ssssuuuuuuuuuuuvvs'' (dispatch_C_GetTokenInfo h f)"
  "handles ''uufA'' ''aAu'' (dispatch_C_GetAttributeValue h f)"
  "handles ''uMuufy'' ''ay'' (dispatch_C_WrapKey h f)"
  unfolding dispatch_C_GetSlotList_def dispatch_C_GetMechanismList_def dispatch_C_FindObjects_def dispatch_C_GenerateRandom_def dispatch_C_GetInfo_def dispatch_C_GetSlotInfo_def dispatch_C_GetTokenInfo_def dispatch_C_GetAttributeValue_def dispatch_C_WrapKey_def
  by ((rule out_rules handler_rules | (erule slot_list_array [OF assms] mechanism_list_array [OF assms]
      find_objects_array [OF assms] wrap_key_array [OF assms] random_block [OF assms] attribute_template [OF assms]
      info_struct [OF assms] slot_struct [OF assms] token_struct [OF assms], assumption+))+)

end

lemma handles_Initialize: "handles ''ay'' [] dispatch_C_Initialize"
  unfolding handles_def
proof (intro allI impI)
  fix cs :: CallState and s :: 's
  assume at: "at_sig ''ay'' (req cs)" "at_sig [] (resp cs)"
  then have at': "at_sig (''ay'' @ []) (req cs)" by simp
  from in_byte_array at' obtain ret v cs1 where 1: "dispatch_proto_read_byte_array cs = Some (ret, v, cs1)"
    "same_input (req cs) (req cs1)" "resp cs1 = resp cs"
    "ret = CKR_OK \<longrightarrow> (\<exists>x. v = Some x \<and> case_prod block_ok x)
       \<and> sigverify (req cs1) = sigverify (advance (ascii ''ay'') (req cs))"
    unfolding in_step_def using at_sig_wf at_sig_expects by meson
  have id: "call_id (req cs1) = call_id (req cs)" "eb_wf (buffer (req cs1))" using 1(2) by (simp_all add: same_input_def)
  have fin: "handler_done cs r cs1" for r using id at(2) 1(3) at_sig_wf [OF at(2)] by (simp add: handler_done_def)
  show "\<exists>ret cs' s'. dispatch_C_Initialize (cs, s) = Some (ret, cs', s') \<and> handler_done cs ret cs'"
  proof (cases "ret = CKR_OK")
    case False
    with 1(1) fin show ?thesis by (simp add: dispatch_C_Initialize_def)
  next
    case True
    with 1(4) obtain b n where bn: "v = Some (b, n)" "block_ok b n"
      "sigverify (req cs1) = sigverify (advance (ascii ''ay'') (req cs))" by auto
    have ver: "gkm_rpc_message_is_verified (req cs1)"
      using at_sig_verified [OF same_input_at_sig [OF 1(2) at' bn(3)]] .
    have len: "7 \<le> length GKM_RPC_HANDSHAKE" by (simp add: GKM_RPC_HANDSHAKE_def ascii_def)
    show ?thesis
      using 1(1) True bn(1,2) ver fin len
      by (cases b) (auto simp: dispatch_C_Initialize_def GKM_RPC_HANDSHAKE_LEN_def block_ok_def mem_read_def)
  qed
qed

lemma close_slots_ends:
  "n \<le> length slots \<Longrightarrow> \<exists>r s'. close_slots (Some g) app slots n ret s = Some (r, s')"
proof (induction n arbitrary: slots ret s)
  case (Suc n)
  show ?case
  proof (cases slots)
    case (Cons slot rest)
    with Suc show ?thesis by (cases "g (slot OR app) s") auto
  qed (use Suc in simp)
qed auto

lemma close_slots_stops: "ret \<noteq> CKR_OK \<Longrightarrow> close_slots g app slots n ret s = Some (ret, s)"
  by (cases n) simp_all

lemma handles_Finalize:
  assumes "module_ok f"
  shows "handles [] [] (dispatch_C_Finalize junk h f)"
  unfolding handles_def
proof (intro allI impI)
  fix cs :: CallState and s
  assume at: "at_sig [] (req cs)" "at_sig [] (resp cs)"
  have fin: "handler_done cs r cs" for r using at at_sig_wf by (simp add: handler_done_def)
  from module_okD(1,2) [OF assms] obtain g c where gc: "C_GetSlotList f = Some g" "C_CloseAllSessions f = Some c" by auto
  obtain ret a n s1 where 1: "g 1 None 0 s = (ret, (a, n), s1)" by (metis surj_pair)
  let ?room = "Some (replicate (unat n) 0) :: CK_ULONG list option"
  obtain ret1 b n1 s2 where 2: "g 1 ?room n s1 = (ret1, (b, n1), s2)" by (metis surj_pair)
  have room: "block_ok ?room n" by (simp add: block_ok_def)
  have "gives_array (g 1)" using module_okD(3) [OF assms] gc(1) by simp
  with room 2 have b: "b \<noteq> None" "ret1 = CKR_OK \<Longrightarrow> array_ok b n1"
    unfolding gives_array_def by (blast, blast)
  then obtain list where list: "b = Some list" by blast
  have "\<exists>r s'. close_slots (Some c) (application cs) list (unat n1) ret1 s2 = Some (r, s')"
    using b(2) list close_slots_ends [of "unat n1" list c]
    by (cases "ret1 = CKR_OK") (auto simp: array_ok_def close_slots_stops)
  then show "\<exists>ret cs' s'. dispatch_C_Finalize junk h f (cs, s) = Some (ret, cs', s') \<and> handler_done cs ret cs'"
    using gc 1 2 list fin by (auto simp: dispatch_C_Finalize_def Let_def split: option.splits)
qed

subsection \<open>The dispatcher\<close>

text \<open>
  The handlers fit the table of calls, entry by entry; the exception is \<^verbatim>\<open>C_InitToken\<close>, whose reader of a
  string stores its NUL outside the block.
\<close>

definition serves :: "GkmRpcCall \<Rightarrow> nat \<times> 's handler \<Rightarrow> bool" where
  "serves c ih \<longleftrightarrow> fst ih = rpc_call_id c \<and> (fst ih = 9 \<or>
     (\<exists>p q. rpc_request c = sig p \<and> rpc_response c = sig q \<and> handles p q (snd ih)))"

lemma servesI: "handles p q H \<Longrightarrow> serves (rpc_call i name (sig p) (sig q)) (i, H)"
  by (auto simp: serves_def rpc_call_def)

lemma serves_init_token: "serves (rpc_call 9 name p q) (9, H)"
  by (simp add: serves_def rpc_call_def)

context egg_allocator
begin

lemma table_serves:
  assumes "module_ok f"
  shows "list_all2 serves (tl gkm_rpc_calls) (dispatch_table junk h f)"
  unfolding gkm_rpc_calls_def dispatch_table_def list.sel
  by ((rule list.rel_intros serves_init_token servesI handles_Initialize handles_Finalize [OF assms] plain_handlers
      crypt_handlers [OF assms] final_handlers [OF assms] other_handlers [OF assms])+)

text \<open>The error response: the identifier of an error and the code, and no signature.\<close>

lemma dispatch_error_ends:
  assumes "eb_wf (buffer (resp cs))"
  shows "\<exists>ok cs'. dispatch_error h ret cs = Some (ok, cs') \<and> req cs' = req cs \<and> eb_wf (buffer (resp cs'))
    \<and> (ok \<longrightarrow> call_id (resp cs') = int GKM_RPC_CALL_ERROR \<and> call_type (resp cs') = GKM_RPC_RESPONSE
         \<and> \<not> gkm_rpc_message_buffer_error (resp cs')
         \<and> eb_contents (buffer (resp cs'))
             = egg_buffer_encode_uint32 0 @ encode_uint64 (ucast (ucast ret :: 32 word)))"
proof -
  obtain b0 where b0: "egg_buffer_reset (buffer (resp cs)) = Some b0" "eb_wf b0" "eb_contents b0 = []"
    "eb_failures b0 = 0" using reset_buffer [OF assms] .
  obtain ok1 b1 where b1: "egg_buffer_add_uint32 h 0 b0 = Some (ok1, b1)" "added b0 ok1 b1 (egg_buffer_encode_uint32 0)"
    using emits_added [OF add_uint32_emits b0(2)] by metis
  then have wf1: "eb_wf b1" by (simp add: added_def)
  let ?e = "ucast (ucast ret :: 32 word) :: CK_ULONG"
  obtain ok2 b2 where b2: "egg_buffer_add_uint64 h ?e b1 = Some (ok2, b2)" "added b1 ok2 b2 (encode_uint64 ?e)"
    using emits_added [OF add_uint64_emits wf1] by metis
  let ?m = "(resp cs)\<lparr>call_id := 0, call_type := GKM_RPC_RESPONSE, signature := None, sigverify := None,
      parsed := 0, buffer := b1\<rparr>"
  have 1: "gkm_rpc_message_prep h (int GKM_RPC_CALL_ERROR) GKM_RPC_RESPONSE (resp cs)
      = Some (\<not> egg_buffer_has_error b1, ?m)"
    using b0(1) b1(1) by (simp add: gkm_rpc_message_prep_def gkm_rpc_message_reset_def GKM_RPC_CALL_ERROR_def
        GKM_RPC_CALL_MAX_def)
  have e: "expects (ascii ''u'') ?m" by (simp add: expects_def)
  have 2: "gkm_rpc_message_write_ulong h ?e ?m = Some (ok2, ?m\<lparr>buffer := b2\<rparr>)"
    using b2(1) by (simp add: gkm_rpc_message_write_ulong_def assert_part_expects [OF e] msg_add_def advance_def)
  from b1(2) b2(2) b0(3,4) have wf2: "eb_wf b2"
    "\<not> egg_buffer_has_error b1 \<Longrightarrow> ok2 \<Longrightarrow> \<not> egg_buffer_has_error b2
       \<and> eb_contents b2 = egg_buffer_encode_uint32 0 @ encode_uint64 ?e"
    by (auto simp: added_def egg_buffer_has_error_def)
  show ?thesis
    using 1 2 wf1 wf2 by (auto simp: dispatch_error_def GKM_RPC_CALL_ERROR_def gkm_rpc_message_buffer_error_def)
qed

end

lemma dispatch_table_handler:
  assumes "list_all2 serves (tl gkm_rpc_calls) tab" and "0 < i" and "i < GKM_RPC_CALL_MAX"
  obtains H where "map_of tab i = Some H" and "serves (gkm_rpc_calls ! i) (i, H)"
proof -
  have ids: "map fst tab = [1..<68]"
  proof -
    have "map fst tab = map rpc_call_id (tl gkm_rpc_calls)"
      using assms(1) by (induction rule: list_all2_induct) (simp_all add: serves_def)
    also have "\<dots> = [1..<68]" by code_simp
    finally show ?thesis .
  qed
  have len: "length tab = 67" using arg_cong [OF ids, of length] by simp
  have i: "i - 1 < length tab" using assms(2,3) len by (simp add: GKM_RPC_CALL_MAX_def)
  have fst: "fst (tab ! (i - 1)) = i"
    using arg_cong [OF ids, of "\<lambda>xs. xs ! (i - 1)"] i len assms(2) by simp
  have "serves (tl gkm_rpc_calls ! (i - 1)) (tab ! (i - 1))"
    using list_all2_nthD2 [OF assms(1) i] .
  then have "serves (gkm_rpc_calls ! i) (tab ! (i - 1))"
    using i len assms(2) list_all2_lengthD [OF assms(1)] by (simp add: nth_tl)
  moreover have "tab ! (i - 1) = (i, snd (tab ! (i - 1)))" using fst by (metis prod.collapse)
  moreover have "map_of tab i = Some (snd (tab ! (i - 1)))"
    using ids i calculation(2) by (metis distinct_upt map_of_is_SomeI nth_mem)
  ultimately show thesis using that by metis
qed

text \<open>
  A request as \<open>gkm_rpc_message_parse\<close> leaves it.
\<close>

definition parsed_request :: "nat \<Rightarrow> GkmRpcMessage \<Rightarrow> bool" where
  "parsed_request i m \<longleftrightarrow> eb_wf (buffer m) \<and> 0 < i \<and> i < GKM_RPC_CALL_MAX \<and> call_id m = int i
     \<and> signature m = rpc_request (gkm_rpc_calls ! i) \<and> sigverify m = rpc_request (gkm_rpc_calls ! i)"

definition answered :: "GkmRpcMessage \<Rightarrow> nat \<Rightarrow> bool" where
  "answered m i \<longleftrightarrow> eb_wf (buffer m) \<and> call_type m = GKM_RPC_RESPONSE \<and> \<not> gkm_rpc_message_buffer_error m
     \<and> eb_contents (buffer m) \<noteq> []
     \<and> (call_id m = int i \<and> signature m = rpc_response (gkm_rpc_calls ! i) \<and> gkm_rpc_message_is_verified m
        \<or> (\<exists>ret. ret \<noteq> CKR_OK \<and> call_id m = int GKM_RPC_CALL_ERROR
             \<and> eb_contents (buffer m) = egg_buffer_encode_uint32 0 @ encode_uint64 (ucast (ucast ret :: 32 word))))"

lemma dispatch_call_answers:
  assumes "egg_allocator h" and "module_ok f" and "parsed_request i (req cs)" and "i \<noteq> 9"
    and "eb_wf (buffer (resp cs))"
  shows "\<exists>ok cs' s'. dispatch_call junk h f (cs, s) = Some (ok, cs', s')
    \<and> eb_wf (buffer (req cs')) \<and> eb_wf (buffer (resp cs')) \<and> (ok \<longrightarrow> answered (resp cs') i)"
proof -
  have i: "0 < i" "i < GKM_RPC_CALL_MAX" "call_id (req cs) = int i" "eb_wf (buffer (req cs))"
    using assms(3) by (simp_all add: parsed_request_def)
  obtain H where H: "map_of (dispatch_table junk h f) i = Some H" "serves (gkm_rpc_calls ! i) (i, H)"
    using dispatch_table_handler [OF egg_allocator.table_serves [OF assms(1,2)] i(1,2)] .
  then obtain p q where pq: "rpc_request (gkm_rpc_calls ! i) = sig p" "rpc_response (gkm_rpc_calls ! i) = sig q"
    "handles p q H" using assms(4) by (auto simp: serves_def)
  then have rs: "call_signature i GKM_RPC_RESPONSE = Some (Some (ascii q))"
    by (simp add: call_signature_def sig_def)
  then have len: "length (ascii q) < 32" using call_signature_some [OF i(1,2), of GKM_RPC_RESPONSE] by force
  obtain ok m where m: "gkm_rpc_message_prep h (int i) GKM_RPC_RESPONSE (resp cs) = Some (ok, m)"
    "eb_wf (buffer m)" "call_id m = int i" "call_type m = GKM_RPC_RESPONSE" "signature m = Some (ascii q)"
    "sigverify m = Some (ascii q)"
    "ok \<longrightarrow> eb_contents (buffer m) = eb_contents (emptied (buffer (resp cs)))
       @ egg_buffer_encode_uint32 (word_of_nat i) @ encode_byte_array (Some (ascii q))"
    using egg_allocator.prep_contents [OF assms(1,5) i(1,2) rs len] unfolding added_def by metis
  let ?cs1 = "cs\<lparr>resp := m\<rparr>"
  have "at_sig p (req ?cs1)" "at_sig q (resp ?cs1)"
    using assms(3) pq(1) m by (simp_all add: at_sig_def parsed_request_def sig_def)
  with pq(3) obtain ret cs2 s1 where 2: "H (?cs1, s) = Some (ret, cs2, s1)" "handler_done ?cs1 ret cs2"
    unfolding handles_def by blast
  let ?ret = "if ret = CKR_OK \<and> gkm_rpc_message_buffer_error (resp cs2) then PREP_ERROR
    else if ret = CKR_OK \<and> gkm_rpc_message_buffer_error (req cs2) then PARSE_ERROR else ret"
  have wf2: "eb_wf (buffer (req cs2))" "eb_wf (buffer (resp cs2))" using 2(2) by (simp_all add: handler_done_def)
  obtain ok3 cs3 where 3: "dispatch_error h ?ret cs2 = Some (ok3, cs3)" "req cs3 = req cs2"
    "eb_wf (buffer (resp cs3))"
    "ok3 \<longrightarrow> call_id (resp cs3) = int GKM_RPC_CALL_ERROR \<and> call_type (resp cs3) = GKM_RPC_RESPONSE
         \<and> \<not> gkm_rpc_message_buffer_error (resp cs3)
         \<and> eb_contents (buffer (resp cs3)) = egg_buffer_encode_uint32 0 @ encode_uint64 (ucast (ucast ?ret :: 32 word))"
    using egg_allocator.dispatch_error_ends [OF assms(1) wf2(2), of ?ret] by blast
  have err: "answered (resp cs3) i" if "ok3" "?ret \<noteq> CKR_OK"
  proof -
    have "eb_contents (buffer (resp cs3)) \<noteq> []" using 3(4) that(1) by (simp add: egg_buffer_encode_uint32_def)
    then show ?thesis unfolding answered_def using 3 that by blast
  qed
  have nat: "\<not> \<not> int i > int GKM_RPC_CALL_ERROR" "\<not> \<not> int i < int GKM_RPC_CALL_MAX" "nat (int i) = i"
    using i by (simp_all add: GKM_RPC_CALL_ERROR_def)
  show ?thesis
  proof (cases "ok")
    case False
    with m i nat show ?thesis by (auto simp: dispatch_call_def)
  next
    case ok: True
    show ?thesis
    proof (cases "?ret = CKR_OK")
      case True
      then have r: "ret = CKR_OK" "\<not> gkm_rpc_message_buffer_error (req cs2)" "\<not> gkm_rpc_message_buffer_error (resp cs2)"
        by (auto split: if_splits)
      with 2(2) m have a: "at_sig [] (resp cs2)" "call_id (resp cs2) = int i" "call_type (resp cs2) = GKM_RPC_RESPONSE"
        "signature (resp cs2) = Some (ascii q)" "call_id (req cs2) = int i"
        "eb_contents (buffer (resp cs2)) \<noteq> []"
        using i(3) ok by (auto simp: handler_done_def egg_buffer_encode_uint32_def)
      have "answered (resp cs2) i"
        using a pq(2) r wf2 at_sig_verified by (simp add: answered_def sig_def)
      moreover have "dispatch_call junk h f (cs, s) = Some (True, cs2, s1)"
        using m(1) i(3) nat ok H(1) 2(1) r a pq(2) at_sig_verified [OF a(1)]
        by (simp add: dispatch_call_def sig_def Let_def)
      ultimately show ?thesis using wf2 by blast
    next
      case False
      have "dispatch_call junk h f (cs, s) = Some (ok3, cs3, s1)"
        using m(1) i(3) nat ok H(1) 2(1) 3(1) False
        by (simp add: dispatch_call_def Let_def split: if_splits)
      with 3(2,3) wf2 err [OF _ False] show ?thesis by auto
    qed
  qed
qed

subsection \<open>A round of the loop\<close>

text \<open>
  What the loop relies on of the socket: \<^verbatim>\<open>read\<close> gives at most what was asked for and \<^verbatim>\<open>write\<close> takes at most
  what it was given; and they do not tell the daemon to try again for ever, by a measure of the
  outside world that falls with each such answer.
\<close>

definition socket_ok :: "('w \<Rightarrow> nat) \<Rightarrow> 'w SOCKET \<Rightarrow> bool" where
  "socket_ok \<mu> io \<longleftrightarrow>
     (\<forall>n w bs w'. sock_read io n w = (Inr bs, w') \<longrightarrow> length bs \<le> n \<and> \<mu> w' \<le> \<mu> w)
   \<and> (\<forall>n w e w'. sock_read io n w = (Inl e, w') \<longrightarrow> e = SOCK_EAGAIN \<or> e = SOCK_EINTR \<longrightarrow> \<mu> w' < \<mu> w)
   \<and> (\<forall>d w r w'. d \<noteq> [] \<longrightarrow> sock_write io d w = (Inr r, w') \<longrightarrow>
        r \<le> length d \<and> \<mu> w' \<le> \<mu> w \<and> (r = 0 \<longrightarrow> \<mu> w' < \<mu> w))
   \<and> (\<forall>d w e w'. sock_write io d w = (Inl e, w') \<longrightarrow> e = SOCK_EAGAIN \<or> e = SOCK_EINTR \<longrightarrow> \<mu> w' < \<mu> w)"

lemma read_loop_returns:
  assumes "socket_ok \<mu> io"
  shows "\<exists>ok bs w'. read_loop io n got w = Some (ok, got @ bs, w') \<and> length bs \<le> n \<and> (ok \<longrightarrow> length bs = n)"
proof (induction "\<mu> w + n" arbitrary: n got w rule: less_induct)
  case less
  show ?case
  proof (cases "n > 0")
    case False
    then show ?thesis by (subst read_loop.simps) auto
  next
    case n: True
    obtain r w1 where r: "sock_read io n w = (r, w1)" by fastforce
    show ?thesis
    proof (cases r)
      case (Inl e)
      show ?thesis
      proof (cases "e = SOCK_EAGAIN \<or> e = SOCK_EINTR")
        case True
        with r Inl assms have "\<mu> w1 < \<mu> w" unfolding socket_ok_def by blast
        with less [of w1 n got] obtain ok bs w' where
          "read_loop io n got w1 = Some (ok, got @ bs, w')" "length bs \<le> n" "ok \<longrightarrow> length bs = n" by auto
        with n r Inl True show ?thesis by (subst read_loop.simps) auto
      next
        case False
        with n r Inl show ?thesis by (subst read_loop.simps) auto
      qed
    next
      case (Inr bs)
      have b: "length bs \<le> n" "\<mu> w1 \<le> \<mu> w" using assms r Inr unfolding socket_ok_def by blast+
      show ?thesis
      proof (cases "bs = []")
        case True
        with n r Inr show ?thesis by (subst read_loop.simps) auto
      next
        case False
        then have "\<mu> w1 + (n - length bs) < \<mu> w + n" using b by (cases bs) auto
        from less [OF this, of "got @ bs"] obtain ok bs' w' where
          "read_loop io (n - length bs) (got @ bs) w1 = Some (ok, (got @ bs) @ bs', w')"
          "length bs' \<le> n - length bs" "ok \<longrightarrow> length bs' = n - length bs" by blast
        with n r Inr False b show ?thesis
          by (subst read_loop.simps) (auto intro!: exI [of _ "bs @ bs'"])
      qed
    qed
  qed
qed

lemma read_all_returns:
  assumes "socket_ok \<mu> io" and "0 < n"
  obtains ok bs w' where "read_all io n w = Some (ok, bs, w')" and "length bs \<le> n" and "ok \<Longrightarrow> length bs = n"
  using read_loop_returns [OF assms(1), of n "[]" w] assms(2) unfolding read_all_def by fastforce

lemma write_out_returns:
  assumes "socket_ok \<mu> io"
  shows "\<exists>ok w'. write_out io data w = Some (ok, w')"
proof (induction "\<mu> w + length data" arbitrary: data w rule: less_induct)
  case less
  show ?case
  proof (cases "data = []")
    case True
    then show ?thesis by (subst write_out.simps) auto
  next
    case d: False
    obtain r w1 where r: "sock_write io data w = (r, w1)" by fastforce
    show ?thesis
    proof (cases r)
      case (Inl e)
      show ?thesis
      proof (cases "e = SOCK_EAGAIN \<or> e = SOCK_EINTR")
        case True
        with r Inl assms have "\<mu> w1 < \<mu> w" unfolding socket_ok_def by blast
        with less [of w1 data] d r Inl True show ?thesis by (subst write_out.simps) auto
      next
        case False
        with d r Inl show ?thesis by (subst write_out.simps) auto
      qed
    next
      case (Inr k)
      have k: "k \<le> length data" "\<mu> w1 \<le> \<mu> w" "k = 0 \<longrightarrow> \<mu> w1 < \<mu> w"
        using assms r Inr d unfolding socket_ok_def by blast+
      then have "\<mu> w1 + length (drop k data) < \<mu> w + length data" using d by (cases "k = 0") auto
      from less [OF this] d r Inr k(1) show ?thesis by (subst write_out.simps) auto
    qed
  qed
qed

text \<open>The state between two rounds; the buffers keep their allocator, so the end of the loop can free them.\<close>

definition serving_ok :: "CallState \<Rightarrow> bool" where
  "serving_ok cs \<longleftrightarrow> eb_wf (buffer (req cs)) \<and> eb_wf (buffer (resp cs))"

lemma call_reset_ok:
  assumes "serving_ok cs"
  obtains cs1 where "call_reset cs = Some cs1" and "eb_wf (buffer (req cs1))" and "eb_wf (buffer (resp cs1))"
    and "eb_contents (buffer (req cs1)) = []" and "eb_failures (buffer (req cs1)) = 0"
proof -
  from assms have wf: "eb_wf (buffer (req cs))" "eb_wf (buffer (resp cs))" by (simp_all add: serving_ok_def)
  obtain b1 where b1: "egg_buffer_reset (buffer (req cs)) = Some b1" "eb_wf b1" "eb_contents b1 = []" "eb_failures b1 = 0"
    using reset_buffer [OF wf(1)] .
  obtain b2 where b2: "egg_buffer_reset (buffer (resp cs)) = Some b2" "eb_wf b2"
    using reset_buffer [OF wf(2)] by metis
  let ?m = "\<lambda>m b. m\<lparr>call_id := 0, call_type := GKM_RPC_NONE, signature := None, sigverify := None, parsed := 0, buffer := b\<rparr>"
  have "call_reset cs = Some (cs\<lparr>allocated := [], req := ?m (req cs) b1, resp := ?m (resp cs) b2\<rparr>)"
    using b1 b2 by (simp add: call_reset_def gkm_rpc_message_reset_def)
  with b1 b2 show thesis
    by (intro that [of "cs\<lparr>allocated := [], req := ?m (req cs) b1, resp := ?m (resp cs) b2\<rparr>"]) simp_all
qed

lemma parse_request_cases:
  assumes "eb_wf (buffer r)"
  obtains ok r' where "gkm_rpc_message_parse GKM_RPC_REQUEST r = Some (ok, r')" and "eb_wf (buffer r')"
    and "ok \<Longrightarrow> parsed_request (nat (call_id r')) r'"
proof -
  have "eb_wf (buffer (r\<lparr>parsed := 0\<rparr>))" using assms(1) by simp
  from safe_msg_get [OF get_uint32_safe this] obtain v m where v:
    "msg_get egg_buffer_get_uint32 (r\<lparr>parsed := 0\<rparr>) = Some (v, m)" "same_input (r\<lparr>parsed := 0\<rparr>) m" .
  then have m: "eb_wf (buffer m)" by (auto simp: same_input_def)
  have "\<exists>ok r'. gkm_rpc_message_parse GKM_RPC_REQUEST r = Some (ok, r') \<and> eb_wf (buffer r')
      \<and> (ok \<longrightarrow> parsed_request (nat (call_id r')) r')"
  proof (cases "\<exists>cid. v = Some cid \<and> 0 < unat cid \<and> unat cid < GKM_RPC_CALL_MAX")
    case False
    with v m show ?thesis
      by (cases v) (auto simp: gkm_rpc_message_parse_def Let_def GKM_RPC_CALL_ERROR_def
          word_le_nat_alt unat_eq_zero)
  next
    case True
    then obtain cid where cid: "v = Some cid" "0 < unat cid" "unat cid < GKM_RPC_CALL_MAX" by blast
    then have nz: "\<not> cid \<le> 0" by (auto simp: word_le_nat_alt)
    obtain sg where sg: "call_signature (unat cid) GKM_RPC_REQUEST = Some (Some sg)"
      using call_signature_some [OF cid(2,3), of GKM_RPC_REQUEST] by force
    obtain i where i: "i = unat cid" by blast
    let ?m2 = "m\<lparr>signature := Some sg, call_id := int (unat cid), call_type := GKM_RPC_REQUEST, sigverify := Some sg\<rparr>"
    have "eb_wf (buffer ?m2)" using m by simp
    from safe_msg_get [OF get_byte_array_safe this] obtain r2 m3 where r2:
      "msg_get egg_buffer_get_byte_array ?m2 = Some (r2, m3)" "same_input ?m2 m3"
      "sigverify m3 = sigverify ?m2" .
    obtain ok where "gkm_rpc_message_parse GKM_RPC_REQUEST r = Some (ok, m3)"
      using v cid nz sg r2(1)
      by (cases r2) (simp_all add: gkm_rpc_message_parse_def Let_def GKM_RPC_CALL_ERROR_def)
    moreover have "parsed_request i m3" "nat (call_id m3) = i"
      using cid(2,3) sg r2(2,3) by (simp_all add: same_input_def parsed_request_def call_signature_def flip: i)
    ultimately show ?thesis using r2(2) by (auto simp: same_input_def)
  qed
  then show thesis using that by blast
qed

lemma request_room:
  assumes "egg_allocator h" and "eb_wf b" and "eb_contents b = []" and "n < 2 ^ 32" and "length data \<le> n"
    and "egg_buffer_reserve h (size_add (eb_len b) n) b = (ok, b1)" and "\<not> egg_buffer_has_error b1"
  obtains b2 where "eb_store 0 data b1 = Some b2" and "eb_wf b2" and "eb_wf (snd (egg_buffer_add_empty h n b2))"
proof -
  have len: "eb_len b = 0" using assms(2,3) by (metis length_eb_contents list.size(3))
  then have sz: "size_add (eb_len b) n = n" using assms(4) by (simp add: size_add_def)
  have "(n :: nat) < 2 ^ 63" using assms(4) by simp
  note keeps = egg_allocator.reserve_keeps [OF assms(1,2) this assms(6) [unfolded sz]]
  have ok: "ok" using keeps assms(7) by (auto simp: egg_buffer_has_error_def eb_fail_def)
  with keeps obtain m where b1: "eb_wf b1" "eb_len b1 = 0" "n \<le> eb_allocated_len b1" "eb_buf b1 = Some m" using len by auto
  then have m: "length m = eb_allocated_len b1" by (simp add: eb_wf_def)
  define b2 where "b2 = b1\<lparr>eb_buf := Some (data @ drop (length data) m)\<rparr>"
  have st: "eb_store 0 data b1 = Some b2"
    using b1 m assms(5) by (simp add: eb_store_def mem_write_def b2_def)
  have wf2: "eb_wf b2" "eb_len b2 = 0" using b1 m assms(5) by (auto simp: eb_wf_def b2_def)
  obtain ok3 b3 where 3: "egg_buffer_reserve h n b2 = (ok3, b3)" by fastforce
  have "(n :: nat) < 2 ^ 63" using assms(4) by simp
  note k3 = egg_allocator.reserve_keeps [OF assms(1) wf2(1) this 3]
  have sz2: "size_add (eb_len b2) n = n" using wf2(2) assms(4) by (simp add: size_add_def)
  have "eb_wf (snd (egg_buffer_add_empty h n b2))"
    using k3 3 wf2 sz2 by (cases ok3) (auto simp: egg_buffer_add_empty_def eb_wf_def eb_fail_def)
  with st wf2(1) show thesis by (rule that)
qed

lemma receive_request_returns:
  assumes "egg_allocator h" and "socket_ok \<mu> io" and "eb_wf (buffer (req cs))" and "eb_wf (buffer (resp cs))"
    and "eb_contents (buffer (req cs)) = []" and "\<nexists>w1. read_all io 4 w = Some (True, [0, 0, 0, 0], w1)"
  shows "\<exists>ok cs' w'. receive_request h io cs w = Some (ok, cs', w') \<and> serving_ok cs'
    \<and> (ok \<longrightarrow> parsed_request (nat (call_id (req cs'))) (req cs'))"
proof -
  obtain ok buf w1 where 1: "read_all io 4 w = Some (ok, buf, w1)" "ok \<Longrightarrow> length buf = 4"
    using read_all_returns [OF assms(2), where n = 4 and w = w] by (metis zero_less_numeral)
  let ?n = "unat (egg_buffer_decode_uint32 buf)"
  show ?thesis
  proof (cases "ok \<and> ?n < 0x0FFFFFFF")
    case False
    with 1 assms(3,4) show ?thesis by (auto simp: receive_request_def serving_ok_def Let_def)
  next
    case go: True
    have n0: "0 < ?n"
    proof (rule ccontr)
      assume "\<not> 0 < ?n"
      then have "egg_buffer_decode_uint32 buf = 0" by (simp add: unat_eq_zero)
      moreover have "length buf = Suc (Suc (Suc (Suc 0)))" using 1(2) go by simp
      then obtain a b c d where buf: "buf = [a, b, c, d]" by (auto simp only: length_Suc_conv length_0_conv)
      ultimately have "buf = [0, 0, 0, 0]"
        using encode_decode_uint32 [of a b c d] by (simp add: egg_buffer_encode_uint32_def)
      with 1(1) go assms(6) show False by auto
    qed
    obtain ok1 b1 where r: "egg_buffer_reserve h (size_add (eb_len (buffer (req cs))) ?n) (buffer (req cs)) = (ok1, b1)"
      by fastforce
    have "eb_len (buffer (req cs)) = 0" using assms(3,5) by (metis length_eb_contents list.size(3))
    then have "size_add (eb_len (buffer (req cs))) ?n < 2 ^ 63" using go by (simp add: size_add_def)
    then have wf1: "eb_wf b1" using egg_allocator.reserve_keeps [OF assms(1,3) _ r] by blast
    show ?thesis
    proof (cases "egg_buffer_has_error b1")
      case True
      with 1 go r wf1 assms(4) show ?thesis by (auto simp: receive_request_def serving_ok_def Let_def)
    next
      case False
      obtain ok2 data w2 where 2: "read_all io ?n w1 = Some (ok2, data, w2)" "length data \<le> ?n"
        using read_all_returns [OF assms(2) n0, of w1] by metis
      have "?n < 2 ^ 32" using go by simp
      from request_room [OF assms(1,3,5) this 2(2) r False] obtain b2 where b2: "eb_store 0 data b1 = Some b2"
        "eb_wf b2" "eb_wf (snd (egg_buffer_add_empty h ?n b2))" .
      obtain off b3 where b3: "egg_buffer_add_empty h ?n b2 = (off, b3)" by fastforce
      let ?m = "(req cs)\<lparr>buffer := b3\<rparr>"
      have "eb_wf (buffer ?m)" using b2(3) b3 by simp
      then obtain ok3 m where 3: "gkm_rpc_message_parse GKM_RPC_REQUEST ?m = Some (ok3, m)" "eb_wf (buffer m)"
        "ok3 \<Longrightarrow> parsed_request (nat (call_id m)) m" using parse_request_cases by metis
      show ?thesis
        using 1(1) go r False 2(1) b2(1,2) b3 3 assms(4)
        by (cases ok2) (auto simp: receive_request_def Let_def serving_ok_def)
    qed
  qed
qed

lemma send_response_returns:
  assumes "socket_ok \<mu> io" and "eb_wf (buffer (resp cs))" and "eb_contents (buffer (resp cs)) \<noteq> []"
  shows "\<exists>ok w'. send_response io cs w = Some (ok, w')"
proof -
  let ?b = "buffer (resp cs)"
  have load: "eb_load 0 (eb_len ?b) ?b = Some (eb_contents ?b)"
    using assms(2) by (auto simp: eb_load_def eb_wf_def eb_contents_def mem_read_def split: option.splits)
  have ne: "egg_buffer_encode_uint32 v \<noteq> []" for v by (simp add: egg_buffer_encode_uint32_def)
  obtain ok w1 where 1: "write_out io (egg_buffer_encode_uint32 (word_of_nat (eb_len ?b))) w = Some (ok, w1)"
    using write_out_returns [OF assms(1)] by blast
  obtain ok' w2 where 2: "write_out io (eb_contents ?b) w1 = Some (ok', w2)"
    using write_out_returns [OF assms(1)] by blast
  from 1 2 load assms(3) ne show ?thesis by (cases ok) (auto simp: send_response_def write_all_def)
qed

lemma dispatch_round_cases:
  assumes "egg_allocator h" and "module_ok f" and "socket_ok \<mu> io" and "serving_ok cs"
    and "\<nexists>w1. read_all io 4 w = Some (True, [0, 0, 0, 0], w1)"
    and "\<And>cs1 cs2 w1. call_reset cs = Some cs1 \<Longrightarrow> receive_request h io cs1 w = Some (True, cs2, w1) \<Longrightarrow>
           call_id (req cs2) \<noteq> 9"
  shows "\<exists>go cs' s' w'. dispatch_round junk h f io (cs, s, w) = Some (go, cs', s', w') \<and> serving_ok cs'"
proof -
  obtain cs1 where cs1: "call_reset cs = Some cs1" "eb_wf (buffer (req cs1))" "eb_wf (buffer (resp cs1))"
    "eb_contents (buffer (req cs1)) = []" using call_reset_ok [OF assms(4)] by metis
  obtain ok cs2 w1 where 2: "receive_request h io cs1 w = Some (ok, cs2, w1)" "serving_ok cs2"
    "ok \<longrightarrow> parsed_request (nat (call_id (req cs2))) (req cs2)"
    using receive_request_returns [OF assms(1,3) cs1(2-4) assms(5)] by blast
  show ?thesis
  proof (cases ok)
    case False
    with cs1(1) 2 show ?thesis by (auto simp: dispatch_round_def)
  next
    case ok: True
    let ?i = "nat (call_id (req cs2))"
    have p: "parsed_request ?i (req cs2)" using 2(3) ok by simp
    have "?i \<noteq> 9"
    proof
      assume "?i = 9"
      then have "call_id (req cs2) = 9" by simp
      with assms(6) [OF cs1(1), of cs2 w1] 2(1) ok show False by simp
    qed
    moreover have "eb_wf (buffer (resp cs2))" using 2(2) by (simp add: serving_ok_def)
    ultimately obtain ok3 cs3 s3 where 3: "dispatch_call junk h f (cs2, s) = Some (ok3, cs3, s3)"
      "serving_ok cs3" "ok3 \<longrightarrow> answered (resp cs3) ?i"
      using dispatch_call_answers [OF assms(1,2) p, of junk s] unfolding serving_ok_def by blast
    show ?thesis
    proof (cases ok3)
      case False
      with cs1(1) 2(1) ok 3 show ?thesis by (auto simp: dispatch_round_def)
    next
      case True
      with 3(3) obtain ok4 w4 where "send_response io cs3 w1 = Some (ok4, w4)"
        using send_response_returns [OF assms(3), of cs3 w1] by (auto simp: answered_def)
      with cs1(1) 2(1) ok 3 True show ?thesis by (simp add: dispatch_round_def)
    qed
  qed
qed

text \<open>A module and a socket for concrete instances: the world is the bytes the client has still to send.\<close>

definition sample_info :: CK_INFO where
  "sample_info = \<lparr>info_cryptokiVersion = \<lparr>major = 2, minor = 20\<rparr>, info_manufacturerID = replicate 32 32,
     info_flags = 0, info_libraryDescription = replicate 32 32, info_libraryVersion = \<lparr>major = 1, minor = 1\<rparr>\<rparr>"

definition sample_module :: "nat CK_FUNCTION_LIST" where
  "sample_module = \<lparr>
     C_GetInfo = Some (\<lambda>s. (CKR_OK, sample_info, s)),
     C_GetSlotList = Some (\<lambda>present slots n s. (CKR_OK, (slots, 0), s)), C_GetSlotInfo = None,
     C_GetTokenInfo = None, C_GetMechanismList = None, C_GetMechanismInfo = None, C_InitToken = None,
     C_WaitForSlotEvent = None, C_OpenSession = None, C_CloseSession = None,
     C_CloseAllSessions = Some (\<lambda>slot s. (CKR_OK, (), s + 1)), C_GetFunctionStatus = None,
     C_CancelFunction = None, C_GetSessionInfo = None, C_InitPIN = None, C_SetPIN = None,
     C_GetOperationState = None, C_SetOperationState = None, C_Login = None,
     C_Logout = Some (\<lambda>session s. (if s = 0 then CKR_GENERAL_ERROR else CKR_OK, (), s)),
     C_CreateObject = None, C_CopyObject = None, C_DestroyObject = None, C_GetObjectSize = None,
     C_GetAttributeValue = None, C_SetAttributeValue = None, C_FindObjectsInit = None,
     C_FindObjects = None, C_FindObjectsFinal = None, C_EncryptInit = None, C_Encrypt = None,
     C_EncryptUpdate = None, C_EncryptFinal = None, C_DecryptInit = None, C_Decrypt = None,
     C_DecryptUpdate = None, C_DecryptFinal = None, C_DigestInit = None, C_Digest = None,
     C_DigestUpdate = None, C_DigestKey = None, C_DigestFinal = None, C_SignInit = None, C_Sign = None,
     C_SignUpdate = None, C_SignFinal = None, C_SignRecoverInit = None, C_SignRecover = None,
     C_VerifyInit = None, C_Verify = None, C_VerifyUpdate = None, C_VerifyFinal = None,
     C_VerifyRecoverInit = None, C_VerifyRecover = None, C_DigestEncryptUpdate = None,
     C_DecryptDigestUpdate = None, C_SignEncryptUpdate = None, C_DecryptVerifyUpdate = None,
     C_GenerateKey = None, C_GenerateKeyPair = None, C_WrapKey = None, C_UnwrapKey = None,
     C_DeriveKey = None, C_SeedRandom = None, C_GenerateRandom = None\<rparr>"

lemma sample_module_ok: "module_ok sample_module"
  by (simp add: module_ok_def sample_module_def gives_array_def gives_def sample_info_def info_wf_def array_ok_def
      split: option.splits)

definition sample_socket :: "bytes SOCKET" where
  "sample_socket = \<lparr>sock_read = (\<lambda>n w. (Inr (take n w), drop n w)), sock_write = (\<lambda>d w. (Inr (length d), w)),
     sock_credentials = (\<lambda>w. w)\<rparr>"

lemma sample_socket_ok: "socket_ok (\<lambda>_. 0) sample_socket"
  by (simp add: socket_ok_def sample_socket_def)

lemma sample_read:
  "0 < n \<Longrightarrow> n \<le> length w \<Longrightarrow> read_all sample_socket n w = Some (True, take n w, drop n w)"
  unfolding read_all_def
  by (subst read_loop.simps, subst read_loop.simps) (auto simp: sample_socket_def)

lemma sample_request_signature: "call_signature 3 GKM_RPC_REQUEST = Some (Some [])"
  by code_simp

lemma sample_reset: "call_reset sample_cs = Some sample_cs"
  by (simp add: call_reset_def gkm_rpc_message_reset_def rpc_eval egg_buffer_reset_def)

lemma sample_receive:
  "\<exists>cs2. receive_request libc_realloc sample_socket sample_cs [0, 0, 0, 8, 0, 0, 0, 3, 0, 0, 0, 0]
     = Some (True, cs2, []) \<and> call_id (req cs2) = 3"
  by (simp add: receive_request_def sample_read gkm_rpc_message_parse_def sample_request_signature msg_get_def
      egg_buffer_get_byte_array_def egg_buffer_get_uint32_def egg_buffer_decode_uint32_def
      egg_buffer_add_empty_def GKM_RPC_CALL_ERROR_def GKM_RPC_CALL_MAX_def rpc_eval)



text \<open>C6: One round of serving a connection ends, with usable buffers for the next round, whatever the client
  sends and however its bytes are cut into reads, with two exceptions only: a message of length
  zero and a request for \<^verbatim>\<open>C_InitToken\<close>.\<close>

theorem dispatch_round_safe:
  assumes "egg_allocator h" and "module_ok f" and "socket_ok \<mu> io" and "serving_ok cs"
    and "call_reset cs = Some cs1"
  shows "(\<exists>go cs' s' w'. dispatch_round junk h f io (cs, s, w) = Some (go, cs', s', w') \<and> serving_ok cs')
    \<or> (\<exists>w1. read_all io 4 w = Some (True, [0, 0, 0, 0], w1))
    \<or> (\<exists>cs2 w1. receive_request h io cs1 w = Some (True, cs2, w1) \<and> call_id (req cs2) = 9)"
proof (rule ccontr)
  assume no: "\<not> ?thesis"
  have "call_id (req cs2) \<noteq> 9" if "call_reset cs = Some c" "receive_request h io c w = Some (True, cs2, w1)" for c cs2 w1
    using no that assms(5) by auto
  with no dispatch_round_cases [OF assms(1-4), of w junk s] show False by blast
qed

theorem dispatch_round_safe_witness:
  "\<exists>go cs' s' w'. dispatch_round 0 libc_realloc sample_module sample_socket
       (sample_cs, 7, [0, 0, 0, 8, 0, 0, 0, 3, 0, 0, 0, 0]) = Some (go, cs', s', w') \<and> serving_ok cs'"
proof -
  let ?w = "[0, 0, 0, 8, 0, 0, 0, 3, 0, 0, 0, 0] :: bytes"
  have ok: "serving_ok sample_cs" using sample_msg_wf by (simp add: serving_ok_def sample_cs_def)
  have "read_all sample_socket 4 ?w \<noteq> Some (True, [0, 0, 0, 0], w1)" for w1 by (simp add: sample_read)
  moreover have "call_id (req cs2) \<noteq> 9"
    if "receive_request libc_realloc sample_socket sample_cs ?w = Some (True, cs2, w1)" for cs2 w1
    using sample_receive that by auto
  ultimately show ?thesis
    using dispatch_round_safe [OF egg_allocator_libc sample_module_ok sample_socket_ok ok sample_reset, of 0 7 ?w]
    by blast
qed

text \<open>C30: A client can stop the daemon with four bytes: on a message of length zero the assertion \<^verbatim>\<open>len > 0\<close> in
  \<open>read_all\<close> fails, in the round of that client's thread, whatever the module and the state.\<close>

theorem dispatch_empty_message_aborts:
  assumes "serving_ok cs" and "0 < eb_allocated_len (buffer (req cs))"
    and "read_all io 4 w = Some (True, [0, 0, 0, 0], w1)"
  shows "dispatch_round junk h f io (cs, s, w) = None"
proof -
  from assms(1) have wf: "eb_wf (buffer (req cs))" by (simp add: serving_ok_def)
  obtain cs1 where cs1: "call_reset cs = Some cs1" "eb_wf (buffer (req cs1))" "eb_contents (buffer (req cs1)) = []"
    "eb_failures (buffer (req cs1)) = 0" using call_reset_ok [OF assms(1)] by metis
  have alloc: "0 < eb_allocated_len (buffer (req cs1))"
    using cs1(1) assms(2) wf
    by (auto simp: call_reset_def gkm_rpc_message_reset_def egg_buffer_reset_def eb_store_def split: Option.bind_splits option.splits)
  have len: "eb_len (buffer (req cs1)) = 0" using cs1(2,3) by (metis length_eb_contents list.size(3))
  have "receive_request h io cs1 w = None"
    using assms(3) alloc len cs1(4)
    by (simp add: receive_request_def egg_buffer_decode_uint32_def egg_buffer_reserve_def size_add_def
        egg_buffer_has_error_def read_all_def Let_def)
  with cs1(1) show ?thesis by (simp add: dispatch_round_def)
qed

theorem dispatch_empty_message_aborts_witness:
  "dispatch_round 0 libc_realloc sample_module sample_socket (sample_cs, 7, [0, 0, 0, 0]) = None"
proof -
  have "serving_ok sample_cs" "0 < eb_allocated_len (buffer (req sample_cs))"
    using sample_msg_wf by (simp_all add: serving_ok_def sample_cs_def sample_msg_def eb_eval)
  moreover have "read_all sample_socket 4 [0, 0, 0, 0] = Some (True, [0, 0, 0, 0], [])" by (simp add: sample_read)
  ultimately show ?thesis by (rule dispatch_empty_message_aborts)
qed

text \<open>The handshake of a connecting module: \<^verbatim>\<open>C_Initialize\<close> succeeds exactly if the byte array in the
  request is the seven characters \<open>PRIVATE\<close>, since the length compared is that of a pointer less
  one. The version at the end of the handshake string is never looked at, and the full string is
  refused.\<close>

lemma dispatch_handshake:
  assumes "at_sig ''ay'' (req cs)" and "at_bytes (encode_arg_array (Some v) (word_of_nat (length v))) (req cs)"
    and "length v < 0x7fffffff"
  shows "\<exists>cs'. dispatch_C_Initialize (cs, s)
    = Some (if v = ascii ''PRIVATE'' then CKR_OK else CKR_GENERAL_ERROR, cs', s)"
proof -
  have e: "expects (ascii ''ay'') (req cs)" using at_sig_expects [of "''ay''" "[]"] assms(1) by simp
  let ?cs = "cs\<lparr>req := (advance (ascii ''ay'') (req cs))\<lparr>parsed := parsed (req cs) + 5 + length v\<rparr>\<rparr>"
  from dispatch_read_byte_array [OF e assms(3), of "[]"] assms(2)
  have r: "dispatch_proto_read_byte_array cs = Some (CKR_OK, Some (Some v, word_of_nat (length v)), ?cs)" by simp
  have ver: "gkm_rpc_message_is_verified (req ?cs)"
    using assms(1) by (auto simp: at_sig_def advance_def gkm_rpc_message_is_verified_def ascii_def)
  have n: "unat (word_of_nat (length v) :: CK_ULONG) = length v"
    using assms(3) by (intro unat_of_nat_small) simp
  have seven: "take 7 GKM_RPC_HANDSHAKE = ascii ''PRIVATE''" "7 \<le> length GKM_RPC_HANDSHAKE"
    "length (ascii ''PRIVATE'') = 7" by (simp_all add: GKM_RPC_HANDSHAKE_def ascii_def)
  show ?thesis
  proof (cases "length v = 7")
    case True
    with r ver n seven show ?thesis
      by (auto simp: dispatch_C_Initialize_def GKM_RPC_HANDSHAKE_LEN_def mem_read_def)
  next
    case False
    then have "v \<noteq> ascii ''PRIVATE''" using seven(3) by metis
    with False r ver n show ?thesis by (auto simp: dispatch_C_Initialize_def GKM_RPC_HANDSHAKE_LEN_def)
  qed
qed

definition handshake_request :: "bytes \<Rightarrow> GkmRpcMessage" where
  "handshake_request v = sample_msg\<lparr>signature := Some (ascii ''ay''), sigverify := Some (ascii ''ay''),
     buffer := egg_buffer_init_static (encode_arg_array (Some v) (word_of_nat (length v)))\<rparr>"

lemma handshake_request_at:
  assumes "length v < 100"
  shows "at_sig ''ay'' (handshake_request v)"
    and "at_bytes (encode_arg_array (Some v) (word_of_nat (length v))) (handshake_request v)"
proof -
  let ?bs = "encode_arg_array (Some v) (word_of_nat (length v))"
  have "length ?bs < 2 ^ 62"
    using assms by (simp add: encode_arg_array_def encode_byte_array_def egg_buffer_encode_uint32_def min_def)
  then have wf: "eb_wf (egg_buffer_init_static ?bs)" by (simp add: eb_wf_def egg_buffer_init_static_def)
  then show "at_sig ''ay'' (handshake_request v)" by (simp add: at_sig_def handshake_request_def)
  show "at_bytes ?bs (handshake_request v)"
    using wf unfolding at_bytes_def handshake_request_def
    by (intro conjI exI [of _ "[]"]) (simp_all add: eb_contents_def egg_buffer_init_static_def sample_msg_def)
qed

end
