(* ===== verification/RpcModule.thy ===== *)
theory RpcModule
  imports RpcDispatch
begin

text \<open>
  The client end of the PKCS\#11 RPC protocol, \<^verbatim>\<open>pkcs11/rpc-layer/gkm-rpc-module.c\<close>: the module that a
  PKCS\#11 application loads and that forwards its calls to the daemon. The theory has the arguments of
  \<^verbatim>\<open>C_Initialize\<close>, the pool of connections, the exchange of a request for its response, and one function
  \<open>module_C_...\<close> per \<^verbatim>\<open>rpc_C_...\<close>.

  The operating system is a parameter (\<open>NET\<close>): connecting, closing, \<^verbatim>\<open>read\<close> and \<^verbatim>\<open>write\<close> over a state \<open>'w\<close> of
  the outside world. A pointer of the caller is an \<open>option\<close>, \<open>None\<close> for \<^verbatim>\<open>NULL\<close>; a function gives back
  what the caller's memory then holds. Locking is not modelled: a call is one step.
\<close>

subsection \<open>The arguments of C_Initialize\<close>

text \<open>
  \<open>dup\<close> is the copy of the argument string with its NUL, which the loop rewrites in place: \<open>src\<close> is
  the index read, \<open>at\<close> the index written, \<open>arg\<close> the start of the current argument. Reading or writing
  outside the block, and \<^verbatim>\<open>strdup (NULL)\<close>, fault. The first component of a result says whether the
  loop went on to its end (\<open>False\<close> for \<^verbatim>\<open>goto done\<close>).
\<close>

definition module_strdup :: "heap \<Rightarrow> bytes \<Rightarrow> bytes option" where
  "module_strdup h s = map_option (\<lambda>_. s) (h Default_allocator None (length s + 1))"

definition parse_argument :: "heap \<Rightarrow> bytes \<Rightarrow> bytes option \<Rightarrow> bytes option option" where
  "parse_argument h arg path =
     (let name = takeWhile (\<lambda>c. c \<notin> set (ascii '':='')) arg;
          value = (if length name = length arg then None else Some (drop (length name + 1) arg))
      in if name = ascii ''socket''
         then (case value of None \<Rightarrow> None | Some v \<Rightarrow> Some (module_strdup h v))
         else Some path)"

definition module_isspace :: "byte \<Rightarrow> bool" where
  "module_isspace c \<longleftrightarrow> c = 32 \<or> (9 \<le> c \<and> c \<le> 13)"

definition mem_put :: "bytes \<Rightarrow> nat \<Rightarrow> byte \<Rightarrow> bytes option" where
  "mem_put m i c = (if i < length m then Some (m[i := c]) else None)"

definition mem_peek :: "bytes \<Rightarrow> nat \<Rightarrow> byte option" where
  "mem_peek m i = (if i < length m then Some (m ! i) else None)"

lemma mem_put_length: "mem_put m i c = Some m' \<Longrightarrow> length m' = length m"
  by (auto simp: mem_put_def split: if_splits)

lemma mem_peek_bound: "mem_peek m i = Some c \<Longrightarrow> i < length m"
  by (auto simp: mem_peek_def split: if_splits)

text \<open>
  The character at \<open>src\<close> inside quotes, and outside of quotes when it is neither a quote nor a
  space: the new block, \<open>src\<close> and \<open>at\<close>, or \<open>None\<close> inside for the end of the string after a backslash.
\<close>

definition quoted_char :: "byte \<Rightarrow> bytes \<Rightarrow> nat \<Rightarrow> nat \<Rightarrow> (bytes \<times> nat \<times> nat) option option" where
  "quoted_char quote dup src at = do {
     c \<leftarrow> mem_peek dup src;
     if c = of_char (CHR 0x5C) then do {
       dup1 \<leftarrow> mem_put dup at c;
       d \<leftarrow> mem_peek dup1 (src + 1);
       if d = 0 then Some None
       else do {
         (dup2, at2) \<leftarrow> (if d \<noteq> quote
                         then map_option (\<lambda>m. (m, at + 2)) (mem_put dup1 (at + 1) (of_char (CHR 0x5C)))
                         else Some (dup1, at + 1));
         e \<leftarrow> mem_peek dup2 (src + 1);
         dup3 \<leftarrow> mem_put dup2 at2 e;
         Some (Some (dup3, src + 1, at2 + 1))
       }
     }
     else do {
       dup1 \<leftarrow> mem_put dup at c;
       Some (Some (dup1, src, at + 1))
     }
   }"

definition plain_char :: "bytes \<Rightarrow> nat \<Rightarrow> nat \<Rightarrow> (bytes \<times> nat \<times> nat) option option" where
  "plain_char dup src at = do {
     c \<leftarrow> mem_peek dup src;
     if c = of_char (CHR 0x5C) then do {
       dup1 \<leftarrow> mem_put dup at c;
       d \<leftarrow> mem_peek dup1 (src + 1);
       if d = 0 then Some None
       else do {
         dup2 \<leftarrow> mem_put dup1 (at + 1) d;
         Some (Some (dup2, src + 1, at + 2))
       }
     }
     else do {
       dup1 \<leftarrow> mem_put dup at c;
       Some (Some (dup1, src, at + 1))
     }
   }"

lemma quoted_char_src: "quoted_char q dup src at = Some (Some (dup', src', at')) \<Longrightarrow> src \<le> src' \<and> length dup' = length dup"
  by (auto simp: quoted_char_def split: Option.bind_splits if_splits dest!: mem_put_length)

lemma plain_char_src: "plain_char dup src at = Some (Some (dup', src', at')) \<Longrightarrow> src \<le> src' \<and> length dup' = length dup"
  by (auto simp: plain_char_def split: Option.bind_splits if_splits dest!: mem_put_length)

text \<open>The result: whether the end was reached, the block, \<open>at\<close>, \<open>arg\<close> and the socket path.\<close>

function (sequential) parse_loop :: "heap \<Rightarrow> byte \<Rightarrow> bytes \<Rightarrow> nat \<Rightarrow> nat \<Rightarrow> nat \<Rightarrow> bytes option
    \<Rightarrow> (bool \<times> bytes \<times> nat \<times> nat \<times> bytes option) option" where
  "parse_loop h quote dup src at arg path =
     (case mem_peek dup src of
        None \<Rightarrow> None
      | Some c \<Rightarrow>
          if c = 0 then Some (True, dup, at, arg, path)
          else if quote = c then parse_loop h 0 dup (src + 1) at arg path
          else if quote \<noteq> 0 then
            (case quoted_char quote dup src at of
               None \<Rightarrow> None
             | Some None \<Rightarrow> Some (False, dup, at, arg, path)
             | Some (Some (dup', src', at')) \<Rightarrow> parse_loop h quote dup' (src' + 1) at' arg path)
          else if module_isspace c then
            (case mem_put dup at 0 of
               None \<Rightarrow> None
             | Some dup' \<Rightarrow>
                 (case parse_argument h (c_str (drop arg dup')) path of
                    None \<Rightarrow> None
                  | Some path' \<Rightarrow> parse_loop h 0 dup' (src + 1) at at path'))
          else if c = of_char (CHR 0x27) \<or> c = of_char (CHR 0x22) then parse_loop h c dup (src + 1) at arg path
          else
            (case plain_char dup src at of
               None \<Rightarrow> None
             | Some None \<Rightarrow> Some (False, dup, at, arg, path)
             | Some (Some (dup', src', at')) \<Rightarrow> parse_loop h 0 dup' (src' + 1) at' arg path))"
  by pat_completeness auto
termination
  by (relation "measure (\<lambda>(h, quote, dup, src, at, arg, path). length dup - src)")
    (auto dest!: mem_peek_bound mem_put_length quoted_char_src plain_char_src)

declare parse_loop.simps [simp del]

definition parse_arguments :: "heap \<Rightarrow> bytes option \<Rightarrow> bytes option \<Rightarrow> bytes option option" where
  "parse_arguments h str path =
     (case str of
        None \<Rightarrow> Some path
      | Some s \<Rightarrow>
          (case module_strdup h (c_str s) of
             None \<Rightarrow> Some path
           | Some t \<Rightarrow> do {
               (fin, dup, at, arg, path1) \<leftarrow> parse_loop h 0 (t @ [0]) 0 0 0 path;
               if fin \<and> at \<noteq> arg then parse_argument h (c_str (drop arg dup)) path1 else Some path1
             }))"

subsection \<open>Calls and connections\<close>

datatype CallStatus = CALL_INVALID | CALL_READY | CALL_PREP | CALL_TRANSIT | CALL_PARSE

record ClientCall =
  call_socket :: "nat option"
  call_req :: "GkmRpcMessage option"
  call_resp :: "GkmRpcMessage option"
  call_status :: CallStatus

text \<open>
  \<open>net_connect\<close> is \<^verbatim>\<open>socket\<close>, \<^verbatim>\<open>fcntl\<close>, \<^verbatim>\<open>connect\<close> and the writing of the credentials; when one of them fails
  the socket is closed again and there is no descriptor. \<open>net_control\<close> is the environment variable
  \<^verbatim>\<open>MATE_KEYRING_CONTROL\<close>.
\<close>

record 'w NET =
  net_connect :: "bytes \<Rightarrow> 'w \<Rightarrow> nat option \<times> 'w"
  net_close :: "nat \<Rightarrow> 'w \<Rightarrow> 'w"
  net_socket :: "nat \<Rightarrow> 'w SOCKET"
  net_control :: "bytes option"
  net_pid :: nat

text \<open>The module's variables; the pool is linked by \<^verbatim>\<open>next\<close> and has a counter of its own.\<close>

record 'w RpcModule_State =
  pkcs11_initialized :: bool
  pkcs11_initialized_pid :: nat
  pkcs11_socket_path :: "bytes option"
  call_state_pool :: "ClientCall list"
  n_call_state_pool :: nat
  world :: 'w

definition MAX_CALL_STATE_POOL :: nat where "MAX_CALL_STATE_POOL = 8"

abbreviation call_allocator :: allocator where "call_allocator \<equiv> Allocator 1"

definition call_connect :: "'w NET \<Rightarrow> bytes option \<Rightarrow> ClientCall \<Rightarrow> 'w \<Rightarrow> (CK_RV \<times> ClientCall \<times> 'w) option" where
  "call_connect net path cs w =
     (if call_socket cs \<noteq> None \<or> call_status cs \<noteq> CALL_INVALID then None
      else case path of
             None \<Rightarrow> Some (CKR_DEVICE_REMOVED, cs, w)
           | Some p \<Rightarrow>
               (case net_connect net (take 108 p) w of
                  (None, w1) \<Rightarrow> Some (CKR_DEVICE_ERROR, cs, w1)
                | (Some sock, w1) \<Rightarrow> Some (CKR_OK, cs\<lparr>call_socket := Some sock, call_status := CALL_READY\<rparr>, w1)))"

definition call_disconnect :: "'w NET \<Rightarrow> ClientCall \<Rightarrow> 'w \<Rightarrow> ClientCall \<times> 'w" where
  "call_disconnect net cs w =
     (case call_socket cs of
        None \<Rightarrow> (cs, w)
      | Some fd \<Rightarrow> (cs\<lparr>call_socket := None\<rparr>, net_close net fd w))"

definition call_destroy :: "'w NET \<Rightarrow> ClientCall \<Rightarrow> 'w \<Rightarrow> 'w option" where
  "call_destroy net cs w = do {
     let (cs1, w1) = call_disconnect net cs w;
     f1 \<leftarrow> gkm_rpc_message_free (call_req cs1);
     f2 \<leftarrow> gkm_rpc_message_free (call_resp cs1);
     Some w1
   }"

definition call_lookup :: "heap \<Rightarrow> 'w NET \<Rightarrow> 'w RpcModule_State
    \<Rightarrow> (CK_RV \<times> ClientCall option \<times> 'w RpcModule_State) option" where
  "call_lookup h net st =
     (case call_state_pool st of
        cs # rest \<Rightarrow>
          if \<not> n_call_state_pool st > 0 then None
          else
            let st1 = st\<lparr>call_state_pool := rest, n_call_state_pool := n_call_state_pool st - 1\<rparr>
            in if call_status cs = CALL_READY \<and> call_socket cs \<noteq> None
               then Some (CKR_OK, Some cs, st1) else None
      | [] \<Rightarrow>
          (case h Default_allocator None 40 of
             None \<Rightarrow> Some (CKR_HOST_MEMORY, None, st)
           | Some _ \<Rightarrow> do {
               (rv, cs, w) \<leftarrow> call_connect net (pkcs11_socket_path st)
                  \<lparr>call_socket = None, call_req = None, call_resp = None, call_status = CALL_INVALID\<rparr> (world st);
               let st1 = st\<lparr>world := w\<rparr>;
               if rv \<noteq> CKR_OK then Some (rv, None, st1)
               else if call_status cs = CALL_READY \<and> call_socket cs \<noteq> None
               then Some (CKR_OK, Some cs, st1) else None
             }))"

definition call_prepare :: "heap \<Rightarrow> nat \<Rightarrow> ClientCall \<Rightarrow> (CK_RV \<times> ClientCall) option" where
  "call_prepare h cid cs =
     (if call_status cs \<noteq> CALL_READY then None
      else do {
        rq \<leftarrow> (case call_req cs of
                None \<Rightarrow> gkm_rpc_message_new h call_allocator
              | Some m \<Rightarrow> Some (Some m));
        case rq of
          None \<Rightarrow> Some (CKR_HOST_MEMORY, cs)
        | Some m \<Rightarrow> do {
            m1 \<leftarrow> gkm_rpc_message_reset m;
            (ok, m2) \<leftarrow> gkm_rpc_message_prep h (int cid) GKM_RPC_REQUEST m1;
            let cs1 = cs\<lparr>call_req := Some m2\<rparr>;
            Some (if ok then (CKR_OK, cs1\<lparr>call_status := CALL_PREP\<rparr>) else (CKR_HOST_MEMORY, cs1))
          }
      })"

partial_function (option) call_write_loop ::
    "'w NET \<Rightarrow> bytes \<Rightarrow> ClientCall \<Rightarrow> 'w \<Rightarrow> (CK_RV \<times> ClientCall \<times> 'w) option" where
  "call_write_loop net data cs w =
     (if data \<noteq> [] then
        (case call_socket cs of
           None \<Rightarrow> Some (CKR_DEVICE_ERROR, cs, w)
         | Some fd \<Rightarrow>
             (case sock_write (net_socket net fd) data w of
                (Inl e, w1) \<Rightarrow>
                  if e = SOCK_EPIPE
                  then (case call_disconnect net cs w1 of (cs1, w2) \<Rightarrow> Some (CKR_DEVICE_ERROR, cs1, w2))
                  else if e \<noteq> SOCK_EAGAIN \<and> e \<noteq> SOCK_EINTR then Some (CKR_DEVICE_ERROR, cs, w1)
                  else call_write_loop net data cs w1
              | (Inr r, w1) \<Rightarrow>
                  if r > length data then None else call_write_loop net (drop r data) cs w1))
      else Some (CKR_OK, cs, w))"

definition call_write :: "'w NET \<Rightarrow> bytes \<Rightarrow> ClientCall \<Rightarrow> 'w \<Rightarrow> (CK_RV \<times> ClientCall \<times> 'w) option" where
  "call_write net data cs w = (if data \<noteq> [] then call_write_loop net data cs w else None)"

partial_function (option) call_read_loop ::
    "'w NET \<Rightarrow> nat \<Rightarrow> bytes \<Rightarrow> ClientCall \<Rightarrow> 'w \<Rightarrow> (CK_RV \<times> bytes \<times> ClientCall \<times> 'w) option" where
  "call_read_loop net n got cs w =
     (if n > 0 then
        (case call_socket cs of
           None \<Rightarrow> Some (CKR_DEVICE_ERROR, got, cs, w)
         | Some fd \<Rightarrow>
             (case sock_read (net_socket net fd) n w of
                (Inl e, w1) \<Rightarrow>
                  if e \<noteq> SOCK_EAGAIN \<and> e \<noteq> SOCK_EINTR then Some (CKR_DEVICE_ERROR, got, cs, w1)
                  else call_read_loop net n got cs w1
              | (Inr bs, w1) \<Rightarrow>
                  if bs = []
                  then (case call_disconnect net cs w1 of (cs1, w2) \<Rightarrow> Some (CKR_DEVICE_ERROR, got, cs1, w2))
                  else if length bs > n then None
                  else call_read_loop net (n - length bs) (got @ bs) cs w1))
      else Some (CKR_OK, got, cs, w))"

definition call_read :: "'w NET \<Rightarrow> nat \<Rightarrow> ClientCall \<Rightarrow> 'w \<Rightarrow> (CK_RV \<times> bytes \<times> ClientCall \<times> 'w) option" where
  "call_read net n cs w = (if n > 0 then call_read_loop net n [] cs w else None)"

text \<open>
  The dialog between writing the request and parsing the response: the return value, the response
  message, the call and the world. When the response does not parse the return value is still
  \<^verbatim>\<open>CKR_OK\<close>.
\<close>

definition call_dialog :: "heap \<Rightarrow> 'w NET \<Rightarrow> GkmRpcMessage \<Rightarrow> GkmRpcMessage \<Rightarrow> ClientCall \<Rightarrow> 'w
    \<Rightarrow> (CK_RV \<times> GkmRpcMessage \<times> ClientCall \<times> 'w) option" where
  "call_dialog h net rq rs cs w = do {
     (ret, cs1, w1) \<leftarrow> call_write net (egg_buffer_encode_uint32 (word_of_nat (eb_len (buffer rq)))) cs w;
     if ret \<noteq> CKR_OK then Some (ret, rs, cs1, w1)
     else do {
       data \<leftarrow> eb_load 0 (eb_len (buffer rq)) (buffer rq);
       (ret2, cs2, w2) \<leftarrow> call_write net data cs1 w1;
       if ret2 \<noteq> CKR_OK then Some (ret2, rs, cs2, w2)
       else do {
         (ret3, buf, cs3, w3) \<leftarrow> call_read net 4 cs2 w2;
         if ret3 \<noteq> CKR_OK then Some (ret3, rs, cs3, w3)
         else do {
           let n = unat (egg_buffer_decode_uint32 buf);
           let (ok, b) = egg_buffer_reserve h (size_add n (eb_len (buffer rs))) (buffer rs);
           if \<not> ok then Some (CKR_HOST_MEMORY, rs\<lparr>buffer := b\<rparr>, cs3, w3)
           else do {
             (ret4, got, cs4, w4) \<leftarrow> call_read net n cs3 w3;
             b1 \<leftarrow> eb_store 0 got b;
             if ret4 \<noteq> CKR_OK then Some (ret4, rs\<lparr>buffer := b1\<rparr>, cs4, w4)
             else do {
               let (_, b2) = egg_buffer_add_empty h n b1;
               (ok5, m) \<leftarrow> gkm_rpc_message_parse GKM_RPC_RESPONSE (rs\<lparr>buffer := b2\<rparr>);
               Some (CKR_OK, m, cs4, w4)
             }
           }
         }
       }
     }
   }"

definition call_send_recv :: "heap \<Rightarrow> 'w NET \<Rightarrow> ClientCall \<Rightarrow> 'w \<Rightarrow> (CK_RV \<times> ClientCall \<times> 'w) option" where
  "call_send_recv h net cs w =
     (case call_req cs of
        None \<Rightarrow> None
      | Some rq \<Rightarrow>
          if call_status cs \<noteq> CALL_PREP then None
          else do {
            let cs1 = cs\<lparr>call_status := CALL_TRANSIT\<rparr>;
            rs \<leftarrow> (case call_resp cs of
                    None \<Rightarrow> gkm_rpc_message_new h call_allocator
                  | Some m \<Rightarrow> Some (Some m));
            case rs of
              None \<Rightarrow> Some (CKR_HOST_MEMORY, cs1, w)
            | Some m \<Rightarrow> do {
                m1 \<leftarrow> gkm_rpc_message_reset m;
                (ret, m2, cs2, w2) \<leftarrow> call_dialog h net rq m1 (cs1\<lparr>call_req := None, call_resp := None\<rparr>) w;
                if call_status cs2 \<noteq> CALL_TRANSIT \<or> call_resp cs2 \<noteq> None \<or> call_req cs2 \<noteq> None then None
                else Some (ret, cs2\<lparr>call_resp := Some m2, call_req := Some rq\<rparr>, w2)
              }
          })"

definition call_run :: "heap \<Rightarrow> 'w NET \<Rightarrow> ClientCall \<Rightarrow> 'w \<Rightarrow> (CK_RV \<times> ClientCall \<times> 'w) option" where
  "call_run h net cs w =
     (case call_req cs of
        None \<Rightarrow> None
      | Some rq \<Rightarrow>
          if call_status cs \<noteq> CALL_PREP \<or> call_socket cs = None then None
          else if gkm_rpc_message_buffer_error rq then Some (CKR_HOST_MEMORY, cs, w)
          else if \<not> gkm_rpc_message_is_verified rq then None
          else do {
            (ret, cs1, w1) \<leftarrow> call_send_recv h net cs w;
            let cs2 = cs1\<lparr>call_status := CALL_PARSE\<rparr>;
            if ret \<noteq> CKR_OK then Some (ret, cs2, w1)
            else do {
              rs \<leftarrow> call_resp cs2;
              if call_id rs = int GKM_RPC_CALL_ERROR then do {
                (v, m) \<leftarrow> gkm_rpc_message_read_ulong rs;
                let cs3 = cs2\<lparr>call_resp := Some m\<rparr>;
                case v of
                  None \<Rightarrow> Some (CKR_DEVICE_ERROR, cs3, w1)
                | Some ckerr \<Rightarrow> Some (if ckerr \<le> CKR_OK then CKR_DEVICE_ERROR else ckerr, cs3, w1)
              }
              else if call_id rq \<noteq> call_id rs then Some (CKR_DEVICE_ERROR, cs2, w1)
              else if gkm_rpc_message_buffer_error rs then None
              else Some (CKR_OK, cs2, w1)
            }
          })"

definition call_done :: "'w NET \<Rightarrow> ClientCall \<Rightarrow> CK_RV \<Rightarrow> 'w RpcModule_State
    \<Rightarrow> (CK_RV \<times> 'w RpcModule_State) option" where
  "call_done net cs ret st =
     (if call_status cs = CALL_INVALID then None
      else do {
        ret1 \<leftarrow> (case (call_req cs, call_resp cs) of
                  (Some rq, Some rs) \<Rightarrow>
                    if call_status cs = CALL_PARSE \<and> ret = CKR_OK then
                      if gkm_rpc_message_buffer_error rs then Some CKR_GENERAL_ERROR
                      else if gkm_rpc_message_is_verified rs then Some ret else None
                    else Some ret
                | _ \<Rightarrow> Some ret);
        if ret1 \<noteq> CKR_DEVICE_ERROR \<and> ret1 \<noteq> CKR_DEVICE_REMOVED \<and> call_socket cs \<noteq> None
           \<and> n_call_state_pool st < MAX_CALL_STATE_POOL
        then Some (ret1, st\<lparr>call_state_pool := cs\<lparr>call_status := CALL_READY\<rparr> # call_state_pool st,
                             n_call_state_pool := n_call_state_pool st + 1\<rparr>)
        else do {
          w \<leftarrow> call_destroy net cs (world st);
          Some (ret1, st\<lparr>world := w\<rparr>)
        }
      })"

subsection \<open>The macros\<close>

type_synonym in_macro = "GkmRpcMessage \<Rightarrow> (CK_RV \<times> GkmRpcMessage) option"

definition module_in :: "msg_writer \<Rightarrow> in_macro" where
  "module_in wr m = do { (ok, m1) \<leftarrow> wr m; Some (if ok then CKR_OK else CKR_HOST_MEMORY, m1) }"

definition module_IN_BYTE :: "heap \<Rightarrow> byte \<Rightarrow> in_macro" where
  "module_IN_BYTE h val = module_in (gkm_rpc_message_write_byte h val)"

definition module_IN_ULONG :: "heap \<Rightarrow> CK_ULONG \<Rightarrow> in_macro" where
  "module_IN_ULONG h val = module_in (gkm_rpc_message_write_ulong h val)"

definition module_IN_STRING :: "heap \<Rightarrow> bytes \<Rightarrow> in_macro" where
  "module_IN_STRING h val = module_in (gkm_rpc_message_write_zero_string h val)"

definition module_IN_BYTE_BUFFER :: "heap \<Rightarrow> bytes option \<Rightarrow> CK_ULONG option \<Rightarrow> in_macro" where
  "module_IN_BYTE_BUFFER h arr len m =
     (case len of
        None \<Rightarrow> Some (CKR_ARGUMENTS_BAD, m)
      | Some n \<Rightarrow> module_in (gkm_rpc_message_write_byte_buffer h (if arr \<noteq> None then n else 0)) m)"

definition module_IN_BYTE_ARRAY :: "heap \<Rightarrow> bytes option \<Rightarrow> CK_ULONG \<Rightarrow> in_macro" where
  "module_IN_BYTE_ARRAY h arr len m =
     (if len \<noteq> 0 \<and> arr = None then Some (CKR_ARGUMENTS_BAD, m)
      else module_in (gkm_rpc_message_write_byte_array h arr len) m)"

definition module_IN_ULONG_BUFFER :: "heap \<Rightarrow> CK_ULONG list option \<Rightarrow> CK_ULONG option \<Rightarrow> in_macro" where
  "module_IN_ULONG_BUFFER h arr len m =
     (case len of
        None \<Rightarrow> Some (CKR_ARGUMENTS_BAD, m)
      | Some n \<Rightarrow> module_in (gkm_rpc_message_write_ulong_buffer h (if arr \<noteq> None then n else 0)) m)"

text \<open>The first \<open>num\<close> attributes of the caller's array.\<close>

definition caller_attrs :: "CK_ATTRIBUTE list option \<Rightarrow> CK_ULONG \<Rightarrow> CK_ATTRIBUTE list option" where
  "caller_attrs arr num =
     (case arr of
        None \<Rightarrow> if num = 0 then Some [] else None
      | Some a \<Rightarrow> if unat num \<le> length a then Some (take (unat num) a) else None)"

definition module_IN_ATTRIBUTE_BUFFER :: "heap \<Rightarrow> CK_ATTRIBUTE list option \<Rightarrow> CK_ULONG \<Rightarrow> in_macro" where
  "module_IN_ATTRIBUTE_BUFFER h arr num m =
     (if num \<noteq> 0 \<and> arr = None then Some (CKR_ARGUMENTS_BAD, m)
      else do { attrs \<leftarrow> caller_attrs arr num; module_in (gkm_rpc_message_write_attribute_buffer h attrs) m })"

definition module_IN_ATTRIBUTE_ARRAY :: "heap \<Rightarrow> CK_ATTRIBUTE list option \<Rightarrow> CK_ULONG \<Rightarrow> in_macro" where
  "module_IN_ATTRIBUTE_ARRAY h arr num m =
     (if num \<noteq> 0 \<and> arr = None then Some (CKR_ARGUMENTS_BAD, m)
      else do { attrs \<leftarrow> caller_attrs arr num; module_in (gkm_rpc_message_write_attribute_array h attrs) m })"

definition module_IN_MECHANISM_TYPE :: "heap \<Rightarrow> CK_ULONG \<Rightarrow> in_macro" where
  "module_IN_MECHANISM_TYPE h val m =
     (if \<not> gkm_rpc_mechanism_is_supported val then Some (CKR_MECHANISM_INVALID, m)
      else module_in (gkm_rpc_message_write_ulong h val) m)"

definition module_IN_MECHANISM :: "heap \<Rightarrow> CK_MECHANISM option \<Rightarrow> in_macro" where
  "module_IN_MECHANISM h val m =
     (case val of None \<Rightarrow> Some (CKR_ARGUMENTS_BAD, m) | Some mech \<Rightarrow> module_proto_write_mechanism h mech m)"

text \<open>
  The output macros take \<open>_ret\<close> and the caller's memory. What the length of an absent array has in its
  upper half, and the uninitialised long of the array loop, are parameters (\<open>junk\<close>).
\<close>

type_synonym 'o out_macro = "CK_RV \<Rightarrow> 'o \<Rightarrow> GkmRpcMessage \<Rightarrow> (CK_RV \<times> 'o \<times> GkmRpcMessage) option"

record JUNK =
  junk_length :: "32 word"
  junk_long :: CK_ULONG

definition module_OUT_none :: "unit out_macro" where
  "module_OUT_none ret mem m = Some (ret, mem, m)"

definition module_OUT_ULONG :: "CK_ULONG option out_macro" where
  "module_OUT_ULONG ret val m =
     (if val = None then Some (CKR_ARGUMENTS_BAD, val, m)
      else if ret = CKR_OK then do {
        (v, m1) \<leftarrow> gkm_rpc_message_read_ulong m;
        Some (case v of None \<Rightarrow> (PARSE_ERROR, val, m1) | Some x \<Rightarrow> (CKR_OK, Some x, m1))
      }
      else Some (ret, val, m))"

definition module_OUT_then :: "'a out_macro \<Rightarrow> 'b out_macro \<Rightarrow> ('a \<times> 'b) out_macro" where
  "module_OUT_then p q ret mem m = do {
     (ret1, a, m1) \<leftarrow> p ret (fst mem) m;
     (ret2, b, m2) \<leftarrow> q ret1 (snd mem) m1;
     Some (ret2, (a, b), m2)
   }"

text \<open>The length is left alone when the array could not be read.\<close>

definition module_OUT_BYTE_ARRAY :: "JUNK \<Rightarrow> (bytes option \<times> CK_ULONG option) out_macro" where
  "module_OUT_BYTE_ARRAY junk ret mem m =
     (case snd mem of
        None \<Rightarrow> Some (CKR_ARGUMENTS_BAD, mem, m)
      | Some cap \<Rightarrow>
          if ret = CKR_OK then do {
            (ret1, arr, len, m1) \<leftarrow> module_proto_read_byte_array (junk_length junk) (fst mem) cap m;
            Some (ret1, (arr, if len = None then Some cap else len), m1)
          }
          else Some (ret, mem, m))"

definition module_OUT_ULONG_ARRAY :: "JUNK \<Rightarrow> (CK_ULONG list option \<times> CK_ULONG option) out_macro" where
  "module_OUT_ULONG_ARRAY junk ret mem m =
     (case snd mem of
        None \<Rightarrow> Some (CKR_ARGUMENTS_BAD, mem, m)
      | Some cap \<Rightarrow>
          if ret = CKR_OK then do {
            (ret1, arr, len, m1) \<leftarrow> module_proto_read_ulong_array (junk_long junk) (fst mem) cap m;
            Some (ret1, (arr, if len = None then Some cap else len), m1)
          }
          else Some (ret, mem, m))"

definition module_OUT_ATTRIBUTE_ARRAY :: "CK_ULONG \<Rightarrow> CK_ATTRIBUTE list option out_macro" where
  "module_OUT_ATTRIBUTE_ARRAY num ret arr m =
     (if ret = CKR_OK then module_proto_read_attribute_array arr num m else Some (ret, arr, m))"

text \<open>\<open>module_out_struct\<close> is the common form of the macros for information structures.\<close>

definition module_out_struct :: "('i \<Rightarrow> GkmRpcMessage \<Rightarrow> (CK_RV \<times> 'i \<times> GkmRpcMessage) option) \<Rightarrow> 'i option out_macro" where
  "module_out_struct rd ret info m =
     (case info of
        None \<Rightarrow> Some (CKR_ARGUMENTS_BAD, None, m)
      | Some i \<Rightarrow>
          if ret = CKR_OK then do { (ret1, i1, m1) \<leftarrow> rd i m; Some (ret1, Some i1, m1) }
          else Some (ret, info, m))"

definition module_OUT_INFO :: "CK_INFO option out_macro" where
  "module_OUT_INFO = module_out_struct module_proto_read_info"

definition module_OUT_SLOT_INFO :: "CK_SLOT_INFO option out_macro" where
  "module_OUT_SLOT_INFO = module_out_struct module_proto_read_slot_info"

definition module_OUT_TOKEN_INFO :: "CK_TOKEN_INFO option out_macro" where
  "module_OUT_TOKEN_INFO = module_out_struct module_proto_read_token_info"

definition module_OUT_SESSION_INFO :: "CK_SESSION_INFO option out_macro" where
  "module_OUT_SESSION_INFO = module_out_struct module_proto_read_sesssion_info"

definition module_OUT_MECHANISM_INFO :: "CK_MECHANISM_INFO option out_macro" where
  "module_OUT_MECHANISM_INFO = module_out_struct module_proto_read_mechanism_info"

definition module_OUT_MECHANISM_TYPE_ARRAY :: "JUNK \<Rightarrow> (CK_ULONG list option \<times> CK_ULONG option) out_macro" where
  "module_OUT_MECHANISM_TYPE_ARRAY junk ret mem m = do {
     (ret1, mem1, m1) \<leftarrow> module_OUT_ULONG_ARRAY junk ret mem m;
     case mem1 of
       (Some arr, Some n) \<Rightarrow>
         if ret1 = CKR_OK then do {
           (arr1, n1) \<leftarrow> gkm_rpc_mechanism_list_purge arr (unat n);
           Some (ret1, (Some arr1, Some (word_of_nat n1)), m1)
         }
         else Some (ret1, mem1, m1)
     | _ \<Rightarrow> Some (ret1, mem1, m1)
   }"

text \<open>
  A call between \<^verbatim>\<open>BEGIN_CALL\<close> and \<^verbatim>\<open>END_CALL\<close>: the inputs are written one after the other up to the
  first that fails, then \<^verbatim>\<open>PROCESS_CALL\<close>, then the outputs.
\<close>

fun module_ins :: "in_macro list \<Rightarrow> in_macro" where
  "module_ins [] m = Some (CKR_OK, m)"
| "module_ins (w # ws) m = do { (ret, m1) \<leftarrow> w m; if ret \<noteq> CKR_OK then Some (ret, m1) else module_ins ws m1 }"

type_synonym ('o, 'w) stub = "'w RpcModule_State \<Rightarrow> (CK_RV \<times> 'o \<times> 'w RpcModule_State) option"

definition module_body :: "heap \<Rightarrow> 'w NET \<Rightarrow> nat \<Rightarrow> in_macro list \<Rightarrow> 'o out_macro \<Rightarrow> 'o \<Rightarrow> ClientCall \<Rightarrow> 'w
    \<Rightarrow> (CK_RV \<times> 'o \<times> ClientCall \<times> 'w) option" where
  "module_body h net cid ins outs mem cs w = do {
     (ret, cs1) \<leftarrow> call_prepare h cid cs;
     if ret \<noteq> CKR_OK then Some (ret, mem, cs1, w)
     else do {
       rq \<leftarrow> call_req cs1;
       (ret2, rq2) \<leftarrow> module_ins ins rq;
       let cs2 = cs1\<lparr>call_req := Some rq2\<rparr>;
       if ret2 \<noteq> CKR_OK then Some (ret2, mem, cs2, w)
       else do {
         (ret3, cs3, w3) \<leftarrow> call_run h net cs2 w;
         if ret3 \<noteq> CKR_OK then Some (ret3, mem, cs3, w3)
         else do {
           rs \<leftarrow> call_resp cs3;
           (ret4, mem4, rs4) \<leftarrow> outs ret3 mem rs;
           Some (ret4, mem4, cs3\<lparr>call_resp := Some rs4\<rparr>, w3)
         }
       }
     }
   }"

definition module_call :: "heap \<Rightarrow> 'w NET \<Rightarrow> nat \<Rightarrow> in_macro list \<Rightarrow> 'o out_macro \<Rightarrow> 'o \<Rightarrow> ('o, 'w) stub" where
  "module_call h net cid ins outs mem st =
     (if \<not> pkcs11_initialized st then Some (CKR_CRYPTOKI_NOT_INITIALIZED, mem, st)
      else do {
        (ret, found, st1) \<leftarrow> call_lookup h net st;
        if ret \<noteq> CKR_OK then Some (ret, mem, st1)
        else do {
          cs \<leftarrow> found;
          (ret1, mem1, cs1, w1) \<leftarrow> module_body h net cid ins outs mem cs (world st1);
          (ret2, st2) \<leftarrow> call_done net cs1 ret1 (st1\<lparr>world := w1\<rparr>);
          Some (ret2, mem1, st2)
        }
      })"

text \<open>\<^verbatim>\<open>return_val_if_fail (cond, CKR_ARGUMENTS_BAD)\<close> in front of a call.\<close>

definition module_require :: "bool \<Rightarrow> 'o \<Rightarrow> ('o, 'w) stub \<Rightarrow> ('o, 'w) stub" where
  "module_require cond mem call st = (if cond then call st else Some (CKR_ARGUMENTS_BAD, mem, st))"

subsection \<open>Initialize and Finalize\<close>

text \<open>\<open>args_mutex\<close> says which of the four mutex functions are given.\<close>

record INIT_ARGS =
  args_mutex :: "bool \<times> bool \<times> bool \<times> bool"
  args_flags :: CK_ULONG
  args_pReserved :: "bytes option"

definition CKF_OS_LOCKING_OK :: CK_ULONG where "CKF_OS_LOCKING_OK = 2"

definition module_check_args :: "heap \<Rightarrow> INIT_ARGS option \<Rightarrow> bytes option \<Rightarrow> (CK_RV \<times> bytes option) option" where
  "module_check_args h init_args path =
     (case init_args of
        None \<Rightarrow> Some (CKR_OK, path)
      | Some args \<Rightarrow>
          if args_mutex args \<noteq> (False, False, False, False) \<and> args_mutex args \<noteq> (True, True, True, True)
          then Some (CKR_ARGUMENTS_BAD, path)
          else if args_flags args AND CKF_OS_LOCKING_OK = 0 then Some (CKR_CANT_LOCK, path)
          else map_option (Pair CKR_OK) (parse_arguments h (args_pReserved args) path))"

definition module_socket_path :: "heap \<Rightarrow> 'w NET \<Rightarrow> bytes option \<Rightarrow> CK_RV \<times> bytes option" where
  "module_socket_path h net path =
     (case (path, net_control net) of
        (None, Some dir) \<Rightarrow>
          if dir = [] then (CKR_OK, None)
          else (case h Default_allocator None (length dir + 8) of
                  None \<Rightarrow> (CKR_HOST_MEMORY, None)
                | Some _ \<Rightarrow> (CKR_OK, Some (dir @ ascii ''/pkcs11'')))
      | _ \<Rightarrow> (CKR_OK, path))"

definition module_initialize_call :: "heap \<Rightarrow> 'w NET \<Rightarrow> 'w RpcModule_State \<Rightarrow> (CK_RV \<times> 'w RpcModule_State) option" where
  "module_initialize_call h net st = do {
     (ret, found, st1) \<leftarrow> call_lookup h net st;
     if ret \<noteq> CKR_OK then Some (ret, st1)
     else do {
       cs \<leftarrow> found;
       (ret1, mem1, cs1, w1) \<leftarrow> module_body h net 1
          [module_in (gkm_rpc_message_write_byte_array h (Some GKM_RPC_HANDSHAKE) (word_of_nat GKM_RPC_HANDSHAKE_LEN))]
          module_OUT_none () cs (world st1);
       (ret2, st2) \<leftarrow> call_done net cs1 ret1 (st1\<lparr>world := w1\<rparr>);
       Some (ret1, st2)
     }
   }"

definition module_initialize_done :: "'w NET \<Rightarrow> CK_RV \<Rightarrow> 'w RpcModule_State \<Rightarrow> 'w RpcModule_State" where
  "module_initialize_done net ret st =
     (if ret = CKR_OK then st\<lparr>pkcs11_initialized := True, pkcs11_initialized_pid := net_pid net\<rparr>
      else if ret \<noteq> CKR_CRYPTOKI_ALREADY_INITIALIZED
      then st\<lparr>pkcs11_initialized := False, pkcs11_initialized_pid := 0, pkcs11_socket_path := None\<rparr>
      else st)"

definition module_C_Initialize :: "heap \<Rightarrow> 'w NET \<Rightarrow> INIT_ARGS option \<Rightarrow> 'w RpcModule_State
    \<Rightarrow> (CK_RV \<times> 'w RpcModule_State) option" where
  "module_C_Initialize h net init_args st = do {
     (ret, path) \<leftarrow> module_check_args h init_args (pkcs11_socket_path st);
     let st1 = st\<lparr>pkcs11_socket_path := path\<rparr>;
     if ret \<noteq> CKR_OK then Some (ret, module_initialize_done net ret st1)
     else if pkcs11_initialized st1 \<and> net_pid net = pkcs11_initialized_pid st1
     then Some (CKR_CRYPTOKI_ALREADY_INITIALIZED, st1)
     else do {
       let (ret2, path2) = module_socket_path h net path;
       let st2 = st1\<lparr>pkcs11_socket_path := path2\<rparr>;
       if ret2 \<noteq> CKR_OK then Some (ret2, module_initialize_done net ret2 st2)
       else do {
         (ret3, st3) \<leftarrow> module_initialize_call h net st2;
         Some (ret3, module_initialize_done net ret3 st3)
       }
     }
   }"

definition module_C_Finalize :: "heap \<Rightarrow> 'w NET \<Rightarrow> bool \<Rightarrow> 'w RpcModule_State
    \<Rightarrow> (CK_RV \<times> 'w RpcModule_State) option" where
  "module_C_Finalize h net reserved st =
     (if \<not> pkcs11_initialized st then Some (CKR_CRYPTOKI_NOT_INITIALIZED, st)
      else if reserved then Some (CKR_ARGUMENTS_BAD, st)
      else do {
        (ret, found, st1) \<leftarrow> call_lookup h net st;
        st2 \<leftarrow> (if ret \<noteq> CKR_OK then Some st1
                 else do {
                   cs \<leftarrow> found;
                   (ret1, mem1, cs1, w1) \<leftarrow> module_body h net 2 [] module_OUT_none () cs (world st1);
                   map_option snd (call_done net cs1 ret1 (st1\<lparr>world := w1\<rparr>))
                 });
        Some (CKR_OK, st2\<lparr>pkcs11_initialized := False, pkcs11_initialized_pid := 0, pkcs11_socket_path := None\<rparr>)
      })"

subsection \<open>The other calls\<close>

text \<open>Each is given the caller's memory for its results as its last arguments.\<close>

definition module_C_GetInfo :: "heap \<Rightarrow> 'w NET \<Rightarrow> CK_INFO option \<Rightarrow>
    (CK_INFO option, 'w) stub" where
  "module_C_GetInfo h net info =
     module_require (info \<noteq> None) info (module_call h net 3 [] module_OUT_INFO info)"

definition module_C_GetSlotList :: "heap \<Rightarrow> 'w NET \<Rightarrow> JUNK \<Rightarrow> byte
    \<Rightarrow> CK_ULONG list option \<Rightarrow> CK_ULONG option \<Rightarrow> ((CK_ULONG list option
    \<times> CK_ULONG option), 'w) stub" where
  "module_C_GetSlotList h net junk token_present slot_list count =
     module_require (count \<noteq> None) (slot_list, count) (module_call h net 4
       [module_IN_BYTE h token_present,
        module_IN_ULONG_BUFFER h slot_list count]
       (module_OUT_ULONG_ARRAY junk) (slot_list, count))"

definition module_C_GetSlotInfo :: "heap \<Rightarrow> 'w NET \<Rightarrow> CK_ULONG \<Rightarrow>
    CK_SLOT_INFO option \<Rightarrow> (CK_SLOT_INFO option, 'w) stub" where
  "module_C_GetSlotInfo h net slot_id info =
     module_require (info \<noteq> None) info (module_call h net 5
       [module_IN_ULONG h slot_id]
       module_OUT_SLOT_INFO info)"

definition module_C_GetTokenInfo :: "heap \<Rightarrow> 'w NET \<Rightarrow> CK_ULONG \<Rightarrow>
    CK_TOKEN_INFO option \<Rightarrow> (CK_TOKEN_INFO option, 'w) stub" where
  "module_C_GetTokenInfo h net slot_id info =
     module_require (info \<noteq> None) info (module_call h net 6
       [module_IN_ULONG h slot_id]
       module_OUT_TOKEN_INFO info)"

definition module_C_GetMechanismList :: "heap \<Rightarrow> 'w NET \<Rightarrow> JUNK \<Rightarrow>
    CK_ULONG \<Rightarrow> CK_ULONG list option \<Rightarrow> CK_ULONG option \<Rightarrow> ((CK_ULONG list
    option \<times> CK_ULONG option), 'w) stub" where
  "module_C_GetMechanismList h net junk slot_id mechanism_list count =
     module_require (count \<noteq> None) (mechanism_list, count) (module_call h net 7
       [module_IN_ULONG h slot_id,
        module_IN_ULONG_BUFFER h mechanism_list count]
       (module_OUT_MECHANISM_TYPE_ARRAY junk) (mechanism_list, count))"

definition module_C_GetMechanismInfo :: "heap \<Rightarrow> 'w NET \<Rightarrow> CK_ULONG \<Rightarrow>
    CK_ULONG \<Rightarrow> CK_MECHANISM_INFO option \<Rightarrow> (CK_MECHANISM_INFO option, 'w) stub" where
  "module_C_GetMechanismInfo h net slot_id typ info =
     module_require (info \<noteq> None) info (module_call h net 8
       [module_IN_ULONG h slot_id,
        module_IN_MECHANISM_TYPE h typ]
       module_OUT_MECHANISM_INFO info)"

definition module_C_InitToken :: "heap \<Rightarrow> 'w NET \<Rightarrow> CK_ULONG \<Rightarrow> bytes
    option \<Rightarrow> CK_ULONG \<Rightarrow> bytes \<Rightarrow> (unit, 'w) stub" where
  "module_C_InitToken h net slot_id pin pin_len lab =
     module_call h net 9
       [module_IN_ULONG h slot_id,
        module_IN_BYTE_ARRAY h pin pin_len,
        module_IN_STRING h lab]
       module_OUT_none ()"

definition module_C_WaitForSlotEvent :: "heap \<Rightarrow> 'w NET \<Rightarrow> CK_ULONG \<Rightarrow>
    CK_ULONG option \<Rightarrow> (CK_ULONG option, 'w) stub" where
  "module_C_WaitForSlotEvent h net flg slot =
     module_require (slot \<noteq> None) slot (module_call h net 10
       [module_IN_ULONG h flg]
       module_OUT_ULONG slot)"

definition module_C_OpenSession :: "heap \<Rightarrow> 'w NET \<Rightarrow> CK_ULONG \<Rightarrow> CK_ULONG
    \<Rightarrow> CK_ULONG option \<Rightarrow> (CK_ULONG option, 'w) stub" where
  "module_C_OpenSession h net slot_id flg session =
     module_require (session \<noteq> None) session (module_call h net 11
       [module_IN_ULONG h slot_id,
        module_IN_ULONG h flg]
       module_OUT_ULONG session)"

definition module_C_CloseSession :: "heap \<Rightarrow> 'w NET \<Rightarrow> CK_ULONG \<Rightarrow> (unit,
    'w) stub" where
  "module_C_CloseSession h net session =
     module_call h net 12
       [module_IN_ULONG h session]
       module_OUT_none ()"

definition module_C_CloseAllSessions :: "heap \<Rightarrow> 'w NET \<Rightarrow> CK_ULONG \<Rightarrow>
    (unit, 'w) stub" where
  "module_C_CloseAllSessions h net slot_id =
     module_call h net 13
       [module_IN_ULONG h slot_id]
       module_OUT_none ()"

definition module_C_GetFunctionStatus :: "heap \<Rightarrow> 'w NET \<Rightarrow> CK_ULONG \<Rightarrow>
    (unit, 'w) stub" where
  "module_C_GetFunctionStatus h net session =
     module_call h net 14
       [module_IN_ULONG h session]
       module_OUT_none ()"

definition module_C_CancelFunction :: "heap \<Rightarrow> 'w NET \<Rightarrow> CK_ULONG \<Rightarrow>
    (unit, 'w) stub" where
  "module_C_CancelFunction h net session =
     module_call h net 15
       [module_IN_ULONG h session]
       module_OUT_none ()"

definition module_C_GetSessionInfo :: "heap \<Rightarrow> 'w NET \<Rightarrow> CK_ULONG \<Rightarrow>
    CK_SESSION_INFO option \<Rightarrow> (CK_SESSION_INFO option, 'w) stub" where
  "module_C_GetSessionInfo h net session info =
     module_require (info \<noteq> None) info (module_call h net 16
       [module_IN_ULONG h session]
       module_OUT_SESSION_INFO info)"

definition module_C_InitPIN :: "heap \<Rightarrow> 'w NET \<Rightarrow> CK_ULONG \<Rightarrow> bytes option
    \<Rightarrow> CK_ULONG \<Rightarrow> (unit, 'w) stub" where
  "module_C_InitPIN h net session pin pin_len =
     module_call h net 17
       [module_IN_ULONG h session,
        module_IN_BYTE_ARRAY h pin pin_len]
       module_OUT_none ()"

definition module_C_SetPIN :: "heap \<Rightarrow> 'w NET \<Rightarrow> CK_ULONG \<Rightarrow> bytes option
    \<Rightarrow> CK_ULONG \<Rightarrow> bytes option \<Rightarrow> (unit, 'w) stub" where
  "module_C_SetPIN h net session old_pin old_pin_len new_pin =
     module_call h net 18
       [module_IN_ULONG h session,
        module_IN_BYTE_ARRAY h old_pin old_pin_len,
        module_IN_BYTE_ARRAY h new_pin old_pin_len]
       module_OUT_none ()"

definition module_C_GetOperationState :: "heap \<Rightarrow> 'w NET \<Rightarrow> JUNK \<Rightarrow>
    CK_ULONG \<Rightarrow> bytes option \<Rightarrow> CK_ULONG option \<Rightarrow> ((bytes option \<times>
    CK_ULONG option), 'w) stub" where
  "module_C_GetOperationState h net junk session operation_state operation_state_len =
     module_require (operation_state_len \<noteq> None) (operation_state, operation_state_len) (module_call h net 19
       [module_IN_ULONG h session,
        module_IN_BYTE_BUFFER h operation_state operation_state_len]
       (module_OUT_BYTE_ARRAY junk) (operation_state, operation_state_len))"

definition module_C_SetOperationState :: "heap \<Rightarrow> 'w NET \<Rightarrow> CK_ULONG \<Rightarrow>
    bytes option \<Rightarrow> CK_ULONG \<Rightarrow> CK_ULONG \<Rightarrow> CK_ULONG \<Rightarrow> (unit,
    'w) stub" where
  "module_C_SetOperationState h net session operation_state operation_state_len encryption_key authentication_key =
     module_call h net 20
       [module_IN_ULONG h session,
        module_IN_BYTE_ARRAY h operation_state operation_state_len,
        module_IN_ULONG h encryption_key,
        module_IN_ULONG h authentication_key]
       module_OUT_none ()"

definition module_C_Login :: "heap \<Rightarrow> 'w NET \<Rightarrow> CK_ULONG \<Rightarrow> CK_ULONG
    \<Rightarrow> bytes option \<Rightarrow> CK_ULONG \<Rightarrow> (unit, 'w) stub" where
  "module_C_Login h net session user_type pin pin_len =
     module_call h net 21
       [module_IN_ULONG h session,
        module_IN_ULONG h user_type,
        module_IN_BYTE_ARRAY h pin pin_len]
       module_OUT_none ()"

definition module_C_Logout :: "heap \<Rightarrow> 'w NET \<Rightarrow> CK_ULONG \<Rightarrow> (unit, 'w)
    stub" where
  "module_C_Logout h net session =
     module_call h net 22
       [module_IN_ULONG h session]
       module_OUT_none ()"

definition module_C_CreateObject :: "heap \<Rightarrow> 'w NET \<Rightarrow> CK_ULONG \<Rightarrow>
    CK_ATTRIBUTE list option \<Rightarrow> CK_ULONG \<Rightarrow> CK_ULONG option \<Rightarrow> (CK_ULONG
    option, 'w) stub" where
  "module_C_CreateObject h net session templ count new_object =
     module_require (new_object \<noteq> None) new_object (module_call h net 23
       [module_IN_ULONG h session,
        module_IN_ATTRIBUTE_ARRAY h templ count]
       module_OUT_ULONG new_object)"

definition module_C_CopyObject :: "heap \<Rightarrow> 'w NET \<Rightarrow> CK_ULONG \<Rightarrow> CK_ULONG
    \<Rightarrow> CK_ATTRIBUTE list option \<Rightarrow> CK_ULONG \<Rightarrow> CK_ULONG option \<Rightarrow>
    (CK_ULONG option, 'w) stub" where
  "module_C_CopyObject h net session obj templ count new_object =
     module_require (new_object \<noteq> None) new_object (module_call h net 24
       [module_IN_ULONG h session,
        module_IN_ULONG h obj,
        module_IN_ATTRIBUTE_ARRAY h templ count]
       module_OUT_ULONG new_object)"

definition module_C_DestroyObject :: "heap \<Rightarrow> 'w NET \<Rightarrow> CK_ULONG \<Rightarrow>
    CK_ULONG \<Rightarrow> (unit, 'w) stub" where
  "module_C_DestroyObject h net session obj =
     module_call h net 25
       [module_IN_ULONG h session,
        module_IN_ULONG h obj]
       module_OUT_none ()"

definition module_C_GetObjectSize :: "heap \<Rightarrow> 'w NET \<Rightarrow> CK_ULONG \<Rightarrow>
    CK_ULONG \<Rightarrow> CK_ULONG option \<Rightarrow> (CK_ULONG option, 'w) stub" where
  "module_C_GetObjectSize h net session obj sz =
     module_require (sz \<noteq> None) sz (module_call h net 26
       [module_IN_ULONG h session,
        module_IN_ULONG h obj]
       module_OUT_ULONG sz)"

definition module_C_GetAttributeValue :: "heap \<Rightarrow> 'w NET \<Rightarrow> CK_ULONG \<Rightarrow>
    CK_ULONG \<Rightarrow> CK_ATTRIBUTE list option \<Rightarrow> CK_ULONG \<Rightarrow> (CK_ATTRIBUTE list
    option, 'w) stub" where
  "module_C_GetAttributeValue h net session obj templ count =
     module_call h net 27
       [module_IN_ULONG h session,
        module_IN_ULONG h obj,
        module_IN_ATTRIBUTE_BUFFER h templ count]
       (module_OUT_ATTRIBUTE_ARRAY count) templ"

definition module_C_SetAttributeValue :: "heap \<Rightarrow> 'w NET \<Rightarrow> CK_ULONG \<Rightarrow>
    CK_ULONG \<Rightarrow> CK_ATTRIBUTE list option \<Rightarrow> CK_ULONG \<Rightarrow> (unit, 'w) stub"
    where
  "module_C_SetAttributeValue h net session obj templ count =
     module_call h net 28
       [module_IN_ULONG h session,
        module_IN_ULONG h obj,
        module_IN_ATTRIBUTE_ARRAY h templ count]
       module_OUT_none ()"

definition module_C_FindObjectsInit :: "heap \<Rightarrow> 'w NET \<Rightarrow> CK_ULONG \<Rightarrow>
    CK_ATTRIBUTE list option \<Rightarrow> CK_ULONG \<Rightarrow> (unit, 'w) stub" where
  "module_C_FindObjectsInit h net session templ count =
     module_call h net 29
       [module_IN_ULONG h session,
        module_IN_ATTRIBUTE_ARRAY h templ count]
       module_OUT_none ()"

definition module_C_FindObjects :: "heap \<Rightarrow> 'w NET \<Rightarrow> JUNK \<Rightarrow> CK_ULONG
    \<Rightarrow> CK_ULONG list option \<Rightarrow> CK_ULONG \<Rightarrow> CK_ULONG option \<Rightarrow>
    ((CK_ULONG list option \<times> CK_ULONG option), 'w) stub" where
  "module_C_FindObjects h net junk session objects max_count count =
     module_require (count \<noteq> None) (objects, count) (module_call h net 30
       [module_IN_ULONG h session,
        module_IN_ULONG_BUFFER h objects (Some max_count)]
       (\<lambda>ret _. module_OUT_ULONG_ARRAY junk ret (objects, Some max_count)) (objects, count))"

definition module_C_FindObjectsFinal :: "heap \<Rightarrow> 'w NET \<Rightarrow> CK_ULONG \<Rightarrow>
    (unit, 'w) stub" where
  "module_C_FindObjectsFinal h net session =
     module_call h net 31
       [module_IN_ULONG h session]
       module_OUT_none ()"

definition module_C_EncryptInit :: "heap \<Rightarrow> 'w NET \<Rightarrow> CK_ULONG \<Rightarrow>
    CK_MECHANISM option \<Rightarrow> CK_ULONG \<Rightarrow> (unit, 'w) stub" where
  "module_C_EncryptInit h net session mech key =
     module_call h net 32
       [module_IN_ULONG h session,
        module_IN_MECHANISM h mech,
        module_IN_ULONG h key]
       module_OUT_none ()"

definition module_C_Encrypt :: "heap \<Rightarrow> 'w NET \<Rightarrow> JUNK \<Rightarrow> CK_ULONG
    \<Rightarrow> bytes option \<Rightarrow> CK_ULONG \<Rightarrow> bytes option \<Rightarrow> CK_ULONG
    option \<Rightarrow> ((bytes option \<times> CK_ULONG option), 'w) stub" where
  "module_C_Encrypt h net junk session data data_len encrypted_data encrypted_data_len =
     module_require (encrypted_data_len \<noteq> None) (encrypted_data, encrypted_data_len) (module_call h net 33
       [module_IN_ULONG h session,
        module_IN_BYTE_ARRAY h data data_len,
        module_IN_BYTE_BUFFER h encrypted_data encrypted_data_len]
       (module_OUT_BYTE_ARRAY junk) (encrypted_data, encrypted_data_len))"

definition module_C_EncryptUpdate :: "heap \<Rightarrow> 'w NET \<Rightarrow> JUNK \<Rightarrow> CK_ULONG
    \<Rightarrow> bytes option \<Rightarrow> CK_ULONG \<Rightarrow> bytes option \<Rightarrow> CK_ULONG
    option \<Rightarrow> ((bytes option \<times> CK_ULONG option), 'w) stub" where
  "module_C_EncryptUpdate h net junk session prt part_len encrypted_part encrypted_part_len =
     module_require (encrypted_part_len \<noteq> None) (encrypted_part, encrypted_part_len) (module_call h net 34
       [module_IN_ULONG h session,
        module_IN_BYTE_ARRAY h prt part_len,
        module_IN_BYTE_BUFFER h encrypted_part encrypted_part_len]
       (module_OUT_BYTE_ARRAY junk) (encrypted_part, encrypted_part_len))"

definition module_C_EncryptFinal :: "heap \<Rightarrow> 'w NET \<Rightarrow> JUNK \<Rightarrow> CK_ULONG
    \<Rightarrow> bytes option \<Rightarrow> CK_ULONG option \<Rightarrow> ((bytes option \<times> CK_ULONG
    option), 'w) stub" where
  "module_C_EncryptFinal h net junk session last_part last_part_len =
     module_require (last_part_len \<noteq> None) (last_part, last_part_len) (module_call h net 35
       [module_IN_ULONG h session,
        module_IN_BYTE_BUFFER h last_part last_part_len]
       (module_OUT_BYTE_ARRAY junk) (last_part, last_part_len))"

definition module_C_DecryptInit :: "heap \<Rightarrow> 'w NET \<Rightarrow> CK_ULONG \<Rightarrow>
    CK_MECHANISM option \<Rightarrow> CK_ULONG \<Rightarrow> (unit, 'w) stub" where
  "module_C_DecryptInit h net session mech key =
     module_call h net 36
       [module_IN_ULONG h session,
        module_IN_MECHANISM h mech,
        module_IN_ULONG h key]
       module_OUT_none ()"

definition module_C_Decrypt :: "heap \<Rightarrow> 'w NET \<Rightarrow> JUNK \<Rightarrow> CK_ULONG
    \<Rightarrow> bytes option \<Rightarrow> CK_ULONG \<Rightarrow> bytes option \<Rightarrow> CK_ULONG
    option \<Rightarrow> ((bytes option \<times> CK_ULONG option), 'w) stub" where
  "module_C_Decrypt h net junk session enc_data enc_data_len data data_len =
     module_require (data_len \<noteq> None) (data, data_len) (module_call h net 37
       [module_IN_ULONG h session,
        module_IN_BYTE_ARRAY h enc_data enc_data_len,
        module_IN_BYTE_BUFFER h data data_len]
       (module_OUT_BYTE_ARRAY junk) (data, data_len))"

definition module_C_DecryptUpdate :: "heap \<Rightarrow> 'w NET \<Rightarrow> JUNK \<Rightarrow> CK_ULONG
    \<Rightarrow> bytes option \<Rightarrow> CK_ULONG \<Rightarrow> bytes option \<Rightarrow> CK_ULONG
    option \<Rightarrow> ((bytes option \<times> CK_ULONG option), 'w) stub" where
  "module_C_DecryptUpdate h net junk session enc_part enc_part_len prt part_len =
     module_require (part_len \<noteq> None) (prt, part_len) (module_call h net 38
       [module_IN_ULONG h session,
        module_IN_BYTE_ARRAY h enc_part enc_part_len,
        module_IN_BYTE_BUFFER h prt part_len]
       (module_OUT_BYTE_ARRAY junk) (prt, part_len))"

definition module_C_DecryptFinal :: "heap \<Rightarrow> 'w NET \<Rightarrow> JUNK \<Rightarrow> CK_ULONG
    \<Rightarrow> bytes option \<Rightarrow> CK_ULONG option \<Rightarrow> ((bytes option \<times> CK_ULONG
    option), 'w) stub" where
  "module_C_DecryptFinal h net junk session last_part last_part_len =
     module_require (last_part_len \<noteq> None) (last_part, last_part_len) (module_call h net 39
       [module_IN_ULONG h session,
        module_IN_BYTE_BUFFER h last_part last_part_len]
       (module_OUT_BYTE_ARRAY junk) (last_part, last_part_len))"

definition module_C_DigestInit :: "heap \<Rightarrow> 'w NET \<Rightarrow> CK_ULONG \<Rightarrow>
    CK_MECHANISM option \<Rightarrow> (unit, 'w) stub" where
  "module_C_DigestInit h net session mech =
     module_call h net 40
       [module_IN_ULONG h session,
        module_IN_MECHANISM h mech]
       module_OUT_none ()"

definition module_C_Digest :: "heap \<Rightarrow> 'w NET \<Rightarrow> JUNK \<Rightarrow> CK_ULONG
    \<Rightarrow> bytes option \<Rightarrow> CK_ULONG \<Rightarrow> bytes option \<Rightarrow> CK_ULONG
    option \<Rightarrow> ((bytes option \<times> CK_ULONG option), 'w) stub" where
  "module_C_Digest h net junk session data data_len digest digest_len =
     module_require (digest_len \<noteq> None) (digest, digest_len) (module_call h net 41
       [module_IN_ULONG h session,
        module_IN_BYTE_ARRAY h data data_len,
        module_IN_BYTE_BUFFER h digest digest_len]
       (module_OUT_BYTE_ARRAY junk) (digest, digest_len))"

definition module_C_DigestUpdate :: "heap \<Rightarrow> 'w NET \<Rightarrow> CK_ULONG \<Rightarrow> bytes
    option \<Rightarrow> CK_ULONG \<Rightarrow> (unit, 'w) stub" where
  "module_C_DigestUpdate h net session prt part_len =
     module_call h net 42
       [module_IN_ULONG h session,
        module_IN_BYTE_ARRAY h prt part_len]
       module_OUT_none ()"

definition module_C_DigestKey :: "heap \<Rightarrow> 'w NET \<Rightarrow> CK_ULONG \<Rightarrow> CK_ULONG
    \<Rightarrow> (unit, 'w) stub" where
  "module_C_DigestKey h net session key =
     module_call h net 43
       [module_IN_ULONG h session,
        module_IN_ULONG h key]
       module_OUT_none ()"

definition module_C_DigestFinal :: "heap \<Rightarrow> 'w NET \<Rightarrow> JUNK \<Rightarrow> CK_ULONG
    \<Rightarrow> bytes option \<Rightarrow> CK_ULONG option \<Rightarrow> ((bytes option \<times> CK_ULONG
    option), 'w) stub" where
  "module_C_DigestFinal h net junk session digest digest_len =
     module_require (digest_len \<noteq> None) (digest, digest_len) (module_call h net 44
       [module_IN_ULONG h session,
        module_IN_BYTE_BUFFER h digest digest_len]
       (module_OUT_BYTE_ARRAY junk) (digest, digest_len))"

definition module_C_SignInit :: "heap \<Rightarrow> 'w NET \<Rightarrow> CK_ULONG \<Rightarrow>
    CK_MECHANISM option \<Rightarrow> CK_ULONG \<Rightarrow> (unit, 'w) stub" where
  "module_C_SignInit h net session mech key =
     module_call h net 45
       [module_IN_ULONG h session,
        module_IN_MECHANISM h mech,
        module_IN_ULONG h key]
       module_OUT_none ()"

definition module_C_Sign :: "heap \<Rightarrow> 'w NET \<Rightarrow> JUNK \<Rightarrow> CK_ULONG
    \<Rightarrow> bytes option \<Rightarrow> CK_ULONG \<Rightarrow> bytes option \<Rightarrow> CK_ULONG
    option \<Rightarrow> ((bytes option \<times> CK_ULONG option), 'w) stub" where
  "module_C_Sign h net junk session data data_len sgnt sgnt_len =
     module_require (sgnt_len \<noteq> None) (sgnt, sgnt_len) (module_call h net 46
       [module_IN_ULONG h session,
        module_IN_BYTE_ARRAY h data data_len,
        module_IN_BYTE_BUFFER h sgnt sgnt_len]
       (module_OUT_BYTE_ARRAY junk) (sgnt, sgnt_len))"

definition module_C_SignUpdate :: "heap \<Rightarrow> 'w NET \<Rightarrow> CK_ULONG \<Rightarrow> bytes
    option \<Rightarrow> CK_ULONG \<Rightarrow> (unit, 'w) stub" where
  "module_C_SignUpdate h net session prt part_len =
     module_require (part_len \<noteq> 0) () (module_call h net 47
       [module_IN_ULONG h session,
        module_IN_BYTE_ARRAY h prt part_len]
       module_OUT_none ())"

definition module_C_SignFinal :: "heap \<Rightarrow> 'w NET \<Rightarrow> JUNK \<Rightarrow> CK_ULONG
    \<Rightarrow> bytes option \<Rightarrow> CK_ULONG option \<Rightarrow> ((bytes option \<times> CK_ULONG
    option), 'w) stub" where
  "module_C_SignFinal h net junk session sgnt sgnt_len =
     module_require (sgnt_len \<noteq> None) (sgnt, sgnt_len) (module_call h net 48
       [module_IN_ULONG h session,
        module_IN_BYTE_BUFFER h sgnt sgnt_len]
       (module_OUT_BYTE_ARRAY junk) (sgnt, sgnt_len))"

definition module_C_SignRecoverInit :: "heap \<Rightarrow> 'w NET \<Rightarrow> CK_ULONG \<Rightarrow>
    CK_MECHANISM option \<Rightarrow> CK_ULONG \<Rightarrow> (unit, 'w) stub" where
  "module_C_SignRecoverInit h net session mech key =
     module_call h net 49
       [module_IN_ULONG h session,
        module_IN_MECHANISM h mech,
        module_IN_ULONG h key]
       module_OUT_none ()"

definition module_C_SignRecover :: "heap \<Rightarrow> 'w NET \<Rightarrow> JUNK \<Rightarrow> CK_ULONG
    \<Rightarrow> bytes option \<Rightarrow> CK_ULONG \<Rightarrow> bytes option \<Rightarrow> CK_ULONG
    option \<Rightarrow> ((bytes option \<times> CK_ULONG option), 'w) stub" where
  "module_C_SignRecover h net junk session data data_len sgnt sgnt_len =
     module_require (sgnt_len \<noteq> None) (sgnt, sgnt_len) (module_call h net 50
       [module_IN_ULONG h session,
        module_IN_BYTE_ARRAY h data data_len,
        module_IN_BYTE_BUFFER h sgnt sgnt_len]
       (module_OUT_BYTE_ARRAY junk) (sgnt, sgnt_len))"

definition module_C_VerifyInit :: "heap \<Rightarrow> 'w NET \<Rightarrow> CK_ULONG \<Rightarrow>
    CK_MECHANISM option \<Rightarrow> CK_ULONG \<Rightarrow> (unit, 'w) stub" where
  "module_C_VerifyInit h net session mech key =
     module_call h net 51
       [module_IN_ULONG h session,
        module_IN_MECHANISM h mech,
        module_IN_ULONG h key]
       module_OUT_none ()"

definition module_C_Verify :: "heap \<Rightarrow> 'w NET \<Rightarrow> CK_ULONG \<Rightarrow> bytes option
    \<Rightarrow> CK_ULONG \<Rightarrow> bytes option \<Rightarrow> CK_ULONG \<Rightarrow> (unit, 'w) stub"
    where
  "module_C_Verify h net session data data_len sgnt sgnt_len =
     module_call h net 52
       [module_IN_ULONG h session,
        module_IN_BYTE_ARRAY h data data_len,
        module_IN_BYTE_ARRAY h sgnt sgnt_len]
       module_OUT_none ()"

definition module_C_VerifyUpdate :: "heap \<Rightarrow> 'w NET \<Rightarrow> CK_ULONG \<Rightarrow> bytes
    option \<Rightarrow> CK_ULONG \<Rightarrow> (unit, 'w) stub" where
  "module_C_VerifyUpdate h net session prt part_len =
     module_call h net 53
       [module_IN_ULONG h session,
        module_IN_BYTE_ARRAY h prt part_len]
       module_OUT_none ()"

definition module_C_VerifyFinal :: "heap \<Rightarrow> 'w NET \<Rightarrow> CK_ULONG \<Rightarrow> bytes
    option \<Rightarrow> CK_ULONG \<Rightarrow> (unit, 'w) stub" where
  "module_C_VerifyFinal h net session sgnt sgnt_len =
     module_call h net 54
       [module_IN_ULONG h session,
        module_IN_BYTE_ARRAY h sgnt sgnt_len]
       module_OUT_none ()"

definition module_C_VerifyRecoverInit :: "heap \<Rightarrow> 'w NET \<Rightarrow> CK_ULONG \<Rightarrow>
    CK_MECHANISM option \<Rightarrow> CK_ULONG \<Rightarrow> (unit, 'w) stub" where
  "module_C_VerifyRecoverInit h net session mech key =
     module_call h net 55
       [module_IN_ULONG h session,
        module_IN_MECHANISM h mech,
        module_IN_ULONG h key]
       module_OUT_none ()"

definition module_C_VerifyRecover :: "heap \<Rightarrow> 'w NET \<Rightarrow> JUNK \<Rightarrow> CK_ULONG
    \<Rightarrow> bytes option \<Rightarrow> CK_ULONG \<Rightarrow> bytes option \<Rightarrow> CK_ULONG
    option \<Rightarrow> ((bytes option \<times> CK_ULONG option), 'w) stub" where
  "module_C_VerifyRecover h net junk session sgnt sgnt_len data data_len =
     module_require (data_len \<noteq> None) (data, data_len) (module_call h net 56
       [module_IN_ULONG h session,
        module_IN_BYTE_ARRAY h sgnt sgnt_len,
        module_IN_BYTE_BUFFER h data data_len]
       (module_OUT_BYTE_ARRAY junk) (data, data_len))"

definition module_C_DigestEncryptUpdate :: "heap \<Rightarrow> 'w NET \<Rightarrow> JUNK \<Rightarrow>
    CK_ULONG \<Rightarrow> bytes option \<Rightarrow> CK_ULONG \<Rightarrow> bytes option \<Rightarrow>
    CK_ULONG option \<Rightarrow> ((bytes option \<times> CK_ULONG option), 'w) stub" where
  "module_C_DigestEncryptUpdate h net junk session prt part_len enc_part enc_part_len =
     module_require (enc_part_len \<noteq> None) (enc_part, enc_part_len) (module_call h net 57
       [module_IN_ULONG h session,
        module_IN_BYTE_ARRAY h prt part_len,
        module_IN_BYTE_BUFFER h enc_part enc_part_len]
       (module_OUT_BYTE_ARRAY junk) (enc_part, enc_part_len))"

definition module_C_DecryptDigestUpdate :: "heap \<Rightarrow> 'w NET \<Rightarrow> JUNK \<Rightarrow>
    CK_ULONG \<Rightarrow> bytes option \<Rightarrow> CK_ULONG \<Rightarrow> bytes option \<Rightarrow>
    CK_ULONG option \<Rightarrow> ((bytes option \<times> CK_ULONG option), 'w) stub" where
  "module_C_DecryptDigestUpdate h net junk session enc_part enc_part_len prt part_len =
     module_require (part_len \<noteq> None) (prt, part_len) (module_call h net 58
       [module_IN_ULONG h session,
        module_IN_BYTE_ARRAY h enc_part enc_part_len,
        module_IN_BYTE_BUFFER h prt part_len]
       (module_OUT_BYTE_ARRAY junk) (prt, part_len))"

definition module_C_SignEncryptUpdate :: "heap \<Rightarrow> 'w NET \<Rightarrow> JUNK \<Rightarrow>
    CK_ULONG \<Rightarrow> bytes option \<Rightarrow> CK_ULONG \<Rightarrow> bytes option \<Rightarrow>
    CK_ULONG option \<Rightarrow> ((bytes option \<times> CK_ULONG option), 'w) stub" where
  "module_C_SignEncryptUpdate h net junk session prt part_len enc_part enc_part_len =
     module_require (enc_part_len \<noteq> None) (enc_part, enc_part_len) (module_call h net 59
       [module_IN_ULONG h session,
        module_IN_BYTE_ARRAY h prt part_len,
        module_IN_BYTE_BUFFER h enc_part enc_part_len]
       (module_OUT_BYTE_ARRAY junk) (enc_part, enc_part_len))"

definition module_C_DecryptVerifyUpdate :: "heap \<Rightarrow> 'w NET \<Rightarrow> JUNK \<Rightarrow>
    CK_ULONG \<Rightarrow> bytes option \<Rightarrow> CK_ULONG \<Rightarrow> bytes option \<Rightarrow>
    CK_ULONG option \<Rightarrow> ((bytes option \<times> CK_ULONG option), 'w) stub" where
  "module_C_DecryptVerifyUpdate h net junk session enc_part enc_part_len prt part_len =
     module_require (part_len \<noteq> None) (prt, part_len) (module_call h net 60
       [module_IN_ULONG h session,
        module_IN_BYTE_ARRAY h enc_part enc_part_len,
        module_IN_BYTE_BUFFER h prt part_len]
       (module_OUT_BYTE_ARRAY junk) (prt, part_len))"

definition module_C_GenerateKey :: "heap \<Rightarrow> 'w NET \<Rightarrow> CK_ULONG \<Rightarrow>
    CK_MECHANISM option \<Rightarrow> CK_ATTRIBUTE list option \<Rightarrow> CK_ULONG \<Rightarrow> CK_ULONG
    option \<Rightarrow> (CK_ULONG option, 'w) stub" where
  "module_C_GenerateKey h net session mech templ count key =
     module_call h net 61
       [module_IN_ULONG h session,
        module_IN_MECHANISM h mech,
        module_IN_ATTRIBUTE_ARRAY h templ count]
       module_OUT_ULONG key"

definition module_C_GenerateKeyPair :: "heap \<Rightarrow> 'w NET \<Rightarrow> CK_ULONG \<Rightarrow>
    CK_MECHANISM option \<Rightarrow> CK_ATTRIBUTE list option \<Rightarrow> CK_ULONG \<Rightarrow>
    CK_ATTRIBUTE list option \<Rightarrow> CK_ULONG \<Rightarrow> CK_ULONG option \<Rightarrow> CK_ULONG
    option \<Rightarrow> ((CK_ULONG option \<times> CK_ULONG option), 'w) stub" where
  "module_C_GenerateKeyPair h net session mech pub_template pub_count priv_template priv_count pub_key priv_key =
     module_call h net 62
       [module_IN_ULONG h session,
        module_IN_MECHANISM h mech,
        module_IN_ATTRIBUTE_ARRAY h pub_template pub_count,
        module_IN_ATTRIBUTE_ARRAY h priv_template priv_count]
       (module_OUT_then module_OUT_ULONG module_OUT_ULONG) (pub_key, priv_key)"

definition module_C_WrapKey :: "heap \<Rightarrow> 'w NET \<Rightarrow> JUNK \<Rightarrow> CK_ULONG
    \<Rightarrow> CK_MECHANISM option \<Rightarrow> CK_ULONG \<Rightarrow> CK_ULONG \<Rightarrow> bytes
    option \<Rightarrow> CK_ULONG option \<Rightarrow> ((bytes option \<times> CK_ULONG option), 'w) stub"
    where
  "module_C_WrapKey h net junk session mech wrapping_key key wrapped_key wrapped_key_len =
     module_require (wrapped_key_len \<noteq> None) (wrapped_key, wrapped_key_len) (module_call h net 63
       [module_IN_ULONG h session,
        module_IN_MECHANISM h mech,
        module_IN_ULONG h wrapping_key,
        module_IN_ULONG h key,
        module_IN_BYTE_BUFFER h wrapped_key wrapped_key_len]
       (module_OUT_BYTE_ARRAY junk) (wrapped_key, wrapped_key_len))"

definition module_C_UnwrapKey :: "heap \<Rightarrow> 'w NET \<Rightarrow> CK_ULONG \<Rightarrow>
    CK_MECHANISM option \<Rightarrow> CK_ULONG \<Rightarrow> bytes option \<Rightarrow> CK_ULONG
    \<Rightarrow> CK_ATTRIBUTE list option \<Rightarrow> CK_ULONG \<Rightarrow> CK_ULONG option \<Rightarrow>
    (CK_ULONG option, 'w) stub" where
  "module_C_UnwrapKey h net session mech unwrapping_key wrapped_key wrapped_key_len templ count key =
     module_call h net 64
       [module_IN_ULONG h session,
        module_IN_MECHANISM h mech,
        module_IN_ULONG h unwrapping_key,
        module_IN_BYTE_ARRAY h wrapped_key wrapped_key_len,
        module_IN_ATTRIBUTE_ARRAY h templ count]
       module_OUT_ULONG key"

definition module_C_DeriveKey :: "heap \<Rightarrow> 'w NET \<Rightarrow> CK_ULONG \<Rightarrow>
    CK_MECHANISM option \<Rightarrow> CK_ULONG \<Rightarrow> CK_ATTRIBUTE list option \<Rightarrow> CK_ULONG
    \<Rightarrow> CK_ULONG option \<Rightarrow> (CK_ULONG option, 'w) stub" where
  "module_C_DeriveKey h net session mech base_key templ count key =
     module_call h net 65
       [module_IN_ULONG h session,
        module_IN_MECHANISM h mech,
        module_IN_ULONG h base_key,
        module_IN_ATTRIBUTE_ARRAY h templ count]
       module_OUT_ULONG key"

definition module_C_SeedRandom :: "heap \<Rightarrow> 'w NET \<Rightarrow> CK_ULONG \<Rightarrow> bytes
    option \<Rightarrow> CK_ULONG \<Rightarrow> (unit, 'w) stub" where
  "module_C_SeedRandom h net session seed seed_len =
     module_call h net 66
       [module_IN_ULONG h session,
        module_IN_BYTE_ARRAY h seed seed_len]
       module_OUT_none ()"

definition module_C_GenerateRandom :: "heap \<Rightarrow> 'w NET \<Rightarrow> JUNK \<Rightarrow> CK_ULONG
    \<Rightarrow> bytes option \<Rightarrow> CK_ULONG \<Rightarrow> ((bytes option \<times> CK_ULONG option),
    'w) stub" where
  "module_C_GenerateRandom h net junk session random_data random_len =
     module_call h net 67
       [module_IN_ULONG h session,
        module_IN_BYTE_BUFFER h random_data (Some random_len)]
       (module_OUT_BYTE_ARRAY junk) (random_data, (Some random_len))"

end
