(* ===== verification/EggCodec.thy ===== *)
theory EggCodec
  imports EggBuffer
begin

text \<open>
  Contracts for code that writes to buffers on memory that suffices, and for readers in sequence: what a writer adds and
  what a reader finds is put together as the code puts the calls together.
\<close>

abbreviation G_realloc :: allocator where "G_realloc \<equiv> Allocator 1"
abbreviation Egg_secure_realloc :: allocator where "Egg_secure_realloc \<equiv> Allocator 2"

section \<open>Writers\<close>

text \<open>An allocator that gives what is asked for, and a buffer that can grow by \<open>n\<close> bytes.\<close>

locale granting = egg_allocator +
  assumes grant: "n < 2 ^ 47 \<Longrightarrow> h a old n \<noteq> None"

definition room :: "EggBuffer \<Rightarrow> nat \<Rightarrow> bool" where
  "room b n \<longleftrightarrow> eb_wf b \<and> eb_allocator b \<noteq> None \<and> eb_failures b = 0 \<and> eb_len b + n < 2 ^ 45"

definition writes :: "(EggBuffer \<Rightarrow> (bool \<times> EggBuffer) option) \<Rightarrow> bytes \<Rightarrow> bool" where
  "writes w bs \<longleftrightarrow> (\<forall>b. room b (length bs) \<longrightarrow> (\<exists>b'. w b = Some (True, b') \<and> eb_wf b' \<and> eb_contents b' = eb_contents b @ bs
     \<and> eb_allocator b' = eb_allocator b \<and> eb_failures b' = 0))"

lemma writesE:
  assumes "writes w bs" and "room b (length bs + k)"
  obtains b' where "w b = Some (True, b')" "room b' k" "eb_contents b' = eb_contents b @ bs" "eb_allocator b' = eb_allocator b"
proof -
  from assms(2) have r: "room b (length bs)" and wf: "eb_wf b" and len: "eb_len b + (length bs + k) < 2 ^ 45" by (auto simp: room_def)
  from assms(1) r obtain b' where b': "w b = Some (True, b')" "eb_wf b'" "eb_contents b' = eb_contents b @ bs"
    "eb_allocator b' = eb_allocator b" "eb_failures b' = 0" unfolding writes_def by blast
  have "eb_len b' = eb_len b + length bs" using length_eb_contents [OF b'(2)] length_eb_contents [OF wf] b'(3) by simp
  then have "room b' k" using b' len assms(2) by (auto simp: room_def)
  then show thesis using b' that by blast
qed

lemma writes_check:
  assumes "writes w1 bs1" and "writes w2 bs2"
  shows "writes (\<lambda>b. do { (ok, b1) \<leftarrow> w1 b; if \<not> ok then f b1 else w2 b1 }) (bs1 @ bs2)"
  unfolding writes_def
proof (intro allI impI)
  fix b assume "room b (length (bs1 @ bs2))"
  then have r: "room b (length bs1 + length bs2)" by simp
  from writesE [OF assms(1) r] obtain b1 where 1: "w1 b = Some (True, b1)" "room b1 (length bs2)" "eb_contents b1 = eb_contents b @ bs1"
    "eb_allocator b1 = eb_allocator b" by blast
  from assms(2) 1(2) obtain b2 where "w2 b1 = Some (True, b2)" "eb_wf b2" "eb_contents b2 = eb_contents b1 @ bs2"
    "eb_allocator b2 = eb_allocator b1" "eb_failures b2 = 0" unfolding writes_def by blast
  with 1 show "\<exists>b'. do { (ok, b1) \<leftarrow> w1 b; if \<not> ok then f b1 else w2 b1 } = Some (True, b') \<and> eb_wf b' \<and> eb_contents b' = eb_contents b @ bs1 @ bs2
      \<and> eb_allocator b' = eb_allocator b \<and> eb_failures b' = 0" by auto
qed

lemma writes_ignore:
  assumes "writes w1 bs1" and "writes w2 bs2"
  shows "writes (\<lambda>b. do { (_, b1) \<leftarrow> w1 b; w2 b1 }) (bs1 @ bs2)"
  using writes_check [OF assms, of w2] by simp

lemma writes_end: "writes (\<lambda>b. Some (True, b)) []" "writes (\<lambda>b. Some (\<not> egg_buffer_has_error b, b)) []"
  by (auto simp: writes_def room_def egg_buffer_has_error_def)

text \<open>Writers that give only the buffer.\<close>

definition writes0 :: "(EggBuffer \<Rightarrow> EggBuffer option) \<Rightarrow> bytes \<Rightarrow> bool" where
  "writes0 w bs \<longleftrightarrow> writes (\<lambda>b. map_option (Pair True) (w b)) bs"

lemma writes0_bind:
  assumes "writes0 w1 bs1" and "writes w2 bs2"
  shows "writes (\<lambda>b. do { b1 \<leftarrow> w1 b; w2 b1 }) (bs1 @ bs2)"
proof -
  have "(\<lambda>b. do { b1 \<leftarrow> w1 b; w2 b1 }) = (\<lambda>b. do { (_, b1) \<leftarrow> map_option (Pair True) (w1 b); w2 b1 })"
    by (rule ext) (auto split: Option.bind_split)
  with writes_ignore [OF assms [unfolded writes0_def]] show ?thesis by simp
qed

lemma writes0_ignore:
  assumes "writes w1 bs1" and "writes0 w2 bs2"
  shows "writes0 (\<lambda>b. do { (_, b1) \<leftarrow> w1 b; w2 b1 }) (bs1 @ bs2)"
proof -
  have "(\<lambda>b. map_option (Pair True) (do { (_, b1) \<leftarrow> w1 b; w2 b1 })) = (\<lambda>b. do { (_, b1) \<leftarrow> w1 b; map_option (Pair True) (w2 b1) })"
    by (rule ext) (auto split: Option.bind_split)
  with writes_ignore [OF assms [unfolded writes0_def]] show ?thesis by (simp add: writes0_def)
qed

lemma writes0_seq:
  assumes "writes0 w1 bs1" and "writes0 w2 bs2"
  shows "writes0 (\<lambda>b. do { b1 \<leftarrow> w1 b; w2 b1 }) (bs1 @ bs2)"
proof -
  have "(\<lambda>b. map_option (Pair True) (do { b1 \<leftarrow> w1 b; w2 b1 })) = (\<lambda>b. do { b1 \<leftarrow> w1 b; map_option (Pair True) (w2 b1) })"
    by (rule ext) (auto split: Option.bind_split)
  with writes0_bind [OF assms(1) assms(2) [unfolded writes0_def]] show ?thesis by (simp add: writes0_def)
qed

lemma writes0_end: "writes0 Some []"
  using writes_end(1) by (simp add: writes0_def)

lemma writes0_eq: "writes0 w bs \<Longrightarrow> bs = bs' \<Longrightarrow> writes0 w bs'"
  by simp

lemma writes_eq: "writes w bs \<Longrightarrow> bs = bs' \<Longrightarrow> writes w bs'"
  by simp

context granting
begin

lemma reserve_grants:
  assumes "room b n"
  obtains b' where "egg_buffer_reserve h (eb_len b + n) b = (True, b')"
proof (cases "eb_len b + n < eb_allocated_len b")
  case True
  then show thesis by (intro that [of b]) (simp add: egg_buffer_reserve_def)
next
  case False
  let ?n = "eb_len b + n" and ?l = "eb_allocated_len b"
  let ?nl = "if ?n > 2 * ?l then 2 * ?l + ?n else 2 * ?l"
  have small: "?n < 2 ^ 45" using assms by (simp add: room_def)
  obtain a where a: "eb_allocator b = Some a" using assms by (auto simp: room_def)
  have "?nl < 2 ^ 47" using False small by simp
  then have "h a (eb_buf b) ?nl \<noteq> None" by (rule grant)
  moreover have "(let newlen = size_mul ?l 2 in if ?n > newlen then size_add newlen ?n else newlen) = ?nl"
    using False small by (simp add: Let_def size_add_def size_mul_def)
  ultimately show thesis using False a that by (auto simp: egg_buffer_reserve_def Let_def)
qed

lemma append_writes: "writes (egg_buffer_append h bs) bs"
  unfolding writes_def
proof (intro allI impI)
  fix b assume r: "room b (length bs)"
  have wf: "eb_wf b" and small: "eb_len b + length bs < 2 ^ 45" using r by (simp_all add: room_def)
  have sum: "size_add (eb_len b) (length bs) = eb_len b + length bs" using small by (simp add: size_add_def)
  have "length bs < 2 ^ 62" using small by simp
  from append_emits [OF this] wf show "\<exists>b'. egg_buffer_append h bs b = Some (True, b') \<and> eb_wf b'
      \<and> eb_contents b' = eb_contents b @ bs \<and> eb_allocator b' = eb_allocator b \<and> eb_failures b' = 0"
  proof (cases rule: emits_cases)
    case (ok b')
    with r show ?thesis by (auto simp: room_def)
  next
    case (fail b' junk)
    from reserve_grants [OF r] obtain m where "egg_buffer_reserve h (eb_len b + length bs) b = (True, m)" .
    with fail(1) show ?thesis by (auto simp: egg_buffer_append_def sum split: Option.bind_split_asm)
  qed
qed

lemma add_byte_writes: "writes (egg_buffer_add_byte h x) [x]"
proof -
  have "egg_buffer_add_byte h x = egg_buffer_append h [x]"
    by (rule ext) (simp add: egg_buffer_add_byte_def egg_buffer_append_def split: prod.split bool.split)
  with append_writes [of "[x]"] show ?thesis by simp
qed

lemma add_uint32_writes: "writes (egg_buffer_add_uint32 h v) (egg_buffer_encode_uint32 v)"
  using append_writes [of "egg_buffer_encode_uint32 v"] add_uint32_append unfolding writes_def room_def by metis

lemma add_byte_array_writes: "length_ok v \<Longrightarrow> writes (egg_buffer_add_byte_array h v) (encode_byte_array v)"
  using add_uint32_writes writes_check [OF add_uint32_writes append_writes]
  by (cases v) (simp_all add: egg_buffer_add_byte_array_def [abs_def] encode_byte_array_def length_ok_def)

end

section \<open>Readers\<close>

text \<open>Readers in sequence.\<close>

lemma parses_bind:
  assumes "parses g1 v1 bs1" and "parses (g2 v1) v2 bs2"
  shows "parses (\<lambda>b off. do { (r, b1) \<leftarrow> g1 b off; case r of None \<Rightarrow> Some (None, b1) | Some (x, off1) \<Rightarrow> g2 x b1 off1 }) v2 (bs1 @ bs2)"
  unfolding parses_def
proof (intro allI impI)
  fix b pre post assume wf: "eb_wf b" and c: "eb_contents b = pre @ (bs1 @ bs2) @ post"
  have "g1 b (length pre) = Some (Some (v1, length pre + length bs1), b)"
    by (rule parsesD [OF assms(1) wf, of _ "bs2 @ post"]) (simp add: c)
  moreover have "g2 v1 b (length pre + length bs1) = Some (Some (v2, length pre + length (bs1 @ bs2)), b)"
    by (rule parses_at [OF assms(2) wf, of "pre @ bs1" post]) (simp_all add: c)
  ultimately show "do { (r, b1) \<leftarrow> g1 b (length pre); case r of None \<Rightarrow> Some (None, b1) | Some (x, off1) \<Rightarrow> g2 x b1 off1 }
      = Some (Some (v2, length pre + length (bs1 @ bs2)), b)" by simp
qed

lemma parses_return: "parses (\<lambda>b off. Some (Some (v, off), b)) v []"
  by (simp add: parses_def)

lemma parses_eq: "parses g v bs \<Longrightarrow> bs = bs' \<Longrightarrow> v = v' \<Longrightarrow> parses g v' bs'"
  by simp

text \<open>\<^verbatim>\<open>realloc\<close> gives what is asked for.\<close>

interpretation libc_grants: granting libc_realloc
  by unfold_locales (simp add: libc_realloc_def Let_def)

lemma granting_libc: "granting libc_realloc"
  by (rule libc_grants.granting_axioms)

end
