(* ===== verification/RpcRemote.thy ===== *)
theory RpcRemote
  imports RpcServe RpcModule EggCodec
begin

text \<open>
  The two ends of the PKCS\#11 RPC protocol together. The outside world of a client is the daemon that
  serves its connection (theory \<open>RpcDispatch\<close>) with the PKCS\#11 module behind it: bytes that the client
  writes are what the daemon reads and the other way round. The theorems say that a call through the
  stubs of theory \<open>RpcModule\<close> is a call of the module in the daemon, where both ends are given the memory they ask for.
\<close>

subsection \<open>The connection\<close>

text \<open>
  \<open>wire\<close> is the daemon's socket: what there is to read and what was written. \<open>Peer\<close> is a connection as
  the client sees it, \<open>serve\<close> one round of the daemon's loop on it. The daemon is given the processor when the
  client waits for a response.
\<close>

definition wire :: "(bytes \<times> bytes) SOCKET" where
  "wire = \<lparr>sock_read = \<lambda>n w. (Inr (take n (fst w)), (drop n (fst w), snd w)),
           sock_write = \<lambda>d w. (Inr (length d), (fst w, snd w @ d)),
           sock_credentials = (\<lambda>w. w)\<rparr>"

record 's Peer =
  peer_in :: bytes
  peer_out :: bytes
  peer_up :: bool
  peer_cs :: CallState
  peer_module :: 's

definition serve :: "CK_RV \<Rightarrow> heap \<Rightarrow> 's CK_FUNCTION_LIST \<Rightarrow> 's Peer \<Rightarrow> 's Peer" where
  "serve junk g f w =
     (if \<not> peer_up w then w
      else case dispatch_round junk g f wire (peer_cs w, peer_module w, peer_in w, []) of
             None \<Rightarrow> w\<lparr>peer_up := False\<rparr>
           | Some (go, cs, s, w1) \<Rightarrow>
               w\<lparr>peer_in := fst w1, peer_out := snd w1, peer_up := go, peer_cs := cs, peer_module := s\<rparr>)"

definition peer_socket :: "CK_RV \<Rightarrow> heap \<Rightarrow> 's CK_FUNCTION_LIST \<Rightarrow> 's Peer SOCKET" where
  "peer_socket junk g f =
     \<lparr>sock_read = \<lambda>n w. let w1 = (if peer_out w = [] then serve junk g f w else w)
                        in (Inr (take n (peer_out w1)), w1\<lparr>peer_out := drop n (peer_out w1)\<rparr>),
      sock_write = \<lambda>d w. if peer_up w then (Inr (length d), w\<lparr>peer_in := peer_in w @ d\<rparr>) else (Inl SOCK_EPIPE, w),
      sock_credentials = (\<lambda>w. w)\<rparr>"

definition peer_net :: "CK_RV \<Rightarrow> heap \<Rightarrow> 's CK_FUNCTION_LIST \<Rightarrow> 's Peer NET" where
  "peer_net junk g f = \<lparr>net_connect = \<lambda>_ w. (None, w), net_close = \<lambda>_ w. w\<lparr>peer_up := False\<rparr>,
     net_socket = \<lambda>_. peer_socket junk g f, net_control = None, net_pid = 1\<rparr>"

lemma peer_net_simps [simp]:
  "net_socket (peer_net junk g f) fd = peer_socket junk g f"
  "net_close (peer_net junk g f) fd w = w\<lparr>peer_up := False\<rparr>"
  by (simp_all add: peer_net_def)

lemma wire_simps [simp]:
  "sock_read wire n w = (Inr (take n (fst w)), (drop n (fst w), snd w))"
  "sock_write wire d w = (Inr (length d), (fst w, snd w @ d))"
  by (simp_all add: wire_def)

lemma wire_read:
  assumes "0 < n" and "n \<le> length i"
  shows "read_all wire n (i, out) = Some (True, take n i, drop n i, out)"
proof -
  have "take n i \<noteq> []" using assms by auto
  with assms show ?thesis
    by (simp add: read_all_def read_loop.simps [of wire n] read_loop.simps [of wire 0] min_def)
qed

lemma wire_write: "d \<noteq> [] \<Longrightarrow> write_all wire d (i, out) = Some (True, i, out @ d)"
  by (simp add: write_all_def write_out.simps [of wire d] write_out.simps [of wire "[]"])

lemma wire_ok: "socket_ok (\<lambda>_. 0) wire"
  by (simp add: socket_ok_def)

lemma peer_write:
  assumes "call_socket cs = Some fd" and "peer_up w" and "d \<noteq> []"
  shows "call_write (peer_net junk g f) d cs w = Some (CKR_OK, cs, w\<lparr>peer_in := peer_in w @ d\<rparr>)"
  using assms by (simp add: call_write_def call_write_loop.simps [of _ d] call_write_loop.simps [of _ "[]"] peer_socket_def)

lemma peer_read:
  assumes "call_socket cs = Some fd" and "0 < n" and "n \<le> length (peer_out w)"
  shows "call_read (peer_net junk g f) n cs w
    = Some (CKR_OK, take n (peer_out w), cs, w\<lparr>peer_out := drop n (peer_out w)\<rparr>)"
proof -
  have "take n (peer_out w) \<noteq> []" "peer_out w \<noteq> []" using assms by auto
  with assms show ?thesis
    by (simp add: call_read_def call_read_loop.simps [of _ n] call_read_loop.simps [of _ 0] peer_socket_def min_def)
qed

text \<open>Waiting for the first bytes of the response lets the daemon serve the request.\<close>

lemma peer_wait:
  assumes "call_socket cs = Some fd" and "0 < n" and "peer_out w = []" and "serve junk g f w = w1"
  shows "n \<le> length (peer_out w1) \<Longrightarrow> call_read (peer_net junk g f) n cs w
      = Some (CKR_OK, take n (peer_out w1), cs, w1\<lparr>peer_out := drop n (peer_out w1)\<rparr>)"
    and "peer_out w1 = [] \<Longrightarrow> call_read (peer_net junk g f) n cs w
      = Some (CKR_DEVICE_ERROR, [], cs\<lparr>call_socket := None\<rparr>, w1\<lparr>peer_up := False\<rparr>)"
proof -
  assume n: "n \<le> length (peer_out w1)"
  then have "take n (peer_out w1) \<noteq> []" "peer_out w1 \<noteq> []" using assms(2) by auto
  with assms n show "call_read (peer_net junk g f) n cs w
      = Some (CKR_OK, take n (peer_out w1), cs, w1\<lparr>peer_out := drop n (peer_out w1)\<rparr>)"
    by (simp add: call_read_def call_read_loop.simps [of _ n] call_read_loop.simps [of _ 0] peer_socket_def min_def)
next
  assume "peer_out w1 = []"
  with assms show "call_read (peer_net junk g f) n cs w
      = Some (CKR_DEVICE_ERROR, [], cs\<lparr>call_socket := None\<rparr>, w1\<lparr>peer_up := False\<rparr>)"
    by (simp add: call_read_def call_read_loop.simps [of _ n] peer_socket_def call_disconnect_def)
qed

subsection \<open>Messages with room\<close>

text \<open>
  A message that can be used: its buffer has an allocator. A clean one has counted no failure. \<open>msg_writes\<close> is what a writer
  does where there is memory for what it adds.
\<close>

definition usable :: "GkmRpcMessage \<Rightarrow> bool" where
  "usable m \<longleftrightarrow> eb_wf (buffer m) \<and> eb_allocator (buffer m) \<noteq> None"

definition clean :: "GkmRpcMessage \<Rightarrow> bool" where
  "clean m \<longleftrightarrow> usable m \<and> eb_failures (buffer m) = 0"

definition wrote :: "bytes \<Rightarrow> EggBuffer \<Rightarrow> EggBuffer \<Rightarrow> bool" where
  "wrote bs b b' \<longleftrightarrow> eb_wf b' \<and> eb_contents b' = eb_contents b @ bs \<and> eb_allocator b' = eb_allocator b \<and> eb_failures b' = 0"

definition msg_writes :: "msg_writer \<Rightarrow> bytes \<Rightarrow> bytes \<Rightarrow> bool" where
  "msg_writes w part bs \<longleftrightarrow> (\<forall>m. expects part m \<longrightarrow> room (buffer m) (length bs) \<longrightarrow>
     (\<exists>b. w m = Some (True, (advance part m)\<lparr>buffer := b\<rparr>) \<and> wrote bs (buffer m) b))"

lemma room_wrote: "room b (length bs + k) \<Longrightarrow> wrote bs b b' \<Longrightarrow> room b' k"
proof -
  assume r: "room b (length bs + k)" and w: "wrote bs b b'"
  have "eb_len b' = eb_len b + length bs"
    using r w length_eb_contents [of b'] length_eb_contents [of b] by (simp add: room_def wrote_def)
  then show "room b' k" using r w by (simp add: room_def wrote_def)
qed

lemma clean_wrote: "room (buffer m) n \<Longrightarrow> wrote bs (buffer m) b \<Longrightarrow> clean (m\<lparr>buffer := b\<rparr>)"
  by (simp add: clean_def usable_def room_def wrote_def)

lemma clean_room: "room (buffer m) n \<Longrightarrow> clean m"
  by (simp add: clean_def usable_def room_def)

lemma msg_add_writes:
  assumes "writes w bs"
  shows "msg_writes (\<lambda>m. do { m1 \<leftarrow> assert_part part m; msg_add w m1 }) (ascii part) bs"
  using assms unfolding msg_writes_def writes_def
  by (fastforce simp: assert_part_expects msg_add_def wrote_def)

lemma add_seq_writes:
  assumes "list_all2 writes ws bss" and "room b (length (concat bss))"
  shows "\<exists>b'. add_seq ws b = Some b' \<and> wrote (concat bss) b b'"
  using assms
proof (induction ws bss arbitrary: b rule: list_all2_induct)
  case Nil
  then show ?case by (auto simp: room_def wrote_def)
next
  case (Cons w ws bs bss)
  have "room b (length bs + length (concat bss))" using Cons.prems by simp
  from writesE [OF Cons.hyps(1) this] obtain b1 where 1: "w b = Some (True, b1)" "room b1 (length (concat bss))"
    "eb_contents b1 = eb_contents b @ bs" "eb_allocator b1 = eb_allocator b" by blast
  from Cons.IH [OF 1(2)] 1 show ?case by (auto simp: wrote_def)
qed

lemma msg_add_seq_writes:
  assumes "list_all2 writes ws bss"
  shows "msg_writes (\<lambda>m. do { m1 \<leftarrow> assert_part part m; msg_add_seq ws m1 }) (ascii part) (concat bss)"
  unfolding msg_writes_def
proof (intro allI impI)
  fix m assume e: "expects (ascii part) m" and r: "room (buffer m) (length (concat bss))"
  from add_seq_writes [OF assms r] obtain b where b: "add_seq ws (buffer m) = Some b" "wrote (concat bss) (buffer m) b" by blast
  then have "\<not> egg_buffer_has_error b" by (simp add: wrote_def egg_buffer_has_error_def)
  with b show "\<exists>b. do { m1 \<leftarrow> assert_part part m; msg_add_seq ws m1 } = Some (True, (advance (ascii part) m)\<lparr>buffer := b\<rparr>)
      \<and> wrote (concat bss) (buffer m) b"
    by (intro exI [of _ b]) (simp add: assert_part_expects [OF e] msg_add_seq_def)
qed

lemma reset_clean:
  assumes "usable m"
  obtains b where "egg_buffer_reset (buffer m) = Some b" and "room b (2 ^ 44)" and "eb_contents b = []"
    and "eb_allocator b = eb_allocator (buffer m)"
proof -
  obtain b where b: "egg_buffer_reset (buffer m) = Some b" "eb_wf b" "eb_contents b = []" "eb_failures b = 0"
    "eb_allocator b = eb_allocator (buffer m)" using reset_buffer assms unfolding usable_def by metis
  then have "eb_len b = 0" by (metis length_eb_contents list.size(3))
  with b assms have "room b (2 ^ 44)" by (simp add: room_def usable_def)
  with b that show thesis by blast
qed

context granting
begin

lemma add_uint64_writes: "writes (egg_buffer_add_uint64 h v) (encode_uint64 v)"
  unfolding egg_buffer_add_uint64_def [abs_def] encode_uint64_def
  by (rule writes_check [OF add_uint32_writes add_uint32_writes])

lemma write_ulong_writes: "msg_writes (gkm_rpc_message_write_ulong h v) (ascii ''u'') (encode_uint64 v)"
  unfolding gkm_rpc_message_write_ulong_def [abs_def] by (rule msg_add_writes [OF add_uint64_writes])

lemma write_byte_buffer_writes:
  "msg_writes (gkm_rpc_message_write_byte_buffer h n) (ascii ''fy'') (egg_buffer_encode_uint32 (ucast n))"
  unfolding gkm_rpc_message_write_byte_buffer_def [abs_def] by (rule msg_add_writes [OF add_uint32_writes])

text \<open>A byte array whose length the wire can tell.\<close>

lemma write_byte_array_writes:
  assumes "array_ok arr num" and "arr = None \<or> unat num < 0x7fffffff"
  shows "msg_writes (gkm_rpc_message_write_byte_array h arr num) (ascii ''ay'') (encode_arg_array arr num)"
proof (cases arr)
  case None
  have "list_all2 writes [egg_buffer_add_byte h 0, egg_buffer_add_uint32 h (ucast num)]
      [[0], egg_buffer_encode_uint32 (ucast num)]" by (simp add: add_byte_writes add_uint32_writes)
  from msg_add_seq_writes [OF this, of "''ay''"] None show ?thesis
    by (simp add: gkm_rpc_message_write_byte_array_def [abs_def] encode_arg_array_def)
next
  case (Some a)
  with assms have "length_ok (Some (take (unat num) a))" and eq: "egg_buffer_add_mem h arr (unat num)
      = egg_buffer_add_byte_array h (Some (take (unat num) a))"
    by (simp_all add: length_ok_def egg_buffer_add_mem_def [abs_def] array_ok_def mem_read_def)
  then have "list_all2 writes [egg_buffer_add_byte h 1, egg_buffer_add_mem h arr (unat num)]
      [[1], encode_byte_array (Some (take (unat num) a))]" by (simp add: add_byte_writes add_byte_array_writes)
  from msg_add_seq_writes [OF this, of "''ay''"] Some show ?thesis
    by (simp add: gkm_rpc_message_write_byte_array_def [abs_def] encode_arg_array_def)
qed

text \<open>A message prepared for a call, and the error response.\<close>

lemma prep_writes:
  assumes "usable m" and "0 < i" and "i < GKM_RPC_CALL_MAX" and "call_signature i type = Some (Some sg)" and "length sg < 32"
  obtains b where "gkm_rpc_message_prep h (int i) type m = Some (True, m\<lparr>call_id := int i, call_type := type,
      signature := Some sg, sigverify := Some sg, parsed := 0, buffer := b\<rparr>)"
    and "eb_contents b = egg_buffer_encode_uint32 (word_of_nat i) @ encode_byte_array (Some sg)"
    and "room b (2 ^ 43)" and "eb_allocator b = eb_allocator (buffer m)"
proof -
  from reset_clean [OF assms(1)] obtain b0 where b0: "egg_buffer_reset (buffer m) = Some b0" "room b0 (2 ^ 44)"
    "eb_contents b0 = []" "eb_allocator b0 = eb_allocator (buffer m)" .
  let ?n = "egg_buffer_encode_uint32 (word_of_nat i) :: bytes" and ?s = "encode_byte_array (Some sg)"
  have len: "length ?n = 4" "length ?s = 4 + length sg" by (simp_all add: length_encode encode_byte_array_def)
  have sum: "length (?n @ ?s) + 2 ^ 43 \<le> 2 ^ 44" using len assms(5) by simp
  have "room b0 (length ?n + (length ?s + 2 ^ 43))" using b0(2) sum by (simp add: room_def)
  from writesE [OF add_uint32_writes this] obtain b1 where b1: "egg_buffer_add_uint32 h (word_of_nat i) b0 = Some (True, b1)"
    "room b1 (length ?s + 2 ^ 43)" "eb_contents b1 = eb_contents b0 @ ?n" "eb_allocator b1 = eb_allocator b0" by blast
  have "length_ok (Some sg)" using assms(5) by (simp add: length_ok_def)
  from writesE [OF add_byte_array_writes [OF this] b1(2)] obtain b2 where b2: "egg_buffer_add_byte_array h (Some sg) b1 = Some (True, b2)"
    "room b2 (2 ^ 43)" "eb_contents b2 = eb_contents b1 @ ?s" "eb_allocator b2 = eb_allocator b1" by blast
  have t: "type \<noteq> GKM_RPC_NONE" using assms(4) by (auto simp: call_signature_def)
  have "\<not> egg_buffer_has_error b2" using b2(2) by (simp add: room_def egg_buffer_has_error_def)
  then have "gkm_rpc_message_prep h (int i) type m = Some (True, m\<lparr>call_id := int i, call_type := type,
      signature := Some sg, sigverify := Some sg, parsed := 0, buffer := b2\<rparr>)"
    using t assms(2-4) b0(1) b1(1) b2(1) by (simp add: gkm_rpc_message_prep_def gkm_rpc_message_reset_def GKM_RPC_CALL_ERROR_def)
  then show thesis using that b0 b1 b2 by simp
qed

end

definition error_response :: "CK_RV \<Rightarrow> bytes" where
  "error_response e = egg_buffer_encode_uint32 0 @ encode_uint64 (ucast (ucast e :: 32 word))"

context granting
begin

lemma dispatch_error_writes:
  assumes "usable (resp cs)"
  obtains cs' where "dispatch_error h e cs = Some (True, cs')" and "req cs' = req cs" and "clean (resp cs')"
    and "eb_contents (buffer (resp cs')) = error_response e"
proof -
  from reset_clean [OF assms] obtain b0 where b0: "egg_buffer_reset (buffer (resp cs)) = Some b0" "room b0 (2 ^ 44)"
    "eb_contents b0 = []" .
  let ?e = "ucast (ucast e :: 32 word) :: CK_ULONG"
  have "room b0 (length (egg_buffer_encode_uint32 0) + length (encode_uint64 ?e))" using b0(2) by (simp add: room_def length_encode)
  from writesE [OF add_uint32_writes this] obtain b1 where b1: "egg_buffer_add_uint32 h 0 b0 = Some (True, b1)"
    "room b1 (length (encode_uint64 ?e))" "eb_contents b1 = egg_buffer_encode_uint32 0" using b0(3) by auto
  let ?m = "(resp cs)\<lparr>call_id := 0, call_type := GKM_RPC_RESPONSE, signature := None, sigverify := None,
      parsed := 0, buffer := b1\<rparr>"
  have "\<not> egg_buffer_has_error b1" using b1(2) by (simp add: room_def egg_buffer_has_error_def)
  then have 1: "gkm_rpc_message_prep h (int GKM_RPC_CALL_ERROR) GKM_RPC_RESPONSE (resp cs) = Some (True, ?m)"
    using b0(1) b1(1) by (simp add: gkm_rpc_message_prep_def gkm_rpc_message_reset_def GKM_RPC_CALL_ERROR_def
        GKM_RPC_CALL_MAX_def)
  have "expects (ascii ''u'') ?m" "room (buffer ?m) (length (encode_uint64 ?e))" using b1(2) by (simp_all add: expects_def)
  with write_ulong_writes [of ?e] obtain b2 where b2: "gkm_rpc_message_write_ulong h ?e ?m = Some (True, (advance (ascii ''u'') ?m)\<lparr>buffer := b2\<rparr>)"
    "wrote (encode_uint64 ?e) b1 b2" unfolding msg_writes_def by fastforce
  let ?cs = "cs\<lparr>resp := (advance (ascii ''u'') ?m)\<lparr>buffer := b2\<rparr>\<rparr>"
  have "dispatch_error h e cs = Some (True, ?cs)"
    using 1 b2 by (simp add: dispatch_error_def GKM_RPC_CALL_ERROR_def gkm_rpc_message_buffer_error_def egg_buffer_has_error_def wrote_def)
  moreover have "clean (resp ?cs)" using b1(2) b2(2) by (simp add: clean_def usable_def wrote_def room_def)
  ultimately show thesis using b1(3) b2(2) by (intro that [of ?cs]) (simp_all add: error_response_def wrote_def)
qed

text \<open>Memory for bytes that are read from a connection.\<close>

lemma received_contents:
  assumes "room b (length data)" and "eb_contents b = []"
  obtains b1 b2 b3 off where "egg_buffer_reserve h (length data) b = (True, b1)" and "eb_failures b1 = 0"
    and "eb_store 0 data b1 = Some b2" and "egg_buffer_add_empty h (length data) b2 = (off, b3)" and "wrote data b b3"
proof -
  have wf: "eb_wf b" and small: "length data < 2 ^ 45" "length data < 2 ^ 62" using assms(1) by (auto simp: room_def)
  have len: "eb_len b = 0" using wf assms(2) by (metis length_eb_contents list.size(3))
  from reserve_grants [OF assms(1)] len obtain b1 where r: "egg_buffer_reserve h (length data) b = (True, b1)" by auto
  have sz: "size_add (eb_len b) (length data) = length data" using len small by (simp add: size_add_def)
  from reserve_store [OF wf small(2)] r sz len assms(2)
  obtain b2 where b2: "eb_store 0 data b1 = Some b2" "eb_wf (b2\<lparr>eb_len := length data\<rparr>)"
    "eb_contents (b2\<lparr>eb_len := length data\<rparr>) = data" "eb_len b2 = 0" "eb_failures b2 = eb_failures b"
    "eb_allocator b2 = eb_allocator b" by auto
  have "eb_wf b2" using b2(2,4) by (auto simp: eb_wf_def split: option.splits)
  then have "room b2 (length data)" using b2(4-6) assms(1) small(1) by (simp add: room_def)
  from reserve_grants [OF this] b2(4) obtain b3 where 3: "egg_buffer_reserve h (length data) b2 = (True, b3)" by auto
  have "egg_buffer_reserve h (length data) (b2\<lparr>eb_len := length data\<rparr>) = (True, b3\<lparr>eb_len := length data\<rparr>)"
    using 3 by (auto simp: egg_buffer_reserve_def Let_def eb_fail_def split: option.splits if_splits)
  from reserve_keeps [OF b2(2) _ this] small b2(3,5,6) assms(1)
  have k: "wrote data b (b3\<lparr>eb_len := length data\<rparr>)" using assms(2) by (simp add: wrote_def room_def)
  have "egg_buffer_add_empty h (length data) b2 = (Some 0, b3\<lparr>eb_len := length data\<rparr>)"
    using 3 b2(4) small by (simp add: egg_buffer_add_empty_def size_add_def)
  moreover have "eb_failures b1 = 0" using reserve_keeps [OF wf _ r] small assms(1) by (simp add: room_def)
  ultimately show thesis using that [OF r _ b2(1)] k by blast
qed

lemma new_message: "\<exists>m. gkm_rpc_message_new h (Allocator k) = Some (Some m) \<and> usable m"
proof -
  obtain m1 m2 where m: "h (Allocator k) None 72 = Some m1" "h (Allocator k) None 64 = Some m2"
    using grant [of 72 "Allocator k" None] grant [of 64 "Allocator k" None] by auto
  let ?b = "\<lparr>eb_buf = Some m2, eb_len = 0, eb_allocated_len = 64, eb_failures = 0, eb_allocator = Some (Allocator k)\<rparr>"
  have "eb_wf ?b" using alloc_length [OF m(2)] by (simp add: eb_wf_def)
  from reset_buffer [OF this] obtain b where b: "egg_buffer_reset ?b = Some b" "eb_wf b" "eb_allocator b = Some (Allocator k)"
    by auto
  have "egg_buffer_init_full h 64 (Some (Allocator k)) = (True, ?b)" using m(2) by (simp add: egg_buffer_init_full_def Let_def default_allocator_def)
  with m(1) b show ?thesis by (simp add: gkm_rpc_message_new_def gkm_rpc_message_reset_def usable_def)
qed

end

subsection \<open>Handlers and what they deliver\<close>

text \<open>
  \<open>delivers p bs q rv ob s s1 H\<close>: where the request holds the arguments \<open>bs\<close> with signature \<open>p\<close>, the handler \<open>H\<close> takes
  the module from the state \<open>s\<close> to \<open>s1\<close> and returns \<open>rv\<close>; if that is \<^verbatim>\<open>CKR_OK\<close>, it has added \<open>ob\<close> to the response.
  \<open>replies\<close> is the same for the part of the handler behind the call of the module.
\<close>

definition delivered :: "CK_RV \<Rightarrow> bytes \<Rightarrow> CallState \<Rightarrow> CallState \<Rightarrow> bool" where
  "delivered rv ob cs cs' \<longleftrightarrow> clean (req cs') \<and> clean (resp cs')
     \<and> (rv = CKR_OK \<longrightarrow> eb_contents (buffer (resp cs')) = eb_contents (buffer (resp cs)) @ ob)"

definition delivers :: "string \<Rightarrow> bytes \<Rightarrow> string \<Rightarrow> CK_RV \<Rightarrow> bytes \<Rightarrow> 's \<Rightarrow> 's \<Rightarrow> 's handler \<Rightarrow> bool" where
  "delivers p bs q rv ob s s1 H \<longleftrightarrow> (\<forall>cs. at_sig p (req cs) \<longrightarrow> at_bytes bs (req cs) \<longrightarrow> clean (req cs) \<longrightarrow>
     at_sig q (resp cs) \<longrightarrow> room (buffer (resp cs)) (length ob) \<longrightarrow>
     (\<exists>cs'. H (cs, s) = Some (rv, cs', s1) \<and> delivered rv ob cs cs'))"

definition replies :: "string \<Rightarrow> CK_RV \<Rightarrow> bytes \<Rightarrow> 's handler \<Rightarrow> bool" where
  "replies q rv ob out \<longleftrightarrow> (\<forall>cs s. clean (req cs) \<longrightarrow> at_sig q (resp cs) \<longrightarrow> room (buffer (resp cs)) (length ob) \<longrightarrow>
     (\<exists>cs'. out (cs, s) = Some (rv, cs', s) \<and> delivered rv ob cs cs'))"

lemma delivers_BEGIN_CALL:
  "delivers p bs q rv ob s s1 (body g) \<Longrightarrow> delivers p bs q rv ob s s1 (dispatch_BEGIN_CALL (Some g) body)"
  by (simp add: delivers_def dispatch_BEGIN_CALL_def)

lemma delivers_PROCESS_CALL:
  assumes "call s = (ret, out, s1)" and "replies q rv ob (outs ret out)"
  shows "delivers [] bs q rv ob s s1 (dispatch_PROCESS_CALL call outs)"
  using assms at_sig_verified by (simp add: delivers_def dispatch_PROCESS_CALL_def replies_def)

text \<open>An argument that is read: the value the client sent, with the cursor behind it.\<close>

definition takes :: "string \<Rightarrow> bytes \<Rightarrow> 'a \<Rightarrow> (CallState \<Rightarrow> (CK_RV \<times> 'a option \<times> CallState) option) \<Rightarrow> bool" where
  "takes part bs v p \<longleftrightarrow> (\<forall>cs rest. expects (ascii part) (req cs) \<longrightarrow> at_bytes (bs @ rest) (req cs) \<longrightarrow>
     (\<exists>cs'. p cs = Some (CKR_OK, Some v, cs') \<and> resp cs' = resp cs
        \<and> req cs' = (advance (ascii part) (req cs))\<lparr>parsed := parsed (req cs) + length bs\<rparr>))"

lemma at_bytes_behind:
  assumes "at_bytes (bs @ rest) m"
  shows "at_bytes rest ((advance p m)\<lparr>parsed := parsed m + length bs\<rparr>)"
proof -
  from assms obtain pre post where "eb_wf (buffer m)" "eb_contents (buffer m) = pre @ (bs @ rest) @ post"
    "parsed m = length pre" unfolding at_bytes_def by blast
  then show ?thesis unfolding at_bytes_def by (intro conjI exI [of _ "pre @ bs"] exI [of _ post]) auto
qed

lemma at_sig_behind: "at_sig (part @ p) m \<Longrightarrow> at_sig p ((advance (ascii part) m)\<lparr>parsed := n\<rparr>)"
  by (auto simp: at_sig_def advance_def ascii_def)

lemma clean_behind: "clean m \<Longrightarrow> clean ((advance p m)\<lparr>parsed := n\<rparr>)"
  by (simp add: clean_def usable_def)

text \<open>The rest of a handler, once its first argument is read.\<close>

lemma delivers_behind:
  assumes "delivers p rest q rv ob s s1 H"
    and "at_sig (part @ p) (req cs)" and "at_bytes (bs @ rest) (req cs)" and "clean (req cs)"
    and "at_sig q (resp cs)" and "room (buffer (resp cs)) (length ob)"
    and "resp cs' = resp cs" and "req cs' = (advance (ascii part) (req cs))\<lparr>parsed := parsed (req cs) + length bs\<rparr>"
  shows "\<exists>cs2. H (cs', s) = Some (rv, cs2, s1) \<and> delivered rv ob cs cs2"
proof -
  have "at_sig p (req cs')" "at_bytes rest (req cs')" "clean (req cs')" "at_sig q (resp cs')" "room (buffer (resp cs')) (length ob)"
    unfolding assms(7,8) using assms(4-6) at_sig_behind [OF assms(2)] at_bytes_behind [OF assms(3)] clean_behind by simp_all
  with assms(1) obtain cs2 where "H (cs', s) = Some (rv, cs2, s1)" "delivered rv ob cs' cs2" unfolding delivers_def by blast
  then show ?thesis using assms(7) by (auto simp: delivered_def)
qed

lemma delivers_proto:
  assumes "takes part bs v r" and "delivers p rest q rv ob s s1 (body v)"
  shows "delivers (part @ p) (bs @ rest) q rv ob s s1 (dispatch_proto r body)"
  unfolding delivers_def
proof (intro allI impI)
  fix cs :: CallState
  assume at: "at_sig (part @ p) (req cs)" "at_bytes (bs @ rest) (req cs)" "clean (req cs)" "at_sig q (resp cs)"
    "room (buffer (resp cs)) (length ob)"
  from assms(1) at_sig_expects [OF at(1)] at(2) obtain cs' where 1: "r cs = Some (CKR_OK, Some v, cs')" "resp cs' = resp cs"
    "req cs' = (advance (ascii part) (req cs))\<lparr>parsed := parsed (req cs) + length bs\<rparr>" unfolding takes_def by blast
  from delivers_behind [OF assms(2) at 1(2,3)] 1(1)
  show "\<exists>cs'. dispatch_proto r body (cs, s) = Some (rv, cs', s1) \<and> delivered rv ob cs cs'" by (simp add: dispatch_proto_def)
qed

lemma delivers_read:
  assumes "msg_parses r (ascii part) v bs" and "delivers p rest q rv ob s s1 (body v)"
  shows "delivers (part @ p) (bs @ rest) q rv ob s s1 (dispatch_read r body)"
  unfolding delivers_def
proof (intro allI impI)
  fix cs :: CallState
  assume at: "at_sig (part @ p) (req cs)" "at_bytes (bs @ rest) (req cs)" "clean (req cs)" "at_sig q (resp cs)"
    "room (buffer (resp cs)) (length ob)"
  from at(2) obtain pre post where m: "eb_wf (buffer (req cs))" "eb_contents (buffer (req cs)) = pre @ bs @ (rest @ post)"
    "parsed (req cs) = length pre" unfolding at_bytes_def by auto
  let ?m = "(advance (ascii part) (req cs))\<lparr>parsed := parsed (req cs) + length bs\<rparr>"
  have 1: "r (req cs) = Some (Some v, ?m)"
    using assms(1) m at_sig_expects [OF at(1)] unfolding msg_parses_def by simp
  from delivers_behind [OF assms(2) at, of "cs\<lparr>req := ?m\<rparr>"] 1
  show "\<exists>cs'. dispatch_read r body (cs, s) = Some (rv, cs', s1) \<and> delivered rv ob cs cs'" by (simp add: dispatch_read_def)
qed

lemma delivers_IN_ULONG:
  assumes "delivers p rest q rv ob s s1 (body v)"
  shows "delivers (CHR ''u'' # p) (encode_uint64 v @ rest) q rv ob s s1 (dispatch_IN_ULONG body)"
proof -
  have "msg_parses gkm_rpc_message_read_ulong (ascii ''u'') v (encode_uint64 v)"
    using msg_get_parses [OF get_uint64_parses, of "''u''"] by (simp only: gkm_rpc_message_read_ulong_def [abs_def])
  from delivers_read [where body = body, OF this assms] show ?thesis by (simp add: dispatch_IN_ULONG_def)
qed

text \<open>A byte array argument with its length, and the buffer the daemon makes for a result.\<close>

lemma takes_byte_array:
  assumes "length v < 0x7fffffff"
  shows "takes ''ay'' (encode_arg_array (Some v) (word_of_nat (length v))) (Some v, word_of_nat (length v))
    dispatch_proto_read_byte_array"
proof -
  have "unat (word_of_nat (length v) :: CK_ULONG) = length v" using assms by (intro unat_of_nat_small) simp
  then have "length (encode_arg_array (Some v) (word_of_nat (length v))) = 5 + length v"
    by (simp add: encode_arg_array_def encode_byte_array_def)
  with dispatch_read_byte_array [OF _ assms] show ?thesis unfolding takes_def by fastforce
qed

lemma takes_byte_buffer:
  assumes "granting g" and "unat n \<le> 0x7fffffff" and "n \<noteq> 0"
  shows "takes ''fy'' (egg_buffer_encode_uint32 (ucast n)) (Some (replicate (unat n) 0xff), n)
    (dispatch_proto_read_byte_buffer g)"
  unfolding takes_def
proof (intro allI impI)
  fix cs :: CallState and rest assume e: "expects (ascii ''fy'') (req cs)" and at: "at_bytes (egg_buffer_encode_uint32 (ucast n) @ rest) (req cs)"
  have at': "at_bytes (egg_buffer_encode_uint32 (ucast n) @ rest) (advance (ascii ''fy'') (req cs))" using at by simp
  note 1 = at_uint32 [OF at']
  have u: "unat (ucast n :: 32 word) = unat n" "(ucast n :: 32 word) \<noteq> 0" "ucast (ucast n :: 32 word) = n"
    using assms(2,3) unat_ucast_small [of n] ucast_ucast_small [of n] by (auto simp: unat_eq_zero [symmetric])
  obtain m where "g Default_allocator None (8 + unat n) = Some m"
    using granting.grant [OF assms(1), of "8 + unat n" Default_allocator None] assms(2) by auto
  then show "\<exists>cs'. dispatch_proto_read_byte_buffer g cs = Some (CKR_OK, Some (Some (replicate (unat n) 0xff), n), cs') \<and> resp cs' = resp cs
      \<and> req cs' = (advance (ascii ''fy'') (req cs))\<lparr>parsed := parsed (req cs) + length (egg_buffer_encode_uint32 (ucast n))\<rparr>"
    using 1(1) u assms(2)
    by (simp add: dispatch_proto_read_byte_buffer_def assert_part_expects [OF e] call_alloc_def Let_def)
qed

lemma delivers_IN_BYTE_ARRAY:
  assumes "length v < 0x7fffffff" and "delivers p rest q rv ob s s1 (body (Some v) (word_of_nat (length v)))"
  shows "delivers (CHR ''a'' # CHR ''y'' # p) (encode_arg_array (Some v) (word_of_nat (length v)) @ rest) q rv ob s s1
    (dispatch_IN_BYTE_ARRAY body)"
  using delivers_proto [OF takes_byte_array [OF assms(1)], of p rest q rv ob s s1 "case_prod body"] assms(2)
  by (simp add: dispatch_IN_BYTE_ARRAY_def)

lemma delivers_IN_BYTE_BUFFER:
  assumes "granting g" and "unat n \<le> 0x7fffffff" and "n \<noteq> 0"
    and "delivers p rest q rv ob s s1 (body (Some (replicate (unat n) 0xff)) n)"
  shows "delivers (CHR ''f'' # CHR ''y'' # p) (egg_buffer_encode_uint32 (ucast n) @ rest) q rv ob s s1 (dispatch_IN_BYTE_BUFFER g body)"
  using delivers_proto [OF takes_byte_buffer [OF assms(1-3)], of p rest q rv ob s s1 "case_prod body"] assms(4)
  by (simp add: dispatch_IN_BYTE_BUFFER_def)

lemma replies_END_CALL: "replies [] rv [] (dispatch_END_CALL rv)"
  by (simp add: replies_def dispatch_END_CALL_def delivered_def clean_room)

text \<open>An output at the end of a handler.\<close>

lemma replies_out:
  assumes "\<And>cs. at_sig q (resp cs) \<Longrightarrow> room (buffer (resp cs)) (length ob) \<Longrightarrow>
      \<exists>m. w ret cs = Some (rv, cs\<lparr>resp := m\<rparr>) \<and> clean m \<and> (rv = CKR_OK \<longrightarrow> eb_contents (buffer m) = eb_contents (buffer (resp cs)) @ ob)"
  shows "replies q rv ob (dispatch_out w dispatch_END_CALL ret)"
  unfolding replies_def
proof (intro allI impI)
  fix cs :: CallState and s assume "clean (req cs)" "at_sig q (resp cs)" "room (buffer (resp cs)) (length ob)"
  with assms [of cs] show "\<exists>cs'. dispatch_out w dispatch_END_CALL ret (cs, s) = Some (rv, cs', s) \<and> delivered rv ob cs cs'"
    by (auto simp: dispatch_out_def dispatch_END_CALL_def delivered_def)
qed

lemma writes_replies:
  assumes "msg_writes w (ascii q) ob" and "at_sig q (resp cs)" and "room (buffer (resp cs)) (length ob)"
  shows "\<exists>m. w (resp cs) = Some (True, m) \<and> clean m \<and> eb_contents (buffer m) = eb_contents (buffer (resp cs)) @ ob"
proof -
  have "expects (ascii q) (resp cs)" using at_sig_expects [of q "[]"] assms(2) by simp
  with assms(1,3) obtain b where "w (resp cs) = Some (True, (advance (ascii q) (resp cs))\<lparr>buffer := b\<rparr>)" "wrote ob (buffer (resp cs)) b"
    unfolding msg_writes_def by blast
  with assms(3) show ?thesis by (auto simp: clean_def usable_def room_def wrote_def)
qed

context granting
begin

lemma replies_OUT_ULONG: "replies ''u'' rv (encode_uint64 v) (dispatch_OUT_ULONG h v dispatch_END_CALL rv)"
  unfolding dispatch_OUT_ULONG_def
proof (rule replies_out)
  fix cs :: CallState assume at: "at_sig ''u'' (resp cs)" "room (buffer (resp cs)) (length (encode_uint64 v))"
  from writes_replies [OF write_ulong_writes this] clean_room [OF at(2)]
  show "\<exists>m. (if rv = CKR_OK then do {
        (ok, m) \<leftarrow> gkm_rpc_message_write_ulong h v (resp cs);
        Some (if ok then CKR_OK else PREP_ERROR, cs\<lparr>resp := m\<rparr>) } else Some (rv, cs)) = Some (rv, cs\<lparr>resp := m\<rparr>)
      \<and> clean m \<and> (rv = CKR_OK \<longrightarrow> eb_contents (buffer m) = eb_contents (buffer (resp cs)) @ encode_uint64 v)"
    by (cases "rv = CKR_OK") (auto intro: exI [of _ "resp cs"])
qed

text \<open>An array that does not fit is reported as \<^verbatim>\<open>CKR_OK\<close> with the length alone.\<close>

lemma replies_OUT_BYTE_ARRAY:
  assumes "rv = CKR_OK \<Longrightarrow> array_ok arr n \<and> unat n < 0x7fffffff"
  shows "replies ''ay'' (if rv = CKR_BUFFER_TOO_SMALL then CKR_OK else rv)
    (encode_arg_array (if rv = CKR_BUFFER_TOO_SMALL then None else arr) n)
    (dispatch_OUT_BYTE_ARRAY h arr n dispatch_END_CALL rv)"
  unfolding dispatch_OUT_BYTE_ARRAY_def
proof (rule replies_out)
  let ?arr = "if rv = CKR_BUFFER_TOO_SMALL then None else arr" and ?rv = "if rv = CKR_BUFFER_TOO_SMALL then CKR_OK else rv"
  fix cs :: CallState assume at: "at_sig ''ay'' (resp cs)" "room (buffer (resp cs)) (length (encode_arg_array ?arr n))"
  show "\<exists>m. dispatch_proto_write_byte_array h arr n rv cs = Some (?rv, cs\<lparr>resp := m\<rparr>) \<and> clean m
      \<and> (?rv = CKR_OK \<longrightarrow> eb_contents (buffer m) = eb_contents (buffer (resp cs)) @ encode_arg_array ?arr n)"
  proof (cases "rv = CKR_OK \<or> rv = CKR_BUFFER_TOO_SMALL")
    case False
    with clean_room [OF at(2)] show ?thesis
      by (intro exI [of _ "resp cs"]) (simp add: dispatch_proto_write_byte_array_def)
  next
    case True
    have "array_ok ?arr n" "?arr = None \<or> unat n < 0x7fffffff" using True assms by (auto simp: array_ok_def)
    from writes_replies [OF write_byte_array_writes [OF this] at] True show ?thesis
      by (auto simp: dispatch_proto_write_byte_array_def Let_def ckr_distinct [THEN not_sym])
  qed
qed

end

subsection \<open>A round of the daemon\<close>

text \<open>
  The response to a request: that of the call, or the error response with its return value. The daemon
  stores only 32 bits of the return value.
\<close>

definition call_header :: "nat \<Rightarrow> string \<Rightarrow> bytes" where
  "call_header i p = egg_buffer_encode_uint32 (word_of_nat i) @ encode_byte_array (Some (ascii p))"

definition answer :: "nat \<Rightarrow> string \<Rightarrow> CK_RV \<Rightarrow> bytes \<Rightarrow> bytes" where
  "answer i q rv ob = (if rv = CKR_OK then call_header i q @ ob else error_response rv)"

text \<open>What is asked of the call: its place in the table and its handler.\<close>

definition call_entry :: "nat \<Rightarrow> string \<Rightarrow> string \<Rightarrow> bool" where
  "call_entry i p q \<longleftrightarrow> 0 < i \<and> i < GKM_RPC_CALL_MAX \<and> i \<noteq> 9
     \<and> rpc_request (gkm_rpc_calls ! i) = sig p \<and> rpc_response (gkm_rpc_calls ! i) = sig q"

lemma call_entry_signature:
  assumes "call_entry i p q"
  shows "call_signature i GKM_RPC_REQUEST = Some (Some (ascii p))" "call_signature i GKM_RPC_RESPONSE = Some (Some (ascii q))"
    "length (ascii p) < 32" "length (ascii q) < 32"
proof -
  show p: "call_signature i GKM_RPC_REQUEST = Some (Some (ascii p))"
    and q: "call_signature i GKM_RPC_RESPONSE = Some (Some (ascii q))"
    using assms by (simp_all add: call_entry_def call_signature_def sig_def)
  from assms have i: "0 < i" "i < GKM_RPC_CALL_MAX" by (simp_all add: call_entry_def)
  from call_signature_some [OF i, of GKM_RPC_REQUEST] p show "length (ascii p) < 32" by force
  from call_signature_some [OF i, of GKM_RPC_RESPONSE] q show "length (ascii q) < 32" by force
qed

lemma call_header_length: "call_entry i p q \<Longrightarrow> length (call_header i p) = 8 + length p \<and> length p < 32"
  using call_entry_signature(3) [of i p q] by (simp add: call_header_def encode_byte_array_def length_encode ascii_def)

lemma dispatch_call_delivers:
  assumes g: "granting g" and f: "module_ok f" and i: "call_entry i p q"
    and H: "map_of (dispatch_table junk g f) i = Some H" "delivers p bs q rv ob s s1 H"
    and rq: "parsed_request i (req cs)" "at_bytes bs (req cs)" "clean (req cs)" and rs: "usable (resp cs)" and ob: "length ob < 2 ^ 32"
  shows "\<exists>cs'. dispatch_call junk g f (cs, s) = Some (True, cs', s1) \<and> usable (req cs') \<and> usable (resp cs')
    \<and> eb_contents (buffer (resp cs')) = answer i q rv ob"
proof -
  note i' = i [unfolded call_entry_def]
  have ga: "egg_allocator g" using g by (rule granting.axioms)
  have id: "call_id (req cs) = int i" using rq(1) by (simp add: parsed_request_def)
  obtain H' where H': "map_of (dispatch_table junk g f) i = Some H'" "serves (gkm_rpc_calls ! i) (i, H')"
    using dispatch_table_handler [OF egg_allocator.table_serves [OF ga f]] i' by metis
  obtain p' q' where pq: "rpc_request (gkm_rpc_calls ! i) = sig p'" "rpc_response (gkm_rpc_calls ! i) = sig q'"
    "handles p' q' H" using H'(2) H'(1) H(1) i' by (auto simp: serves_def)
  have same: "ascii p' = ascii p" "ascii q' = ascii q" using pq(1,2) i' by (simp_all add: sig_def)
  obtain b where b: "gkm_rpc_message_prep g (int i) GKM_RPC_RESPONSE (resp cs) = Some (True, (resp cs)\<lparr>call_id := int i,
      call_type := GKM_RPC_RESPONSE, signature := Some (ascii q), sigverify := Some (ascii q), parsed := 0, buffer := b\<rparr>)"
    "eb_contents b = call_header i q" "room b (2 ^ 43)"
    using granting.prep_writes [OF g rs _ _ call_entry_signature(2,4) [OF i]] i' by (auto simp: call_header_def)
  let ?m = "(resp cs)\<lparr>call_id := int i, call_type := GKM_RPC_RESPONSE, signature := Some (ascii q), sigverify := Some (ascii q),
      parsed := 0, buffer := b\<rparr>"
  let ?cs1 = "cs\<lparr>resp := ?m\<rparr>"
  have at: "at_sig p (req ?cs1)" "at_bytes bs (req ?cs1)" "clean (req ?cs1)" "at_sig q (resp ?cs1)" "room (buffer (resp ?cs1)) (length ob)"
    using rq b(3) ob i' by (simp_all add: at_sig_def parsed_request_def sig_def room_def)
  obtain cs2 where 2: "H (?cs1, s) = Some (rv, cs2, s1)" "delivered rv ob ?cs1 cs2"
    using H(2) at unfolding delivers_def by blast
  have at': "at_sig p' (req ?cs1)" "at_sig q' (resp ?cs1)" using at same by (simp_all add: at_sig_def)
  have fin: "handler_done ?cs1 rv cs2" using pq(3) at' 2(1) unfolding handles_def by (metis option.inject prod.inject)
  have cl: "clean (req cs2)" "clean (resp cs2)" using 2(2) by (simp_all add: delivered_def)
  then have ne: "\<not> gkm_rpc_message_buffer_error (req cs2)" "\<not> gkm_rpc_message_buffer_error (resp cs2)"
    by (simp_all add: clean_def gkm_rpc_message_buffer_error_def egg_buffer_has_error_def)
  have nat: "\<not> \<not> int i > int GKM_RPC_CALL_ERROR" "\<not> \<not> int i < int GKM_RPC_CALL_MAX" "nat (int i) = i"
    using i' by (simp_all add: GKM_RPC_CALL_ERROR_def)
  show ?thesis
  proof (cases "rv = CKR_OK")
    case True
    with fin have a: "at_sig [] (resp cs2)" "call_id (resp cs2) = int i" "call_type (resp cs2) = GKM_RPC_RESPONSE"
      "signature (resp cs2) = Some (ascii q)" "call_id (req cs2) = int i"
      using id by (auto simp: handler_done_def)
    have "dispatch_call junk g f (cs, s) = Some (True, cs2, s1)"
      using b(1) id nat H(1) 2(1) True ne a i' at_sig_verified [OF a(1)]
      by (simp add: dispatch_call_def sig_def Let_def)
    with cl 2(2) True b(2) show ?thesis by (simp add: clean_def delivered_def answer_def)
  next
    case False
    have "usable (resp cs2)" using cl(2) by (simp add: clean_def)
    from granting.dispatch_error_writes [OF g this, of rv] obtain cs3 where 3: "dispatch_error g rv cs2 = Some (True, cs3)"
      "req cs3 = req cs2" "clean (resp cs3)" "eb_contents (buffer (resp cs3)) = error_response rv" .
    have "dispatch_call junk g f (cs, s) = Some (True, cs3, s1)"
      using b(1) id nat H(1) 2(1) 3(1) False by (simp add: dispatch_call_def Let_def)
    with 3(2-4) cl(1) False show ?thesis by (simp add: clean_def answer_def)
  qed
qed

text \<open>Receiving a request of the right length leaves it parsed.\<close>

lemma decode_length:
  assumes "length bs < 2 ^ 32"
  shows "unat (egg_buffer_decode_uint32 (egg_buffer_encode_uint32 (word_of_nat (length bs)))) = length bs"
  using assms by (simp add: decode_encode_uint32 unat_of_nat_small)

definition framed :: "bytes \<Rightarrow> bytes" where
  "framed bs = egg_buffer_encode_uint32 (word_of_nat (length bs)) @ bs"

lemma framed_read:
  assumes "length bs < 2 ^ 32" and "bs \<noteq> []"
  shows "read_all wire 4 (framed bs, out) = Some (True, egg_buffer_encode_uint32 (word_of_nat (length bs)), bs, out)"
    and "read_all wire (length bs) (bs, out) = Some (True, bs, [], out)"
  using wire_read [of 4 "framed bs" out] wire_read [of "length bs" bs out] assms
  by (simp_all add: framed_def length_encode)

text \<open>A message whose bytes are those of a call parses, and the cursor is at the arguments.\<close>

lemma parse_call:
  assumes "call_entry i p q" and "eb_wf (buffer m)" and "eb_contents (buffer m) = call_header i p @ bs"
  shows "\<exists>m'. gkm_rpc_message_parse GKM_RPC_REQUEST m = Some (True, m') \<and> parsed_request i m' \<and> at_bytes bs m' \<and> buffer m' = buffer m"
proof -
  let ?m = "m\<lparr>call_id := int i, call_type := GKM_RPC_REQUEST, signature := Some (ascii p), sigverify := Some (ascii p),
      parsed := 8 + length (ascii p)\<rparr>"
  have "gkm_rpc_message_parse GKM_RPC_REQUEST m = Some (True, ?m)"
    using assms call_entry_signature(1,3) [OF assms(1)]
    by (intro parse_prepared) (simp_all add: call_entry_def call_header_def)
  moreover have "parsed_request i ?m" using assms by (simp add: parsed_request_def call_entry_def sig_def)
  moreover have "at_bytes bs ?m"
    using assms call_header_length [OF assms(1)] unfolding at_bytes_def
    by (intro conjI exI [of _ "call_header i p"] exI [of _ "[]"]) (simp_all add: ascii_def)
  ultimately show ?thesis by fastforce
qed

lemma receive_call:
  assumes g: "granting g" and i: "call_entry i p q" and rq: "rq = call_header i p @ bs" "length rq < 0x0FFFFFFF"
    and cs: "room (buffer (req cs)) (2 ^ 44)" "eb_contents (buffer (req cs)) = []"
  shows "\<exists>m. receive_request g wire cs (framed rq, []) = Some (True, cs\<lparr>req := m\<rparr>, [], []) \<and> parsed_request i m
    \<and> at_bytes bs m \<and> clean m"
proof -
  let ?b = "buffer (req cs)"
  have ne: "rq \<noteq> []" "length rq < 2 ^ 32" using rq call_header_length [OF i] by auto
  note rd = framed_read [OF ne(2,1)] and n = decode_length [OF ne(2)]
  have r: "room ?b (length rq)" using cs(1) ne(2) by (simp add: room_def)
  from granting.received_contents [OF g r cs(2)] obtain b1 b2 b3 off where
    b: "egg_buffer_reserve g (length rq) ?b = (True, b1)" "eb_failures b1 = 0" "eb_store 0 rq b1 = Some b2"
      "egg_buffer_add_empty g (length rq) b2 = (off, b3)" "wrote rq ?b b3" .
  have "eb_len ?b = 0" using cs by (metis length_eb_contents list.size(3) room_def)
  then have sz: "size_add (eb_len ?b) (length rq) = length rq" using ne(2) by (simp add: size_add_def)
  let ?m = "(req cs)\<lparr>buffer := b3\<rparr>"
  have m: "eb_wf (buffer ?m)" "eb_contents (buffer ?m) = call_header i p @ bs" "clean ?m"
    using b(5) cs rq(1) clean_wrote [OF cs(1) b(5)] by (simp_all add: wrote_def)
  from parse_call [OF i m(1,2)] obtain m' where m': "gkm_rpc_message_parse GKM_RPC_REQUEST ?m = Some (True, m')"
    "parsed_request i m'" "at_bytes bs m'" "buffer m' = buffer ?m" by blast
  have "receive_request g wire cs (framed rq, []) = Some (True, cs\<lparr>req := m'\<rparr>, [], [])"
    using rd n rq(2) b sz m'(1) by (simp add: receive_request_def Let_def egg_buffer_has_error_def)
  moreover have "clean m'" using m(3) m'(4) by (simp add: clean_def usable_def)
  ultimately show ?thesis using m'(2,3) by blast
qed

text \<open>A served request: the answer is on the wire.\<close>

definition serving :: "CallState \<Rightarrow> bool" where
  "serving cs \<longleftrightarrow> usable (req cs) \<and> usable (resp cs)"

lemma answer_ne: "answer i q rv ob \<noteq> []"
  by (simp add: answer_def call_header_def error_response_def egg_buffer_encode_uint32_def)

lemma contents_load: "eb_wf b \<Longrightarrow> eb_load 0 (eb_len b) b = Some (eb_contents b)"
  by (auto simp: eb_load_def eb_wf_def eb_contents_def mem_read_def split: option.splits)

lemma round_answers:
  assumes g: "granting g" and f: "module_ok f" and i: "call_entry i p q"
    and H: "map_of (dispatch_table junk g f) i = Some H" "delivers p bs q rv ob s s1 H" "length ob < 2 ^ 32"
    and rq: "length (call_header i p @ bs) < 0x0FFFFFFF" and cs: "serving cs"
  shows "\<exists>cs'. dispatch_round junk g f wire (cs, s, framed (call_header i p @ bs), [])
      = Some (True, cs', s1, [], framed (answer i q rv ob)) \<and> serving cs'"
proof -
  let ?rq = "call_header i p @ bs"
  have u: "usable (req cs)" "usable (resp cs)" using cs by (simp_all add: serving_def)
  obtain b1 where b1: "egg_buffer_reset (buffer (req cs)) = Some b1" "room b1 (2 ^ 44)" "eb_contents b1 = []" using reset_clean [OF u(1)] .
  obtain b2 where b2: "egg_buffer_reset (buffer (resp cs)) = Some b2" "room b2 (2 ^ 44)" using reset_clean [OF u(2)] .
  let ?m = "\<lambda>m b. m\<lparr>call_id := 0, call_type := GKM_RPC_NONE, signature := None, sigverify := None, parsed := 0, buffer := b\<rparr>"
  let ?cs1 = "cs\<lparr>allocated := [], req := ?m (req cs) b1, resp := ?m (resp cs) b2\<rparr>"
  have 1: "call_reset cs = Some ?cs1" using b1 b2 by (simp add: call_reset_def gkm_rpc_message_reset_def)
  have "room (buffer (req ?cs1)) (2 ^ 44)" "eb_contents (buffer (req ?cs1)) = []" using b1 by simp_all
  from receive_call [OF g i refl rq this] obtain m where
    2: "receive_request g wire ?cs1 (framed ?rq, []) = Some (True, ?cs1\<lparr>req := m\<rparr>, [], [])" "parsed_request i m" "at_bytes bs m" "clean m"
    by blast
  have "usable (resp ?cs1)" using b2(2) by (simp add: usable_def room_def)
  with dispatch_call_delivers [OF g f i H(1,2), of "?cs1\<lparr>req := m\<rparr>"] 2(2-4) H(3) obtain cs3 where
    3: "dispatch_call junk g f (?cs1\<lparr>req := m\<rparr>, s) = Some (True, cs3, s1)" "serving cs3"
      "eb_contents (buffer (resp cs3)) = answer i q rv ob" by (auto simp: serving_def)
  have wf: "eb_wf (buffer (resp cs3))" using 3(2) by (simp add: serving_def usable_def)
  have len: "eb_len (buffer (resp cs3)) = length (answer i q rv ob)" using length_eb_contents [OF wf] 3(3) by simp
  have "egg_buffer_encode_uint32 (word_of_nat (length (answer i q rv ob))) \<noteq> []" by (simp add: egg_buffer_encode_uint32_def)
  then have "send_response wire cs3 ([], []) = Some (True, [], framed (answer i q rv ob))"
    using contents_load [OF wf] 3(3) len answer_ne [of i q rv ob] by (simp add: send_response_def wire_write framed_def)
  with 1 2(1) 3(1,2) show ?thesis by (simp add: dispatch_round_def)
qed

subsection \<open>The client's side of the dialog\<close>

text \<open>The client side of an error response.\<close>

definition remote_code :: "CK_RV \<Rightarrow> CK_RV" where
  "remote_code e = (let c = ucast (ucast e :: 32 word) in if c \<le> CKR_OK then CKR_DEVICE_ERROR else c)"

lemma remote_code_small: "unat e < 2 ^ 32 \<Longrightarrow> e \<noteq> CKR_OK \<Longrightarrow> remote_code e = e"
  by (simp add: remote_code_def Let_def ucast_ucast_small CKR_OK_def)

lemma remote_code_error: "remote_code e \<noteq> CKR_OK"
  by (auto simp: remote_code_def Let_def)

text \<open>
  An idle connection: nothing is on the wire and both ends have usable buffers.
\<close>

definition message_ok :: "GkmRpcMessage option \<Rightarrow> bool" where
  "message_ok m \<longleftrightarrow> (case m of None \<Rightarrow> True | Some x \<Rightarrow> usable x)"

definition idle :: "ClientCall \<Rightarrow> 's Peer \<Rightarrow> bool" where
  "idle cs w \<longleftrightarrow> call_socket cs \<noteq> None \<and> message_ok (call_req cs) \<and> message_ok (call_resp cs)
     \<and> peer_up w \<and> peer_in w = [] \<and> peer_out w = [] \<and> serving (peer_cs w)"

text \<open>What the client holds after it parsed the answer: the results of the call, or a return value.\<close>

definition holds_code :: "CK_RV \<Rightarrow> GkmRpcMessage \<Rightarrow> bool" where
  "holds_code e m \<longleftrightarrow> call_id m = int GKM_RPC_CALL_ERROR \<and> signature m = None
     \<and> at_bytes (encode_uint64 (ucast (ucast e :: 32 word))) m"

definition holds_answer :: "nat \<Rightarrow> string \<Rightarrow> CK_RV \<Rightarrow> bytes \<Rightarrow> GkmRpcMessage \<Rightarrow> bool" where
  "holds_answer i q rv ob m \<longleftrightarrow> clean m
     \<and> (if rv = CKR_OK then call_id m = int i \<and> at_sig q m \<and> at_bytes ob m else holds_code rv m)"

definition fresh_response :: "GkmRpcMessage \<Rightarrow> bool" where
  "fresh_response m \<longleftrightarrow> room (buffer m) (2 ^ 44) \<and> eb_contents (buffer m) = [] \<and> call_id m = int GKM_RPC_CALL_ERROR \<and> signature m = None"

lemma parse_error_response:
  assumes "clean m" and "eb_contents (buffer m) = error_response e" and "call_id m = int GKM_RPC_CALL_ERROR" and "signature m = None"
  shows "\<exists>m'. gkm_rpc_message_parse GKM_RPC_RESPONSE m = Some (True, m') \<and> holds_code e m' \<and> clean m'"
proof -
  let ?start = "m\<lparr>parsed := 0\<rparr>"
  have wf: "eb_wf (buffer m)" using assms(1) by (simp add: clean_def usable_def)
  then have at: "at_bytes (egg_buffer_encode_uint32 0 @ encode_uint64 (ucast (ucast e :: 32 word))) ?start"
    using assms(2) unfolding at_bytes_def error_response_def
    by auto
  from at_uint32 [OF at] assms(1,3,4)
  show ?thesis by (simp add: gkm_rpc_message_parse_def holds_code_def GKM_RPC_CALL_ERROR_def Let_def clean_def usable_def at_bytes_def)
qed

lemma parse_call_response:
  assumes "call_entry i p q" and "eb_wf (buffer m)" and "eb_contents (buffer m) = call_header i q @ ob"
  shows "\<exists>m'. gkm_rpc_message_parse GKM_RPC_RESPONSE m = Some (True, m') \<and> call_id m' = int i \<and> at_sig q m'
    \<and> at_bytes ob m' \<and> buffer m' = buffer m"
proof -
  let ?m = "m\<lparr>call_id := int i, call_type := GKM_RPC_RESPONSE, signature := Some (ascii q), sigverify := Some (ascii q),
      parsed := 8 + length (ascii q)\<rparr>"
  have "gkm_rpc_message_parse GKM_RPC_RESPONSE m = Some (True, ?m)"
    using assms call_entry_signature(2,4) [OF assms(1)]
    by (intro parse_prepared) (simp_all add: call_entry_def call_header_def)
  moreover have "at_bytes ob ?m"
    using assms unfolding at_bytes_def
    by (intro conjI exI [of _ "call_header i q"] exI [of _ "[]"]) (simp_all add: call_header_def encode_byte_array_def length_encode ascii_def)
  ultimately show ?thesis using assms(2) by (auto simp: at_sig_def)
qed

lemma parse_answer:
  assumes "call_entry i p q" and "clean m" and "call_id m = int GKM_RPC_CALL_ERROR" and "signature m = None"
    and "eb_contents (buffer m) = answer i q rv ob"
  shows "\<exists>m'. gkm_rpc_message_parse GKM_RPC_RESPONSE m = Some (True, m') \<and> holds_answer i q rv ob m'"
proof (cases "rv = CKR_OK")
  case True
  have "eb_wf (buffer m)" using assms(2) by (simp add: clean_def usable_def)
  from parse_call_response [OF assms(1) this, of ob] True assms(2,5) show ?thesis
    by (auto simp: holds_answer_def clean_def usable_def answer_def)
next
  case False
  with parse_error_response [OF assms(2) _ assms(3,4), of rv] assms(5) show ?thesis
    by (auto simp: holds_answer_def answer_def)
qed

lemma answer_length:
  assumes "call_entry i p q" and "length ob < 2 ^ 31"
  shows "length (answer i q rv ob) < 2 ^ 32"
proof -
  have "length (call_header i q) < 40"
    using call_entry_signature(4) [OF assms(1)] by (simp add: call_header_def encode_byte_array_def length_encode)
  with assms(2) show ?thesis by (simp add: answer_def error_response_def length_encode)
qed

text \<open>Reading the answer, from the moment its length is known.\<close>

definition read_answer :: "heap \<Rightarrow> 'w NET \<Rightarrow> nat \<Rightarrow> GkmRpcMessage \<Rightarrow> ClientCall \<Rightarrow> 'w
    \<Rightarrow> (CK_RV \<times> GkmRpcMessage \<times> ClientCall \<times> 'w) option" where
  "read_answer h net n rs cs w = do {
     let (ok, b) = egg_buffer_reserve h (size_add n (eb_len (buffer rs))) (buffer rs);
     if \<not> ok then Some (CKR_HOST_MEMORY, rs\<lparr>buffer := b\<rparr>, cs, w)
     else do {
       (ret4, got, cs4, w4) \<leftarrow> call_read net n cs w;
       b1 \<leftarrow> eb_store 0 got b;
       if ret4 \<noteq> CKR_OK then Some (ret4, rs\<lparr>buffer := b1\<rparr>, cs4, w4)
       else do {
         let (_, b2) = egg_buffer_add_empty h n b1;
         (ok5, m) \<leftarrow> gkm_rpc_message_parse GKM_RPC_RESPONSE (rs\<lparr>buffer := b2\<rparr>);
         Some (CKR_OK, m, cs4, w4)
       }
     }
   }"

lemma call_dialog_read:
  assumes "call_write net (egg_buffer_encode_uint32 (word_of_nat (eb_len (buffer rq)))) cs w = Some (CKR_OK, cs1, w1)"
    and "eb_load 0 (eb_len (buffer rq)) (buffer rq) = Some data" and "call_write net data cs1 w1 = Some (CKR_OK, cs2, w2)"
    and "call_read net 4 cs2 w2 = Some (CKR_OK, buf, cs3, w3)"
  shows "call_dialog h net rq rs cs w = read_answer h net (unat (egg_buffer_decode_uint32 buf)) rs cs3 w3"
  using assms by (simp add: call_dialog_def read_answer_def Let_def)

lemma read_answer_holds:
  assumes h: "granting h" and i: "call_entry i p q" and rs: "fresh_response rs"
    and cs: "call_socket cs = Some fd" and w: "peer_out w = answer i q rv ob" "length (answer i q rv ob) < 2 ^ 32"
  shows "\<exists>m. read_answer h (peer_net junk g f) (length (answer i q rv ob)) rs cs w = Some (CKR_OK, m, cs, w\<lparr>peer_out := []\<rparr>)
    \<and> holds_answer i q rv ob m"
proof -
  let ?b = "buffer rs" and ?rb = "answer i q rv ob"
  have r: "room ?b (2 ^ 44)" "eb_contents ?b = []" using rs by (simp_all add: fresh_response_def)
  have "room ?b (length ?rb)" using r(1) w(2) by (simp add: room_def)
  from granting.received_contents [OF h this r(2)] obtain b1 b2 b3 off where
    b: "egg_buffer_reserve h (length ?rb) ?b = (True, b1)" "eb_failures b1 = 0" "eb_store 0 ?rb b1 = Some b2"
      "egg_buffer_add_empty h (length ?rb) b2 = (off, b3)" "wrote ?rb ?b b3" .
  have "eb_len ?b = 0" using r by (metis length_eb_contents list.size(3) room_def)
  then have sz: "size_add (length ?rb) (eb_len ?b) = length ?rb" using w(2) by (simp add: size_add_def)
  have rd: "call_read (peer_net junk g f) (length ?rb) cs w = Some (CKR_OK, ?rb, cs, w\<lparr>peer_out := []\<rparr>)"
    using peer_read [OF cs, of "length ?rb" w] w answer_ne [of i q rv ob] by simp
  have "clean (rs\<lparr>buffer := b3\<rparr>)" "eb_contents (buffer (rs\<lparr>buffer := b3\<rparr>)) = ?rb"
    using clean_wrote [OF r(1) b(5)] b(5) r(2) by (simp_all add: wrote_def)
  with parse_answer [OF i this(1) _ _ this(2)] rs obtain m where
    "gkm_rpc_message_parse GKM_RPC_RESPONSE (rs\<lparr>buffer := b3\<rparr>) = Some (True, m)" "holds_answer i q rv ob m"
    by (auto simp: fresh_response_def)
  with b sz rd show ?thesis by (simp add: read_answer_def Let_def)
qed

text \<open>What was gathered so far about a call with the arguments \<open>bs\<close>.\<close>

definition callable :: "CK_RV \<Rightarrow> heap \<Rightarrow> heap \<Rightarrow> 's CK_FUNCTION_LIST \<Rightarrow> nat \<Rightarrow> string \<Rightarrow> bytes \<Rightarrow> string
    \<Rightarrow> CK_RV \<Rightarrow> bytes \<Rightarrow> 's \<Rightarrow> 's \<Rightarrow> bool" where
  "callable junk h g f i p bs q rv ob s s1 \<longleftrightarrow> granting h \<and> granting g \<and> module_ok f \<and> call_entry i p q
     \<and> (\<exists>H. map_of (dispatch_table junk g f) i = Some H \<and> delivers p bs q rv ob s s1 H)
     \<and> length (call_header i p @ bs) < 0x0FFFFFFF \<and> length ob < 2 ^ 31"

lemma callableI:
  assumes "granting h" and "granting g" and "module_ok f" and "call_entry i p q"
    and "map_of (dispatch_table junk g f) i = Some H" and "delivers p bs q rv ob s s1 H"
    and "length (call_header i p @ bs) < 0x0FFFFFFF" and "length ob < 2 ^ 31"
  shows "callable junk h g f i p bs q rv ob s s1"
  unfolding callable_def using assms by blast

lemma serve_answers:
  assumes c: "callable junk h g f i p bs q rv ob (peer_module w) s1"
    and w: "peer_up w" "peer_in w = framed (call_header i p @ bs)" "serving (peer_cs w)"
  obtains cs' where "serve junk g f w = w\<lparr>peer_in := [], peer_out := framed (answer i q rv ob), peer_up := True,
      peer_cs := cs', peer_module := s1\<rparr>" and "serving cs'"
proof -
  have ob: "length ob < 2 ^ 32" using c by (simp add: callable_def)
  have c': "granting g" "module_ok f" "call_entry i p q" "length (call_header i p @ bs) < 0x0FFFFFFF" using c by (simp_all add: callable_def)
  from c obtain H where H: "map_of (dispatch_table junk g f) i = Some H" "delivers p bs q rv ob (peer_module w) s1 H"
    by (auto simp: callable_def)
  from round_answers [OF c'(1-3) H ob c'(4) w(3)] obtain cs' where "dispatch_round junk g f wire (peer_cs w, peer_module w, peer_in w, [])
      = Some (True, cs', s1, [], framed (answer i q rv ob))" "serving cs'" unfolding w(2) by blast
  with w(1) that show thesis by (simp add: serve_def)
qed

text \<open>The dialog: the client holds the answer to its request.\<close>

lemma call_dialog_answers:
  assumes c: "callable junk h g f i p bs q rv ob (peer_module w) s1"
    and rq: "eb_wf (buffer rq)" "eb_contents (buffer rq) = call_header i p @ bs"
    and rs: "fresh_response rs" and cs: "idle cs w"
  shows "\<exists>m w'. call_dialog h (peer_net junk g f) rq rs cs w = Some (CKR_OK, m, cs, w') \<and> holds_answer i q rv ob m
    \<and> idle cs w' \<and> peer_module w' = s1"
proof -
  let ?rq = "call_header i p @ bs" and ?net = "peer_net junk g f" and ?rb = "answer i q rv ob"
  have h: "granting h" "call_entry i p q" "length ob < 2 ^ 31" using c by (simp_all add: callable_def)
  obtain fd where fd: "call_socket cs = Some fd" and up: "peer_up w" "peer_in w = []" "peer_out w = []" "serving (peer_cs w)"
    using cs by (auto simp: idle_def)
  have ne: "egg_buffer_encode_uint32 v \<noteq> []" "?rq \<noteq> []" for v
    by (simp_all add: call_header_def egg_buffer_encode_uint32_def)
  have len: "eb_len (buffer rq) = length ?rq" using rq by (metis length_eb_contents)
  have load: "eb_load 0 (eb_len (buffer rq)) (buffer rq) = Some ?rq" using contents_load [OF rq(1)] rq(2) by simp
  let ?w = "w\<lparr>peer_in := framed ?rq\<rparr>"
  have wr: "call_write ?net (egg_buffer_encode_uint32 (word_of_nat (eb_len (buffer rq)))) cs w
      = Some (CKR_OK, cs, w\<lparr>peer_in := egg_buffer_encode_uint32 (word_of_nat (length ?rq))\<rparr>)"
    "call_write ?net ?rq cs (w\<lparr>peer_in := egg_buffer_encode_uint32 (word_of_nat (length ?rq))\<rparr>) = Some (CKR_OK, cs, ?w)"
  proof -
    show "call_write ?net (egg_buffer_encode_uint32 (word_of_nat (eb_len (buffer rq)))) cs w
        = Some (CKR_OK, cs, w\<lparr>peer_in := egg_buffer_encode_uint32 (word_of_nat (length ?rq))\<rparr>)"
      by (simp only: len peer_write [OF fd up(1) ne(1)] up(2) append_Nil)
    have "peer_up (w\<lparr>peer_in := x\<rparr>)" for x using up(1) by simp
    from peer_write [OF fd this ne(2)] show "call_write ?net ?rq cs
        (w\<lparr>peer_in := egg_buffer_encode_uint32 (word_of_nat (length ?rq))\<rparr>) = Some (CKR_OK, cs, ?w)"
      by (simp del: length_append of_nat_add add: framed_def)
  qed
  have pre: "callable junk h g f i p bs q rv ob (peer_module ?w) s1" "peer_up ?w" "peer_in ?w = framed ?rq" "serving (peer_cs ?w)"
    using up c by simp_all
  from serve_answers [OF pre] obtain cs' where sv: "serve junk g f ?w = ?w\<lparr>peer_in := [], peer_out := framed ?rb, peer_up := True,
      peer_cs := cs', peer_module := s1\<rparr>" "serving cs'" .
  define w2 where "w2 = ?w\<lparr>peer_in := [], peer_out := ?rb, peer_up := True, peer_cs := cs', peer_module := s1\<rparr>"
  have n: "length ?rb < 2 ^ 32" using answer_length [OF h(2,3)] .
  have rd: "call_read ?net 4 cs ?w = Some (CKR_OK, egg_buffer_encode_uint32 (word_of_nat (length ?rb)), cs, w2)"
    using peer_wait(1) [OF fd, of 4 ?w junk g f, OF _ _ refl] up(3) unfolding sv(1)
    by (simp add: framed_def length_encode w2_def)
  have "peer_out w2 = ?rb" by (simp add: w2_def)
  from read_answer_holds [OF h(1,2) rs fd this n] obtain m where
    a: "read_answer h ?net (length ?rb) rs cs w2 = Some (CKR_OK, m, cs, w2\<lparr>peer_out := []\<rparr>)" "holds_answer i q rv ob m" by blast
  have "call_dialog h ?net rq rs cs w
      = read_answer h ?net (unat (egg_buffer_decode_uint32 (egg_buffer_encode_uint32 (word_of_nat (length ?rb))))) rs cs w2"
    by (rule call_dialog_read [OF wr(1) load wr(2) rd])
  then have "call_dialog h ?net rq rs cs w = Some (CKR_OK, m, cs, w2\<lparr>peer_out := []\<rparr>)" by (simp only: decode_length [OF n] a(1))
  moreover have "idle cs (w2\<lparr>peer_out := []\<rparr>)" using cs sv(2) by (simp add: idle_def w2_def)
  ultimately show ?thesis using a(2) by (auto simp: w2_def)
qed

subsection \<open>A call of the client\<close>

lemma reset_fresh:
  assumes "usable m"
  obtains m' where "gkm_rpc_message_reset m = Some m'" and "fresh_response m'" and "usable m'"
proof -
  obtain b where "egg_buffer_reset (buffer m) = Some b" "room b (2 ^ 44)" "eb_contents b = []" using reset_clean [OF assms] .
  then show thesis
    by (intro that [of "m\<lparr>call_id := 0, call_type := GKM_RPC_NONE, signature := None, sigverify := None, parsed := 0, buffer := b\<rparr>"])
      (simp_all add: gkm_rpc_message_reset_def fresh_response_def usable_def room_def GKM_RPC_CALL_ERROR_def)
qed

lemma a_message:
  assumes "granting h" and "message_ok old"
  obtains m where "(case old of None \<Rightarrow> gkm_rpc_message_new h call_allocator | Some m \<Rightarrow> Some (Some m)) = Some (Some m)"
    and "usable m"
  using assms granting.new_message [OF assms(1), of 1] by (cases old) (auto simp: message_ok_def)

lemma call_send_recv_ends:
  assumes c: "callable junk h g f i p bs q rv ob (peer_module w) s1"
    and rq: "call_req cs = Some rq" "eb_contents (buffer rq) = call_header i p @ bs" and st: "call_status cs = CALL_PREP" and cs: "idle cs w"
  shows "\<exists>cs' w' m. call_send_recv h (peer_net junk g f) cs w = Some (CKR_OK, cs', w') \<and> call_req cs' = Some rq
    \<and> idle cs' w' \<and> peer_module w' = s1 \<and> call_resp cs' = Some m \<and> holds_answer i q rv ob m"
proof -
  have h: "granting h" using c by (simp add: callable_def)
  have ok: "message_ok (call_resp cs)" "usable rq" using cs rq(1) by (simp_all add: idle_def message_ok_def)
  from a_message [OF h ok(1)] obtain m where
    2: "(case call_resp cs of None \<Rightarrow> gkm_rpc_message_new h call_allocator | Some m \<Rightarrow> Some (Some m)) = Some (Some m)" "usable m" .
  obtain m1 where m1: "gkm_rpc_message_reset m = Some m1" "fresh_response m1" using reset_fresh [OF 2(2)] by metis
  let ?cs = "cs\<lparr>call_status := CALL_TRANSIT, call_req := None, call_resp := None\<rparr>"
  have idl: "idle ?cs w" using cs by (simp add: idle_def message_ok_def)
  have wf: "eb_wf (buffer rq)" using ok(2) by (simp add: usable_def)
  obtain m2 w2 where 3: "call_dialog h (peer_net junk g f) rq m1 ?cs w = Some (CKR_OK, m2, ?cs, w2)" "holds_answer i q rv ob m2"
    "idle ?cs w2" "peer_module w2 = s1"
    using call_dialog_answers [OF c wf rq(2) m1(2) idl] by blast
  let ?cs' = "?cs\<lparr>call_resp := Some m2, call_req := Some rq\<rparr>"
  have "call_send_recv h (peer_net junk g f) cs w = Some (CKR_OK, ?cs', w2)"
    using rq(1) st 2(1) m1(1) 3(1) by (simp add: call_send_recv_def Let_def)
  moreover have "idle ?cs' w2" using 3(2,3) ok(2) by (simp add: idle_def message_ok_def holds_answer_def clean_def)
  ultimately show ?thesis using 3(2,4) by auto
qed

text \<open>The return value in an error response.\<close>

lemma read_code:
  assumes "holds_code e m" and "usable m"
  shows "\<exists>m'. gkm_rpc_message_read_ulong m = Some (Some (ucast (ucast e :: 32 word)), m') \<and> usable m'"
proof -
  have e: "expects (ascii ''u'') m" using assms(1) by (simp add: holds_code_def expects_def)
  have "at_bytes (encode_uint64 (ucast (ucast e :: 32 word)) @ []) (advance (ascii ''u'') m)"
    using assms(1) by (simp add: holds_code_def)
  from at_uint64(1) [OF this] assms(2) show ?thesis
    by (simp add: gkm_rpc_message_read_ulong_def assert_part_expects [OF e] usable_def)
qed

lemma call_run_ends:
  assumes c: "callable junk h g f i p bs q rv ob (peer_module w) s1"
    and rq: "call_req cs = Some rq" "eb_contents (buffer rq) = call_header i p @ bs" "call_id rq = int i" "at_sig [] rq"
      "eb_failures (buffer rq) = 0"
    and st: "call_status cs = CALL_PREP" and cs: "idle cs w"
  shows "\<exists>cs' w'. call_run h (peer_net junk g f) cs w = Some (if rv = CKR_OK then CKR_OK else remote_code rv, cs', w')
    \<and> call_status cs' = CALL_PARSE \<and> call_req cs' = Some rq \<and> idle cs' w' \<and> peer_module w' = s1
    \<and> (rv = CKR_OK \<longrightarrow> (\<exists>m. call_resp cs' = Some m \<and> at_sig q m \<and> at_bytes ob m \<and> clean m))"
proof -
  have i: "0 < i" using c by (simp add: callable_def call_entry_def)
  obtain fd where fd: "call_socket cs = Some fd" using cs by (auto simp: idle_def)
  obtain cs1 w1 m where 1: "call_send_recv h (peer_net junk g f) cs w = Some (CKR_OK, cs1, w1)" "call_req cs1 = Some rq"
    "idle cs1 w1" "peer_module w1 = s1" "call_resp cs1 = Some m" "holds_answer i q rv ob m"
    using call_send_recv_ends [OF c rq(1,2) st cs] by blast
  let ?cs2 = "cs1\<lparr>call_status := CALL_PARSE\<rparr>"
  have no: "\<not> gkm_rpc_message_buffer_error rq" "gkm_rpc_message_is_verified rq"
    using rq(5) at_sig_verified [OF rq(4)] by (simp_all add: gkm_rpc_message_buffer_error_def egg_buffer_has_error_def)
  have m: "clean m" using 1(6) by (simp add: holds_answer_def)
  have run: "call_run h (peer_net junk g f) cs w = (if call_id m = int GKM_RPC_CALL_ERROR then do {
              (v, m') \<leftarrow> gkm_rpc_message_read_ulong m;
              case v of
                None \<Rightarrow> Some (CKR_DEVICE_ERROR, ?cs2\<lparr>call_resp := Some m'\<rparr>, w1)
              | Some ckerr \<Rightarrow> Some (if ckerr \<le> CKR_OK then CKR_DEVICE_ERROR else ckerr, ?cs2\<lparr>call_resp := Some m'\<rparr>, w1)
            }
            else if call_id rq \<noteq> call_id m then Some (CKR_DEVICE_ERROR, ?cs2, w1)
            else if gkm_rpc_message_buffer_error m then None
            else Some (CKR_OK, ?cs2, w1))"
    using rq(1) st fd no 1(1,5) by (simp add: call_run_def Let_def)
  show ?thesis
  proof (cases "rv = CKR_OK")
    case True
    with 1(6) have a: "call_id m = int i" "at_sig q m" "at_bytes ob m" by (simp_all add: holds_answer_def)
    then have "call_run h (peer_net junk g f) cs w = Some (CKR_OK, ?cs2, w1)"
      using run rq(3) i m by (simp add: GKM_RPC_CALL_ERROR_def gkm_rpc_message_buffer_error_def egg_buffer_has_error_def clean_def)
    moreover have "idle ?cs2 w1" using 1(3) by (simp add: idle_def)
    ultimately show ?thesis using True a m 1(2,4,5) by auto
  next
    case False
    with 1(6) have e: "holds_code rv m" "call_id m = int GKM_RPC_CALL_ERROR" by (simp_all add: holds_answer_def holds_code_def)
    from m have "usable m" by (simp add: clean_def)
    from read_code [OF e(1) this] obtain m' where
      r: "gkm_rpc_message_read_ulong m = Some (Some (ucast (ucast rv :: 32 word)), m')" "usable m'" by blast
    then have "call_run h (peer_net junk g f) cs w = Some (remote_code rv, ?cs2\<lparr>call_resp := Some m'\<rparr>, w1)"
      using run e(2) by (simp add: remote_code_def Let_def)
    moreover have "idle (?cs2\<lparr>call_resp := Some m'\<rparr>) w1" using 1(3) r(2) by (simp add: idle_def message_ok_def)
    ultimately show ?thesis using False 1(2,4) by auto
  qed
qed

text \<open>Arguments that the client sends, and results that it takes.\<close>

definition sends :: "in_macro \<Rightarrow> string \<Rightarrow> bytes \<Rightarrow> bool" where
  "sends w p bs \<longleftrightarrow> (\<forall>m q. at_sig (p @ q) m \<longrightarrow> room (buffer m) (length bs) \<longrightarrow>
     (\<exists>m'. w m = Some (CKR_OK, m') \<and> at_sig q m' \<and> call_id m' = call_id m \<and> wrote bs (buffer m) (buffer m')))"

definition accepts :: "string \<Rightarrow> bytes \<Rightarrow> 'o out_macro \<Rightarrow> 'o \<Rightarrow> CK_RV \<Rightarrow> 'o \<Rightarrow> bool" where
  "accepts q ob outs mem r mem' \<longleftrightarrow> (\<forall>m. at_sig q m \<longrightarrow> at_bytes ob m \<longrightarrow> eb_failures (buffer m) = 0 \<longrightarrow>
     (\<exists>m'. outs CKR_OK mem m = Some (r, mem', m') \<and> buffer m' = buffer m \<and> (r = CKR_OK \<longrightarrow> at_sig [] m')))"

lemma sends_nil: "sends (module_ins []) [] []"
  by (simp add: sends_def wrote_def room_def at_sig_def)

lemma sends_cons:
  assumes "sends w p bs" and "sends (module_ins ws) p' bs'"
  shows "sends (module_ins (w # ws)) (p @ p') (bs @ bs')"
  unfolding sends_def
proof (intro allI impI)
  fix m q assume at: "at_sig ((p @ p') @ q) m" "room (buffer m) (length (bs @ bs'))"
  have r: "room (buffer m) (length bs + length bs')" "room (buffer m) (length bs)" using at(2) by (simp_all add: room_def)
  have "at_sig (p @ (p' @ q)) m" using at(1) by simp
  with assms(1) r(2) obtain m1 where 1: "w m = Some (CKR_OK, m1)" "at_sig (p' @ q) m1" "call_id m1 = call_id m"
    "wrote bs (buffer m) (buffer m1)" unfolding sends_def by blast
  from assms(2) 1(2) room_wrote [OF r(1) 1(4)] obtain m2 where "module_ins ws m1 = Some (CKR_OK, m2)" "at_sig q m2"
    "call_id m2 = call_id m1" "wrote bs' (buffer m1) (buffer m2)" unfolding sends_def by blast
  with 1 show "\<exists>m'. module_ins (w # ws) m = Some (CKR_OK, m') \<and> at_sig q m' \<and> call_id m' = call_id m
      \<and> wrote (bs @ bs') (buffer m) (buffer m')"
    by (auto simp: wrote_def)
qed

lemma sends_in:
  assumes "msg_writes w (ascii p) bs"
  shows "sends (module_in w) p bs"
  unfolding sends_def
proof (intro allI impI)
  fix m q assume at: "at_sig (p @ q) m" "room (buffer m) (length bs)"
  from assms at_sig_expects [OF at(1)] at(2) obtain b where
    b: "w m = Some (True, (advance (ascii p) m)\<lparr>buffer := b\<rparr>)" "wrote bs (buffer m) b" unfolding msg_writes_def by blast
  then have "at_sig q ((advance (ascii p) m)\<lparr>buffer := b\<rparr>)" using at_sig_advance [OF at(1)] by (simp add: wrote_def)
  with b show "\<exists>m'. module_in w m = Some (CKR_OK, m') \<and> at_sig q m' \<and> call_id m' = call_id m
      \<and> wrote bs (buffer m) (buffer m')"
    by (simp add: module_in_def)
qed

lemma call_prepare_ends:
  assumes "granting h" and "call_entry i p q" and "call_status cs = CALL_READY" and "message_ok (call_req cs)"
  shows "\<exists>m. call_prepare h i cs = Some (CKR_OK, cs\<lparr>call_req := Some m, call_status := CALL_PREP\<rparr>)
    \<and> at_sig p m \<and> call_id m = int i \<and> eb_contents (buffer m) = call_header i p \<and> room (buffer m) (2 ^ 43)"
proof -
  from a_message [OF assms(1,4)] obtain m where
    2: "(case call_req cs of None \<Rightarrow> gkm_rpc_message_new h call_allocator | Some m \<Rightarrow> Some (Some m)) = Some (Some m)" "usable m" .
  obtain m1 where m1: "gkm_rpc_message_reset m = Some m1" "usable m1" using reset_fresh [OF 2(2)] by metis
  have i: "0 < i" "i < GKM_RPC_CALL_MAX" using assms(2) by (simp_all add: call_entry_def)
  obtain b where b: "gkm_rpc_message_prep h (int i) GKM_RPC_REQUEST m1 = Some (True, m1\<lparr>call_id := int i,
      call_type := GKM_RPC_REQUEST, signature := Some (ascii p), sigverify := Some (ascii p), parsed := 0, buffer := b\<rparr>)"
    "eb_contents b = call_header i p" "room b (2 ^ 43)"
    using granting.prep_writes [OF assms(1) m1(2) i call_entry_signature(1,3) [OF assms(2)]] by (auto simp: call_header_def)
  let ?m = "m1\<lparr>call_id := int i, call_type := GKM_RPC_REQUEST, signature := Some (ascii p), sigverify := Some (ascii p),
      parsed := 0, buffer := b\<rparr>"
  have "call_prepare h i cs = Some (CKR_OK, cs\<lparr>call_req := Some ?m, call_status := CALL_PREP\<rparr>)"
    using assms(3) 2(1) m1(1) b(1) by (simp add: call_prepare_def Let_def)
  moreover have "at_sig p ?m" using b(3) by (simp add: at_sig_def room_def)
  ultimately show ?thesis using b(2,3) by (intro exI [of _ ?m]) simp
qed

text \<open>
  The call between \<^verbatim>\<open>BEGIN_CALL\<close> and \<^verbatim>\<open>END_CALL\<close>. What \<open>call_done\<close> asks of the response is part of it.
\<close>

definition may_finish :: "ClientCall \<Rightarrow> CK_RV \<Rightarrow> bool" where
  "may_finish cs ret \<longleftrightarrow> call_status cs \<noteq> CALL_INVALID \<and> message_ok (call_req cs) \<and> message_ok (call_resp cs)
     \<and> (ret = CKR_OK \<and> call_status cs = CALL_PARSE \<longrightarrow>
          (\<exists>m. call_resp cs = Some m \<and> at_sig [] m \<and> eb_failures (buffer m) = 0))"

lemma module_body_ends:
  assumes c: "callable junk h g f i p bs q rv ob (peer_module w) s1" and ins: "sends (module_ins ins) p bs"
    and outs: "rv = CKR_OK \<Longrightarrow> accepts q ob outs mem r mem'"
    and st: "call_status cs = CALL_READY" and cs: "idle cs w"
  defines "ret \<equiv> if rv = CKR_OK then r else remote_code rv" and "mem2 \<equiv> if rv = CKR_OK then mem' else mem"
  shows "\<exists>cs' w'. module_body h (peer_net junk g f) i ins outs mem cs w = Some (ret, mem2, cs', w')
    \<and> may_finish cs' ret \<and> idle cs' w' \<and> peer_module w' = s1"
proof -
  have c': "granting h" "call_entry i p q" "length (call_header i p @ bs) < 0x0FFFFFFF" using c by (simp_all add: callable_def)
  have "message_ok (call_req cs)" using cs by (simp add: idle_def)
  from call_prepare_ends [OF c'(1,2) st this] obtain m where
    1: "call_prepare h i cs = Some (CKR_OK, cs\<lparr>call_req := Some m, call_status := CALL_PREP\<rparr>)"
      "at_sig p m" "call_id m = int i" "eb_contents (buffer m) = call_header i p" "room (buffer m) (2 ^ 43)" by blast
  have "at_sig (p @ []) m" "room (buffer m) (length bs)" using 1(2,5) c'(3) by (simp_all add: room_def)
  with ins obtain m2 where 2: "module_ins ins m = Some (CKR_OK, m2)" "at_sig [] m2" "call_id m2 = call_id m"
    "wrote bs (buffer m) (buffer m2)" unfolding sends_def by blast
  have u: "usable m2" using 2(4) 1(5) by (simp add: usable_def wrote_def room_def)
  let ?cs2 = "cs\<lparr>call_status := CALL_PREP, call_req := Some m2\<rparr>"
  have idl: "idle ?cs2 w" using cs u by (simp add: idle_def message_ok_def)
  obtain cs3 w3 where 3: "call_run h (peer_net junk g f) ?cs2 w = Some (if rv = CKR_OK then CKR_OK else remote_code rv, cs3, w3)"
    "call_status cs3 = CALL_PARSE" "call_req cs3 = Some m2" "idle cs3 w3" "peer_module w3 = s1"
    "rv = CKR_OK \<longrightarrow> (\<exists>m. call_resp cs3 = Some m \<and> at_sig q m \<and> at_bytes ob m \<and> clean m)"
    using call_run_ends [OF c, of ?cs2 m2] 1(3,4) 2(2-4) idl by (auto simp: wrote_def)
  show ?thesis
  proof (cases "rv = CKR_OK")
    case False
    have "module_body h (peer_net junk g f) i ins outs mem cs w = Some (remote_code rv, mem, cs3, w3)"
      using 1(1) 2(1) 3(1) False remote_code_error [of rv] by (simp add: module_body_def Let_def)
    moreover have "may_finish cs3 (remote_code rv)" using 3(2,4) remote_code_error [of rv] by (simp add: may_finish_def idle_def)
    ultimately show ?thesis using False 3(4,5) by (simp add: ret_def mem2_def)
  next
    case True
    with 3(6) obtain rs where rs: "call_resp cs3 = Some rs" "at_sig q rs" "at_bytes ob rs" "clean rs" by blast
    with outs [OF True] obtain rs4 where rs4: "outs CKR_OK mem rs = Some (r, mem', rs4)" "buffer rs4 = buffer rs"
      "r = CKR_OK \<longrightarrow> at_sig [] rs4" unfolding accepts_def clean_def by blast
    let ?cs4 = "cs3\<lparr>call_resp := Some rs4\<rparr>"
    have "module_body h (peer_net junk g f) i ins outs mem cs w = Some (r, mem', ?cs4, w3)"
      using 1(1) 2(1) 3(1) True rs(1) rs4(1) by (simp add: module_body_def Let_def)
    moreover have i4: "idle ?cs4 w3" "eb_failures (buffer rs4) = 0"
      using 3(4) rs(4) rs4(2) by (simp_all add: idle_def message_ok_def clean_def usable_def)
    moreover have "may_finish ?cs4 r" using i4 3(2) rs4(3) by (simp add: may_finish_def idle_def)
    ultimately show ?thesis using True 3(5) by (simp add: ret_def mem2_def)
  qed
qed

subsection \<open>A call from the pool\<close>

text \<open>
  A client with an idle connection to the daemon at the front of its pool, and what becomes of it in a call: it is given
  up when the call returns that the device is gone or in error, and otherwise it is idle at the front of the pool again.
\<close>

definition linked :: "'s Peer RpcModule_State \<Rightarrow> bool" where
  "linked st \<longleftrightarrow> pkcs11_initialized st \<and> 0 < n_call_state_pool st \<and> n_call_state_pool st \<le> MAX_CALL_STATE_POOL
     \<and> (case call_state_pool st of [] \<Rightarrow> False | cs # rest \<Rightarrow> call_status cs = CALL_READY \<and> idle cs (world st))"

definition link_after :: "CK_RV \<Rightarrow> 's Peer RpcModule_State \<Rightarrow> 's Peer RpcModule_State \<Rightarrow> bool" where
  "link_after ret st st' \<longleftrightarrow> (if ret = CKR_DEVICE_ERROR \<or> ret = CKR_DEVICE_REMOVED
     then call_state_pool st' = tl (call_state_pool st)
     else linked st' \<and> tl (call_state_pool st') = tl (call_state_pool st))"

lemma call_done_ends:
  assumes "may_finish cs ret"
  shows "\<exists>st'. call_done (peer_net junk g f) cs ret st = Some (ret, st') \<and> peer_module (world st') = peer_module (world st)
    \<and> pkcs11_initialized st' = pkcs11_initialized st
    \<and> (if ret \<noteq> CKR_DEVICE_ERROR \<and> ret \<noteq> CKR_DEVICE_REMOVED \<and> call_socket cs \<noteq> None \<and> n_call_state_pool st < MAX_CALL_STATE_POOL
       then st' = st\<lparr>call_state_pool := cs\<lparr>call_status := CALL_READY\<rparr> # call_state_pool st, n_call_state_pool := n_call_state_pool st + 1\<rparr>
       else call_state_pool st' = call_state_pool st)"
proof -
  have v: "(case (call_req cs, call_resp cs) of
              (Some rq, Some rs) \<Rightarrow>
                if call_status cs = CALL_PARSE \<and> ret = CKR_OK then
                  if gkm_rpc_message_buffer_error rs then Some CKR_GENERAL_ERROR
                  else if gkm_rpc_message_is_verified rs then Some ret else None
                else Some ret
            | _ \<Rightarrow> Some ret) = Some ret"
    using assms by (auto simp: may_finish_def gkm_rpc_message_buffer_error_def egg_buffer_has_error_def at_sig_verified
        split: option.split)
  have fr: "\<exists>x. gkm_rpc_message_free (call_req cs) = Some x" "\<exists>x. gkm_rpc_message_free (call_resp cs) = Some x"
    using assms by (auto simp: may_finish_def gkm_rpc_message_free_def message_ok_def usable_def split: option.splits)
  have d: "\<exists>w. call_destroy (peer_net junk g f) cs (world st) = Some w \<and> peer_module w = peer_module (world st)"
    using fr by (auto simp: call_destroy_def call_disconnect_def Let_def split: option.splits)
  have "call_status cs \<noteq> CALL_INVALID" using assms by (simp add: may_finish_def)
  with v d show ?thesis unfolding call_done_def by auto
qed

theorem remote_call:
  assumes c: "callable junk h g f i p bs q rv ob (peer_module (world st)) s1" and ins: "sends (module_ins ins) p bs"
    and outs: "rv = CKR_OK \<Longrightarrow> accepts q ob outs mem r mem'" and st: "linked st"
  defines "ret \<equiv> if rv = CKR_OK then r else remote_code rv" and "mem2 \<equiv> if rv = CKR_OK then mem' else mem"
  shows "\<exists>st'. module_call h (peer_net junk g f) i ins outs mem st = Some (ret, mem2, st')
    \<and> peer_module (world st') = s1 \<and> link_after ret st st'"
proof -
  from st obtain cs rest where pool: "call_state_pool st = cs # rest" "call_status cs = CALL_READY" "idle cs (world st)"
    and n: "pkcs11_initialized st" "0 < n_call_state_pool st" "n_call_state_pool st \<le> MAX_CALL_STATE_POOL"
    by (auto simp: linked_def split: list.splits)
  let ?st1 = "st\<lparr>call_state_pool := rest, n_call_state_pool := n_call_state_pool st - 1\<rparr>"
  have look: "call_lookup h (peer_net junk g f) st = Some (CKR_OK, Some cs, ?st1)"
    using pool n by (simp add: call_lookup_def idle_def)
  obtain cs' w' where 2: "module_body h (peer_net junk g f) i ins outs mem cs (world st) = Some (ret, mem2, cs', w')"
    "may_finish cs' ret" "idle cs' w'" "peer_module w' = s1"
    using module_body_ends [OF c ins outs pool(2,3)] unfolding ret_def mem2_def by blast
  obtain st' where 3: "call_done (peer_net junk g f) cs' ret (?st1\<lparr>world := w'\<rparr>) = Some (ret, st')"
    "peer_module (world st') = peer_module w'"
    "if ret \<noteq> CKR_DEVICE_ERROR \<and> ret \<noteq> CKR_DEVICE_REMOVED \<and> call_socket cs' \<noteq> None \<and> n_call_state_pool st - 1 < MAX_CALL_STATE_POOL
       then st' = ?st1\<lparr>world := w', call_state_pool := cs'\<lparr>call_status := CALL_READY\<rparr> # rest, n_call_state_pool := n_call_state_pool st - 1 + 1\<rparr>
       else call_state_pool st' = rest"
    using call_done_ends [OF 2(2), of junk g f "?st1\<lparr>world := w'\<rparr>"] by auto
  have call: "module_call h (peer_net junk g f) i ins outs mem st = Some (ret, mem2, st')"
    using n(1) look 2(1) 3(1) by (simp add: module_call_def)
  have idl: "idle (cs'\<lparr>call_status := CALL_READY\<rparr>) w'" "call_socket cs' \<noteq> None" using 2(3) by (simp_all add: idle_def)
  have "link_after ret st st'"
  proof (cases "ret = CKR_DEVICE_ERROR \<or> ret = CKR_DEVICE_REMOVED")
    case True
    with 3(3) pool(1) show ?thesis by (auto simp: link_after_def)
  next
    case False
    have "n_call_state_pool st - 1 < MAX_CALL_STATE_POOL" using n by simp
    with False 3(3) idl(2) have "st' = ?st1\<lparr>world := w', call_state_pool := cs'\<lparr>call_status := CALL_READY\<rparr> # rest,
        n_call_state_pool := n_call_state_pool st - 1 + 1\<rparr>" by simp
    with False n idl(1) pool(1) show ?thesis by (simp add: link_after_def linked_def)
  qed
  with call 2(4) 3(2) show ?thesis by simp
qed

subsection \<open>Arguments and results of the stubs\<close>

context granting
begin

lemma sends_IN_ULONG: "sends (module_IN_ULONG h v) ''u'' (encode_uint64 v)"
  unfolding module_IN_ULONG_def by (rule sends_in, rule write_ulong_writes)

lemma sends_IN_BYTE_ARRAY:
  assumes "unat n \<le> length v" and "unat n < 0x7fffffff"
  shows "sends (module_IN_BYTE_ARRAY h (Some v) n) ''ay'' (encode_arg_array (Some v) n)"
  using sends_in [OF write_byte_array_writes, of "Some v" n] assms
  by (simp add: module_IN_BYTE_ARRAY_def [abs_def] array_ok_def)

lemma sends_IN_BYTE_BUFFER: "sends (module_IN_BYTE_BUFFER h (Some a) (Some n)) ''fy'' (egg_buffer_encode_uint32 (ucast n))"
  using sends_in [OF write_byte_buffer_writes, of n] by (simp add: module_IN_BYTE_BUFFER_def [abs_def])

end

lemma accepts_none: "accepts [] [] module_OUT_none () CKR_OK ()"
  by (simp add: accepts_def module_OUT_none_def)

lemma accepts_ULONG: "accepts ''u'' (encode_uint64 v) module_OUT_ULONG (Some x) CKR_OK (Some v)"
  unfolding accepts_def
proof (intro allI impI)
  fix m assume at: "at_sig ''u'' m" "at_bytes (encode_uint64 v) m"
  have at': "at_sig (''u'' @ []) m" "at_bytes (encode_uint64 v @ []) (advance (ascii ''u'') m)" using at by simp_all
  note e = at_sig_expects [OF at'(1)]
  from at_uint64(1) [OF at'(2)] at_sig_behind [OF at'(1)]
  show "\<exists>m'. module_OUT_ULONG CKR_OK (Some x) m = Some (CKR_OK, Some v, m') \<and> buffer m' = buffer m \<and> (CKR_OK = CKR_OK \<longrightarrow> at_sig [] m')"
    by (simp add: module_OUT_ULONG_def gkm_rpc_message_read_ulong_def assert_part_expects [OF e])
qed

lemma accepts_BYTE_ARRAY:
  assumes "length v < 0x7fffffff" and "unat cap = length mem" and "length v \<le> length mem"
  shows "accepts ''ay'' (encode_arg_array (Some v) (word_of_nat (length v))) (module_OUT_BYTE_ARRAY junk) (Some mem, Some cap)
    CKR_OK (Some (v @ drop (length v) mem), Some (word_of_nat (length v)))"
  unfolding accepts_def
proof (intro allI impI)
  fix m assume at: "at_sig ''ay'' m" "at_bytes (encode_arg_array (Some v) (word_of_nat (length v))) m"
  have at': "at_sig (''ay'' @ []) m" "at_bytes (encode_arg_array (Some v) (word_of_nat (length v)) @ []) m" using at by simp_all
  from module_read_byte_array_present [OF at_sig_expects [OF at'(1)] assms(1,2) at'(2), of "junk_length junk"] assms(3)
    at_sig_behind [OF at'(1)]
  show "\<exists>m'. module_OUT_BYTE_ARRAY junk CKR_OK (Some mem, Some cap) m
      = Some (CKR_OK, (Some (v @ drop (length v) mem), Some (word_of_nat (length v))), m')
    \<and> buffer m' = buffer m \<and> (CKR_OK = CKR_OK \<longrightarrow> at_sig [] m')"
    by (simp add: module_OUT_BYTE_ARRAY_def)
qed

text \<open>The length alone, with whatever the upper half of the variable held.\<close>

lemma accepts_length:
  "accepts ''ay'' (encode_arg_array None n) (module_OUT_BYTE_ARRAY junk) (Some mem, Some cap)
    CKR_BUFFER_TOO_SMALL (Some mem, Some (push_bit 32 (ucast (junk_length junk)) OR ucast (ucast n :: 32 word)))"
  unfolding accepts_def
proof (intro allI impI)
  fix m assume at: "at_sig ''ay'' m" "at_bytes (encode_arg_array None n) m"
  have at': "at_sig (''ay'' @ []) m" "at_bytes (0 # egg_buffer_encode_uint32 (ucast n) @ []) (advance (ascii ''ay'') m)"
    using at by (simp_all add: encode_arg_array_def)
  note e = at_sig_expects [OF at'(1)]
  note 1 = at_byte [OF at'(2)]
  note 2 = at_uint32(1) [OF 1(2)]
  from 1(1) 2
  show "\<exists>m'. module_OUT_BYTE_ARRAY junk CKR_OK (Some mem, Some cap) m
      = Some (CKR_BUFFER_TOO_SMALL, (Some mem, Some (push_bit 32 (ucast (junk_length junk)) OR ucast (ucast n :: 32 word))), m')
    \<and> buffer m' = buffer m \<and> (CKR_BUFFER_TOO_SMALL = CKR_OK \<longrightarrow> at_sig [] m')"
    by (simp add: module_OUT_BYTE_ARRAY_def module_proto_read_byte_array_def assert_part_expects [OF e])
qed

subsection \<open>Remote calls are local calls\<close>

lemma call_entries:
  "call_entry 18 ''uayay'' ''''" "call_entry 21 ''uuay'' ''''" "call_entry 26 ''uu'' ''u''"
  by (simp_all add: call_entry_def gkm_rpc_calls_def rpc_call_def GKM_RPC_CALL_MAX_def)

lemma dispatch_entries:
  "map_of (dispatch_table junk g f) 18 = Some (dispatch_C_SetPIN g f)"
  "map_of (dispatch_table junk g f) 21 = Some (dispatch_C_Login g f)"
  "map_of (dispatch_table junk g f) 26 = Some (dispatch_C_GetObjectSize g f)"
  by (simp_all add: dispatch_table_def)

lemmas send_rules = sends_cons sends_nil granting.sends_IN_ULONG granting.sends_IN_BYTE_ARRAY
  granting.sends_IN_BYTE_BUFFER

lemma encode_arg_length: "length (encode_arg_array arr n) \<le> 5 + unat n"
  by (cases arr) (simp_all add: encode_arg_array_def encode_byte_array_def length_encode)

lemmas deliver_rules = delivers_BEGIN_CALL delivers_IN_ULONG delivers_IN_BYTE_ARRAY delivers_IN_BYTE_BUFFER

lemma delivers_no_result:
  assumes "call s = (rv, x, s1)"
  shows "delivers [] bs [] rv [] s s1 (dispatch_PROCESS_CALL call (\<lambda>ret _. dispatch_END_CALL ret))"
  by (rule delivers_PROCESS_CALL [of call, OF assms replies_END_CALL])

lemma login_delivers:
  assumes "C_Login f = Some login" and "length pin < 0x7fffffff"
    and "login session user (Some pin) (word_of_nat (length pin)) s = (rv, (), s1)"
  shows "delivers ''uuay'' (encode_uint64 session @ encode_uint64 user @ encode_arg_array (Some pin) (word_of_nat (length pin)) @ [])
    '''' rv [] s s1 (dispatch_C_Login g f)"
  unfolding dispatch_C_Login_def assms(1) by (rule deliver_rules assms(2) delivers_no_result assms(3))+

lemma set_pin_delivers:
  assumes "C_SetPIN f = Some set_pin" and "length old < 0x7fffffff" and "length new < 0x7fffffff"
    and "set_pin session (Some old) (word_of_nat (length old)) (Some new) (word_of_nat (length new)) s = (rv, (), s1)"
  shows "delivers ''uayay'' (encode_uint64 session @ encode_arg_array (Some old) (word_of_nat (length old))
      @ encode_arg_array (Some new) (word_of_nat (length new)) @ [])
    '''' rv [] s s1 (dispatch_C_SetPIN g f)"
  unfolding dispatch_C_SetPIN_def assms(1) by (rule deliver_rules assms(2,3) delivers_no_result assms(4))+

lemma object_size_delivers:
  assumes "granting g" and "C_GetObjectSize f = Some object_size" and "object_size session obj s = (rv, n, s1)"
  shows "delivers ''uu'' (encode_uint64 session @ encode_uint64 obj @ []) ''u'' rv (encode_uint64 n) s s1 (dispatch_C_GetObjectSize g f)"
proof -
  have "delivers [] [] ''u'' rv (encode_uint64 n) s s1
      (dispatch_PROCESS_CALL (object_size session obj) (\<lambda>ret n. dispatch_OUT_ULONG g n dispatch_END_CALL ret))"
    by (rule delivers_PROCESS_CALL [of "object_size session obj", OF assms(3) granting.replies_OUT_ULONG [OF assms(1)]])
  then show ?thesis unfolding dispatch_C_GetObjectSize_def assms(2) by (intro deliver_rules)
qed

text \<open>The calls that turn data into data, with a buffer of the daemon for the result.\<close>

definition crypt_calls :: "'s CK_FUNCTION_LIST
    \<Rightarrow> (CK_ULONG \<Rightarrow> bytes option \<Rightarrow> CK_ULONG \<Rightarrow> bytes option \<Rightarrow> CK_ULONG \<Rightarrow> (bytes option \<times> CK_ULONG, 's) pkcs11_call) option set" where
  "crypt_calls f = {C_Encrypt f, C_EncryptUpdate f, C_Decrypt f, C_DecryptUpdate f, C_Digest f, C_Sign f, C_SignRecover f,
     C_VerifyRecover f, C_DigestEncryptUpdate f, C_DecryptDigestUpdate f, C_SignEncryptUpdate f, C_DecryptVerifyUpdate f}"

definition crypt_handler :: "heap \<Rightarrow> (CK_ULONG \<Rightarrow> bytes option \<Rightarrow> CK_ULONG \<Rightarrow> bytes option \<Rightarrow> CK_ULONG
    \<Rightarrow> (bytes option \<times> CK_ULONG, 's) pkcs11_call) option \<Rightarrow> 's handler" where
  "crypt_handler g c = dispatch_BEGIN_CALL c (\<lambda>func. dispatch_IN_ULONG (\<lambda>session. dispatch_IN_BYTE_ARRAY (\<lambda>part len.
     dispatch_IN_BYTE_BUFFER g (\<lambda>out n. dispatch_PROCESS_CALL (func session part len out n) (\<lambda>ret (out', n').
       dispatch_OUT_BYTE_ARRAY g out' n' dispatch_END_CALL ret)))))"

lemma crypt_delivers:
  assumes g: "granting g" and c: "c = Some crypt" and d: "length data < 0x7fffffff" and n: "unat n \<le> 0x7fffffff" "n \<noteq> 0"
    and call: "crypt session (Some data) (word_of_nat (length data)) (Some (replicate (unat n) 0xff)) n s = (rv, (arr, len), s1)"
      "rv = CKR_OK \<Longrightarrow> array_ok arr len \<and> unat len < 0x7fffffff"
  shows "delivers ''uayfy'' (encode_uint64 session @ encode_arg_array (Some data) (word_of_nat (length data))
      @ egg_buffer_encode_uint32 (ucast n) @ []) ''ay'' (if rv = CKR_BUFFER_TOO_SMALL then CKR_OK else rv)
      (encode_arg_array (if rv = CKR_BUFFER_TOO_SMALL then None else arr) len) s s1 (crypt_handler g c)"
proof -
  let ?call = "crypt session (Some data) (word_of_nat (length data)) (Some (replicate (unat n) 0xff)) n"
  have "delivers [] [] ''ay'' (if rv = CKR_BUFFER_TOO_SMALL then CKR_OK else rv)
      (encode_arg_array (if rv = CKR_BUFFER_TOO_SMALL then None else arr) len) s s1
      (dispatch_PROCESS_CALL ?call (\<lambda>ret (arr, len). dispatch_OUT_BYTE_ARRAY g arr len dispatch_END_CALL ret))"
    using granting.replies_OUT_BYTE_ARRAY [OF g, of rv arr len] call(2) by (intro delivers_PROCESS_CALL [of ?call, OF call(1)]) simp
  then show ?thesis unfolding c crypt_handler_def by (intro deliver_rules g d n)
qed

lemma crypt_remote:
  assumes h: "granting h" and g: "granting g" and f: "module_ok f" "c = Some crypt"
    and i: "call_entry i ''uayfy'' ''ay''" "map_of (dispatch_table junk g f) i = Some (crypt_handler g c)"
    and d: "length data < 2 ^ 27" and n: "unat n = length mem" "mem \<noteq> []" "length mem < 0x7fffffff" and st: "linked st"
    and loc: "crypt session (Some data) (word_of_nat (length data)) (Some (replicate (length mem) 0xff)) n (peer_module (world st))
      = (rv, (Some got, word_of_nat (length out)), s1)"
      "rv = CKR_OK \<longrightarrow> take (length out) got = out \<and> length out \<le> length mem" "length out < 2 ^ 30" "unat rv < 2 ^ 32"
  shows "\<exists>st'. module_call h (peer_net junk g f) i [module_IN_ULONG h session,
        module_IN_BYTE_ARRAY h (Some data) (word_of_nat (length data)), module_IN_BYTE_BUFFER h (Some mem) (Some n)]
        (module_OUT_BYTE_ARRAY jk) (Some mem, Some n) st
      = Some (rv, if rv = CKR_OK then (Some (out @ drop (length out) mem), Some (word_of_nat (length out)))
          else if rv = CKR_BUFFER_TOO_SMALL then (Some mem, Some (push_bit 32 (ucast (junk_length jk)) OR word_of_nat (length out)))
          else (Some mem, Some n), st')
    \<and> peer_module (world st') = s1 \<and> link_after rv st st'"
proof -
  let ?rv = "if rv = CKR_BUFFER_TOO_SMALL then CKR_OK else rv"
  let ?ob = "encode_arg_array (if rv = CKR_BUFFER_TOO_SMALL then None else Some got) (word_of_nat (length out))"
  let ?bs = "encode_uint64 session @ encode_arg_array (Some data) (word_of_nat (length data)) @ egg_buffer_encode_uint32 (ucast n) @ []"
  have n': "unat n \<le> 0x7fffffff" "n \<noteq> 0" using n by (auto simp: unat_eq_zero [symmetric])
  have d': "length data < 0x7fffffff" "unat (word_of_nat (length data) :: CK_ULONG) = length data"
    using d by (simp_all add: unat_of_nat_small)
  have out: "unat (word_of_nat (length out) :: CK_ULONG) = length out" using loc(3) by (intro unat_of_nat_small) simp
  then have small: "ucast (ucast (word_of_nat (length out) :: CK_ULONG) :: 32 word) = (word_of_nat (length out) :: CK_ULONG)"
    using loc(3) by (intro ucast_ucast_small) simp
  have "length out \<le> length got" if "rv = CKR_OK" using loc(2) that by (metis length_take min.cobounded1)
  then have arr: "array_ok (Some got) (word_of_nat (length out)) \<and> unat (word_of_nat (length out) :: CK_ULONG) < 0x7fffffff"
    if "rv = CKR_OK" using that out loc(3) by (simp add: array_ok_def)
  have len: "length (call_header i ''uayfy'' @ ?bs) < 0x0FFFFFFF"
    using call_header_length [OF i(1)] encode_arg_length [of "Some data" "word_of_nat (length data)"] d d'(2)
    by (simp add: length_encode)
  have "length ?ob \<le> 5 + length out" using encode_arg_length out by metis
  moreover have "5 + length out < 2 ^ 31" using loc(3) by simp
  ultimately have ob: "length ?ob < 2 ^ 31" by (rule le_less_trans)
  have call: "crypt session (Some data) (word_of_nat (length data)) (Some (replicate (unat n) 0xff)) n (peer_module (world st))
      = (rv, (Some got, word_of_nat (length out)), s1)" using loc(1) n(1) by simp
  have c: "callable junk h g f i ''uayfy'' ?bs ''ay'' ?rv ?ob (peer_module (world st)) s1"
    using crypt_delivers [OF g f(2) d'(1) n' call arr] by (intro callableI [OF h g f(1) i _ len ob]) simp_all
  have ins: "sends (module_ins [module_IN_ULONG h session, module_IN_BYTE_ARRAY h (Some data) (word_of_nat (length data)),
      module_IN_BYTE_BUFFER h (Some mem) (Some n)]) (''u'' @ ''ay'' @ ''fy'' @ []) ?bs"
    by (intro send_rules h) (use d' in simp_all)
  let ?r = "if rv = CKR_OK then CKR_OK else CKR_BUFFER_TOO_SMALL"
  let ?mem = "if rv = CKR_OK then (Some (out @ drop (length out) mem), Some (word_of_nat (length out)))
      else (Some mem, Some (push_bit 32 (ucast (junk_length jk)) OR word_of_nat (length out)))"
  have "accepts ''ay'' ?ob (module_OUT_BYTE_ARRAY jk) (Some mem, Some n) ?r ?mem" if "?rv = CKR_OK"
  proof (cases "rv = CKR_OK")
    case True
    then have "encode_arg_array (Some got) (word_of_nat (length out)) = encode_arg_array (Some out) (word_of_nat (length out))"
      using out loc(2) by (simp add: encode_arg_array_def)
    with True accepts_BYTE_ARRAY [OF _ n(1), of out jk] loc(2,3) show ?thesis by (simp add: ckr_defs)
  next
    case False
    with that have "rv = CKR_BUFFER_TOO_SMALL" by (simp split: if_splits)
    with False accepts_length [of "word_of_nat (length out)" jk mem n] small show ?thesis by simp
  qed
  from remote_call [OF c _ this st, of "[module_IN_ULONG h session, module_IN_BYTE_ARRAY h (Some data) (word_of_nat (length data)),
      module_IN_BYTE_BUFFER h (Some mem) (Some n)]"] ins
  obtain st' where r: "module_call h (peer_net junk g f) i [module_IN_ULONG h session,
        module_IN_BYTE_ARRAY h (Some data) (word_of_nat (length data)), module_IN_BYTE_BUFFER h (Some mem) (Some n)]
        (module_OUT_BYTE_ARRAY jk) (Some mem, Some n) st
      = Some (if ?rv = CKR_OK then ?r else remote_code ?rv, if ?rv = CKR_OK then ?mem else (Some mem, Some n), st')"
    "peer_module (world st') = s1" "link_after (if ?rv = CKR_OK then ?r else remote_code ?rv) st st'" by auto
  have "remote_code rv = rv" if "rv \<noteq> CKR_OK" using remote_code_small [OF loc(4) that] .
  then have "(if ?rv = CKR_OK then ?r else remote_code ?rv) = rv" by auto
  moreover have "(if ?rv = CKR_OK then ?mem else (Some mem, Some n)) = (if rv = CKR_OK then (Some (out @ drop (length out) mem), Some (word_of_nat (length out)))
          else if rv = CKR_BUFFER_TOO_SMALL then (Some mem, Some (push_bit 32 (ucast (junk_length jk)) OR word_of_nat (length out)))
          else (Some mem, Some n))" by auto
  ultimately show ?thesis using r by (intro exI [of _ st']) simp
qed

text \<open>Calls that give back nothing but the return value.\<close>

lemma remote_no_result:
  assumes c: "callable junk h g f i p bs '''' rv [] (peer_module (world st)) s1"
    and ins: "sends (module_ins ins) p bs" and st: "linked st" and rv: "unat rv < 2 ^ 32"
  shows "\<exists>st'. module_call h (peer_net junk g f) i ins module_OUT_none () st = Some (rv, (), st')
    \<and> peer_module (world st') = s1 \<and> link_after rv st st'"
proof -
  have "(if rv = CKR_OK then CKR_OK else remote_code rv) = rv" using remote_code_small [OF rv] by simp
  with remote_call [OF c ins _ st, of module_OUT_none "()" CKR_OK "()"] accepts_none show ?thesis by simp
qed

lemma remote_pin:
  assumes "length pin < 2 ^ 27"
  shows "length pin < 0x7fffffff" "unat (word_of_nat (length pin) :: CK_ULONG) = length pin"
    "length (encode_arg_array (Some pin) (word_of_nat (length pin))) \<le> 5 + length pin"
  using assms encode_arg_length [of "Some pin" "word_of_nat (length pin)"] by (simp_all add: unat_of_nat_small)

subsection \<open>A connection\<close>

text \<open>A module that counts logins, and knows one PIN.\<close>

definition remote_module :: "nat CK_FUNCTION_LIST" where
  "remote_module = sample_module\<lparr>
     C_Login := Some (\<lambda>session user pin n s. if pin = Some [49, 50] then (CKR_OK, (), s + 1) else (0xA0, (), s)),
     C_SetPIN := Some (\<lambda>session old n new m s. (CKR_OK, (), s + unat m)),
     C_GetObjectSize := Some (\<lambda>session obj s. (CKR_OK, obj + of_nat s, s)),
     C_Sign := Some (\<lambda>session data n out m s. (CKR_OK, (map_option (\<lambda>b. 0xAB # tl b) out, 1), s + 1))\<rparr>"

definition remote_peer :: "nat Peer" where
  "remote_peer = \<lparr>peer_in = [], peer_out = [], peer_up = True, peer_cs = sample_cs, peer_module = 7\<rparr>"

definition remote_state :: "nat Peer RpcModule_State" where
  "remote_state = \<lparr>pkcs11_initialized = True, pkcs11_initialized_pid = 1, pkcs11_socket_path = None,
     call_state_pool = [\<lparr>call_socket = Some 3, call_req = None, call_resp = None, call_status = CALL_READY\<rparr>],
     n_call_state_pool = 1, world = remote_peer\<rparr>"

lemma remote_module_ok: "module_ok remote_module"
  by (simp add: module_ok_def remote_module_def sample_module_def gives_array_def gives_def sample_info_def info_wf_def array_ok_def
      block_ok_def split: option.splits)

lemma sample_msg_allocator: "eb_allocator (buffer sample_msg) \<noteq> None"
  by (simp add: sample_msg_def eb_eval)

lemma remote_state_linked: "linked remote_state"
  using sample_msg_wf sample_msg_allocator
  by (simp add: linked_def remote_state_def remote_peer_def idle_def message_ok_def serving_def usable_def sample_cs_def MAX_CALL_STATE_POOL_def)

subsection \<open>The calls\<close>

text \<open>C4: \<^verbatim>\<open>C_Login\<close> through the module is \<^verbatim>\<open>C_Login\<close> in the daemon. On an idle connection, with the memory that both ends
  ask for, the stub returns exactly what the module behind the daemon returns for the caller's session, user type and PIN, and
  leaves that module in the state in which its own \<^verbatim>\<open>C_Login\<close> leaves it. The connection is idle again at the front of the pool,
  unless the module returned \<^verbatim>\<open>CKR_DEVICE_ERROR\<close> or \<^verbatim>\<open>CKR_DEVICE_REMOVED\<close>: then it is given up. The PIN is
  present and shorter than \<open>2 ^ 27\<close> bytes, and the return value of the module fits 32 bits.\<close>

theorem remote_C_Login:
  assumes "granting h" and "granting g" and "module_ok f" and "C_Login f = Some login"
    and "length pin < 2 ^ 27" and "linked st"
    and "login session user (Some pin) (word_of_nat (length pin)) (peer_module (world st)) = (rv, (), s1)" and "unat rv < 2 ^ 32"
  shows "\<exists>st'. module_C_Login h (peer_net junk g f) session user (Some pin) (word_of_nat (length pin)) st = Some (rv, (), st')
    \<and> peer_module (world st') = s1 \<and> link_after rv st st'"
proof -
  let ?n = "word_of_nat (length pin) :: CK_ULONG"
  let ?bs = "encode_uint64 session @ encode_uint64 user @ encode_arg_array (Some pin) ?n @ []"
  note pin = remote_pin [OF assms(5)]
  have "sends (module_ins [module_IN_ULONG h session, module_IN_ULONG h user, module_IN_BYTE_ARRAY h (Some pin) ?n])
      (''u'' @ ''u'' @ ''ay'' @ []) ?bs"
    by (intro send_rules assms(1)) (use pin in simp_all)
  moreover have "length (call_header 21 ''uuay'' @ ?bs) < 0x0FFFFFFF"
    using call_header_length [OF call_entries(2)] pin(3) assms(5) by (simp add: length_encode)
  then have "callable junk h g f 21 ''uuay'' ?bs '''' rv [] (peer_module (world st)) s1"
    using login_delivers [OF assms(4) pin(1) assms(7)]
    by (intro callableI [OF assms(1-3) call_entries(2) dispatch_entries(2)]) simp_all
  ultimately show ?thesis
    unfolding module_C_Login_def using remote_no_result [where i = 21] assms(6,8) by simp
qed

theorem remote_C_Login_witness:
  "\<exists>st'. module_C_Login libc_realloc (peer_net 0 libc_realloc remote_module) 1 1 (Some [49, 50]) 2 remote_state
      = Some (CKR_OK, (), st')
    \<and> peer_module (world st') = 8 \<and> link_after CKR_OK remote_state st'"
proof -
  obtain login where l: "C_Login remote_module = Some login"
    "login 1 1 (Some [49, 50]) (word_of_nat (length [49, 50 :: byte])) (peer_module (world remote_state)) = (CKR_OK, (), 8)"
    by (simp add: remote_module_def remote_state_def remote_peer_def)
  from remote_C_Login [OF granting_libc granting_libc remote_module_ok l(1) _ remote_state_linked l(2), of 0]
  show ?thesis by (simp add: CKR_OK_def)
qed

text \<open>\<^verbatim>\<open>C_GetObjectSize\<close> through the module is \<^verbatim>\<open>C_GetObjectSize\<close> in the daemon: on success the caller's variable
  has the size that the module gives, and otherwise it is as it was.\<close>

lemma remote_C_GetObjectSize:
  assumes "granting h" and "granting g" and "module_ok f" and "C_GetObjectSize f = Some object_size" and "linked st"
    and "object_size session obj (peer_module (world st)) = (rv, n, s1)" and "unat rv < 2 ^ 32"
  shows "\<exists>st'. module_C_GetObjectSize h (peer_net junk g f) session obj (Some sz) st
      = Some (rv, if rv = CKR_OK then Some n else Some sz, st')
    \<and> peer_module (world st') = s1 \<and> link_after rv st st'"
proof -
  let ?bs = "encode_uint64 session @ encode_uint64 obj @ []"
  have "sends (module_ins [module_IN_ULONG h session, module_IN_ULONG h obj]) (''u'' @ ''u'' @ []) ?bs"
    by (intro send_rules assms(1))
  then have ins: "sends (module_ins [module_IN_ULONG h session, module_IN_ULONG h obj]) ''uu'' ?bs" by simp
  have c: "callable junk h g f 26 ''uu'' ?bs ''u'' rv (encode_uint64 n) (peer_module (world st)) s1"
    using call_header_length [OF call_entries(3)] object_size_delivers [OF assms(2,4,6)]
    by (intro callableI [OF assms(1-3) call_entries(3) dispatch_entries(3)]) (simp_all add: length_encode)
  have "(if rv = CKR_OK then CKR_OK else remote_code rv) = rv" using remote_code_small [OF assms(7)] by simp
  with remote_call [OF c ins _ assms(5), of module_OUT_ULONG "Some sz" CKR_OK "Some n"] accepts_ULONG
  show ?thesis unfolding module_C_GetObjectSize_def module_require_def by simp
qed

text \<open>The twelve stubs that turn data into data, with the functions of the module that they stand for.\<close>

definition crypt_stubs :: "'s CK_FUNCTION_LIST \<Rightarrow> ((heap \<Rightarrow> 's Peer NET \<Rightarrow> JUNK \<Rightarrow> CK_ULONG \<Rightarrow> bytes option
    \<Rightarrow> CK_ULONG \<Rightarrow> bytes option \<Rightarrow> CK_ULONG option \<Rightarrow> (bytes option \<times> CK_ULONG option, 's Peer) stub)
    \<times> (CK_ULONG \<Rightarrow> bytes option \<Rightarrow> CK_ULONG \<Rightarrow> bytes option \<Rightarrow> CK_ULONG \<Rightarrow> (bytes option \<times> CK_ULONG, 's) pkcs11_call) option) list" where
  "crypt_stubs f = [(module_C_Encrypt, C_Encrypt f), (module_C_EncryptUpdate, C_EncryptUpdate f),
     (module_C_Decrypt, C_Decrypt f), (module_C_DecryptUpdate, C_DecryptUpdate f), (module_C_Digest, C_Digest f),
     (module_C_Sign, C_Sign f), (module_C_SignRecover, C_SignRecover f), (module_C_VerifyRecover, C_VerifyRecover f),
     (module_C_DigestEncryptUpdate, C_DigestEncryptUpdate f), (module_C_DecryptDigestUpdate, C_DecryptDigestUpdate f),
     (module_C_SignEncryptUpdate, C_SignEncryptUpdate f), (module_C_DecryptVerifyUpdate, C_DecryptVerifyUpdate f)]"

lemma crypt_dispatch:
  "map_of (dispatch_table junk g f) 33 = Some (crypt_handler g (C_Encrypt f))"
  "map_of (dispatch_table junk g f) 34 = Some (crypt_handler g (C_EncryptUpdate f))"
  "map_of (dispatch_table junk g f) 37 = Some (crypt_handler g (C_Decrypt f))"
  "map_of (dispatch_table junk g f) 38 = Some (crypt_handler g (C_DecryptUpdate f))"
  "map_of (dispatch_table junk g f) 41 = Some (crypt_handler g (C_Digest f))"
  "map_of (dispatch_table junk g f) 46 = Some (crypt_handler g (C_Sign f))"
  "map_of (dispatch_table junk g f) 50 = Some (crypt_handler g (C_SignRecover f))"
  "map_of (dispatch_table junk g f) 56 = Some (crypt_handler g (C_VerifyRecover f))"
  "map_of (dispatch_table junk g f) 57 = Some (crypt_handler g (C_DigestEncryptUpdate f))"
  "map_of (dispatch_table junk g f) 58 = Some (crypt_handler g (C_DecryptDigestUpdate f))"
  "map_of (dispatch_table junk g f) 59 = Some (crypt_handler g (C_SignEncryptUpdate f))"
  "map_of (dispatch_table junk g f) 60 = Some (crypt_handler g (C_DecryptVerifyUpdate f))"
  by (simp_all add: dispatch_table_def crypt_handler_def dispatch_C_Encrypt_def dispatch_C_EncryptUpdate_def
      dispatch_C_Decrypt_def dispatch_C_DecryptUpdate_def dispatch_C_Digest_def dispatch_C_Sign_def dispatch_C_SignRecover_def
      dispatch_C_VerifyRecover_def dispatch_C_DigestEncryptUpdate_def dispatch_C_DecryptDigestUpdate_def
      dispatch_C_SignEncryptUpdate_def dispatch_C_DecryptVerifyUpdate_def)

definition crypt_entries :: "nat list" where
  "crypt_entries = [33, 34, 37, 38, 41, 46, 50, 56, 57, 58, 59, 60]"

lemma crypt_entry: "\<forall>i \<in> set crypt_entries. call_entry i ''uayfy'' ''ay''"
  by (simp add: crypt_entries_def call_entry_def gkm_rpc_calls_def rpc_call_def GKM_RPC_CALL_MAX_def)

lemma crypt_stub_calls:
  "list_all2 (\<lambda>i (stub, c). c \<in> crypt_calls f \<and> (\<forall>h net jk session data len mem n.
      stub h net jk session data len mem (Some n) = module_call h net i [module_IN_ULONG h session,
        module_IN_BYTE_ARRAY h data len, module_IN_BYTE_BUFFER h mem (Some n)] (module_OUT_BYTE_ARRAY jk) (mem, Some n)))
    crypt_entries (crypt_stubs f)"
  by (simp add: crypt_entries_def crypt_stubs_def crypt_calls_def module_require_def [abs_def] module_C_Encrypt_def
      module_C_EncryptUpdate_def module_C_Decrypt_def module_C_DecryptUpdate_def module_C_Digest_def module_C_Sign_def
      module_C_SignRecover_def module_C_VerifyRecover_def module_C_DigestEncryptUpdate_def module_C_DecryptDigestUpdate_def
      module_C_SignEncryptUpdate_def module_C_DecryptVerifyUpdate_def)

lemma crypt_stub_dispatch:
  "list_all2 (\<lambda>i (stub, c). map_of (dispatch_table junk g f) i = Some (crypt_handler g c)) crypt_entries (crypt_stubs f)"
  by (simp add: crypt_entries_def crypt_stubs_def crypt_dispatch)

lemma crypt_stub:
  assumes "(stub, c) \<in> set (crypt_stubs f)"
  shows "\<exists>i. call_entry i ''uayfy'' ''ay'' \<and> map_of (dispatch_table junk g f) i = Some (crypt_handler g c) \<and> c \<in> crypt_calls f
    \<and> (\<forall>h net jk session data len mem n. stub h net jk session data len mem (Some n) = module_call h net i
        [module_IN_ULONG h session, module_IN_BYTE_ARRAY h data len, module_IN_BYTE_BUFFER h mem (Some n)]
        (module_OUT_BYTE_ARRAY jk) (mem, Some n))"
proof -
  from assms obtain k where k: "k < length (crypt_stubs f)" "crypt_stubs f ! k = (stub, c)" by (auto simp: in_set_conv_nth)
  with list_all2_lengthD [OF crypt_stub_calls, of f] have "crypt_entries ! k \<in> set crypt_entries" by simp
  then have "call_entry (crypt_entries ! k) ''uayfy'' ''ay''" using crypt_entry by blast
  with list_all2_nthD2 [OF crypt_stub_calls k(1)] list_all2_nthD2 [OF crypt_stub_dispatch k(1), of junk g] k(2)
  show ?thesis by (intro exI [of _ "crypt_entries ! k"]) simp
qed

text \<open>C2: every stub that turns data into data (\<^verbatim>\<open>C_Encrypt\<close>, \<^verbatim>\<open>C_Decrypt\<close>, \<^verbatim>\<open>C_Digest\<close>, \<^verbatim>\<open>C_Sign\<close> and eight others) is
  the function of the same name of the module in the daemon, called once on a buffer as large as the caller's. With the memory that
  both ends ask for, the stub returns exactly the module's return value and leaves the module in the state in which that call
  leaves it. On \<^verbatim>\<open>CKR_OK\<close> the caller's buffer has the module's output at its front and is otherwise unchanged, and the length
  variable has the output's length. On \<^verbatim>\<open>CKR_BUFFER_TOO_SMALL\<close> the buffer is unchanged and the length variable has the length needed in
  its lower half and uninitialised memory in its upper half. On every other error the caller's memory is as it was. The
  connection is idle again unless the return value says that the device is gone or in error. The caller's buffer is present and not
  empty (a query of the length alone is not covered), the data is shorter than \<open>2 ^ 27\<close> bytes and the output shorter than \<open>2 ^ 30\<close>.\<close>

theorem remote_crypt:
  assumes "granting h" and "granting g" and "module_ok f"
    and "(stub, Some crypt) \<in> set (crypt_stubs f)" and "length data < 2 ^ 27"
    and "unat n = length mem" and "mem \<noteq> []" and "length mem < 0x7fffffff" and "linked st"
    and "crypt session (Some data) (word_of_nat (length data)) (Some (replicate (length mem) 0xff)) n (peer_module (world st))
      = (rv, (Some got, word_of_nat (length out)), s1)"
    and "rv = CKR_OK \<longrightarrow> take (length out) got = out \<and> length out \<le> length mem" and "length out < 2 ^ 30" and "unat rv < 2 ^ 32"
  shows "\<exists>st'. stub h (peer_net junk g f) jk session (Some data) (word_of_nat (length data)) (Some mem) (Some n) st
      = Some (rv, if rv = CKR_OK then (Some (out @ drop (length out) mem), Some (word_of_nat (length out)))
          else if rv = CKR_BUFFER_TOO_SMALL then (Some mem, Some (push_bit 32 (ucast (junk_length jk)) OR word_of_nat (length out)))
          else (Some mem, Some n), st')
    \<and> peer_module (world st') = s1 \<and> link_after rv st st'"
proof -
  from crypt_stub [OF assms(4), of junk g] obtain i where i: "call_entry i ''uayfy'' ''ay''"
    "map_of (dispatch_table junk g f) i = Some (crypt_handler g (Some crypt))"
    "stub h (peer_net junk g f) jk session (Some data) (word_of_nat (length data)) (Some mem) (Some n)
      = module_call h (peer_net junk g f) i [module_IN_ULONG h session, module_IN_BYTE_ARRAY h (Some data) (word_of_nat (length data)),
          module_IN_BYTE_BUFFER h (Some mem) (Some n)] (module_OUT_BYTE_ARRAY jk) (Some mem, Some n)"
    by blast
  show ?thesis unfolding i(3) by (rule crypt_remote [OF assms(1-3) refl i(1,2) assms(5-13)])
qed

theorem remote_crypt_witness:
  "\<exists>st'. module_C_Sign libc_realloc (peer_net 0 libc_realloc remote_module) \<lparr>junk_length = 0, junk_long = 0\<rparr> 1
      (Some [1, 2, 3]) 3 (Some [0, 0]) (Some 2) remote_state = Some (CKR_OK, (Some [0xAB, 0], Some 1), st')
    \<and> peer_module (world st') = 8 \<and> link_after CKR_OK remote_state st'"
proof -
  obtain crypt where c: "C_Sign remote_module = Some crypt"
    "crypt 1 (Some [1, 2, 3]) (word_of_nat (length [1, 2, 3 :: byte])) (Some (replicate (length [0, 0 :: byte]) 0xff)) 2
       (peer_module (world remote_state)) = (CKR_OK, (Some [0xAB, 0xff], word_of_nat (length [0xAB :: byte])), 8)"
    by (simp add: remote_module_def remote_state_def remote_peer_def)
  have "(module_C_Sign, Some crypt) \<in> set (crypt_stubs remote_module)" unfolding c(1) [symmetric] by (simp add: crypt_stubs_def)
  from remote_crypt [OF granting_libc granting_libc remote_module_ok this _ _ _ _ remote_state_linked c(2), of 0 "\<lparr>junk_length = 0, junk_long = 0\<rparr>"]
  show ?thesis by (simp add: CKR_OK_def)
qed

text \<open>C26: \<^verbatim>\<open>C_SetPIN\<close> does not give the daemon the new PIN that the caller gives: the stub sends it with the length of the
  old PIN. Where the new PIN is at least as long as the old one, and with the memory that both ends ask for, the module in the daemon
  is called to set the new PIN cut off to the length of the old one, and the caller gets exactly its return value: a success for
  another PIN than the one asked for. The old PIN is shorter than \<open>2 ^ 26\<close> bytes.\<close>

theorem remote_C_SetPIN_truncates:
  assumes "granting h" and "granting g" and "module_ok f" and "C_SetPIN f = Some set_pin"
    and "length old < 2 ^ 26" and "length old \<le> length new" and "linked st"
    and "set_pin session (Some old) (word_of_nat (length old)) (Some (take (length old) new)) (word_of_nat (length old))
      (peer_module (world st)) = (rv, (), s1)" and "unat rv < 2 ^ 32"
  shows "\<exists>st'. module_C_SetPIN h (peer_net junk g f) session (Some old) (word_of_nat (length old)) (Some new) st = Some (rv, (), st')
    \<and> peer_module (world st') = s1 \<and> link_after rv st st'"
proof -
  let ?n = "word_of_nat (length old) :: CK_ULONG"
  let ?cut = "take (length old) new"
  have cut: "length ?cut = length old" using assms(6) by simp
  have "length old < 2 ^ 27" using assms(5) by simp
  note pin = remote_pin [OF this]
  note pin' = remote_pin [of ?cut, unfolded cut, OF \<open>length old < 2 ^ 27\<close>]
  let ?bs = "encode_uint64 session @ encode_arg_array (Some old) ?n @ encode_arg_array (Some ?cut) ?n @ []"
  have same: "encode_arg_array (Some new) ?n = encode_arg_array (Some ?cut) ?n"
    using pin(2) by (simp add: encode_arg_array_def)
  have "sends (module_ins [module_IN_ULONG h session, module_IN_BYTE_ARRAY h (Some old) ?n, module_IN_BYTE_ARRAY h (Some new) ?n])
      (''u'' @ ''ay'' @ ''ay'' @ []) ?bs"
    unfolding same [symmetric] by (intro send_rules assms(1)) (use pin(1,2) assms(6) in simp_all)
  moreover have "length (call_header 18 ''uayay'' @ ?bs) < 0x0FFFFFFF"
    using call_header_length [OF call_entries(1)] pin(3) pin'(3) assms(5) by (simp add: length_encode)
  then have "callable junk h g f 18 ''uayay'' ?bs '''' rv [] (peer_module (world st)) s1"
    using set_pin_delivers [OF assms(4) pin(1), of ?cut session, unfolded cut, OF pin(1) assms(8)]
    by (intro callableI [OF assms(1-3) call_entries(1) dispatch_entries(1)]) simp_all
  ultimately show ?thesis
    unfolding module_C_SetPIN_def using remote_no_result [where i = 18] assms(7,9) by simp
qed

theorem remote_C_SetPIN_truncates_witness:
  "\<exists>st'. module_C_SetPIN libc_realloc (peer_net 0 libc_realloc remote_module) 1 (Some [49, 50]) 2 (Some [51, 52, 53]) remote_state
      = Some (CKR_OK, (), st')
    \<and> peer_module (world st') = 9 \<and> link_after CKR_OK remote_state st'"
proof -
  obtain set_pin where l: "C_SetPIN remote_module = Some set_pin"
    "set_pin 1 (Some [49, 50]) (word_of_nat (length [49, 50 :: byte])) (Some (take (length [49, 50 :: byte]) [51, 52, 53]))
      (word_of_nat (length [49, 50 :: byte])) (peer_module (world remote_state)) = (CKR_OK, (), 9)"
    by (simp add: remote_module_def remote_state_def remote_peer_def)
  from remote_C_SetPIN_truncates [OF granting_libc granting_libc remote_module_ok l(1) _ _ remote_state_linked l(2), of 0]
  show ?thesis by (simp add: CKR_OK_def)
qed

end
