(* ===== verification/RpcClient.thy ===== *)
theory RpcClient
  imports RpcModule RpcCodec
begin

text \<open>
  The client's own state: the pool of idle connections (theory \<open>RpcModule\<close>) keeps its counter and its
  bound, hands out only connections that can be used, and no call leaks a descriptor.
\<close>

subsection \<open>Descriptors\<close>



text \<open>The connection a call holds, and those of the pool.\<close>

definition held :: "ClientCall \<Rightarrow> nat set" where
  "held cs = (case call_socket cs of None \<Rightarrow> {} | Some fd \<Rightarrow> {fd})"




text \<open>\<open>in_use fds rest cs w\<close>: the call in progress may have a connection, beside the \<open>rest\<close>.\<close>

definition in_use :: "('w \<Rightarrow> nat set) \<Rightarrow> nat set \<Rightarrow> ClientCall \<Rightarrow> 'w \<Rightarrow> bool" where
  "in_use fds rest cs w \<longleftrightarrow> held cs \<inter> rest = {} \<and> fds w = held cs \<union> rest"

lemma held_simps [simp]:
  "held (cs\<lparr>call_req := r\<rparr>) = held cs" "held (cs\<lparr>call_resp := q\<rparr>) = held cs"
  "held (cs\<lparr>call_status := s\<rparr>) = held cs" "held (cs\<lparr>call_socket := None\<rparr>) = {}"
  "held (cs\<lparr>call_socket := Some fd\<rparr>) = {fd}"
  by (simp_all add: held_def)

lemma in_use_simps [simp]:
  "in_use fds rest (cs\<lparr>call_req := r\<rparr>) w = in_use fds rest cs w"
  "in_use fds rest (cs\<lparr>call_resp := q\<rparr>) w = in_use fds rest cs w"
  "in_use fds rest (cs\<lparr>call_status := s\<rparr>) w = in_use fds rest cs w"
  by (simp_all add: in_use_def)


















subsection \<open>The pool\<close>





















subsection \<open>The argument string\<close>

text \<open>Characters that stand for themselves outside of quotes, and inside of quotes \<open>q\<close>.\<close>

definition ordinary :: "byte \<Rightarrow> bool" where
  "ordinary c \<longleftrightarrow> c \<noteq> 0 \<and> \<not> module_isspace c \<and> c \<noteq> 0x27 \<and> c \<noteq> 0x22 \<and> c \<noteq> 0x5C"

definition quotable :: "byte \<Rightarrow> byte \<Rightarrow> bool" where
  "quotable q c \<longleftrightarrow> c \<noteq> 0 \<and> c \<noteq> q \<and> c \<noteq> 0x5C"

lemma parse_loop_ordinary:
  "list_all ordinary cs \<Longrightarrow> parse_loop h 0 (pre @ cs @ rest) (length pre) (length pre) arg path
     = parse_loop h 0 (pre @ cs @ rest) (length pre + length cs) (length pre + length cs) arg path"
proof (induction cs arbitrary: pre)
  case (Cons c cs)
  have c: "ordinary c" using Cons.prems by simp
  let ?dup = "pre @ (c # cs) @ rest"
  have "plain_char ?dup (length pre) (length pre) = Some (Some (?dup, length pre, length pre + 1))"
    using c by (simp add: plain_char_def mem_peek_def mem_put_def ordinary_def)
  then have "parse_loop h 0 ?dup (length pre) (length pre) arg path
      = parse_loop h 0 ?dup (length pre + 1) (length pre + 1) arg path"
    using c by (subst parse_loop.simps) (simp add: mem_peek_def ordinary_def)
  also have "\<dots> = parse_loop h 0 ?dup (length pre + length (c # cs)) (length pre + length (c # cs)) arg path"
    using Cons.IH [of "pre @ [c]"] Cons.prems by simp
  finally show ?case .
qed simp

lemma parse_loop_quoted_step:
  assumes "mem_peek dup src = Some c" and "c \<noteq> 0" and "c \<noteq> q" and "q \<noteq> 0"
    and "quoted_char q dup src at = Some (Some (dup', src', at'))"
  shows "parse_loop h q dup src at arg path = parse_loop h q dup' (src' + 1) at' arg path"
  using assms by (subst parse_loop.simps) simp

text \<open>Behind a quote the characters are moved down by one, and the last one stays where it was too.\<close>

lemma parse_loop_quoted:
  "list_all (quotable q) cs \<Longrightarrow> q \<noteq> 0 \<Longrightarrow>
     parse_loop h q (pre @ [x] @ cs @ rest) (length pre + 1) (length pre) arg path
     = parse_loop h q (pre @ cs @ [last (x # cs)] @ rest) (length pre + 1 + length cs) (length pre + length cs) arg path"
proof (induction cs arbitrary: pre x)
  case (Cons c cs)
  have c: "quotable q c" using Cons.prems by simp
  let ?dup = "pre @ [x] @ (c # cs) @ rest"
  have q: "quoted_char q ?dup (length pre + 1) (length pre)
      = Some (Some ((pre @ [c]) @ [c] @ cs @ rest, length pre + 1, length pre + 1))"
    using c by (simp add: quoted_char_def mem_peek_def mem_put_def quotable_def nth_append)
  have "parse_loop h q ?dup (length pre + 1) (length pre) arg path
      = parse_loop h q ((pre @ [c]) @ [c] @ cs @ rest) (length pre + 1 + 1) (length pre + 1) arg path"
    using c Cons.prems(2) by (intro parse_loop_quoted_step [OF _ _ _ _ q, where c = c]) (simp_all add: mem_peek_def quotable_def nth_append)
  also have "\<dots> = parse_loop h q ((pre @ [c]) @ [c] @ cs @ rest) (length (pre @ [c]) + 1) (length (pre @ [c])) arg path"
    by simp
  also have "\<dots> = parse_loop h q ((pre @ [c]) @ cs @ [last (c # cs)] @ rest) (length (pre @ [c]) + 1 + length cs)
      (length (pre @ [c]) + length cs) arg path"
    using Cons by (intro Cons.IH) simp_all
  finally show ?case by simp
qed simp

lemma parse_loop_end: "dup ! src = 0 \<Longrightarrow> src < length dup \<Longrightarrow> parse_loop h q dup src at arg path = Some (True, dup, at, arg, path)"
  by (subst parse_loop.simps) (simp add: mem_peek_def)

lemma parse_loop_quote_open:
  assumes "dup ! src = q" and "src < length dup" and "q = 0x27 \<or> q = 0x22"
  shows "parse_loop h 0 dup src at arg path = parse_loop h q dup (src + 1) at arg path"
proof -
  have "\<not> module_isspace q" "q \<noteq> 0" "q = of_char (CHR 0x27) \<or> q = of_char (CHR 0x22)"
    using assms(3) by (elim disjE; simp add: module_isspace_def)+
  moreover have "mem_peek dup src = Some q" using assms by (simp add: mem_peek_def)
  ultimately show ?thesis
    by (subst parse_loop.simps) (simp only: option.case if_False if_True simp_thms not_sym)
qed

lemma parse_loop_quote_close:
  assumes "dup ! src = q" and "src < length dup" and "q \<noteq> 0"
  shows "parse_loop h q dup src at arg path = parse_loop h 0 dup (src + 1) at arg path"
  using assms by (subst parse_loop.simps) (simp add: mem_peek_def)

lemma ordinary_nul: "list_all ordinary cs \<Longrightarrow> 0 \<notin> set cs"
  by (auto simp: ordinary_def list_all_iff)

lemma parse_argument_socket:
  "h Default_allocator None (length v + 1) \<noteq> None \<Longrightarrow> parse_argument h (ascii ''socket='' @ v) path = Some (Some v)"
  by (auto simp: parse_argument_def ascii_def module_strdup_def Let_def)

lemma socket_ordinary: "list_all ordinary (ascii ''socket='')" "list_all ordinary (ascii ''socket'')"
  by (simp_all add: ascii_def ordinary_def module_isspace_def)

text \<open>What the loop makes of a string, and the last argument of it.\<close>

lemma parse_arguments_result:
  assumes "0 \<notin> set t" and "h Default_allocator None (length t + 1) \<noteq> None"
    and "parse_loop h 0 (t @ [0]) 0 0 0 old = Some (True, u @ [0], n, 0, old)"
    and "0 < n" and "0 \<notin> set u"
  shows "parse_arguments h (Some t) old = parse_argument h u old"
proof -
  have "module_strdup h (c_str t) = Some t" using assms(1, 2) by (auto simp: module_strdup_def c_str_id)
  then show ?thesis
    using assms(3-5) by (simp add: parse_arguments_def c_str_append_nul)
qed

lemma parse_arguments_ordinary:
  assumes t: "list_all ordinary t" "t \<noteq> []" and "h Default_allocator None (length t + 1) \<noteq> None"
  shows "parse_arguments h (Some t) old = parse_argument h t old"
proof (rule parse_arguments_result [where n = "length t"])
  show "parse_loop h 0 (t @ [0]) 0 0 0 old = Some (True, t @ [0], length t, 0, old)"
    using parse_loop_ordinary [OF t(1), of h "[]" "[0]" 0 old] parse_loop_end [of "t @ [0]" "length t"]
    by (simp add: nth_append)
qed (use assms ordinary_nul [OF t(1)] in auto)

lemma parse_loop_quoted_argument:
  assumes s: "list_all ordinary s" and p: "list_all (quotable 0x27) p" "p \<noteq> []"
  shows "parse_loop h 0 (s @ [0x27] @ p @ [0x27, 0]) 0 0 0 old
      = Some (True, s @ p @ [last p, 0x27, 0], length s + length p, 0, old)"
proof -
  let ?t = "s @ [0x27] @ p @ [0x27, 0]" and ?u = "s @ p @ [last p, 0x27, 0]"
  have "parse_loop h 0 ?t 0 0 0 old = parse_loop h 0 ?t (length s) (length s) 0 old"
    using parse_loop_ordinary [OF s, of h "[]" "[0x27] @ p @ [0x27, 0]" 0 old] by simp
  also have "\<dots> = parse_loop h 0x27 ?t (length s + 1) (length s) 0 old"
    by (rule parse_loop_quote_open) (simp_all add: nth_append)
  also have "\<dots> = parse_loop h 0x27 ?u (length s + 1 + length p) (length s + length p) 0 old"
    using parse_loop_quoted [of "0x27" p h s "0x27" "[0x27, 0]" 0 old] p by simp
  also have "\<dots> = parse_loop h 0 ?u (length s + 1 + length p + 1) (length s + length p) 0 old"
    by (rule parse_loop_quote_close) (simp_all add: nth_append)
  also have "\<dots> = Some (True, ?u, length s + length p, 0, old)"
    by (rule parse_loop_end) (simp_all add: nth_append)
  finally show ?thesis .
qed

text \<open>The argument string of \<^verbatim>\<open>C_Initialize\<close>: \<open>socket=PATH\<close> sets the socket to exactly \<open>PATH\<close>, for any path
  without spaces, quotes and backslashes. In quotes it does not: the argument at the end of the
  string is not terminated where its rewritten text ends, so \<open>socket='PATH'\<close> names a path with two
  more characters, the last one repeated and the quote. And \<open>socket\<close> without a value ends in
  \<^verbatim>\<open>strdup (NULL)\<close>.\<close>

lemma parse_arguments_socket:
  assumes heap: "\<And>n. n < 1000 \<Longrightarrow> h Default_allocator None n \<noteq> None" and len: "length p < 900"
  shows "(list_all ordinary p \<longrightarrow> parse_arguments h (Some (ascii ''socket='' @ p)) old = Some (Some p))
    \<and> (list_all (quotable 0x27) p \<and> p \<noteq> [] \<longrightarrow>
        parse_arguments h (Some (ascii ''socket='' @ [0x27] @ p @ [0x27])) old = Some (Some (p @ [last p, 0x27])))
    \<and> parse_arguments h (Some (ascii ''socket'')) old = None"
proof (intro conjI impI)
  let ?s = "ascii ''socket=''"
  have room: "length ?s + length p + 10 < 1000" using len by (simp add: ascii_def)
  show "parse_arguments h (Some (?s @ p)) old = Some (Some p)" if "list_all ordinary p"
  proof -
    have "parse_arguments h (Some (?s @ p)) old = parse_argument h (?s @ p) old"
      using that socket_ordinary(1) room by (intro parse_arguments_ordinary heap) (simp_all add: ascii_def)
    also have "\<dots> = Some (Some p)" using room by (intro parse_argument_socket heap) simp
    finally show ?thesis .
  qed
  show "parse_arguments h (Some (?s @ [0x27] @ p @ [0x27])) old = Some (Some (p @ [last p, 0x27]))"
    if p: "list_all (quotable 0x27) p \<and> p \<noteq> []"
  proof -
    have "last p \<in> set p" using p by simp
    then have nul: "0 \<notin> set ?s" "0 \<notin> set p" "last p \<noteq> 0"
      using p ordinary_nul [OF socket_ordinary(1)] by (auto simp: list_all_iff quotable_def)
    have "parse_arguments h (Some (?s @ [0x27] @ p @ [0x27])) old = parse_argument h (?s @ p @ [last p, 0x27]) old"
      using parse_loop_quoted_argument [OF socket_ordinary(1), of p h old] p nul room
      by (intro parse_arguments_result [where n = "length ?s + length p"] heap) auto
    also have "\<dots> = Some (Some (p @ [last p, 0x27]))"
      using room by (intro parse_argument_socket heap) simp
    finally show ?thesis .
  qed
  have "parse_arguments h (Some (ascii ''socket'')) old = parse_argument h (ascii ''socket'') old"
    by (intro parse_arguments_ordinary socket_ordinary heap) (simp_all add: ascii_def)
  then show "parse_arguments h (Some (ascii ''socket'')) old = None"
    by (simp add: parse_argument_def Let_def ascii_def)
qed

text \<open>An escaped character in quotes takes three characters of the copy for two of the source. After a few
  of them the loop writes in front of what it reads, destroys the terminating NUL and leaves the
  block: a string of a quote and three escapes overruns the copy.\<close>

lemma parse_arguments_overflow:
  "parse_arguments libc_realloc (Some [0x27, 0x5C, 0x61, 0x5C, 0x61, 0x5C, 0x61]) old = None"
  by (simp add: parse_arguments_def module_strdup_def libc_realloc_def c_str_def Let_def parse_loop.simps
      quoted_char_def mem_peek_def mem_put_def module_isspace_def)

end
