(* ===== verification/WrapLayer.thy ===== *)
theory WrapLayer
  imports RpcHandlers "HOL-Library.AList"
begin

text \<open>
  The wrap layer, \<^verbatim>\<open>pkcs11/wrap-layer/gkm-wrap-layer.c\<close>: it joins the PKCS\#11 modules of the daemon into one. The slots of
  all modules get new numbers, sessions get new handles, and each call on a slot or a session is passed on to the module that
  it belongs to.

  A module is its list of functions (\<open>CK_FUNCTION_LIST\<close>) with \<^verbatim>\<open>C_Initialize\<close> and \<^verbatim>\<open>C_Finalize\<close>; all modules act on one
  world \<open>'s\<close>. The static variables of the file are the record \<open>Wrap\<close>. \<open>None\<close> as a result is a fault: an access
  outside of the array of mappings or through \<^verbatim>\<open>NULL\<close>, or a failed assertion. What a caller's variable holds
  before a call is an argument, because a call that fails early leaves it alone. The hash table of sessions is an
  association list, and the order in which it is walked is the parameter \<open>visit\<close>; the contents of
  uninitialised memory are parameters.
\<close>

section \<open>The model\<close>

definition CKR_SLOT_ID_INVALID :: CK_RV where "CKR_SLOT_ID_INVALID = 3"
definition CKR_NO_EVENT :: CK_RV where "CKR_NO_EVENT = 8"
definition CKR_PIN_INCORRECT :: CK_RV where "CKR_PIN_INCORRECT = 0xa0"
definition CKR_PIN_INVALID :: CK_RV where "CKR_PIN_INVALID = 0xa1"
definition CKR_PIN_LEN_RANGE :: CK_RV where "CKR_PIN_LEN_RANGE = 0xa2"
definition CKR_SESSION_HANDLE_INVALID :: CK_RV where "CKR_SESSION_HANDLE_INVALID = 0xb3"
definition CKF_TOKEN_PRESENT :: CK_ULONG where "CKF_TOKEN_PRESENT = 1"
definition CKF_PROTECTED_AUTHENTICATION_PATH :: CK_ULONG where "CKF_PROTECTED_AUTHENTICATION_PATH = 0x100"

text \<open>The module in front and its world; \<open>'f\<close> is the list of functions.\<close>

record ('f, 's) Module =
  m_list :: 'f
  m_Initialize :: "'s \<Rightarrow> CK_RV \<times> 's"
  m_Finalize :: "'s \<Rightarrow> 's"

record 'm Mapping =
  wrap_slot :: CK_ULONG
  real_slot :: CK_ULONG
  funcs :: 'm

record Session =
  wrap_session :: "32 word"
  real_session :: CK_ULONG
  app_id :: CK_ULONG
  sess_wrap_slot :: CK_ULONG
  specific :: CK_ULONG

record 'm Wrap =
  wrap_modules :: "'m list"
  wrap_mappings :: "'m Mapping list option"
  n_wrap_mappings :: nat
  wrap_sessions :: "(32 word \<times> Session) list option"
  last_handle :: "32 word"

type_synonym 's wrap_module = "('s CK_FUNCTION_LIST, 's) Module"
type_synonym 's wrap_state = "'s wrap_module Wrap \<times> 's"
type_synonym ('o, 's) wrap_call = "'s wrap_state \<Rightarrow> (CK_RV \<times> 'o \<times> 's wrap_state) option"

definition PLEX_MAPPING_OFFSET :: CK_ULONG where
  "PLEX_MAPPING_OFFSET = 0x10"

definition wrap_initial :: "'m Wrap" where
  "wrap_initial = \<lparr>wrap_modules = [], wrap_mappings = None, n_wrap_mappings = 0, wrap_sessions = None, last_handle = 16\<rparr>"

subsection \<open>Slots and sessions\<close>

definition map_slot_unlocked :: "CK_ULONG \<Rightarrow> 'm Wrap \<Rightarrow> (CK_RV \<times> 'm Mapping option) option" where
  "map_slot_unlocked slot st =
     (case wrap_mappings st of
        None \<Rightarrow> Some (CKR_CRYPTOKI_NOT_INITIALIZED, None)
      | Some maps \<Rightarrow>
          if slot < PLEX_MAPPING_OFFSET then Some (CKR_SLOT_ID_INVALID, None)
          else let i = unat (slot - PLEX_MAPPING_OFFSET) in
            if n_wrap_mappings st < i then Some (CKR_SLOT_ID_INVALID, None)
            else if i < length maps then Some (CKR_OK, Some (maps ! i))
            else None)"

text \<open>\<open>None\<close> as the mapping stands for a result other than \<^verbatim>\<open>CKR_OK\<close>.\<close>

definition map_slot_to_real :: "CK_ULONG \<Rightarrow> 'm Wrap \<Rightarrow> (CK_RV \<times> (CK_ULONG \<times> 'm Mapping) option) option" where
  "map_slot_to_real slot st = do {
     (rv, r) \<leftarrow> map_slot_unlocked slot st;
     Some (rv, map_option (\<lambda>m. (real_slot m, m)) r)
   }"

definition map_session_to_real :: "CK_ULONG \<Rightarrow> 'm Wrap \<Rightarrow> (CK_RV \<times> (CK_ULONG \<times> 'm Mapping) option) option" where
  "map_session_to_real handle st =
     (case wrap_sessions st of
        None \<Rightarrow> Some (CKR_CRYPTOKI_NOT_INITIALIZED, None)
      | Some tab \<Rightarrow>
          (case map_of tab (ucast handle) of
             None \<Rightarrow> Some (CKR_SESSION_HANDLE_INVALID, None)
           | Some sess \<Rightarrow> do {
               (rv, r) \<leftarrow> map_slot_unlocked (sess_wrap_slot sess) st;
               Some (rv, map_option (\<lambda>m. (real_session sess, m)) r)
             }))"

definition lookup_session_specific :: "CK_ULONG \<Rightarrow> 'm Wrap \<Rightarrow> CK_ULONG" where
  "lookup_session_specific handle st =
     (case wrap_sessions st of
        None \<Rightarrow> 0
      | Some tab \<Rightarrow> (case map_of tab (ucast handle) of None \<Rightarrow> 0 | Some sess \<Rightarrow> specific sess))"

definition store_session_specific :: "CK_ULONG \<Rightarrow> CK_ULONG \<Rightarrow> 'm Wrap \<Rightarrow> 'm Wrap" where
  "store_session_specific handle key st =
     (case wrap_sessions st of
        None \<Rightarrow> st
      | Some tab \<Rightarrow>
          (case map_of tab (ucast handle) of
             None \<Rightarrow> st
           | Some sess \<Rightarrow> st\<lparr>wrap_sessions := Some (AList.update (ucast handle) (sess\<lparr>specific := key\<rparr>) tab)\<rparr>))"

subsection \<open>Initialize and Finalize\<close>

text \<open>The mappings of a module's slots, after the \<open>k\<close> mappings there are; \<^verbatim>\<open>mappings->len\<close> is a 32 bit number.\<close>

definition module_mappings :: "'m \<Rightarrow> CK_ULONG list \<Rightarrow> nat \<Rightarrow> 'm Mapping list" where
  "module_mappings m slots k =
     map (\<lambda>(i, slot). \<lparr>wrap_slot = of_nat ((k + i + unat PLEX_MAPPING_OFFSET) mod 2 ^ 32), real_slot = slot, funcs = m\<rparr>)
       (enumerate 0 slots)"

text \<open>
  The body of the loop for one module: the result, the mappings to add, the value of the variable \<^verbatim>\<open>count\<close> and the world.
  \<open>count\<close> is uninitialised at the first call of \<^verbatim>\<open>C_GetSlotList\<close>.
\<close>

definition initialize_module ::
    "'s wrap_module \<Rightarrow> nat \<Rightarrow> CK_ULONG \<Rightarrow> 's \<Rightarrow> (CK_RV \<times> 's wrap_module Mapping list \<times> CK_ULONG \<times> 's) option" where
  "initialize_module m k count s = (case m_Initialize m s of (rv, s1) \<Rightarrow>
     let rv = (if rv = CKR_CRYPTOKI_ALREADY_INITIALIZED then CKR_OK else rv) in
     if rv \<noteq> CKR_OK then Some (rv, [], count, s1)
     else do {
       get_slots \<leftarrow> C_GetSlotList (m_list m);
       (case get_slots 0 None count s1 of (rv1, (_, count1), s2) \<Rightarrow>
          if rv1 \<noteq> CKR_OK \<or> count1 = 0 then Some (rv1, [], count1, s2)
          else (case get_slots 0 (Some (replicate (unat count1) 0)) count1 s2 of (rv2, (slots, count2), s3) \<Rightarrow>
            if rv2 \<noteq> CKR_OK then Some (rv2, [], count2, s3)
            else do {
              list \<leftarrow> slots;
              if unat count2 \<le> length list
              then Some (CKR_OK, module_mappings m (take (unat count2) list) k, count2, s3) else None
            }))
     })"

text \<open>The loop over the modules; \<open>passed\<close> are the modules before the current one, the last one first.\<close>

fun initialize_modules ::
    "'s wrap_module list \<Rightarrow> 's wrap_module list \<Rightarrow> 's wrap_module Mapping list \<Rightarrow> CK_ULONG \<Rightarrow> 's
     \<Rightarrow> (CK_RV \<times> 's wrap_module list \<times> 's wrap_module Mapping list \<times> 's) option" where
  "initialize_modules passed [] maps count s = Some (CKR_OK, passed, maps, s)"
| "initialize_modules passed (m # ms) maps count s = do {
     (rv, more, count1, s1) \<leftarrow> initialize_module m (length maps) count s;
     if rv \<noteq> CKR_OK then Some (rv, passed, maps, s1)
     else initialize_modules (m # passed) ms (maps @ more) count1 s1
   }"

definition finalize_modules :: "'s wrap_module list \<Rightarrow> 's \<Rightarrow> 's" where
  "finalize_modules ms s = fold m_Finalize ms s"

text \<open>An array to which nothing was appended has no memory: \<^verbatim>\<open>g_array_free\<close> gives \<^verbatim>\<open>NULL\<close>.\<close>

definition wrap_C_Initialize :: "CK_ULONG \<Rightarrow> (unit, 's) wrap_call" where
  "wrap_C_Initialize junk = (\<lambda>(st, s).
     if wrap_mappings st \<noteq> None then Some (CKR_CRYPTOKI_ALREADY_INITIALIZED, (), st, s)
     else do {
       (rv, passed, maps, s1) \<leftarrow> initialize_modules [] (wrap_modules st) [] junk s;
       if rv \<noteq> CKR_OK then Some (rv, (), st, finalize_modules passed s1)
       else Some (CKR_OK, (), st\<lparr>n_wrap_mappings := length maps, wrap_mappings := (if maps = [] then None else Some maps),
                                wrap_sessions := Some []\<rparr>, s1)
     })"

definition wrap_C_Finalize :: "(unit, 's) wrap_call" where
  "wrap_C_Finalize = (\<lambda>(st, s).
     Some (CKR_OK, (), st\<lparr>wrap_mappings := None, wrap_sessions := None\<rparr>, finalize_modules (wrap_modules st) s))"

definition gkm_wrap_layer_reset_modules :: "'m Wrap \<Rightarrow> 'm Wrap option" where
  "gkm_wrap_layer_reset_modules st =
     (if wrap_mappings st = None \<and> wrap_sessions st = None then Some (st\<lparr>wrap_modules := []\<rparr>) else None)"

definition gkm_wrap_layer_add_module :: "'m \<Rightarrow> 'm Wrap \<Rightarrow> 'm Wrap option" where
  "gkm_wrap_layer_add_module m st =
     (if wrap_mappings st = None \<and> wrap_sessions st = None then Some (st\<lparr>wrap_modules := wrap_modules st @ [m]\<rparr>) else None)"

subsection \<open>General calls\<close>

definition MANUFACTURER_ID :: bytes where
  "MANUFACTURER_ID = ascii ''MATE Keyring                   ''"

definition LIBRARY_DESCRIPTION :: bytes where
  "LIBRARY_DESCRIPTION = ascii ''MATE Keyring Daemon Core       ''"

text \<open>\<^verbatim>\<open>strncpy\<close> to an array of 32 bytes: short strings are filled up with zeros.\<close>

definition strncpy32 :: "bytes \<Rightarrow> bytes" where
  "strncpy32 s = take 32 (s @ replicate 32 0)"

definition wrap_C_GetInfo :: "CK_INFO option \<Rightarrow> (CK_INFO option, 's) wrap_call" where
  "wrap_C_GetInfo info = (\<lambda>w. case info of
     None \<Rightarrow> Some (CKR_ARGUMENTS_BAD, None, w)
   | Some _ \<Rightarrow> Some (CKR_OK, Some \<lparr>info_cryptokiVersion = \<lparr>major = 2, minor = 20\<rparr>, info_manufacturerID = strncpy32 MANUFACTURER_ID,
         info_flags = 0, info_libraryDescription = strncpy32 LIBRARY_DESCRIPTION, info_libraryVersion = \<lparr>major = 1, minor = 1\<rparr>\<rparr>, w))"

text \<open>The loop of \<^verbatim>\<open>wrap_C_GetSlotList\<close> over the mappings from number \<open>i\<close> on: \<open>todo\<close> of them.\<close>

fun slot_list_loop ::
    "'s wrap_module Mapping list option \<Rightarrow> byte \<Rightarrow> CK_ULONG \<Rightarrow> nat \<Rightarrow> nat \<Rightarrow> CK_ULONG list option \<Rightarrow> nat \<Rightarrow> 's
     \<Rightarrow> (CK_RV \<times> CK_ULONG list option \<times> nat \<times> 's) option" where
  "slot_list_loop maps present count i 0 slots index s = Some (CKR_OK, slots, index, s)"
| "slot_list_loop maps present count i (Suc todo) slots index s = do {
     ms \<leftarrow> maps;
     m \<leftarrow> (if i < length ms then Some (ms ! i) else None);
     (rv, skip, s1) \<leftarrow> (if present \<noteq> 0 then do {
          get \<leftarrow> C_GetSlotInfo (m_list (funcs m));
          (case get (real_slot m) s of (rv, info, s1) \<Rightarrow> Some (rv, slot_flags info AND CKF_TOKEN_PRESENT = 0, s1))
        } else Some (CKR_OK, False, s));
     if rv \<noteq> CKR_OK then Some (rv, slots, index, s1)
     else if skip then slot_list_loop maps present count (Suc i) todo slots index s1
     else do {
       slots1 \<leftarrow> (case slots of
                    Some l \<Rightarrow> if index < unat count then if index < length l then Some (Some (l[index := wrap_slot m])) else None
                              else Some slots
                  | None \<Rightarrow> Some None);
       slot_list_loop maps present count (Suc i) todo slots1 (Suc index) s1
     }
   }"

definition wrap_C_GetSlotList ::
    "byte \<Rightarrow> CK_ULONG list option \<Rightarrow> CK_ULONG option \<Rightarrow> (CK_ULONG list option \<times> CK_ULONG option, 's) wrap_call" where
  "wrap_C_GetSlotList present slots count = (\<lambda>(st, s). case count of
     None \<Rightarrow> Some (CKR_ARGUMENTS_BAD, (slots, None), st, s)
   | Some n \<Rightarrow> do {
       (rv, slots1, index, s1) \<leftarrow> slot_list_loop (wrap_mappings st) present n 0 (n_wrap_mappings st) slots 0 s;
       Some (if slots \<noteq> None \<and> unat n < index then CKR_BUFFER_TOO_SMALL else rv, (slots1, Some (of_nat index)), st, s1)
     })"

definition wrap_C_WaitForSlotEvent :: "CK_ULONG \<Rightarrow> CK_ULONG \<Rightarrow> (CK_ULONG, 's) wrap_call" where
  "wrap_C_WaitForSlotEvent flg slot = (\<lambda>w. Some (CKR_NO_EVENT, slot, w))"

subsection \<open>Calls on a slot\<close>

definition forward_slot ::
    "CK_ULONG \<Rightarrow> 'o \<Rightarrow> ('s CK_FUNCTION_LIST \<Rightarrow> (CK_ULONG \<Rightarrow> 's \<Rightarrow> CK_RV \<times> 'o \<times> 's) option) \<Rightarrow> ('o, 's) wrap_call" where
  "forward_slot slot before call = (\<lambda>(st, s). do {
     (rv, r) \<leftarrow> map_slot_to_real slot st;
     case r of
       None \<Rightarrow> Some (rv, before, st, s)
     | Some (real, m) \<Rightarrow> do {
         f \<leftarrow> call (m_list (funcs m));
         (case f real s of (rv1, out, s1) \<Rightarrow> Some (rv1, out, st, s1))
       }
   })"

definition wrap_C_GetSlotInfo :: "CK_ULONG \<Rightarrow> CK_SLOT_INFO \<Rightarrow> (CK_SLOT_INFO, 's) wrap_call" where
  "wrap_C_GetSlotInfo slot info = forward_slot slot info C_GetSlotInfo"

definition wrap_C_GetTokenInfo :: "CK_ULONG \<Rightarrow> CK_TOKEN_INFO \<Rightarrow> (CK_TOKEN_INFO, 's) wrap_call" where
  "wrap_C_GetTokenInfo slot info = forward_slot slot info C_GetTokenInfo"

definition auth_C_GetTokenInfo :: "CK_ULONG \<Rightarrow> CK_TOKEN_INFO \<Rightarrow> (CK_TOKEN_INFO, 's) wrap_call" where
  "auth_C_GetTokenInfo slot info = (\<lambda>w. do {
     (rv, info1, w1) \<leftarrow> wrap_C_GetTokenInfo slot info w;
     Some (rv, if rv = CKR_OK then info1\<lparr>token_flags := token_flags info1 OR CKF_PROTECTED_AUTHENTICATION_PATH\<rparr> else info1, w1)
   })"

definition wrap_C_GetMechanismList ::
    "CK_ULONG \<Rightarrow> CK_ULONG list option \<Rightarrow> CK_ULONG \<Rightarrow> (CK_ULONG list option \<times> CK_ULONG, 's) wrap_call" where
  "wrap_C_GetMechanismList slot mechanism_list count = forward_slot slot (mechanism_list, count)
     (\<lambda>l. do { f \<leftarrow> C_GetMechanismList l; Some (\<lambda>real. f real mechanism_list count) })"

definition wrap_C_GetMechanismInfo :: "CK_ULONG \<Rightarrow> CK_ULONG \<Rightarrow> CK_MECHANISM_INFO \<Rightarrow> (CK_MECHANISM_INFO, 's) wrap_call" where
  "wrap_C_GetMechanismInfo slot typ info = forward_slot slot info
     (\<lambda>l. do { f \<leftarrow> C_GetMechanismInfo l; Some (\<lambda>real. f real typ) })"

definition wrap_C_InitToken :: "CK_ULONG \<Rightarrow> bytes option \<Rightarrow> CK_ULONG \<Rightarrow> bytes option \<Rightarrow> (unit, 's) wrap_call" where
  "wrap_C_InitToken slot pin pin_len lab = forward_slot slot ()
     (\<lambda>l. do { f \<leftarrow> C_InitToken l; Some (\<lambda>real. f real pin pin_len lab) })"

subsection \<open>Opening and closing sessions\<close>

text \<open>
  \<open>user_data\<close> is the application id that \<^verbatim>\<open>user_data\<close> points to, looked at only with the flag for it. \<open>junk\<close> is what the
  new session's memory holds; \<^verbatim>\<open>last_handle\<close> wraps around.
\<close>

definition wrap_C_OpenSession ::
    "Session \<Rightarrow> CK_ULONG \<Rightarrow> CK_ULONG \<Rightarrow> CK_ULONG \<Rightarrow> CK_ULONG option \<Rightarrow> (CK_ULONG \<times> CK_ULONG option, 's) wrap_call" where
  "wrap_C_OpenSession junk slot flg user_data handle = (\<lambda>(st, s). case handle of
     None \<Rightarrow> Some (CKR_ARGUMENTS_BAD, (user_data, None), st, s)
   | Some h0 \<Rightarrow> do {
       (rv, r) \<leftarrow> map_slot_to_real slot st;
       case r of
         None \<Rightarrow> Some (rv, (user_data, Some h0), st, s)
       | Some (real, m) \<Rightarrow> do {
           open_session \<leftarrow> C_OpenSession (m_list (funcs m));
           (case open_session real flg user_data s of (rv1, (user_data1, h1), s1) \<Rightarrow>
              if rv1 \<noteq> CKR_OK then Some (rv1, (user_data1, Some h1), st, s1)
              else do {
                tab \<leftarrow> wrap_sessions st;
                let key = last_handle st + 1;
                let sess = \<lparr>wrap_session = key, real_session = h1,
                    app_id = (if flg AND CKF_G_APPLICATION_SESSION \<noteq> 0 then user_data1 else app_id junk),
                    sess_wrap_slot = wrap_slot m, specific = specific junk\<rparr>;
                Some (CKR_OK, (user_data1, Some (scast key)),
                      st\<lparr>last_handle := key, wrap_sessions := Some (AList.update key sess tab)\<rparr>, s1)
              })
         }
     })"

text \<open>A call on a session.\<close>

definition forward_session ::
    "CK_ULONG \<Rightarrow> 'o \<Rightarrow> ('s CK_FUNCTION_LIST \<Rightarrow> (CK_ULONG \<Rightarrow> 's \<Rightarrow> CK_RV \<times> 'o \<times> 's) option) \<Rightarrow> ('o, 's) wrap_call" where
  "forward_session handle before call = (\<lambda>(st, s). do {
     (rv, r) \<leftarrow> map_session_to_real handle st;
     case r of
       None \<Rightarrow> Some (rv, before, st, s)
     | Some (real, m) \<Rightarrow> do {
         f \<leftarrow> call (m_list (funcs m));
         (case f real s of (rv1, out, s1) \<Rightarrow> Some (rv1, out, st, s1))
       }
   })"

definition wrap_C_CloseSession :: "CK_ULONG \<Rightarrow> (unit, 's) wrap_call" where
  "wrap_C_CloseSession handle = (\<lambda>w. do {
     (rv, _, (st, s)) \<leftarrow> forward_session handle () C_CloseSession w;
     if rv \<noteq> CKR_OK then Some (rv, (), st, s)
     else do {
       tab \<leftarrow> wrap_sessions st;
       Some (rv, (), st\<lparr>wrap_sessions := Some (AList.delete (ucast handle) tab)\<rparr>, s)
     }
   })"

fun close_sessions :: "CK_ULONG list \<Rightarrow> 's wrap_state \<Rightarrow> 's wrap_state option" where
  "close_sessions [] w = Some w"
| "close_sessions (h # hs) w = do {
     (_, _, w1) \<leftarrow> wrap_C_CloseSession h w;
     close_sessions hs w1
   }"

definition wrap_C_CloseAllSessions ::
    "((32 word \<times> Session) list \<Rightarrow> (32 word \<times> Session) list) \<Rightarrow> CK_ULONG \<Rightarrow> (unit, 's) wrap_call" where
  "wrap_C_CloseAllSessions visit slot = (\<lambda>(st, s). do {
     tab \<leftarrow> wrap_sessions st;
     let to_close = map (\<lambda>(_, sess). scast (wrap_session sess)) (filter (\<lambda>(_, sess). app_id sess OR sess_wrap_slot sess = slot) (visit tab));
     w1 \<leftarrow> close_sessions to_close (st, s);
     Some (CKR_OK, (), w1)
   })"

definition wrap_C_GetSessionInfo :: "CK_ULONG \<Rightarrow> CK_SESSION_INFO option \<Rightarrow> (CK_SESSION_INFO option, 's) wrap_call" where
  "wrap_C_GetSessionInfo handle info = (\<lambda>(st, s). case info of
     None \<Rightarrow> Some (CKR_ARGUMENTS_BAD, None, st, s)
   | Some _ \<Rightarrow> do {
       (rv, r) \<leftarrow> map_session_to_real handle st;
       case r of
         None \<Rightarrow> Some (rv, info, st, s)
       | Some (real, m) \<Rightarrow> do {
           f \<leftarrow> C_GetSessionInfo (m_list (funcs m));
           (case f real s of (rv1, out, s1) \<Rightarrow>
              Some (rv1, Some (if rv1 = CKR_OK then out\<lparr>sess_slotID := wrap_slot m\<rparr> else out), st, s1))
         }
     })"

subsection \<open>Calls on a session\<close>

definition wrap_C_GetFunctionStatus :: "CK_ULONG \<Rightarrow> (unit, 's) wrap_call" where
  "wrap_C_GetFunctionStatus handle = forward_session handle ()
     (\<lambda>l. do { f \<leftarrow> C_GetFunctionStatus l; Some (\<lambda>real. f real) })"

definition wrap_C_CancelFunction :: "CK_ULONG \<Rightarrow> (unit, 's) wrap_call" where
  "wrap_C_CancelFunction handle = forward_session handle ()
     (\<lambda>l. do { f \<leftarrow> C_CancelFunction l; Some (\<lambda>real. f real) })"

definition wrap_C_InitPIN :: "CK_ULONG \<Rightarrow> bytes option \<Rightarrow> CK_ULONG \<Rightarrow> (unit, 's) wrap_call" where
  "wrap_C_InitPIN handle pin pin_len = forward_session handle ()
     (\<lambda>l. do { f \<leftarrow> C_InitPIN l; Some (\<lambda>real. f real pin pin_len) })"

definition wrap_C_SetPIN :: "CK_ULONG \<Rightarrow> bytes option \<Rightarrow> CK_ULONG \<Rightarrow> bytes option \<Rightarrow> CK_ULONG \<Rightarrow> (unit, 's) wrap_call" where
  "wrap_C_SetPIN handle old_pin old_pin_len new_pin new_pin_len = forward_session handle ()
     (\<lambda>l. do { f \<leftarrow> C_SetPIN l; Some (\<lambda>real. f real old_pin old_pin_len new_pin new_pin_len) })"

definition wrap_C_GetOperationState :: "CK_ULONG \<Rightarrow> bytes option \<Rightarrow> CK_ULONG \<Rightarrow> ((bytes option \<times> CK_ULONG), 's) wrap_call" where
  "wrap_C_GetOperationState handle operation_state operation_state_len = forward_session handle (operation_state, operation_state_len)
     (\<lambda>l. do { f \<leftarrow> C_GetOperationState l; Some (\<lambda>real. f real operation_state operation_state_len) })"

definition wrap_C_SetOperationState :: "CK_ULONG \<Rightarrow> bytes option \<Rightarrow> CK_ULONG \<Rightarrow> CK_ULONG \<Rightarrow> CK_ULONG \<Rightarrow> (unit, 's) wrap_call" where
  "wrap_C_SetOperationState handle operation_state operation_state_len encryption_key authentication_key = forward_session handle ()
     (\<lambda>l. do { f \<leftarrow> C_SetOperationState l; Some (\<lambda>real. f real operation_state operation_state_len encryption_key authentication_key) })"

definition wrap_C_Login :: "CK_ULONG \<Rightarrow> CK_ULONG \<Rightarrow> bytes option \<Rightarrow> CK_ULONG \<Rightarrow> (unit, 's) wrap_call" where
  "wrap_C_Login handle user_type pin pin_len = forward_session handle ()
     (\<lambda>l. do { f \<leftarrow> C_Login l; Some (\<lambda>real. f real user_type pin pin_len) })"

definition wrap_C_Logout :: "CK_ULONG \<Rightarrow> (unit, 's) wrap_call" where
  "wrap_C_Logout handle = forward_session handle ()
     (\<lambda>l. do { f \<leftarrow> C_Logout l; Some (\<lambda>real. f real) })"

definition wrap_C_CreateObject :: "CK_ULONG \<Rightarrow> CK_ATTRIBUTE list \<Rightarrow> CK_ULONG \<Rightarrow> CK_ULONG \<Rightarrow> (CK_ULONG, 's) wrap_call" where
  "wrap_C_CreateObject handle template count new_object = forward_session handle new_object
     (\<lambda>l. do { f \<leftarrow> C_CreateObject l; Some (\<lambda>real. f real template count) })"

definition wrap_C_CopyObject :: "CK_ULONG \<Rightarrow> CK_ULONG \<Rightarrow> CK_ATTRIBUTE list \<Rightarrow> CK_ULONG \<Rightarrow> CK_ULONG \<Rightarrow> (CK_ULONG, 's) wrap_call" where
  "wrap_C_CopyObject handle obj template count new_object = forward_session handle new_object
     (\<lambda>l. do { f \<leftarrow> C_CopyObject l; Some (\<lambda>real. f real obj template count) })"

definition wrap_C_DestroyObject :: "CK_ULONG \<Rightarrow> CK_ULONG \<Rightarrow> (unit, 's) wrap_call" where
  "wrap_C_DestroyObject handle obj = forward_session handle ()
     (\<lambda>l. do { f \<leftarrow> C_DestroyObject l; Some (\<lambda>real. f real obj) })"

definition wrap_C_GetObjectSize :: "CK_ULONG \<Rightarrow> CK_ULONG \<Rightarrow> CK_ULONG \<Rightarrow> (CK_ULONG, 's) wrap_call" where
  "wrap_C_GetObjectSize handle obj siz = forward_session handle siz
     (\<lambda>l. do { f \<leftarrow> C_GetObjectSize l; Some (\<lambda>real. f real obj) })"

definition wrap_C_GetAttributeValue :: "CK_ULONG \<Rightarrow> CK_ULONG \<Rightarrow> CK_ATTRIBUTE list \<Rightarrow> CK_ULONG \<Rightarrow> (CK_ATTRIBUTE list, 's) wrap_call" where
  "wrap_C_GetAttributeValue handle obj template count = forward_session handle template
     (\<lambda>l. do { f \<leftarrow> C_GetAttributeValue l; Some (\<lambda>real. f real obj template count) })"

definition wrap_C_SetAttributeValue :: "CK_ULONG \<Rightarrow> CK_ULONG \<Rightarrow> CK_ATTRIBUTE list \<Rightarrow> CK_ULONG \<Rightarrow> (unit, 's) wrap_call" where
  "wrap_C_SetAttributeValue handle obj template count = forward_session handle ()
     (\<lambda>l. do { f \<leftarrow> C_SetAttributeValue l; Some (\<lambda>real. f real obj template count) })"

definition wrap_C_FindObjectsInit :: "CK_ULONG \<Rightarrow> CK_ATTRIBUTE list \<Rightarrow> CK_ULONG \<Rightarrow> (unit, 's) wrap_call" where
  "wrap_C_FindObjectsInit handle template count = forward_session handle ()
     (\<lambda>l. do { f \<leftarrow> C_FindObjectsInit l; Some (\<lambda>real. f real template count) })"

definition wrap_C_FindObjects :: "CK_ULONG \<Rightarrow> CK_ULONG list option \<Rightarrow> CK_ULONG \<Rightarrow> CK_ULONG \<Rightarrow> ((CK_ULONG list option \<times> CK_ULONG), 's) wrap_call" where
  "wrap_C_FindObjects handle objects max_count count = forward_session handle (objects, count)
     (\<lambda>l. do { f \<leftarrow> C_FindObjects l; Some (\<lambda>real. f real objects max_count) })"

definition wrap_C_FindObjectsFinal :: "CK_ULONG \<Rightarrow> (unit, 's) wrap_call" where
  "wrap_C_FindObjectsFinal handle = forward_session handle ()
     (\<lambda>l. do { f \<leftarrow> C_FindObjectsFinal l; Some (\<lambda>real. f real) })"

definition wrap_C_EncryptInit :: "CK_ULONG \<Rightarrow> CK_MECHANISM \<Rightarrow> CK_ULONG \<Rightarrow> (unit, 's) wrap_call" where
  "wrap_C_EncryptInit handle mech key = forward_session handle ()
     (\<lambda>l. do { f \<leftarrow> C_EncryptInit l; Some (\<lambda>real. f real mech key) })"

definition wrap_C_Encrypt :: "CK_ULONG \<Rightarrow> bytes option \<Rightarrow> CK_ULONG \<Rightarrow> bytes option \<Rightarrow> CK_ULONG \<Rightarrow> ((bytes option \<times> CK_ULONG), 's) wrap_call" where
  "wrap_C_Encrypt handle data data_len encrypted_data encrypted_data_len = forward_session handle (encrypted_data, encrypted_data_len)
     (\<lambda>l. do { f \<leftarrow> C_Encrypt l; Some (\<lambda>real. f real data data_len encrypted_data encrypted_data_len) })"

definition wrap_C_EncryptUpdate :: "CK_ULONG \<Rightarrow> bytes option \<Rightarrow> CK_ULONG \<Rightarrow> bytes option \<Rightarrow> CK_ULONG \<Rightarrow> ((bytes option \<times> CK_ULONG), 's) wrap_call" where
  "wrap_C_EncryptUpdate handle part part_len encrypted_part encrypted_part_len = forward_session handle (encrypted_part, encrypted_part_len)
     (\<lambda>l. do { f \<leftarrow> C_EncryptUpdate l; Some (\<lambda>real. f real part part_len encrypted_part encrypted_part_len) })"

definition wrap_C_EncryptFinal :: "CK_ULONG \<Rightarrow> bytes option \<Rightarrow> CK_ULONG \<Rightarrow> ((bytes option \<times> CK_ULONG), 's) wrap_call" where
  "wrap_C_EncryptFinal handle last_part last_part_len = forward_session handle (last_part, last_part_len)
     (\<lambda>l. do { f \<leftarrow> C_EncryptFinal l; Some (\<lambda>real. f real last_part last_part_len) })"

definition wrap_C_DecryptInit :: "CK_ULONG \<Rightarrow> CK_MECHANISM \<Rightarrow> CK_ULONG \<Rightarrow> (unit, 's) wrap_call" where
  "wrap_C_DecryptInit handle mech key = forward_session handle ()
     (\<lambda>l. do { f \<leftarrow> C_DecryptInit l; Some (\<lambda>real. f real mech key) })"

definition wrap_C_Decrypt :: "CK_ULONG \<Rightarrow> bytes option \<Rightarrow> CK_ULONG \<Rightarrow> bytes option \<Rightarrow> CK_ULONG \<Rightarrow> ((bytes option \<times> CK_ULONG), 's) wrap_call" where
  "wrap_C_Decrypt handle enc_data enc_data_len data data_len = forward_session handle (data, data_len)
     (\<lambda>l. do { f \<leftarrow> C_Decrypt l; Some (\<lambda>real. f real enc_data enc_data_len data data_len) })"

definition wrap_C_DecryptUpdate :: "CK_ULONG \<Rightarrow> bytes option \<Rightarrow> CK_ULONG \<Rightarrow> bytes option \<Rightarrow> CK_ULONG \<Rightarrow> ((bytes option \<times> CK_ULONG), 's) wrap_call" where
  "wrap_C_DecryptUpdate handle enc_part enc_part_len part part_len = forward_session handle (part, part_len)
     (\<lambda>l. do { f \<leftarrow> C_DecryptUpdate l; Some (\<lambda>real. f real enc_part enc_part_len part part_len) })"

definition wrap_C_DecryptFinal :: "CK_ULONG \<Rightarrow> bytes option \<Rightarrow> CK_ULONG \<Rightarrow> ((bytes option \<times> CK_ULONG), 's) wrap_call" where
  "wrap_C_DecryptFinal handle last_part last_part_len = forward_session handle (last_part, last_part_len)
     (\<lambda>l. do { f \<leftarrow> C_DecryptFinal l; Some (\<lambda>real. f real last_part last_part_len) })"

definition wrap_C_DigestInit :: "CK_ULONG \<Rightarrow> CK_MECHANISM \<Rightarrow> (unit, 's) wrap_call" where
  "wrap_C_DigestInit handle mech = forward_session handle ()
     (\<lambda>l. do { f \<leftarrow> C_DigestInit l; Some (\<lambda>real. f real mech) })"

definition wrap_C_Digest :: "CK_ULONG \<Rightarrow> bytes option \<Rightarrow> CK_ULONG \<Rightarrow> bytes option \<Rightarrow> CK_ULONG \<Rightarrow> ((bytes option \<times> CK_ULONG), 's) wrap_call" where
  "wrap_C_Digest handle data data_len digest digest_len = forward_session handle (digest, digest_len)
     (\<lambda>l. do { f \<leftarrow> C_Digest l; Some (\<lambda>real. f real data data_len digest digest_len) })"

definition wrap_C_DigestUpdate :: "CK_ULONG \<Rightarrow> bytes option \<Rightarrow> CK_ULONG \<Rightarrow> (unit, 's) wrap_call" where
  "wrap_C_DigestUpdate handle part part_len = forward_session handle ()
     (\<lambda>l. do { f \<leftarrow> C_DigestUpdate l; Some (\<lambda>real. f real part part_len) })"

definition wrap_C_DigestKey :: "CK_ULONG \<Rightarrow> CK_ULONG \<Rightarrow> (unit, 's) wrap_call" where
  "wrap_C_DigestKey handle key = forward_session handle ()
     (\<lambda>l. do { f \<leftarrow> C_DigestKey l; Some (\<lambda>real. f real key) })"

definition wrap_C_DigestFinal :: "CK_ULONG \<Rightarrow> bytes option \<Rightarrow> CK_ULONG \<Rightarrow> ((bytes option \<times> CK_ULONG), 's) wrap_call" where
  "wrap_C_DigestFinal handle digest digest_len = forward_session handle (digest, digest_len)
     (\<lambda>l. do { f \<leftarrow> C_DigestFinal l; Some (\<lambda>real. f real digest digest_len) })"

definition wrap_C_SignInit :: "CK_ULONG \<Rightarrow> CK_MECHANISM \<Rightarrow> CK_ULONG \<Rightarrow> (unit, 's) wrap_call" where
  "wrap_C_SignInit handle mech key = forward_session handle ()
     (\<lambda>l. do { f \<leftarrow> C_SignInit l; Some (\<lambda>real. f real mech key) })"

definition wrap_C_Sign :: "CK_ULONG \<Rightarrow> bytes option \<Rightarrow> CK_ULONG \<Rightarrow> bytes option \<Rightarrow> CK_ULONG \<Rightarrow> ((bytes option \<times> CK_ULONG), 's) wrap_call" where
  "wrap_C_Sign handle data data_len sigbuf sig_len = forward_session handle (sigbuf, sig_len)
     (\<lambda>l. do { f \<leftarrow> C_Sign l; Some (\<lambda>real. f real data data_len sigbuf sig_len) })"

definition wrap_C_SignUpdate :: "CK_ULONG \<Rightarrow> bytes option \<Rightarrow> CK_ULONG \<Rightarrow> (unit, 's) wrap_call" where
  "wrap_C_SignUpdate handle part part_len = forward_session handle ()
     (\<lambda>l. do { f \<leftarrow> C_SignUpdate l; Some (\<lambda>real. f real part part_len) })"

definition wrap_C_SignFinal :: "CK_ULONG \<Rightarrow> bytes option \<Rightarrow> CK_ULONG \<Rightarrow> ((bytes option \<times> CK_ULONG), 's) wrap_call" where
  "wrap_C_SignFinal handle sigbuf sig_len = forward_session handle (sigbuf, sig_len)
     (\<lambda>l. do { f \<leftarrow> C_SignFinal l; Some (\<lambda>real. f real sigbuf sig_len) })"

definition wrap_C_SignRecoverInit :: "CK_ULONG \<Rightarrow> CK_MECHANISM \<Rightarrow> CK_ULONG \<Rightarrow> (unit, 's) wrap_call" where
  "wrap_C_SignRecoverInit handle mech key = forward_session handle ()
     (\<lambda>l. do { f \<leftarrow> C_SignRecoverInit l; Some (\<lambda>real. f real mech key) })"

definition wrap_C_SignRecover :: "CK_ULONG \<Rightarrow> bytes option \<Rightarrow> CK_ULONG \<Rightarrow> bytes option \<Rightarrow> CK_ULONG \<Rightarrow> ((bytes option \<times> CK_ULONG), 's) wrap_call" where
  "wrap_C_SignRecover handle data data_len sigbuf sig_len = forward_session handle (sigbuf, sig_len)
     (\<lambda>l. do { f \<leftarrow> C_SignRecover l; Some (\<lambda>real. f real data data_len sigbuf sig_len) })"

definition wrap_C_VerifyInit :: "CK_ULONG \<Rightarrow> CK_MECHANISM \<Rightarrow> CK_ULONG \<Rightarrow> (unit, 's) wrap_call" where
  "wrap_C_VerifyInit handle mech key = forward_session handle ()
     (\<lambda>l. do { f \<leftarrow> C_VerifyInit l; Some (\<lambda>real. f real mech key) })"

definition wrap_C_Verify :: "CK_ULONG \<Rightarrow> bytes option \<Rightarrow> CK_ULONG \<Rightarrow> bytes option \<Rightarrow> CK_ULONG \<Rightarrow> (unit, 's) wrap_call" where
  "wrap_C_Verify handle data data_len sigbuf sig_len = forward_session handle ()
     (\<lambda>l. do { f \<leftarrow> C_Verify l; Some (\<lambda>real. f real data data_len sigbuf sig_len) })"

definition wrap_C_VerifyUpdate :: "CK_ULONG \<Rightarrow> bytes option \<Rightarrow> CK_ULONG \<Rightarrow> (unit, 's) wrap_call" where
  "wrap_C_VerifyUpdate handle part part_len = forward_session handle ()
     (\<lambda>l. do { f \<leftarrow> C_VerifyUpdate l; Some (\<lambda>real. f real part part_len) })"

definition wrap_C_VerifyFinal :: "CK_ULONG \<Rightarrow> bytes option \<Rightarrow> CK_ULONG \<Rightarrow> (unit, 's) wrap_call" where
  "wrap_C_VerifyFinal handle sigbuf sig_len = forward_session handle ()
     (\<lambda>l. do { f \<leftarrow> C_VerifyFinal l; Some (\<lambda>real. f real sigbuf sig_len) })"

definition wrap_C_VerifyRecoverInit :: "CK_ULONG \<Rightarrow> CK_MECHANISM \<Rightarrow> CK_ULONG \<Rightarrow> (unit, 's) wrap_call" where
  "wrap_C_VerifyRecoverInit handle mech key = forward_session handle ()
     (\<lambda>l. do { f \<leftarrow> C_VerifyRecoverInit l; Some (\<lambda>real. f real mech key) })"

definition wrap_C_VerifyRecover :: "CK_ULONG \<Rightarrow> bytes option \<Rightarrow> CK_ULONG \<Rightarrow> bytes option \<Rightarrow> CK_ULONG \<Rightarrow> ((bytes option \<times> CK_ULONG), 's) wrap_call" where
  "wrap_C_VerifyRecover handle sigbuf sig_len data data_len = forward_session handle (data, data_len)
     (\<lambda>l. do { f \<leftarrow> C_VerifyRecover l; Some (\<lambda>real. f real sigbuf sig_len data data_len) })"

definition wrap_C_DigestEncryptUpdate :: "CK_ULONG \<Rightarrow> bytes option \<Rightarrow> CK_ULONG \<Rightarrow> bytes option \<Rightarrow> CK_ULONG \<Rightarrow> ((bytes option \<times> CK_ULONG), 's) wrap_call" where
  "wrap_C_DigestEncryptUpdate handle part part_len enc_part enc_part_len = forward_session handle (enc_part, enc_part_len)
     (\<lambda>l. do { f \<leftarrow> C_DigestEncryptUpdate l; Some (\<lambda>real. f real part part_len enc_part enc_part_len) })"

definition wrap_C_DecryptDigestUpdate :: "CK_ULONG \<Rightarrow> bytes option \<Rightarrow> CK_ULONG \<Rightarrow> bytes option \<Rightarrow> CK_ULONG \<Rightarrow> ((bytes option \<times> CK_ULONG), 's) wrap_call" where
  "wrap_C_DecryptDigestUpdate handle enc_part enc_part_len part part_len = forward_session handle (part, part_len)
     (\<lambda>l. do { f \<leftarrow> C_DecryptDigestUpdate l; Some (\<lambda>real. f real enc_part enc_part_len part part_len) })"

definition wrap_C_SignEncryptUpdate :: "CK_ULONG \<Rightarrow> bytes option \<Rightarrow> CK_ULONG \<Rightarrow> bytes option \<Rightarrow> CK_ULONG \<Rightarrow> ((bytes option \<times> CK_ULONG), 's) wrap_call" where
  "wrap_C_SignEncryptUpdate handle part part_len enc_part enc_part_len = forward_session handle (enc_part, enc_part_len)
     (\<lambda>l. do { f \<leftarrow> C_SignEncryptUpdate l; Some (\<lambda>real. f real part part_len enc_part enc_part_len) })"

definition wrap_C_DecryptVerifyUpdate :: "CK_ULONG \<Rightarrow> bytes option \<Rightarrow> CK_ULONG \<Rightarrow> bytes option \<Rightarrow> CK_ULONG \<Rightarrow> ((bytes option \<times> CK_ULONG), 's) wrap_call" where
  "wrap_C_DecryptVerifyUpdate handle enc_part enc_part_len part part_len = forward_session handle (part, part_len)
     (\<lambda>l. do { f \<leftarrow> C_DecryptVerifyUpdate l; Some (\<lambda>real. f real enc_part enc_part_len part part_len) })"

definition wrap_C_GenerateKey :: "CK_ULONG \<Rightarrow> CK_MECHANISM \<Rightarrow> CK_ATTRIBUTE list \<Rightarrow> CK_ULONG \<Rightarrow> CK_ULONG \<Rightarrow> (CK_ULONG, 's) wrap_call" where
  "wrap_C_GenerateKey handle mech template count key = forward_session handle key
     (\<lambda>l. do { f \<leftarrow> C_GenerateKey l; Some (\<lambda>real. f real mech template count) })"

definition wrap_C_GenerateKeyPair :: "CK_ULONG \<Rightarrow> CK_MECHANISM \<Rightarrow> CK_ATTRIBUTE list \<Rightarrow> CK_ULONG \<Rightarrow> CK_ATTRIBUTE list \<Rightarrow> CK_ULONG \<Rightarrow> CK_ULONG \<Rightarrow> CK_ULONG \<Rightarrow> ((CK_ULONG \<times> CK_ULONG), 's) wrap_call" where
  "wrap_C_GenerateKeyPair handle mech pub_template pub_count priv_template priv_count pub_key priv_key = forward_session handle (pub_key, priv_key)
     (\<lambda>l. do { f \<leftarrow> C_GenerateKeyPair l; Some (\<lambda>real. f real mech pub_template pub_count priv_template priv_count) })"

definition wrap_C_WrapKey :: "CK_ULONG \<Rightarrow> CK_MECHANISM \<Rightarrow> CK_ULONG \<Rightarrow> CK_ULONG \<Rightarrow> bytes option \<Rightarrow> CK_ULONG \<Rightarrow> ((bytes option \<times> CK_ULONG), 's) wrap_call" where
  "wrap_C_WrapKey handle mech wrapping_key key wrapped_key wrapped_key_len = forward_session handle (wrapped_key, wrapped_key_len)
     (\<lambda>l. do { f \<leftarrow> C_WrapKey l; Some (\<lambda>real. f real mech wrapping_key key wrapped_key wrapped_key_len) })"

definition wrap_C_UnwrapKey :: "CK_ULONG \<Rightarrow> CK_MECHANISM \<Rightarrow> CK_ULONG \<Rightarrow> bytes option \<Rightarrow> CK_ULONG \<Rightarrow> CK_ATTRIBUTE list \<Rightarrow> CK_ULONG \<Rightarrow> CK_ULONG \<Rightarrow> (CK_ULONG, 's) wrap_call" where
  "wrap_C_UnwrapKey handle mech unwrapping_key wrapped_key wrapped_key_len template count key = forward_session handle key
     (\<lambda>l. do { f \<leftarrow> C_UnwrapKey l; Some (\<lambda>real. f real mech unwrapping_key wrapped_key wrapped_key_len template count) })"

definition wrap_C_DeriveKey :: "CK_ULONG \<Rightarrow> CK_MECHANISM \<Rightarrow> CK_ULONG \<Rightarrow> CK_ATTRIBUTE list \<Rightarrow> CK_ULONG \<Rightarrow> CK_ULONG \<Rightarrow> (CK_ULONG, 's) wrap_call" where
  "wrap_C_DeriveKey handle mech base_key template count key = forward_session handle key
     (\<lambda>l. do { f \<leftarrow> C_DeriveKey l; Some (\<lambda>real. f real mech base_key template count) })"

definition wrap_C_SeedRandom :: "CK_ULONG \<Rightarrow> bytes option \<Rightarrow> CK_ULONG \<Rightarrow> (unit, 's) wrap_call" where
  "wrap_C_SeedRandom handle seed seed_len = forward_session handle ()
     (\<lambda>l. do { f \<leftarrow> C_SeedRandom l; Some (\<lambda>real. f real seed seed_len) })"

definition wrap_C_GenerateRandom :: "CK_ULONG \<Rightarrow> bytes option \<Rightarrow> CK_ULONG \<Rightarrow> (bytes option, 's) wrap_call" where
  "wrap_C_GenerateRandom handle random_data random_len = forward_session handle random_data
     (\<lambda>l. do { f \<leftarrow> C_GenerateRandom l; Some (\<lambda>real. f real random_data random_len) })"

subsection \<open>Calls with prompts\<close>

text \<open>
  The dialogues of \<^verbatim>\<open>gkm-wrap-prompt.c\<close> are a parameter: they show a prompt, whose state is \<open>'p\<close>, and act on the wrap layer. The
  functions named \<open>for\<close> give \<open>None\<close> when there is nothing to ask.
\<close>

record ('p, 'w) Prompts =
  for_init_pin :: "CK_ULONG \<Rightarrow> bytes option \<Rightarrow> CK_ULONG \<Rightarrow> 'w \<Rightarrow> 'p option \<times> 'w"
  do_init_pin :: "CK_RV \<Rightarrow> bytes option \<times> CK_ULONG \<Rightarrow> 'p \<times> 'w \<Rightarrow> bool \<times> (bytes option \<times> CK_ULONG) \<times> 'p \<times> 'w"
  done_init_pin :: "CK_RV \<Rightarrow> 'p \<times> 'w \<Rightarrow> 'w"
  for_set_pin :: "CK_ULONG \<Rightarrow> bytes option \<Rightarrow> CK_ULONG \<Rightarrow> bytes option \<Rightarrow> CK_ULONG \<Rightarrow> 'w \<Rightarrow> 'p option \<times> 'w"
  do_set_pin :: "CK_RV \<Rightarrow> bytes option \<times> CK_ULONG \<times> bytes option \<times> CK_ULONG \<Rightarrow> 'p \<times> 'w
    \<Rightarrow> bool \<times> (bytes option \<times> CK_ULONG \<times> bytes option \<times> CK_ULONG) \<times> 'p \<times> 'w"
  done_set_pin :: "CK_RV \<Rightarrow> 'p \<times> 'w \<Rightarrow> 'w"
  for_login :: "CK_ULONG \<Rightarrow> CK_ULONG \<Rightarrow> CK_ULONG \<Rightarrow> bytes option \<Rightarrow> CK_ULONG \<Rightarrow> 'w \<Rightarrow> 'p option \<times> 'w"
  do_login :: "CK_ULONG \<Rightarrow> CK_RV \<Rightarrow> bytes option \<times> CK_ULONG \<Rightarrow> 'p \<times> 'w \<Rightarrow> bool \<times> (bytes option \<times> CK_ULONG) \<times> 'p \<times> 'w"
  done_login :: "CK_ULONG \<Rightarrow> CK_RV \<Rightarrow> 'p \<times> 'w \<Rightarrow> 'w"
  for_credential :: "CK_ULONG \<Rightarrow> CK_ATTRIBUTE list \<Rightarrow> CK_ULONG \<Rightarrow> 'w \<Rightarrow> 'p option \<times> 'w"
  do_credential :: "CK_ATTRIBUTE list \<times> CK_ULONG \<Rightarrow> 'p \<times> 'w \<Rightarrow> bool \<times> (CK_ATTRIBUTE list \<times> CK_ULONG) \<times> 'p \<times> 'w"
  done_credential :: "CK_RV \<Rightarrow> 'p \<times> 'w \<Rightarrow> 'w"

text \<open>
  The loops of \<^verbatim>\<open>auth_C_InitPIN\<close> and \<^verbatim>\<open>auth_C_SetPIN\<close>: \<open>ask\<close> is the prompt, \<open>call\<close> the call and \<open>stop\<close> the condition of the last
  \<^verbatim>\<open>if\<close> that leaves the loop.
\<close>

partial_function (option) pin_loop ::
    "(CK_RV \<Rightarrow> 'a \<Rightarrow> 'p \<times> 'w \<Rightarrow> bool \<times> 'a \<times> 'p \<times> 'w) \<Rightarrow> ('a \<Rightarrow> 'w \<Rightarrow> (CK_RV \<times> unit \<times> 'w) option) \<Rightarrow> (CK_RV \<Rightarrow> bool)
     \<Rightarrow> 'p option \<Rightarrow> CK_RV \<Rightarrow> 'a \<Rightarrow> 'w \<Rightarrow> (CK_RV \<times> 'p option \<times> 'w) option" where
  "pin_loop ask call stop prompt rv pin w =
     (case prompt of
        None \<Rightarrow> do {
          (rv1, _, w1) \<leftarrow> call pin w;
          Some (rv1, None, w1)
        }
      | Some p \<Rightarrow> (case ask rv pin (p, w) of (ok, pin1, p1, w1) \<Rightarrow>
          if \<not> ok then Some (rv, Some p1, w1)
          else do {
            (rv1, _, w2) \<leftarrow> call pin1 w1;
            if stop rv1 then Some (rv1, Some p1, w2)
            else pin_loop ask call stop (Some p1) rv1 pin1 w2
          }))"

definition auth_C_InitPIN :: "('p, 's wrap_state) Prompts \<Rightarrow> CK_ULONG \<Rightarrow> bytes option \<Rightarrow> CK_ULONG \<Rightarrow> (unit, 's) wrap_call" where
  "auth_C_InitPIN pr handle pin pin_len = (\<lambda>w. case for_init_pin pr handle pin pin_len w of (prompt, w0) \<Rightarrow> do {
     (rv, prompt1, w1) \<leftarrow> pin_loop (do_init_pin pr) (\<lambda>(pin, n). wrap_C_InitPIN handle pin n)
       (\<lambda>rv. rv \<noteq> CKR_PIN_INVALID \<or> rv \<noteq> CKR_PIN_LEN_RANGE) prompt CKR_OK (pin, pin_len) w0;
     Some (rv, (), case prompt1 of None \<Rightarrow> w1 | Some p \<Rightarrow> done_init_pin pr rv (p, w1))
   })"

definition auth_C_SetPIN ::
    "('p, 's wrap_state) Prompts \<Rightarrow> CK_ULONG \<Rightarrow> bytes option \<Rightarrow> CK_ULONG \<Rightarrow> bytes option \<Rightarrow> CK_ULONG \<Rightarrow> (unit, 's) wrap_call" where
  "auth_C_SetPIN pr handle old_pin old_pin_len new_pin new_pin_len = (\<lambda>w.
     case for_set_pin pr handle old_pin old_pin_len new_pin new_pin_len w of (prompt, w0) \<Rightarrow> do {
       (rv, prompt1, w1) \<leftarrow> pin_loop (do_set_pin pr) (\<lambda>(a, n, b, m). wrap_C_SetPIN handle a n b m)
         (\<lambda>rv. rv \<noteq> CKR_PIN_INCORRECT \<or> rv \<noteq> CKR_PIN_INVALID \<or> rv \<noteq> CKR_PIN_LEN_RANGE) prompt CKR_OK
         (old_pin, old_pin_len, new_pin, new_pin_len) w0;
       Some (rv, (), case prompt1 of None \<Rightarrow> w1 | Some p \<Rightarrow> done_set_pin pr rv (p, w1))
     })"

partial_function (option) login_loop ::
    "(CK_RV \<Rightarrow> 'a \<Rightarrow> 'p \<times> 'w \<Rightarrow> bool \<times> 'a \<times> 'p \<times> 'w) \<Rightarrow> ('a \<Rightarrow> 'w \<Rightarrow> (CK_RV \<times> unit \<times> 'w) option)
     \<Rightarrow> 'p option \<Rightarrow> 'a \<Rightarrow> 'w \<Rightarrow> (CK_RV \<times> 'p option \<times> 'w) option" where
  "login_loop ask call prompt pin w = do {
     (rv, _, w1) \<leftarrow> call pin w;
     case prompt of
       None \<Rightarrow> Some (rv, None, w1)
     | Some p \<Rightarrow>
         if rv \<noteq> CKR_PIN_INCORRECT then Some (rv, Some p, w1)
         else (case ask rv pin (p, w1) of (ok, pin1, p1, w2) \<Rightarrow>
           if \<not> ok then Some (rv, Some p1, w2) else login_loop ask call (Some p1) pin1 w2)
   }"

definition auth_C_Login ::
    "('p, 's wrap_state) Prompts \<Rightarrow> CK_ULONG \<Rightarrow> CK_ULONG \<Rightarrow> bytes option \<Rightarrow> CK_ULONG \<Rightarrow> (unit, 's) wrap_call" where
  "auth_C_Login pr handle user_type pin pin_len = (\<lambda>(st, s).
     case for_login pr user_type handle (lookup_session_specific handle st) pin pin_len (st, s) of (prompt, w0) \<Rightarrow> do {
       (rv, prompt1, w1) \<leftarrow> login_loop (do_login pr user_type) (\<lambda>(pin, n). wrap_C_Login handle user_type pin n) prompt (pin, pin_len) w0;
       Some (rv, (), case prompt1 of None \<Rightarrow> w1 | Some p \<Rightarrow> done_login pr user_type rv (p, w1))
     })"

partial_function (option) create_loop ::
    "('p, 's wrap_state) Prompts \<Rightarrow> CK_ULONG \<Rightarrow> 'p option \<Rightarrow> CK_ATTRIBUTE list \<times> CK_ULONG \<Rightarrow> CK_ULONG \<Rightarrow> 's wrap_state
     \<Rightarrow> (CK_RV \<times> CK_ULONG \<times> 'p option \<times> 's wrap_state) option" where
  "create_loop pr handle prompt tmpl new_object w = do {
     (rv, obj, w1) \<leftarrow> wrap_C_CreateObject handle (fst tmpl) (snd tmpl) new_object w;
     if rv \<noteq> CKR_PIN_INCORRECT then Some (rv, obj, prompt, w1)
     else (case (case prompt of None \<Rightarrow> for_credential pr handle (fst tmpl) (snd tmpl) w1 | Some p \<Rightarrow> (Some p, w1)) of
       (None, w2) \<Rightarrow> Some (rv, obj, None, w2)
     | (Some p, w2) \<Rightarrow> (case do_credential pr tmpl (p, w2) of (ok, tmpl1, p1, w3) \<Rightarrow>
         if \<not> ok then Some (rv, obj, Some p1, w3) else create_loop pr handle (Some p1) tmpl1 obj w3))
   }"

definition auth_C_CreateObject ::
    "('p, 's wrap_state) Prompts \<Rightarrow> CK_ULONG \<Rightarrow> CK_ATTRIBUTE list \<Rightarrow> CK_ULONG \<Rightarrow> CK_ULONG \<Rightarrow> (CK_ULONG, 's) wrap_call" where
  "auth_C_CreateObject pr handle template count new_object = (\<lambda>w. do {
     (rv, obj, prompt, w1) \<leftarrow> create_loop pr handle None (template, count) new_object w;
     Some (rv, obj, case prompt of None \<Rightarrow> w1 | Some p \<Rightarrow> done_credential pr rv (p, w1))
   })"

text \<open>The calls that remember the key in the session for a later login.\<close>

definition remember_key :: "CK_ULONG \<Rightarrow> CK_ULONG \<Rightarrow> (unit, 's) wrap_call \<Rightarrow> (unit, 's) wrap_call" where
  "remember_key handle key call = (\<lambda>w. do {
     (rv, _, (st, s)) \<leftarrow> call w;
     Some (rv, (), if rv = CKR_OK then store_session_specific handle key st else st, s)
   })"

definition auth_C_EncryptInit :: "CK_ULONG \<Rightarrow> CK_MECHANISM \<Rightarrow> CK_ULONG \<Rightarrow> (unit, 's) wrap_call" where
  "auth_C_EncryptInit handle mech key = remember_key handle key (wrap_C_EncryptInit handle mech key)"

definition auth_C_DecryptInit :: "CK_ULONG \<Rightarrow> CK_MECHANISM \<Rightarrow> CK_ULONG \<Rightarrow> (unit, 's) wrap_call" where
  "auth_C_DecryptInit handle mech key = remember_key handle key (wrap_C_DecryptInit handle mech key)"

definition auth_C_SignInit :: "CK_ULONG \<Rightarrow> CK_MECHANISM \<Rightarrow> CK_ULONG \<Rightarrow> (unit, 's) wrap_call" where
  "auth_C_SignInit handle mech key = remember_key handle key (wrap_C_SignInit handle mech key)"

definition auth_C_SignRecoverInit :: "CK_ULONG \<Rightarrow> CK_MECHANISM \<Rightarrow> CK_ULONG \<Rightarrow> (unit, 's) wrap_call" where
  "auth_C_SignRecoverInit handle mech key = remember_key handle key (wrap_C_SignRecoverInit handle mech key)"

definition auth_C_VerifyInit :: "CK_ULONG \<Rightarrow> CK_MECHANISM \<Rightarrow> CK_ULONG \<Rightarrow> (unit, 's) wrap_call" where
  "auth_C_VerifyInit handle mech key = remember_key handle key (wrap_C_VerifyInit handle mech key)"

definition auth_C_VerifyRecoverInit :: "CK_ULONG \<Rightarrow> CK_MECHANISM \<Rightarrow> CK_ULONG \<Rightarrow> (unit, 's) wrap_call" where
  "auth_C_VerifyRecoverInit handle mech key = remember_key handle key (wrap_C_VerifyInit handle mech key)"

declare pin_loop.simps [code] login_loop.simps [code] create_loop.simps [code]

end
