(* ===== verification/WrapProps.thy ===== *)
theory WrapProps
  imports WrapLayer
begin

text \<open>
  The properties of the wrap layer: the invariant of its tables over all runs, the numbers of the slots, that a session
  reaches the module it was opened on, and what goes wrong.
\<close>

section \<open>The invariant\<close>

abbreviation mappings_of :: "'m Wrap \<Rightarrow> 'm Mapping list" where
  "mappings_of st \<equiv> (case wrap_mappings st of None \<Rightarrow> [] | Some maps \<Rightarrow> maps)"

text \<open>Slots are numbered from 16 on.\<close>

definition numbered :: "'m Mapping list \<Rightarrow> bool" where
  "numbered maps \<longleftrightarrow> length maps + 16 < 2 ^ 32 \<and> (\<forall>i < length maps. wrap_slot (maps ! i) = of_nat (i + 16))"

definition session_ok :: "'m Wrap \<Rightarrow> 32 word \<times> Session \<Rightarrow> bool" where
  "session_ok st = (\<lambda>(k, sess). wrap_session sess = k \<and> 16 < unat k \<and> unat k \<le> unat (last_handle st)
     \<and> (\<exists>i < length (mappings_of st). sess_wrap_slot sess = of_nat (i + 16)))"

definition wrap_inv :: "'m Wrap \<Rightarrow> bool" where
  "wrap_inv st \<longleftrightarrow> (\<forall>maps. wrap_mappings st = Some maps \<longrightarrow> numbered maps \<and> n_wrap_mappings st = length maps \<and> wrap_sessions st \<noteq> None)
     \<and> (\<forall>tab. wrap_sessions st = Some tab \<longrightarrow> distinct (map fst tab) \<and> (\<forall>e \<in> set tab. session_ok st e))
     \<and> 16 \<le> unat (last_handle st) \<and> unat (last_handle st) < 2 ^ 31"

lemma wrap_invD:
  assumes "wrap_inv st"
  shows "wrap_mappings st = Some maps \<Longrightarrow> numbered maps" "wrap_mappings st = Some maps \<Longrightarrow> n_wrap_mappings st = length maps"
    "wrap_mappings st = Some maps \<Longrightarrow> wrap_sessions st \<noteq> None" "wrap_sessions st = Some tab \<Longrightarrow> distinct (map fst tab)"
    "wrap_sessions st = Some tab \<Longrightarrow> e \<in> set tab \<Longrightarrow> session_ok st e" "16 \<le> unat (last_handle st)" "unat (last_handle st) < 2 ^ 31"
  using assms by (simp_all add: wrap_inv_def)

lemma slot_number: "i + 16 < 2 ^ 32 \<Longrightarrow> unat (of_nat (i + 16) :: CK_ULONG) = i + 16"
  by (rule unat_of_nat_small) simp

text \<open>The slots that the layer knows.\<close>

lemma map_slot_known:
  assumes inv: "wrap_inv st" and m: "wrap_mappings st = Some maps" and i: "i < length maps"
  shows "map_slot_unlocked (of_nat (i + 16)) st = Some (CKR_OK, Some (maps ! i))"
proof -
  have small: "i + 16 < 2 ^ 32" using wrap_invD(1) [OF inv m] i by (simp add: numbered_def)
  note u = slot_number [OF small]
  have o: "\<not> (of_nat (i + 16) :: CK_ULONG) < PLEX_MAPPING_OFFSET" unfolding word_less_nat_alt u by (simp add: PLEX_MAPPING_OFFSET_def)
  have "(of_nat (i + 16) :: CK_ULONG) - PLEX_MAPPING_OFFSET = of_nat i" by (simp add: PLEX_MAPPING_OFFSET_def)
  moreover have "unat (of_nat i :: CK_ULONG) = i" using small by (intro unat_of_nat_small) simp
  ultimately show ?thesis unfolding map_slot_unlocked_def m option.case Let_def if_not_P [OF o] using wrap_invD(2) [OF inv m] i by simp
qed

lemma map_session_known:
  assumes inv: "wrap_inv st" and t: "wrap_sessions st = Some tab" and e: "map_of tab (ucast h) = Some sess"
  shows "\<exists>i < length (mappings_of st). map_session_to_real h st = Some (CKR_OK, Some (real_session sess, mappings_of st ! i))
    \<and> sess_wrap_slot sess = of_nat (i + 16)"
proof -
  have "session_ok st (ucast h, sess)" using wrap_invD(5) [OF inv t] map_of_SomeD [OF e] by blast
  then obtain i where i: "i < length (mappings_of st)" "sess_wrap_slot sess = of_nat (i + 16)" by (auto simp: session_ok_def)
  then obtain maps where m: "wrap_mappings st = Some maps" by (cases "wrap_mappings st") auto
  have "map_slot_unlocked (sess_wrap_slot sess) st = Some (CKR_OK, Some (maps ! i))" using map_slot_known [OF inv m] i m by simp
  with t e i m show ?thesis by (auto simp: map_session_to_real_def)
qed

lemma forward_session_known:
  assumes "map_session_to_real h st = Some (CKR_OK, Some (real, m))"
  shows "forward_session h before call (st, s) = do { f \<leftarrow> call (m_list (funcs m)); case f real s of (rv, out, s1) \<Rightarrow> Some (rv, out, st, s1) }"
  using assms by (simp add: forward_session_def)

lemma forward_keeps: "forward_session h before call (st, s) = Some (rv, out, st', s') \<Longrightarrow> st' = st"
  "forward_slot slot before call (st, s) = Some (rv, out, st', s') \<Longrightarrow> st' = st"
  by (auto simp: forward_session_def forward_slot_def split: Option.bind_split_asm option.split_asm prod.split_asm)

subsection \<open>Initialize\<close>

lemma length_module_mappings [simp]: "length (module_mappings m slots k) = length slots"
  by (simp add: module_mappings_def)

lemma module_mappings_nth:
  "i < length slots \<Longrightarrow> k + length slots + 16 < 2 ^ 32 \<Longrightarrow>
     module_mappings m slots k ! i = \<lparr>wrap_slot = of_nat (k + i + 16), real_slot = slots ! i, funcs = m\<rparr>"
  by (simp add: module_mappings_def nth_enumerate_eq PLEX_MAPPING_OFFSET_def)

lemma numbered_append:
  assumes "numbered maps" and "length maps + length slots + 16 < 2 ^ 32"
  shows "numbered (maps @ module_mappings m slots (length maps))"
  using assms module_mappings_nth [of _ slots "length maps" m]
  by (auto simp: numbered_def nth_append)

text \<open>What a module adds.\<close>

lemma initialize_module_adds:
  assumes "initialize_module m k count s = Some (CKR_OK, new, count', s')"
  shows "\<exists>slots. new = module_mappings m slots k"
proof -
  have "new = [] \<or> (\<exists>slots. new = module_mappings m slots k)"
    using assms by (auto simp: initialize_module_def Let_def split: Option.bind_split_asm prod.split_asm if_split_asm)
  moreover have "module_mappings m [] k = []" by (simp add: module_mappings_def)
  ultimately show ?thesis by metis
qed

text \<open>The modules in order, each with its slots, as they are numbered.\<close>

lemma initialize_modules_numbered:
  assumes "initialize_modules passed ms maps count s = Some (CKR_OK, passed', maps', s')" and "numbered maps" and "length maps' + 16 < 2 ^ 32"
  shows "numbered maps' \<and> passed' = rev ms @ passed \<and> (\<exists>more. maps' = maps @ more)"
  using assms
proof (induction ms arbitrary: passed maps count s)
  case (Cons m ms)
  from Cons.prems(1) obtain rv new count1 s1 where i: "initialize_module m (length maps) count s = Some (rv, new, count1, s1)"
    by (auto simp: bind_eq_Some_conv)
  with Cons.prems(1) have rv: "rv = CKR_OK" by (auto split: if_splits)
  with Cons.prems(1) i have rest: "initialize_modules (m # passed) ms (maps @ new) count1 s1 = Some (CKR_OK, passed', maps', s')" by simp
  from initialize_module_adds [OF i [unfolded rv]] obtain slots where new: "new = module_mappings m slots (length maps)" by blast
  have grow: "\<exists>more. maps' = (maps @ new) @ more"
    using rest
  proof (induction ms arbitrary: passed maps new count1 s1 m)
    case (Cons m' ms)
    from Cons.prems obtain rv new' count2 s2 where i: "initialize_module m' (length (maps @ new)) count1 s1 = Some (rv, new', count2, s2)"
      by (auto simp: bind_eq_Some_conv)
    with Cons.prems have "initialize_modules (m' # m # passed) ms ((maps @ new) @ new') count2 s2 = Some (CKR_OK, passed', maps', s')" by (auto split: if_splits)
    from Cons.IH [OF this] show ?case by auto
  qed auto
  then have "length maps + length slots + 16 < 2 ^ 32" using Cons.prems(3) new by auto
  then have "numbered (maps @ new)" using numbered_append [OF Cons.prems(2)] new by simp
  from Cons.IH [OF rest this Cons.prems(3)] show ?case by auto
qed auto

lemma initialize_modules_fails:
  assumes "initialize_modules passed ms maps count s = Some (rv, passed', maps', s')" and "rv \<noteq> CKR_OK"
  shows "\<exists>pre m post maps1 count1 s1 new count2. ms = pre @ m # post \<and> passed' = rev pre @ passed
    \<and> initialize_modules passed pre maps count s = Some (CKR_OK, rev pre @ passed, maps1, s1)
    \<and> initialize_module m (length maps1) count1 s1 = Some (rv, new, count2, s')"
  using assms
proof (induction ms arbitrary: passed maps count s)
  case (Cons m ms)
  from Cons.prems(1) obtain rv1 new count1 s1 where i: "initialize_module m (length maps) count s = Some (rv1, new, count1, s1)"
    by (auto simp: bind_eq_Some_conv)
  show ?case
  proof (cases "rv1 = CKR_OK")
    case True
    with Cons.prems(1) i have "initialize_modules (m # passed) ms (maps @ new) count1 s1 = Some (rv, passed', maps', s')" by simp
    from Cons.IH [OF this Cons.prems(2)] obtain pre m' post maps1 c1 t new1 c2 where r: "ms = pre @ m' # post" "passed' = rev pre @ m # passed"
      "initialize_modules (m # passed) pre (maps @ new) count1 s1 = Some (CKR_OK, rev pre @ m # passed, maps1, t)"
      "initialize_module m' (length maps1) c1 t = Some (rv, new1, c2, s')" by blast
    then have "m # ms = (m # pre) @ m' # post \<and> passed' = rev (m # pre) @ passed
      \<and> initialize_modules passed (m # pre) maps count s = Some (CKR_OK, rev (m # pre) @ passed, maps1, t)" using i True by simp
    with r(4) show ?thesis by blast
  next
    case False
    with Cons.prems(1) i have "rv = rv1" "passed' = passed" "s' = s1" by auto
    with i have "m # ms = [] @ m # ms \<and> passed' = rev [] @ passed \<and> initialize_modules passed [] maps count s = Some (CKR_OK, rev [] @ passed, maps, s)
      \<and> initialize_module m (length maps) count s = Some (rv, new, count1, s')" by simp
    then show ?thesis by blast
  qed
qed simp

subsection \<open>Every call keeps the invariant\<close>

lemma wrap_initial_inv: "wrap_inv (wrap_initial :: 'm Wrap)"
  by (simp add: wrap_inv_def wrap_initial_def)

lemma initialize_inv:
  assumes inv: "wrap_inv st" and i: "wrap_C_Initialize junk (st, s) = Some (rv, u, st', s')" and few: "length (mappings_of st') + 16 < 2 ^ 32"
  shows "wrap_inv st'"
proof (cases "rv = CKR_OK \<and> wrap_mappings st = None")
  case True
  from i True obtain passed maps where m: "initialize_modules [] (wrap_modules st) [] junk s = Some (CKR_OK, passed, maps, s')"
    "st' = st\<lparr>n_wrap_mappings := length maps, wrap_mappings := (if maps = [] then None else Some maps), wrap_sessions := Some []\<rparr>"
    by (auto simp: wrap_C_Initialize_def split: Option.bind_split_asm prod.split_asm if_split_asm)
  have "length maps + 16 < 2 ^ 32" using few m(2) by (cases "maps = []") simp_all
  then have "numbered maps" using initialize_modules_numbered [OF m(1)] by (simp add: numbered_def)
  then show ?thesis using m(2) inv by (auto simp: wrap_inv_def)
next
  case False
  then have "st' = st" using i
    by (auto simp: wrap_C_Initialize_def CKR_OK_def split: Option.bind_split_asm prod.split_asm if_split_asm)
  then show ?thesis using inv by simp
qed

lemma finalize_inv: "wrap_inv st \<Longrightarrow> wrap_C_Finalize (st, s) = Some (rv, u, st', s') \<Longrightarrow> wrap_inv st'"
  by (auto simp: wrap_C_Finalize_def wrap_inv_def)

lemma modules_inv:
  "wrap_inv st \<Longrightarrow> gkm_wrap_layer_add_module m st = Some st' \<Longrightarrow> wrap_inv st'"
  "wrap_inv st \<Longrightarrow> gkm_wrap_layer_reset_modules st = Some st' \<Longrightarrow> wrap_inv st'"
  by (auto simp: gkm_wrap_layer_add_module_def gkm_wrap_layer_reset_modules_def wrap_inv_def split: if_splits)

lemma next_handle:
  assumes "wrap_inv st" and "unat (last_handle st) + 1 < 2 ^ 31"
  shows "unat (last_handle st + 1) = unat (last_handle st) + 1"
proof -
  have "unat (last_handle st) + 1 < 2 ^ 32" using assms(2) by simp
  then show ?thesis by (simp add: unat_word_ariths(1))
qed

lemma table_update:
  assumes "distinct (map fst tab)"
  shows "distinct (map fst (AList.update k v tab))" and "set (AList.update k v tab) \<subseteq> insert (k, v) (set tab)"
  using assms
proof -
  show "distinct (map fst (AList.update k v tab))" using assms by (simp add: distinct_update)
  show "set (AList.update k v tab) \<subseteq> insert (k, v) (set tab)" by (induction tab) auto
qed

lemma open_session_cases:
  assumes "wrap_C_OpenSession junk slot flg app handle (st, s) = Some (rv, out, st', s')"
  shows "st' = st \<and> rv \<noteq> CKR_OK \<or> (\<exists>real m f app1 h1 tab sess. rv = CKR_OK \<and> handle \<noteq> None \<and> map_slot_unlocked slot st = Some (CKR_OK, Some m) \<and> real = real_slot m
      \<and> C_OpenSession (m_list (funcs m)) = Some f \<and> f real flg app s = (CKR_OK, (app1, h1), s') \<and> wrap_sessions st = Some tab
      \<and> sess = \<lparr>wrap_session = last_handle st + 1, real_session = h1, app_id = (if flg AND CKF_G_APPLICATION_SESSION \<noteq> 0 then app1 else app_id junk),
            sess_wrap_slot = wrap_slot m, specific = specific junk\<rparr>
      \<and> out = (app1, Some (scast (last_handle st + 1)))
      \<and> st' = st\<lparr>last_handle := last_handle st + 1, wrap_sessions := Some (AList.update (last_handle st + 1) sess tab)\<rparr>)"
proof -
  have slot: "(rv1 = CKR_OK) = (r \<noteq> None)" if "map_slot_unlocked slot st = Some (rv1, r)" for rv1 r
    using that by (auto simp: map_slot_unlocked_def CKR_OK_def CKR_SLOT_ID_INVALID_def CKR_CRYPTOKI_NOT_INITIALIZED_def Let_def
        split: option.split_asm if_split_asm)
  show ?thesis using assms slot
    by (auto simp: wrap_C_OpenSession_def map_slot_to_real_def Let_def CKR_ARGUMENTS_BAD_def CKR_OK_def
        split: option.split_asm Option.bind_split_asm prod.split_asm if_split_asm)
qed

lemma open_session_inv:
  assumes inv: "wrap_inv st" and o: "wrap_C_OpenSession junk slot flg app handle (st, s) = Some (rv, out, st', s')"
    and few: "unat (last_handle st) + 1 < 2 ^ 31"
  shows "wrap_inv st'"
  using open_session_cases [OF o]
proof
  assume "st' = st \<and> rv \<noteq> CKR_OK"
  then show ?thesis using inv by simp
next
  let ?k = "last_handle st + 1"
  note k = next_handle [OF inv few]
  assume "\<exists>real m f app1 h1 tab sess. rv = CKR_OK \<and> handle \<noteq> None \<and> map_slot_unlocked slot st = Some (CKR_OK, Some m) \<and> real = real_slot m
      \<and> C_OpenSession (m_list (funcs m)) = Some f \<and> f real flg app s = (CKR_OK, (app1, h1), s') \<and> wrap_sessions st = Some tab
      \<and> sess = \<lparr>wrap_session = ?k, real_session = h1, app_id = (if flg AND CKF_G_APPLICATION_SESSION \<noteq> 0 then app1 else app_id junk),
            sess_wrap_slot = wrap_slot m, specific = specific junk\<rparr>
      \<and> out = (app1, Some (scast ?k))
      \<and> st' = st\<lparr>last_handle := ?k, wrap_sessions := Some (AList.update ?k sess tab)\<rparr>"
  then obtain m app1 h1 tab sess where o': "map_slot_unlocked slot st = Some (CKR_OK, Some m)" "wrap_sessions st = Some tab"
    "sess = \<lparr>wrap_session = ?k, real_session = h1, app_id = (if flg AND CKF_G_APPLICATION_SESSION \<noteq> 0 then app1 else app_id junk),
       sess_wrap_slot = wrap_slot m, specific = specific junk\<rparr>" "st' = st\<lparr>last_handle := ?k, wrap_sessions := Some (AList.update ?k sess tab)\<rparr>" by blast
  have o: "map_slot_unlocked slot st = Some (CKR_OK, Some m)" "wrap_sessions st = Some tab" "wrap_session sess = ?k"
    "sess_wrap_slot sess = wrap_slot m" "st' = st\<lparr>last_handle := ?k, wrap_sessions := Some (AList.update ?k sess tab)\<rparr>" using o' by simp_all
  from o(1) obtain maps i where m: "wrap_mappings st = Some maps" "i < length maps" "m = maps ! i"
    by (auto simp: map_slot_unlocked_def Let_def split: option.split_asm if_split_asm)
  have "sess_wrap_slot sess = of_nat (i + 16)" using wrap_invD(1) [OF inv m(1)] m(2,3) o(4) by (simp add: numbered_def)
  then have new: "session_ok st' (?k, sess)" using o(3,5) m(1,2) k wrap_invD(6) [OF inv] by (auto simp: session_ok_def)
  have old: "session_ok st' e" if "e \<in> set tab" for e
    using wrap_invD(5) [OF inv o(2) that] o(5) k by (auto simp: session_ok_def split: option.split_asm)
  show ?thesis
    using inv o(2,5) k few new old table_update [OF wrap_invD(4) [OF inv o(2)], of ?k sess] by (auto simp: wrap_inv_def)
qed

lemma table_shrinks:
  assumes inv: "wrap_inv st" and t: "wrap_sessions st = Some tab" and "set tab' \<subseteq> set tab" and "distinct (map fst tab')"
  shows "wrap_inv (st\<lparr>wrap_sessions := Some tab'\<rparr>)"
  using assms by (auto simp: wrap_inv_def session_ok_def split: option.split_asm)

lemma close_session_cases:
  assumes "wrap_C_CloseSession h (st, s) = Some (rv, u, st', s')"
  shows "st' = st \<or> (\<exists>tab. rv = CKR_OK \<and> wrap_sessions st = Some tab \<and> st' = st\<lparr>wrap_sessions := Some (AList.delete (ucast h) tab)\<rparr>)"
proof -
  from assms obtain rv1 u1 st1 s1 where f: "forward_session h () C_CloseSession (st, s) = Some (rv1, u1, st1, s1)"
    by (auto simp: wrap_C_CloseSession_def split: Option.bind_split_asm)
  moreover have "st1 = st" using forward_keeps(1) [OF f] .
  ultimately show ?thesis using assms by (auto simp: wrap_C_CloseSession_def split: Option.bind_split_asm if_split_asm)
qed

lemma close_session_inv:
  assumes inv: "wrap_inv st" and c: "wrap_C_CloseSession h (st, s) = Some (rv, u, st', s')"
  shows "wrap_inv st'"
  using close_session_cases [OF c]
proof
  assume "\<exists>tab. rv = CKR_OK \<and> wrap_sessions st = Some tab \<and> st' = st\<lparr>wrap_sessions := Some (AList.delete (ucast h) tab)\<rparr>"
  then obtain tab where t: "wrap_sessions st = Some tab" "st' = st\<lparr>wrap_sessions := Some (AList.delete (ucast h) tab)\<rparr>" by blast
  have "set (AList.delete (ucast h) tab) \<subseteq> set tab" by (auto simp: AList.delete_eq)
  moreover have "distinct (map fst (AList.delete (ucast h) tab))" using wrap_invD(4) [OF inv t(1)] by (rule distinct_delete)
  ultimately show ?thesis using table_shrinks [OF inv t(1)] t(2) by simp
qed (use inv in simp)

lemma close_sessions_inv: "wrap_inv (fst w) \<Longrightarrow> close_sessions hs w = Some w' \<Longrightarrow> wrap_inv (fst w')"
proof (induction hs arbitrary: w)
  case (Cons h hs)
  obtain st s where w: "w = (st, s)" by force
  from Cons.prems(2) obtain rv u st1 s1 where c: "wrap_C_CloseSession h (st, s) = Some (rv, u, st1, s1)" "close_sessions hs (st1, s1) = Some w'"
    unfolding w by (auto split: Option.bind_split_asm)
  have "wrap_inv st1" using close_session_inv [OF _ c(1)] Cons.prems(1) w by simp
  with Cons.IH [of "(st1, s1)"] c(2) show ?case by simp
qed simp

lemma close_all_inv: "wrap_inv st \<Longrightarrow> wrap_C_CloseAllSessions visit slot (st, s) = Some (rv, u, st', s') \<Longrightarrow> wrap_inv st'"
  using close_sessions_inv [of "(st, s)" _ "(st', s')"] by (auto simp: wrap_C_CloseAllSessions_def Let_def split: Option.bind_split_asm)

lemma store_specific_inv: "wrap_inv st \<Longrightarrow> wrap_inv (store_session_specific h key st)"
proof -
  assume inv: "wrap_inv st"
  show ?thesis
  proof (cases "wrap_sessions st")
    case (Some tab)
    show ?thesis
    proof (cases "map_of tab (ucast h)")
      case e: (Some sess)
      let ?st = "st\<lparr>wrap_sessions := Some (AList.update (ucast h) (sess\<lparr>specific := key\<rparr>) tab)\<rparr>"
      have old: "session_ok ?st e" if "e \<in> set tab" for e
        using wrap_invD(5) [OF inv Some that] by (auto simp: session_ok_def split: option.split_asm)
      have "(ucast h, sess) \<in> set tab" using e by (rule map_of_SomeD)
      then have new: "session_ok ?st (ucast h, sess\<lparr>specific := key\<rparr>)" using wrap_invD(5) [OF inv Some] by (auto simp: session_ok_def split: option.split_asm)
      have "wrap_inv ?st" using inv Some old new table_update [OF wrap_invD(4) [OF inv Some], of "ucast h" "sess\<lparr>specific := key\<rparr>"] by (auto simp: wrap_inv_def)
      then show ?thesis using Some e by (simp add: store_session_specific_def)
    qed (use inv Some in \<open>simp add: store_session_specific_def\<close>)
  qed (use inv in \<open>simp add: store_session_specific_def\<close>)
qed

subsection \<open>Runs\<close>

text \<open>
  What can happen to the wrap layer: modules are added before it is initialised, and then any of its calls. Calls that are passed on
  may change the world of the modules in any way. At most \<open>2 ^ 31 - 17\<close> sessions are opened, after which \<^verbatim>\<open>last_handle\<close> overflows.
\<close>

inductive wrap_run :: "((32 word \<times> Session) list \<Rightarrow> (32 word \<times> Session) list) \<Rightarrow> 's wrap_state \<Rightarrow> bool" for visit where
  start: "wrap_run visit (wrap_initial, s)"
| add: "wrap_run visit (st, s) \<Longrightarrow> gkm_wrap_layer_add_module m st = Some st' \<Longrightarrow> wrap_run visit (st', s)"
| reset: "wrap_run visit (st, s) \<Longrightarrow> gkm_wrap_layer_reset_modules st = Some st' \<Longrightarrow> wrap_run visit (st', s)"
| initialize: "wrap_run visit (st, s) \<Longrightarrow> wrap_C_Initialize junk (st, s) = Some (rv, u, st', s') \<Longrightarrow> length (mappings_of st') + 16 < 2 ^ 32 \<Longrightarrow> wrap_run visit (st', s')"
| finalize: "wrap_run visit (st, s) \<Longrightarrow> wrap_C_Finalize (st, s) = Some (rv, u, st', s') \<Longrightarrow> wrap_run visit (st', s')"
| open_session: "wrap_run visit (st, s) \<Longrightarrow> unat (last_handle st) + 1 < 2 ^ 31
    \<Longrightarrow> wrap_C_OpenSession junk' slot flg app handle (st, s) = Some (rv, out, st', s') \<Longrightarrow> wrap_run visit (st', s')"
| close: "wrap_run visit (st, s) \<Longrightarrow> wrap_C_CloseSession h (st, s) = Some (rv, u, st', s') \<Longrightarrow> wrap_run visit (st', s')"
| close_all: "wrap_run visit (st, s) \<Longrightarrow> wrap_C_CloseAllSessions visit slot (st, s) = Some (rv, u, st', s') \<Longrightarrow> wrap_run visit (st', s')"
| remember: "wrap_run visit (st, s) \<Longrightarrow> wrap_run visit (store_session_specific h key st, s)"
| call: "wrap_run visit (st, s) \<Longrightarrow> wrap_run visit (st, s')"

lemma wrap_run_ok: "wrap_run visit w \<Longrightarrow> wrap_inv (fst w)"
proof (induction rule: wrap_run.induct)
  case (start s)
  then show ?case by (simp add: wrap_initial_inv)
next
  case (add st s m st')
  then show ?case using modules_inv(1) by auto
next
  case (reset st s st')
  then show ?case using modules_inv(2) by auto
next
  case (initialize st s junk rv u st' s')
  then show ?case using initialize_inv [OF _ initialize.hyps(2,3)] by simp
next
  case (finalize st s rv u st' s')
  then show ?case using finalize_inv by auto
next
  case (open_session st s junk' slot flg app handle rv out st' s')
  then show ?case using open_session_inv [OF _ open_session.hyps(3,2)] by simp
next
  case (close st s h rv u st' s')
  then show ?case using close_session_inv by auto
next
  case (close_all st s slot rv u st' s')
  then show ?case using close_all_inv by auto
next
  case (remember st s h key)
  then show ?case using store_specific_inv by auto
qed simp

lemma map_session_defined:
  assumes inv: "wrap_inv st"
  shows "\<exists>rv r. map_session_to_real h st = Some (rv, r) \<and> (r = None \<longleftrightarrow> rv \<noteq> CKR_OK)"
proof (cases "wrap_sessions st")
  case (Some tab)
  show ?thesis
  proof (cases "map_of tab (ucast h)")
    case e: (Some sess)
    from map_session_known [OF inv Some e] show ?thesis by auto
  qed (use Some in \<open>simp add: map_session_to_real_def CKR_SESSION_HANDLE_INVALID_def CKR_OK_def\<close>)
qed (simp add: map_session_to_real_def CKR_CRYPTOKI_NOT_INITIALIZED_def CKR_OK_def)

subsection \<open>Handles\<close>

lemma handle_key: "ucast (scast (k :: 32 word) :: CK_ULONG) = k"
  by (rule bit_word_eqI) (simp add: bit_simps)

lemma open_session_known:
  assumes inv: "wrap_inv st" and few: "unat (last_handle st) + 1 < 2 ^ 31"
    and o: "wrap_C_OpenSession junk slot flg app (Some h0) (st, s) = Some (CKR_OK, (app1, Some h), st', s')"
  shows "\<exists>m f real. map_slot_to_real slot st = Some (CKR_OK, Some (real_slot m, m)) \<and> C_OpenSession (m_list (funcs m)) = Some f
    \<and> f (real_slot m) flg app s = (CKR_OK, (app1, real), s') \<and> map_session_to_real h st' = Some (CKR_OK, Some (real, m))
    \<and> map_session_to_real h st = Some (CKR_SESSION_HANDLE_INVALID, None)
    \<and> (\<forall>h2. (ucast h2 :: 32 word) \<noteq> ucast h \<longrightarrow> map_session_to_real h2 st' = map_session_to_real h2 st)"
proof -
  let ?k = "last_handle st + 1"
  from open_session_cases [OF o] obtain m f h1 tab sess where c: "map_slot_unlocked slot st = Some (CKR_OK, Some m)"
      "C_OpenSession (m_list (funcs m)) = Some f" "f (real_slot m) flg app s = (CKR_OK, (app1, h1), s')" "wrap_sessions st = Some tab"
      "sess = \<lparr>wrap_session = ?k, real_session = h1, app_id = (if flg AND CKF_G_APPLICATION_SESSION \<noteq> 0 then app1 else app_id junk),
         sess_wrap_slot = wrap_slot m, specific = specific junk\<rparr>" "h = scast ?k"
      "st' = st\<lparr>last_handle := ?k, wrap_sessions := Some (AList.update ?k sess tab)\<rparr>" by blast
  have hk: "ucast h = ?k" using c(6) handle_key by simp
  from c(1) obtain maps i where m: "wrap_mappings st = Some maps" "i < length maps" "m = maps ! i"
    by (auto simp: map_slot_unlocked_def Let_def split: option.split_asm if_split_asm)
  have "wrap_slot m = of_nat (i + 16)" using wrap_invD(1) [OF inv m(1)] m(2,3) by (simp add: numbered_def)
  then have "map_slot_unlocked (wrap_slot m) st = Some (CKR_OK, Some m)" using map_slot_known [OF inv m(1,2)] m(3) by simp
  moreover have same: "map_slot_unlocked x st' = map_slot_unlocked x st" for x using c(7) by (simp add: map_slot_unlocked_def cong: if_cong option.case_cong)
  ultimately have new: "map_session_to_real h st' = Some (CKR_OK, Some (h1, m))" using c(5,7) hk by (simp add: map_session_to_real_def update_conv)
  have "map_of tab ?k = None"
  proof (rule ccontr)
    assume "map_of tab ?k \<noteq> None"
    then obtain e where "(?k, e) \<in> set tab" by (auto dest: map_of_SomeD)
    then have "unat ?k \<le> unat (last_handle st)" using wrap_invD(5) [OF inv c(4)] by (auto simp: session_ok_def)
    then show False using next_handle [OF inv few] by simp
  qed
  then have "map_session_to_real h st = Some (CKR_SESSION_HANDLE_INVALID, None)" using c(4) hk by (simp add: map_session_to_real_def)
  moreover have "map_session_to_real h2 st' = map_session_to_real h2 st" if "(ucast h2 :: 32 word) \<noteq> ucast h" for h2
    using that c(4,7) hk same by (cases "map_of tab (ucast h2)") (simp_all add: map_session_to_real_def update_conv)
  moreover have "map_slot_to_real slot st = Some (CKR_OK, Some (real_slot m, m))" using c(1) by (simp add: map_slot_to_real_def)
  ultimately show ?thesis using c(2,3) new by blast
qed

section \<open>The list of slots\<close>

lemma slot_list_loop_fill:
  assumes "i + todo = length maps" and "length l = unat n"
  shows "\<exists>l'. slot_list_loop (Some maps) 0 n i todo (Some l) i s = Some (CKR_OK, Some l', length maps, s) \<and> length l' = length l
    \<and> (\<forall>j < length l. l' ! j = (if i \<le> j \<and> j < length maps then wrap_slot (maps ! j) else l ! j))"
  using assms
proof (induction todo arbitrary: i l)
  case (Suc todo)
  let ?l = "if i < unat n then l[i := wrap_slot (maps ! i)] else l"
  have len: "length ?l = unat n" using Suc.prems(2) by simp
  from Suc.IH [of "Suc i" ?l] Suc.prems(1) len obtain l' where l': "slot_list_loop (Some maps) 0 n (Suc i) todo (Some ?l) (Suc i) s = Some (CKR_OK, Some l', length maps, s)"
    "length l' = length ?l" "\<forall>j < length ?l. l' ! j = (if Suc i \<le> j \<and> j < length maps then wrap_slot (maps ! j) else ?l ! j)" by auto
  have "slot_list_loop (Some maps) 0 n i (Suc todo) (Some l) i s = Some (CKR_OK, Some l', length maps, s)"
    using l'(1) Suc.prems by (cases "i < unat n") simp_all
  moreover have "l' ! j = (if i \<le> j \<and> j < length maps then wrap_slot (maps ! j) else l ! j)" if "j < length l" for j
    using l'(3) that len Suc.prems by (auto simp: nth_list_update le_Suc_eq not_less_eq_eq split: if_splits)
  ultimately show ?case using l'(2) len Suc.prems(2) by (intro exI [of _ l']) simp
qed auto

lemma slot_list_filled:
  assumes inv: "wrap_inv st" and m: "wrap_mappings st = Some maps" and l: "length l = unat n"
  shows "wrap_C_GetSlotList 0 (Some l) (Some n) (st, s) = Some (if unat n < length maps then CKR_BUFFER_TOO_SMALL else CKR_OK,
    (Some (map (\<lambda>j. of_nat (j + 16)) [0..<min (unat n) (length maps)] @ drop (length maps) l), Some (of_nat (length maps))), st, s)"
proof -
  have n: "n_wrap_mappings st = length maps" "numbered maps" using wrap_invD(1,2) [OF inv m] by simp_all
  from slot_list_loop_fill [of 0 "length maps" maps l n s] l obtain l' where l': "slot_list_loop (Some maps) 0 n 0 (length maps) (Some l) 0 s = Some (CKR_OK, Some l', length maps, s)"
    "length l' = length l" "\<forall>j < length l. l' ! j = (if j < length maps then wrap_slot (maps ! j) else l ! j)" by auto
  have "l' = map (\<lambda>j. of_nat (j + 16)) [0..<min (unat n) (length maps)] @ drop (length maps) l"
  proof (rule nth_equalityI)
    show "length l' = length (map (\<lambda>j. of_nat (j + 16)) [0..<min (unat n) (length maps)] @ drop (length maps) l)" using l'(2) l by simp
    fix j assume "j < length l'"
    with l' l n(2) show "l' ! j = (map (\<lambda>j. of_nat (j + 16)) [0..<min (unat n) (length maps)] @ drop (length maps) l) ! j"
      by (auto simp: nth_append numbered_def min_def)
  qed
  with l'(1) m n(1) show ?thesis by (simp add: wrap_C_GetSlotList_def)
qed

section \<open>Closing all sessions\<close>

text \<open>Modules that close a session when they are asked to.\<close>

definition closes :: "'s wrap_module Mapping list \<Rightarrow> bool" where
  "closes maps \<longleftrightarrow> (\<forall>m \<in> set maps. \<exists>f. C_CloseSession (m_list (funcs m)) = Some f \<and> (\<forall>h s. fst (f h s) = CKR_OK))"

text \<open>What the module behind an open session does when that session is closed.\<close>

definition real_close :: "'s wrap_module Mapping list \<Rightarrow> Session \<Rightarrow> 's \<Rightarrow> 's" where
  "real_close maps sess s =
     (case C_CloseSession (m_list (funcs (maps ! (unat (sess_wrap_slot sess) - 16)))) of None \<Rightarrow> s | Some f \<Rightarrow> snd (snd (f (real_session sess) s)))"

lemma close_session_works:
  assumes inv: "wrap_inv st" and c: "closes (mappings_of st)" and t: "wrap_sessions st = Some tab" and e: "map_of tab (ucast h) = Some sess"
  shows "wrap_C_CloseSession h (st, s)
    = Some (CKR_OK, (), st\<lparr>wrap_sessions := Some (filter (\<lambda>(k, _). k \<noteq> ucast h) tab)\<rparr>, real_close (mappings_of st) sess s)"
proof -
  from map_session_known [OF inv t e] obtain i where i: "i < length (mappings_of st)" "sess_wrap_slot sess = of_nat (i + 16)"
    "map_session_to_real h st = Some (CKR_OK, Some (real_session sess, mappings_of st ! i))" by blast
  have "mappings_of st ! i \<in> set (mappings_of st)" using i(1) by (rule nth_mem)
  with c obtain f where f: "C_CloseSession (m_list (funcs (mappings_of st ! i))) = Some f" "\<And>h s. fst (f h s) = CKR_OK" by (auto simp: closes_def)
  obtain rv u s' where r: "f (real_session sess) s = (rv, u, s')" by (cases "f (real_session sess) s")
  have "rv = CKR_OK" using f(2) [of "real_session sess" s] r by simp
  then have fwd: "forward_session h () C_CloseSession (st, s) = Some (CKR_OK, (), st, s')" using i(3) f(1) r by (simp add: forward_session_def)
  obtain maps where m: "wrap_mappings st = Some maps" using i(1) by (cases "wrap_mappings st") auto
  have "i + 16 < 2 ^ 32" using wrap_invD(1) [OF inv m] i(1) m by (simp add: numbered_def)
  from slot_number [OF this] have "unat (sess_wrap_slot sess) - 16 = i" unfolding i(2) by simp
  then have "real_close (mappings_of st) sess s = s'" using f(1) r by (simp add: real_close_def)
  moreover have "AList.delete (ucast h) tab = filter (\<lambda>(k, _). k \<noteq> ucast h) tab" unfolding AList.delete_eq by (rule filter_cong) auto
  ultimately show ?thesis using t fwd by (auto simp: wrap_C_CloseSession_def)
qed

lemma close_sessions_works:
  assumes "wrap_inv st" and "closes (mappings_of st)" and "wrap_sessions st = Some tab" and "set es \<subseteq> set tab" and "distinct (map fst es)"
  shows "close_sessions (map (\<lambda>(_, sess). scast (wrap_session sess)) es) (st, s)
    = Some (st\<lparr>wrap_sessions := Some (filter (\<lambda>(k, _). k \<notin> fst ` set es) tab)\<rparr>, fold (real_close (mappings_of st)) (map snd es) s)"
  using assms
proof (induction es arbitrary: st tab s)
  case Nil
  then show ?case by (simp add: case_prod_beta')
next
  case (Cons e es)
  obtain k sess where e: "e = (k, sess)" by force
  let ?h = "scast (wrap_session sess) :: CK_ULONG"
  have mem: "(k, sess) \<in> set tab" using Cons.prems(4) e by simp
  have "session_ok st (k, sess)" by (rule wrap_invD(5) [OF Cons.prems(1,3) mem])
  then have "wrap_session sess = k" by (simp add: session_ok_def)
  then have key: "(ucast ?h :: 32 word) = k" by (simp add: handle_key)
  have "map_of tab k = Some sess" using wrap_invD(4) [OF Cons.prems(1,3)] mem by (rule map_of_is_SomeI)
  then have found: "map_of tab (ucast ?h) = Some sess" unfolding key .
  let ?tab = "filter (\<lambda>(k', _). k' \<noteq> k) tab" and ?st = "st\<lparr>wrap_sessions := Some (filter (\<lambda>(k', _). k' \<noteq> k) tab)\<rparr>"
  have c: "wrap_C_CloseSession ?h (st, s) = Some (CKR_OK, (), ?st, real_close (mappings_of st) sess s)" for s
    using close_session_works [OF Cons.prems(1-3) found] unfolding key .
  have inv: "wrap_inv ?st" using close_session_inv [OF Cons.prems(1) c] .
  have maps: "mappings_of ?st = mappings_of st" by simp
  have st: "closes (mappings_of ?st)" "wrap_sessions ?st = Some ?tab" unfolding maps using Cons.prems(2) by simp_all
  have "set es \<subseteq> set ?tab" "distinct (map fst es)" using Cons.prems(4,5) e by (force, simp)
  from Cons.IH [OF inv st this] have "close_sessions (map (\<lambda>(_, sess). scast (wrap_session sess)) es) (?st, real_close (mappings_of st) sess s)
    = Some (?st\<lparr>wrap_sessions := Some (filter (\<lambda>(k, _). k \<notin> fst ` set es) ?tab)\<rparr>, fold (real_close (mappings_of st)) (map snd (e # es)) s)"
    unfolding maps by (simp add: e)
  moreover have "filter (\<lambda>(k, _). k \<notin> fst ` set es) ?tab = filter (\<lambda>(k, _). k \<notin> fst ` set (e # es)) tab"
    unfolding filter_filter by (rule filter_cong) (auto simp: e)
  ultimately show ?case using c by (simp add: e)
qed

lemma close_all_works:
  fixes slot :: CK_ULONG
  assumes inv: "wrap_inv st" and c: "closes (mappings_of st)" and t: "wrap_sessions st = Some tab"
    and v: "set (visit tab) = set tab" "distinct (visit tab)"
  defines "gone \<equiv> filter (\<lambda>(_, sess). app_id sess OR sess_wrap_slot sess = slot) (visit tab)"
  shows "wrap_C_CloseAllSessions visit slot (st, s)
    = Some (CKR_OK, (), st\<lparr>wrap_sessions := Some (filter (\<lambda>(k, _). k \<notin> fst ` set gone) tab)\<rparr>, fold (real_close (mappings_of st)) (map snd gone) s)"
proof -
  have "inj_on fst (set tab)" using wrap_invD(4) [OF inv t] by (simp add: distinct_map)
  then have "distinct (map fst (visit tab))" using v by (simp add: distinct_map)
  then have "distinct (map fst gone)" unfolding gone_def by (rule distinct_map_filter)
  moreover have "set gone \<subseteq> set tab" using v(1) by (auto simp: gone_def)
  ultimately show ?thesis
    using close_sessions_works [OF inv c t, of gone s] t by (simp add: wrap_C_CloseAllSessions_def gone_def)
qed

text \<open>A number of a slot is below 256 and an application has a number with an empty low byte: the two can be read off their disjunction.\<close>

lemma low_byte: "x < 256 \<Longrightarrow> x AND 0xFF = x" for x :: "64 word"
proof -
  assume "x < 256"
  then have "unat x < 2 ^ 8" by (simp add: word_less_nat_alt)
  then have "take_bit 8 x = x" by (simp add: word_eq_iff_unsigned [where 'a = nat] unsigned_take_bit_eq take_bit_nat_eq_self)
  moreover have "x AND 0xFF = take_bit 8 x" by (simp add: take_bit_eq_mask mask_eq_exp_minus_1)
  ultimately show ?thesis by simp
qed

lemma apartment_parts:
  fixes a b x y :: "64 word"
  assumes "a AND 0xFF = 0" and "b AND 0xFF = 0" and "x < 256" and "y < 256"
  shows "a OR x = b OR y \<longleftrightarrow> a = b \<and> x = y"
proof
  assume e: "a OR x = b OR y"
  have "(a OR x) AND 0xFF = x" "(b OR y) AND 0xFF = y" using assms low_byte by (simp_all add: bit.conj_disj_distrib2)
  with e have xy: "x = y" by simp
  have keep: "(c OR z) AND NOT 0xFF = c" if "c AND 0xFF = 0" "z AND 0xFF = z" for c z :: "64 word"
  proof -
    have "z AND NOT 0xFF = z AND (0xFF AND NOT 0xFF)" using that(2) by (metis and.assoc)
    then have "z AND NOT 0xFF = 0" by simp
    moreover have "c = c AND 0xFF OR c AND NOT 0xFF" by (simp flip: bit.conj_disj_distrib)
    then have "c AND NOT 0xFF = c" using that(1) by simp
    ultimately show ?thesis by (simp add: bit.conj_disj_distrib2)
  qed
  have "a = b" using keep [OF assms(1) low_byte [OF assms(3)]] keep [OF assms(2) low_byte [OF assms(4)]] e by simp
  with xy show "a = b \<and> x = y" by simp
qed simp

lemma session_slot_small:
  assumes "wrap_inv st" and "wrap_sessions st = Some tab" and "(k, sess) \<in> set tab" and "length (mappings_of st) \<le> 240"
  shows "sess_wrap_slot sess < 256"
proof -
  from wrap_invD(5) [OF assms(1-3)] obtain i where "i < length (mappings_of st)" "sess_wrap_slot sess = of_nat (i + 16)" by (auto simp: session_ok_def)
  with assms(4) slot_number [of i] show ?thesis by (simp add: word_less_nat_alt del: of_nat_add)
qed

section \<open>Prompts\<close>

text \<open>
  One round of a login through a prompt that goes on: the PIN was wrong and the user entered another. \<open>asked k\<close> is what \<open>k\<close> such
  rounds lead to, \<open>None\<close> if the loop does not get that far.
\<close>

definition wrong_pin ::
    "(CK_RV \<Rightarrow> 'a \<Rightarrow> 'p \<times> 'w \<Rightarrow> bool \<times> 'a \<times> 'p \<times> 'w) \<Rightarrow> ('a \<Rightarrow> 'w \<Rightarrow> (CK_RV \<times> unit \<times> 'w) option) \<Rightarrow> 'p \<times> 'a \<times> 'w \<Rightarrow> ('p \<times> 'a \<times> 'w) option" where
  "wrong_pin ask call = (\<lambda>(p, pin, w). do {
     (rv, _, w1) \<leftarrow> call pin w;
     if rv \<noteq> CKR_PIN_INCORRECT then None
     else (case ask rv pin (p, w1) of (ok, pin1, p1, w2) \<Rightarrow> if ok then Some (p1, pin1, w2) else None)
   })"

primrec asked ::
    "(CK_RV \<Rightarrow> 'a \<Rightarrow> 'p \<times> 'w \<Rightarrow> bool \<times> 'a \<times> 'p \<times> 'w) \<Rightarrow> ('a \<Rightarrow> 'w \<Rightarrow> (CK_RV \<times> unit \<times> 'w) option) \<Rightarrow> nat \<Rightarrow> 'p \<times> 'a \<times> 'w \<Rightarrow> ('p \<times> 'a \<times> 'w) option" where
  "asked ask call 0 x = Some x"
| "asked ask call (Suc k) x = Option.bind (asked ask call k x) (wrong_pin ask call)"

lemma login_loop_round:
  assumes "wrong_pin ask call (p, pin, w) = Some (p1, pin1, w1)"
  shows "login_loop ask call (Some p) pin w = login_loop ask call (Some p1) pin1 w1"
  using assms unfolding wrong_pin_def
  by (subst login_loop.simps) (auto split: Option.bind_split_asm prod.split_asm if_split_asm)

lemma login_loop_asked:
  "asked ask call k (p, pin, w) = Some (p1, pin1, w1) \<Longrightarrow> login_loop ask call (Some p) pin w = login_loop ask call (Some p1) pin1 w1"
proof (induction k arbitrary: p1 pin1 w1)
  case (Suc k)
  then obtain p2 pin2 w2 where "asked ask call k (p, pin, w) = Some (p2, pin2, w2)" "wrong_pin ask call (p2, pin2, w2) = Some (p1, pin1, w1)"
    by (auto split: Option.bind_split_asm)
  with Suc.IH login_loop_round show ?case by metis
qed simp

lemma asked_first: "asked ask call (Suc k) x = Option.bind (wrong_pin ask call x) (asked ask call k)"
  by (induction k) (cases "wrong_pin ask call x", simp_all)

lemma login_loop_endless:
  assumes "\<And>k. asked ask call k (p, pin, w) \<noteq> None"
  shows "login_loop ask call (Some p) pin w = None"
proof -
  have "\<exists>k. asked ask call k (p, pin, w) = None" if "login_loop ask call prompt pin w = Some r" "prompt = Some p" for prompt p pin w r
    using that
  proof (induction arbitrary: p rule: login_loop.raw_induct [rotated, consumes 1, case_names round])
    case (round f ask call prompt pin w r)
    show ?case
    proof (cases "wrong_pin ask call (p, pin, w)")
      case None
      then show ?thesis by (intro exI [of _ 1]) (simp add: asked_first)
    next
      case (Some x)
      obtain p1 pin1 w1 where x: "x = (p1, pin1, w1)" by (cases x)
      have "f ask call (Some p1) pin1 w1 = Some r" using round(2,3) Some x
        by (auto simp: wrong_pin_def split: Option.bind_split_asm prod.split_asm if_split_asm)
      from round(1) [OF this refl] obtain k where "asked ask call k (p1, pin1, w1) = None" by blast
      with Some x have "asked ask call (Suc k) (p, pin, w) = None" by (simp only: asked_first) simp
      then show ?thesis by blast
    qed
  qed
  with assms show ?thesis by (metis not_Some_eq)
qed

lemma asked_last:
  assumes "asked ask call k x = None"
  obtains j y where "asked ask call j x = Some y" and "wrong_pin ask call y = None"
proof -
  have "\<exists>j y. asked ask call j x = Some y \<and> wrong_pin ask call y = None"
    using assms by (induction k) (auto split: Option.bind_split_asm)
  with that show thesis by blast
qed

lemma asked_keeps:
  assumes "\<And>pin w rv u w1. good w \<Longrightarrow> call pin w = Some (rv, u, w1) \<Longrightarrow> good w1"
    and "\<And>rv pin p w ok pin1 p1 w1. good w \<Longrightarrow> ask rv pin (p, w) = (ok, pin1, p1, w1) \<Longrightarrow> good w1" and "good w"
  shows "asked ask call k (p, pin, w) = Some (p1, pin1, w1) \<Longrightarrow> good w1"
proof (induction k arbitrary: p1 pin1 w1)
  case 0
  then show ?case using assms(3) by simp
next
  case (Suc k)
  then obtain p2 pin2 w2 where a: "asked ask call k (p, pin, w) = Some (p2, pin2, w2)" "wrong_pin ask call (p2, pin2, w2) = Some (p1, pin1, w1)"
    by (auto split: Option.bind_split_asm)
  from a(2) obtain rv u w3 ok where "call pin2 w2 = Some (rv, u, w3)" "ask rv pin2 (p2, w3) = (ok, pin1, p1, w1)"
    by (auto simp: wrong_pin_def split: Option.bind_split_asm prod.split_asm if_split_asm)
  with Suc.IH [OF a(1)] assms(1,2) show ?case by blast
qed

end
