(* ===== verification/WrapUse.thy ===== *)
theory WrapUse
  imports WrapProps RpcServe
begin

text \<open>
  The promises of the wrap layer to its callers, each with a concrete instance: a module with one slot, number 5, whose sessions are
  numbered from the counter that is its world.
\<close>

definition wrap_sample :: "nat wrap_module" where
  "wrap_sample = \<lparr>m_list = sample_module\<lparr>
       C_GetSlotList := Some (\<lambda>present slots n s. (CKR_OK, (map_option (\<lambda>l. 5 # tl l) slots, 1), s)),
       C_OpenSession := Some (\<lambda>slot flg app s. (CKR_OK, (app, 100 * slot + of_nat s), s + 1)),
       C_CloseSession := Some (\<lambda>h s. (CKR_OK, (), s + 1)),
       C_Login := Some (\<lambda>h typ pin n s. (if pin = Some [1, 2] then CKR_OK else CKR_PIN_INCORRECT, (), s + 1)),
       C_SetPIN := Some (\<lambda>h a n b m s. (CKR_PIN_LEN_RANGE, (), s + 1))\<rparr>,
     m_Initialize = (\<lambda>s. (CKR_OK, s + 1)), m_Finalize = (\<lambda>s. s + 1)\<rparr>"

definition sample_map :: "nat wrap_module Mapping" where
  "sample_map = \<lparr>wrap_slot = 16, real_slot = 5, funcs = wrap_sample\<rparr>"

definition sample_wrap :: "nat wrap_module Wrap" where
  "sample_wrap = \<lparr>wrap_modules = [wrap_sample], wrap_mappings = Some [sample_map], n_wrap_mappings = 1, wrap_sessions = Some [], last_handle = 16\<rparr>"

definition sample_junk :: Session where
  "sample_junk = \<lparr>wrap_session = 0, real_session = 0, app_id = 0, sess_wrap_slot = 0, specific = 0\<rparr>"

definition sample_session :: Session where
  "sample_session = \<lparr>wrap_session = 17, real_session = 501, app_id = 0, sess_wrap_slot = 16, specific = 0\<rparr>"

definition sample_wrap1 :: "nat wrap_module Wrap" where
  "sample_wrap1 = sample_wrap\<lparr>last_handle := 17, wrap_sessions := Some [(17, sample_session)]\<rparr>"

lemma sample_initialize: "wrap_C_Initialize 0 (wrap_initial\<lparr>wrap_modules := [wrap_sample]\<rparr>, 0) = Some (CKR_OK, (), sample_wrap, 1)"
  by (simp add: wrap_C_Initialize_def initialize_module_def wrap_sample_def module_mappings_def sample_map_def sample_wrap_def
      wrap_initial_def PLEX_MAPPING_OFFSET_def CKR_OK_def CKR_CRYPTOKI_ALREADY_INITIALIZED_def)

lemma wrap_sample_run: "wrap_run visit (sample_wrap, 1)"
proof -
  have "wrap_run visit (wrap_initial\<lparr>wrap_modules := [wrap_sample]\<rparr>, 0 :: nat)"
    by (rule wrap_run.add [OF wrap_run.start, of wrap_sample]) (simp add: gkm_wrap_layer_add_module_def wrap_initial_def)
  from wrap_run.initialize [OF this sample_initialize] show ?thesis by (simp add: sample_wrap_def)
qed

lemma sample_open: "wrap_C_OpenSession sample_junk 16 4 0 (Some 0) (sample_wrap, 1) = Some (CKR_OK, (0, Some 17), sample_wrap1, 2)"
  by (simp add: wrap_C_OpenSession_def map_slot_to_real_def map_slot_unlocked_def sample_wrap_def sample_wrap1_def sample_map_def
      wrap_sample_def sample_session_def sample_junk_def PLEX_MAPPING_OFFSET_def CKR_OK_def CKF_G_APPLICATION_SESSION_def)

lemma wrap_sample_run1: "wrap_run visit (sample_wrap1, 2)"
  by (rule wrap_run.open_session [OF wrap_sample_run _ sample_open]) (simp add: sample_wrap_def)

section \<open>Sessions\<close>

definition the_session :: "CK_ULONG \<Rightarrow> 'm Wrap \<Rightarrow> Session option" where
  "the_session h st = (case wrap_sessions st of None \<Rightarrow> None | Some tab \<Rightarrow> map_of tab (ucast h))"

lemma the_session_unknown:
  assumes "wrap_inv st" and "the_session h st = None"
  shows "\<exists>rv. map_session_to_real h st = Some (rv, None) \<and> rv \<noteq> CKR_OK"
  using assms by (auto simp: the_session_def map_session_to_real_def CKR_OK_def CKR_SESSION_HANDLE_INVALID_def
      CKR_CRYPTOKI_NOT_INITIALIZED_def split: option.splits)

lemma the_session_known:
  assumes inv: "wrap_inv st" and k: "the_session h st = Some sess"
  shows "\<exists>m \<in> set (mappings_of st). wrap_slot m = sess_wrap_slot sess \<and> map_session_to_real h st = Some (CKR_OK, Some (real_session sess, m))"
proof -
  obtain tab where t: "wrap_sessions st = Some tab" "map_of tab (ucast h) = Some sess"
    using k by (auto simp: the_session_def split: option.splits)
  from map_session_known [OF inv t] obtain i where i: "i < length (mappings_of st)"
    "map_session_to_real h st = Some (CKR_OK, Some (real_session sess, mappings_of st ! i))" "sess_wrap_slot sess = of_nat (i + 16)" by blast
  from i(1) obtain maps where m: "wrap_mappings st = Some maps" by (cases "wrap_mappings st") auto
  have "wrap_slot (mappings_of st ! i) = of_nat (i + 16)" using wrap_invD(1) [OF inv m] i(1) m by (simp add: numbered_def)
  with i nth_mem [OF i(1)] show ?thesis by auto
qed

text \<open>C8: In every run of the wrap layer its tables stay in order: slots are numbered from 16 on, each session is known under its own handle
  and belongs to a slot that is mapped. So a call on a session, whatever the handle, never reads outside of the mappings: it is
  refused with an error and without effect, or it is the call of the module to which the session's slot belongs, on the session of that module.\<close>

theorem wrap_run_safe:
  assumes run: "wrap_run visit (st, s)" and funs: "\<And>m. m \<in> set (mappings_of st) \<Longrightarrow> call (m_list (funcs m)) \<noteq> None"
  shows "wrap_inv st \<and> (\<exists>rv out s'. forward_session h before call (st, s) = Some (rv, out, st, s')
    \<and> (case the_session h st of
         None \<Rightarrow> rv \<noteq> CKR_OK \<and> out = before \<and> s' = s
       | Some sess \<Rightarrow> \<exists>m f. m \<in> set (mappings_of st) \<and> wrap_slot m = sess_wrap_slot sess \<and> call (m_list (funcs m)) = Some f
           \<and> f (real_session sess) s = (rv, out, s')))"
proof -
  have inv: "wrap_inv st" using wrap_run_ok [OF run] by simp
  show ?thesis
  proof (cases "the_session h st")
    case None
    from the_session_unknown [OF inv None] None inv show ?thesis by (auto simp: forward_session_def)
  next
    case (Some sess)
    from the_session_known [OF inv Some] obtain m where m: "m \<in> set (mappings_of st)" "wrap_slot m = sess_wrap_slot sess"
      "map_session_to_real h st = Some (CKR_OK, Some (real_session sess, m))" by blast
    from funs [OF m(1)] obtain f where f: "call (m_list (funcs m)) = Some f" by blast
    obtain rv out s' where r: "f (real_session sess) s = (rv, out, s')" by (cases "f (real_session sess) s")
    have "forward_session h before call (st, s) = Some (rv, out, st, s')" using m(3) f r by (simp add: forward_session_def)
    with inv Some m f r show ?thesis by auto
  qed
qed

theorem wrap_run_safe_witness:
  "\<exists>rv out s'. wrap_C_Login 17 1 (Some [1, 2]) 2 (sample_wrap1, 2) = Some (rv, out, sample_wrap1, s')
    \<and> (\<exists>m f. m \<in> set [sample_map] \<and> wrap_slot m = 16 \<and> (do { f \<leftarrow> C_Login (m_list (funcs m)); Some (\<lambda>real. f real 1 (Some [1, 2]) 2) }) = Some f
         \<and> f 501 2 = (rv, out, s'))"
proof -
  have "do { f \<leftarrow> C_Login (m_list (funcs m)); Some (\<lambda>real. f real 1 (Some [1, 2]) 2) } \<noteq> None" if "m \<in> set (mappings_of sample_wrap1)" for m
    using that by (simp add: sample_wrap1_def sample_wrap_def sample_map_def wrap_sample_def)
  from wrap_run_safe [OF wrap_sample_run1 [of id], where call = "\<lambda>l. do { f \<leftarrow> C_Login l; Some (\<lambda>real. f real 1 (Some [1, 2]) 2) }" and h = 17 and before = "()", OF this]
  show ?thesis by (simp add: the_session_def sample_wrap1_def sample_wrap_def sample_session_def wrap_C_Login_def)
qed

text \<open>C9: A session that the wrap layer opens gets a handle that no open session has. It is the session that the module of the slot opened, and
  from then on each call on the handle is that module's call on that session, while all other sessions stay what they were.\<close>

theorem wrap_C_OpenSession_transparent:
  assumes run: "wrap_run visit (st, s)" and few: "unat (last_handle st) + 1 < 2 ^ 31"
    and o: "wrap_C_OpenSession junk slot flg app (Some h0) (st, s) = Some (CKR_OK, (app1, Some h), st', s')"
  shows "\<exists>m f real. map_slot_to_real slot st = Some (CKR_OK, Some (real_slot m, m)) \<and> C_OpenSession (m_list (funcs m)) = Some f
    \<and> f (real_slot m) flg app s = (CKR_OK, (app1, real), s') \<and> the_session h st = None
    \<and> (\<forall>(before :: 'o) call t. forward_session h before call (st', t) = do { g \<leftarrow> call (m_list (funcs m)); case g real t of (rv, out, t1) \<Rightarrow> Some (rv, out, st', t1) })
    \<and> (\<forall>h2. (ucast h2 :: 32 word) \<noteq> ucast h \<longrightarrow> the_session h2 st' = the_session h2 st)"
proof -
  have inv: "wrap_inv st" using wrap_run_ok [OF run] by simp
  from open_session_known [OF inv few o] obtain m f real where c: "map_slot_to_real slot st = Some (CKR_OK, Some (real_slot m, m))"
    "C_OpenSession (m_list (funcs m)) = Some f" "f (real_slot m) flg app s = (CKR_OK, (app1, real), s')"
    "map_session_to_real h st' = Some (CKR_OK, Some (real, m))" "map_session_to_real h st = Some (CKR_SESSION_HANDLE_INVALID, None)" by blast
  from open_session_cases [OF o] obtain tab sess where t: "wrap_sessions st = Some tab" "h = scast (last_handle st + 1)"
    "st' = st\<lparr>last_handle := last_handle st + 1, wrap_sessions := Some (AList.update (last_handle st + 1) sess tab)\<rparr>" by blast
  have new: "the_session h st = None"
  proof (rule ccontr)
    assume "the_session h st \<noteq> None"
    then obtain sess where "the_session h st = Some sess" by blast
    from the_session_known [OF inv this] c(5) show False by auto
  qed
  have hk: "ucast h = last_handle st + 1" using t(2) handle_key by simp
  have "the_session h2 st' = the_session h2 st" if "(ucast h2 :: 32 word) \<noteq> ucast h" for h2
    using that t(1,3) hk by (simp add: the_session_def update_conv)
  with c new forward_session_known [OF c(4)] show ?thesis by blast
qed

theorem wrap_C_OpenSession_transparent_witness:
  "the_session 17 sample_wrap = None \<and> (\<exists>f real. C_OpenSession (m_list wrap_sample) = Some f \<and> f 5 4 0 1 = (CKR_OK, (0, real), 2)
    \<and> forward_session 17 () C_CloseSession (sample_wrap1, 2)
      = do { g \<leftarrow> C_CloseSession (m_list wrap_sample); case g real 2 of (rv, out, t1) \<Rightarrow> Some (rv, out, sample_wrap1, t1) })"
proof -
  have few: "unat (last_handle sample_wrap) + 1 < 2 ^ 31" by (simp add: sample_wrap_def)
  have "map_slot_to_real 16 sample_wrap = Some (CKR_OK, Some (5, sample_map))"
    by (simp add: map_slot_to_real_def map_slot_unlocked_def sample_wrap_def sample_map_def PLEX_MAPPING_OFFSET_def)
  with wrap_C_OpenSession_transparent [where 'o = unit, OF wrap_sample_run [of id] few sample_open] show ?thesis by (auto simp: sample_map_def)
qed




section \<open>Slots and modules\<close>

text \<open>C21: The list of slots holds the number of every slot of every module once, in order from 16 on, cut off at the room of the caller (and
  then with the right length and an error), and each listed number leads to the mapping of that slot.\<close>

theorem wrap_C_GetSlotList_complete:
  assumes run: "wrap_run visit (st, s)" and m: "wrap_mappings st = Some maps" and l: "length l = unat n"
  shows "\<exists>nums. wrap_C_GetSlotList 0 (Some l) (Some n) (st, s) = Some (if unat n < length maps then CKR_BUFFER_TOO_SMALL else CKR_OK,
      (Some (nums @ drop (length maps) l), Some (of_nat (length maps))), st, s)
    \<and> length nums = min (unat n) (length maps) \<and> distinct nums
    \<and> (\<forall>i < length nums. map_slot_to_real (nums ! i) st = Some (CKR_OK, Some (real_slot (maps ! i), maps ! i)))"
proof -
  have inv: "wrap_inv st" using wrap_run_ok [OF run] by simp
  have small: "length maps + 16 < 2 ^ 32" using wrap_invD(1) [OF inv m] by (simp add: numbered_def)
  let ?nums = "map (\<lambda>j. of_nat (j + 16)) [0..<min (unat n) (length maps)] :: CK_ULONG list"
  have "inj_on (\<lambda>j. of_nat (j + 16) :: CK_ULONG) {0..<min (unat n) (length maps)}"
  proof (rule inj_onI)
    fix i j assume "i \<in> {0..<min (unat n) (length maps)}" "j \<in> {0..<min (unat n) (length maps)}" and eq: "(of_nat (i + 16) :: CK_ULONG) = of_nat (j + 16)"
    then have "i + 16 < 2 ^ 32" "j + 16 < 2 ^ 32" using small by simp_all
    with slot_number [of i] slot_number [of j] eq show "i = j" by (metis add_right_cancel)
  qed
  then have "distinct ?nums" by (simp add: distinct_map)
  moreover have "map_slot_to_real (?nums ! i) st = Some (CKR_OK, Some (real_slot (maps ! i), maps ! i))" if "i < length ?nums" for i
    using that map_slot_known [OF inv m, of i] by (simp add: map_slot_to_real_def)
  ultimately show ?thesis using slot_list_filled [OF inv m l, of s] by (intro exI [of _ ?nums]) simp
qed

theorem wrap_C_GetSlotList_complete_witness:
  "\<exists>nums. wrap_C_GetSlotList 0 (Some [7, 8]) (Some 2) (sample_wrap, 1) = Some (CKR_OK, (Some (nums @ [8]), Some 1), sample_wrap, 1) \<and> length nums = 1"
proof -
  have m: "wrap_mappings sample_wrap = Some [sample_map]" by (simp add: sample_wrap_def)
  from wrap_C_GetSlotList_complete [OF wrap_sample_run [of id] m, of "[7, 8]" 2] show ?thesis by auto
qed

text \<open>C22: When a module cannot be initialised, the wrap layer stays as it was, and of the modules that were initialised before it exactly these
  are finalised, in reverse order. The module that failed is not finalised, also when it was initialised and only its slots could not be listed.\<close>

theorem wrap_C_Initialize_rolls_back:
  assumes i: "wrap_C_Initialize junk (st, s) = Some (rv, u, st', s')" and rv: "rv \<noteq> CKR_OK"
  shows "st' = st \<and> (if wrap_mappings st \<noteq> None then rv = CKR_CRYPTOKI_ALREADY_INITIALIZED \<and> s' = s
    else \<exists>pre m post maps count s1 new count' s2. wrap_modules st = pre @ m # post
      \<and> initialize_modules [] pre [] junk s = Some (CKR_OK, rev pre, maps, s1)
      \<and> initialize_module m (length maps) count s1 = Some (rv, new, count', s2) \<and> s' = finalize_modules (rev pre) s2)"
proof (cases "wrap_mappings st")
  case None
  from i rv None obtain passed maps s2 where m: "initialize_modules [] (wrap_modules st) [] junk s = Some (rv, passed, maps, s2)"
    "st' = st" "s' = finalize_modules passed s2"
    by (auto simp: wrap_C_Initialize_def split: Option.bind_split_asm prod.split_asm if_split_asm)
  from initialize_modules_fails [OF m(1) rv] obtain pre m' post maps1 count1 s1 new count2 where "wrap_modules st = pre @ m' # post" "passed = rev pre"
    "initialize_modules [] pre [] junk s = Some (CKR_OK, rev pre, maps1, s1)" "initialize_module m' (length maps1) count1 s1 = Some (rv, new, count2, s2)" by auto
  with None m(2,3) show ?thesis by simp blast
qed (use i in \<open>auto simp: wrap_C_Initialize_def\<close>)

text \<open>A module whose slots cannot be listed, behind the other one.\<close>

definition wrap_failing :: "nat wrap_module" where
  "wrap_failing = wrap_sample\<lparr>m_list := (m_list wrap_sample)\<lparr>C_GetSlotList := Some (\<lambda>present slots n s. (CKR_GENERAL_ERROR, (slots, n), s + 10))\<rparr>,
     m_Finalize := (\<lambda>s. s + 1000)\<rparr>"

theorem wrap_C_Initialize_rolls_back_witness:
  "wrap_C_Initialize 0 (wrap_initial\<lparr>wrap_modules := [wrap_sample, wrap_failing]\<rparr>, 0)
     = Some (CKR_GENERAL_ERROR, (), wrap_initial\<lparr>wrap_modules := [wrap_sample, wrap_failing]\<rparr>, 13)
   \<and> (\<exists>pre m post. [wrap_sample, wrap_failing] = pre @ m # post)"
proof -
  have i: "wrap_C_Initialize 0 (wrap_initial\<lparr>wrap_modules := [wrap_sample, wrap_failing]\<rparr>, 0)
     = Some (CKR_GENERAL_ERROR, (), wrap_initial\<lparr>wrap_modules := [wrap_sample, wrap_failing]\<rparr>, 13)"
    by (simp add: wrap_C_Initialize_def initialize_module_def wrap_sample_def wrap_failing_def module_mappings_def finalize_modules_def
      wrap_initial_def PLEX_MAPPING_OFFSET_def CKR_OK_def CKR_CRYPTOKI_ALREADY_INITIALIZED_def CKR_GENERAL_ERROR_def)
  moreover have "CKR_GENERAL_ERROR \<noteq> CKR_OK" by (simp add: CKR_GENERAL_ERROR_def CKR_OK_def)
  ultimately show ?thesis using wrap_C_Initialize_rolls_back [OF i] by (simp add: wrap_initial_def) blast
qed

text \<open>C28: The first number behind the slots passes the check of the wrap layer: every call on it reads a mapping outside of the array. After
  \<^verbatim>\<open>C_Finalize\<close> the number of mappings is still what it was, so listing the slots reads through \<^verbatim>\<open>NULL\<close>.\<close>

theorem wrap_slot_overread:
  assumes run: "wrap_run visit (st, s :: 's)" and m: "wrap_mappings st = Some maps"
  shows "forward_slot (of_nat (length maps + 16)) before call (st, s) = None
    \<and> (wrap_C_Finalize (st, s) = Some (rv, u, w) \<longrightarrow> maps \<noteq> [] \<longrightarrow> wrap_C_GetSlotList present slots (Some n) w = None)"
proof -
  have inv: "wrap_inv st" using wrap_run_ok [OF run] by simp
  have small: "length maps + 16 < 2 ^ 32" using wrap_invD(1) [OF inv m] by (simp add: numbered_def)
  note n = wrap_invD(2) [OF inv m] and u = slot_number [OF small]
  have o: "\<not> (of_nat (length maps + 16) :: CK_ULONG) < PLEX_MAPPING_OFFSET" unfolding word_less_nat_alt u by (simp add: PLEX_MAPPING_OFFSET_def)
  have "(of_nat (length maps + 16) :: CK_ULONG) - PLEX_MAPPING_OFFSET = of_nat (length maps)" by (simp add: PLEX_MAPPING_OFFSET_def)
  moreover have "unat (of_nat (length maps) :: CK_ULONG) = length maps" using small by (intro unat_of_nat_small) simp
  ultimately have "map_slot_unlocked (of_nat (length maps + 16)) st = None"
    unfolding map_slot_unlocked_def m option.case Let_def if_not_P [OF o] using n by simp
  then have "forward_slot (of_nat (length maps + 16)) before call (st, s) = None" unfolding forward_slot_def map_slot_to_real_def by simp
  moreover have "slot_list_loop (None :: 's wrap_module Mapping list option) present n 0 (length maps) slots 0 s2 = None" if "maps \<noteq> []" for s2
    using that by (cases "length maps") simp_all
  ultimately show ?thesis using n by (auto simp: wrap_C_Finalize_def wrap_C_GetSlotList_def)
qed

theorem wrap_slot_overread_witness:
  "(\<forall>info. wrap_C_GetTokenInfo 17 info (sample_wrap, 1) = None)
   \<and> wrap_C_GetSlotList 0 None (Some 0) (sample_wrap\<lparr>wrap_mappings := None, wrap_sessions := None\<rparr>, 2) = None"
proof -
  have m: "wrap_mappings sample_wrap = Some [sample_map]" by (simp add: sample_wrap_def)
  have f: "wrap_C_Finalize (sample_wrap, 1) = Some (CKR_OK, (), sample_wrap\<lparr>wrap_mappings := None, wrap_sessions := None\<rparr>, 2)"
    by (simp add: wrap_C_Finalize_def finalize_modules_def sample_wrap_def wrap_sample_def)
  have "wrap_C_GetTokenInfo 17 info (sample_wrap, 1) = None" for info
    using wrap_slot_overread [OF wrap_sample_run [of id] m, of info C_GetTokenInfo] by (simp add: wrap_C_GetTokenInfo_def)
  moreover have "wrap_C_GetSlotList 0 None (Some 0) (sample_wrap\<lparr>wrap_mappings := None, wrap_sessions := None\<rparr>, 2) = None"
    using wrap_slot_overread [OF wrap_sample_run [of id] m, where rv = CKR_OK and u = "()" and present = 0 and slots = None and n = 0 and before = "()" and call = C_CloseSession
        and w = "(sample_wrap\<lparr>wrap_mappings := None, wrap_sessions := None\<rparr>, 2)"] f by simp
  ultimately show ?thesis by blast
qed

section \<open>Prompts\<close>

text \<open>Both loops for a new PIN leave after the first attempt, since no code equals all the codes they compare with.\<close>

lemma pin_loop_once:
  assumes "\<And>rv. stop rv"
  shows "pin_loop ask call stop (Some p) rv pin w = (case ask rv pin (p, w) of (ok, pin1, p1, w1) \<Rightarrow>
    if \<not> ok then Some (rv, Some p1, w1) else do { (rv1, _, w2) \<leftarrow> call pin1 w1; Some (rv1, Some p1, w2) })"
  by (subst pin_loop.simps) (auto simp: assms split: prod.split Option.bind_split)

text \<open>C29: Setting a PIN through a prompt asks once. If the user dismisses the prompt, the caller is told that the PIN was set although the module was
  never asked; otherwise the module is called once with what the user entered, and a PIN that it refuses is not asked for again,
  whatever the reason.\<close>

theorem auth_C_SetPIN_asks_once:
  assumes p: "for_set_pin pr h a n b m w = (Some p, w0)" and q: "do_set_pin pr CKR_OK (a, n, b, m) (p, w0) = (ok, (a1, n1, b1, m1), p1, w1)"
  shows "auth_C_SetPIN pr h a n b m w = (if \<not> ok then Some (CKR_OK, (), done_set_pin pr CKR_OK (p1, w1))
    else do { (rv, _, w2) \<leftarrow> wrap_C_SetPIN h a1 n1 b1 m1 w1; Some (rv, (), done_set_pin pr rv (p1, w2)) })"
proof -
  have stop: "rv \<noteq> CKR_PIN_INCORRECT \<or> rv \<noteq> CKR_PIN_INVALID \<or> rv \<noteq> CKR_PIN_LEN_RANGE" for rv
    by (auto simp: CKR_PIN_INCORRECT_def CKR_PIN_INVALID_def)
  show ?thesis unfolding auth_C_SetPIN_def p prod.case pin_loop_once [OF stop] q by (auto split: Option.bind_split)
qed

text \<open>A user who dismisses the prompt at the first or at a later time: the prompt counts down.\<close>

definition sample_prompts :: "(nat, nat wrap_state) Prompts" where
  "sample_prompts = \<lparr>for_init_pin = (\<lambda>h pin n w. (Some 1, w)), do_init_pin = (\<lambda>rv pin (p, w). (p > 0, pin, p - 1, w)), done_init_pin = (\<lambda>rv (p, w). w),
     for_set_pin = (\<lambda>h a n b m w. (Some (unat n), w)), do_set_pin = (\<lambda>rv pins (p, w). (p > 0, pins, p - 1, w)), done_set_pin = (\<lambda>rv (p, w). w),
     for_login = (\<lambda>typ h key pin n w. (Some 2, w)), do_login = (\<lambda>typ rv pin (p, w). (p > 0, (Some [1, 2], 2), p - 1, w)), done_login = (\<lambda>typ rv (p, w). w),
     for_credential = (\<lambda>h t n w. (None, w)), do_credential = (\<lambda>t (p, w). (False, t, p, w)), done_credential = (\<lambda>rv (p, w). w)\<rparr>"

lemmas sample_defs = sample_wrap1_def sample_wrap_def sample_map_def wrap_sample_def sample_session_def sample_prompts_def

lemma sample_session_maps: "map_session_to_real 17 sample_wrap1 = Some (CKR_OK, Some (501, sample_map))"
  by (simp add: map_session_to_real_def map_slot_unlocked_def sample_wrap1_def sample_wrap_def sample_session_def PLEX_MAPPING_OFFSET_def)

theorem auth_C_SetPIN_asks_once_witness:
  "auth_C_SetPIN sample_prompts 17 None 0 None 0 (sample_wrap1, 2) = Some (CKR_OK, (), sample_wrap1, 2)
   \<and> auth_C_SetPIN sample_prompts 17 None 5 None 0 (sample_wrap1, 2) = Some (CKR_PIN_LEN_RANGE, (), sample_wrap1, 3)"
proof
  have p: "for_set_pin sample_prompts 17 None n None 0 w = (Some (unat n), w)" for n w by (simp add: sample_prompts_def)
  have q: "do_set_pin sample_prompts CKR_OK pins (p, w) = (p > 0, pins, p - 1, w)" "done_set_pin sample_prompts rv (p, w) = w" for rv pins p w
    by (simp_all add: sample_prompts_def)
  show "auth_C_SetPIN sample_prompts 17 None 0 None 0 (sample_wrap1, 2) = Some (CKR_OK, (), sample_wrap1, 2)"
    by (subst auth_C_SetPIN_asks_once [OF p q(1)]) (simp add: q(2))
  have "wrap_C_SetPIN 17 None 5 None 0 (sample_wrap1, 2) = Some (CKR_PIN_LEN_RANGE, (), sample_wrap1, 3)"
    by (simp add: wrap_C_SetPIN_def forward_session_def sample_session_maps) (simp add: sample_map_def wrap_sample_def)
  then show "auth_C_SetPIN sample_prompts 17 None 5 None 0 (sample_wrap1, 2) = Some (CKR_PIN_LEN_RANGE, (), sample_wrap1, 3)"
    by (subst auth_C_SetPIN_asks_once [OF p q(1)]) (simp add: q(2))
qed

text \<open>
  What the prompts of a login do to the wrap layer: they call it, to read objects and the login keyring, and so open and close sessions of
  it, but neither initialise nor finalise it. The layer is in a state of a run again (no more sessions are opened than there are handles) and
  has the mappings it had.
\<close>

definition login_prompts :: "((32 word \<times> Session) list \<Rightarrow> (32 word \<times> Session) list) \<Rightarrow> ('p, 's wrap_state) Prompts \<Rightarrow> bool" where
  "login_prompts visit pr \<longleftrightarrow>
     (\<forall>w w'. wrap_run visit w \<longrightarrow>
        (\<exists>typ h key pin n. w' = snd (for_login pr typ h key pin n w))
        \<or> (\<exists>typ rv pin p. w' = snd (snd (snd (do_login pr typ rv pin (p, w)))))
        \<or> (\<exists>typ rv p. w' = done_login pr typ rv (p, w))
        \<longrightarrow> wrap_run visit w' \<and> mappings_of (fst w') = mappings_of (fst w))"

lemma login_promptsD:
  assumes "login_prompts visit pr" and "wrap_run visit w \<and> mappings_of (fst w) = maps"
  shows "for_login pr typ h key pin n w = (prompt, w') \<Longrightarrow> wrap_run visit w' \<and> mappings_of (fst w') = maps"
    and "do_login pr typ rv pin2 (p, w) = (ok, pin1, p1, w') \<Longrightarrow> wrap_run visit w' \<and> mappings_of (fst w') = maps"
    and "wrap_run visit (done_login pr typ rv (p, w)) \<and> mappings_of (fst (done_login pr typ rv (p, w))) = maps"
  using assms unfolding login_prompts_def by (metis snd_conv)+

lemma wrap_C_Login_total:
  assumes w: "wrap_run visit w \<and> mappings_of (fst w) = maps" and funs: "\<And>m. m \<in> set maps \<Longrightarrow> C_Login (m_list (funcs m)) \<noteq> None"
  shows "\<exists>rv s'. wrap_C_Login h typ pin n w = Some (rv, (), fst w, s')"
proof -
  obtain st s where ws: "w = (st, s)" by (cases w)
  have inv: "wrap_inv st" using wrap_run_ok [of visit w] w ws by simp
  show ?thesis
  proof (cases "the_session h st")
    case None
    from the_session_unknown [OF inv None] show ?thesis unfolding ws by (auto simp: wrap_C_Login_def forward_session_def)
  next
    case (Some sess)
    from the_session_known [OF inv Some] obtain m where m: "m \<in> set (mappings_of st)" "map_session_to_real h st = Some (CKR_OK, Some (real_session sess, m))" by blast
    have "m \<in> set maps" using m(1) w unfolding ws fst_conv by metis
    then obtain f where f: "C_Login (m_list (funcs m)) = Some f" using funs by blast
    show ?thesis unfolding ws by (cases "f (real_session sess) typ pin n s") (simp add: wrap_C_Login_def forward_session_def m(2) f)
  qed
qed

text \<open>The answer of a login: with nobody to ask it is the one of the module; otherwise it is the one for the last PIN of the rounds,
  which is given to the prompt, and a wrong PIN is reported only when the user dismissed the prompt.\<close>

definition login_answer ::
    "('p, 's wrap_state) Prompts \<Rightarrow> CK_ULONG \<Rightarrow> (bytes option \<times> CK_ULONG \<Rightarrow> (unit, 's) wrap_call) \<Rightarrow> 'p option \<Rightarrow> bytes option \<times> CK_ULONG \<Rightarrow> 's wrap_state
     \<Rightarrow> CK_RV \<Rightarrow> 's wrap_state \<Rightarrow> bool" where
  "login_answer pr typ call prompt pin w0 rv w' \<longleftrightarrow> (case prompt of
     None \<Rightarrow> call pin w0 = Some (rv, (), w')
   | Some p \<Rightarrow> \<exists>k p1 pin1 w1 w2. asked (do_login pr typ) call k (p, pin, w0) = Some (p1, pin1, w1) \<and> call pin1 w1 = Some (rv, (), w2)
       \<and> (if rv \<noteq> CKR_PIN_INCORRECT then w' = done_login pr typ rv (p1, w2)
          else \<exists>pin2 p2 w3. do_login pr typ rv pin1 (p1, w2) = (False, pin2, p2, w3) \<and> w' = done_login pr typ rv (p2, w3)))"

text \<open>C24: A login through prompts, for every handle in every run, with modules that have a \<^verbatim>\<open>C_Login\<close> and prompts that only call the
  layer. It fails to return exactly when there is a prompt and the user enters, without end, one wrong PIN after the other. If it returns, the
  layer is in a state of a run with the same mappings, and the answer is the one for the last PIN: not a wrong PIN, unless there
  is nobody to ask or the user dismissed the prompt.\<close>

theorem auth_C_Login_returns:
  assumes run: "wrap_run visit (st, s)" and pr: "login_prompts visit pr"
    and funs: "\<And>m. m \<in> set (mappings_of st) \<Longrightarrow> C_Login (m_list (funcs m)) \<noteq> None"
    and prompt: "for_login pr typ h (lookup_session_specific h st) pin n (st, s) = (prompt, w0)"
  shows "if \<exists>p. prompt = Some p \<and> (\<forall>k. asked (do_login pr typ) (\<lambda>(pin, n). wrap_C_Login h typ pin n) k (p, (pin, n), w0) \<noteq> None)
    then auth_C_Login pr h typ pin n (st, s) = None
    else \<exists>rv w'. auth_C_Login pr h typ pin n (st, s) = Some (rv, (), w') \<and> wrap_run visit w' \<and> mappings_of (fst w') = mappings_of st
      \<and> login_answer pr typ (\<lambda>(pin, n). wrap_C_Login h typ pin n) prompt (pin, n) w0 rv w'"
proof -
  let ?good = "\<lambda>w. wrap_run visit w \<and> mappings_of (fst w) = mappings_of st"
  let ?ask = "do_login pr typ" and ?call = "\<lambda>(pin, n). wrap_C_Login h typ pin n"
  note keeps = login_promptsD [OF pr, where maps = "mappings_of st"]
  have start: "?good w0" using keeps(1) [OF _ prompt] run by simp
  have total: "\<exists>rv s'. ?call pin' w = Some (rv, (), fst w, s')" if "?good w" for pin' w
    using wrap_C_Login_total [OF that funs] by (cases pin') simp
  have called: "?good w1" if "?good w" "?call pin' w = Some (rv, u, w1)" for pin' w rv u w1
  proof -
    from total [OF that(1), of pin'] that(2) obtain s' where "w1 = (fst w, s')" by auto
    with that(1) show ?thesis using wrap_run.call [of visit "fst w" "snd w" s'] by simp
  qed
  have auth: "auth_C_Login pr h typ pin n (st, s) = do { (rv, prompt1, w1) \<leftarrow> login_loop ?ask ?call prompt (pin, n) w0;
      Some (rv, (), case prompt1 of None \<Rightarrow> w1 | Some p \<Rightarrow> done_login pr typ rv (p, w1)) }"
    unfolding auth_C_Login_def prod.case prompt by simp
  show ?thesis
  proof (cases prompt)
    case None
    from total [OF start, of "(pin, n)"] obtain rv s' where c: "?call (pin, n) w0 = Some (rv, (), fst w0, s')" by blast
    then have "auth_C_Login pr h typ pin n (st, s) = Some (rv, (), fst w0, s')" unfolding auth None by (subst login_loop.simps) simp
    moreover have "?good (fst w0, s')" using called [OF start c] .
    ultimately show ?thesis using c None by (simp add: login_answer_def)
  next
    case (Some p)
    show ?thesis
    proof (cases "\<forall>k. asked ?ask ?call k (p, (pin, n), w0) \<noteq> None")
      case True
      then have "login_loop ?ask ?call (Some p) (pin, n) w0 = None" by (intro login_loop_endless) blast
      with True show ?thesis unfolding auth Some by simp
    next
      case False
      then obtain k p1 pin1 w1 where k: "asked ?ask ?call k (p, (pin, n), w0) = Some (p1, pin1, w1)" "wrong_pin ?ask ?call (p1, pin1, w1) = None"
        using asked_last by (metis prod_cases3)
      have g1: "?good w1" by (rule asked_keeps [where good = ?good, OF called keeps(2) start k(1)])
      from total [OF g1, of pin1] obtain rv s' where c: "?call pin1 w1 = Some (rv, (), fst w1, s')" by blast
      have g2: "?good (fst w1, s')" using called [OF g1 c] .
      obtain ok pin2 p2 w3 where a: "?ask rv pin1 (p1, (fst w1, s')) = (ok, pin2, p2, w3)" by (cases "?ask rv pin1 (p1, (fst w1, s'))")
      have g3: "?good w3" using keeps(2) [OF g2 a] .
      define w' where "w' = (if rv \<noteq> CKR_PIN_INCORRECT then done_login pr typ rv (p1, (fst w1, s')) else done_login pr typ rv (p2, w3))"
      have dismissed: "rv = CKR_PIN_INCORRECT \<Longrightarrow> \<not> ok" using k(2) c a by (auto simp: wrong_pin_def split: if_split_asm)
      then have loop: "login_loop ?ask ?call (Some p1) pin1 w1 = Some (if rv \<noteq> CKR_PIN_INCORRECT then (rv, Some p1, fst w1, s') else (rv, Some p2, w3))"
        using c a unfolding login_loop.simps [of ?ask ?call "Some p1"] by fastforce
      have end_round: "if rv \<noteq> CKR_PIN_INCORRECT then w' = done_login pr typ rv (p1, (fst w1, s'))
          else \<exists>pin2 p2 w3. ?ask rv pin1 (p1, (fst w1, s')) = (False, pin2, p2, w3) \<and> w' = done_login pr typ rv (p2, w3)"
        using dismissed a by (cases "rv = CKR_PIN_INCORRECT") (simp_all add: w'_def)
      have ans: "login_answer pr typ ?call prompt (pin, n) w0 rv w'"
        unfolding login_answer_def Some option.case by (intro exI conjI, rule k(1), rule c, rule end_round)
      have "auth_C_Login pr h typ pin n (st, s) = Some (rv, (), w')"
        using loop login_loop_asked [OF k(1)] unfolding auth Some w'_def by simp
      moreover note ans
      moreover have "?good w'" using keeps(3) [OF g2] keeps(3) [OF g3] by (simp add: w'_def)
      ultimately show ?thesis using False Some by auto
    qed
  qed
qed

theorem auth_C_Login_returns_witness:
  "\<exists>rv w'. auth_C_Login sample_prompts 17 1 (Some []) 0 (sample_wrap1, 2) = Some (rv, (), w') \<and> wrap_run id w'"
proof -
  have pr: "login_prompts id sample_prompts" by (auto simp: login_prompts_def sample_prompts_def)
  have funs: "C_Login (m_list (funcs m)) \<noteq> None" if "m \<in> set (mappings_of sample_wrap1)" for m
    using that by (simp add: sample_defs)
  have p: "for_login sample_prompts 1 17 (lookup_session_specific 17 sample_wrap1) (Some []) 0 (sample_wrap1, 2) = (Some 2, (sample_wrap1, 2))"
    by (simp add: sample_prompts_def)
  have l: "wrap_C_Login 17 1 pin n (sample_wrap1, s) = Some (if pin = Some [1, 2] then CKR_OK else CKR_PIN_INCORRECT, (), sample_wrap1, s + 1)" for pin n s
    by (simp add: wrap_C_Login_def forward_session_def sample_session_maps) (simp add: sample_map_def wrap_sample_def)
  have d: "do_login sample_prompts 1 rv pin (p, w) = (p > 0, (Some [1, 2], 2), p - 1, w)" for rv pin p w by (simp add: sample_prompts_def)
  have "\<exists>k. asked (do_login sample_prompts 1) (\<lambda>(pin, n). wrap_C_Login 17 1 pin n) k (2, (Some [], 0), (sample_wrap1, 2)) = None"
    by (rule exI [of _ "Suc (Suc 0)"]) (simp add: wrong_pin_def l d CKR_OK_def CKR_PIN_INCORRECT_def)
  with auth_C_Login_returns [OF wrap_sample_run1 [of id] pr funs p] show ?thesis by (metis option.inject)
qed

end
