(* ===== verification/SecretFields.thy ===== *)
theory SecretFields
  imports EggHex RpcProto "HOL-Library.AList" "HOL-Library.List_Lexorder"
begin

text \<open>
  The fields of a secret item, \<^verbatim>\<open>pkcs11/secret-store/gkm-secret-fields.c\<close>, and the types of items,
  \<^verbatim>\<open>gkm-secret-compat.c\<close>.

  Fields are a hash table from names to values, here an association list; strings are the bytes before the NUL, and \<open>None\<close>
  is \<^verbatim>\<open>NULL\<close>. Where the order in which GLib walks a table matters it is a parameter \<open>visit\<close>. \<open>None\<close> as the result of a
  function is a failed assertion or an access through \<^verbatim>\<open>NULL\<close>; \<^verbatim>\<open>g_return_if_fail\<close> returns. MD5 and the check for UTF-8 are
  the parameters \<open>md5\<close> and \<open>utf8\<close>.
\<close>

section \<open>Numbers as strings\<close>

text \<open>\<^verbatim>\<open>strtoul\<close> with base 10, in the C locale: the value and the rest of the string.\<close>

definition c_space :: "byte \<Rightarrow> bool" where
  "c_space c \<longleftrightarrow> 9 \<le> c \<and> c \<le> 13 \<or> c = 32"

definition c_digit :: "byte \<Rightarrow> bool" where
  "c_digit c \<longleftrightarrow> 48 \<le> c \<and> c \<le> 57"

definition digits_value :: "bytes \<Rightarrow> nat" where
  "digits_value ds = foldl (\<lambda>v c. 10 * v + (unat c - 48)) 0 ds"

definition strtoul :: "bytes \<Rightarrow> 64 word \<times> bytes" where
  "strtoul s =
     (let t = dropWhile c_space s;
          u = (if t \<noteq> [] \<and> (hd t = 45 \<or> hd t = 43) then tl t else t);
          ds = takeWhile c_digit u
      in if ds = [] then (0, s)
         else (if 2 ^ 64 \<le> digits_value ds then 0xffffffffffffffff
               else if t \<noteq> [] \<and> hd t = 45 then - of_nat (digits_value ds) else of_nat (digits_value ds),
               dropWhile c_digit u))"

text \<open>\<^verbatim>\<open>%u\<close>\<close>

fun print_decimal :: "nat \<Rightarrow> bytes" where
  "print_decimal n = (if n < 10 then [of_nat (n + 48)] else print_decimal (n div 10) @ [of_nat (n mod 10 + 48)])"

declare print_decimal.simps [simp del]

section \<open>The model\<close>

definition CKR_ATTRIBUTE_VALUE_INVALID :: CK_RV where "CKR_ATTRIBUTE_VALUE_INVALID = 0x13"

type_synonym fields = "(bytes \<times> bytes option) list"

definition begins_with :: "bytes \<Rightarrow> bytes \<Rightarrow> bool" where
  "begins_with s prefix \<longleftrightarrow> take (length prefix) s = prefix"

definition is_compat_name :: "bytes \<Rightarrow> bool" where
  "is_compat_name name \<longleftrightarrow> begins_with name (ascii ''gkr:compat:'')"

definition make_compat_hashed_name :: "bytes \<Rightarrow> bytes option" where
  "make_compat_hashed_name name = (if is_compat_name name then None else Some (ascii ''gkr:compat:hashed:'' @ name))"

definition make_compat_uint32_name :: "bytes \<Rightarrow> bytes option" where
  "make_compat_uint32_name name = (if is_compat_name name then None else Some (ascii ''gkr:compat:uint32:'' @ name))"

definition string_ptr_equal :: "bytes option \<Rightarrow> bytes option \<Rightarrow> bool" where
  "string_ptr_equal one two =
     (case (one, two) of (Some x, Some y) \<Rightarrow> x = y | (None, None) \<Rightarrow> True | _ \<Rightarrow> False)"

definition parse_uint32 :: "bytes option \<Rightarrow> (bool \<times> 32 word) option" where
  "parse_uint32 value =
     (case value of
        None \<Rightarrow> None
      | Some s \<Rightarrow> (case strtoul s of (v, rest) \<Rightarrow> Some (rest = [], ucast v)))"

definition format_uint32 :: "32 word \<Rightarrow> bytes" where
  "format_uint32 value = print_decimal (unat value)"

definition compat_hash_value_as_uint32 :: "bytes option \<Rightarrow> 32 word option" where
  "compat_hash_value_as_uint32 value =
     (case parse_uint32 value of
        Some (True, x) \<Rightarrow> Some (0x18273645 XOR x XOR (push_bit 16 x OR drop_bit 16 x))
      | _ \<Rightarrow> None)"

definition compat_hash_value_as_string :: "(bytes \<Rightarrow> bytes) \<Rightarrow> bytes option \<Rightarrow> bytes option" where
  "compat_hash_value_as_string md5 value = map_option (\<lambda>s. egg_hex_encode_full (md5 s) False 0 0) value"

definition gkm_secret_fields_new :: fields where
  "gkm_secret_fields_new = []"

text \<open>\<^verbatim>\<open>g_hash_table_lookup\<close>: a missing key and a value of \<^verbatim>\<open>NULL\<close> give \<^verbatim>\<open>NULL\<close>.\<close>

definition field_value :: "fields \<Rightarrow> bytes \<Rightarrow> bytes option" where
  "field_value tab name = (case map_of tab name of None \<Rightarrow> None | Some v \<Rightarrow> v)"

subsection \<open>The attribute of a client\<close>

text \<open>The loop over names and values: \<open>rest\<close> is what is between \<^verbatim>\<open>ptr\<close> and \<^verbatim>\<open>last\<close>.\<close>

function fields_parse_loop :: "(bytes \<Rightarrow> bool) \<Rightarrow> bytes \<Rightarrow> fields \<Rightarrow> fields option" where
  "fields_parse_loop utf8 rest result =
     (if rest = [] then Some result
      else if 0 \<notin> set rest then None
      else let name = takeWhile (\<lambda>c. c \<noteq> 0) rest; rest1 = tl (dropWhile (\<lambda>c. c \<noteq> 0) rest) in
        if 0 \<notin> set rest1 then None
        else let val = takeWhile (\<lambda>c. c \<noteq> 0) rest1; rest2 = tl (dropWhile (\<lambda>c. c \<noteq> 0) rest1) in
          if \<not> utf8 name \<or> \<not> utf8 val then None
          else fields_parse_loop utf8 rest2 (AList.update name (Some val) result))"
  by pat_completeness auto

termination
proof (relation "measure (\<lambda>(utf8, rest, result). length rest)")
  fix utf8 :: "bytes \<Rightarrow> bool" and rest result name rest1 val rest2
  assume a: "rest \<noteq> ([] :: bytes)" "rest1 = tl (dropWhile (\<lambda>c. c \<noteq> 0) rest)" "rest2 = tl (dropWhile (\<lambda>c. c \<noteq> 0) rest1)"
  have le: "length (dropWhile (\<lambda>c. c \<noteq> 0) xs) \<le> length xs" for xs :: bytes by (rule length_dropWhile_le)
  have "length rest1 < length rest" using a(1,2) le [of rest] by (cases "dropWhile (\<lambda>c. c \<noteq> 0) rest") auto
  moreover have "length rest2 \<le> length rest1" using a(3) le [of rest1] by simp
  ultimately show "((utf8, rest2, AList.update name (Some val) result), (utf8, rest, result)) \<in> measure (\<lambda>(utf8, rest, result). length rest)" by simp
qed auto

declare fields_parse_loop.simps [simp del]

definition gkm_secret_fields_parse :: "(bytes \<Rightarrow> bool) \<Rightarrow> CK_ATTRIBUTE \<Rightarrow> (CK_RV \<times> fields option) option" where
  "gkm_secret_fields_parse utf8 attr =
     (case pValue attr of
        None \<Rightarrow> Some (if ulValueLen attr \<noteq> 0 then (CKR_ATTRIBUTE_VALUE_INVALID, None) else (CKR_OK, Some gkm_secret_fields_new))
      | Some p \<Rightarrow> do {
          data \<leftarrow> mem_read p 0 (unat (ulValueLen attr));
          Some (case fields_parse_loop utf8 data gkm_secret_fields_new of
                  None \<Rightarrow> (CKR_ATTRIBUTE_VALUE_INVALID, None)
                | Some result \<Rightarrow> (CKR_OK, Some result))
        })"

definition each_field_append :: "bytes \<times> bytes option \<Rightarrow> bytes" where
  "each_field_append = (\<lambda>(key, val). key @ [0] @ (case val of None \<Rightarrow> [] | Some v \<Rightarrow> v) @ [0])"

definition each_field_length :: "bytes \<times> bytes option \<Rightarrow> nat option" where
  "each_field_length = (\<lambda>(key, val). map_option (\<lambda>v. length key + length v + 2) val)"

fun fields_length :: "fields \<Rightarrow> nat option" where
  "fields_length [] = Some 0"
| "fields_length (e # es) = do { a \<leftarrow> each_field_length e; b \<leftarrow> fields_length es; Some (a + b) }"

text \<open>\<^verbatim>\<open>gkm_util_return_data\<close> and \<^verbatim>\<open>gkm_attribute_set_data\<close>; \<open>value\<close> is not \<^verbatim>\<open>NULL\<close>.\<close>

definition gkm_util_return_data :: "bytes option \<Rightarrow> CK_ULONG \<Rightarrow> bytes \<Rightarrow> (CK_RV \<times> bytes option \<times> CK_ULONG) option" where
  "gkm_util_return_data out n val =
     (case out of
        None \<Rightarrow> Some (CKR_OK, None, of_nat (length val))
      | Some m \<Rightarrow>
          if length val > unat n then Some (CKR_BUFFER_TOO_SMALL, out, of_nat (length val))
          else do { m1 \<leftarrow> mem_write m 0 val; Some (CKR_OK, Some m1, of_nat (length val)) })"

definition gkm_attribute_set_data :: "CK_ATTRIBUTE \<Rightarrow> bytes \<Rightarrow> (CK_RV \<times> CK_ATTRIBUTE) option" where
  "gkm_attribute_set_data attr val = do {
     (rv, p, n) \<leftarrow> gkm_util_return_data (pValue attr) (ulValueLen attr) val;
     Some (rv, attr\<lparr>pValue := p, ulValueLen := (if rv = CKR_BUFFER_TOO_SMALL then -1 else n)\<rparr>)
   }"

definition gkm_secret_fields_serialize :: "(fields \<Rightarrow> fields) \<Rightarrow> CK_ATTRIBUTE \<Rightarrow> fields \<Rightarrow> (CK_RV \<times> CK_ATTRIBUTE) option" where
  "gkm_secret_fields_serialize visit attr tab =
     (case pValue attr of
        None \<Rightarrow> do { n \<leftarrow> fields_length (visit tab); Some (CKR_OK, attr\<lparr>ulValueLen := of_nat n\<rparr>) }
      | Some _ \<Rightarrow> gkm_attribute_set_data attr (concat (map each_field_append (visit tab))))"

subsection \<open>Access\<close>

definition gkm_secret_fields_take :: "fields \<Rightarrow> bytes option \<Rightarrow> bytes option \<Rightarrow> fields" where
  "gkm_secret_fields_take tab name val =
     (case name of
        None \<Rightarrow> tab
      | Some n \<Rightarrow> AList.update n (Some (case val of None \<Rightarrow> [] | Some v \<Rightarrow> v)) tab)"

definition gkm_secret_fields_add :: "fields \<Rightarrow> bytes option \<Rightarrow> bytes option \<Rightarrow> fields" where
  "gkm_secret_fields_add tab name val = (case name of None \<Rightarrow> tab | Some _ \<Rightarrow> gkm_secret_fields_take tab name val)"

definition gkm_secret_fields_get :: "fields \<Rightarrow> bytes \<Rightarrow> bytes option" where
  "gkm_secret_fields_get tab name = (if is_compat_name name then None else field_value tab name)"

text \<open>The last loop of \<^verbatim>\<open>gkm_secret_fields_get_names\<close> over the sorted names; equal names stand together.\<close>

fun names_loop :: "bytes option \<Rightarrow> bytes list \<Rightarrow> bytes list" where
  "names_loop prev [] = []"
| "names_loop prev (k # ks) =
     (if is_compat_name k \<or> string_ptr_equal prev (Some k) then names_loop prev ks else k # names_loop (Some k) ks)"

definition gkm_secret_fields_get_names :: "fields \<Rightarrow> bytes list" where
  "gkm_secret_fields_get_names tab =
     (let prefix = ascii ''gkr:compat:hashed:'';
          keys = map (\<lambda>k. if begins_with k prefix then drop (length prefix) k else k) (map fst tab)
      in names_loop None (sort keys))"

subsection \<open>Compatibility attributes\<close>

definition gkm_secret_fields_add_compat_uint32 :: "fields \<Rightarrow> bytes option \<Rightarrow> 32 word \<Rightarrow> fields option" where
  "gkm_secret_fields_add_compat_uint32 tab name val =
     (case name of
        None \<Rightarrow> Some tab
      | Some n \<Rightarrow>
          if is_compat_name n then Some tab
          else do {
            other \<leftarrow> make_compat_uint32_name n;
            Some (AList.update other (Some []) (AList.update n (Some (format_uint32 val)) tab))
          })"

text \<open>The number that is found, if one is: \<open>Some None\<close> is \<^verbatim>\<open>FALSE\<close>.\<close>

definition gkm_secret_fields_get_compat_uint32 :: "fields \<Rightarrow> bytes \<Rightarrow> 32 word option option" where
  "gkm_secret_fields_get_compat_uint32 tab name =
     (if is_compat_name name then Some None
      else do {
        other \<leftarrow> make_compat_uint32_name name;
        if field_value tab other = None then Some None
        else do { (ok, x) \<leftarrow> parse_uint32 (field_value tab name); Some (if ok then Some x else None) }
      })"

definition gkm_secret_fields_add_compat_hashed_string :: "fields \<Rightarrow> bytes option \<Rightarrow> bytes option \<Rightarrow> fields option" where
  "gkm_secret_fields_add_compat_hashed_string tab name val =
     (case name of
        None \<Rightarrow> Some tab
      | Some n \<Rightarrow>
          if is_compat_name n then Some tab
          else do { other \<leftarrow> make_compat_hashed_name n; Some (AList.update other val tab) })"

definition gkm_secret_fields_get_compat_hashed_string ::
    "(bytes \<Rightarrow> bytes) \<Rightarrow> fields \<Rightarrow> bytes \<Rightarrow> bytes option option option" where
  "gkm_secret_fields_get_compat_hashed_string md5 tab name =
     (if is_compat_name name then Some None
      else case map_of tab name of
        Some val \<Rightarrow> Some (Some (compat_hash_value_as_string md5 val))
      | None \<Rightarrow> do { other \<leftarrow> make_compat_hashed_name name; Some (map_of tab other) })"

definition gkm_secret_fields_add_compat_hashed_uint32 :: "fields \<Rightarrow> bytes option \<Rightarrow> 32 word \<Rightarrow> fields option" where
  "gkm_secret_fields_add_compat_hashed_uint32 tab name val =
     (case name of
        None \<Rightarrow> Some tab
      | Some n \<Rightarrow>
          if is_compat_name n then Some tab
          else do {
            hashed \<leftarrow> make_compat_hashed_name n;
            other \<leftarrow> make_compat_uint32_name n;
            Some (AList.update other (Some n) (AList.update hashed (Some (format_uint32 val)) tab))
          })"

definition gkm_secret_fields_get_compat_hashed_uint32 :: "fields \<Rightarrow> bytes \<Rightarrow> 32 word option option" where
  "gkm_secret_fields_get_compat_hashed_uint32 tab name =
     (if is_compat_name name then Some None
      else do {
        other \<leftarrow> make_compat_uint32_name name;
        case (if map_of tab other \<noteq> None then compat_hash_value_as_uint32 (field_value tab name) else None) of
          Some x \<Rightarrow> Some (Some x)
        | None \<Rightarrow> do {
            hashed \<leftarrow> make_compat_hashed_name name;
            case map_of tab hashed of
              None \<Rightarrow> Some None
            | Some val \<Rightarrow> do { (ok, x) \<leftarrow> parse_uint32 val; Some (if ok then Some x else None) }
          }
      })"

subsection \<open>Matching\<close>

definition field_matches :: "(bytes \<Rightarrow> bytes) \<Rightarrow> fields \<Rightarrow> bytes \<Rightarrow> bytes \<Rightarrow> bool option" where
  "field_matches md5 haystack key val =
     (if is_compat_name key then Some True
      else case map_of haystack key of
        Some hay \<Rightarrow> Some (string_ptr_equal hay (Some val))
      | None \<Rightarrow> do {
          hashed_key \<leftarrow> make_compat_hashed_name key;
          case map_of haystack hashed_key of
            None \<Rightarrow> Some False
          | Some hay \<Rightarrow> do {
              other_key \<leftarrow> make_compat_uint32_name key;
              let hashed = (if field_value haystack other_key \<noteq> None
                            then map_option format_uint32 (compat_hash_value_as_uint32 (Some val))
                            else compat_hash_value_as_string md5 (Some val));
              Some (string_ptr_equal hay hashed)
            }
        })"

fun match_loop :: "(bytes \<Rightarrow> bytes) \<Rightarrow> fields \<Rightarrow> fields \<Rightarrow> bool option" where
  "match_loop md5 haystack [] = Some True"
| "match_loop md5 haystack ((key, val) # es) = do {
     v \<leftarrow> val;
     ok \<leftarrow> field_matches md5 haystack key v;
     if \<not> ok then Some False else match_loop md5 haystack es
   }"

definition gkm_secret_fields_match :: "(bytes \<Rightarrow> bytes) \<Rightarrow> (fields \<Rightarrow> fields) \<Rightarrow> fields \<Rightarrow> fields \<Rightarrow> bool option" where
  "gkm_secret_fields_match md5 visit haystack needle = match_loop md5 haystack (visit needle)"

section \<open>Types of items\<close>

definition gkm_secret_compat_parse_item_type :: "bytes option \<Rightarrow> 32 word" where
  "gkm_secret_compat_parse_item_type val =
     (if val = Some (ascii ''org.freedesktop.Secret.Generic'') then 0
      else if val = Some (ascii ''org.mate.keyring.NetworkPassword'') then 1
      else if val = Some (ascii ''org.mate.keyring.Note'') then 2
      else if val = Some (ascii ''org.mate.keyring.ChainedKeyring'') then 3
      else if val = Some (ascii ''org.mate.keyring.EncryptionKey'') then 4
      else if val = Some (ascii ''org.mate.keyring.PkStorage'') then 0x100
      else 0)"

definition gkm_secret_compat_format_item_type :: "32 word \<Rightarrow> bytes option" where
  "gkm_secret_compat_format_item_type val =
     (let t = val AND 0x0000ffff in
      if t = 0 then Some (ascii ''org.freedesktop.Secret.Generic'')
      else if t = 1 then Some (ascii ''org.mate.keyring.NetworkPassword'')
      else if t = 2 then Some (ascii ''org.mate.keyring.Note'')
      else if t = 3 then Some (ascii ''org.mate.keyring.ChainedKeyring'')
      else if t = 4 then Some (ascii ''org.mate.keyring.EncryptionKey'')
      else if t = 0x100 then Some (ascii ''org.mate.keyring.PkStorage'')
      else None)"

end
