(* ===== verification/SecretBinary.thy ===== *)
theory SecretBinary
  imports SecretFields EggCodec
begin

text \<open>
  The encrypted file of a keyring, \<^verbatim>\<open>pkcs11/secret-store/gkm-secret-binary.c\<close>, with the parts of \<^verbatim>\<open>gkm-secret-collection.c\<close>,
  \<^verbatim>\<open>gkm-secret-data.c\<close> and \<^verbatim>\<open>gkm-secret.c\<close> that it uses, and the derivation of its key, \<^verbatim>\<open>egg_symkey_generate_simple\<close>.

  A collection is its label, times and timeouts with a table of items; the secrets are in a separate object that exists while
  the collection is unlocked. A file is read and written with the buffers of \<open>EggBuffer\<close>, on memory of \<^verbatim>\<open>g_realloc\<close> and of the secure
  allocator. Of libgcrypt the record \<open>Env\<close> has the functions that are used: MD5, SHA-256 and AES with a block of 16
  bytes, whose chaining (CBC) is written out. \<open>None\<close> as a result is a fault or a loop without end.
\<close>

section \<open>Data\<close>

record Env =
  utf8 :: "bytes \<Rightarrow> bool"
  md5 :: "bytes \<Rightarrow> bytes"
  sha256 :: "bytes \<Rightarrow> bytes"
  aes_encrypt :: "bytes \<Rightarrow> bytes \<Rightarrow> bytes"
  aes_decrypt :: "bytes \<Rightarrow> bytes \<Rightarrow> bytes"
  md_open :: bool
  cipher_open :: bool

datatype GkmDataResult = GKM_DATA_FAILURE | GKM_DATA_LOCKED | GKM_DATA_UNRECOGNIZED | GKM_DATA_SUCCESS

text \<open>A \<^verbatim>\<open>GkmSecret\<close> is its memory, which may be \<^verbatim>\<open>NULL\<close>.\<close>

type_synonym GkmSecret = "bytes option"

record GkmSecretData =
  secrets :: "(bytes \<times> GkmSecret) list"
  master :: "GkmSecret option"

record GkmSecretAccess =
  ac_display_name :: "bytes option"
  ac_pathname :: "bytes option"
  types_allowed :: "32 word"

text \<open>\<open>item_fields\<close>: a missing table and an empty one are the same, since \<^verbatim>\<open>gkm_secret_item_get_fields\<close> makes one.\<close>

record GkmSecretItem =
  item_identifier :: bytes
  item_label :: "bytes option"
  item_created :: "64 word"
  item_modified :: "64 word"
  item_schema :: "bytes option"
  item_fields :: fields
  compat_acl :: "GkmSecretAccess list"

record GkmSecretCollection =
  coll_label :: "bytes option"
  coll_created :: "64 word"
  coll_modified :: "64 word"
  destruct_idle :: "64 word option"
  destruct_after :: "64 word option"
  items :: "(bytes \<times> GkmSecretItem) list"
  watermark :: "32 word"

text \<open>\<open>attributes_freed\<close> says that \<^verbatim>\<open>attributes\<close> points to a table that was released.\<close>

record ItemInfo =
  info_id :: "32 word"
  info_identifier :: bytes
  info_type :: "32 word"
  info_display_name :: "bytes option"
  info_secret :: "bytes option"
  info_ctime :: "64 word"
  info_mtime :: "64 word"
  info_attributes :: "fields option"
  info_acl :: "GkmSecretAccess list"
  attributes_freed :: bool

definition LOCK_ON_IDLE_FLAG :: "32 word" where "LOCK_ON_IDLE_FLAG = 1"
definition LOCK_AFTER_FLAG :: "32 word" where "LOCK_AFTER_FLAG = 2"

definition KEYRING_FILE_HEADER :: bytes where
  "KEYRING_FILE_HEADER = ascii ''MateKeyring'' @ [10, 13, 0, 10]"

section \<open>Collections and secrets\<close>

definition gkm_secret_collection_get_items ::
    "((bytes \<times> GkmSecretItem) list \<Rightarrow> (bytes \<times> GkmSecretItem) list) \<Rightarrow> GkmSecretCollection \<Rightarrow> GkmSecretItem list" where
  "gkm_secret_collection_get_items visit self = rev (map snd (visit (items self)))"

definition gkm_secret_collection_get_item :: "GkmSecretCollection \<Rightarrow> bytes \<Rightarrow> GkmSecretItem option" where
  "gkm_secret_collection_get_item self identifier = map_of (items self) identifier"

definition add_item :: "GkmSecretItem \<Rightarrow> GkmSecretCollection \<Rightarrow> GkmSecretCollection" where
  "add_item item self =
     (let number = ucast (fst (strtoul (item_identifier item))) :: 32 word in
      self\<lparr>watermark := (if number > watermark self then number else watermark self),
           items := AList.update (item_identifier item) item (items self)\<rparr>)"

definition new_item :: "bytes \<Rightarrow> GkmSecretItem" where
  "new_item identifier = \<lparr>item_identifier = identifier, item_label = Some [], item_created = 0, item_modified = 0,
     item_schema = None, item_fields = [], compat_acl = []\<rparr>"

definition gkm_secret_collection_new_item :: "bytes \<Rightarrow> GkmSecretCollection \<Rightarrow> GkmSecretCollection" where
  "gkm_secret_collection_new_item identifier self =
     (if map_of (items self) identifier \<noteq> None then self else add_item (new_item identifier) self)"

definition remove_item :: "bytes \<Rightarrow> GkmSecretCollection \<Rightarrow> GkmSecretCollection" where
  "remove_item identifier self = self\<lparr>items := AList.delete identifier (items self)\<rparr>"

definition gkm_secret_collection_get_lock_idle :: "GkmSecretCollection \<Rightarrow> 32 word" where
  "gkm_secret_collection_get_lock_idle self = (case destruct_idle self of None \<Rightarrow> 0 | Some v \<Rightarrow> ucast v)"

definition gkm_secret_collection_set_lock_idle :: "32 word \<Rightarrow> GkmSecretCollection \<Rightarrow> GkmSecretCollection" where
  "gkm_secret_collection_set_lock_idle timeout self =
     self\<lparr>destruct_idle := Some (if sint timeout < 0 then 0 else scast timeout)\<rparr>"

definition gkm_secret_collection_get_lock_after :: "GkmSecretCollection \<Rightarrow> 32 word" where
  "gkm_secret_collection_get_lock_after self = (case destruct_after self of None \<Rightarrow> 0 | Some v \<Rightarrow> ucast v)"

definition gkm_secret_collection_set_lock_after :: "32 word \<Rightarrow> GkmSecretCollection \<Rightarrow> GkmSecretCollection" where
  "gkm_secret_collection_set_lock_after timeout self =
     self\<lparr>destruct_after := Some (if sint timeout < 0 then 0 else scast timeout)\<rparr>"

definition gkm_secret_data_get_secret :: "GkmSecretData \<Rightarrow> bytes \<Rightarrow> GkmSecret option" where
  "gkm_secret_data_get_secret self identifier = map_of (secrets self) identifier"

definition gkm_secret_data_set_secret :: "bytes \<Rightarrow> GkmSecret \<Rightarrow> GkmSecretData \<Rightarrow> GkmSecretData" where
  "gkm_secret_data_set_secret identifier secret self = self\<lparr>secrets := AList.update identifier secret (secrets self)\<rparr>"

text \<open>\<^verbatim>\<open>gkm_secret_new\<close> with a length: the memory is not checked before the bytes are copied to it.\<close>

definition gkm_secret_new :: "heap \<Rightarrow> bytes option \<Rightarrow> GkmSecret option" where
  "gkm_secret_new h data =
     (case data of
        None \<Rightarrow> Some None
      | Some d \<Rightarrow>
          (case h Egg_secure_realloc None (length d + 1) of
             None \<Rightarrow> if d = [] then Some None else None
           | Some m \<Rightarrow> do { m1 \<leftarrow> mem_write m 0 d; Some (Some (take (length d) m1)) }))"

section \<open>The derivation of the key\<close>

text \<open>
  The passes of \<^verbatim>\<open>egg_symkey_generate_simple\<close>: \<open>n_digest\<close> bytes are made at a time until the key of \<open>needed_key\<close> bytes and the
  initialisation vector of \<open>needed_iv\<close> bytes are full.
\<close>

function symkey_passes :: "(bytes \<Rightarrow> bytes) \<Rightarrow> nat \<Rightarrow> bytes \<Rightarrow> nat \<Rightarrow> bytes \<Rightarrow> nat \<Rightarrow> nat \<Rightarrow> bytes \<times> bytes" where
  "symkey_passes md n_digest input iterations previous needed_key needed_iv =
     (let digest = (md ^^ (iterations - 1)) (md (previous @ input));
          n_key = min needed_key n_digest; n_iv = min needed_iv (n_digest - n_key);
          k = take n_key digest; v = take n_iv (drop n_key digest)
      in if needed_key = n_key \<and> needed_iv = n_iv \<or> n_digest = 0 then (k, v)
         else case symkey_passes md n_digest input iterations digest (needed_key - n_key) (needed_iv - n_iv) of
                (k1, v1) \<Rightarrow> (k @ k1, v @ v1))"
  by pat_completeness auto

termination
  by (relation "measure (\<lambda>(md, n_digest, input, iterations, previous, needed_key, needed_iv). needed_key + needed_iv)")
    (auto simp: min_def split: if_splits)

declare symkey_passes.simps [simp del]

text \<open>\<open>Some None\<close> is \<^verbatim>\<open>FALSE\<close>; \<open>key_len\<close> and \<open>iv_len\<close> are what libgcrypt says of the cipher.\<close>

definition egg_symkey_generate_simple ::
    "heap \<Rightarrow> Env \<Rightarrow> nat \<Rightarrow> nat \<Rightarrow> bytes option \<Rightarrow> bytes \<Rightarrow> int \<Rightarrow> (bytes \<times> bytes) option option" where
  "egg_symkey_generate_simple h env key_len iv_len password salt iterations =
     (if iterations < 1 then Some None
      else if \<not> md_open env then Some None
      else if h Egg_secure_realloc None 32 = None \<or> h Egg_secure_realloc None key_len = None then Some None
      else Some (Some (symkey_passes (sha256 env) 32 ((case password of None \<Rightarrow> [] | Some p \<Rightarrow> p) @ salt) (nat iterations) [] key_len iv_len)))"

section \<open>Buffer utility functions\<close>

definition buffer_get_bytes :: "nat \<Rightarrow> bytes getter" where
  "buffer_get_bytes n b off =
     (if eb_len b < n \<or> off > eb_len b - n then Some (None, b)
      else do { bs \<leftarrow> eb_load off n b; Some (Some (bs, off + n), b) })"

definition buffer_add_time :: "heap \<Rightarrow> 64 word \<Rightarrow> EggBuffer \<Rightarrow> (bool \<times> EggBuffer) option" where
  "buffer_add_time h time b = do {
     (ok, b1) \<leftarrow> egg_buffer_add_uint32 h (ucast (drop_bit 32 time AND 0xffffffff)) b;
     if \<not> ok then Some (False, b1) else egg_buffer_add_uint32 h (ucast (time AND 0xffffffff)) b1
   }"

definition buffer_get_time :: "64 word getter" where
  "buffer_get_time b off = do {
     (ra, b1) \<leftarrow> egg_buffer_get_uint32 b off;
     case ra of None \<Rightarrow> Some (None, b1)
     | Some (x, off1) \<Rightarrow> do {
         (rb, b2) \<leftarrow> egg_buffer_get_uint32 b1 off1;
         case rb of None \<Rightarrow> Some (None, b2)
         | Some (y, off2) \<Rightarrow> Some (Some (push_bit 32 (ucast x) OR ucast y, off2), b2)
       }
   }"

definition buffer_add_utf8_string :: "heap \<Rightarrow> Env \<Rightarrow> bytes option \<Rightarrow> EggBuffer \<Rightarrow> (bool \<times> EggBuffer) option" where
  "buffer_add_utf8_string h env str b =
     (case str of
        Some s \<Rightarrow> if \<not> utf8 env s then Some (False, b) else egg_buffer_add_string h str b
      | None \<Rightarrow> egg_buffer_add_string h None b)"

definition buffer_get_utf8_string :: "heap \<Rightarrow> Env \<Rightarrow> bytes option getter" where
  "buffer_get_utf8_string h env b off = do {
     (r, b1) \<leftarrow> egg_buffer_get_string h (Some G_realloc) b off;
     case r of
       Str_ok str off1 \<Rightarrow>
         (case map_option c_str str of
            None \<Rightarrow> Some (Some (None, off1), b1)
          | Some s \<Rightarrow> if \<not> utf8 env s then Some (None, b1) else Some (Some (Some s, off1), b1))
     | _ \<Rightarrow> Some (None, b1)
   }"

definition buffer_add_secret :: "heap \<Rightarrow> GkmSecret option \<Rightarrow> EggBuffer \<Rightarrow> (bool \<times> EggBuffer) option" where
  "buffer_add_secret h secret b = egg_buffer_add_byte_array h (case secret of None \<Rightarrow> None | Some d \<Rightarrow> d) b"

definition buffer_add_attribute :: "heap \<Rightarrow> Env \<Rightarrow> fields \<Rightarrow> bytes \<Rightarrow> EggBuffer \<Rightarrow> EggBuffer option" where
  "buffer_add_attribute h env attributes key b = do {
     (_, b1) \<leftarrow> buffer_add_utf8_string h env (Some key) b;
     r \<leftarrow> gkm_secret_fields_get_compat_uint32 attributes key;
     case r of
       Some number \<Rightarrow> do {
         (_, b2) \<leftarrow> egg_buffer_add_uint32 h 1 b1;
         (_, b3) \<leftarrow> egg_buffer_add_uint32 h number b2;
         Some b3
       }
     | None \<Rightarrow> do {
         (_, b2) \<leftarrow> egg_buffer_add_uint32 h 0 b1;
         (_, b3) \<leftarrow> buffer_add_utf8_string h env (gkm_secret_fields_get attributes key) b2;
         Some b3
       }
   }"

definition buffer_add_hashed_attribute :: "heap \<Rightarrow> Env \<Rightarrow> fields \<Rightarrow> bytes \<Rightarrow> EggBuffer \<Rightarrow> EggBuffer option" where
  "buffer_add_hashed_attribute h env attributes key b = do {
     (_, b1) \<leftarrow> buffer_add_utf8_string h env (Some key) b;
     r \<leftarrow> gkm_secret_fields_get_compat_hashed_uint32 attributes key;
     case r of
       Some number \<Rightarrow> do {
         (_, b2) \<leftarrow> egg_buffer_add_uint32 h 1 b1;
         (_, b3) \<leftarrow> egg_buffer_add_uint32 h number b2;
         Some b3
       }
     | None \<Rightarrow> do {
         v \<leftarrow> gkm_secret_fields_get_compat_hashed_string (md5 env) attributes key;
         case v of
           None \<Rightarrow> Some b1
         | Some val \<Rightarrow> do {
             (_, b2) \<leftarrow> egg_buffer_add_uint32 h 0 b1;
             (_, b3) \<leftarrow> buffer_add_utf8_string h env val b2;
             Some b3
           }
       }
   }"

fun add_attribute_loop :: "(bytes \<Rightarrow> EggBuffer \<Rightarrow> EggBuffer option) \<Rightarrow> bytes list \<Rightarrow> EggBuffer \<Rightarrow> EggBuffer option" where
  "add_attribute_loop add [] b = Some b"
| "add_attribute_loop add (k # ks) b = do { b1 \<leftarrow> add k b; add_attribute_loop add ks b1 }"

definition buffer_add_attributes :: "heap \<Rightarrow> Env \<Rightarrow> bool \<Rightarrow> fields \<Rightarrow> EggBuffer \<Rightarrow> (bool \<times> EggBuffer) option" where
  "buffer_add_attributes h env hashed attributes b = do {
     let names = gkm_secret_fields_get_names attributes;
     (_, b1) \<leftarrow> egg_buffer_add_uint32 h (of_nat (length names)) b;
     b2 \<leftarrow> add_attribute_loop (if hashed then buffer_add_hashed_attribute h env attributes else buffer_add_attribute h env attributes) names b1;
     Some (\<not> egg_buffer_has_error b2, b2)
   }"

fun get_attribute_loop :: "heap \<Rightarrow> Env \<Rightarrow> bool \<Rightarrow> nat \<Rightarrow> fields \<Rightarrow> fields getter" where
  "get_attribute_loop h env hashed 0 attributes b off = Some (Some (attributes, off), b)"
| "get_attribute_loop h env hashed (Suc n) attributes b off = do {
     (rn, b1) \<leftarrow> buffer_get_utf8_string h env b off;
     case rn of None \<Rightarrow> Some (None, b1)
     | Some (name, off1) \<Rightarrow> do {
         (rt, b2) \<leftarrow> egg_buffer_get_uint32 b1 off1;
         case rt of None \<Rightarrow> Some (None, b2)
         | Some (typ, off2) \<Rightarrow>
             if typ = 0 then do {
               (rs, b3) \<leftarrow> buffer_get_utf8_string h env b2 off2;
               case rs of None \<Rightarrow> Some (None, b3)
               | Some (str, off3) \<Rightarrow> do {
                   attributes1 \<leftarrow> (if hashed then gkm_secret_fields_add_compat_hashed_string attributes name str
                                   else Some (gkm_secret_fields_take attributes name str));
                   get_attribute_loop h env hashed n attributes1 b3 off3
                 }
             }
             else if typ = 1 then do {
               (rv, b3) \<leftarrow> egg_buffer_get_uint32 b2 off2;
               case rv of None \<Rightarrow> Some (None, b3)
               | Some (val, off3) \<Rightarrow> do {
                   attributes1 \<leftarrow> (if hashed then gkm_secret_fields_add_compat_hashed_uint32 attributes name val
                                   else gkm_secret_fields_add_compat_uint32 attributes name val);
                   get_attribute_loop h env hashed n attributes1 b3 off3
                 }
             }
             else Some (None, b2)
       }
   }"

definition buffer_get_attributes :: "heap \<Rightarrow> Env \<Rightarrow> bool \<Rightarrow> fields getter" where
  "buffer_get_attributes h env hashed b off = do {
     (r, b1) \<leftarrow> egg_buffer_get_uint32 b off;
     case r of None \<Rightarrow> Some (None, b1)
     | Some (list_size, off1) \<Rightarrow> get_attribute_loop h env hashed (unat list_size) gkm_secret_fields_new b1 off1
   }"

definition convert_to_integer :: "bytes \<Rightarrow> bool \<times> 32 word" where
  "convert_to_integer str = (case strtoul str of (v, rest) \<Rightarrow> (rest = [], ucast v))"

section \<open>The encrypted part\<close>

definition xor_bytes :: "bytes \<Rightarrow> bytes \<Rightarrow> bytes" where
  "xor_bytes xs ys = map (\<lambda>(x, y). x XOR y) (zip xs ys)"

text \<open>The blocks from \<open>pos\<close> on, in place; \<open>chain\<close> is the last block of cipher text.\<close>

fun encrypt_loop :: "(bytes \<Rightarrow> bytes) \<Rightarrow> nat \<Rightarrow> nat \<Rightarrow> bytes \<Rightarrow> EggBuffer \<Rightarrow> EggBuffer option" where
  "encrypt_loop f 0 pos chain b = Some b"
| "encrypt_loop f (Suc n) pos chain b = do {
     block \<leftarrow> eb_load pos 16 b;
     let c = f (xor_bytes block chain);
     b1 \<leftarrow> eb_store pos c b;
     encrypt_loop f n (pos + 16) c b1
   }"

fun decrypt_loop :: "(bytes \<Rightarrow> bytes) \<Rightarrow> nat \<Rightarrow> nat \<Rightarrow> bytes \<Rightarrow> EggBuffer \<Rightarrow> EggBuffer option" where
  "decrypt_loop f 0 pos chain b = Some b"
| "decrypt_loop f (Suc n) pos chain b = do {
     c \<leftarrow> eb_load pos 16 b;
     b1 \<leftarrow> eb_store pos (xor_bytes (f c) chain) b;
     decrypt_loop f n (pos + 16) c b1
   }"

definition encrypt_buffer :: "heap \<Rightarrow> Env \<Rightarrow> GkmSecret \<Rightarrow> bytes \<Rightarrow> int \<Rightarrow> EggBuffer \<Rightarrow> (bool \<times> EggBuffer) option" where
  "encrypt_buffer h env mast salt iterations b =
     (if eb_len b mod 16 \<noteq> 0 then None
      else do {
        r \<leftarrow> egg_symkey_generate_simple h env 16 16 mast salt iterations;
        case r of
          None \<Rightarrow> Some (False, b)
        | Some (key, iv) \<Rightarrow>
            if \<not> cipher_open env then Some (False, b)
            else do { b1 \<leftarrow> encrypt_loop (aes_encrypt env key) (eb_len b div 16) 0 iv b; Some (True, b1) }
      })"

definition decrypt_buffer :: "heap \<Rightarrow> Env \<Rightarrow> GkmSecret option \<Rightarrow> bytes \<Rightarrow> int \<Rightarrow> EggBuffer \<Rightarrow> (bool \<times> EggBuffer) option" where
  "decrypt_buffer h env mast salt iterations b =
     (if eb_len b mod 16 \<noteq> 0 then None
      else do {
        r \<leftarrow> egg_symkey_generate_simple h env 16 16 (case mast of None \<Rightarrow> None | Some p \<Rightarrow> p) salt iterations;
        case r of
          None \<Rightarrow> Some (False, b)
        | Some (key, iv) \<Rightarrow>
            if \<not> cipher_open env then Some (False, b)
            else do { b1 \<leftarrow> decrypt_loop (aes_decrypt env key) (eb_len b div 16) 0 iv b; Some (True, b1) }
      })"

definition verify_decrypted_buffer :: "Env \<Rightarrow> EggBuffer \<Rightarrow> bool option" where
  "verify_decrypted_buffer env b = do {
     body \<leftarrow> eb_load 16 (size_sub (eb_len b) 16) b;
     digest \<leftarrow> eb_load 0 16 b;
     Some (digest = md5 env body)
   }"

section \<open>Writing\<close>

fun acl_loop :: "heap \<Rightarrow> Env \<Rightarrow> GkmSecretAccess list \<Rightarrow> EggBuffer \<Rightarrow> (bool \<times> EggBuffer) option" where
  "acl_loop h env [] b = Some (True, b)"
| "acl_loop h env (ac # acs) b = do {
     (_, b1) \<leftarrow> egg_buffer_add_uint32 h (types_allowed ac) b;
     (ok2, b2) \<leftarrow> buffer_add_utf8_string h env (ac_display_name ac) b1;
     if \<not> ok2 then Some (False, b2)
     else do {
       (ok3, b3) \<leftarrow> buffer_add_utf8_string h env (ac_pathname ac) b2;
       if \<not> ok3 then Some (False, b3)
       else do {
         (ok4, b4) \<leftarrow> buffer_add_utf8_string h env None b3;
         if \<not> ok4 then Some (False, b4)
         else do {
           (_, b5) \<leftarrow> egg_buffer_add_uint32 h 0 b4;
           acl_loop h env acs b5
         }
       }
     }
   }"

definition generate_acl_data :: "heap \<Rightarrow> Env \<Rightarrow> GkmSecretAccess list \<Rightarrow> EggBuffer \<Rightarrow> (bool \<times> EggBuffer) option" where
  "generate_acl_data h env acl b = do {
     (_, b1) \<leftarrow> egg_buffer_add_uint32 h (of_nat (length acl)) b;
     acl_loop h env acl b1
   }"

definition add_reserved :: "heap \<Rightarrow> EggBuffer \<Rightarrow> EggBuffer option" where
  "add_reserved h b = do {
     (_, b1) \<leftarrow> egg_buffer_add_uint32 h 0 b;
     (_, b2) \<leftarrow> egg_buffer_add_uint32 h 0 b1;
     (_, b3) \<leftarrow> egg_buffer_add_uint32 h 0 b2;
     (_, b4) \<leftarrow> egg_buffer_add_uint32 h 0 b3;
     Some b4
   }"

text \<open>One round of the loop; \<open>False\<close> is a \<^verbatim>\<open>break\<close>.\<close>

definition encrypted_item :: "heap \<Rightarrow> Env \<Rightarrow> GkmSecretData \<Rightarrow> GkmSecretItem \<Rightarrow> EggBuffer \<Rightarrow> (bool \<times> EggBuffer) option" where
  "encrypted_item h env sdata item b = do {
     (_, b1) \<leftarrow> buffer_add_utf8_string h env (item_label item) b;
     (_, b2) \<leftarrow> buffer_add_secret h (gkm_secret_data_get_secret sdata (item_identifier item)) b1;
     (ok3, b3) \<leftarrow> buffer_add_time h (item_created item) b2;
     if \<not> ok3 then Some (False, b3)
     else do {
       (ok4, b4) \<leftarrow> buffer_add_time h (item_modified item) b3;
       if \<not> ok4 then Some (False, b4)
       else do {
         (ok5, b5) \<leftarrow> buffer_add_utf8_string h env None b4;
         if \<not> ok5 then Some (False, b5)
         else do {
           b6 \<leftarrow> add_reserved h b5;
           (ok7, b7) \<leftarrow> buffer_add_attributes h env False (item_fields item) b6;
           if \<not> ok7 then Some (False, b7) else generate_acl_data h env (compat_acl item) b7
         }
       }
     }
   }"

fun encrypted_items :: "heap \<Rightarrow> Env \<Rightarrow> GkmSecretData \<Rightarrow> GkmSecretItem list \<Rightarrow> EggBuffer \<Rightarrow> (bool \<times> EggBuffer) option" where
  "encrypted_items h env sdata [] b = Some (True, b)"
| "encrypted_items h env sdata (item # rest) b =
     (if egg_buffer_has_error b then Some (False, b)
      else do {
        (ok, b1) \<leftarrow> encrypted_item h env sdata item b;
        if \<not> ok then Some (False, b1) else encrypted_items h env sdata rest b1
      })"

definition generate_encrypted_data :: "heap \<Rightarrow> Env \<Rightarrow> GkmSecretItem list \<Rightarrow> GkmSecretData \<Rightarrow> EggBuffer \<Rightarrow> (bool \<times> EggBuffer) option" where
  "generate_encrypted_data h env its sdata b = do {
     (_, b1) \<leftarrow> egg_buffer_set_allocator h (Some Egg_secure_realloc) b;
     encrypted_items h env sdata its b1
   }"

fun hashed_items :: "heap \<Rightarrow> Env \<Rightarrow> GkmSecretItem list \<Rightarrow> EggBuffer \<Rightarrow> EggBuffer option" where
  "hashed_items h env [] b = Some b"
| "hashed_items h env (item # rest) b =
     (case convert_to_integer (item_identifier item) of (numeric, ident) \<Rightarrow>
        if \<not> numeric then hashed_items h env rest b
        else do {
          (_, b1) \<leftarrow> egg_buffer_add_uint32 h ident b;
          (_, b2) \<leftarrow> egg_buffer_add_uint32 h (gkm_secret_compat_parse_item_type (item_schema item)) b1;
          (_, b3) \<leftarrow> buffer_add_attributes h env True (item_fields item) b2;
          hashed_items h env rest b3
        })"

definition generate_hashed_items :: "heap \<Rightarrow> Env \<Rightarrow> GkmSecretItem list \<Rightarrow> EggBuffer \<Rightarrow> (bool \<times> EggBuffer) option" where
  "generate_hashed_items h env its b = do {
     (_, b1) \<leftarrow> egg_buffer_add_uint32 h (of_nat (length its)) b;
     b2 \<leftarrow> hashed_items h env its b1;
     Some (\<not> egg_buffer_has_error b2, b2)
   }"

text \<open>The loop that fills up the last block does not look whether there is memory.\<close>

partial_function (option) pad_loop :: "heap \<Rightarrow> EggBuffer \<Rightarrow> EggBuffer option" where
  "pad_loop h b =
     (if eb_len b mod 16 = 0 then Some b
      else do { (_, b1) \<leftarrow> egg_buffer_add_byte h 0 b; pad_loop h b1 })"

declare pad_loop.simps [code]

definition lock_setting :: "GkmSecretCollection \<Rightarrow> 32 word \<times> 32 word" where
  "lock_setting c =
     (let idle = gkm_secret_collection_get_lock_idle c in
      if idle \<noteq> 0 then (LOCK_ON_IDLE_FLAG, idle)
      else let after = gkm_secret_collection_get_lock_after c in
        (if after \<noteq> 0 then LOCK_AFTER_FLAG else 0, after))"

text \<open>What precedes the encrypted data.\<close>

definition write_header :: "heap \<Rightarrow> Env \<Rightarrow> bytes \<Rightarrow> 32 word \<Rightarrow> GkmSecretCollection \<Rightarrow> EggBuffer \<Rightarrow> EggBuffer option" where
  "write_header h env salt hash_iterations c b = do {
     (_, b1) \<leftarrow> egg_buffer_append h KEYRING_FILE_HEADER b;
     (_, b2) \<leftarrow> egg_buffer_add_byte h 0 b1;
     (_, b3) \<leftarrow> egg_buffer_add_byte h 0 b2;
     (_, b4) \<leftarrow> egg_buffer_add_byte h 0 b3;
     (_, b5) \<leftarrow> egg_buffer_add_byte h 0 b4;
     (_, b6) \<leftarrow> buffer_add_utf8_string h env (coll_label c) b5;
     (_, b7) \<leftarrow> buffer_add_time h (coll_modified c) b6;
     (_, b8) \<leftarrow> buffer_add_time h (coll_created c) b7;
     (_, b9) \<leftarrow> egg_buffer_add_uint32 h (fst (lock_setting c)) b8;
     (_, b10) \<leftarrow> egg_buffer_add_uint32 h (snd (lock_setting c)) b9;
     (_, b11) \<leftarrow> egg_buffer_add_uint32 h hash_iterations b10;
     (_, b12) \<leftarrow> egg_buffer_append h salt b11;
     add_reserved h b12
   }"

text \<open>
  The result and, on success, the block with the file and its length. \<open>random\<close> is the random part of the number of iterations,
  \<open>junk\<close> the contents of \<^verbatim>\<open>digest\<close> before it is computed.
\<close>

definition gkm_secret_binary_write ::
    "heap \<Rightarrow> Env \<Rightarrow> ((bytes \<times> GkmSecretItem) list \<Rightarrow> (bytes \<times> GkmSecretItem) list) \<Rightarrow> nat \<Rightarrow> bytes \<Rightarrow> bytes
     \<Rightarrow> GkmSecretCollection \<Rightarrow> GkmSecretData \<Rightarrow> (GkmDataResult \<times> bytes option \<times> nat) option" where
  "gkm_secret_binary_write h env visit random salt junk c sdata = do {
     let (_, buffer) = egg_buffer_init_full h 256 (Some G_realloc);
     let hash_iterations = (of_nat (1000 + random) :: 32 word);
     let its = gkm_secret_collection_get_items visit c;
     b1 \<leftarrow> write_header h env salt hash_iterations c buffer;
     (_, b2) \<leftarrow> generate_hashed_items h env its b1;
     let (_, to_encrypt) = egg_buffer_init_full h 4096 (Some Egg_secure_realloc);
     (_, e1) \<leftarrow> egg_buffer_append h junk to_encrypt;
     (ok, e2) \<leftarrow> generate_encrypted_data h env its sdata e1;
     if \<not> ok then Some (GKM_DATA_FAILURE, None, 0)
     else do {
       e3 \<leftarrow> pad_loop h e2;
       body \<leftarrow> eb_load 16 (size_sub (eb_len e3) 16) e3;
       e4 \<leftarrow> eb_store 0 (md5 env body) e3;
       case master sdata of
         None \<Rightarrow> Some (GKM_DATA_FAILURE, None, 0)
       | Some mast \<Rightarrow> do {
           (ok5, e5) \<leftarrow> encrypt_buffer h env mast salt (sint hash_iterations) e4;
           if \<not> ok5 then Some (GKM_DATA_FAILURE, None, 0)
           else if egg_buffer_has_error e5 \<or> egg_buffer_has_error b2 then Some (GKM_DATA_FAILURE, None, 0)
           else do {
             (_, b3) \<leftarrow> egg_buffer_add_uint32 h (of_nat (eb_len e5)) b2;
             secret_part \<leftarrow> eb_load 0 (eb_len e5) e5;
             (_, b4) \<leftarrow> egg_buffer_append h secret_part b3;
             let ((data, n_data), _) = egg_buffer_uninit_steal b4;
             Some (GKM_DATA_SUCCESS, data, n_data)
           }
         }
     }
   }"

section \<open>Reading\<close>

fun decode_acl_loop :: "heap \<Rightarrow> Env \<Rightarrow> nat \<Rightarrow> GkmSecretAccess list \<Rightarrow> GkmSecretAccess list getter" where
  "decode_acl_loop h env 0 acl b off = Some (Some (rev acl, off), b)"
| "decode_acl_loop h env (Suc n) acl b off = do {
     (rx, b1) \<leftarrow> egg_buffer_get_uint32 b off;
     case rx of None \<Rightarrow> Some (None, b1)
     | Some (x, off1) \<Rightarrow> do {
         (rn, b2) \<leftarrow> buffer_get_utf8_string h env b1 off1;
         case rn of None \<Rightarrow> Some (None, b2)
         | Some (name, off2) \<Rightarrow> do {
             (rp, b3) \<leftarrow> buffer_get_utf8_string h env b2 off2;
             case rp of None \<Rightarrow> Some (None, b3)
             | Some (path, off3) \<Rightarrow> do {
                 (rr, b4) \<leftarrow> buffer_get_utf8_string h env b3 off3;
                 case rr of None \<Rightarrow> Some (None, b4)
                 | Some (_, off4) \<Rightarrow> do {
                     (ry, b5) \<leftarrow> egg_buffer_get_uint32 b4 off4;
                     case ry of None \<Rightarrow> Some (None, b5)
                     | Some (_, off5) \<Rightarrow>
                         decode_acl_loop h env n (\<lparr>ac_display_name = name, ac_pathname = path, types_allowed = x\<rparr> # acl) b5 off5
                   }
               }
           }
       }
   }"

definition decode_acl :: "heap \<Rightarrow> Env \<Rightarrow> GkmSecretAccess list getter" where
  "decode_acl h env b off = do {
     (r, b1) \<leftarrow> egg_buffer_get_uint32 b off;
     case r of None \<Rightarrow> Some (None, b1)
     | Some (num_acs, off1) \<Rightarrow> decode_acl_loop h env (unat num_acs) [] b1 off1
   }"

definition remove_unavailable_item :: "bytes \<Rightarrow> GkmSecretCollection \<Rightarrow> GkmSecretCollection" where
  "remove_unavailable_item key c = (if gkm_secret_collection_get_item c key \<noteq> None then remove_item key c else c)"

definition setup_item_from_info ::
    "heap \<Rightarrow> bytes \<Rightarrow> ItemInfo \<Rightarrow> GkmSecretCollection \<times> GkmSecretData option \<Rightarrow> (GkmSecretCollection \<times> GkmSecretData option) option" where
  "setup_item_from_info h identifier info = (\<lambda>(c, sdata). do {
     item \<leftarrow> gkm_secret_collection_get_item c identifier;
     let item1 = item\<lparr>item_label := info_display_name info, item_created := info_ctime info, item_modified := info_mtime info,
           item_schema := gkm_secret_compat_format_item_type (info_type info),
           item_fields := (case info_attributes info of None \<Rightarrow> [] | Some f \<Rightarrow> f)\<rparr>;
     case sdata of
       None \<Rightarrow> Some (c\<lparr>items := AList.update identifier (item1\<lparr>compat_acl := []\<rparr>) (items c)\<rparr>, None)
     | Some data \<Rightarrow> do {
         secret \<leftarrow> gkm_secret_new h (info_secret info);
         Some (c\<lparr>items := AList.update identifier (item1\<lparr>compat_acl := info_acl info\<rparr>) (items c)\<rparr>,
               Some (gkm_secret_data_set_secret (item_identifier item) secret data))
       }
   })"

definition item_info_new :: ItemInfo where
  "item_info_new = \<lparr>info_id = 0, info_identifier = [], info_type = 0, info_display_name = None, info_secret = None, info_ctime = 0,
     info_mtime = 0, info_attributes = None, info_acl = [], attributes_freed = False\<rparr>"

text \<open>The items read so far are in \<open>infos\<close>, the last one first.\<close>

fun read_hashed_item_info :: "heap \<Rightarrow> Env \<Rightarrow> nat \<Rightarrow> ItemInfo list \<Rightarrow> ItemInfo list getter" where
  "read_hashed_item_info h env 0 infos b off = Some (Some (rev infos, off), b)"
| "read_hashed_item_info h env (Suc n) infos b off = do {
     (ri, b1) \<leftarrow> egg_buffer_get_uint32 b off;
     case ri of None \<Rightarrow> Some (None, b1)
     | Some (ident, off1) \<Rightarrow> do {
         (rt, b2) \<leftarrow> egg_buffer_get_uint32 b1 off1;
         case rt of None \<Rightarrow> Some (None, b2)
         | Some (typ, off2) \<Rightarrow> do {
             (ra, b3) \<leftarrow> buffer_get_attributes h env True b2 off2;
             case ra of None \<Rightarrow> Some (None, b3)
             | Some (attributes, off3) \<Rightarrow>
                 read_hashed_item_info h env n
                   (item_info_new\<lparr>info_id := ident, info_type := typ, info_attributes := Some attributes,
                      info_identifier := format_uint32 ident\<rparr> # infos) b3 off3
           }
       }
   }"

fun get_reserved :: "nat \<Rightarrow> unit getter" where
  "get_reserved 0 b off = Some (Some ((), off), b)"
| "get_reserved (Suc n) b off = do {
     (r, b1) \<leftarrow> egg_buffer_get_uint32 b off;
     case r of None \<Rightarrow> Some (None, b1) | Some (_, off1) \<Rightarrow> get_reserved n b1 off1
   }"

text \<open>One round of \<^verbatim>\<open>read_full_item_info\<close>: the item as it is left, and \<open>None\<close> for the offset when it fails.\<close>

definition read_full_item :: "heap \<Rightarrow> Env \<Rightarrow> ItemInfo \<Rightarrow> EggBuffer \<Rightarrow> nat \<Rightarrow> (ItemInfo \<times> nat option \<times> EggBuffer) option" where
  "read_full_item h env info b off = do {
     (rn, b1) \<leftarrow> buffer_get_utf8_string h env b off;
     case rn of None \<Rightarrow> Some (info, None, b1)
     | Some (name, off1) \<Rightarrow> do {
         (rs, b2) \<leftarrow> egg_buffer_get_byte_array b1 off1;
         case rs of None \<Rightarrow> Some (info, None, b2)
         | Some (secret, off2) \<Rightarrow> do {
             (rc, b3) \<leftarrow> buffer_get_time b2 off2;
             case rc of None \<Rightarrow> Some (info, None, b3)
             | Some (ctime, off3) \<Rightarrow> do {
                 (rm, b4) \<leftarrow> buffer_get_time b3 off3;
                 case rm of None \<Rightarrow> Some (info, None, b4)
                 | Some (mtime, off4) \<Rightarrow> do {
                     (rr, b5) \<leftarrow> buffer_get_utf8_string h env b4 off4;
                     case rr of None \<Rightarrow> Some (info, None, b5)
                     | Some (_, off5) \<Rightarrow> do {
                         (rz, b6) \<leftarrow> get_reserved 4 b5 off5;
                         case rz of None \<Rightarrow> Some (info, None, b6)
                         | Some (_, off6) \<Rightarrow> do {
                             (ra, b7) \<leftarrow> buffer_get_attributes h env False b6 off6;
                             case ra of None \<Rightarrow> Some (info\<lparr>attributes_freed := info_attributes info \<noteq> None\<rparr>, None, b7)
                             | Some (attributes, off7) \<Rightarrow> do {
                                 (rl, b8) \<leftarrow> decode_acl h env b7 off7;
                                 let info1 = info\<lparr>info_display_name := name, info_secret := secret, info_ctime := ctime,
                                       info_mtime := mtime, info_attributes := Some attributes\<rparr>;
                                 case rl of None \<Rightarrow> Some (info1, None, b8)
                                 | Some (acl, off8) \<Rightarrow> Some (info1\<lparr>info_acl := acl\<rparr>, Some off8, b8)
                               }
                           }
                       }
                   }
               }
           }
       }
   }"

fun read_full_item_info :: "heap \<Rightarrow> Env \<Rightarrow> ItemInfo list \<Rightarrow> EggBuffer \<Rightarrow> nat \<Rightarrow> (bool \<times> ItemInfo list \<times> EggBuffer) option" where
  "read_full_item_info h env [] b off = Some (True, [], b)"
| "read_full_item_info h env (info # infos) b off = do {
     (info1, r, b1) \<leftarrow> read_full_item h env info b off;
     case r of
       None \<Rightarrow> Some (False, info1 # infos, b1)
     | Some off1 \<Rightarrow> do {
         (ok, infos1, b2) \<leftarrow> read_full_item_info h env infos b1 off1;
         Some (ok, info1 # infos1, b2)
       }
   }"

text \<open>Releasing the table of an item a second time is a fault.\<close>

definition free_item_info :: "ItemInfo \<Rightarrow> unit option" where
  "free_item_info info = (if attributes_freed info then None else Some ())"

fun free_items :: "ItemInfo list \<Rightarrow> unit option" where
  "free_items [] = Some ()"
| "free_items (info # infos) = do { free_item_info info; free_items infos }"

text \<open>What stands before the items: label, times, flags, timeout, iterations, salt and the number of items.\<close>

type_synonym header = "bytes option \<times> 64 word \<times> 64 word \<times> 32 word \<times> 32 word \<times> 32 word \<times> bytes \<times> 32 word"

definition read_header :: "heap \<Rightarrow> Env \<Rightarrow> header getter" where
  "read_header h env b off = do {
     (rn, b1) \<leftarrow> buffer_get_utf8_string h env b off;
     case rn of None \<Rightarrow> Some (None, b1)
     | Some (display_name, off1) \<Rightarrow> do {
         (rc, b2) \<leftarrow> buffer_get_time b1 off1;
         case rc of None \<Rightarrow> Some (None, b2)
         | Some (ctime, off2) \<Rightarrow> do {
             (rm, b3) \<leftarrow> buffer_get_time b2 off2;
             case rm of None \<Rightarrow> Some (None, b3)
             | Some (mtime, off3) \<Rightarrow> do {
                 (rf, b4) \<leftarrow> egg_buffer_get_uint32 b3 off3;
                 case rf of None \<Rightarrow> Some (None, b4)
                 | Some (flgs, off4) \<Rightarrow> do {
                     (rl, b5) \<leftarrow> egg_buffer_get_uint32 b4 off4;
                     case rl of None \<Rightarrow> Some (None, b5)
                     | Some (lock_timeout, off5) \<Rightarrow> do {
                         (ri, b6) \<leftarrow> egg_buffer_get_uint32 b5 off5;
                         case ri of None \<Rightarrow> Some (None, b6)
                         | Some (hash_iterations, off6) \<Rightarrow> do {
                             (rs, b7) \<leftarrow> buffer_get_bytes 8 b6 off6;
                             case rs of None \<Rightarrow> Some (None, b7)
                             | Some (salt, off7) \<Rightarrow> do {
                                 (rz, b8) \<leftarrow> get_reserved 4 b7 off7;
                                 case rz of None \<Rightarrow> Some (None, b8)
                                 | Some (_, off8) \<Rightarrow> do {
                                     (rk, b9) \<leftarrow> egg_buffer_get_uint32 b8 off8;
                                     case rk of None \<Rightarrow> Some (None, b9)
                                     | Some (num_items, off9) \<Rightarrow>
                                         Some (Some ((display_name, ctime, mtime, flgs, lock_timeout, hash_iterations, salt, num_items), off9), b9)
                                   }
                               }
                           }
                       }
                   }
               }
           }
       }
   }"

text \<open>The items, and how they are left when something fails.\<close>

datatype read_items_result = Read_ok "ItemInfo list" | Read_stop GkmDataResult "ItemInfo list"

definition read_items :: "heap \<Rightarrow> Env \<Rightarrow> GkmSecretData option \<Rightarrow> 32 word \<Rightarrow> bytes \<Rightarrow> 32 word \<Rightarrow> EggBuffer \<Rightarrow> nat \<Rightarrow> read_items_result option" where
  "read_items h env sdata hash_iterations salt num_items b off = do {
     (ri, b1) \<leftarrow> (if num_items = 0xffffffff then None else read_hashed_item_info h env (unat num_items) [] b off);
     case ri of None \<Rightarrow> Some (Read_stop GKM_DATA_FAILURE [])
     | Some (infos, off1) \<Rightarrow> do {
         (rc, b2) \<leftarrow> egg_buffer_get_uint32 b1 off1;
         case rc of None \<Rightarrow> Some (Read_stop GKM_DATA_FAILURE infos)
         | Some (crypto_size, off2) \<Rightarrow>
             if crypto_size mod 16 \<noteq> 0 then Some (Read_stop GKM_DATA_FAILURE infos)
             else do {
               (_, d1) \<leftarrow> egg_buffer_set_allocator h (Some Egg_secure_realloc) egg_buffer_zero;
               let (_, d2) = egg_buffer_reserve h (unat crypto_size) d1;
               part \<leftarrow> eb_load off2 (unat crypto_size) b2;
               d3 \<leftarrow> eb_store 0 part d2;
               let d4 = d3\<lparr>eb_len := unat crypto_size\<rparr>;
               case sdata of
                 None \<Rightarrow> Some (Read_ok infos)
               | Some data \<Rightarrow> do {
                   (ok, d5) \<leftarrow> decrypt_buffer h env (master data) salt (sint hash_iterations) d4;
                   if \<not> ok then Some (Read_stop GKM_DATA_FAILURE infos)
                   else do {
                     good \<leftarrow> verify_decrypted_buffer env d5;
                     if \<not> good then Some (Read_stop GKM_DATA_LOCKED infos)
                     else do {
                       (ok6, infos1, _) \<leftarrow> read_full_item_info h env infos d5 16;
                       Some (if ok6 then Read_ok infos1 else Read_stop GKM_DATA_FAILURE infos1)
                     }
                   }
                 }
             }
       }
   }"

text \<open>The collection and the secrets are brought up to date with the items that were read; \<open>unused\<close> are the items not seen yet.\<close>

fun update_items ::
    "heap \<Rightarrow> ItemInfo list \<Rightarrow> bytes list \<Rightarrow> GkmSecretCollection \<times> GkmSecretData option
     \<Rightarrow> (bytes list \<times> GkmSecretCollection \<times> GkmSecretData option) option" where
  "update_items h [] unused (c, sdata) = Some (unused, c, sdata)"
| "update_items h (info # infos) unused (c, sdata) = do {
     let identifier = info_identifier info;
     let c1 = (if gkm_secret_collection_get_item c identifier = None then gkm_secret_collection_new_item identifier c else c);
     (c2, sdata2) \<leftarrow> setup_item_from_info h identifier info (c1, sdata);
     update_items h infos (removeAll identifier unused) (c2, sdata2)
   }"

definition update_collection ::
    "heap \<Rightarrow> ((bytes \<times> GkmSecretItem) list \<Rightarrow> (bytes \<times> GkmSecretItem) list) \<Rightarrow> header \<Rightarrow> ItemInfo list
     \<Rightarrow> GkmSecretCollection \<times> GkmSecretData option \<Rightarrow> (GkmSecretCollection \<times> GkmSecretData option) option" where
  "update_collection h visit = (\<lambda>(display_name, ctime, mtime, flgs, lock_timeout, _, _, _) infos (c, sdata). do {
     let c1 = c\<lparr>coll_label := display_name, coll_modified := mtime, coll_created := ctime\<rparr>;
     let c2 = (if flgs AND LOCK_ON_IDLE_FLAG \<noteq> 0 then gkm_secret_collection_set_lock_idle lock_timeout c1
               else if flgs AND LOCK_AFTER_FLAG \<noteq> 0 then gkm_secret_collection_set_lock_after lock_timeout c1
               else c1);
     (unused, c3, sdata3) \<leftarrow> update_items h infos (map item_identifier (gkm_secret_collection_get_items visit c2)) (c2, sdata);
     Some (fold remove_unavailable_item unused c3, sdata3)
   })"

definition gkm_secret_binary_read ::
    "heap \<Rightarrow> Env \<Rightarrow> ((bytes \<times> GkmSecretItem) list \<Rightarrow> (bytes \<times> GkmSecretItem) list) \<Rightarrow> bytes
     \<Rightarrow> GkmSecretCollection \<times> GkmSecretData option \<Rightarrow> (GkmDataResult \<times> GkmSecretCollection \<times> GkmSecretData option) option" where
  "gkm_secret_binary_read h env visit data = (\<lambda>(c, sdata). do {
     let b = egg_buffer_init_static data;
     header \<leftarrow> (if eb_len b < 15 then Some [] else eb_load 0 15 b);
     if header \<noteq> KEYRING_FILE_HEADER then Some (GKM_DATA_UNRECOGNIZED, c, sdata)
     else do {
       version \<leftarrow> eb_load 15 4 b;
       if version \<noteq> [0, 0, 0, 0] then Some (GKM_DATA_UNRECOGNIZED, c, sdata)
       else do {
         (rh, b1) \<leftarrow> read_header h env b 19;
         case rh of None \<Rightarrow> Some (GKM_DATA_FAILURE, c, sdata)
         | Some (head, off) \<Rightarrow>
             (case head of (_, _, _, _, _, hash_iterations, salt, num_items) \<Rightarrow> do {
                r \<leftarrow> read_items h env sdata hash_iterations salt num_items b1 off;
                case r of
                  Read_stop res infos \<Rightarrow> do { free_items infos; Some (res, c, sdata) }
                | Read_ok infos \<Rightarrow> do {
                    (c1, sdata1) \<leftarrow> update_collection h visit head infos (c, sdata);
                    free_items infos;
                    Some (GKM_DATA_SUCCESS, c1, sdata1)
                  }
              })
       }
     }
   })"

end
