(* ===== verification/SecretTable.thy ===== *)
theory SecretTable
  imports SecretBinary
begin

text \<open>
  Facts about fields: numbers and their decimal strings, the names of a table, which tables can be stored, and what
  the fields of an item are turned into in a file, in full and hashed.
\<close>

section \<open>Decimal numbers\<close>

lemma decimal_digit: "d < 10 \<Longrightarrow> c_digit (of_nat (d + 48)) \<and> unat (of_nat (d + 48) :: byte) = d + 48"
proof -
  assume d: "d < 10"
  then have "unat (of_nat (d + 48) :: byte) = d + 48" by (intro unat_of_nat_small) simp
  with d show ?thesis by (simp add: c_digit_def word_le_nat_alt del: of_nat_add)
qed

lemma print_decimal_digits: "print_decimal n \<noteq> [] \<and> (\<forall>c \<in> set (print_decimal n). c_digit c) \<and> digits_value (print_decimal n) = n"
proof (induction n rule: print_decimal.induct)
  case (1 n)
  show ?case
  proof (cases "n < 10")
    case True
    then show ?thesis using decimal_digit [OF True] by (simp add: print_decimal.simps [of n] digits_value_def)
  next
    case False
    have "n mod 10 < 10" by simp
    from decimal_digit [OF this] 1 [OF False] False show ?thesis
      by (auto simp: print_decimal.simps [of n] digits_value_def)
  qed
qed

lemma digit_not_space: "c_digit c \<Longrightarrow> \<not> c_space c \<and> c \<noteq> 45 \<and> c \<noteq> 43"
  by (auto simp: c_digit_def c_space_def word_le_nat_alt)

lemma strtoul_decimal:
  assumes "n < 2 ^ 64"
  shows "strtoul (print_decimal n) = (of_nat n, [])"
proof -
  note p = print_decimal_digits [of n]
  obtain c cs where c: "print_decimal n = c # cs" "c_digit c" using p by (cases "print_decimal n") auto
  have t: "takeWhile c_digit (print_decimal n) = print_decimal n" "dropWhile c_digit (print_decimal n) = []"
    using p by (simp_all add: takeWhile_eq_all_conv dropWhile_eq_Nil_conv)
  have s: "dropWhile c_space (print_decimal n) = print_decimal n" using c digit_not_space by simp
  have no: "hd (print_decimal n) \<noteq> 45" "hd (print_decimal n) \<noteq> 43" using c digit_not_space by auto
  have u: "(if print_decimal n \<noteq> [] \<and> (hd (print_decimal n) = 45 \<or> hd (print_decimal n) = 43) then tl (print_decimal n) else print_decimal n) = print_decimal n"
    using no by simp
  show ?thesis unfolding strtoul_def Let_def s u t using p no assms by simp
qed

lemma parse_format_uint32: "parse_uint32 (Some (format_uint32 x)) = Some (True, x)"
proof -
  have "unat x < 2 ^ 64" using unat_bound [of x] by simp
  moreover have "ucast (ucast x :: 64 word) = x" by (rule bit_word_eqI) (simp add: bit_simps)
  ultimately show ?thesis by (simp add: parse_uint32_def format_uint32_def strtoul_decimal)
qed

lemma convert_format_uint32: "convert_to_integer (format_uint32 x) = (True, x)"
  using parse_format_uint32 [of x] by (simp add: parse_uint32_def convert_to_integer_def split: prod.splits)

lemma format_uint32_inj: "format_uint32 x = format_uint32 y \<Longrightarrow> x = y"
  by (metis option.inject prod.inject parse_format_uint32)

section \<open>Names\<close>

abbreviation hashed_name :: "bytes \<Rightarrow> bytes" where
  "hashed_name n \<equiv> ascii ''gkr:compat:hashed:'' @ n"

abbreviation uint32_name :: "bytes \<Rightarrow> bytes" where
  "uint32_name n \<equiv> ascii ''gkr:compat:uint32:'' @ n"

lemma compat_names [simp]: "is_compat_name (hashed_name n)" "is_compat_name (uint32_name n)"
  "begins_with (hashed_name n) (ascii ''gkr:compat:hashed:'')" "\<not> begins_with (uint32_name n) (ascii ''gkr:compat:hashed:'')"
  "hashed_name n \<noteq> uint32_name m" "uint32_name n \<noteq> hashed_name m"
  "ascii ''gkr:compat:hashed:'' \<noteq> ascii ''gkr:compat:uint32:''" "ascii ''gkr:compat:uint32:'' \<noteq> ascii ''gkr:compat:hashed:''"
  by (simp_all add: is_compat_name_def begins_with_def ascii_def)

lemma make_names [simp]:
  "\<not> is_compat_name n \<Longrightarrow> make_compat_hashed_name n = Some (hashed_name n)"
  "\<not> is_compat_name n \<Longrightarrow> make_compat_uint32_name n = Some (uint32_name n)"
  by (simp_all add: make_compat_hashed_name_def make_compat_uint32_name_def)

lemma plain_not_hashed: "\<not> is_compat_name k \<Longrightarrow> \<not> begins_with k (ascii ''gkr:compat:hashed:'')"
proof -
  have pre: "take 11 (ascii ''gkr:compat:hashed:'') = ascii ''gkr:compat:''" "length (ascii ''gkr:compat:hashed:'') = 18"
    "length (ascii ''gkr:compat:'') = 11" by (simp_all add: ascii_def)
  have "is_compat_name k" if "begins_with k (ascii ''gkr:compat:hashed:'')"
  proof -
    have h11: "take 11 (take 18 k) = take 11 k" by simp
    have "take 18 k = ascii ''gkr:compat:hashed:''" using that by (simp add: begins_with_def pre(2))
    then have "take 11 k = ascii ''gkr:compat:''" using pre(1) arg_cong [of _ _ "take 11"] by (metis (no_types) h11)
    then show ?thesis by (simp add: is_compat_name_def begins_with_def pre(3))
  qed
  then show "\<not> is_compat_name k \<Longrightarrow> \<not> begins_with k (ascii ''gkr:compat:hashed:'')" by blast
qed

lemma names_loop_sorted:
  assumes "sorted ks" and "\<forall>p. prev = Some p \<longrightarrow> (\<forall>k \<in> set ks. p \<le> k)"
  shows "distinct (names_loop prev ks) \<and> set (names_loop prev ks) = {k \<in> set ks. \<not> is_compat_name k \<and> prev \<noteq> Some k}"
  using assms
proof (induction ks arbitrary: prev)
  case (Cons k ks)
  show ?case
  proof (cases "is_compat_name k \<or> prev = Some k")
    case True
    then have "names_loop prev (k # ks) = names_loop prev ks" by (auto simp: string_ptr_equal_def split: option.splits)
    moreover have "distinct (names_loop prev ks) \<and> set (names_loop prev ks) = {k \<in> set ks. \<not> is_compat_name k \<and> prev \<noteq> Some k}"
      using Cons.prems by (intro Cons.IH) auto
    ultimately show ?thesis using True by auto
  next
    case False
    then have "names_loop prev (k # ks) = k # names_loop (Some k) ks" by (auto simp: string_ptr_equal_def split: option.splits)
    moreover have "distinct (names_loop (Some k) ks) \<and> set (names_loop (Some k) ks) = {x \<in> set ks. \<not> is_compat_name x \<and> Some k \<noteq> Some x}"
      using Cons.prems by (intro Cons.IH) auto
    moreover have "prev \<noteq> Some x" if "x \<in> set ks" for x
    proof
      assume p: "prev = Some x"
      then have "x \<le> k" using Cons.prems(2) by simp
      moreover have "k \<le> x" using Cons.prems(1) that by simp
      ultimately show False using False p by simp
    qed
    ultimately show ?thesis using False by auto
  qed
qed simp

section \<open>Tables that can be stored\<close>

text \<open>
  Such a table has ordinary fields, and for the ones that are numbers a mark. That is what a table becomes when it is read from a file
  in full, and what clients give.
\<close>

definition text_ok :: "Env \<Rightarrow> bytes option \<Rightarrow> bool" where
  "text_ok env s \<longleftrightarrow> (case s of None \<Rightarrow> True | Some x \<Rightarrow> 0 \<notin> set x \<and> utf8 env x \<and> length x < 0x7fffffff)"

definition field_ok :: "Env \<Rightarrow> fields \<Rightarrow> bytes \<times> bytes option \<Rightarrow> bool" where
  "field_ok env tab = (\<lambda>(k, v).
     if is_compat_name k then \<exists>n x. k = uint32_name n \<and> \<not> is_compat_name n \<and> v = Some [] \<and> map_of tab n = Some (Some (format_uint32 x))
     else text_ok env (Some k) \<and> v \<noteq> None \<and> text_ok env v)"

definition fields_ok :: "Env \<Rightarrow> fields \<Rightarrow> bool" where
  "fields_ok env tab \<longleftrightarrow> distinct (map fst tab) \<and> length tab < 2 ^ 31 \<and> (\<forall>e \<in> set tab. field_ok env tab e)"

lemma fields_ok_plain:
  assumes "fields_ok env tab" and "\<not> is_compat_name k" and "map_of tab k = Some v"
  shows "\<exists>x. v = Some x \<and> text_ok env (Some k) \<and> text_ok env (Some x)"
  using assms map_of_SomeD [OF assms(3)] by (fastforce simp: fields_ok_def field_ok_def)

lemma fields_ok_mark:
  assumes "fields_ok env tab" and "map_of tab (uint32_name k) = Some v"
  shows "\<not> is_compat_name k \<and> v = Some [] \<and> (\<exists>x. map_of tab k = Some (Some (format_uint32 x)))"
  using assms map_of_SomeD [OF assms(2)] by (fastforce simp: fields_ok_def field_ok_def)

lemma fields_ok_no_hash:
  assumes "fields_ok env tab"
  shows "map_of tab (hashed_name k) = None"
proof (rule ccontr)
  assume "map_of tab (hashed_name k) \<noteq> None"
  then obtain v where "(hashed_name k, v) \<in> set tab" by (auto dest: map_of_SomeD)
  with assms have "field_ok env tab (hashed_name k, v)" by (simp add: fields_ok_def)
  then show False by (simp add: field_ok_def)
qed

lemma fields_ok_compat:
  assumes "fields_ok env tab" and "is_compat_name k" and "map_of tab k = Some v"
  shows "\<exists>n. k = uint32_name n \<and> \<not> is_compat_name n"
  using assms map_of_SomeD [OF assms(3)] by (fastforce simp: fields_ok_def field_ok_def)

lemma names_of_fields:
  assumes "fields_ok env tab"
  shows "distinct (gkm_secret_fields_get_names tab)" "set (gkm_secret_fields_get_names tab) = {k \<in> fst ` set tab. \<not> is_compat_name k}"
    "length (gkm_secret_fields_get_names tab) < 2 ^ 31"
proof -
  let ?strip = "\<lambda>k. if begins_with k (ascii ''gkr:compat:hashed:'') then drop (length (ascii ''gkr:compat:hashed:'')) k else k"
  have "?strip k = k" if k: "k \<in> fst ` set tab" for k
  proof (cases "is_compat_name k")
    case True
    obtain v where "(k, v) \<in> set tab" using k by auto
    then have "field_ok env tab (k, v)" using assms by (simp add: fields_ok_def)
    then obtain n where "k = uint32_name n" using True by (auto simp: field_ok_def)
    then show ?thesis by simp
  qed (use plain_not_hashed in auto)
  then have m: "map ?strip (map fst tab) = map fst tab" by (intro map_idI) auto
  have n: "gkm_secret_fields_get_names tab = names_loop None (sort (map fst tab))" unfolding gkm_secret_fields_get_names_def Let_def m ..
  have "distinct (names_loop None (sort (map fst tab))) \<and> set (names_loop None (sort (map fst tab)))
      = {k \<in> set (sort (map fst tab)). \<not> is_compat_name k \<and> None \<noteq> Some k}" by (rule names_loop_sorted) simp_all
  then show d: "distinct (gkm_secret_fields_get_names tab)" and s: "set (gkm_secret_fields_get_names tab) = {k \<in> fst ` set tab. \<not> is_compat_name k}"
    unfolding n by auto
  have "length (gkm_secret_fields_get_names tab) = card (set (gkm_secret_fields_get_names tab))" using distinct_card [OF d] by simp
  also have "\<dots> \<le> card (fst ` set tab)" unfolding s by (rule card_mono) auto
  also have "\<dots> \<le> length tab" using card_image_le [of "set tab" fst] card_length [of tab] by simp
  finally show "length (gkm_secret_fields_get_names tab) < 2 ^ 31" using assms by (simp add: fields_ok_def)
qed

section \<open>Fields in a file\<close>

datatype attr_code = Text "bytes option" | Number "32 word"

definition encode_attr :: "bytes \<times> attr_code \<Rightarrow> bytes" where
  "encode_attr = (\<lambda>(name, code). encode_byte_array (Some name) @
     (case code of Text v \<Rightarrow> egg_buffer_encode_uint32 0 @ encode_byte_array v | Number n \<Rightarrow> egg_buffer_encode_uint32 1 @ egg_buffer_encode_uint32 n))"

lemma encode_attr_simps:
  "encode_attr (k, Text v) = encode_byte_array (Some k) @ egg_buffer_encode_uint32 0 @ encode_byte_array v"
  "encode_attr (k, Number n) = encode_byte_array (Some k) @ egg_buffer_encode_uint32 1 @ egg_buffer_encode_uint32 n"
  by (simp_all add: encode_attr_def)

definition full_code :: "fields \<Rightarrow> bytes \<Rightarrow> attr_code" where
  "full_code tab k = (case gkm_secret_fields_get_compat_uint32 tab k of Some (Some n) \<Rightarrow> Number n | _ \<Rightarrow> Text (gkm_secret_fields_get tab k))"

definition hashed_code :: "Env \<Rightarrow> fields \<Rightarrow> bytes \<Rightarrow> attr_code" where
  "hashed_code env tab k = (case gkm_secret_fields_get_compat_hashed_uint32 tab k of Some (Some n) \<Rightarrow> Number n
     | _ \<Rightarrow> (case gkm_secret_fields_get_compat_hashed_string (md5 env) tab k of Some (Some v) \<Rightarrow> Text v | _ \<Rightarrow> Text None))"

definition code_ok :: "Env \<Rightarrow> bytes \<times> attr_code \<Rightarrow> bool" where
  "code_ok env = (\<lambda>(k, code). \<not> is_compat_name k \<and> text_ok env (Some k) \<and> (case code of Text v \<Rightarrow> text_ok env v | Number _ \<Rightarrow> True))"

text \<open>How reading an attribute changes the table.\<close>

definition apply_attr :: "bool \<Rightarrow> bytes \<times> attr_code \<Rightarrow> fields \<Rightarrow> fields" where
  "apply_attr hashed = (\<lambda>(k, code) tab. case code of
     Text v \<Rightarrow> if hashed then AList.update (hashed_name k) v tab else AList.update k (Some (case v of None \<Rightarrow> [] | Some x \<Rightarrow> x)) tab
   | Number n \<Rightarrow> if hashed then AList.update (uint32_name k) (Some k) (AList.update (hashed_name k) (Some (format_uint32 n)) tab)
       else AList.update (uint32_name k) (Some []) (AList.update k (Some (format_uint32 n)) tab))"

lemma full_code_field:
  assumes ok: "fields_ok env tab" and k: "\<not> is_compat_name k" "map_of tab k = Some v"
  shows "full_code tab k = (case map_of tab (uint32_name k) of None \<Rightarrow> Text v | Some _ \<Rightarrow> Number (snd (the (parse_uint32 v))))
    \<and> gkm_secret_fields_get_compat_uint32 tab k = Some (case full_code tab k of Text _ \<Rightarrow> None | Number n \<Rightarrow> Some n)
    \<and> (\<forall>n. full_code tab k = Number n \<longrightarrow> v = Some (format_uint32 n)) \<and> code_ok env (k, full_code tab k)"
proof (cases "map_of tab (uint32_name k)")
  case None
  then have "gkm_secret_fields_get_compat_uint32 tab k = Some None" using k by (simp add: gkm_secret_fields_get_compat_uint32_def field_value_def)
  with None k fields_ok_plain [OF ok k] show ?thesis by (auto simp: full_code_def gkm_secret_fields_get_def field_value_def code_ok_def)
next
  case (Some m)
  from fields_ok_mark [OF ok Some] k obtain x where x: "m = Some []" "v = Some (format_uint32 x)" by auto
  then have "gkm_secret_fields_get_compat_uint32 tab k = Some (Some x)"
    using Some k by (simp add: gkm_secret_fields_get_compat_uint32_def field_value_def parse_format_uint32)
  with Some x k fields_ok_plain [OF ok k] show ?thesis by (auto simp: full_code_def parse_format_uint32 code_ok_def)
qed

text \<open>What libgcrypt and GLib have to keep: digests have their length, and ASCII is UTF-8.\<close>

definition digests_ok :: "Env \<Rightarrow> bool" where
  "digests_ok env \<longleftrightarrow> (\<forall>x. length (md5 env x) = 16) \<and> (\<forall>x. length (sha256 env x) = 32)
     \<and> (\<forall>x. (\<forall>c \<in> set x. 0 < c \<and> c < 128) \<longrightarrow> utf8 env x)"

lemma hex_text:
  assumes "digests_ok env"
  shows "text_ok env (Some (egg_hex_encode_full (md5 env x) False 0 0))"
proof -
  let ?s = "egg_hex_encode_full (md5 env x) False 0 0"
  have "\<forall>c \<in> set HEXC_LOWER. 0 < c \<and> c < 128" by (simp add: HEXC_LOWER_def)
  moreover have c: "length ?s = 32" "set ?s \<subseteq> set HEXC_LOWER" using hex_encode_chars [of "md5 env x" False 0] assms by (auto simp: digests_ok_def)
  ultimately have a: "\<forall>c \<in> set ?s. 0 < c \<and> c < 128" by blast
  then have "utf8 env ?s" using assms unfolding digests_ok_def by blast
  moreover have "0 \<notin> set ?s" using a by auto
  ultimately show ?thesis using c(1) by (simp add: text_ok_def)
qed

lemma hashed_code_field:
  assumes env: "digests_ok env" and ok: "fields_ok env tab" and k: "\<not> is_compat_name k" "map_of tab k = Some v"
  shows "gkm_secret_fields_get_compat_hashed_uint32 tab k = Some (case hashed_code env tab k of Text _ \<Rightarrow> None | Number n \<Rightarrow> Some n)
    \<and> hashed_code env tab k = (case map_of tab (uint32_name k) of None \<Rightarrow> Text (compat_hash_value_as_string (md5 env) v)
        | Some _ \<Rightarrow> Number (the (compat_hash_value_as_uint32 v)))
    \<and> (map_of tab (uint32_name k) \<noteq> None \<longrightarrow> compat_hash_value_as_uint32 v \<noteq> None)
    \<and> (\<forall>s. hashed_code env tab k = Text s \<longrightarrow> gkm_secret_fields_get_compat_hashed_string (md5 env) tab k = Some (Some s))
    \<and> code_ok env (k, hashed_code env tab k)"
proof -
  from fields_ok_plain [OF ok k] obtain x where v: "v = Some x" "text_ok env (Some k)" by blast
  have s: "gkm_secret_fields_get_compat_hashed_string (md5 env) tab k = Some (Some (compat_hash_value_as_string (md5 env) v))"
    using k by (simp add: gkm_secret_fields_get_compat_hashed_string_def)
  show ?thesis
  proof (cases "map_of tab (uint32_name k)")
    case None
    then have n: "gkm_secret_fields_get_compat_hashed_uint32 tab k = Some None"
      using k fields_ok_no_hash [OF ok] by (simp add: gkm_secret_fields_get_compat_hashed_uint32_def)
    then have h: "hashed_code env tab k = Text (compat_hash_value_as_string (md5 env) v)" using s by (simp add: hashed_code_def)
    have "code_ok env (k, hashed_code env tab k)" unfolding h using v k hex_text [OF env] by (simp add: code_ok_def compat_hash_value_as_string_def)
    with None n s h show ?thesis by simp
  next
    case (Some m)
    from fields_ok_mark [OF ok Some] k v obtain y where y: "x = format_uint32 y" by auto
    then obtain z where z: "compat_hash_value_as_uint32 v = Some z" using v by (simp add: compat_hash_value_as_uint32_def parse_format_uint32)
    then have n: "gkm_secret_fields_get_compat_hashed_uint32 tab k = Some (Some z)"
      using Some k v by (simp add: gkm_secret_fields_get_compat_hashed_uint32_def field_value_def)
    then have "hashed_code env tab k = Number z" by (simp add: hashed_code_def)
    with Some n z v k show ?thesis by (simp add: code_ok_def)
  qed
qed

section \<open>The table that is read back\<close>

definition full_codes :: "fields \<Rightarrow> (bytes \<times> attr_code) list" where
  "full_codes tab = map (\<lambda>k. (k, full_code tab k)) (gkm_secret_fields_get_names tab)"

definition hashed_codes :: "Env \<Rightarrow> fields \<Rightarrow> (bytes \<times> attr_code) list" where
  "hashed_codes env tab = map (\<lambda>k. (k, hashed_code env tab k)) (gkm_secret_fields_get_names tab)"

definition full_table :: "fields \<Rightarrow> fields" where
  "full_table tab = fold (apply_attr False) (full_codes tab) gkm_secret_fields_new"

definition hashed_table :: "Env \<Rightarrow> fields \<Rightarrow> fields" where
  "hashed_table env tab = fold (apply_attr True) (hashed_codes env tab) gkm_secret_fields_new"

lemma name_of_field:
  assumes "fields_ok env tab" and "k \<in> set (gkm_secret_fields_get_names tab)"
  shows "\<not> is_compat_name k \<and> (\<exists>v. map_of tab k = Some v)"
  using assms names_of_fields(2) [OF assms(1)] by (cases "map_of tab k") (auto simp: map_of_eq_None_iff)

lemma apply_full:
  assumes ok: "fields_ok env tab" and k: "\<not> is_compat_name k" "map_of tab k = Some v"
  shows "map_of (apply_attr False (k, full_code tab k) t) q = (if q = k then map_of tab k
    else if q = uint32_name k \<and> map_of tab q \<noteq> None then Some (Some []) else map_of t q)"
proof -
  from fields_ok_plain [OF ok k] obtain x where x: "v = Some x" by blast
  note c = full_code_field [OF ok k]
  have ne: "k \<noteq> uint32_name n" for n using k(1) by auto
  show ?thesis
  proof (cases "map_of tab (uint32_name k)")
    case None
    then have "full_code tab k = Text v" using c [THEN conjunct1] by simp
    then show ?thesis using None k x by (auto simp: apply_attr_def update_conv)
  next
    case (Some m)
    from fields_ok_mark [OF ok Some] k obtain y where y: "v = Some (format_uint32 y)" by auto
    then have "full_code tab k = Number y" using c [THEN conjunct1] Some by (simp add: parse_format_uint32)
    then have u: "map_of (apply_attr False (k, full_code tab k) t) q
        = (if q = uint32_name k then Some (Some []) else if q = k then Some (Some (format_uint32 y)) else map_of t q)" by (simp add: apply_attr_def update_conv)
    show ?thesis
    proof (cases "q = k")
      case True
      then have "q \<noteq> uint32_name k" using ne by blast
      with u True k(2) y show ?thesis by simp
    next
      case False
      with u Some show ?thesis by simp
    qed
  qed
qed

lemma apply_full_list:
  assumes ok: "fields_ok env tab" and ks: "\<forall>k \<in> set ks. \<not> is_compat_name k \<and> (\<exists>v. map_of tab k = Some v)"
  shows "map_of (fold (apply_attr False) (map (\<lambda>k. (k, full_code tab k)) ks) t) q = (if q \<in> set ks then map_of tab q
    else if \<exists>n \<in> set ks. q = uint32_name n \<and> map_of tab q \<noteq> None then Some (Some []) else map_of t q)"
  using ks
proof (induction ks arbitrary: t)
  case (Cons k ks)
  from Cons.prems obtain v where k: "\<not> is_compat_name k" "map_of tab k = Some v" by auto
  have "\<not> is_compat_name n" if "n \<in> set ks" for n using Cons.prems that by simp
  then have plain: "uint32_name m \<notin> set ks" for m using compat_names(2) by blast
  show ?case using Cons plain by (auto simp: apply_full [OF ok k])
qed simp

lemma full_table_same:
  assumes ok: "fields_ok env tab"
  shows "map_of (full_table tab) = map_of tab"
proof
  fix q
  note names = names_of_fields(2) [OF ok]
  have "\<forall>k \<in> set (gkm_secret_fields_get_names tab). \<not> is_compat_name k \<and> (\<exists>v. map_of tab k = Some v)" using name_of_field [OF ok] by blast
  note a = apply_full_list [OF ok this, of gkm_secret_fields_new q, folded full_codes_def full_table_def]
  show "map_of (full_table tab) q = map_of tab q"
  proof (cases "map_of tab q")
    case None
    then have "q \<notin> fst ` set tab" by (simp add: map_of_eq_None_iff)
    then show ?thesis unfolding a names using None by (auto simp: gkm_secret_fields_new_def)
  next
    case (Some v)
    then have q: "q \<in> fst ` set tab" by (force dest: map_of_SomeD)
    show ?thesis
    proof (cases "is_compat_name q")
      case False
      then show ?thesis unfolding a names using q by simp
    next
      case True
      from fields_ok_compat [OF ok True Some] obtain n where n: "q = uint32_name n" "\<not> is_compat_name n" by blast
      from fields_ok_mark [OF ok Some [unfolded n(1)]] obtain x where "v = Some []" "map_of tab n = Some (Some (format_uint32 x))" by blast
      moreover then have "n \<in> set (gkm_secret_fields_get_names tab)" unfolding names using n(2) by (force dest: map_of_SomeD)
      ultimately show ?thesis unfolding a using Some True n names by auto
    qed
  qed
qed

lemma apply_hashed:
  assumes ok: "fields_ok env tab" "digests_ok env" and k: "\<not> is_compat_name k" "map_of tab k = Some v"
  shows "map_of (apply_attr True (k, hashed_code env tab k) t) q
    = (if q = hashed_name k then Some (if map_of tab (uint32_name k) = None then compat_hash_value_as_string (md5 env) v
          else map_option format_uint32 (compat_hash_value_as_uint32 v))
       else if q = uint32_name k \<and> map_of tab (uint32_name k) \<noteq> None then Some (Some k) else map_of t q)"
  using hashed_code_field [OF ok(2,1) k]
  by (cases "map_of tab (uint32_name k)") (auto simp: apply_attr_def update_conv)

lemma apply_hashed_list:
  assumes ok: "fields_ok env tab" "digests_ok env" and ks: "\<forall>k \<in> set ks. \<not> is_compat_name k \<and> (\<exists>v. map_of tab k = Some v)" and d: "distinct ks"
  shows "map_of (fold (apply_attr True) (map (\<lambda>k. (k, hashed_code env tab k)) ks) t) (hashed_name n)
      = (if n \<in> set ks then Some (if map_of tab (uint32_name n) = None then compat_hash_value_as_string (md5 env) (field_value tab n)
          else map_option format_uint32 (compat_hash_value_as_uint32 (field_value tab n))) else map_of t (hashed_name n))
    \<and> map_of (fold (apply_attr True) (map (\<lambda>k. (k, hashed_code env tab k)) ks) t) (uint32_name n)
      = (if n \<in> set ks \<and> map_of tab (uint32_name n) \<noteq> None then Some (Some n) else map_of t (uint32_name n))
    \<and> (\<not> is_compat_name q \<longrightarrow> map_of (fold (apply_attr True) (map (\<lambda>k. (k, hashed_code env tab k)) ks) t) q = map_of t q)"
  using ks d
proof (induction ks arbitrary: t)
  case (Cons k ks)
  from Cons.prems obtain v where k: "\<not> is_compat_name k" "map_of tab k = Some v" by auto
  have ne: "q \<noteq> hashed_name k" "q \<noteq> uint32_name k" if "\<not> is_compat_name q" using that by auto
  have fv: "field_value tab k = v" using k(2) by (simp add: field_value_def)
  have IH: "\<forall>k \<in> set ks. \<not> is_compat_name k \<and> (\<exists>v. map_of tab k = Some v)" "distinct ks" using Cons.prems by auto
  note i = Cons.IH [OF IH, of "apply_attr True (k, hashed_code env tab k) t"]
  have kn: "k \<notin> set ks" using Cons.prems(2) by simp
  show ?case unfolding list.map fold_Cons comp_def
  proof (intro conjI impI)
    show "map_of (fold (apply_attr True) (map (\<lambda>k. (k, hashed_code env tab k)) ks) (apply_attr True (k, hashed_code env tab k) t)) (hashed_name n)
      = (if n \<in> set (k # ks) then Some (if map_of tab (uint32_name n) = None then compat_hash_value_as_string (md5 env) (field_value tab n)
          else map_option format_uint32 (compat_hash_value_as_uint32 (field_value tab n))) else map_of t (hashed_name n))"
      using i [THEN conjunct1] kn fv by (cases "n = k") (simp_all add: apply_hashed [OF ok k])
    show "map_of (fold (apply_attr True) (map (\<lambda>k. (k, hashed_code env tab k)) ks) (apply_attr True (k, hashed_code env tab k) t)) (uint32_name n)
      = (if n \<in> set (k # ks) \<and> map_of tab (uint32_name n) \<noteq> None then Some (Some n) else map_of t (uint32_name n))"
      using i [THEN conjunct2, THEN conjunct1] kn by (cases "n = k"; cases "map_of tab (uint32_name n)") (simp_all add: apply_hashed [OF ok k])
    assume q: "\<not> is_compat_name q"
    then show "map_of (fold (apply_attr True) (map (\<lambda>k. (k, hashed_code env tab k)) ks) (apply_attr True (k, hashed_code env tab k) t)) q = map_of t q"
      using i [THEN conjunct2, THEN conjunct2] ne by (simp add: apply_hashed [OF ok k])
  qed
qed simp

lemma hashed_table_lookup:
  assumes ok: "fields_ok env tab" "digests_ok env"
  shows "\<not> is_compat_name n \<Longrightarrow> map_of (hashed_table env tab) n = None"
    "\<not> is_compat_name n \<Longrightarrow> map_of (hashed_table env tab) (hashed_name n) = (case map_of tab n of None \<Rightarrow> None
       | Some v \<Rightarrow> Some (if map_of tab (uint32_name n) = None then compat_hash_value_as_string (md5 env) v
           else map_option format_uint32 (compat_hash_value_as_uint32 v)))"
    "\<not> is_compat_name n \<Longrightarrow> map_of (hashed_table env tab) (uint32_name n)
       = (if map_of tab n \<noteq> None \<and> map_of tab (uint32_name n) \<noteq> None then Some (Some n) else None)"
proof -
  note names = names_of_fields(1,2) [OF ok(1)]
  have "\<forall>k \<in> set (gkm_secret_fields_get_names tab). \<not> is_compat_name k \<and> (\<exists>v. map_of tab k = Some v)" using name_of_field [OF ok(1)] by blast
  note a = apply_hashed_list [OF ok this names(1), of gkm_secret_fields_new n, folded hashed_codes_def hashed_table_def]
  have mem: "n \<in> set (gkm_secret_fields_get_names tab) \<longleftrightarrow> map_of tab n \<noteq> None" if "\<not> is_compat_name n"
    unfolding names(2) using that by (auto simp: map_of_eq_None_iff)
  show "\<not> is_compat_name n \<Longrightarrow> map_of (hashed_table env tab) n = None" using a [of n] by (simp add: gkm_secret_fields_new_def)
  show "\<not> is_compat_name n \<Longrightarrow> map_of (hashed_table env tab) (hashed_name n) = (case map_of tab n of None \<Rightarrow> None
       | Some v \<Rightarrow> Some (if map_of tab (uint32_name n) = None then compat_hash_value_as_string (md5 env) v
           else map_option format_uint32 (compat_hash_value_as_uint32 v)))"
    using a mem by (cases "map_of tab n") (simp_all add: gkm_secret_fields_new_def field_value_def)
  show "\<not> is_compat_name n \<Longrightarrow> map_of (hashed_table env tab) (uint32_name n)
       = (if map_of tab n \<noteq> None \<and> map_of tab (uint32_name n) \<noteq> None then Some (Some n) else None)"
    using a mem by (simp add: gkm_secret_fields_new_def)
qed

end
