(* ===== verification/SecretCodec.thy ===== *)
theory SecretCodec
  imports SecretTable
begin

text \<open>
  What the parts of a keyring file look like, and that they are read as they were written: the bytes of strings, times, fields
  and access lists.
\<close>

section \<open>Strings and times\<close>

context granting
begin

lemma add_time_writes: "writes (buffer_add_time h t) (encode_uint64 t)"
  unfolding buffer_add_time_def encode_uint64_def by (intro writes_check add_uint32_writes)

lemma add_text_writes: "text_ok env s \<Longrightarrow> writes (buffer_add_utf8_string h env s) (encode_byte_array s)"
  using add_uint32_writes writes_check [OF add_uint32_writes append_writes]
  by (cases s) (simp_all add: buffer_add_utf8_string_def [abs_def] egg_buffer_add_string_def [abs_def] encode_byte_array_def text_ok_def c_str_id Let_def)

lemma get_text_parses:
  assumes ok: "text_ok env s"
  shows "parses (buffer_get_utf8_string h env) s (encode_byte_array s)"
  unfolding parses_def
proof (intro allI impI)
  fix b pre post assume wf: "eb_wf b" and c: "eb_contents b = pre @ encode_byte_array s @ post"
  show "buffer_get_utf8_string h env b (length pre) = Some (Some (s, length pre + length (encode_byte_array s)), b)"
  proof (cases s)
    case None
    have "egg_buffer_get_uint32 b (length pre) = Some (Some (0xffffffff, length pre + 4), b)"
      by (rule parses_at [OF get_uint32_parses wf c [unfolded None encode_byte_array_def option.case]]) simp_all
    then show ?thesis using None by (simp add: buffer_get_utf8_string_def egg_buffer_get_string_def encode_byte_array_def)
  next
    case (Some x)
    have x: "0 \<notin> set x" "length x < 0x7fffffff" "utf8 env x" using ok Some by (simp_all add: text_ok_def)
    obtain m where "h (string_allocator (Some G_realloc) b) None (length x + 1) = Some m" using grant [of "length x + 1"] x(2) by fastforce
    from get_string_enc [OF wf c [unfolded Some] x(1,2) this] x Some show ?thesis
      by (simp add: buffer_get_utf8_string_def c_str_append_nul encode_byte_array_def)
  qed
qed

end

lemma get_time_parses: "parses buffer_get_time t (encode_uint64 t)"
  using get_uint64_parses [of t] by (simp add: parses_def buffer_get_time_def egg_buffer_get_uint64_def)

lemma get_bytes_parses: "parses (buffer_get_bytes (length bs)) bs bs"
  unfolding parses_def
proof (intro allI impI)
  fix b pre post assume wf: "eb_wf b" and c: "eb_contents b = pre @ bs @ post"
  have "eb_len b = length pre + length bs + length post" using length_eb_contents [OF wf] c by simp
  with eb_load_contents [OF wf c] show "buffer_get_bytes (length bs) b (length pre) = Some (Some (bs, length pre + length bs), b)"
    by (simp add: buffer_get_bytes_def)
qed

definition encode_codes :: "(bytes \<times> attr_code) list \<Rightarrow> bytes" where
  "encode_codes cs = egg_buffer_encode_uint32 (of_nat (length cs)) @ concat (map encode_attr cs)"

abbreviation zeros4 :: bytes where
  "zeros4 \<equiv> egg_buffer_encode_uint32 0 @ egg_buffer_encode_uint32 0 @ egg_buffer_encode_uint32 0 @ egg_buffer_encode_uint32 0"

lemma get_reserved_parses: "parses (get_reserved 4) () zeros4"
proof -
  have step: "parses (get_reserved n) () bs \<Longrightarrow> parses (get_reserved (Suc n)) () (egg_buffer_encode_uint32 0 @ bs)" for n bs
    unfolding get_reserved.simps [abs_def] by (rule parses_bind [OF get_uint32_parses])
  have nil: "parses (get_reserved 0) () []" by (simp add: parses_def)
  have "parses (get_reserved (Suc (Suc (Suc (Suc 0))))) () zeros4"
    using step [OF step [OF step [OF step [OF nil]]]] by simp
  then show ?thesis by (simp add: numeral_eq_Suc)
qed

context granting
begin

lemma add_reserved_writes: "writes0 (add_reserved h) zeros4"
  unfolding add_reserved_def
  by (rule writes0_eq, (rule writes0_ignore [OF add_uint32_writes])+, rule writes0_end, simp)

section \<open>Fields\<close>

lemma add_attribute_writes:
  assumes ok: "fields_ok env tab" and k: "k \<in> set (gkm_secret_fields_get_names tab)"
  shows "writes0 (buffer_add_attribute h env tab k) (encode_attr (k, full_code tab k))"
proof -
  from name_of_field [OF ok k] obtain v where k: "\<not> is_compat_name k" "map_of tab k = Some v" by blast
  note c = full_code_field [OF ok k, THEN conjunct2, THEN conjunct1] full_code_field [OF ok k, THEN conjunct2, THEN conjunct2, THEN conjunct2]
  have t: "text_ok env (Some k)" using c(2) by (simp add: code_ok_def)
  show ?thesis
  proof (cases "full_code tab k")
    case (Text s)
    have n: "gkm_secret_fields_get_compat_uint32 tab k = Some None" "text_ok env s" using c unfolding Text by (simp_all add: code_ok_def)
    then have "gkm_secret_fields_get tab k = s" using Text by (simp add: full_code_def)
    with n show ?thesis unfolding buffer_add_attribute_def Text encode_attr_def
      by simp (rule writes0_eq, rule writes0_ignore [OF add_text_writes [OF t]], rule writes0_ignore [OF add_uint32_writes],
          rule writes0_ignore [OF add_text_writes], assumption, rule writes0_end, simp)
  next
    case (Number n)
    then have "gkm_secret_fields_get_compat_uint32 tab k = Some (Some n)" using c(1) by simp
    then show ?thesis unfolding buffer_add_attribute_def Number encode_attr_def
      by simp (rule writes0_eq, rule writes0_ignore [OF add_text_writes [OF t]], rule writes0_ignore [OF add_uint32_writes],
          rule writes0_ignore [OF add_uint32_writes], rule writes0_end, simp)
  qed
qed

lemma add_hashed_attribute_writes:
  assumes env: "digests_ok env" and ok: "fields_ok env tab" and k: "k \<in> set (gkm_secret_fields_get_names tab)"
  shows "writes0 (buffer_add_hashed_attribute h env tab k) (encode_attr (k, hashed_code env tab k))"
proof -
  from name_of_field [OF ok k] obtain v where k: "\<not> is_compat_name k" "map_of tab k = Some v" by blast
  note c = hashed_code_field [OF env ok k, THEN conjunct1]
    hashed_code_field [OF env ok k, THEN conjunct2, THEN conjunct2, THEN conjunct2, THEN conjunct1, rule_format]
    hashed_code_field [OF env ok k, THEN conjunct2, THEN conjunct2, THEN conjunct2, THEN conjunct2]
  have t: "text_ok env (Some k)" using c(3) by (simp add: code_ok_def)
  show ?thesis
  proof (cases "hashed_code env tab k")
    case (Text s)
    have s: "gkm_secret_fields_get_compat_hashed_string (md5 env) tab k = Some (Some s)" by (rule c(2) [OF Text])
    have "gkm_secret_fields_get_compat_hashed_uint32 tab k = Some None" "text_ok env s" using c(1,3) unfolding Text by (simp_all add: code_ok_def)
    with s show ?thesis unfolding buffer_add_hashed_attribute_def Text encode_attr_def
      by simp (rule writes0_eq, rule writes0_ignore [OF add_text_writes [OF t]], rule writes0_ignore [OF add_uint32_writes],
          rule writes0_ignore [OF add_text_writes], assumption, rule writes0_end, simp)
  next
    case (Number n)
    then have "gkm_secret_fields_get_compat_hashed_uint32 tab k = Some (Some n)" using c(1) by simp
    then show ?thesis unfolding buffer_add_hashed_attribute_def Number encode_attr_def
      by simp (rule writes0_eq, rule writes0_ignore [OF add_text_writes [OF t]], rule writes0_ignore [OF add_uint32_writes],
          rule writes0_ignore [OF add_uint32_writes], rule writes0_end, simp)
  qed
qed

lemma add_attribute_loop_writes:
  "\<forall>k \<in> set ks. writes0 (add k) (enc k) \<Longrightarrow> writes0 (add_attribute_loop add ks) (concat (map enc ks))"
proof (induction ks)
  case Nil
  then show ?case using writes0_end by (simp add: writes0_def)
next
  case (Cons k ks)
  then have "writes0 (\<lambda>b. do { b1 \<leftarrow> add k b; add_attribute_loop add ks b1 }) (enc k @ concat (map enc ks))" by (intro writes0_seq) simp_all
  then show ?case by (simp add: writes0_def)
qed

lemma add_attributes_writes:
  assumes env: "digests_ok env" and ok: "fields_ok env tab"
  shows "writes (buffer_add_attributes h env False tab) (encode_codes (full_codes tab))"
    "writes (buffer_add_attributes h env True tab) (encode_codes (hashed_codes env tab))"
proof -
  have 1: "writes0 (add_attribute_loop (buffer_add_attribute h env tab) (gkm_secret_fields_get_names tab)) (concat (map encode_attr (full_codes tab)))"
    using add_attribute_loop_writes [of "gkm_secret_fields_get_names tab" "buffer_add_attribute h env tab" "\<lambda>k. encode_attr (k, full_code tab k)"]
      add_attribute_writes [OF ok] by (simp add: full_codes_def comp_def)
  have 2: "writes0 (add_attribute_loop (buffer_add_hashed_attribute h env tab) (gkm_secret_fields_get_names tab)) (concat (map encode_attr (hashed_codes env tab)))"
    using add_attribute_loop_writes [of "gkm_secret_fields_get_names tab" "buffer_add_hashed_attribute h env tab" "\<lambda>k. encode_attr (k, hashed_code env tab k)"]
      add_hashed_attribute_writes [OF env ok] by (simp add: hashed_codes_def comp_def)
  show "writes (buffer_add_attributes h env False tab) (encode_codes (full_codes tab))"
    unfolding buffer_add_attributes_def encode_codes_def Let_def if_False
    by (rule writes_eq, rule writes_ignore [OF add_uint32_writes], rule writes0_bind [OF 1], rule writes_end(2)) (simp add: full_codes_def)
  show "writes (buffer_add_attributes h env True tab) (encode_codes (hashed_codes env tab))"
    unfolding buffer_add_attributes_def encode_codes_def Let_def if_True
    by (rule writes_eq, rule writes_ignore [OF add_uint32_writes], rule writes0_bind [OF 2], rule writes_end(2)) (simp add: hashed_codes_def)
qed

lemma get_attribute_loop_parses:
  "\<forall>c \<in> set cs. code_ok env c \<Longrightarrow> parses (get_attribute_loop h env hashed (length cs) t) (fold (apply_attr hashed) cs t) (concat (map encode_attr cs))"
proof (induction cs arbitrary: t)
  case Nil
  then show ?case by (simp add: parses_def)
next
  case (Cons c cs)
  obtain k code where c: "c = (k, code)" by force
  have k: "\<not> is_compat_name k" "text_ok env (Some k)" using Cons.prems c by (simp_all add: code_ok_def)
  let ?t = "apply_attr hashed c t"
  have rest: "parses (get_attribute_loop h env hashed (length cs) ?t) (fold (apply_attr hashed) cs ?t) (concat (map encode_attr cs))"
    using Cons.prems by (intro Cons.IH) simp
  show ?case
  proof (cases code)
    case (Text v)
    then have v: "text_ok env v" using Cons.prems c by (simp add: code_ok_def)
    have a: "(if hashed then gkm_secret_fields_add_compat_hashed_string t (Some k) v else Some (gkm_secret_fields_take t (Some k) v)) = Some ?t"
      using k Text c by (simp add: gkm_secret_fields_add_compat_hashed_string_def gkm_secret_fields_take_def apply_attr_def)
    have "parses (get_attribute_loop h env hashed (Suc (length cs)) t) (fold (apply_attr hashed) cs ?t)
        (encode_byte_array (Some k) @ egg_buffer_encode_uint32 0 @ encode_byte_array v @ concat (map encode_attr cs))"
      unfolding get_attribute_loop.simps [abs_def]
      by (rule parses_bind [OF get_text_parses [OF k(2)]], rule parses_bind [OF get_uint32_parses], simp only: refl if_True,
          rule parses_bind [OF get_text_parses [OF v]]) (simp only: a Option.bind.bind_lunit rest)
    then show ?thesis by (simp only: c Text encode_attr_simps list.map concat.simps append_assoc length_Cons fold_simps)
  next
    case (Number n)
    have a: "(if hashed then gkm_secret_fields_add_compat_hashed_uint32 t (Some k) n else gkm_secret_fields_add_compat_uint32 t (Some k) n) = Some ?t"
      using k Number c by (simp add: gkm_secret_fields_add_compat_hashed_uint32_def gkm_secret_fields_add_compat_uint32_def apply_attr_def)
    have one: "(1 :: 32 word) \<noteq> 0" by simp
    have "parses (get_attribute_loop h env hashed (Suc (length cs)) t) (fold (apply_attr hashed) cs ?t)
        (encode_byte_array (Some k) @ egg_buffer_encode_uint32 1 @ egg_buffer_encode_uint32 n @ concat (map encode_attr cs))"
      unfolding get_attribute_loop.simps [abs_def]
      by (rule parses_bind [OF get_text_parses [OF k(2)]], rule parses_bind [OF get_uint32_parses], simp only: one refl if_True if_False,
          rule parses_bind [OF get_uint32_parses]) (simp only: a Option.bind.bind_lunit rest)
    then show ?thesis by (simp only: c Number encode_attr_simps list.map concat.simps append_assoc length_Cons fold_simps)
  qed
qed

lemma get_attributes_parses:
  assumes "\<forall>c \<in> set cs. code_ok env c" and "length cs < 2 ^ 31"
  shows "parses (buffer_get_attributes h env hashed) (fold (apply_attr hashed) cs gkm_secret_fields_new) (encode_codes cs)"
proof -
  have u: "unat (of_nat (length cs) :: 32 word) = length cs" using assms(2) by (intro unat_of_nat_small) simp
  show ?thesis unfolding buffer_get_attributes_def encode_codes_def
    by (rule parses_bind [OF get_uint32_parses], unfold u, rule get_attribute_loop_parses [OF assms(1)])
qed

lemma full_attributes_parse:
  assumes "fields_ok env tab"
  shows "parses (buffer_get_attributes h env False) (full_table tab) (encode_codes (full_codes tab))"
proof -
  have "\<forall>c \<in> set (full_codes tab). code_ok env c"
    using name_of_field [OF assms] full_code_field [OF assms] by (fastforce simp: full_codes_def)
  moreover have "length (full_codes tab) < 2 ^ 31" using names_of_fields(3) [OF assms] by (simp add: full_codes_def)
  ultimately show ?thesis unfolding full_table_def by (rule get_attributes_parses)
qed

lemma hashed_attributes_parse:
  assumes "fields_ok env tab" "digests_ok env"
  shows "parses (buffer_get_attributes h env True) (hashed_table env tab) (encode_codes (hashed_codes env tab))"
proof -
  have "\<forall>c \<in> set (hashed_codes env tab). code_ok env c"
    using name_of_field [OF assms(1)] hashed_code_field [OF assms(2,1), THEN conjunct2, THEN conjunct2, THEN conjunct2, THEN conjunct2]
    by (fastforce simp: hashed_codes_def)
  moreover have "length (hashed_codes env tab) < 2 ^ 31" using names_of_fields(3) [OF assms(1)] by (simp add: hashed_codes_def)
  ultimately show ?thesis unfolding hashed_table_def by (rule get_attributes_parses)
qed

end

section \<open>Access lists\<close>

definition encode_access :: "GkmSecretAccess \<Rightarrow> bytes" where
  "encode_access ac = egg_buffer_encode_uint32 (types_allowed ac) @ encode_byte_array (ac_display_name ac) @ encode_byte_array (ac_pathname ac)
     @ encode_byte_array None @ egg_buffer_encode_uint32 0"

definition encode_acl :: "GkmSecretAccess list \<Rightarrow> bytes" where
  "encode_acl acl = egg_buffer_encode_uint32 (of_nat (length acl)) @ concat (map encode_access acl)"

definition acl_ok :: "Env \<Rightarrow> GkmSecretAccess list \<Rightarrow> bool" where
  "acl_ok env acl \<longleftrightarrow> length acl < 2 ^ 31 \<and> (\<forall>ac \<in> set acl. text_ok env (ac_display_name ac) \<and> text_ok env (ac_pathname ac))"

lemma text_ok_None [simp]: "text_ok env None"
  by (simp add: text_ok_def)

context granting
begin

lemma acl_loop_writes: "\<forall>ac \<in> set acl. text_ok env (ac_display_name ac) \<and> text_ok env (ac_pathname ac) \<Longrightarrow> writes (acl_loop h env acl) (concat (map encode_access acl))"
proof (induction acl)
  case Nil
  then show ?case using writes_end(1) by (simp add: writes_def)
next
  case (Cons ac acl)
  have t: "text_ok env (ac_display_name ac)" "text_ok env (ac_pathname ac)" using Cons.prems by simp_all
  have w: "writes (acl_loop h env acl) (concat (map encode_access acl))" using Cons by simp
  show ?case unfolding acl_loop.simps [abs_def]
    by (rule writes_eq, rule writes_ignore [OF add_uint32_writes], rule writes_check [OF add_text_writes [OF t(1)]], rule writes_check [OF add_text_writes [OF t(2)]],
        rule writes_check [OF add_text_writes [OF text_ok_None]], rule writes_ignore [OF add_uint32_writes], rule w) (simp add: encode_access_def [of ac])
qed

lemma acl_writes: "acl_ok env acl \<Longrightarrow> writes (generate_acl_data h env acl) (encode_acl acl)"
  unfolding generate_acl_data_def encode_acl_def acl_ok_def by (intro writes_ignore add_uint32_writes acl_loop_writes) simp

lemma decode_acl_loop_parses:
  "\<forall>ac \<in> set acl. text_ok env (ac_display_name ac) \<and> text_ok env (ac_pathname ac)
    \<Longrightarrow> parses (decode_acl_loop h env (length acl) acc) (rev acc @ acl) (concat (map encode_access acl))"
proof (induction acl arbitrary: acc)
  case Nil
  then show ?case by (simp add: parses_def)
next
  case (Cons ac acl)
  have t: "text_ok env (ac_display_name ac)" "text_ok env (ac_pathname ac)" using Cons.prems by simp_all
  have ac: "\<lparr>ac_display_name = ac_display_name ac, ac_pathname = ac_pathname ac, types_allowed = types_allowed ac\<rparr> = ac" by simp
  have w: "parses (decode_acl_loop h env (length acl) (ac # acc)) (rev (ac # acc) @ acl) (concat (map encode_access acl))"
    using Cons.prems by (intro Cons.IH) simp
  have "parses (decode_acl_loop h env (Suc (length acl)) acc) (rev (ac # acc) @ acl) (egg_buffer_encode_uint32 (types_allowed ac) @ encode_byte_array (ac_display_name ac)
      @ encode_byte_array (ac_pathname ac) @ encode_byte_array None @ egg_buffer_encode_uint32 0 @ concat (map encode_access acl))"
    unfolding decode_acl_loop.simps [abs_def]
    by (rule parses_bind [OF get_uint32_parses], rule parses_bind [OF get_text_parses [OF t(1)]], rule parses_bind [OF get_text_parses [OF t(2)]],
        rule parses_bind [OF get_text_parses [OF text_ok_None]], rule parses_bind [OF get_uint32_parses]) (simp only: ac w)
  then show ?case by (simp only: encode_access_def [of ac] list.map concat.simps append_assoc append.simps rev.simps length_Cons)
qed

lemma acl_parses:
  assumes "acl_ok env acl"
  shows "parses (decode_acl h env) acl (encode_acl acl)"
proof -
  have u: "unat (of_nat (length acl) :: 32 word) = length acl" using assms by (intro unat_of_nat_small) (simp add: acl_ok_def)
  have "parses (decode_acl_loop h env (length acl) []) acl (concat (map encode_access acl))"
    using decode_acl_loop_parses [of acl env "[]"] assms by (simp add: acl_ok_def)
  then show ?thesis unfolding decode_acl_def encode_acl_def using u by (intro parses_bind [OF get_uint32_parses]) simp
qed

end

end
