(* ===== verification/SecretItems.thy ===== *)
theory SecretItems
  imports SecretCodec
begin

text \<open>
  The items of a keyring file as bytes, in the part that can be read without the password and in the encrypted part, and the
  chaining of the cipher: what is decrypted is what was encrypted.
\<close>

section \<open>Items\<close>

definition secret_of :: "GkmSecretData \<Rightarrow> bytes \<Rightarrow> bytes option" where
  "secret_of sd identifier = (case gkm_secret_data_get_secret sd identifier of None \<Rightarrow> None | Some d \<Rightarrow> d)"

definition encode_front :: "bytes option \<Rightarrow> bytes option \<Rightarrow> 64 word \<Rightarrow> 64 word \<Rightarrow> bytes" where
  "encode_front lbl secret created modified = encode_byte_array lbl @ encode_byte_array secret @ encode_uint64 created @ encode_uint64 modified
     @ encode_byte_array None @ zeros4"

definition encode_item :: "GkmSecretData \<Rightarrow> GkmSecretItem \<Rightarrow> bytes" where
  "encode_item sd item = encode_front (item_label item) (secret_of sd (item_identifier item)) (item_created item) (item_modified item)
     @ encode_codes (full_codes (item_fields item)) @ encode_acl (compat_acl item)"

definition item_number :: "GkmSecretItem \<Rightarrow> 32 word" where
  "item_number item = snd (convert_to_integer (item_identifier item))"

definition encode_hashed_item :: "Env \<Rightarrow> GkmSecretItem \<Rightarrow> bytes" where
  "encode_hashed_item env item = egg_buffer_encode_uint32 (item_number item)
     @ egg_buffer_encode_uint32 (gkm_secret_compat_parse_item_type (item_schema item)) @ encode_codes (hashed_codes env (item_fields item))"

text \<open>Items that can be written: their texts can be read again and their identifiers are numbers as they are printed.\<close>

definition item_ok :: "Env \<Rightarrow> GkmSecretData \<Rightarrow> GkmSecretItem \<Rightarrow> bool" where
  "item_ok env sd item \<longleftrightarrow> text_ok env (item_label item) \<and> length_ok (secret_of sd (item_identifier item)) \<and> fields_ok env (item_fields item)
     \<and> acl_ok env (compat_acl item) \<and> format_uint32 (item_number item) = item_identifier item"

lemma item_number_ok:
  assumes "item_ok env sd item"
  shows "convert_to_integer (item_identifier item) = (True, item_number item)"
proof -
  have "item_identifier item = format_uint32 (item_number item)" using assms by (simp add: item_ok_def)
  then show ?thesis using convert_format_uint32 by metis
qed

text \<open>What is known of an item from the first part of the file, and from both.\<close>

definition hashed_info :: "Env \<Rightarrow> GkmSecretItem \<Rightarrow> ItemInfo" where
  "hashed_info env item = item_info_new\<lparr>info_id := item_number item, info_type := gkm_secret_compat_parse_item_type (item_schema item),
     info_attributes := Some (hashed_table env (item_fields item)), info_identifier := item_identifier item\<rparr>"

definition full_info :: "Env \<Rightarrow> GkmSecretData \<Rightarrow> GkmSecretItem \<Rightarrow> ItemInfo" where
  "full_info env sd item = (hashed_info env item)\<lparr>info_display_name := item_label item, info_secret := secret_of sd (item_identifier item),
     info_ctime := item_created item, info_mtime := item_modified item, info_attributes := Some (full_table (item_fields item)),
     info_acl := compat_acl item\<rparr>"

context granting
begin

lemma encrypted_item_writes:
  assumes env: "digests_ok env" and ok: "item_ok env sd item"
  shows "writes (encrypted_item h env sd item) (encode_item sd item)"
proof -
  have o: "text_ok env (item_label item)" "length_ok (secret_of sd (item_identifier item))" "fields_ok env (item_fields item)" "acl_ok env (compat_acl item)"
    using ok by (simp_all add: item_ok_def)
  have s: "writes (buffer_add_secret h (gkm_secret_data_get_secret sd (item_identifier item))) (encode_byte_array (secret_of sd (item_identifier item)))"
    using add_byte_array_writes [OF o(2)] by (simp add: buffer_add_secret_def [abs_def] secret_of_def)
  show ?thesis unfolding encrypted_item_def encode_item_def encode_front_def
    by (rule writes_eq, rule writes_ignore [OF add_text_writes [OF o(1)]], rule writes_ignore [OF s], (rule writes_check [OF add_time_writes])+,
        rule writes_check [OF add_text_writes [OF text_ok_None]], rule writes0_bind [OF add_reserved_writes],
        rule writes_check [OF add_attributes_writes(1) [OF env o(3)]], rule acl_writes [OF o(4)]) simp
qed

lemma encrypted_items_writes:
  assumes env: "digests_ok env"
  shows "\<forall>item \<in> set its. item_ok env sd item \<Longrightarrow> writes (encrypted_items h env sd its) (concat (map (encode_item sd) its))"
proof (induction its)
  case Nil
  then show ?case using writes_end(1) by (simp add: writes_def)
next
  case (Cons item its)
  then have "writes (\<lambda>b. do { (ok, b1) \<leftarrow> encrypted_item h env sd item b; if \<not> ok then Some (False, b1) else encrypted_items h env sd its b1 })
      (encode_item sd item @ concat (map (encode_item sd) its))"
    by (intro writes_check encrypted_item_writes [OF env]) simp_all
  then show ?case by (simp add: writes_def room_def egg_buffer_has_error_def)
qed

lemma hashed_items_writes:
  assumes env: "digests_ok env"
  shows "\<forall>item \<in> set its. item_ok env sd item \<Longrightarrow> writes0 (hashed_items h env its) (concat (map (encode_hashed_item env) its))"
proof (induction its)
  case Nil
  then show ?case using writes0_end by (simp add: writes0_def)
next
  case (Cons item its)
  have ok: "item_ok env sd item" and f: "fields_ok env (item_fields item)" using Cons.prems by (simp_all add: item_ok_def)
  have w: "writes0 (hashed_items h env its) (concat (map (encode_hashed_item env) its))" using Cons by simp
  show ?case unfolding hashed_items.simps [abs_def] item_number_ok [OF ok] prod.case not_True_eq_False if_False
    by (rule writes0_eq, (rule writes0_ignore [OF add_uint32_writes])+, rule writes0_ignore [OF add_attributes_writes(2) [OF env f]], rule w)
      (simp add: encode_hashed_item_def [of env item])
qed

lemma generate_hashed_items_writes:
  assumes "digests_ok env" and "\<forall>item \<in> set its. item_ok env sd item"
  shows "writes (generate_hashed_items h env its) (egg_buffer_encode_uint32 (of_nat (length its)) @ concat (map (encode_hashed_item env) its))"
  unfolding generate_hashed_items_def
  by (rule writes_eq, rule writes_ignore [OF add_uint32_writes], rule writes0_bind [OF hashed_items_writes [OF assms]], rule writes_end(2)) simp

lemma hashed_items_parse:
  assumes env: "digests_ok env"
  shows "\<forall>item \<in> set its. item_ok env sd item \<Longrightarrow>
    parses (read_hashed_item_info h env (length its) infos) (rev infos @ map (hashed_info env) its) (concat (map (encode_hashed_item env) its))"
proof (induction its arbitrary: infos)
  case Nil
  then show ?case by (simp add: parses_def)
next
  case (Cons item its)
  have ok: "fields_ok env (item_fields item)" "format_uint32 (item_number item) = item_identifier item"
    using Cons.prems by (simp_all add: item_ok_def)
  have w: "parses (read_hashed_item_info h env (length its) (hashed_info env item # infos)) (rev (hashed_info env item # infos) @ map (hashed_info env) its)
      (concat (map (encode_hashed_item env) its))" using Cons.prems by (intro Cons.IH) simp
  have "parses (read_hashed_item_info h env (Suc (length its)) infos) (rev (hashed_info env item # infos) @ map (hashed_info env) its)
     (egg_buffer_encode_uint32 (item_number item) @ egg_buffer_encode_uint32 (gkm_secret_compat_parse_item_type (item_schema item))
       @ encode_codes (hashed_codes env (item_fields item)) @ concat (map (encode_hashed_item env) its))"
    unfolding read_hashed_item_info.simps [abs_def]
    by (rule parses_bind [OF get_uint32_parses], rule parses_bind [OF get_uint32_parses], rule parses_bind [OF hashed_attributes_parse [OF ok(1) env]])
      (use w in \<open>simp only: ok(2) hashed_info_def\<close>)
  then show ?case
    by (simp only: encode_hashed_item_def [of env item] list.map concat.simps append_assoc append.simps rev.simps length_Cons)
qed

text \<open>An item is read up to its fields, whatever follows.\<close>

lemma item_front_read:
  assumes ok: "text_ok env lbl" "length_ok secret" and wf: "eb_wf b" and c: "eb_contents b = pre @ encode_front lbl secret created modified @ post"
  shows "read_full_item h env info b (length pre) = do {
     (ra, b7) \<leftarrow> buffer_get_attributes h env False b (length (pre @ encode_front lbl secret created modified));
     case ra of None \<Rightarrow> Some (info\<lparr>attributes_freed := info_attributes info \<noteq> None\<rparr>, None, b7)
     | Some (attributes, off7) \<Rightarrow> do {
         (rl, b8) \<leftarrow> decode_acl h env b7 off7;
         let info1 = info\<lparr>info_display_name := lbl, info_secret := secret, info_ctime := created, info_mtime := modified, info_attributes := Some attributes\<rparr>;
         case rl of None \<Rightarrow> Some (info1, None, b8) | Some (acl, off8) \<Rightarrow> Some (info1\<lparr>info_acl := acl\<rparr>, Some off8, b8)
       }
   }"
proof -
  let ?e1 = "encode_byte_array lbl" and ?e2 = "encode_byte_array secret" and ?e3 = "encode_uint64 created" and ?e4 = "encode_uint64 modified" and ?e5 = "encode_byte_array None"
  let ?p1 = "pre @ ?e1" let ?p2 = "?p1 @ ?e2" let ?p3 = "?p2 @ ?e3" let ?p4 = "?p3 @ ?e4" let ?p5 = "?p4 @ ?e5" let ?p6 = "?p5 @ zeros4"
  note c = c [unfolded encode_front_def append_assoc]
  have "buffer_get_utf8_string h env b (length pre) = Some (Some (lbl, length ?p1), b)"
    by (rule parses_at [OF get_text_parses [OF ok(1)] wf]) (simp_all add: c)
  moreover have "egg_buffer_get_byte_array b (length ?p1) = Some (Some (secret, length ?p2), b)"
    by (rule parses_at [OF get_byte_array_parses [OF ok(2)] wf, where pre = ?p1]) (simp_all add: c)
  moreover have "buffer_get_time b (length ?p2) = Some (Some (created, length ?p3), b)"
    by (rule parses_at [OF get_time_parses wf, where pre = ?p2]) (simp_all add: c)
  moreover have "buffer_get_time b (length ?p3) = Some (Some (modified, length ?p4), b)"
    by (rule parses_at [OF get_time_parses wf, where pre = ?p3]) (simp_all add: c)
  moreover have "buffer_get_utf8_string h env b (length ?p4) = Some (Some (None, length ?p5), b)"
    by (rule parses_at [OF get_text_parses [OF text_ok_None] wf, where pre = ?p4]) (simp_all add: c)
  moreover have "get_reserved 4 b (length ?p5) = Some (Some ((), length ?p6), b)"
    by (rule parses_at [OF get_reserved_parses wf, where pre = ?p5]) (simp_all add: c)
  moreover have "length ?p6 = length (pre @ encode_front lbl secret created modified)" by (simp add: encode_front_def)
  ultimately show ?thesis unfolding read_full_item_def by (simp only: bind.bind_lunit prod.case option.case)
qed

lemma full_item_read:
  assumes env: "digests_ok env" and ok: "item_ok env sd item" and wf: "eb_wf b" and c: "eb_contents b = pre @ encode_item sd item @ post"
  shows "read_full_item h env (hashed_info env item) b (length pre) = Some (full_info env sd item, Some (length pre + length (encode_item sd item)), b)"
proof -
  have o: "text_ok env (item_label item)" "length_ok (secret_of sd (item_identifier item))" "fields_ok env (item_fields item)" "acl_ok env (compat_acl item)"
    using ok by (simp_all add: item_ok_def)
  let ?front = "encode_front (item_label item) (secret_of sd (item_identifier item)) (item_created item) (item_modified item)"
  let ?e7 = "encode_codes (full_codes (item_fields item))" and ?e8 = "encode_acl (compat_acl item)"
  have c1: "eb_contents b = pre @ ?front @ ?e7 @ ?e8 @ post" using c by (simp add: encode_item_def)
  have 1: "buffer_get_attributes h env False b (length (pre @ ?front)) = Some (Some (full_table (item_fields item), length (pre @ ?front @ ?e7)), b)"
    by (rule parses_at [OF full_attributes_parse [OF o(3)] wf, where pre = "pre @ ?front"]) (simp_all add: c1)
  have 2: "decode_acl h env b (length (pre @ ?front @ ?e7)) = Some (Some (compat_acl item, length pre + length (encode_item sd item)), b)"
    by (rule parses_at [OF acl_parses [OF o(4)] wf, where pre = "pre @ ?front @ ?e7"]) (simp_all add: c1 encode_item_def)
  show ?thesis unfolding item_front_read [OF o(1,2) wf c1] 1 bind.bind_lunit prod.case option.case 2 Let_def full_info_def by (rule refl)
qed

text \<open>When the fields of an item cannot be read, the ones found in the first part are released, and then released again with the item.\<close>

lemma damaged_item_freed_twice:
  assumes "text_ok env lbl" and "length_ok secret" and "eb_wf b" and "eb_contents b = pre @ encode_front lbl secret created modified @ post"
    and "buffer_get_attributes h env False b (length (pre @ encode_front lbl secret created modified)) = Some (None, b1)" and "info_attributes info \<noteq> None"
  shows "\<exists>infos'. read_full_item_info h env (info # infos) b (length pre) = Some (False, infos', b1) \<and> free_items infos' = None"
  using item_front_read [OF assms(1-4), of info] assms(5,6) by (simp add: free_item_info_def)

lemma full_items_read:
  assumes env: "digests_ok env" and wf: "eb_wf b"
  shows "\<lbrakk>\<forall>item \<in> set its. item_ok env sd item; eb_contents b = pre @ concat (map (encode_item sd) its) @ post\<rbrakk>
    \<Longrightarrow> read_full_item_info h env (map (hashed_info env) its) b (length pre) = Some (True, map (full_info env sd) its, b)"
proof (induction its arbitrary: pre)
  case Nil
  then show ?case by simp
next
  case (Cons item its)
  have c: "eb_contents b = pre @ encode_item sd item @ (concat (map (encode_item sd) its) @ post)"
    "eb_contents b = (pre @ encode_item sd item) @ concat (map (encode_item sd) its) @ post" using Cons.prems(2) by simp_all
  have "item_ok env sd item" using Cons.prems(1) by simp
  note full_item_read [OF env this wf c(1)]
  moreover have "read_full_item_info h env (map (hashed_info env) its) b (length pre + length (encode_item sd item)) = Some (True, map (full_info env sd) its, b)"
    using Cons.IH [OF _ c(2)] Cons.prems(1) by simp
  ultimately show ?case by simp
qed

end

end
