(* ===== verification/SecretCipher.thy ===== *)
theory SecretCipher
  imports SecretItems
begin

text \<open>
  The encrypted part of a keyring file: the chaining of the cipher undoes itself, the last block is filled up, and what
  is decrypted with the same master secret is what was encrypted.
\<close>

section \<open>Chaining\<close>

fun cbc_encrypt :: "(bytes \<Rightarrow> bytes) \<Rightarrow> nat \<Rightarrow> bytes \<Rightarrow> bytes \<Rightarrow> bytes" where
  "cbc_encrypt f 0 chain bs = []"
| "cbc_encrypt f (Suc n) chain bs = (let c = f (xor_bytes (take 16 bs) chain) in c @ cbc_encrypt f n c (drop 16 bs))"

fun cbc_decrypt :: "(bytes \<Rightarrow> bytes) \<Rightarrow> nat \<Rightarrow> bytes \<Rightarrow> bytes \<Rightarrow> bytes" where
  "cbc_decrypt f 0 chain bs = []"
| "cbc_decrypt f (Suc n) chain bs = xor_bytes (f (take 16 bs)) chain @ cbc_decrypt f n (take 16 bs) (drop 16 bs)"

lemma length_xor_bytes [simp]: "length (xor_bytes xs ys) = min (length xs) (length ys)"
  by (simp add: xor_bytes_def)

lemma xor_bytes_twice: "length xs \<le> length ys \<Longrightarrow> xor_bytes (xor_bytes xs ys) ys = xs"
  by (rule nth_equalityI) (simp_all add: xor_bytes_def xor.assoc)

lemma length_cbc_encrypt: "(\<And>x. length x = 16 \<Longrightarrow> length (f x) = 16) \<Longrightarrow> length chain = 16 \<Longrightarrow> length bs = 16 * n \<Longrightarrow> length (cbc_encrypt f n chain bs) = 16 * n"
  by (induction f n chain bs rule: cbc_encrypt.induct) (simp_all add: Let_def min_def)

lemma length_cbc_decrypt: "(\<And>x. length x = 16 \<Longrightarrow> length (f x) = 16) \<Longrightarrow> length chain = 16 \<Longrightarrow> length bs = 16 * n \<Longrightarrow> length (cbc_decrypt f n chain bs) = 16 * n"
  by (induction f n chain bs rule: cbc_decrypt.induct) (simp_all add: min_def)

lemma cbc_roundtrip:
  assumes f: "\<And>x. length x = 16 \<Longrightarrow> length (f x) = 16" and g: "\<And>x. length x = 16 \<Longrightarrow> g (f x) = x"
  shows "length chain = 16 \<Longrightarrow> length bs = 16 * n \<Longrightarrow> cbc_decrypt g n chain (cbc_encrypt f n chain bs) = bs"
proof (induction n arbitrary: chain bs)
  case (Suc n)
  let ?x = "xor_bytes (take 16 bs) chain"
  have x: "length ?x = 16" using Suc.prems by simp
  have "cbc_decrypt g n (f ?x) (cbc_encrypt f n (f ?x) (drop 16 bs)) = drop 16 bs" using Suc.prems f [OF x] by (intro Suc.IH) simp_all
  moreover have "xor_bytes ?x chain = take 16 bs" using Suc.prems by (intro xor_bytes_twice) simp
  ultimately show ?case using f [OF x] g [OF x] by (simp add: Let_def)
qed simp

section \<open>In place\<close>

text \<open>A buffer whose contents have changed.\<close>

definition holds :: "EggBuffer \<Rightarrow> bytes \<Rightarrow> EggBuffer \<Rightarrow> bool" where
  "holds b bs b' \<longleftrightarrow> eb_wf b' \<and> eb_contents b' = bs \<and> eb_allocator b' = eb_allocator b \<and> eb_failures b' = eb_failures b"

lemma holds_len: "holds b bs b' \<Longrightarrow> eb_len b' = length bs"
  using length_eb_contents [of b'] by (simp add: holds_def)

lemma store_inside:
  assumes "eb_wf b" and "eb_contents b = pre @ old @ post" and "length bs = length old"
  shows "\<exists>b'. eb_store (length pre) bs b = Some b' \<and> holds b (pre @ bs @ post) b'"
proof (cases "eb_buf b")
  case None
  with assms show ?thesis by (auto simp: eb_store_def eb_contents_def holds_def)
next
  case (Some m)
  have "take (eb_len b) m = pre @ old @ post" "length m = eb_allocated_len b" "eb_len b \<le> length m"
    using assms Some by (simp_all add: eb_contents_def eb_wf_def)
  then obtain rest where m: "m = pre @ old @ post @ rest" and len: "eb_len b = length pre + length old + length post"
    by (metis append_assoc append_take_drop_id length_append length_take min.absorb2 add.assoc)
  have "eb_store (length pre) bs b = Some (b\<lparr>eb_buf := Some (pre @ bs @ post @ rest)\<rparr>)"
    using assms(3) Some by (simp add: eb_store_def mem_write_def m)
  moreover have "holds b (pre @ bs @ post) (b\<lparr>eb_buf := Some (pre @ bs @ post @ rest)\<rparr>)"
    using assms(1,3) Some len m by (auto simp: holds_def eb_wf_def eb_contents_def)
  ultimately show ?thesis by blast
qed

lemma encrypt_loop_holds:
  assumes f: "\<And>x. length x = 16 \<Longrightarrow> length (f x) = 16"
  shows "\<lbrakk>eb_wf b; eb_contents b = pre @ bs; length bs = 16 * n; length chain = 16\<rbrakk>
    \<Longrightarrow> \<exists>b'. encrypt_loop f n (length pre) chain b = Some b' \<and> holds b (pre @ cbc_encrypt f n chain bs) b'"
proof (induction n arbitrary: b pre bs chain)
  case (Suc n)
  let ?x = "take 16 bs" let ?c = "f (xor_bytes ?x chain)"
  have x: "length ?x = 16" using Suc.prems(3) by simp
  have c: "length ?c = 16" using Suc.prems(3,4) by (intro f) simp
  have cont: "eb_contents b = pre @ ?x @ drop 16 bs" using Suc.prems(2) by simp
  have load: "eb_load (length pre) 16 b = Some ?x" using eb_load_contents [OF Suc.prems(1) cont] x by simp
  from store_inside [OF Suc.prems(1) cont, of ?c] x c obtain b1 where b1: "eb_store (length pre) ?c b = Some b1" "holds b (pre @ ?c @ drop 16 bs) b1" by auto
  have "\<exists>b'. encrypt_loop f n (length (pre @ ?c)) ?c b1 = Some b' \<and> holds b1 ((pre @ ?c) @ cbc_encrypt f n ?c (drop 16 bs)) b'"
    using b1(2) Suc.prems(3) c by (intro Suc.IH) (simp_all add: holds_def)
  with b1 load c show ?case by (auto simp: Let_def holds_def)
qed (auto simp: holds_def)

lemma decrypt_loop_holds:
  assumes f: "\<And>x. length x = 16 \<Longrightarrow> length (f x) = 16"
  shows "\<lbrakk>eb_wf b; eb_contents b = pre @ bs; length bs = 16 * n; length chain = 16\<rbrakk>
    \<Longrightarrow> \<exists>b'. decrypt_loop f n (length pre) chain b = Some b' \<and> holds b (pre @ cbc_decrypt f n chain bs) b'"
proof (induction n arbitrary: b pre bs chain)
  case (Suc n)
  let ?x = "take 16 bs" let ?c = "xor_bytes (f ?x) chain"
  have x: "length ?x = 16" using Suc.prems(3) by simp
  have c: "length ?c = 16" using f [OF x] Suc.prems(4) by simp
  have cont: "eb_contents b = pre @ ?x @ drop 16 bs" using Suc.prems(2) by simp
  have load: "eb_load (length pre) 16 b = Some ?x" using eb_load_contents [OF Suc.prems(1) cont] x by simp
  from store_inside [OF Suc.prems(1) cont, of ?c] x c obtain b1 where b1: "eb_store (length pre) ?c b = Some b1" "holds b (pre @ ?c @ drop 16 bs) b1" by auto
  have "\<exists>b'. decrypt_loop f n (length (pre @ ?c)) ?x b1 = Some b' \<and> holds b1 ((pre @ ?c) @ cbc_decrypt f n ?x (drop 16 bs)) b'"
    using b1(2) Suc.prems(3) x by (intro Suc.IH) (simp_all add: holds_def)
  with b1 load c show ?case by (auto simp: Let_def holds_def)
qed (auto simp: holds_def)

section \<open>The key\<close>

text \<open>AES keeps the length of a block of 16 bytes, and decrypting undoes encrypting.\<close>

definition ciphers_ok :: "Env \<Rightarrow> bool" where
  "ciphers_ok env \<longleftrightarrow> md_open env \<and> cipher_open env \<and> (\<forall>key x. length key = 16 \<and> length x = 16 \<longrightarrow> length (aes_encrypt env key x) = 16
     \<and> length (aes_decrypt env key x) = 16 \<and> aes_decrypt env key (aes_encrypt env key x) = x)"

definition password_bytes :: "bytes option \<Rightarrow> bytes" where
  "password_bytes password = (case password of None \<Rightarrow> [] | Some p \<Rightarrow> p)"

definition derived_digest :: "Env \<Rightarrow> bytes option \<Rightarrow> bytes \<Rightarrow> int \<Rightarrow> bytes" where
  "derived_digest env password salt iterations = (sha256 env ^^ nat iterations) (password_bytes password @ salt)"

definition derived_key :: "Env \<Rightarrow> bytes option \<Rightarrow> bytes \<Rightarrow> int \<Rightarrow> bytes" where
  "derived_key env password salt iterations = take 16 (derived_digest env password salt iterations)"

definition derived_iv :: "Env \<Rightarrow> bytes option \<Rightarrow> bytes \<Rightarrow> int \<Rightarrow> bytes" where
  "derived_iv env password salt iterations = drop 16 (derived_digest env password salt iterations)"

lemma derived_lengths:
  assumes "digests_ok env" and "iterations \<ge> 1"
  shows "length (derived_digest env password salt iterations) = 32" "length (derived_key env password salt iterations) = 16"
    "length (derived_iv env password salt iterations) = 16"
proof -
  obtain n where n: "nat iterations = Suc n" using assms(2) by (cases "nat iterations") auto
  then show 1: "length (derived_digest env password salt iterations) = 32" using assms(1) by (simp add: derived_digest_def digests_ok_def)
  then show "length (derived_key env password salt iterations) = 16" "length (derived_iv env password salt iterations) = 16"
    by (simp_all add: derived_key_def derived_iv_def)
qed

context granting
begin

lemma symkey_generate:
  assumes env: "digests_ok env" "md_open env" and i: "iterations \<ge> 1"
  shows "egg_symkey_generate_simple h env 16 16 password salt iterations
    = Some (Some (derived_key env password salt iterations, derived_iv env password salt iterations))"
proof -
  have g: "h Egg_secure_realloc None 32 \<noteq> None" "h Egg_secure_realloc None 16 \<noteq> None" by (intro grant; simp)+
  obtain n where n: "nat iterations = Suc n" using i by (cases "nat iterations") auto
  have "(sha256 env ^^ n) (sha256 env (password_bytes password @ salt)) = derived_digest env password salt iterations"
    by (simp add: derived_digest_def n funpow_swap1)
  then have "symkey_passes (sha256 env) 32 (password_bytes password @ salt) (nat iterations) [] 16 16
      = (derived_key env password salt iterations, derived_iv env password salt iterations)"
    using derived_lengths(1) [OF env(1) i, of password salt] by (subst symkey_passes.simps) (simp add: Let_def n derived_key_def derived_iv_def)
  with g env(2) i show ?thesis by (auto simp: egg_symkey_generate_simple_def password_bytes_def)
qed

lemma encrypt_buffer_holds:
  assumes env: "digests_ok env" "ciphers_ok env" and i: "iterations \<ge> 1" and wf: "eb_wf b" and n: "eb_len b = 16 * n"
  shows "\<exists>b'. encrypt_buffer h env mast salt iterations b = Some (True, b')
    \<and> holds b (cbc_encrypt (aes_encrypt env (derived_key env mast salt iterations)) n (derived_iv env mast salt iterations) (eb_contents b)) b'"
proof -
  let ?k = "derived_key env mast salt iterations" and ?v = "derived_iv env mast salt iterations"
  have o: "md_open env" "cipher_open env" using env(2) by (simp_all add: ciphers_ok_def)
  have f: "length (aes_encrypt env ?k x) = 16" if "length x = 16" for x
    using env(2) derived_lengths(2) [OF env(1) i] that by (simp add: ciphers_ok_def)
  from encrypt_loop_holds [of "aes_encrypt env ?k" b "[]" "eb_contents b" n ?v, OF f wf] n derived_lengths(3) [OF env(1) i] length_eb_contents [OF wf]
  show ?thesis using o by (auto simp: encrypt_buffer_def symkey_generate [OF env(1) o(1) i] n)
qed

lemma decrypt_buffer_holds:
  assumes env: "digests_ok env" "ciphers_ok env" and i: "iterations \<ge> 1" and wf: "eb_wf b" and n: "eb_len b = 16 * n"
  shows "\<exists>b'. decrypt_buffer h env (Some mast) salt iterations b = Some (True, b')
    \<and> holds b (cbc_decrypt (aes_decrypt env (derived_key env mast salt iterations)) n (derived_iv env mast salt iterations) (eb_contents b)) b'"
proof -
  let ?k = "derived_key env mast salt iterations" and ?v = "derived_iv env mast salt iterations"
  have o: "md_open env" "cipher_open env" using env(2) by (simp_all add: ciphers_ok_def)
  have f: "length (aes_decrypt env ?k x) = 16" if "length x = 16" for x
    using env(2) derived_lengths(2) [OF env(1) i] that by (simp add: ciphers_ok_def)
  from decrypt_loop_holds [of "aes_decrypt env ?k" b "[]" "eb_contents b" n ?v, OF f wf] n derived_lengths(3) [OF env(1) i] length_eb_contents [OF wf]
  show ?thesis using o by (auto simp: decrypt_buffer_def symkey_generate [OF env(1) o(1) i] n)
qed

end

lemma derived_roundtrip:
  assumes env: "digests_ok env" "ciphers_ok env" and i: "iterations \<ge> 1" and n: "length bs = 16 * n"
  shows "cbc_decrypt (aes_decrypt env (derived_key env mast salt iterations)) n (derived_iv env mast salt iterations)
    (cbc_encrypt (aes_encrypt env (derived_key env mast salt iterations)) n (derived_iv env mast salt iterations) bs) = bs"
  using env(2) derived_lengths(2,3) [OF env(1) i] n by (intro cbc_roundtrip) (simp_all add: ciphers_ok_def)

section \<open>Filling the last block\<close>

definition padding :: "nat \<Rightarrow> nat" where
  "padding n = (if n mod 16 = 0 then 0 else 16 - n mod 16)"

lemma padding_step: "n mod 16 \<noteq> 0 \<Longrightarrow> padding n = Suc (padding (Suc n))"
  using mod_less_divisor [of 16 n] by (auto simp: padding_def mod_Suc)

lemma padding_zero: "padding n = 0 \<longleftrightarrow> n mod 16 = 0"
  using mod_less_divisor [of 16 n] by (auto simp: padding_def)

lemma padding_fills: "(n + padding n) mod 16 = 0" "padding n < 16"
proof -
  have r: "n mod 16 < 16" by simp
  then show "padding n < 16" by (simp add: padding_def)
  have "(n mod 16 + padding n) mod 16 = 0" using r by (simp add: padding_def)
  then show "(n + padding n) mod 16 = 0" by (simp only: mod_add_left_eq)
qed

context granting
begin

lemma pad_loop_fills:
  "room b k \<Longrightarrow> padding (eb_len b) \<le> k \<Longrightarrow> \<exists>b'. pad_loop h b = Some b' \<and> holds b (eb_contents b @ replicate (padding (eb_len b)) 0) b'"
proof (induction k arbitrary: b)
  case 0
  then show ?case using padding_zero [of "eb_len b"] by (subst pad_loop.simps) (simp add: holds_def room_def)
next
  case (Suc k)
  show ?case
  proof (cases "eb_len b mod 16 = 0")
    case True
    then show ?thesis using Suc.prems(1) padding_zero [of "eb_len b"] by (subst pad_loop.simps) (simp add: holds_def room_def)
  next
    case False
    have "room b (length [0 :: 8 word] + k)" using Suc.prems(1) by simp
    from writesE [OF add_byte_writes this] obtain b1 where b1: "egg_buffer_add_byte h 0 b = Some (True, b1)" "room b1 k" "eb_contents b1 = eb_contents b @ [0]"
      "eb_allocator b1 = eb_allocator b" by blast
    have len: "eb_len b1 = Suc (eb_len b)" using length_eb_contents [of b] length_eb_contents [of b1] Suc.prems(1) b1 by (simp add: room_def)
    have pad: "padding (eb_len b) = Suc (padding (eb_len b1))" using padding_step [OF False] len by simp
    with Suc.IH [OF b1(2)] Suc.prems(2) obtain b2 where "pad_loop h b1 = Some b2" "holds b1 (eb_contents b1 @ replicate (padding (eb_len b1)) 0) b2" by auto
    with False b1 Suc.prems(1) pad show ?thesis by (subst pad_loop.simps) (simp add: holds_def room_def)
  qed
qed

end

end
