(* ===== verification/SecretFile.thy ===== *)
theory SecretFile
  imports SecretCipher
begin

text \<open>
  The file of a keyring as a whole: what \<^verbatim>\<open>gkm_secret_binary_write\<close> makes of a collection, and what is read from it with and
  without the master secret.
\<close>

section \<open>The bytes of a file\<close>

definition encode_head :: "bytes \<Rightarrow> 32 word \<Rightarrow> GkmSecretCollection \<Rightarrow> bytes" where
  "encode_head salt iterations c = encode_byte_array (coll_label c) @ encode_uint64 (coll_modified c) @ encode_uint64 (coll_created c)
     @ egg_buffer_encode_uint32 (fst (lock_setting c)) @ egg_buffer_encode_uint32 (snd (lock_setting c))
     @ egg_buffer_encode_uint32 iterations @ salt @ zeros4"

definition encode_body :: "GkmSecretData \<Rightarrow> GkmSecretItem list \<Rightarrow> bytes" where
  "encode_body sd its = (let bs = concat (map (encode_item sd) its) in bs @ replicate (padding (16 + length bs)) 0)"

definition encode_blocks :: "Env \<Rightarrow> GkmSecretData \<Rightarrow> GkmSecretItem list \<Rightarrow> bytes" where
  "encode_blocks env sd its = md5 env (encode_body sd its) @ encode_body sd its"

definition encode_secret_part :: "Env \<Rightarrow> bytes \<Rightarrow> int \<Rightarrow> GkmSecret \<Rightarrow> bytes \<Rightarrow> bytes" where
  "encode_secret_part env salt iterations mast bs =
     cbc_encrypt (aes_encrypt env (derived_key env mast salt iterations)) (length bs div 16) (derived_iv env mast salt iterations) bs"

definition encode_hashed_part :: "Env \<Rightarrow> GkmSecretItem list \<Rightarrow> bytes" where
  "encode_hashed_part env its = egg_buffer_encode_uint32 (of_nat (length its)) @ concat (map (encode_hashed_item env) its)"

definition encode_keyring :: "Env \<Rightarrow> bytes \<Rightarrow> 32 word \<Rightarrow> GkmSecret \<Rightarrow> GkmSecretItem list \<Rightarrow> GkmSecretCollection \<Rightarrow> GkmSecretData \<Rightarrow> bytes" where
  "encode_keyring env salt iterations mast its c sd = KEYRING_FILE_HEADER @ [0, 0, 0, 0] @ encode_head salt iterations c @ encode_hashed_part env its
     @ egg_buffer_encode_uint32 (of_nat (length (encode_blocks env sd its))) @ encode_secret_part env salt (sint iterations) mast (encode_blocks env sd its)"

text \<open>What can be written: texts that can be read again, numbered items, and less than 2 GB.\<close>

definition keyring_ok :: "Env \<Rightarrow> bytes \<Rightarrow> GkmSecretItem list \<Rightarrow> GkmSecretCollection \<Rightarrow> GkmSecretData \<Rightarrow> bool" where
  "keyring_ok env salt its c sd \<longleftrightarrow> text_ok env (coll_label c) \<and> length salt = 8 \<and> (\<forall>item \<in> set its. item_ok env sd item)
     \<and> length its < 2 ^ 31 \<and> length (encode_head salt 0 c @ encode_hashed_part env its @ encode_blocks env sd its) < 2 ^ 31"

definition env_ok :: "Env \<Rightarrow> bool" where
  "env_ok env \<longleftrightarrow> digests_ok env \<and> ciphers_ok env"

lemma length_encode_head: "length (encode_head salt iterations c) = length (encode_head salt 0 c)"
  by (simp add: encode_head_def egg_buffer_encode_uint32_def)

lemma length_encode_blocks:
  assumes "digests_ok env"
  shows "16 * (length (encode_blocks env sd its) div 16) = length (encode_blocks env sd its)" "16 \<le> length (encode_blocks env sd its)"
proof -
  let ?bs = "concat (map (encode_item sd) its)"
  have l: "length (encode_blocks env sd its) = 16 + length ?bs + padding (16 + length ?bs)"
    using assms by (simp add: encode_blocks_def encode_body_def Let_def digests_ok_def)
  show "16 * (length (encode_blocks env sd its) div 16) = length (encode_blocks env sd its)"
    unfolding l by (intro dvd_mult_div_cancel) (simp only: dvd_eq_mod_eq_0 padding_fills)
  show "16 \<le> length (encode_blocks env sd its)" unfolding l by simp
qed

lemma iterations_sint:
  assumes "random < 1000"
  shows "sint (of_nat (1000 + random) :: 32 word) = int (1000 + random)"
proof -
  have "signed_take_bit 31 (int (1000 + random)) = int (1000 + random)" using assms by (intro signed_take_bit_int_eq_self) simp_all
  then show ?thesis using signed_of_nat [of "1000 + random", where 'a = int and 'b = 32] by simp
qed

section \<open>Writing\<close>

lemma writes_app:
  assumes "writes w bs" and "room b (length bs)"
  obtains b' where "w b = Some (True, b')" "holds b (eb_contents b @ bs) b'" "room b' 0"
proof -
  from writesE [OF assms(1), of b 0] assms(2) obtain b' where
    "w b = Some (True, b')" "room b' 0" "eb_contents b' = eb_contents b @ bs" "eb_allocator b' = eb_allocator b" by auto
  moreover from this assms(2) have "holds b (eb_contents b @ bs) b'" by (simp add: holds_def room_def)
  ultimately show thesis using that by blast
qed

context granting
begin

lemma init_full_room:
  assumes "r < 2 ^ 47" "0 < r" "n < 2 ^ 45"
  obtains b where "egg_buffer_init_full h r (Some a) = (True, b)" "room b n" "eb_contents b = []" "eb_allocator b = Some a"
proof -
  obtain m where m: "h a None r = Some m" using grant [OF assms(1)] by blast
  with alloc_length [OF m] assms that show thesis
    by (auto simp: egg_buffer_init_full_def default_allocator_def room_def eb_wf_def eb_contents_def)
qed

lemma write_header_writes:
  assumes "text_ok env (coll_label c)"
  shows "writes0 (write_header h env salt iterations c) (KEYRING_FILE_HEADER @ [0, 0, 0, 0] @ encode_head salt iterations c)"
  unfolding write_header_def
  by (rule writes0_eq, rule writes0_ignore [OF append_writes], (rule writes0_ignore [OF add_byte_writes])+, rule writes0_ignore [OF add_text_writes [OF assms]],
      (rule writes0_ignore [OF add_time_writes])+, (rule writes0_ignore [OF add_uint32_writes])+, rule writes0_ignore [OF append_writes], rule add_reserved_writes)
    (simp add: encode_head_def)

lemma open_part_writes:
  assumes "digests_ok env" and "keyring_ok env salt its c sd"
  shows "writes (\<lambda>b. do { b1 \<leftarrow> write_header h env salt iterations c b; generate_hashed_items h env its b1 })
    (KEYRING_FILE_HEADER @ [0, 0, 0, 0] @ encode_head salt iterations c @ encode_hashed_part env its)"
  by (rule writes_eq, rule writes0_bind [OF write_header_writes generate_hashed_items_writes [OF assms(1), of its sd]])
    (use assms(2) in \<open>simp_all add: keyring_ok_def encode_hashed_part_def\<close>)

text \<open>The blocks to be encrypted.\<close>

lemma blocks_written:
  assumes env: "digests_ok env" and ok: "keyring_ok env salt its c sd" and junk: "length junk = 16"
    and b: "room e (2 ^ 40)" "eb_contents e = []" "eb_allocator e = Some Egg_secure_realloc"
  obtains e1 e2 e3 e4 where "egg_buffer_append h junk e = Some (True, e1)" "generate_encrypted_data h env its sd e1 = Some (True, e2)"
    "pad_loop h e2 = Some e3" "eb_load 16 (size_sub (eb_len e3) 16) e3 = Some (encode_body sd its)"
    "eb_store 0 (md5 env (encode_body sd its)) e3 = Some e4" "holds e (encode_blocks env sd its) e4"
proof -
  let ?bs = "concat (map (encode_item sd) its)"
  have len: "length (encode_body sd its) < 2 ^ 31" using ok by (simp add: keyring_ok_def encode_blocks_def)
  then have bs: "length ?bs < 2 ^ 31" by (simp add: encode_body_def Let_def)
  have "room e (length junk + (length ?bs + 16))" using b(1) bs junk by (simp add: room_def)
  from writesE [OF append_writes this] obtain e1 where 1: "egg_buffer_append h junk e = Some (True, e1)" "room e1 (length ?bs + 16)"
    "eb_contents e1 = junk" "eb_allocator e1 = eb_allocator e" using b(2) by auto
  have "\<forall>item \<in> set its. item_ok env sd item" using ok by (simp add: keyring_ok_def)
  from writesE [OF encrypted_items_writes [OF env this] 1(2)] obtain e2 where 2: "encrypted_items h env sd its e1 = Some (True, e2)" "room e2 16"
    "eb_contents e2 = junk @ ?bs" "eb_allocator e2 = eb_allocator e" using 1 by auto
  have g: "generate_encrypted_data h env its sd e1 = Some (True, e2)"
    using 1(4) 2(1) b(3) by (simp add: generate_encrypted_data_def egg_buffer_set_allocator_def default_allocator_def)
  have l2: "eb_len e2 = 16 + length ?bs" using length_eb_contents [of e2] 2 junk by (simp add: room_def)
  from pad_loop_fills [OF 2(2)] padding_fills(2) [of "eb_len e2"] obtain e3 where 3: "pad_loop h e2 = Some e3"
    "holds e2 (junk @ encode_body sd its) e3" using 2(3) l2 by (auto simp: encode_body_def Let_def)
  have wf3: "eb_wf e3" and c3: "eb_contents e3 = junk @ encode_body sd its @ []" using 3(2) by (simp_all add: holds_def)
  have l3: "eb_len e3 = 16 + length (encode_body sd its)" using holds_len [OF 3(2)] junk by simp
  have load: "eb_load 16 (size_sub (eb_len e3) 16) e3 = Some (encode_body sd its)"
    using eb_load_contents [OF wf3 c3] junk l3 len by (simp add: size_sub_def)
  have "length (md5 env (encode_body sd its)) = length junk" using env junk by (simp add: digests_ok_def)
  from store_inside [OF wf3, of "[]" junk "encode_body sd its", OF _ this] c3 obtain e4 where
    4: "eb_store 0 (md5 env (encode_body sd its)) e3 = Some e4" "holds e3 (encode_blocks env sd its) e4" by (auto simp: encode_blocks_def)
  have "holds e (encode_blocks env sd its) e4" using 4(2) 3(2) 2(2,4) b(1) by (simp add: holds_def room_def)
  with 1(1) g 3(1) load 4(1) show thesis by (rule that)
qed

theorem binary_write:
  assumes env: "env_ok env" and ok: "keyring_ok env salt its c sd" and its: "its = gkm_secret_collection_get_items visit c"
    and m: "master sd = Some mast" and junk: "length junk = 16" and r: "random < 1000"
  shows "\<exists>m n. gkm_secret_binary_write h env visit random salt junk c sd = Some (GKM_DATA_SUCCESS, Some m, n)
    \<and> n \<le> length m \<and> take n m = encode_keyring env salt (of_nat (1000 + random)) mast its c sd"
proof -
  define it where "it = (of_nat (1000 + random) :: 32 word)"
  let ?open = "KEYRING_FILE_HEADER @ [0, 0, 0, 0] @ encode_head salt it c @ encode_hashed_part env its" and ?bl = "encode_blocks env sd its"
  have d: "digests_ok env" "ciphers_ok env" using env by (simp_all add: env_ok_def)
  have "length (encode_head salt 0 c) + length (encode_hashed_part env its) + length ?bl < 2 ^ 31" using ok by (simp add: keyring_ok_def)
  then have small: "length ?open < 2 ^ 32" "length ?bl < 2 ^ 31"
    using length_encode_head [of salt it c] by (simp_all add: KEYRING_FILE_HEADER_def ascii_def)
  have i: "sint it \<ge> 1" using iterations_sint [OF r] unfolding it_def by simp
  obtain b where b: "egg_buffer_init_full h 256 (Some G_realloc) = (True, b)" "room b (2 ^ 40)" "eb_contents b = []" "eb_allocator b = Some G_realloc"
    by (rule init_full_room [of 256 "2 ^ 40" G_realloc]) simp_all
  obtain e where e: "egg_buffer_init_full h 4096 (Some Egg_secure_realloc) = (True, e)" "room e (2 ^ 40)" "eb_contents e = []" "eb_allocator e = Some Egg_secure_realloc"
    by (rule init_full_room [of 4096 "2 ^ 40" Egg_secure_realloc]) simp_all
  have "room b (length ?open + (4 + length ?bl))" using b(2) small by (simp add: room_def)
  from writesE [OF open_part_writes [OF d(1) ok] this] obtain b2 where w: "do { b1 \<leftarrow> write_header h env salt it c b; generate_hashed_items h env its b1 } = Some (True, b2)"
    and r2: "room b2 (4 + length ?bl)" "eb_contents b2 = ?open" using b(3) by auto
  from w r2 obtain b1 where 1: "write_header h env salt it c b = Some b1" "generate_hashed_items h env its b1 = Some (True, b2)"
    "room b2 (4 + length ?bl)" "eb_contents b2 = ?open" by (cases "write_header h env salt it c b") auto
  from blocks_written [OF d(1) ok junk e(2-4)] obtain e1 e2 e3 e4 where
    2: "egg_buffer_append h junk e = Some (True, e1)" "generate_encrypted_data h env its sd e1 = Some (True, e2)"
    "pad_loop h e2 = Some e3" "eb_load 16 (size_sub (eb_len e3) 16) e3 = Some (encode_body sd its)"
    "eb_store 0 (md5 env (encode_body sd its)) e3 = Some e4" "holds e ?bl e4" by blast
  have l4: "eb_len e4 = 16 * (length ?bl div 16)" using holds_len [OF 2(6)] length_encode_blocks [OF d(1), of sd its] by simp
  have wf4: "eb_wf e4" using 2(6) by (simp add: holds_def)
  from encrypt_buffer_holds [OF d i wf4 l4, of mast salt] obtain e5 where
    3: "encrypt_buffer h env mast salt (sint it) e4 = Some (True, e5)" "holds e4 (encode_secret_part env salt (sint it) mast ?bl) e5"
    using 2(6) by (auto simp: encode_secret_part_def holds_def)
  let ?sp = "encode_secret_part env salt (sint it) mast ?bl"
  have "length (cbc_encrypt (aes_encrypt env (derived_key env mast salt (sint it))) (length ?bl div 16) (derived_iv env mast salt (sint it)) ?bl) = 16 * (length ?bl div 16)"
    using d(2) derived_lengths(2,3) [OF d(1) i, of mast salt] length_encode_blocks(1) [OF d(1), of sd its] by (intro length_cbc_encrypt) (simp_all add: ciphers_ok_def)
  then have lsp: "length ?sp = length ?bl" using length_encode_blocks(1) [OF d(1), of sd its] by (simp add: encode_secret_part_def)
  have l5: "eb_len e5 = length ?bl" using holds_len [OF 3(2)] lsp by simp
  have load: "eb_load 0 (eb_len e5) e5 = Some ?sp" using eb_load_contents [of e5 "[]" ?sp "[]"] 3(2) lsp l5 by (simp add: holds_def)
  have err: "\<not> egg_buffer_has_error e5" "\<not> egg_buffer_has_error b2" using 3(2) 2(6) e(2) 1(3) by (auto simp: egg_buffer_has_error_def holds_def room_def)
  have "room b2 (length (egg_buffer_encode_uint32 (of_nat (length ?bl))) + length ?sp)" using 1(3) lsp by (simp add: egg_buffer_encode_uint32_def room_def)
  from writesE [OF add_uint32_writes this] obtain b3 where 4: "egg_buffer_add_uint32 h (of_nat (length ?bl)) b2 = Some (True, b3)" "room b3 (length ?sp)"
    "eb_contents b3 = ?open @ egg_buffer_encode_uint32 (of_nat (length ?bl))" using 1(4) by auto
  from writes_app [OF append_writes 4(2)] obtain b4 where 5: "egg_buffer_append h ?sp b3 = Some (True, b4)" "holds b3 (eb_contents b3 @ ?sp) b4" by blast
  have "gkm_secret_binary_write h env visit random salt junk c sd = Some (GKM_DATA_SUCCESS, eb_buf b4, eb_len b4)"
    unfolding gkm_secret_binary_write_def its [symmetric] it_def [symmetric]
    by (simp add: Let_def b(1) e(1) 1(1,2) 2(1-5) m 3(1) err l5 4(1) load [unfolded l5] 5(1) egg_buffer_uninit_steal_def del: One_nat_def)
  moreover have c4: "eb_contents b4 = encode_keyring env salt it mast its c sd" using 5(2) 4(3) by (simp add: holds_def encode_keyring_def)
  moreover have "encode_keyring env salt it mast its c sd \<noteq> []" by (simp add: encode_keyring_def KEYRING_FILE_HEADER_def)
  ultimately show ?thesis using 5(2) unfolding it_def [symmetric] by (cases "eb_buf b4") (auto simp: holds_def eb_contents_def eb_wf_def)
qed

end

end
