(* ===== verification/SecretLoad.thy ===== *)
theory SecretLoad
  imports SecretFile
begin

text \<open>
  Reading a keyring file: the items that are found in it with and without the master secret, and how a collection is brought up to
  date with them.
\<close>

section \<open>The items of a file\<close>

lemma read_hashed_unat: "length its < 2 ^ 31 \<Longrightarrow> unat (of_nat (length its) :: 32 word) = length its"
  by (intro unat_of_nat_small) simp

text \<open>The blocks of the file, decrypted with the master secret \<open>mast'\<close>.\<close>

definition decoded_blocks :: "Env \<Rightarrow> bytes \<Rightarrow> int \<Rightarrow> GkmSecret \<Rightarrow> bytes \<Rightarrow> bytes" where
  "decoded_blocks env salt iterations mast part =
     cbc_decrypt (aes_decrypt env (derived_key env mast salt iterations)) (length part div 16) (derived_iv env mast salt iterations) part"

context granting
begin

lemma head_parses:
  assumes "text_ok env (coll_label c)" and "length salt = 8"
  shows "parses (read_header h env) (coll_label c, coll_modified c, coll_created c, fst (lock_setting c), snd (lock_setting c), iterations, salt, n)
    (encode_head salt iterations c @ egg_buffer_encode_uint32 n)"
proof -
  have s: "parses (buffer_get_bytes 8) salt salt" using get_bytes_parses [of salt] assms(2) by simp
  show ?thesis unfolding read_header_def
    by (rule parses_eq, rule parses_bind [OF get_text_parses [OF assms(1)]], rule parses_bind [OF get_time_parses], rule parses_bind [OF get_time_parses],
        rule parses_bind [OF get_uint32_parses], rule parses_bind [OF get_uint32_parses], rule parses_bind [OF get_uint32_parses],
        rule parses_bind [OF s], rule parses_bind [OF get_reserved_parses], rule parses_bind [OF get_uint32_parses], rule parses_return)
      (simp_all add: encode_head_def)
qed

text \<open>The bytes that are copied to secure memory.\<close>

lemma fetched:
  assumes n: "0 < length part" "length part < 2 ^ 47"
  obtains d1 d2 d3 ok where "egg_buffer_set_allocator h (Some Egg_secure_realloc) egg_buffer_zero = Some (True, d1)"
    "egg_buffer_reserve h (length part) d1 = (ok, d2)" "eb_store 0 part d2 = Some d3" "eb_wf (d3\<lparr>eb_len := length part\<rparr>)"
    "eb_contents (d3\<lparr>eb_len := length part\<rparr>) = part"
proof -
  let ?d1 = "egg_buffer_zero\<lparr>eb_buf := None, eb_allocator := Some Egg_secure_realloc\<rparr>"
  obtain m where m: "h Egg_secure_realloc None (length part) = Some m" using grant [OF n(2)] by blast
  have "length m = length part" "length part < 2 ^ 62" using alloc_length [OF m] alloc_bound [OF m] by simp_all
  moreover have "egg_buffer_reserve h (length part) ?d1 = (True, ?d1\<lparr>eb_buf := Some m, eb_allocated_len := length part\<rparr>)"
    using n m by (simp add: egg_buffer_reserve_def egg_buffer_zero_def size_mul_def size_add_def Let_def)
  ultimately show thesis
    by (intro that [of ?d1 True "?d1\<lparr>eb_buf := Some m, eb_allocated_len := length part\<rparr>" "?d1\<lparr>eb_buf := Some part, eb_allocated_len := length part\<rparr>"])
      (simp_all add: egg_buffer_set_allocator_def default_allocator_def egg_buffer_zero_def eb_store_def mem_write_def eb_wf_def eb_contents_def)
qed

lemma verify_buffer:
  assumes "eb_wf b" and "16 \<le> eb_len b"
  shows "verify_decrypted_buffer env b = Some (take 16 (eb_contents b) = md5 env (drop 16 (eb_contents b)))"
proof -
  have len: "length (eb_contents b) = eb_len b" "eb_len b < 2 ^ 64" using assms by (simp_all add: eb_wf_def)
  obtain k where "eb_len b = 16 + k" using assms(2) le_Suc_ex by blast
  then have sub: "size_sub (eb_len b) 16 = eb_len b - 16" using len(2) by (simp add: size_sub_def)
  have "eb_load 16 (size_sub (eb_len b) 16) b = Some (drop 16 (eb_contents b))"
    using eb_load_contents [OF assms(1), of "take 16 (eb_contents b)" "drop 16 (eb_contents b)" "[]"] assms(2) len sub by simp
  moreover have "eb_load 0 16 b = Some (take 16 (eb_contents b))"
    using eb_load_contents [OF assms(1), of "[]" "take 16 (eb_contents b)" "drop 16 (eb_contents b)"] assms(2) len by simp
  ultimately show ?thesis by (simp add: verify_decrypted_buffer_def)
qed

end

text \<open>Reading the items up to the encrypted part, and what is done with that part.\<close>

definition open_items :: "heap \<Rightarrow> Env \<Rightarrow> GkmSecretData option \<Rightarrow> 32 word \<Rightarrow> bytes \<Rightarrow> ItemInfo list \<Rightarrow> EggBuffer \<Rightarrow> read_items_result option" where
  "open_items h env sdata iterations salt infos d = (case sdata of
     None \<Rightarrow> Some (Read_ok infos)
   | Some data \<Rightarrow> do {
       (ok, d5) \<leftarrow> decrypt_buffer h env (master data) salt (sint iterations) d;
       if \<not> ok then Some (Read_stop GKM_DATA_FAILURE infos)
       else do {
         good \<leftarrow> verify_decrypted_buffer env d5;
         if \<not> good then Some (Read_stop GKM_DATA_LOCKED infos)
         else do {
           (ok6, infos1, _) \<leftarrow> read_full_item_info h env infos d5 16;
           Some (if ok6 then Read_ok infos1 else Read_stop GKM_DATA_FAILURE infos1)
         }
       }
     })"

lemma word_mod_16: "16 dvd n \<Longrightarrow> n < 2 ^ 31 \<Longrightarrow> (of_nat n :: 32 word) mod 16 = 0"
proof -
  assume n: "16 dvd n" "n < 2 ^ 31"
  then have "unat (of_nat n :: 32 word) = n" by (intro unat_of_nat_small) simp
  moreover have "n mod 16 = 0" using n(1) by simp
  ultimately show ?thesis by (simp add: word_arith_nat_mod)
qed

lemma not_all_ones: "n < 2 ^ 31 \<Longrightarrow> (of_nat n :: 32 word) \<noteq> 0xffffffff"
proof
  assume n: "n < 2 ^ 31" and "(of_nat n :: 32 word) = 0xffffffff"
  then have "unat (of_nat n :: 32 word) = unat (0xffffffff :: 32 word)" by simp
  moreover have "unat (of_nat n :: 32 word) = n" using n by (intro unat_of_nat_small) simp
  ultimately show False using n by simp
qed

context granting
begin

lemma read_items_open:
  assumes env: "digests_ok env" and its: "\<forall>item \<in> set its. item_ok env sd item" "length its < 2 ^ 31"
    and wf: "eb_wf b" and c: "eb_contents b = pre @ concat (map (encode_hashed_item env) its) @ egg_buffer_encode_uint32 (of_nat (length part)) @ part"
    and part: "16 dvd length part" "0 < length part" "length part < 2 ^ 31"
  shows "\<exists>d. eb_wf d \<and> eb_contents d = part
    \<and> read_items h env sdata iterations salt (of_nat (length its)) b (length pre) = open_items h env sdata iterations salt (map (hashed_info env) its) d"
proof -
  let ?n = "of_nat (length part) :: 32 word" and ?p1 = "pre @ concat (map (encode_hashed_item env) its)"
  let ?p2 = "?p1 @ egg_buffer_encode_uint32 ?n"
  have u: "unat ?n = length part" using part(3) by (intro unat_of_nat_small) simp
  have 1: "read_hashed_item_info h env (unat (of_nat (length its) :: 32 word)) [] b (length pre) = Some (Some (map (hashed_info env) its, length ?p1), b)"
    unfolding read_hashed_unat [OF its(2)]
    by (rule parses_at [OF hashed_items_parse [OF env its(1), of "[]", simplified] wf, where pre = pre]) (simp_all add: c)
  have 2: "egg_buffer_get_uint32 b (length ?p1) = Some (Some (?n, length ?p2), b)"
    by (rule parses_at [OF get_uint32_parses wf, where pre = ?p1]) (simp_all add: c)
  have 3: "eb_load (length ?p2) (length part) b = Some part"
    by (rule eb_load_contents [OF wf, of _ _ "[]"]) (simp add: c)
  have "length part < 2 ^ 47" using part(3) by simp
  from fetched [OF part(2) this] obtain d1 d2 d3 ok where
    "egg_buffer_set_allocator h (Some Egg_secure_realloc) egg_buffer_zero = Some (True, d1)"
    "egg_buffer_reserve h (length part) d1 = (ok, d2)" "eb_store 0 part d2 = Some d3" "eb_wf (d3\<lparr>eb_len := length part\<rparr>)"
    "eb_contents (d3\<lparr>eb_len := length part\<rparr>) = part" by metis
  with 1 2 3 u word_mod_16 [OF part(1,3)] not_all_ones [OF its(2)] show ?thesis
    by (intro exI [of _ "d3\<lparr>eb_len := length part\<rparr>"]) (simp add: read_items_def open_items_def Let_def cong: option.case_cong)
qed

text \<open>The encrypted part with a master secret: the check value decides.\<close>

lemma open_items_decoded:
  assumes env: "digests_ok env" "ciphers_ok env" and i: "sint iterations \<ge> 1" and d: "eb_wf d" "eb_contents d = part"
    and part: "16 dvd length part" "0 < length part" and m: "master data = Some mast"
  shows "\<exists>d5. eb_wf d5 \<and> eb_contents d5 = decoded_blocks env salt (sint iterations) mast part \<and>
    open_items h env (Some data) iterations salt infos d = (let bs = decoded_blocks env salt (sint iterations) mast part in
      if take 16 bs = md5 env (drop 16 bs) then do {
        (ok6, infos1, _) \<leftarrow> read_full_item_info h env infos d5 16;
        Some (if ok6 then Read_ok infos1 else Read_stop GKM_DATA_FAILURE infos1)
      } else Some (Read_stop GKM_DATA_LOCKED infos))"
proof -
  let ?i = "sint iterations"
  have l: "eb_len d = 16 * (length part div 16)" using length_eb_contents [OF d(1)] d(2) part(1) by simp
  from decrypt_buffer_holds [OF env i d(1) l, of mast salt] obtain d5 where d5: "decrypt_buffer h env (Some mast) salt ?i d = Some (True, d5)"
    "holds d (decoded_blocks env salt ?i mast part) d5" using d(2) by (auto simp: decoded_blocks_def)
  have "length (decoded_blocks env salt ?i mast part) = 16 * (length part div 16)" unfolding decoded_blocks_def
    using env(2) derived_lengths(2,3) [OF env(1) i, of mast salt] part by (intro length_cbc_decrypt) (simp_all add: ciphers_ok_def)
  then have "16 \<le> eb_len d5" using holds_len [OF d5(2)] part dvd_imp_le [OF part] by simp
  with verify_buffer [of d5 env] d5 m show ?thesis
    by (intro exI [of _ d5]) (simp add: open_items_def holds_def Let_def)
qed

end

lemma length_secret_part:
  assumes "env_ok env" and "iterations \<ge> 1"
  shows "length (encode_secret_part env salt iterations mast (encode_blocks env sd its)) = length (encode_blocks env sd its)"
proof -
  have env: "digests_ok env" "ciphers_ok env" using assms(1) by (simp_all add: env_ok_def)
  let ?bl = "encode_blocks env sd its"
  have "length (encode_secret_part env salt iterations mast ?bl) = 16 * (length ?bl div 16)" unfolding encode_secret_part_def
    using env(2) derived_lengths(2,3) [OF env(1) assms(2), of mast salt] length_encode_blocks(1) [OF env(1), of sd its]
    by (intro length_cbc_encrypt) (simp_all add: ciphers_ok_def)
  then show ?thesis using length_encode_blocks(1) [OF env(1), of sd its] by simp
qed

text \<open>What is done with the items once they are read, or not.\<close>

definition finish_read ::
    "heap \<Rightarrow> ((bytes \<times> GkmSecretItem) list \<Rightarrow> (bytes \<times> GkmSecretItem) list) \<Rightarrow> header \<Rightarrow> GkmSecretCollection \<Rightarrow> GkmSecretData option
     \<Rightarrow> read_items_result option \<Rightarrow> (GkmDataResult \<times> GkmSecretCollection \<times> GkmSecretData option) option" where
  "finish_read h visit head c0 sdata res = do {
     r \<leftarrow> res;
     case r of
       Read_stop res infos \<Rightarrow> do { free_items infos; Some (res, c0, sdata) }
     | Read_ok infos \<Rightarrow> do {
         (c1, sdata1) \<leftarrow> update_collection h visit head infos (c0, sdata);
         free_items infos;
         Some (GKM_DATA_SUCCESS, c1, sdata1)
       }
   }"

abbreviation head_of :: "GkmSecretCollection \<Rightarrow> 32 word \<Rightarrow> bytes \<Rightarrow> 32 word \<Rightarrow> header" where
  "head_of c iterations salt n \<equiv> (coll_label c, coll_modified c, coll_created c, fst (lock_setting c), snd (lock_setting c), iterations, salt, n)"

context granting
begin

text \<open>A file that begins as the one that is written for \<open>c\<close>.\<close>

lemma read_head_part:
  assumes ok: "text_ok env (coll_label c)" "length salt = 8"
    and data: "data = KEYRING_FILE_HEADER @ [0, 0, 0, 0] @ encode_head salt iterations c @ egg_buffer_encode_uint32 n @ rest" "length data < 2 ^ 62"
  shows "gkm_secret_binary_read h env visit data (c0, sdata) = finish_read h visit (head_of c iterations salt n) c0 sdata
      (read_items h env sdata iterations salt n (egg_buffer_init_static data)
        (length (KEYRING_FILE_HEADER @ [0, 0, 0, 0] @ encode_head salt iterations c @ egg_buffer_encode_uint32 n)))"
proof -
  let ?b = "egg_buffer_init_static data" and ?top = "KEYRING_FILE_HEADER @ [0, 0, 0, 0]"
  let ?pre = "?top @ encode_head salt iterations c @ egg_buffer_encode_uint32 n"
  have top: "length KEYRING_FILE_HEADER = 15" by (simp add: KEYRING_FILE_HEADER_def ascii_def)
  have wf: "eb_wf ?b" and c: "eb_contents ?b = data" using data(2) by (simp_all add: egg_buffer_init_static_def eb_wf_def eb_contents_def)
  have 1: "eb_load 0 15 ?b = Some KEYRING_FILE_HEADER" "eb_load 15 4 ?b = Some [0, 0, 0, 0]" "\<not> eb_len ?b < 15"
    using top by (simp_all add: eb_load_def mem_read_def egg_buffer_init_static_def data(1))
  have 2: "read_header h env ?b 19 = Some (Some (head_of c iterations salt n, length ?pre), ?b)"
    by (rule parses_at [OF head_parses [OF ok] wf, where pre = ?top]) (simp_all add: trans [OF c data(1)] top)
  from 1 2 show ?thesis by (simp add: gkm_secret_binary_read_def finish_read_def Let_def)
qed

text \<open>Reading the file that was written for \<open>its\<close> and \<open>c\<close>, up to what is done with the items.\<close>

lemma keyring_small:
  assumes "env_ok env" and "keyring_ok env salt its c sd" and "sint iterations \<ge> 1"
  shows "length (encode_keyring env salt iterations mast its c sd) < 2 ^ 62"
proof -
  have "length (encode_head salt iterations c) + length (encode_hashed_part env its) + length (encode_blocks env sd its) < 2 ^ 31"
    using assms(2) by (simp add: keyring_ok_def length_encode_head [of salt iterations])
  then show ?thesis using length_secret_part [OF assms(1,3), of salt mast sd its]
    by (simp add: encode_keyring_def KEYRING_FILE_HEADER_def ascii_def egg_buffer_encode_uint32_def)
qed

lemma read_keyring:
  assumes env: "env_ok env" and ok: "keyring_ok env salt its c sd" and i: "sint iterations \<ge> 1"
  shows "\<exists>d. eb_wf d \<and> eb_contents d = encode_secret_part env salt (sint iterations) mast (encode_blocks env sd its) \<and>
    gkm_secret_binary_read h env visit (encode_keyring env salt iterations mast its c sd) (c0, sdata)
      = finish_read h visit (head_of c iterations salt (of_nat (length its))) c0 sdata
          (open_items h env sdata iterations salt (map (hashed_info env) its) d)"
proof -
  let ?data = "encode_keyring env salt iterations mast its c sd" and ?bl = "encode_blocks env sd its" and ?n = "of_nat (length its) :: 32 word"
  let ?part = "encode_secret_part env salt (sint iterations) mast ?bl"
  let ?pre = "KEYRING_FILE_HEADER @ [0, 0, 0, 0] @ encode_head salt iterations c @ egg_buffer_encode_uint32 ?n"
  have d: "digests_ok env" using env by (simp add: env_ok_def)
  have o: "text_ok env (coll_label c)" "length salt = 8" "\<forall>item \<in> set its. item_ok env sd item" "length its < 2 ^ 31" "length ?bl < 2 ^ 31"
    using ok by (simp_all add: keyring_ok_def)
  have lp: "length ?part = length ?bl" by (rule length_secret_part [OF env i])
  then have part: "16 dvd length ?part" "0 < length ?part" "length ?part < 2 ^ 31"
    using length_encode_blocks [OF d, of sd its] o(5) by (metis dvd_triv_left, linarith, linarith)
  have whole: "?data = ?pre @ concat (map (encode_hashed_item env) its) @ egg_buffer_encode_uint32 (of_nat (length ?part)) @ ?part"
    by (simp add: encode_keyring_def encode_hashed_part_def lp)
  have small: "length ?data < 2 ^ 62" by (rule keyring_small [OF env ok i])
  let ?b = "egg_buffer_init_static ?data"
  have wf: "eb_wf ?b" and c: "eb_contents ?b = ?data" using small by (simp_all add: egg_buffer_init_static_def eb_wf_def eb_contents_def)
  from read_items_open [OF d o(3,4) wf _ part, of ?pre sdata iterations salt] obtain dd where
    "eb_wf dd" "eb_contents dd = ?part" "read_items h env sdata iterations salt ?n ?b (length ?pre) = open_items h env sdata iterations salt (map (hashed_info env) its) dd"
    using c whole by metis
  moreover have "?data = KEYRING_FILE_HEADER @ [0, 0, 0, 0] @ encode_head salt iterations c @ egg_buffer_encode_uint32 ?n
      @ concat (map (encode_hashed_item env) its) @ egg_buffer_encode_uint32 (of_nat (length ?part)) @ ?part" using whole by simp
  ultimately show ?thesis using read_head_part [OF o(1,2) _ small, of iterations ?n _ visit c0 sdata] by metis
qed

text \<open>The encrypted part is taken by the length that stands before it; when the file ends earlier, memory behind the file is read.\<close>

lemma read_items_short:
  assumes env: "digests_ok env" and its: "\<forall>item \<in> set its. item_ok env sd item" "length its < 2 ^ 31"
    and data: "data = pre @ concat (map (encode_hashed_item env) its) @ egg_buffer_encode_uint32 n @ part" "length data < 2 ^ 62"
    and n: "n mod 16 = 0" "length part < unat n"
  shows "read_items h env sdata iterations salt (of_nat (length its)) (egg_buffer_init_static data) (length pre) = None"
proof -
  let ?b = "egg_buffer_init_static data" and ?p1 = "pre @ concat (map (encode_hashed_item env) its)"
  let ?p2 = "?p1 @ egg_buffer_encode_uint32 n"
  have wf: "eb_wf ?b" and c: "eb_contents ?b = data" using data(2) by (simp_all add: egg_buffer_init_static_def eb_wf_def eb_contents_def)
  have 1: "read_hashed_item_info h env (unat (of_nat (length its) :: 32 word)) [] ?b (length pre) = Some (Some (map (hashed_info env) its, length ?p1), ?b)"
    unfolding read_hashed_unat [OF its(2)]
    by (rule parses_at [OF hashed_items_parse [OF env its(1), of "[]", simplified] wf, where pre = pre]) (simp_all add: trans [OF c data(1)])
  have 2: "egg_buffer_get_uint32 ?b (length ?p1) = Some (Some (n, length ?p2), ?b)"
    by (rule parses_at [OF get_uint32_parses wf, where pre = ?p1]) (simp_all add: trans [OF c data(1)])
  have 3: "eb_load (length ?p2) (unat n) ?b = None" using n(2) by (simp add: eb_load_def mem_read_def egg_buffer_init_static_def data(1))
  from 1 2 3 n(1) not_all_ones [OF its(2)] show ?thesis
    by (simp add: read_items_def egg_buffer_set_allocator_def egg_buffer_zero_def Let_def default_allocator_def split: prod.split)
qed

end

section \<open>Bringing the collection up to date\<close>

text \<open>The table of items has each item under its identifier.\<close>

definition coll_wf :: "GkmSecretCollection \<Rightarrow> bool" where
  "coll_wf c \<longleftrightarrow> distinct (map fst (items c)) \<and> (\<forall>(k, item) \<in> set (items c). item_identifier item = k)"

lemma coll_wf_lookup: "coll_wf c \<Longrightarrow> map_of (items c) k = Some item \<Longrightarrow> item_identifier item = k"
  using map_of_SomeD by (fastforce simp: coll_wf_def)

lemma coll_wf_iff: "coll_wf c \<longleftrightarrow> distinct (map fst (items c)) \<and> (\<forall>k item. map_of (items c) k = Some item \<longrightarrow> item_identifier item = k)"
  by (auto simp: coll_wf_def dest: map_of_SomeD)

lemma coll_wf_update:
  assumes "coll_wf c" and "item_identifier item = k"
  shows "coll_wf (c\<lparr>items := AList.update k item (items c)\<rparr>)"
  using assms by (auto simp: coll_wf_iff distinct_update update_conv')

lemma coll_wf_delete: "coll_wf c \<Longrightarrow> coll_wf (c\<lparr>items := AList.delete k (items c)\<rparr>)"
  by (auto simp: coll_wf_iff distinct_delete delete_conv')

text \<open>The item that stands for what was read.\<close>

definition item_of_info :: "bool \<Rightarrow> ItemInfo \<Rightarrow> GkmSecretItem" where
  "item_of_info unlocked info = \<lparr>item_identifier = info_identifier info, item_label = info_display_name info, item_created = info_ctime info,
     item_modified = info_mtime info, item_schema = gkm_secret_compat_format_item_type (info_type info),
     item_fields = (case info_attributes info of None \<Rightarrow> [] | Some f \<Rightarrow> f), compat_acl = (if unlocked then info_acl info else [])\<rparr>"

definition same_setting :: "GkmSecretCollection \<Rightarrow> GkmSecretCollection \<Rightarrow> bool" where
  "same_setting c c' \<longleftrightarrow> coll_label c' = coll_label c \<and> coll_created c' = coll_created c \<and> coll_modified c' = coll_modified c
     \<and> destruct_idle c' = destruct_idle c \<and> destruct_after c' = destruct_after c"

definition store_secret :: "ItemInfo \<Rightarrow> GkmSecretData \<Rightarrow> GkmSecretData" where
  "store_secret info = gkm_secret_data_set_secret (info_identifier info) (info_secret info)"

lemma new_item_table:
  fixes k :: bytes
  assumes "coll_wf c"
  defines "c1 \<equiv> (if gkm_secret_collection_get_item c k = None then gkm_secret_collection_new_item k c else c)"
  shows "coll_wf c1 \<and> same_setting c c1 \<and> (\<exists>item. map_of (items c1) k = Some item \<and> item_identifier item = k) \<and> (\<forall>q. q \<noteq> k \<longrightarrow> map_of (items c1) q = map_of (items c) q)"
proof (cases "map_of (items c) k")
  case None
  then have "items c1 = AList.update k (new_item k) (items c)" "same_setting c c1"
    by (simp_all add: c1_def gkm_secret_collection_get_item_def gkm_secret_collection_new_item_def add_item_def new_item_def same_setting_def Let_def)
  with assms(1) show ?thesis by (auto simp: coll_wf_iff distinct_update update_conv' new_item_def)
next
  case (Some item)
  with assms coll_wf_lookup [OF assms(1) Some] show ?thesis by (simp add: gkm_secret_collection_get_item_def same_setting_def)
qed

definition infos_ok :: "ItemInfo list \<Rightarrow> bool" where
  "infos_ok infos \<longleftrightarrow> (\<forall>info \<in> set infos. case info_secret info of None \<Rightarrow> True | Some d \<Rightarrow> length d < 2 ^ 32)"

context granting
begin

lemma secret_new: "(case data of None \<Rightarrow> True | Some d \<Rightarrow> length d < 2 ^ 32) \<Longrightarrow> gkm_secret_new h data = Some data"
proof (cases data)
  case (Some d)
  moreover assume "case data of None \<Rightarrow> True | Some d \<Rightarrow> length d < 2 ^ 32"
  ultimately obtain m where m: "h Egg_secure_realloc None (length d + 1) = Some m" using grant [of "length d + 1"] by fastforce
  with alloc_length [OF m] Some show ?thesis by (simp add: gkm_secret_new_def mem_write_def)
qed (simp add: gkm_secret_new_def)

lemma setup_item:
  assumes "infos_ok [info]" and "map_of (items c) k = Some item" and "item_identifier item = k" and "info_identifier info = k"
  shows "setup_item_from_info h k info (c, sdata)
    = Some (c\<lparr>items := AList.update k (item_of_info (sdata \<noteq> None) info) (items c)\<rparr>, map_option (store_secret info) sdata)"
  using assms secret_new [of "info_secret info"]
  by (cases sdata; cases item) (simp_all add: setup_item_from_info_def gkm_secret_collection_get_item_def Let_def item_of_info_def store_secret_def infos_ok_def)

lemma update_items_table:
  "\<lbrakk>coll_wf c; distinct (map info_identifier infos); infos_ok infos\<rbrakk> \<Longrightarrow> \<exists>c'.
     update_items h infos unused (c, sdata)
       = Some (filter (\<lambda>k. k \<notin> set (map info_identifier infos)) unused, c', map_option (fold store_secret infos) sdata)
     \<and> coll_wf c' \<and> same_setting c c'
     \<and> map_of (items c') = map_of (items c) ++ map_of (map (\<lambda>info. (info_identifier info, item_of_info (sdata \<noteq> None) info)) infos)"
proof (induction infos arbitrary: c sdata unused)
  case Nil
  then show ?case by (simp add: same_setting_def option.map_ident)
next
  case (Cons info infos)
  let ?k = "info_identifier info" and ?item = "item_of_info (sdata \<noteq> None) info"
  define c1 where "c1 = (if gkm_secret_collection_get_item c ?k = None then gkm_secret_collection_new_item ?k c else c)"
  from new_item_table [OF Cons.prems(1), of ?k, folded c1_def] obtain item where
    c1: "coll_wf c1" "same_setting c c1" "map_of (items c1) ?k = Some item" "item_identifier item = ?k" "\<forall>q. q \<noteq> ?k \<longrightarrow> map_of (items c1) q = map_of (items c) q" by blast
  let ?c2 = "c1\<lparr>items := AList.update ?k ?item (items c1)\<rparr>"
  have s: "setup_item_from_info h ?k info (c1, sdata) = Some (?c2, map_option (store_secret info) sdata)"
    using Cons.prems(3) c1(3,4) by (intro setup_item) (simp_all add: infos_ok_def)
  have wf: "coll_wf ?c2" using c1(1) by (intro coll_wf_update) (simp_all add: item_of_info_def)
  have "distinct (map info_identifier infos)" "infos_ok infos" using Cons.prems(2,3) by (simp_all add: infos_ok_def)
  from Cons.IH [OF wf this, of "removeAll ?k unused" "map_option (store_secret info) sdata"] obtain c' where
    c': "update_items h infos (removeAll ?k unused) (?c2, map_option (store_secret info) sdata)
       = Some (filter (\<lambda>k. k \<notin> set (map info_identifier infos)) (removeAll ?k unused), c', map_option (fold store_secret infos) (map_option (store_secret info) sdata))"
    "coll_wf c'" "same_setting ?c2 c'"
    "map_of (items c') = map_of (items ?c2) ++ map_of (map (\<lambda>i. (info_identifier i, item_of_info (sdata \<noteq> None) i)) infos)" by auto
  have flt: "filter (\<lambda>k. k \<notin> set (map info_identifier infos)) (removeAll ?k unused) = filter (\<lambda>k. k \<notin> set (map info_identifier (info # infos))) unused"
    by (auto simp: removeAll_filter_not_eq intro!: filter_cong)
  have "update_items h (info # infos) unused (c, sdata)
      = Some (filter (\<lambda>k. k \<notin> set (map info_identifier (info # infos))) unused, c', map_option (fold store_secret (info # infos)) sdata)"
    using s c'(1) flt by (simp add: Let_def c1_def [symmetric] option.map_comp comp_def)
  moreover have "same_setting c c'" using c1(2) c'(3) by (simp add: same_setting_def)
  moreover have "map_of (items c') = map_of (items c) ++ map_of (map (\<lambda>i. (info_identifier i, item_of_info (sdata \<noteq> None) i)) (info # infos))"
  proof
    fix q
    have "map_of (map (\<lambda>i. (info_identifier i, item_of_info (sdata \<noteq> None) i)) infos) ?k = None" using Cons.prems(2) by (simp add: map_of_eq_None_iff image_image)
    with c1(5) c'(4) show "map_of (items c') q = (map_of (items c) ++ map_of (map (\<lambda>i. (info_identifier i, item_of_info (sdata \<noteq> None) i)) (info # infos))) q"
      by (auto simp: map_add_def update_conv' split: option.split)
  qed
  ultimately show ?case using c'(2) by blast
qed

end

lemma remove_unavailable:
  "coll_wf c \<Longrightarrow> coll_wf (fold remove_unavailable_item ks c) \<and> same_setting c (fold remove_unavailable_item ks c)
     \<and> map_of (items (fold remove_unavailable_item ks c)) = map_of (items c) |` (- set ks)"
proof (induction ks arbitrary: c)
  case Nil
  then show ?case by (simp add: same_setting_def restrict_map_def)
next
  case (Cons k ks)
  have 1: "coll_wf (remove_unavailable_item k c)" "same_setting c (remove_unavailable_item k c)"
    using coll_wf_delete [OF Cons.prems] Cons.prems by (simp_all add: remove_unavailable_item_def remove_item_def same_setting_def)
  have "map_of (items (remove_unavailable_item k c)) = (map_of (items c))(k := None)"
    by (auto simp: remove_unavailable_item_def remove_item_def gkm_secret_collection_get_item_def delete_conv')
  then have "map_of (items (remove_unavailable_item k c)) |` (- set ks) = map_of (items c) |` (- set (k # ks))"
    by (auto simp: restrict_map_def)
  with Cons.IH [OF 1(1)] 1(2) show ?case by (auto simp: same_setting_def)
qed

end
