(* ===== verification/SecretUpdate.thy ===== *)
theory SecretUpdate
  imports SecretLoad
begin

text \<open>
  What a collection is after a keyring file has been read into it, and that a search finds in a locked keyring what it
  finds in the unlocked one.
\<close>

section \<open>The whole update\<close>

text \<open>The items of a hash table are visited in some order, each once.\<close>

definition visit_ok :: "('a list \<Rightarrow> 'a list) \<Rightarrow> bool" where
  "visit_ok visit \<longleftrightarrow> (\<forall>xs. distinct xs \<longrightarrow> distinct (visit xs) \<and> set (visit xs) = set xs)"

definition set_lock :: "32 word \<Rightarrow> 32 word \<Rightarrow> GkmSecretCollection \<Rightarrow> GkmSecretCollection" where
  "set_lock flgs timeout c =
     (if flgs AND LOCK_ON_IDLE_FLAG \<noteq> 0 then gkm_secret_collection_set_lock_idle timeout c
      else if flgs AND LOCK_AFTER_FLAG \<noteq> 0 then gkm_secret_collection_set_lock_after timeout c else c)"

lemma visited_identifiers:
  assumes "visit_ok visit" and "coll_wf c"
  shows "set (map item_identifier (gkm_secret_collection_get_items visit c)) = dom (map_of (items c))"
    "distinct (map item_identifier (gkm_secret_collection_get_items visit c))"
proof -
  have d: "distinct (items c)" using assms(2) by (simp add: coll_wf_def distinct_map)
  have v: "distinct (visit (items c))" "set (visit (items c)) = set (items c)" using assms(1) d by (simp_all add: visit_ok_def)
  have id: "item_identifier (snd e) = fst e" if "e \<in> set (items c)" for e using assms(2) that by (auto simp: coll_wf_def)
  have m: "map item_identifier (gkm_secret_collection_get_items visit c) = rev (map fst (visit (items c)))"
    unfolding gkm_secret_collection_get_items_def using v(2) id by (simp add: rev_map [symmetric])
  show "set (map item_identifier (gkm_secret_collection_get_items visit c)) = dom (map_of (items c))" unfolding m by (simp add: v(2) dom_map_of_conv_image_fst)
  have "inj_on fst (set (items c))" using assms(2) by (simp add: coll_wf_def distinct_map)
  with v show "distinct (map item_identifier (gkm_secret_collection_get_items visit c))" unfolding m by (simp add: distinct_map)
qed

context granting
begin

lemma update_collection_table:
  assumes visit: "visit_ok visit" and wf: "coll_wf c0" and infos: "distinct (map info_identifier infos)" "infos_ok infos"
  shows "\<exists>c'. update_collection h visit (lbl, ctime, mtime, flgs, timeout, x, y, z) infos (c0, sdata) = Some (c', map_option (fold store_secret infos) sdata)
    \<and> coll_wf c' \<and> same_setting (set_lock flgs timeout (c0\<lparr>coll_label := lbl, coll_modified := mtime, coll_created := ctime\<rparr>)) c'
    \<and> map_of (items c') = map_of (map (\<lambda>info. (info_identifier info, item_of_info (sdata \<noteq> None) info)) infos)"
proof -
  let ?c2 = "set_lock flgs timeout (c0\<lparr>coll_label := lbl, coll_modified := mtime, coll_created := ctime\<rparr>)"
  have it: "items ?c2 = items c0"
    by (simp add: set_lock_def gkm_secret_collection_set_lock_idle_def gkm_secret_collection_set_lock_after_def)
  then have wf2: "coll_wf ?c2" using wf by (simp add: coll_wf_def)
  let ?unused = "map item_identifier (gkm_secret_collection_get_items visit ?c2)" and ?new = "map_of (map (\<lambda>info. (info_identifier info, item_of_info (sdata \<noteq> None) info)) infos)"
  let ?rest = "filter (\<lambda>k. k \<notin> set (map info_identifier infos)) ?unused"
  from update_items_table [OF wf2 infos, of ?unused sdata] obtain c3 where
    c3: "update_items h infos ?unused (?c2, sdata) = Some (?rest, c3, map_option (fold store_secret infos) sdata)"
    "coll_wf c3" "same_setting ?c2 c3" "map_of (items c3) = map_of (items ?c2) ++ ?new" by blast
  note r = remove_unavailable [OF c3(2), of ?rest]
  have "update_collection h visit (lbl, ctime, mtime, flgs, timeout, x, y, z) infos (c0, sdata)
      = Some (fold remove_unavailable_item ?rest c3, map_option (fold store_secret infos) sdata)"
    unfolding update_collection_def prod.case Let_def set_lock_def [symmetric] by (simp only: c3(1) bind.bind_lunit prod.case)
  moreover have "same_setting ?c2 (fold remove_unavailable_item ?rest c3)" using r c3(3) by (simp add: same_setting_def)
  moreover have "map_of (items (fold remove_unavailable_item ?rest c3)) = ?new"
  proof
    fix k
    have rest: "set ?rest = dom (map_of (items ?c2)) - info_identifier ` set infos" using visited_identifiers(1) [OF visit wf2] by auto
    have "dom ?new = info_identifier ` set infos" by (simp add: dom_map_of_conv_image_fst image_image)
    then have new: "k \<in> info_identifier ` set infos \<longleftrightarrow> ?new k \<noteq> None" by (simp only: domIff [symmetric])
    from r have "map_of (items (fold remove_unavailable_item ?rest c3)) k = ((map_of (items ?c2) ++ ?new) |` (- set ?rest)) k" using c3(4) by simp
    also have "\<dots> = ?new k" unfolding rest restrict_map_def map_add_def Compl_iff Diff_iff new domIff
      by (cases "?new k"; cases "map_of (items ?c2) k") simp_all
    finally show "map_of (items (fold remove_unavailable_item ?rest c3)) k = ?new k" .
  qed
  ultimately show ?thesis using r by blast
qed

end

section \<open>After reading\<close>

text \<open>An item that was written and read again.\<close>

definition same_item :: "GkmSecretItem \<Rightarrow> GkmSecretItem \<Rightarrow> bool" where
  "same_item i i' \<longleftrightarrow> item_identifier i' = item_identifier i \<and> item_label i' = item_label i \<and> item_created i' = item_created i
     \<and> item_modified i' = item_modified i \<and> compat_acl i' = compat_acl i
     \<and> item_schema i' = gkm_secret_compat_format_item_type (gkm_secret_compat_parse_item_type (item_schema i))
     \<and> map_of (item_fields i') = map_of (item_fields i)"

lemma same_item_info: "item_ok env sd item \<Longrightarrow> same_item item (item_of_info True (full_info env sd item))"
  using full_table_same [of env "item_fields item"] by (simp add: same_item_def item_of_info_def full_info_def hashed_info_def item_info_new_def item_ok_def)

lemma free_infos: "free_items (map (hashed_info env) its) = Some ()" "free_items (map (full_info env sd) its) = Some ()"
  by (induction its) (simp_all add: free_item_info_def hashed_info_def full_info_def item_info_new_def)

lemma info_simps [simp]:
  "info_identifier (hashed_info env item) = item_identifier item" "info_identifier (full_info env sd item) = item_identifier item"
  "info_secret (hashed_info env item) = None" "info_secret (full_info env sd item) = secret_of sd (item_identifier item)"
  by (simp_all add: hashed_info_def full_info_def item_info_new_def)

lemma stored_secrets:
  "distinct (map info_identifier infos) \<Longrightarrow> master (fold store_secret infos sd) = master sd
     \<and> map_of (secrets (fold store_secret infos sd)) = map_of (secrets sd) ++ map_of (map (\<lambda>i. (info_identifier i, info_secret i)) infos)"
proof (induction infos arbitrary: sd)
  case (Cons i infos)
  have n: "map_of (map (\<lambda>i. (info_identifier i, info_secret i)) infos) (info_identifier i) = None" using Cons.prems by (simp add: map_of_eq_None_iff image_image)
  have s: "map_of (secrets (store_secret i sd)) = (map_of (secrets sd))(info_identifier i \<mapsto> info_secret i)" "master (store_secret i sd) = master sd"
    by (simp_all add: store_secret_def gkm_secret_data_set_secret_def update_conv')
  have "map_of (secrets (fold store_secret infos (store_secret i sd)))
      = (map_of (secrets sd))(info_identifier i \<mapsto> info_secret i) ++ map_of (map (\<lambda>i. (info_identifier i, info_secret i)) infos)"
    using Cons s(1) by simp
  also have "\<dots> = map_of (secrets sd) ++ map_of (map (\<lambda>i. (info_identifier i, info_secret i)) (i # infos))"
    using n by (auto simp: map_add_def split: option.split)
  finally have "map_of (secrets (fold store_secret infos (store_secret i sd))) = map_of (secrets sd) ++ map_of (map (\<lambda>i. (info_identifier i, info_secret i)) (i # infos))" .
  moreover have "master (fold store_secret infos (store_secret i sd)) = master sd" using Cons s(2) by simp
  ultimately show ?case by (simp only: fold_simps simp_thms)
qed simp

text \<open>A table made of the items of a collection, under their identifiers.\<close>

lemma map_of_items:
  assumes "visit_ok visit" and "coll_wf c"
  shows "map_of (map (\<lambda>item. (item_identifier item, f item)) (gkm_secret_collection_get_items visit c)) k = map_option f (gkm_secret_collection_get_item c k)"
proof -
  let ?its = "gkm_secret_collection_get_items visit c"
  have d: "distinct (map item_identifier ?its)" by (rule visited_identifiers(2) [OF assms])
  have mem: "item \<in> set ?its \<longleftrightarrow> map_of (items c) (item_identifier item) = Some item" for item
  proof -
    have "set (visit (items c)) = set (items c)" using assms by (simp add: visit_ok_def coll_wf_def distinct_map)
    then have "item \<in> set ?its \<longleftrightarrow> item \<in> snd ` set (items c)" by (simp add: gkm_secret_collection_get_items_def)
    also have "\<dots> \<longleftrightarrow> (item_identifier item, item) \<in> set (items c)" using assms(2) by (force simp: coll_wf_def)
    finally show ?thesis using assms(2) by (simp add: coll_wf_def)
  qed
  show ?thesis
  proof (cases "map_of (items c) k")
    case None
    then have "k \<notin> item_identifier ` set ?its" using mem by force
    then have "map_of (map (\<lambda>item. (item_identifier item, f item)) ?its) k = None" by (simp add: map_of_eq_None_iff image_image)
    with None show ?thesis by (simp only: gkm_secret_collection_get_item_def option.map)
  next
    case (Some item)
    then have "item_identifier item = k" by (rule coll_wf_lookup [OF assms(2)])
    with Some mem [of item] have "(k, f item) \<in> set (map (\<lambda>item. (item_identifier item, f item)) ?its)" by force
    moreover have "distinct (map fst (map (\<lambda>item. (item_identifier item, f item)) ?its))" using d by (simp add: comp_def)
    ultimately show ?thesis using Some by (simp add: gkm_secret_collection_get_item_def)
  qed
qed

lemma decoded_same:
  assumes "env_ok env" and "iterations \<ge> 1"
  shows "decoded_blocks env salt iterations mast (encode_secret_part env salt iterations mast (encode_blocks env sd its)) = encode_blocks env sd its"
proof -
  have env: "digests_ok env" "ciphers_ok env" using assms(1) by (simp_all add: env_ok_def)
  let ?bl = "encode_blocks env sd its"
  have "length ?bl = 16 * (length ?bl div 16)" using length_encode_blocks(1) [OF env(1), of sd its] by simp
  from derived_roundtrip [OF env assms(2) this, of mast salt] length_secret_part [OF assms, of salt mast sd its]
  show ?thesis by (simp add: decoded_blocks_def encode_secret_part_def)
qed

context granting
begin

text \<open>The items that a file holds for its own master secret.\<close>

lemma open_items_unlocked:
  assumes env: "env_ok env" and ok: "keyring_ok env salt its c sd" and i: "sint iterations \<ge> 1" and m: "master data = Some mast"
    and d: "eb_wf d" "eb_contents d = encode_secret_part env salt (sint iterations) mast (encode_blocks env sd its)"
  shows "open_items h env (Some data) iterations salt (map (hashed_info env) its) d = Some (Read_ok (map (full_info env sd) its))"
proof -
  have e: "digests_ok env" "ciphers_ok env" using env by (simp_all add: env_ok_def)
  let ?bl = "encode_blocks env sd its" and ?bs = "concat (map (encode_item sd) its)"
  let ?part = "encode_secret_part env salt (sint iterations) mast ?bl"
  have lp: "length ?part = length ?bl" by (rule length_secret_part [OF env i])
  have part: "16 dvd length ?part" "0 < length ?part" using length_encode_blocks [OF e(1), of sd its] lp by (metis dvd_triv_left, linarith)
  have l5: "length (md5 env (encode_body sd its)) = 16" using e(1) by (simp add: digests_ok_def)
  from open_items_decoded [OF e i d part m, of salt "map (hashed_info env) its"] obtain d5 where d5: "eb_wf d5" "eb_contents d5 = ?bl"
    "open_items h env (Some data) iterations salt (map (hashed_info env) its) d = (if take 16 ?bl = md5 env (drop 16 ?bl) then do {
        (ok6, infos1, _) \<leftarrow> read_full_item_info h env (map (hashed_info env) its) d5 16;
        Some (if ok6 then Read_ok infos1 else Read_stop GKM_DATA_FAILURE infos1)
      } else Some (Read_stop GKM_DATA_LOCKED (map (hashed_info env) its)))"
    unfolding decoded_same [OF env i] Let_def by blast
  have "\<forall>item \<in> set its. item_ok env sd item" using ok by (simp add: keyring_ok_def)
  moreover have "eb_contents d5 = md5 env (encode_body sd its) @ ?bs @ replicate (padding (16 + length ?bs)) 0"
    using d5(2) by (simp add: encode_blocks_def encode_body_def Let_def)
  ultimately have "read_full_item_info h env (map (hashed_info env) its) d5 16 = Some (True, map (full_info env sd) its, d5)"
    using full_items_read [OF e(1) d5(1), of its sd "md5 env (encode_body sd its)"] l5 by simp
  with d5(3) l5 show ?thesis by (simp add: encode_blocks_def)
qed

text \<open>Reading with the master secret, and without one.\<close>

lemma read_unlocked:
  assumes env: "env_ok env" and visit: "visit_ok visit" and wf: "coll_wf c" "coll_wf c0" and i: "sint iterations \<ge> 1"
    and ok: "keyring_ok env salt (gkm_secret_collection_get_items visit c) c sd" and m: "master sd0 = Some mast"
  shows "\<exists>c' sd'. gkm_secret_binary_read h env visit
      (encode_keyring env salt iterations mast (gkm_secret_collection_get_items visit c) c sd) (c0, Some sd0) = Some (GKM_DATA_SUCCESS, c', Some sd')
    \<and> coll_wf c' \<and> same_setting (set_lock (fst (lock_setting c)) (snd (lock_setting c))
        (c0\<lparr>coll_label := coll_label c, coll_modified := coll_created c, coll_created := coll_modified c\<rparr>)) c'
    \<and> (\<forall>k. gkm_secret_collection_get_item c' k = map_option (\<lambda>item. item_of_info True (full_info env sd item)) (gkm_secret_collection_get_item c k))
    \<and> master sd' = master sd0
    \<and> (\<forall>k. gkm_secret_data_get_secret sd' k = (if gkm_secret_collection_get_item c k = None then gkm_secret_data_get_secret sd0 k else Some (secret_of sd k)))"
proof -
  let ?its = "gkm_secret_collection_get_items visit c" let ?infos = "map (full_info env sd) ?its"
  from read_keyring [OF env ok i, of mast visit c0 "Some sd0"] obtain d where
    d: "eb_wf d" "eb_contents d = encode_secret_part env salt (sint iterations) mast (encode_blocks env sd ?its)"
    "gkm_secret_binary_read h env visit (encode_keyring env salt iterations mast ?its c sd) (c0, Some sd0) 
      = finish_read h visit (head_of c iterations salt (of_nat (length ?its))) c0 (Some sd0) (open_items h env (Some sd0) iterations salt (map (hashed_info env) ?its) d)" by blast
  have dist: "distinct (map info_identifier ?infos)" using visited_identifiers(2) [OF visit wf(1)] by (simp add: comp_def)
  have io: "infos_ok ?infos" using ok by (fastforce simp: infos_ok_def keyring_ok_def item_ok_def length_ok_def split: option.splits)
  from update_collection_table [OF visit wf(2) dist io, of "coll_label c" "coll_modified c" "coll_created c" "fst (lock_setting c)" "snd (lock_setting c)"
      iterations salt "of_nat (length ?its)" "Some sd0"] obtain c' where
    c': "update_collection h visit (coll_label c, coll_modified c, coll_created c, fst (lock_setting c), snd (lock_setting c), iterations,
            salt, of_nat (length ?its)) ?infos (c0, Some sd0) = Some (c', Some (fold store_secret ?infos sd0))"
    "coll_wf c'" "same_setting (set_lock (fst (lock_setting c)) (snd (lock_setting c))
        (c0\<lparr>coll_label := coll_label c, coll_modified := coll_created c, coll_created := coll_modified c\<rparr>)) c'"
    "map_of (items c') = map_of (map (\<lambda>info. (info_identifier info, item_of_info True info)) ?infos)" by auto
  have read: "gkm_secret_binary_read h env visit (encode_keyring env salt iterations mast ?its c sd) (c0, Some sd0)
      = Some (GKM_DATA_SUCCESS, c', Some (fold store_secret ?infos sd0))"
    using d(3) open_items_unlocked [OF env ok i m d(1,2)] c'(1) free_infos(2) by (simp add: finish_read_def)
  have its: "gkm_secret_collection_get_item c' k = map_option (\<lambda>item. item_of_info True (full_info env sd item)) (gkm_secret_collection_get_item c k)" for k
    using c'(4) map_of_items [OF visit wf(1), of "\<lambda>item. item_of_info True (full_info env sd item)" k] by (simp add: gkm_secret_collection_get_item_def comp_def)
  have sec: "gkm_secret_data_get_secret (fold store_secret ?infos sd0) k
      = (if gkm_secret_collection_get_item c k = None then gkm_secret_data_get_secret sd0 k else Some (secret_of sd k))" for k
  proof -
    have "item_identifier item = k" if "gkm_secret_collection_get_item c k = Some item" for item
      using coll_wf_lookup [OF wf(1)] that by (simp add: gkm_secret_collection_get_item_def)
    moreover have "map_of (map (\<lambda>i. (info_identifier i, info_secret i)) ?infos) k = map_option (\<lambda>item. secret_of sd (item_identifier item)) (gkm_secret_collection_get_item c k)"
      using map_of_items [OF visit wf(1), of "\<lambda>item. secret_of sd (item_identifier item)" k] by (simp add: comp_def)
    ultimately show ?thesis using stored_secrets [OF dist, of sd0]
      by (cases "gkm_secret_collection_get_item c k") (simp_all add: gkm_secret_data_get_secret_def map_add_def)
  qed
  show ?thesis using read c'(2,3) its sec stored_secrets [OF dist, of sd0] by blast
qed

lemma read_locked:
  assumes env: "env_ok env" and visit: "visit_ok visit" and wf: "coll_wf c" "coll_wf c0" and i: "sint iterations \<ge> 1"
    and ok: "keyring_ok env salt (gkm_secret_collection_get_items visit c) c sd"
  shows "\<exists>c'. gkm_secret_binary_read h env visit
      (encode_keyring env salt iterations mast (gkm_secret_collection_get_items visit c) c sd) (c0, None) = Some (GKM_DATA_SUCCESS, c', None)
    \<and> coll_wf c' \<and> same_setting (set_lock (fst (lock_setting c)) (snd (lock_setting c))
        (c0\<lparr>coll_label := coll_label c, coll_modified := coll_created c, coll_created := coll_modified c\<rparr>)) c'
    \<and> (\<forall>k. gkm_secret_collection_get_item c' k = map_option (\<lambda>item. item_of_info False (hashed_info env item)) (gkm_secret_collection_get_item c k))"
proof -
  let ?its = "gkm_secret_collection_get_items visit c" let ?infos = "map (hashed_info env) ?its"
  from read_keyring [OF env ok i, of mast visit c0 None] have
    d: "gkm_secret_binary_read h env visit (encode_keyring env salt iterations mast ?its c sd) (c0, None) = do {
          (c1, sdata1) \<leftarrow> update_collection h visit (coll_label c, coll_modified c, coll_created c, fst (lock_setting c), snd (lock_setting c), iterations,
            salt, of_nat (length ?its)) ?infos (c0, None);
          free_items ?infos;
          Some (GKM_DATA_SUCCESS, c1, sdata1)
        }" by (auto simp: open_items_def finish_read_def)
  have dist: "distinct (map info_identifier ?infos)" using visited_identifiers(2) [OF visit wf(1)] by (simp add: comp_def)
  have io: "infos_ok ?infos" by (simp add: infos_ok_def)
  from update_collection_table [OF visit wf(2) dist io, of "coll_label c" "coll_modified c" "coll_created c" "fst (lock_setting c)" "snd (lock_setting c)"
      iterations salt "of_nat (length ?its)" None] obtain c' where
    c': "update_collection h visit (coll_label c, coll_modified c, coll_created c, fst (lock_setting c), snd (lock_setting c), iterations,
            salt, of_nat (length ?its)) ?infos (c0, None) = Some (c', None)"
    "coll_wf c'" "same_setting (set_lock (fst (lock_setting c)) (snd (lock_setting c))
        (c0\<lparr>coll_label := coll_label c, coll_modified := coll_created c, coll_created := coll_modified c\<rparr>)) c'"
    "map_of (items c') = map_of (map (\<lambda>info. (info_identifier info, item_of_info False info)) ?infos)" by auto
  have "gkm_secret_collection_get_item c' k = map_option (\<lambda>item. item_of_info False (hashed_info env item)) (gkm_secret_collection_get_item c k)" for k
    using c'(4) map_of_items [OF visit wf(1), of "\<lambda>item. item_of_info False (hashed_info env item)" k] by (simp add: gkm_secret_collection_get_item_def comp_def)
  with d c' free_infos(1) show ?thesis by simp
qed

text \<open>With another master secret the check value decides, and nothing is changed when it does not fit.\<close>

lemma read_wrong_password:
  assumes env: "env_ok env" and i: "sint iterations \<ge> 1" and ok: "keyring_ok env salt its c sd" and m: "master sd0 = Some mast'"
    and bad: "let bs = decoded_blocks env salt (sint iterations) mast' (encode_secret_part env salt (sint iterations) mast (encode_blocks env sd its))
      in take 16 bs \<noteq> md5 env (drop 16 bs)"
  shows "gkm_secret_binary_read h env visit (encode_keyring env salt iterations mast its c sd) (c0, Some sd0) = Some (GKM_DATA_LOCKED, c0, Some sd0)"
proof -
  have e: "digests_ok env" "ciphers_ok env" using env by (simp_all add: env_ok_def)
  let ?part = "encode_secret_part env salt (sint iterations) mast (encode_blocks env sd its)"
  have lp: "length ?part = length (encode_blocks env sd its)" by (rule length_secret_part [OF env i])
  have part: "16 dvd length ?part" "0 < length ?part" using length_encode_blocks [OF e(1), of sd its] lp by (metis dvd_triv_left, linarith)
  from read_keyring [OF env ok i, of mast visit c0 "Some sd0"] obtain d where
    d: "eb_wf d" "eb_contents d = ?part"
    "gkm_secret_binary_read h env visit (encode_keyring env salt iterations mast its c sd) (c0, Some sd0) 
      = finish_read h visit (head_of c iterations salt (of_nat (length its))) c0 (Some sd0) (open_items h env (Some sd0) iterations salt (map (hashed_info env) its) d)" by blast
  have "open_items h env (Some sd0) iterations salt (map (hashed_info env) its) d = Some (Read_stop GKM_DATA_LOCKED (map (hashed_info env) its))"
    using open_items_decoded [OF e i d(1,2) part m, of salt "map (hashed_info env) its"] bad by (auto simp: Let_def)
  with d(3) free_infos(1) show ?thesis by (simp add: finish_read_def)
qed

end

end
