(* ===== verification/SecretUse.thy ===== *)
theory SecretUse
  imports SecretUpdate
begin

text \<open>
  The properties of the secret store's keyring files: what is written is read again, with the master secret and
  without; a failed read changes nothing; and where a damaged file makes the reader leave its memory.
\<close>

section \<open>Library facts\<close>

lemma ucast_scast_32 [simp]: "ucast (scast t :: 64 word) = (t :: 32 word)"
  by (rule bit_word_eqI) (auto simp: bit_simps)

lemma lock_idle_read:
  assumes "0 < sint t"
  shows "gkm_secret_collection_get_lock_idle (gkm_secret_collection_set_lock_idle t c) = t"
    "gkm_secret_collection_get_lock_after (gkm_secret_collection_set_lock_after t c) = t"
  using assms by (simp_all add: gkm_secret_collection_get_lock_idle_def gkm_secret_collection_set_lock_idle_def
      gkm_secret_collection_get_lock_after_def gkm_secret_collection_set_lock_after_def)

lemma lock_kept:
  assumes "same_setting (set_lock (fst (lock_setting c)) (snd (lock_setting c)) c1) c'"
  shows "0 < sint (gkm_secret_collection_get_lock_idle c) \<Longrightarrow> gkm_secret_collection_get_lock_idle c' = gkm_secret_collection_get_lock_idle c"
    "gkm_secret_collection_get_lock_idle c = 0 \<Longrightarrow> 0 < sint (gkm_secret_collection_get_lock_after c)
       \<Longrightarrow> gkm_secret_collection_get_lock_after c' = gkm_secret_collection_get_lock_after c"
proof -
  have pos: "t \<noteq> 0" if "0 < sint t" for t :: "32 word" using that by auto
  have get: "gkm_secret_collection_get_lock_idle c' = gkm_secret_collection_get_lock_idle x \<and> gkm_secret_collection_get_lock_after c' = gkm_secret_collection_get_lock_after x"
    if "same_setting x c'" for x using that by (simp add: same_setting_def gkm_secret_collection_get_lock_idle_def gkm_secret_collection_get_lock_after_def)
  show "gkm_secret_collection_get_lock_idle c' = gkm_secret_collection_get_lock_idle c" if "0 < sint (gkm_secret_collection_get_lock_idle c)"
    using get [OF assms] pos [OF that] lock_idle_read(1) [OF that] by (simp add: set_lock_def lock_setting_def Let_def LOCK_ON_IDLE_FLAG_def)
  show "gkm_secret_collection_get_lock_after c' = gkm_secret_collection_get_lock_after c"
    if "gkm_secret_collection_get_lock_idle c = 0" "0 < sint (gkm_secret_collection_get_lock_after c)"
    using get [OF assms] that(1) pos [OF that(2)] lock_idle_read(2) [OF that(2)]
    by (simp add: set_lock_def lock_setting_def Let_def LOCK_ON_IDLE_FLAG_def LOCK_AFTER_FLAG_def)
qed

lemma item_listed:
  assumes "visit_ok visit" and "coll_wf c" and "gkm_secret_collection_get_item c k = Some item"
  shows "item \<in> set (gkm_secret_collection_get_items visit c)"
proof -
  have "(k, item) \<in> set (items c)" using assms(3) by (simp add: gkm_secret_collection_get_item_def map_of_SomeD)
  moreover have "set (visit (items c)) = set (items c)" using assms(1,2) by (simp add: visit_ok_def coll_wf_def distinct_map)
  ultimately show ?thesis by (force simp: gkm_secret_collection_get_items_def)
qed

lemma map_option_item: "(\<And>i. m = Some i \<Longrightarrow> R i (f i)) \<Longrightarrow> rel_option R m (map_option f m)"
  by (cases m) simp_all

section \<open>Writing and reading a keyring\<close>

text \<open>C10: A keyring that \<^verbatim>\<open>gkm_secret_binary_write\<close> writes is read back by \<^verbatim>\<open>gkm_secret_binary_read\<close> with the same master secret, into
  any collection: the write succeeds, the read succeeds, and the collection has then exactly the items that were written, each with the
  same label, times, access list and fields and with its secret, and the lock timeout. The schema of an item is the one that the old
  item types have a name for, and the two times of the collection change places.\<close>

theorem keyring_roundtrip:
  assumes heap: "granting h" and env: "env_ok env" and visit: "visit_ok visit" and wf: "coll_wf c" "coll_wf c0"
    and ok: "keyring_ok env salt (gkm_secret_collection_get_items visit c) c sd"
    and mast: "master sd = Some mast" "master sd0 = Some mast" and junk: "length junk = 16" and rnd: "random < 1000"
  shows "\<exists>m n c' sd'. gkm_secret_binary_write h env visit random salt junk c sd = Some (GKM_DATA_SUCCESS, Some m, n)
    \<and> n \<le> length m \<and> gkm_secret_binary_read h env visit (take n m) (c0, Some sd0) = Some (GKM_DATA_SUCCESS, c', Some sd') \<and> coll_wf c'
    \<and> coll_label c' = coll_label c \<and> coll_created c' = coll_modified c \<and> coll_modified c' = coll_created c
    \<and> (\<forall>k. rel_option same_item (gkm_secret_collection_get_item c k) (gkm_secret_collection_get_item c' k))
    \<and> (\<forall>k. gkm_secret_collection_get_item c k \<noteq> None \<longrightarrow> gkm_secret_data_get_secret sd' k = Some (secret_of sd k))
    \<and> (0 < sint (gkm_secret_collection_get_lock_idle c) \<longrightarrow> gkm_secret_collection_get_lock_idle c' = gkm_secret_collection_get_lock_idle c)
    \<and> (gkm_secret_collection_get_lock_idle c = 0 \<and> 0 < sint (gkm_secret_collection_get_lock_after c)
         \<longrightarrow> gkm_secret_collection_get_lock_after c' = gkm_secret_collection_get_lock_after c)"
proof -
  let ?its = "gkm_secret_collection_get_items visit c" and ?it = "of_nat (1000 + random) :: 32 word"
  have i: "sint ?it \<ge> 1" using iterations_sint [OF rnd] by simp
  from granting.binary_write [OF heap env ok refl mast(1) junk rnd] obtain m n where
    w: "gkm_secret_binary_write h env visit random salt junk c sd = Some (GKM_DATA_SUCCESS, Some m, n)" "n \<le> length m"
    "take n m = encode_keyring env salt ?it mast ?its c sd" by blast
  from granting.read_unlocked [OF heap env visit wf i ok mast(2)] obtain c' sd' where
    r: "gkm_secret_binary_read h env visit (take n m) (c0, Some sd0) = Some (GKM_DATA_SUCCESS, c', Some sd')" "coll_wf c'"
    "same_setting (set_lock (fst (lock_setting c)) (snd (lock_setting c))
        (c0\<lparr>coll_label := coll_label c, coll_modified := coll_created c, coll_created := coll_modified c\<rparr>)) c'"
    "\<And>k. gkm_secret_collection_get_item c' k = map_option (\<lambda>item. item_of_info True (full_info env sd item)) (gkm_secret_collection_get_item c k)"
    "\<And>k. gkm_secret_data_get_secret sd' k = (if gkm_secret_collection_get_item c k = None then gkm_secret_data_get_secret sd0 k else Some (secret_of sd k))"
    unfolding w(3) by blast
  have set: "coll_label c' = coll_label c" "coll_created c' = coll_modified c" "coll_modified c' = coll_created c"
    using r(3) by (simp_all add: same_setting_def set_lock_def gkm_secret_collection_set_lock_idle_def gkm_secret_collection_set_lock_after_def split: if_splits)
  have its: "rel_option same_item (gkm_secret_collection_get_item c k) (gkm_secret_collection_get_item c' k)" for k
    unfolding r(4)
  proof (rule map_option_item)
    fix item assume "gkm_secret_collection_get_item c k = Some item"
    then have "item \<in> set ?its" by (rule item_listed [OF visit wf(1)])
    then have "item_ok env sd item" using ok by (simp add: keyring_ok_def)
    then show "same_item item (item_of_info True (full_info env sd item))" by (rule same_item_info)
  qed
  show ?thesis using w(1,2) r(1,2,5) set its lock_kept [OF r(3)] by (intro exI conjI) auto
qed

text \<open>A small keyring with one item, in a library that stands for libgcrypt.\<close>

definition demo_env :: Env where
  "demo_env = \<lparr>utf8 = (\<lambda>s. True), md5 = (\<lambda>x. replicate 16 (of_nat (length x))), sha256 = (\<lambda>x. take 32 (x @ replicate 32 9)),
     aes_encrypt = (\<lambda>key x. xor_bytes x key), aes_decrypt = (\<lambda>key x. xor_bytes x key), md_open = True, cipher_open = True\<rparr>"

definition demo_item :: GkmSecretItem where
  "demo_item = \<lparr>item_identifier = ascii ''7'', item_label = Some (ascii ''mail''), item_created = 5, item_modified = 6,
     item_schema = None, item_fields = [(ascii ''user'', Some (ascii ''joe''))], compat_acl = []\<rparr>"

definition demo_collection :: GkmSecretCollection where
  "demo_collection = \<lparr>coll_label = Some (ascii ''login''), coll_created = 3, coll_modified = 4, destruct_idle = Some 60, destruct_after = None,
     items = [(ascii ''7'', demo_item)], watermark = 7\<rparr>"

definition empty_collection :: GkmSecretCollection where
  "empty_collection = \<lparr>coll_label = None, coll_created = 0, coll_modified = 0, destruct_idle = None, destruct_after = None, items = [], watermark = 0\<rparr>"

definition demo_data :: GkmSecretData where
  "demo_data = \<lparr>secrets = [(ascii ''7'', Some [1, 2, 3])], master = Some (Some [42])\<rparr>"

lemma demo_env_ok: "env_ok demo_env"
  by (auto simp: env_ok_def digests_ok_def ciphers_ok_def demo_env_def xor_bytes_twice)

lemma demo_visit: "visit_ok (\<lambda>xs. xs)"
  by (simp add: visit_ok_def)

lemma demo_wf: "coll_wf demo_collection" "coll_wf empty_collection"
  by (simp_all add: coll_wf_def demo_collection_def empty_collection_def demo_item_def)

lemma demo_items: "gkm_secret_collection_get_items (\<lambda>xs. xs) demo_collection = [demo_item]"
  by (simp add: gkm_secret_collection_get_items_def demo_collection_def)

lemma demo_number: "item_identifier demo_item = format_uint32 7" "item_number demo_item = 7"
proof -
  show 1: "item_identifier demo_item = format_uint32 7" by (simp add: demo_item_def format_uint32_def print_decimal.simps ascii_def)
  show "item_number demo_item = 7" by (simp add: item_number_def 1 convert_format_uint32)
qed

lemma demo_names: "\<not> is_compat_name (ascii ''user'')" "gkm_secret_fields_get_names [(ascii ''user'', Some (ascii ''joe''))] = [ascii ''user'']"
  by (simp_all add: is_compat_name_def begins_with_def ascii_def gkm_secret_fields_get_names_def string_ptr_equal_def)

lemma demo_item_ok: "item_ok demo_env demo_data demo_item"
proof -
  have t: "text_ok demo_env (Some (ascii ''user''))" "text_ok demo_env (Some (ascii ''joe''))" "text_ok demo_env (item_label demo_item)"
    by (simp_all add: text_ok_def demo_env_def demo_item_def ascii_def)
  then show ?thesis using demo_names(1)
    by (simp add: item_ok_def demo_number(1) [symmetric] demo_number(2) secret_of_def gkm_secret_data_get_secret_def length_ok_def demo_data_def)
      (simp add: demo_item_def fields_ok_def field_ok_def acl_ok_def)
qed

lemma length_codes: "length (encode_byte_array v) = (case v of None \<Rightarrow> 4 | Some x \<Rightarrow> 4 + length x)" "length (egg_buffer_encode_uint32 n) = 4" "length (encode_uint64 t) = 8"
  by (simp_all add: encode_byte_array_def egg_buffer_encode_uint32_def encode_uint64_def split: option.split)

lemma demo_codes: "length (encode_codes (full_codes (item_fields demo_item))) < 100" "length (encode_codes (hashed_codes demo_env (item_fields demo_item))) < 100"
proof -
  let ?t = "[(ascii ''user'', Some (ascii ''joe''))]"
  have u: "map_of ?t (ascii ''gkr:compat:uint32:'' @ ascii ''user'') = None" "map_of ?t (ascii ''gkr:compat:hashed:'' @ ascii ''user'') = None" by (simp_all add: ascii_def)
  have f: "full_code ?t (ascii ''user'') = Text (Some (ascii ''joe''))"
    using u demo_names(1) by (simp add: full_code_def gkm_secret_fields_get_compat_uint32_def make_compat_uint32_name_def field_value_def gkm_secret_fields_get_def)
  have g: "hashed_code demo_env ?t (ascii ''user'') = Text (Some (egg_hex_encode_full (md5 demo_env (ascii ''joe'')) False 0 0))"
    using u demo_names(1) by (simp add: hashed_code_def gkm_secret_fields_get_compat_hashed_uint32_def gkm_secret_fields_get_compat_hashed_string_def
        make_compat_uint32_name_def make_compat_hashed_name_def field_value_def compat_hash_value_as_string_def)
  have l: "length (egg_hex_encode_full (md5 demo_env (ascii ''joe'')) False 0 0) = 32" using hex_encode_chars [of "md5 demo_env (ascii ''joe'')" False 0] by (simp add: demo_env_def)
  show "length (encode_codes (full_codes (item_fields demo_item))) < 100" "length (encode_codes (hashed_codes demo_env (item_fields demo_item))) < 100"
    by (simp_all add: encode_codes_def full_codes_def hashed_codes_def demo_item_def demo_names(2) f g l encode_attr_simps length_codes, simp_all add: ascii_def)
qed

lemma demo_keyring_ok: "keyring_ok demo_env [1, 2, 3, 4, 5, 6, 7, 8] (gkm_secret_collection_get_items (\<lambda>xs. xs) demo_collection) demo_collection demo_data"
proof -
  have h: "length (encode_head [1, 2, 3, 4, 5, 6, 7, 8] 0 demo_collection) < 100"
    by (simp add: encode_head_def length_codes demo_collection_def ascii_def)
  have p: "length (encode_hashed_part demo_env [demo_item]) < 200"
    using demo_codes(2) by (simp add: encode_hashed_part_def encode_hashed_item_def length_codes)
  have l: "length (encode_byte_array (item_label demo_item)) < 100" "length (encode_byte_array (secret_of demo_data (item_identifier demo_item))) < 100"
    "length (encode_acl (compat_acl demo_item)) < 100"
    by (simp_all add: length_codes demo_item_def demo_data_def secret_of_def gkm_secret_data_get_secret_def encode_acl_def ascii_def)
  then have b: "length (encode_item demo_data demo_item) < 1000" using demo_codes(1) by (simp add: encode_item_def encode_front_def length_codes)
  have "length (encode_blocks demo_env demo_data [demo_item]) < 2000" using b padding_fills(2) [of "16 + length (encode_item demo_data demo_item)"] demo_env_ok
    by (simp add: encode_blocks_def encode_body_def Let_def env_ok_def digests_ok_def)
  with h p show ?thesis unfolding demo_items keyring_ok_def
    using demo_item_ok by (simp add: demo_collection_def text_ok_def demo_env_def ascii_def)
qed

theorem keyring_roundtrip_witness:
  "\<exists>m n c' sd'. gkm_secret_binary_write libc_realloc demo_env (\<lambda>xs. xs) 500 [1, 2, 3, 4, 5, 6, 7, 8] (replicate 16 0) demo_collection demo_data
      = Some (GKM_DATA_SUCCESS, Some m, n)
    \<and> gkm_secret_binary_read libc_realloc demo_env (\<lambda>xs. xs) (take n m) (empty_collection, Some demo_data) = Some (GKM_DATA_SUCCESS, c', Some sd')
    \<and> coll_label c' = Some (ascii ''login'') \<and> coll_created c' = 4 \<and> coll_modified c' = 3
    \<and> rel_option same_item (Some demo_item) (gkm_secret_collection_get_item c' (ascii ''7''))
    \<and> gkm_secret_data_get_secret sd' (ascii ''7'') = Some (Some [1, 2, 3]) \<and> gkm_secret_collection_get_lock_idle c' = 60"
proof -
  have d: "coll_label demo_collection = Some (ascii ''login'')" "coll_created demo_collection = 3" "coll_modified demo_collection = 4"
    "gkm_secret_collection_get_item demo_collection (ascii ''7'') = Some demo_item" "secret_of demo_data (ascii ''7'') = Some [1, 2, 3]"
    "gkm_secret_collection_get_lock_idle demo_collection = 60" "master demo_data = Some (Some [42])"
    by (simp_all add: demo_collection_def gkm_secret_collection_get_item_def secret_of_def gkm_secret_data_get_secret_def demo_data_def
        gkm_secret_collection_get_lock_idle_def)
  have pos: "0 < sint (60 :: 32 word)" by simp
  from keyring_roundtrip [OF granting_libc demo_env_ok demo_visit demo_wf demo_keyring_ok d(7,7), of "replicate 16 0" 500]
  obtain m n c' sd' where
    "gkm_secret_binary_write libc_realloc demo_env (\<lambda>xs. xs) 500 [1, 2, 3, 4, 5, 6, 7, 8] (replicate 16 0) demo_collection demo_data = Some (GKM_DATA_SUCCESS, Some m, n)"
    "gkm_secret_binary_read libc_realloc demo_env (\<lambda>xs. xs) (take n m) (empty_collection, Some demo_data) = Some (GKM_DATA_SUCCESS, c', Some sd')"
    "coll_label c' = Some (ascii ''login'')" "coll_created c' = 4" "coll_modified c' = 3"
    "\<forall>k. rel_option same_item (gkm_secret_collection_get_item demo_collection k) (gkm_secret_collection_get_item c' k)"
    "\<forall>k. gkm_secret_collection_get_item demo_collection k \<noteq> None \<longrightarrow> gkm_secret_data_get_secret sd' k = Some (secret_of demo_data k)"
    "0 < sint (60 :: 32 word) \<longrightarrow> gkm_secret_collection_get_lock_idle c' = 60" unfolding d(1-3,6) by auto
  moreover from this(6) d(4) have "rel_option same_item (Some demo_item) (gkm_secret_collection_get_item c' (ascii ''7''))" by metis
  moreover from calculation(7) d(4,5) have "gkm_secret_data_get_secret sd' (ascii ''7'') = Some (Some [1, 2, 3])" by fastforce
  ultimately show ?thesis using pos by blast
qed

section \<open>A locked keyring\<close>

lemma field_matches_hashed:
  assumes ok: "fields_ok env tab" "digests_ok env" and full: "field_matches (md5 env) tab key v = Some True"
  shows "field_matches (md5 env) (hashed_table env tab) key v = Some True"
proof (cases "is_compat_name key")
  case False
  have none: "map_of tab (hashed_name key) = None"
  proof (rule ccontr)
    assume "map_of tab (hashed_name key) \<noteq> None"
    then obtain x where "(hashed_name key, x) \<in> set tab" using map_of_SomeD by fastforce
    then have "field_ok env tab (hashed_name key, x)" using ok(1) by (simp add: fields_ok_def)
    then show False by (auto simp: field_ok_def is_compat_name_def begins_with_def ascii_def)
  qed
  with full False have v: "map_of tab key = Some (Some v)"
    by (auto simp: field_matches_def make_compat_hashed_name_def string_ptr_equal_def split: option.splits)
  note l = hashed_table_lookup [OF ok False]
  have "string_ptr_equal x x" for x by (simp add: string_ptr_equal_def split: option.split)
  with l v False show ?thesis
    by (simp add: field_matches_def make_compat_hashed_name_def make_compat_uint32_name_def field_value_def Let_def)
qed (simp add: field_matches_def)

lemma match_loop_hashed:
  assumes ok: "fields_ok env tab" "digests_ok env"
  shows "match_loop (md5 env) tab es = Some True \<Longrightarrow> match_loop (md5 env) (hashed_table env tab) es = Some True"
proof (induction es)
  case (Cons e es)
  obtain key val where e: "e = (key, val)" by force
  from Cons.prems e obtain v where v: "val = Some v" "field_matches (md5 env) tab key v = Some True" "match_loop (md5 env) tab es = Some True"
    by (auto split: Option.bind_split_asm if_split_asm)
  with Cons.IH field_matches_hashed [OF ok v(2)] e show ?case by simp
qed simp

text \<open>C11: A keyring file can be read without its master secret: the collection has then the same items, and every search by attributes that finds
  an item in the unlocked keyring finds it in the locked one, although the file shows only digests of the values.\<close>

theorem keyring_locked_search:
  assumes heap: "granting h" and env: "env_ok env" and visit: "visit_ok visit" and wf: "coll_wf c" "coll_wf c0"
    and ok: "keyring_ok env salt (gkm_secret_collection_get_items visit c) c sd"
    and mast: "master sd = Some mast" and junk: "length junk = 16" and rnd: "random < 1000"
  shows "\<exists>m n c'. gkm_secret_binary_write h env visit random salt junk c sd = Some (GKM_DATA_SUCCESS, Some m, n)
    \<and> gkm_secret_binary_read h env visit (take n m) (c0, None) = Some (GKM_DATA_SUCCESS, c', None)
    \<and> (\<forall>k. gkm_secret_collection_get_item c' k = None \<longleftrightarrow> gkm_secret_collection_get_item c k = None)
    \<and> (\<forall>k item item' order needle. gkm_secret_collection_get_item c k = Some item \<longrightarrow> gkm_secret_collection_get_item c' k = Some item'
         \<longrightarrow> gkm_secret_fields_match (md5 env) order (item_fields item) needle = Some True
         \<longrightarrow> gkm_secret_fields_match (md5 env) order (item_fields item') needle = Some True)"
proof -
  let ?its = "gkm_secret_collection_get_items visit c" and ?it = "of_nat (1000 + random) :: 32 word"
  have i: "sint ?it \<ge> 1" using iterations_sint [OF rnd] by simp
  from granting.binary_write [OF heap env ok refl mast junk rnd] obtain m n where
    w: "gkm_secret_binary_write h env visit random salt junk c sd = Some (GKM_DATA_SUCCESS, Some m, n)"
    "take n m = encode_keyring env salt ?it mast ?its c sd" by blast
  from granting.read_locked [OF heap env visit wf i ok, of mast] obtain c' where
    r: "gkm_secret_binary_read h env visit (take n m) (c0, None) = Some (GKM_DATA_SUCCESS, c', None)"
    "\<And>k. gkm_secret_collection_get_item c' k = map_option (\<lambda>item. item_of_info False (hashed_info env item)) (gkm_secret_collection_get_item c k)"
    unfolding w(2) by blast
  have "gkm_secret_fields_match (md5 env) order (item_fields item') needle = Some True"
    if a: "gkm_secret_collection_get_item c k = Some item" "gkm_secret_collection_get_item c' k = Some item'"
      "gkm_secret_fields_match (md5 env) order (item_fields item) needle = Some True" for k item item' order needle
  proof -
    have "item \<in> set ?its" by (rule item_listed [OF visit wf(1) a(1)])
    then have f: "fields_ok env (item_fields item)" using ok by (simp add: keyring_ok_def item_ok_def)
    have "item_fields item' = hashed_table env (item_fields item)" using r(2) [of k] a(1,2) by (auto simp: item_of_info_def hashed_info_def item_info_new_def)
    with match_loop_hashed [OF f, of "order needle"] a(3) env show ?thesis by (simp add: gkm_secret_fields_match_def env_ok_def)
  qed
  with w(1) r show ?thesis by (intro exI conjI) auto
qed

theorem keyring_locked_search_witness:
  "\<exists>m n c' item'. gkm_secret_binary_write libc_realloc demo_env (\<lambda>xs. xs) 500 [1, 2, 3, 4, 5, 6, 7, 8] (replicate 16 0) demo_collection demo_data
      = Some (GKM_DATA_SUCCESS, Some m, n)
    \<and> gkm_secret_binary_read libc_realloc demo_env (\<lambda>xs. xs) (take n m) (empty_collection, None) = Some (GKM_DATA_SUCCESS, c', None)
    \<and> gkm_secret_collection_get_item c' (ascii ''7'') = Some item'
    \<and> gkm_secret_fields_match (md5 demo_env) (\<lambda>xs. xs) (item_fields item') [(ascii ''user'', Some (ascii ''joe''))] = Some True"
proof -
  let ?needle = "[(ascii ''user'', Some (ascii ''joe''))]"
  have d: "gkm_secret_collection_get_item demo_collection (ascii ''7'') = Some demo_item" "master demo_data = Some (Some [42])"
    by (simp_all add: demo_collection_def gkm_secret_collection_get_item_def demo_data_def)
  have f: "gkm_secret_fields_match (md5 demo_env) (\<lambda>xs. xs) (item_fields demo_item) ?needle = Some True"
    by (simp add: gkm_secret_fields_match_def field_matches_def demo_item_def string_ptr_equal_def)
  from keyring_locked_search [OF granting_libc demo_env_ok demo_visit demo_wf demo_keyring_ok d(2), of "replicate 16 0" 500] obtain m n c' where
    w: "gkm_secret_binary_write libc_realloc demo_env (\<lambda>xs. xs) 500 [1, 2, 3, 4, 5, 6, 7, 8] (replicate 16 0) demo_collection demo_data = Some (GKM_DATA_SUCCESS, Some m, n)"
    "gkm_secret_binary_read libc_realloc demo_env (\<lambda>xs. xs) (take n m) (empty_collection, None) = Some (GKM_DATA_SUCCESS, c', None)"
    "\<forall>k. gkm_secret_collection_get_item c' k = None \<longleftrightarrow> gkm_secret_collection_get_item demo_collection k = None"
    "\<forall>k item item' order needle. gkm_secret_collection_get_item demo_collection k = Some item \<longrightarrow> gkm_secret_collection_get_item c' k = Some item'
       \<longrightarrow> gkm_secret_fields_match (md5 demo_env) order (item_fields item) needle = Some True
       \<longrightarrow> gkm_secret_fields_match (md5 demo_env) order (item_fields item') needle = Some True" by auto
  from w(3) d(1) obtain item' where item': "gkm_secret_collection_get_item c' (ascii ''7'') = Some item'" by (cases "gkm_secret_collection_get_item c' (ascii ''7'')") auto
  with w d(1) f show ?thesis by blast
qed

section \<open>Reads that fail\<close>

text \<open>C13: A keyring file read with another master secret is answered with \<^verbatim>\<open>GKM_DATA_LOCKED\<close> and leaves the collection and
  the secrets as they were, provided that the check value, the MD5 of the decrypted blocks, does not fit by chance.\<close>

theorem keyring_wrong_master:
  assumes heap: "granting h" and env: "env_ok env" and ok: "keyring_ok env salt (gkm_secret_collection_get_items visit c) c sd"
    and mast: "master sd = Some mast" "master sd0 = Some mast'" and junk: "length junk = 16" and rnd: "random < 1000"
    and bad: "let i = int (1000 + random); bs = decoded_blocks env salt i mast'
        (encode_secret_part env salt i mast (encode_blocks env sd (gkm_secret_collection_get_items visit c))) in take 16 bs \<noteq> md5 env (drop 16 bs)"
  shows "\<exists>m n. gkm_secret_binary_write h env visit random salt junk c sd = Some (GKM_DATA_SUCCESS, Some m, n)
    \<and> gkm_secret_binary_read h env visit (take n m) (c0, Some sd0) = Some (GKM_DATA_LOCKED, c0, Some sd0)"
proof -
  let ?it = "of_nat (1000 + random) :: 32 word"
  note it = iterations_sint [OF rnd]
  have i: "sint ?it \<ge> 1" using it by simp
  from granting.binary_write [OF heap env ok refl mast(1) junk rnd] obtain m n where
    w: "gkm_secret_binary_write h env visit random salt junk c sd = Some (GKM_DATA_SUCCESS, Some m, n)"
    "take n m = encode_keyring env salt ?it mast (gkm_secret_collection_get_items visit c) c sd" by blast
  have "gkm_secret_binary_read h env visit (take n m) (c0, Some sd0) = Some (GKM_DATA_LOCKED, c0, Some sd0)"
    unfolding w(2) by (rule granting.read_wrong_password [OF heap env i ok mast(2)]) (use bad in \<open>simp only: it Let_def simp_thms\<close>)
  with w(1) show ?thesis by blast
qed

text \<open>The digest that the key and the initialisation vector of the small keyring are taken from.\<close>

lemma demo_digest:
  assumes "i \<ge> 1"
  shows "derived_digest demo_env (Some [p]) [1, 2, 3, 4, 5, 6, 7, 8] i = p # [1, 2, 3, 4, 5, 6, 7, 8] @ replicate 23 9"
proof -
  obtain n where n: "nat i = Suc n" using assms by (cases "nat i") auto
  let ?y = "p # [1, 2, 3, 4, 5, 6, 7, 8] @ replicate 23 9 :: bytes"
  have "sha256 demo_env ?y = ?y" by (simp add: demo_env_def)
  then have "(sha256 demo_env ^^ n) ?y = ?y" by (induction n) simp_all
  moreover have "sha256 demo_env ([p] @ [1, 2, 3, 4, 5, 6, 7, 8]) = ?y" by (simp add: demo_env_def numeral_eq_Suc)
  ultimately show ?thesis by (simp only: derived_digest_def n funpow_Suc_right comp_def password_bytes_def option.case)
qed

lemma demo_wrong_blocks:
  assumes "i \<ge> 1"
  shows "let bs = decoded_blocks demo_env [1, 2, 3, 4, 5, 6, 7, 8] i (Some [43])
      (encode_secret_part demo_env [1, 2, 3, 4, 5, 6, 7, 8] i (Some [42]) (encode_blocks demo_env sd its)) in take 16 bs \<noteq> md5 demo_env (drop 16 bs)"
proof -
  let ?bl = "encode_blocks demo_env sd its" and ?salt = "[1, 2, 3, 4, 5, 6, 7, 8] :: bytes"
  let ?part = "encode_secret_part demo_env ?salt i (Some [42]) ?bl"
  let ?bs = "decoded_blocks demo_env ?salt i (Some [43]) ?part"
  have env: "digests_ok demo_env" "ciphers_ok demo_env" using demo_env_ok by (simp_all add: env_ok_def)
  define v where "v = (of_nat (length (encode_body sd its)) :: byte)"
  have k: "derived_key demo_env (Some [p]) ?salt i = p # ?salt @ replicate 7 9" "derived_iv demo_env (Some [p]) ?salt i = replicate 16 9" for p
    by (simp_all add: derived_key_def derived_iv_def demo_digest [OF assms] numeral_eq_Suc)
  obtain n where n: "length ?bl div 16 = Suc n" using length_encode_blocks [OF env(1), of sd its] by (cases "length ?bl div 16") auto
  have bl: "take 16 ?bl = replicate 16 v" by (simp add: encode_blocks_def demo_env_def v_def)
  have lp: "length ?part = length ?bl" by (rule length_secret_part [OF demo_env_ok assms])
  have "take 16 ?part = xor_bytes (xor_bytes (replicate 16 v) (replicate 16 9)) (42 # ?salt @ replicate 7 9)"
    by (simp add: encode_secret_part_def n k bl Let_def) (simp add: demo_env_def)
  then have "take 16 ?bs = xor_bytes (xor_bytes (xor_bytes (xor_bytes (replicate 16 v) (replicate 16 9)) (42 # ?salt @ replicate 7 9)) (43 # ?salt @ replicate 7 9)) (replicate 16 9)"
    by (simp add: decoded_blocks_def lp n k) (simp add: demo_env_def)
  then have "take 16 ?bs ! 0 = ((v XOR 9) XOR 42) XOR 43 XOR 9" by (simp add: xor_bytes_def numeral_eq_Suc xor.assoc)
  also have "\<dots> = v XOR (9 XOR 42 XOR 43 XOR 9)" by (simp only: xor.assoc)
  also have "\<dots> = v XOR 1" by simp
  finally have first: "take 16 ?bs ! 0 = v XOR 1" .
  have "length ?bs = 16 * (length ?bl div 16)" unfolding decoded_blocks_def lp
    using env(2) derived_lengths(2,3) [OF env(1) assms] length_encode_blocks(1) [OF env(1), of sd its] lp by (intro length_cbc_decrypt) (simp_all add: ciphers_ok_def)
  then have "length (drop 16 ?bs) = length (encode_body sd its)" using length_encode_blocks(1) [OF env(1), of sd its] by (simp add: encode_blocks_def demo_env_def)
  then have "md5 demo_env (drop 16 ?bs) ! 0 = v" by (simp add: demo_env_def v_def)
  moreover have "v XOR 1 \<noteq> v"
  proof
    assume "v XOR 1 = v"
    then have "v XOR (v XOR 1) = v XOR v" by simp
    then show False by (simp only: xor.assoc [symmetric] xor_self_eq) simp
  qed
  ultimately show ?thesis using first unfolding Let_def by metis
qed

theorem keyring_wrong_master_witness:
  "\<exists>m n. gkm_secret_binary_write libc_realloc demo_env (\<lambda>xs. xs) 500 [1, 2, 3, 4, 5, 6, 7, 8] (replicate 16 0) demo_collection demo_data
      = Some (GKM_DATA_SUCCESS, Some m, n)
    \<and> gkm_secret_binary_read libc_realloc demo_env (\<lambda>xs. xs) (take n m) (empty_collection, Some (demo_data\<lparr>master := Some (Some [43])\<rparr>))
        = Some (GKM_DATA_LOCKED, empty_collection, Some (demo_data\<lparr>master := Some (Some [43])\<rparr>))"
proof -
  have m: "master demo_data = Some (Some [42])" "master (demo_data\<lparr>master := Some (Some [43])\<rparr>) = Some (Some [43])" by (simp_all add: demo_data_def)
  have "int (1000 + 500) \<ge> 1" by simp
  from keyring_wrong_master [OF granting_libc demo_env_ok demo_keyring_ok m, of "replicate 16 0" 500 empty_collection]
    demo_wrong_blocks [OF this, of demo_data "gkm_secret_collection_get_items (\<lambda>xs. xs) demo_collection"] show ?thesis by (simp add: Let_def)
qed

text \<open>C15: Whatever the file is, a read that does not succeed leaves the collection and the secrets unchanged: the items are read
  completely before any of them is set up.\<close>

theorem keyring_failed_read_unchanged:
  assumes "gkm_secret_binary_read h env visit data (c, sdata) = Some (res, c', sdata')" and "res \<noteq> GKM_DATA_SUCCESS"
  shows "c' = c \<and> sdata' = sdata"
  using assms unfolding gkm_secret_binary_read_def Let_def
  by (auto split: Option.bind_split_asm option.split_asm prod.split_asm if_split_asm read_items_result.split_asm)

theorem keyring_failed_read_unchanged_witness:
  "gkm_secret_binary_read libc_realloc demo_env (\<lambda>xs. xs) [1, 2, 3] (demo_collection, Some demo_data) = Some (GKM_DATA_UNRECOGNIZED, demo_collection, Some demo_data)"
proof -
  have r: "\<exists>c' sdata'. gkm_secret_binary_read libc_realloc demo_env (\<lambda>xs. xs) [1, 2, 3] (demo_collection, Some demo_data) = Some (GKM_DATA_UNRECOGNIZED, c', sdata')"
    by (simp add: gkm_secret_binary_read_def egg_buffer_init_static_def KEYRING_FILE_HEADER_def)
  then show ?thesis using keyring_failed_read_unchanged [of libc_realloc demo_env "\<lambda>xs. xs" "[1, 2, 3]" demo_collection "Some demo_data" GKM_DATA_UNRECOGNIZED] by auto
qed

lemma setup_item_wf:
  assumes "coll_wf c" and "setup_item_from_info h k info (c, sdata) = Some (c', sdata')"
  shows "coll_wf c'"
proof -
  from assms(2) obtain item where i: "map_of (items c) k = Some item"
    by (auto simp: setup_item_from_info_def gkm_secret_collection_get_item_def split: Option.bind_split_asm)
  have k: "item_identifier item = k" by (rule coll_wf_lookup [OF assms(1) i])
  show ?thesis
  proof (cases sdata)
    case None
    with assms(2) i k show ?thesis
      by (auto simp: setup_item_from_info_def gkm_secret_collection_get_item_def Let_def intro!: coll_wf_update [OF assms(1)])
  next
    case (Some data)
    with assms(2) i k show ?thesis
      by (auto simp: setup_item_from_info_def gkm_secret_collection_get_item_def Let_def split: Option.bind_split_asm intro!: coll_wf_update [OF assms(1)])
  qed
qed

lemma update_items_wf:
  "coll_wf c \<Longrightarrow> update_items h infos unused (c, sdata) = Some (rest, c', sdata') \<Longrightarrow> coll_wf c'"
proof (induction infos arbitrary: unused c sdata)
  case (Cons info infos)
  from Cons.prems(2) obtain c2 sdata2 where
    s: "setup_item_from_info h (info_identifier info) info ((if gkm_secret_collection_get_item c (info_identifier info) = None
         then gkm_secret_collection_new_item (info_identifier info) c else c), sdata) = Some (c2, sdata2)"
    "update_items h infos (removeAll (info_identifier info) unused) (c2, sdata2) = Some (rest, c', sdata')"
    by (auto simp: Let_def split: Option.bind_split_asm)
  have "coll_wf c2" using new_item_table [OF Cons.prems(1), of "info_identifier info"] setup_item_wf [OF _ s(1)] by blast
  with s(2) show ?case by (intro Cons.IH)
qed simp

text \<open>C17: Reading a file keeps the table of items well formed, whatever the file holds: each item stands once, under its own identifier.\<close>

theorem keyring_read_keeps_table:
  assumes "coll_wf c" and "gkm_secret_binary_read h env visit data (c, sdata) = Some (res, c', sdata')"
  shows "coll_wf c'"
proof -
  consider (same) "c' = c" | (updated) head infos where "update_collection h visit head infos (c, sdata) = Some (c', sdata')"
    using assms(2) unfolding gkm_secret_binary_read_def Let_def
    by (auto split: Option.bind_split_asm option.split_asm prod.split_asm if_split_asm read_items_result.split_asm)
  then show ?thesis
  proof cases
    case updated
    obtain lbl ctime mtime flgs timeout x y z where hd: "head = (lbl, ctime, mtime, flgs, timeout, x, y, z)" by (cases head) auto
    let ?c2 = "set_lock flgs timeout (c\<lparr>coll_label := lbl, coll_modified := mtime, coll_created := ctime\<rparr>)"
    have wf: "coll_wf ?c2" using assms(1) by (simp add: coll_wf_def set_lock_def gkm_secret_collection_set_lock_idle_def gkm_secret_collection_set_lock_after_def)
    from updated obtain unused c3 where "update_items h infos (map item_identifier (gkm_secret_collection_get_items visit ?c2)) (?c2, sdata) = Some (unused, c3, sdata')"
      "c' = fold remove_unavailable_item unused c3"
      unfolding update_collection_def hd prod.case Let_def set_lock_def [symmetric] by (auto split: Option.bind_split_asm)
    with update_items_wf [OF wf] remove_unavailable show ?thesis by blast
  qed (use assms(1) in simp)
qed

theorem keyring_read_keeps_table_witness:
  "\<exists>c' sdata'. gkm_secret_binary_read libc_realloc demo_env (\<lambda>xs. xs)
      (encode_keyring demo_env [1, 2, 3, 4, 5, 6, 7, 8] 1500 (Some [42]) (gkm_secret_collection_get_items (\<lambda>xs. xs) demo_collection) demo_collection demo_data)
      (empty_collection, Some demo_data) = Some (GKM_DATA_SUCCESS, c', sdata') \<and> coll_wf c'"
proof -
  have "master demo_data = Some (Some [42])" "1 \<le> sint (1500 :: 32 word)" by (simp_all add: demo_data_def)
  from libc_grants.read_unlocked [OF demo_env_ok demo_visit demo_wf this(2) demo_keyring_ok this(1)] obtain c' sdata' where
    r: "gkm_secret_binary_read libc_realloc demo_env (\<lambda>xs. xs)
      (encode_keyring demo_env [1, 2, 3, 4, 5, 6, 7, 8] 1500 (Some [42]) (gkm_secret_collection_get_items (\<lambda>xs. xs) demo_collection) demo_collection demo_data)
      (empty_collection, Some demo_data) = Some (GKM_DATA_SUCCESS, c', Some sdata')" by blast
  with keyring_read_keeps_table [OF demo_wf(2) r] show ?thesis by blast
qed

section \<open>Damaged files\<close>

lemma take_cut: "n \<le> length ys \<Longrightarrow> take (length (xs @ ys) - n) (xs @ ys) = xs @ take (length ys - n) ys"
  by simp

text \<open>C27: The reader leaves its memory on files that are cut off: with fewer than four bytes behind the file mark the version is read
  beyond the end, and a file that was cut off inside its encrypted part, by any number of bytes, is read beyond the end
  too, because the length of that part is taken from the file and not compared with what is there.\<close>

theorem keyring_cut_off_overread:
  assumes heap: "granting h" and env: "env_ok env" and i: "sint iterations \<ge> 1" and ok: "keyring_ok env salt its c sd"
    and n: "0 < n" "n \<le> length (encode_secret_part env salt (sint iterations) mast (encode_blocks env sd its))" and rest: "length rest < 4"
  shows "(let data = encode_keyring env salt iterations mast its c sd in
      gkm_secret_binary_read h env visit (take (length data - n) data) (c0, sdata) = None)
    \<and> gkm_secret_binary_read h env visit (KEYRING_FILE_HEADER @ rest) (c0, sdata) = None"
proof
  let ?bl = "encode_blocks env sd its"
  let ?data = "encode_keyring env salt iterations mast its c sd" and ?part = "encode_secret_part env salt (sint iterations) mast ?bl"
  let ?size = "of_nat (length ?bl) :: 32 word" and ?num = "of_nat (length its) :: 32 word" and ?cut = "take (length ?data - n) ?data"
  let ?pre = "KEYRING_FILE_HEADER @ [0, 0, 0, 0] @ encode_head salt iterations c @ egg_buffer_encode_uint32 ?num"
  let ?short = "take (length ?part - n) ?part" and ?hashed = "concat (map (encode_hashed_item env) its)"
  have d: "digests_ok env" using env by (simp add: env_ok_def)
  have o: "text_ok env (coll_label c)" "length salt = 8" "\<forall>item \<in> set its. item_ok env sd item" "length its < 2 ^ 31" "length ?bl < 2 ^ 31"
    using ok by (simp_all add: keyring_ok_def)
  have lp: "length ?part = length ?bl" by (rule length_secret_part [OF env i])
  have u: "unat ?size = length ?bl" using o(5) by (intro unat_of_nat_small) simp
  have m: "?size mod 16 = 0" using length_encode_blocks(1) [OF d, of sd its] o(5) by (intro word_mod_16) (metis dvd_triv_left, simp)
  have whole: "?data = (?pre @ ?hashed @ egg_buffer_encode_uint32 ?size) @ ?part" by (simp add: encode_keyring_def encode_hashed_part_def)
  have cut: "?cut = ?pre @ ?hashed @ egg_buffer_encode_uint32 ?size @ ?short" 
    using take_cut [OF n(2), of "?pre @ ?hashed @ egg_buffer_encode_uint32 ?size", folded whole] by (simp only: append_assoc)
  have small: "length ?cut < 2 ^ 62" using granting.keyring_small [OF heap env ok i, of mast] by simp
  have "read_items h env sdata iterations salt ?num (egg_buffer_init_static ?cut) (length ?pre) = None"
    by (rule granting.read_items_short [OF heap d o(3,4) cut small m]) (use n lp u in simp)
  then have "gkm_secret_binary_read h env visit ?cut (c0, sdata) = None"
    using granting.read_head_part [OF heap o(1,2) _ small, of iterations ?num "?hashed @ egg_buffer_encode_uint32 ?size @ ?short" visit c0 sdata] cut
    by (simp add: finish_read_def)
  then show "let data = ?data in gkm_secret_binary_read h env visit (take (length data - n) data) (c0, sdata) = None" by (simp only: Let_def)
  have "length KEYRING_FILE_HEADER = 15" by (simp add: KEYRING_FILE_HEADER_def ascii_def)
  then show "gkm_secret_binary_read h env visit (KEYRING_FILE_HEADER @ rest) (c0, sdata) = None"
    using rest by (simp add: gkm_secret_binary_read_def egg_buffer_init_static_def eb_load_def mem_read_def Let_def)
qed

theorem keyring_cut_off_overread_witness:
  "let data = encode_keyring demo_env [1, 2, 3, 4, 5, 6, 7, 8] 1500 (Some [42]) (gkm_secret_collection_get_items (\<lambda>xs. xs) demo_collection) demo_collection demo_data in
     gkm_secret_binary_read libc_realloc demo_env (\<lambda>xs. xs) (take (length data - 1) data) (empty_collection, None) = None"
proof -
  let ?its = "gkm_secret_collection_get_items (\<lambda>xs. xs) demo_collection" and ?salt = "[1, 2, 3, 4, 5, 6, 7, 8] :: bytes"
  have i: "1 \<le> sint (1500 :: 32 word)" by simp
  have d: "digests_ok demo_env" using demo_env_ok by (simp add: env_ok_def)
  have "1 \<le> length (encode_secret_part demo_env ?salt (sint (1500 :: 32 word)) (Some [42]) (encode_blocks demo_env demo_data ?its))"
    using length_secret_part [OF demo_env_ok i, of ?salt "Some [42]" demo_data ?its] length_encode_blocks(2) [OF d, of demo_data ?its] by linarith
  from keyring_cut_off_overread [OF granting_libc demo_env_ok i demo_keyring_ok zero_less_one this, of "[]" "\<lambda>xs. xs" empty_collection None] show ?thesis by simp
qed

section \<open>The attributes of a client\<close>

definition client_field :: "(bytes \<Rightarrow> bool) \<Rightarrow> bytes \<times> bytes option \<Rightarrow> bool" where
  "client_field valid = (\<lambda>(k, v). case v of None \<Rightarrow> False | Some x \<Rightarrow> 0 \<notin> set k \<and> 0 \<notin> set x \<and> valid k \<and> valid x)"

lemma takeWhile_nul: "0 \<notin> set k \<Longrightarrow> takeWhile (\<lambda>c. c \<noteq> 0) (k @ 0 # rest) = k" "0 \<notin> set k \<Longrightarrow> dropWhile (\<lambda>c. c \<noteq> 0) (k @ 0 # rest) = 0 # rest" for k :: bytes
  by (induction k) auto

lemma parse_loop_encoded:
  "\<forall>e \<in> set es. client_field valid e \<Longrightarrow>
     fields_parse_loop valid (concat (map each_field_append es)) acc = Some (fold (\<lambda>(k, v). AList.update k v) es acc)"
proof (induction es arbitrary: acc)
  case Nil
  then show ?case by (simp add: fields_parse_loop.simps)
next
  case (Cons e es)
  obtain k x where e: "e = (k, Some x)" "0 \<notin> set k" "0 \<notin> set x" "valid k" "valid x"
    using Cons.prems by (cases e) (auto simp: client_field_def split: option.splits)
  have "fields_parse_loop valid (concat (map each_field_append (e # es))) acc = fields_parse_loop valid (concat (map each_field_append es)) (AList.update k (Some x) acc)"
    using e by (subst fields_parse_loop.simps) (simp add: each_field_append_def takeWhile_nul Let_def)
  also have "\<dots> = Some (fold (\<lambda>(k, v). AList.update k v) es (AList.update k (Some x) acc))" using Cons.prems by (intro Cons.IH) simp
  finally show ?case using e(1) by simp
qed

lemma fold_update_table:
  "distinct (map fst es) \<Longrightarrow> map_of (fold (\<lambda>(k, v). AList.update k v) es acc) = map_of acc ++ map_of es"
proof (induction es arbitrary: acc)
  case (Cons e es)
  obtain k v where e: "e = (k, v)" by force
  have "map_of es k = None" using Cons.prems e by (simp add: map_of_eq_None_iff)
  then have "(map_of acc)(k \<mapsto> v) ++ map_of es = map_of acc ++ map_of (e # es)" using e by (auto simp: map_add_def split: option.split)
  moreover have "map_of (AList.update k v acc) = (map_of acc)(k \<mapsto> v)" by (simp add: update_conv' fun_eq_iff)
  moreover have "distinct (map fst es)" using Cons.prems by simp
  ultimately show ?case using Cons.IH [of "AList.update k v acc"] by (simp only: e fold_simps prod.case)
qed simp

lemma fields_length_encoded:
  "\<forall>e \<in> set es. client_field valid e \<Longrightarrow> fields_length es = Some (length (concat (map each_field_append es)))"
  by (induction es) (auto simp: each_field_length_def each_field_append_def client_field_def split: option.splits)

text \<open>C25: The attributes of an item as a client sees them: a first call of \<^verbatim>\<open>gkm_secret_fields_serialize\<close> without memory gives the length, a second
  one with that much memory gives the text, and \<^verbatim>\<open>gkm_secret_fields_parse\<close> makes the same table of it, in whatever order the table is visited.\<close>

theorem fields_roundtrip:
  assumes visit: "visit_ok visit" and tab: "distinct (map fst tab)" "\<forall>e \<in> set tab. client_field valid e"
    and size: "length (concat (map each_field_append (visit tab))) = n" "n < 2 ^ 63" and m: "length m = n"
  shows "gkm_secret_fields_serialize visit (attr\<lparr>pValue := None\<rparr>) tab = Some (CKR_OK, attr\<lparr>pValue := None, ulValueLen := of_nat n\<rparr>)
    \<and> (\<exists>attr' tab'. gkm_secret_fields_serialize visit (attr\<lparr>pValue := Some m, ulValueLen := of_nat n\<rparr>) tab = Some (CKR_OK, attr')
         \<and> gkm_secret_fields_parse valid attr' = Some (CKR_OK, Some tab') \<and> map_of tab' = map_of tab)"
proof -
  let ?es = "visit tab" let ?bs = "concat (map each_field_append ?es)"
  let ?tab' = "fold (\<lambda>(k, v). AList.update k v) ?es gkm_secret_fields_new" and ?attr' = "attr\<lparr>pValue := Some ?bs, ulValueLen := of_nat n\<rparr>"
  have v: "distinct ?es" "set ?es = set tab" using visit tab(1) by (simp_all add: visit_ok_def distinct_map)
  have ok: "\<forall>e \<in> set ?es. client_field valid e" using tab(2) v(2) by simp
  have de: "distinct (map fst ?es)" using v tab(1) by (simp add: distinct_map)
  have u: "unat (of_nat n :: CK_ULONG) = n" using size(2) by (intro unat_of_nat_small) simp
  have "map_of ?es = map_of tab" using map_of_inject_set [OF de tab(1)] v(2) by simp
  then have "map_of ?tab' = map_of tab" using fold_update_table [OF de, of gkm_secret_fields_new] by (simp add: gkm_secret_fields_new_def)
  moreover have "gkm_secret_fields_serialize visit (attr\<lparr>pValue := Some m, ulValueLen := of_nat n\<rparr>) tab = Some (CKR_OK, ?attr')"
    using m u size(1) by (simp add: gkm_secret_fields_serialize_def gkm_attribute_set_data_def gkm_util_return_data_def mem_write_def CKR_OK_def CKR_BUFFER_TOO_SMALL_def)
  moreover have "gkm_secret_fields_parse valid ?attr' = Some (CKR_OK, Some ?tab')"
    using u size(1) parse_loop_encoded [OF ok, of gkm_secret_fields_new] by (simp add: gkm_secret_fields_parse_def mem_read_def)
  moreover have "gkm_secret_fields_serialize visit (attr\<lparr>pValue := None\<rparr>) tab = Some (CKR_OK, attr\<lparr>pValue := None, ulValueLen := of_nat n\<rparr>)"
    using fields_length_encoded [OF ok] size(1) by (simp add: gkm_secret_fields_serialize_def)
  ultimately show ?thesis by blast
qed

theorem fields_roundtrip_witness:
  "\<exists>attr' tab'. gkm_secret_fields_serialize rev \<lparr>attr_type = 1, pValue = Some (replicate 8 0), ulValueLen = 8\<rparr> [([97], Some [98]), ([99], Some [100])] = Some (CKR_OK, attr')
    \<and> gkm_secret_fields_parse (\<lambda>s. True) attr' = Some (CKR_OK, Some tab') \<and> map_of tab' = map_of [([97], Some [98]), ([99], Some [100])]"
proof -
  let ?tab = "[([97], Some [98]), ([99], Some [100])] :: fields" and ?attr = "\<lparr>attr_type = 1, pValue = None, ulValueLen = 0\<rparr> :: CK_ATTRIBUTE"
  have v: "visit_ok (rev :: fields \<Rightarrow> fields)" by (simp add: visit_ok_def)
  have ok: "distinct (map fst ?tab)" "\<forall>e \<in> set ?tab. client_field (\<lambda>s. True) e" "length (concat (map each_field_append (rev ?tab))) = 8" "(8 :: nat) < 2 ^ 63"
    "length (replicate 8 0 :: bytes) = 8" by (simp_all add: client_field_def each_field_append_def)
  from fields_roundtrip [OF v ok, of ?attr] show ?thesis by simp
qed

end
