(* ===== verification/Spec2Isabelle.thy ===== *)
theory Spec2Isabelle
  imports EggHex EggPadding EggSecureUse GkmRollback RpcRemote RpcClient WrapUse SecretUse
begin

text \<open>
  A verification of parts of mate-keyring, the password and key store of the MATE desktop.

  \<^bold>\<open>The program.\<close> The daemon keeps secrets and keys in stores that are PKCS\#11 modules
  (\<^verbatim>\<open>pkcs11/gkm\<close> and \<^verbatim>\<open>pkcs11/*-store\<close>). Applications load a small PKCS\#11 module
  (\<^verbatim>\<open>pkcs11/rpc-layer/gkm-rpc-module.c\<close>) that sends each call over a Unix socket to the daemon
  (\<^verbatim>\<open>pkcs11/rpc-layer/gkm-rpc-dispatch.c\<close>), which runs it on the stores and sends the result back. All stores appear to
  it as one module, the wrap layer (\<^verbatim>\<open>pkcs11/wrap-layer/gkm-wrap-layer.c\<close>), which also asks the user for PINs. The secret
  store (\<^verbatim>\<open>pkcs11/secret-store\<close>) keeps the passwords of the user in collections, each in a keyring file encrypted with its master secret. The
  library \<^verbatim>\<open>egg\<close> holds what all parts use: growable buffers, hexadecimal digits, padding, secure memory.

  \<^bold>\<open>The theories.\<close>
  \<^item> \<open>Prelude\<close>: machine sizes (\<open>size_add\<close>, \<open>size_mul\<close> wrap at \<open>2\<^sup>6\<^sup>4\<close>), memory blocks as byte lists whose
    access outside is \<open>None\<close>, C strings.
  \<^item> \<open>EggBuffer\<close> (\<^verbatim>\<open>egg/egg-buffer.c\<close>): the growable buffer; the record \<open>EggBuffer\<close> is the C struct and the
    allocator is the parameter \<open>h\<close>, whose contract is the locale \<open>egg_allocator\<close> (interpreted for \<^verbatim>\<open>realloc\<close>).
    \<open>emits\<close>, \<open>parses\<close> and \<open>safe_getter\<close> are the contracts of writers and readers that everything above rests on.
    \<open>EggCodec\<close>: writers and readers on an allocator that gives what is asked for (the locale \<open>granting\<close>, which extends
    \<open>egg_allocator\<close>), used by \<open>RpcRemote\<close> and by the theories of the keyring file.
  \<^item> \<open>EggHex\<close> (\<^verbatim>\<open>egg/egg-hex.c\<close>), \<open>EggPadding\<close> (\<^verbatim>\<open>egg/egg-padding.c\<close>).
  \<^item> \<open>EggSecure\<close> (\<^verbatim>\<open>egg/egg-secure-memory.c\<close>): the allocator for locked memory, with its guard words, cells, rings of
    unused cells, blocks and pools of meta data at explicit addresses. The system calls are the record \<open>OS\<close> and the
    locale \<open>secure_os\<close> their contract. \<open>EggSecureRing\<close>: rings, pools and the words in memory. \<open>EggSecureBlock\<close>: one block is
    tiled by cells, and each operation on it. \<open>EggSecureSpec\<close>: \<open>secure_inv\<close> relates the library to the set of
    allocations with their bytes, and every function refines its meaning on this set. \<open>EggSecureUse\<close>: a concrete
    system, the runs of a program (\<open>secure_run\<close>) and the properties.
  \<^item> \<open>RpcUtil\<close> (\<^verbatim>\<open>gkm-rpc-util.c\<close>), \<open>RpcMessage\<close> (\<^verbatim>\<open>gkm-rpc-message.c\<close>, \<^verbatim>\<open>gkm-rpc-private.h\<close>): messages and the table of
    calls. \<open>RpcProto\<close>: the argument codecs of both ends. \<open>RpcCodec\<close>: what one end writes the other end reads.
  \<^item> \<open>RpcHandlers\<close>, \<open>RpcDispatch\<close> (\<^verbatim>\<open>gkm-rpc-dispatch.c\<close>): the 67 handlers of the daemon, the dispatcher and
    the loop that serves a connection. \<open>RpcServe\<close>: the daemon answers whatever a client sends.
  \<^item> \<open>RpcModule\<close> (\<^verbatim>\<open>gkm-rpc-module.c\<close>): the argument string, the pool of connections and the 67 stubs of
    the client. \<open>RpcClient\<close>: the invariant of the pool and the parsing of the argument string.
  \<^item> \<open>RpcRemote\<close>: the two ends joined by a connection, where the client's outside world is the daemon of
    \<open>RpcDispatch\<close>. On an idle connection, with the memory that both ends ask for (the locale \<open>granting\<close>), a call of a
    stub is the call of the module in the daemon: the same return value, output and effect, and the connection is idle again. Without memory
    a call may fail and leave its response unread on the connection, which is a finding of the manifest.
  \<^item> \<open>WrapLayer\<close> (\<^verbatim>\<open>gkm-wrap-layer.c\<close>): the calls of the wrap layer over its tables of slots and sessions (the record \<open>Wrap\<close>).
    \<open>WrapProps\<close>: the invariant of the tables over all runs (\<open>wrap_run\<close>). \<open>WrapUse\<close>: a session of the layer is the session
    of its module, slots and their numbers, errors and prompts.
  \<^item> \<open>SecretFields\<close> (\<^verbatim>\<open>gkm-secret-fields.c\<close>, \<^verbatim>\<open>gkm-secret-compat.c\<close>): the attributes of secret items, as clients see them, as digests, and
    how they are matched. \<open>SecretBinary\<close> (\<^verbatim>\<open>gkm-secret-binary.c\<close>): the keyring file; a collection is the record
    \<open>GkmSecretCollection\<close> and its secrets the record \<open>GkmSecretData\<close>. \<open>SecretTable\<close>: the fields as they are coded in the file.
    \<open>SecretCodec\<close>, \<open>SecretItems\<close>, \<open>SecretCipher\<close>: the bytes of strings, items and encrypted blocks, written and read, on an allocator that gives
    what is asked for (\<open>granting\<close>). \<open>SecretFile\<close>, \<open>SecretLoad\<close>, \<open>SecretUpdate\<close>: the file as a whole, and the
    collection it is read into. \<open>SecretUse\<close>: a keyring is read as it was written, with and without its
    master secret; failed reads change nothing; damaged files.
  \<^item> \<open>GkmTransaction\<close> (\<^verbatim>\<open>pkcs11/gkm/gkm-transaction.c\<close>): file transactions over a file system of names and
    inodes. \<open>GkmRollback\<close>: transactions are atomic, up to what the code makes of a \<^verbatim>\<open>write\<close> that is short (the file is cut
    off) or interrupted (the call does not come back).

  \<^bold>\<open>Conventions.\<close> A C function is a function of the same name over explicit state. \<open>None\<close> as the result of a
  function that may fault is a failed assertion, an access outside of a block, or a loop that does not
  end; a theorem that a call returns says it is \<open>Some\<close>. Return codes are values (\<open>CK_RV\<close>, booleans).
  \<^verbatim>\<open>CK_ULONG\<close> is a 64 bit word and lengths on the wire are 32 bit words. Code outside of the repository is
  a parameter: the allocator (\<open>heap\<close>), sockets (\<open>SOCKET\<close>, \<open>NET\<close>), the random generator, the ciphers and digests of libgcrypt (\<open>Env\<close>), the PKCS\#11 modules
  of the daemon (\<open>CK_FUNCTION_LIST\<close>), system calls of files; each has its contract as a locale or a
  predicate (\<open>egg_allocator\<close>, \<open>granting\<close>, \<open>secure_os\<close>, \<open>socket_ok\<close>, \<open>net_ok\<close>, \<open>module_ok\<close>, \<open>env_ok\<close>) and a concrete instance in a witness.
  \<open>module_ok\<close> is what PKCS\#11 documents for an attribute that does not fit (the length \<open>-1\<close>); one function of the stores,
  \<^verbatim>\<open>gkm-attributes.c\<close> line 375, returns the length needed instead, see the findings. The dialogues of the wrap layer (\<^verbatim>\<open>gkm-wrap-prompt.c\<close>,
  \<^verbatim>\<open>gkm-wrap-login.c\<close>) are code of the repository that is not modelled: they are the parameter \<open>Prompts\<close> of the calls that use them, of which
  \<open>login_prompts\<close> says that they act on the layer only through its own calls. The values of
  uninitialised variables are parameters (\<open>junk\<close>).

  \<^bold>\<open>Loops.\<close> Loops that end by themselves are \<open>fun\<close> or \<open>function\<close> with a measure. The loops on sockets, the retry loops
  of the file transactions, the search for nonzero random bytes, the loops of the secure memory along rings and
  cells, the loop that fills the last block of a keyring file and the loops over prompts are \<open>partial_function\<close>s; that they
  return is proved, from a measure of the environment or from the invariant, or, where the code may really run forever (random bytes, prompts, \<^verbatim>\<open>write\<close>), exactly when they
  do not. There is no fuel.

  \<^bold>\<open>Not modelled.\<close> Threads and mutexes (each call holds its own connection and each dispatcher thread its own
  state), logging, GObject property plumbing, and the components listed as such in the manifest: GTK
  prompts, D-Bus services, libgcrypt wrappers, the ASN.1 engine, the PKCS\#11 objects of the stores with their attributes,
  sessions and factories, the unencrypted keyring format and the test doubles.
\<close>

end
